(* ===== verification/OrdaBase.thy ===== *)
theory OrdaBase
  imports Main "HOL-Library.Word"
begin

text \<open>
  Shared vocabulary of the development: machine integers, SQLSTATE-coded errors, results,
  checked arithmetic and little-endian byte strings.

  \<^item> \<open>u8\<close>, \<open>u16\<close>, \<open>u32\<close>, \<open>u64\<close> are words of HOL-Library.Word. \<open>usize\<close> values that index
    into vectors are \<open>nat\<close>.
  \<^item> \<open>DbError\<close> (crates/ordadb-types/src/lib.rs) carries a five character SQLSTATE and
    human-readable text. The model keeps the SQLSTATE, one constructor for each code the
    modelled crates raise, and leaves out message, detail, hint and query id.
  \<^item> \<open>Result<T>\<close> is the sum \<open>db_error + 'a\<close>: \<open>Inl\<close> is \<open>Err\<close>, \<open>Inr\<close> is \<open>Ok\<close>, and \<open>try_bind\<close>
    is the \<open>?\<close> operator. The operators are polymorphic in the error; a component whose errors
    carry text has an error type of its own.
\<close>

type_synonym u8 = "8 word"
type_synonym u16 = "16 word"
type_synonym u32 = "32 word"
type_synonym u64 = "64 word"

named_theorems le_simps "little-endian codecs and their inverses"
named_theorems res_simps "results, the question-mark operator and its inversions"

section \<open>Errors and results\<close>

datatype db_error =
    E_PANIC   \<comment> \<open>not a SQLSTATE: the thread panics\<close>
  | E_0A000   \<comment> \<open>unsupported format version or feature\<close>
  | E_22007   \<comment> \<open>invalid datetime format\<close>
  | E_22015   \<comment> \<open>interval field overflow\<close>
  | E_2202E   \<comment> \<open>array subscript error\<close>
  | E_22023   \<comment> \<open>invalid parameter value\<close>
  | E_22P02   \<comment> \<open>invalid text representation\<close>
  | E_23505   \<comment> \<open>unique violation\<close>
  | E_25000   \<comment> \<open>invalid transaction state\<close>
  | E_25001   \<comment> \<open>active SQL transaction\<close>
  | E_25006   \<comment> \<open>read-only transaction or file\<close>
  | E_25P01   \<comment> \<open>no active transaction\<close>
  | E_3B001   \<comment> \<open>invalid savepoint\<close>
  | E_34000   \<comment> \<open>invalid cursor name\<close>
  | E_40001   \<comment> \<open>serialization failure\<close>
  | E_40P01   \<comment> \<open>deadlock detected\<close>
  | E_42601   \<comment> \<open>syntax error\<close>
  | E_42703   \<comment> \<open>undefined column or variable\<close>
  | E_42704   \<comment> \<open>undefined object\<close>
  | E_42710   \<comment> \<open>duplicate object\<close>
  | E_42804   \<comment> \<open>datatype mismatch\<close>
  | E_53000   \<comment> \<open>insufficient resources\<close>
  | E_54000   \<comment> \<open>program limit exceeded\<close>
  | E_54001   \<comment> \<open>statement too complex\<close>
  | E_55000   \<comment> \<open>object not in prerequisite state\<close>
  | E_55P03   \<comment> \<open>lock not available\<close>
  | E_57014   \<comment> \<open>query cancelled\<close>
  | E_58030   \<comment> \<open>I/O error\<close>
  | E_XX000   \<comment> \<open>internal error\<close>
  | E_XX001   \<comment> \<open>data corrupted\<close>

type_synonym 'a res = "db_error + 'a"

abbreviation Ok :: "'a \<Rightarrow> 'a res" where "Ok \<equiv> Inr"
abbreviation Err :: "db_error \<Rightarrow> 'a res" where "Err \<equiv> Inl"

definition try_bind :: "'e + 'a \<Rightarrow> ('a \<Rightarrow> 'e + 'b) \<Rightarrow> 'e + 'b" where
  "try_bind r f = (case r of Inl e \<Rightarrow> Inl e | Inr x \<Rightarrow> f x)"

lemma try_bind_simps [simp]:
  "try_bind (Inl e) f = Inl e"
  "try_bind (Inr x) f = f x"
  by (simp_all add: try_bind_def)

lemma try_bind_eq_Ok [res_simps]: "try_bind r f = Inr y \<longleftrightarrow> (\<exists>x. r = Inr x \<and> f x = Inr y)"
  by (cases r) auto

lemma try_bind_eq_Err [res_simps]:
  "try_bind r f = Inl e \<longleftrightarrow> r = Inl e \<or> (\<exists>x. r = Inr x \<and> f x = Inl e)"
  by (cases r) auto

lemma try_bindE:
  assumes "try_bind r f = Inr y"
  obtains x where "r = Inr x" and "f x = Inr y"
  using assms by (auto simp: try_bind_eq_Ok)

lemma try_bind_cong [fundef_cong]:
  "r = r' \<Longrightarrow> (\<And>x. r' = Inr x \<Longrightarrow> f x = g x) \<Longrightarrow> try_bind r f = try_bind r' g"
  by (cases r') auto

text \<open>\<open>ok_or\<close> is Rust's \<open>Option::ok_or_else\<close>; \<open>guard_res\<close> is an early \<open>return Err\<close>.\<close>

definition ok_or :: "'e \<Rightarrow> 'a option \<Rightarrow> 'e + 'a" where
  "ok_or e r = (case r of None \<Rightarrow> Inl e | Some x \<Rightarrow> Inr x)"

lemma ok_or_simps [simp]: "ok_or e None = Inl e" "ok_or e (Some x) = Inr x"
  by (simp_all add: ok_or_def)

lemma ok_or_eq_Ok [res_simps]: "ok_or e r = Inr x \<longleftrightarrow> r = Some x"
  by (cases r) auto

lemma ok_or_eq_Err [res_simps]: "ok_or e r = Inl e' \<longleftrightarrow> r = None \<and> e' = e"
  by (cases r) auto

definition guard_res :: "bool \<Rightarrow> 'e \<Rightarrow> 'e + 'a \<Rightarrow> 'e + 'a" where
  "guard_res bad e k = (if bad then Inl e else k)"

lemma guard_res_simps [simp]:
  "guard_res True e k = Inl e" "guard_res False e k = k"
  by (simp_all add: guard_res_def)

lemma guard_res_eq_Ok [res_simps]: "guard_res bad e k = Inr x \<longleftrightarrow> \<not> bad \<and> k = Inr x"
  by (simp add: guard_res_def)

lemma guard_res_eq_Err [res_simps]:
  "guard_res bad e k = Inl e' \<longleftrightarrow> (bad \<and> e' = e) \<or> (\<not> bad \<and> k = Inl e')"
  by (auto simp: guard_res_def)

definition is_ok :: "'e + 'a \<Rightarrow> bool" where
  "is_ok r = (case r of Inl _ \<Rightarrow> False | Inr _ \<Rightarrow> True)"

lemma is_ok_simps [simp]: "is_ok (Inl e) = False" "is_ok (Inr x) = True"
  by (simp_all add: is_ok_def)

lemma is_ok_iff: "is_ok r \<longleftrightarrow> (\<exists>x. r = Inr x)"
  by (cases r) auto

text \<open>A loop over a list whose body may fail.\<close>

primrec fold_res :: "('x \<Rightarrow> 's \<Rightarrow> 'e + 's) \<Rightarrow> 'x list \<Rightarrow> 's \<Rightarrow> 'e + 's" where
  "fold_res f [] s = Inr s"
| "fold_res f (x # xs) s = try_bind (f x s) (fold_res f xs)"

section \<open>Checked arithmetic on u64 and usize\<close>

definition checked_add_u64 :: "u64 \<Rightarrow> u64 \<Rightarrow> u64 option" where
  "checked_add_u64 a b = (if unat a + unat b < 2 ^ 64 then Some (a + b) else None)"

lemma checked_add_u64_Some:
  assumes "checked_add_u64 a b = Some c"
  shows "unat c = unat a + unat b"
  using assms by (auto simp: checked_add_u64_def unat_word_ariths split: if_splits)

lemma checked_add_u64_Some_iff:
  "checked_add_u64 a b = Some c \<longleftrightarrow> c = a + b \<and> unat a + unat b < 2 ^ 64"
  by (auto simp: checked_add_u64_def)

lemma checked_add_one_less: "checked_add_u64 a 1 = Some c \<Longrightarrow> a < c"
  by (drule checked_add_u64_Some) (simp add: word_less_nat_alt)

lemma checked_add_one_not_zero: "checked_add_u64 a 1 = Some c \<Longrightarrow> c \<noteq> 0"
  by (drule checked_add_u64_Some) (auto simp: unat_eq_0)

lemma checked_add_one_le_iff: "checked_add_u64 a 1 = Some c \<Longrightarrow> b < c \<longleftrightarrow> b \<le> a"
  by (drule checked_add_u64_Some) (simp add: word_less_nat_alt word_le_nat_alt less_Suc_eq_le)

definition saturating_add_u64 :: "u64 \<Rightarrow> u64 \<Rightarrow> u64" where
  "saturating_add_u64 a b = (case checked_add_u64 a b of Some c \<Rightarrow> c | None \<Rightarrow> - 1)"

lemma saturating_add_u64_ge: "a \<le> saturating_add_u64 a b"
proof (cases "checked_add_u64 a b")
  case None
  then show ?thesis by (simp add: saturating_add_u64_def)
next
  case (Some c)
  then have "unat c = unat a + unat b" by (rule checked_add_u64_Some)
  with Some show ?thesis by (simp add: saturating_add_u64_def word_le_nat_alt)
qed

definition checked_mul_u64 :: "u64 \<Rightarrow> u64 \<Rightarrow> u64 option" where
  "checked_mul_u64 a b = (if unat a * unat b < 2 ^ 64 then Some (a * b) else None)"

lemma checked_mul_u64_Some:
  assumes "checked_mul_u64 a b = Some c"
  shows "unat c = unat a * unat b"
  using assms by (auto simp: checked_mul_u64_def unat_word_ariths split: if_splits)

definition usize_max :: nat where "usize_max = 2 ^ 64 - 1"

definition checked_add_usize :: "nat \<Rightarrow> nat \<Rightarrow> nat option" where
  "checked_add_usize a b = (if a + b \<le> usize_max then Some (a + b) else None)"

lemma checked_add_usize_Some [simp]: "a + b \<le> usize_max \<Longrightarrow> checked_add_usize a b = Some (a + b)"
  by (simp add: checked_add_usize_def)

text \<open>\<open>saturating_add(1)\<close>.\<close>

definition count_up :: "nat \<Rightarrow> nat" where
  "count_up n = min (n + 1) usize_max"

definition checked_mul_usize :: "nat \<Rightarrow> nat \<Rightarrow> nat option" where
  "checked_mul_usize a b = (if a * b \<le> usize_max then Some (a * b) else None)"

lemma checked_mul_usize_Some [simp]: "a * b \<le> usize_max \<Longrightarrow> checked_mul_usize a b = Some (a * b)"
  by (simp add: checked_mul_usize_def)

lemma checked_add_usize_SomeD: "checked_add_usize a b = Some c \<Longrightarrow> c = a + b"
  by (simp add: checked_add_usize_def split: if_splits)

section \<open>Little-endian bytes\<close>

lemma unat_eq_iff: "unat a = unat b \<longleftrightarrow> a = b"
  by (simp add: word_unat_eq_iff)

lemma unat_bound: "unat (w :: 'a::len word) < 2 ^ LENGTH('a)"
  by (rule unsigned_less)

text \<open>For evaluation: without the unary \<open>2 ^ 64\<close>.\<close>

lemma checked_add_u64_code [code]: "checked_add_u64 a b = (if b \<le> - 1 - a then Some (a + b) else None)"
proof -
  have "unat (- 1 - a) = unat (- 1 :: u64) - unat a" by (rule unat_sub) simp
  moreover have "unat (- 1 :: u64) = 2 ^ 64 - 1" by (simp add: unsigned_minus_1_eq_mask mask_eq_exp_minus_1)
  ultimately have "b \<le> - 1 - a \<longleftrightarrow> unat a + unat b < 2 ^ 64"
    using unat_bound [of a] by (simp add: word_le_nat_alt) linarith
  then show ?thesis by (simp add: checked_add_u64_def)
qed

primrec le_bytes :: "nat \<Rightarrow> nat \<Rightarrow> u8 list" where
  "le_bytes 0 x = []"
| "le_bytes (Suc n) x = of_nat (x mod 256) # le_bytes n (x div 256)"

primrec le_nat :: "u8 list \<Rightarrow> nat" where
  "le_nat [] = 0"
| "le_nat (b # bs) = unat b + 256 * le_nat bs"

lemma length_le_bytes [simp]: "length (le_bytes n x) = n"
  by (induction n arbitrary: x) auto

lemma unat_byte_mod: "unat (of_nat (x mod 256) :: u8) = x mod 256"
  by (simp add: unat_of_nat)

lemma le_nat_le_bytes: "le_nat (le_bytes n x) = x mod 256 ^ n"
proof (induction n arbitrary: x)
  case 0
  then show ?case by simp
next
  case (Suc n)
  have "x mod 256 ^ Suc n = 256 * (x div 256 mod 256 ^ n) + x mod 256"
    using mod_mult2_eq [of x 256 "256 ^ n"] by simp
  with Suc show ?case by (simp add: unat_byte_mod del: of_nat_mod)
qed

lemma le_nat_less: "le_nat bs < 256 ^ length bs"
proof (induction bs)
  case Nil
  then show ?case by simp
next
  case (Cons b bs)
  have "unat b < 256" using unat_bound [of b] by simp
  with Cons show ?case by simp
qed

lemma le_bytes_le_nat: "le_bytes (length bs) (le_nat bs) = bs"
proof (induction bs)
  case Nil
  then show ?case by simp
next
  case (Cons b bs)
  have b: "unat b < 256" using unat_bound [of b] by simp
  then have "(unat b + 256 * le_nat bs) mod 256 = unat b"
    and "(unat b + 256 * le_nat bs) div 256 = le_nat bs" by auto
  with Cons show ?case by (simp del: of_nat_mod)
qed

definition to_le_u16 :: "u16 \<Rightarrow> u8 list" where "to_le_u16 w = le_bytes 2 (unat w)"
definition to_le_u32 :: "u32 \<Rightarrow> u8 list" where "to_le_u32 w = le_bytes 4 (unat w)"
definition to_le_u64 :: "u64 \<Rightarrow> u8 list" where "to_le_u64 w = le_bytes 8 (unat w)"

definition from_le_u16 :: "u8 list \<Rightarrow> u16" where "from_le_u16 bs = of_nat (le_nat bs)"
definition from_le_u32 :: "u8 list \<Rightarrow> u32" where "from_le_u32 bs = of_nat (le_nat bs)"
definition from_le_u64 :: "u8 list \<Rightarrow> u64" where "from_le_u64 bs = of_nat (le_nat bs)"

lemma length_to_le [simp]:
  "length (to_le_u16 w) = 2" "length (to_le_u32 v) = 4" "length (to_le_u64 z) = 8"
  by (simp_all add: to_le_u16_def to_le_u32_def to_le_u64_def)

lemma from_to_le_u16 [simp, le_simps]: "from_le_u16 (to_le_u16 w) = w"
  using unat_bound [of w] by (simp add: from_le_u16_def to_le_u16_def le_nat_le_bytes)

lemma from_to_le_u32 [simp, le_simps]: "from_le_u32 (to_le_u32 w) = w"
  using unat_bound [of w] by (simp add: from_le_u32_def to_le_u32_def le_nat_le_bytes)

lemma from_to_le_u64 [simp, le_simps]: "from_le_u64 (to_le_u64 w) = w"
  using unat_bound [of w] by (simp add: from_le_u64_def to_le_u64_def le_nat_le_bytes)

lemma to_from_le_u16: "length bs = 2 \<Longrightarrow> to_le_u16 (from_le_u16 bs) = bs"
  using le_nat_less [of bs] le_bytes_le_nat [of bs]
  by (simp add: from_le_u16_def to_le_u16_def unat_of_nat)

lemma to_from_le_u32: "length bs = 4 \<Longrightarrow> to_le_u32 (from_le_u32 bs) = bs"
  using le_nat_less [of bs] le_bytes_le_nat [of bs]
  by (simp add: from_le_u32_def to_le_u32_def unat_of_nat)

lemma to_from_le_u64: "length bs = 8 \<Longrightarrow> to_le_u64 (from_le_u64 bs) = bs"
  using le_nat_less [of bs] le_bytes_le_nat [of bs]
  by (simp add: from_le_u64_def to_le_u64_def unat_of_nat)

text \<open>For evaluation.\<close>

lemma le_bytes_numeral:
  "le_bytes (numeral k) x = of_nat (x mod 256) # le_bytes (pred_numeral k) (x div 256)"
  unfolding numeral_eq_Suc [of k] by (rule le_bytes.simps)

lemmas le_eval = to_le_u16_def to_le_u32_def to_le_u64_def le_bytes_numeral

section \<open>Slices of a byte vector\<close>

text \<open>
  \<open>slice off n bs\<close> is \<open>&bs[off..off + n]\<close> and \<open>splice off new bs\<close> is
  \<open>bs[off..off + new.len()].copy_from_slice(new)\<close>, both used within bounds only; the
  lemmas that matter are those about reading back a written range and about ranges that do
  not meet.
\<close>

definition slice :: "nat \<Rightarrow> nat \<Rightarrow> 'a list \<Rightarrow> 'a list" where
  "slice off n bs = take n (drop off bs)"

definition splice :: "nat \<Rightarrow> 'a list \<Rightarrow> 'a list \<Rightarrow> 'a list" where
  "splice off new bs = take off bs @ new @ drop (off + length new) bs"

lemma length_slice [simp]: "off + n \<le> length bs \<Longrightarrow> length (slice off n bs) = n"
  by (simp add: slice_def)

lemma length_splice [simp]:
  "off + length new \<le> length bs \<Longrightarrow> length (splice off new bs) = length bs"
  by (simp add: splice_def)

lemma nth_slice: "i < n \<Longrightarrow> off + n \<le> length bs \<Longrightarrow> slice off n bs ! i = bs ! (off + i)"
  by (simp add: slice_def)

lemma nth_splice:
  "off + length new \<le> length bs \<Longrightarrow> i < length bs \<Longrightarrow>
     splice off new bs ! i =
       (if off \<le> i \<and> i < off + length new then new ! (i - off) else bs ! i)"
  by (auto simp: splice_def nth_append min_def)

lemma slice_splice_same [simp]:
  "off + length new \<le> length bs \<Longrightarrow> n = length new \<Longrightarrow> slice off n (splice off new bs) = new"
  by (simp add: slice_def splice_def)

lemma slice_splice_disjoint:
  assumes "off + length new \<le> length bs" and "o' + n \<le> length bs"
    and "o' + n \<le> off \<or> off + length new \<le> o'"
  shows "slice o' n (splice off new bs) = slice o' n bs"
proof (rule nth_equalityI)
  show "length (slice o' n (splice off new bs)) = length (slice o' n bs)"
    using assms by simp
next
  fix i assume "i < length (slice o' n (splice off new bs))"
  then have i: "i < n" using assms by simp
  then show "slice o' n (splice off new bs) ! i = slice o' n bs ! i"
    using assms by (auto simp: nth_slice nth_splice)
qed

lemma nth_splice_disjoint:
  "off + length new \<le> length bs \<Longrightarrow> i < length bs \<Longrightarrow> i < off \<or> off + length new \<le> i \<Longrightarrow>
     splice off new bs ! i = bs ! i"
  by (auto simp: nth_splice)

lemma splice_slice_id: "off + n \<le> length bs \<Longrightarrow> splice off (slice off n bs) bs = bs"
  by (rule nth_equalityI) (auto simp: nth_splice nth_slice)

lemma splice_overwrite:
  "off + length new \<le> length bs \<Longrightarrow> length old = length new \<Longrightarrow>
     splice off new (splice off old bs) = splice off new bs"
  by (rule nth_equalityI) (auto simp: nth_splice)

lemma splice_commute:
  assumes "a + length x \<le> length bs" and "b + length y \<le> length bs"
    and "a + length x \<le> b \<or> b + length y \<le> a"
  shows "splice a x (splice b y bs) = splice b y (splice a x bs)"
  using assms by (intro nth_equalityI) (auto simp: nth_splice)

lemma slice_append_left: "off + n \<le> length xs \<Longrightarrow> slice off n (xs @ ys) = slice off n xs"
  by (simp add: slice_def)

lemma slice_append_right:
  "length xs \<le> off \<Longrightarrow> slice off n (xs @ ys) = slice (off - length xs) n ys"
  by (simp add: slice_def)

lemma slice_all [simp]: "n = length bs \<Longrightarrow> slice 0 n bs = bs"
  by (simp add: slice_def)

end
