(* ===== verification/BTreeMap.thy ===== *)
theory BTreeMap
  imports OrdaBase "HOL-Library.List_Lexorder" "HOL-Library.Product_Lexorder"
begin

text \<open>
  The ordered containers of the Rust standard library that the modelled crates use.
  \<open>BTreeMap<K, V>\<close> is a strictly ascending association list, so that iteration has the
  order the code sees; \<open>BTreeSet<K>\<close> is a map to \<open>unit\<close>. The type carries the ordering
  invariant; everything is executable. The locale \<open>ordered_map\<close> is the contract the
  components rely on, and it is interpreted on the model at the end.
\<close>

section \<open>Strictly ascending association lists\<close>

definition asc :: "('k::linorder \<times> 'v) list \<Rightarrow> bool" where
  "asc xs = sorted_wrt (<) (map fst xs)"

fun al_insert :: "'k::linorder \<Rightarrow> 'v \<Rightarrow> ('k \<times> 'v) list \<Rightarrow> ('k \<times> 'v) list" where
  "al_insert k v [] = [(k, v)]"
| "al_insert k v ((k', v') # xs) =
     (if k < k' then (k, v) # (k', v') # xs
      else if k = k' then (k, v) # xs
      else (k', v') # al_insert k v xs)"

lemma asc_Nil [simp]: "asc []"
  by (simp add: asc_def)

lemma asc_Cons: "asc (p # xs) \<longleftrightarrow> (\<forall>q \<in> set xs. fst p < fst q) \<and> asc xs"
  by (auto simp: asc_def)

lemma asc_distinct: "asc xs \<Longrightarrow> distinct (map fst xs)"
  by (induction xs) (auto simp: asc_Cons)

lemma asc_filter: "asc xs \<Longrightarrow> asc (filter P xs)"
  by (induction xs) (auto simp: asc_Cons)

lemma set_al_insert: "set (al_insert k v xs) \<subseteq> insert (k, v) (set xs)"
  by (induction xs) (auto split: if_splits)

lemma asc_al_insert: "asc xs \<Longrightarrow> asc (al_insert k v xs)"
proof (induction xs)
  case Nil
  then show ?case by (simp add: asc_Cons)
next
  case (Cons p xs)
  then show ?case
    using set_al_insert [of k v xs] by (cases p) (fastforce simp: asc_Cons)
qed

lemma map_of_al_insert: "map_of (al_insert k v xs) = (map_of xs)(k \<mapsto> v)"
  by (induction xs) (auto simp: fun_eq_iff)

lemma asc_map_snd: "map fst (map (\<lambda>(k, v). (k, f k v)) xs) = map fst xs"
  by (induction xs) auto

lemma asc_map_of_eq:
  "asc xs \<Longrightarrow> asc ys \<Longrightarrow> map_of xs = map_of ys \<Longrightarrow> xs = ys"
proof (induction xs arbitrary: ys)
  case Nil
  then show ?case by (cases ys) (auto simp: fun_eq_iff split: if_splits)
next
  case (Cons p xs)
  obtain k v where p: "p = (k, v)" by (cases p)
  from Cons.prems p obtain q ys' where ys: "ys = q # ys'"
    by (cases ys) (auto simp: fun_eq_iff split: if_splits)
  obtain k' v' where q: "q = (k', v')" by (cases q)
  have kmem: "\<And>x. x \<in> fst ` set xs \<Longrightarrow> k < x" and k'mem: "\<And>x. x \<in> fst ` set ys' \<Longrightarrow> k' < x"
    using Cons.prems p q ys by (auto simp: asc_Cons)
  have dom: "insert k (fst ` set xs) = insert k' (fst ` set ys')"
  proof -
    have "dom (map_of (p # xs)) = dom (map_of ys)" by (simp only: Cons.prems(3))
    then show ?thesis unfolding dom_map_of_conv_image_fst using p q ys by simp
  qed
  have kk: "k = k'"
  proof (rule ccontr)
    assume "k \<noteq> k'"
    moreover have "k \<in> insert k' (fst ` set ys')" and "k' \<in> insert k (fst ` set xs)"
      using dom by blast+
    ultimately have "k < k'" and "k' < k" using kmem k'mem by simp_all
    then show False by simp
  qed
  have vv: "v = v'"
    using Cons.prems(3) p q ys kk by (auto simp: fun_eq_iff split: if_splits)
  have "map_of xs = map_of ys'"
  proof
    fix x
    have "map_of xs k = None" and "map_of ys' k = None"
      using kmem k'mem kk by (auto simp: map_of_eq_None_iff)
    then show "map_of xs x = map_of ys' x"
      using fun_cong [OF Cons.prems(3), of x] p q ys kk by (cases "x = k") auto
  qed
  with Cons.IH Cons.prems p q ys kk vv show ?case by (simp add: asc_Cons)
qed

section \<open>The map type and its operations\<close>

typedef (overloaded) ('k::linorder, 'v) btree_map = "{xs :: ('k \<times> 'v) list. asc xs}"
  morphisms bm_list Bm_abs
  by (rule exI [of _ "[]"]) simp

setup_lifting type_definition_btree_map

lift_definition bm_empty :: "('k::linorder, 'v) btree_map" is "[]" by simp

lift_definition bm_get :: "('k::linorder, 'v) btree_map \<Rightarrow> 'k \<Rightarrow> 'v option" is map_of .

lift_definition bm_insert :: "'k::linorder \<Rightarrow> 'v \<Rightarrow> ('k, 'v) btree_map \<Rightarrow> ('k, 'v) btree_map"
  is al_insert by (rule asc_al_insert)

lift_definition bm_remove :: "'k::linorder \<Rightarrow> ('k, 'v) btree_map \<Rightarrow> ('k, 'v) btree_map"
  is "\<lambda>k. filter (\<lambda>(k', _). k' \<noteq> k)" by (rule asc_filter)

lift_definition bm_retain :: "('k::linorder \<Rightarrow> 'v \<Rightarrow> bool) \<Rightarrow> ('k, 'v) btree_map \<Rightarrow> ('k, 'v) btree_map"
  is "\<lambda>P. filter (\<lambda>(k, v). P k v)" by (rule asc_filter)

lift_definition bm_map :: "('k::linorder \<Rightarrow> 'v \<Rightarrow> 'w) \<Rightarrow> ('k, 'v) btree_map \<Rightarrow> ('k, 'w) btree_map"
  is "\<lambda>f. map (\<lambda>(k, v). (k, f k v))" by (simp only: asc_def asc_map_snd)

lemma asc_bm_list [simp]: "asc (bm_list m)"
  using bm_list by simp

definition bm_keys :: "('k::linorder, 'v) btree_map \<Rightarrow> 'k list" where
  "bm_keys m = map fst (bm_list m)"

definition bm_values :: "('k::linorder, 'v) btree_map \<Rightarrow> 'v list" where
  "bm_values m = map snd (bm_list m)"

definition bm_len :: "('k::linorder, 'v) btree_map \<Rightarrow> nat" where
  "bm_len m = length (bm_list m)"

definition bm_contains :: "('k::linorder, 'v) btree_map \<Rightarrow> 'k \<Rightarrow> bool" where
  "bm_contains m k = (bm_get m k \<noteq> None)"

lemma bm_list_simps [simp]:
  "bm_list bm_empty = []"
  "bm_list (bm_insert k v m) = al_insert k v (bm_list m)"
  "bm_list (bm_remove k m) = filter (\<lambda>(k', _). k' \<noteq> k) (bm_list m)"
  "bm_list (bm_retain P m) = filter (\<lambda>(k, v). P k v) (bm_list m)"
  "bm_list (bm_map f m) = map (\<lambda>(k, v). (k, f k v)) (bm_list m)"
  by (simp_all add: bm_empty.rep_eq bm_insert.rep_eq bm_remove.rep_eq bm_retain.rep_eq
      bm_map.rep_eq)

lemma bm_get_map_of: "bm_get m k = map_of (bm_list m) k"
  by (simp add: bm_get.rep_eq)

lemma bm_eqI: "(\<And>k. bm_get m k = bm_get m' k) \<Longrightarrow> m = m'"
  by (metis asc_bm_list asc_map_of_eq bm_get.rep_eq bm_list_inject ext)

lemma bm_get_empty [simp]: "bm_get bm_empty k = None"
  by (simp add: bm_get_map_of)

lemma bm_get_insert [simp]: "bm_get (bm_insert k v m) k' = (if k' = k then Some v else bm_get m k')"
  by (simp add: bm_get_map_of map_of_al_insert)

lemma map_of_filter_key: "map_of (filter (\<lambda>(k', _). k' \<noteq> k) xs) k' = (if k' = k then None else map_of xs k')"
  by (induction xs) auto

lemma bm_get_remove [simp]: "bm_get (bm_remove k m) k' = (if k' = k then None else bm_get m k')"
  by (simp add: bm_get_map_of map_of_filter_key)

lemma map_of_filter_distinct:
  "distinct (map fst xs) \<Longrightarrow>
     map_of (filter (\<lambda>(k, v). P k v) xs) k =
       (case map_of xs k of None \<Rightarrow> None | Some v \<Rightarrow> if P k v then Some v else None)"
proof (induction xs)
  case Nil
  then show ?case by simp
next
  case (Cons p xs)
  obtain k' v' where p: "p = (k', v')" by (cases p)
  have "map_of xs k' = None" using Cons.prems p by (auto simp: map_of_eq_None_iff)
  with Cons p show ?case by auto
qed

lemma bm_get_retain [simp]:
  "bm_get (bm_retain P m) k =
     (case bm_get m k of None \<Rightarrow> None | Some v \<Rightarrow> if P k v then Some v else None)"
  by (simp add: bm_get_map_of map_of_filter_distinct asc_distinct)

lemma bm_get_map [simp]: "bm_get (bm_map f m) k = map_option (f k) (bm_get m k)"
proof -
  have "map_of (map (\<lambda>(k, v). (k, f k v)) xs) k = map_option (f k) (map_of xs k)" for xs
    by (induction xs) auto
  then show ?thesis by (simp add: bm_get_map_of)
qed

lemma set_bm_list: "(k, v) \<in> set (bm_list m) \<longleftrightarrow> bm_get m k = Some v"
  by (simp add: bm_get_map_of asc_distinct)

lemma bex_bm_list: "(\<exists>x \<in> set (bm_list m). P x) \<longleftrightarrow> (\<exists>k v. bm_get m k = Some v \<and> P (k, v))"
  by (metis set_bm_list surj_pair)

lemma set_bm_keys: "k \<in> set (bm_keys m) \<longleftrightarrow> (\<exists>v. bm_get m k = Some v)"
  by (auto simp: bm_keys_def set_bm_list [symmetric]) force

lemma set_bm_keys_dom: "set (bm_keys m) = dom (bm_get m)"
  by (auto simp: set_bm_keys)

lemma set_bm_values: "v \<in> set (bm_values m) \<longleftrightarrow> (\<exists>k. bm_get m k = Some v)"
  by (auto simp: bm_values_def set_bm_list [symmetric]) force

lemma finite_dom_bm_get [simp]: "finite (dom (bm_get m))"
  by (metis List.finite_set set_bm_keys_dom)

lemma distinct_bm_keys [simp]: "distinct (bm_keys m)"
  by (simp add: bm_keys_def asc_distinct)

lemma sorted_bm_keys [simp]: "sorted_wrt (<) (bm_keys m)"
  using asc_bm_list [of m] by (simp add: bm_keys_def asc_def)

lemma bm_contains_iff: "bm_contains m k \<longleftrightarrow> k \<in> set (bm_keys m)"
  by (auto simp: bm_contains_def set_bm_keys)

lemma bm_contains_simps [simp]:
  "bm_contains bm_empty k = False"
  "bm_contains (bm_insert k v m) k' = (k' = k \<or> bm_contains m k')"
  "bm_contains (bm_remove k m) k' = (k' \<noteq> k \<and> bm_contains m k')"
  by (auto simp: bm_contains_def)

lemma bm_len_card: "bm_len m = card (dom (bm_get m))"
proof -
  have "card (set (bm_keys m)) = length (bm_keys m)"
    by (simp add: distinct_card)
  then show ?thesis
    by (simp add: bm_len_def set_bm_keys_dom) (simp add: bm_keys_def)
qed

lemma bm_contains_dom: "bm_contains m k \<longleftrightarrow> k \<in> dom (bm_get m)"
  by (auto simp: bm_contains_def)

lemma bm_len_insert: "bm_len (bm_insert k v m) = (if bm_contains m k then bm_len m else Suc (bm_len m))"
proof -
  have "dom (bm_get (bm_insert k v m)) = insert k (dom (bm_get m))" by (auto split: if_splits)
  then show ?thesis by (simp add: bm_len_card bm_contains_dom card_insert_if)
qed

lemma bm_len_remove: "bm_contains m k \<Longrightarrow> Suc (bm_len (bm_remove k m)) = bm_len m"
proof -
  assume k: "bm_contains m k"
  have "dom (bm_get (bm_remove k m)) = dom (bm_get m) - {k}" by (auto split: if_splits)
  then show ?thesis using card_Suc_Diff1 [of "dom (bm_get m)" k] k by (simp add: bm_len_card bm_contains_dom)
qed

lemma fold_remove_get: "bm_get (fold bm_remove ks m) k = (if k \<in> set ks then None else bm_get m k)"
  by (induction ks arbitrary: m) auto

lemma bm_insert_same: "bm_get m k = Some v \<Longrightarrow> bm_insert k v m = m"
  by (rule bm_eqI) simp

lemma bm_remove_absent: "bm_get m k = None \<Longrightarrow> bm_remove k m = m"
  by (rule bm_eqI) simp

section \<open>Sets\<close>

type_synonym 'a btree_set = "('a, unit) btree_map"

definition bs_insert :: "'a::linorder \<Rightarrow> 'a btree_set \<Rightarrow> 'a btree_set" where
  "bs_insert x s = bm_insert x () s"

definition bs_remove :: "'a::linorder \<Rightarrow> 'a btree_set \<Rightarrow> 'a btree_set" where
  "bs_remove x s = bm_remove x s"

definition bs_set :: "'a::linorder btree_set \<Rightarrow> 'a set" where
  "bs_set s = set (bm_keys s)"

definition bs_mem :: "'a::linorder \<Rightarrow> 'a btree_set \<Rightarrow> bool" where
  "bs_mem x s = bm_contains s x"

definition bs_extend :: "'a::linorder list \<Rightarrow> 'a btree_set \<Rightarrow> 'a btree_set" where
  "bs_extend xs s = fold bs_insert xs s"

definition bs_of_list :: "'a::linorder list \<Rightarrow> 'a btree_set" where
  "bs_of_list xs = bs_extend xs bm_empty"

lemma bs_mem_iff [simp]: "bs_mem x s \<longleftrightarrow> x \<in> bs_set s"
  by (simp add: bs_mem_def bs_set_def bm_contains_iff)

lemma bs_set_simps [simp]:
  "bs_set bm_empty = {}"
  "bs_set (bs_insert x s) = insert x (bs_set s)"
  "bs_set (bs_remove x s) = bs_set s - {x}"
  by (auto simp: bs_set_def bs_insert_def bs_remove_def set_bm_keys_dom dom_def split: if_splits)

lemma bs_set_extend [simp]: "bs_set (bs_extend xs s) = set xs \<union> bs_set s"
  by (induction xs arbitrary: s) (auto simp: bs_extend_def)

lemma bs_set_of_list [simp]: "bs_set (bs_of_list xs) = set xs"
  by (simp add: bs_of_list_def)

lemma finite_bs_set [simp]: "finite (bs_set s)"
  by (simp add: bs_set_def)

lemma set_bm_keys_bs: "set (bm_keys (s :: 'a::linorder btree_set)) = bs_set s"
  by (simp add: bs_set_def)

lemma bs_eqI: "bs_set s = bs_set t \<Longrightarrow> s = t"
proof (rule bm_eqI)
  fix k
  assume "bs_set s = bs_set t"
  then have "(\<exists>u. bm_get s k = Some u) \<longleftrightarrow> (\<exists>u. bm_get t k = Some u)"
    unfolding bs_set_def by (metis set_bm_keys)
  then show "bm_get s k = bm_get t k"
    by (cases "bm_get s k"; cases "bm_get t k") simp_all
qed

lemma bs_set_eq_iff: "bs_set s = bs_set t \<longleftrightarrow> s = t"
  using bs_eqI by auto

section \<open>Smallest and largest elements\<close>

text \<open>\<open>iter().min()\<close> and \<open>iter().max()\<close>.\<close>

definition list_min :: "'a::linorder list \<Rightarrow> 'a option" where
  "list_min xs = (case xs of [] \<Rightarrow> None | y # ys \<Rightarrow> Some (fold min ys y))"

definition list_max :: "'a::linorder list \<Rightarrow> 'a option" where
  "list_max xs = (case xs of [] \<Rightarrow> None | y # ys \<Rightarrow> Some (fold max ys y))"

lemma fold_min_Min: "fold min ys y = Min (insert y (set ys))" for y :: "'a::linorder"
  using Min.set_eq_fold [of y ys] by simp

lemma fold_max_Max: "fold max ys y = Max (insert y (set ys))" for y :: "'a::linorder"
  using Max.set_eq_fold [of y ys] by simp

lemma list_min_eq: "list_min xs = (if xs = [] then None else Some (Min (set xs)))"
  by (cases xs) (simp_all add: list_min_def fold_min_Min)

lemma list_max_eq: "list_max xs = (if xs = [] then None else Some (Max (set xs)))"
  by (cases xs) (simp_all add: list_max_def fold_max_Max)

lemma list_min_le: "list_min xs = Some m \<Longrightarrow> x \<in> set xs \<Longrightarrow> m \<le> x"
  by (auto simp: list_min_eq split: if_splits)

lemma list_min_mem: "list_min xs = Some m \<Longrightarrow> m \<in> set xs"
  by (auto simp: list_min_eq split: if_splits)

lemma list_min_None [simp]: "list_min xs = None \<longleftrightarrow> xs = []"
  by (simp add: list_min_eq)

section \<open>The contract of an ordered map\<close>

text \<open>
  What the components assume of a map they are handed: reading after writing, removing and
  retaining, and that iteration is the graph of lookup in ascending key order.
\<close>

locale ordered_map =
  fixes get :: "'m \<Rightarrow> 'k::linorder \<Rightarrow> 'v option"
    and ins :: "'k \<Rightarrow> 'v \<Rightarrow> 'm \<Rightarrow> 'm"
    and del :: "'k \<Rightarrow> 'm \<Rightarrow> 'm"
    and entries :: "'m \<Rightarrow> ('k \<times> 'v) list"
  assumes get_ins: "get (ins k v m) k' = (if k' = k then Some v else get m k')"
    and get_del: "get (del k m) k' = (if k' = k then None else get m k')"
    and entries_get: "(k, v) \<in> set (entries m) \<longleftrightarrow> get m k = Some v"
    and entries_asc: "sorted_wrt (<) (map fst (entries m))"
begin

lemma entries_distinct: "distinct (map fst (entries m))"
  using entries_asc by (induction "map fst (entries m)") (auto simp: strict_sorted_iff)

lemma entries_unique:
  "(k, v) \<in> set (entries m) \<Longrightarrow> (k, w) \<in> set (entries m) \<Longrightarrow> v = w"
  by (simp add: entries_get)

lemma entries_ins: "(k', v') \<in> set (entries (ins k v m)) \<longleftrightarrow>
    (k' = k \<and> v' = v) \<or> (k' \<noteq> k \<and> (k', v') \<in> set (entries m))"
  by (auto simp: entries_get get_ins)

lemma entries_del: "(k', v') \<in> set (entries (del k m)) \<longleftrightarrow> k' \<noteq> k \<and> (k', v') \<in> set (entries m)"
  by (auto simp: entries_get get_del)

end

interpretation bm: ordered_map bm_get bm_insert bm_remove bm_list
  by unfold_locales (simp_all add: set_bm_list sorted_bm_keys [unfolded bm_keys_def])

instantiation btree_map :: (linorder, equal) equal
begin

definition equal_btree_map :: "('a, 'b) btree_map \<Rightarrow> ('a, 'b) btree_map \<Rightarrow> bool" where
  "equal_btree_map m m' \<longleftrightarrow> bm_list m = bm_list m'"

instance
  by standard (simp add: equal_btree_map_def bm_list_inject)

end

end
