(* ===== verification/Ids.thy ===== *)
theory Ids
  imports BTreeMap
begin

text \<open>
  Identifiers (crates/ordadb-transaction/src/ids.rs) and the fault injector
  (crates/ordadb-transaction/src/fault.rs).

  \<open>Lsn\<close> and \<open>TransactionId\<close> are transparent wrappers of \<open>NonZeroU64\<close>; the model keeps the
  \<open>u64\<close> and makes every constructor partial where the code's is. \<open>Ord\<close> is the order of
  the word.
\<close>

section \<open>Log sequence numbers and transaction ids\<close>

type_synonym lsn = u64
type_synonym transaction_id = u64
type_synonym page_id = u64

definition lsn_new :: "u64 \<Rightarrow> lsn option" where
  "lsn_new value = (if value = 0 then None else Some value)"

definition lsn_checked_next :: "lsn \<Rightarrow> lsn res" where
  "lsn_checked_next l =
     ok_or E_54000 (Option.bind (checked_add_u64 l 1) lsn_new)"

definition lsn_try_from :: "u64 \<Rightarrow> lsn res" where
  "lsn_try_from value = ok_or E_XX001 (lsn_new value)"

definition txn_new :: "u64 \<Rightarrow> transaction_id option" where
  "txn_new value = (if value = 0 then None else Some value)"

definition txn_try_from :: "u64 \<Rightarrow> transaction_id res" where
  "txn_try_from value = ok_or E_XX001 (txn_new value)"

lemma lsn_new_Some_iff: "lsn_new v = Some l \<longleftrightarrow> l = v \<and> v \<noteq> 0"
  by (auto simp: lsn_new_def)

lemma txn_new_Some_iff: "txn_new v = Some t \<longleftrightarrow> t = v \<and> v \<noteq> 0"
  by (auto simp: txn_new_def)

lemma txn_new_None_iff: "txn_new v = None \<longleftrightarrow> v = 0"
  by (auto simp: txn_new_def)

lemma lsn_try_from_Ok_iff [res_simps]: "lsn_try_from v = Inr l \<longleftrightarrow> l = v \<and> v \<noteq> 0"
  by (auto simp: lsn_try_from_def lsn_new_def)

lemma txn_try_from_Ok_iff [res_simps]: "txn_try_from v = Inr t \<longleftrightarrow> t = v \<and> v \<noteq> 0"
  by (auto simp: txn_try_from_def txn_new_def)

lemma lsn_checked_next_eq:
  "lsn_checked_next l = (if unat l + 1 < 2 ^ 64 then Inr (l + 1) else Inl E_54000)"
proof (cases "unat l + 1 < 2 ^ 64")
  case True
  then have c: "checked_add_u64 l 1 = Some (l + 1)" by (simp add: checked_add_u64_def)
  then have "l + 1 \<noteq> 0" by (rule checked_add_one_not_zero)
  with c True show ?thesis by (simp add: lsn_checked_next_def lsn_new_def)
next
  case False
  then show ?thesis by (simp add: lsn_checked_next_def checked_add_u64_def)
qed

lemma lsn_checked_next_Ok:
  assumes "lsn_checked_next l = Inr l'"
  shows "unat l' = unat l + 1" and "l < l'" and "l' \<noteq> 0"
  using assms
proof -
  from assms have c: "checked_add_u64 l 1 = Some l'"
    by (auto simp: lsn_checked_next_def res_simps lsn_new_Some_iff bind_eq_Some_conv)
  from checked_add_u64_Some [OF c] show "unat l' = unat l + 1" by simp
  from c show "l < l'" by (rule checked_add_one_less)
  from c show "l' \<noteq> 0" by (rule checked_add_one_not_zero)
qed

section \<open>Fault injection\<close>

datatype fault_point =
    BeforeWalFlush
  | AfterWalFlush
  | BeforeCommitFlush
  | AfterCommitFlush
  | AfterCheckpointBeginFlush
  | BeforeCheckpointEndAppend
  | AfterCheckpointEndFlush
  | BeforeDataPageWrite
  | AfterDataPageWrite
  | BeforeDataResize
  | AfterDataResize
  | BeforeDataSync
  | AfterDataSync
  | AfterCompensationFlush
  | BeforeCompensationApply

text \<open>\<open>ArmedFault\<close>; the injector's state is \<open>Option<ArmedFault>\<close> behind a mutex.\<close>

record armed_fault =
  af_point :: fault_point
  af_remaining :: nat

type_synonym injector = "armed_fault option"

definition inj_arm :: "fault_point \<Rightarrow> nat \<Rightarrow> injector \<Rightarrow> unit res \<times> injector" where
  "inj_arm point occurrence armed =
     (if occurrence = 0 then (Inl E_22023, armed)
      else (Inr (), Some \<lparr>af_point = point, af_remaining = occurrence\<rparr>))"

definition inj_clear :: "injector \<Rightarrow> unit res \<times> injector" where
  "inj_clear armed = (Inr (), None)"

definition inj_is_armed :: "injector \<Rightarrow> bool res" where
  "inj_is_armed armed = Inr (armed \<noteq> None)"

definition inj_check :: "fault_point \<Rightarrow> injector \<Rightarrow> unit res \<times> injector" where
  "inj_check point armed =
     (case armed of
        None \<Rightarrow> (Inr (), None)
      | Some fault \<Rightarrow>
          if af_point fault \<noteq> point then (Inr (), armed)
          else let remaining = af_remaining fault - 1 in
            if remaining \<noteq> 0 then (Inr (), Some (fault\<lparr>af_remaining := remaining\<rparr>))
            else (Inl E_58030, None))"

definition no_fault_check :: "fault_point \<Rightarrow> unit \<Rightarrow> unit res \<times> unit" where
  "no_fault_check point s = (Inr (), s)"

text \<open>
  The contract of the trait \<open>FaultInjector\<close>: a check either passes or fails with an I/O
  error, and a measure of the faults still to come never grows and shrinks with every
  failure. A client that retries after each injected failure therefore sees finitely many.
\<close>

locale fault_injector =
  fixes check :: "fault_point \<Rightarrow> 's \<Rightarrow> unit res \<times> 's"
    and budget :: "'s \<Rightarrow> nat"
  assumes check_error: "check p s = (Inl e, s') \<Longrightarrow> e = E_58030"
    and check_budget: "check p s = (r, s') \<Longrightarrow> budget s' \<le> budget s"
    and check_fail_budget: "check p s = (Inl e, s') \<Longrightarrow> budget s' < budget s"
begin

primrec failures :: "fault_point list \<Rightarrow> 's \<Rightarrow> nat" where
  "failures [] s = 0"
| "failures (p # ps) s =
     (case check p s of (r, s') \<Rightarrow> (if is_ok r then 0 else 1) + failures ps s')"

lemma failures_bounded: "failures ps s \<le> budget s"
proof (induction ps arbitrary: s)
  case Nil
  then show ?case by simp
next
  case (Cons p ps)
  obtain r s' where c: "check p s = (r, s')" by (cases "check p s")
  show ?case
  proof (cases r)
    case (Inl e)
    with c have "budget s' < budget s" by (simp add: check_fail_budget)
    with Cons [of s'] c Inl show ?thesis by simp
  next
    case (Inr u)
    with c have "budget s' \<le> budget s" by (simp add: check_budget)
    with Cons [of s'] c Inr show ?thesis by simp
  qed
qed

end

interpretation no_fault: fault_injector no_fault_check "\<lambda>_. 0"
  by unfold_locales (auto simp: no_fault_check_def)

definition inj_budget :: "injector \<Rightarrow> nat" where
  "inj_budget armed = (case armed of None \<Rightarrow> 0 | Some _ \<Rightarrow> 1)"

interpretation det_fault: fault_injector inj_check inj_budget
  by unfold_locales
    (auto simp: inj_check_def inj_budget_def Let_def split: option.splits if_splits)

text \<open>A run of checks threads the injector through a list of points.\<close>

primrec inj_run :: "fault_point list \<Rightarrow> injector \<Rightarrow> (unit res) list \<times> injector" where
  "inj_run [] armed = ([], armed)"
| "inj_run (p # ps) armed =
     (let (r, armed') = inj_check p armed; (rs, armed'') = inj_run ps armed' in (r # rs, armed''))"

lemma inj_run_disarmed: "inj_run ps None = (map (\<lambda>_. Inr ()) ps, None)"
  by (induction ps) (simp_all add: inj_check_def)

lemma inj_run_armed:
  assumes "0 < n"
  shows "\<exists>armed'. inj_run ps (Some \<lparr>af_point = p, af_remaining = n\<rparr>) =
     (map (\<lambda>i. if ps ! i = p \<and> count_list (take i ps) p + 1 = n then Inl E_58030 else Inr ())
        [0..<length ps], armed')"
  using assms
proof (induction ps arbitrary: n)
  case Nil
  then show ?case by simp
next
  case (Cons q ps)
  have upt: "[0..<Suc (length ps)] = 0 # map Suc [0..<length ps]"
    by (simp add: upt_conv_Cons map_Suc_upt del: upt_Suc)
  show ?case
  proof (cases "q = p")
    case False
    then show ?thesis
      using Cons.IH [OF Cons.prems] Cons.prems
      by (auto simp: inj_check_def upt Let_def o_def simp del: upt_Suc)
  next
    case True
    show ?thesis
    proof (cases "n = 1")
      case True
      with \<open>q = p\<close> show ?thesis
        by (auto simp: inj_check_def upt Let_def o_def inj_run_disarmed map_replicate_const
            simp del: upt_Suc intro!: map_cong)
    next
      case False
      with Cons.prems have "0 < n - 1" by simp
      from Cons.IH [OF this] False \<open>q = p\<close> Cons.prems show ?thesis
        by (auto simp: inj_check_def upt Let_def o_def simp del: upt_Suc intro!: map_cong)
    qed
  qed
qed

end
