(* ===== verification/Locks.thy ===== *)
theory Locks
  imports Ids "HOL-Library.Multiset"
begin

text \<open>
  The transaction lock manager, crates/ordadb-transaction/src/locks.rs.

  The critical sections of \<open>LockManager\<close> are functions on the manager: \<open>acquire\<close> is its
  entry section \<open>acquire_enter\<close> and one turn \<open>acquire_poll\<close> of its wait loop, both run
  under the state mutex. The clock and the cancellation flag are inputs of a turn. The step
  relation \<open>lock_step\<close> interleaves the sections of any number of threads; the record
  \<open>lock_sys\<close> adds the requests that threads are waiting with. Mutex poisoning is not
  modelled.
\<close>

section \<open>Lock keys and modes\<close>

datatype lock_key =
    LkDatabase
  | LkSchema u64
  | LkTable u64
  | LkRow u64 u64
  | LkIndexKey u64 "u8 list"
  | LkMaintenance "u64 option"

text \<open>
  The derived \<open>Ord\<close> compares the variant's position and then the fields from left to
  right: the lexicographic order of \<open>lock_key_code\<close>.
\<close>

fun lock_key_code :: "lock_key \<Rightarrow> nat list" where
  "lock_key_code LkDatabase = [0]"
| "lock_key_code (LkSchema s) = [1, unat s]"
| "lock_key_code (LkTable t) = [2, unat t]"
| "lock_key_code (LkRow t v) = [3, unat t, unat v]"
| "lock_key_code (LkIndexKey i fp) = 4 # unat i # map unat fp"
| "lock_key_code (LkMaintenance None) = [5, 0]"
| "lock_key_code (LkMaintenance (Some t)) = [5, 1, unat t]"

lemma map_unat_inject: "map unat (xs :: 'a::len word list) = map unat ys \<longleftrightarrow> xs = ys"
  by (rule inj_map_eq_map) (simp add: inj_on_def unat_eq_iff)

lemma lock_key_code_inject: "lock_key_code a = lock_key_code b \<longleftrightarrow> a = b"
  by (cases a rule: lock_key_code.cases; cases b rule: lock_key_code.cases)
    (auto simp: map_unat_inject unat_eq_iff)

instantiation lock_key :: linorder
begin

definition less_eq_lock_key :: "lock_key \<Rightarrow> lock_key \<Rightarrow> bool" where
  "less_eq_lock_key a b \<longleftrightarrow> lock_key_code a \<le> lock_key_code b"

definition less_lock_key :: "lock_key \<Rightarrow> lock_key \<Rightarrow> bool" where
  "less_lock_key a b \<longleftrightarrow> lock_key_code a < lock_key_code b"

instance
  by standard (auto simp: less_eq_lock_key_def less_lock_key_def lock_key_code_inject
      order.strict_iff_order)

end

datatype lock_mode = Shared | Update | Exclusive

fun compatible :: "lock_mode \<Rightarrow> lock_mode \<Rightarrow> bool" where
  "compatible Shared Shared = True"
| "compatible Shared Update = True"
| "compatible Update Shared = True"
| "compatible _ _ = False"

lemma compatible_sym: "compatible a b = compatible b a"
  by (cases a; cases b) simp_all

lemma compatible_Exclusive [simp]: "\<not> compatible Exclusive m" "\<not> compatible m Exclusive"
  by (cases m; simp)+

section \<open>State\<close>

record granted_lock =
  g_req :: u64
  g_txn :: transaction_id
  g_mode :: lock_mode

record wait_request =
  w_req :: u64
  w_txn :: transaction_id
  w_mode :: lock_mode

record lock_state =
  granted :: "(lock_key, granted_lock list) btree_map"
  waiting :: "(lock_key, wait_request list) btree_map"
  deadlock_victims :: "transaction_id btree_set"

record lock_manager =
  default_timeout :: nat
  poll_interval :: nat
  maximum_waiters :: nat
  next_request_id :: u64
  lock_st :: lock_state

definition empty_lock_state :: lock_state where
  "empty_lock_state = \<lparr>granted = bm_empty, waiting = bm_empty, deadlock_victims = bm_empty\<rparr>"

definition lock_manager_new :: "nat \<Rightarrow> nat \<Rightarrow> nat \<Rightarrow> lock_manager res" where
  "lock_manager_new timeout poll waiters =
     (if timeout = 0 \<or> poll = 0 \<or> waiters = 0 then Inl E_22023
      else Inr \<lparr>default_timeout = timeout, poll_interval = poll, maximum_waiters = waiters,
                next_request_id = 1, lock_st = empty_lock_state\<rparr>)"

section \<open>The helper functions of the module\<close>

definition holders_compatible :: "lock_state \<Rightarrow> transaction_id \<Rightarrow> lock_key \<Rightarrow> lock_mode \<Rightarrow> bool" where
  "holders_compatible st t k md =
     (case bm_get (granted st) k of
        None \<Rightarrow> True
      | Some gs \<Rightarrow> list_all (\<lambda>g. g_txn g = t \<or> compatible md (g_mode g)) gs)"

definition can_grant_immediately :: "lock_state \<Rightarrow> transaction_id \<Rightarrow> lock_key \<Rightarrow> lock_mode \<Rightarrow> bool" where
  "can_grant_immediately st t k md =
     ((case bm_get (waiting st) k of None \<Rightarrow> True | Some q \<Rightarrow> q = []) \<and>
      holders_compatible st t k md)"

text \<open>\<open>position\<close> of an iterator: the index of the first element that satisfies a test.\<close>

fun position_of :: "('a \<Rightarrow> bool) \<Rightarrow> 'a list \<Rightarrow> nat option" where
  "position_of P [] = None"
| "position_of P (x # xs) = (if P x then Some 0 else map_option Suc (position_of P xs))"

definition waiter_can_run :: "lock_state \<Rightarrow> lock_key \<Rightarrow> u64 \<Rightarrow> bool res" where
  "waiter_can_run st k req =
     try_bind (ok_or E_XX000 (bm_get (waiting st) k)) (\<lambda>requests.
     try_bind (ok_or E_XX000 (position_of (\<lambda>r. w_req r = req) requests)) (\<lambda>position.
     let request = requests ! position;
         earlier_compatible = list_all
           (\<lambda>e. w_txn e = w_txn request \<or> compatible (w_mode request) (w_mode e))
           (take position requests)
     in Inr (earlier_compatible \<and>
             holders_compatible st (w_txn request) k (w_mode request))))"

definition grant :: "u64 \<Rightarrow> transaction_id \<Rightarrow> lock_key \<Rightarrow> lock_mode \<Rightarrow> lock_state \<Rightarrow> lock_state" where
  "grant req t k md st =
     (let gs = (case bm_get (granted st) k of None \<Rightarrow> [] | Some gs \<Rightarrow> gs)
      in st\<lparr>granted := bm_insert k (gs @ [\<lparr>g_req = req, g_txn = t, g_mode = md\<rparr>]) (granted st)\<rparr>)"

definition remove_waiter :: "lock_key \<Rightarrow> u64 \<Rightarrow> lock_state \<Rightarrow> lock_state" where
  "remove_waiter k req st =
     (case bm_get (waiting st) k of
        None \<Rightarrow> st
      | Some q \<Rightarrow>
          let q' = filter (\<lambda>r. w_req r \<noteq> req) q in
          if q' = [] then st\<lparr>waiting := bm_remove k (waiting st)\<rparr>
          else st\<lparr>waiting := bm_insert k q' (waiting st)\<rparr>)"

definition waiter_count :: "lock_state \<Rightarrow> nat" where
  "waiter_count st = sum_list (map length (bm_values (waiting st)))"

section \<open>The wait-for graph and the deadlock victim\<close>

type_synonym wait_graph = "(transaction_id, transaction_id btree_set) btree_map"

definition request_blockers ::
  "lock_state \<Rightarrow> lock_key \<Rightarrow> wait_request list \<Rightarrow> nat \<Rightarrow> wait_request \<Rightarrow> transaction_id list" where
  "request_blockers st k requests position request =
     (case bm_get (granted st) k of
        None \<Rightarrow> []
      | Some gs \<Rightarrow> map g_txn (filter
          (\<lambda>g. g_txn g \<noteq> w_txn request \<and> \<not> compatible (w_mode request) (g_mode g)) gs)) @
     map w_txn (filter
       (\<lambda>e. w_txn e \<noteq> w_txn request \<and> \<not> compatible (w_mode request) (w_mode e))
       (take position requests))"

definition add_request_edges ::
  "lock_state \<Rightarrow> lock_key \<Rightarrow> wait_request list \<Rightarrow> nat \<times> wait_request \<Rightarrow> wait_graph \<Rightarrow> wait_graph" where
  "add_request_edges st k requests = (\<lambda>(position, request) graph.
     let edges = (case bm_get graph (w_txn request) of None \<Rightarrow> bm_empty | Some es \<Rightarrow> es)
     in bm_insert (w_txn request)
          (bs_extend (request_blockers st k requests position request) edges) graph)"

definition wait_for_graph :: "lock_state \<Rightarrow> wait_graph" where
  "wait_for_graph st =
     fold (\<lambda>(k, requests). fold (add_request_edges st k requests) (enumerate 0 requests))
       (bm_list (waiting st)) bm_empty"

text \<open>
  \<open>deadlock_victim\<close> searches from every transaction of the graph with an explicit stack of
  (node, path) frames. A frame is extended only by nodes that its path does not hold, so
  the number of nodes missing from the path bounds the search; the stack shrinks in the
  multiset order of these numbers.
\<close>

definition graph_nodes :: "wait_graph \<Rightarrow> transaction_id set" where
  "graph_nodes g = dom (bm_get g) \<union> \<Union> (bs_set ` ran (bm_get g))"

definition frames_from ::
  "transaction_id \<Rightarrow> transaction_id list \<Rightarrow> transaction_id btree_set \<Rightarrow> (transaction_id \<times> transaction_id list) list" where
  "frames_from origin path nexts =
     map (\<lambda>n. (n, path @ [n])) (filter (\<lambda>n. n \<noteq> origin \<and> n \<notin> set path) (bm_keys nexts))"

definition frame_measure :: "wait_graph \<Rightarrow> transaction_id \<times> transaction_id list \<Rightarrow> nat" where
  "frame_measure g = (\<lambda>(_, path). card (graph_nodes g - set path))"

lemma finite_graph_nodes: "finite (graph_nodes g)"
proof -
  have "ran (bm_get g) = the ` bm_get g ` dom (bm_get g)"
    by (force simp: ran_def dom_def image_iff)
  then have "finite (ran (bm_get g))" by simp
  then show ?thesis by (auto simp: graph_nodes_def)
qed

lemma frames_from_measure:
  assumes "bm_get g cur = Some nexts" and "f \<in> set (frames_from origin path nexts)"
  shows "frame_measure g f < frame_measure g (cur', path)"
proof -
  from assms(2) obtain n where f: "f = (n, path @ [n])" and n: "n \<in> bs_set nexts" "n \<notin> set path"
    by (auto simp: frames_from_def bs_set_def)
  from assms(1) n(1) have "n \<in> graph_nodes g"
    by (auto simp: graph_nodes_def ran_def)
  with n(2) have "graph_nodes g - set (path @ [n]) \<subset> graph_nodes g - set path"
    by auto
  then show ?thesis
    by (simp add: f frame_measure_def psubset_card_mono finite_graph_nodes)
qed

function cycle_search ::
  "wait_graph \<Rightarrow> transaction_id \<Rightarrow> (transaction_id \<times> transaction_id list) list \<Rightarrow>
     transaction_id btree_set \<Rightarrow> transaction_id btree_set" where
  "cycle_search g origin [] members = members"
| "cycle_search g origin ((current, path) # stack) members =
     (case bm_get g current of
        None \<Rightarrow> cycle_search g origin stack members
      | Some nexts \<Rightarrow>
          cycle_search g origin (rev (frames_from origin path nexts) @ stack)
            (if bs_mem origin nexts then bs_insert origin (bs_extend path members) else members))"
  by pat_completeness auto
termination
proof (relation "inv_image (mult less_than) (\<lambda>(g, origin, stack, members). mset (map (frame_measure g) stack))")
  show "wf (inv_image (mult less_than) (\<lambda>(g, origin, stack, members). mset (map (frame_measure g) stack)))"
    by (intro wf_inv_image wf_mult wf_less_than)
next
  fix g :: wait_graph and origin current :: transaction_id
    and path :: "transaction_id list" and stack and members :: "transaction_id btree_set"
  have "(mset (map (frame_measure g) stack) + {#},
         mset (map (frame_measure g) stack) + {#frame_measure g (current, path)#}) \<in> mult less_than"
    by (rule one_step_implies_mult) simp_all
  then show "((g, origin, stack, members), (g, origin, (current, path) # stack, members))
      \<in> inv_image (mult less_than) (\<lambda>(g, origin, stack, members). mset (map (frame_measure g) stack))"
    by simp
next
  fix g :: wait_graph and origin current :: transaction_id
    and path :: "transaction_id list" and stack and members :: "transaction_id btree_set"
    and nexts :: "transaction_id btree_set"
  assume nexts: "bm_get g current = Some nexts"
  let ?new = "mset (map (frame_measure g) (frames_from origin path nexts))"
  have "(mset (map (frame_measure g) stack) + ?new,
         mset (map (frame_measure g) stack) + {#frame_measure g (current, path)#}) \<in> mult less_than"
    by (rule one_step_implies_mult) (auto dest: frames_from_measure [OF nexts])
  then show "((g, origin, rev (frames_from origin path nexts) @ stack,
        if bs_mem origin nexts then bs_insert origin (bs_extend path members) else members),
      (g, origin, (current, path) # stack, members))
      \<in> inv_image (mult less_than) (\<lambda>(g, origin, stack, members). mset (map (frame_measure g) stack))"
    by (simp add: union_commute)
qed

definition deadlock_victim :: "lock_state \<Rightarrow> transaction_id option" where
  "deadlock_victim st =
     (let graph = wait_for_graph st;
          members = fold (\<lambda>origin. cycle_search graph origin [(origin, [origin])]) (bm_keys graph) bm_empty
      in list_max (bm_keys members))"

section \<open>What the graph and the search compute\<close>

text \<open>The edges the code builds, and the specification: who waits for whom.\<close>

definition graph_edge :: "wait_graph \<Rightarrow> transaction_id \<Rightarrow> transaction_id \<Rightarrow> bool" where
  "graph_edge g a b = (\<exists>s. bm_get g a = Some s \<and> b \<in> bs_set s)"

definition waits_for :: "lock_state \<Rightarrow> transaction_id \<Rightarrow> transaction_id \<Rightarrow> bool" where
  "waits_for st a b \<longleftrightarrow>
     (\<exists>k q i. bm_get (waiting st) k = Some q \<and> i < length q \<and> w_txn (q ! i) = a \<and> b \<noteq> a \<and>
        ((\<exists>gs g. bm_get (granted st) k = Some gs \<and> g \<in> set gs \<and> g_txn g = b \<and>
            \<not> compatible (w_mode (q ! i)) (g_mode g)) \<or>
         (\<exists>j < i. w_txn (q ! j) = b \<and> \<not> compatible (w_mode (q ! i)) (w_mode (q ! j)))))"

lemma set_take_conv: "i \<le> length q \<Longrightarrow> x \<in> set (take i q) \<longleftrightarrow> (\<exists>j < i. x = q ! j)"
  by (auto simp: in_set_conv_nth)

lemma ball_take: "i \<le> length q \<Longrightarrow> (\<forall>x \<in> set (take i q). P x) \<longleftrightarrow> (\<forall>j < i. P (q ! j))"
  by (auto simp: set_take_conv Ball_def)

lemma set_request_blockers:
  assumes "i < length q"
  shows "b \<in> set (request_blockers st k q i r) \<longleftrightarrow> b \<noteq> w_txn r \<and>
     ((\<exists>gs g. bm_get (granted st) k = Some gs \<and> g \<in> set gs \<and> g_txn g = b \<and>
         \<not> compatible (w_mode r) (g_mode g)) \<or>
      (\<exists>j < i. w_txn (q ! j) = b \<and> \<not> compatible (w_mode r) (w_mode (q ! j))))"
  using assms
  by (cases "bm_get (granted st) k") (auto simp: request_blockers_def set_take_conv)

lemma graph_edge_add:
  "graph_edge (add_request_edges st k q (i, r) g) a b \<longleftrightarrow>
     graph_edge g a b \<or> (a = w_txn r \<and> b \<in> set (request_blockers st k q i r))"
  by (auto simp: graph_edge_def add_request_edges_def Let_def split: option.splits)

lemma graph_edge_fold_add:
  "graph_edge (fold (add_request_edges st k q) xs g) a b \<longleftrightarrow>
     graph_edge g a b \<or> (\<exists>(i, r) \<in> set xs. a = w_txn r \<and> b \<in> set (request_blockers st k q i r))"
proof (induction xs arbitrary: g)
  case Nil
  then show ?case by simp
next
  case (Cons x xs)
  then show ?case by (cases x) (auto simp: graph_edge_add)
qed

lemma graph_edge_fold_keys:
  "graph_edge (fold (\<lambda>(k, q). fold (add_request_edges st k q) (enumerate 0 q)) ws g) a b \<longleftrightarrow>
     graph_edge g a b \<or>
     (\<exists>(k, q) \<in> set ws. \<exists>i < length q. a = w_txn (q ! i) \<and> b \<in> set (request_blockers st k q i (q ! i)))"
proof (induction ws arbitrary: g)
  case Nil
  then show ?case by simp
next
  case (Cons w ws)
  obtain k q where w: "w = (k, q)" by (cases w)
  show ?case
    unfolding w fold_simps comp_def prod.case Cons.IH
    by (auto simp: graph_edge_fold_add in_set_enumerate_eq)
qed

lemma graph_edge_waits_for: "graph_edge (wait_for_graph st) a b \<longleftrightarrow> waits_for st a b"
proof -
  have "graph_edge (wait_for_graph st) a b \<longleftrightarrow>
     (\<exists>(k, q) \<in> set (bm_list (waiting st)). \<exists>i < length q.
        a = w_txn (q ! i) \<and> b \<in> set (request_blockers st k q i (q ! i)))"
    by (simp add: wait_for_graph_def graph_edge_fold_keys) (simp add: graph_edge_def)
  also have "\<dots> \<longleftrightarrow> waits_for st a b"
    by (fastforce simp: waits_for_def set_request_blockers set_bm_list)
  finally show ?thesis .
qed

subsection \<open>Soundness: every reported transaction is on a cycle\<close>

definition frame_sound :: "wait_graph \<Rightarrow> transaction_id \<Rightarrow> transaction_id \<times> transaction_id list \<Rightarrow> bool" where
  "frame_sound g origin = (\<lambda>(current, path).
     (graph_edge g)\<^sup>*\<^sup>* origin current \<and>
     (\<forall>x \<in> set path. (graph_edge g)\<^sup>*\<^sup>* origin x \<and> (graph_edge g)\<^sup>*\<^sup>* x current))"

lemma frames_from_sound:
  assumes "frame_sound g origin (current, path)" and "bm_get g current = Some nexts"
    and "f \<in> set (frames_from origin path nexts)"
  shows "frame_sound g origin f"
proof -
  from assms(3) obtain n where f: "f = (n, path @ [n])" and n: "n \<in> bs_set nexts"
    by (auto simp: frames_from_def bs_set_def)
  from assms(2) n have e: "graph_edge g current n" by (auto simp: graph_edge_def)
  with assms(1) show ?thesis
    by (auto simp: f frame_sound_def intro: rtranclp.rtrancl_into_rtrancl)
qed

lemma cycle_search_sound:
  assumes "\<forall>f \<in> set stack. frame_sound g origin f"
    and "x \<in> bs_set (cycle_search g origin stack members)"
  shows "x \<in> bs_set members \<or> (graph_edge g)\<^sup>+\<^sup>+ x x"
  using assms
proof (induction g origin stack members rule: cycle_search.induct)
  case (1 g origin members)
  then show ?case by simp
next
  case (2 g origin current path stack members)
  show ?case
  proof (cases "bm_get g current")
    case None
    with 2 show ?thesis by auto
  next
    case (Some nexts)
    let ?members = "if bs_mem origin nexts then bs_insert origin (bs_extend path members) else members"
    have sound: "frame_sound g origin (current, path)" using "2.prems"(1) by simp
    have "\<forall>f \<in> set (rev (frames_from origin path nexts) @ stack). frame_sound g origin f"
      using "2.prems"(1) frames_from_sound [OF sound Some] by auto
    moreover have "x \<in> bs_set (cycle_search g origin (rev (frames_from origin path nexts) @ stack) ?members)"
      using "2.prems"(2) Some by simp
    ultimately have "x \<in> bs_set ?members \<or> (graph_edge g)\<^sup>+\<^sup>+ x x"
      using "2.IH"(2) [OF Some] by blast
    moreover have "(graph_edge g)\<^sup>+\<^sup>+ x x" if "x \<in> bs_set ?members" "x \<notin> bs_set members"
    proof -
      from that have mem: "origin \<in> bs_set nexts" and x: "x = origin \<or> x \<in> set path"
        by (auto split: if_splits)
      from Some mem have e: "graph_edge g current origin" by (auto simp: graph_edge_def)
      from x sound have "(graph_edge g)\<^sup>*\<^sup>* x current" and "(graph_edge g)\<^sup>*\<^sup>* origin x"
        by (auto simp: frame_sound_def)
      with e show ?thesis
        by (meson rtranclp_into_tranclp1 rtranclp_tranclp_tranclp tranclp_rtranclp_tranclp)
    qed
    ultimately show ?thesis by blast
  qed
qed

subsection \<open>Completeness: every transaction on a cycle is reported\<close>

fun chain :: "('a \<Rightarrow> 'a \<Rightarrow> bool) \<Rightarrow> 'a \<Rightarrow> 'a list \<Rightarrow> 'a \<Rightarrow> bool" where
  "chain R c [] z = R c z"
| "chain R c (w # ws) z = (R c w \<and> chain R w ws z)"

lemma chain_append: "chain R c (xs @ w # ys) z \<longleftrightarrow> chain R c xs w \<and> chain R w ys z"
  by (induction xs arbitrary: c) auto

lemma tranclp_chain: "R\<^sup>+\<^sup>+ c z \<Longrightarrow> \<exists>ws. chain R c ws z"
proof (induction rule: tranclp_induct)
  case (base y)
  then show ?case by (intro exI [of _ "[]"]) simp
next
  case (step y z)
  then obtain ws where "chain R c ws y" by blast
  with step.hyps(2) have "chain R c (ws @ [y]) z"
    using chain_append [of R c ws y "[]" z] by simp
  then show ?case ..
qed

lemma simple_cycle:
  assumes "R\<^sup>+\<^sup>+ z z"
  shows "\<exists>ws. chain R z ws z \<and> distinct ws \<and> z \<notin> set ws"
proof -
  obtain ws where ws: "chain R z ws z"
    and least: "\<And>vs. chain R z vs z \<Longrightarrow> length ws \<le> length vs"
    using tranclp_chain [OF assms] ex_has_least_nat [of "\<lambda>ws. chain R z ws z" _ length] by blast
  have "z \<notin> set ws"
  proof
    assume "z \<in> set ws"
    then obtain xs ys where split: "ws = xs @ z # ys" by (meson split_list)
    with ws have "chain R z xs z" by (simp add: chain_append)
    from least [OF this] split show False by simp
  qed
  moreover have "distinct ws"
  proof (rule ccontr)
    assume "\<not> distinct ws"
    then obtain xs ys zs w where split: "ws = xs @ [w] @ ys @ [w] @ zs"
      using not_distinct_decomp by blast
    with ws have "chain R z (xs @ w # zs) z"
      by (simp add: chain_append)
    from least [OF this] split show False by simp
  qed
  ultimately show ?thesis using ws by blast
qed

definition frame_leads :: "wait_graph \<Rightarrow> transaction_id \<Rightarrow> transaction_id \<times> transaction_id list \<Rightarrow> bool" where
  "frame_leads g origin = (\<lambda>(current, path).
     \<exists>ws. chain (graph_edge g) current ws origin \<and> distinct ws \<and> origin \<notin> set ws \<and>
       set ws \<inter> set path = {})"

lemma frames_from_leads:
  assumes "frame_leads g origin (current, path)" and "bm_get g current = Some nexts"
    and "origin \<notin> bs_set nexts"
  shows "\<exists>f \<in> set (frames_from origin path nexts). frame_leads g origin f"
proof -
  from assms(1) obtain ws where ws: "chain (graph_edge g) current ws origin" "distinct ws"
    "origin \<notin> set ws" "set ws \<inter> set path = {}"
    by (auto simp: frame_leads_def)
  with assms(2,3) obtain n vs where n: "ws = n # vs"
    by (cases ws) (auto simp: graph_edge_def)
  with ws assms(2) have "n \<in> bs_set nexts" "n \<noteq> origin" "n \<notin> set path"
    by (auto simp: graph_edge_def)
  then have "(n, path @ [n]) \<in> set (frames_from origin path nexts)"
    by (auto simp: frames_from_def bs_set_def)
  moreover have "frame_leads g origin (n, path @ [n])"
    using ws n by (auto simp: frame_leads_def)
  ultimately show ?thesis by blast
qed

lemma cycle_search_mono: "bs_set members \<subseteq> bs_set (cycle_search g origin stack members)"
proof (induction g origin stack members rule: cycle_search.induct)
  case (1 g origin members)
  then show ?case by simp
next
  case (2 g origin current path stack members)
  then show ?case
    by (cases "bm_get g current") (auto split: if_splits)
qed

lemma cycle_search_complete:
  assumes "\<exists>f \<in> set stack. frame_leads g origin f"
  shows "origin \<in> bs_set (cycle_search g origin stack members)"
  using assms
proof (induction g origin stack members rule: cycle_search.induct)
  case (1 g origin members)
  then show ?case by simp
next
  case (2 g origin current path stack members)
  show ?case
  proof (cases "bm_get g current")
    case None
    have "\<not> frame_leads g origin (current, path)"
    proof
      assume "frame_leads g origin (current, path)"
      then obtain ws where "chain (graph_edge g) current ws origin" by (auto simp: frame_leads_def)
      with None show False by (cases ws) (auto simp: graph_edge_def)
    qed
    with "2.prems" None "2.IH"(1) show ?thesis by auto
  next
    case (Some nexts)
    show ?thesis
    proof (cases "origin \<in> bs_set nexts")
      case True
      with Some show ?thesis
        using cycle_search_mono [of "bs_insert origin (bs_extend path members)" g origin
            "rev (frames_from origin path nexts) @ stack"] by simp
    next
      case False
      have "\<exists>f \<in> set (rev (frames_from origin path nexts) @ stack). frame_leads g origin f"
        using "2.prems" frames_from_leads [OF _ Some False] by auto
      from "2.IH"(2) [OF Some this] show ?thesis using Some by simp
    qed
  qed
qed

definition cycle_members :: "wait_graph \<Rightarrow> transaction_id btree_set" where
  "cycle_members graph = fold (\<lambda>origin. cycle_search graph origin [(origin, [origin])]) (bm_keys graph) bm_empty"

lemma cycle_members_sound:
  assumes "x \<in> bs_set (fold (\<lambda>origin. cycle_search g origin [(origin, [origin])]) os members)"
  shows "x \<in> bs_set members \<or> (graph_edge g)\<^sup>+\<^sup>+ x x"
  using assms
proof (induction os arbitrary: members)
  case Nil
  then show ?case by simp
next
  case (Cons origin os)
  have "\<forall>f \<in> set [(origin, [origin])]. frame_sound g origin f" by (simp add: frame_sound_def)
  with Cons.IH [of "cycle_search g origin [(origin, [origin])] members"] Cons.prems
    cycle_search_sound [of "[(origin, [origin])]" g origin x members]
  show ?case by auto
qed

lemma cycle_fold_mono:
  "bs_set m \<subseteq> bs_set (fold (\<lambda>origin. cycle_search g origin [(origin, [origin])]) os m)"
proof (induction os arbitrary: m)
  case Nil
  then show ?case by simp
next
  case (Cons p os)
  from cycle_search_mono Cons.IH
  show ?case unfolding fold_simps by (rule subset_trans)
qed

lemma cycle_members_complete:
  assumes "origin \<in> set os" and "(graph_edge g)\<^sup>+\<^sup>+ origin origin"
  shows "origin \<in> bs_set (fold (\<lambda>origin. cycle_search g origin [(origin, [origin])]) os members)"
  using assms(1)
proof (induction os arbitrary: members)
  case Nil
  then show ?case by simp
next
  case (Cons p os)
  show ?case
  proof (cases "p = origin")
    case True
    have "frame_leads g origin (origin, [origin])"
      using simple_cycle [OF assms(2)] by (auto simp: frame_leads_def)
    then have "origin \<in> bs_set (cycle_search g origin [(origin, [origin])] members)"
      by (intro cycle_search_complete) simp
    with True cycle_fold_mono [of "cycle_search g origin [(origin, [origin])] members" g os]
    show ?thesis by (auto simp del: cycle_search.simps)
  next
    case False
    with Cons show ?thesis by (simp del: cycle_search.simps)
  qed
qed

lemma bs_set_cycle_members: "bs_set (cycle_members g) = {x. (graph_edge g)\<^sup>+\<^sup>+ x x}"
proof -
  have "x \<in> set (bm_keys g)" if "(graph_edge g)\<^sup>+\<^sup>+ x x" for x
  proof -
    from tranclpD [OF that] obtain y where "graph_edge g x y" by blast
    then show ?thesis by (auto simp: set_bm_keys graph_edge_def)
  qed
  then show ?thesis
    using cycle_members_sound [of _ g "bm_keys g" bm_empty] cycle_members_complete [of _ "bm_keys g" g]
    by (auto simp: cycle_members_def)
qed

lemma deadlock_victim_eq:
  "deadlock_victim st =
     (if \<exists>x. (waits_for st)\<^sup>+\<^sup>+ x x then Some (Max {x. (waits_for st)\<^sup>+\<^sup>+ x x}) else None)"
proof -
  have g: "graph_edge (wait_for_graph st) = waits_for st"
    by (intro ext) (rule graph_edge_waits_for)
  have "set (bm_keys (cycle_members (wait_for_graph st))) = {x. (waits_for st)\<^sup>+\<^sup>+ x x}"
    using bs_set_cycle_members [of "wait_for_graph st"] by (simp add: bs_set_def g)
  then show ?thesis
    by (simp add: deadlock_victim_def cycle_members_def [symmetric] list_max_eq Let_def
        flip: set_empty)
qed

lemma deadlock_victim_cycle:
  assumes "deadlock_victim st = Some v"
  shows "(waits_for st)\<^sup>+\<^sup>+ v v"
proof -
  have g: "graph_edge (wait_for_graph st) = waits_for st"
    by (intro ext) (rule graph_edge_waits_for)
  have "finite {x. (waits_for st)\<^sup>+\<^sup>+ x x}"
    using finite_bs_set [of "cycle_members (wait_for_graph st)"] by (simp add: bs_set_cycle_members g)
  then show ?thesis
    using assms Max_in [of "{x. (waits_for st)\<^sup>+\<^sup>+ x x}"]
    by (auto simp: deadlock_victim_eq split: if_splits)
qed

end
