(* ===== verification/LockManager.thy ===== *)
theory LockManager
  imports Locks
begin

text \<open>
  \<open>LockManager\<close> (crates/ordadb-transaction/src/locks.rs): its operations, the system of
  threads that run them, and the invariant of every reachable state.

  \<open>acquire\<close> is cut where it takes and gives up the state mutex: \<open>acquire_ticket\<close> runs before
  the mutex (only the atomic request counter), \<open>acquire_enter\<close> is the section up to the wait
  loop, and \<open>acquire_poll\<close> is one turn of the loop. The thread keeps the mutex from
  \<open>acquire_enter\<close> into the first turn, so \<open>acquire_first\<close> is one step. Time is a number of
  nanoseconds; \<open>instant_limit\<close> is the largest \<open>Instant\<close> of the platform.
\<close>

section \<open>Operations\<close>

record lock_guard =
  gd_live :: bool
  gd_req :: u64
  gd_txn :: transaction_id
  gd_key :: lock_key
  gd_mode :: lock_mode

definition lock_guard_new :: "u64 \<Rightarrow> transaction_id \<Rightarrow> lock_key \<Rightarrow> lock_mode \<Rightarrow> lock_guard" where
  "lock_guard_new req t k md = \<lparr>gd_live = True, gd_req = req, gd_txn = t, gd_key = k, gd_mode = md\<rparr>"

definition instant_checked_add :: "nat \<Rightarrow> nat \<Rightarrow> nat \<Rightarrow> nat option" where
  "instant_checked_add instant_limit now d = (if now + d \<le> instant_limit then Some (now + d) else None)"

definition acquire_ticket ::
  "nat \<Rightarrow> nat \<Rightarrow> nat option \<Rightarrow> lock_manager \<Rightarrow> (u64 \<times> nat) res \<times> lock_manager" where
  "acquire_ticket instant_limit now timeout m =
     (let timeout = (case timeout of Some t \<Rightarrow> t | None \<Rightarrow> default_timeout m) in
      if timeout = 0 then (Inl E_22023, m)
      else case checked_add_u64 (next_request_id m) 1 of
        None \<Rightarrow> (Inl E_54000, m)
      | Some next \<Rightarrow>
          let req = next_request_id m; m' = m\<lparr>next_request_id := next\<rparr> in
          case instant_checked_add instant_limit now timeout of
            None \<Rightarrow> (Inl E_22023, m')
          | Some deadline \<Rightarrow> (Inr (req, deadline), m'))"

definition enqueue_waiter :: "u64 \<Rightarrow> transaction_id \<Rightarrow> lock_key \<Rightarrow> lock_mode \<Rightarrow> lock_state \<Rightarrow> lock_state" where
  "enqueue_waiter req t k md st =
     (let q = (case bm_get (waiting st) k of None \<Rightarrow> [] | Some q \<Rightarrow> q)
      in st\<lparr>waiting := bm_insert k (q @ [\<lparr>w_req = req, w_txn = t, w_mode = md\<rparr>]) (waiting st)\<rparr>)"

definition mark_victim :: "lock_state \<Rightarrow> lock_state" where
  "mark_victim st =
     (case deadlock_victim st of
        None \<Rightarrow> st
      | Some v \<Rightarrow> st\<lparr>deadlock_victims := bs_insert v (deadlock_victims st)\<rparr>)"

text \<open>\<open>Inr (Some guard)\<close> returns the guard; \<open>Inr None\<close> goes (back) to the wait loop.\<close>

definition acquire_enter ::
  "nat \<Rightarrow> u64 \<Rightarrow> transaction_id \<Rightarrow> lock_key \<Rightarrow> lock_mode \<Rightarrow> lock_state \<Rightarrow> lock_guard option res \<times> lock_state" where
  "acquire_enter limit req t k md st =
     (if can_grant_immediately st t k md
      then (Inr (Some (lock_guard_new req t k md)), grant req t k md st)
      else if limit \<le> waiter_count st then (Inl E_54000, st)
      else (Inr None, mark_victim (enqueue_waiter req t k md st)))"

definition acquire_poll ::
  "bool \<Rightarrow> nat \<Rightarrow> nat \<Rightarrow> u64 \<Rightarrow> transaction_id \<Rightarrow> lock_key \<Rightarrow> lock_mode \<Rightarrow> lock_state \<Rightarrow>
     lock_guard option res \<times> lock_state" where
  "acquire_poll cancelled now deadline req t k md st =
     (if bs_mem t (deadlock_victims st)
      then (Inl E_40P01, remove_waiter k req (st\<lparr>deadlock_victims := bs_remove t (deadlock_victims st)\<rparr>))
      else if cancelled then (Inl E_57014, remove_waiter k req st)
      else case waiter_can_run st k req of
        Inl e \<Rightarrow> (Inl e, st)
      | Inr True \<Rightarrow> (Inr (Some (lock_guard_new req t k md)), grant req t k md (remove_waiter k req st))
      | Inr False \<Rightarrow>
          if deadline \<le> now then (Inl E_55P03, remove_waiter k req st) else (Inr None, st))"

definition acquire_first ::
  "nat \<Rightarrow> bool \<Rightarrow> nat \<Rightarrow> nat \<Rightarrow> u64 \<Rightarrow> transaction_id \<Rightarrow> lock_key \<Rightarrow> lock_mode \<Rightarrow> lock_state \<Rightarrow>
     lock_guard option res \<times> lock_state" where
  "acquire_first limit cancelled now deadline req t k md st =
     (case acquire_enter limit req t k md st of
        (Inr None, st') \<Rightarrow> acquire_poll cancelled now deadline req t k md st'
      | r \<Rightarrow> r)"

definition drop_empty :: "('k::linorder, 'a list) btree_map \<Rightarrow> ('k, 'a list) btree_map" where
  "drop_empty = bm_retain (\<lambda>_ xs. xs \<noteq> [])"

definition release_transaction :: "transaction_id \<Rightarrow> lock_state \<Rightarrow> lock_state" where
  "release_transaction t st =
     \<lparr>granted = drop_empty (bm_map (\<lambda>_. filter (\<lambda>g. g_txn g \<noteq> t)) (granted st)),
      waiting = drop_empty (bm_map (\<lambda>_. filter (\<lambda>r. w_txn r \<noteq> t)) (waiting st)),
      deadlock_victims = bs_remove t (deadlock_victims st)\<rparr>"

definition set_default_timeout :: "nat \<Rightarrow> lock_manager \<Rightarrow> lock_manager res" where
  "set_default_timeout timeout m =
     (if timeout = 0 then Inl E_22023 else Inr (m\<lparr>default_timeout := timeout\<rparr>))"

definition release_request :: "lock_key \<Rightarrow> u64 \<Rightarrow> lock_state \<Rightarrow> lock_state" where
  "release_request k req st =
     (case bm_get (granted st) k of
        None \<Rightarrow> st
      | Some gs \<Rightarrow>
          let gs' = filter (\<lambda>g. g_req g \<noteq> req) gs in
          if gs' = [] then st\<lparr>granted := bm_remove k (granted st)\<rparr>
          else st\<lparr>granted := bm_insert k gs' (granted st)\<rparr>)"

definition guard_release :: "lock_guard \<Rightarrow> lock_state \<Rightarrow> lock_guard \<times> lock_state" where
  "guard_release g st =
     (if gd_live g then (g\<lparr>gd_live := False\<rparr>, release_request (gd_key g) (gd_req g) st) else (g, st))"

record lock_snapshot =
  ls_txn :: transaction_id
  ls_key :: lock_key
  ls_mode :: lock_mode

record lock_wait_snapshot =
  lw_txn :: transaction_id
  lw_key :: lock_key
  lw_mode :: lock_mode
  lw_blocked_by :: "transaction_id btree_set"

definition lock_snapshot :: "lock_state \<Rightarrow> lock_snapshot list \<times> lock_wait_snapshot list" where
  "lock_snapshot st =
     (let graph = wait_for_graph st in
      (concat (map (\<lambda>(k, gs). map (\<lambda>g. \<lparr>ls_txn = g_txn g, ls_key = k, ls_mode = g_mode g\<rparr>) gs)
         (bm_list (granted st))),
       concat (map (\<lambda>(k, q). map (\<lambda>r. \<lparr>lw_txn = w_txn r, lw_key = k, lw_mode = w_mode r,
           lw_blocked_by = (case bm_get graph (w_txn r) of None \<Rightarrow> bm_empty | Some s \<Rightarrow> s)\<rparr>) q)
         (bm_list (waiting st)))))"

section \<open>The two tables seen as functions\<close>

definition grants_of :: "lock_state \<Rightarrow> lock_key \<Rightarrow> granted_lock list" where
  "grants_of st k = (case bm_get (granted st) k of None \<Rightarrow> [] | Some gs \<Rightarrow> gs)"

definition queue_of :: "lock_state \<Rightarrow> lock_key \<Rightarrow> wait_request list" where
  "queue_of st k = (case bm_get (waiting st) k of None \<Rightarrow> [] | Some q \<Rightarrow> q)"

named_theorems lock_views "what each operation does to grants_of, queue_of and the victims"

lemma grants_of_ops [lock_views]:
  "grants_of (grant req t k md st) k' =
     (if k' = k then grants_of st k @ [\<lparr>g_req = req, g_txn = t, g_mode = md\<rparr>] else grants_of st k')"
  "grants_of (remove_waiter k req st) = grants_of st"
  "grants_of (enqueue_waiter req t k md st) = grants_of st"
  "grants_of (mark_victim st) = grants_of st"
  "grants_of (st\<lparr>deadlock_victims := vs\<rparr>) = grants_of st"
  "grants_of (release_transaction t st) k' = filter (\<lambda>g. g_txn g \<noteq> t) (grants_of st k')"
  "grants_of (release_request k req st) k' =
     (if k' = k then filter (\<lambda>g. g_req g \<noteq> req) (grants_of st k) else grants_of st k')"
  "grants_of empty_lock_state k' = []"
  by (auto simp: grants_of_def grant_def remove_waiter_def enqueue_waiter_def mark_victim_def
      release_transaction_def release_request_def empty_lock_state_def drop_empty_def Let_def
      fun_eq_iff split: option.splits)

lemma queue_of_ops [lock_views]:
  "queue_of (grant req t k md st) = queue_of st"
  "queue_of (remove_waiter k req st) k' =
     (if k' = k then filter (\<lambda>r. w_req r \<noteq> req) (queue_of st k) else queue_of st k')"
  "queue_of (enqueue_waiter req t k md st) k' =
     (if k' = k then queue_of st k @ [\<lparr>w_req = req, w_txn = t, w_mode = md\<rparr>] else queue_of st k')"
  "queue_of (mark_victim st) = queue_of st"
  "queue_of (st\<lparr>deadlock_victims := vs\<rparr>) = queue_of st"
  "queue_of (release_transaction t st) k' = filter (\<lambda>r. w_txn r \<noteq> t) (queue_of st k')"
  "queue_of (release_request k req st) = queue_of st"
  "queue_of empty_lock_state k' = []"
  by (auto simp: queue_of_def grant_def remove_waiter_def enqueue_waiter_def mark_victim_def
      release_transaction_def release_request_def empty_lock_state_def drop_empty_def Let_def
      fun_eq_iff split: option.splits)

lemma victims_ops [lock_views]:
  "deadlock_victims (grant req t k md st) = deadlock_victims st"
  "deadlock_victims (remove_waiter k req st) = deadlock_victims st"
  "deadlock_victims (enqueue_waiter req t k md st) = deadlock_victims st"
  "deadlock_victims (release_transaction t st) = bs_remove t (deadlock_victims st)"
  "deadlock_victims (release_request k req st) = deadlock_victims st"
  "deadlock_victims empty_lock_state = bm_empty"
  by (auto simp: grant_def remove_waiter_def enqueue_waiter_def
      release_transaction_def release_request_def empty_lock_state_def Let_def
      split: option.splits)

lemma holders_compatible_grants:
  "holders_compatible st t k md \<longleftrightarrow> (\<forall>g \<in> set (grants_of st k). g_txn g = t \<or> compatible md (g_mode g))"
  by (auto simp: holders_compatible_def grants_of_def list_all_iff split: option.splits)

lemma can_grant_immediately_iff:
  "can_grant_immediately st t k md \<longleftrightarrow> queue_of st k = [] \<and> holders_compatible st t k md"
  by (auto simp: can_grant_immediately_def queue_of_def split: option.splits)

lemma waits_for_views:
  "waits_for st a b \<longleftrightarrow>
     (\<exists>k i. i < length (queue_of st k) \<and> w_txn (queue_of st k ! i) = a \<and> b \<noteq> a \<and>
        ((\<exists>g \<in> set (grants_of st k). g_txn g = b \<and> \<not> compatible (w_mode (queue_of st k ! i)) (g_mode g)) \<or>
         (\<exists>j < i. w_txn (queue_of st k ! j) = b \<and>
            \<not> compatible (w_mode (queue_of st k ! i)) (w_mode (queue_of st k ! j)))))"
  (is "_ \<longleftrightarrow> ?rhs")
proof
  assume "waits_for st a b"
  then obtain k q i where k: "bm_get (waiting st) k = Some q" "i < length q" "w_txn (q ! i) = a" "b \<noteq> a"
    "(\<exists>gs g. bm_get (granted st) k = Some gs \<and> g \<in> set gs \<and> g_txn g = b \<and>
        \<not> compatible (w_mode (q ! i)) (g_mode g)) \<or>
     (\<exists>j < i. w_txn (q ! j) = b \<and> \<not> compatible (w_mode (q ! i)) (w_mode (q ! j)))"
    unfolding waits_for_def by blast
  then show ?rhs
    by (intro exI [of _ k] exI [of _ i]) (auto simp: queue_of_def grants_of_def)
next
  assume ?rhs
  then obtain k i where k: "i < length (queue_of st k)" "w_txn (queue_of st k ! i) = a" "b \<noteq> a"
    "(\<exists>g \<in> set (grants_of st k). g_txn g = b \<and> \<not> compatible (w_mode (queue_of st k ! i)) (g_mode g)) \<or>
         (\<exists>j < i. w_txn (queue_of st k ! j) = b \<and>
            \<not> compatible (w_mode (queue_of st k ! i)) (w_mode (queue_of st k ! j)))"
    by blast
  then show "waits_for st a b"
    unfolding waits_for_def
    by (intro exI [of _ k] exI [of _ "queue_of st k"] exI [of _ i])
      (cases "bm_get (granted st) k"; auto simp: queue_of_def grants_of_def split: option.splits)
qed

lemma position_of_Some:
  "position_of P xs = Some i \<longleftrightarrow> i < length xs \<and> P (xs ! i) \<and> (\<forall>j < i. \<not> P (xs ! j))"
proof (induction xs arbitrary: i)
  case Nil
  then show ?case by simp
next
  case (Cons x xs)
  show ?case
  proof (cases i)
    case 0
    then show ?thesis by (auto simp: map_option_case split: option.splits)
  next
    case (Suc i')
    have "(\<forall>j < Suc i'. \<not> P ((x # xs) ! j)) \<longleftrightarrow> \<not> P x \<and> (\<forall>j < i'. \<not> P (xs ! j))"
      using All_less_Suc2 [of i' "\<lambda>j. \<not> P ((x # xs) ! j)"] by simp
    with Suc Cons.IH [of i'] show ?thesis by (auto split: option.splits)
  qed
qed

lemma position_of_None: "position_of P xs = None \<longleftrightarrow> (\<forall>x \<in> set xs. \<not> P x)"
  by (induction xs) auto

lemma distinct_position:
  assumes "distinct (map w_req q)" and "i < length q" and "w_req (q ! i) = req"
  shows "position_of (\<lambda>r. w_req r = req) q = Some i"
  using assms by (auto simp: position_of_Some distinct_conv_nth)


text \<open>
  The grant test and the wait-for graph agree: a waiting request may run exactly if no
  other transaction blocks it, in the sense that builds the edges of the graph.
\<close>

lemma waiter_can_run_eq:
  assumes "distinct (map w_req (queue_of st k))" and "i < length (queue_of st k)"
    and "queue_of st k ! i = r"
  shows "waiter_can_run st k (w_req r) = Inr (request_blockers st k (queue_of st k) i r = [])"
proof -
  obtain q where q: "bm_get (waiting st) k = Some q" "queue_of st k = q"
    using assms(2) by (auto simp: queue_of_def split: option.splits)
  have "position_of (\<lambda>r'. w_req r' = w_req r) q = Some i"
    by (rule distinct_position) (use assms q in auto)
  then show ?thesis
    using assms(3) q
    by (auto simp: waiter_can_run_def Let_def request_blockers_def holders_compatible_grants
        grants_of_def list_all_iff filter_empty_conv split: option.splits)
qed

lemma waiter_can_run_gone:
  "req \<notin> w_req ` set (queue_of st k) \<Longrightarrow> waiter_can_run st k req = Inl E_XX000"
proof (cases "bm_get (waiting st) k")
  case None
  then show ?thesis by (simp add: waiter_can_run_def)
next
  case (Some q)
  assume "req \<notin> w_req ` set (queue_of st k)"
  with Some have "position_of (\<lambda>r. w_req r = req) q = None"
    by (auto simp: queue_of_def position_of_None)
  with Some show ?thesis by (simp add: waiter_can_run_def)
qed

lemma waiter_can_run_True:
  assumes "waiter_can_run st k req = Inr True"
  obtains i where "i < length (queue_of st k)" and "w_req (queue_of st k ! i) = req"
    and "\<forall>j < i. w_txn (queue_of st k ! j) = w_txn (queue_of st k ! i) \<or>
      compatible (w_mode (queue_of st k ! i)) (w_mode (queue_of st k ! j))"
    and "holders_compatible st (w_txn (queue_of st k ! i)) k (w_mode (queue_of st k ! i))"
proof -
  from assms obtain q i where q: "bm_get (waiting st) k = Some q"
    and i: "position_of (\<lambda>r. w_req r = req) q = Some i"
    and ok: "list_all (\<lambda>e. w_txn e = w_txn (q ! i) \<or> compatible (w_mode (q ! i)) (w_mode e)) (take i q)"
      "holders_compatible st (w_txn (q ! i)) k (w_mode (q ! i))"
    by (auto simp: waiter_can_run_def Let_def res_simps)
  moreover from q have "queue_of st k = q" by (simp add: queue_of_def)
  moreover from i have "i < length q" "w_req (q ! i) = req" by (auto simp: position_of_Some)
  moreover from this have "set (take i q) = {q ! j |j. j < i}"
    by (auto simp: set_take_conv)
  ultimately show ?thesis by (intro that [of i]) (auto simp: list_all_iff)
qed

lemma waiter_count_queue:
  assumes "finite K" and "\<And>k. queue_of st k \<noteq> [] \<Longrightarrow> k \<in> K"
  shows "waiter_count st = (\<Sum>k \<in> K. length (queue_of st k))"
proof -
  have "bm_values (waiting st) = map (queue_of st) (bm_keys (waiting st))"
  proof -
    have "v = queue_of st k" if "(k, v) \<in> set (bm_list (waiting st))" for k v
      using that by (simp add: set_bm_list queue_of_def)
    then show ?thesis by (auto simp: bm_values_def bm_keys_def)
  qed
  then have "waiter_count st = sum_list (map (\<lambda>k. length (queue_of st k)) (bm_keys (waiting st)))"
    by (simp add: waiter_count_def comp_def)
  also have "\<dots> = (\<Sum>k \<in> dom (bm_get (waiting st)). length (queue_of st k))"
    by (simp add: sum_list_distinct_conv_sum_set set_bm_keys_dom)
  also have "\<dots> = (\<Sum>k \<in> dom (bm_get (waiting st)) \<union> K. length (queue_of st k))"
    by (rule sum.mono_neutral_left)
      (use assms in \<open>auto simp: queue_of_def split: option.splits\<close>)
  also have "\<dots> = (\<Sum>k \<in> K. length (queue_of st k))"
    by (rule sum.mono_neutral_right) (use assms in auto)
  finally show ?thesis .
qed

lemma finite_queues: "finite {k. queue_of st k \<noteq> []}"
  by (rule finite_subset [of _ "dom (bm_get (waiting st))"])
    (auto simp: queue_of_def split: option.splits)

lemma waiter_count_mono:
  assumes "\<And>k. length (queue_of st k) \<le> length (queue_of st' k)"
  shows "waiter_count st \<le> waiter_count st'"
proof -
  let ?K = "{k. queue_of st' k \<noteq> []}"
  have "waiter_count st = (\<Sum>k \<in> ?K. length (queue_of st k))"
  proof (rule waiter_count_queue [OF finite_queues])
    fix k
    assume "queue_of st k \<noteq> []"
    with assms [of k] show "k \<in> ?K" by auto
  qed
  also have "\<dots> \<le> (\<Sum>k \<in> ?K. length (queue_of st' k))"
    by (rule sum_mono) (rule assms)
  also have "\<dots> = waiter_count st'"
    by (rule waiter_count_queue [OF finite_queues, symmetric]) simp
  finally show ?thesis .
qed

lemma waiter_count_enqueue:
  "waiter_count (enqueue_waiter req t k md st) = Suc (waiter_count st)"
proof -
  let ?K = "insert k {k'. queue_of st k' \<noteq> []}"
  have fin: "finite ?K" by (simp add: finite_queues)
  have "waiter_count (enqueue_waiter req t k md st) =
      (\<Sum>k' \<in> ?K. length (queue_of (enqueue_waiter req t k md st) k'))"
    by (rule waiter_count_queue [OF fin]) (auto simp: lock_views split: if_splits)
  also have "\<dots> = (\<Sum>k' \<in> ?K. length (queue_of st k') + (if k' = k then 1 else 0))"
    by (rule sum.cong) (simp_all add: lock_views)
  also have "\<dots> = (\<Sum>k' \<in> ?K. length (queue_of st k')) + 1"
    using fin by (simp add: sum.distrib)
  also have "(\<Sum>k' \<in> ?K. length (queue_of st k')) = waiter_count st"
    by (rule waiter_count_queue [OF fin, symmetric]) simp
  finally show ?thesis by simp
qed

section \<open>The system: threads, their calls and their guards\<close>

text \<open>
  A call of \<open>acquire\<close> that has its request id is in \<open>calls\<close> until it returns; \<open>lc_waiting\<close>
  holds once it has entered the wait loop. A guard that the code handed out and that is not
  yet dropped is in \<open>guards\<close>.
\<close>

record lock_call =
  lc_txn :: transaction_id
  lc_key :: lock_key
  lc_mode :: lock_mode
  lc_deadline :: nat
  lc_waiting :: bool

record lock_sys =
  mgr :: lock_manager
  calls :: "u64 \<rightharpoonup> lock_call"
  guards :: "u64 \<rightharpoonup> lock_guard"

text \<open>What a thread does with the outcome of a section: keep waiting, hold the guard, or fail.\<close>

abbreviation put_st :: "lock_state \<Rightarrow> lock_sys \<Rightarrow> lock_sys" where
  "put_st st s \<equiv> s\<lparr>mgr := (mgr s)\<lparr>lock_st := st\<rparr>\<rparr>"

definition settle :: "u64 \<Rightarrow> lock_call \<Rightarrow> lock_guard option res \<times> lock_state \<Rightarrow> lock_sys \<Rightarrow> lock_sys" where
  "settle req c r s =
     (let s' = put_st (snd r) s in
      case fst r of
        Inl _ \<Rightarrow> s'\<lparr>calls := (calls s)(req := None)\<rparr>
      | Inr (Some g) \<Rightarrow> s'\<lparr>calls := (calls s)(req := None), guards := (guards s)(req \<mapsto> g)\<rparr>
      | Inr None \<Rightarrow> s'\<lparr>calls := (calls s)(req \<mapsto> c\<lparr>lc_waiting := True\<rparr>)\<rparr>)"

inductive lock_step :: "lock_sys \<Rightarrow> lock_sys \<Rightarrow> bool" where
  ticket: "acquire_ticket instant_limit now timeout (mgr s) = (Inr (req, deadline), m) \<Longrightarrow>
     lock_step s (s\<lparr>mgr := m, calls := (calls s)(req \<mapsto>
       \<lparr>lc_txn = t, lc_key = k, lc_mode = md, lc_deadline = deadline, lc_waiting = False\<rparr>)\<rparr>)"
| no_ticket: "acquire_ticket instant_limit now timeout (mgr s) = (Inl e, m) \<Longrightarrow> lock_step s (s\<lparr>mgr := m\<rparr>)"
| first: "calls s req = Some c \<Longrightarrow> \<not> lc_waiting c \<Longrightarrow>
     lock_step s (settle req c (acquire_first (maximum_waiters (mgr s)) cancelled now (lc_deadline c)
       req (lc_txn c) (lc_key c) (lc_mode c) (lock_st (mgr s))) s)"
| poll: "calls s req = Some c \<Longrightarrow> lc_waiting c \<Longrightarrow>
     lock_step s (settle req c (acquire_poll cancelled now (lc_deadline c)
       req (lc_txn c) (lc_key c) (lc_mode c) (lock_st (mgr s))) s)"
| drop_guard: "guards s req = Some g \<Longrightarrow>
     lock_step s ((put_st (snd (guard_release g (lock_st (mgr s)))) s)\<lparr>guards := (guards s)(req := None)\<rparr>)"
| release_all: "lock_step s (put_st (release_transaction t (lock_st (mgr s))) s)"
| retime: "set_default_timeout timeout (mgr s) = Inr m \<Longrightarrow> lock_step s (s\<lparr>mgr := m\<rparr>)"

inductive_cases lock_stepE: "lock_step s s'"

definition lock_init :: "lock_manager \<Rightarrow> lock_sys" where
  "lock_init m = \<lparr>mgr = m, calls = Map.empty, guards = Map.empty\<rparr>"

inductive lock_reach :: "lock_sys \<Rightarrow> bool" where
  start: "lock_manager_new timeout interval waiters = Inr m \<Longrightarrow> lock_reach (lock_init m)"
| step: "lock_reach s \<Longrightarrow> lock_step s s' \<Longrightarrow> lock_reach s'"

section \<open>The invariant\<close>

text \<open>The part about the manager's tables, and the part that ties them to calls and guards.\<close>

definition lock_state_ok :: "nat \<Rightarrow> lock_state \<Rightarrow> bool" where
  "lock_state_ok limit st \<longleftrightarrow>
     (\<forall>k. \<forall>a \<in> set (grants_of st k). \<forall>b \<in> set (grants_of st k).
        g_txn a = g_txn b \<or> compatible (g_mode a) (g_mode b)) \<and>
     (\<forall>k. distinct (map w_req (queue_of st k)) \<and> distinct (map g_req (grants_of st k))) \<and>
     waiter_count st \<le> limit \<and>
     (\<forall>v \<in> bs_set (deadlock_victims st). \<exists>k. \<exists>r \<in> set (queue_of st k). w_txn r = v)"

definition lock_sys_ok :: "lock_sys \<Rightarrow> bool" where
  "lock_sys_ok s \<longleftrightarrow>
     lock_state_ok (maximum_waiters (mgr s)) (lock_st (mgr s)) \<and>
     (\<forall>req c. calls s req = Some c \<longrightarrow> req < next_request_id (mgr s) \<and> guards s req = None) \<and>
     (\<forall>req d. guards s req = Some d \<longrightarrow> req < next_request_id (mgr s) \<and> gd_live d \<and> gd_req d = req) \<and>
     (\<forall>k. \<forall>r \<in> set (queue_of (lock_st (mgr s)) k). \<exists>c. calls s (w_req r) = Some c \<and> lc_waiting c \<and>
        lc_key c = k \<and> lc_txn c = w_txn r \<and> lc_mode c = w_mode r) \<and>
     (\<forall>k. \<forall>g \<in> set (grants_of (lock_st (mgr s)) k). \<exists>d. guards s (g_req g) = Some d \<and>
        gd_key d = k \<and> gd_txn d = g_txn g \<and> gd_mode d = g_mode g)"

lemma waits_for_waiting: "waits_for st a b \<Longrightarrow> \<exists>k. \<exists>r \<in> set (queue_of st k). w_txn r = a"
  unfolding waits_for_views using nth_mem by blast

lemma lock_state_ok_victimD:
  "lock_state_ok limit st \<Longrightarrow> v \<in> bs_set (deadlock_victims st) \<Longrightarrow> \<exists>k. \<exists>r \<in> set (queue_of st k). w_txn r = v"
  by (simp add: lock_state_ok_def)

lemma lock_state_ok_victim:
  "lock_state_ok limit st \<Longrightarrow> lock_state_ok limit (mark_victim st)"
  using deadlock_victim_cycle [of st, THEN tranclpD]
  by (fastforce simp: lock_state_ok_def lock_views mark_victim_def waiter_count_def
      split: option.splits dest: waits_for_waiting)

lemma lock_state_ok_grant:
  assumes "lock_state_ok limit st" and "holders_compatible st t k md"
    and "req \<notin> g_req ` set (grants_of st k)"
  shows "lock_state_ok limit (grant req t k md st)"
proof -
  have "waiter_count (grant req t k md st) = waiter_count st"
    by (simp add: waiter_count_def grant_def Let_def)
  with assms show ?thesis
    by (auto simp: lock_state_ok_def lock_views holders_compatible_grants compatible_sym)
qed

lemma lock_state_ok_remove:
  assumes "lock_state_ok limit st"
    and "bs_set vs \<subseteq> bs_set (deadlock_victims st)"
    and "\<forall>r \<in> set (queue_of st k). w_req r = req \<longrightarrow> w_txn r \<notin> bs_set vs"
  shows "lock_state_ok limit (remove_waiter k req (st\<lparr>deadlock_victims := vs\<rparr>))"
    (is "lock_state_ok limit ?st")
proof -
  have "waiter_count ?st \<le> waiter_count st"
    by (rule waiter_count_mono) (simp add: lock_views)
  moreover have "\<exists>k'. \<exists>r \<in> set (queue_of ?st k'). w_txn r = v" if "v \<in> bs_set vs" for v
  proof -
    from that assms(2) lock_state_ok_victimD [OF assms(1)]
    obtain k' r where "r \<in> set (queue_of st k')" "w_txn r = v" by blast
    with assms(3) that show ?thesis by (intro exI [of _ k'] bexI [of _ r]) (auto simp: lock_views)
  qed
  ultimately show ?thesis
    using assms(1) by (auto simp: lock_state_ok_def lock_views distinct_map_filter)
qed

lemma lock_state_ok_enqueue:
  assumes "lock_state_ok limit st" and "waiter_count st < limit"
    and "req \<notin> w_req ` set (queue_of st k)"
  shows "lock_state_ok limit (enqueue_waiter req t k md st)"
  unfolding lock_state_ok_def waiter_count_enqueue
proof (intro conjI ballI)
  fix v
  assume "v \<in> bs_set (deadlock_victims (enqueue_waiter req t k md st))"
  with assms(1) obtain k' r where "r \<in> set (queue_of st k')" "w_txn r = v"
    by (auto simp: lock_state_ok_def lock_views)
  then show "\<exists>k'. \<exists>r \<in> set (queue_of (enqueue_waiter req t k md st) k'). w_txn r = v"
    by (intro exI [of _ k'] bexI [of _ r]) (auto simp: lock_views)
qed (use assms in \<open>auto simp: lock_state_ok_def lock_views\<close>)

lemma lock_state_ok_release:
  assumes "lock_state_ok limit st"
  shows "lock_state_ok limit (release_transaction t st)"
proof -
  have "waiter_count (release_transaction t st) \<le> waiter_count st"
    by (rule waiter_count_mono) (simp add: lock_views)
  moreover have "\<exists>k. \<exists>r \<in> set (queue_of (release_transaction t st) k). w_txn r = v"
    if "v \<in> bs_set (deadlock_victims st)" "v \<noteq> t" for v
  proof -
    from that lock_state_ok_victimD [OF assms]
    obtain k' r where "r \<in> set (queue_of st k')" "w_txn r = v" by blast
    with that show ?thesis by (intro exI [of _ k'] bexI [of _ r]) (auto simp: lock_views)
  qed
  ultimately show ?thesis
    using assms by (auto simp: lock_state_ok_def lock_views distinct_map_filter)
qed

lemma lock_state_ok_release_request:
  assumes "lock_state_ok limit st"
  shows "lock_state_ok limit (release_request k req st)"
proof -
  have "waiter_count (release_request k req st) = waiter_count st"
    by (auto simp: waiter_count_def release_request_def Let_def split: option.splits)
  then show ?thesis
    using assms by (auto simp: lock_state_ok_def lock_views distinct_map_filter)
qed


lemma calls_mgr_commute: "s\<lparr>calls := f, mgr := m\<rparr> = s\<lparr>mgr := m, calls := f\<rparr>" for s :: lock_sys
  by (cases s) simp

lemma lock_sys_ok_queue:
  assumes "lock_sys_ok s" and "r \<in> set (queue_of (lock_st (mgr s)) k)"
  obtains c where "calls s (w_req r) = Some c" and "lc_waiting c" and "lc_key c = k"
    and "lc_txn c = w_txn r" and "lc_mode c = w_mode r"
  using assms unfolding lock_sys_ok_def by blast

lemma lock_sys_ok_grants:
  assumes "lock_sys_ok s" and "g \<in> set (grants_of (lock_st (mgr s)) k)"
  obtains d where "guards s (g_req g) = Some d" and "gd_key d = k" and "gd_txn d = g_txn g"
    and "gd_mode d = g_mode g"
  using assms unfolding lock_sys_ok_def by blast

lemma lock_sys_ok_grant:
  "lock_sys_ok s \<Longrightarrow> g \<in> set (grants_of (lock_st (mgr s)) k) \<Longrightarrow>
     \<exists>d. guards s (g_req g) = Some d \<and> gd_key d = k \<and> gd_txn d = g_txn g \<and> gd_mode d = g_mode g"
  unfolding lock_sys_ok_def by blast

lemma lock_sys_ok_guard: "lock_sys_ok s \<Longrightarrow> guards s req = Some d \<Longrightarrow> gd_live d \<and> gd_req d = req"
  unfolding lock_sys_ok_def by blast

lemma lock_sys_ok_drop_call:
  assumes ok: "lock_sys_ok s" and call: "calls s req = Some c" and waiting: "lc_waiting c"
    and vs: "bs_set vs \<subseteq> bs_set (deadlock_victims (lock_st (mgr s)))" "lc_txn c \<notin> bs_set vs"
  shows "lock_sys_ok ((put_st (remove_waiter (lc_key c) req ((lock_st (mgr s))\<lparr>deadlock_victims := vs\<rparr>)) s)
    \<lparr>calls := (calls s)(req := None)\<rparr>)"
proof -
  have "lock_state_ok (maximum_waiters (mgr s))
      (remove_waiter (lc_key c) req ((lock_st (mgr s))\<lparr>deadlock_victims := vs\<rparr>))"
  proof (rule lock_state_ok_remove)
    show "\<forall>r \<in> set (queue_of (lock_st (mgr s)) (lc_key c)). w_req r = req \<longrightarrow> w_txn r \<notin> bs_set vs"
      using call vs(2) by (auto elim!: lock_sys_ok_queue [OF ok])
  qed (use ok vs in \<open>auto simp: lock_sys_ok_def\<close>)
  moreover have "\<exists>c'. ((calls s)(req := None)) (w_req r) = Some c' \<and> lc_waiting c' \<and>
      lc_key c' = k \<and> lc_txn c' = w_txn r \<and> lc_mode c' = w_mode r"
    if "r \<in> set (queue_of (lock_st (mgr s)) k)" "k = lc_key c \<longrightarrow> w_req r \<noteq> req" for k r
    using that call by (auto elim!: lock_sys_ok_queue [OF ok])
  ultimately show ?thesis
    using ok by (auto simp: lock_sys_ok_def lock_views)
qed

lemma lock_sys_ok_leave_call:
  assumes ok: "lock_sys_ok s" and absent: "\<And>k. req \<notin> w_req ` set (queue_of (lock_st (mgr s)) k)"
  shows "lock_sys_ok (s\<lparr>calls := (calls s)(req := None)\<rparr>)"
proof -
  have "\<exists>c'. ((calls s)(req := None)) (w_req r) = Some c' \<and> lc_waiting c' \<and>
      lc_key c' = k \<and> lc_txn c' = w_txn r \<and> lc_mode c' = w_mode r"
    if "r \<in> set (queue_of (lock_st (mgr s)) k)" for k r
  proof -
    from that absent have "w_req r \<noteq> req" by blast
    with lock_sys_ok_queue [OF ok that] show ?thesis by (metis fun_upd_apply)
  qed
  then show ?thesis using ok by (auto simp: lock_sys_ok_def)
qed

lemma lock_sys_ok_absent:
  assumes ok: "lock_sys_ok s" and call: "calls s req = Some c"
    and "\<not> lc_waiting c \<or> waiter_can_run (lock_st (mgr s)) (lc_key c) req = Inl e"
  shows "req \<notin> w_req ` set (queue_of (lock_st (mgr s)) k)"
proof
  assume "req \<in> w_req ` set (queue_of (lock_st (mgr s)) k)"
  then obtain i where i: "i < length (queue_of (lock_st (mgr s)) k)"
    "w_req (queue_of (lock_st (mgr s)) k ! i) = req"
    by (auto simp: in_set_conv_nth)
  then obtain "lc_waiting c" "lc_key c = k"
    using call by (auto elim: lock_sys_ok_queue [OF ok nth_mem])
  moreover have "distinct (map w_req (queue_of (lock_st (mgr s)) k))"
    using ok by (simp add: lock_sys_ok_def lock_state_ok_def)
  ultimately show False
    using assms(3) waiter_can_run_eq [OF _ i(1) refl] i(2) by auto
qed

lemma lock_sys_ok_gain_guard:
  assumes ok: "lock_sys_ok s" and fresh: "calls s req = None" "guards s req = None"
    and below: "req < next_request_id (mgr s)"
    and holders: "holders_compatible (lock_st (mgr s)) t k md"
  shows "lock_sys_ok ((put_st (grant req t k md (lock_st (mgr s))) s)
    \<lparr>guards := (guards s)(req \<mapsto> lock_guard_new req t k md)\<rparr>)"
proof -
  have new: "g_req g \<noteq> req" if "g \<in> set (grants_of (lock_st (mgr s)) k')" for g k'
    using that fresh by (auto elim!: lock_sys_ok_grants [OF ok])
  have "lock_state_ok (maximum_waiters (mgr s)) (grant req t k md (lock_st (mgr s)))"
    by (rule lock_state_ok_grant) (use ok holders new in \<open>auto simp: lock_sys_ok_def\<close>)
  with ok fresh below new show ?thesis
    by (auto simp: lock_sys_ok_def lock_views lock_guard_new_def)
qed

lemma lock_sys_ok_enqueue:
  assumes ok: "lock_sys_ok s" and call: "calls s req = Some c" and waiting: "\<not> lc_waiting c"
    and room: "waiter_count (lock_st (mgr s)) < maximum_waiters (mgr s)"
  shows "lock_sys_ok ((put_st (mark_victim (enqueue_waiter req (lc_txn c) (lc_key c) (lc_mode c)
    (lock_st (mgr s)))) s)\<lparr>calls := (calls s)(req \<mapsto> c\<lparr>lc_waiting := True\<rparr>)\<rparr>)"
proof -
  have new: "w_req r \<noteq> req" if "r \<in> set (queue_of (lock_st (mgr s)) k)" for r k
    using that call waiting by (auto elim!: lock_sys_ok_queue [OF ok])
  have "lock_state_ok (maximum_waiters (mgr s)) (mark_victim (enqueue_waiter req (lc_txn c)
      (lc_key c) (lc_mode c) (lock_st (mgr s))))"
    by (intro lock_state_ok_victim lock_state_ok_enqueue)
      (use ok room new in \<open>auto simp: lock_sys_ok_def\<close>)
  with ok call new show ?thesis
    by (auto simp: lock_sys_ok_def lock_views)
qed

text \<open>One turn of the wait loop.\<close>

lemma remove_waiter_same_victims: "remove_waiter k req (st\<lparr>deadlock_victims := deadlock_victims st\<rparr>) = remove_waiter k req st"
  by simp

lemma lock_sys_ok_poll:
  assumes ok: "lock_sys_ok s" and call: "calls s req = Some c" and waiting: "lc_waiting c"
  shows "lock_sys_ok (settle req c (acquire_poll cancelled now deadline
    req (lc_txn c) (lc_key c) (lc_mode c) (lock_st (mgr s))) s)"
proof -
  let ?st = "lock_st (mgr s)"
  note drop = lock_sys_ok_drop_call [OF ok call waiting]
  show ?thesis
  proof (cases "lc_txn c \<in> bs_set (deadlock_victims ?st)")
    case True
    then show ?thesis
      using drop [of "bs_remove (lc_txn c) (deadlock_victims ?st)"]
      by (simp add: acquire_poll_def settle_def)
  next
    case False
    then have leave: "lock_sys_ok ((put_st (remove_waiter (lc_key c) req ?st) s)
        \<lparr>calls := (calls s)(req := None)\<rparr>)"
      using drop [of "deadlock_victims ?st"] by simp
    have stay: "lock_sys_ok (s\<lparr>calls := (calls s)(req \<mapsto> c\<lparr>lc_waiting := True\<rparr>)\<rparr>)"
      using ok call waiting by (simp add: fun_upd_idem)
    show ?thesis
    proof (cases "waiter_can_run ?st (lc_key c) req")
      case (Inl e)
      then have "lock_sys_ok (s\<lparr>calls := (calls s)(req := None)\<rparr>)"
        by (intro lock_sys_ok_leave_call ok lock_sys_ok_absent [OF ok call]) blast
      with Inl False leave show ?thesis by (simp add: acquire_poll_def settle_def)
    next
      case (Inr ran)
      show ?thesis
      proof (cases "ran \<and> \<not> cancelled")
        case True
        with Inr have "waiter_can_run ?st (lc_key c) req = Inr True" by simp
        from waiter_can_run_True [OF this] obtain i where i: "i < length (queue_of ?st (lc_key c))" "w_req (queue_of ?st (lc_key c) ! i) = req"
          and hc: "holders_compatible ?st (w_txn (queue_of ?st (lc_key c) ! i)) (lc_key c)
            (w_mode (queue_of ?st (lc_key c) ! i))"
          by blast
        from i call have "w_txn (queue_of ?st (lc_key c) ! i) = lc_txn c"
          and "w_mode (queue_of ?st (lc_key c) ! i) = lc_mode c"
          using lock_sys_ok_queue [OF ok, of "queue_of ?st (lc_key c) ! i" "lc_key c"] by fastforce+
        with hc have "holders_compatible (remove_waiter (lc_key c) req ?st) (lc_txn c) (lc_key c) (lc_mode c)"
          by (simp add: holders_compatible_grants lock_views)
        moreover have "guards s req = None" "req < next_request_id (mgr s)"
          using ok call by (auto simp: lock_sys_ok_def)
        ultimately show ?thesis
          using lock_sys_ok_gain_guard [OF leave, of req "lc_txn c" "lc_key c" "lc_mode c"] True Inr False
          by (simp add: acquire_poll_def settle_def calls_mgr_commute)
      next
        case no: False
        with leave stay False Inr show ?thesis
          by (auto simp: acquire_poll_def settle_def)
      qed
    qed
  qed
qed

lemma lock_sys_ok_first:
  assumes ok: "lock_sys_ok s" and call: "calls s req = Some c" and waiting: "\<not> lc_waiting c"
  shows "lock_sys_ok (settle req c (acquire_first (maximum_waiters (mgr s)) cancelled now deadline
    req (lc_txn c) (lc_key c) (lc_mode c) (lock_st (mgr s))) s)"
proof -
  let ?st = "lock_st (mgr s)"
  have leave: "lock_sys_ok (s\<lparr>calls := (calls s)(req := None)\<rparr>)"
    by (intro lock_sys_ok_leave_call ok lock_sys_ok_absent [OF ok call]) (simp add: waiting)
  show ?thesis
  proof (cases "can_grant_immediately ?st (lc_txn c) (lc_key c) (lc_mode c)")
    case True
    moreover have "guards s req = None" "req < next_request_id (mgr s)"
      using ok call by (auto simp: lock_sys_ok_def)
    ultimately show ?thesis
      using lock_sys_ok_gain_guard [OF leave, of req "lc_txn c" "lc_key c" "lc_mode c"]
      by (simp add: acquire_first_def acquire_enter_def settle_def can_grant_immediately_iff
          calls_mgr_commute)
  next
    case no: False
    show ?thesis
    proof (cases "maximum_waiters (mgr s) \<le> waiter_count ?st")
      case True
      with no leave show ?thesis
        by (simp add: acquire_first_def acquire_enter_def settle_def)
    next
      case False
      let ?c = "c\<lparr>lc_waiting := True\<rparr>"
      let ?q = "mark_victim (enqueue_waiter req (lc_txn c) (lc_key c) (lc_mode c) ?st)"
      let ?s = "(put_st ?q s)\<lparr>calls := (calls s)(req \<mapsto> ?c)\<rparr>"
      have "lock_sys_ok ?s"
        using False by (intro lock_sys_ok_enqueue ok call waiting) simp
      then have "lock_sys_ok (settle req ?c (acquire_poll cancelled now deadline
          req (lc_txn ?c) (lc_key ?c) (lc_mode ?c) (lock_st (mgr ?s))) ?s)"
        by (rule lock_sys_ok_poll) simp_all
      moreover have "settle req ?c r ?s = settle req c r s" for r
        by (simp add: settle_def Let_def split: sum.splits option.splits)
      ultimately show ?thesis
        using no False by (simp add: acquire_first_def acquire_enter_def)
    qed
  qed
qed

lemma lock_sys_ok_drop_guard:
  assumes ok: "lock_sys_ok s" and guard: "guards s req = Some g"
  shows "lock_sys_ok ((put_st (snd (guard_release g (lock_st (mgr s)))) s)\<lparr>guards := (guards s)(req := None)\<rparr>)"
proof -
  from ok guard have g: "gd_live g" "gd_req g = req" by (simp_all add: lock_sys_ok_def)
  have "\<exists>d. ((guards s)(req := None)) (g_req h) = Some d \<and> gd_key d = k \<and> gd_txn d = g_txn h \<and> gd_mode d = g_mode h"
    if "h \<in> set (grants_of (lock_st (mgr s)) k)" "k = gd_key g \<longrightarrow> g_req h \<noteq> req" for h k
  proof -
    from lock_sys_ok_grants [OF ok that(1)] obtain d where d: "guards s (g_req h) = Some d"
      "gd_key d = k" "gd_txn d = g_txn h" "gd_mode d = g_mode h" .
    with guard that(2) show ?thesis by auto
  qed
  with ok g show ?thesis
    by (simp add: lock_sys_ok_def lock_views guard_release_def lock_state_ok_release_request)
qed

lemma lock_sys_ok_release_all:
  assumes ok: "lock_sys_ok s"
  shows "lock_sys_ok (put_st (release_transaction t (lock_st (mgr s))) s)"
  using ok by (simp add: lock_sys_ok_def lock_views lock_state_ok_release)

lemma acquire_ticket_mgr:
  assumes "acquire_ticket instant_limit now timeout m = (r, m')"
  shows "(m' = m \<and> (\<exists>e. r = Inl e)) \<or>
     (m' = m\<lparr>next_request_id := next_request_id m + 1\<rparr> \<and> next_request_id m < next_request_id m + 1 \<and>
      (\<forall>req deadline. r = Inr (req, deadline) \<longrightarrow> req = next_request_id m))"
proof (cases "checked_add_u64 (next_request_id m) 1")
  case None
  with assms show ?thesis by (auto simp: acquire_ticket_def Let_def split: if_splits)
next
  case (Some n)
  then have "n = next_request_id m + 1" "next_request_id m < n"
    by (simp_all add: checked_add_u64_Some_iff checked_add_one_less)
  with Some assms show ?thesis
    by (auto simp: acquire_ticket_def Let_def split: if_splits option.splits)
qed

lemma lock_sys_ok_step:
  assumes "lock_step s s'" and ok: "lock_sys_ok s"
  shows "lock_sys_ok s'"
  using assms(1)
proof (cases rule: lock_step.cases)
  case (ticket instant_limit now timeout req deadline m t k md)
  from acquire_ticket_mgr [OF ticket(2)]
  have m: "m = (mgr s)\<lparr>next_request_id := next_request_id (mgr s) + 1\<rparr>"
    and req: "req = next_request_id (mgr s)"
    and less: "next_request_id (mgr s) < next_request_id (mgr s) + 1" by auto
  have old: "x \<noteq> req \<and> x < next_request_id (mgr s) + 1" if "x < next_request_id (mgr s)" for x
    using that less req by (auto intro: order.strict_trans)
  have calls: "x \<noteq> req \<and> x < next_request_id (mgr s) + 1 \<and> guards s x = None" if "calls s x = Some c" for x c
    using that ok old by (auto simp: lock_sys_ok_def)
  have gds: "x \<noteq> req \<and> x < next_request_id (mgr s) + 1" if "guards s x = Some d" for x d
    using that ok old by (auto simp: lock_sys_ok_def)
  then have fresh: "guards s req = None" by (metis not_None_eq)
  have s': "mgr s' = m" "guards s' = guards s" "lock_st m = lock_st (mgr s)"
      "maximum_waiters m = maximum_waiters (mgr s)" "next_request_id m = next_request_id (mgr s) + 1"
      "calls s' = (calls s)(req \<mapsto>
        \<lparr>lc_txn = t, lc_key = k, lc_mode = md, lc_deadline = deadline, lc_waiting = False\<rparr>)"
    by (simp_all add: ticket(1) m)
  have queue: "\<exists>c. calls s' (w_req r) = Some c \<and> lc_waiting c \<and> lc_key c = k' \<and> lc_txn c = w_txn r \<and>
      lc_mode c = w_mode r" if "r \<in> set (queue_of (lock_st (mgr s)) k')" for r k'
  proof -
    from lock_sys_ok_queue [OF ok that] obtain c where c: "calls s (w_req r) = Some c" "lc_waiting c"
      "lc_key c = k'" "lc_txn c = w_txn r" "lc_mode c = w_mode r" .
    from calls [OF c(1)] c show ?thesis by (simp add: s'(6))
  qed
  have calls': "x < next_request_id (mgr s) + 1 \<and> guards s x = None" if "calls s' x = Some c" for x c
  proof (cases "x = req")
    case True
    with fresh less req show ?thesis by simp
  next
    case False
    with that have "calls s x = Some c" by (simp add: s'(6))
    from calls [OF this] show ?thesis by blast
  qed
  show ?thesis
    unfolding lock_sys_ok_def s'(1-5)
  proof (intro conjI allI ballI impI)
    show "lock_state_ok (maximum_waiters (mgr s)) (lock_st (mgr s))"
      using ok by (simp add: lock_sys_ok_def)
  qed (fact queue lock_sys_ok_grant [OF ok] | blast dest: calls' gds lock_sys_ok_guard [OF ok])+
next
  case (no_ticket instant_limit now timeout e m)
  from acquire_ticket_mgr [OF no_ticket(2)] consider "m = mgr s"
    | "m = (mgr s)\<lparr>next_request_id := next_request_id (mgr s) + 1\<rparr>"
      "next_request_id (mgr s) < next_request_id (mgr s) + 1" by blast
  then show ?thesis
  proof cases
    case 1
    with ok no_ticket(1) show ?thesis by simp
  next
    case 2
    have "x < next_request_id (mgr s) + 1" if "x < next_request_id (mgr s)" for x
      using that 2(2) by (rule order.strict_trans)
    with ok show ?thesis by (simp add: lock_sys_ok_def no_ticket(1) 2(1))
  qed
next
  case (first req c cancelled now)
  show ?thesis
    unfolding first(1) by (rule lock_sys_ok_first) (fact ok first(2) first(3))+
next
  case (poll req c cancelled now)
  show ?thesis
    unfolding poll(1) by (rule lock_sys_ok_poll) (fact ok poll(2) poll(3))+
next
  case (drop_guard req g)
  show ?thesis
    unfolding drop_guard(1) by (rule lock_sys_ok_drop_guard) (fact ok drop_guard(2))+
next
  case (release_all t)
  show ?thesis
    unfolding release_all(1) by (rule lock_sys_ok_release_all [OF ok])
next
  case (retime timeout m)
  then have "s' = s\<lparr>mgr := (mgr s)\<lparr>default_timeout := timeout\<rparr>\<rparr>"
    by (simp add: set_default_timeout_def split: if_splits)
  with ok show ?thesis by (simp add: lock_sys_ok_def)
qed

lemma lock_sys_ok_init: "lock_manager_new timeout interval waiters = Inr m \<Longrightarrow> lock_sys_ok (lock_init m)"
  using waiter_count_queue [of "{}" empty_lock_state]
  by (auto simp: lock_manager_new_def lock_init_def lock_sys_ok_def lock_state_ok_def lock_views
      split: if_splits)

lemma lock_reach_ok: "lock_reach s \<Longrightarrow> lock_sys_ok s"
  by (induction rule: lock_reach.induct) (auto intro: lock_sys_ok_init lock_sys_ok_step)

text \<open>A thread that runs \<open>acquire\<close> up to the end of its first critical section.\<close>

lemma lock_reach_acquire:
  assumes "lock_reach s" and "acquire_ticket instant_limit now timeout (mgr s) = (Inr (req, deadline), m)"
    and "c = \<lparr>lc_txn = t, lc_key = k, lc_mode = md, lc_deadline = deadline, lc_waiting = False\<rparr>"
  shows "lock_reach (settle req c (acquire_first (maximum_waiters m) cancelled now' deadline req t k md
    (lock_st m)) (s\<lparr>mgr := m, calls := (calls s)(req \<mapsto> c)\<rparr>))"
proof -
  have "lock_reach (s\<lparr>mgr := m, calls := (calls s)(req \<mapsto> c)\<rparr>)"
    unfolding assms(3) by (rule lock_reach.step [OF assms(1) lock_step.ticket [OF assms(2)]])
  from lock_reach.step [OF this lock_step.first [of _ req c cancelled now']] assms(3)
  show ?thesis by simp
qed

section \<open>Properties\<close>

lemma two_holders_reach:
  "\<exists>s. lock_reach s \<and> maximum_waiters (mgr s) = 3 \<and>
     grants_of (lock_st (mgr s)) LkDatabase = [\<lparr>g_req = 1, g_txn = 4, g_mode = Shared\<rparr>, \<lparr>g_req = 2, g_txn = 5, g_mode = Update\<rparr>]"
proof -
  let ?m = "\<lambda>n st. \<lparr>default_timeout = 9, poll_interval = 1, maximum_waiters = 3, next_request_id = n,
    lock_st = st\<rparr>"
  let ?c = "\<lambda>t md. \<lparr>lc_txn = t, lc_key = LkDatabase, lc_mode = md, lc_deadline = 9, lc_waiting = False\<rparr>"
  let ?s1 = "settle 1 (?c 4 Shared) (acquire_first 3 False 0 9 1 4 LkDatabase Shared empty_lock_state)
    ((lock_init (?m 1 empty_lock_state))\<lparr>mgr := ?m 2 empty_lock_state,
       calls := (calls (lock_init (?m 1 empty_lock_state)))(1 \<mapsto> ?c 4 Shared)\<rparr>)"
  let ?st1 = "lock_st (mgr ?s1)"
  let ?s2 = "settle 2 (?c 5 Update) (acquire_first 3 False 0 9 2 5 LkDatabase Update ?st1)
    (?s1\<lparr>mgr := ?m 3 ?st1, calls := (calls ?s1)(2 \<mapsto> ?c 5 Update)\<rparr>)"
  let ?g = "\<lparr>g_req = 1, g_txn = 4, g_mode = Shared\<rparr>"
  let ?h = "\<lparr>g_req = 2, g_txn = 5, g_mode = Update\<rparr>"
  have "lock_reach (lock_init (?m 1 empty_lock_state))"
    by (rule lock_reach.start [of 9 1 3]) (simp add: lock_manager_new_def)
  from lock_reach_acquire [OF this, of 99 0 None 1 9 "?m 2 empty_lock_state" "?c 4 Shared" 4 LkDatabase
      Shared False 0]
  have "lock_reach ?s1"
    by (simp add: lock_init_def acquire_ticket_def checked_add_u64_def instant_checked_add_def)
  moreover have m1: "mgr ?s1 = ?m 2 ?st1"
    by (simp add: settle_def acquire_first_def acquire_enter_def can_grant_immediately_def
        holders_compatible_def empty_lock_state_def)
  moreover have "acquire_ticket 99 0 None (?m 2 ?st1) = (Inr (2, 9), ?m 3 ?st1)"
    by (simp add: acquire_ticket_def checked_add_u64_def instant_checked_add_def)
  ultimately have reach: "lock_reach ?s2"
    using lock_reach_acquire [of ?s1 99 0 None 2 9 "?m 3 ?st1" "?c 5 Update" 5 LkDatabase Update False 0]
    by simp
  have "grants_of (lock_st (mgr ?s2)) LkDatabase = [?g, ?h]" by code_simp
  moreover have "maximum_waiters (mgr ?s2) = 3" by code_simp
  ultimately show ?thesis using reach by (intro exI [of _ ?s2]) simp
qed

text \<open>
  C1. Mutual exclusion. In every reachable state of the lock manager, whatever the
  interleaving of the threads, two different transactions that hold the same key hold it in
  one of them in Shared mode and the other in Shared or Update mode: an Exclusive holder is
  alone, and at most one transaction holds an Update lock.
\<close>

theorem lock_mutual_exclusion:
  assumes "lock_reach s" and "g \<in> set (grants_of (lock_st (mgr s)) k)"
    and "h \<in> set (grants_of (lock_st (mgr s)) k)" and "g_txn g \<noteq> g_txn h"
  shows "g_mode g = Shared \<and> g_mode h \<noteq> Exclusive \<or> g_mode g = Update \<and> g_mode h = Shared"
proof -
  have "compatible (g_mode g) (g_mode h)"
    using lock_reach_ok [OF assms(1)] assms(2-4) by (auto simp: lock_sys_ok_def lock_state_ok_def)
  then show ?thesis by (cases "g_mode g"; cases "g_mode h") simp_all
qed

lemma lock_mutual_exclusion_witness:
  "\<exists>s g h. lock_reach s \<and> g \<in> set (grants_of (lock_st (mgr s)) LkDatabase) \<and>
     h \<in> set (grants_of (lock_st (mgr s)) LkDatabase) \<and> g_txn g = 4 \<and> g_mode g = Shared \<and>
     g_txn h = 5 \<and> g_mode h = Update \<and>
     (g_mode g = Shared \<and> g_mode h \<noteq> Exclusive \<or> g_mode g = Update \<and> g_mode h = Shared)"
proof -
  let ?g = "\<lparr>g_req = 1, g_txn = 4, g_mode = Shared\<rparr>"
  let ?h = "\<lparr>g_req = 2, g_txn = 5, g_mode = Update\<rparr>"
  obtain s where reach: "lock_reach s" and "grants_of (lock_st (mgr s)) LkDatabase = [?g, ?h]"
    using two_holders_reach by blast
  then have mem: "?g \<in> set (grants_of (lock_st (mgr s)) LkDatabase)" "?h \<in> set (grants_of (lock_st (mgr s)) LkDatabase)" by simp_all
  have "g_mode ?g = Shared \<and> g_mode ?h \<noteq> Exclusive \<or> g_mode ?g = Update \<and> g_mode ?h = Shared"
    by (rule lock_mutual_exclusion [OF reach mem]) simp
  with reach mem show ?thesis by (intro exI [of _ s] exI [of _ ?g] exI [of _ ?h]) simp
qed

text \<open>
  C18. No leaked locks, no stale marks, bounded queues. In every reachable state each granted
  lock belongs to one live guard for the same key, transaction and mode; each transaction
  marked as a deadlock victim still has a request in a queue, so that its next poll consumes
  the mark; and no more than \<open>maximum_waiters\<close> requests wait.
\<close>

theorem lock_manager_invariant:
  assumes "lock_reach s"
  shows "(\<forall>k. \<forall>g \<in> set (grants_of (lock_st (mgr s)) k). \<exists>d. guards s (g_req g) = Some d \<and>
        gd_live d \<and> gd_key d = k \<and> gd_txn d = g_txn g \<and> gd_mode d = g_mode g) \<and>
     (\<forall>v \<in> bs_set (deadlock_victims (lock_st (mgr s))).
        \<exists>k. \<exists>r \<in> set (queue_of (lock_st (mgr s)) k). w_txn r = v) \<and>
     waiter_count (lock_st (mgr s)) \<le> maximum_waiters (mgr s)"
proof (intro conjI)
  note ok = lock_reach_ok [OF assms]
  show "\<forall>k. \<forall>g \<in> set (grants_of (lock_st (mgr s)) k). \<exists>d. guards s (g_req g) = Some d \<and>
        gd_live d \<and> gd_key d = k \<and> gd_txn d = g_txn g \<and> gd_mode d = g_mode g"
    using lock_sys_ok_grant [OF ok] lock_sys_ok_guard [OF ok] by blast
qed (use lock_reach_ok [OF assms] in \<open>auto simp: lock_sys_ok_def lock_state_ok_def\<close>)

lemma lock_manager_invariant_witness:
  "\<exists>s d. lock_reach s \<and> grants_of (lock_st (mgr s)) LkDatabase =
       [\<lparr>g_req = 1, g_txn = 4, g_mode = Shared\<rparr>, \<lparr>g_req = 2, g_txn = 5, g_mode = Update\<rparr>] \<and>
     guards s 2 = Some d \<and> gd_live d \<and> gd_key d = LkDatabase \<and> gd_txn d = 5 \<and> gd_mode d = Update \<and>
     waiter_count (lock_st (mgr s)) \<le> 3"
proof -
  obtain s where s: "lock_reach s" "maximum_waiters (mgr s) = 3" and grants: "grants_of (lock_st (mgr s)) LkDatabase =
       [\<lparr>g_req = 1, g_txn = 4, g_mode = Shared\<rparr>, \<lparr>g_req = 2, g_txn = 5, g_mode = Update\<rparr>]"
    using two_holders_reach by blast
  note inv = lock_manager_invariant [OF s(1)]
  have "\<exists>d. guards s 2 = Some d \<and> gd_live d \<and> gd_key d = LkDatabase \<and> gd_txn d = 5 \<and> gd_mode d = Update"
    using inv [THEN conjunct1, rule_format, of "\<lparr>g_req = 2, g_txn = 5, g_mode = Update\<rparr>" LkDatabase] grants by simp
  with s grants inv show ?thesis by (intro exI [of _ s]) simp
qed

text \<open>
  C14. Deadlock detection. The search with its explicit stack reports a transaction exactly
  if the wait-for relation has a cycle, and then the youngest (largest id) of all
  transactions on a cycle.
\<close>

theorem deadlock_victim_correct:
  "deadlock_victim st =
     (if \<exists>x. (waits_for st)\<^sup>+\<^sup>+ x x then Some (Max {x. (waits_for st)\<^sup>+\<^sup>+ x x}) else None)"
  by (rule deadlock_victim_eq)

lemma filter_except_nth:
  assumes "distinct (map w_req q)" and "i < length q" and "w_req (q ! i) = req"
  shows "filter (\<lambda>r. w_req r \<noteq> req) q = take i q @ drop (Suc i) q"
proof -
  have q: "q = take i q @ q ! i # drop (Suc i) q" using assms(2) by (rule id_take_nth_drop)
  have "w_req r \<noteq> req" if "r \<in> set (take i q) \<union> set (drop (Suc i) q)" for r
  proof -
    have "distinct (map w_req (take i q @ q ! i # drop (Suc i) q))" using assms(1) q by simp
    then have "w_req (q ! i) \<notin> w_req ` (set (take i q) \<union> set (drop (Suc i) q))" by auto
    with that assms(3) show ?thesis by (metis image_eqI)
  qed
  then show ?thesis using assms(3) by (subst q) (auto simp: filter_id_conv)
qed

text \<open>
  C20. One turn of the wait loop of a queued request, on every branch, in the order of the code: a
  marked victim fails with 40P01, a cancelled wait with 57014, a request that nothing blocks (no
  incompatible holder and no incompatible earlier request of another transaction) gets a guard
  for itself, an expired one fails with 55P03, and any other keeps waiting and nothing changes. Unless it
  keeps waiting, the request, and no other, has left the queue of its key, the others in their
  order; the holders of that key have the request appended exactly when it got its guard; the mark of
  its transaction is gone exactly when that was the reason; and the queues, holders and marks of
  everything else are as before.
\<close>

theorem acquire_poll_correct:
  assumes "distinct (map w_req (queue_of st k))" and "i < length (queue_of st k)"
    and "queue_of st k ! i = \<lparr>w_req = req, w_txn = t, w_mode = md\<rparr>"
    and "acquire_poll cancelled now deadline req t k md st = (r, st')"
  shows "r = (if t \<in> bs_set (deadlock_victims st) then Inl E_40P01
      else if cancelled then Inl E_57014
      else if (\<forall>g \<in> set (grants_of st k). g_txn g = t \<or> compatible md (g_mode g)) \<and>
              (\<forall>j < i. w_txn (queue_of st k ! j) = t \<or> compatible md (w_mode (queue_of st k ! j)))
      then Inr (Some \<lparr>gd_live = True, gd_req = req, gd_txn = t, gd_key = k, gd_mode = md\<rparr>)
      else if deadline \<le> now then Inl E_55P03 else Inr None) \<and>
    (if r = Inr None then st' = st
     else queue_of st' = (queue_of st)(k := take i (queue_of st k) @ drop (Suc i) (queue_of st k)) \<and>
       grants_of st' = (if is_ok r then (grants_of st)(k := grants_of st k @ [\<lparr>g_req = req, g_txn = t, g_mode = md\<rparr>]) else grants_of st) \<and>
       bs_set (deadlock_victims st') = bs_set (deadlock_victims st) - (if r = Inl E_40P01 then {t} else {}))"
proof -
  have "waiter_can_run st k req =
      Inr (request_blockers st k (queue_of st k) i \<lparr>w_req = req, w_txn = t, w_mode = md\<rparr> = [])"
    using waiter_can_run_eq [OF assms(1-3)] by simp
  moreover have "request_blockers st k (queue_of st k) i \<lparr>w_req = req, w_txn = t, w_mode = md\<rparr> = [] \<longleftrightarrow>
      (\<forall>g \<in> set (grants_of st k). g_txn g = t \<or> compatible md (g_mode g)) \<and>
      (\<forall>j < i. w_txn (queue_of st k ! j) = t \<or> compatible md (w_mode (queue_of st k ! j)))" (is "_ \<longleftrightarrow> ?free")
    using assms(2)
    by (cases "bm_get (granted st) k") (auto simp: request_blockers_def grants_of_def filter_empty_conv ball_take)
  ultimately have poll: "acquire_poll cancelled now deadline req t k md st =
    (let st' = remove_waiter k req st in
     if t \<in> bs_set (deadlock_victims st)
     then (Inl E_40P01, remove_waiter k req (st\<lparr>deadlock_victims := bs_remove t (deadlock_victims st)\<rparr>))
     else if cancelled then (Inl E_57014, st')
     else if ?free then (Inr (Some (lock_guard_new req t k md)), grant req t k md st')
     else if deadline \<le> now then (Inl E_55P03, st') else (Inr None, st))"
    unfolding acquire_poll_def Let_def bs_mem_iff by (simp only: sum.case case_bool_if)
  have same: "queue_of (st\<lparr>deadlock_victims := v\<rparr>) = queue_of st" "grants_of (st\<lparr>deadlock_victims := v\<rparr>) = grants_of st" for v
    by (simp_all add: queue_of_def grants_of_def fun_eq_iff)
  have "filter (\<lambda>r. w_req r \<noteq> req) (queue_of st k) = take i (queue_of st k) @ drop (Suc i) (queue_of st k)"
    by (rule filter_except_nth [OF assms(1,2)]) (simp add: assms(3))
  then have queue: "queue_of (remove_waiter k req st) = (queue_of st)(k := take i (queue_of st k) @ drop (Suc i) (queue_of st k))"
    "queue_of (remove_waiter k req (st\<lparr>deadlock_victims := v\<rparr>)) = (queue_of st)(k := take i (queue_of st k) @ drop (Suc i) (queue_of st k))" for v
    by (simp_all add: fun_eq_iff lock_views same)
  show ?thesis
    using assms(4) unfolding poll Let_def
    by (auto simp: queue fun_eq_iff lock_views same lock_guard_new_def split: if_splits)
qed

lemma acquire_poll_correct_witness:
  "let k = LkTable 7;
       st = snd (acquire_enter 8 2 9 k Shared (snd (acquire_enter 8 1 4 k Exclusive empty_lock_state)));
       r = acquire_poll False 5 5 2 9 k Shared st
   in queue_of st k = [\<lparr>w_req = 2, w_txn = 9, w_mode = Shared\<rparr>] \<and> fst r = Inl E_55P03 \<and> queue_of (snd r) k = [] \<and>
      grants_of (snd r) k = [\<lparr>g_req = 1, g_txn = 4, g_mode = Exclusive\<rparr>]"
proof -
  let ?k = "LkTable 7"
  let ?st = "snd (acquire_enter 8 2 9 ?k Shared (snd (acquire_enter 8 1 4 ?k Exclusive empty_lock_state)))"
  have q: "queue_of ?st ?k = [\<lparr>w_req = 2, w_txn = 9, w_mode = Shared\<rparr>]"
    and v: "deadlock_victims ?st = bm_empty"
    and g: "grants_of ?st ?k = [\<lparr>g_req = 1, g_txn = 4, g_mode = Exclusive\<rparr>]"
    by code_simp+
  obtain r st' where p: "acquire_poll False 5 5 2 9 ?k Shared ?st = (r, st')" by (metis prod.collapse)
  from acquire_poll_correct [of ?st ?k 0, OF _ _ _ p] show ?thesis by (simp add: q v g p)
qed

text \<open>
  \<open>release_transaction\<close> drops every lock and every waiting request of the transaction
  and its victim mark, and keeps all others, in their order, for every key.
\<close>

lemma release_transaction_correct:
  "grants_of (release_transaction t st) k = filter (\<lambda>g. g_txn g \<noteq> t) (grants_of st k) \<and>
   queue_of (release_transaction t st) k = filter (\<lambda>r. w_txn r \<noteq> t) (queue_of st k) \<and>
   bs_set (deadlock_victims (release_transaction t st)) = bs_set (deadlock_victims st) - {t} \<and>
   (\<forall>x. \<not> waits_for (release_transaction t st) x t)"
proof -
  have "g_txn g \<noteq> t" if "g \<in> set (grants_of (release_transaction t st) k)" for g k
    using that by (simp add: lock_views)
  moreover have "w_txn (queue_of (release_transaction t st) k ! j) \<noteq> t"
    if "j < length (queue_of (release_transaction t st) k)" for j k
    using nth_mem [OF that] by (simp add: lock_views)
  ultimately have "\<not> waits_for (release_transaction t st) x t" for x
    unfolding waits_for_views by (meson order.strict_trans)
  then show ?thesis by (simp add: lock_views)
qed

definition two_cycles :: lock_state where
  "two_cycles =
     (let a = LkTable 1; b = LkTable 2;
          enter = (\<lambda>req t k md st. snd (acquire_first 16 False 0 100 req t k md st))
      in enter 6 1 b Exclusive (enter 5 3 a Shared (enter 4 2 a Shared
           (enter 3 3 b Shared (enter 2 2 b Shared (enter 1 1 a Exclusive empty_lock_state))))))"

text \<open>
  A limit of the detection: only one victim is marked for each new waiter. Transactions
  2 and 3 share a lock that 1 then asks for exclusively, while both wait for a lock of 1:
  the request closes two cycles, 3 is the victim, and after 3 has been rolled back the
  cycle between 1 and 2 is still there with nobody marked. It lasts until a timeout.
\<close>

theorem deadlock_left_over:
  "deadlock_victims two_cycles = bs_insert 3 bm_empty \<and>
   (let st = release_transaction 3 (snd (acquire_poll False 0 100 5 3 (LkTable 1) Shared two_cycles))
    in deadlock_victims st = bm_empty \<and> deadlock_victim st = Some 2 \<and>
       fst (acquire_poll False 0 100 4 2 (LkTable 1) Shared st) = Inr None \<and>
       fst (acquire_poll False 0 100 6 1 (LkTable 2) Exclusive st) = Inr None)"
  by code_simp

end
