(* ===== verification/Snapshot.thy ===== *)
theory Snapshot
  imports Ids
begin

text \<open>
  Transaction characteristics, outcomes and snapshots
  (crates/ordadb-transaction/src/mvcc_parts/state_and_lifecycle.rs, lines 16-101), used by
  the SSI manager and by the transaction manager. The trait \<open>TransactionStatusProvider\<close> is
  the locale \<open>status_provider\<close>.
\<close>

datatype isolation_level = ReadCommitted | RepeatableRead | Serializable

datatype access_mode = ReadWrite | ReadOnly

record characteristics =
  isolation :: isolation_level
  access :: access_mode
  deferrable :: bool

definition characteristics_default :: characteristics where
  "characteristics_default = \<lparr>isolation = ReadCommitted, access = ReadWrite, deferrable = False\<rparr>"

definition validate_characteristics :: "characteristics \<Rightarrow> characteristics res" where
  "validate_characteristics c =
     (if deferrable c \<and> (isolation c \<noteq> Serializable \<or> access c \<noteq> ReadOnly) then Inl E_25001
      else Inr c)"

lemma validate_characteristics_Ok [res_simps]:
  "validate_characteristics c = Inr c' \<longleftrightarrow>
     c' = c \<and> (deferrable c \<longrightarrow> isolation c = Serializable \<and> access c = ReadOnly)"
  by (auto simp: validate_characteristics_def)

datatype outcome = InProgress | Committed | Aborted

record txn_snapshot =
  sn_xmin :: transaction_id
  sn_xmax :: transaction_id
  sn_in_progress :: "transaction_id btree_set"
  sn_command :: u32

definition with_command_id :: "txn_snapshot \<Rightarrow> u32 \<Rightarrow> txn_snapshot" where
  "with_command_id s c = s\<lparr>sn_command := c\<rparr>"

definition sees_transaction :: "txn_snapshot \<Rightarrow> transaction_id \<Rightarrow> bool" where
  "sees_transaction s t = (t < sn_xmax s \<and> \<not> bs_mem t (sn_in_progress s))"

lemma sees_transaction_iff: "sees_transaction s t \<longleftrightarrow> t < sn_xmax s \<and> t \<notin> bs_set (sn_in_progress s)"
  by (simp add: sees_transaction_def)

lemma sees_with_command_id [simp]: "sees_transaction (with_command_id s c) t = sees_transaction s t"
  by (simp add: with_command_id_def sees_transaction_def)

text \<open>
  \<open>TransactionStatusProvider\<close>: reading an outcome, and the laws its clients need of the
  operation that completes a transaction. A terminal outcome is never changed, and the
  outcomes of all other transactions stay as they are.
\<close>

locale status_provider =
  fixes outcome_of :: "'s \<Rightarrow> transaction_id \<Rightarrow> outcome res"
    and finish :: "transaction_id \<Rightarrow> outcome \<Rightarrow> 's \<Rightarrow> unit res \<times> 's"
    and good :: "'s \<Rightarrow> bool"
  assumes finish_good: "good s \<Longrightarrow> finish t out s = (r, s') \<Longrightarrow> out \<noteq> InProgress \<Longrightarrow> good s'"
    and finish_other: "good s \<Longrightarrow> finish t out s = (r, s') \<Longrightarrow> out \<noteq> InProgress \<Longrightarrow> u \<noteq> t \<Longrightarrow>
      outcome_of s' u = outcome_of s u"
    and finish_terminal: "good s \<Longrightarrow> finish t out s = (r, s') \<Longrightarrow> out \<noteq> InProgress \<Longrightarrow>
      outcome_of s t = Inr prior \<Longrightarrow> prior \<noteq> InProgress \<Longrightarrow> outcome_of s' t = Inr prior"
    and finish_ok: "good s \<Longrightarrow> finish t out s = (Inr (), s') \<Longrightarrow> out \<noteq> InProgress \<Longrightarrow>
      outcome_of s' t = Inr out"
    and finish_err: "good s \<Longrightarrow> finish t out s = (Inl e, s') \<Longrightarrow> out \<noteq> InProgress \<Longrightarrow>
      outcome_of s' t = outcome_of s t"
begin

primrec finish_all :: "(transaction_id \<times> outcome) list \<Rightarrow> 's \<Rightarrow> 's" where
  "finish_all [] s = s"
| "finish_all (x # xs) s = finish_all xs (snd (finish (fst x) (snd x) s))"

lemma finish_keeps_terminal:
  assumes "good s" and "out \<noteq> InProgress" and "outcome_of s u = Inr prior" and "prior \<noteq> InProgress"
  shows "outcome_of (snd (finish t out s)) u = Inr prior"
proof (cases "finish t out s")
  case (Pair r s')
  with assms finish_other finish_terminal show ?thesis by (cases "u = t") auto
qed

lemma finish_all_keeps_terminal:
  assumes "good s" and "\<forall>x \<in> set xs. snd x \<noteq> InProgress"
    and "outcome_of s u = Inr prior" and "prior \<noteq> InProgress"
  shows "outcome_of (finish_all xs s) u = Inr prior"
  using assms
proof (induction xs arbitrary: s)
  case Nil
  then show ?case by simp
next
  case (Cons x xs)
  obtain r s' where f: "finish (fst x) (snd x) s = (r, s')" by (cases "finish (fst x) (snd x) s")
  with Cons.prems have "good s'" by (auto intro: finish_good)
  moreover have "outcome_of s' u = Inr prior"
    using finish_keeps_terminal [of s "snd x" u prior "fst x"] Cons.prems f by simp
  ultimately show ?case using Cons.IH [of s'] Cons.prems f by simp
qed

end

end
