(* ===== verification/Ssi.thy ===== *)
theory Ssi
  imports Snapshot "HOL-Library.Option_ord"
begin

text \<open>
  Serializable snapshot isolation, crates/ordadb-transaction/src/ssi.rs: predicate locks,
  the read/write dependencies between transactions and the test at commit.

  Every operation is one critical section of the manager's mutex and a function of the
  transaction table. Operations that may change the table and then fail return both the
  result and the table.
\<close>

section \<open>Predicate locks\<close>

datatype predicate_lock =
    PlTable u64
  | PlRow u64 u64
  | PlIndexRange u64 "u8 list option" "u8 list option"

text \<open>The derived \<open>Ord\<close>: by variant, then by the fields in order, \<open>None\<close> before \<open>Some\<close>.\<close>

fun predicate_code :: "predicate_lock \<Rightarrow> nat \<times> u64 \<times> u64 \<times> u8 list option \<times> u8 list option" where
  "predicate_code (PlTable t) = (0, t, 0, None, None)"
| "predicate_code (PlRow t v) = (1, t, v, None, None)"
| "predicate_code (PlIndexRange i l u) = (2, i, 0, l, u)"

lemma predicate_code_inject: "predicate_code a = predicate_code b \<longleftrightarrow> a = b"
  by (cases a; cases b) auto

instantiation predicate_lock :: linorder
begin

definition less_eq_predicate_lock :: "predicate_lock \<Rightarrow> predicate_lock \<Rightarrow> bool" where
  "less_eq_predicate_lock a b \<longleftrightarrow> predicate_code a \<le> predicate_code b"

definition less_predicate_lock :: "predicate_lock \<Rightarrow> predicate_lock \<Rightarrow> bool" where
  "less_predicate_lock a b \<longleftrightarrow> predicate_code a < predicate_code b"

instance
  by standard (auto simp: less_eq_predicate_lock_def less_predicate_lock_def predicate_code_inject
      order.strict_iff_order)

end

definition ranges_overlap ::
  "u8 list option \<Rightarrow> u8 list option \<Rightarrow> u8 list option \<Rightarrow> u8 list option \<Rightarrow> bool" where
  "ranges_overlap left_lower left_upper right_lower right_upper =
     (let left_before_right = (case (left_upper, right_lower) of
            (Some lu, Some rl) \<Rightarrow> lu < rl | _ \<Rightarrow> False);
          right_before_left = (case (right_upper, left_lower) of
            (Some ru, Some ll) \<Rightarrow> ru < ll | _ \<Rightarrow> False)
      in \<not> left_before_right \<and> \<not> right_before_left)"

fun overlaps :: "predicate_lock \<Rightarrow> predicate_lock \<Rightarrow> bool" where
  "overlaps (PlTable l) (PlTable r) = (l = r)"
| "overlaps (PlTable t) (PlRow rt _) = (t = rt)"
| "overlaps (PlRow rt _) (PlTable t) = (t = rt)"
| "overlaps (PlRow lt lv) (PlRow rt rv) = (lt = rt \<and> lv = rv)"
| "overlaps (PlIndexRange l ll lu) (PlIndexRange r rl ru) = (l = r \<and> ranges_overlap ll lu rl ru)"
| "overlaps _ _ = False"

definition predicates_overlap :: "predicate_lock btree_set \<Rightarrow> predicate_lock btree_set \<Rightarrow> bool" where
  "predicates_overlap reads writes =
     list_ex (\<lambda>read. list_ex (\<lambda>write. overlaps read write) (bm_keys writes)) (bm_keys reads)"

lemma ranges_overlap_sym: "ranges_overlap ll lu rl ru = ranges_overlap rl ru ll lu"
  by (auto simp: ranges_overlap_def Let_def)

lemma overlaps_sym: "overlaps p q = overlaps q p"
  by (cases p; cases q) (auto simp: ranges_overlap_sym)

lemma predicates_overlap_iff:
  "predicates_overlap R W \<longleftrightarrow> (\<exists>r \<in> bs_set R. \<exists>w \<in> bs_set W. overlaps r w)"
  by (simp add: predicates_overlap_def list_ex_iff bs_set_def)

text \<open>The objects that a predicate lock stands for: rows of tables and keys of indexes.\<close>

datatype item = TableRow u64 u64 | IndexKey u64 "u8 list"

definition in_range :: "u8 list option \<Rightarrow> u8 list option \<Rightarrow> u8 list \<Rightarrow> bool" where
  "in_range lower upper k =
     ((case lower of None \<Rightarrow> True | Some l \<Rightarrow> l \<le> k) \<and> (case upper of None \<Rightarrow> True | Some u \<Rightarrow> k \<le> u))"

fun covers :: "predicate_lock \<Rightarrow> item \<Rightarrow> bool" where
  "covers (PlTable t) (TableRow t' _) = (t' = t)"
| "covers (PlRow t v) (TableRow t' v') = (t' = t \<and> v' = v)"
| "covers (PlIndexRange i l u) (IndexKey i' k) = (i' = i \<and> in_range l u k)"
| "covers _ _ = False"

fun range_nonempty :: "predicate_lock \<Rightarrow> bool" where
  "range_nonempty (PlIndexRange _ (Some l) (Some u)) = (l \<le> u)"
| "range_nonempty _ = True"

lemma covers_overlaps:
  assumes "covers p x" and "covers q x"
  shows "overlaps p q"
  using assms
  by (cases p; cases q; cases x)
    (auto simp: in_range_def ranges_overlap_def Let_def split: option.splits)

lemma ranges_overlap_meet:
  assumes "ranges_overlap ll lu rl ru" and "range_nonempty (PlIndexRange i ll lu)"
    and "range_nonempty (PlIndexRange i rl ru)"
  shows "\<exists>k. in_range ll lu k \<and> in_range rl ru k"
proof -
  have "[] \<le> xs" for xs :: "u8 list" by (simp add: Nil_le_Cons)
  then show ?thesis
  proof (cases ll; cases rl)
    fix a b
    assume ll: "ll = Some a" and rl: "rl = Some b"
    with assms show ?thesis
      by (intro exI [of _ "max a b"])
        (auto simp: in_range_def ranges_overlap_def Let_def max_def split: option.splits if_splits)
  next
    fix a
    assume "ll = Some a" "rl = None"
    with assms show ?thesis
      by (intro exI [of _ a]) (auto simp: in_range_def ranges_overlap_def Let_def split: option.splits)
  next
    fix b
    assume "ll = None" "rl = Some b"
    with assms show ?thesis
      by (intro exI [of _ b]) (auto simp: in_range_def ranges_overlap_def Let_def split: option.splits)
  next
    assume "ll = None" "rl = None" and nil: "\<And>xs. [] \<le> (xs :: u8 list)"
    then show ?thesis
      by (intro exI [of _ "[]"]) (auto simp: in_range_def split: option.splits)
  qed
qed

lemma overlaps_covers:
  assumes "overlaps p q" and "range_nonempty p" and "range_nonempty q"
  shows "\<exists>x. covers p x \<and> covers q x"
proof -
  consider t where "p = PlTable t" | t v where "p = PlRow t v" | i l u where "p = PlIndexRange i l u"
    by (cases p)
  then show ?thesis
  proof cases
    case (1 t)
    with assms(1) show ?thesis
      by (cases q) (auto intro: exI [of _ "TableRow t 0"] exI [of _ "TableRow t (case q of PlRow _ v \<Rightarrow> v)"])
  next
    case (2 t v)
    with assms(1) show ?thesis
      by (cases q) (auto intro: exI [of _ "TableRow t v"])
  next
    case (3 i l u)
    with assms(1) obtain l' u' where q: "q = PlIndexRange i l' u'" "ranges_overlap l u l' u'"
      by (cases q) auto
    with 3 assms(2,3) ranges_overlap_meet obtain k where "in_range l u k" "in_range l' u' k" by blast
    with 3 q show ?thesis by (intro exI [of _ "IndexKey i k"]) simp
  qed
qed

section \<open>The manager\<close>

record ssi_options =
  maximum_transactions :: nat
  maximum_predicates :: nat

record ssi_transaction =
  snapshot_xmax :: transaction_id
  snapshot_in_progress :: "transaction_id btree_set"
  st_read_only :: bool
  st_committed :: bool
  st_reads :: "predicate_lock btree_set"
  st_writes :: "predicate_lock btree_set"
  st_incoming :: "transaction_id btree_set"
  st_outgoing :: "transaction_id btree_set"

type_synonym ssi_state = "(transaction_id, ssi_transaction) btree_map"

record ssi_savepoint =
  sp_reads :: "predicate_lock btree_set"
  sp_writes :: "predicate_lock btree_set"

record ssi_transaction_snapshot =
  sts_id :: transaction_id
  sts_committed :: bool
  sts_read_only :: bool
  sts_incoming :: "transaction_id btree_set"
  sts_outgoing :: "transaction_id btree_set"
  sts_read_predicates :: nat
  sts_write_predicates :: nat

definition ssi_new :: "ssi_options \<Rightarrow> (ssi_options \<times> ssi_state) res" where
  "ssi_new opts =
     (if maximum_transactions opts = 0 \<or> maximum_predicates opts = 0 then Inl E_22023
      else Inr (opts, bm_empty))"

text \<open>\<open>get_mut\<close> of an entry that is there.\<close>

definition bm_update :: "'k::linorder \<Rightarrow> ('v \<Rightarrow> 'v) \<Rightarrow> ('k, 'v) btree_map \<Rightarrow> ('k, 'v) btree_map" where
  "bm_update k f m = (case bm_get m k of None \<Rightarrow> m | Some v \<Rightarrow> bm_insert k (f v) m)"

lemma bm_get_update [simp]:
  "bm_get (bm_update k f m) k' = (if k' = k then map_option f (bm_get m k) else bm_get m k')"
  by (auto simp: bm_update_def split: option.splits)

definition fresh_ssi_transaction :: "txn_snapshot \<Rightarrow> bool \<Rightarrow> ssi_transaction" where
  "fresh_ssi_transaction s ro =
     \<lparr>snapshot_xmax = sn_xmax s, snapshot_in_progress = sn_in_progress s, st_read_only = ro,
      st_committed = False, st_reads = bm_empty, st_writes = bm_empty,
      st_incoming = bm_empty, st_outgoing = bm_empty\<rparr>"

text \<open>\<open>insert\<close> replaces an old entry before the code notices it and fails.\<close>

definition ssi_begin ::
  "ssi_options \<Rightarrow> transaction_id \<Rightarrow> txn_snapshot \<Rightarrow> bool \<Rightarrow> ssi_state \<Rightarrow> unit res \<times> ssi_state" where
  "ssi_begin opts t s ro st =
     (if maximum_transactions opts \<le> bm_len st then (Inl E_54000, st)
      else let st' = bm_insert t (fresh_ssi_transaction s ro) st in
        if bm_contains st t then (Inl E_25001, st') else (Inr (), st'))"

definition add_dependency ::
  "transaction_id \<Rightarrow> transaction_id \<Rightarrow> ssi_state \<Rightarrow> unit res \<times> ssi_state" where
  "add_dependency reader writer st =
     (if \<not> bm_contains st reader then (Inl E_25P01, st)
      else let st1 = bm_update reader (\<lambda>x. x\<lparr>st_outgoing := bs_insert writer (st_outgoing x)\<rparr>) st in
        if \<not> bm_contains st1 writer then (Inl E_25P01, st1)
        else (Inr (), bm_update writer (\<lambda>x. x\<lparr>st_incoming := bs_insert reader (st_incoming x)\<rparr>) st1))"

primrec add_dependencies ::
  "(transaction_id \<times> transaction_id) list \<Rightarrow> ssi_state \<Rightarrow> unit res \<times> ssi_state" where
  "add_dependencies [] st = (Inr (), st)"
| "add_dependencies (d # ds) st =
     (case add_dependency (fst d) (snd d) st of
        (Inl e, st') \<Rightarrow> (Inl e, st')
      | (Inr _, st') \<Rightarrow> add_dependencies ds st')"

definition ensure_predicate_capacity ::
  "ssi_options \<Rightarrow> transaction_id \<Rightarrow> bool \<Rightarrow> ssi_state \<Rightarrow> unit res" where
  "ensure_predicate_capacity opts t read st =
     try_bind (ok_or E_25P01 (bm_get st t)) (\<lambda>x.
       let n = bm_len (if read then st_reads x else st_writes x) in
       guard_res (maximum_predicates opts \<le> n) E_54000 (Inr ()))"

definition conflicting_writers ::
  "transaction_id \<Rightarrow> predicate_lock \<Rightarrow> ssi_transaction \<Rightarrow> ssi_state \<Rightarrow> transaction_id list" where
  "conflicting_writers t p reader st =
     map fst (filter (\<lambda>(other, x). other \<noteq> t \<and>
        (\<not> st_committed x \<or> snapshot_xmax reader \<le> other \<or> bs_mem other (snapshot_in_progress reader)) \<and>
        list_ex (overlaps p) (bm_keys (st_writes x))) (bm_list st))"

definition ssi_record_read ::
  "ssi_options \<Rightarrow> transaction_id \<Rightarrow> predicate_lock \<Rightarrow> ssi_state \<Rightarrow> unit res \<times> ssi_state" where
  "ssi_record_read opts t p st =
     (case ensure_predicate_capacity opts t True st of
        Inl e \<Rightarrow> (Inl e, st)
      | Inr _ \<Rightarrow>
          (case bm_get st t of
             None \<Rightarrow> (Inl E_25P01, st)
           | Some reader \<Rightarrow>
               add_dependencies (map (\<lambda>w. (t, w)) (conflicting_writers t p reader st))
                 (bm_update t (\<lambda>x. x\<lparr>st_reads := bs_insert p (st_reads x)\<rparr>) st)))"

definition ssi_refresh_snapshot ::
  "transaction_id \<Rightarrow> txn_snapshot \<Rightarrow> ssi_state \<Rightarrow> unit res \<times> ssi_state" where
  "ssi_refresh_snapshot t s st =
     (case bm_get st t of
        None \<Rightarrow> (Inl E_25P01, st)
      | Some x \<Rightarrow>
          if st_committed x then (Inl E_25000, st)
          else if snapshot_xmax x = sn_xmax s \<and> snapshot_in_progress x = sn_in_progress s
          then (Inr (), st)
          else if st_reads x \<noteq> bm_empty \<or> st_writes x \<noteq> bm_empty then (Inl E_25001, st)
          else (Inr (), bm_insert t (x\<lparr>snapshot_xmax := sn_xmax s,
                  snapshot_in_progress := sn_in_progress s\<rparr>) st))"

definition conflicting_readers :: "transaction_id \<Rightarrow> predicate_lock \<Rightarrow> ssi_state \<Rightarrow> transaction_id list" where
  "conflicting_readers t p st =
     map fst (filter (\<lambda>(other, x). other \<noteq> t \<and> list_ex (overlaps p) (bm_keys (st_reads x))) (bm_list st))"

definition ssi_record_write ::
  "ssi_options \<Rightarrow> transaction_id \<Rightarrow> predicate_lock \<Rightarrow> ssi_state \<Rightarrow> unit res \<times> ssi_state" where
  "ssi_record_write opts t p st =
     (case ensure_predicate_capacity opts t False st of
        Inl e \<Rightarrow> (Inl e, st)
      | Inr _ \<Rightarrow>
          let readers = conflicting_readers t p st in
          if \<not> bm_contains st t then (Inl E_25P01, st)
          else add_dependencies (map (\<lambda>r. (r, t)) readers)
                 (bm_update t (\<lambda>x. x\<lparr>st_writes := bs_insert p (st_writes x)\<rparr>) st))"

definition ssi_commit :: "transaction_id \<Rightarrow> ssi_state \<Rightarrow> unit res \<times> ssi_state" where
  "ssi_commit t st =
     (case bm_get st t of
        None \<Rightarrow> (Inl E_25P01, st)
      | Some x \<Rightarrow>
          let has_committed_incoming = list_ex (\<lambda>i. case bm_get st i of
                None \<Rightarrow> False | Some d \<Rightarrow> st_committed d) (bm_keys (st_incoming x));
              has_outgoing = (st_outgoing x \<noteq> bm_empty)
          in if has_committed_incoming \<and> has_outgoing then (Inl E_40001, bm_remove t st)
             else (Inr (), bm_update t (\<lambda>x. x\<lparr>st_committed := True\<rparr>) st))"

definition ssi_savepoint :: "transaction_id \<Rightarrow> ssi_state \<Rightarrow> ssi_savepoint res" where
  "ssi_savepoint t st =
     try_bind (ok_or E_25P01 (bm_get st t)) (\<lambda>x.
       guard_res (st_committed x) E_25000 (Inr \<lparr>sp_reads = st_reads x, sp_writes = st_writes x\<rparr>))"

text \<open>\<open>incoming.remove(&t)\<close> and \<open>outgoing.remove(&t)\<close> in every entry.\<close>

definition forget_edges :: "transaction_id \<Rightarrow> ssi_state \<Rightarrow> ssi_state" where
  "forget_edges t st = bm_map (\<lambda>_ x. x\<lparr>st_incoming := bs_remove t (st_incoming x),
     st_outgoing := bs_remove t (st_outgoing x)\<rparr>) st"

definition rollback_dependencies ::
  "transaction_id \<Rightarrow> ssi_savepoint \<Rightarrow> ssi_state \<Rightarrow> (transaction_id \<times> transaction_id) list" where
  "rollback_dependencies t sp st =
     concat (map (\<lambda>(other, x).
       if other = t then []
       else (if predicates_overlap (sp_reads sp) (st_writes x) then [(t, other)] else []) @
            (if predicates_overlap (st_reads x) (sp_writes sp) then [(other, t)] else []))
       (bm_list st))"

definition ssi_rollback_to ::
  "transaction_id \<Rightarrow> ssi_savepoint \<Rightarrow> ssi_state \<Rightarrow> unit res \<times> ssi_state" where
  "ssi_rollback_to t sp st =
     (case bm_get st t of
        None \<Rightarrow> (Inl E_25P01, st)
      | Some x \<Rightarrow>
          if st_committed x then (Inl E_25000, st)
          else let st1 = forget_edges t (bm_insert t (x\<lparr>st_reads := sp_reads sp, st_writes := sp_writes sp,
                       st_incoming := bm_empty, st_outgoing := bm_empty\<rparr>) st)
            in add_dependencies (rollback_dependencies t sp st1) st1)"

definition remove_transaction :: "transaction_id \<Rightarrow> ssi_state \<Rightarrow> ssi_state" where
  "remove_transaction t st = forget_edges t (bm_remove t st)"

definition ssi_abort :: "transaction_id \<Rightarrow> ssi_state \<Rightarrow> ssi_state" where
  "ssi_abort t st = remove_transaction t st"

definition ssi_cleanup_before :: "transaction_id \<Rightarrow> ssi_state \<Rightarrow> ssi_state" where
  "ssi_cleanup_before horizon st =
     fold remove_transaction
       (map fst (filter (\<lambda>(t, x). st_committed x \<and> t < horizon \<and> snapshot_xmax x < horizon) (bm_list st))) st"

definition ssi_snapshot :: "ssi_state \<Rightarrow> ssi_transaction_snapshot list" where
  "ssi_snapshot st =
     map (\<lambda>(t, x). \<lparr>sts_id = t, sts_committed = st_committed x, sts_read_only = st_read_only x,
        sts_incoming = st_incoming x, sts_outgoing = st_outgoing x,
        sts_read_predicates = bm_len (st_reads x), sts_write_predicates = bm_len (st_writes x)\<rparr>) (bm_list st)"

section \<open>Dependencies\<close>

text \<open>
  \<open>rw_edge st a b\<close>: both ends hold the edge from the reader \<open>a\<close> to the writer \<open>b\<close>. The
  update of a map entry that an operation makes is described through \<open>bm_get\<close>.
\<close>

definition rw_edge :: "ssi_state \<Rightarrow> transaction_id \<Rightarrow> transaction_id \<Rightarrow> bool" where
  "rw_edge st a b =
     (case (bm_get st a, bm_get st b) of
        (Some x, Some y) \<Rightarrow> bs_mem b (st_outgoing x) \<and> bs_mem a (st_incoming y)
      | _ \<Rightarrow> False)"

lemma rw_edge_iff: "rw_edge st a b \<longleftrightarrow> (\<exists>x y. bm_get st a = Some x \<and> bm_get st b = Some y \<and>
     b \<in> bs_set (st_outgoing x) \<and> a \<in> bs_set (st_incoming y))"
  by (auto simp: rw_edge_def split: option.splits)

lemma bs_remove_absent: "x \<notin> bs_set s \<Longrightarrow> bs_remove x s = s"
  by (rule bs_eqI) auto

lemma add_dependency_get:
  assumes "bm_contains st a" and "bm_contains st b" and "a \<noteq> b"
  shows "fst (add_dependency a b st) = Inr ()"
    and "bm_get (snd (add_dependency a b st)) c = map_option (\<lambda>x. x\<lparr>
       st_outgoing := (if c = a then bs_insert b (st_outgoing x) else st_outgoing x),
       st_incoming := (if c = b then bs_insert a (st_incoming x) else st_incoming x)\<rparr>) (bm_get st c)"
  using assms
  by (auto simp: add_dependency_def Let_def bm_contains_def option.map_comp comp_def
      option.map_ident_strong)

text \<open>What a list of dependencies between registered transactions does to the table.\<close>

definition with_edges :: "(transaction_id \<times> transaction_id) list \<Rightarrow> ssi_state \<Rightarrow> ssi_state" where
  "with_edges ds st = bm_map (\<lambda>c x. x\<lparr>
     st_outgoing := bs_extend (map snd (filter (\<lambda>d. fst d = c) ds)) (st_outgoing x),
     st_incoming := bs_extend (map fst (filter (\<lambda>d. snd d = c) ds)) (st_incoming x)\<rparr>) st"

lemma add_dependencies_eq:
  assumes "\<forall>d \<in> set ds. bm_contains st (fst d) \<and> bm_contains st (snd d) \<and> fst d \<noteq> snd d"
  shows "add_dependencies ds st = (Inr (), with_edges ds st)"
  using assms
proof (induction ds arbitrary: st)
  case Nil
  have "with_edges [] st = st"
    by (rule bm_eqI) (simp add: with_edges_def bs_extend_def option.map_ident_strong)
  then show ?case by simp
next
  case (Cons d ds)
  from Cons.prems have d: "bm_contains st (fst d)" "bm_contains st (snd d)" "fst d \<noteq> snd d" by simp_all
  then obtain st' where st': "add_dependency (fst d) (snd d) st = (Inr (), st')"
    using add_dependency_get(1) [OF d] by (metis prod.collapse)
  have get: "bm_get st' c = map_option (\<lambda>x. x\<lparr>
       st_outgoing := (if c = fst d then bs_insert (snd d) (st_outgoing x) else st_outgoing x),
       st_incoming := (if c = snd d then bs_insert (fst d) (st_incoming x) else st_incoming x)\<rparr>) (bm_get st c)" for c
    using add_dependency_get(2) [OF d, of c] st' by simp
  have "bm_contains st' c = bm_contains st c" for c by (simp add: bm_contains_def get)
  with Cons.IH [of st'] Cons.prems have "add_dependencies ds st' = (Inr (), with_edges ds st')" by simp
  moreover have "with_edges ds st' = with_edges (d # ds) st"
  proof (rule bm_eqI)
    fix c
    show "bm_get (with_edges ds st') c = bm_get (with_edges (d # ds) st) c"
      by (cases "bm_get st c") (simp_all add: with_edges_def get bs_extend_def)
  qed
  ultimately show ?case by (simp add: st')
qed

lemma bm_contains_get: "bm_contains st t \<longleftrightarrow> (\<exists>x. bm_get st t = Some x)"
  by (auto simp: bm_contains_def)

lemma set_conflicting_writers:
  "w \<in> set (conflicting_writers t p reader st) \<longleftrightarrow> w \<noteq> t \<and> (\<exists>x. bm_get st w = Some x \<and>
     (\<not> st_committed x \<or> snapshot_xmax reader \<le> w \<or> w \<in> bs_set (snapshot_in_progress reader)) \<and>
     (\<exists>q \<in> bs_set (st_writes x). overlaps p q))"
  by (force simp: conflicting_writers_def set_bm_list list_ex_iff bs_set_def)

lemma set_conflicting_readers:
  "r \<in> set (conflicting_readers t p st) \<longleftrightarrow> r \<noteq> t \<and> (\<exists>x. bm_get st r = Some x \<and>
     (\<exists>q \<in> bs_set (st_reads x). overlaps p q))"
  by (force simp: conflicting_readers_def set_bm_list list_ex_iff bs_set_def)

lemma set_rollback_dependencies:
  "d \<in> set (rollback_dependencies t sp st) \<longleftrightarrow> (\<exists>other x. bm_get st other = Some x \<and> other \<noteq> t \<and>
     ((d = (t, other) \<and> (\<exists>p \<in> bs_set (sp_reads sp). \<exists>q \<in> bs_set (st_writes x). overlaps p q)) \<or>
      (d = (other, t) \<and> (\<exists>p \<in> bs_set (st_reads x). \<exists>q \<in> bs_set (sp_writes sp). overlaps p q))))"
proof -
  have "d \<in> set (rollback_dependencies t sp st) \<longleftrightarrow> (\<exists>(other, x) \<in> set (bm_list st).
      other \<noteq> t \<and> ((d = (t, other) \<and> predicates_overlap (sp_reads sp) (st_writes x)) \<or>
        (d = (other, t) \<and> predicates_overlap (st_reads x) (sp_writes sp))))"
    unfolding rollback_dependencies_def set_concat set_map UN_iff bex_simps
    by (rule bex_cong [OF refl]) auto
  also have "\<dots> = (\<exists>other x. bm_get st other = Some x \<and>
      other \<noteq> t \<and> ((d = (t, other) \<and> predicates_overlap (sp_reads sp) (st_writes x)) \<or>
        (d = (other, t) \<and> predicates_overlap (st_reads x) (sp_writes sp))))"
    unfolding bex_bm_list prod.case ..
  finally show ?thesis
    unfolding predicates_overlap_iff .
qed

section \<open>Reachable states and their invariant\<close>

text \<open>
  The protocol of the engine: an id begins once, and reads and writes are recorded for
  registered transactions that have not yet passed commit validation. Every operation may
  also fail; \<open>used\<close> is the set of ids that have begun.
\<close>

inductive ssi_step ::
  "ssi_options \<Rightarrow> transaction_id set \<times> ssi_state \<Rightarrow> transaction_id set \<times> ssi_state \<Rightarrow> bool"
  for opts where
  enter: "t \<notin> used \<Longrightarrow> ssi_begin opts t s ro st = (r, st') \<Longrightarrow> ssi_step opts (used, st) (insert t used, st')"
| reads: "bm_get st t = Some x \<Longrightarrow> \<not> st_committed x \<Longrightarrow> ssi_record_read opts t p st = (r, st') \<Longrightarrow>
     ssi_step opts (used, st) (used, st')"
| writes: "bm_get st t = Some x \<Longrightarrow> \<not> st_committed x \<Longrightarrow> ssi_record_write opts t p st = (r, st') \<Longrightarrow>
     ssi_step opts (used, st) (used, st')"
| refresh: "ssi_refresh_snapshot t s st = (r, st') \<Longrightarrow> ssi_step opts (used, st) (used, st')"
| commits: "ssi_commit t st = (r, st') \<Longrightarrow> ssi_step opts (used, st) (used, st')"
| rollback: "ssi_rollback_to t sp st = (r, st') \<Longrightarrow> ssi_step opts (used, st) (used, st')"
| aborts: "ssi_step opts (used, st) (used, ssi_abort t st)"
| cleanup: "ssi_step opts (used, st) (used, ssi_cleanup_before horizon st)"

inductive ssi_reach :: "ssi_options \<Rightarrow> transaction_id set \<times> ssi_state \<Rightarrow> bool" for opts where
  start: "ssi_reach opts ({}, bm_empty)"
| step: "ssi_reach opts s \<Longrightarrow> ssi_step opts s s' \<Longrightarrow> ssi_reach opts s'"

definition edges_ok :: "transaction_id set \<Rightarrow> ssi_state \<Rightarrow> bool" where
  "edges_ok used st \<longleftrightarrow>
     (\<forall>a x. bm_get st a = Some x \<longrightarrow> a \<in> used \<and> bs_set (st_outgoing x) \<subseteq> used \<and> bs_set (st_incoming x) \<subseteq> used) \<and>
     (\<forall>a b x y. bm_get st a = Some x \<longrightarrow> bm_get st b = Some y \<longrightarrow>
        (b \<in> bs_set (st_outgoing x) \<longleftrightarrow> a \<in> bs_set (st_incoming y))) \<and>
     (\<forall>a b x y. bm_get st a = Some x \<longrightarrow> bm_get st b = Some y \<longrightarrow> st_committed x \<longrightarrow> st_committed y \<longrightarrow>
        a \<noteq> b \<longrightarrow> \<not> (b \<in> bs_set (st_outgoing x) \<and> a \<in> bs_set (st_outgoing y)))"

text \<open>The writer \<open>b\<close> is committed and in the snapshot of the reader.\<close>

definition seen_by :: "transaction_id \<Rightarrow> ssi_transaction \<Rightarrow> ssi_transaction \<Rightarrow> bool" where
  "seen_by b y x = (st_committed y \<and> b < snapshot_xmax x \<and> b \<notin> bs_set (snapshot_in_progress x))"

definition conflicts_ok :: "ssi_state \<Rightarrow> bool" where
  "conflicts_ok st \<longleftrightarrow>
     (\<forall>a b x y p q. bm_get st a = Some x \<longrightarrow> bm_get st b = Some y \<longrightarrow> a \<noteq> b \<longrightarrow>
        p \<in> bs_set (st_reads x) \<longrightarrow> q \<in> bs_set (st_writes y) \<longrightarrow> overlaps p q \<longrightarrow>
        b \<in> bs_set (st_outgoing x) \<or> seen_by b y x)"

lemma with_edges_get:
  "bm_get (with_edges ds st) c = map_option (\<lambda>x. x\<lparr>
     st_outgoing := bs_extend (map snd (filter (\<lambda>d. fst d = c) ds)) (st_outgoing x),
     st_incoming := bs_extend (map fst (filter (\<lambda>d. snd d = c) ds)) (st_incoming x)\<rparr>) (bm_get st c)"
  by (simp add: with_edges_def)

lemma set_edges_out: "snd ` {d \<in> set ds. fst d = c} = {b. (c, b) \<in> set ds}"
  by force

lemma set_edges_in: "fst ` {d \<in> set ds. snd d = c} = {a. (a, c) \<in> set ds}"
  by force

lemma with_edges_SomeE:
  assumes "bm_get (with_edges ds st) c = Some y"
  obtains x where "bm_get st c = Some x" and "st_committed y = st_committed x"
    and "snapshot_xmax y = snapshot_xmax x" and "snapshot_in_progress y = snapshot_in_progress x"
    and "st_reads y = st_reads x" and "st_writes y = st_writes x"
    and "bs_set (st_outgoing y) = {b. (c, b) \<in> set ds} \<union> bs_set (st_outgoing x)"
    and "bs_set (st_incoming y) = {a. (a, c) \<in> set ds} \<union> bs_set (st_incoming x)"
  using assms that by (auto simp: with_edges_get set_edges_out set_edges_in)

lemma edges_ok_with_edges:
  assumes "edges_ok used st"
    and "\<forall>d \<in> set ds. fst d \<in> used \<and> snd d \<in> used \<and> (\<exists>x. (bm_get st (fst d) = Some x \<or> bm_get st (snd d) = Some x) \<and> \<not> st_committed x)"
  shows "edges_ok used (with_edges ds st)"
proof -
  have ds: "(a, b) \<in> set ds \<Longrightarrow> a \<in> used \<and> b \<in> used" for a b using assms(2) by fastforce
  have un: "(a, b) \<in> set ds \<Longrightarrow> bm_get st a = Some x \<Longrightarrow> bm_get st b = Some y \<Longrightarrow>
      st_committed x \<Longrightarrow> st_committed y \<Longrightarrow> False" for a b x y using assms(2) by fastforce
  have sub: "\<And>a x. bm_get st a = Some x \<Longrightarrow> a \<in> used \<and> bs_set (st_outgoing x) \<subseteq> used \<and> bs_set (st_incoming x) \<subseteq> used"
    and sym: "\<And>a b x y. bm_get st a = Some x \<Longrightarrow> bm_get st b = Some y \<Longrightarrow>
      (b \<in> bs_set (st_outgoing x) \<longleftrightarrow> a \<in> bs_set (st_incoming y))"
    and com: "\<And>a b x y. bm_get st a = Some x \<Longrightarrow> bm_get st b = Some y \<Longrightarrow> st_committed x \<Longrightarrow>
      st_committed y \<Longrightarrow> a \<noteq> b \<Longrightarrow> \<not> (b \<in> bs_set (st_outgoing x) \<and> a \<in> bs_set (st_outgoing y))"
    using assms(1) unfolding edges_ok_def by blast+
  have "a \<in> used \<and> bs_set (st_outgoing x) \<subseteq> used \<and> bs_set (st_incoming x) \<subseteq> used"
    if "bm_get (with_edges ds st) a = Some x" for a x
    using that ds by (auto simp: with_edges_get set_edges_out set_edges_in dest!: sub)
  moreover have "b \<in> bs_set (st_outgoing x) \<longleftrightarrow> a \<in> bs_set (st_incoming y)"
    if "bm_get (with_edges ds st) a = Some x" "bm_get (with_edges ds st) b = Some y" for a b x y
    using that sym by (auto simp: with_edges_get set_edges_out set_edges_in)
  moreover have "\<not> (b \<in> bs_set (st_outgoing x) \<and> a \<in> bs_set (st_outgoing y))"
    if "bm_get (with_edges ds st) a = Some x" "bm_get (with_edges ds st) b = Some y"
      "st_committed x" "st_committed y" "a \<noteq> b" for a b x y
  proof -
    from that obtain x' y' where "bm_get st a = Some x'" "bm_get st b = Some y'"
      "st_committed x'" "st_committed y'"
      "bs_set (st_outgoing x) = {b. (a, b) \<in> set ds} \<union> bs_set (st_outgoing x')"
      "bs_set (st_outgoing y) = {a. (b, a) \<in> set ds} \<union> bs_set (st_outgoing y')"
      by (auto simp: with_edges_get set_edges_out)
    with com un that(5) show ?thesis by blast
  qed
  ultimately show ?thesis unfolding edges_ok_def by blast
qed

lemma edges_okI:
  assumes "\<And>a x. bm_get st a = Some x \<Longrightarrow> a \<in> used \<and> bs_set (st_outgoing x) \<subseteq> used \<and> bs_set (st_incoming x) \<subseteq> used"
    and "\<And>a b x y. bm_get st a = Some x \<Longrightarrow> bm_get st b = Some y \<Longrightarrow>
      (b \<in> bs_set (st_outgoing x) \<longleftrightarrow> a \<in> bs_set (st_incoming y))"
    and "\<And>a b x y. bm_get st a = Some x \<Longrightarrow> bm_get st b = Some y \<Longrightarrow> st_committed x \<Longrightarrow>
      st_committed y \<Longrightarrow> a \<noteq> b \<Longrightarrow> b \<in> bs_set (st_outgoing x) \<Longrightarrow> a \<in> bs_set (st_outgoing y) \<Longrightarrow> False"
  shows "edges_ok used st"
  using assms unfolding edges_ok_def by blast

lemma edges_okD:
  assumes "edges_ok used st"
  shows "bm_get st a = Some x \<Longrightarrow> a \<in> used \<and> bs_set (st_outgoing x) \<subseteq> used \<and> bs_set (st_incoming x) \<subseteq> used"
    and "bm_get st a = Some x \<Longrightarrow> bm_get st b = Some y \<Longrightarrow>
      b \<in> bs_set (st_outgoing x) \<longleftrightarrow> a \<in> bs_set (st_incoming y)"
    and "bm_get st a = Some x \<Longrightarrow> bm_get st b = Some y \<Longrightarrow> st_committed x \<Longrightarrow>
      st_committed y \<Longrightarrow> a \<noteq> b \<Longrightarrow> b \<in> bs_set (st_outgoing x) \<Longrightarrow> a \<in> bs_set (st_outgoing y) \<Longrightarrow> False"
  using assms unfolding edges_ok_def by blast+

text \<open>Entries that only lose edges to transactions that are gone keep the invariant.\<close>

lemma edges_ok_shrink:
  assumes ok: "edges_ok used st"
    and old: "\<And>c y. bm_get st' c = Some y \<Longrightarrow> c \<notin> D \<and> (\<exists>x. bm_get st c = Some x \<and>
       st_committed y = st_committed x \<and> bs_set (st_outgoing y) = bs_set (st_outgoing x) - D \<and>
       bs_set (st_incoming y) = bs_set (st_incoming x) - D)"
  shows "edges_ok used st'"
proof (rule edges_okI)
  fix a x
  assume "bm_get st' a = Some x"
  from old [OF this] obtain x' where "bm_get st a = Some x'"
    "bs_set (st_outgoing x) = bs_set (st_outgoing x') - D" "bs_set (st_incoming x) = bs_set (st_incoming x') - D"
    by blast
  with edges_okD(1) [OF ok this(1)]
  show "a \<in> used \<and> bs_set (st_outgoing x) \<subseteq> used \<and> bs_set (st_incoming x) \<subseteq> used" by blast
next
  fix a b x y
  assume a: "bm_get st' a = Some x" and b: "bm_get st' b = Some y"
  from old [OF a] obtain x' where x': "bm_get st a = Some x'" "a \<notin> D" "st_committed x = st_committed x'"
    "bs_set (st_outgoing x) = bs_set (st_outgoing x') - D" by blast
  from old [OF b] obtain y' where y': "bm_get st b = Some y'" "b \<notin> D" "st_committed y = st_committed y'"
    "bs_set (st_outgoing y) = bs_set (st_outgoing y') - D" "bs_set (st_incoming y) = bs_set (st_incoming y') - D" by blast
  show "b \<in> bs_set (st_outgoing x) \<longleftrightarrow> a \<in> bs_set (st_incoming y)"
    using edges_okD(2) [OF ok x'(1) y'(1)] x' y' by blast
  assume "st_committed x" "st_committed y" "a \<noteq> b" "b \<in> bs_set (st_outgoing x)" "a \<in> bs_set (st_outgoing y)"
  with edges_okD(3) [OF ok x'(1) y'(1)] x' y' show False by blast
qed

lemma conflicts_okI:
  assumes "\<And>a b x y p q. bm_get st a = Some x \<Longrightarrow> bm_get st b = Some y \<Longrightarrow> a \<noteq> b \<Longrightarrow>
        p \<in> bs_set (st_reads x) \<Longrightarrow> q \<in> bs_set (st_writes y) \<Longrightarrow> overlaps p q \<Longrightarrow>
        b \<in> bs_set (st_outgoing x) \<or> seen_by b y x"
  shows "conflicts_ok st"
  using assms unfolding conflicts_ok_def by blast

lemma conflicts_okD:
  assumes "conflicts_ok st" and "bm_get st a = Some x" and "bm_get st b = Some y" and "a \<noteq> b"
    and "p \<in> bs_set (st_reads x)" and "q \<in> bs_set (st_writes y)" and "overlaps p q"
  shows "b \<in> bs_set (st_outgoing x) \<or> seen_by b y x"
  using assms unfolding conflicts_ok_def by blast

lemma conflicts_ok_shrink:
  assumes ok: "conflicts_ok st"
    and old: "\<And>c y. bm_get st' c = Some y \<Longrightarrow> (st_reads y = bm_empty \<and> st_writes y = bm_empty) \<or>
       (c \<notin> D \<and> (\<exists>x. bm_get st c = Some x \<and> (st_committed x \<longrightarrow> st_committed y) \<and>
         snapshot_xmax y = snapshot_xmax x \<and> snapshot_in_progress y = snapshot_in_progress x \<and>
         st_reads y = st_reads x \<and> st_writes y = st_writes x \<and>
         bs_set (st_outgoing x) - D \<subseteq> bs_set (st_outgoing y)))"
  shows "conflicts_ok st'"
proof (rule conflicts_okI)
  fix a b x y p q
  assume a: "bm_get st' a = Some x" and b: "bm_get st' b = Some y" and ne: "a \<noteq> b"
    and pq: "p \<in> bs_set (st_reads x)" "q \<in> bs_set (st_writes y)" "overlaps p q"
  from pq(1) have "st_reads x \<noteq> bm_empty" by auto
  with old [OF a] obtain x' where x': "bm_get st a = Some x'" "snapshot_xmax x = snapshot_xmax x'"
    "snapshot_in_progress x = snapshot_in_progress x'" "st_reads x = st_reads x'"
    "bs_set (st_outgoing x') - D \<subseteq> bs_set (st_outgoing x)" by blast
  from pq(2) have "st_writes y \<noteq> bm_empty" by auto
  with old [OF b] obtain y' where y': "bm_get st b = Some y'" "b \<notin> D" "st_committed y' \<longrightarrow> st_committed y"
    "st_writes y = st_writes y'" by blast
  from conflicts_okD [OF ok x'(1) y'(1) ne] pq x' y'
  have "b \<in> bs_set (st_outgoing x') \<or> seen_by b y' x'" by simp
  then show "b \<in> bs_set (st_outgoing x) \<or> seen_by b y x"
    using x' y' by (auto simp: seen_by_def)
qed

lemma conflicts_ok_with_edges: "conflicts_ok st \<Longrightarrow> conflicts_ok (with_edges ds st)"
  by (rule conflicts_ok_shrink [where D = "{}"]) (auto simp: with_edges_get)

subsection \<open>Each operation keeps the invariant\<close>

lemma ssi_begin_ok:
  assumes "edges_ok used st" and "conflicts_ok st" and "t \<notin> used" and "ssi_begin opts t s ro st = (r, st')"
  shows "edges_ok (insert t used) st' \<and> conflicts_ok st'"
proof (cases "st' = st")
  case True
  with assms(1,2) show ?thesis unfolding edges_ok_def by blast
next
  case False
  then have st': "st' = bm_insert t (fresh_ssi_transaction s ro) st"
    using assms(4) by (auto simp: ssi_begin_def Let_def split: if_splits)
  have gone: "t \<notin> bs_set (st_outgoing x) \<and> t \<notin> bs_set (st_incoming x) \<and> a \<in> used \<and>
      bs_set (st_outgoing x) \<subseteq> used \<and> bs_set (st_incoming x) \<subseteq> used"
    if "bm_get st a = Some x" for a x
    using edges_okD(1) [OF assms(1) that] assms(3) by blast
  have "edges_ok (insert t used) st'"
  proof (rule edges_okI)
    fix a x
    assume "bm_get st' a = Some x"
    then show "a \<in> insert t used \<and> bs_set (st_outgoing x) \<subseteq> insert t used \<and> bs_set (st_incoming x) \<subseteq> insert t used"
      using gone [of a x] by (auto simp: st' fresh_ssi_transaction_def split: if_splits)
  next
    fix a b x y
    assume "bm_get st' a = Some x" and "bm_get st' b = Some y"
    then show "b \<in> bs_set (st_outgoing x) \<longleftrightarrow> a \<in> bs_set (st_incoming y)"
      using edges_okD(2) [OF assms(1)] gone [of a x] gone [of b y]
      by (auto simp: st' fresh_ssi_transaction_def split: if_splits)
  next
    fix a b x y
    assume "bm_get st' a = Some x" "bm_get st' b = Some y" "st_committed x" "st_committed y" "a \<noteq> b"
      "b \<in> bs_set (st_outgoing x)" "a \<in> bs_set (st_outgoing y)"
    then show False
      using edges_okD(3) [OF assms(1)] by (auto simp: st' fresh_ssi_transaction_def split: if_splits)
  qed
  moreover have "conflicts_ok st'"
    by (rule conflicts_ok_shrink [OF assms(2), where D = "{}"])
      (auto simp: st' fresh_ssi_transaction_def split: if_splits)
  ultimately show ?thesis ..
qed

text \<open>Recording a predicate changes no edge and no commit flag.\<close>

lemma edges_ok_track:
  assumes "edges_ok used st" and "\<And>x. st_committed (f x) = st_committed x"
    and "\<And>x. st_outgoing (f x) = st_outgoing x" and "\<And>x. st_incoming (f x) = st_incoming x"
  shows "edges_ok used (bm_update t f st)"
  by (rule edges_ok_shrink [OF assms(1), where D = "{}"]) (auto simp: assms(2-4) split: if_splits)

lemma ssi_record_read_eq:
  assumes "bm_get st t = Some x" and "ssi_record_read opts t p st = (r, st')" and "st' \<noteq> st"
  shows "r = Inr () \<and> st' = with_edges (map (\<lambda>w. (t, w)) (conflicting_writers t p x st))
    (bm_update t (\<lambda>x. x\<lparr>st_reads := bs_insert p (st_reads x)\<rparr>) st)"
proof -
  let ?st = "bm_update t (\<lambda>x. x\<lparr>st_reads := bs_insert p (st_reads x)\<rparr>) st"
  have "add_dependencies (map (\<lambda>w. (t, w)) (conflicting_writers t p x st)) ?st =
      (Inr (), with_edges (map (\<lambda>w. (t, w)) (conflicting_writers t p x st)) ?st)"
    by (rule add_dependencies_eq) (use assms(1) in \<open>auto simp: bm_contains_get set_conflicting_writers\<close>)
  with assms show ?thesis
    by (auto simp: ssi_record_read_def split: sum.splits)
qed

lemma ssi_record_read_ok:
  assumes "edges_ok used st" and "conflicts_ok st" and "bm_get st t = Some x" and "\<not> st_committed x"
    and "ssi_record_read opts t p st = (r, st')"
  shows "edges_ok used st' \<and> conflicts_ok st'"
proof (cases "st' = st")
  case True
  with assms(1,2) show ?thesis by simp
next
  case False
  let ?ds = "map (\<lambda>w. (t, w)) (conflicting_writers t p x st)"
  let ?st = "bm_update t (\<lambda>x. x\<lparr>st_reads := bs_insert p (st_reads x)\<rparr>) st"
  have st': "st' = with_edges ?ds ?st"
    using ssi_record_read_eq [OF assms(3,5) False] by simp
  have "edges_ok used st'"
    unfolding st'
  proof (rule edges_ok_with_edges)
    show "edges_ok used ?st" by (rule edges_ok_track [OF assms(1)]) simp_all
    show "\<forall>d \<in> set ?ds. fst d \<in> used \<and> snd d \<in> used \<and>
        (\<exists>y. (bm_get ?st (fst d) = Some y \<or> bm_get ?st (snd d) = Some y) \<and> \<not> st_committed y)"
      using edges_okD(1) [OF assms(1)] assms(3,4) by (auto simp: set_conflicting_writers)
  qed
  moreover have "conflicts_ok st'"
  proof (rule conflicts_okI)
    fix a b y z p' q
    assume a: "bm_get st' a = Some y" and b: "bm_get st' b = Some z" and ne: "a \<noteq> b"
      and pq: "p' \<in> bs_set (st_reads y)" "q \<in> bs_set (st_writes z)" "overlaps p' q"
    from b obtain z' where z': "bm_get st b = Some z'" "st_writes z = st_writes z'" "st_committed z = st_committed z'"
      by (auto simp: st' with_edges_get split: if_splits)
    from a [unfolded st'] obtain y'' where y'': "bm_get ?st a = Some y''" "snapshot_xmax y = snapshot_xmax y''"
      "snapshot_in_progress y = snapshot_in_progress y''" "st_reads y = st_reads y''"
      "bs_set (st_outgoing y) = {b. (a, b) \<in> set ?ds} \<union> bs_set (st_outgoing y'')"
      by (rule with_edges_SomeE)
    then obtain y' where y': "bm_get st a = Some y'" "snapshot_xmax y = snapshot_xmax y'"
      "snapshot_in_progress y = snapshot_in_progress y'"
      "st_reads y = (if a = t then bs_insert p (st_reads y') else st_reads y')"
      "bs_set (st_outgoing y) = {b. (a, b) \<in> set ?ds} \<union> bs_set (st_outgoing y')"
      by (auto split: if_splits)
    show "b \<in> bs_set (st_outgoing y) \<or> seen_by b z y"
    proof (cases "p' \<in> bs_set (st_reads y')")
      case True
      from conflicts_okD [OF assms(2) y'(1) z'(1) ne True] pq z' y' show ?thesis
        by (auto simp: seen_by_def)
    next
      case False
      with pq(1) y'(4) have "a = t" "p' = p" by (auto split: if_splits)
      with y'(1) assms(3) have "y' = x" by simp
      have "b \<in> set (conflicting_writers t p x st) \<or> seen_by b z' x"
        using pq ne z' \<open>a = t\<close> \<open>p' = p\<close> by (auto simp: set_conflicting_writers seen_by_def)
      with \<open>a = t\<close> \<open>y' = x\<close> y' z' show ?thesis by (auto simp: seen_by_def)
    qed
  qed
  ultimately show ?thesis ..
qed

lemma ssi_record_write_eq:
  assumes "bm_get st t = Some x" and "ssi_record_write opts t p st = (r, st')" and "st' \<noteq> st"
  shows "r = Inr () \<and> st' = with_edges (map (\<lambda>w. (w, t)) (conflicting_readers t p st))
    (bm_update t (\<lambda>x. x\<lparr>st_writes := bs_insert p (st_writes x)\<rparr>) st)"
proof -
  let ?st = "bm_update t (\<lambda>x. x\<lparr>st_writes := bs_insert p (st_writes x)\<rparr>) st"
  have "add_dependencies (map (\<lambda>w. (w, t)) (conflicting_readers t p st)) ?st =
      (Inr (), with_edges (map (\<lambda>w. (w, t)) (conflicting_readers t p st)) ?st)"
    by (rule add_dependencies_eq) (use assms(1) in \<open>auto simp: bm_contains_get set_conflicting_readers\<close>)
  with assms show ?thesis
    by (auto simp: ssi_record_write_def Let_def split: sum.splits if_splits)
qed

lemma ssi_record_write_ok:
  assumes "edges_ok used st" and "conflicts_ok st" and "bm_get st t = Some x" and "\<not> st_committed x"
    and "ssi_record_write opts t p st = (r, st')"
  shows "edges_ok used st' \<and> conflicts_ok st'"
proof (cases "st' = st")
  case True
  with assms(1,2) show ?thesis by simp
next
  case False
  let ?ds = "map (\<lambda>w. (w, t)) (conflicting_readers t p st)"
  let ?st = "bm_update t (\<lambda>x. x\<lparr>st_writes := bs_insert p (st_writes x)\<rparr>) st"
  have st': "st' = with_edges ?ds ?st"
    using ssi_record_write_eq [OF assms(3,5) False] by simp
  have "edges_ok used st'"
    unfolding st'
  proof (rule edges_ok_with_edges)
    show "edges_ok used ?st" by (rule edges_ok_track [OF assms(1)]) simp_all
    show "\<forall>d \<in> set ?ds. fst d \<in> used \<and> snd d \<in> used \<and>
        (\<exists>y. (bm_get ?st (fst d) = Some y \<or> bm_get ?st (snd d) = Some y) \<and> \<not> st_committed y)"
      using edges_okD(1) [OF assms(1)] assms(3,4) by (auto simp: set_conflicting_readers)
  qed
  moreover have "conflicts_ok st'"
  proof (rule conflicts_okI)
    fix a b y z p' q
    assume a: "bm_get st' a = Some y" and b: "bm_get st' b = Some z" and ne: "a \<noteq> b"
      and pq: "p' \<in> bs_set (st_reads y)" "q \<in> bs_set (st_writes z)" "overlaps p' q"
    from b [unfolded st'] obtain z'' where "bm_get ?st b = Some z''" "st_committed z = st_committed z''"
      "st_writes z = st_writes z''"
      by (rule with_edges_SomeE)
    then obtain z' where z': "bm_get st b = Some z'" "st_committed z = st_committed z'"
      "st_writes z = (if b = t then bs_insert p (st_writes z') else st_writes z')"
      by (auto split: if_splits)
    from a [unfolded st'] obtain y'' where "bm_get ?st a = Some y''" "snapshot_xmax y = snapshot_xmax y''"
      "snapshot_in_progress y = snapshot_in_progress y''" "st_reads y = st_reads y''"
      "bs_set (st_outgoing y) = {b. (a, b) \<in> set ?ds} \<union> bs_set (st_outgoing y'')"
      by (rule with_edges_SomeE)
    then obtain y' where y': "bm_get st a = Some y'" "snapshot_xmax y = snapshot_xmax y'"
      "snapshot_in_progress y = snapshot_in_progress y'" "st_reads y = st_reads y'"
      "bs_set (st_outgoing y) = {b. (a, b) \<in> set ?ds} \<union> bs_set (st_outgoing y')"
      by (auto split: if_splits)
    show "b \<in> bs_set (st_outgoing y) \<or> seen_by b z y"
    proof (cases "q \<in> bs_set (st_writes z')")
      case True
      from conflicts_okD [OF assms(2) y'(1) z'(1) ne _ True] pq y' z' show ?thesis
        by (auto simp: seen_by_def)
    next
      case False
      with pq(2) z'(3) have "b = t" "q = p" by (auto split: if_splits)
      with pq ne y' have "a \<in> set (conflicting_readers t p st)"
        by (auto simp: set_conflicting_readers overlaps_sym)
      with \<open>b = t\<close> y'(5) show ?thesis by auto
    qed
  qed
  ultimately show ?thesis ..
qed

lemma ssi_refresh_ok:
  assumes "edges_ok used st" and "conflicts_ok st" and "ssi_refresh_snapshot t s st = (r, st')"
  shows "edges_ok used st' \<and> conflicts_ok st'"
proof (cases "st' = st")
  case True
  with assms(1,2) show ?thesis by simp
next
  case False
  with assms(3) obtain x where x: "bm_get st t = Some x" "st_reads x = bm_empty" "st_writes x = bm_empty"
    "st' = bm_insert t (x\<lparr>snapshot_xmax := sn_xmax s, snapshot_in_progress := sn_in_progress s\<rparr>) st"
    by (auto simp: ssi_refresh_snapshot_def split: option.splits if_splits)
  have "edges_ok used st'"
    by (rule edges_ok_shrink [OF assms(1), where D = "{}"]) (use x in \<open>auto split: if_splits\<close>)
  moreover have "conflicts_ok st'"
    by (rule conflicts_ok_shrink [OF assms(2), where D = "{}"]) (use x in \<open>auto split: if_splits\<close>)
  ultimately show ?thesis ..
qed

lemma ssi_commit_ok:
  assumes ok: "edges_ok used st" and "conflicts_ok st" and "ssi_commit t st = (r, st')"
  shows "edges_ok used st' \<and> conflicts_ok st'"
proof (cases "bm_get st t")
  case None
  with assms show ?thesis by (auto simp: ssi_commit_def)
next
  case (Some x)
  define refused where "refused \<longleftrightarrow> (\<exists>i \<in> bs_set (st_incoming x). \<exists>d. bm_get st i = Some d \<and> st_committed d) \<and>
    st_outgoing x \<noteq> bm_empty"
  have st': "st' = (if refused then bm_remove t st else bm_update t (\<lambda>x. x\<lparr>st_committed := True\<rparr>) st)"
    using assms(3) Some
    by (auto simp: ssi_commit_def Let_def refused_def list_ex_iff bs_set_def split: option.splits if_splits)
  show ?thesis
  proof (cases refused)
    case True
    have "edges_ok used st'"
      by (rule edges_ok_shrink [OF ok, where D = "{}"]) (auto simp: st' True split: if_splits)
    moreover have "conflicts_ok st'"
      by (rule conflicts_ok_shrink [OF assms(2), where D = "{}"]) (auto simp: st' True split: if_splits)
    ultimately show ?thesis ..
  next
    case False
    have "conflicts_ok st'"
      by (rule conflicts_ok_shrink [OF assms(2), where D = "{}"]) (auto simp: st' False split: if_splits)
    moreover have "edges_ok used st'"
    proof (rule edges_okI)
      fix a y
      assume "bm_get st' a = Some y"
      then show "a \<in> used \<and> bs_set (st_outgoing y) \<subseteq> used \<and> bs_set (st_incoming y) \<subseteq> used"
        using edges_okD(1) [OF ok] by (auto simp: st' False split: if_splits) blast+
    next
      fix a b y z
      assume "bm_get st' a = Some y" and "bm_get st' b = Some z"
      then obtain y' z' where y': "bm_get st a = Some y'" "st_outgoing y = st_outgoing y'"
          "st_committed y \<longleftrightarrow> st_committed y' \<or> a = t"
        and z': "bm_get st b = Some z'" "st_outgoing z = st_outgoing z'" "st_incoming z = st_incoming z'"
          "st_committed z \<longleftrightarrow> st_committed z' \<or> b = t"
        by (auto simp: st' False split: if_splits)
      then show "b \<in> bs_set (st_outgoing y) \<longleftrightarrow> a \<in> bs_set (st_incoming z)"
        using edges_okD(2) [OF ok] by metis
      assume com: "st_committed y" "st_committed z" and ne: "a \<noteq> b"
        and e: "b \<in> bs_set (st_outgoing y)" "a \<in> bs_set (st_outgoing z)"
      have no: "\<not> st_committed d" if "bm_get st i = Some d" "i \<in> bs_set (st_outgoing x)" "t \<in> bs_set (st_outgoing d)" for i d
        using False that edges_okD(2) [OF ok that(1) Some] unfolding refused_def by auto
      show False
        using edges_okD(3) [OF ok y'(1) z'(1)] no [of a y'] no [of b z'] com ne e y' z' Some by auto
    qed
    ultimately show ?thesis by simp
  qed
qed

lemma forget_edges_get:
  "bm_get (forget_edges t st) c = map_option (\<lambda>x. x\<lparr>st_incoming := bs_remove t (st_incoming x),
     st_outgoing := bs_remove t (st_outgoing x)\<rparr>) (bm_get st c)"
  by (simp add: forget_edges_def)

lemma remove_transaction_ok:
  assumes "edges_ok used st" and "conflicts_ok st"
  shows "edges_ok used (remove_transaction t st) \<and> conflicts_ok (remove_transaction t st)"
proof
  show "edges_ok used (remove_transaction t st)"
    by (rule edges_ok_shrink [OF assms(1), where D = "{t}"])
      (auto simp: remove_transaction_def forget_edges_get split: if_splits)
  show "conflicts_ok (remove_transaction t st)"
    by (rule conflicts_ok_shrink [OF assms(2), where D = "{t}"])
      (auto simp: remove_transaction_def forget_edges_get split: if_splits)
qed

lemma remove_transactions_ok:
  "edges_ok used st \<Longrightarrow> conflicts_ok st \<Longrightarrow>
     edges_ok used (fold remove_transaction ts st) \<and> conflicts_ok (fold remove_transaction ts st)"
  by (induction ts arbitrary: st) (auto simp: remove_transaction_ok)

definition rolled_back :: "transaction_id \<Rightarrow> ssi_savepoint \<Rightarrow> ssi_transaction \<Rightarrow> ssi_state \<Rightarrow> ssi_state" where
  "rolled_back t sp x st = forget_edges t (bm_insert t (x\<lparr>st_reads := sp_reads sp, st_writes := sp_writes sp,
     st_incoming := bm_empty, st_outgoing := bm_empty\<rparr>) st)"

lemma ssi_rollback_eq:
  assumes "bm_get st t = Some x" and "\<not> st_committed x"
  shows "ssi_rollback_to t sp st =
    (Inr (), with_edges (rollback_dependencies t sp (rolled_back t sp x st)) (rolled_back t sp x st))"
proof -
  have "add_dependencies (rollback_dependencies t sp (rolled_back t sp x st)) (rolled_back t sp x st) =
    (Inr (), with_edges (rollback_dependencies t sp (rolled_back t sp x st)) (rolled_back t sp x st))"
    by (rule add_dependencies_eq)
      (auto simp: set_rollback_dependencies bm_contains_get rolled_back_def forget_edges_get)
  with assms show ?thesis by (simp add: ssi_rollback_to_def rolled_back_def [symmetric] Let_def)
qed

lemma rolled_back_SomeE:
  assumes "bm_get (rolled_back t sp x st) c = Some y"
  obtains "c = t" and "st_reads y = sp_reads sp" and "st_writes y = sp_writes sp"
      and "bs_set (st_incoming y) = {}" and "bs_set (st_outgoing y) = {}" and "st_committed y = st_committed x"
  | z where "c \<noteq> t" and "bm_get st c = Some z" and "st_reads y = st_reads z" and "st_writes y = st_writes z"
      and "st_committed y = st_committed z" and "snapshot_xmax y = snapshot_xmax z"
      and "snapshot_in_progress y = snapshot_in_progress z"
      and "bs_set (st_incoming y) = bs_set (st_incoming z) - {t}"
      and "bs_set (st_outgoing y) = bs_set (st_outgoing z) - {t}"
  using assms that by (auto simp: rolled_back_def forget_edges_get split: if_splits)

lemma rolled_back_edges_ok:
  assumes ok: "edges_ok used st" and x: "bm_get st t = Some x" "\<not> st_committed x"
  shows "edges_ok used (rolled_back t sp x st)"
proof (rule edges_okI)
  fix a y
  assume "bm_get (rolled_back t sp x st) a = Some y"
  then show "a \<in> used \<and> bs_set (st_outgoing y) \<subseteq> used \<and> bs_set (st_incoming y) \<subseteq> used"
    by (rule rolled_back_SomeE) (use x in \<open>auto dest!: edges_okD(1) [OF ok]\<close>)
next
  fix a b y z
  assume a: "bm_get (rolled_back t sp x st) a = Some y" and b: "bm_get (rolled_back t sp x st) b = Some z"
  from a b show "b \<in> bs_set (st_outgoing y) \<longleftrightarrow> a \<in> bs_set (st_incoming z)"
    by (elim rolled_back_SomeE) (use edges_okD(2) [OF ok] in auto)
  assume "st_committed y" "st_committed z" "a \<noteq> b" "b \<in> bs_set (st_outgoing y)" "a \<in> bs_set (st_outgoing z)"
  with a b show False
    by (elim rolled_back_SomeE) (use edges_okD(3) [OF ok] in auto)
qed

lemma ssi_rollback_ok:
  assumes ok: "edges_ok used st" and cok: "conflicts_ok st" and "ssi_rollback_to t sp st = (r, st')"
  shows "edges_ok used st' \<and> conflicts_ok st'"
proof (cases "\<exists>x. bm_get st t = Some x \<and> \<not> st_committed x")
  case False
  then have "st' = st"
    using assms(3) by (auto simp: ssi_rollback_to_def split: option.splits if_splits)
  with ok cok show ?thesis by simp
next
  case True
  then obtain x where x: "bm_get st t = Some x" "\<not> st_committed x" by blast
  let ?st = "rolled_back t sp x st"
  let ?ds = "rollback_dependencies t sp ?st"
  have st': "st' = with_edges ?ds ?st"
    using ssi_rollback_eq [OF x, of sp] assms(3) by simp
  have t: "\<exists>y. bm_get ?st t = Some y \<and> \<not> st_committed y"
    by (simp add: rolled_back_def forget_edges_get x)
  have eok: "edges_ok used ?st" by (rule rolled_back_edges_ok [OF ok x])
  have "edges_ok used st'"
    unfolding st'
  proof (rule edges_ok_with_edges [OF eok], rule ballI)
    fix d
    assume "d \<in> set ?ds"
    then obtain other y where "bm_get ?st other = Some y" "d = (t, other) \<or> d = (other, t)"
      by (auto simp: set_rollback_dependencies)
    with t edges_okD(1) [OF eok] show "fst d \<in> used \<and> snd d \<in> used \<and>
        (\<exists>x. (bm_get ?st (fst d) = Some x \<or> bm_get ?st (snd d) = Some x) \<and> \<not> st_committed x)"
      by auto
  qed
  moreover have "conflicts_ok st'"
  proof (rule conflicts_okI)
    fix a b y z p q
    assume a: "bm_get st' a = Some y" and b: "bm_get st' b = Some z" and ne: "a \<noteq> b"
      and pq: "p \<in> bs_set (st_reads y)" "q \<in> bs_set (st_writes z)" "overlaps p q"
    from a [unfolded st'] obtain y' where y': "bm_get ?st a = Some y'" "snapshot_xmax y = snapshot_xmax y'"
      "snapshot_in_progress y = snapshot_in_progress y'" "st_reads y = st_reads y'"
      "bs_set (st_outgoing y) = {b. (a, b) \<in> set ?ds} \<union> bs_set (st_outgoing y')"
      by (rule with_edges_SomeE)
    from b [unfolded st'] obtain z' where z': "bm_get ?st b = Some z'" "st_committed z = st_committed z'"
      "st_writes z = st_writes z'"
      by (rule with_edges_SomeE)
    show "b \<in> bs_set (st_outgoing y) \<or> seen_by b z y"
    proof (cases "a = t \<or> b = t")
      case True
      have "(a, b) \<in> set ?ds"
      proof (cases "a = t")
        case True
        then have "st_reads y' = sp_reads sp" using y'(1) by (auto elim: rolled_back_SomeE)
        with True ne pq y' z' show ?thesis
          unfolding set_rollback_dependencies by (intro exI [of _ b] exI [of _ z']) auto
      next
        case False
        with True have "b = t" by simp
        then have "st_writes z' = sp_writes sp" using z'(1) by (auto elim: rolled_back_SomeE)
        with \<open>b = t\<close> ne pq y' z' show ?thesis
          unfolding set_rollback_dependencies by (intro exI [of _ a] exI [of _ y']) auto
      qed
      with y'(5) show ?thesis by blast
    next
      case False
      with y'(1) obtain u where u: "bm_get st a = Some u" "st_reads y' = st_reads u"
        "snapshot_xmax y' = snapshot_xmax u" "snapshot_in_progress y' = snapshot_in_progress u"
        "bs_set (st_outgoing y') = bs_set (st_outgoing u) - {t}"
        by (auto elim: rolled_back_SomeE)
      from False z'(1) obtain v where v: "bm_get st b = Some v" "st_writes z' = st_writes v"
        "st_committed z' = st_committed v"
        by (auto elim: rolled_back_SomeE)
      have "b \<in> bs_set (st_outgoing u) \<or> seen_by b v u"
        by (rule conflicts_okD [OF cok u(1) v(1) ne]) (use pq y' z' u v in auto)
      with False y' z' u v show ?thesis by (auto simp: seen_by_def)
    qed
  qed
  ultimately show ?thesis ..
qed

lemma ssi_step_ok:
  assumes "ssi_step opts (used, st) (used', st')" and "edges_ok used st" and "conflicts_ok st"
  shows "edges_ok used' st' \<and> conflicts_ok st'"
  using assms(1)
proof cases
  case (enter t s ro r)
  then show ?thesis using ssi_begin_ok [OF assms(2,3)] by blast
next
  case (reads t x p r)
  then show ?thesis using ssi_record_read_ok [OF assms(2,3)] by blast
next
  case (writes t x p r)
  then show ?thesis using ssi_record_write_ok [OF assms(2,3)] by blast
next
  case (refresh t s r)
  then show ?thesis using ssi_refresh_ok [OF assms(2,3)] by blast
next
  case (commits t r)
  then show ?thesis using ssi_commit_ok [OF assms(2,3)] by blast
next
  case (rollback t sp r)
  then show ?thesis using ssi_rollback_ok [OF assms(2,3)] by blast
next
  case (aborts t)
  then show ?thesis using remove_transaction_ok [OF assms(2,3)] by (simp add: ssi_abort_def)
next
  case (cleanup horizon)
  then show ?thesis using remove_transactions_ok [OF assms(2,3)] by (simp add: ssi_cleanup_before_def)
qed

lemma ssi_reach_ok: "ssi_reach opts (used, st) \<Longrightarrow> edges_ok used st \<and> conflicts_ok st"
proof (induction "(used, st)" arbitrary: used st rule: ssi_reach.induct)
  case start
  then show ?case by (simp add: edges_ok_def conflicts_ok_def)
next
  case (step s)
  then show ?case by (cases s) (auto dest: ssi_step_ok)
qed

section \<open>Properties\<close>

text \<open>
  C19. Predicate locks have no false negatives: two predicates that both cover some row or
  index key overlap. For predicates whose range is not empty the test is exact.
\<close>

theorem overlaps_exact:
  "(covers p x \<and> covers q x \<longrightarrow> overlaps p q) \<and>
   (range_nonempty p \<and> range_nonempty q \<longrightarrow> (overlaps p q \<longleftrightarrow> (\<exists>y. covers p y \<and> covers q y)))"
  using covers_overlaps overlaps_covers by blast

lemma overlaps_exact_witness:
  "overlaps (PlIndexRange 3 (Some [1]) (Some [5, 2])) (PlIndexRange 3 (Some [5]) None) \<and>
   (\<exists>y. covers (PlIndexRange 3 (Some [1]) (Some [5, 2])) y \<and> covers (PlIndexRange 3 (Some [5]) None) y)"
proof -
  let ?p = "PlIndexRange 3 (Some [1]) (Some [5, 2])"
  let ?q = "PlIndexRange 3 (Some [5]) None"
  have c: "covers ?p (IndexKey 3 [5, 1])" "covers ?q (IndexKey 3 [5, 1])" "range_nonempty ?p" "range_nonempty ?q"
    by code_simp+
  from c(1,2) overlaps_exact [of ?p "IndexKey 3 [5, 1]" ?q] have "overlaps ?p ?q" by blast
  with c show ?thesis using overlaps_exact [of ?p "IndexKey 3 [5, 1]" ?q] by blast
qed

text \<open>
  C3. No read/write conflict is missed. In every reachable state, if a registered
  transaction has read a predicate that another one has written, then the edge from the
  reader to the writer is recorded at both ends, or the write was committed and in the
  reader's snapshot.
\<close>

theorem ssi_conflicts_recorded:
  assumes "ssi_reach opts (used, st)" and "bm_get st a = Some x" and "bm_get st b = Some y" and "a \<noteq> b"
    and "predicates_overlap (st_reads x) (st_writes y)"
  shows "rw_edge st a b \<or> seen_by b y x"
proof -
  from assms(1) have e: "edges_ok used st" and c: "conflicts_ok st" using ssi_reach_ok by blast+
  from assms(5) obtain p q where "p \<in> bs_set (st_reads x)" "q \<in> bs_set (st_writes y)" "overlaps p q"
    by (auto simp: predicates_overlap_iff)
  with conflicts_okD [OF c assms(2-4)] edges_okD(2) [OF e assms(2,3)] assms(2,3)
  show ?thesis by (auto simp: rw_edge_iff)
qed

text \<open>A run for the witnesses: 5 reads a row of table 1 that 6 then writes.\<close>

definition ssi_demo_options :: ssi_options where
  "ssi_demo_options = \<lparr>maximum_transactions = 9, maximum_predicates = 9\<rparr>"

definition ssi_demo_snapshot :: "u64 \<Rightarrow> txn_snapshot" where
  "ssi_demo_snapshot n = \<lparr>sn_xmin = 5, sn_xmax = n, sn_in_progress = bm_empty, sn_command = 0\<rparr>"

definition ssi_demo_begun :: ssi_state where
  "ssi_demo_begun = snd (ssi_begin ssi_demo_options 6 (ssi_demo_snapshot 7) False
     (snd (ssi_begin ssi_demo_options 5 (ssi_demo_snapshot 7) False bm_empty)))"

definition ssi_demo_read :: ssi_state where
  "ssi_demo_read = snd (ssi_record_read ssi_demo_options 5 (PlRow 1 2) ssi_demo_begun)"

definition ssi_demo :: ssi_state where
  "ssi_demo = snd (ssi_record_write ssi_demo_options 6 (PlTable 1) ssi_demo_read)"

lemma ssi_demo_reach: "ssi_reach ssi_demo_options ({6, 5}, ssi_demo)"
proof -
  let ?o = ssi_demo_options
  let ?s = "ssi_demo_snapshot 7"
  have "ssi_reach ?o ({5}, snd (ssi_begin ?o 5 ?s False bm_empty))"
    by (rule ssi_reach.step [OF ssi_reach.start], rule ssi_step.enter) (simp_all add: prod_eq_iff)
  then have "ssi_reach ?o ({6, 5}, ssi_demo_begun)"
    by (rule ssi_reach.step, unfold ssi_demo_begun_def, intro ssi_step.enter) (simp_all add: prod_eq_iff)
  then have "ssi_reach ?o ({6, 5}, ssi_demo_read)"
  proof (rule ssi_reach.step)
    show "ssi_step ?o ({6, 5}, ssi_demo_begun) ({6, 5}, ssi_demo_read)"
      unfolding ssi_demo_read_def
      by (rule ssi_step.reads [where x = "fresh_ssi_transaction ?s False" and t = 5])
        (simp_all add: prod_eq_iff, code_simp+)
  qed
  then show ?thesis
  proof (rule ssi_reach.step)
    show "ssi_step ?o ({6, 5}, ssi_demo_read) ({6, 5}, ssi_demo)"
      unfolding ssi_demo_def
      by (rule ssi_step.writes [where x = "fresh_ssi_transaction ?s False" and t = 6])
        (simp_all add: prod_eq_iff, code_simp+)
  qed
qed

lemma ssi_conflicts_recorded_witness: "rw_edge ssi_demo 5 6"
proof -
  have get: "bm_get ssi_demo 5 = Some (the (bm_get ssi_demo 5))" "bm_get ssi_demo 6 = Some (the (bm_get ssi_demo 6))"
    and pred: "predicates_overlap (st_reads (the (bm_get ssi_demo 5))) (st_writes (the (bm_get ssi_demo 6)))"
    and uncommitted: "\<not> st_committed (the (bm_get ssi_demo 6))"
    by code_simp+
  from ssi_conflicts_recorded [OF ssi_demo_reach get _ pred] uncommitted show ?thesis
    by (simp add: seen_by_def)
qed

text \<open>
  C22. No write skew between two transactions. In every reachable state two committed
  transactions that are both still registered do not have edges in both directions.
\<close>

theorem ssi_no_mutual_commit:
  assumes "ssi_reach opts (used, st)" and "bm_get st a = Some x" and "bm_get st b = Some y" and "a \<noteq> b"
    and "st_committed x" and "st_committed y"
  shows "\<not> (rw_edge st a b \<and> rw_edge st b a)"
  using ssi_reach_ok [OF assms(1)] assms(2-6) by (auto simp: rw_edge_iff dest: edges_okD(3))

definition ssi_demo_committed :: ssi_state where
  "ssi_demo_committed = snd (ssi_commit 6 (snd (ssi_commit 5 ssi_demo)))"

lemma ssi_no_mutual_commit_witness:
  "rw_edge ssi_demo_committed 5 6 \<and> \<not> (rw_edge ssi_demo_committed 5 6 \<and> rw_edge ssi_demo_committed 6 5)"
proof -
  have "ssi_reach ssi_demo_options ({6, 5}, snd (ssi_commit 5 ssi_demo))"
    by (rule ssi_reach.step [OF ssi_demo_reach], rule ssi_step.commits [of 5]) (simp add: prod_eq_iff)
  then have reach: "ssi_reach ssi_demo_options ({6, 5}, ssi_demo_committed)"
    unfolding ssi_demo_committed_def
    by (rule ssi_reach.step, intro ssi_step.commits [of 6]) (simp add: prod_eq_iff)
  have get: "bm_get ssi_demo_committed 5 = Some (the (bm_get ssi_demo_committed 5))"
      "bm_get ssi_demo_committed 6 = Some (the (bm_get ssi_demo_committed 6))"
    and com: "st_committed (the (bm_get ssi_demo_committed 5))" "st_committed (the (bm_get ssi_demo_committed 6))"
    and edge: "rw_edge ssi_demo_committed 5 6"
    by code_simp+
  from ssi_no_mutual_commit [OF reach get _ com] edge show ?thesis by simp
qed

text \<open>
  C17. The decision at commit. A registered transaction is refused with 40001, and removed,
  exactly if it has an outgoing edge and an edge comes in from a transaction that has
  committed; otherwise it is marked committed and nothing else changes.
\<close>

theorem ssi_commit_decision:
  assumes "ssi_reach opts (used, st)" and "bm_get st t = Some x"
  shows "ssi_commit t st =
    (if (\<exists>r y. bm_get st r = Some y \<and> st_committed y \<and> rw_edge st r t) \<and> bs_set (st_outgoing x) \<noteq> {}
     then (Inl E_40001, bm_remove t st)
     else (Inr (), bm_insert t (x\<lparr>st_committed := True\<rparr>) st))"
proof -
  from assms(1) have e: "edges_ok used st" using ssi_reach_ok by blast
  have 1: "list_ex (\<lambda>i. case bm_get st i of None \<Rightarrow> False | Some d \<Rightarrow> st_committed d) (bm_keys (st_incoming x)) \<longleftrightarrow>
      (\<exists>r y. bm_get st r = Some y \<and> st_committed y \<and> rw_edge st r t)"
    using edges_okD(2) [OF e _ assms(2)] assms(2)
    by (fastforce simp: list_ex_iff rw_edge_iff bs_set_def split: option.splits)
  have 2: "st_outgoing x \<noteq> bm_empty \<longleftrightarrow> bs_set (st_outgoing x) \<noteq> {}"
    using bs_set_eq_iff [of "st_outgoing x" bm_empty] by simp
  show ?thesis
    unfolding ssi_commit_def assms(2) option.case Let_def 1 2 bm_update_def ..
qed

lemma ssi_commit_decision_witness: "fst (ssi_commit 5 ssi_demo) = Inr ()"
proof -
  have get: "bm_get ssi_demo 5 = Some (the (bm_get ssi_demo 5))"
    and "st_incoming (the (bm_get ssi_demo 5)) = bm_empty" by code_simp+
  then have "\<not> rw_edge ssi_demo r 5" for r by (auto simp: rw_edge_iff)
  then show ?thesis by (subst ssi_commit_decision [OF ssi_demo_reach get]) simp
qed

text \<open>
  Rolling back to a savepoint recomputes the edges: the transaction has the reads and
  writes of the savepoint, and exactly the edges that these cause with the other
  registered transactions.
\<close>

lemma ssi_rollback_recomputes:
  assumes "bm_get st t = Some x" and "\<not> st_committed x" and "bm_get st b = Some y" and "b \<noteq> t"
    and "ssi_rollback_to t sp st = (r, st')"
  shows "r = Inr () \<and> (\<exists>x'. bm_get st' t = Some x' \<and> st_reads x' = sp_reads sp \<and> st_writes x' = sp_writes sp) \<and>
    (rw_edge st' t b \<longleftrightarrow> predicates_overlap (sp_reads sp) (st_writes y)) \<and>
    (rw_edge st' b t \<longleftrightarrow> predicates_overlap (st_reads y) (sp_writes sp))"
proof -
  let ?st = "rolled_back t sp x st"
  let ?ds = "rollback_dependencies t sp ?st"
  have st': "r = Inr ()" "st' = with_edges ?ds ?st"
    using ssi_rollback_eq [OF assms(1,2), of sp] assms(5) by simp_all
  have b: "bm_get ?st b = Some (y\<lparr>st_incoming := bs_remove t (st_incoming y), st_outgoing := bs_remove t (st_outgoing y)\<rparr>)"
    and t: "bm_get ?st t = Some (x\<lparr>st_reads := sp_reads sp, st_writes := sp_writes sp,
       st_incoming := bs_remove t bm_empty, st_outgoing := bs_remove t bm_empty\<rparr>)"
    using assms(3,4) by (simp_all add: rolled_back_def forget_edges_get)
  have ds: "(t, b) \<in> set ?ds \<longleftrightarrow> predicates_overlap (sp_reads sp) (st_writes y)"
    "(b, t) \<in> set ?ds \<longleftrightarrow> predicates_overlap (st_reads y) (sp_writes sp)"
    using assms(4) b by (auto simp: set_rollback_dependencies predicates_overlap_iff)
  have "(\<exists>x'. bm_get st' t = Some x' \<and> st_reads x' = sp_reads sp \<and> st_writes x' = sp_writes sp)"
    by (simp add: st' with_edges_get t)
  moreover have "rw_edge st' t b \<longleftrightarrow> (t, b) \<in> set ?ds" "rw_edge st' b t \<longleftrightarrow> (b, t) \<in> set ?ds"
    unfolding rw_edge_iff st' with_edges_get b t
    by (simp_all add: set_edges_out set_edges_in del: set_filter)
      (auto simp: set_edges_out set_edges_in)
  ultimately show ?thesis using st' ds by blast
qed

lemma ssi_rollback_recomputes_witness:
  "fst (ssi_rollback_to 5 \<lparr>sp_reads = bm_empty, sp_writes = bm_empty\<rparr> ssi_demo) = Inr () \<and>
   \<not> rw_edge (snd (ssi_rollback_to 5 \<lparr>sp_reads = bm_empty, sp_writes = bm_empty\<rparr> ssi_demo)) 5 6"
proof -
  let ?sp = "\<lparr>sp_reads = bm_empty, sp_writes = bm_empty\<rparr> :: ssi_savepoint"
  have get: "bm_get ssi_demo 5 = Some (the (bm_get ssi_demo 5))" "\<not> st_committed (the (bm_get ssi_demo 5))"
    "bm_get ssi_demo 6 = Some (the (bm_get ssi_demo 6))" by code_simp+
  from ssi_rollback_recomputes [OF get _ surjective_pairing, of ?sp] show ?thesis
    by (simp add: predicates_overlap_iff)
qed

definition ssi_anomaly :: "(unit res) list \<times> ssi_state" where
  "ssi_anomaly = fold (\<lambda>f (rs, st). case f st of (r, st') \<Rightarrow> (rs @ [r], st'))
     [ssi_begin ssi_demo_options 6 (ssi_demo_snapshot 7) False,
      ssi_record_read ssi_demo_options 6 (PlRow 1 1),
      ssi_begin ssi_demo_options 7 (ssi_demo_snapshot 8) False,
      ssi_record_write ssi_demo_options 7 (PlRow 1 1),
      ssi_commit 7,
      ssi_begin ssi_demo_options 8 \<lparr>sn_xmin = 6, sn_xmax = 9, sn_in_progress = bs_of_list [6], sn_command = 0\<rparr> True,
      ssi_record_read ssi_demo_options 8 (PlRow 1 1),
      ssi_record_read ssi_demo_options 8 (PlRow 1 2),
      ssi_record_write ssi_demo_options 6 (PlRow 1 2),
      ssi_commit 6,
      ssi_commit 8] ([], bm_empty)"

text \<open>
  A limit of the test at commit. Transaction 8 only reads, 6 reads what 7 writes, and 8
  reads what 6 writes. 7 commits, then 8 takes a snapshot that sees 7 but not 6, then 6
  commits although it is the middle of the two edges 8 to 6 and 6 to 7, and 8 commits as
  well: 7 precedes 8, which precedes 6, which precedes 7.
\<close>

theorem ssi_dangerous_structure_accepted:
  "list_all (\<lambda>r. r = Inr ()) (fst ssi_anomaly) \<and>
   rw_edge (snd ssi_anomaly) 8 6 \<and> rw_edge (snd ssi_anomaly) 6 7 \<and>
   map_option (\<lambda>x. seen_by 7 (the (bm_get (snd ssi_anomaly) 7)) x) (bm_get (snd ssi_anomaly) 8) = Some True \<and>
   list_all (\<lambda>t. map_option st_committed (bm_get (snd ssi_anomaly) t) = Some True) [6, 7, 8]"
  by code_simp

end
