(* ===== verification/Page.thy ===== *)
theory Page
  imports Ids
begin

text \<open>
  The slotted page format, crates/ordadb-storage/src/page.rs.

  A page is its 8192 bytes; every field is read from and written to the byte vector as the
  code does. \<open>crc32c\<close> is a third-party function and a parameter \<open>crc\<close> of the definitions
  that use it; nothing is assumed about it. Indexing outside the vector panics in the code;
  the lemmas about \<open>page_valid\<close> show that all the ranges used are inside it.
\<close>

section \<open>Format\<close>

abbreviation (input) PAGE_SIZE :: nat where "PAGE_SIZE \<equiv> 8192"
abbreviation (input) FILE_FORMAT_VERSION :: u16 where "FILE_FORMAT_VERSION \<equiv> 1"
abbreviation (input) SLOT_SIZE :: nat where "SLOT_SIZE \<equiv> 6"
abbreviation (input) HEADER_SIZE :: nat where "HEADER_SIZE \<equiv> 40"
abbreviation (input) CHECKSUM_OFFSET :: nat where "CHECKSUM_OFFSET \<equiv> 24"
abbreviation (input) LOWER_OFFSET :: nat where "LOWER_OFFSET \<equiv> 28"
abbreviation (input) UPPER_OFFSET :: nat where "UPPER_OFFSET \<equiv> 30"
abbreviation (input) SLOT_COUNT_OFFSET :: nat where "SLOT_COUNT_OFFSET \<equiv> 32"

definition MAX_RECORD_BYTES :: nat where
  "MAX_RECORD_BYTES = PAGE_SIZE - HEADER_SIZE - SLOT_SIZE"

definition page_magic :: "u8 list" where
  "page_magic = [79, 82, 68, 65]"

datatype page_type = Metadata | Heap | Index

fun page_type_byte :: "page_type \<Rightarrow> u8" where
  "page_type_byte Metadata = 1"
| "page_type_byte Heap = 2"
| "page_type_byte Index = 3"

definition page_type_try_from :: "u8 \<Rightarrow> page_type res" where
  "page_type_try_from v =
     (if v = 1 then Inr Metadata else if v = 2 then Inr Heap else if v = 3 then Inr Index
      else Inl E_XX001)"

lemma page_type_roundtrip [simp]: "page_type_try_from (page_type_byte t) = Inr t"
  by (cases t) (simp_all add: page_type_try_from_def)

record slotted_page =
  pg_bytes :: "u8 list"

section \<open>Reading and writing fields\<close>

definition read_u16 :: "u8 list \<Rightarrow> nat \<Rightarrow> u16" where
  "read_u16 bs off = from_le_u16 (slice off 2 bs)"

definition read_u32 :: "u8 list \<Rightarrow> nat \<Rightarrow> u32" where
  "read_u32 bs off = from_le_u32 (slice off 4 bs)"

definition read_u64 :: "u8 list \<Rightarrow> nat \<Rightarrow> u64" where
  "read_u64 bs off = from_le_u64 (slice off 8 bs)"

definition write_u16 :: "nat \<Rightarrow> u16 \<Rightarrow> u8 list \<Rightarrow> u8 list" where
  "write_u16 off v bs = splice off (to_le_u16 v) bs"

definition write_u32 :: "nat \<Rightarrow> u32 \<Rightarrow> u8 list \<Rightarrow> u8 list" where
  "write_u32 off v bs = splice off (to_le_u32 v) bs"

definition write_u64 :: "nat \<Rightarrow> u64 \<Rightarrow> u8 list \<Rightarrow> u8 list" where
  "write_u64 off v bs = splice off (to_le_u64 v) bs"

definition zero_checksum :: "u8 list \<Rightarrow> u8 list" where
  "zero_checksum bs = splice CHECKSUM_OFFSET [0, 0, 0, 0] bs"

definition page_seal :: "(u8 list \<Rightarrow> u32) \<Rightarrow> u8 list \<Rightarrow> u8 list" where
  "page_seal crc bs = (let z = zero_checksum bs in write_u32 CHECKSUM_OFFSET (crc z) z)"

section \<open>Validation\<close>

text \<open>
  \<open>occupied.insert(byte_index)\<close> for each byte of a record; \<open>None\<close> when a byte is there
  already.
\<close>

primrec occupy :: "nat list \<Rightarrow> nat set \<Rightarrow> nat set option" where
  "occupy [] occupied = Some occupied"
| "occupy (i # is) occupied = (if i \<in> occupied then None else occupy is (insert i occupied))"

primrec check_slots :: "u8 list \<Rightarrow> nat \<Rightarrow> nat list \<Rightarrow> nat set \<Rightarrow> unit res" where
  "check_slots bs upper [] occupied = Inr ()"
| "check_slots bs upper (slot_id # rest) occupied =
     (let start = HEADER_SIZE + slot_id * SLOT_SIZE;
          offset = unat (read_u16 bs start);
          len = unat (read_u16 bs (start + 2));
          flags = read_u16 bs (start + 4)
      in try_bind (ok_or E_XX001 (checked_add_usize offset len)) (\<lambda>end_off.
         guard_res (flags \<noteq> 0 \<or> offset < upper \<or> PAGE_SIZE < end_off) E_XX001
           (try_bind (ok_or E_XX001 (occupy [offset..<end_off] occupied)) (\<lambda>occupied'.
              check_slots bs upper rest occupied'))))"

definition validate_page :: "(u8 list \<Rightarrow> u32) \<Rightarrow> u8 list \<Rightarrow> page_id \<Rightarrow> unit res" where
  "validate_page crc bs expected =
     guard_res (slice 0 4 bs \<noteq> page_magic) E_XX001 (
     guard_res (read_u16 bs 4 \<noteq> FILE_FORMAT_VERSION) E_0A000 (
     try_bind (page_type_try_from (bs ! 6)) (\<lambda>_.
     guard_res (read_u64 bs 8 \<noteq> expected) E_XX001 (
     let lower = unat (read_u16 bs LOWER_OFFSET);
         upper = unat (read_u16 bs UPPER_OFFSET);
         slot_count = unat (read_u16 bs SLOT_COUNT_OFFSET)
     in try_bind (ok_or E_XX001 (checked_mul_usize slot_count SLOT_SIZE)) (\<lambda>dir.
        try_bind (ok_or E_XX001 (checked_add_usize HEADER_SIZE dir)) (\<lambda>expected_lower.
        guard_res (lower \<noteq> expected_lower \<or> upper < lower \<or> PAGE_SIZE < upper) E_XX001 (
        try_bind (check_slots bs upper [0..<slot_count] {}) (\<lambda>_.
        guard_res (read_u32 bs CHECKSUM_OFFSET \<noteq> crc (zero_checksum bs)) E_XX001
          (Inr ())))))))))"

section \<open>Operations\<close>

definition page_new_bytes :: "page_id \<Rightarrow> page_type \<Rightarrow> u8 list" where
  "page_new_bytes pid ty =
     (let bs = splice 0 page_magic (replicate PAGE_SIZE 0);
          bs = write_u16 4 FILE_FORMAT_VERSION bs;
          bs = bs[6 := page_type_byte ty];
          bs = bs[7 := 0];
          bs = write_u64 8 pid bs;
          bs = write_u64 16 0 bs;
          bs = write_u16 LOWER_OFFSET (of_nat HEADER_SIZE) bs;
          bs = write_u16 UPPER_OFFSET (of_nat PAGE_SIZE) bs
      in write_u16 SLOT_COUNT_OFFSET 0 bs)"

definition page_new :: "(u8 list \<Rightarrow> u32) \<Rightarrow> page_id \<Rightarrow> page_type \<Rightarrow> slotted_page" where
  "page_new crc pid ty = \<lparr>pg_bytes = page_seal crc (page_new_bytes pid ty)\<rparr>"

definition page_from_bytes :: "(u8 list \<Rightarrow> u32) \<Rightarrow> u8 list \<Rightarrow> page_id \<Rightarrow> slotted_page res" where
  "page_from_bytes crc bs expected =
     guard_res (length bs \<noteq> PAGE_SIZE) E_XX001
       (try_bind (validate_page crc bs expected) (\<lambda>_. Inr \<lparr>pg_bytes = bs\<rparr>))"

definition page_id_of :: "slotted_page \<Rightarrow> page_id" where
  "page_id_of p = read_u64 (pg_bytes p) 8"

definition page_type_of :: "slotted_page \<Rightarrow> page_type res" where
  "page_type_of p = page_type_try_from (pg_bytes p ! 6)"

definition page_lsn :: "slotted_page \<Rightarrow> u64" where
  "page_lsn p = read_u64 (pg_bytes p) 16"

definition page_flags :: "slotted_page \<Rightarrow> u8" where
  "page_flags p = pg_bytes p ! 7"

definition slot_count :: "slotted_page \<Rightarrow> u16" where
  "slot_count p = read_u16 (pg_bytes p) SLOT_COUNT_OFFSET"

definition free_space :: "slotted_page \<Rightarrow> nat" where
  "free_space p =
     (let lower = unat (read_u16 (pg_bytes p) LOWER_OFFSET);
          upper = unat (read_u16 (pg_bytes p) UPPER_OFFSET)
      in upper - lower)"

definition can_fit :: "slotted_page \<Rightarrow> nat \<Rightarrow> bool" where
  "can_fit p record_len =
     ((case checked_add_usize record_len SLOT_SIZE of
         None \<Rightarrow> False | Some required \<Rightarrow> required \<le> free_space p) \<and> record_len \<le> 65535)"

text \<open>The writes of \<open>insert\<close>: the record bytes, its slot, and the three header fields.\<close>

definition write_record :: "nat \<Rightarrow> nat \<Rightarrow> u16 \<Rightarrow> u8 list \<Rightarrow> u8 list \<Rightarrow> u8 list" where
  "write_record lower new_upper slot_id rec bs =
     (let bs = splice new_upper rec bs;
          bs = write_u16 lower (of_nat new_upper) bs;
          bs = write_u16 (lower + 2) (of_nat (length rec)) bs;
          bs = write_u16 (lower + 4) 0 bs;
          bs = write_u16 LOWER_OFFSET (of_nat (lower + SLOT_SIZE)) bs;
          bs = write_u16 UPPER_OFFSET (of_nat new_upper) bs
      in write_u16 SLOT_COUNT_OFFSET (slot_id + 1) bs)"

definition page_insert :: "(u8 list \<Rightarrow> u32) \<Rightarrow> u8 list \<Rightarrow> slotted_page \<Rightarrow> u16 option res \<times> slotted_page" where
  "page_insert crc rec p =
     (if \<not> can_fit p (length rec) then (Inr None, p)
      else
        let bs = pg_bytes p;
            slot_id = slot_count p;
            lower = unat (read_u16 bs LOWER_OFFSET);
            upper = unat (read_u16 bs UPPER_OFFSET)
        in if upper < length rec then (Inl E_XX001, p)
           else if 65535 < length rec then (Inl E_XX001, p)
           else (Inr (Some slot_id),
             p\<lparr>pg_bytes := page_seal crc (write_record lower (upper - length rec) slot_id rec bs)\<rparr>))"

record slot =
  sl_offset :: nat
  sl_length :: nat

definition page_slot :: "slotted_page \<Rightarrow> u16 \<Rightarrow> slot res" where
  "page_slot p slot_id =
     guard_res (slot_count p \<le> slot_id) E_XX001
       (let start = HEADER_SIZE + unat slot_id * SLOT_SIZE
        in Inr \<lparr>sl_offset = unat (read_u16 (pg_bytes p) start),
                sl_length = unat (read_u16 (pg_bytes p) (start + 2))\<rparr>)"

definition page_record :: "slotted_page \<Rightarrow> u16 \<Rightarrow> u8 list res" where
  "page_record p slot_id =
     try_bind (page_slot p slot_id) (\<lambda>s. Inr (slice (sl_offset s) (sl_length s) (pg_bytes p)))"

primrec page_records_from :: "slotted_page \<Rightarrow> nat list \<Rightarrow> u8 list list res" where
  "page_records_from p [] = Inr []"
| "page_records_from p (s # ss) =
     try_bind (page_record p (of_nat s)) (\<lambda>r. try_bind (page_records_from p ss) (\<lambda>rs. Inr (r # rs)))"

definition page_records :: "slotted_page \<Rightarrow> u8 list list res" where
  "page_records p = page_records_from p [0..<unat (slot_count p)]"

definition page_set_lsn :: "(u8 list \<Rightarrow> u32) \<Rightarrow> u64 \<Rightarrow> slotted_page \<Rightarrow> slotted_page" where
  "page_set_lsn crc l p = p\<lparr>pg_bytes := page_seal crc (write_u64 16 l (pg_bytes p))\<rparr>"

definition sealed_bytes :: "slotted_page \<Rightarrow> u8 list" where
  "sealed_bytes p = pg_bytes p"

definition page_validate :: "(u8 list \<Rightarrow> u32) \<Rightarrow> slotted_page \<Rightarrow> unit res" where
  "page_validate crc p = validate_page crc (pg_bytes p) (page_id_of p)"

section \<open>Fields under writes\<close>

named_theorems page_simps "reading a field after a write elsewhere or to the same field"

lemma length_write [page_simps]:
  "off + 2 \<le> length bs \<Longrightarrow> length (write_u16 off v bs) = length bs"
  "off + 4 \<le> length bs \<Longrightarrow> length (write_u32 off w bs) = length bs"
  "off + 8 \<le> length bs \<Longrightarrow> length (write_u64 off z bs) = length bs"
  by (simp_all add: write_u16_def write_u32_def write_u64_def)

lemma length_zero_checksum [page_simps]: "length bs = PAGE_SIZE \<Longrightarrow> length (zero_checksum bs) = PAGE_SIZE"
  by (simp add: zero_checksum_def)

lemma length_page_seal [page_simps]: "length bs = PAGE_SIZE \<Longrightarrow> length (page_seal crc bs) = PAGE_SIZE"
  by (simp add: page_seal_def Let_def page_simps)

text \<open>A range that does not meet the written one keeps its bytes.\<close>

lemma slice_write_u16:
  "off + 2 \<le> length bs \<Longrightarrow> o' + n \<le> length bs \<Longrightarrow> o' + n \<le> off \<or> off + 2 \<le> o' \<Longrightarrow>
     slice o' n (write_u16 off v bs) = slice o' n bs"
  by (simp add: write_u16_def slice_splice_disjoint)

lemma slice_write_u64:
  "off + 8 \<le> length bs \<Longrightarrow> o' + n \<le> length bs \<Longrightarrow> o' + n \<le> off \<or> off + 8 \<le> o' \<Longrightarrow>
     slice o' n (write_u64 off v bs) = slice o' n bs"
  by (simp add: write_u64_def slice_splice_disjoint)

lemma slice_page_seal:
  "length bs = PAGE_SIZE \<Longrightarrow> o' + n \<le> PAGE_SIZE \<Longrightarrow> o' + n \<le> 24 \<or> 28 \<le> o' \<Longrightarrow>
     slice o' n (page_seal crc bs) = slice o' n bs"
  by (simp add: page_seal_def Let_def write_u32_def zero_checksum_def slice_splice_disjoint)

lemma read_write_same [page_simps]:
  "off + 2 \<le> length bs \<Longrightarrow> read_u16 (write_u16 off v bs) off = v"
  "off + 8 \<le> length bs \<Longrightarrow> read_u64 (write_u64 off z bs) off = z"
  by (simp_all add: read_u16_def read_u64_def write_u16_def write_u64_def)

lemma read_write_other [page_simps]:
  "off + 2 \<le> length bs \<Longrightarrow> o' + 2 \<le> length bs \<Longrightarrow> o' + 2 \<le> off \<or> off + 2 \<le> o' \<Longrightarrow>
     read_u16 (write_u16 off v bs) o' = read_u16 bs o'"
  by (simp add: read_u16_def slice_write_u16)

lemma slice_one_nth: "i < length bs \<Longrightarrow> slice i 1 bs = [bs ! i]"
  by (rule nth_equalityI) (simp_all add: nth_slice)

lemma nth_slice_eq:
  assumes "slice i 1 bs = slice i 1 bs'" and "i < length bs" and "i < length bs'"
  shows "bs ! i = bs' ! i"
  using assms slice_one_nth [of i bs] slice_one_nth [of i bs'] by simp

lemma zero_checksum_seal [page_simps]:
  "length bs = PAGE_SIZE \<Longrightarrow> zero_checksum (page_seal crc bs) = zero_checksum bs"
  by (simp add: page_seal_def Let_def write_u32_def zero_checksum_def splice_overwrite)

lemma stored_checksum_seal [page_simps]:
  "length bs = PAGE_SIZE \<Longrightarrow> read_u32 (page_seal crc bs) CHECKSUM_OFFSET = crc (zero_checksum bs)"
  by (simp add: page_seal_def Let_def write_u32_def read_u32_def zero_checksum_def)

section \<open>What a valid page is\<close>

definition lower_of :: "u8 list \<Rightarrow> nat" where "lower_of bs = unat (read_u16 bs LOWER_OFFSET)"
definition upper_of :: "u8 list \<Rightarrow> nat" where "upper_of bs = unat (read_u16 bs UPPER_OFFSET)"
definition slots_of :: "u8 list \<Rightarrow> nat" where "slots_of bs = unat (read_u16 bs SLOT_COUNT_OFFSET)"

definition slot_range :: "u8 list \<Rightarrow> nat \<Rightarrow> nat set" where
  "slot_range bs i = {unat (read_u16 bs (HEADER_SIZE + i * SLOT_SIZE)) ..<
     unat (read_u16 bs (HEADER_SIZE + i * SLOT_SIZE)) + unat (read_u16 bs (HEADER_SIZE + i * SLOT_SIZE + 2))}"

definition slot_ok :: "u8 list \<Rightarrow> nat \<Rightarrow> bool" where
  "slot_ok bs i \<longleftrightarrow>
     (let start = HEADER_SIZE + i * SLOT_SIZE;
          offset = unat (read_u16 bs start); len = unat (read_u16 bs (start + 2))
      in read_u16 bs (start + 4) = 0 \<and> upper_of bs \<le> offset \<and> offset + len \<le> PAGE_SIZE)"

definition page_valid :: "(u8 list \<Rightarrow> u32) \<Rightarrow> page_id \<Rightarrow> u8 list \<Rightarrow> bool" where
  "page_valid crc pid bs \<longleftrightarrow>
     length bs = PAGE_SIZE \<and> slice 0 4 bs = page_magic \<and> read_u16 bs 4 = FILE_FORMAT_VERSION \<and>
     (\<exists>ty. page_type_try_from (bs ! 6) = Inr ty) \<and> read_u64 bs 8 = pid \<and>
     lower_of bs = HEADER_SIZE + slots_of bs * SLOT_SIZE \<and> lower_of bs \<le> upper_of bs \<and>
     upper_of bs \<le> PAGE_SIZE \<and>
     (\<forall>i < slots_of bs. slot_ok bs i) \<and>
     (\<forall>i < slots_of bs. \<forall>j < i. slot_range bs i \<inter> slot_range bs j = {}) \<and>
     read_u32 bs CHECKSUM_OFFSET = crc (zero_checksum bs)"

lemma occupy_eq:
  "distinct is \<Longrightarrow> occupy is S = (if set is \<inter> S = {} then Some (S \<union> set is) else None)"
  by (induction "is" arbitrary: S) auto

lemma unat_u16_bound: "unat (w :: u16) < 65536"
  using unat_bound [of w] by simp

lemma check_slots_ok:
  "check_slots bs upper ids S = Inr () \<longleftrightarrow>
     (\<forall>i \<in> set ids. let start = HEADER_SIZE + i * SLOT_SIZE;
          offset = unat (read_u16 bs start); len = unat (read_u16 bs (start + 2))
        in read_u16 bs (start + 4) = 0 \<and> upper \<le> offset \<and> offset + len \<le> PAGE_SIZE) \<and>
     (\<forall>i < length ids. slot_range bs (ids ! i) \<inter> S = {} \<and>
        (\<forall>j < i. slot_range bs (ids ! i) \<inter> slot_range bs (ids ! j) = {}))"
proof (induction ids arbitrary: S)
  case Nil
  then show ?case by simp
next
  case (Cons s ids)
  let ?off = "unat (read_u16 bs (HEADER_SIZE + s * SLOT_SIZE))"
  let ?len = "unat (read_u16 bs (HEADER_SIZE + s * SLOT_SIZE + 2))"
  have add: "checked_add_usize ?off ?len = Some (?off + ?len)"
    using unat_u16_bound [of "read_u16 bs (HEADER_SIZE + s * SLOT_SIZE)"]
      unat_u16_bound [of "read_u16 bs (HEADER_SIZE + s * SLOT_SIZE + 2)"]
    by (intro checked_add_usize_Some) (simp add: usize_max_def)
  note add' = add [simplified]
  have range: "set [?off..<?off + ?len] = slot_range bs s" by (simp add: slot_range_def)
  have "check_slots bs upper (s # ids) S = Inr () \<longleftrightarrow>
      (read_u16 bs (HEADER_SIZE + s * SLOT_SIZE + 4) = 0 \<and> upper \<le> ?off \<and> ?off + ?len \<le> PAGE_SIZE) \<and>
      slot_range bs s \<inter> S = {} \<and> check_slots bs upper ids (S \<union> slot_range bs s) = Inr ()"
    by (simp add: add' Let_def res_simps occupy_eq not_less slot_range_def)
  also have "\<dots> \<longleftrightarrow> (\<forall>i \<in> set (s # ids). let start = HEADER_SIZE + i * SLOT_SIZE;
          offset = unat (read_u16 bs start); len = unat (read_u16 bs (start + 2))
        in read_u16 bs (start + 4) = 0 \<and> upper \<le> offset \<and> offset + len \<le> PAGE_SIZE) \<and>
     (\<forall>i < length (s # ids). slot_range bs ((s # ids) ! i) \<inter> S = {} \<and>
        (\<forall>j < i. slot_range bs ((s # ids) ! i) \<inter> slot_range bs ((s # ids) ! j) = {}))"
    unfolding Cons.IH by (simp add: All_less_Suc2 Int_Un_distrib Let_def) blast
  finally show ?case .
qed

lemma validate_page_iff:
  assumes "length bs = PAGE_SIZE"
  shows "validate_page crc bs pid = Inr () \<longleftrightarrow> page_valid crc pid bs"
proof -
  have mul: "checked_mul_usize (unat (read_u16 bs SLOT_COUNT_OFFSET)) SLOT_SIZE =
      Some (unat (read_u16 bs SLOT_COUNT_OFFSET) * SLOT_SIZE)"
    and add: "checked_add_usize HEADER_SIZE (unat (read_u16 bs SLOT_COUNT_OFFSET) * SLOT_SIZE) =
      Some (HEADER_SIZE + unat (read_u16 bs SLOT_COUNT_OFFSET) * SLOT_SIZE)"
    using unat_u16_bound [of "read_u16 bs SLOT_COUNT_OFFSET"]
    by (auto intro!: checked_mul_usize_Some checked_add_usize_Some simp: usize_max_def)
  have slots: "check_slots bs (upper_of bs) [0..<slots_of bs] {} = Inr () \<longleftrightarrow>
      (\<forall>i < slots_of bs. slot_ok bs i) \<and>
      (\<forall>i < slots_of bs. \<forall>j < i. slot_range bs i \<inter> slot_range bs j = {})"
    unfolding check_slots_ok by (auto simp: slot_ok_def)
  have "validate_page crc bs pid = Inr () \<longleftrightarrow>
     slice 0 4 bs = page_magic \<and> read_u16 bs 4 = FILE_FORMAT_VERSION \<and>
     (\<exists>ty. page_type_try_from (bs ! 6) = Inr ty) \<and> read_u64 bs 8 = pid \<and>
     lower_of bs = HEADER_SIZE + slots_of bs * SLOT_SIZE \<and> lower_of bs \<le> upper_of bs \<and>
     upper_of bs \<le> PAGE_SIZE \<and> check_slots bs (upper_of bs) [0..<slots_of bs] {} = Inr () \<and>
     read_u32 bs CHECKSUM_OFFSET = crc (zero_checksum bs)"
    by (auto simp: validate_page_def Let_def mul add res_simps lower_of_def upper_of_def slots_of_def
        not_less)
  then show ?thesis unfolding slots page_valid_def using assms by blast
qed

section \<open>Sealing, new pages and headers\<close>

text \<open>Sealing a byte vector that is valid up to its checksum makes a valid page.\<close>

definition page_layout :: "page_id \<Rightarrow> u8 list \<Rightarrow> bool" where
  "page_layout pid bs \<longleftrightarrow>
     length bs = PAGE_SIZE \<and> slice 0 4 bs = page_magic \<and> read_u16 bs 4 = FILE_FORMAT_VERSION \<and>
     (\<exists>ty. page_type_try_from (bs ! 6) = Inr ty) \<and> read_u64 bs 8 = pid \<and>
     lower_of bs = HEADER_SIZE + slots_of bs * SLOT_SIZE \<and> lower_of bs \<le> upper_of bs \<and>
     upper_of bs \<le> PAGE_SIZE \<and>
     (\<forall>i < slots_of bs. slot_ok bs i) \<and>
     (\<forall>i < slots_of bs. \<forall>j < i. slot_range bs i \<inter> slot_range bs j = {})"

lemma page_valid_layout:
  "page_valid crc pid bs \<longleftrightarrow> page_layout pid bs \<and> read_u32 bs CHECKSUM_OFFSET = crc (zero_checksum bs)"
  unfolding page_valid_def page_layout_def by blast

text \<open>The header and the slot directory of two vectors agree outside a set of bytes.\<close>

lemma page_layout_cong:
  assumes len: "length bs = PAGE_SIZE" "length bs' = PAGE_SIZE"
    and head: "\<And>o' n. o' + n \<le> 16 \<Longrightarrow> slice o' n bs' = slice o' n bs"
    and rest: "\<And>o' n. 28 \<le> o' \<Longrightarrow> o' + n \<le> PAGE_SIZE \<Longrightarrow> slice o' n bs' = slice o' n bs"
  shows "page_layout pid bs' = page_layout pid bs"
proof -
  have count: "slots_of bs' = slots_of bs" and bounds: "lower_of bs' = lower_of bs" "upper_of bs' = upper_of bs"
    by (simp_all add: slots_of_def lower_of_def upper_of_def read_u16_def rest)
  have tag: "bs' ! 6 = bs ! 6"
    by (rule nth_slice_eq) (use len head [of 6 1] in simp_all)
  have slot: "read_u16 bs' (HEADER_SIZE + i * SLOT_SIZE) = read_u16 bs (HEADER_SIZE + i * SLOT_SIZE)"
      "read_u16 bs' (HEADER_SIZE + i * SLOT_SIZE + 2) = read_u16 bs (HEADER_SIZE + i * SLOT_SIZE + 2)"
      "read_u16 bs' (HEADER_SIZE + i * SLOT_SIZE + 4) = read_u16 bs (HEADER_SIZE + i * SLOT_SIZE + 4)"
    if "HEADER_SIZE + i * SLOT_SIZE + 6 \<le> PAGE_SIZE" for i
    using that by (simp_all add: read_u16_def rest)
  have ok: "slot_ok bs' i = slot_ok bs i" "slot_range bs' i = slot_range bs i"
    if "HEADER_SIZE + i * SLOT_SIZE + 6 \<le> PAGE_SIZE" for i
    unfolding slot_ok_def slot_range_def Let_def bounds slot [OF that] by simp_all
  let ?dir = "lower_of bs = HEADER_SIZE + slots_of bs * SLOT_SIZE \<and> lower_of bs \<le> upper_of bs \<and>
      upper_of bs \<le> PAGE_SIZE"
  have dir: "HEADER_SIZE + i * SLOT_SIZE + 6 \<le> PAGE_SIZE" if "i < slots_of bs" ?dir for i
    using that by linarith
  have slots: "(\<forall>i < slots_of bs. slot_ok bs' i) \<longleftrightarrow> (\<forall>i < slots_of bs. slot_ok bs i)"
      "(\<forall>i < slots_of bs. \<forall>j < i. slot_range bs' i \<inter> slot_range bs' j = {}) \<longleftrightarrow>
       (\<forall>i < slots_of bs. \<forall>j < i. slot_range bs i \<inter> slot_range bs j = {})" if ?dir
    using dir [OF _ that] ok by (auto simp del: disjoint_iff)
  have fields: "slice 0 4 bs' = slice 0 4 bs" "read_u16 bs' 4 = read_u16 bs 4" "read_u64 bs' 8 = read_u64 bs 8"
    by (simp_all add: read_u16_def read_u64_def head)
  show ?thesis
    unfolding page_layout_def count bounds tag fields len using slots by blast
qed

lemma page_layout_seal: "page_layout pid bs \<Longrightarrow> page_layout pid (page_seal crc bs)"
proof -
  assume l: "page_layout pid bs"
  then have len: "length bs = PAGE_SIZE" by (simp add: page_layout_def)
  have "page_layout pid (page_seal crc bs) = page_layout pid bs"
    by (rule page_layout_cong) (simp_all add: len page_simps slice_page_seal)
  with l show ?thesis by simp
qed

lemma page_valid_seal: "page_layout pid bs \<Longrightarrow> page_valid crc pid (page_seal crc bs)"
  unfolding page_valid_layout
  by (simp add: page_layout_seal) (simp add: page_layout_def page_simps)

lemma page_valid_length: "page_valid crc pid bs \<Longrightarrow> length bs = PAGE_SIZE"
  by (simp add: page_valid_def)

lemma page_set_lsn_valid:
  assumes "page_valid crc pid (pg_bytes p)"
  shows "page_valid crc pid (pg_bytes (page_set_lsn crc l p)) \<and> page_lsn (page_set_lsn crc l p) = l"
proof -
  let ?bs = "pg_bytes p"
  have len: "length ?bs = PAGE_SIZE" and lay: "page_layout pid ?bs"
    using assms by (simp_all add: page_valid_layout page_layout_def)
  have "page_layout pid (write_u64 16 l ?bs) = page_layout pid ?bs"
    by (rule page_layout_cong) (simp_all add: len page_simps slice_write_u64)
  with lay have "page_valid crc pid (page_seal crc (write_u64 16 l ?bs))" by (simp add: page_valid_seal)
  moreover have "read_u64 (page_seal crc (write_u64 16 l ?bs)) 16 = l"
    using read_write_same(2) [of 16 ?bs l]
    by (simp add: read_u64_def slice_page_seal page_simps len)
  ultimately show ?thesis by (simp add: page_set_lsn_def page_lsn_def)
qed

lemma page_new_bytes_layout:
  "page_layout pid (page_new_bytes pid ty) \<and> slots_of (page_new_bytes pid ty) = 0 \<and>
   lower_of (page_new_bytes pid ty) = HEADER_SIZE \<and> upper_of (page_new_bytes pid ty) = PAGE_SIZE"
proof -
  define b1 :: "u8 list" where "b1 = splice 0 page_magic (replicate PAGE_SIZE 0)"
  define b2 where "b2 = (write_u16 4 FILE_FORMAT_VERSION b1)[6 := page_type_byte ty, 7 := 0]"
  define b3 where "b3 = write_u64 16 0 (write_u64 8 pid b2)"
  define b4 where "b4 = write_u16 SLOT_COUNT_OFFSET 0 (write_u16 UPPER_OFFSET (of_nat PAGE_SIZE)
    (write_u16 LOWER_OFFSET (of_nat HEADER_SIZE) b3))"
  have l1: "length b1 = PAGE_SIZE" by (simp add: b1_def page_magic_def)
  then have l2: "length b2 = PAGE_SIZE" by (simp add: b2_def page_simps)
  then have l3: "length b3 = PAGE_SIZE" by (simp add: b3_def page_simps)
  then have l4: "length b4 = PAGE_SIZE" by (simp add: b4_def page_simps)
  have b4: "slice o' n b4 = slice o' n b3" if "o' + n \<le> 28" for o' n
    using that by (simp add: b4_def slice_write_u16 page_simps l3)
  have b2: "slice o' n b2 = slice o' n (write_u16 4 FILE_FORMAT_VERSION b1)" if "o' + n \<le> 6" for o' n
    using that by (simp add: b2_def slice_def take_drop)
  have b3: "slice o' n b3 = slice o' n b2" if "o' + n \<le> 8" for o' n
    using that by (simp add: b3_def slice_write_u64 page_simps l2)
  have "slice 0 4 b4 = page_magic"
    using slice_splice_same [of 0 page_magic "replicate PAGE_SIZE 0" 4]
    by (simp add: b4 b3 b2 slice_write_u16 l1) (simp add: b1_def page_magic_def)
  moreover have "read_u16 b4 4 = FILE_FORMAT_VERSION"
    using read_write_same(1) [of 4 b1 1] l1 by (simp add: read_u16_def b4 b3 b2)
  moreover have "b4 ! 6 = b2 ! 6"
    by (rule nth_slice_eq) (simp_all add: b4 b3 l4 l2)
  moreover have "read_u64 b4 8 = pid"
    using read_write_same(2) [of 8 b2 pid]
    by (simp add: read_u64_def b4 b3_def slice_write_u64 page_simps l2)
  moreover have fields: "slots_of b4 = 0" "lower_of b4 = HEADER_SIZE" "upper_of b4 = PAGE_SIZE"
    by (simp_all add: b4_def slots_of_def lower_of_def upper_of_def page_simps l3)
  ultimately have "page_layout pid b4"
    using l1 l4 by (simp add: page_layout_def) (simp add: b2_def page_simps)
  moreover have "page_new_bytes pid ty = b4"
    by (simp add: page_new_bytes_def Let_def b4_def b3_def b2_def b1_def)
  ultimately show ?thesis using fields by simp
qed

lemma page_new_valid_lemma: "page_valid crc pid (pg_bytes (page_new crc pid ty))"
  using page_valid_seal [OF conjunct1 [OF page_new_bytes_layout]] by (simp add: page_new_def)

lemma page_new_fields:
  "slot_count (page_new crc pid ty) = 0" "free_space (page_new crc pid ty) = PAGE_SIZE - HEADER_SIZE"
proof -
  have len: "length (page_new_bytes pid ty) = PAGE_SIZE"
    using page_new_bytes_layout [of pid ty] by (simp add: page_layout_def)
  then have "read_u16 (pg_bytes (page_new crc pid ty)) o' = read_u16 (page_new_bytes pid ty) o'"
    if "28 \<le> o'" "o' \<le> 32" for o'
    using that by (simp add: page_new_def read_u16_def slice_page_seal)
  with page_new_bytes_layout [of pid ty]
  show "slot_count (page_new crc pid ty) = 0" "free_space (page_new crc pid ty) = PAGE_SIZE - HEADER_SIZE"
    by (simp_all add: slot_count_def free_space_def slots_of_def lower_of_def upper_of_def unat_eq_0)
qed

section \<open>Inserting a record\<close>

lemma unat_of_nat_u16: "n < 65536 \<Longrightarrow> unat (of_nat n :: u16) = n"
  by (simp add: unat_of_nat)

lemma write_record_length:
  assumes "length bs = PAGE_SIZE" and "HEADER_SIZE \<le> lower" and "lower + 6 \<le> new_upper"
    and "new_upper + length rec \<le> PAGE_SIZE"
  shows "length (write_record lower new_upper slot_id rec bs) = PAGE_SIZE"
  using assms by (simp add: write_record_def Let_def page_simps)

lemma write_record_other:
  assumes "length bs = PAGE_SIZE" and "HEADER_SIZE \<le> lower" and "lower + 6 \<le> new_upper"
    and "new_upper + length rec \<le> PAGE_SIZE"
    and "o' + n \<le> PAGE_SIZE" and "o' + n \<le> new_upper \<or> new_upper + length rec \<le> o'"
    and "o' + n \<le> lower \<or> lower + 6 \<le> o'" and "o' + n \<le> 28 \<or> 34 \<le> o'"
  shows "slice o' n (write_record lower new_upper slot_id rec bs) = slice o' n bs"
proof -
  define b1 where "b1 = splice new_upper rec bs"
  define b2 where "b2 = write_u16 lower (of_nat new_upper) b1"
  define b3 where "b3 = write_u16 (lower + 2) (of_nat (length rec)) b2"
  define b4 where "b4 = write_u16 (lower + 4) 0 b3"
  have len: "length b1 = PAGE_SIZE" "length b2 = PAGE_SIZE" "length b3 = PAGE_SIZE" "length b4 = PAGE_SIZE"
    using assms(1-4) by (simp_all add: b1_def b2_def b3_def b4_def page_simps)
  have "slice o' n (write_record lower new_upper slot_id rec bs) = slice o' n b4"
    unfolding write_record_def Let_def b1_def [symmetric] b2_def [symmetric] b3_def [symmetric] b4_def [symmetric]
    using assms(5,8) len by (elim disjE) (simp_all add: page_simps slice_write_u16)
  also have "\<dots> = slice o' n b3"
    unfolding b4_def by (rule slice_write_u16) (use assms len in auto)
  also have "\<dots> = slice o' n b2"
    unfolding b3_def by (rule slice_write_u16) (use assms len in auto)
  also have "\<dots> = slice o' n b1"
    unfolding b2_def by (rule slice_write_u16) (use assms len in auto)
  also have "\<dots> = slice o' n bs"
    unfolding b1_def by (rule slice_splice_disjoint) (use assms in auto)
  finally show ?thesis .
qed

lemma write_record_new:
  assumes "length bs = PAGE_SIZE" and "HEADER_SIZE \<le> lower" and "lower + 6 \<le> new_upper"
    and "new_upper + length rec \<le> PAGE_SIZE"
  shows "slice new_upper (length rec) (write_record lower new_upper slot_id rec bs) = rec"
    and "read_u16 (write_record lower new_upper slot_id rec bs) lower = of_nat new_upper"
    and "read_u16 (write_record lower new_upper slot_id rec bs) (lower + 2) = of_nat (length rec)"
    and "read_u16 (write_record lower new_upper slot_id rec bs) (lower + 4) = 0"
    and "read_u16 (write_record lower new_upper slot_id rec bs) 28 = of_nat (lower + 6)"
    and "read_u16 (write_record lower new_upper slot_id rec bs) 30 = of_nat new_upper"
    and "read_u16 (write_record lower new_upper slot_id rec bs) 32 = slot_id + 1"
  using assms
  by (simp_all add: write_record_def Let_def page_simps slice_write_u16 slice_splice_same)

lemma page_insert_correct_lemma:
  assumes valid: "page_valid crc pid (pg_bytes p)" and fit: "can_fit p (length rec)"
  defines "bs \<equiv> pg_bytes p"
  defines "bs' \<equiv> write_record (lower_of bs) (upper_of bs - length rec) (slot_count p) rec bs"
  shows "page_insert crc rec p = (Inr (Some (slot_count p)), p\<lparr>pg_bytes := page_seal crc bs'\<rparr>)"
    and "page_layout pid bs'" and "slots_of bs' = Suc (slots_of bs)"
    and "lower_of bs' = lower_of bs + 6" and "upper_of bs' = upper_of bs - length rec"
    and "read_u16 bs' (lower_of bs) = of_nat (upper_of bs - length rec)"
    and "read_u16 bs' (lower_of bs + 2) = of_nat (length rec)"
    and "slice (upper_of bs - length rec) (length rec) bs' = rec"
    and "\<And>o' n. o' + n \<le> PAGE_SIZE \<Longrightarrow> o' + n \<le> 28 \<or> (34 \<le> o' \<and> o' + n \<le> lower_of bs) \<or> upper_of bs \<le> o' \<Longrightarrow>
      slice o' n bs' = slice o' n bs"
proof -
  have len: "length bs = PAGE_SIZE" and low: "lower_of bs = HEADER_SIZE + slots_of bs * SLOT_SIZE"
    and bounds: "lower_of bs \<le> upper_of bs" "upper_of bs \<le> PAGE_SIZE"
    using valid by (simp_all add: bs_def page_valid_def)
  from fit have room: "lower_of bs + 6 + length rec \<le> upper_of bs" and small: "length rec \<le> 65535"
    by (auto simp: can_fit_def free_space_def bs_def lower_of_def upper_of_def Let_def
        dest: checked_add_usize_SomeD split: option.splits)
  let ?nu = "upper_of bs - length rec"
  have pre: "length bs = PAGE_SIZE" "HEADER_SIZE \<le> lower_of bs" "lower_of bs + 6 \<le> ?nu"
    "?nu + length rec \<le> PAGE_SIZE"
    using len low bounds room by auto
  note new = write_record_new [OF pre, of "slot_count p", folded bs'_def]
  have slots: "slots_of bs < 65535" using low bounds by simp
  show ins: "page_insert crc rec p = (Inr (Some (slot_count p)), p\<lparr>pg_bytes := page_seal crc bs'\<rparr>)"
    using fit room small by (simp add: page_insert_def Let_def bs'_def bs_def lower_of_def upper_of_def)
  have "unat (read_u16 bs 32 + 1) = Suc (slots_of bs)"
    using slots by (simp add: slots_of_def unat_word_ariths)
  then show count: "slots_of bs' = Suc (slots_of bs)"
    by (simp add: slots_of_def new slot_count_def bs_def)
  show lo: "lower_of bs' = lower_of bs + 6" and up: "upper_of bs' = ?nu"
    unfolding lower_of_def [of bs'] upper_of_def [of bs'] new
    by (rule unat_of_nat_u16, use bounds pre in linarith)+
  show "read_u16 bs' (lower_of bs) = of_nat ?nu" "read_u16 bs' (lower_of bs + 2) = of_nat (length rec)"
    "slice ?nu (length rec) bs' = rec"
    by (rule new)+
  show other: "slice o' n bs' = slice o' n bs"
    if "o' + n \<le> PAGE_SIZE" "o' + n \<le> 28 \<or> (34 \<le> o' \<and> o' + n \<le> lower_of bs) \<or> upper_of bs \<le> o'" for o' n
    unfolding bs'_def by (rule write_record_other [OF pre that(1)]) (use that pre room in auto)
  have len': "length bs' = PAGE_SIZE" unfolding bs'_def by (rule write_record_length [OF pre])
  have tag: "bs' ! 6 = bs ! 6" by (rule nth_slice_eq) (simp_all add: len len' other)
  have dir: "read_u16 bs' (HEADER_SIZE + i * SLOT_SIZE) = read_u16 bs (HEADER_SIZE + i * SLOT_SIZE)"
      "read_u16 bs' (HEADER_SIZE + i * SLOT_SIZE + 2) = read_u16 bs (HEADER_SIZE + i * SLOT_SIZE + 2)"
      "read_u16 bs' (HEADER_SIZE + i * SLOT_SIZE + 4) = read_u16 bs (HEADER_SIZE + i * SLOT_SIZE + 4)"
    if "i < slots_of bs" for i
    using that low bounds pre by (simp_all add: read_u16_def other)
  have range: "slot_range bs' i = slot_range bs i" if "i < slots_of bs" for i
    unfolding slot_range_def dir [OF that] ..
  have new_u: "unat (read_u16 bs' (lower_of bs)) = ?nu" "unat (read_u16 bs' (lower_of bs + 2)) = length rec"
    unfolding new by (rule unat_of_nat_u16, use bounds small in linarith)+
  have last_range: "slot_range bs' (slots_of bs) = {?nu ..< upper_of bs}"
    unfolding slot_range_def low [symmetric] new_u using pre by simp
  have old_ok: "slot_ok bs i" if "i < slots_of bs" for i
    using valid that by (simp add: bs_def page_valid_def)
  then have above: "slot_range bs i \<subseteq> {upper_of bs ..< PAGE_SIZE}" if "i < slots_of bs" for i
    using that by (auto simp: slot_ok_def slot_range_def Let_def dest!: old_ok)
  have "slot_ok bs' i" if "i < Suc (slots_of bs)" for i
  proof (cases "i = slots_of bs")
    case True
    show ?thesis
      unfolding slot_ok_def True low [symmetric] up Let_def new_u new(4) using pre by simp
  next
    case False
    with that have "i < slots_of bs" by simp
    with old_ok [OF this] room show ?thesis
      unfolding slot_ok_def up Let_def dir [OF \<open>i < slots_of bs\<close>] by linarith
  qed
  moreover have "slot_range bs' i \<inter> slot_range bs' j = {}" if "i < Suc (slots_of bs)" "j < i" for i j
  proof (cases "i = slots_of bs")
    case True
    with that have "slot_range bs' j \<subseteq> {upper_of bs ..< PAGE_SIZE}" using range above by simp
    then show ?thesis unfolding True last_range by fastforce
  next
    case False
    with that have "i < slots_of bs" "j < slots_of bs" by simp_all
    with that valid show ?thesis by (simp add: range bs_def page_valid_def)
  qed
  moreover have "slice 0 4 bs' = page_magic" "read_u16 bs' 4 = FILE_FORMAT_VERSION" "read_u64 bs' 8 = pid"
      "\<exists>ty. page_type_try_from (bs' ! 6) = Inr ty"
    using valid by (simp_all add: read_u16_def read_u64_def other tag bs_def page_valid_def)
  ultimately show "page_layout pid bs'"
    unfolding page_layout_def count lo up using len' low pre bounds by simp
qed

lemma page_record_eq:
  assumes "i < slot_count p"
  shows "page_record p i = Inr (slice (unat (read_u16 (pg_bytes p) (HEADER_SIZE + unat i * SLOT_SIZE)))
    (unat (read_u16 (pg_bytes p) (HEADER_SIZE + unat i * SLOT_SIZE + 2))) (pg_bytes p))"
proof -
  from assms have "\<not> slot_count p \<le> i" by simp
  then show ?thesis by (simp only: page_record_def page_slot_def Let_def guard_res_simps
      try_bind_simps slot.simps simp_thms)
qed

section \<open>Properties\<close>

text \<open>
  \<open>validate\<close> accepts a byte vector of the size of a page exactly if the magic, the
  version, the page type and the page id are right, the free space lies between the slot
  directory and the records, every slot has no flags and a range inside the record area, no
  two records share a byte, and the checksum is that of the bytes with a zeroed checksum
  field. In particular every record of a page that was accepted can be read in bounds.
\<close>

lemma page_from_bytes_correct:
  "(page_from_bytes crc bs pid = Inr p \<longleftrightarrow> page_valid crc pid bs \<and> p = \<lparr>pg_bytes = bs\<rparr>) \<and>
   (page_from_bytes crc bs pid = Inr p \<longrightarrow> i < slot_count p \<longrightarrow>
      (\<exists>off n. off + n \<le> PAGE_SIZE \<and> page_record p i = Inr (slice off n bs)))"
proof (intro conjI impI)
  have v: "page_from_bytes crc bs pid = Inr p \<longleftrightarrow> page_valid crc pid bs \<and> p = \<lparr>pg_bytes = bs\<rparr>"
    using validate_page_iff [of bs crc pid] by (auto simp: page_from_bytes_def res_simps page_valid_length)
  then show "page_from_bytes crc bs pid = Inr p \<longleftrightarrow> page_valid crc pid bs \<and> p = \<lparr>pg_bytes = bs\<rparr>" .
  assume "page_from_bytes crc bs pid = Inr p" and i: "i < slot_count p"
  with v have "page_valid crc pid bs" and p: "p = \<lparr>pg_bytes = bs\<rparr>" by simp_all
  then have "slot_ok bs (unat i)"
    using i by (simp add: page_valid_def slots_of_def slot_count_def word_less_nat_alt)
  with page_record_eq [OF i] show "\<exists>off n. off + n \<le> PAGE_SIZE \<and> page_record p i = Inr (slice off n bs)"
    by (auto simp: p slot_ok_def Let_def)
qed

text \<open>
  A new page, for any checksum function, page id and type, is accepted by \<open>from_bytes\<close>
  under its id and reads back as the same page: empty, with LSN 0 and the given type.
\<close>

lemma page_new_roundtrip:
  "page_from_bytes crc (sealed_bytes (page_new crc pid ty)) pid = Inr (page_new crc pid ty) \<and>
   page_id_of (page_new crc pid ty) = pid"
proof -
  have v: "page_valid crc pid (pg_bytes (page_new crc pid ty))" by (rule page_new_valid_lemma)
  then have "validate_page crc (pg_bytes (page_new crc pid ty)) pid = Inr ()"
    using validate_page_iff page_valid_length by blast
  with v show ?thesis
    by (simp add: page_from_bytes_def sealed_bytes_def page_id_of_def page_valid_def)
qed

text \<open>
  C15. Inserting a record into a valid page. If it does not fit nothing changes. Otherwise
  it becomes the record of the next slot, every earlier slot reads as before, page id and
  LSN stay, the free space shrinks by the record and its slot, and the page is valid again,
  so that it survives \<open>sealed_bytes\<close> and \<open>from_bytes\<close>.
\<close>

theorem page_insert_correct:
  assumes valid: "page_valid crc pid (pg_bytes p)" and "page_insert crc rec p = (r, p')"
  shows "if \<not> can_fit p (length rec) then r = Inr None \<and> p' = p
    else r = Inr (Some (slot_count p)) \<and> page_valid crc pid (pg_bytes p') \<and>
      page_from_bytes crc (sealed_bytes p') pid = Inr p' \<and>
      slot_count p' = slot_count p + 1 \<and> page_record p' (slot_count p) = Inr rec \<and>
      (\<forall>i < slot_count p. page_record p' i = page_record p i) \<and>
      page_lsn p' = page_lsn p \<and> free_space p' + length rec + SLOT_SIZE = free_space p"
proof (cases "can_fit p (length rec)")
  case False
  with assms(2) show ?thesis by (simp add: page_insert_def)
next
  case True
  note ins = page_insert_correct_lemma [OF valid True]
  define bs where "bs = pg_bytes p"
  define bs' where "bs' = write_record (lower_of bs) (upper_of bs - length rec) (slot_count p) rec bs"
  note ins = ins [folded bs_def, folded bs'_def]
  have r: "r = Inr (Some (slot_count p))" and p': "p' = p\<lparr>pg_bytes := page_seal crc bs'\<rparr>"
    using ins(1) assms(2) by simp_all
  have len': "length bs' = PAGE_SIZE" using ins(2) by (simp add: page_layout_def)
  have sealed: "slice o' n (pg_bytes p') = slice o' n bs'" if "o' + n \<le> PAGE_SIZE" "o' + n \<le> 24 \<or> 28 \<le> o'" for o' n
    using that len' by (simp add: p' slice_page_seal)
  have v': "page_valid crc pid (pg_bytes p')"
    using page_valid_seal [OF ins(2)] by (simp add: p')
  have low: "lower_of bs = HEADER_SIZE + slots_of bs * SLOT_SIZE" "lower_of bs \<le> upper_of bs" "upper_of bs \<le> PAGE_SIZE"
    and ok: "\<And>i. i < slots_of bs \<Longrightarrow> slot_ok bs i"
    using valid by (simp_all add: bs_def page_valid_def)
  have room: "lower_of bs + 6 + length rec \<le> upper_of bs" and small: "length rec < 65536"
    using True by (auto simp: can_fit_def free_space_def bs_def lower_of_def upper_of_def Let_def
        dest: checked_add_usize_SomeD split: option.splits)
  have "read_u16 (pg_bytes p') 32 = read_u16 bs' 32" by (simp add: read_u16_def sealed)
  then have count: "unat (slot_count p') = Suc (unat (slot_count p))"
    using ins(3) by (simp add: slot_count_def slots_of_def bs_def)
  have "unat (slot_count p) = slots_of bs" by (simp add: slots_of_def slot_count_def bs_def)
  with low have "unat (slot_count p) + 1 < 65536" by simp
  then have "unat (slot_count p + 1) = unat (slot_count p) + 1" by (simp add: unat_word_ariths)
  with count have cnt: "slot_count p' = slot_count p + 1"
    using unat_eq_iff [of "slot_count p'" "slot_count p + 1"] by simp
  have entry: "unat (read_u16 (pg_bytes p') (HEADER_SIZE + i * SLOT_SIZE + d)) = unat (read_u16 bs' (HEADER_SIZE + i * SLOT_SIZE + d))"
    if "i < Suc (slots_of bs)" "d \<le> 4" for i d
    using that low room by (simp add: read_u16_def sealed)
  have raw: "unat (read_u16 bs' (lower_of bs)) = upper_of bs - length rec"
    "unat (read_u16 bs' (lower_of bs + 2)) = length rec"
    unfolding ins(6,7) by (rule unat_of_nat_u16, use low small in linarith)+
  have new: "unat (read_u16 (pg_bytes p') (HEADER_SIZE + slots_of bs * SLOT_SIZE)) = upper_of bs - length rec"
    "unat (read_u16 (pg_bytes p') (HEADER_SIZE + slots_of bs * SLOT_SIZE + 2)) = length rec"
    using entry [of "slots_of bs" 0] entry [of "slots_of bs" 2] raw unfolding low(1) by simp_all
  have "page_record p' (slot_count p) = Inr rec"
  proof -
    have "slot_count p < slot_count p'" using count by (simp add: word_less_nat_alt)
    from page_record_eq [OF this] new show ?thesis
      using ins(8) sealed [of "upper_of bs - length rec" "length rec"] low room
      by (simp add: slots_of_def bs_def slot_count_def)
  qed
  moreover have "page_record p' i = page_record p i" if i: "i < slot_count p" for i
  proof -
    have si: "unat i < slots_of bs" using i by (simp add: slots_of_def slot_count_def bs_def word_less_nat_alt)
    have "i < slot_count p'" using i count by (simp add: word_less_nat_alt)
    from page_record_eq [OF this] page_record_eq [OF i] show ?thesis
      using ok [OF si] si low room ins(9) entry [of "unat i" 0] entry [of "unat i" 2]
      by (simp add: slot_ok_def Let_def sealed read_u16_def bs_def [symmetric])
  qed
  moreover have "page_lsn p' = page_lsn p"
    using ins(9) [of 16 8] by (simp add: page_lsn_def read_u64_def sealed bs_def)
  moreover have "free_space p' + length rec + SLOT_SIZE = free_space p"
  proof -
    have "lower_of (pg_bytes p') = lower_of bs'" "upper_of (pg_bytes p') = upper_of bs'"
      by (simp_all add: lower_of_def upper_of_def read_u16_def sealed)
    with ins(4,5) room show ?thesis
      by (simp add: free_space_def Let_def lower_of_def [symmetric] upper_of_def [symmetric] bs_def [symmetric])
  qed
  moreover have "page_from_bytes crc (sealed_bytes p') pid = Inr p'"
    using v' page_valid_length [OF v'] validate_page_iff [OF page_valid_length [OF v'], of crc pid]
    by (simp add: page_from_bytes_def sealed_bytes_def)
  ultimately show ?thesis using True r v' cnt by simp
qed

lemma page_insert_correct_witness:
  "\<exists>p'. page_insert (\<lambda>_. 0) [7, 8] (page_new (\<lambda>_. 0) 3 Heap) = (Inr (Some 0), p') \<and> page_record p' 0 = Inr [7, 8]"
proof -
  let ?p = "page_new (\<lambda>_. 0) 3 Heap"
  have "can_fit ?p (length [7, 8 :: u8])"
    by (simp add: can_fit_def page_new_fields usize_max_def)
  with page_insert_correct [where rec = "[7, 8]" and p = ?p and crc = "\<lambda>_. 0" and pid = 3,
      OF page_new_valid_lemma surjective_pairing]
  show ?thesis
    by (intro exI [of _ "snd (page_insert (\<lambda>_. 0) [7, 8] ?p)"]) (simp add: page_new_fields prod_eq_iff)
qed

lemma page_from_bytes_correct_witness:
  "\<exists>p. page_from_bytes (\<lambda>_. 0) (sealed_bytes (page_new (\<lambda>_. 0) 3 Heap)) 3 = Inr p"
  using page_from_bytes_correct [of "\<lambda>_. 0" "sealed_bytes (page_new (\<lambda>_. 0) 3 Heap)" 3 "page_new (\<lambda>_. 0) 3 Heap" 0]
    page_new_valid_lemma [of "\<lambda>_. 0" 3 Heap]
  by (auto simp: sealed_bytes_def)

end
