(* ===== verification/Reader.thy ===== *)
theory Reader
  imports OrdaBase
begin

text \<open>
  Readers: functions that take a value off a byte vector with a cursor, as the decoders of
  tuple.rs and record.rs do (the \<open>Cursor\<close> of crates/ordadb-storage/src/tuple.rs is here), with
  two rule sets. \<open>reads\<close> says that a reader takes exactly the bytes an encoder wrote, wherever
  they stand; \<open>local_reader\<close> that it looks at no byte behind those it takes.
\<close>

section \<open>The cursor\<close>

record cursor =
  cu_bytes :: "u8 list"
  cu_offset :: nat

type_synonym 'a reader = "cursor \<Rightarrow> ('a \<times> cursor) res"

definition rd_return :: "'a \<Rightarrow> 'a reader" where
  "rd_return x cur = Inr (x, cur)"

definition rd_bind :: "'a reader \<Rightarrow> ('a \<Rightarrow> 'b reader) \<Rightarrow> 'b reader" where
  "rd_bind f g cur = try_bind (f cur) (\<lambda>(x, cur'). g x cur')"

definition rd_lift :: "'a res \<Rightarrow> 'a reader" where
  "rd_lift r cur = try_bind r (\<lambda>x. Inr (x, cur))"

definition ensure_remaining :: "nat \<Rightarrow> unit reader" where
  "ensure_remaining needed cur =
     (let remaining = length (cu_bytes cur) - cu_offset cur
      in if remaining < needed then Inl E_XX001 else Inr ((), cur))"

definition read_array :: "nat \<Rightarrow> u8 list reader" where
  "read_array n cur =
     try_bind (ensure_remaining n cur) (\<lambda>_.
       Inr (slice (cu_offset cur) n (cu_bytes cur), cur\<lparr>cu_offset := cu_offset cur + n\<rparr>))"

definition read_u8 :: "u8 reader" where
  "read_u8 = rd_bind (read_array 1) (\<lambda>bs. rd_return (bs ! 0))"

definition read_word16 :: "u16 reader" where
  "read_word16 = rd_bind (read_array 2) (\<lambda>bs. rd_return (from_le_u16 bs))"

definition read_word32 :: "u32 reader" where
  "read_word32 = rd_bind (read_array 4) (\<lambda>bs. rd_return (from_le_u32 bs))"

definition read_word64 :: "u64 reader" where
  "read_word64 = rd_bind (read_array 8) (\<lambda>bs. rd_return (from_le_u64 bs))"

definition cursor_new :: "u8 list \<Rightarrow> cursor" where
  "cursor_new bs = \<lparr>cu_bytes = bs, cu_offset = 0\<rparr>"

definition cursor_finished :: "cursor \<Rightarrow> bool" where
  "cursor_finished cur = (cu_offset cur = length (cu_bytes cur))"

definition finish_decoding :: "'a reader \<Rightarrow> u8 list \<Rightarrow> 'a res" where
  "finish_decoding f bs =
     try_bind (f (cursor_new bs)) (\<lambda>(x, cur). guard_res (\<not> cursor_finished cur) E_XX001 (Inr x))"

section \<open>Readers that read what was written\<close>

text \<open>\<open>reads f x enc\<close>: wherever the bytes \<open>enc\<close> stand, the reader takes exactly them and returns \<open>x\<close>.\<close>

definition reads :: "'a reader \<Rightarrow> 'a \<Rightarrow> u8 list \<Rightarrow> bool" where
  "reads f x enc \<longleftrightarrow> (\<forall>pre post. f \<lparr>cu_bytes = pre @ enc @ post, cu_offset = length pre\<rparr> =
     Inr (x, \<lparr>cu_bytes = pre @ enc @ post, cu_offset = length pre + length enc\<rparr>))"

named_theorems reads_intros "rules that compose readers"

lemma reads_return [reads_intros]: "reads (rd_return x) x []"
  by (simp add: reads_def rd_return_def)

lemma reads_lift [reads_intros]: "reads (rd_lift (Inr x)) x []"
  by (simp add: reads_def rd_lift_def)

lemma reads_bind:
  assumes "reads f x e1" and "reads (g x) y e2"
  shows "reads (rd_bind f g) y (e1 @ e2)"
  unfolding reads_def
proof (intro allI)
  fix pre post
  have "f \<lparr>cu_bytes = pre @ e1 @ (e2 @ post), cu_offset = length pre\<rparr> =
      Inr (x, \<lparr>cu_bytes = pre @ e1 @ (e2 @ post), cu_offset = length pre + length e1\<rparr>)"
    using assms(1) unfolding reads_def by blast
  moreover have "g x \<lparr>cu_bytes = (pre @ e1) @ e2 @ post, cu_offset = length (pre @ e1)\<rparr> =
      Inr (y, \<lparr>cu_bytes = (pre @ e1) @ e2 @ post, cu_offset = length (pre @ e1) + length e2\<rparr>)"
    using assms(2) unfolding reads_def by blast
  ultimately show "rd_bind f g \<lparr>cu_bytes = pre @ (e1 @ e2) @ post, cu_offset = length pre\<rparr> =
      Inr (y, \<lparr>cu_bytes = pre @ (e1 @ e2) @ post, cu_offset = length pre + length (e1 @ e2)\<rparr>)"
    by (simp add: rd_bind_def)
qed

lemma reads_bind_last: "reads f x e \<Longrightarrow> reads (g x) y [] \<Longrightarrow> reads (rd_bind f g) y e"
  using reads_bind [of f x e g y "[]"] by simp

lemma reads_bind_first: "reads f x [] \<Longrightarrow> reads (g x) y e \<Longrightarrow> reads (rd_bind f g) y e"
  using reads_bind [of f x "[]" g y e] by simp

lemma reads_array [reads_intros]: "length e = n \<Longrightarrow> reads (read_array n) e e"
  by (auto simp: reads_def read_array_def ensure_remaining_def slice_def Let_def)

lemma reads_u8 [reads_intros]: "reads read_u8 b [b]"
  unfolding read_u8_def by (rule reads_bind_last [OF reads_array]) (simp_all add: reads_def rd_return_def)

lemma reads_word16 [reads_intros]: "reads read_word16 w (to_le_u16 w)"
  unfolding read_word16_def by (rule reads_bind_last [OF reads_array]) (simp_all add: reads_def rd_return_def)

lemma reads_word32 [reads_intros]: "reads read_word32 w (to_le_u32 w)"
  unfolding read_word32_def by (rule reads_bind_last [OF reads_array]) (simp_all add: reads_def rd_return_def)

lemma reads_word64 [reads_intros]: "reads read_word64 w (to_le_u64 w)"
  unfolding read_word64_def by (rule reads_bind_last [OF reads_array]) (simp_all add: reads_def rd_return_def)

lemma reads_ensure:
  assumes "reads g x e" and "n \<le> length e"
  shows "reads (rd_bind (ensure_remaining n) (\<lambda>_. g)) x e"
  using assms by (simp add: reads_def rd_bind_def ensure_remaining_def Let_def)

section \<open>Readers only look at the bytes they take\<close>

definition local_reader :: "'a reader \<Rightarrow> bool" where
  "local_reader f \<longleftrightarrow> (\<forall>bs off x cur ws. f \<lparr>cu_bytes = bs, cu_offset = off\<rparr> = Inr (x, cur) \<longrightarrow> off \<le> length bs \<longrightarrow>
     (\<exists>off'. cur = \<lparr>cu_bytes = bs, cu_offset = off'\<rparr> \<and> off \<le> off' \<and> off' \<le> length bs \<and>
       f \<lparr>cu_bytes = bs @ ws, cu_offset = off\<rparr> = Inr (x, \<lparr>cu_bytes = bs @ ws, cu_offset = off'\<rparr>)))"

named_theorems local_intros "readers that are local"

lemma local_return [local_intros]: "local_reader (rd_return x)"
  by (simp add: local_reader_def rd_return_def)

lemma local_lift [local_intros]: "local_reader (rd_lift r)"
  by (auto simp: local_reader_def rd_lift_def res_simps)

lemma local_bind [local_intros]:
  assumes f: "local_reader f" and g: "\<And>x. local_reader (g x)"
  shows "local_reader (rd_bind f g)"
  unfolding local_reader_def
proof (intro allI impI)
  fix bs off y cur ws
  assume r: "rd_bind f g \<lparr>cu_bytes = bs, cu_offset = off\<rparr> = Inr (y, cur)" and off: "off \<le> length bs"
  then obtain x cur1 where x: "f \<lparr>cu_bytes = bs, cu_offset = off\<rparr> = Inr (x, cur1)" and y: "g x cur1 = Inr (y, cur)"
    by (auto simp: rd_bind_def res_simps)
  from f x off obtain off1 where 1: "cur1 = \<lparr>cu_bytes = bs, cu_offset = off1\<rparr>" "off \<le> off1" "off1 \<le> length bs"
    "f \<lparr>cu_bytes = bs @ ws, cu_offset = off\<rparr> = Inr (x, \<lparr>cu_bytes = bs @ ws, cu_offset = off1\<rparr>)"
    unfolding local_reader_def by blast
  from g [of x] y 1 obtain off2 where 2: "cur = \<lparr>cu_bytes = bs, cu_offset = off2\<rparr>" "off1 \<le> off2" "off2 \<le> length bs"
    "g x \<lparr>cu_bytes = bs @ ws, cu_offset = off1\<rparr> = Inr (y, \<lparr>cu_bytes = bs @ ws, cu_offset = off2\<rparr>)"
    unfolding local_reader_def by blast
  from 1 2 show "\<exists>off'. cur = \<lparr>cu_bytes = bs, cu_offset = off'\<rparr> \<and> off \<le> off' \<and> off' \<le> length bs \<and>
      rd_bind f g \<lparr>cu_bytes = bs @ ws, cu_offset = off\<rparr> = Inr (y, \<lparr>cu_bytes = bs @ ws, cu_offset = off'\<rparr>)"
    by (intro exI [of _ off2]) (simp add: rd_bind_def)
qed

lemma local_ensure [local_intros]: "local_reader (ensure_remaining n)"
  by (auto simp: local_reader_def ensure_remaining_def Let_def split: if_splits)

lemma local_array [local_intros]: "local_reader (read_array n)"
  by (auto simp: local_reader_def read_array_def ensure_remaining_def Let_def slice_append_left split: if_splits)

lemma local_words [local_intros]:
  "local_reader read_u8" "local_reader read_word16" "local_reader read_word32" "local_reader read_word64"
  unfolding read_u8_def read_word16_def read_word32_def read_word64_def
  by (intro local_intros)+

lemma finish_prefix_free:
  assumes "local_reader f" and "finish_decoding f bs = Inr x" and "finish_decoding f (bs @ ws) = Inr y"
  shows "ws = [] \<and> x = y"
proof -
  from assms(2) obtain cur where 1: "f \<lparr>cu_bytes = bs, cu_offset = 0\<rparr> = Inr (x, cur)" "cursor_finished cur"
    by (auto simp: finish_decoding_def cursor_new_def res_simps)
  with assms(1) obtain off' where "cur = \<lparr>cu_bytes = bs, cu_offset = off'\<rparr>"
    and 2: "f \<lparr>cu_bytes = bs @ ws, cu_offset = 0\<rparr> = Inr (x, \<lparr>cu_bytes = bs @ ws, cu_offset = off'\<rparr>)"
    unfolding local_reader_def by blast
  with 1 have "off' = length bs" by (simp add: cursor_finished_def)
  with 2 assms(3) show ?thesis
    by (simp add: finish_decoding_def cursor_new_def cursor_finished_def res_simps)
qed

end
