(* ===== verification/Tuple.thy ===== *)
theory Tuple
  imports Ids Reader
begin

text \<open>
  The tuple codec, crates/ordadb-storage/src/tuple.rs: rows of typed values to bytes and back,
  with the version 2 header that carries the transaction ids of MVCC.

  \<^item> Integers are words, floats their bit patterns, text its UTF-8 bytes (\<open>str::from_utf8\<close>
    is \<open>utf8_valid\<close>), a UUID its 16 bytes, an interval its three fields.
  \<^item> Decimals (rust_decimal), dates and times (chrono), JSON and arrays (serde_json) are type
    parameters; the functions the code calls on them are the fields of \<open>value_codec\<close>. Nothing
    is assumed of them in general: \<open>reads_back\<close> says of one value that they read back what they have
    written for it (serde_json does not promise this of every float, and writes NaN as null).
  \<^item> The cursor (theory Reader) is the byte vector and an offset. A failed read ends the decoding, so a
    reader returns its value with the new cursor or an error.
\<close>

section \<open>UTF-8\<close>

definition cont_byte :: "u8 \<Rightarrow> bool" where
  "cont_byte b = (0x80 \<le> b \<and> b \<le> 0xBF)"

fun utf8_valid :: "u8 list \<Rightarrow> bool" where
  "utf8_valid [] = True"
| "utf8_valid (a # bs) =
     (if a < 0x80 then utf8_valid bs
      else if 0xC2 \<le> a \<and> a \<le> 0xDF then
        (case bs of b # bs' \<Rightarrow> cont_byte b \<and> utf8_valid bs' | _ \<Rightarrow> False)
      else if 0xE0 \<le> a \<and> a \<le> 0xEF then
        (case bs of b # c # bs' \<Rightarrow>
           (if a = 0xE0 then 0xA0 \<le> b \<and> b \<le> 0xBF
            else if a = 0xED then 0x80 \<le> b \<and> b \<le> 0x9F
            else cont_byte b) \<and> cont_byte c \<and> utf8_valid bs'
         | _ \<Rightarrow> False)
      else if 0xF0 \<le> a \<and> a \<le> 0xF4 then
        (case bs of b # c # d # bs' \<Rightarrow>
           (if a = 0xF0 then 0x90 \<le> b \<and> b \<le> 0xBF
            else if a = 0xF4 then 0x80 \<le> b \<and> b \<le> 0x8F
            else cont_byte b) \<and> cont_byte c \<and> cont_byte d \<and> utf8_valid bs'
         | _ \<Rightarrow> False)
      else False)"

section \<open>Values and headers\<close>

datatype ('dec, 'date, 'time, 'ts, 'arr, 'json) pg_value =
    VNull
  | VBoolean bool
  | VInt16 u16
  | VInt32 u32
  | VInt64 u64
  | VFloat32 u32
  | VFloat64 u64
  | VDecimal 'dec
  | VText "u8 list"
  | VBinary "u8 list"
  | VDate 'date
  | VTime 'time
  | VTimestamp 'ts
  | VInterval u32 u32 u64
  | VArray 'arr
  | VJson 'json
  | VJsonb 'json
  | VUuid "u8 list"
  | VVector "u32 list"

record ('dec, 'date, 'time, 'ts, 'arr, 'json) value_codec =
  decimal_serialize :: "'dec \<Rightarrow> u8 list"
  decimal_deserialize :: "u8 list \<Rightarrow> 'dec"
  date_num_days :: "'date \<Rightarrow> u32"
  date_from_num_days :: "u32 \<Rightarrow> 'date option"
  time_seconds :: "'time \<Rightarrow> u32"
  time_nanosecond :: "'time \<Rightarrow> u32"
  time_from_parts :: "u32 \<Rightarrow> u32 \<Rightarrow> 'time option"
  timestamp_seconds :: "'ts \<Rightarrow> u64"
  timestamp_subsec :: "'ts \<Rightarrow> u32"
  timestamp_from_parts :: "u64 \<Rightarrow> u32 \<Rightarrow> 'ts option"
  array_to_vec :: "'arr \<Rightarrow> u8 list option"
  array_from_slice :: "u8 list \<Rightarrow> 'arr option"
  array_validated :: "'arr \<Rightarrow> 'arr option"
  json_to_vec :: "'json \<Rightarrow> u8 list option"
  json_from_slice :: "u8 list \<Rightarrow> 'json option"

record tuple_header =
  th_flags :: u16
  th_column_count :: u16
  th_xmin :: u64
  th_xmax :: u64
  th_command_id :: u32
  th_previous_version :: u32

abbreviation (input) TUPLE_FORMAT_V2 :: u16 where "TUPLE_FORMAT_V2 \<equiv> 2"
abbreviation (input) TUPLE_HEADER_V2_BYTES :: u16 where "TUPLE_HEADER_V2_BYTES \<equiv> 32"
abbreviation (input) FROZEN_TRANSACTION_ID :: u64 where "FROZEN_TRANSACTION_ID \<equiv> 2"

definition value_count :: "'v list \<Rightarrow> u16 res" where
  "value_count row = (if length row < 65536 then Inr (of_nat (length row)) else Inl E_XX001)"

definition header_frozen :: "'v list \<Rightarrow> tuple_header res" where
  "header_frozen row =
     try_bind (value_count row) (\<lambda>n.
       Inr \<lparr>th_flags = 0, th_column_count = n, th_xmin = FROZEN_TRANSACTION_ID, th_xmax = 0,
            th_command_id = 0, th_previous_version = 0\<rparr>)"

definition header_validate :: "tuple_header \<Rightarrow> tuple_header res" where
  "header_validate h =
     guard_res (th_flags h \<noteq> 0) E_XX001 (guard_res (th_xmin h = 0) E_XX001 (Inr h))"

section \<open>Encoding\<close>

definition length_prefixed :: "u8 list \<Rightarrow> u8 list res" where
  "length_prefixed payload =
     (if length payload < 2 ^ 32 then Inr (to_le_u32 (of_nat (length payload)) @ payload)
      else Inl E_XX001)"

text \<open>The bytes that \<open>encode_value\<close> appends.\<close>

fun encode_value ::
  "('dec, 'date, 'time, 'ts, 'arr, 'json) value_codec \<Rightarrow>
   ('dec, 'date, 'time, 'ts, 'arr, 'json) pg_value \<Rightarrow> u8 list res" where
  "encode_value c VNull = Inr [0]"
| "encode_value c (VBoolean b) = Inr [1, if b then 1 else 0]"
| "encode_value c (VInt16 i) = Inr (2 # to_le_u16 i)"
| "encode_value c (VInt32 i) = Inr (3 # to_le_u32 i)"
| "encode_value c (VInt64 i) = Inr (4 # to_le_u64 i)"
| "encode_value c (VFloat32 f) = Inr (5 # to_le_u32 f)"
| "encode_value c (VFloat64 f) = Inr (6 # to_le_u64 f)"
| "encode_value c (VDecimal d) = Inr (7 # decimal_serialize c d)"
| "encode_value c (VText t) = try_bind (length_prefixed t) (\<lambda>p. Inr (8 # p))"
| "encode_value c (VBinary b) = try_bind (length_prefixed b) (\<lambda>p. Inr (9 # p))"
| "encode_value c (VDate d) = Inr (10 # to_le_u32 (date_num_days c d))"
| "encode_value c (VTime t) = Inr (11 # to_le_u32 (time_seconds c t) @ to_le_u32 (time_nanosecond c t))"
| "encode_value c (VTimestamp t) =
     Inr (12 # to_le_u64 (timestamp_seconds c t) @ to_le_u32 (timestamp_subsec c t))"
| "encode_value c (VInterval m d us) = Inr (17 # to_le_u32 m @ to_le_u32 d @ to_le_u64 us)"
| "encode_value c (VArray a) =
     try_bind (ok_or E_XX001 (array_to_vec c a)) (\<lambda>e. try_bind (length_prefixed e) (\<lambda>p. Inr (18 # p)))"
| "encode_value c (VJson j) =
     try_bind (ok_or E_XX001 (json_to_vec c j)) (\<lambda>e. try_bind (length_prefixed e) (\<lambda>p. Inr (13 # p)))"
| "encode_value c (VJsonb j) =
     try_bind (ok_or E_XX001 (json_to_vec c j)) (\<lambda>e. try_bind (length_prefixed e) (\<lambda>p. Inr (14 # p)))"
| "encode_value c (VUuid u) = Inr (15 # u)"
| "encode_value c (VVector fs) =
     (if length fs < 2 ^ 32 then Inr (16 # to_le_u32 (of_nat (length fs)) @ concat (map to_le_u32 fs))
      else Inl E_XX001)"

primrec encode_values ::
  "('dec, 'date, 'time, 'ts, 'arr, 'json) value_codec \<Rightarrow>
   ('dec, 'date, 'time, 'ts, 'arr, 'json) pg_value list \<Rightarrow> u8 list res" where
  "encode_values c [] = Inr []"
| "encode_values c (v # vs) =
     try_bind (encode_value c v) (\<lambda>b. try_bind (encode_values c vs) (\<lambda>bs. Inr (b @ bs)))"

definition encode_row ::
  "('dec, 'date, 'time, 'ts, 'arr, 'json) value_codec \<Rightarrow>
   ('dec, 'date, 'time, 'ts, 'arr, 'json) pg_value list \<Rightarrow> u8 list res" where
  "encode_row c row =
     try_bind (value_count row) (\<lambda>n. try_bind (encode_values c row) (\<lambda>bs. Inr (to_le_u16 n @ bs)))"

definition header_bytes :: "tuple_header \<Rightarrow> u8 list" where
  "header_bytes h =
     to_le_u16 TUPLE_FORMAT_V2 @ to_le_u16 TUPLE_HEADER_V2_BYTES @ to_le_u16 (th_flags h) @
     to_le_u16 (th_column_count h) @ to_le_u64 (th_xmin h) @ to_le_u64 (th_xmax h) @
     to_le_u32 (th_command_id h) @ to_le_u32 (th_previous_version h)"

definition encode_row_v2 ::
  "('dec, 'date, 'time, 'ts, 'arr, 'json) value_codec \<Rightarrow>
   ('dec, 'date, 'time, 'ts, 'arr, 'json) pg_value list \<Rightarrow> tuple_header \<Rightarrow> u8 list res" where
  "encode_row_v2 c row h =
     try_bind (header_validate h) (\<lambda>h.
     try_bind (value_count row) (\<lambda>n.
     guard_res (th_column_count h \<noteq> n) E_XX001
       (try_bind (encode_values c row) (\<lambda>bs. Inr (header_bytes h @ bs)))))"

text \<open>A \<open>usize\<close> has 64 bits, so that the conversion of the length cannot fail.\<close>

definition read_length_prefixed :: "u8 list reader" where
  "read_length_prefixed = rd_bind read_word32 (\<lambda>n. read_array (unat n))"

section \<open>Decoding\<close>

primrec read_floats :: "nat \<Rightarrow> u32 list reader" where
  "read_floats 0 = rd_return []"
| "read_floats (Suc n) = rd_bind read_word32 (\<lambda>x. rd_bind (read_floats n) (\<lambda>xs. rd_return (x # xs)))"

definition decode_tagged ::
  "('dec, 'date, 'time, 'ts, 'arr, 'json) value_codec \<Rightarrow> u8 \<Rightarrow>
   ('dec, 'date, 'time, 'ts, 'arr, 'json) pg_value reader" where
  "decode_tagged c tag = (
     if tag = 0 then rd_return VNull
     else if tag = 1 then rd_bind read_u8 (\<lambda>b. rd_lift
       (if b = 0 then Inr (VBoolean False) else if b = 1 then Inr (VBoolean True) else Inl E_XX001))
     else if tag = 2 then rd_bind read_word16 (\<lambda>i. rd_return (VInt16 i))
     else if tag = 3 then rd_bind read_word32 (\<lambda>i. rd_return (VInt32 i))
     else if tag = 4 then rd_bind read_word64 (\<lambda>i. rd_return (VInt64 i))
     else if tag = 5 then rd_bind read_word32 (\<lambda>i. rd_return (VFloat32 i))
     else if tag = 6 then rd_bind read_word64 (\<lambda>i. rd_return (VFloat64 i))
     else if tag = 7 then rd_bind (read_array 16) (\<lambda>bs. rd_return (VDecimal (decimal_deserialize c bs)))
     else if tag = 8 then rd_bind read_length_prefixed (\<lambda>p. rd_lift
       (if utf8_valid p then Inr (VText p) else Inl E_XX001))
     else if tag = 9 then rd_bind read_length_prefixed (\<lambda>p. rd_return (VBinary p))
     else if tag = 10 then rd_bind read_word32 (\<lambda>d. rd_lift
       (try_bind (ok_or E_XX001 (date_from_num_days c d)) (\<lambda>x. Inr (VDate x))))
     else if tag = 11 then rd_bind read_word32 (\<lambda>s. rd_bind read_word32 (\<lambda>n. rd_lift
       (try_bind (ok_or E_XX001 (time_from_parts c s n)) (\<lambda>x. Inr (VTime x)))))
     else if tag = 12 then rd_bind read_word64 (\<lambda>s. rd_bind read_word32 (\<lambda>n. rd_lift
       (try_bind (ok_or E_XX001 (timestamp_from_parts c s n)) (\<lambda>x. Inr (VTimestamp x)))))
     else if tag = 17 then rd_bind read_word32 (\<lambda>m. rd_bind read_word32 (\<lambda>d. rd_bind read_word64 (\<lambda>us.
       rd_return (VInterval m d us))))
     else if tag = 18 then rd_bind read_length_prefixed (\<lambda>p. rd_lift
       (try_bind (ok_or E_XX001 (array_from_slice c p)) (\<lambda>a.
        try_bind (ok_or E_XX001 (array_validated c a)) (\<lambda>a. Inr (VArray a)))))
     else if tag = 13 \<or> tag = 14 then rd_bind read_length_prefixed (\<lambda>p. rd_lift
       (try_bind (ok_or E_XX001 (json_from_slice c p)) (\<lambda>j. Inr (if tag = 13 then VJson j else VJsonb j))))
     else if tag = 15 then rd_bind (read_array 16) (\<lambda>bs. rd_return (VUuid bs))
     else if tag = 16 then rd_bind read_word32 (\<lambda>n.
       rd_bind (rd_lift (ok_or E_XX001 (checked_mul_usize (unat n) 4))) (\<lambda>byte_count.
       rd_bind (ensure_remaining byte_count) (\<lambda>_.
       rd_bind (read_floats (unat n)) (\<lambda>xs. rd_return (VVector xs)))))
     else rd_lift (Inl E_XX001))"

definition decode_value ::
  "('dec, 'date, 'time, 'ts, 'arr, 'json) value_codec \<Rightarrow>
   ('dec, 'date, 'time, 'ts, 'arr, 'json) pg_value reader" where
  "decode_value c = rd_bind read_u8 (decode_tagged c)"

primrec decode_values ::
  "('dec, 'date, 'time, 'ts, 'arr, 'json) value_codec \<Rightarrow> nat \<Rightarrow>
   ('dec, 'date, 'time, 'ts, 'arr, 'json) pg_value list reader" where
  "decode_values c 0 = rd_return []"
| "decode_values c (Suc n) =
     rd_bind (decode_value c) (\<lambda>v. rd_bind (decode_values c n) (\<lambda>vs. rd_return (v # vs)))"

definition decode_row ::
  "('dec, 'date, 'time, 'ts, 'arr, 'json) value_codec \<Rightarrow> u8 list \<Rightarrow>
   ('dec, 'date, 'time, 'ts, 'arr, 'json) pg_value list res" where
  "decode_row c = finish_decoding (rd_bind read_word16 (\<lambda>n. decode_values c (unat n)))"

definition read_header :: "tuple_header reader" where
  "read_header =
     rd_bind read_word16 (\<lambda>version. rd_bind (rd_lift (guard_res (version \<noteq> TUPLE_FORMAT_V2) E_0A000 (Inr ()))) (\<lambda>_.
     rd_bind read_word16 (\<lambda>size. rd_bind (rd_lift (guard_res (size \<noteq> TUPLE_HEADER_V2_BYTES) E_XX001 (Inr ()))) (\<lambda>_.
     rd_bind read_word16 (\<lambda>flags. rd_bind read_word16 (\<lambda>column_count.
     rd_bind read_word64 (\<lambda>xmin. rd_bind read_word64 (\<lambda>xmax.
     rd_bind read_word32 (\<lambda>command_id. rd_bind read_word32 (\<lambda>previous_version.
     rd_lift (header_validate \<lparr>th_flags = flags, th_column_count = column_count, th_xmin = xmin,
       th_xmax = xmax, th_command_id = command_id, th_previous_version = previous_version\<rparr>)))))))))))"

definition decode_row_v2 ::
  "('dec, 'date, 'time, 'ts, 'arr, 'json) value_codec \<Rightarrow> u8 list \<Rightarrow>
   (tuple_header \<times> ('dec, 'date, 'time, 'ts, 'arr, 'json) pg_value list) res" where
  "decode_row_v2 c = finish_decoding (rd_bind read_header (\<lambda>h.
     rd_bind (decode_values c (unat (th_column_count h))) (\<lambda>vs. rd_return (h, vs))))"

lemma length_prefixed_Ok:
  "length_prefixed p = Inr bs \<longleftrightarrow> length p < 2 ^ 32 \<and> bs = to_le_u32 (of_nat (length p)) @ p"
  by (auto simp: length_prefixed_def)

lemma reads_length_prefixed [reads_intros]:
  assumes "length_prefixed p = Inr bs"
  shows "reads read_length_prefixed p bs"
proof -
  from assms have len: "length p < 2 ^ 32" and bs: "bs = to_le_u32 (of_nat (length p)) @ p"
    by (simp_all add: length_prefixed_Ok)
  have "unat (of_nat (length p) :: u32) = length p" using len by (simp add: unat_of_nat)
  then show ?thesis
    unfolding read_length_prefixed_def bs by (intro reads_bind [OF reads_word32] reads_array) simp
qed

lemma reads_payload:
  assumes "length_prefixed e = Inr p" and "k e = Inr v"
  shows "reads (rd_bind read_length_prefixed (\<lambda>e. rd_lift (k e))) v p"
  by (rule reads_bind_last [OF reads_length_prefixed [OF assms(1)]]) (simp only: assms(2) reads_lift)

lemma reads_floats: "reads (read_floats (length xs)) xs (concat (map to_le_u32 xs))"
proof (induction xs)
  case Nil
  then show ?case by (simp add: reads_return)
next
  case (Cons x xs)
  have "reads (rd_bind (read_floats (length xs)) (\<lambda>ys. rd_return (x # ys))) (x # xs) (concat (map to_le_u32 xs))"
    by (rule reads_bind_last [OF Cons.IH]) (rule reads_return)
  then show ?case by (simp add: reads_bind [OF reads_word32])
qed

section \<open>Values that the codecs read back\<close>

text \<open>The condition on one value; it is empty for the values that the code encodes itself.\<close>

fun reads_back ::
  "('dec, 'date, 'time, 'ts, 'arr, 'json) value_codec \<Rightarrow> ('dec, 'date, 'time, 'ts, 'arr, 'json) pg_value \<Rightarrow> bool" where
  "reads_back c (VDecimal d) = (length (decimal_serialize c d) = 16 \<and> decimal_deserialize c (decimal_serialize c d) = d)"
| "reads_back c (VDate d) = (date_from_num_days c (date_num_days c d) = Some d)"
| "reads_back c (VTime t) = (time_from_parts c (time_seconds c t) (time_nanosecond c t) = Some t)"
| "reads_back c (VTimestamp t) = (timestamp_from_parts c (timestamp_seconds c t) (timestamp_subsec c t) = Some t)"
| "reads_back c (VArray a) =
     (case array_to_vec c a of None \<Rightarrow> True
      | Some bs \<Rightarrow> (case array_from_slice c bs of None \<Rightarrow> False | Some a' \<Rightarrow> array_validated c a' = Some a))"
| "reads_back c (VJson j) = (case json_to_vec c j of None \<Rightarrow> True | Some bs \<Rightarrow> json_from_slice c bs = Some j)"
| "reads_back c (VJsonb j) = (case json_to_vec c j of None \<Rightarrow> True | Some bs \<Rightarrow> json_from_slice c bs = Some j)"
| "reads_back c _ = True"

text \<open>What the types \<open>String\<close> and \<open>Uuid\<close> guarantee.\<close>

fun value_ok :: "('dec, 'date, 'time, 'ts, 'arr, 'json) pg_value \<Rightarrow> bool" where
  "value_ok (VText t) = utf8_valid t"
| "value_ok (VUuid u) = (length u = 16)"
| "value_ok _ = True"

lemma reads_tag: "reads (k tag) v e \<Longrightarrow> reads (rd_bind read_u8 k) v (tag # e)"
  using reads_bind [OF reads_u8, of k tag v e] by simp

lemma decode_encode_value:
  assumes laws: "reads_back c v" and ok: "value_ok v" and enc: "encode_value c v = Inr bs"
  shows "reads (decode_value c) v bs"
proof -
  note bind = reads_bind reads_bind_last
  show ?thesis
  proof (cases v)
    case VNull
    with enc show ?thesis
      by (auto simp: decode_value_def decode_tagged_def intro!: reads_tag reads_return)
  next
    case (VBoolean b)
    have "bs = 1 # [if b then 1 else 0]" using enc VBoolean by auto
    then show ?thesis
      by (auto simp: decode_value_def decode_tagged_def VBoolean intro!: reads_tag reads_bind_last [OF reads_u8] reads_lift)
  next
    case (VInt16 i)
    with enc show ?thesis
      by (auto simp: decode_value_def decode_tagged_def intro!: reads_tag reads_bind_last [OF reads_word16] reads_return)
  next
    case (VInt32 i)
    with enc show ?thesis
      by (auto simp: decode_value_def decode_tagged_def intro!: reads_tag reads_bind_last [OF reads_word32] reads_return)
  next
    case (VInt64 i)
    with enc show ?thesis
      by (auto simp: decode_value_def decode_tagged_def intro!: reads_tag reads_bind_last [OF reads_word64] reads_return)
  next
    case (VFloat32 i)
    with enc show ?thesis
      by (auto simp: decode_value_def decode_tagged_def intro!: reads_tag reads_bind_last [OF reads_word32] reads_return)
  next
    case (VFloat64 i)
    with enc show ?thesis
      by (auto simp: decode_value_def decode_tagged_def intro!: reads_tag reads_bind_last [OF reads_word64] reads_return)
  next
    case (VDecimal d)
    have "length (decimal_serialize c d) = 16" "decimal_deserialize c (decimal_serialize c d) = d"
      using laws VDecimal by simp_all
    then have "reads (rd_bind (read_array 16) (\<lambda>bs. rd_return (VDecimal (decimal_deserialize c bs))))
        (VDecimal d) (decimal_serialize c d)"
      by (intro reads_bind_last [OF reads_array]) (simp_all add: reads_return)
    with VDecimal enc show ?thesis
      by (auto simp: decode_value_def decode_tagged_def intro!: reads_tag)
  next
    case (VText t)
    with enc obtain p where p: "length_prefixed t = Inr p" "bs = 8 # p" by (auto simp: res_simps)
    with ok VText show ?thesis
      by (auto simp: decode_value_def decode_tagged_def intro!: reads_tag reads_bind_last [OF reads_length_prefixed] reads_lift)
  next
    case (VBinary t)
    with enc obtain p where p: "length_prefixed t = Inr p" "bs = 9 # p" by (auto simp: res_simps)
    with VBinary show ?thesis
      by (auto simp: decode_value_def decode_tagged_def intro!: reads_tag reads_bind_last [OF reads_length_prefixed] reads_return)
  next
    case (VDate d)
    have "date_from_num_days c (date_num_days c d) = Some d" using laws VDate by simp
    with VDate enc show ?thesis
      by (auto simp: decode_value_def decode_tagged_def intro!: reads_tag reads_bind_last [OF reads_word32])
        (simp add: reads_lift)
  next
    case (VTime t)
    have "time_from_parts c (time_seconds c t) (time_nanosecond c t) = Some t"
      using laws VTime by simp
    with VTime enc show ?thesis
      by (auto simp: decode_value_def decode_tagged_def intro!: reads_tag reads_bind [OF reads_word32] reads_bind_last [OF reads_word32])
        (simp add: reads_lift)
  next
    case (VTimestamp t)
    have "timestamp_from_parts c (timestamp_seconds c t) (timestamp_subsec c t) = Some t"
      using laws VTimestamp by simp
    with VTimestamp enc show ?thesis
      by (auto simp: decode_value_def decode_tagged_def intro!: reads_tag reads_bind [OF reads_word64] reads_bind_last [OF reads_word32])
        (simp add: reads_lift)
  next
    case (VInterval m d us)
    with enc show ?thesis
      by (auto simp: decode_value_def decode_tagged_def intro!: reads_tag reads_bind [OF reads_word32]
          reads_bind_last [OF reads_word64] reads_return)
  next
    case (VArray a)
    with enc obtain e p where p: "array_to_vec c a = Some e" "length_prefixed e = Inr p" "bs = 18 # p"
      by (auto simp: res_simps)
    then obtain a' where "array_from_slice c e = Some a'" "array_validated c a' = Some a"
      using laws VArray by (auto split: option.splits)
    then have "reads (rd_bind read_length_prefixed (\<lambda>e. rd_lift
        (try_bind (ok_or E_XX001 (array_from_slice c e)) (\<lambda>a.
         try_bind (ok_or E_XX001 (array_validated c a)) (\<lambda>a. Inr (VArray a)))))) v p"
      by (intro reads_payload [OF p(2)]) (simp add: VArray)
    with p show ?thesis
      by (auto simp: decode_value_def decode_tagged_def intro!: reads_tag)
  next
    case (VJson j)
    with enc obtain e p where p: "json_to_vec c j = Some e" "length_prefixed e = Inr p" "bs = 13 # p"
      by (auto simp: res_simps)
    have "json_from_slice c e = Some j" using laws VJson p(1) by simp
    then have "reads (rd_bind read_length_prefixed (\<lambda>e. rd_lift
        (try_bind (ok_or E_XX001 (json_from_slice c e)) (\<lambda>j. Inr (VJson j))))) v p"
      by (intro reads_payload [OF p(2)]) (simp add: VJson)
    with p show ?thesis
      by (auto simp: decode_value_def decode_tagged_def intro!: reads_tag)
  next
    case (VJsonb j)
    with enc obtain e p where p: "json_to_vec c j = Some e" "length_prefixed e = Inr p" "bs = 14 # p"
      by (auto simp: res_simps)
    have "json_from_slice c e = Some j" using laws VJsonb p(1) by simp
    then have "reads (rd_bind read_length_prefixed (\<lambda>e. rd_lift
        (try_bind (ok_or E_XX001 (json_from_slice c e)) (\<lambda>j. Inr (VJsonb j))))) v p"
      by (intro reads_payload [OF p(2)]) (simp add: VJsonb)
    with p show ?thesis
      by (auto simp: decode_value_def decode_tagged_def intro!: reads_tag)
  next
    case (VUuid u)
    with ok have "length u = 16" by simp
    from reads_array [OF this] VUuid enc show ?thesis
      by (auto simp: decode_value_def decode_tagged_def intro!: reads_tag reads_bind_last reads_return)
  next
    case (VVector fs)
    with enc have len: "length fs < 2 ^ 32" and bs: "bs = 16 # to_le_u32 (of_nat (length fs)) @ concat (map to_le_u32 fs)"
      by (auto split: if_splits)
    have n: "unat (of_nat (length fs) :: u32) = length fs" using len by (simp add: unat_of_nat)
    have mul: "checked_mul_usize (length fs) 4 = Some (length fs * 4)"
      using len by (intro checked_mul_usize_Some) (simp add: usize_max_def)
    have bytes: "length (concat (map to_le_u32 fs)) = length fs * 4" by (induction fs) auto
    have "reads (rd_bind (read_floats (length fs)) (\<lambda>xs. rd_return (VVector xs))) (VVector fs) (concat (map to_le_u32 fs))"
      by (rule reads_bind_last [OF reads_floats reads_return])
    then have "reads (rd_bind (ensure_remaining (length fs * 4)) (\<lambda>_. rd_bind (read_floats (length fs))
        (\<lambda>xs. rd_return (VVector xs)))) (VVector fs) (concat (map to_le_u32 fs))"
      by (rule reads_ensure) (simp add: bytes)
    then have "reads (rd_bind (rd_lift (ok_or E_XX001 (checked_mul_usize (length fs) 4))) (\<lambda>byte_count.
        rd_bind (ensure_remaining byte_count) (\<lambda>_. rd_bind (read_floats (length fs)) (\<lambda>xs. rd_return (VVector xs)))))
        (VVector fs) (concat (map to_le_u32 fs))"
      unfolding mul ok_or_simps by (rule reads_bind_first [OF reads_lift])
    then show ?thesis
      by (auto simp: decode_value_def decode_tagged_def VVector bs n intro!: reads_tag reads_bind [OF reads_word32])
  qed
qed

lemma decode_encode_values:
  assumes "list_all (reads_back c) vs" and "list_all value_ok vs" and "encode_values c vs = Inr bs"
  shows "reads (decode_values c (length vs)) vs bs"
  using assms
proof (induction vs arbitrary: bs)
  case Nil
  then show ?case by (auto simp: reads_return)
next
  case (Cons v vs)
  then obtain b bs' where b: "encode_value c v = Inr b" and bs': "encode_values c vs = Inr bs'" and bs: "bs = b @ bs'"
    by (auto simp: res_simps)
  have "reads (decode_value c) v b"
    using decode_encode_value [OF _ _ b] Cons.prems(1,2) by simp
  moreover have "reads (rd_bind (decode_values c (length vs)) (\<lambda>xs. rd_return (v # xs))) (v # vs) bs'"
    using Cons.IH [OF _ _ bs'] Cons.prems(1,2) by (intro reads_bind_last [OF _ reads_return]) simp
  ultimately show ?case by (simp add: bs reads_bind)
qed

lemma finish_reads: "reads f x bs \<Longrightarrow> finish_decoding f bs = Inr x"
  unfolding reads_def finish_decoding_def cursor_new_def
  by (drule spec [of _ "[]"], drule spec [of _ "[]"]) (simp add: cursor_finished_def)

lemma value_count_Ok: "value_count row = Inr n \<longleftrightarrow> length row < 65536 \<and> n = of_nat (length row)"
  by (auto simp: value_count_def)

lemma reads_header:
  assumes "header_validate h = Inr h'"
  shows "reads read_header h (header_bytes h)"
proof -
  have "header_validate h = Inr h" using assms by (auto simp: header_validate_def res_simps)
  then have hv: "reads (rd_lift (header_validate \<lparr>th_flags = th_flags h, th_column_count = th_column_count h,
      th_xmin = th_xmin h, th_xmax = th_xmax h, th_command_id = th_command_id h,
      th_previous_version = th_previous_version h\<rparr>)) h []"
    by (cases h) (simp add: reads_lift)
  show ?thesis
    unfolding read_header_def header_bytes_def
    by (intro reads_bind [OF reads_word16] reads_bind [OF reads_word64] reads_bind [OF reads_word32]
        reads_bind_last [OF reads_word32] reads_bind_first [where x = "()"] hv)
      (simp_all add: reads_lift)
qed

lemma local_length_prefixed [local_intros]: "local_reader read_length_prefixed"
  unfolding read_length_prefixed_def by (intro local_intros)

lemma local_floats [local_intros]: "local_reader (read_floats n)"
  by (induction n) (auto intro!: local_intros)

lemma local_value [local_intros]: "local_reader (decode_value c)"
  unfolding decode_value_def
proof (intro local_intros)
  show "local_reader (decode_tagged c tag)" for tag
    unfolding decode_tagged_def by (auto intro!: local_intros)
qed

lemma local_values [local_intros]: "local_reader (decode_values c n)"
  by (induction n) (auto intro!: local_intros)

lemma local_header [local_intros]: "local_reader read_header"
  unfolding read_header_def by (intro local_intros)

text \<open>A codec with one date, one time and so on, for the witnesses.\<close>

definition unit_codec :: "(unit, unit, unit, unit, unit, bool) value_codec" where
  "unit_codec = \<lparr>decimal_serialize = \<lambda>_. replicate 16 0, decimal_deserialize = \<lambda>_. (),
     date_num_days = \<lambda>_. 1, date_from_num_days = \<lambda>n. if n = 1 then Some () else None,
     time_seconds = \<lambda>_. 0, time_nanosecond = \<lambda>_. 0, time_from_parts = \<lambda>_ _. Some (),
     timestamp_seconds = \<lambda>_. 0, timestamp_subsec = \<lambda>_. 0, timestamp_from_parts = \<lambda>_ _. Some (),
     array_to_vec = \<lambda>_. Some [], array_from_slice = \<lambda>_. Some (), array_validated = \<lambda>_. Some (),
     json_to_vec = \<lambda>b. Some (if b then [116] else [102]),
     json_from_slice = \<lambda>bs. Some (bs = [116])\<rparr>"

section \<open>Properties\<close>

text \<open>
  C16. Round trip of rows. Take a row whose texts are UTF-8 and whose UUIDs have 16 bytes, as their
  types guarantee, and whose decimals, dates, times, timestamps, arrays and JSON values are each read
  back by the codec that writes them (\<open>reads_back\<close>, a condition on these values alone; it excludes for
  instance JSON numbers that serde_json does not restore exactly, documents nested deeper than it
  reads, and arrays with NaN). When \<open>encode_row\<close> or \<open>encode_row_v2\<close> accepts the row, its bytes are decoded
  to the same row, and for version 2 to the same header; rows of the other types need no condition.
\<close>

theorem tuple_roundtrip:
  assumes "list_all (reads_back c) row" and "list_all value_ok row"
  shows "(encode_row c row = Inr bs \<longrightarrow> decode_row c bs = Inr row) \<and>
    (encode_row_v2 c row h = Inr bs \<longrightarrow> decode_row_v2 c bs = Inr (h, row))"
proof (intro conjI impI)
  assume "encode_row c row = Inr bs"
  then obtain vs where n: "length row < 65536" and vs: "encode_values c row = Inr vs"
    and bs: "bs = to_le_u16 (of_nat (length row)) @ vs"
    by (auto simp: encode_row_def res_simps value_count_Ok)
  have "unat (of_nat (length row) :: u16) = length row" using n by (simp add: unat_of_nat)
  then show "decode_row c bs = Inr row"
    unfolding decode_row_def bs
    by (intro finish_reads reads_bind [OF reads_word16]) (simp add: decode_encode_values [OF assms vs])
next
  assume "encode_row_v2 c row h = Inr bs"
  then obtain vs where h: "header_validate h = Inr h" and n: "length row < 65536" "th_column_count h = of_nat (length row)"
    and vs: "encode_values c row = Inr vs" and bs: "bs = header_bytes h @ vs"
    by (auto simp: encode_row_v2_def header_validate_def res_simps value_count_Ok)
  have "unat (th_column_count h) = length row" using n by (simp add: unat_of_nat)
  then show "decode_row_v2 c bs = Inr (h, row)"
    unfolding decode_row_v2_def bs
    by (intro finish_reads reads_bind [OF reads_header [OF h]] reads_bind_last [OF _ reads_return])
      (simp add: decode_encode_values [OF assms vs])
qed

lemma tuple_roundtrip_witness:
  "decode_row unit_codec [3, 0, 8, 1, 0, 0, 0, 104, 10, 1, 0, 0, 0, 13, 1, 0, 0, 0, 116] = Inr [VText [104], VDate (), VJson True]"
proof -
  have "encode_row unit_codec [VText [104], VDate (), VJson True] =
      Inr [3, 0, 8, 1, 0, 0, 0, 104, 10, 1, 0, 0, 0, 13, 1, 0, 0, 0, 116]"
    and "list_all value_ok [VText [104], VDate (), VJson True]" "list_all (reads_back unit_codec) [VText [104], VDate (), VJson True]"
    by (simp_all add: encode_row_def value_count_def length_prefixed_def unit_codec_def le_eval)
  with tuple_roundtrip [OF this(3,2)] show ?thesis by blast
qed

text \<open>
  Neither format accepts a truncated or an extended tuple: of the byte strings that
  \<open>decode_row\<close> (or \<open>decode_row_v2\<close>) accepts, none is a proper prefix of another. This holds for
  any third-party codec.
\<close>

lemma tuple_prefix_free:
  "(decode_row c bs = Inr x \<and> decode_row c (bs @ ws) = Inr y \<longrightarrow> ws = [] \<and> x = y) \<and>
   (decode_row_v2 c bs = Inr u \<and> decode_row_v2 c (bs @ ws) = Inr v \<longrightarrow> ws = [] \<and> u = v)"
proof -
  have 1: "local_reader (rd_bind read_word16 (\<lambda>n. decode_values c (unat n)))"
    and 2: "local_reader (rd_bind read_header (\<lambda>h.
      rd_bind (decode_values c (unat (th_column_count h))) (\<lambda>vs. rd_return (h, vs))))"
    by (intro local_intros)+
  show ?thesis
    unfolding decode_row_def decode_row_v2_def
    using finish_prefix_free [OF 1, of bs x ws y] finish_prefix_free [OF 2, of bs u ws v] by simp
qed

lemma tuple_prefix_free_witness:
  "decode_row unit_codec [1, 0, 1, 1] = Inr [VBoolean True] \<and> (\<forall>y. decode_row unit_codec ([1, 0, 1, 1] @ [0]) \<noteq> Inr y)"
proof -
  have "decode_row unit_codec [1, 0, 1, 1] = Inr [VBoolean True]" by code_simp
  with tuple_prefix_free [of unit_codec "[1, 0, 1, 1]" "[VBoolean True]" "[0]"] show ?thesis by blast
qed

end
