(* ===== verification/Mvcc.thy ===== *)
theory Mvcc
  imports Snapshot Tuple
begin

text \<open>
  The transaction manager and MVCC visibility,
  crates/ordadb-transaction/src/mvcc_parts/state_and_lifecycle.rs: \<open>TransactionManager\<close>,
  \<open>ManagedTransaction\<close>, \<open>tuple_visible\<close> and \<open>SavepointStack\<close>. (\<open>DurableTransaction\<close> is in
  the theory Durable.)

  The manager's atomic counters and the tables behind its mutex are one record; a function
  is one atomic access or one critical section. Instants are numbers of nanoseconds and
  inputs of the operations that read the clock. The wait for a safe snapshot is one turn of
  its loop, \<open>None\<close> meaning that the thread waits again.
\<close>

section \<open>The transaction manager\<close>

record active_transaction =
  at_xmin :: transaction_id
  at_acquired :: nat
  at_chars :: characteristics

record txn_manager =
  tm_next :: u64
  tm_max_age_millis :: u64
  tm_statuses :: "(transaction_id, outcome) btree_map"
  tm_active :: "(transaction_id, active_transaction) btree_map"

record managed_transaction =
  mt_live :: bool
  mt_id :: transaction_id
  mt_chars :: characteristics
  mt_snapshot :: txn_snapshot
  mt_command :: u32
  mt_safe :: bool

abbreviation (input) DEFAULT_MAXIMUM_SNAPSHOT_AGE_MILLIS :: u64 where
  "DEFAULT_MAXIMUM_SNAPSHOT_AGE_MILLIS \<equiv> 1800000"

definition tm_from_next :: "u64 \<Rightarrow> txn_manager res" where
  "tm_from_next next =
     try_bind (ok_or E_22023 (txn_new next)) (\<lambda>next.
     try_bind (ok_or E_XX000 (txn_new FROZEN_TRANSACTION_ID)) (\<lambda>frozen.
       Inr \<lparr>tm_next = next, tm_max_age_millis = DEFAULT_MAXIMUM_SNAPSHOT_AGE_MILLIS,
            tm_statuses = bm_insert frozen Committed bm_empty, tm_active = bm_empty\<rparr>))"

definition tm_new :: txn_manager where
  "tm_new = \<lparr>tm_next = FROZEN_TRANSACTION_ID + 1, tm_max_age_millis = DEFAULT_MAXIMUM_SNAPSHOT_AGE_MILLIS,
     tm_statuses = bm_empty, tm_active = bm_empty\<rparr>"

definition tm_from_status_snapshot :: "u64 \<Rightarrow> (transaction_id, outcome) btree_map \<Rightarrow> txn_manager res" where
  "tm_from_status_snapshot next statuses =
     try_bind (ok_or E_22023 (txn_new next)) (\<lambda>next.
       Inr \<lparr>tm_next = next, tm_max_age_millis = DEFAULT_MAXIMUM_SNAPSHOT_AGE_MILLIS,
            tm_statuses = statuses, tm_active = bm_empty\<rparr>)"

definition tm_allocate :: "txn_manager \<Rightarrow> transaction_id res \<times> txn_manager" where
  "tm_allocate tm =
     (case checked_add_u64 (tm_next tm) 1 of
        None \<Rightarrow> (Inl E_54000, tm)
      | Some next \<Rightarrow> (ok_or E_XX000 (txn_new (tm_next tm)), tm\<lparr>tm_next := next\<rparr>))"

definition snapshot_locked :: "txn_manager \<Rightarrow> transaction_id \<Rightarrow> u32 \<Rightarrow> txn_snapshot res" where
  "snapshot_locked tm t command =
     try_bind (ok_or E_XX000 (txn_new (tm_next tm))) (\<lambda>xmax.
       let in_progress = filter (\<lambda>a. a \<noteq> t) (bm_keys (tm_active tm));
           xmin = (case list_min in_progress of None \<Rightarrow> t | Some m \<Rightarrow> m)
       in Inr \<lparr>sn_xmin = xmin, sn_xmax = xmax, sn_in_progress = bs_of_list in_progress, sn_command = command\<rparr>)"

text \<open>\<open>register\<close>: \<open>fetch_max\<close> on the counter, then the critical section.\<close>

definition tm_raise :: "u64 \<Rightarrow> txn_manager \<Rightarrow> txn_manager" where
  "tm_raise v tm = tm\<lparr>tm_next := max (tm_next tm) v\<rparr>"

definition tm_register_enter ::
  "nat \<Rightarrow> transaction_id \<Rightarrow> characteristics \<Rightarrow> txn_manager \<Rightarrow> managed_transaction res \<times> txn_manager" where
  "tm_register_enter now t c tm =
     (if bm_contains (tm_active tm) t \<or> bm_contains (tm_statuses tm) t then (Inl E_25000, tm)
      else case snapshot_locked tm t 0 of
        Inl e \<Rightarrow> (Inl e, tm)
      | Inr s \<Rightarrow>
          (Inr \<lparr>mt_live = True, mt_id = t, mt_chars = c, mt_snapshot = s, mt_command = 0,
                mt_safe = (\<not> deferrable c)\<rparr>,
           tm\<lparr>tm_statuses := bm_insert t InProgress (tm_statuses tm),
              tm_active := bm_insert t \<lparr>at_xmin = sn_xmin s, at_acquired = now, at_chars = c\<rparr> (tm_active tm)\<rparr>))"

definition tm_register ::
  "nat \<Rightarrow> transaction_id \<Rightarrow> characteristics \<Rightarrow> txn_manager \<Rightarrow> managed_transaction res \<times> txn_manager" where
  "tm_register now t c tm =
     (case validate_characteristics c of
        Inl e \<Rightarrow> (Inl e, tm)
      | Inr c \<Rightarrow>
          (case checked_add_u64 t 1 of
             None \<Rightarrow> (Inl E_54000, tm)
           | Some next \<Rightarrow> tm_register_enter now t c (tm_raise next tm)))"

definition tm_begin ::
  "nat \<Rightarrow> characteristics \<Rightarrow> txn_manager \<Rightarrow> managed_transaction res \<times> txn_manager" where
  "tm_begin now c tm =
     (case tm_allocate tm of
        (Inl e, tm') \<Rightarrow> (Inl e, tm')
      | (Inr t, tm') \<Rightarrow> tm_register now t c tm')"

definition tm_global_xmin :: "txn_manager \<Rightarrow> transaction_id res" where
  "tm_global_xmin tm =
     ok_or E_XX000 (case list_min (map at_xmin (bm_values (tm_active tm))) of
        Some m \<Rightarrow> Some m | None \<Rightarrow> txn_new (tm_next tm))"

definition tm_global_xmin_excluding :: "transaction_id \<Rightarrow> txn_manager \<Rightarrow> transaction_id res" where
  "tm_global_xmin_excluding t tm =
     ok_or E_XX000 (case list_min (map (\<lambda>(_, a). at_xmin a)
          (filter (\<lambda>(i, _). i \<noteq> t) (bm_list (tm_active tm)))) of
        Some m \<Rightarrow> Some m | None \<Rightarrow> txn_new (tm_next tm))"

definition tm_active_transactions :: "txn_manager \<Rightarrow> transaction_id btree_set" where
  "tm_active_transactions tm = bs_of_list (bm_keys (tm_active tm))"

definition tm_compact_before :: "transaction_id \<Rightarrow> txn_manager \<Rightarrow> nat \<times> txn_manager" where
  "tm_compact_before horizon tm =
     (let before = bm_len (tm_statuses tm);
          statuses = bm_retain (\<lambda>t out. t = FROZEN_TRANSACTION_ID \<or> horizon \<le> t \<or> out = InProgress) (tm_statuses tm)
      in (before - bm_len statuses, tm\<lparr>tm_statuses := statuses\<rparr>))"

definition tm_set_maximum_snapshot_age :: "nat \<Rightarrow> txn_manager \<Rightarrow> unit res \<times> txn_manager" where
  "tm_set_maximum_snapshot_age millis tm =
     (if 2 ^ 64 \<le> millis then (Inl E_22023, tm)
      else if millis = 0 then (Inl E_22023, tm)
      else (Inr (), tm\<lparr>tm_max_age_millis := of_nat millis\<rparr>))"

text \<open>\<open>min_by_key\<close> returns the first of the elements with the smallest key.\<close>

fun min_by_key :: "('a \<Rightarrow> nat) \<Rightarrow> 'a list \<Rightarrow> 'a option" where
  "min_by_key f [] = None"
| "min_by_key f (x # xs) =
     (case min_by_key f xs of None \<Rightarrow> Some x | Some y \<Rightarrow> if f y < f x then Some y else Some x)"

definition tm_expired_snapshot :: "nat \<Rightarrow> txn_manager \<Rightarrow> transaction_id option" where
  "tm_expired_snapshot now tm =
     (let maximum_age = unat (tm_max_age_millis tm) * 1000000 in
      map_option fst (min_by_key (\<lambda>(_, a). at_acquired a)
        (filter (\<lambda>(_, a). isolation (at_chars a) \<noteq> ReadCommitted \<and> maximum_age < now - at_acquired a)
          (bm_list (tm_active tm)))))"

definition tm_characteristics :: "transaction_id \<Rightarrow> txn_manager \<Rightarrow> characteristics option" where
  "tm_characteristics t tm = map_option at_chars (bm_get (tm_active tm) t)"

definition tm_note_snapshot :: "nat \<Rightarrow> transaction_id \<Rightarrow> txn_snapshot \<Rightarrow> txn_manager \<Rightarrow> txn_manager" where
  "tm_note_snapshot now t s tm =
     (case bm_get (tm_active tm) t of
        None \<Rightarrow> tm
      | Some a \<Rightarrow> tm\<lparr>tm_active := bm_insert t (a\<lparr>at_xmin := sn_xmin s, at_acquired := now\<rparr>) (tm_active tm)\<rparr>)"

definition tm_refresh_snapshot ::
  "nat \<Rightarrow> transaction_id \<Rightarrow> u32 \<Rightarrow> txn_manager \<Rightarrow> txn_snapshot res \<times> txn_manager" where
  "tm_refresh_snapshot now t command tm =
     (if \<not> bm_contains (tm_active tm) t then (Inl E_25P01, tm)
      else case snapshot_locked tm t command of
        Inl e \<Rightarrow> (Inl e, tm)
      | Inr s \<Rightarrow> (Inr s, tm_note_snapshot now t s tm))"

definition unsafe_writer_active :: "transaction_id \<Rightarrow> txn_manager \<Rightarrow> bool" where
  "unsafe_writer_active t tm =
     list_ex (\<lambda>(i, a). i \<noteq> t \<and> isolation (at_chars a) = Serializable \<and> access (at_chars a) = ReadWrite)
       (bm_list (tm_active tm))"

definition tm_safe_snapshot_turn ::
  "bool \<Rightarrow> nat \<Rightarrow> transaction_id \<Rightarrow> u32 \<Rightarrow> txn_manager \<Rightarrow> txn_snapshot option res \<times> txn_manager" where
  "tm_safe_snapshot_turn cancelled now t command tm =
     (if cancelled then (Inl E_57014, tm)
      else if \<not> bm_contains (tm_active tm) t then (Inl E_25P01, tm)
      else if unsafe_writer_active t tm then (Inr None, tm)
      else case snapshot_locked tm t command of
        Inl e \<Rightarrow> (Inl e, tm)
      | Inr s \<Rightarrow> (Inr (Some s), tm_note_snapshot now t s tm))"

definition tm_complete :: "transaction_id \<Rightarrow> outcome \<Rightarrow> txn_manager \<Rightarrow> unit res \<times> txn_manager" where
  "tm_complete t out tm =
     (case bm_get (tm_statuses tm) t of
        Some InProgress \<Rightarrow>
          (Inr (), tm\<lparr>tm_active := bm_remove t (tm_active tm), tm_statuses := bm_insert t out (tm_statuses tm)\<rparr>)
      | Some existing \<Rightarrow> if existing = out then (Inr (), tm) else (Inl E_25000, tm)
      | None \<Rightarrow> (Inl E_25P01, tm))"

definition tm_transaction_outcome :: "txn_manager \<Rightarrow> transaction_id \<Rightarrow> outcome res" where
  "tm_transaction_outcome tm t = ok_or E_XX001 (bm_get (tm_statuses tm) t)"

section \<open>Managed transactions\<close>

text \<open>
  A turn of \<open>begin_statement_controlled\<close>; \<open>Inr None\<close> waits for a safe snapshot. Consuming
  methods return the manager after the drop of the transaction.
\<close>

definition mt_begin_statement ::
  "bool \<Rightarrow> nat \<Rightarrow> managed_transaction \<Rightarrow> txn_manager \<Rightarrow>
     txn_snapshot option res \<times> managed_transaction \<times> txn_manager" where
  "mt_begin_statement cancelled now mt tm =
     (if deferrable (mt_chars mt) \<and> \<not> mt_safe mt then
        (if \<not> mt_live mt then (Inl E_25P01, mt, tm)
         else case tm_safe_snapshot_turn cancelled now (mt_id mt) (mt_command mt) tm of
           (Inl e, tm') \<Rightarrow> (Inl e, mt, tm')
         | (Inr None, tm') \<Rightarrow> (Inr None, mt, tm')
         | (Inr (Some s), tm') \<Rightarrow> (Inr (Some s), mt\<lparr>mt_snapshot := s, mt_safe := True\<rparr>, tm'))
      else if isolation (mt_chars mt) = ReadCommitted then
        (if \<not> mt_live mt then (Inl E_25P01, mt, tm)
         else case tm_refresh_snapshot now (mt_id mt) (mt_command mt) tm of
           (Inl e, tm') \<Rightarrow> (Inl e, mt, tm')
         | (Inr s, tm') \<Rightarrow> (Inr (Some s), mt\<lparr>mt_snapshot := s\<rparr>, tm'))
      else (Inr (Some (mt_snapshot mt)), mt, tm))"

definition mt_finish_statement :: "managed_transaction \<Rightarrow> unit res \<times> managed_transaction" where
  "mt_finish_statement mt =
     (if unat (mt_command mt) + 1 < 2 ^ 32
      then let command = mt_command mt + 1 in
        (Inr (), mt\<lparr>mt_command := command, mt_snapshot := with_command_id (mt_snapshot mt) command\<rparr>)
      else (Inl E_54000, mt))"

definition mt_drop :: "managed_transaction \<Rightarrow> txn_manager \<Rightarrow> txn_manager" where
  "mt_drop mt tm = (if mt_live mt then snd (tm_complete (mt_id mt) Aborted tm) else tm)"

definition mt_finish :: "outcome \<Rightarrow> managed_transaction \<Rightarrow> txn_manager \<Rightarrow> unit res \<times> txn_manager" where
  "mt_finish out mt tm =
     (if \<not> mt_live mt then (Inl E_25P01, mt_drop mt tm)
      else case tm_complete (mt_id mt) out tm of
        (Inl e, tm') \<Rightarrow> (Inl e, mt_drop mt tm')
      | (Inr _, tm') \<Rightarrow> (Inr (), mt_drop (mt\<lparr>mt_live := False\<rparr>) tm'))"

definition mt_commit :: "managed_transaction \<Rightarrow> txn_manager \<Rightarrow> unit res \<times> txn_manager" where
  "mt_commit = mt_finish Committed"

definition mt_abort :: "managed_transaction \<Rightarrow> txn_manager \<Rightarrow> unit res \<times> txn_manager" where
  "mt_abort = mt_finish Aborted"

section \<open>Visibility of tuples\<close>

definition tuple_visible ::
  "tuple_header \<Rightarrow> txn_snapshot \<Rightarrow> transaction_id \<Rightarrow> (transaction_id \<Rightarrow> outcome res) \<Rightarrow> bool res" where
  "tuple_visible h s current outcome_of =
     try_bind (ok_or E_XX001 (txn_new (th_xmin h))) (\<lambda>creator.
     try_bind (if creator = FROZEN_TRANSACTION_ID then Inr True
               else if creator = current then Inr (th_command_id h < sn_command s)
               else try_bind (outcome_of creator) (\<lambda>out. Inr (out = Committed \<and> sees_transaction s creator)))
       (\<lambda>creator_visible.
     if \<not> creator_visible then Inr False
     else case txn_new (th_xmax h) of
       None \<Rightarrow> Inr True
     | Some deleter \<Rightarrow>
         if deleter = current then Inr (sn_command s \<le> th_command_id h)
         else try_bind (outcome_of deleter) (\<lambda>out.
           Inr (\<not> (out = Committed \<and> sees_transaction s deleter)))))"

section \<open>Savepoints\<close>

record savepoint =
  svp_id :: u64
  svp_name :: string
  svp_command_id :: u32
  svp_mutation_len :: nat
  svp_lock_len :: nat

record savepoint_stack =
  svs_next_id :: u64
  svs_frames :: "savepoint list"

definition svs_new :: savepoint_stack where
  "svs_new = \<lparr>svs_next_id = 1, svs_frames = []\<rparr>"

text \<open>The derived \<open>Default\<close>.\<close>

definition svs_default :: savepoint_stack where
  "svs_default = \<lparr>svs_next_id = 0, svs_frames = []\<rparr>"

definition svs_push ::
  "string \<Rightarrow> u32 \<Rightarrow> nat \<Rightarrow> nat \<Rightarrow> savepoint_stack \<Rightarrow> u64 res \<times> savepoint_stack" where
  "svs_push name command mutations locks st =
     (if svs_next_id st = 0 then (Inl E_54000, st)
      else let ident = svs_next_id st in
        case checked_add_u64 (svs_next_id st) 1 of
          None \<Rightarrow> (Inl E_54000, st)
        | Some next \<Rightarrow>
            (Inr ident, st\<lparr>svs_next_id := next, svs_frames := svs_frames st @
               [\<lparr>svp_id = ident, svp_name = name, svp_command_id = command,
                 svp_mutation_len = mutations, svp_lock_len = locks\<rparr>]\<rparr>))"

text \<open>\<open>rposition\<close>: the index of the last element that satisfies a test.\<close>

fun rposition :: "('a \<Rightarrow> bool) \<Rightarrow> 'a list \<Rightarrow> nat option" where
  "rposition P [] = None"
| "rposition P (x # xs) =
     (case rposition P xs of Some i \<Rightarrow> Some (Suc i) | None \<Rightarrow> if P x then Some 0 else None)"

definition svs_find :: "string \<Rightarrow> savepoint_stack \<Rightarrow> nat res" where
  "svs_find name st = ok_or E_3B001 (rposition (\<lambda>f. svp_name f = name) (svs_frames st))"

definition get_frame :: "savepoint list \<Rightarrow> nat \<Rightarrow> savepoint option" where
  "get_frame frames i = (if i < length frames then Some (frames ! i) else None)"

definition svs_rollback_to :: "string \<Rightarrow> savepoint_stack \<Rightarrow> savepoint res \<times> savepoint_stack" where
  "svs_rollback_to name st =
     (case svs_find name st of
        Inl e \<Rightarrow> (Inl e, st)
      | Inr i \<Rightarrow>
          let st' = st\<lparr>svs_frames := take (i + 1) (svs_frames st)\<rparr>
          in (ok_or E_XX000 (get_frame (svs_frames st') i), st'))"

definition svs_release :: "string \<Rightarrow> savepoint_stack \<Rightarrow> savepoint res \<times> savepoint_stack" where
  "svs_release name st =
     (case svs_find name st of
        Inl e \<Rightarrow> (Inl e, st)
      | Inr i \<Rightarrow>
          (case get_frame (svs_frames st) i of
             None \<Rightarrow> (Inl E_XX000, st)
           | Some released \<Rightarrow> (Inr released, st\<lparr>svs_frames := take i (svs_frames st)\<rparr>)))"

section \<open>The manager as a status provider\<close>

lemma tm_complete_eq:
  "tm_complete t out tm =
     (if bm_get (tm_statuses tm) t = Some InProgress
      then (Inr (), tm\<lparr>tm_active := bm_remove t (tm_active tm), tm_statuses := bm_insert t out (tm_statuses tm)\<rparr>)
      else if bm_get (tm_statuses tm) t = None then (Inl E_25P01, tm)
      else if bm_get (tm_statuses tm) t = Some out then (Inr (), tm) else (Inl E_25000, tm))"
  by (auto simp: tm_complete_def split: option.splits outcome.splits)

interpretation tm_status: status_provider tm_transaction_outcome tm_complete "\<lambda>_. True"
  by unfold_locales
    (auto simp: tm_complete_eq tm_transaction_outcome_def res_simps split: if_splits)

section \<open>Steps of the manager\<close>

text \<open>
  The steps when transactions begin one after the other, in the order of their ids: \<open>begin\<close> is one
  step, and \<open>register\<close> gets an id that is not below the counter. In the code \<open>begin\<close> allocates and registers
  in two critical sections; the interleavings of those are the relation \<open>tm_race\<close> below. Finished
  transactions are forgotten below any horizon.
\<close>

inductive tm_step :: "txn_manager \<Rightarrow> txn_manager \<Rightarrow> bool" where
  enter: "tm_begin now c tm = (r, tm') \<Longrightarrow> tm_step tm tm'"
| register: "tm_next tm \<le> t \<Longrightarrow> tm_register now t c tm = (r, tm') \<Longrightarrow> tm_step tm tm'"
| refresh: "tm_refresh_snapshot now t cid tm = (r, tm') \<Longrightarrow> tm_step tm tm'"
| safe_turn: "tm_safe_snapshot_turn cancelled now t cid tm = (r, tm') \<Longrightarrow> tm_step tm tm'"
| complete: "out \<noteq> InProgress \<Longrightarrow> tm_complete t out tm = (r, tm') \<Longrightarrow> tm_step tm tm'"
| compact: "tm_compact_before horizon tm = (n, tm') \<Longrightarrow> tm_step tm tm'"
| set_age: "tm_set_maximum_snapshot_age millis tm = (r, tm') \<Longrightarrow> tm_step tm tm'"

inductive_cases tm_stepE: "tm_step tm tm'"

definition tm_ok :: "txn_manager \<Rightarrow> bool" where
  "tm_ok tm \<longleftrightarrow>
     (\<forall>t. bm_contains (tm_active tm) t \<longleftrightarrow> bm_get (tm_statuses tm) t = Some InProgress) \<and>
     (\<forall>t out. bm_get (tm_statuses tm) t = Some out \<longrightarrow> t < tm_next tm) \<and>
     (\<forall>t a u. bm_get (tm_active tm) t = Some a \<longrightarrow> bm_contains (tm_active tm) u \<longrightarrow> u \<noteq> t \<longrightarrow> at_xmin a \<le> u) \<and>
     (\<forall>t a. bm_get (tm_active tm) t = Some a \<longrightarrow> at_xmin a < tm_next tm)"

lemma bm_contains_Some: "bm_get m k = Some v \<Longrightarrow> bm_contains m k"
  by (simp add: bm_contains_def)

lemma tm_new_ok: "tm_ok tm_new"
  by (simp add: tm_ok_def tm_new_def)

lemma tm_from_next_ok: "tm_from_next n = Inr tm \<Longrightarrow> FROZEN_TRANSACTION_ID < n \<Longrightarrow> tm_ok tm"
  by (auto simp: tm_ok_def tm_from_next_def res_simps txn_new_Some_iff split: if_splits)

lemma tm_from_status_ok:
  "tm_from_status_snapshot n statuses = Inr tm \<Longrightarrow>
     (\<forall>t out. bm_get statuses t = Some out \<longrightarrow> t < n \<and> out \<noteq> InProgress) \<Longrightarrow> tm_ok tm"
  by (fastforce simp: tm_ok_def tm_from_status_snapshot_def res_simps txn_new_Some_iff)

lemma snapshot_locked_Ok:
  assumes "snapshot_locked tm t c = Inr s"
  shows "sn_xmax s = tm_next tm" and "sn_command s = c"
    and "bs_set (sn_in_progress s) = {u. bm_contains (tm_active tm) u \<and> u \<noteq> t}"
    and "\<And>u. bm_contains (tm_active tm) u \<Longrightarrow> u \<noteq> t \<Longrightarrow> sn_xmin s \<le> u"
    and "(sn_xmin s = t \<and> bs_set (sn_in_progress s) = {}) \<or> sn_xmin s \<in> bs_set (sn_in_progress s)"
proof -
  let ?ip = "filter (\<lambda>a. a \<noteq> t) (bm_keys (tm_active tm))"
  from assms have s: "s = \<lparr>sn_xmin = (case list_min ?ip of None \<Rightarrow> t | Some m \<Rightarrow> m), sn_xmax = tm_next tm,
      sn_in_progress = bs_of_list ?ip, sn_command = c\<rparr>"
    by (auto simp: snapshot_locked_def res_simps txn_new_Some_iff Let_def)
  have set: "set ?ip = {u. bm_contains (tm_active tm) u \<and> u \<noteq> t}" by (auto simp: bm_contains_iff)
  show "sn_xmax s = tm_next tm" "sn_command s = c" by (simp_all add: s)
  show ip: "bs_set (sn_in_progress s) = {u. bm_contains (tm_active tm) u \<and> u \<noteq> t}"
    unfolding set [symmetric] by (simp add: s)
  show "sn_xmin s \<le> u" if "bm_contains (tm_active tm) u" "u \<noteq> t" for u
  proof -
    from that have u: "u \<in> set ?ip" unfolding set by simp
    then have "?ip \<noteq> []" by (metis list.set(1) empty_iff)
    then obtain m where m: "list_min ?ip = Some m" unfolding list_min_None [symmetric] by blast
    with list_min_le [OF m u] show ?thesis by (simp add: s)
  qed
  show mem: "(sn_xmin s = t \<and> bs_set (sn_in_progress s) = {}) \<or> sn_xmin s \<in> bs_set (sn_in_progress s)"
  proof (cases "list_min ?ip")
    case None
    then have e: "?ip = []" by simp
    then have "set ?ip = {}" by (simp only: list.set(1))
    with ip set None show ?thesis unfolding s by (simp only: txn_snapshot.simps option.case simp_thms)
  next
    case (Some m)
    with list_min_mem [OF Some] show ?thesis unfolding ip set [symmetric] by (simp add: s)
  qed
qed

lemma tm_note_snapshot_fields [simp]:
  "tm_next (tm_note_snapshot now t s tm) = tm_next tm"
  "tm_statuses (tm_note_snapshot now t s tm) = tm_statuses tm"
  "bm_contains (tm_active (tm_note_snapshot now t s tm)) u = bm_contains (tm_active tm) u"
  by (auto simp: tm_note_snapshot_def bm_contains_def split: option.splits)

lemma tm_okD:
  assumes "tm_ok tm"
  shows "bm_contains (tm_active tm) t \<longleftrightarrow> bm_get (tm_statuses tm) t = Some InProgress"
    and "bm_get (tm_statuses tm) t = Some out \<Longrightarrow> t < tm_next tm"
    and "bm_get (tm_active tm) t = Some a \<Longrightarrow> bm_contains (tm_active tm) u \<Longrightarrow> u \<noteq> t \<Longrightarrow> at_xmin a \<le> u"
    and "bm_get (tm_active tm) t = Some a \<Longrightarrow> at_xmin a < tm_next tm"
  using assms unfolding tm_ok_def by blast+

lemma tm_okI:
  assumes "\<And>t. bm_contains (tm_active tm) t \<longleftrightarrow> bm_get (tm_statuses tm) t = Some InProgress"
    and "\<And>t out. bm_get (tm_statuses tm) t = Some out \<Longrightarrow> t < tm_next tm"
    and "\<And>t a u. bm_get (tm_active tm) t = Some a \<Longrightarrow> bm_contains (tm_active tm) u \<Longrightarrow> u \<noteq> t \<Longrightarrow> at_xmin a \<le> u"
    and "\<And>t a. bm_get (tm_active tm) t = Some a \<Longrightarrow> at_xmin a < tm_next tm"
  shows "tm_ok tm"
  using assms unfolding tm_ok_def by blast

lemma active_below_next: "tm_ok tm \<Longrightarrow> bm_contains (tm_active tm) t \<Longrightarrow> t < tm_next tm"
  using tm_okD(1,2) by blast
lemma tm_note_snapshot_ok:
  assumes ok: "tm_ok tm" and s: "snapshot_locked tm t c = Inr s" and t: "bm_contains (tm_active tm) t"
  shows "tm_ok (tm_note_snapshot now t s tm)"
proof (rule tm_okI)
  fix v a
  assume v: "bm_get (tm_active (tm_note_snapshot now t s tm)) v = Some a"
  have "sn_xmin s < tm_next tm"
    using snapshot_locked_Ok(3,5) [OF s] active_below_next [OF ok] t by auto
  then show "at_xmin a < tm_next (tm_note_snapshot now t s tm)"
    using v tm_okD(4) [OF ok]
    by (cases "bm_get (tm_active tm) t") (auto simp: tm_note_snapshot_def split: if_splits)
  show "at_xmin a \<le> u" if "bm_contains (tm_active (tm_note_snapshot now t s tm)) u" "u \<noteq> v" for u
    using v that t snapshot_locked_Ok(4) [OF s] tm_okD(3) [OF ok]
    by (cases "bm_get (tm_active tm) t") (auto simp: tm_note_snapshot_def split: if_splits)
qed (use tm_okD(1,2) [OF ok] in simp_all)

text \<open>How statuses may change: \<open>status_later tm tm'\<close>.\<close>

definition status_later :: "txn_manager \<Rightarrow> txn_manager \<Rightarrow> bool" where
  "status_later tm tm' \<longleftrightarrow> tm_next tm \<le> tm_next tm' \<and>
     (\<forall>u. u < tm_next tm \<longrightarrow> bm_get (tm_statuses tm) u \<noteq> Some InProgress \<longrightarrow>
        bm_get (tm_statuses tm') u = None \<or> bm_get (tm_statuses tm') u = bm_get (tm_statuses tm) u)"

lemma status_later_refl: "status_later tm tm"
  by (simp add: status_later_def)

lemma status_later_same: "tm_next tm' = tm_next tm \<Longrightarrow> tm_statuses tm' = tm_statuses tm \<Longrightarrow> status_later tm tm'"
  by (simp add: status_later_def)

lemma status_later_trans: "status_later a b \<Longrightarrow> status_later b c \<Longrightarrow> status_later a c"
proof -
  assume ab: "status_later a b" and bc: "status_later b c"
  have "bm_get (tm_statuses c) u = None \<or> bm_get (tm_statuses c) u = bm_get (tm_statuses a) u"
    if "u < tm_next a" "bm_get (tm_statuses a) u \<noteq> Some InProgress" for u
  proof -
    have u: "u < tm_next b" using that(1) ab by (auto simp: status_later_def)
    from ab that have b: "bm_get (tm_statuses b) u = None \<or> bm_get (tm_statuses b) u = bm_get (tm_statuses a) u"
      by (auto simp: status_later_def)
    with that(2) have "bm_get (tm_statuses b) u \<noteq> Some InProgress" by auto
    with bc u b show ?thesis by (auto simp: status_later_def)
  qed
  with ab bc show ?thesis by (auto simp: status_later_def)
qed

lemma tm_raised_ok:
  "tm_ok tm \<Longrightarrow> tm_next tm \<le> n \<Longrightarrow> tm_ok (tm\<lparr>tm_next := n\<rparr>) \<and> status_later tm (tm\<lparr>tm_next := n\<rparr>)"
  by (fastforce simp: tm_ok_def status_later_def)

lemma tm_register_enter_ok:
  assumes ok: "tm_ok tm" and t: "tm_next tm \<le> t" "t < n"
    and r: "tm_register_enter now t c (tm\<lparr>tm_next := n\<rparr>) = (r, tm')"
  shows "tm_ok tm' \<and> status_later tm tm'"
proof -
  have n: "tm_next tm \<le> n" using t by simp
  have old: "bm_get (tm_statuses tm) t = None" "bm_get (tm_active tm) t = None"
  proof -
    show "bm_get (tm_statuses tm) t = None" using tm_okD(2) [OF ok, of t] t(1) by fastforce
    then show "bm_get (tm_active tm) t = None" using tm_okD(1) [OF ok, of t] by (simp add: bm_contains_def)
  qed
  show ?thesis
  proof (cases "tm' = tm\<lparr>tm_next := n\<rparr>")
    case True
    with tm_raised_ok [OF ok n] show ?thesis by simp
  next
    case False
    with r obtain s where s: "snapshot_locked (tm\<lparr>tm_next := n\<rparr>) t 0 = Inr s"
      and tm': "tm' = tm\<lparr>tm_next := n, tm_statuses := bm_insert t InProgress (tm_statuses tm),
         tm_active := bm_insert t \<lparr>at_xmin = sn_xmin s, at_acquired = now, at_chars = c\<rparr> (tm_active tm)\<rparr>"
      by (auto simp: tm_register_enter_def split: if_splits sum.splits)
    have act: "bm_contains (tm_active tm') u \<longleftrightarrow> u = t \<or> bm_contains (tm_active tm) u" for u
      by (auto simp: tm')
    have xmin: "sn_xmin s \<le> u" if "bm_contains (tm_active tm) u" for u
    proof -
      from that old have "u \<noteq> t" by (auto simp: bm_contains_def)
      with snapshot_locked_Ok(4) [OF s] that show ?thesis by simp
    qed
    have xn: "sn_xmin s < n"
      using snapshot_locked_Ok(3,5) [OF s] active_below_next [OF ok] n t by (auto intro: less_le_trans)
    have "tm_ok tm'"
    proof (rule tm_okI)
      fix v
      show "bm_contains (tm_active tm') v \<longleftrightarrow> bm_get (tm_statuses tm') v = Some InProgress"
        using tm_okD(1) [OF ok, of v] by (auto simp: act) (auto simp: tm' split: if_splits)
    next
      fix v out
      assume "bm_get (tm_statuses tm') v = Some out"
      then show "v < tm_next tm'"
        using tm_okD(2) [OF ok, of v out] n t by (auto simp: tm' split: if_splits)
    next
      fix v a
      assume v: "bm_get (tm_active tm') v = Some a"
      then show "at_xmin a < tm_next tm'"
        using tm_okD(4) [OF ok, of v a] xn n by (auto simp: tm' split: if_splits)
      show "at_xmin a \<le> u" if u: "bm_contains (tm_active tm') u" "u \<noteq> v" for u
      proof (cases "v = t")
        case True
        with v u xmin show ?thesis by (auto simp: act tm' split: if_splits)
      next
        case False
        then have v': "bm_get (tm_active tm) v = Some a" using v by (simp add: tm')
        show ?thesis
          using u tm_okD(3,4) [OF ok v'] t(1) by (auto simp: act)
      qed
    qed
    moreover have "status_later tm tm'"
      using n t old by (auto simp: status_later_def tm')
    ultimately show ?thesis ..
  qed
qed

lemma tm_raise_eq: "tm_raise n tm = tm\<lparr>tm_next := max (tm_next tm) n\<rparr>"
  by (simp add: tm_raise_def)

lemma tm_safe_turn_cases:
  assumes "tm_safe_snapshot_turn cancelled now t cid tm = (r, tm')"
  shows "tm' = tm \<or> (\<exists>s. snapshot_locked tm t cid = Inr s \<and> bm_contains (tm_active tm) t \<and>
    tm' = tm_note_snapshot now t s tm \<and> r = Inr (Some s) \<and> \<not> cancelled \<and> \<not> unsafe_writer_active t tm)"
proof (cases "cancelled \<or> \<not> bm_contains (tm_active tm) t \<or> unsafe_writer_active t tm")
  case True
  with assms show ?thesis by (cases cancelled) (simp_all add: tm_safe_snapshot_turn_def split: if_splits)
next
  case False
  with assms show ?thesis
    by (cases "snapshot_locked tm t cid") (simp_all add: tm_safe_snapshot_turn_def)
qed

lemma tm_step_ok:
  assumes "tm_step tm tm'" and ok: "tm_ok tm"
  shows "tm_ok tm' \<and> status_later tm tm'"
  using assms(1)
proof (cases rule: tm_step.cases)
  case (enter now c r)
  show ?thesis
  proof (cases "checked_add_u64 (tm_next tm) 1")
    case None
    with enter ok show ?thesis by (auto simp: tm_begin_def tm_allocate_def status_later_refl)
  next
    case (Some n)
    then have n: "tm_next tm < n" "n = tm_next tm + 1"
      by (simp_all add: checked_add_one_less checked_add_u64_Some_iff)
    note raised = tm_raised_ok [OF ok less_imp_le [OF n(1)]]
    from enter Some n consider "tm' = tm\<lparr>tm_next := n\<rparr>"
      | r' where "tm_register_enter now (tm_next tm) c (tm\<lparr>tm_next := n\<rparr>) = (r', tm')"
      by (auto simp: tm_begin_def tm_allocate_def txn_new_def tm_register_def tm_raise_eq
          validate_characteristics_def split: if_splits option.splits)
    then show ?thesis
      by cases (use raised tm_register_enter_ok [OF ok order.refl n(1)] in blast)+
  qed
next
  case (register t now c r)
  show ?thesis
  proof (cases "checked_add_u64 t 1")
    case None
    with register ok show ?thesis
      by (auto simp: tm_register_def status_later_refl split: sum.splits)
  next
    case (Some n)
    then have n: "t < n" by (simp add: checked_add_one_less)
    with register(1) have mx: "max (tm_next tm) n = n" by simp
    from register Some consider "tm' = tm"
      | c' where "tm_register_enter now t c' (tm\<lparr>tm_next := n\<rparr>) = (r, tm')"
      by (auto simp: tm_register_def tm_raise_eq mx split: sum.splits)
    then show ?thesis
      by cases (use ok status_later_refl tm_register_enter_ok [OF ok register(1) n] in blast)+
  qed
next
  case (refresh now t cid r)
  then consider "tm' = tm"
    | s where "snapshot_locked tm t cid = Inr s" "bm_contains (tm_active tm) t" "tm' = tm_note_snapshot now t s tm"
    by (auto simp: tm_refresh_snapshot_def split: if_splits sum.splits)
  then show ?thesis
  proof cases
    case (2 s)
    show ?thesis
      unfolding 2(3) by (intro conjI tm_note_snapshot_ok [OF ok 2(1,2)] status_later_same) simp_all
  qed (simp add: ok status_later_refl)
next
  case (safe_turn cancelled now t cid r)
  from tm_safe_turn_cases [OF safe_turn] consider "tm' = tm"
    | s where "snapshot_locked tm t cid = Inr s" "bm_contains (tm_active tm) t" "tm' = tm_note_snapshot now t s tm"
    by blast
  then show ?thesis
  proof cases
    case (2 s)
    show ?thesis
      unfolding 2(3) by (intro conjI tm_note_snapshot_ok [OF ok 2(1,2)] status_later_same) simp_all
  qed (simp add: ok status_later_refl)
next
  case (complete out t r)
  then consider "tm' = tm" | "bm_get (tm_statuses tm) t = Some InProgress"
      "tm' = tm\<lparr>tm_active := bm_remove t (tm_active tm), tm_statuses := bm_insert t out (tm_statuses tm)\<rparr>"
    by (auto simp: tm_complete_eq split: if_splits)
  then show ?thesis
  proof cases
    case 2
    have "tm_ok tm'"
    proof (rule tm_okI)
      fix v
      show "bm_contains (tm_active tm') v \<longleftrightarrow> bm_get (tm_statuses tm') v = Some InProgress"
        using tm_okD(1) [OF ok, of v] complete(1) by (auto simp: 2)
    qed (use 2 tm_okD(2-4) [OF ok] in \<open>auto split: if_splits\<close>)
    then show ?thesis by (auto simp: status_later_def 2)
  qed (simp add: ok status_later_refl)
next
  case (compact horizon n)
  then have tm': "tm' = tm\<lparr>tm_statuses := bm_retain
      (\<lambda>t out. t = FROZEN_TRANSACTION_ID \<or> horizon \<le> t \<or> out = InProgress) (tm_statuses tm)\<rparr>"
    by (auto simp: tm_compact_before_def Let_def)
  have "tm_ok tm'"
  proof (rule tm_okI)
    fix v
    show "bm_contains (tm_active tm') v \<longleftrightarrow> bm_get (tm_statuses tm') v = Some InProgress"
      using tm_okD(1) [OF ok, of v] by (auto simp: tm' split: option.splits)
  qed (use tm_okD(2-4) [OF ok] in \<open>auto simp: tm' split: option.splits if_splits\<close>)
  then show ?thesis by (auto simp: status_later_def tm' split: option.splits)
next
  case (set_age millis r)
  then have "tm' = tm \<or> (\<exists>x. tm' = tm\<lparr>tm_max_age_millis := x\<rparr>)"
    by (auto simp: tm_set_maximum_snapshot_age_def split: if_splits)
  with ok show ?thesis by (auto simp: tm_ok_def status_later_def)
qed

lemma tm_steps_ok: "tm_step\<^sup>*\<^sup>* tm tm' \<Longrightarrow> tm_ok tm \<Longrightarrow> tm_ok tm' \<and> status_later tm tm'"
proof (induction rule: rtranclp_induct)
  case base
  then show ?case by (simp add: status_later_refl)
next
  case (step y z)
  then show ?case using tm_step_ok status_later_trans by blast
qed

section \<open>What a snapshot sees\<close>

text \<open>
  The specification: a version is visible if its creator is frozen, is an earlier command of
  the reader, or had committed when the snapshot was taken, and the same does not hold of
  its deleter. \<open>C\<close> is the set of the other transactions that had committed.
\<close>

definition visible_spec :: "tuple_header \<Rightarrow> u32 \<Rightarrow> transaction_id \<Rightarrow> transaction_id set \<Rightarrow> bool" where
  "visible_spec h command reader C \<longleftrightarrow>
     (th_xmin h = FROZEN_TRANSACTION_ID \<or>
      (if th_xmin h = reader then th_command_id h < command else th_xmin h \<in> C)) \<and>
     \<not> (th_xmax h \<noteq> 0 \<and> (if th_xmax h = reader then th_command_id h < command else th_xmax h \<in> C))"

definition committed_in :: "txn_manager \<Rightarrow> transaction_id set" where
  "committed_in tm = {u. bm_get (tm_statuses tm) u = Some Committed}"

lemma tuple_visible_Ok:
  assumes v: "tuple_visible h s t f = Inr b"
    and seen: "\<And>u out. u \<noteq> t \<Longrightarrow> f u = Inr out \<Longrightarrow> (out = Committed \<and> sees_transaction s u) \<longleftrightarrow> u \<in> C"
  shows "b \<longleftrightarrow> visible_spec h (sn_command s) t C"
proof -
  let ?cv = "th_xmin h = FROZEN_TRANSACTION_ID \<or>
    (if th_xmin h = t then th_command_id h < sn_command s else th_xmin h \<in> C)"
  have x: "th_xmin h \<noteq> 0" using v by (cases "th_xmin h = 0") (auto simp: tuple_visible_def txn_new_def)
  from v x obtain cv where cv: "(if th_xmin h = FROZEN_TRANSACTION_ID then Inr True
               else if th_xmin h = t then Inr (th_command_id h < sn_command s)
               else try_bind (f (th_xmin h)) (\<lambda>out. Inr (out = Committed \<and> sees_transaction s (th_xmin h)))) = Inr cv"
    and rest: "(if \<not> cv then Inr False
     else case txn_new (th_xmax h) of
       None \<Rightarrow> Inr True
     | Some deleter \<Rightarrow>
         if deleter = t then Inr (sn_command s \<le> th_command_id h)
         else try_bind (f deleter) (\<lambda>out.
           Inr (\<not> (out = Committed \<and> sees_transaction s deleter)))) = Inr b"
    unfolding tuple_visible_def txn_new_def by (auto elim!: try_bindE)
  have cv_iff: "cv \<longleftrightarrow> ?cv"
    using cv seen [of "th_xmin h"] by (auto simp: try_bind_eq_Ok split: if_splits)
  show ?thesis
  proof (cases "cv \<and> th_xmax h \<noteq> 0")
    case False
    with rest have "b = cv" by (auto simp: txn_new_def split: if_splits)
    with False cv_iff show ?thesis by (auto simp: visible_spec_def)
  next
    case True
    show ?thesis
    proof (cases "th_xmax h = t")
      case t: True
      with True rest cv_iff show ?thesis by (auto simp: txn_new_def visible_spec_def not_less)
    next
      case False
      with True rest obtain out where out: "f (th_xmax h) = Inr out"
        and b: "b \<longleftrightarrow> \<not> (out = Committed \<and> sees_transaction s (th_xmax h))"
        by (auto simp: txn_new_def try_bind_eq_Ok)
      from seen [OF False out] b True False cv_iff show ?thesis by (simp add: visible_spec_def)
    qed
  qed
qed

lemma snapshot_sees_committed:
  assumes ok: "tm_ok tm" and s: "snapshot_locked tm t c = Inr s" and later: "status_later tm tm'"
    and ne: "u \<noteq> t" and out: "tm_transaction_outcome tm' u = Inr out"
  shows "(out = Committed \<and> sees_transaction s u) \<longleftrightarrow> u \<in> committed_in tm"
proof -
  from out have st: "bm_get (tm_statuses tm') u = Some out"
    by (simp add: tm_transaction_outcome_def res_simps)
  have sees: "sees_transaction s u \<longleftrightarrow> u < tm_next tm \<and> bm_get (tm_statuses tm) u \<noteq> Some InProgress"
    using snapshot_locked_Ok(1,3) [OF s] tm_okD(1) [OF ok, of u] ne by (auto simp: sees_transaction_iff)
  show ?thesis
  proof (cases "u < tm_next tm \<and> bm_get (tm_statuses tm) u \<noteq> Some InProgress")
    case True
    with later st have "bm_get (tm_statuses tm) u = Some out" by (auto simp: status_later_def)
    with True sees show ?thesis by (auto simp: committed_in_def)
  next
    case False
    then have "bm_get (tm_statuses tm) u \<noteq> Some Committed"
      using tm_okD(2) [OF ok, of u] by (metis option.inject outcome.distinct(1))
    with False sees show ?thesis by (auto simp: committed_in_def)
  qed
qed

section \<open>Properties\<close>

text \<open>
  C2. Snapshot isolation. Take a snapshot in a well-formed state of the manager and let any
  steps follow: transactions begin in the order of their ids (\<open>begin\<close> is one step), refresh, commit, abort, old
  statuses are compacted. Whenever the visibility of any version, old or new, can still be
  decided with that snapshot, the answer is the one of the specification for the
  transactions that had committed when the snapshot was taken, and for the command id the
  snapshot carries: what commits later is never seen.
\<close>

theorem snapshot_isolation:
  assumes "tm_ok tm" and "snapshot_locked tm t c = Inr s" and "tm_step\<^sup>*\<^sup>* tm tm'"
    and "tuple_visible h (with_command_id s command) t (tm_transaction_outcome tm') = Inr b"
  shows "b \<longleftrightarrow> visible_spec h command t (committed_in tm)"
proof -
  have "status_later tm tm'" using tm_steps_ok [OF assms(3,1)] by simp
  from tuple_visible_Ok [OF assms(4)] snapshot_sees_committed [OF assms(1,2) this]
  show ?thesis by (simp add: with_command_id_def sees_transaction_def)
qed

definition tm_demo :: txn_manager where
  "tm_demo = snd (tm_begin 0 characteristics_default (snd (tm_begin 0 characteristics_default tm_new)))"

lemma tm_demo_steps: "tm_step\<^sup>*\<^sup>* tm_new tm_demo" "tm_ok tm_demo"
proof -
  have "tm_step tm_new (snd (tm_begin 0 characteristics_default tm_new))"
    "tm_step (snd (tm_begin 0 characteristics_default tm_new)) tm_demo"
    unfolding tm_demo_def by (rule tm_step.enter, rule surjective_pairing)+
  then show "tm_step\<^sup>*\<^sup>* tm_new tm_demo" by (meson rtranclp.intros)
  from tm_steps_ok [OF this tm_new_ok] show "tm_ok tm_demo" by blast
qed

lemma snapshot_isolation_witness:
  "tuple_visible \<lparr>th_flags = 0, th_column_count = 1, th_xmin = 3, th_xmax = 0, th_command_id = 0, th_previous_version = 0\<rparr>
     (with_command_id (projr (snapshot_locked tm_demo 4 0)) 1) 4
     (tm_transaction_outcome (snd (tm_complete 3 Committed tm_demo))) = Inr False"
proof -
  let ?h = "\<lparr>th_flags = 0, th_column_count = 1, th_xmin = 3, th_xmax = 0, th_command_id = 0, th_previous_version = 0\<rparr>"
  have s: "snapshot_locked tm_demo 4 0 = Inr (projr (snapshot_locked tm_demo 4 0))" by code_simp
  have "tm_step tm_demo (snd (tm_complete 3 Committed tm_demo))"
    by (rule tm_step.complete [of Committed 3 _ "fst (tm_complete 3 Committed tm_demo)"]) simp_all
  moreover have v: "tuple_visible ?h (with_command_id (projr (snapshot_locked tm_demo 4 0)) 1) 4
      (tm_transaction_outcome (snd (tm_complete 3 Committed tm_demo))) = Inr (projr (tuple_visible ?h
        (with_command_id (projr (snapshot_locked tm_demo 4 0)) 1) 4
        (tm_transaction_outcome (snd (tm_complete 3 Committed tm_demo)))))" by code_simp
  ultimately have "projr (tuple_visible ?h (with_command_id (projr (snapshot_locked tm_demo 4 0)) 1) 4
      (tm_transaction_outcome (snd (tm_complete 3 Committed tm_demo)))) \<longleftrightarrow>
      visible_spec ?h 1 4 (committed_in tm_demo)"
    using snapshot_isolation [OF tm_demo_steps(2) s _ v] by blast
  moreover have "bm_get (tm_statuses tm_demo) 3 = Some InProgress" by code_simp
  ultimately show ?thesis using v by (simp add: visible_spec_def committed_in_def)
qed

text \<open>
  A transaction's own writes. Whatever the statuses are, a version that the reader has
  created and deleted itself is invisible to it, one that it has created is visible exactly
  to its later commands, and one that it has deleted stays visible exactly to commands up
  to the deleting one.
\<close>

lemma own_writes_visibility:
  assumes "t \<noteq> 0" and "t \<noteq> FROZEN_TRANSACTION_ID"
  shows "(th_xmin h = t \<and> th_xmax h = t \<longrightarrow> tuple_visible h s t f = Inr False) \<and>
    (th_xmin h = t \<and> th_xmax h = 0 \<longrightarrow> tuple_visible h s t f = Inr (th_command_id h < sn_command s)) \<and>
    (th_xmin h = FROZEN_TRANSACTION_ID \<and> th_xmax h = t \<longrightarrow>
       tuple_visible h s t f = Inr (sn_command s \<le> th_command_id h))"
  using assms by (auto simp: tuple_visible_def txn_new_def)

lemma own_writes_visibility_witness:
  "tuple_visible \<lparr>th_flags = 0, th_column_count = 1, th_xmin = 7, th_xmax = 7, th_command_id = 1,
     th_previous_version = 0\<rparr> \<lparr>sn_xmin = 7, sn_xmax = 8, sn_in_progress = bm_empty, sn_command = 2\<rparr> 7
     (tm_transaction_outcome tm_new) = Inr False"
  by (rule own_writes_visibility [of 7, THEN conjunct1, THEN mp]) simp_all



















text \<open>
  The horizon. In a well-formed state with at least two active transactions the global
  horizon is not above any active transaction nor above the horizon of any snapshot that an
  active transaction noted; with none, it is the counter.
\<close>

lemma global_horizon:
  assumes "tm_ok tm" and "tm_global_xmin tm = Inr horizon"
  shows "(bm_contains (tm_active tm) t \<and> bm_contains (tm_active tm) u \<and> t \<noteq> u \<longrightarrow> horizon \<le> t) \<and>
    (bm_get (tm_active tm) t = Some a \<longrightarrow> horizon \<le> at_xmin a) \<and>
    ((\<forall>v. \<not> bm_contains (tm_active tm) v) \<longrightarrow> horizon = tm_next tm)"
proof -
  let ?xs = "map at_xmin (bm_values (tm_active tm))"
  have le: "horizon \<le> at_xmin b" if "bm_get (tm_active tm) v = Some b" for v b
  proof -
    from that have "b \<in> set (bm_values (tm_active tm))" by (auto simp: set_bm_values)
    then have mem: "at_xmin b \<in> set ?xs" by simp
    then have "?xs \<noteq> []" by auto
    then obtain m where "list_min ?xs = Some m" unfolding list_min_None [symmetric] by blast
    with list_min_le [OF this mem] assms(2) show ?thesis by (simp add: tm_global_xmin_def)
  qed
  have "horizon \<le> t" if "bm_contains (tm_active tm) t" "bm_get (tm_active tm) u = Some b" "t \<noteq> u" for b
    using le [OF that(2)] tm_okD(3) [OF assms(1) that(2,1)] that(3) by simp
  moreover have "horizon = tm_next tm" if none: "\<forall>v. \<not> bm_contains (tm_active tm) v"
  proof -
    have "bm_values (tm_active tm) = []"
    proof (rule ccontr)
      assume "bm_values (tm_active tm) \<noteq> []"
      then obtain b where "b \<in> set (bm_values (tm_active tm))" by (meson list.set_sel(1))
      with none show False by (auto simp: set_bm_values bm_contains_def)
    qed
    with assms(2) show ?thesis by (simp add: tm_global_xmin_def list_min_def res_simps txn_new_Some_iff)
  qed
  ultimately show ?thesis using le by (auto simp: bm_contains_def)
qed

lemma global_horizon_witness: "tm_global_xmin tm_demo = Inr 3"
proof -
  have h: "tm_global_xmin tm_demo = Inr (projr (tm_global_xmin tm_demo))" by code_simp
  have "bm_contains (tm_active tm_demo) 3" "bm_contains (tm_active tm_demo) 4" by code_simp+
  with global_horizon [OF tm_demo_steps(2) h, of 3 4] have "projr (tm_global_xmin tm_demo) \<le> 3" by simp
  moreover have "3 \<le> projr (tm_global_xmin tm_demo)" by code_simp
  ultimately show ?thesis using h by simp
qed

text \<open>
  A gap of the horizon: with one active transaction it can lie above that transaction.
  A READ COMMITTED transaction that refreshes its snapshot while a younger one runs notes
  the younger id as its horizon, because \<open>snapshot_locked\<close> leaves the transaction itself
  out of the minimum; when the younger one has finished, the global horizon is 4 although 3
  is still in progress.
\<close>

theorem horizon_above_active:
  "let tm = snd (tm_complete 4 Committed (snd (tm_refresh_snapshot 0 3 1 tm_demo)))
   in tm_step\<^sup>*\<^sup>* tm_new tm \<and> tm_global_xmin tm = Inr 4 \<and> bm_contains (tm_active tm) 3"
proof -
  let ?tm1 = "snd (tm_refresh_snapshot 0 3 1 tm_demo)"
  have "tm_step tm_demo ?tm1"
    by (rule tm_step.refresh [of 0 3 1 _ "fst (tm_refresh_snapshot 0 3 1 tm_demo)"]) simp
  moreover have "tm_step ?tm1 (snd (tm_complete 4 Committed ?tm1))"
    by (rule tm_step.complete [of Committed 4 _ "fst (tm_complete 4 Committed ?tm1)"]) simp_all
  ultimately have "tm_step\<^sup>*\<^sup>* tm_new (snd (tm_complete 4 Committed ?tm1))"
    using tm_demo_steps(1) by (meson rtranclp.rtrancl_into_rtrancl)
  moreover have "tm_global_xmin (snd (tm_complete 4 Committed ?tm1)) = Inr 4 \<and>
      bm_contains (tm_active (snd (tm_complete 4 Committed ?tm1))) 3" by code_simp
  ultimately show ?thesis by (simp add: Let_def)
qed

text \<open>
  A gap of the protocol: ids must be registered in order. Here the id 3 is allocated, 4
  is allocated and registered and takes its snapshot, and only then 3 is registered and
  commits (two threads between the two halves of \<open>begin\<close> do this). A version of 3 is visible
  in the snapshot of 4 although 3 had not committed when it was taken.
\<close>

theorem late_registration_is_seen:
  "let tm0 = snd (tm_allocate tm_new);
       tm1 = snd (tm_begin 0 characteristics_default tm0);
       s = projr (snapshot_locked tm1 4 1);
       tm2 = snd (tm_register 0 3 characteristics_default tm1);
       tm3 = snd (tm_complete 3 Committed tm2);
       h = \<lparr>th_flags = 0, th_column_count = 1, th_xmin = 3, th_xmax = 0, th_command_id = 0, th_previous_version = 0\<rparr>
   in fst (tm_allocate tm_new) = Inr 3 \<and> is_ok (fst (tm_register 0 3 characteristics_default tm1)) \<and>
      bm_get (tm_statuses tm1) 3 = None \<and> tuple_visible h s 4 (tm_transaction_outcome tm3) = Inr True"
  by code_simp

lemma rposition_split:
  "(\<forall>x \<in> set zs. \<not> P x) \<Longrightarrow> P x \<Longrightarrow> rposition P (ys @ x # zs) = Some (length ys)"
proof (induction ys)
  case Nil
  have "rposition P zs = None" if "\<forall>x \<in> set zs. \<not> P x" for zs
    using that by (induction zs) auto
  with Nil show ?case by simp
next
  case (Cons y ys)
  then show ?case by simp
qed

lemma rposition_none: "\<forall>x \<in> set xs. \<not> P x \<Longrightarrow> rposition P xs = None"
  by (induction xs) auto

text \<open>
  Savepoints. \<open>rollback_to\<close> finds the last frame of the name, keeps it and drops what
  was pushed after it; \<open>release\<close> drops it as well; both return it. If there is no frame of
  the name both fail with 3B001 and change nothing.
\<close>

lemma savepoint_stack_correct:
  shows "(svs_frames st = ys @ f # zs \<and> svp_name f = n \<and> (\<forall>g \<in> set zs. svp_name g \<noteq> n) \<longrightarrow>
      svs_rollback_to n st = (Inr f, st\<lparr>svs_frames := ys @ [f]\<rparr>) \<and>
      svs_release n st = (Inr f, st\<lparr>svs_frames := ys\<rparr>)) \<and>
    ((\<forall>g \<in> set (svs_frames st). svp_name g \<noteq> n) \<longrightarrow>
      svs_rollback_to n st = (Inl E_3B001, st) \<and> svs_release n st = (Inl E_3B001, st))"
proof (intro conjI impI; (elim conjE)?)
  assume fr: "svs_frames st = ys @ f # zs" and n: "svp_name f = n" and later: "\<forall>g \<in> set zs. svp_name g \<noteq> n"
  have pos: "svs_find n st = Inr (length ys)"
    using rposition_split [OF later, of f ys] n by (simp add: svs_find_def fr)
  show "svs_rollback_to n st = (Inr f, st\<lparr>svs_frames := ys @ [f]\<rparr>)"
    by (simp add: svs_rollback_to_def pos get_frame_def fr)
  show "svs_release n st = (Inr f, st\<lparr>svs_frames := ys\<rparr>)"
    by (simp add: svs_release_def pos get_frame_def fr)
next
  assume none: "\<forall>g \<in> set (svs_frames st). svp_name g \<noteq> n"
  then have pos: "svs_find n st = Inl E_3B001" by (simp add: svs_find_def rposition_none)
  show "svs_rollback_to n st = (Inl E_3B001, st)" "svs_release n st = (Inl E_3B001, st)"
    by (simp_all add: svs_rollback_to_def svs_release_def pos)
qed

lemma savepoint_stack_correct_witness:
  "svs_frames (snd (svs_rollback_to ''a'' (snd (svs_push ''b'' 2 0 0 (snd (svs_push ''a'' 1 0 0 svs_new)))))) =
     [\<lparr>svp_id = 1, svp_name = ''a'', svp_command_id = 1, svp_mutation_len = 0, svp_lock_len = 0\<rparr>]"
proof -
  let ?st = "snd (svs_push ''b'' 2 0 0 (snd (svs_push ''a'' 1 0 0 svs_new)))"
  let ?a = "\<lparr>svp_id = 1, svp_name = ''a'', svp_command_id = 1, svp_mutation_len = 0, svp_lock_len = 0\<rparr> :: savepoint"
  let ?b = "\<lparr>svp_id = 2, svp_name = ''b'', svp_command_id = 2, svp_mutation_len = 0, svp_lock_len = 0\<rparr> :: savepoint"
  have "svs_frames ?st = [] @ ?a # [?b]" by code_simp
  then have "svs_rollback_to ''a'' ?st = (Inr ?a, ?st\<lparr>svs_frames := [] @ [?a]\<rparr>)"
    using savepoint_stack_correct [of ?st "[]" ?a "[?b]" "''a''"] by simp
  then show ?thesis by simp
qed

end
