(* ===== verification/Effect.thy ===== *)
theory Effect
  imports OrdaBase
begin

text \<open>
  Operations with a state: a method that may fail after it has changed something is a
  function from the state to a result and the new state. \<open>eff_bind\<close> is a statement followed
  by the rest of the method, with the question-mark operator on its result.

  The operating system is an oracle: a list of the outcomes of the calls to come, one entry
  for each call that can fail, with success when the list is empty.
\<close>

type_synonym ('s, 'e, 'a) effect = "'s \<Rightarrow> ('e + 'a) \<times> 's"

type_synonym ('s, 'a) eff = "('s, db_error, 'a) effect"

definition eff_return :: "'a \<Rightarrow> ('s, 'e, 'a) effect" where
  "eff_return x s = (Inr x, s)"

definition eff_fail :: "'e \<Rightarrow> ('s, 'e, 'a) effect" where
  "eff_fail e s = (Inl e, s)"

definition eff_res :: "'e + 'a \<Rightarrow> ('s, 'e, 'a) effect" where
  "eff_res r s = (r, s)"

definition eff_get :: "('s \<Rightarrow> 'a) \<Rightarrow> ('s, 'e, 'a) effect" where
  "eff_get f s = (Inr (f s), s)"

definition eff_put :: "('s \<Rightarrow> 's) \<Rightarrow> ('s, 'e, unit) effect" where
  "eff_put f s = (Inr (), f s)"

definition eff_bind :: "('s, 'e, 'a) effect \<Rightarrow> ('a \<Rightarrow> ('s, 'e, 'b) effect) \<Rightarrow> ('s, 'e, 'b) effect" where
  "eff_bind f g s = (case f s of (Inl e, s') \<Rightarrow> (Inl e, s') | (Inr x, s') \<Rightarrow> g x s')"

text \<open>\<open>let _ = f()\<close>: the result is dropped.\<close>

definition eff_ignore :: "('s, 'e, 'a) effect \<Rightarrow> ('s, 'e, unit) effect" where
  "eff_ignore f s = (case f s of (_, s') \<Rightarrow> (Inr (), s'))"

text \<open>An operation on the first or the second part of a state.\<close>

definition on_fst :: "('s, 'e, 'a) effect \<Rightarrow> ('s \<times> 't, 'e, 'a) effect" where
  "on_fst f st = (case f (fst st) of (r, s') \<Rightarrow> (r, (s', snd st)))"

definition on_snd :: "('t, 'e, 'a) effect \<Rightarrow> ('s \<times> 't, 'e, 'a) effect" where
  "on_snd f st = (case f (snd st) of (r, t') \<Rightarrow> (r, (fst st, t')))"

text \<open>\<open>if bad { return Err(e) }\<close> before the rest of the method.\<close>

definition eff_guard :: "bool \<Rightarrow> 'e \<Rightarrow> ('s, 'e, 'a) effect \<Rightarrow> ('s, 'e, 'a) effect" where
  "eff_guard bad e k = (if bad then eff_fail e else k)"

lemma eff_guard_simps [simp]: "eff_guard True e k = eff_fail e" "eff_guard False e k = k"
  by (simp_all add: eff_guard_def)

lemma eff_guard_Ok: "eff_guard bad e k s = (Inr x, s') \<longleftrightarrow> \<not> bad \<and> k s = (Inr x, s')"
  by (simp add: eff_guard_def eff_fail_def)

text \<open>An operation on a part of a state.\<close>

definition eff_on :: "('s \<Rightarrow> 't) \<Rightarrow> ('t \<Rightarrow> 's \<Rightarrow> 's) \<Rightarrow> ('t, 'e, 'a) effect \<Rightarrow> ('s, 'e, 'a) effect" where
  "eff_on get put f s = (case f (get s) of (r, t) \<Rightarrow> (r, put t s))"

text \<open>\<open>if let Err(error) = f() { repair(); return Err(error) }\<close>.\<close>

definition eff_on_error :: "('s, 'e, 'a) effect \<Rightarrow> ('s \<Rightarrow> 's) \<Rightarrow> ('s, 'e, 'a) effect" where
  "eff_on_error f h s = (case f s of (Inl e, s') \<Rightarrow> (Inl e, h s') | (Inr x, s') \<Rightarrow> (Inr x, s'))"

primrec eff_each :: "('x \<Rightarrow> ('s, 'e, unit) effect) \<Rightarrow> 'x list \<Rightarrow> ('s, 'e, unit) effect" where
  "eff_each f [] = eff_return ()"
| "eff_each f (x # xs) = eff_bind (f x) (\<lambda>_. eff_each f xs)"

lemma eff_simps [simp]:
  "eff_return x s = (Inr x, s)"
  "eff_fail e s = (Inl e, s)"
  "eff_res r s = (r, s)"
  "eff_get f s = (Inr (f s), s)"
  "eff_put g s = (Inr (), g s)"
  by (simp_all add: eff_return_def eff_fail_def eff_res_def eff_get_def eff_put_def)

lemma eff_bind_cases:
  assumes "eff_bind f g s = (r, s')"
  obtains e where "f s = (Inl e, s')" and "r = Inl e"
  | x s1 where "f s = (Inr x, s1)" and "g x s1 = (r, s')"
  using assms by (auto simp: eff_bind_def split: prod.splits sum.splits)

lemma eff_bind_Ok:
  assumes "eff_bind f g s = (Inr y, s')"
  obtains x s1 where "f s = (Inr x, s1)" and "g x s1 = (Inr y, s')"
  using assms by (auto elim: eff_bind_cases)

lemma eff_bind_step [simp]:
  "f s = (Inr x, s1) \<Longrightarrow> eff_bind f g s = g x s1"
  "f s = (Inl e, s1) \<Longrightarrow> eff_bind f g s = (Inl e, s1)"
  by (simp_all add: eff_bind_def)

lemma eff_bind_cong [fundef_cong]:
  "f s = f' s' \<Longrightarrow> (\<And>x s1. f' s' = (Inr x, s1) \<Longrightarrow> g x s1 = g' x s1) \<Longrightarrow> eff_bind f g s = eff_bind f' g' s'"
  by (auto simp: eff_bind_def split: prod.splits sum.splits)

section \<open>Invariants of operations\<close>

text \<open>\<open>f\<close> keeps \<open>I\<close>, whether it succeeds or not; its value satisfies \<open>Q\<close>.\<close>

definition eff_keeps :: "('s \<Rightarrow> bool) \<Rightarrow> ('a \<Rightarrow> bool) \<Rightarrow> ('s, 'e, 'a) effect \<Rightarrow> bool" where
  "eff_keeps I Q f \<longleftrightarrow> (\<forall>s. I s \<longrightarrow> I (snd (f s)) \<and> (\<forall>x. fst (f s) = Inr x \<longrightarrow> Q x))"

lemma eff_keepsI: "(\<And>s r s'. I s \<Longrightarrow> f s = (r, s') \<Longrightarrow> I s' \<and> (\<forall>x. r = Inr x \<longrightarrow> Q x)) \<Longrightarrow> eff_keeps I Q f"
  unfolding eff_keeps_def by (metis prod.collapse)

lemma eff_keepsD: "eff_keeps I Q f \<Longrightarrow> I s \<Longrightarrow> f s = (r, s') \<Longrightarrow> I s'"
  unfolding eff_keeps_def by (metis snd_conv)

lemma eff_keepsQ: "eff_keeps I Q f \<Longrightarrow> I s \<Longrightarrow> f s = (Inr x, s') \<Longrightarrow> Q x"
  unfolding eff_keeps_def by (metis fst_conv)

lemma eff_keeps_bind:
  assumes f: "eff_keeps I P f" and g: "\<And>x. P x \<Longrightarrow> eff_keeps I Q (g x)"
  shows "eff_keeps I Q (eff_bind f g)"
proof (rule eff_keepsI)
  fix s r s'
  assume I: "I s" and e: "eff_bind f g s = (r, s')"
  from e show "I s' \<and> (\<forall>x. r = Inr x \<longrightarrow> Q x)"
  proof (cases rule: eff_bind_cases)
    case (1 e)
    with eff_keepsD [OF f I] show ?thesis by simp
  next
    case (2 x s1)
    note G = g [OF eff_keepsQ [OF f I 2(1)]]
    from eff_keepsD [OF G eff_keepsD [OF f I 2(1)] 2(2)] eff_keepsQ [OF G eff_keepsD [OF f I 2(1)]] 2(2) show ?thesis by auto
  qed
qed

lemma eff_keeps_weaken: "eff_keeps I P f \<Longrightarrow> (\<And>x. P x \<Longrightarrow> Q x) \<Longrightarrow> eff_keeps I Q f"
  by (auto simp: eff_keeps_def)

lemma eff_keeps_seq: "eff_keeps I (\<lambda>_. True) f \<Longrightarrow> (\<And>x. eff_keeps I Q (g x)) \<Longrightarrow> eff_keeps I Q (eff_bind f g)"
  by (rule eff_keeps_bind)

lemma eff_keeps_base:
  "Q x \<Longrightarrow> eff_keeps I Q (eff_return x)" "eff_keeps I Q (eff_fail e)"
  "(\<And>x. r = Inr x \<Longrightarrow> Q x) \<Longrightarrow> eff_keeps I Q (eff_res r)"
  "(\<And>s. I s \<Longrightarrow> Q (h s)) \<Longrightarrow> eff_keeps I Q (eff_get h)"
  by (auto simp: eff_keeps_def)

lemma eff_keeps_put: "(\<And>s. I s \<Longrightarrow> I (u s)) \<Longrightarrow> eff_keeps I (\<lambda>_. True) (eff_put u)"
  by (simp add: eff_keeps_def)

lemma eff_keeps_guard: "(\<not> bad \<Longrightarrow> eff_keeps I Q k) \<Longrightarrow> eff_keeps I Q (eff_guard bad e k)"
  by (cases bad) (simp_all add: eff_keeps_def)

lemma eff_keeps_if: "(b \<Longrightarrow> eff_keeps I Q f) \<Longrightarrow> (\<not> b \<Longrightarrow> eff_keeps I Q g) \<Longrightarrow> eff_keeps I Q (if b then f else g)"
  by simp

lemma eff_keeps_each: "(\<And>x. x \<in> set xs \<Longrightarrow> eff_keeps I (\<lambda>_. True) (f x)) \<Longrightarrow> eff_keeps I (\<lambda>_. True) (eff_each f xs)"
proof (induction xs)
  case Nil
  show ?case by (simp add: eff_keeps_def)
next
  case (Cons x xs)
  have "eff_keeps I (\<lambda>_. True) (eff_bind (f x) (\<lambda>_. eff_each f xs))"
    by (rule eff_keeps_seq) (use Cons in simp_all)
  then show ?case by simp
qed

lemma eff_keeps_on_error:
  "eff_keeps I Q f \<Longrightarrow> (\<And>s. I s \<Longrightarrow> I (h s)) \<Longrightarrow> eff_keeps I Q (eff_on_error f h)"
  by (auto simp: eff_keeps_def eff_on_error_def split: prod.split sum.split)

section \<open>The operating system\<close>

text \<open>\<open>IoFail n\<close>: the call fails; a write has written its first \<open>n\<close> bytes.\<close>

datatype io = IoOk | IoFail nat

definition next_io :: "io list \<Rightarrow> io \<times> io list" where
  "next_io os = (case os of [] \<Rightarrow> (IoOk, []) | x # xs \<Rightarrow> (x, xs))"

lemma next_io_simps [simp]: "next_io [] = (IoOk, [])" "next_io (x # xs) = (x, xs)"
  by (simp_all add: next_io_def)

text \<open>
  A file: its bytes, and how many of them have been forced to the disk. A crash keeps the
  forced ones and any prefix of the rest (the files here are append-only).
\<close>

record log_file =
  lf_bytes :: "u8 list"
  lf_synced :: nat

definition crash_images :: "log_file \<Rightarrow> u8 list set" where
  "crash_images f = {take k (lf_bytes f) |k. lf_synced f \<le> k}"

end
