(* ===== verification/WalRecord.thy ===== *)
theory WalRecord
  imports Page Reader BTreeMap
begin

text \<open>
  The records of the write-ahead log, crates/ordadb-transaction/src/record.rs: payloads,
  validation, the byte format with its 48 byte header, and the decoder.

  A record's page images are slotted pages of the theory Page. LSNs and transaction ids are
  non-zero words in the code (\<open>NonZeroU64\<close>), which \<open>record_wf\<close> states for the model. The
  functions that read and write a word at an offset are those of the theory Page; the
  checksum function \<open>crc\<close> (crc32c) is a parameter.
\<close>

section \<open>Records\<close>

abbreviation (input) WAL_FORMAT_VERSION :: u16 where "WAL_FORMAT_VERSION \<equiv> 1"
abbreviation (input) WAL_HEADER_LEN :: nat where "WAL_HEADER_LEN \<equiv> 48"
abbreviation (input) WAL_CHECKSUM_OFFSET :: nat where "WAL_CHECKSUM_OFFSET \<equiv> 44"
abbreviation (input) PAGE_UPDATE_PAYLOAD_LEN :: nat where "PAGE_UPDATE_PAYLOAD_LEN \<equiv> 16394"
abbreviation (input) WAL_MAX_RECORD_LEN :: nat where "WAL_MAX_RECORD_LEN \<equiv> 16442"

definition wal_magic :: "u8 list" where
  "wal_magic = [79, 82, 68, 65, 87, 65, 76, 49]"

datatype record_kind =
  RkBegin | RkPageUpdate | RkResize | RkCommit | RkAbort | RkCompensation | RkCheckpointBegin | RkCheckpointEnd

fun record_kind_byte :: "record_kind \<Rightarrow> u8" where
  "record_kind_byte RkBegin = 1"
| "record_kind_byte RkPageUpdate = 2"
| "record_kind_byte RkResize = 3"
| "record_kind_byte RkCommit = 4"
| "record_kind_byte RkAbort = 5"
| "record_kind_byte RkCompensation = 6"
| "record_kind_byte RkCheckpointBegin = 7"
| "record_kind_byte RkCheckpointEnd = 8"

definition record_kind_try_from :: "u8 \<Rightarrow> record_kind res" where
  "record_kind_try_from v =
     (if v = 1 then Inr RkBegin
      else if v = 2 then Inr RkPageUpdate
      else if v = 3 then Inr RkResize
      else if v = 4 then Inr RkCommit
      else if v = 5 then Inr RkAbort
      else if v = 6 then Inr RkCompensation
      else if v = 7 then Inr RkCheckpointBegin
      else if v = 8 then Inr RkCheckpointEnd
      else Inl E_XX001)"

record checkpoint_begin =
  cb_active_transactions :: "(transaction_id, lsn) btree_map"
  cb_dirty_pages :: "(page_id, lsn) btree_map"
  cb_visibility_horizon :: "transaction_id option"

record checkpoint_end =
  ce_begin_lsn :: lsn
  ce_durable_data_generation :: u64
  ce_durable_wal_lsn :: lsn
  ce_data_file_page_count :: u64

datatype wal_payload =
    WpBegin
  | WpPageUpdate page_id "slotted_page option" "slotted_page option"
  | WpResize u64 u64
  | WpCommit
  | WpAbort
  | WpCompensation page_id "slotted_page option" u64 "lsn option"
  | WpCheckpointBegin checkpoint_begin
  | WpCheckpointEnd checkpoint_end

fun payload_kind :: "wal_payload \<Rightarrow> record_kind" where
  "payload_kind WpBegin = RkBegin"
| "payload_kind (WpPageUpdate _ _ _) = RkPageUpdate"
| "payload_kind (WpResize _ _) = RkResize"
| "payload_kind WpCommit = RkCommit"
| "payload_kind WpAbort = RkAbort"
| "payload_kind (WpCompensation _ _ _ _) = RkCompensation"
| "payload_kind (WpCheckpointBegin _) = RkCheckpointBegin"
| "payload_kind (WpCheckpointEnd _) = RkCheckpointEnd"

record wal_record =
  wr_lsn :: lsn
  wr_txn :: "transaction_id option"
  wr_prev :: "lsn option"
  wr_payload :: wal_payload

definition wr_kind :: "wal_record \<Rightarrow> record_kind" where
  "wr_kind r = payload_kind (wr_payload r)"

section \<open>Validation\<close>

definition validate_page_image ::
  "(u8 list \<Rightarrow> u32) \<Rightarrow> page_id \<Rightarrow> slotted_page option \<Rightarrow> lsn option \<Rightarrow> unit res" where
  "validate_page_image crc pid page required =
     (case page of
        None \<Rightarrow> Inr ()
      | Some p \<Rightarrow>
          try_bind (page_validate crc p) (\<lambda>_.
          guard_res (page_id_of p \<noteq> pid) E_XX001 (
          guard_res (case required of None \<Rightarrow> False | Some l \<Rightarrow> page_lsn p \<noteq> l) E_XX001 (Inr ()))))"

definition system_payload :: "wal_payload \<Rightarrow> bool" where
  "system_payload p = (payload_kind p = RkCheckpointBegin \<or> payload_kind p = RkCheckpointEnd)"

fun validate_payload :: "(u8 list \<Rightarrow> u32) \<Rightarrow> lsn \<Rightarrow> wal_payload \<Rightarrow> unit res" where
  "validate_payload crc l (WpPageUpdate pid before after) =
     guard_res (before = None \<and> after = None) E_XX001 (
     try_bind (validate_page_image crc pid before None) (\<lambda>_.
       validate_page_image crc pid after (Some l)))"
| "validate_payload crc l (WpResize before after) = guard_res (before = after) E_XX001 (Inr ())"
| "validate_payload crc l (WpCompensation pid undo _ _) = validate_page_image crc pid undo (Some l)"
| "validate_payload crc l (WpCheckpointBegin cb) =
     guard_res (list_ex (\<lambda>x. l \<le> x) (bm_values (cb_active_transactions cb) @ bm_values (cb_dirty_pages cb)))
       E_XX001 (Inr ())"
| "validate_payload crc l (WpCheckpointEnd ce) =
     guard_res (l \<le> ce_begin_lsn ce) E_XX001 (
     guard_res (l < ce_durable_wal_lsn ce) E_XX001 (Inr ()))"
| "validate_payload crc l WpBegin = Inr ()"
| "validate_payload crc l WpCommit = Inr ()"
| "validate_payload crc l WpAbort = Inr ()"

definition record_validate :: "(u8 list \<Rightarrow> u32) \<Rightarrow> wal_record \<Rightarrow> unit res" where
  "record_validate crc r =
     (let system_record = system_payload (wr_payload r) in
      guard_res (system_record \<noteq> (wr_txn r = None)) E_XX001 (
      guard_res (system_record \<and> wr_prev r \<noteq> None) E_XX001 (
      guard_res (wr_payload r = WpBegin \<and> wr_prev r \<noteq> None) E_XX001 (
      guard_res (\<not> system_record \<and> wr_payload r \<noteq> WpBegin \<and> wr_prev r = None) E_XX001 (
      guard_res (case wr_prev r of None \<Rightarrow> False | Some prev \<Rightarrow> wr_lsn r \<le> prev) E_XX001 (
        validate_payload crc (wr_lsn r) (wr_payload r)))))))"

definition record_new ::
  "(u8 list \<Rightarrow> u32) \<Rightarrow> lsn \<Rightarrow> transaction_id option \<Rightarrow> lsn option \<Rightarrow> wal_payload \<Rightarrow> wal_record res" where
  "record_new crc l t prev p =
     (let r = \<lparr>wr_lsn = l, wr_txn = t, wr_prev = prev, wr_payload = p\<rparr>
      in try_bind (record_validate crc r) (\<lambda>_. Inr r))"

section \<open>Encoding\<close>

definition push_page :: "slotted_page option \<Rightarrow> u8 list" where
  "push_page p = (case p of Some p \<Rightarrow> 1 # sealed_bytes p | None \<Rightarrow> [0])"

definition push_count :: "nat \<Rightarrow> u8 list res" where
  "push_count n = guard_res (2 ^ 32 \<le> n) E_XX001 (Inr (to_le_u32 (of_nat n)))"

definition push_pairs :: "(u64, u64) btree_map \<Rightarrow> u8 list" where
  "push_pairs m = concat (map (\<lambda>(k, l). to_le_u64 k @ to_le_u64 l) (bm_list m))"

fun payload_bytes :: "wal_payload \<Rightarrow> u8 list res" where
  "payload_bytes WpBegin = Inr []"
| "payload_bytes WpCommit = Inr []"
| "payload_bytes WpAbort = Inr []"
| "payload_bytes (WpPageUpdate pid before after) = Inr (to_le_u64 pid @ push_page before @ push_page after)"
| "payload_bytes (WpResize before after) = Inr (to_le_u64 before @ to_le_u64 after)"
| "payload_bytes (WpCompensation pid undo count undo_next) =
     Inr (to_le_u64 pid @ push_page undo @ to_le_u64 count @
          to_le_u64 (case undo_next of None \<Rightarrow> 0 | Some l \<Rightarrow> l))"
| "payload_bytes (WpCheckpointBegin cb) =
     try_bind (push_count (bm_len (cb_active_transactions cb))) (\<lambda>na.
     try_bind (push_count (bm_len (cb_dirty_pages cb))) (\<lambda>nd.
       Inr (na @ push_pairs (cb_active_transactions cb) @ nd @ push_pairs (cb_dirty_pages cb) @
            (case cb_visibility_horizon cb of None \<Rightarrow> [] | Some t \<Rightarrow> to_le_u64 t))))"
| "payload_bytes (WpCheckpointEnd ce) =
     Inr (to_le_u64 (ce_begin_lsn ce) @ to_le_u64 (ce_durable_data_generation ce) @
          to_le_u64 (ce_durable_wal_lsn ce) @ to_le_u64 (ce_data_file_page_count ce))"

definition encode_payload :: "wal_payload \<Rightarrow> u8 list res" where
  "encode_payload p =
     try_bind (payload_bytes p) (\<lambda>bs.
       guard_res (WAL_MAX_RECORD_LEN - WAL_HEADER_LEN < length bs) E_XX001 (Inr bs))"

definition record_bytes :: "wal_record \<Rightarrow> u8 list \<Rightarrow> u8 list" where
  "record_bytes r payload =
     (let total_len = WAL_HEADER_LEN + length payload;
          bs = splice 0 wal_magic (replicate total_len 0);
          bs = write_u16 8 WAL_FORMAT_VERSION bs;
          bs = bs[10 := record_kind_byte (wr_kind r)];
          bs = bs[11 := 0];
          bs = write_u32 12 (of_nat total_len) bs;
          bs = write_u64 16 (wr_lsn r) bs;
          bs = write_u64 24 (case wr_txn r of None \<Rightarrow> 0 | Some t \<Rightarrow> t) bs;
          bs = write_u64 32 (case wr_prev r of None \<Rightarrow> 0 | Some l \<Rightarrow> l) bs;
          bs = write_u32 40 (of_nat (length payload)) bs
      in splice WAL_HEADER_LEN payload bs)"

definition record_encode :: "(u8 list \<Rightarrow> u32) \<Rightarrow> wal_record \<Rightarrow> u8 list res" where
  "record_encode crc r =
     try_bind (record_validate crc r) (\<lambda>_.
     try_bind (encode_payload (wr_payload r)) (\<lambda>payload.
     try_bind (ok_or E_XX001 (checked_add_usize WAL_HEADER_LEN (length payload))) (\<lambda>total_len.
     guard_res (WAL_MAX_RECORD_LEN < total_len) E_XX001 (
       let bs = record_bytes r payload
       in Inr (write_u32 WAL_CHECKSUM_OFFSET (crc bs) bs)))))"

section \<open>Decoding\<close>

record record_header =
  rh_kind :: record_kind
  rh_total_len :: nat
  rh_lsn :: lsn
  rh_txn :: "transaction_id option"
  rh_prev :: "lsn option"
  rh_checksum :: u32

definition optional_transaction_id :: "u64 \<Rightarrow> transaction_id option res" where
  "optional_transaction_id v = (if v = 0 then Inr None else try_bind (txn_try_from v) (\<lambda>t. Inr (Some t)))"

definition optional_lsn :: "u64 \<Rightarrow> lsn option res" where
  "optional_lsn v = (if v = 0 then Inr None else try_bind (lsn_try_from v) (\<lambda>l. Inr (Some l)))"

definition parse_header :: "u8 list \<Rightarrow> record_header res" where
  "parse_header bs =
     guard_res (length bs < WAL_HEADER_LEN) E_XX001 (
     guard_res (slice 0 8 bs \<noteq> wal_magic) E_XX001 (
     guard_res (read_u16 bs 8 \<noteq> WAL_FORMAT_VERSION) E_0A000 (
     try_bind (record_kind_try_from (bs ! 10)) (\<lambda>kind.
     guard_res (bs ! 11 \<noteq> 0) E_XX001 (
     let total_len = unat (read_u32 bs 12) in
     guard_res (total_len < WAL_HEADER_LEN \<or> WAL_MAX_RECORD_LEN < total_len) E_XX001 (
     let payload_len = unat (read_u32 bs 40) in
     guard_res (payload_len \<noteq> total_len - WAL_HEADER_LEN) E_XX001 (
     try_bind (lsn_try_from (read_u64 bs 16)) (\<lambda>l.
     try_bind (optional_transaction_id (read_u64 bs 24)) (\<lambda>t.
     try_bind (optional_lsn (read_u64 bs 32)) (\<lambda>prev.
       Inr \<lparr>rh_kind = kind, rh_total_len = total_len, rh_lsn = l, rh_txn = t, rh_prev = prev,
            rh_checksum = read_u32 bs WAL_CHECKSUM_OFFSET\<rparr>))))))))))"

text \<open>
  The \<open>Decoder\<close>; its cursor is that of the theory Reader. The offset is at most the length of
  a vector and \<open>n\<close> at most a page, so the checked addition of the code cannot overflow.
\<close>

definition dec_take :: "nat \<Rightarrow> u8 list reader" where
  "dec_take n cur =
     (let end_off = cu_offset cur + n in
      guard_res (length (cu_bytes cur) < end_off) E_XX001
        (Inr (slice (cu_offset cur) n (cu_bytes cur), cur\<lparr>cu_offset := end_off\<rparr>)))"

definition dec_u8 :: "u8 reader" where
  "dec_u8 = rd_bind (dec_take 1) (\<lambda>bs. rd_return (bs ! 0))"

definition dec_u32 :: "u32 reader" where
  "dec_u32 = rd_bind (dec_take 4) (\<lambda>bs. rd_return (from_le_u32 bs))"

definition dec_u64 :: "u64 reader" where
  "dec_u64 = rd_bind (dec_take 8) (\<lambda>bs. rd_return (from_le_u64 bs))"

definition dec_remaining :: "nat reader" where
  "dec_remaining cur = Inr (length (cu_bytes cur) - cu_offset cur, cur)"

definition dec_page :: "(u8 list \<Rightarrow> u32) \<Rightarrow> page_id \<Rightarrow> slotted_page option reader" where
  "dec_page crc pid = rd_bind dec_u8 (\<lambda>flag.
     if flag = 0 then rd_return None
     else if flag = 1 then rd_bind (dec_take PAGE_SIZE) (\<lambda>bs.
       rd_lift (try_bind (page_from_bytes crc bs pid) (\<lambda>p. Inr (Some p))))
     else rd_lift (Inl E_XX001))"

text \<open>The two counted loops of a checkpoint record; the key is checked by \<open>f\<close>.\<close>

primrec dec_pairs ::
  "(u64 \<Rightarrow> u64 res) \<Rightarrow> nat \<Rightarrow> (u64, lsn) btree_map \<Rightarrow> (u64, lsn) btree_map reader" where
  "dec_pairs f 0 m = rd_return m"
| "dec_pairs f (Suc n) m =
     rd_bind dec_u64 (\<lambda>k. rd_bind (rd_lift (f k)) (\<lambda>k.
     rd_bind dec_u64 (\<lambda>l. rd_bind (rd_lift (lsn_try_from l)) (\<lambda>l.
     rd_bind (rd_lift (guard_res (bm_contains m k) E_XX001 (Inr ()))) (\<lambda>_.
       dec_pairs f n (bm_insert k l m))))))"

definition dec_checkpoint_begin :: "wal_payload reader" where
  "dec_checkpoint_begin =
     rd_bind dec_u32 (\<lambda>active_count.
     rd_bind (dec_pairs txn_try_from (unat active_count) bm_empty) (\<lambda>active.
     rd_bind dec_u32 (\<lambda>dirty_count.
     rd_bind (dec_pairs Inr (unat dirty_count) bm_empty) (\<lambda>dirty.
     rd_bind dec_remaining (\<lambda>remaining.
     rd_bind (if remaining = 0 then rd_return None
              else rd_bind dec_u64 (\<lambda>v. rd_lift (optional_transaction_id v))) (\<lambda>horizon.
       rd_return (WpCheckpointBegin \<lparr>cb_active_transactions = active, cb_dirty_pages = dirty,
         cb_visibility_horizon = horizon\<rparr>)))))))"

fun dec_payload :: "(u8 list \<Rightarrow> u32) \<Rightarrow> record_kind \<Rightarrow> wal_payload reader" where
  "dec_payload crc RkBegin = rd_return WpBegin"
| "dec_payload crc RkPageUpdate =
     rd_bind dec_u64 (\<lambda>pid. rd_bind (dec_page crc pid) (\<lambda>before. rd_bind (dec_page crc pid) (\<lambda>after.
       rd_return (WpPageUpdate pid before after))))"
| "dec_payload crc RkResize = rd_bind dec_u64 (\<lambda>before. rd_bind dec_u64 (\<lambda>after. rd_return (WpResize before after)))"
| "dec_payload crc RkCommit = rd_return WpCommit"
| "dec_payload crc RkAbort = rd_return WpAbort"
| "dec_payload crc RkCompensation =
     rd_bind dec_u64 (\<lambda>pid. rd_bind (dec_page crc pid) (\<lambda>undo. rd_bind dec_u64 (\<lambda>count.
     rd_bind dec_u64 (\<lambda>v. rd_bind (rd_lift (optional_lsn v)) (\<lambda>undo_next.
       rd_return (WpCompensation pid undo count undo_next))))))"
| "dec_payload crc RkCheckpointBegin = dec_checkpoint_begin"
| "dec_payload crc RkCheckpointEnd =
     rd_bind dec_u64 (\<lambda>b. rd_bind (rd_lift (lsn_try_from b)) (\<lambda>begin_lsn.
     rd_bind dec_u64 (\<lambda>generation.
     rd_bind dec_u64 (\<lambda>d. rd_bind (rd_lift (lsn_try_from d)) (\<lambda>durable.
     rd_bind dec_u64 (\<lambda>count.
       rd_return (WpCheckpointEnd \<lparr>ce_begin_lsn = begin_lsn, ce_durable_data_generation = generation,
         ce_durable_wal_lsn = durable, ce_data_file_page_count = count\<rparr>)))))))"

definition decode_payload :: "(u8 list \<Rightarrow> u32) \<Rightarrow> record_kind \<Rightarrow> u8 list \<Rightarrow> wal_payload res" where
  "decode_payload crc kind = finish_decoding (dec_payload crc kind)"

definition record_from_bytes :: "(u8 list \<Rightarrow> u32) \<Rightarrow> u8 list \<Rightarrow> wal_record res" where
  "record_from_bytes crc bs =
     try_bind (parse_header bs) (\<lambda>h.
     guard_res (length bs \<noteq> rh_total_len h) E_XX001 (
     guard_res (crc (write_u32 WAL_CHECKSUM_OFFSET 0 bs) \<noteq> rh_checksum h) E_XX001 (
     try_bind (decode_payload crc (rh_kind h) (slice WAL_HEADER_LEN (rh_total_len h - WAL_HEADER_LEN) bs)) (\<lambda>payload.
       record_new crc (rh_lsn h) (rh_txn h) (rh_prev h) payload))))"

section \<open>The bytes of a record\<close>

lemma splice_middle: "length xs = n \<Longrightarrow> length new = length ys \<Longrightarrow> splice n new (xs @ ys @ zs) = xs @ new @ zs"
  by (simp add: splice_def)

lemma update_middle: "length xs = n \<Longrightarrow> (xs @ y # zs)[n := x] = xs @ x # zs"
  by (metis list_update_length)

definition header_prefix :: "wal_record \<Rightarrow> nat \<Rightarrow> u8 list" where
  "header_prefix r n = wal_magic @ to_le_u16 WAL_FORMAT_VERSION @ [record_kind_byte (wr_kind r), 0] @
     to_le_u32 (of_nat (WAL_HEADER_LEN + n)) @ to_le_u64 (wr_lsn r) @
     to_le_u64 (case wr_txn r of None \<Rightarrow> 0 | Some t \<Rightarrow> t) @
     to_le_u64 (case wr_prev r of None \<Rightarrow> 0 | Some l \<Rightarrow> l) @ to_le_u32 (of_nat n)"

lemma length_wal_magic [simp]: "length wal_magic = 8"
  by (simp add: wal_magic_def)

lemma length_header_prefix [simp]: "length (header_prefix r n) = 44"
  by (simp add: header_prefix_def)

lemma record_bytes_eq:
  "record_bytes r payload = header_prefix r (length payload) @ replicate 4 0 @ payload"
proof -
  let ?n = "length payload"
  have z: "replicate (WAL_HEADER_LEN + ?n) 0 = replicate 8 (0::u8) @ replicate 2 0 @ [0] @ [0] @ replicate 4 0 @
      replicate 8 0 @ replicate 8 0 @ replicate 8 0 @ replicate 4 0 @ replicate 4 0 @ replicate ?n 0"
    unfolding replicate_add [symmetric] by (simp add: numeral_eq_Suc)
  have 0: "splice 0 wal_magic (replicate (WAL_HEADER_LEN + ?n) 0) = wal_magic @ replicate 2 0 @ [0] @ [0] @ replicate 4 0 @
      replicate 8 0 @ replicate 8 0 @ replicate 8 0 @ replicate 4 0 @ replicate 4 0 @ replicate ?n 0"
    unfolding z by (simp add: splice_def)
  show ?thesis
    unfolding record_bytes_def Let_def 0 header_prefix_def write_u16_def write_u32_def write_u64_def
    by (simp add: splice_def list_update_append)
qed

definition sealed_record :: "(u8 list \<Rightarrow> u32) \<Rightarrow> wal_record \<Rightarrow> u8 list \<Rightarrow> u8 list" where
  "sealed_record crc r payload =
     header_prefix r (length payload) @
     to_le_u32 (crc (header_prefix r (length payload) @ replicate 4 0 @ payload)) @ payload"

lemma length_sealed_record [simp]: "length (sealed_record crc r payload) = WAL_HEADER_LEN + length payload"
  by (simp add: sealed_record_def)

lemma encode_payload_Ok [res_simps]:
  "encode_payload p = Inr bs \<longleftrightarrow> payload_bytes p = Inr bs \<and> length bs \<le> PAGE_UPDATE_PAYLOAD_LEN"
  by (auto simp: encode_payload_def res_simps not_less)

lemma record_encode_Ok:
  "record_encode crc r = Inr bs \<longleftrightarrow> record_validate crc r = Inr () \<and>
     (\<exists>payload. payload_bytes (wr_payload r) = Inr payload \<and> length payload \<le> PAGE_UPDATE_PAYLOAD_LEN \<and>
        bs = sealed_record crc r payload)"
proof -
  have seal: "write_u32 WAL_CHECKSUM_OFFSET (crc (record_bytes r p)) (record_bytes r p) = sealed_record crc r p" for p
    unfolding record_bytes_eq write_u32_def sealed_record_def
    by (rule splice_middle) simp_all
  have add: "checked_add_usize WAL_HEADER_LEN (length p) = Some (WAL_HEADER_LEN + length p)"
    if "length p \<le> PAGE_UPDATE_PAYLOAD_LEN" for p :: "u8 list"
    using that by (intro checked_add_usize_Some) (simp add: usize_max_def)
  show ?thesis
    unfolding record_encode_def try_bind_eq_Ok encode_payload_Ok
    by (auto simp: add Let_def seal not_less guard_res_eq_Ok)
qed

lemma header_take: "take WAL_HEADER_LEN (sealed_record crc r payload @ rest) =
    header_prefix r (length payload) @ to_le_u32 (crc (header_prefix r (length payload) @ replicate 4 0 @ payload))"
  by (simp add: sealed_record_def)

lemma le_zero: "to_le_u32 0 = replicate 4 0"
proof -
  have "replicate 4 (0 :: u8) = [0, 0, 0, 0]" by (simp add: numeral_eq_Suc)
  then show ?thesis by (simp add: to_le_u32_def le_bytes_numeral)
qed

lemma sealed_fields:
  fixes r crc
  assumes "length payload \<le> PAGE_UPDATE_PAYLOAD_LEN"
  defines "bs \<equiv> sealed_record crc r payload"
  shows "slice 0 8 bs = wal_magic" and "read_u16 bs 8 = WAL_FORMAT_VERSION"
    and "bs ! 10 = record_kind_byte (wr_kind r)" and "bs ! 11 = 0"
    and "unat (read_u32 bs 12) = WAL_HEADER_LEN + length payload"
    and "read_u64 bs 16 = wr_lsn r"
    and "read_u64 bs 24 = (case wr_txn r of None \<Rightarrow> 0 | Some t \<Rightarrow> t)"
    and "read_u64 bs 32 = (case wr_prev r of None \<Rightarrow> 0 | Some l \<Rightarrow> l)"
    and "unat (read_u32 bs 40) = length payload"
    and "read_u32 bs WAL_CHECKSUM_OFFSET = crc (header_prefix r (length payload) @ replicate 4 0 @ payload)"
    and "slice WAL_HEADER_LEN (length payload) bs = payload"
    and "write_u32 WAL_CHECKSUM_OFFSET 0 bs = header_prefix r (length payload) @ replicate 4 0 @ payload"
proof -
  let ?ck = "crc (header_prefix r (length payload) @ replicate 4 0 @ payload)"
  have bs: "bs = wal_magic @ to_le_u16 WAL_FORMAT_VERSION @ [record_kind_byte (wr_kind r), 0] @
     to_le_u32 (of_nat (WAL_HEADER_LEN + length payload)) @ to_le_u64 (wr_lsn r) @
     to_le_u64 (case wr_txn r of None \<Rightarrow> 0 | Some t \<Rightarrow> t) @
     to_le_u64 (case wr_prev r of None \<Rightarrow> 0 | Some l \<Rightarrow> l) @ to_le_u32 (of_nat (length payload)) @
     to_le_u32 ?ck @ payload"
    by (simp add: bs_def sealed_record_def header_prefix_def)
  show "slice 0 8 bs = wal_magic" "read_u16 bs 8 = WAL_FORMAT_VERSION"
    "read_u64 bs 16 = wr_lsn r" "read_u64 bs 24 = (case wr_txn r of None \<Rightarrow> 0 | Some t \<Rightarrow> t)"
    "read_u64 bs 32 = (case wr_prev r of None \<Rightarrow> 0 | Some l \<Rightarrow> l)"
    "read_u32 bs WAL_CHECKSUM_OFFSET = ?ck" "slice WAL_HEADER_LEN (length payload) bs = payload"
    unfolding bs by (simp_all add: slice_def read_u16_def read_u32_def read_u64_def)
  show "bs ! 10 = record_kind_byte (wr_kind r)" "bs ! 11 = 0"
    unfolding bs by (simp_all add: nth_append)
  have "read_u32 bs 12 = of_nat (WAL_HEADER_LEN + length payload)" "read_u32 bs 40 = of_nat (length payload)"
    unfolding bs by (simp_all add: slice_def read_u32_def)
  then show "unat (read_u32 bs 12) = WAL_HEADER_LEN + length payload" "unat (read_u32 bs 40) = length payload"
    using assms(1) by (simp_all only: unat_of_nat) simp_all
  show "write_u32 WAL_CHECKSUM_OFFSET 0 bs = header_prefix r (length payload) @ replicate 4 0 @ payload"
    unfolding bs_def sealed_record_def write_u32_def le_zero by (rule splice_middle) simp_all
qed

section \<open>Well-formed records\<close>

text \<open>What the types of the code guarantee: non-zero numbers, pages of the right size.\<close>

definition page_sized :: "slotted_page option \<Rightarrow> bool" where
  "page_sized p = (case p of None \<Rightarrow> True | Some p \<Rightarrow> length (pg_bytes p) = PAGE_SIZE)"

fun payload_wf :: "wal_payload \<Rightarrow> bool" where
  "payload_wf (WpPageUpdate pid before after) \<longleftrightarrow> page_sized before \<and> page_sized after"
| "payload_wf (WpCompensation pid undo count undo_next) \<longleftrightarrow> page_sized undo \<and> undo_next \<noteq> Some 0"
| "payload_wf (WpCheckpointBegin cb) \<longleftrightarrow>
     list_all (\<lambda>(t, l). t \<noteq> 0 \<and> l \<noteq> 0) (bm_list (cb_active_transactions cb)) \<and>
     list_all (\<lambda>(p, l). l \<noteq> 0) (bm_list (cb_dirty_pages cb)) \<and> cb_visibility_horizon cb \<noteq> Some 0"
| "payload_wf (WpCheckpointEnd ce) \<longleftrightarrow> ce_begin_lsn ce \<noteq> 0 \<and> ce_durable_wal_lsn ce \<noteq> 0"
| "payload_wf _ \<longleftrightarrow> True"

definition record_wf :: "wal_record \<Rightarrow> bool" where
  "record_wf r \<longleftrightarrow> wr_lsn r \<noteq> 0 \<and> wr_txn r \<noteq> Some 0 \<and> wr_prev r \<noteq> Some 0 \<and> payload_wf (wr_payload r)"

lemma optional_transaction_id_roundtrip [simp]:
  "t \<noteq> Some 0 \<Longrightarrow> optional_transaction_id (case t of None \<Rightarrow> 0 | Some x \<Rightarrow> x) = Inr t"
  by (cases t) (auto simp: optional_transaction_id_def txn_try_from_def txn_new_def)

lemma optional_lsn_roundtrip [simp]:
  "l \<noteq> Some 0 \<Longrightarrow> optional_lsn (case l of None \<Rightarrow> 0 | Some x \<Rightarrow> x) = Inr l"
  by (cases l) (auto simp: optional_lsn_def lsn_try_from_def lsn_new_def)

lemma record_kind_roundtrip [simp]: "record_kind_try_from (record_kind_byte k) = Inr k"
  by (cases k) (simp_all add: record_kind_try_from_def)

lemma parse_header_take:
  assumes "WAL_HEADER_LEN \<le> length bs"
  shows "parse_header (take WAL_HEADER_LEN bs) = parse_header bs"
  using assms by (simp add: parse_header_def slice_def read_u16_def read_u32_def read_u64_def drop_take min_def)

lemma parse_header_sealed:
  assumes "record_wf r" and "length payload \<le> PAGE_UPDATE_PAYLOAD_LEN"
  shows "parse_header (sealed_record crc r payload) =
    Inr \<lparr>rh_kind = wr_kind r, rh_total_len = WAL_HEADER_LEN + length payload, rh_lsn = wr_lsn r,
         rh_txn = wr_txn r, rh_prev = wr_prev r,
         rh_checksum = crc (header_prefix r (length payload) @ replicate 4 0 @ payload)\<rparr>"
proof -
  have "lsn_try_from (wr_lsn r) = Inr (wr_lsn r)"
    using assms(1) by (simp add: record_wf_def lsn_try_from_def lsn_new_def)
  with assms sealed_fields [OF assms(2), where crc = crc and r = r] show ?thesis
    by (simp add: parse_header_def Let_def record_wf_def)
qed

section \<open>Reading payloads\<close>

lemma reads_take [reads_intros]: "length e = n \<Longrightarrow> reads (dec_take n) e e"
  by (auto simp: reads_def dec_take_def slice_def Let_def)

lemma reads_dec_u8 [reads_intros]: "reads dec_u8 b [b]"
  unfolding dec_u8_def by (rule reads_bind_last [OF reads_take]) (simp_all add: reads_def rd_return_def)

lemma reads_dec_u32 [reads_intros]: "reads dec_u32 w (to_le_u32 w)"
  unfolding dec_u32_def by (rule reads_bind_last [OF reads_take]) (simp_all add: reads_def rd_return_def)

lemma reads_dec_u64 [reads_intros]: "reads dec_u64 w (to_le_u64 w)"
  unfolding dec_u64_def by (rule reads_bind_last [OF reads_take]) (simp_all add: reads_def rd_return_def)

lemma reads_lift_Ok: "r = Inr x \<Longrightarrow> reads (rd_lift r) x []"
  by (simp add: reads_lift)

lemma reads_dec_u64_lift: "f w = Inr x \<Longrightarrow> reads (rd_bind dec_u64 (\<lambda>v. rd_lift (f v))) x (to_le_u64 w)"
  by (rule reads_bind_last [OF reads_dec_u64 reads_lift_Ok])

lemma reads_page:
  assumes "page_sized p" and "validate_page_image crc pid p l = Inr ()"
  shows "reads (dec_page crc pid) p (push_page p)"
proof (cases p)
  case None
  have "reads (dec_page crc pid) None [0]"
    unfolding dec_page_def by (rule reads_bind_last [OF reads_dec_u8]) (simp add: reads_return)
  with None show ?thesis by (simp add: push_page_def)
next
  case (Some q)
  with assms have len: "length (pg_bytes q) = PAGE_SIZE" and "validate_page crc (pg_bytes q) pid = Inr ()"
    by (auto simp: page_sized_def validate_page_image_def page_validate_def res_simps)
  then have from_bytes: "page_from_bytes crc (sealed_bytes q) pid = Inr q"
    by (simp add: page_from_bytes_def sealed_bytes_def)
  have len': "length (sealed_bytes q) = PAGE_SIZE" using len by (simp add: sealed_bytes_def)
  have "reads (dec_page crc pid) (Some q) ([1] @ sealed_bytes q)"
    unfolding dec_page_def
  proof (rule reads_bind [OF reads_dec_u8])
    have "reads (rd_bind (dec_take PAGE_SIZE) (\<lambda>bs. rd_lift (try_bind (page_from_bytes crc bs pid) (\<lambda>p. Inr (Some p)))))
        (Some q) (sealed_bytes q)"
      by (rule reads_bind_last [OF reads_take]) (simp_all add: len' from_bytes reads_lift)
    then show "reads (if (1 :: u8) = 0 then rd_return None else if (1 :: u8) = 1
        then rd_bind (dec_take PAGE_SIZE) (\<lambda>bs. rd_lift (try_bind (page_from_bytes crc bs pid) (\<lambda>p. Inr (Some p))))
        else rd_lift (Inl E_XX001)) (Some q) (sealed_bytes q)" by simp
  qed
  with Some show ?thesis by (simp add: push_page_def)
qed

lemma reads_pairs:
  assumes "\<forall>(k, l) \<in> set xs. f k = Inr k \<and> l \<noteq> 0" and "distinct (map fst xs)"
    and "\<forall>(k, l) \<in> set xs. bm_get m k = None"
  shows "reads (dec_pairs f (length xs) m) (fold (\<lambda>(k, l). bm_insert k l) xs m)
    (concat (map (\<lambda>(k, l). to_le_u64 k @ to_le_u64 l) xs))"
  using assms
proof (induction xs arbitrary: m)
  case Nil
  then show ?case by (simp add: reads_return)
next
  case (Cons x xs)
  obtain k l where x: "x = (k, l)" by (cases x)
  have rest: "reads (dec_pairs f (length xs) (bm_insert k l m)) (fold (\<lambda>(k, l). bm_insert k l) xs (bm_insert k l m))
      (concat (map (\<lambda>(k, l). to_le_u64 k @ to_le_u64 l) xs))"
  proof (rule Cons.IH)
    show "\<forall>(k, l) \<in> set xs. f k = Inr k \<and> l \<noteq> 0" "distinct (map fst xs)" using Cons.prems by simp_all
    have "k \<notin> fst ` set xs" using Cons.prems(2) by (simp add: x)
    then show "\<forall>(k', l') \<in> set xs. bm_get (bm_insert k l m) k' = None"
      using Cons.prems(3) by (auto simp: x rev_image_eqI)
  qed
  have k: "f k = Inr k" "lsn_try_from l = Inr l" "\<not> bm_contains m k"
    using Cons.prems by (auto simp: x lsn_try_from_def lsn_new_def bm_contains_def)
  have "reads (rd_bind (rd_lift (guard_res (bm_contains m k) E_XX001 (Inr ()))) (\<lambda>_.
       dec_pairs f (length xs) (bm_insert k l m))) (fold (\<lambda>(k, l). bm_insert k l) xs (bm_insert k l m))
      (concat (map (\<lambda>(k, l). to_le_u64 k @ to_le_u64 l) xs))"
    by (rule reads_bind_first [where x = "()"]) (simp_all add: k reads_lift rest)
  then have "reads (dec_pairs f (Suc (length xs)) m) (fold (\<lambda>(k, l). bm_insert k l) xs (bm_insert k l m))
      (to_le_u64 k @ to_le_u64 l @ concat (map (\<lambda>(k, l). to_le_u64 k @ to_le_u64 l) xs))"
    unfolding dec_pairs.simps
    by (intro reads_bind [OF reads_dec_u64] reads_bind_first [where x = k] reads_bind_first [where x = l])
      (simp_all add: k reads_lift)
  then show ?case by (simp add: x)
qed

lemma fold_insert_get:
  "distinct (map fst xs) \<Longrightarrow> bm_get (fold (\<lambda>(k, l). bm_insert k l) xs m) k =
     (case map_of xs k of None \<Rightarrow> bm_get m k | Some l \<Rightarrow> Some l)"
proof (induction xs arbitrary: m)
  case Nil
  then show ?case by simp
next
  case (Cons x xs)
  obtain a b where x: "x = (a, b)" by (cases x)
  from Cons.prems have "map_of xs a = None" by (simp add: x map_of_eq_None_iff)
  with Cons.IH [of "bm_insert a b m"] Cons.prems show ?case by (auto simp: x split: option.split)
qed

lemma fold_insert_list: "fold (\<lambda>(k, l). bm_insert k l) (bm_list m) bm_empty = m"
proof (rule bm_eqI)
  fix k
  have "distinct (map fst (bm_list m))" by (simp add: asc_distinct)
  from fold_insert_get [OF this] show "bm_get (fold (\<lambda>(k, l). bm_insert k l) (bm_list m) bm_empty) k = bm_get m k"
    by (simp add: bm_get_map_of [of m] split: option.split)
qed

lemma rd_bind_assoc: "rd_bind (rd_bind f g) h = rd_bind f (\<lambda>x. rd_bind (g x) h)"
  by (rule ext) (auto simp: rd_bind_def try_bind_def split: sum.splits)

lemma reads_counted:
  assumes "list_all (\<lambda>(k, l). f k = Inr k \<and> l \<noteq> 0) (bm_list m)" and "push_count (bm_len m) = Inr n"
  shows "reads (rd_bind dec_u32 (\<lambda>c. dec_pairs f (unat c) bm_empty)) m (n @ push_pairs m)"
proof -
  from assms(2) have n: "n = to_le_u32 (of_nat (bm_len m))" and len: "unat (of_nat (bm_len m) :: u32) = length (bm_list m)"
    by (auto simp: push_count_def res_simps unat_of_nat bm_len_def)
  have "reads (dec_pairs f (length (bm_list m)) bm_empty) m (push_pairs m)"
    using reads_pairs [of "bm_list m" f bm_empty] assms(1)
    by (simp add: list_all_iff asc_distinct fold_insert_list push_pairs_def)
  then show ?thesis
    unfolding n by (intro reads_bind [OF reads_dec_u32]) (simp add: len)
qed

text \<open>A reader at the end of the bytes: it may look at how many bytes are left.\<close>

definition reads_end :: "'a reader \<Rightarrow> 'a \<Rightarrow> u8 list \<Rightarrow> bool" where
  "reads_end f x enc \<longleftrightarrow> (\<forall>pre. f \<lparr>cu_bytes = pre @ enc, cu_offset = length pre\<rparr> =
     Inr (x, \<lparr>cu_bytes = pre @ enc, cu_offset = length pre + length enc\<rparr>))"

lemma reads_end: "reads f x enc \<Longrightarrow> reads_end f x enc"
  unfolding reads_def reads_end_def by (metis append_Nil2)

lemma reads_end_bind:
  assumes "reads f x e1" and "reads_end (g x) y e2"
  shows "reads_end (rd_bind f g) y (e1 @ e2)"
  unfolding reads_end_def
proof
  fix pre
  have "f \<lparr>cu_bytes = pre @ e1 @ e2, cu_offset = length pre\<rparr> =
      Inr (x, \<lparr>cu_bytes = pre @ e1 @ e2, cu_offset = length pre + length e1\<rparr>)"
    using assms(1) unfolding reads_def by blast
  moreover have "g x \<lparr>cu_bytes = (pre @ e1) @ e2, cu_offset = length (pre @ e1)\<rparr> =
      Inr (y, \<lparr>cu_bytes = (pre @ e1) @ e2, cu_offset = length (pre @ e1) + length e2\<rparr>)"
    using assms(2) unfolding reads_end_def by blast
  ultimately show "rd_bind f g \<lparr>cu_bytes = pre @ e1 @ e2, cu_offset = length pre\<rparr> =
      Inr (y, \<lparr>cu_bytes = pre @ e1 @ e2, cu_offset = length pre + length (e1 @ e2)\<rparr>)"
    by (simp add: rd_bind_def)
qed

lemma finish_reads_end:
  assumes "reads_end f x enc"
  shows "finish_decoding f enc = Inr x"
proof -
  have "f \<lparr>cu_bytes = [] @ enc, cu_offset = length []\<rparr> = Inr (x, \<lparr>cu_bytes = [] @ enc, cu_offset = length [] + length enc\<rparr>)"
    using assms [unfolded reads_end_def, rule_format, of "[]"] by simp
  then show ?thesis by (simp add: finish_decoding_def cursor_new_def cursor_finished_def)
qed

lemma reads_horizon:
  assumes "h \<noteq> Some 0"
  shows "reads_end (rd_bind dec_remaining (\<lambda>remaining.
      rd_bind (if remaining = 0 then rd_return None else rd_bind dec_u64 (\<lambda>v. rd_lift (optional_transaction_id v)))
        (\<lambda>horizon. rd_return (g horizon)))) (g h) (case h of None \<Rightarrow> [] | Some t \<Rightarrow> to_le_u64 t)"
proof (cases h)
  case None
  then show ?thesis by (simp add: reads_end_def rd_bind_def dec_remaining_def rd_return_def)
next
  case (Some t)
  have "reads (rd_bind (rd_bind dec_u64 (\<lambda>v. rd_lift (optional_transaction_id v))) (\<lambda>horizon. rd_return (g horizon)))
      (g h) (to_le_u64 t)"
    using optional_transaction_id_roundtrip [OF assms] Some
    by (intro reads_bind_last [where x = h] reads_dec_u64_lift reads_return) simp
  then have "reads_end (rd_bind (rd_bind dec_u64 (\<lambda>v. rd_lift (optional_transaction_id v))) (\<lambda>horizon. rd_return (g horizon)))
      (g h) (to_le_u64 t)" by (rule reads_end)
  with Some show ?thesis by (simp add: reads_end_def rd_bind_def [of dec_remaining] dec_remaining_def)
qed

lemma dec_checkpoint_begin_reads:
  assumes "payload_wf (WpCheckpointBegin cb)" and "payload_bytes (WpCheckpointBegin cb) = Inr bs"
  shows "reads_end dec_checkpoint_begin (WpCheckpointBegin cb) bs"
proof -
  from assms(2) obtain na nd where na: "push_count (bm_len (cb_active_transactions cb)) = Inr na"
    and nd: "push_count (bm_len (cb_dirty_pages cb)) = Inr nd"
    and bs: "bs = na @ push_pairs (cb_active_transactions cb) @ nd @ push_pairs (cb_dirty_pages cb) @
            (case cb_visibility_horizon cb of None \<Rightarrow> [] | Some t \<Rightarrow> to_le_u64 t)"
    by (auto simp: res_simps)
  let ?A = "cb_active_transactions cb" and ?D = "cb_dirty_pages cb" and ?h = "cb_visibility_horizon cb"
  have active: "list_all (\<lambda>(k, l). txn_try_from k = Inr k \<and> l \<noteq> 0) (bm_list ?A)"
    using assms(1) by (auto simp: list_all_iff txn_try_from_def txn_new_def)
  have dirty: "list_all (\<lambda>(k, l). (Inr k :: u64 res) = Inr k \<and> l \<noteq> 0) (bm_list ?D)" using assms(1) by simp
  have def': "dec_checkpoint_begin =
     rd_bind (rd_bind dec_u32 (\<lambda>c. dec_pairs txn_try_from (unat c) bm_empty)) (\<lambda>active.
     rd_bind (rd_bind dec_u32 (\<lambda>c. dec_pairs Inr (unat c) bm_empty)) (\<lambda>dirty.
     rd_bind dec_remaining (\<lambda>remaining.
     rd_bind (if remaining = 0 then rd_return None
              else rd_bind dec_u64 (\<lambda>v. rd_lift (optional_transaction_id v))) (\<lambda>horizon.
       rd_return (WpCheckpointBegin \<lparr>cb_active_transactions = active, cb_dirty_pages = dirty,
         cb_visibility_horizon = horizon\<rparr>)))))"
    unfolding dec_checkpoint_begin_def rd_bind_assoc ..
  have cb: "WpCheckpointBegin cb = WpCheckpointBegin \<lparr>cb_active_transactions = ?A, cb_dirty_pages = ?D,
         cb_visibility_horizon = ?h\<rparr>" by simp
  have enc: "bs = (na @ push_pairs ?A) @ (nd @ push_pairs ?D) @ (case ?h of None \<Rightarrow> [] | Some t \<Rightarrow> to_le_u64 t)"
    by (simp add: bs)
  have "?h \<noteq> Some 0" using assms(1) by simp
  then show ?thesis
    unfolding def' enc
    by (subst cb) (intro reads_end_bind [OF reads_counted [OF active na]] reads_end_bind [OF reads_counted [OF dirty nd]]
        reads_horizon)
qed

lemma dec_payload_reads:
  assumes wf: "payload_wf p" and enc: "payload_bytes p = Inr bs" and val: "validate_payload crc l p = Inr ()"
  shows "reads_end (dec_payload crc (payload_kind p)) p bs"
proof (cases p)
  case (WpPageUpdate pid before after)
  then have b: "page_sized before" "validate_page_image crc pid before None = Inr ()"
    and a: "page_sized after" "validate_page_image crc pid after (Some l) = Inr ()"
    using wf val by (auto simp: res_simps)
  have "reads (dec_payload crc (payload_kind p)) p (to_le_u64 pid @ push_page before @ push_page after)"
    unfolding WpPageUpdate payload_kind.simps dec_payload.simps
    by (intro reads_bind [OF reads_dec_u64] reads_bind [OF reads_page [OF b]] reads_bind_last [OF reads_page [OF a]] reads_return)
  then show ?thesis using enc WpPageUpdate by (auto intro: reads_end)
next
  case (WpResize before after)
  have "reads (dec_payload crc (payload_kind p)) p (to_le_u64 before @ to_le_u64 after)"
    unfolding WpResize payload_kind.simps dec_payload.simps
    by (intro reads_bind [OF reads_dec_u64] reads_bind_last [OF reads_dec_u64] reads_return)
  then show ?thesis using enc WpResize by (auto intro: reads_end)
next
  case (WpCompensation pid undo count undo_next)
  then have u: "page_sized undo" "validate_page_image crc pid undo (Some l) = Inr ()" and n: "undo_next \<noteq> Some 0"
    using wf val by auto
  have "reads (dec_payload crc (payload_kind p)) p
      (to_le_u64 pid @ push_page undo @ to_le_u64 count @ to_le_u64 (case undo_next of None \<Rightarrow> 0 | Some l \<Rightarrow> l))"
    unfolding WpCompensation payload_kind.simps dec_payload.simps
    by (intro reads_bind [OF reads_dec_u64] reads_bind [OF reads_page [OF u]] reads_bind_last [OF reads_dec_u64]
        reads_bind_first [OF reads_lift_Ok [OF optional_lsn_roundtrip [OF n]]] reads_return)
  then show ?thesis using enc WpCompensation by (auto intro: reads_end)
next
  case (WpCheckpointBegin cb)
  with dec_checkpoint_begin_reads [of cb bs] wf enc show ?thesis by simp
next
  case (WpCheckpointEnd ce)
  then have n: "lsn_try_from (ce_begin_lsn ce) = Inr (ce_begin_lsn ce)" "lsn_try_from (ce_durable_wal_lsn ce) = Inr (ce_durable_wal_lsn ce)"
    using wf by (auto simp: lsn_try_from_def lsn_new_def)
  have ce: "WpCheckpointEnd ce = WpCheckpointEnd \<lparr>ce_begin_lsn = ce_begin_lsn ce, ce_durable_data_generation = ce_durable_data_generation ce,
         ce_durable_wal_lsn = ce_durable_wal_lsn ce, ce_data_file_page_count = ce_data_file_page_count ce\<rparr>" by simp
  have "reads (dec_payload crc RkCheckpointEnd) (WpCheckpointEnd ce) (to_le_u64 (ce_begin_lsn ce) @ to_le_u64 (ce_durable_data_generation ce) @
          to_le_u64 (ce_durable_wal_lsn ce) @ to_le_u64 (ce_data_file_page_count ce))"
    unfolding dec_payload.simps
    by (subst ce) (intro reads_bind [OF reads_dec_u64] reads_bind_last [OF reads_dec_u64]
        reads_bind_first [OF reads_lift_Ok [OF n(1)]] reads_bind_first [OF reads_lift_Ok [OF n(2)]] reads_return)
  then show ?thesis using enc WpCheckpointEnd by (auto intro: reads_end)
qed (use enc in \<open>auto intro: reads_end reads_return\<close>)

lemma wal_record_eta [simp]:
  "\<lparr>wr_lsn = wr_lsn r, wr_txn = wr_txn r, wr_prev = wr_prev r, wr_payload = wr_payload r\<rparr> = r"
  by simp

lemma record_roundtrip_lemma:
  assumes "record_wf r" and "record_encode crc r = Inr bs"
  shows "record_from_bytes crc bs = Inr r"
proof -
  from assms(2) obtain payload where val: "record_validate crc r = Inr ()"
    and p: "payload_bytes (wr_payload r) = Inr payload" "length payload \<le> PAGE_UPDATE_PAYLOAD_LEN"
    and bs: "bs = sealed_record crc r payload" by (auto simp: record_encode_Ok)
  from val have vp: "validate_payload crc (wr_lsn r) (wr_payload r) = Inr ()"
    by (auto simp: record_validate_def Let_def res_simps)
  have "decode_payload crc (wr_kind r) payload = Inr (wr_payload r)"
    unfolding decode_payload_def wr_kind_def
    using assms(1) p(1) vp by (intro finish_reads_end dec_payload_reads) (simp_all add: record_wf_def)
  then show ?thesis
    using parse_header_sealed [OF assms(1) p(2), of crc] sealed_fields [OF p(2), of crc r] val
    by (simp add: bs record_from_bytes_def record_new_def Let_def)
qed

section \<open>What the decoder accepts\<close>

text \<open>\<open>rd_post P f\<close>: whatever \<open>f\<close> reads satisfies \<open>P\<close>.\<close>

definition rd_post :: "('a \<Rightarrow> bool) \<Rightarrow> 'a reader \<Rightarrow> bool" where
  "rd_post P f \<longleftrightarrow> (\<forall>cur x cur'. f cur = Inr (x, cur') \<longrightarrow> P x)"

lemma rd_post_bind: "rd_post Q f \<Longrightarrow> (\<And>x. Q x \<Longrightarrow> rd_post P (g x)) \<Longrightarrow> rd_post P (rd_bind f g)"
  unfolding rd_post_def rd_bind_def try_bind_eq_Ok by fast

lemma rd_post_seq: "(\<And>x. rd_post P (g x)) \<Longrightarrow> rd_post P (rd_bind f g)"
  by (rule rd_post_bind [where Q = "\<lambda>_. True"]) (simp_all add: rd_post_def)

lemma rd_post_return: "P x \<Longrightarrow> rd_post P (rd_return x)"
  by (simp add: rd_post_def rd_return_def)

lemma rd_post_lift: "(\<And>x. r = Inr x \<Longrightarrow> P x) \<Longrightarrow> rd_post P (rd_lift r)"
  by (auto simp: rd_post_def rd_lift_def try_bind_eq_Ok)

lemma rd_post_lift_bind: "(\<And>x. r = Inr x \<Longrightarrow> rd_post P (g x)) \<Longrightarrow> rd_post P (rd_bind (rd_lift r) g)"
  by (rule rd_post_bind [OF rd_post_lift]) assumption+

lemma finish_post: "finish_decoding f bs = Inr x \<Longrightarrow> rd_post P f \<Longrightarrow> P x"
  by (auto simp: finish_decoding_def rd_post_def res_simps)

lemma lsn_try_from_Ok: "lsn_try_from v = Inr l \<longleftrightarrow> l = v \<and> v \<noteq> 0"
  by (auto simp: lsn_try_from_def lsn_new_def)

lemma txn_try_from_Ok: "txn_try_from v = Inr t \<longleftrightarrow> t = v \<and> v \<noteq> 0"
  by (auto simp: txn_try_from_def txn_new_def)

lemma optional_Ok:
  "optional_lsn v = Inr l \<Longrightarrow> l \<noteq> Some 0"
  "optional_transaction_id v = Inr t \<Longrightarrow> t \<noteq> Some 0"
  by (auto simp: optional_lsn_def optional_transaction_id_def res_simps lsn_try_from_Ok txn_try_from_Ok split: if_splits)

lemma dec_page_post: "rd_post page_sized (dec_page crc pid)"
proof -
  have 1: "rd_post page_sized (rd_bind (dec_take PAGE_SIZE) (\<lambda>bs.
       rd_lift (try_bind (page_from_bytes crc bs pid) (\<lambda>p. Inr (Some p)))))"
    by (intro rd_post_seq rd_post_lift) (auto simp: page_from_bytes_def res_simps page_sized_def)
  have 0: "rd_post page_sized (rd_return None)" and 2: "rd_post page_sized (rd_lift (Inl E_XX001))"
    by (intro rd_post_return rd_post_lift; simp add: page_sized_def)+
  show ?thesis
    unfolding dec_page_def
  proof (rule rd_post_seq)
    fix flag :: u8
    show "rd_post page_sized (if flag = 0 then rd_return None
     else if flag = 1 then rd_bind (dec_take PAGE_SIZE) (\<lambda>bs.
       rd_lift (try_bind (page_from_bytes crc bs pid) (\<lambda>p. Inr (Some p))))
     else rd_lift (Inl E_XX001))"
      using 0 1 2 by simp
  qed
qed

lemma dec_pairs_post:
  assumes "\<And>k k'. f k = Inr k' \<Longrightarrow> Q k'"
  shows "list_all (\<lambda>(k, l). Q k \<and> l \<noteq> 0) (bm_list m) \<Longrightarrow>
    rd_post (\<lambda>m'. list_all (\<lambda>(k, l). Q k \<and> l \<noteq> 0) (bm_list m')) (dec_pairs f n m)"
proof (induction n arbitrary: m)
  case 0
  then show ?case by (simp add: rd_post_return)
next
  case (Suc n)
  show ?case
    unfolding dec_pairs.simps
  proof (rule rd_post_seq)
    fix k0
    show "rd_post (\<lambda>m'. list_all (\<lambda>(k, l). Q k \<and> l \<noteq> 0) (bm_list m')) (rd_bind (rd_lift (f k0)) (\<lambda>k.
     rd_bind dec_u64 (\<lambda>l. rd_bind (rd_lift (lsn_try_from l)) (\<lambda>l.
     rd_bind (rd_lift (guard_res (bm_contains m k) E_XX001 (Inr ()))) (\<lambda>_.
       dec_pairs f n (bm_insert k l m))))))"
    proof (rule rd_post_lift_bind, rule rd_post_seq, rule rd_post_lift_bind, rule rd_post_seq)
      fix k l0 l
      assume k: "f k0 = Inr k" and l: "lsn_try_from l0 = Inr l"
      have "list_all (\<lambda>(k, l). Q k \<and> l \<noteq> 0) (bm_list (bm_insert k l m))"
        using Suc.prems assms [OF k] l
        by (auto simp: list_all_iff set_bm_list lsn_try_from_Ok simp del: bm_list_simps split: if_splits)
      then show "rd_post (\<lambda>m'. list_all (\<lambda>(k, l). Q k \<and> l \<noteq> 0) (bm_list m')) (dec_pairs f n (bm_insert k l m))"
        by (rule Suc.IH)
    qed
  qed
qed

lemma dec_payload_post: "rd_post (\<lambda>p. payload_wf p) (dec_payload crc kind)"
proof (cases kind)
  case RkPageUpdate
  show ?thesis
    unfolding RkPageUpdate dec_payload.simps
    by (intro rd_post_seq rd_post_bind [OF dec_page_post] rd_post_return) simp
next
  case RkResize
  show ?thesis unfolding RkResize dec_payload.simps by (intro rd_post_seq rd_post_return) simp
next
  case RkCompensation
  show ?thesis
    unfolding RkCompensation dec_payload.simps
    by (intro rd_post_seq rd_post_bind [OF dec_page_post] rd_post_lift_bind rd_post_return)
      (auto simp: optional_Ok)
next
  case RkCheckpointBegin
  have h: "rd_post (\<lambda>h. h \<noteq> Some 0) (if r = 0 then rd_return None
      else rd_bind dec_u64 (\<lambda>v. rd_lift (optional_transaction_id v)))" for r :: nat
    by (cases "r = 0") (auto intro!: rd_post_seq rd_post_lift rd_post_return dest: optional_Ok)
  show ?thesis
    unfolding RkCheckpointBegin dec_payload.simps dec_checkpoint_begin_def
    by (intro rd_post_seq rd_post_bind [OF dec_pairs_post [where Q = "\<lambda>t. t \<noteq> 0"]]
        rd_post_bind [OF dec_pairs_post [where Q = "\<lambda>_. True"]] rd_post_bind [OF h] rd_post_return)
      (auto simp: txn_try_from_Ok)
next
  case RkCheckpointEnd
  show ?thesis
    unfolding RkCheckpointEnd dec_payload.simps
    by (rule rd_post_seq, rule rd_post_lift_bind, rule rd_post_seq, rule rd_post_seq, rule rd_post_lift_bind,
        rule rd_post_seq, rule rd_post_return) (simp add: lsn_try_from_Ok)
qed (simp_all add: rd_post_return)

lemma parse_header_Ok:
  assumes "parse_header bs = Inr h"
  shows "rh_lsn h \<noteq> 0" and "rh_txn h \<noteq> Some 0" and "rh_prev h \<noteq> Some 0"
    and "WAL_HEADER_LEN \<le> rh_total_len h" and "rh_total_len h \<le> WAL_MAX_RECORD_LEN"
    and "rh_total_len h = unat (read_u32 bs 12)" and "rh_checksum h = read_u32 bs WAL_CHECKSUM_OFFSET"
  using assms by (auto simp: parse_header_def Let_def res_simps lsn_try_from_Ok optional_Ok not_less)

lemma record_from_bytes_Ok:
  assumes "record_from_bytes crc bs = Inr r"
  shows "record_wf r" and "record_validate crc r = Inr ()"
    and "length bs = unat (read_u32 bs 12)" and "length bs \<le> WAL_MAX_RECORD_LEN"
    and "crc (write_u32 WAL_CHECKSUM_OFFSET 0 bs) = read_u32 bs WAL_CHECKSUM_OFFSET"
proof -
  from assms obtain h payload where h: "parse_header bs = Inr h" and len: "length bs = rh_total_len h"
    and ck: "crc (write_u32 WAL_CHECKSUM_OFFSET 0 bs) = rh_checksum h"
    and p: "decode_payload crc (rh_kind h) (slice WAL_HEADER_LEN (rh_total_len h - WAL_HEADER_LEN) bs) = Inr payload"
    and r: "r = \<lparr>wr_lsn = rh_lsn h, wr_txn = rh_txn h, wr_prev = rh_prev h, wr_payload = payload\<rparr>"
    and val: "record_validate crc r = Inr ()"
    by (auto simp: record_from_bytes_def record_new_def Let_def res_simps)
  show "record_validate crc r = Inr ()" by (rule val)
  show "record_wf r"
    using parse_header_Ok(1-3) [OF h] finish_post [OF p [unfolded decode_payload_def] dec_payload_post]
    by (simp add: r record_wf_def)
  show "length bs = unat (read_u32 bs 12)" "length bs \<le> WAL_MAX_RECORD_LEN"
    "crc (write_u32 WAL_CHECKSUM_OFFSET 0 bs) = read_u32 bs WAL_CHECKSUM_OFFSET"
    using parse_header_Ok(5-7) [OF h] len ck by simp_all
qed

text \<open>A commit record of transaction 7, for the witnesses.\<close>

definition commit_record :: wal_record where
  "commit_record = \<lparr>wr_lsn = 2, wr_txn = Some 7, wr_prev = Some 1, wr_payload = WpCommit\<rparr>"

lemma commit_record_wf: "record_wf commit_record"
  by (simp add: commit_record_def record_wf_def)

lemma commit_record_encode: "record_encode (\<lambda>_. 0) commit_record = Inr (sealed_record (\<lambda>_. 0) commit_record [])"
  by (simp add: record_encode_Ok commit_record_def record_validate_def system_payload_def Let_def word_le_nat_alt)

section \<open>Properties\<close>

text \<open>
  C23. Round trip of log records. Every record that \<open>encode\<close> accepts is read back from its
  bytes as the same record, for any checksum function: page images, resizes,
  compensations and the two checkpoint records with their tables and the optional horizon.
\<close>

theorem record_roundtrip:
  assumes "record_wf r" and "record_encode crc r = Inr bs"
  shows "record_from_bytes crc bs = Inr r \<and> WAL_HEADER_LEN \<le> length bs \<and> length bs \<le> WAL_MAX_RECORD_LEN"
  using record_roundtrip_lemma [OF assms] assms(2) by (auto simp: record_encode_Ok)

lemma record_roundtrip_witness:
  "record_from_bytes (\<lambda>_. 0) (sealed_record (\<lambda>_. 0) commit_record []) = Inr commit_record"
  using record_roundtrip [OF commit_record_wf commit_record_encode] by simp

text \<open>
  C24. What the decoder accepts. Any byte string that \<open>from_bytes\<close> turns into a record has
  the length its header declares, at most the maximum, and carries the checksum of its
  bytes with a zeroed checksum field; the record passes \<open>validate\<close>, has no zero LSN or
  transaction id anywhere, and all its page images are whole pages.
\<close>

theorem record_decode_sound:
  assumes "record_from_bytes crc bs = Inr r"
  shows "record_validate crc r = Inr () \<and> record_wf r \<and> length bs = unat (read_u32 bs 12) \<and>
    length bs \<le> WAL_MAX_RECORD_LEN \<and>
    crc (write_u32 WAL_CHECKSUM_OFFSET 0 bs) = read_u32 bs WAL_CHECKSUM_OFFSET"
  using record_from_bytes_Ok [OF assms] by simp

lemma record_decode_sound_witness:
  "unat (read_u32 (sealed_record (\<lambda>_. 0) commit_record []) 12) = 48"
  using record_decode_sound [OF record_roundtrip_lemma [OF commit_record_wf commit_record_encode]] by simp

end
