(* ===== verification/Wal.thy ===== *)
theory Wal
  imports WalRecord Effect Snapshot
begin

text \<open>
  The write-ahead log, crates/ordadb-transaction/src/wal_parts/manager_and_codec.rs:
  \<open>WalManager\<close> with its state, the append and synchronize primitives, the scan of the file
  with the repair of a torn tail, and the operations built from them.

  The state behind the manager's mutex is one record, together with the file, the fault
  injector and the oracle of the operating system (theory Effect). Each function that takes
  the lock once is one atomic step (\<open>wal_step\<close>); the operations that take it several times
  are sequences of steps, between which other threads may run. Seeking to the end of the
  file is part of the write and fails with it. Mutex poisoning is not modelled.
\<close>

section \<open>State\<close>

record checkpoint_state =
  cs_active_transactions :: "(transaction_id, lsn) btree_map"
  cs_dirty_pages :: "(page_id, lsn) btree_map"
  cs_visibility_horizon :: "transaction_id option"
  cs_durable_data_generation :: u64
  cs_durable_wal_lsn :: "lsn option"
  cs_data_file_page_count :: u64

record logged_transaction =
  lt_txn :: transaction_id
  lt_begin_lsn :: lsn
  lt_last_lsn :: lsn
  lt_page_update_lsns :: "(page_id, lsn) btree_map"

record wal_tables =
  wt_begin :: "(transaction_id, lsn) btree_map"
  wt_last :: "(transaction_id, lsn) btree_map"
  wt_terminal :: "transaction_id btree_set"
  wt_outcomes :: "(transaction_id, outcome) btree_map"
  wt_max_txn :: "transaction_id option"
  wt_dirty :: "(page_id, lsn) btree_map"
  wt_txn_dirty :: "(transaction_id, page_id btree_set) btree_map"

record wal_manager = wal_tables +
  wm_file :: log_file
  wm_next_lsn :: lsn
  wm_durable_lsn :: "lsn option"
  wm_injector :: injector
  wm_io :: "io list"

type_synonym 'a wal_eff = "(wal_manager, 'a) eff"

section \<open>Tracking the records\<close>

definition bm_entry :: "'k::linorder \<Rightarrow> 'v \<Rightarrow> ('k, 'v) btree_map \<Rightarrow> ('k, 'v) btree_map" where
  "bm_entry k v m = (if bm_contains m k then m else bm_insert k v m)"

definition track_begin :: "transaction_id \<Rightarrow> lsn \<Rightarrow> 'a wal_tables_scheme \<Rightarrow> 'a wal_tables_scheme" where
  "track_begin t l s =
     s\<lparr>wt_begin := bm_insert t l (wt_begin s),
       wt_max_txn := Some (case wt_max_txn s of None \<Rightarrow> t | Some m \<Rightarrow> max m t),
       wt_outcomes := bm_insert t InProgress (wt_outcomes s)\<rparr>"

definition track_dirty :: "transaction_id \<Rightarrow> page_id \<Rightarrow> lsn \<Rightarrow> 'a wal_tables_scheme \<Rightarrow> 'a wal_tables_scheme" where
  "track_dirty t pid l s =
     s\<lparr>wt_dirty := bm_entry pid l (wt_dirty s),
       wt_txn_dirty := bm_insert t (bs_insert pid
         (case bm_get (wt_txn_dirty s) t of None \<Rightarrow> bm_empty | Some ps \<Rightarrow> ps)) (wt_txn_dirty s)\<rparr>"

definition clear_dirty :: "transaction_id \<Rightarrow> 'a wal_tables_scheme \<Rightarrow> 'a wal_tables_scheme" where
  "clear_dirty t s =
     (case bm_get (wt_txn_dirty s) t of
        None \<Rightarrow> s
      | Some pages \<Rightarrow>
          s\<lparr>wt_txn_dirty := bm_remove t (wt_txn_dirty s),
            wt_dirty := fold bm_remove (bm_keys pages) (wt_dirty s)\<rparr>)"

definition track_terminal :: "transaction_id \<Rightarrow> outcome \<Rightarrow> bool \<Rightarrow> 'a wal_tables_scheme \<Rightarrow> 'a wal_tables_scheme" where
  "track_terminal t out clear s =
     (let s = s\<lparr>wt_terminal := bs_insert t (wt_terminal s), wt_outcomes := bm_insert t out (wt_outcomes s)\<rparr>
      in if clear then clear_dirty t s else s)"

definition apply_record_state :: "wal_record \<Rightarrow> bool \<Rightarrow> 'a wal_tables_scheme \<Rightarrow> 'a wal_tables_scheme" where
  "apply_record_state r clear s =
     (case wr_txn r of
        None \<Rightarrow> s
      | Some t \<Rightarrow>
          let s = (if wr_kind r = RkBegin then track_begin t (wr_lsn r) s else s);
              s = s\<lparr>wt_last := bm_insert t (wr_lsn r) (wt_last s)\<rparr>
          in (case wr_payload r of
                WpPageUpdate pid _ _ \<Rightarrow> track_dirty t pid (wr_lsn r) s
              | WpCompensation pid _ _ _ \<Rightarrow> track_dirty t pid (wr_lsn r) s
              | WpCommit \<Rightarrow> track_terminal t Committed clear s
              | WpAbort \<Rightarrow> track_terminal t Aborted clear s
              | _ \<Rightarrow> s))"

definition validate_append_chain ::
  "'a wal_tables_scheme \<Rightarrow> transaction_id option \<Rightarrow> lsn option \<Rightarrow> wal_payload \<Rightarrow> unit res" where
  "validate_append_chain s t prev p =
     (case t of
        None \<Rightarrow> Inr ()
      | Some t \<Rightarrow>
          if p = WpBegin then
            guard_res (bm_contains (wt_last s) t) E_XX001 (
            guard_res (case wt_max_txn s of None \<Rightarrow> False | Some m \<Rightarrow> t \<le> m) E_XX001 (Inr ()))
          else
            guard_res (bs_mem t (wt_terminal s)) E_XX001 (
            guard_res (bm_get (wt_last s) t \<noteq> prev) E_XX001 (Inr ())))"

section \<open>Validating a log\<close>

record seq_state =
  sq_prev :: "lsn option"
  sq_last :: "(transaction_id, lsn) btree_map"
  sq_terminal :: "transaction_id btree_set"
  sq_max :: "transaction_id option"

definition seq_init :: seq_state where
  "seq_init = \<lparr>sq_prev = None, sq_last = bm_empty, sq_terminal = bm_empty, sq_max = None\<rparr>"

definition seq_check :: "wal_record \<Rightarrow> transaction_id \<Rightarrow> seq_state \<Rightarrow> seq_state res" where
  "seq_check r t s =
     (if wr_kind r = RkBegin then
        guard_res (bm_contains (sq_last s) t) E_XX001 (
        guard_res (case sq_max s of None \<Rightarrow> False | Some m \<Rightarrow> t \<le> m) E_XX001 (Inr (s\<lparr>sq_max := Some t\<rparr>)))
      else
        guard_res (bs_mem t (sq_terminal s)) E_XX001 (
        guard_res (wr_prev r \<noteq> bm_get (sq_last s) t) E_XX001 (Inr s)))"

definition seq_step :: "wal_record \<Rightarrow> seq_state \<Rightarrow> seq_state res" where
  "seq_step r s =
     guard_res (case sq_prev s of None \<Rightarrow> False | Some prev \<Rightarrow> wr_lsn r \<le> prev) E_XX001 (
       let s = s\<lparr>sq_prev := Some (wr_lsn r)\<rparr> in
       (case wr_txn r of
          None \<Rightarrow> Inr s
        | Some t \<Rightarrow>
            try_bind (seq_check r t s) (\<lambda>s.
              let s = s\<lparr>sq_last := bm_insert t (wr_lsn r) (sq_last s)\<rparr>
              in Inr (if wr_kind r = RkCommit \<or> wr_kind r = RkAbort
                      then s\<lparr>sq_terminal := bs_insert t (sq_terminal s)\<rparr> else s))))"

primrec seq_run :: "wal_record list \<Rightarrow> seq_state \<Rightarrow> seq_state res" where
  "seq_run [] s = Inr s"
| "seq_run (r # rs) s = try_bind (seq_step r s) (seq_run rs)"

definition validate_record_sequence :: "wal_record list \<Rightarrow> unit res" where
  "validate_record_sequence rs = try_bind (seq_run rs seq_init) (\<lambda>_. Inr ())"

section \<open>Scanning the file\<close>

record scan_result =
  sr_records :: "wal_record list"
  sr_valid_bytes :: nat
  sr_truncated_bytes :: nat

text \<open>
  The loop of \<open>scan_file\<close> over the bytes that are left; it returns the records with whether
  it ended at the end of the file, and the offset it reached.
\<close>

function scan_loop :: "(u8 list \<Rightarrow> u32) \<Rightarrow> u8 list \<Rightarrow> nat \<Rightarrow> (wal_record list \<times> nat \<times> bool) res" where
  "scan_loop crc bs offset =
     (if bs = [] then Inr ([], offset, True)
      else if length bs < WAL_HEADER_LEN then Inr ([], offset, False)
      else try_bind (parse_header (take WAL_HEADER_LEN bs)) (\<lambda>h.
        if length bs < rh_total_len h then Inr ([], offset, False)
        else try_bind (record_from_bytes crc (take (rh_total_len h) bs)) (\<lambda>r.
          try_bind (scan_loop crc (drop (rh_total_len h) bs) (offset + rh_total_len h)) (\<lambda>(rs, end_off, complete).
            Inr (r # rs, end_off, complete)))))"
  by pat_completeness auto

termination
proof (relation "measure (\<lambda>(crc, bs, offset). length bs)", simp)
  fix crc bs and offset :: nat and h r
  assume "bs \<noteq> []" "parse_header (take WAL_HEADER_LEN bs) = Inr h"
  then show "((crc, drop (rh_total_len h) bs, offset + rh_total_len h), crc, bs, offset) \<in>
      measure (\<lambda>(crc, bs, offset). length bs)"
    using parse_header_Ok(4) by fastforce
qed

declare scan_loop.simps [simp del]

definition wal_next_io :: "io wal_eff" where
  "wal_next_io s = (case next_io (wm_io s) of (x, os) \<Rightarrow> (Inr x, s\<lparr>wm_io := os\<rparr>))"

definition wal_sync_all :: "unit wal_eff" where
  "wal_sync_all = eff_bind wal_next_io (\<lambda>x.
     if x = IoOk then eff_put (\<lambda>s. s\<lparr>wm_file := (wm_file s)\<lparr>lf_synced := length (lf_bytes (wm_file s))\<rparr>\<rparr>)
     else eff_fail E_58030)"

definition wal_set_len :: "nat \<Rightarrow> unit wal_eff" where
  "wal_set_len n = eff_bind wal_next_io (\<lambda>x.
     if x = IoOk then eff_put (\<lambda>s. s\<lparr>wm_file := \<lparr>lf_bytes = take n (lf_bytes (wm_file s)),
       lf_synced = min n (lf_synced (wm_file s))\<rparr>\<rparr>)
     else eff_fail E_58030)"

definition finish_incomplete_tail :: "bool \<Rightarrow> nat \<Rightarrow> wal_record list \<Rightarrow> scan_result wal_eff" where
  "finish_incomplete_tail repair_tail valid_bytes rs =
     eff_bind (eff_res (validate_record_sequence rs)) (\<lambda>_.
     if \<not> repair_tail then eff_fail E_XX001
     else eff_bind (eff_get (\<lambda>s. length (lf_bytes (wm_file s)))) (\<lambda>file_len.
       eff_bind (wal_set_len valid_bytes) (\<lambda>_. eff_bind wal_sync_all (\<lambda>_.
         eff_return \<lparr>sr_records = rs, sr_valid_bytes = valid_bytes, sr_truncated_bytes = file_len - valid_bytes\<rparr>))))"

definition scan_file :: "(u8 list \<Rightarrow> u32) \<Rightarrow> bool \<Rightarrow> scan_result wal_eff" where
  "scan_file crc repair_tail =
     eff_bind (eff_get (\<lambda>s. lf_bytes (wm_file s))) (\<lambda>bs.
     eff_bind (eff_res (scan_loop crc bs 0)) (\<lambda>(rs, offset, complete).
       if \<not> complete then finish_incomplete_tail repair_tail offset rs
       else eff_bind (eff_res (validate_record_sequence rs)) (\<lambda>_.
         eff_return \<lparr>sr_records = rs, sr_valid_bytes = offset, sr_truncated_bytes = 0\<rparr>)))"

section \<open>Appending and synchronizing\<close>

definition wal_write_all :: "u8 list \<Rightarrow> unit wal_eff" where
  "wal_write_all bs = eff_bind wal_next_io (\<lambda>x.
     case x of
       IoOk \<Rightarrow> eff_put (\<lambda>s. s\<lparr>wm_file := (wm_file s)\<lparr>lf_bytes := lf_bytes (wm_file s) @ bs\<rparr>\<rparr>)
     | IoFail n \<Rightarrow>
         eff_bind (eff_get (\<lambda>s. length (lf_bytes (wm_file s)))) (\<lambda>original_len.
         eff_bind (eff_put (\<lambda>s. s\<lparr>wm_file := (wm_file s)\<lparr>lf_bytes := lf_bytes (wm_file s) @ take n bs\<rparr>\<rparr>)) (\<lambda>_.
         eff_bind (eff_ignore (wal_set_len original_len)) (\<lambda>_.
           eff_fail E_58030))))"

definition append_locked ::
  "(u8 list \<Rightarrow> u32) \<Rightarrow> transaction_id option \<Rightarrow> lsn option \<Rightarrow> wal_payload \<Rightarrow> lsn wal_eff" where
  "append_locked crc t prev p =
     eff_bind (eff_get id) (\<lambda>s.
     eff_bind (eff_res (validate_append_chain s t prev p)) (\<lambda>_.
     eff_bind (eff_res (lsn_checked_next (wm_next_lsn s))) (\<lambda>next_lsn.
     eff_bind (eff_res (record_new crc (wm_next_lsn s) t prev p)) (\<lambda>r.
     eff_bind (eff_res (record_encode crc r)) (\<lambda>bs.
     eff_bind (wal_write_all bs) (\<lambda>_.
     eff_bind (eff_put (\<lambda>s. apply_record_state r False (s\<lparr>wm_next_lsn := next_lsn\<rparr>))) (\<lambda>_.
       eff_return (wm_next_lsn s))))))))"

definition sync_locked :: "lsn \<Rightarrow> unit wal_eff" where
  "sync_locked requested =
     eff_bind (eff_get id) (\<lambda>s.
     eff_bind (eff_res (ok_or E_55000 (lsn_new (wm_next_lsn s - 1)))) (\<lambda>appended.
     if appended < requested then eff_fail E_55000
     else if (case wm_durable_lsn s of None \<Rightarrow> False | Some durable \<Rightarrow> requested \<le> durable) then eff_return ()
     else eff_bind wal_sync_all (\<lambda>_. eff_put (\<lambda>s. s\<lparr>wm_durable_lsn := Some appended\<rparr>))))"

definition check_fault :: "fault_point \<Rightarrow> unit wal_eff" where
  "check_fault p s = (case inj_check p (wm_injector s) of (r, i) \<Rightarrow> (r, s\<lparr>wm_injector := i\<rparr>))"

definition flush_lsn :: "lsn \<Rightarrow> unit wal_eff" where
  "flush_lsn l = eff_bind (check_fault BeforeWalFlush) (\<lambda>_.
     eff_bind (sync_locked l) (\<lambda>_. check_fault AfterWalFlush))"

definition flush_through :: "u64 \<Rightarrow> unit wal_eff" where
  "flush_through l =
     (if l = 0 then eff_return ()
      else eff_bind (eff_res (lsn_try_from l)) flush_lsn)"

section \<open>Opening\<close>

definition empty_wal :: "u8 list \<Rightarrow> injector \<Rightarrow> io list \<Rightarrow> wal_manager" where
  "empty_wal bs faults os =
     \<lparr>wt_begin = bm_empty, wt_last = bm_empty, wt_terminal = bm_empty, wt_outcomes = bm_empty,
      wt_max_txn = None, wt_dirty = bm_empty, wt_txn_dirty = bm_empty,
      wm_file = \<lparr>lf_bytes = bs, lf_synced = length bs\<rparr>, wm_next_lsn = 1, wm_durable_lsn = None,
      wm_injector = faults, wm_io = os\<rparr>"

definition wal_open :: "(u8 list \<Rightarrow> u32) \<Rightarrow> nat wal_eff" where
  "wal_open crc =
     eff_bind (scan_file crc True) (\<lambda>scan.
     let last_lsn = (if sr_records scan = [] then None else Some (wr_lsn (last (sr_records scan)))) in
     eff_bind (eff_res (case last_lsn of Some l \<Rightarrow> lsn_checked_next l | None \<Rightarrow> ok_or E_XX000 (lsn_new 1))) (\<lambda>next_lsn.
     eff_bind (eff_put (\<lambda>s. fold (\<lambda>r. apply_record_state r True) (sr_records scan)
       (s\<lparr>wm_next_lsn := next_lsn, wm_durable_lsn := last_lsn\<rparr>))) (\<lambda>_.
       eff_return (sr_truncated_bytes scan))))"

text \<open>\<open>inspect_wal_read_only\<close> of an existing file: its size, the number of records and the largest id.\<close>

record wal_inspection =
  wi_file_bytes :: nat
  wi_record_count :: nat
  wi_max_transaction_id :: "transaction_id option"

definition inspect_wal_read_only :: "(u8 list \<Rightarrow> u32) \<Rightarrow> u8 list option \<Rightarrow> wal_inspection res" where
  "inspect_wal_read_only crc file =
     (case file of
        None \<Rightarrow> Inr \<lparr>wi_file_bytes = 0, wi_record_count = 0, wi_max_transaction_id = None\<rparr>
      | Some bs \<Rightarrow>
          try_bind (fst (scan_file crc False (empty_wal bs None []))) (\<lambda>scan.
            Inr \<lparr>wi_file_bytes = length bs, wi_record_count = length (sr_records scan),
                 wi_max_transaction_id = list_max (List.map_filter wr_txn (sr_records scan))\<rparr>))"

section \<open>Transactions in the log\<close>

definition wal_append ::
  "(u8 list \<Rightarrow> u32) \<Rightarrow> transaction_id option \<Rightarrow> lsn option \<Rightarrow> wal_payload \<Rightarrow> lsn wal_eff" where
  "wal_append = append_locked"

definition wal_last_lsn :: "transaction_id \<Rightarrow> lsn option wal_eff" where
  "wal_last_lsn t = eff_get (\<lambda>s. bm_get (wt_last s) t)"

definition transaction_chain :: "transaction_id \<Rightarrow> (lsn \<times> lsn) option wal_eff" where
  "transaction_chain t = eff_bind (eff_get id) (\<lambda>s.
     case (bm_get (wt_begin s) t, bm_get (wt_last s) t) of
       (Some b, Some l) \<Rightarrow> if \<not> bs_mem t (wt_terminal s) then eff_return (Some (b, l)) else eff_fail E_25000
     | (None, None) \<Rightarrow> eff_return None
     | _ \<Rightarrow> eff_fail E_XX001)"

definition wal_begin_transaction :: "(u8 list \<Rightarrow> u32) \<Rightarrow> transaction_id \<Rightarrow> logged_transaction wal_eff" where
  "wal_begin_transaction crc t =
     eff_bind (wal_append crc (Some t) None WpBegin) (\<lambda>begin_lsn.
     eff_bind (flush_lsn begin_lsn) (\<lambda>_.
       eff_return \<lparr>lt_txn = t, lt_begin_lsn = begin_lsn, lt_last_lsn = begin_lsn, lt_page_update_lsns = bm_empty\<rparr>))"

definition mark_transaction_clean :: "transaction_id \<Rightarrow> unit wal_eff" where
  "mark_transaction_clean t = eff_put (clear_dirty t)"

definition commit_transaction_at :: "(u8 list \<Rightarrow> u32) \<Rightarrow> transaction_id \<Rightarrow> lsn \<Rightarrow> lsn wal_eff" where
  "commit_transaction_at crc t expected =
     eff_bind (wal_last_lsn t) (\<lambda>current.
     if current \<noteq> Some expected then eff_fail E_XX001
     else eff_bind (wal_append crc (Some t) (Some expected) WpCommit) (\<lambda>commit_lsn.
       eff_bind (check_fault BeforeCommitFlush) (\<lambda>_.
       eff_bind (flush_lsn commit_lsn) (\<lambda>_.
       eff_bind (check_fault AfterCommitFlush) (\<lambda>_.
       eff_bind (mark_transaction_clean t) (\<lambda>_.
         eff_return commit_lsn))))))"

definition wal_commit :: "(u8 list \<Rightarrow> u32) \<Rightarrow> logged_transaction \<Rightarrow> lsn wal_eff" where
  "wal_commit crc lt = commit_transaction_at crc (lt_txn lt) (lt_last_lsn lt)"

definition wal_commit_transaction :: "(u8 list \<Rightarrow> u32) \<Rightarrow> transaction_id \<Rightarrow> lsn wal_eff" where
  "wal_commit_transaction crc t =
     eff_bind (transaction_chain t) (\<lambda>chain.
     case chain of
       None \<Rightarrow> eff_fail E_25P01
     | Some (_, last_lsn) \<Rightarrow> commit_transaction_at crc t last_lsn)"

definition wal_abort :: "(u8 list \<Rightarrow> u32) \<Rightarrow> transaction_id \<Rightarrow> lsn wal_eff" where
  "wal_abort crc t =
     eff_bind (wal_last_lsn t) (\<lambda>last_lsn.
     eff_bind (case last_lsn of Some l \<Rightarrow> eff_return l | None \<Rightarrow> wal_append crc (Some t) None WpBegin) (\<lambda>previous.
     eff_bind (wal_append crc (Some t) (Some previous) WpAbort) (\<lambda>abort_lsn.
     eff_bind (flush_lsn abort_lsn) (\<lambda>_.
     eff_bind (mark_transaction_clean t) (\<lambda>_.
       eff_return abort_lsn)))))"

text \<open>
  The part of \<open>PreparedCommit\<close> (store_parts/contracts.rs) that the log reads and marks. The
  binary search of \<open>mark_after_lsn\<close> runs on deltas sorted by unique page id, where it finds
  the one with the id.
\<close>

record page_delta =
  pd_page_id :: page_id
  pd_before :: "slotted_page option"
  pd_after :: "slotted_page option"

record prepared_commit =
  pc_deltas :: "page_delta list"
  pc_before_count :: u64
  pc_after_count :: u64

primrec delta_index :: "page_id \<Rightarrow> page_delta list \<Rightarrow> nat option" where
  "delta_index pid [] = None"
| "delta_index pid (d # ds) = (if pd_page_id d = pid then Some 0 else map_option Suc (delta_index pid ds))"

definition mark_after_lsn :: "(u8 list \<Rightarrow> u32) \<Rightarrow> page_id \<Rightarrow> u64 \<Rightarrow> (prepared_commit, unit) eff" where
  "mark_after_lsn crc pid l pc =
     (if l = 0 then (Inl E_22023, pc)
      else case delta_index pid (pc_deltas pc) of
        None \<Rightarrow> (Inl E_22023, pc)
      | Some i \<Rightarrow>
          let d = pc_deltas pc ! i in
          (case pd_after d of
             None \<Rightarrow> (Inl E_22023, pc)
           | Some page \<Rightarrow>
               (Inr (), pc\<lparr>pc_deltas := (pc_deltas pc)[i := d\<lparr>pd_after := Some (page_set_lsn crc l page)\<rparr>]\<rparr>)))"

primrec validate_sorted_from :: "page_id option \<Rightarrow> page_delta list \<Rightarrow> unit res" where
  "validate_sorted_from previous [] = Inr ()"
| "validate_sorted_from previous (d # ds) =
     guard_res (case previous of None \<Rightarrow> False | Some pid \<Rightarrow> pd_page_id d \<le> pid) E_XX001
       (validate_sorted_from (Some (pd_page_id d)) ds)"

definition validate_sorted_deltas :: "page_delta list \<Rightarrow> unit res" where
  "validate_sorted_deltas = validate_sorted_from None"

definition append_prepared_page ::
  "(u8 list \<Rightarrow> u32) \<Rightarrow> transaction_id \<Rightarrow> lsn \<Rightarrow> page_delta \<Rightarrow> (wal_manager \<times> prepared_commit, lsn) eff" where
  "append_prepared_page crc t previous d =
     eff_bind (eff_get (\<lambda>(s, _). wm_next_lsn s)) (\<lambda>l.
     eff_bind (case pd_after d of None \<Rightarrow> eff_return () | Some _ \<Rightarrow> on_snd (mark_after_lsn crc (pd_page_id d) l)) (\<lambda>_.
       on_fst (append_locked crc (Some t) (Some previous)
         (WpPageUpdate (pd_page_id d) (pd_before d) (map_option (page_set_lsn crc l) (pd_after d))))))"

primrec append_prepared_pages ::
  "(u8 list \<Rightarrow> u32) \<Rightarrow> transaction_id \<Rightarrow> page_delta list \<Rightarrow> lsn \<Rightarrow> (page_id, lsn) btree_map \<Rightarrow>
     (wal_manager \<times> prepared_commit, lsn \<times> (page_id, lsn) btree_map) eff" where
  "append_prepared_pages crc t [] previous lsns = eff_return (previous, lsns)"
| "append_prepared_pages crc t (d # ds) previous lsns =
     eff_bind (append_prepared_page crc t previous d) (\<lambda>l.
       append_prepared_pages crc t ds l (bm_insert (pd_page_id d) l lsns))"

definition log_prepared ::
  "(u8 list \<Rightarrow> u32) \<Rightarrow> transaction_id \<Rightarrow> (wal_manager \<times> prepared_commit, logged_transaction) eff" where
  "log_prepared crc t =
     eff_bind (eff_get (\<lambda>(_, pc). pc_deltas pc)) (\<lambda>deltas.
     eff_bind (eff_res (validate_sorted_deltas deltas)) (\<lambda>_.
     eff_bind (on_fst (transaction_chain t)) (\<lambda>chain.
     eff_bind (case chain of
         Some (b, l) \<Rightarrow> if b = l then eff_return (b, l) else eff_fail E_25000
       | None \<Rightarrow> eff_bind (on_fst (wal_begin_transaction crc t)) (\<lambda>lt. eff_return (lt_begin_lsn lt, lt_last_lsn lt)))
       (\<lambda>(begin_lsn, previous).
     eff_bind (append_prepared_pages crc t deltas previous bm_empty) (\<lambda>(previous, lsns).
     eff_bind (eff_get snd) (\<lambda>pc.
     eff_bind (if pc_before_count pc \<noteq> pc_after_count pc
         then on_fst (wal_append crc (Some t) (Some previous) (WpResize (pc_before_count pc) (pc_after_count pc)))
         else eff_return previous) (\<lambda>previous.
     eff_bind (on_fst (flush_lsn previous)) (\<lambda>_.
       eff_return \<lparr>lt_txn = t, lt_begin_lsn = begin_lsn, lt_last_lsn = previous, lt_page_update_lsns = lsns\<rparr>))))))))"

section \<open>Checkpoints and compensations\<close>

definition merge_dirty_pages :: "(page_id, lsn) btree_map \<Rightarrow> (page_id, lsn) btree_map \<Rightarrow> (page_id, lsn) btree_map" where
  "merge_dirty_pages extra dirty =
     fold (\<lambda>(pid, rec_lsn) m. bm_insert pid (case bm_get m pid of None \<Rightarrow> rec_lsn | Some l \<Rightarrow> min l rec_lsn) m)
       (bm_list extra) dirty"

text \<open>The first critical section of \<open>checkpoint\<close>.\<close>

definition checkpoint_begin_locked :: "(u8 list \<Rightarrow> u32) \<Rightarrow> checkpoint_state \<Rightarrow> (lsn \<times> lsn) wal_eff" where
  "checkpoint_begin_locked crc cs =
     eff_bind (eff_get wt_dirty) (\<lambda>dirty.
     eff_bind (append_locked crc None None (WpCheckpointBegin
       \<lparr>cb_active_transactions = cs_active_transactions cs,
        cb_dirty_pages = merge_dirty_pages (cs_dirty_pages cs) dirty,
        cb_visibility_horizon = cs_visibility_horizon cs\<rparr>)) (\<lambda>begin_lsn.
     eff_bind (check_fault BeforeWalFlush) (\<lambda>_.
     eff_bind (sync_locked begin_lsn) (\<lambda>_.
     eff_bind (check_fault AfterWalFlush) (\<lambda>_.
     eff_bind (check_fault AfterCheckpointBeginFlush) (\<lambda>_.
     eff_get (\<lambda>s. (begin_lsn,
       min (case cs_durable_wal_lsn cs of None \<Rightarrow> begin_lsn | Some l \<Rightarrow> l)
           (case wm_durable_lsn s of None \<Rightarrow> begin_lsn | Some l \<Rightarrow> l)))))))))"

definition wal_checkpoint :: "(u8 list \<Rightarrow> u32) \<Rightarrow> checkpoint_state \<Rightarrow> lsn wal_eff" where
  "wal_checkpoint crc cs =
     eff_bind (checkpoint_begin_locked crc cs) (\<lambda>(begin_lsn, sampled).
     eff_bind (check_fault BeforeCheckpointEndAppend) (\<lambda>_.
     eff_bind (wal_append crc None None (WpCheckpointEnd
       \<lparr>ce_begin_lsn = begin_lsn, ce_durable_data_generation = cs_durable_data_generation cs,
        ce_durable_wal_lsn = sampled, ce_data_file_page_count = cs_data_file_page_count cs\<rparr>)) (\<lambda>end_lsn.
     eff_bind (flush_lsn end_lsn) (\<lambda>_.
     eff_bind (check_fault AfterCheckpointEndFlush) (\<lambda>_.
       eff_return end_lsn)))))"

definition append_compensation ::
  "(u8 list \<Rightarrow> u32) \<Rightarrow> transaction_id \<Rightarrow> page_id \<Rightarrow> slotted_page option \<Rightarrow> u64 \<Rightarrow> lsn option \<Rightarrow>
     (lsn \<times> slotted_page option) wal_eff" where
  "append_compensation crc t pid undo count undo_next =
     eff_bind (eff_get id) (\<lambda>s.
     eff_bind (eff_res (ok_or E_XX001 (bm_get (wt_last s) t))) (\<lambda>previous.
     let l = wm_next_lsn s;
         undo = map_option (page_set_lsn crc l) undo
     in eff_bind (append_locked crc (Some t) (Some previous) (WpCompensation pid undo count undo_next)) (\<lambda>_.
        eff_bind (check_fault BeforeWalFlush) (\<lambda>_.
        eff_bind (sync_locked l) (\<lambda>_.
        eff_bind (check_fault AfterWalFlush) (\<lambda>_.
        eff_bind (check_fault AfterCompensationFlush) (\<lambda>_.
          eff_return (l, undo))))))))"

end
