(* ===== verification/WalLog.thy ===== *)
theory WalLog
  imports Wal
begin

text \<open>
  The log behind the write-ahead log manager: the invariant that ties the state of the
  manager to the list of records in its file, its preservation by every step of any
  interleaving of threads, and what opening the file after a crash brings back.
\<close>

section \<open>Scanning what was written\<close>

definition enc :: "(u8 list \<Rightarrow> u32) \<Rightarrow> wal_record \<Rightarrow> u8 list" where
  "enc crc r = projr (record_encode crc r)"

definition loggable :: "(u8 list \<Rightarrow> u32) \<Rightarrow> wal_record \<Rightarrow> bool" where
  "loggable crc r \<longleftrightarrow> record_wf r \<and> is_ok (record_encode crc r)"

definition log_bytes :: "(u8 list \<Rightarrow> u32) \<Rightarrow> wal_record list \<Rightarrow> u8 list" where
  "log_bytes crc log = concat (map (enc crc) log)"

lemma log_bytes_simps [simp]:
  "log_bytes crc [] = []"
  "log_bytes crc (r # rs) = enc crc r @ log_bytes crc rs"
  "log_bytes crc (rs @ rs') = log_bytes crc rs @ log_bytes crc rs'"
  by (simp_all add: log_bytes_def)

lemma loggable_encode: "loggable crc r \<Longrightarrow> record_encode crc r = Inr (enc crc r)"
  by (auto simp: loggable_def enc_def is_ok_iff)

lemma loggable_enc:
  assumes "loggable crc r"
  shows "record_from_bytes crc (enc crc r) = Inr r" and "WAL_HEADER_LEN \<le> length (enc crc r)"
    and "\<exists>h. parse_header (take WAL_HEADER_LEN (enc crc r)) = Inr h \<and> rh_total_len h = length (enc crc r)"
proof -
  have wf: "record_wf r" using assms by (simp add: loggable_def)
  note e = loggable_encode [OF assms]
  show "record_from_bytes crc (enc crc r) = Inr r" by (rule record_roundtrip_lemma [OF wf e])
  from e obtain p where p: "length p \<le> PAGE_UPDATE_PAYLOAD_LEN" "enc crc r = sealed_record crc r p"
    by (auto simp: record_encode_Ok)
  then show len: "WAL_HEADER_LEN \<le> length (enc crc r)" by simp
  show "\<exists>h. parse_header (take WAL_HEADER_LEN (enc crc r)) = Inr h \<and> rh_total_len h = length (enc crc r)"
    using parse_header_sealed [OF wf p(1), of crc] p(2) parse_header_take [OF len] by simp
qed

lemma scan_loop_record:
  assumes "loggable crc r"
  shows "scan_loop crc (enc crc r @ rest) off =
    try_bind (scan_loop crc rest (off + length (enc crc r))) (\<lambda>(rs, end_off, complete). Inr (r # rs, end_off, complete))"
proof -
  note e = loggable_enc [OF assms]
  from e(3) obtain h where h: "parse_header (take WAL_HEADER_LEN (enc crc r)) = Inr h" "rh_total_len h = length (enc crc r)"
    by blast
  have ne: "enc crc r @ rest \<noteq> []" using e(2) by auto
  have t: "take WAL_HEADER_LEN (enc crc r @ rest) = take WAL_HEADER_LEN (enc crc r)" using e(2) by simp
  have t2: "take (length (enc crc r)) (enc crc r @ rest) = enc crc r" by simp
  show ?thesis
    using e(1,2) by (subst scan_loop.simps) (simp only: t t2 h ne if_False length_append try_bind_simps, simp)
qed

text \<open>\<open>torn crc tail\<close>: nothing, or the beginning of the bytes of some record.\<close>

definition torn :: "(u8 list \<Rightarrow> u32) \<Rightarrow> u8 list \<Rightarrow> bool" where
  "torn crc tail \<longleftrightarrow> (\<exists>r k. loggable crc r \<and> k < length (enc crc r) \<and> tail = take k (enc crc r))"

lemma scan_loop_torn:
  assumes "torn crc tail"
  shows "scan_loop crc tail off = Inr ([], off, tail = [])"
proof -
  from assms obtain r k where r: "loggable crc r" and k: "k < length (enc crc r)" and tail: "tail = take k (enc crc r)"
    by (auto simp: torn_def)
  have len: "length tail = k" using k tail by simp
  show ?thesis
  proof (cases "k < WAL_HEADER_LEN")
    case True
    with len show ?thesis by (subst scan_loop.simps) auto
  next
    case False
    from loggable_enc(3) [OF r] obtain h where
      h: "parse_header (take WAL_HEADER_LEN (enc crc r)) = Inr h" "rh_total_len h = length (enc crc r)" by blast
    have "take WAL_HEADER_LEN tail = take WAL_HEADER_LEN (enc crc r)" using False by (simp add: tail min_def)
    moreover have "tail \<noteq> []" using len False by auto
    ultimately show ?thesis using h len k False by (subst scan_loop.simps) simp
  qed
qed

lemma scan_loop_log:
  assumes "list_all (loggable crc) rs" and "tail = [] \<or> torn crc tail"
  shows "scan_loop crc (log_bytes crc rs @ tail) off = Inr (rs, off + length (log_bytes crc rs), tail = [])"
  using assms(1)
proof (induction rs arbitrary: off)
  case Nil
  from assms(2) show ?case
  proof
    assume "tail = []"
    then show ?thesis by (subst scan_loop.simps) simp
  qed (simp add: scan_loop_torn)
next
  case (Cons r rs)
  then have "scan_loop crc (log_bytes crc rs @ tail) (off + length (enc crc r)) =
      Inr (rs, off + length (enc crc r) + length (log_bytes crc rs), tail = [])" by simp
  with scan_loop_record [of crc r "log_bytes crc rs @ tail" off] Cons.prems show ?case by simp
qed

text \<open>A prefix of the file holds a prefix of the records and a torn one.\<close>

lemma log_prefix:
  assumes "list_all (loggable crc) log"
  shows "\<exists>j tail. j \<le> length log \<and> take k (log_bytes crc log) = log_bytes crc (take j log) @ tail \<and>
    (tail = [] \<or> torn crc tail) \<and> (j < length log \<longrightarrow> k < length (log_bytes crc (take (Suc j) log)))"
  using assms
proof (induction log arbitrary: k)
  case Nil
  then show ?case by (intro exI [of _ 0] exI [of _ "[]"]) simp
next
  case (Cons r log)
  show ?case
  proof (cases "k < length (enc crc r)")
    case True
    then have "take k (log_bytes crc (r # log)) = take k (enc crc r)" by simp
    moreover have "torn crc (take k (enc crc r))" using True Cons.prems by (auto simp: torn_def)
    ultimately show ?thesis using True by (intro exI [of _ 0] exI [of _ "take k (enc crc r)"]) simp
  next
    case False
    from Cons.IH [of "k - length (enc crc r)"] Cons.prems obtain j tail where
      "j \<le> length log" "take (k - length (enc crc r)) (log_bytes crc log) = log_bytes crc (take j log) @ tail"
      "tail = [] \<or> torn crc tail"
      "j < length log \<longrightarrow> k - length (enc crc r) < length (log_bytes crc (take (Suc j) log))"
      by auto
    with False show ?thesis by (intro exI [of _ "Suc j"] exI [of _ tail]) auto
  qed
qed

section \<open>Tables and logs\<close>

definition empty_tables :: wal_tables where
  "empty_tables = \<lparr>wt_begin = bm_empty, wt_last = bm_empty, wt_terminal = bm_empty, wt_outcomes = bm_empty,
     wt_max_txn = None, wt_dirty = bm_empty, wt_txn_dirty = bm_empty\<rparr>"

definition core :: "'a wal_tables_scheme \<Rightarrow> (transaction_id, lsn) btree_map \<times> (transaction_id, lsn) btree_map \<times>
    transaction_id btree_set \<times> (transaction_id, outcome) btree_map \<times> transaction_id option" where
  "core s = (wt_begin s, wt_last s, wt_terminal s, wt_outcomes s, wt_max_txn s)"

definition tables_of :: "wal_record list \<Rightarrow> wal_tables" where
  "tables_of log = fold (\<lambda>r. apply_record_state r False) log empty_tables"

lemma core_clear_dirty [simp]: "core (clear_dirty t s) = core s"
  by (simp add: core_def clear_dirty_def split: option.split)

lemma core_apply:
  "core s = core s' \<Longrightarrow> core (apply_record_state r c s) = core (apply_record_state r c' s')"
  by (auto simp: core_def apply_record_state_def Let_def track_begin_def track_dirty_def track_terminal_def
      clear_dirty_def split: option.splits wal_payload.splits)

lemma core_fold: "core s = core s' \<Longrightarrow>
  core (fold (\<lambda>r. apply_record_state r c) rs s) = core (fold (\<lambda>r. apply_record_state r c') rs s')"
  by (induction rs arbitrary: s s') (auto intro: core_apply)

lemma tables_of_snoc: "tables_of (log @ [r]) = apply_record_state r False (tables_of log)"
  by (simp add: tables_of_def)

text \<open>Fields outside the tables.\<close>

lemma apply_record_state_fields [simp]:
  "wm_file (apply_record_state r c s) = wm_file s" "wm_next_lsn (apply_record_state r c s) = wm_next_lsn s"
  "wm_durable_lsn (apply_record_state r c s) = wm_durable_lsn s" "wm_injector (apply_record_state r c s) = wm_injector s"
  "wm_io (apply_record_state r c s) = wm_io s"
  by (auto simp: apply_record_state_def Let_def track_begin_def track_dirty_def track_terminal_def
      clear_dirty_def split: option.splits wal_payload.splits)

lemma clear_dirty_fields [simp]:
  "wm_file (clear_dirty t s) = wm_file s" "wm_next_lsn (clear_dirty t s) = wm_next_lsn s"
  "wm_durable_lsn (clear_dirty t s) = wm_durable_lsn s" "wm_injector (clear_dirty t s) = wm_injector s"
  "wm_io (clear_dirty t s) = wm_io s"
  by (auto simp: clear_dirty_def split: option.splits)

lemma fold_apply_fields [simp]:
  "wm_file (fold (\<lambda>r. apply_record_state r c) rs s) = wm_file s"
  "wm_next_lsn (fold (\<lambda>r. apply_record_state r c) rs s) = wm_next_lsn s"
  "wm_durable_lsn (fold (\<lambda>r. apply_record_state r c) rs s) = wm_durable_lsn s"
  "wm_io (fold (\<lambda>r. apply_record_state r c) rs s) = wm_io s"
  by (induction rs arbitrary: s) simp_all

section \<open>The sequence check and the tables\<close>

definition seq_of :: "lsn option \<Rightarrow> 'a wal_tables_scheme \<Rightarrow> seq_state" where
  "seq_of prev s = \<lparr>sq_prev = prev, sq_last = wt_last s, sq_terminal = wt_terminal s, sq_max = wt_max_txn s\<rparr>"

lemma seq_run_append: "seq_run (xs @ ys) s = try_bind (seq_run xs s) (seq_run ys)"
proof (induction xs arbitrary: s)
  case Nil
  then show ?case by simp
next
  case (Cons x xs)
  then show ?case by (cases "seq_step x s") simp_all
qed

text \<open>The check that a record of a log passes is the one its append has passed.\<close>

lemma seq_step_append:
  assumes "validate_append_chain s (wr_txn r) (wr_prev r) (wr_payload r) = Inr ()"
    and "prev = None \<or> the prev < wr_lsn r"
  shows "seq_step r (seq_of prev s) = Inr (seq_of (Some (wr_lsn r)) (apply_record_state r False s))"
proof -
  have kind: "wr_kind r = RkBegin \<longleftrightarrow> wr_payload r = WpBegin" "wr_kind r = RkCommit \<longleftrightarrow> wr_payload r = WpCommit"
    "wr_kind r = RkAbort \<longleftrightarrow> wr_payload r = WpAbort"
    by (cases "wr_payload r"; simp add: wr_kind_def)+
  show ?thesis
  proof (cases "wr_txn r")
    case None
    with assms(2) show ?thesis by (cases prev) (auto simp: seq_step_def seq_of_def apply_record_state_def guard_res_def)
  next
    case (Some t)
    have mx: "Some (case wt_max_txn s of None \<Rightarrow> t | Some m \<Rightarrow> max m t) = Some t" if "wr_payload r = WpBegin"
      using assms(1) Some that by (auto simp: validate_append_chain_def res_simps max_def split: option.splits)
    have "seq_check r t ((seq_of prev s)\<lparr>sq_prev := Some (wr_lsn r)\<rparr>) =
        Inr ((seq_of (Some (wr_lsn r)) s)\<lparr>sq_max := (if wr_payload r = WpBegin then Some t else wt_max_txn s)\<rparr>)"
      using assms(1) Some
      by (auto simp: seq_check_def kind validate_append_chain_def seq_of_def res_simps)
    with assms(2) Some mx show ?thesis
      by (cases prev; cases "wr_payload r")
        (simp_all add: seq_step_def guard_res_def not_le kind seq_of_def apply_record_state_def Let_def track_begin_def track_dirty_def track_terminal_def)
  qed
qed

section \<open>The invariant\<close>

text \<open>
  No two calls to the operating system in a row fail. (Without this, the truncation after a
  failed write could fail as well.)
\<close>

primrec no_double_fault :: "io list \<Rightarrow> bool" where
  "no_double_fault [] = True"
| "no_double_fault (x # os) = ((x = IoOk \<or> os = [] \<or> hd os = IoOk) \<and> no_double_fault os)"

lemma no_double_fault_next: "next_io os = (x, os') \<Longrightarrow> no_double_fault os \<Longrightarrow> no_double_fault os'"
  by (cases os) auto

definition wal_ok :: "(u8 list \<Rightarrow> u32) \<Rightarrow> wal_record list \<Rightarrow> wal_manager \<Rightarrow> bool" where
  "wal_ok crc log s \<longleftrightarrow>
     list_all (loggable crc) log \<and> lf_bytes (wm_file s) = log_bytes crc log \<and>
     (\<forall>i < length log. wr_lsn (log ! i) = of_nat (Suc i)) \<and>
     unat (wm_next_lsn s) = Suc (length log) \<and>
     core s = core (tables_of log) \<and>
     seq_run log seq_init = Inr (seq_of (if log = [] then None else Some (wr_lsn (last log))) s) \<and>
     (\<forall>d. wm_durable_lsn s = Some d \<longrightarrow> (d \<noteq> 0 \<and> d < wm_next_lsn s) \<and>
        length (log_bytes crc (take (unat d) log)) \<le> lf_synced (wm_file s)) \<and>
     lf_synced (wm_file s) \<le> length (log_bytes crc log) \<and>
     no_double_fault (wm_io s) \<and> (\<forall>pid. bm_get (wt_dirty s) pid \<noteq> Some 0)"

lemma wal_okD:
  assumes "wal_ok crc log s"
  shows "list_all (loggable crc) log" "lf_bytes (wm_file s) = log_bytes crc log"
    "i < length log \<Longrightarrow> wr_lsn (log ! i) = of_nat (Suc i)" "unat (wm_next_lsn s) = Suc (length log)"
    "core s = core (tables_of log)"
    "seq_run log seq_init = Inr (seq_of (if log = [] then None else Some (wr_lsn (last log))) s)"
    "wm_durable_lsn s = Some d \<Longrightarrow> d \<noteq> 0 \<and> d < wm_next_lsn s"
    "wm_durable_lsn s = Some d \<Longrightarrow> length (log_bytes crc (take (unat d) log)) \<le> lf_synced (wm_file s)"
    "lf_synced (wm_file s) \<le> length (log_bytes crc log)" "no_double_fault (wm_io s)"
    "bm_get (wt_dirty s) pid \<noteq> Some 0"
  using assms unfolding wal_ok_def by auto

lemma wal_okI:
  assumes "list_all (loggable crc) log" "lf_bytes (wm_file s) = log_bytes crc log"
    "\<And>i. i < length log \<Longrightarrow> wr_lsn (log ! i) = of_nat (Suc i)" "unat (wm_next_lsn s) = Suc (length log)"
    "core s = core (tables_of log)"
    "seq_run log seq_init = Inr (seq_of (if log = [] then None else Some (wr_lsn (last log))) s)"
    "\<And>d. wm_durable_lsn s = Some d \<Longrightarrow> d \<noteq> 0 \<and> d < wm_next_lsn s"
    "\<And>d. wm_durable_lsn s = Some d \<Longrightarrow> length (log_bytes crc (take (unat d) log)) \<le> lf_synced (wm_file s)"
    "lf_synced (wm_file s) \<le> length (log_bytes crc log)" "no_double_fault (wm_io s)"
    "\<And>pid. bm_get (wt_dirty s) pid \<noteq> Some 0"
  shows "wal_ok crc log s"
  using assms unfolding wal_ok_def by auto

text \<open>The log only grows at its end, and what is durable stays so.\<close>

definition wal_later :: "(u8 list \<Rightarrow> u32) \<Rightarrow> wal_manager \<Rightarrow> wal_manager \<Rightarrow> bool" where
  "wal_later crc s s' \<longleftrightarrow> (\<forall>log. wal_ok crc log s \<longrightarrow>
     (\<exists>more. wal_ok crc (log @ more) s' \<and> lf_synced (wm_file s) \<le> lf_synced (wm_file s')))"

lemma wal_laterI:
  assumes "\<And>log. wal_ok crc log s \<Longrightarrow> \<exists>more. wal_ok crc (log @ more) s' \<and> lf_synced (wm_file s) \<le> lf_synced (wm_file s')"
  shows "wal_later crc s s'"
  using assms by (simp add: wal_later_def)

lemma wal_later_refl: "wal_later crc s s"
  unfolding wal_later_def by (metis append_Nil2 order.refl)

lemma wal_later_trans: "wal_later crc a b \<Longrightarrow> wal_later crc b c \<Longrightarrow> wal_later crc a c"
  unfolding wal_later_def by (metis append_assoc order.trans)

lemma wal_ok_last_lsn: "wal_ok crc log s \<Longrightarrow> log \<noteq> [] \<Longrightarrow> wr_lsn (last log) = of_nat (length log)"
  using wal_okD(3) [of crc log s "length log - 1"] by (simp add: last_conv_nth del: of_nat_Suc)

text \<open>A state that differs only where the invariant does not look.\<close>

lemma wal_ok_frame:
  assumes "wal_ok crc log s" and "core s' = core s" and "wm_file s' = wm_file s" and "wm_next_lsn s' = wm_next_lsn s"
    and "wm_durable_lsn s' = wm_durable_lsn s" and "no_double_fault (wm_io s')"
    and "\<And>pid. bm_get (wt_dirty s') pid \<noteq> Some 0"
  shows "wal_ok crc log s'"
proof -
  have "seq_of prev s' = seq_of prev s" for prev using assms(2) by (simp add: seq_of_def core_def)
  then show ?thesis
    using assms wal_okD [OF assms(1)] by (intro wal_okI) simp_all
qed

lemma clear_dirty_get: "bm_get (wt_dirty s) pid \<noteq> Some 0 \<Longrightarrow> bm_get (wt_dirty (clear_dirty t s)) pid \<noteq> Some 0"
  by (auto simp: clear_dirty_def fold_remove_get split: option.split)

section \<open>Every step keeps the invariant\<close>

lemma check_fault_later: "wal_later crc s (snd (check_fault p s))"
proof (rule wal_laterI)
  fix log
  assume ok: "wal_ok crc log s"
  obtain r i where c: "inj_check p (wm_injector s) = (r, i)" by (cases "inj_check p (wm_injector s)")
  have "wal_ok crc log (s\<lparr>wm_injector := i\<rparr>)"
    by (rule wal_ok_frame [OF ok]) (use wal_okD(10,11) [OF ok] in \<open>simp_all add: core_def\<close>)
  with c show "\<exists>more. wal_ok crc (log @ more) (snd (check_fault p s)) \<and>
      lf_synced (wm_file s) \<le> lf_synced (wm_file (snd (check_fault p s)))"
    by (intro exI [of _ "[]"]) (simp add: check_fault_def)
qed

lemma clear_dirty_later: "wal_later crc s (clear_dirty t s)"
proof (rule wal_laterI)
  fix log
  assume ok: "wal_ok crc log s"
  have "wal_ok crc log (clear_dirty t s)"
    by (rule wal_ok_frame [OF ok]) (use wal_okD(10,11) [OF ok] in \<open>simp_all add: clear_dirty_get\<close>)
  then show "\<exists>more. wal_ok crc (log @ more) (clear_dirty t s) \<and>
      lf_synced (wm_file s) \<le> lf_synced (wm_file (clear_dirty t s))"
    by (intro exI [of _ "[]"]) simp
qed

lemma sync_all_cases:
  assumes "wal_sync_all s = (r, s')"
  obtains os where "next_io (wm_io s) = (IoOk, os)" and "r = Inr ()"
    and "s' = s\<lparr>wm_io := os, wm_file := (wm_file s)\<lparr>lf_synced := length (lf_bytes (wm_file s))\<rparr>\<rparr>"
  | x os where "next_io (wm_io s) = (x, os)" and "r = Inl E_58030" and "s' = s\<lparr>wm_io := os\<rparr>"
  using assms
  by (cases "next_io (wm_io s)") (auto simp: wal_sync_all_def wal_next_io_def eff_bind_def split: if_splits)

lemma sync_locked_cases:
  assumes "sync_locked l s = (r, s')"
  obtains "s' = s"
  | os where "next_io (wm_io s) = (IoOk, os)" and "r = Inr ()" and "l \<le> wm_next_lsn s - 1" and "wm_next_lsn s \<noteq> 1"
    and "s' = s\<lparr>wm_io := os, wm_file := (wm_file s)\<lparr>lf_synced := length (lf_bytes (wm_file s))\<rparr>,
           wm_durable_lsn := Some (wm_next_lsn s - 1)\<rparr>"
  | x os where "next_io (wm_io s) = (x, os)" and "r = Inl E_58030" and "s' = s\<lparr>wm_io := os\<rparr>"
proof (cases "s' = s")
  case False
  from assms False have ne: "wm_next_lsn s \<noteq> 1" and le: "l \<le> wm_next_lsn s - 1"
    and all: "eff_bind wal_sync_all (\<lambda>_. eff_put (\<lambda>s'. s'\<lparr>wm_durable_lsn := Some (wm_next_lsn s - 1)\<rparr>)) s = (r, s')"
    by (auto simp: sync_locked_def eff_bind_def [of "eff_get id"] eff_bind_def [of "eff_res x" for x] lsn_new_def not_less
        split: if_splits)
  from all show ?thesis
  proof (cases rule: eff_bind_cases)
    case (1 e)
    then show ?thesis using that(3) by (auto elim!: sync_all_cases)
  next
    case (2 x s1)
    from 2(1) obtain os where "next_io (wm_io s) = (IoOk, os)"
      and "s1 = s\<lparr>wm_io := os, wm_file := (wm_file s)\<lparr>lf_synced := length (lf_bytes (wm_file s))\<rparr>\<rparr>"
      by (auto elim: sync_all_cases)
    with 2(2) ne le show ?thesis by (intro that(2)) auto
  qed
qed (rule that(1))

lemma sync_locked_later: "wal_later crc s (snd (sync_locked l s))"
proof (rule wal_laterI)
  fix log
  assume ok: "wal_ok crc log s"
  obtain r s' where e: "sync_locked l s = (r, s')" by (cases "sync_locked l s")
  then have "wal_ok crc log s' \<and> lf_synced (wm_file s) \<le> lf_synced (wm_file s')"
  proof (cases rule: sync_locked_cases)
    case 1
    with ok show ?thesis by simp
  next
    case (2 os)
    have n: "unat (wm_next_lsn s - 1) = length log" and lt: "wm_next_lsn s - 1 < wm_next_lsn s"
    proof -
      have nz: "wm_next_lsn s \<noteq> 0" using wal_okD(4) [OF ok] by auto
      from unat_minus_one [OF nz] wal_okD(4) [OF ok]
      show "unat (wm_next_lsn s - 1) = length log" "wm_next_lsn s - 1 < wm_next_lsn s"
        by (simp_all add: word_less_nat_alt)
    qed
    have "wal_ok crc log s'"
    proof (rule wal_okI)
      have "core s' = core s" by (simp add: 2 core_def)
      then show "core s' = core (tables_of log)" using wal_okD(5) [OF ok] by simp
      have "seq_of prev s' = seq_of prev s" for prev by (simp add: 2 seq_of_def)
      then show "seq_run log seq_init = Inr (seq_of (if log = [] then None else Some (wr_lsn (last log))) s')"
        using wal_okD(6) [OF ok] by simp
      show "no_double_fault (wm_io s')" using no_double_fault_next [OF 2(1) wal_okD(10) [OF ok]] by (simp add: 2)
    qed (use wal_okD(1-5,11) [OF ok] n lt in \<open>auto simp: 2\<close>)
    moreover have "lf_synced (wm_file s) \<le> lf_synced (wm_file s')"
      using wal_okD(2,9) [OF ok] by (simp add: 2)
    ultimately show ?thesis ..
  next
    case (3 x os)
    then have "wal_ok crc log s'"
      using no_double_fault_next [OF 3(1) wal_okD(10) [OF ok]] wal_okD(11) [OF ok] by (intro wal_ok_frame [OF ok]) (simp_all add: core_def)
    with 3 show ?thesis by simp
  qed
  with e show "\<exists>more. wal_ok crc (log @ more) (snd (sync_locked l s)) \<and>
      lf_synced (wm_file s) \<le> lf_synced (wm_file (snd (sync_locked l s)))"
    by (intro exI [of _ "[]"]) simp
qed

text \<open>The ways an append can end.\<close>

lemma set_len_file:
  assumes "wal_set_len n s = (r, s')"
  shows "\<exists>x os. next_io (wm_io s) = (x, os) \<and>
    s' = (if x = IoOk then s\<lparr>wm_io := os, wm_file := \<lparr>lf_bytes = take n (lf_bytes (wm_file s)),
            lf_synced = min n (lf_synced (wm_file s))\<rparr>\<rparr> else s\<lparr>wm_io := os\<rparr>)"
  using assms by (cases "next_io (wm_io s)")
    (auto simp: wal_set_len_def wal_next_io_def eff_bind_def split: if_splits)

lemma write_all_cases:
  assumes "wal_write_all bs s = (r, s')"
  obtains os where "next_io (wm_io s) = (IoOk, os)" and "r = Inr ()"
    and "s' = s\<lparr>wm_io := os, wm_file := (wm_file s)\<lparr>lf_bytes := lf_bytes (wm_file s) @ bs\<rparr>\<rparr>"
  | n os x os' where "next_io (wm_io s) = (IoFail n, os)" and "next_io os = (x, os')" and "r = Inl E_58030"
    and "s' = s\<lparr>wm_io := os', wm_file :=
      (if x = IoOk then \<lparr>lf_bytes = lf_bytes (wm_file s), lf_synced = min (length (lf_bytes (wm_file s))) (lf_synced (wm_file s))\<rparr>
       else (wm_file s)\<lparr>lf_bytes := lf_bytes (wm_file s) @ take n bs\<rparr>)\<rparr>"
proof (cases "fst (next_io (wm_io s))")
  case IoOk
  then show ?thesis using assms that(1)
    by (cases "next_io (wm_io s)") (auto simp: wal_write_all_def wal_next_io_def eff_bind_def)
next
  case (IoFail n)
  obtain os where os: "next_io (wm_io s) = (IoFail n, os)" using IoFail by (cases "next_io (wm_io s)") auto
  let ?s1 = "s\<lparr>wm_io := os, wm_file := (wm_file s)\<lparr>lf_bytes := lf_bytes (wm_file s) @ take n bs\<rparr>\<rparr>"
  obtain r2 s2 where l: "wal_set_len (length (lf_bytes (wm_file s))) ?s1 = (r2, s2)"
    by (cases "wal_set_len (length (lf_bytes (wm_file s))) ?s1")
  from os l assms have r: "r = Inl E_58030" "s' = s2"
    by (simp_all add: wal_write_all_def wal_next_io_def eff_bind_def eff_ignore_def)
  from set_len_file [OF l] obtain x os' where x: "next_io os = (x, os')"
    and s2: "s2 = (if x = IoOk then ?s1\<lparr>wm_io := os', wm_file := \<lparr>lf_bytes = take (length (lf_bytes (wm_file s))) (lf_bytes (wm_file ?s1)),
            lf_synced = min (length (lf_bytes (wm_file s))) (lf_synced (wm_file ?s1))\<rparr>\<rparr> else ?s1\<lparr>wm_io := os'\<rparr>)"
    by auto
  show ?thesis
    by (rule that(2) [OF os x r(1)]) (simp add: r(2) s2)
qed

lemma append_locked_cases:
  assumes "append_locked crc t prev p s = (r, s')"
  obtains e where "r = Inl e" and "s' = s"
  | bs os rec where "rec = \<lparr>wr_lsn = wm_next_lsn s, wr_txn = t, wr_prev = prev, wr_payload = p\<rparr>"
    and "validate_append_chain s t prev p = Inr ()" and "lsn_checked_next (wm_next_lsn s) = Inr (wm_next_lsn s + 1)"
    and "record_encode crc rec = Inr bs" and "next_io (wm_io s) = (IoOk, os)" and "r = Inr (wm_next_lsn s)"
    and "s' = apply_record_state rec False (s\<lparr>wm_io := os,
      wm_file := (wm_file s)\<lparr>lf_bytes := lf_bytes (wm_file s) @ bs\<rparr>, wm_next_lsn := wm_next_lsn s + 1\<rparr>)"
  | bs n os x os' where "next_io (wm_io s) = (IoFail n, os)" and "next_io os = (x, os')" and "r = Inl E_58030"
    and "s' = s\<lparr>wm_io := os', wm_file :=
      (if x = IoOk then \<lparr>lf_bytes = lf_bytes (wm_file s), lf_synced = min (length (lf_bytes (wm_file s))) (lf_synced (wm_file s))\<rparr>
       else (wm_file s)\<lparr>lf_bytes := lf_bytes (wm_file s) @ take n bs\<rparr>)\<rparr>"
proof (cases "s' = s \<and> is_ok r = False")
  case True
  then show ?thesis using that(1) by (cases r) auto
next
  case False
  let ?rec = "\<lparr>wr_lsn = wm_next_lsn s, wr_txn = t, wr_prev = prev, wr_payload = p\<rparr>"
  from assms False have v: "validate_append_chain s t prev p = Inr ()"
    by (cases "validate_append_chain s t prev p") (auto simp: append_locked_def eff_bind_def)
  from assms False v obtain next_lsn where n: "lsn_checked_next (wm_next_lsn s) = Inr next_lsn"
  proof (cases "lsn_checked_next (wm_next_lsn s)")
    case (Inl e)
    with assms v have "s' = s" "r = Inl e" by (simp_all add: append_locked_def eff_bind_def)
    with False show ?thesis by simp
  qed (rule that)
  then have n': "next_lsn = wm_next_lsn s + 1"
    by (auto simp: lsn_checked_next_def res_simps bind_eq_Some_conv checked_add_u64_Some_iff lsn_new_def split: if_splits)
  from assms False v n have rn: "record_new crc (wm_next_lsn s) t prev p = Inr ?rec"
    by (cases "record_new crc (wm_next_lsn s) t prev p") (auto simp: append_locked_def eff_bind_def record_new_def Let_def res_simps)
  from assms False v n rn obtain bs where bs: "record_encode crc ?rec = Inr bs"
    by (cases "record_encode crc ?rec") (auto simp: append_locked_def eff_bind_def)
  obtain rw sw where w: "wal_write_all bs s = (rw, sw)" by (cases "wal_write_all bs s")
  from w show ?thesis
  proof (cases rule: write_all_cases)
    case (1 os)
    with assms v n n' rn bs w show ?thesis
      by (intro that(2) [of ?rec bs os]) (simp_all add: append_locked_def eff_bind_def)
  next
    case (2 k os x os')
    with assms v n rn bs w show ?thesis
      by (intro that(3) [of k os x os' bs]) (simp_all add: append_locked_def eff_bind_def)
  qed
qed

lemma tables_last_nonzero:
  assumes "list_all (\<lambda>r. wr_lsn r \<noteq> 0) log"
  shows "bm_get (wt_last (tables_of log)) t \<noteq> Some 0"
  using assms
proof (induction log rule: rev_induct)
  case Nil
  then show ?case by (simp add: tables_of_def empty_tables_def)
next
  case (snoc r log)
  then show ?case
    by (auto simp: tables_of_snoc apply_record_state_def Let_def track_begin_def track_dirty_def track_terminal_def
        split: option.splits wal_payload.splits)
qed

lemma apply_dirty_nonzero:
  assumes "wr_lsn r \<noteq> 0" and s: "\<And>pid. bm_get (wt_dirty s) pid \<noteq> Some 0"
  shows "bm_get (wt_dirty (apply_record_state r c s)) pid \<noteq> Some 0"
proof -
  have clear: "bm_get (wt_dirty (clear_dirty t s')) pid \<noteq> Some 0" if "wt_dirty s' = wt_dirty s" for t and s' :: "'a wal_tables_scheme"
    using s [of pid] that by (intro clear_dirty_get) simp
  show ?thesis
    using assms clear
    by (auto simp: apply_record_state_def Let_def track_begin_def track_dirty_def track_terminal_def bm_entry_def
        split: option.splits wal_payload.splits)
qed

lemma fold_dirty_nonzero:
  "list_all (\<lambda>r. wr_lsn r \<noteq> 0) rs \<Longrightarrow> (\<And>pid. bm_get (wt_dirty s) pid \<noteq> Some 0) \<Longrightarrow>
     bm_get (wt_dirty (fold (\<lambda>r. apply_record_state r c) rs s)) pid \<noteq> Some 0"
  by (induction rs arbitrary: s) (simp_all add: apply_dirty_nonzero)

lemma wal_ok_last_nonzero:
  assumes "wal_ok crc log s"
  shows "bm_get (wt_last s) t \<noteq> Some 0"
proof -
  have "list_all (\<lambda>r. wr_lsn r \<noteq> 0) log"
    using wal_okD(1) [OF assms] by (auto simp: list_all_iff loggable_def record_wf_def)
  from tables_last_nonzero [OF this] wal_okD(5) [OF assms] show ?thesis by (simp add: core_def)
qed

text \<open>Appending a record that fits keeps the invariant with the record at the end of the log.\<close>

lemma append_ok:
  assumes ok: "wal_ok crc log s" and t: "t \<noteq> Some 0" and p: "payload_wf p"
    and rec: "rec = \<lparr>wr_lsn = wm_next_lsn s, wr_txn = t, wr_prev = prev, wr_payload = p\<rparr>"
    and v: "validate_append_chain s t prev p = Inr ()" and nx: "lsn_checked_next (wm_next_lsn s) = Inr (wm_next_lsn s + 1)"
    and e: "record_encode crc rec = Inr bs" and io: "next_io (wm_io s) = (IoOk, os)"
  shows "wal_ok crc (log @ [rec]) (apply_record_state rec False (s\<lparr>wm_io := os,
      wm_file := (wm_file s)\<lparr>lf_bytes := lf_bytes (wm_file s) @ bs\<rparr>, wm_next_lsn := wm_next_lsn s + 1\<rparr>))"
    (is "wal_ok crc _ (apply_record_state rec False ?s1)")
proof (rule wal_okI)
  note okD = wal_okD [OF ok]
  have val: "record_validate crc rec = Inr ()" using e by (simp add: record_encode_Ok)
  have l0: "wm_next_lsn s \<noteq> 0" using okD(4) by auto
  have unat_next: "unat (wm_next_lsn s + 1) = Suc (Suc (length log))"
    using nx okD(4) by (auto simp: lsn_checked_next_def res_simps checked_add_u64_def lsn_new_def unat_word_ariths
        split: option.splits if_splits)
  have prev: "prev \<noteq> Some 0"
  proof (cases "t = None \<or> p = WpBegin")
    case True
    with val show ?thesis
      by (auto simp: record_validate_def Let_def res_simps rec)
  next
    case False
    with v have "prev = bm_get (wt_last s) (the t)" by (auto simp: validate_append_chain_def res_simps)
    then show ?thesis using wal_ok_last_nonzero [OF ok] by simp
  qed
  have lg: "loggable crc rec"
    using e l0 t prev p by (simp add: loggable_def record_wf_def rec)
  then show "list_all (loggable crc) (log @ [rec])" using okD(1) by simp
  show "lf_bytes (wm_file (apply_record_state rec False ?s1)) = log_bytes crc (log @ [rec])"
    using e okD(2) by (simp add: enc_def)
  have "of_nat (unat (wm_next_lsn s)) = (of_nat (Suc (length log)) :: u64)" using okD(4) by simp
  then have "wr_lsn rec = of_nat (Suc (length log))" by (simp add: rec)
  then show "wr_lsn ((log @ [rec]) ! i) = of_nat (Suc i)" if "i < length (log @ [rec])" for i
    using that okD(3) by (auto simp: nth_append less_Suc_eq)
  show "unat (wm_next_lsn (apply_record_state rec False ?s1)) = Suc (length (log @ [rec]))"
    by (simp add: unat_next)
  have c: "core ?s1 = core (tables_of log)" using okD(5) by (simp add: core_def)
  then show "core (apply_record_state rec False ?s1) = core (tables_of (log @ [rec]))"
    by (simp add: tables_of_snoc core_apply)
  have less: "(if log = [] then None else Some (wr_lsn (last log))) = None \<or>
      the (if log = [] then None else Some (wr_lsn (last log))) < wr_lsn rec"
  proof (cases "log = []")
    case False
    have "unat (of_nat (length log) :: u64) = length log" using unat_bound [of "wm_next_lsn s"] okD(4) by (simp add: unat_of_nat)
    with False wal_ok_last_lsn [OF ok False] okD(4) show ?thesis by (simp add: rec word_less_nat_alt)
  qed simp
  have "seq_step rec (seq_of (if log = [] then None else Some (wr_lsn (last log))) s) =
      Inr (seq_of (Some (wr_lsn rec)) (apply_record_state rec False s))"
    by (rule seq_step_append [OF _ less]) (simp add: rec v)
  moreover have "seq_of prev' (apply_record_state rec False ?s1) = seq_of prev' (apply_record_state rec False s)" for prev'
  proof -
    have "core ?s1 = core s" by (simp add: core_def)
    then have "core (apply_record_state rec False ?s1) = core (apply_record_state rec False s)" by (rule core_apply)
    then show ?thesis by (simp add: core_def seq_of_def)
  qed
  ultimately show "seq_run (log @ [rec]) seq_init =
      Inr (seq_of (if log @ [rec] = [] then None else Some (wr_lsn (last (log @ [rec])))) (apply_record_state rec False ?s1))"
    using okD(6) by (simp add: seq_run_append)
  fix d
  assume d: "wm_durable_lsn (apply_record_state rec False ?s1) = Some d"
  then have d': "d \<noteq> 0 \<and> d < wm_next_lsn s" using okD(7) by simp
  then show "d \<noteq> 0 \<and> d < wm_next_lsn (apply_record_state rec False ?s1)"
    using okD(4) unat_next by (simp add: word_less_nat_alt)
  have "unat d \<le> length log" using d' okD(4) by (simp add: word_less_nat_alt)
  with d okD(8) show "length (log_bytes crc (take (unat d) (log @ [rec]))) \<le>
      lf_synced (wm_file (apply_record_state rec False ?s1))" by simp
next
  show "lf_synced (wm_file (apply_record_state rec False ?s1)) \<le> length (log_bytes crc (log @ [rec]))"
    using wal_okD(9) [OF ok] by simp
  show "no_double_fault (wm_io (apply_record_state rec False ?s1))"
    using no_double_fault_next [OF io wal_okD(10) [OF ok]] by simp
  show "bm_get (wt_dirty (apply_record_state rec False ?s1)) pid \<noteq> Some 0" for pid
    using wal_okD(4,11) [OF ok] by (intro apply_dirty_nonzero) (auto simp: rec)
qed

lemma append_locked_later:
  assumes "t \<noteq> Some 0" and "payload_wf p"
  shows "wal_later crc s (snd (append_locked crc t prev p s))"
proof (rule wal_laterI)
  fix log
  assume ok: "wal_ok crc log s"
  obtain r s' where e: "append_locked crc t prev p s = (r, s')" by (cases "append_locked crc t prev p s")
  then have "\<exists>more. wal_ok crc (log @ more) s' \<and> lf_synced (wm_file s) \<le> lf_synced (wm_file s')"
  proof (cases rule: append_locked_cases)
    case (1 e)
    with ok show ?thesis by (intro exI [of _ "[]"]) simp
  next
    case (2 bs os rec)
    from append_ok [OF ok assms 2(1-5)] 2(7) show ?thesis by (intro exI [of _ "[rec]"]) simp
  next
    case (3 bs n os x os')
    have os: "no_double_fault os'" "x = IoOk"
      using wal_okD(10) [OF ok] 3(1,2) by (cases "wm_io s"; cases os; auto)+
    have "wm_file s' = wm_file s"
      using 3(4) os(2) wal_okD(2,9) [OF ok] by (simp add: min_def)
    then have "wal_ok crc log s'"
      using 3(4) os(1) wal_okD(11) [OF ok] by (intro wal_ok_frame [OF ok]) (simp_all add: core_def)
    with \<open>wm_file s' = wm_file s\<close> show ?thesis by (intro exI [of _ "[]"]) simp
  qed
  with e show "\<exists>more. wal_ok crc (log @ more) (snd (append_locked crc t prev p s)) \<and>
      lf_synced (wm_file s) \<le> lf_synced (wm_file (snd (append_locked crc t prev p s)))" by simp
qed

section \<open>Operations\<close>

text \<open>
  \<open>keeps crc Q f\<close>: run by one thread alone, \<open>f\<close> keeps the invariant with a log that only
  grows, and a value it returns satisfies \<open>Q\<close>. Its critical sections are the steps of
  \<open>wal_step\<close> below, so that the invariant also holds under interleaving.
\<close>

definition keeps_on :: "('s \<Rightarrow> wal_manager) \<Rightarrow> (u8 list \<Rightarrow> u32) \<Rightarrow> ('a \<Rightarrow> bool) \<Rightarrow> ('s, 'a) eff \<Rightarrow> bool" where
  "keeps_on wal crc Q f \<longleftrightarrow> (\<forall>s log. wal_ok crc log (wal s) \<longrightarrow>
     wal_later crc (wal s) (wal (snd (f s))) \<and> (\<forall>x. fst (f s) = Inr x \<longrightarrow> Q x))"

abbreviation keeps :: "(u8 list \<Rightarrow> u32) \<Rightarrow> ('a \<Rightarrow> bool) \<Rightarrow> 'a wal_eff \<Rightarrow> bool" where
  "keeps \<equiv> keeps_on (\<lambda>s. s)"

named_theorems keeps_intros "operations that keep the invariant of the log"

lemma keepsI:
  "(\<And>s. wal_later crc (wal s) (wal (snd (f s)))) \<Longrightarrow>
   (\<And>s x log. wal_ok crc log (wal s) \<Longrightarrow> fst (f s) = Inr x \<Longrightarrow> Q x) \<Longrightarrow> keeps_on wal crc Q f"
  unfolding keeps_on_def by blast

lemma keeps_onD: "keeps_on wal crc Q f \<Longrightarrow> wal_ok crc log (wal s) \<Longrightarrow> wal_later crc (wal s) (wal (snd (f s)))"
  unfolding keeps_on_def by blast

lemma wal_laterD: "wal_later crc s s' \<Longrightarrow> wal_ok crc log s \<Longrightarrow>
    \<exists>more. wal_ok crc (log @ more) s' \<and> lf_synced (wm_file s) \<le> lf_synced (wm_file s')"
  unfolding wal_later_def by blast

lemma keeps_bind [keeps_intros]:
  assumes "keeps_on wal crc P f" and "\<And>x. P x \<Longrightarrow> keeps_on wal crc Q (g x)"
  shows "keeps_on wal crc Q (eff_bind f g)"
  unfolding keeps_on_def
proof (intro allI impI)
  fix s log
  assume ok: "wal_ok crc log (wal s)"
  obtain r s1 where f: "f s = (r, s1)" by (cases "f s")
  with assms(1) ok have later: "wal_later crc (wal s) (wal s1)" and P: "\<And>x. r = Inr x \<Longrightarrow> P x"
    unfolding keeps_on_def by (metis snd_conv, metis fst_conv)
  show "wal_later crc (wal s) (wal (snd (eff_bind f g s))) \<and> (\<forall>x. fst (eff_bind f g s) = Inr x \<longrightarrow> Q x)"
  proof (cases r)
    case (Inl e)
    with f later show ?thesis by simp
  next
    case (Inr x)
    from later ok obtain more where "wal_ok crc (log @ more) (wal s1)" unfolding wal_later_def by blast
    with assms(2) [OF P [OF Inr]]
    have "wal_later crc (wal s1) (wal (snd (g x s1))) \<and> (\<forall>y. fst (g x s1) = Inr y \<longrightarrow> Q y)"
      unfolding keeps_on_def by blast
    with f Inr later show ?thesis by (auto intro: wal_later_trans)
  qed
qed

lemma keeps_base [keeps_intros]:
  "Q x \<Longrightarrow> keeps_on wal crc Q (eff_return x)" "keeps_on wal crc Q (eff_fail e)"
  "(\<And>x. r = Inr x \<Longrightarrow> Q x) \<Longrightarrow> keeps_on wal crc Q (eff_res r)"
  by (auto intro!: keepsI simp: wal_later_refl)

lemma keeps_get: "(\<And>s log. wal_ok crc log (wal s) \<Longrightarrow> Q (h s)) \<Longrightarrow> keeps_on wal crc Q (eff_get h)"
  by (rule keepsI) (auto simp: wal_later_refl)

lemma keeps_if [keeps_intros]:
  "(b \<Longrightarrow> keeps_on wal crc Q f) \<Longrightarrow> (\<not> b \<Longrightarrow> keeps_on wal crc Q g) \<Longrightarrow> keeps_on wal crc Q (if b then f else g)"
  by simp

lemma keeps_weaken: "keeps_on wal crc P f \<Longrightarrow> (\<And>x. P x \<Longrightarrow> Q x) \<Longrightarrow> keeps_on wal crc Q f"
  unfolding keeps_on_def by blast

lemma keeps_fst [keeps_intros]:
  assumes "keeps crc Q f"
  shows "keeps_on fst crc Q (on_fst f)"
  unfolding keeps_on_def
proof (intro allI impI)
  fix st :: "wal_manager \<times> 'c" and log
  assume ok: "wal_ok crc log (fst st)"
  obtain r s' where "f (fst st) = (r, s')" by (cases "f (fst st)")
  with assms ok show "wal_later crc (fst st) (fst (snd (on_fst f st))) \<and> (\<forall>x. fst (on_fst f st) = Inr x \<longrightarrow> Q x)"
    unfolding keeps_on_def on_fst_def by (metis (no_types, lifting) case_prod_conv fst_conv snd_conv)
qed

lemma keeps_snd: "keeps_on fst crc (\<lambda>_. True) (on_snd f)"
  by (rule keepsI) (auto simp: on_snd_def wal_later_refl split: prod.splits)

lemma append_locked_keeps:
  assumes "t \<noteq> Some 0" and "payload_wf p"
  shows "keeps crc (\<lambda>l. l \<noteq> 0) (append_locked crc t prev p)"
proof (rule keepsI, rule append_locked_later [OF assms])
  fix s x log
  assume ok: "wal_ok crc log s" and "fst (append_locked crc t prev p s) = Inr x"
  then have "x = wm_next_lsn s"
    by (cases "append_locked crc t prev p s") (auto elim!: append_locked_cases)
  then show "x \<noteq> 0" using wal_okD(4) [OF ok] by auto
qed

lemma check_fault_keeps: "keeps crc (\<lambda>_. True) (check_fault p)"
  by (rule keepsI) (simp_all add: check_fault_later)

lemma sync_locked_keeps: "keeps crc (\<lambda>_. True) (sync_locked l)"
  by (rule keepsI) (simp_all add: sync_locked_later)

lemma mark_clean_keeps: "keeps crc (\<lambda>_. True) (mark_transaction_clean t)"
  unfolding mark_transaction_clean_def by (rule keepsI) (simp_all add: clear_dirty_later)

lemma flush_keeps: "keeps crc (\<lambda>_. True) (flush_lsn l)"
  unfolding flush_lsn_def by (intro keeps_bind [OF check_fault_keeps] keeps_bind [OF sync_locked_keeps] check_fault_keeps)

lemma begin_keeps: "t \<noteq> 0 \<Longrightarrow> keeps crc (\<lambda>lt. lt_last_lsn lt \<noteq> 0) (wal_begin_transaction crc t)"
  unfolding wal_begin_transaction_def wal_append_def
  by (rule keeps_bind [OF append_locked_keeps], simp, simp, rule keeps_bind [OF flush_keeps], rule keeps_base, simp)

lemma commit_at_keeps: "t \<noteq> 0 \<Longrightarrow> keeps crc (\<lambda>_. True) (commit_transaction_at crc t l)"
  unfolding commit_transaction_at_def wal_append_def wal_last_lsn_def
  by (rule keeps_bind [OF keeps_get [where Q = "\<lambda>_. True"]], simp)
    (intro keeps_if keeps_base keeps_bind [OF append_locked_keeps] keeps_bind [OF check_fault_keeps]
       keeps_bind [OF flush_keeps] keeps_bind [OF mark_clean_keeps]; simp)

lemma abort_keeps: "t \<noteq> 0 \<Longrightarrow> keeps crc (\<lambda>_. True) (wal_abort crc t)"
  unfolding wal_abort_def wal_append_def wal_last_lsn_def
proof (rule keeps_bind [OF keeps_get [where Q = "\<lambda>_. True"]], simp)
  fix l
  assume t: "t \<noteq> 0"
  have "keeps crc (\<lambda>_. True) (case l of Some l \<Rightarrow> eff_return l | None \<Rightarrow> append_locked crc (Some t) None WpBegin)"
  proof (cases l)
    case None
    have "keeps crc (\<lambda>_. True) (append_locked crc (Some t) None WpBegin)"
      by (rule keeps_weaken [OF append_locked_keeps]) (simp_all add: t)
    with None show ?thesis by simp
  qed (simp add: keeps_base)
  then show "keeps crc (\<lambda>_. True) (eff_bind (case l of Some l \<Rightarrow> eff_return l | None \<Rightarrow> append_locked crc (Some t) None WpBegin)
      (\<lambda>previous. eff_bind (append_locked crc (Some t) (Some previous) WpAbort) (\<lambda>abort_lsn.
        eff_bind (flush_lsn abort_lsn) (\<lambda>_. eff_bind (mark_transaction_clean t) (\<lambda>_. eff_return abort_lsn)))))"
    by (rule keeps_bind)
      (intro keeps_base keeps_bind [OF append_locked_keeps] keeps_bind [OF flush_keeps] keeps_bind [OF mark_clean_keeps];
        simp add: t)
qed

lemma commit_keeps: "t \<noteq> 0 \<Longrightarrow> keeps crc (\<lambda>_. True) (wal_commit_transaction crc t)"
  unfolding wal_commit_transaction_def
proof (rule keeps_bind [where P = "\<lambda>_. True"])
  show "keeps crc (\<lambda>_. True) (transaction_chain t)"
    unfolding transaction_chain_def
    by (rule keepsI) (auto simp: eff_bind_def wal_later_refl split: option.splits)
qed (auto intro: keeps_base commit_at_keeps split: option.split)

lemma length_page_set_lsn: "length (pg_bytes p) = PAGE_SIZE \<Longrightarrow> length (pg_bytes (page_set_lsn crc l p)) = PAGE_SIZE"
  by (simp add: page_set_lsn_def page_simps)

lemma page_sized_set_lsn: "page_sized p \<Longrightarrow> page_sized (map_option (page_set_lsn crc l) p)"
  by (auto simp: page_sized_def length_page_set_lsn split: option.splits)

lemma compensation_keeps:
  assumes "t \<noteq> 0" and "page_sized undo" and "undo_next \<noteq> Some 0"
  shows "keeps crc (\<lambda>_. True) (append_compensation crc t pid undo count undo_next)"
  unfolding append_compensation_def Let_def
  by (rule keeps_bind [OF keeps_get [where Q = "\<lambda>_. True"]], simp,
      rule keeps_bind [OF keeps_base(3) [where Q = "\<lambda>_. True"]], simp,
      rule keeps_bind [OF append_locked_keeps])
    (use assms page_sized_set_lsn in \<open>auto intro!: keeps_base keeps_bind [OF check_fault_keeps] keeps_bind [OF sync_locked_keeps]\<close>)

text \<open>The tables of a checkpoint that its caller passes, and those the log adds.\<close>

definition checkpoint_wf :: "checkpoint_state \<Rightarrow> bool" where
  "checkpoint_wf cs \<longleftrightarrow>
     (\<forall>t l. bm_get (cs_active_transactions cs) t = Some l \<longrightarrow> t \<noteq> 0 \<and> l \<noteq> 0) \<and>
     (\<forall>pid. bm_get (cs_dirty_pages cs) pid \<noteq> Some 0) \<and> cs_visibility_horizon cs \<noteq> Some 0 \<and>
     cs_durable_wal_lsn cs \<noteq> Some 0"

lemma merge_nonzero:
  assumes "\<forall>pid. bm_get dirty pid \<noteq> Some 0" and "\<forall>pid. bm_get extra pid \<noteq> Some 0"
  shows "bm_get (merge_dirty_pages extra dirty) pid \<noteq> Some 0"
proof -
  have "\<forall>pid. bm_get (fold (\<lambda>(pid, rec_lsn) m. bm_insert pid (case bm_get m pid of None \<Rightarrow> rec_lsn | Some l \<Rightarrow> min l rec_lsn) m) xs m) pid \<noteq> Some 0"
    if "\<forall>(pid, l) \<in> set xs. l \<noteq> 0" "\<forall>pid. bm_get m pid \<noteq> Some 0" for xs and m :: "(page_id, lsn) btree_map"
    using that
  proof (induction xs arbitrary: m)
    case (Cons x xs)
    obtain a b where x: "x = (a, b)" by (cases x)
    have "\<forall>pid. bm_get (bm_insert a (case bm_get m a of None \<Rightarrow> b | Some l \<Rightarrow> min l b) m) pid \<noteq> Some 0"
      using Cons.prems by (auto simp: x min_def split: option.split)
    with Cons show ?case by (simp add: x)
  qed simp
  moreover have "\<forall>(pid, l) \<in> set (bm_list extra). l \<noteq> 0" using assms(2) by (auto simp: set_bm_list)
  ultimately show ?thesis using assms(1) unfolding merge_dirty_pages_def by blast
qed

lemma checkpoint_begin_keeps:
  assumes "checkpoint_wf cs"
  shows "keeps crc (\<lambda>(b, sampled). b \<noteq> 0 \<and> sampled \<noteq> 0) (checkpoint_begin_locked crc cs)"
  unfolding checkpoint_begin_locked_def
proof (rule keeps_bind [OF keeps_get [where Q = "\<lambda>m. \<forall>pid. bm_get m pid \<noteq> Some 0"]])
  show "\<forall>pid. bm_get (wt_dirty s) pid \<noteq> Some 0" if "wal_ok crc log s" for s log
    using wal_okD(11) [OF that] by blast
  fix dirty :: "(page_id, lsn) btree_map"
  assume dirty: "\<forall>pid. bm_get dirty pid \<noteq> Some 0"
  have wf: "payload_wf (WpCheckpointBegin \<lparr>cb_active_transactions = cs_active_transactions cs,
      cb_dirty_pages = merge_dirty_pages (cs_dirty_pages cs) dirty, cb_visibility_horizon = cs_visibility_horizon cs\<rparr>)"
    using assms merge_nonzero [OF dirty, of "cs_dirty_pages cs"]
    by (fastforce simp: checkpoint_wf_def list_all_iff set_bm_list)
  show "keeps crc (\<lambda>(b, sampled). b \<noteq> 0 \<and> sampled \<noteq> 0) (eff_bind (append_locked crc None None (WpCheckpointBegin
       \<lparr>cb_active_transactions = cs_active_transactions cs,
        cb_dirty_pages = merge_dirty_pages (cs_dirty_pages cs) dirty,
        cb_visibility_horizon = cs_visibility_horizon cs\<rparr>)) (\<lambda>begin_lsn.
     eff_bind (check_fault BeforeWalFlush) (\<lambda>_.
     eff_bind (sync_locked begin_lsn) (\<lambda>_.
     eff_bind (check_fault AfterWalFlush) (\<lambda>_.
     eff_bind (check_fault AfterCheckpointBeginFlush) (\<lambda>_.
     eff_get (\<lambda>s. (begin_lsn,
       min (case cs_durable_wal_lsn cs of None \<Rightarrow> begin_lsn | Some l \<Rightarrow> l)
           (case wm_durable_lsn s of None \<Rightarrow> begin_lsn | Some l \<Rightarrow> l)))))))))"
    (is "keeps crc ?Q (eff_bind _ (\<lambda>b. eff_bind _ (\<lambda>_. eff_bind _ (\<lambda>_. eff_bind _ (\<lambda>_. eff_bind _ (\<lambda>_. eff_get (?h b)))))))")
  proof (rule keeps_bind [OF append_locked_keeps [OF _ wf]], simp)
    fix b :: lsn
    assume b: "b \<noteq> 0"
    have "?Q (?h b s)" if "wal_ok crc log s" for s log
      using b assms wal_okD(7) [OF that] by (auto simp: checkpoint_wf_def min_def split: option.split)
    then have "keeps crc ?Q (eff_get (?h b))" by (rule keeps_get)
    then show "keeps crc ?Q (eff_bind (check_fault BeforeWalFlush) (\<lambda>_. eff_bind (sync_locked b) (\<lambda>_.
        eff_bind (check_fault AfterWalFlush) (\<lambda>_. eff_bind (check_fault AfterCheckpointBeginFlush) (\<lambda>_. eff_get (?h b))))))"
      by (intro keeps_bind [OF check_fault_keeps] keeps_bind [OF sync_locked_keeps])
  qed
qed

lemma checkpoint_keeps: "checkpoint_wf cs \<Longrightarrow> keeps crc (\<lambda>_. True) (wal_checkpoint crc cs)"
  unfolding wal_checkpoint_def wal_append_def
  by (rule keeps_bind [OF checkpoint_begin_keeps], assumption)
    (auto intro!: keeps_base keeps_bind [OF check_fault_keeps] keeps_bind [OF append_locked_keeps] keeps_bind [OF flush_keeps])

definition deltas_sized :: "page_delta list \<Rightarrow> bool" where
  "deltas_sized ds \<longleftrightarrow> list_all (\<lambda>d. page_sized (pd_before d) \<and> page_sized (pd_after d)) ds"

lemma append_prepared_page_keeps:
  assumes "t \<noteq> 0" and "page_sized (pd_before d)" and "page_sized (pd_after d)"
  shows "keeps_on fst crc (\<lambda>l. l \<noteq> 0) (append_prepared_page crc t previous d)"
  unfolding append_prepared_page_def
proof (rule keeps_bind [OF keeps_get [where Q = "\<lambda>_. True"]], simp)
  fix l :: lsn
  have "keeps_on fst crc (\<lambda>_. True) (case pd_after d of None \<Rightarrow> eff_return ()
      | Some _ \<Rightarrow> on_snd (mark_after_lsn crc (pd_page_id d) l))"
    by (auto intro: keeps_base keeps_snd split: option.split)
  then show "keeps_on fst crc (\<lambda>l. l \<noteq> 0) (eff_bind (case pd_after d of None \<Rightarrow> eff_return ()
      | Some _ \<Rightarrow> on_snd (mark_after_lsn crc (pd_page_id d) l)) (\<lambda>_. on_fst (append_locked crc (Some t) (Some previous)
         (WpPageUpdate (pd_page_id d) (pd_before d) (map_option (page_set_lsn crc l) (pd_after d))))))"
    by (rule keeps_bind) (use assms page_sized_set_lsn in \<open>auto intro!: keeps_fst append_locked_keeps\<close>)
qed

lemma append_prepared_pages_keeps:
  "t \<noteq> 0 \<Longrightarrow> deltas_sized ds \<Longrightarrow> keeps_on fst crc (\<lambda>_. True) (append_prepared_pages crc t ds previous lsns)"
proof (induction ds arbitrary: previous lsns)
  case (Cons d ds)
  have "keeps_on fst crc (\<lambda>l. l \<noteq> 0) (append_prepared_page crc t previous d)"
    using Cons.prems by (intro append_prepared_page_keeps) (simp_all add: deltas_sized_def)
  then show ?case
    using Cons unfolding append_prepared_pages.simps by (intro keeps_bind) (auto simp: deltas_sized_def)
qed (simp add: keeps_base)

lemma log_prepared_later:
  assumes t: "t \<noteq> 0" and ds: "deltas_sized (pc_deltas pc)"
  shows "wal_later crc s (fst (snd (log_prepared crc t (s, pc))))"
proof (rule wal_laterI)
  fix log
  assume ok: "wal_ok crc log s"
  let ?start = "\<lambda>chain. case chain of
         Some (b, l) \<Rightarrow> if b = l then eff_return (b, l) else eff_fail E_25000
       | None \<Rightarrow> eff_bind (on_fst (wal_begin_transaction crc t)) (\<lambda>lt. eff_return (lt_begin_lsn lt, lt_last_lsn lt))"
  let ?rest = "eff_bind (eff_res (validate_sorted_deltas (pc_deltas pc))) (\<lambda>_.
     eff_bind (on_fst (transaction_chain t)) (\<lambda>chain. eff_bind (?start chain) (\<lambda>(begin_lsn, previous).
     eff_bind (append_prepared_pages crc t (pc_deltas pc) previous bm_empty) (\<lambda>(previous, lsns).
     eff_bind (eff_get snd) (\<lambda>pc.
     eff_bind (if pc_before_count pc \<noteq> pc_after_count pc
         then on_fst (wal_append crc (Some t) (Some previous) (WpResize (pc_before_count pc) (pc_after_count pc)))
         else eff_return previous) (\<lambda>previous.
     eff_bind (on_fst (flush_lsn previous)) (\<lambda>_.
       eff_return \<lparr>lt_txn = t, lt_begin_lsn = begin_lsn, lt_last_lsn = previous, lt_page_update_lsns = lsns\<rparr>)))))))
     :: (wal_manager \<times> prepared_commit, logged_transaction) eff"
  have chain: "keeps crc (\<lambda>_. True) (transaction_chain t)"
    unfolding transaction_chain_def
    by (rule keepsI) (auto simp: eff_bind_def wal_later_refl split: option.splits)
  have b: "keeps_on fst crc (\<lambda>_. True) (?start c :: (wal_manager \<times> prepared_commit, lsn \<times> lsn) eff)" for c
  proof (cases c)
    case None
    then show ?thesis using t by (auto intro!: keeps_bind [OF keeps_fst [OF begin_keeps]] keeps_base)
  next
    case (Some x)
    then show ?thesis by (cases x) (simp add: keeps_base)
  qed
  have "keeps_on fst crc (\<lambda>_. True) ?rest"
  proof (rule keeps_bind [OF keeps_base(3) [where Q = "\<lambda>_. True"]], simp, rule keeps_bind [OF keeps_fst [OF chain]],
      rule keeps_bind [OF b], clarsimp, rule keeps_bind [OF append_prepared_pages_keeps [OF t ds]], clarsimp,
      rule keeps_bind [OF keeps_get [where Q = "\<lambda>_. True"]], simp)
    fix begin_lsn previous :: lsn and lsns :: "(page_id, lsn) btree_map" and q :: prepared_commit
    have "keeps_on fst crc (\<lambda>_. True) (if pc_before_count q \<noteq> pc_after_count q
         then on_fst (wal_append crc (Some t) (Some previous) (WpResize (pc_before_count q) (pc_after_count q)))
         else eff_return previous :: (wal_manager \<times> prepared_commit, lsn) eff)"
      unfolding wal_append_def
      by (intro keeps_if keeps_base TrueI keeps_weaken [OF keeps_fst [OF append_locked_keeps]]) (simp_all add: t)
    then show "keeps_on fst crc (\<lambda>_. True) (eff_bind (if pc_before_count q \<noteq> pc_after_count q
         then on_fst (wal_append crc (Some t) (Some previous) (WpResize (pc_before_count q) (pc_after_count q)))
         else eff_return previous :: (wal_manager \<times> prepared_commit, lsn) eff) (\<lambda>previous.
     eff_bind (on_fst (flush_lsn previous)) (\<lambda>_.
       eff_return \<lparr>lt_txn = t, lt_begin_lsn = begin_lsn, lt_last_lsn = previous, lt_page_update_lsns = lsns\<rparr>)))"
      by (rule keeps_bind) (intro keeps_bind [OF keeps_fst [OF flush_keeps]] keeps_base TrueI)
  qed
  from keeps_onD [OF this, of log "(s, pc)"] ok have "wal_later crc s (fst (snd (?rest (s, pc))))" by simp
  moreover have "log_prepared crc t (s, pc) = ?rest (s, pc)"
    unfolding log_prepared_def by (subst eff_bind_step(1), rule eff_simps(4)) simp
  ultimately have "wal_later crc s (fst (snd (log_prepared crc t (s, pc))))" by (simp only:)
  from wal_laterD [OF this ok] show "\<exists>more. wal_ok crc (log @ more) (fst (snd (log_prepared crc t (s, pc)))) \<and>
      lf_synced (wm_file s) \<le> lf_synced (wm_file (fst (snd (log_prepared crc t (s, pc)))))"
    .
qed

section \<open>Opening after a crash\<close>

lemma seq_run_prefix: "seq_run (xs @ ys) s = Inr s2 \<Longrightarrow> \<exists>s1. seq_run xs s = Inr s1"
  by (auto simp: seq_run_append try_bind_eq_Ok)

text \<open>The state after the sequence check is determined by the records.\<close>

lemma seq_step_tables:
  assumes "seq_step r (seq_of prev s) = Inr sq"
  shows "sq = seq_of (Some (wr_lsn r)) (apply_record_state r False s)"
proof -
  have kind: "wr_kind r = RkBegin \<longleftrightarrow> wr_payload r = WpBegin" "wr_kind r = RkCommit \<longleftrightarrow> wr_payload r = WpCommit"
    "wr_kind r = RkAbort \<longleftrightarrow> wr_payload r = WpAbort"
    by (cases "wr_payload r"; simp add: wr_kind_def)+
  show ?thesis
    using assms
    by (cases "wr_payload r")
      (auto simp: seq_step_def seq_check_def seq_of_def kind res_simps apply_record_state_def Let_def track_begin_def
        track_dirty_def track_terminal_def max_def split: option.splits)
qed

lemma seq_run_tables:
  "seq_run rs (seq_of prev s) = Inr sq \<Longrightarrow>
     sq = seq_of (if rs = [] then prev else Some (wr_lsn (last rs))) (fold (\<lambda>r. apply_record_state r False) rs s)"
proof (induction rs arbitrary: prev s)
  case (Cons r rs)
  then obtain s1 where s1: "seq_step r (seq_of prev s) = Inr s1" "seq_run rs s1 = Inr sq" by (auto simp: try_bind_eq_Ok)
  with seq_step_tables [OF s1(1)] Cons.IH [of "Some (wr_lsn r)" "apply_record_state r False s"] show ?case by simp
qed simp

lemma seq_init_eq: "seq_init = seq_of None empty_tables"
  by (simp add: seq_init_def seq_of_def empty_tables_def)

lemma seq_run_log: "seq_run log seq_init = Inr sq \<Longrightarrow>
    sq = seq_of (if log = [] then None else Some (wr_lsn (last log))) (tables_of log)"
  unfolding seq_init_eq tables_of_def by (rule seq_run_tables)

lemma set_len_cases:
  assumes "wal_set_len n s = (Inr (), s')"
  obtains os where "next_io (wm_io s) = (IoOk, os)"
    and "s' = s\<lparr>wm_io := os, wm_file := \<lparr>lf_bytes = take n (lf_bytes (wm_file s)), lf_synced = min n (lf_synced (wm_file s))\<rparr>\<rparr>"
  using assms by (cases "next_io (wm_io s)")
    (auto simp: wal_set_len_def wal_next_io_def eff_bind_def split: if_splits)

lemma scan_repair:
  assumes bytes: "lf_bytes (wm_file s) = log_bytes crc rs @ tail" and rs: "list_all (loggable crc) rs"
    and tail: "tail = [] \<or> torn crc tail" and seq: "validate_record_sequence rs = Inr ()"
    and synced: "lf_synced (wm_file s) = length (lf_bytes (wm_file s))"
    and r: "scan_file crc True s = (Inr sr, s')"
  shows "sr = \<lparr>sr_records = rs, sr_valid_bytes = length (log_bytes crc rs), sr_truncated_bytes = length tail\<rparr> \<and>
    (\<exists>os. s' = s\<lparr>wm_io := os, wm_file := \<lparr>lf_bytes = log_bytes crc rs, lf_synced = length (log_bytes crc rs)\<rparr>\<rparr> \<and>
      (no_double_fault (wm_io s) \<longrightarrow> no_double_fault os))"
proof -
  have loop: "scan_loop crc (lf_bytes (wm_file s)) 0 = Inr (rs, length (log_bytes crc rs), tail = [])"
    unfolding bytes using scan_loop_log [OF rs tail, of 0] by simp
  show ?thesis
  proof (cases "tail = []")
    case True
    with r loop seq bytes synced show ?thesis
      by (auto simp: scan_file_def eff_bind_def intro!: exI [of _ "wm_io s"])
  next
    case False
    let ?n = "length (log_bytes crc rs)"
    from False r loop seq have "eff_bind (wal_set_len ?n) (\<lambda>_. eff_bind wal_sync_all (\<lambda>_. eff_return
        \<lparr>sr_records = rs, sr_valid_bytes = ?n, sr_truncated_bytes = length (lf_bytes (wm_file s)) - ?n\<rparr>)) s = (Inr sr, s')"
      by (simp add: scan_file_def finish_incomplete_tail_def eff_bind_def [of "eff_get f" for f] eff_bind_def [of "eff_res f" for f])
    then obtain u s1 where "wal_set_len ?n s = (Inr u, s1)"
      and 2: "eff_bind wal_sync_all (\<lambda>_. eff_return \<lparr>sr_records = rs, sr_valid_bytes = ?n,
         sr_truncated_bytes = length (lf_bytes (wm_file s)) - ?n\<rparr>) s1 = (Inr sr, s')"
      by (rule eff_bind_Ok)
    then have "wal_set_len ?n s = (Inr (), s1)" by simp
    then obtain os1 where io1: "next_io (wm_io s) = (IoOk, os1)"
      and s1: "s1 = s\<lparr>wm_io := os1, wm_file := \<lparr>lf_bytes = take ?n (lf_bytes (wm_file s)), lf_synced = min ?n (lf_synced (wm_file s))\<rparr>\<rparr>"
      by (rule set_len_cases)
    from 2 obtain v s2 where sy: "wal_sync_all s1 = (Inr v, s2)"
      and sr: "sr = \<lparr>sr_records = rs, sr_valid_bytes = ?n, sr_truncated_bytes = length (lf_bytes (wm_file s)) - ?n\<rparr>" "s' = s2"
      by (rule eff_bind_Ok) simp
    from sy obtain os2 where io2: "next_io (wm_io s1) = (IoOk, os2)"
      and s2: "s2 = s1\<lparr>wm_io := os2, wm_file := (wm_file s1)\<lparr>lf_synced := length (lf_bytes (wm_file s1))\<rparr>\<rparr>"
      by (auto elim: sync_all_cases)
    have "no_double_fault os2" if "no_double_fault (wm_io s)"
      using no_double_fault_next [OF io2] no_double_fault_next [OF io1 that] by (simp add: s1)
    then show ?thesis
      by (intro conjI exI [of _ os2]) (simp_all add: sr s2 s1 bytes)
  qed
qed

lemma wal_open_recovers:
  assumes ok: "wal_ok crc log s" and img: "img \<in> crash_images (wm_file s)" and os: "no_double_fault os"
    and r: "wal_open crc (empty_wal img faults os) = (Inr n, s')"
  shows "\<exists>k. k \<le> length log \<and> wal_ok crc (take k log) s' \<and>
    (\<forall>i \<le> length log. length (log_bytes crc (take i log)) \<le> lf_synced (wm_file s) \<longrightarrow> i \<le> k) \<and>
    length img = length (log_bytes crc (take k log)) + n \<and> lf_synced (wm_file s') = length (lf_bytes (wm_file s'))"
proof -
  note okD = wal_okD [OF ok]
  from img obtain k0 where k0: "lf_synced (wm_file s) \<le> k0" and img': "img = take k0 (log_bytes crc log)"
    using okD(2) by (auto simp: crash_images_def)
  from log_prefix [OF okD(1), of k0] obtain j tail where j: "j \<le> length log"
    and split: "img = log_bytes crc (take j log) @ tail" and tail: "tail = [] \<or> torn crc tail"
    and short: "j < length log \<longrightarrow> k0 < length (log_bytes crc (take (Suc j) log))"
    unfolding img' by blast
  let ?rs = "take j log" and ?s0 = "empty_wal img faults os"
  have rs: "list_all (loggable crc) ?rs" using okD(1) unfolding list_all_iff by (blast dest: in_set_takeD)
  from okD(6) have "seq_run (?rs @ drop j log) seq_init = Inr (seq_of (if log = [] then None else Some (wr_lsn (last log))) s)" by simp
  then obtain sq where sq: "seq_run ?rs seq_init = Inr sq" using seq_run_prefix by blast
  then have seq: "validate_record_sequence ?rs = Inr ()" by (simp add: validate_record_sequence_def)
  from r obtain sr s1 where scan: "scan_file crc True ?s0 = (Inr sr, s1)"
    and r2: "(let last_lsn = if sr_records sr = [] then None else Some (wr_lsn (last (sr_records sr))) in
     eff_bind (eff_res (case last_lsn of Some l \<Rightarrow> lsn_checked_next l | None \<Rightarrow> ok_or E_XX000 (lsn_new 1))) (\<lambda>next_lsn.
     eff_bind (eff_put (\<lambda>s. fold (\<lambda>r. apply_record_state r True) (sr_records sr)
       (s\<lparr>wm_next_lsn := next_lsn, wm_durable_lsn := last_lsn\<rparr>))) (\<lambda>_.
       eff_return (sr_truncated_bytes sr)))) s1 = (Inr n, s')"
    unfolding wal_open_def by (rule eff_bind_Ok)
  from scan_repair [OF _ rs tail seq _ scan] split obtain os' where
    sr: "sr = \<lparr>sr_records = ?rs, sr_valid_bytes = length (log_bytes crc ?rs), sr_truncated_bytes = length tail\<rparr>"
    and s1: "s1 = ?s0\<lparr>wm_io := os', wm_file := \<lparr>lf_bytes = log_bytes crc ?rs, lf_synced = length (log_bytes crc ?rs)\<rparr>\<rparr>"
    and os': "no_double_fault os'"
    using os by (auto simp: empty_wal_def)
  let ?last = "if ?rs = [] then None else Some (wr_lsn (last ?rs))"
  have sr_sel: "sr_records sr = ?rs" "sr_truncated_bytes sr = length tail" by (simp_all add: sr)
  obtain next_lsn where nx: "(case ?last of Some l \<Rightarrow> lsn_checked_next l | None \<Rightarrow> ok_or E_XX000 (lsn_new 1)) = Inr next_lsn"
    and s': "s' = fold (\<lambda>r. apply_record_state r True) ?rs (s1\<lparr>wm_next_lsn := next_lsn, wm_durable_lsn := ?last\<rparr>)"
    and n: "n = length tail"
  proof (cases "case ?last of Some l \<Rightarrow> lsn_checked_next l | None \<Rightarrow> ok_or E_XX000 (lsn_new 1)")
    case (Inl e)
    with r2 show thesis unfolding sr_sel Let_def eff_bind_def by simp
  next
    case (Inr x)
    from r2 have "s' = fold (\<lambda>r. apply_record_state r True) ?rs (s1\<lparr>wm_next_lsn := x, wm_durable_lsn := ?last\<rparr>) \<and> n = length tail"
      unfolding sr_sel Let_def eff_bind_def Inr by simp
    with Inr show thesis by (intro that [of x]) simp_all
  qed
  have lsn: "wr_lsn (?rs ! i) = of_nat (Suc i)" if "i < length ?rs" for i using that okD(3) by simp
  have jl: "unat (of_nat j :: u64) = j" using j okD(4) unat_bound [of "wm_next_lsn s"] by (simp add: unat_of_nat)
  have last: "wr_lsn (last ?rs) = of_nat j" if "?rs \<noteq> []"
    using lsn [of "j - 1"] that j by (simp add: last_conv_nth min_def del: of_nat_Suc)
  have un: "unat next_lsn = Suc j"
  proof (cases "?rs = []")
    case True
    then have "j = 0" using j by auto
    with nx True show ?thesis by (simp add: lsn_new_def)
  next
    case False
    with nx last have "lsn_checked_next (of_nat j) = Inr next_lsn" by simp
    then show ?thesis
      by (auto simp: lsn_checked_next_def res_simps bind_eq_Some_conv lsn_new_def jl dest!: checked_add_u64_Some split: if_splits)
  qed
  have core: "core s' = core (tables_of ?rs)"
    unfolding s' tables_of_def by (rule core_fold) (simp add: core_def s1 empty_wal_def empty_tables_def)
  have "wal_ok crc ?rs s'"
  proof (rule wal_okI)
    show "list_all (loggable crc) ?rs" by (rule rs)
    show "lf_bytes (wm_file s') = log_bytes crc ?rs" by (simp add: s' s1)
    show "wr_lsn (?rs ! i) = of_nat (Suc i)" if "i < length ?rs" for i using lsn that .
    show "unat (wm_next_lsn s') = Suc (length ?rs)" using un j by (simp add: s')
    show "core s' = core (tables_of ?rs)" by (rule core)
    have "seq_of prev s' = seq_of prev (tables_of ?rs)" for prev using core by (simp add: core_def seq_of_def)
    then show "seq_run ?rs seq_init = Inr (seq_of ?last s')" using seq_run_log [OF sq] sq by simp
    show "d \<noteq> 0 \<and> d < wm_next_lsn s'" if "wm_durable_lsn s' = Some d" for d
    proof -
      from that have ne: "?rs \<noteq> []" and d: "d = wr_lsn (last ?rs)" by (auto simp: s' split: if_splits)
      have "j \<noteq> 0" using ne by auto
      then show ?thesis using d last [OF ne] un jl by (auto simp: s' word_less_nat_alt unat_eq_0 [symmetric])
    qed
    show "length (log_bytes crc (take (unat d) ?rs)) \<le> lf_synced (wm_file s')" if "wm_durable_lsn s' = Some d" for d
    proof -
      from that have ne: "?rs \<noteq> []" and d: "d = wr_lsn (last ?rs)" by (auto simp: s' split: if_splits)
      then show ?thesis using last [OF ne] jl by (simp add: s' s1)
    qed
    show "lf_synced (wm_file s') \<le> length (log_bytes crc ?rs)" by (simp add: s' s1)
    show "no_double_fault (wm_io s')" by (simp add: s' s1 os')
    show "bm_get (wt_dirty s') pid \<noteq> Some 0" for pid
      unfolding s'
    proof (rule fold_dirty_nonzero)
      show "list_all (\<lambda>r. wr_lsn r \<noteq> 0) ?rs" using rs by (auto simp: list_all_iff loggable_def record_wf_def)
    qed (simp add: s1 empty_wal_def)
  qed
  moreover have "i \<le> j" if i: "i \<le> length log" "length (log_bytes crc (take i log)) \<le> lf_synced (wm_file s)" for i
  proof (rule ccontr)
    assume "\<not> i \<le> j"
    with i have jlt: "j < length log" and "Suc j \<le> i" by simp_all
    then have "take i log = take (Suc j) log @ take (i - Suc j) (drop (Suc j) log)"
      by (metis le_add_diff_inverse take_add)
    then have "length (log_bytes crc (take (Suc j) log)) \<le> length (log_bytes crc (take i log))" by simp
    with i(2) k0 short jlt show False by simp
  qed
  ultimately show ?thesis
    using j split n by (intro exI [of _ j]) (auto simp: s' s1)
qed

end
