(* ===== verification/WalSafety.thy ===== *)
theory WalSafety
  imports WalLog
begin

text \<open>
  What the write-ahead log promises: a step relation with one step for each critical section
  of the manager and for a crash followed by opening the file again, the abstract log that
  it refines, and the durability of commits over any number of steps and crashes. A crash is
  one of the machine; the argument \<open>faults_ok\<close> says which outcomes of the calls to the operating
  system are considered, \<open>no_double_fault\<close> where the log keeps its promise.
\<close>

section \<open>Simulations\<close>

locale forward_simulation =
  fixes conc :: "'s \<Rightarrow> 's \<Rightarrow> bool" and abst :: "'a \<Rightarrow> 'a \<Rightarrow> bool" and R :: "'s \<Rightarrow> 'a \<Rightarrow> bool"
  assumes sim: "R s a \<Longrightarrow> conc s s' \<Longrightarrow> \<exists>a'. abst\<^sup>*\<^sup>* a a' \<and> R s' a'"
begin

lemma sim_steps:
  assumes "conc\<^sup>*\<^sup>* s s'" and "R s a"
  shows "\<exists>a'. abst\<^sup>*\<^sup>* a a' \<and> R s' a'"
  using assms
proof (induction rule: rtranclp_induct)
  case base
  then show ?case by blast
next
  case (step s1 s2)
  then obtain a1 where "abst\<^sup>*\<^sup>* a a1" "R s1 a1" by blast
  with sim step.hyps(2) show ?case by (meson rtranclp_trans)
qed

text \<open>What every abstract step keeps holds along the concrete steps.\<close>

lemma sim_invariant:
  assumes "conc\<^sup>*\<^sup>* s s'" and "R s a" and "I a" and "\<And>a a'. I a \<Longrightarrow> abst a a' \<Longrightarrow> I a'"
  shows "\<exists>a'. R s' a' \<and> I a'"
proof -
  from sim_steps [OF assms(1,2)] obtain a' where "abst\<^sup>*\<^sup>* a a'" "R s' a'" by blast
  moreover have "I a'" using \<open>abst\<^sup>*\<^sup>* a a'\<close> assms(3,4) by (induction rule: rtranclp_induct) blast+
  ultimately show ?thesis by blast
qed

end

section \<open>Steps of the manager\<close>

text \<open>
  The arguments are what the types of the code allow: identifiers and sequence numbers of
  type \<open>NonZero\<close>, pages of \<open>PAGE_SIZE\<close> bytes.
\<close>

inductive wal_step :: "(u8 list \<Rightarrow> u32) \<Rightarrow> wal_manager \<Rightarrow> wal_manager \<Rightarrow> bool" for crc where
  step_append: "t \<noteq> Some 0 \<Longrightarrow> payload_wf p \<Longrightarrow> append_locked crc t prev p s = (r, s') \<Longrightarrow> wal_step crc s s'"
| step_sync: "sync_locked l s = (r, s') \<Longrightarrow> wal_step crc s s'"
| step_fault: "check_fault fp s = (r, s') \<Longrightarrow> wal_step crc s s'"
| step_clean: "mark_transaction_clean t s = (r, s') \<Longrightarrow> wal_step crc s s'"
| step_checkpoint: "checkpoint_wf cs \<Longrightarrow> checkpoint_begin_locked crc cs s = (r, s') \<Longrightarrow> wal_step crc s s'"
| step_compensation: "t \<noteq> 0 \<Longrightarrow> page_sized undo \<Longrightarrow> undo_next \<noteq> Some 0 \<Longrightarrow>
    append_compensation crc t pid undo count undo_next s = (r, s') \<Longrightarrow> wal_step crc s s'"

text \<open>
  A crash stops the machine: the file keeps its synchronized bytes and any prefix of the others, and
  what it has then is on the disk. Which outcomes the calls to the operating system may have after
  the file is opened is the argument \<open>faults_ok\<close>.
\<close>

inductive wal_restart :: "(io list \<Rightarrow> bool) \<Rightarrow> (u8 list \<Rightarrow> u32) \<Rightarrow> wal_manager \<Rightarrow> wal_manager \<Rightarrow> bool" for faults_ok crc where
  "img \<in> crash_images (wm_file s) \<Longrightarrow> faults_ok os \<Longrightarrow>
     wal_open crc (empty_wal img faults os) = (Inr n, s') \<Longrightarrow> wal_restart faults_ok crc s s'"

definition wal_next :: "(io list \<Rightarrow> bool) \<Rightarrow> (u8 list \<Rightarrow> u32) \<Rightarrow> wal_manager \<Rightarrow> wal_manager \<Rightarrow> bool" where
  "wal_next faults_ok crc s s' \<longleftrightarrow> wal_step crc s s' \<or> wal_restart faults_ok crc s s'"

text \<open>The states of a log that started as an empty file.\<close>

inductive wal_reach :: "(io list \<Rightarrow> bool) \<Rightarrow> (u8 list \<Rightarrow> u32) \<Rightarrow> wal_manager \<Rightarrow> bool" for faults_ok crc where
  reach_open: "faults_ok os \<Longrightarrow> wal_open crc (empty_wal [] faults os) = (Inr n, s) \<Longrightarrow> wal_reach faults_ok crc s"
| reach_next: "wal_reach faults_ok crc s \<Longrightarrow> wal_next faults_ok crc s s' \<Longrightarrow> wal_reach faults_ok crc s'"

lemma keeps_later:
  assumes "keeps crc Q f"
  shows "wal_later crc s (snd (f s))"
proof (rule wal_laterI)
  fix log
  assume ok: "wal_ok crc log s"
  from wal_laterD [OF keeps_onD [OF assms ok] ok]
  show "\<exists>more. wal_ok crc (log @ more) (snd (f s)) \<and> lf_synced (wm_file s) \<le> lf_synced (wm_file (snd (f s)))" .
qed

lemma wal_step_later: "wal_step crc s s' \<Longrightarrow> wal_later crc s s'"
proof (induction rule: wal_step.induct)
  case (step_append t p prev s r s')
  from append_locked_later [OF step_append(1,2), of crc s prev] step_append(3) show ?case by simp
next
  case (step_sync l s r s')
  from sync_locked_later [of crc s l] step_sync show ?case by simp
next
  case (step_fault fp s r s')
  from check_fault_later [of crc s fp] step_fault show ?case by simp
next
  case (step_clean t s r s')
  from clear_dirty_later [of crc s t] step_clean show ?case by (simp add: mark_transaction_clean_def)
next
  case (step_checkpoint cs s r s')
  have "wal_later crc s (snd (checkpoint_begin_locked crc cs s))"
    by (rule keeps_later [OF checkpoint_begin_keeps [OF step_checkpoint(1)]])
  with step_checkpoint(2) show ?case by simp
next
  case (step_compensation t undo undo_next pid count s r s')
  have "wal_later crc s (snd (append_compensation crc t pid undo count undo_next s))"
    by (rule keeps_later [OF compensation_keeps [OF step_compensation(1-3)]])
  with step_compensation(4) show ?case by simp
qed

section \<open>The abstract log\<close>

text \<open>
  A list of records of which a prefix is durable. Records are appended at its end, the
  durable prefix only grows, and a crash loses some of the records behind it.
\<close>

inductive log_step :: "wal_record list \<times> nat \<Rightarrow> wal_record list \<times> nat \<Rightarrow> bool" where
  log_append: "log_step (log, d) (log @ rs, d)"
| log_sync: "d \<le> d' \<Longrightarrow> d' \<le> length log \<Longrightarrow> log_step (log, d) (log, d')"
| log_crash: "d \<le> k \<Longrightarrow> k \<le> length log \<Longrightarrow> log_step (log, d) (take k log, k)"

inductive_cases log_stepE: "log_step (log, d) a"

text \<open>The log of a manager, with the records whose bytes have been forced to the disk.\<close>

definition log_of :: "(u8 list \<Rightarrow> u32) \<Rightarrow> wal_manager \<Rightarrow> wal_record list \<times> nat \<Rightarrow> bool" where
  "log_of crc s a \<longleftrightarrow> (case a of (log, d) \<Rightarrow> wal_ok crc log s \<and> d \<le> length log \<and>
     (\<forall>i \<le> length log. length (log_bytes crc (take i log)) \<le> lf_synced (wm_file s) \<longleftrightarrow> i \<le> d))"

lemma log_ofD:
  assumes "log_of crc s (log, d)"
  shows "wal_ok crc log s" "d \<le> length log"
    "i \<le> length log \<Longrightarrow> length (log_bytes crc (take i log)) \<le> lf_synced (wm_file s) \<longleftrightarrow> i \<le> d"
  using assms by (auto simp: log_of_def)

lemma log_bytes_mono: "i \<le> j \<Longrightarrow> length (log_bytes crc (take i log)) \<le> length (log_bytes crc (take j log))"
  by (metis (no_types, lifting) le_add1 le_add_diff_inverse length_append log_bytes_simps(3) take_add)

lemma log_of_exists:
  assumes ok: "wal_ok crc log s"
  shows "\<exists>d. log_of crc s (log, d)"
proof -
  let ?P = "\<lambda>i. i \<le> length log \<and> length (log_bytes crc (take i log)) \<le> lf_synced (wm_file s)"
  let ?d = "Greatest ?P"
  have d: "?P ?d" by (rule GreatestI_nat [where k = 0 and b = "length log"]) simp_all
  moreover have "length (log_bytes crc (take i log)) \<le> lf_synced (wm_file s) \<longleftrightarrow> i \<le> ?d" if i: "i \<le> length log" for i
  proof
    assume "length (log_bytes crc (take i log)) \<le> lf_synced (wm_file s)"
    with i show "i \<le> ?d" by (intro Greatest_le_nat [where b = "length log"]) simp_all
  next
    assume "i \<le> ?d"
    with log_bytes_mono [OF this, of crc log] d show "length (log_bytes crc (take i log)) \<le> lf_synced (wm_file s)" by simp
  qed
  ultimately show ?thesis using ok by (intro exI [of _ ?d]) (auto simp: log_of_def)
qed

lemma log_of_durable:
  assumes "log_of crc s (log, d)" and "wm_durable_lsn s = Some l"
  shows "unat l \<le> d"
proof -
  note ok = log_ofD(1) [OF assms(1)]
  have "unat l \<le> length log" using wal_okD(4) [OF ok] wal_okD(7) [OF ok assms(2)] by (simp add: word_less_nat_alt)
  with log_ofD(3) [OF assms(1)] wal_okD(8) [OF ok assms(2)] show ?thesis by simp
qed

lemma later_log_of:
  assumes later: "wal_later crc s s'" and a: "log_of crc s (log, d)"
  shows "\<exists>a'. log_step\<^sup>*\<^sup>* (log, d) a' \<and> log_of crc s' a'"
proof -
  from wal_laterD [OF later log_ofD(1) [OF a]] obtain more where
    ok: "wal_ok crc (log @ more) s'" and le: "lf_synced (wm_file s) \<le> lf_synced (wm_file s')" by blast
  from log_of_exists [OF ok] obtain d' where d': "log_of crc s' (log @ more, d')" by blast
  note d = log_ofD(2) [OF a]
  have "length (log_bytes crc (take d log)) \<le> lf_synced (wm_file s)" using log_ofD(3) [OF a d] by simp
  moreover have "take d (log @ more) = take d log" using d by simp
  ultimately have "length (log_bytes crc (take d (log @ more))) \<le> lf_synced (wm_file s')" using le d by simp
  then have "d \<le> d'" using log_ofD(3) [OF d', of d] d by simp
  then have "log_step (log @ more, d) (log @ more, d')" by (rule log_sync) (rule log_ofD(2) [OF d'])
  with log_append [of log d more] have "log_step\<^sup>*\<^sup>* (log, d) (log @ more, d')"
    by (rule converse_rtranclp_into_rtranclp [OF _ r_into_rtranclp])
  with d' show ?thesis by blast
qed

lemma open_log_of:
  assumes a: "log_of crc s (log, d)" and img: "img \<in> crash_images (wm_file s)" and os: "no_double_fault os"
    and r: "wal_open crc (empty_wal img faults os) = (Inr n, s')"
  shows "\<exists>k. d \<le> k \<and> k \<le> length log \<and> log_of crc s' (take k log, k) \<and> n + length (lf_bytes (wm_file s')) = length img"
proof -
  from wal_open_recovers [OF log_ofD(1) [OF a] img os r] obtain k where
    k: "k \<le> length log" "wal_ok crc (take k log) s'"
    and keep: "\<forall>i \<le> length log. length (log_bytes crc (take i log)) \<le> lf_synced (wm_file s) \<longrightarrow> i \<le> k"
    and len: "length img = length (log_bytes crc (take k log)) + n"
    and all: "lf_synced (wm_file s') = length (lf_bytes (wm_file s'))" by blast
  have "d \<le> k" using keep log_ofD(2) [OF a] log_ofD(3) [OF a, of d] by simp
  moreover have "log_of crc s' (take k log, k)"
    using k all wal_okD(2) [OF k(2)] log_bytes_mono [of _ k crc "take k log"]
    by (auto simp: log_of_def min_def)
  ultimately show ?thesis using k(1) len wal_okD(2) [OF k(2)] by (intro exI [of _ k]) simp
qed

lemma restart_log_of:
  assumes r: "wal_restart no_double_fault crc s s'" and a: "log_of crc s (log, d)"
  shows "\<exists>a'. log_step\<^sup>*\<^sup>* (log, d) a' \<and> log_of crc s' a'"
  using r
proof cases
  case (1 img os faults n)
  from open_log_of [OF a 1] obtain k where k: "d \<le> k" "k \<le> length log" "log_of crc s' (take k log, k)" by blast
  then show ?thesis using log_crash [of d k log] by blast
qed

text \<open>With a file system that works, opening always succeeds.\<close>

lemma wal_open_total:
  assumes ok: "wal_ok crc log s" and img: "img \<in> crash_images (wm_file s)"
  shows "\<exists>n s'. wal_open crc (empty_wal img faults []) = (Inr n, s')"
proof -
  note okD = wal_okD [OF ok]
  from img okD(2) obtain k0 where img': "img = take k0 (log_bytes crc log)" by (auto simp: crash_images_def)
  from log_prefix [OF okD(1), of k0] obtain j tail where j: "j \<le> length log"
    and split: "img = log_bytes crc (take j log) @ tail" and tail: "tail = [] \<or> torn crc tail"
    unfolding img' by blast
  let ?rs = "take j log"
  have rs: "list_all (loggable crc) ?rs" using okD(1) unfolding list_all_iff by (blast dest: in_set_takeD)
  have loop: "scan_loop crc img 0 = Inr (?rs, length (log_bytes crc ?rs), tail = [])"
    unfolding split using scan_loop_log [OF rs tail, of 0] by simp
  from okD(6) have "seq_run (?rs @ drop j log) seq_init = Inr (seq_of (if log = [] then None else Some (wr_lsn (last log))) s)" by simp
  then obtain sq where "seq_run ?rs seq_init = Inr sq" using seq_run_prefix by blast
  then have seq: "validate_record_sequence ?rs = Inr ()" by (simp add: validate_record_sequence_def)
  have scan: "\<exists>n s1. scan_file crc True (empty_wal img faults []) =
      (Inr \<lparr>sr_records = ?rs, sr_valid_bytes = length (log_bytes crc ?rs), sr_truncated_bytes = n\<rparr>, s1)"
    using loop seq
    by (cases "tail = []") (simp_all add: scan_file_def finish_incomplete_tail_def eff_bind_def empty_wal_def
        wal_set_len_def wal_sync_all_def wal_next_io_def)
  have "\<exists>l. (case (if ?rs = [] then None else Some (wr_lsn (last ?rs))) of
      Some l \<Rightarrow> lsn_checked_next l | None \<Rightarrow> ok_or E_XX000 (lsn_new 1)) = Inr l"
  proof (cases "?rs = []")
    case True
    then show ?thesis by (simp add: lsn_new_def)
  next
    case False
    then have "j \<noteq> 0" by auto
    with False okD(3) [of "j - 1"] j have "wr_lsn (last ?rs) = of_nat j" by (simp add: last_conv_nth min_def del: of_nat_Suc)
    moreover have small: "j + 1 < 2 ^ 64" using j okD(4) unat_bound [of "wm_next_lsn s"] by simp
    have "unat (of_nat (Suc j) :: u64) = Suc j" using small by (simp add: unat_of_nat del: of_nat_Suc)
    then have "(of_nat j + 1 :: u64) \<noteq> 0" by (metis add.commute of_nat_Suc unat_0 nat.distinct(1))
    with small have "lsn_checked_next (of_nat j) = Inr (of_nat j + 1)"
      by (simp add: lsn_checked_next_def checked_add_u64_def res_simps lsn_new_def unat_of_nat)
    ultimately show ?thesis using False by simp
  qed
  with scan show ?thesis by (auto simp: wal_open_def eff_bind_def Let_def)
qed

interpretation wl: forward_simulation "wal_next no_double_fault crc" log_step "log_of crc" for crc
proof unfold_locales
  fix crc s s' a
  assume a: "log_of crc s a" and "wal_next no_double_fault crc s s'"
  obtain log d where p: "a = (log, d)" by (cases a)
  from \<open>wal_next no_double_fault crc s s'\<close> show "\<exists>a'. log_step\<^sup>*\<^sup>* a a' \<and> log_of crc s' a'"
    unfolding wal_next_def p
  proof
    assume "wal_step crc s s'"
    from later_log_of [OF wal_step_later [OF this] a [unfolded p]] show "\<exists>a'. log_step\<^sup>*\<^sup>* (log, d) a' \<and> log_of crc s' a'" .
  next
    assume "wal_restart no_double_fault crc s s'"
    from restart_log_of [OF this a [unfolded p]] show "\<exists>a'. log_step\<^sup>*\<^sup>* (log, d) a' \<and> log_of crc s' a'" .
  qed
qed

lemma wal_reach_ok:
  assumes "wal_reach no_double_fault crc s"
  shows "\<exists>log. wal_ok crc log s"
  using assms
proof induction
  case (reach_open os faults n s)
  let ?e = "empty_wal [] faults []"
  have "wal_ok crc [] ?e" by (rule wal_okI) (simp_all add: empty_wal_def core_def tables_of_def empty_tables_def seq_init_eq seq_of_def)
  moreover have "[] \<in> crash_images (wm_file ?e)" by (auto simp: crash_images_def empty_wal_def)
  ultimately show ?case using wal_open_recovers reach_open by blast
next
  case (reach_next s s')
  then obtain log where "wal_ok crc log s" by blast
  then obtain d where "log_of crc s (log, d)" using log_of_exists by blast
  from wl.sim_steps [OF r_into_rtranclp [where r = "wal_next no_double_fault crc", OF reach_next(2)] this]
  show ?case using log_ofD(1) by fastforce
qed

section \<open>Records in the log\<close>

definition appended_at :: "(u8 list \<Rightarrow> u32) \<Rightarrow> wal_manager \<Rightarrow> nat \<Rightarrow> wal_record \<Rightarrow> bool" where
  "appended_at crc s i r \<longleftrightarrow> (\<exists>log. wal_ok crc log s \<and> i < length log \<and> log ! i = r)"

definition durable_at :: "(u8 list \<Rightarrow> u32) \<Rightarrow> wal_manager \<Rightarrow> nat \<Rightarrow> wal_record \<Rightarrow> bool" where
  "durable_at crc s i r \<longleftrightarrow> (\<exists>log d. log_of crc s (log, d) \<and> i < d \<and> log ! i = r)"

lemma durable_appended: "durable_at crc s i r \<Longrightarrow> appended_at crc s i r"
  unfolding durable_at_def appended_at_def using log_ofD(1,2) order_less_le_trans by fastforce

lemma appended_later:
  assumes "wal_later crc s s'" and "appended_at crc s i r"
  shows "appended_at crc s' i r"
proof -
  from assms(2) obtain log where log: "wal_ok crc log s" "i < length log" "log ! i = r" by (auto simp: appended_at_def)
  from wal_laterD [OF assms(1) log(1)] obtain more where "wal_ok crc (log @ more) s'" by blast
  with log(2,3) show ?thesis unfolding appended_at_def by (intro exI [of _ "log @ more"]) (simp add: nth_append)
qed

lemma durable_next:
  assumes "(wal_next no_double_fault crc)\<^sup>*\<^sup>* s s'" and "durable_at crc s i r"
  shows "durable_at crc s' i r"
proof -
  from assms(2) obtain log d where log: "log_of crc s (log, d)" "i < d" "log ! i = r" by (auto simp: durable_at_def)
  let ?I = "\<lambda>(log, d). i < d \<and> d \<le> length log \<and> log ! i = r"
  have "?I a'" if "?I a" "log_step a a'" for a a'
    using that(2,1) by cases (auto simp: nth_append)
  moreover have "?I (log, d)" using log log_ofD(2) by simp
  ultimately obtain a' where "log_of crc s' a'" "?I a'"
    using wl.sim_invariant [OF assms(1) log(1), of ?I] by blast
  then show ?thesis by (cases a') (auto simp: durable_at_def)
qed

lemma durable_later:
  assumes "wal_later crc s s'" and "durable_at crc s i r"
  shows "durable_at crc s' i r"
proof -
  from assms(2) obtain log d where log: "log_of crc s (log, d)" "i < d" "log ! i = r" by (auto simp: durable_at_def)
  from later_log_of [OF assms(1) log(1)] obtain a' where a': "log_step\<^sup>*\<^sup>* (log, d) a'" "log_of crc s' a'" by blast
  let ?I = "\<lambda>(log, d). i < d \<and> d \<le> length log \<and> log ! i = r"
  from a'(1) have "?I a'"
  proof (induction rule: rtranclp_induct)
    case base
    show ?case using log log_ofD(2) by simp
  next
    case (step a a')
    from step(2,3) show ?case by cases (auto simp: nth_append)
  qed
  with a'(2) show ?thesis by (cases a') (auto simp: durable_at_def)
qed

lemma sync_durable:
  assumes s: "sync_locked l s = (Inr x, s')" and a: "appended_at crc s i r" and l: "unat l = Suc i"
  shows "durable_at crc s' i r"
proof -
  from a obtain log where log: "wal_ok crc log s" "i < length log" "log ! i = r" by (auto simp: appended_at_def)
  have "wal_later crc s s'" using sync_locked_later [of crc s l] s by simp
  from wal_laterD [OF this log(1)] obtain more where
    ok: "wal_ok crc (log @ more) s'" "lf_synced (wm_file s) \<le> lf_synced (wm_file s')" by blast
  obtain d where d: "log_of crc s' (log @ more, d)" using log_of_exists [OF ok(1)] by blast
  have "length (log_bytes crc (take (Suc i) (log @ more))) \<le> lf_synced (wm_file s')"
    using s
  proof (cases rule: sync_locked_cases)
    case 1
    obtain m where m: "wm_durable_lsn s = Some m" "l \<le> m"
    proof -
      from s 1 show thesis
      proof (cases "case wm_durable_lsn s of None \<Rightarrow> False | Some m \<Rightarrow> l \<le> m")
        case False
        with s have "eff_bind wal_sync_all (\<lambda>_. eff_put (\<lambda>s'. s'\<lparr>wm_durable_lsn := Some (wm_next_lsn s - 1)\<rparr>)) s = (Inr x, s')"
          "l \<le> wm_next_lsn s - 1"
          by (auto simp: sync_locked_def eff_bind_def [of "eff_get id"] eff_bind_def [of "eff_res x" for x] not_less lsn_new_def
              split: if_splits sum.splits)
        then have "wm_durable_lsn s' = Some (wm_next_lsn s - 1)" "l \<le> wm_next_lsn s - 1" by (auto elim!: eff_bind_Ok)
        with 1 show thesis by (intro that) simp_all
      qed (auto intro: that split: option.splits)
    qed
    have "unat l \<le> unat m" using m(2) by (simp add: word_le_nat_alt)
    with wal_okD(8) [OF log(1) m(1)] log_bytes_mono [of "Suc i" "unat m" crc log] l log(2) 1 show ?thesis by simp
  next
    case (2 os)
    have "length (log_bytes crc (take (Suc i) log)) \<le> length (log_bytes crc log)"
      using log_bytes_mono [of "Suc i" "length log" crc log] log(2) by simp
    with log(2) 2 wal_okD(2) [OF log(1)] show ?thesis by simp
  next
    case (3 x os)
    then show ?thesis by simp
  qed
  then have "Suc i \<le> d" using log_ofD(3) [OF d, of "Suc i"] log(2) by simp
  with d log(2,3) show ?thesis unfolding durable_at_def by (intro exI [of _ "log @ more"] exI [of _ d]) (simp add: nth_append)
qed

lemma flush_durable:
  assumes "flush_lsn l s = (Inr x, s')" and "appended_at crc s i r" and "unat l = Suc i"
  shows "durable_at crc s' i r"
proof -
  from assms(1) obtain y s1 where 1: "check_fault BeforeWalFlush s = (Inr y, s1)"
    and "eff_bind (sync_locked l) (\<lambda>_. check_fault AfterWalFlush) s1 = (Inr x, s')"
    unfolding flush_lsn_def by (rule eff_bind_Ok)
  from this(2) obtain z s2 where 2: "sync_locked l s1 = (Inr z, s2)" and 3: "check_fault AfterWalFlush s2 = (Inr x, s')"
    by (rule eff_bind_Ok)
  have "appended_at crc s1 i r"
    by (rule appended_later [OF _ assms(2)]) (use check_fault_later [of crc s BeforeWalFlush] 1 in simp)
  from sync_durable [OF 2 this assms(3)] have "durable_at crc s2 i r" .
  then show ?thesis
    by (rule durable_later [rotated]) (use check_fault_later [of crc s2 AfterWalFlush] 3 in simp)
qed

lemma append_appended:
  assumes ok: "wal_ok crc log s" and "t \<noteq> Some 0" and "payload_wf p" and a: "append_locked crc t prev p s = (Inr l, s')"
  shows "appended_at crc s' (length log) \<lparr>wr_lsn = l, wr_txn = t, wr_prev = prev, wr_payload = p\<rparr>"
    and "unat l = Suc (length log)"
proof -
  show "unat l = Suc (length log)"
    using a wal_okD(4) [OF ok] by (auto elim!: append_locked_cases)
  from a show "appended_at crc s' (length log) \<lparr>wr_lsn = l, wr_txn = t, wr_prev = prev, wr_payload = p\<rparr>"
  proof (cases rule: append_locked_cases)
    case (2 bs os rec)
    from append_ok [OF ok assms(2,3) 2(1-5)] 2
    show ?thesis unfolding appended_at_def by (intro exI [of _ "log @ [rec]"]) simp
  qed simp_all
qed

section \<open>Outcomes\<close>

fun terminal_outcome :: "wal_payload \<Rightarrow> outcome option" where
  "terminal_outcome WpCommit = Some Committed"
| "terminal_outcome WpAbort = Some Aborted"
| "terminal_outcome _ = None"

text \<open>A terminal record decides the outcome of its transaction for good.\<close>

lemma terminal_decides:
  assumes "seq_run log seq_init = Inr sq" and "i < length log" and "wr_txn (log ! i) = Some t"
    and "terminal_outcome (wr_payload (log ! i)) = Some out"
  shows "bs_mem t (wt_terminal (tables_of log)) \<and> bm_contains (wt_last (tables_of log)) t \<and>
    bm_get (wt_outcomes (tables_of log)) t = Some out"
  using assms
proof (induction log arbitrary: sq rule: rev_induct)
  case (snoc r log)
  from snoc.prems(1) obtain sq0 where sq0: "seq_run log seq_init = Inr sq0" and st: "seq_step r sq0 = Inr sq"
    by (auto simp: seq_run_append try_bind_eq_Ok)
  from seq_run_log [OF sq0] have sq0': "sq0 = seq_of (if log = [] then None else Some (wr_lsn (last log))) (tables_of log)" .
  show ?case
  proof (cases "i < length log")
    case True
    with snoc.IH [OF sq0] snoc.prems have IH: "bs_mem t (wt_terminal (tables_of log))"
      "bm_contains (wt_last (tables_of log)) t" "bm_get (wt_outcomes (tables_of log)) t = Some out"
      by (simp_all add: nth_append)
    have ne: "wr_txn r \<noteq> Some t"
    proof
      assume "wr_txn r = Some t"
      with st IH(1,2) show False by (auto simp: sq0' seq_step_def seq_check_def seq_of_def Let_def res_simps split: if_splits)
    qed
    with IH show ?thesis
      by (auto simp: tables_of_snoc apply_record_state_def Let_def track_begin_def track_dirty_def track_terminal_def
          bs_mem_def split: option.splits wal_payload.splits)
  next
    case False
    with snoc.prems have r: "wr_txn r = Some t" "terminal_outcome (wr_payload r) = Some out" by (simp_all add: nth_append less_Suc_eq)
    then show ?thesis
      by (cases "wr_payload r") (auto simp: tables_of_snoc apply_record_state_def Let_def track_terminal_def wr_kind_def)
  qed
qed simp

lemma appended_outcome:
  assumes "appended_at crc s i r" and "wr_txn r = Some t" and "terminal_outcome (wr_payload r) = Some out"
  shows "bm_get (wt_outcomes s) t = Some out"
proof -
  from assms(1) obtain log where log: "wal_ok crc log s" "i < length log" "log ! i = r" by (auto simp: appended_at_def)
  from terminal_decides [OF wal_okD(6) [OF log(1)] log(2)] log(3) assms(2,3)
  have "bm_get (wt_outcomes (tables_of log)) t = Some out" by simp
  with wal_okD(5) [OF log(1)] show ?thesis by (simp add: core_def)
qed

text \<open>A record that has been appended and then flushed, and any steps and crashes after it.\<close>

lemma flushed_outcome:
  assumes "wal_reach no_double_fault crc s0" and "t \<noteq> 0" and "terminal_outcome p = Some out"
    and a: "append_locked crc (Some t) prev p s0 = (Inr l, s1)"
    and steps: "(wal_step crc)\<^sup>*\<^sup>* s1 s2" and f: "sync_locked l s2 = (Inr x, s3)"
    and rest: "(wal_next no_double_fault crc)\<^sup>*\<^sup>* s3 s4"
  shows "bm_get (wt_outcomes s4) t = Some out"
proof -
  from wal_reach_ok [OF assms(1)] obtain log where ok: "wal_ok crc log s0" by blast
  have wf: "payload_wf p" using assms(3) by (cases p) simp_all
  let ?r = "\<lparr>wr_lsn = l, wr_txn = Some t, wr_prev = prev, wr_payload = p\<rparr>"
  note ap = append_appended [OF ok _ wf a]
  have "wal_later crc s1 s2"
    using steps by (induction rule: rtranclp_induct) (blast intro: wal_later_refl wal_later_trans wal_step_later)+
  then have "appended_at crc s2 (length log) ?r" using ap(1) \<open>t \<noteq> 0\<close> by (auto intro: appended_later)
  then have "durable_at crc s3 (length log) ?r" using sync_durable [OF f] ap(2) \<open>t \<noteq> 0\<close> by simp
  then have "durable_at crc s4 (length log) ?r" by (rule durable_next [OF rest])
  from appended_outcome [OF durable_appended [OF this]] assms(3) show ?thesis by simp
qed

lemma commit_at_durable:
  assumes ok: "wal_ok crc log s" and "t \<noteq> 0" and c: "commit_transaction_at crc t e s = (Inr l, s')"
  shows "durable_at crc s' (length log) \<lparr>wr_lsn = l, wr_txn = Some t, wr_prev = Some e, wr_payload = WpCommit\<rparr>"
proof -
  from c obtain s1 where
    a: "append_locked crc (Some t) (Some e) WpCommit s = (Inr l, s1)" and
    r: "eff_bind (check_fault BeforeCommitFlush) (\<lambda>_. eff_bind (flush_lsn l) (\<lambda>_.
       eff_bind (check_fault AfterCommitFlush) (\<lambda>_. eff_bind (mark_transaction_clean t) (\<lambda>_. eff_return l)))) s1 = (Inr l, s')"
    unfolding commit_transaction_at_def wal_append_def wal_last_lsn_def
    by (auto elim!: eff_bind_Ok split: if_splits simp: mark_transaction_clean_def)
  let ?r = "\<lparr>wr_lsn = l, wr_txn = Some t, wr_prev = Some e, wr_payload = WpCommit\<rparr>"
  note ap = append_appended [OF ok _ _ a]
  from r obtain x s2 where 1: "check_fault BeforeCommitFlush s1 = (Inr x, s2)" and
    r2: "eff_bind (flush_lsn l) (\<lambda>_. eff_bind (check_fault AfterCommitFlush) (\<lambda>_.
       eff_bind (mark_transaction_clean t) (\<lambda>_. eff_return l))) s2 = (Inr l, s')" by (rule eff_bind_Ok)
  from r2 obtain y s3 where 2: "flush_lsn l s2 = (Inr y, s3)" and
    r3: "eff_bind (check_fault AfterCommitFlush) (\<lambda>_. eff_bind (mark_transaction_clean t) (\<lambda>_. eff_return l)) s3 = (Inr l, s')"
    by (rule eff_bind_Ok)
  from r3 obtain z s4 where 3: "check_fault AfterCommitFlush s3 = (Inr z, s4)" and 4: "s' = clear_dirty t s4"
    by (rule eff_bind_Ok) (simp add: mark_transaction_clean_def)
  have "appended_at crc s2 (length log) ?r"
    by (rule appended_later [OF _ ap(1)]) (use check_fault_later [of crc s1 BeforeCommitFlush] 1 \<open>t \<noteq> 0\<close> in simp_all)
  with flush_durable [OF 2] ap(2) \<open>t \<noteq> 0\<close> have "durable_at crc s3 (length log) ?r" by simp
  then have "durable_at crc s4 (length log) ?r"
    by (rule durable_later [rotated]) (use check_fault_later [of crc s3 AfterCommitFlush] 3 in simp)
  then show ?thesis unfolding 4 by (rule durable_later [OF clear_dirty_later])
qed

section \<open>A log with one transaction\<close>

lemma commit_transaction_durable:
  assumes "wal_ok crc log w" and "t \<noteq> 0" and "wal_commit_transaction crc t w = (Inr l, w')"
  shows "\<exists>i r. durable_at crc w' i r \<and> wr_txn r = Some t \<and> wr_payload r = WpCommit"
proof -
  from assms(3) obtain e where "commit_transaction_at crc t e w = (Inr l, w')"
    unfolding wal_commit_transaction_def transaction_chain_def
    by (auto elim!: eff_bind_Ok split: option.splits if_splits)
  from commit_at_durable [OF assms(1,2) this] show ?thesis by fastforce
qed

lemma append_plain:
  assumes "validate_append_chain s t prev p = Inr ()" and "lsn_checked_next (wm_next_lsn s) = Inr n"
    and "record_validate crc \<lparr>wr_lsn = wm_next_lsn s, wr_txn = t, wr_prev = prev, wr_payload = p\<rparr> = Inr ()"
    and "payload_bytes p = Inr []"
  shows "append_locked crc t prev p s =
    (let rec = \<lparr>wr_lsn = wm_next_lsn s, wr_txn = t, wr_prev = prev, wr_payload = p\<rparr>
     in eff_bind (wal_write_all (sealed_record crc rec [])) (\<lambda>_.
        eff_bind (eff_put (\<lambda>s. apply_record_state rec False (s\<lparr>wm_next_lsn := n\<rparr>))) (\<lambda>_. eff_return (wm_next_lsn s))) s)"
proof -
  let ?rec = "\<lparr>wr_lsn = wm_next_lsn s, wr_txn = t, wr_prev = prev, wr_payload = p\<rparr>"
  have "record_encode crc ?rec = Inr (sealed_record crc ?rec [])"
    using assms(3,4) by (simp add: record_encode_Ok)
  moreover have "record_new crc (wm_next_lsn s) t prev p = Inr ?rec" using assms(3) by (simp add: record_new_def)
  ultimately show ?thesis
    using assms(1,2) by (simp add: append_locked_def eff_bind_def Let_def)
qed

lemma wal_open_empty: "wal_open crc (empty_wal [] faults os) = (Inr 0, empty_wal [] faults os)"
  by (simp add: wal_open_def scan_file_def scan_loop.simps [of crc "[]"] eff_bind_def empty_wal_def validate_record_sequence_def lsn_new_def res_simps)

lemmas wal_eval = wal_begin_transaction_def wal_append_def flush_lsn_def check_fault_def inj_check_def sync_locked_def
  wal_sync_all_def wal_next_io_def eff_bind_def wal_write_all_def eff_ignore_def wal_set_len_def
  wal_commit_transaction_def transaction_chain_def commit_transaction_at_def wal_last_lsn_def mark_transaction_clean_def
  validate_append_chain_def record_validate_def system_payload_def lsn_checked_next_def lsn_new_def res_simps
  apply_record_state_def track_begin_def track_terminal_def clear_dirty_def wr_kind_def

text \<open>The record of transaction 1 in a log with nothing else, and that log after its begin.\<close>

definition begin_one_record :: wal_record where
  "begin_one_record = \<lparr>wr_lsn = 1, wr_txn = Some 1, wr_prev = None, wr_payload = WpBegin\<rparr>"

definition commit_one_record :: wal_record where
  "commit_one_record = \<lparr>wr_lsn = 2, wr_txn = Some 1, wr_prev = Some 1, wr_payload = WpCommit\<rparr>"

definition begun_one :: "(u8 list \<Rightarrow> u32) \<Rightarrow> io list \<Rightarrow> wal_manager" where
  "begun_one crc os =
     \<lparr>wt_begin = bm_insert 1 1 bm_empty, wt_last = bm_insert 1 1 bm_empty, wt_terminal = bm_empty,
      wt_outcomes = bm_insert 1 InProgress bm_empty, wt_max_txn = Some 1, wt_dirty = bm_empty,
      wt_txn_dirty = bm_empty,
      wm_file = \<lparr>lf_bytes = sealed_record crc begin_one_record [], lf_synced = 48\<rparr>,
      wm_next_lsn = 2, wm_durable_lsn = Some 1, wm_injector = None, wm_io = os\<rparr>"

lemma begin_one:
  "wal_begin_transaction crc 1 (empty_wal [] None (IoOk # IoOk # os)) =
    (Inr \<lparr>lt_txn = 1, lt_begin_lsn = 1, lt_last_lsn = 1, lt_page_update_lsns = bm_empty\<rparr>, begun_one crc os)"
  "wal_begin_transaction crc 1 (empty_wal [] None []) =
    (Inr \<lparr>lt_txn = 1, lt_begin_lsn = 1, lt_last_lsn = 1, lt_page_update_lsns = bm_empty\<rparr>, begun_one crc [])"
  by (simp_all add: append_plain empty_wal_def wal_eval word_le_nat_alt word_less_nat_alt checked_add_u64_code
      begun_one_def begin_one_record_def)

lemma commit_one: "fst (wal_commit_transaction crc 1 (begun_one crc [])) = Inr 2"
  by (simp add: append_plain begun_one_def wal_eval word_le_nat_alt word_less_nat_alt checked_add_u64_code)

lemma append_one: "fst (append_locked crc (Some 1) (Some 1) WpCommit (begun_one crc [])) = Inr 2"
  by (simp add: append_plain begun_one_def wal_eval word_le_nat_alt word_less_nat_alt checked_add_u64_code)

lemma sync_one: "fst (sync_locked 2 (snd (append_locked crc (Some 1) (Some 1) WpCommit (begun_one crc [])))) = Inr ()"
  by (simp add: append_plain begun_one_def wal_eval word_le_nat_alt word_less_nat_alt checked_add_u64_code)

text \<open>A failed write of the begin of transaction 2, whose truncation fails as well.\<close>

definition torn_one :: "(u8 list \<Rightarrow> u32) \<Rightarrow> wal_manager" where
  "torn_one crc = (begun_one crc [])\<lparr>wm_file := \<lparr>lf_bytes = sealed_record crc begin_one_record [] @ [79], lf_synced = 48\<rparr>\<rparr>"

lemma append_torn:
  "append_locked crc (Some 2) None WpBegin (begun_one crc [IoFail 1, IoFail 0]) = (Inl E_58030, torn_one crc)"
proof -
  have "take (Suc 0) (sealed_record crc r []) = [79]" for r
    by (simp add: sealed_record_def header_prefix_def wal_magic_def)
  then show ?thesis
    by (simp add: append_plain begun_one_def torn_one_def wal_eval word_le_nat_alt word_less_nat_alt checked_add_u64_code)
qed

lemma commit_torn:
  "fst (wal_commit_transaction crc 1 (torn_one crc)) = Inr 2"
  "wm_file (snd (wal_commit_transaction crc 1 (torn_one crc))) =
     \<lparr>lf_bytes = sealed_record crc begin_one_record [] @ 79 # sealed_record crc commit_one_record [], lf_synced = 97\<rparr>"
  by (simp_all add: append_plain torn_one_def begun_one_def commit_one_record_def wal_eval word_le_nat_alt word_less_nat_alt checked_add_u64_code)

lemma loggable_begin_one: "loggable crc begin_one_record" "enc crc begin_one_record = sealed_record crc begin_one_record []"
proof -
  have "record_encode crc begin_one_record = Inr (sealed_record crc begin_one_record [])"
    by (simp add: begin_one_record_def record_encode_Ok record_validate_def system_payload_def res_simps)
  then show "loggable crc begin_one_record" "enc crc begin_one_record = sealed_record crc begin_one_record []"
    by (simp_all add: loggable_def begin_one_record_def record_wf_def is_ok_iff enc_def)
qed

lemma open_torn:
  "fst (wal_open crc (empty_wal (sealed_record crc begin_one_record [] @ 79 # sealed_record crc commit_one_record []) None [])) = Inl E_XX001"
proof -
  let ?rest = "79 # sealed_record crc commit_one_record []"
  have "slice 0 8 (take WAL_HEADER_LEN (79 # sealed_record crc commit_one_record [])) \<noteq> wal_magic"
    by (simp add: slice_def sealed_record_def header_prefix_def wal_magic_def)
  then have "parse_header (take WAL_HEADER_LEN ?rest) = Inl E_XX001" by (simp add: parse_header_def res_simps)
  then have "scan_loop crc ?rest n = Inl E_XX001" for n by (subst scan_loop.simps) simp
  with scan_loop_record [OF loggable_begin_one(1), of crc ?rest 0] loggable_begin_one(2)
  have "scan_loop crc (sealed_record crc begin_one_record [] @ ?rest) 0 = Inl E_XX001" by simp
  then show ?thesis by (simp add: wal_open_def scan_file_def eff_bind_def empty_wal_def)
qed

text \<open>
  \<open>open\<close> does not synchronize the file, yet it takes every record in it for durable: when only
  the process has died, bytes that never reached the disk are reported as durable by the new
  manager, whose next synchronization up to them does nothing. The crashes of the model stop the
  whole machine, so what is found then is on the disk.
\<close>

definition unsynced_one :: "(u8 list \<Rightarrow> u32) \<Rightarrow> wal_manager" where
  "unsynced_one crc = (empty_wal [] None [])\<lparr>wm_file := \<lparr>lf_bytes = sealed_record crc begin_one_record [], lf_synced = 0\<rparr>\<rparr>"

lemma open_trusts_unsynced_bytes:
  "\<exists>s. wal_open crc (unsynced_one crc) = (Inr 0, s) \<and> wm_durable_lsn s = Some 1 \<and>
     lf_synced (wm_file s) = 0 \<and> sync_locked 1 s = (Inr (), s)"
proof -
  have "scan_loop crc (sealed_record crc begin_one_record []) 0 =
      Inr ([begin_one_record], length (sealed_record crc begin_one_record []), True)"
    using scan_loop_record [OF loggable_begin_one(1), of crc "[]" 0] scan_loop.simps [of crc "[]"] loggable_begin_one(2)
    by simp
  moreover have "validate_record_sequence [begin_one_record] = Inr ()"
    by (simp add: validate_record_sequence_def begin_one_record_def seq_step_def seq_check_def seq_init_eq seq_of_def
        empty_tables_def wr_kind_def Let_def res_simps)
  ultimately show ?thesis
    by (simp add: wal_open_def scan_file_def eff_bind_def unsynced_one_def empty_wal_def begin_one_record_def
        lsn_checked_next_def checked_add_u64_code lsn_new_def res_simps sync_locked_def Let_def
        apply_record_state_def track_begin_def wr_kind_def word_le_nat_alt)
qed

section \<open>Properties\<close>

text \<open>
  The log of a running manager. In every state that is reached from an empty file by
  any interleaving of the critical sections of the manager, with failing writes and
  synchronizations (no two calls in a row fail), and by crashes of the machine that are followed by opening the file, the file is the
  concatenation of the encoded records, which a scan reads back to the end with no torn
  tail: they are numbered 1, 2, ... without a gap, pass the sequence check, determine the
  tables of the transactions in memory, and those up to the durable LSN are on the disk.
\<close>

lemma wal_reachable_log:
  assumes "wal_reach no_double_fault crc s"
  shows "\<exists>log. scan_loop crc (lf_bytes (wm_file s)) 0 = Inr (log, length (lf_bytes (wm_file s)), True) \<and>
    map wr_lsn log = map of_nat [1..<Suc (length log)] \<and> unat (wm_next_lsn s) = Suc (length log) \<and>
    validate_record_sequence log = Inr () \<and> core s = core (tables_of log) \<and>
    (\<forall>d. wm_durable_lsn s = Some d \<longrightarrow>
       unat d \<le> length log \<and> length (log_bytes crc (take (unat d) log)) \<le> lf_synced (wm_file s))"
proof -
  from wal_reach_ok [OF assms] obtain log where ok: "wal_ok crc log s" by blast
  note okD = wal_okD [OF ok]
  have "scan_loop crc (lf_bytes (wm_file s)) 0 = Inr (log, length (lf_bytes (wm_file s)), True)"
    using scan_loop_log [OF okD(1), of "[]" 0] okD(2) by simp
  moreover have "map wr_lsn log = map of_nat [1..<Suc (length log)]"
    by (rule nth_equalityI) (simp_all add: okD(3) del: upt_Suc of_nat_Suc)
  moreover have "validate_record_sequence log = Inr ()" using okD(6) by (simp add: validate_record_sequence_def)
  moreover have "unat d \<le> length log" if "wm_durable_lsn s = Some d" for d
    using okD(7) [OF that] okD(4) by (simp add: word_less_nat_alt)
  ultimately show ?thesis using okD(4,5,8) by (intro exI [of _ log]) simp
qed

lemma wal_reachable_log_witness:
  "\<exists>log. scan_loop (\<lambda>_. 0) [] 0 = Inr (log, 0, True) \<and> length log = 0"
  using wal_reachable_log [OF reach_open [OF _ wal_open_empty [where faults = None and os = "[]"]], of "\<lambda>_. 0"]
  by (auto simp: empty_wal_def)

text \<open>
  C27. Refinement, when no two calls to the operating system in a row fail. Under that
  condition on the calls of the running manager (part of \<open>log_of\<close>) and on those after each
  reopening (the argument \<open>no_double_fault\<close>), the manager implements an append-only list of
  records with a durable prefix: every critical section, whether it succeeds or fails, appends
  records or makes more of them durable, and a crash of the machine that is followed by opening
  the file cuts the list somewhere behind its durable prefix. Without the condition the claim is
  false of the code: \<open>double_fault_breaks_log\<close> is a write whose truncation fails as well. A process
  that dies and is followed by a loss of power before the next synchronization is not covered
  (\<open>open_trusts_unsynced_bytes\<close>).
\<close>

theorem wal_refines_log:
  assumes "(wal_next no_double_fault crc)\<^sup>*\<^sup>* s s'" and "log_of crc s a"
  shows "\<exists>a'. log_step\<^sup>*\<^sup>* a a' \<and> log_of crc s' a'"
  using wl.sim_steps [OF assms] .

lemma empty_log_of: "log_of crc (empty_wal [] None []) ([], 0)"
proof -
  have "wal_ok crc [] (empty_wal [] None [])"
    by (rule wal_okI) (simp_all add: empty_wal_def core_def tables_of_def empty_tables_def seq_init_eq seq_of_def)
  then show ?thesis by (simp add: log_of_def)
qed

lemma wal_refines_log_witness:
  "\<exists>a'. log_step\<^sup>*\<^sup>* ([], 0) a' \<and> log_of (\<lambda>_. 0) (snd (append_locked (\<lambda>_. 0) (Some 1) None WpBegin (empty_wal [] None []))) a'"
proof -
  let ?e = "empty_wal [] None []" and ?a = "append_locked (\<lambda>_. 0) (Some 1) None WpBegin (empty_wal [] None [])"
  have "wal_step (\<lambda>_. 0) ?e (snd ?a)"
    by (rule step_append [where r = "fst ?a"]) simp_all
  then have "(wal_next no_double_fault (\<lambda>_. 0))\<^sup>*\<^sup>* ?e (snd ?a)" by (simp add: wal_next_def r_into_rtranclp)
  from wal_refines_log [OF this empty_log_of] show ?thesis .
qed

text \<open>
  C26. Durable outcomes, when no two calls to the operating system in a row fail (the argument
  \<open>no_double_fault\<close> of the runs; without it the claim is false of the code, see
  \<open>double_fault_breaks_log\<close>). Once the commit or abort record of a transaction has been
  appended, other threads have taken any number of steps, and a synchronization up to its LSN has
  returned without an error, the outcome of the transaction in the manager is that of the
  record after any further steps, failing or not, and any number of crashes of the machine that
  are followed by opening the file. What the file holds after a crash is on the disk when it is
  opened: a process that dies alone, with the power failing later, is not covered.
\<close>

theorem outcome_durable:
  assumes "wal_reach no_double_fault crc s0" and "t \<noteq> 0" and "terminal_outcome p = Some out"
    and "append_locked crc (Some t) prev p s0 = (Inr l, s1)"
    and "(wal_step crc)\<^sup>*\<^sup>* s1 s2" and "sync_locked l s2 = (Inr x, s3)" and "(wal_next no_double_fault crc)\<^sup>*\<^sup>* s3 s4"
  shows "bm_get (wt_outcomes s4) t = Some out"
  using flushed_outcome [OF assms] .

definition appended_one :: "(u8 list \<Rightarrow> u32) \<Rightarrow> wal_manager" where
  "appended_one crc = (begun_one crc [])
     \<lparr>wm_file := \<lparr>lf_bytes = sealed_record crc begin_one_record [], lf_synced = 0\<rparr>, wm_durable_lsn := None\<rparr>"

lemma appended_one_reach: "wal_reach no_double_fault crc (appended_one crc)"
proof -
  let ?e = "empty_wal [] None []"
  have 0: "wal_reach no_double_fault crc ?e" by (rule reach_open [OF _ wal_open_empty]) simp
  have 1: "append_locked crc (Some 1) None WpBegin ?e = (Inr 1, appended_one crc)"
    by (simp add: append_plain empty_wal_def wal_eval word_le_nat_alt word_less_nat_alt checked_add_u64_code
        appended_one_def begun_one_def begin_one_record_def)
  have "wal_step crc ?e (appended_one crc)" by (rule step_append [OF _ _ 1]) simp_all
  with 0 show ?thesis by (rule reach_next [unfolded wal_next_def, OF _ disjI1])
qed

lemma sync_appended_one: "sync_locked 1 (appended_one crc) = (Inr (), begun_one crc [])"
  by (simp add: wal_eval word_le_nat_alt word_less_nat_alt appended_one_def begun_one_def)

lemma begun_one_reach: "wal_reach no_double_fault crc (begun_one crc [])"
  by (rule reach_next [unfolded wal_next_def, OF appended_one_reach disjI1]) (rule step_sync [OF sync_appended_one])

lemma outcome_durable_witness:
  "\<exists>s. (wal_next no_double_fault (\<lambda>_. 0))\<^sup>*\<^sup>* (begun_one (\<lambda>_. 0) []) s \<and> bm_get (wt_outcomes s) 1 = Some Committed"
proof -
  let ?a = "append_locked (\<lambda>_. 0) (Some 1) (Some 1) WpCommit (begun_one (\<lambda>_. 0) [])"
  have a: "?a = (Inr 2, snd ?a)" using append_one [of "\<lambda>_. 0"] by (metis prod.collapse)
  let ?f = "sync_locked 2 (snd ?a)"
  have f: "?f = (Inr (), snd ?f)" using sync_one [of "\<lambda>_. 0"] by (metis prod.collapse)
  have "wal_step (\<lambda>_. 0) (begun_one (\<lambda>_. 0) []) (snd ?a)" by (rule step_append [OF _ _ a]) simp_all
  moreover have "wal_step (\<lambda>_. 0) (snd ?a) (snd ?f)" by (rule step_sync [OF f])
  ultimately have "(wal_next no_double_fault (\<lambda>_. 0))\<^sup>*\<^sup>* (begun_one (\<lambda>_. 0) []) (snd ?f)"
    by (meson wal_next_def converse_rtranclp_into_rtranclp rtranclp.rtrancl_refl)
  moreover have "bm_get (wt_outcomes (snd ?f)) 1 = Some Committed"
    by (rule outcome_durable [OF begun_one_reach _ _ a rtranclp.rtrancl_refl f rtranclp.rtrancl_refl]) simp_all
  ultimately show ?thesis by blast
qed

text \<open>
  C25. A commit that \<open>commit_transaction\<close> reports is durable, when no two calls to the
  operating system in a row fail (the argument \<open>no_double_fault\<close> of the runs: after an append
  that fails together with its truncation the claim is false of the code,
  \<open>double_fault_breaks_log\<close>). Under this condition, whatever the manager does before and
  afterwards, with single calls that fail, and however often the machine crashes and the file is
  opened again, each later state of the manager knows the transaction as committed. What the file
  holds after a crash is on the disk when it is opened: a process that dies alone, with the power
  failing later, is not covered.
\<close>

theorem commit_durable:
  assumes "wal_reach no_double_fault crc s" and "t \<noteq> 0" and "wal_commit_transaction crc t s = (Inr l, s1)"
    and "(wal_next no_double_fault crc)\<^sup>*\<^sup>* s1 s2"
  shows "bm_get (wt_outcomes s2) t = Some Committed"
proof -
  from wal_reach_ok [OF assms(1)] obtain log where ok: "wal_ok crc log s" by blast
  from commit_transaction_durable [OF ok assms(2,3)] obtain i r where
    r: "durable_at crc s1 i r" "wr_txn r = Some t" "wr_payload r = WpCommit" by blast
  from appended_outcome [OF durable_appended [OF durable_next [OF assms(4) r(1)]]] r(2,3) show ?thesis by simp
qed

lemma commit_durable_witness:
  "bm_get (wt_outcomes (snd (wal_commit_transaction (\<lambda>_. 0) 1 (begun_one (\<lambda>_. 0) [])))) 1 = Some Committed"
proof -
  have "wal_commit_transaction (\<lambda>_. 0) 1 (begun_one (\<lambda>_. 0) []) = (Inr 2, snd (wal_commit_transaction (\<lambda>_. 0) 1 (begun_one (\<lambda>_. 0) [])))"
    using commit_one [of "\<lambda>_. 0"] by (simp add: prod_eq_iff)
  from commit_durable [OF begun_one_reach _ this rtranclp.rtrancl_refl] show ?thesis by simp
qed

text \<open>
  C28. Opening after a crash succeeds. Take any state of the log that is reached without two
  failing calls to the operating system in a row (\<open>no_double_fault\<close>; after two of them opening
  may fail for good, \<open>double_fault_breaks_log\<close>). Whatever prefix of the unsynchronized bytes a
  crash of the machine leaves, \<open>open\<close> with a file system whose calls do not fail returns a
  manager. Its log is a prefix of the one before the crash with every record that was on the
  disk, and the count it reports is that of the bytes of the torn record that it has removed.
\<close>

theorem wal_open_after_crash:
  assumes "wal_reach no_double_fault crc s" and "img \<in> crash_images (wm_file s)"
  shows "\<exists>log d k n s'. log_of crc s (log, d) \<and> wal_open crc (empty_wal img faults []) = (Inr n, s') \<and>
    d \<le> k \<and> k \<le> length log \<and> log_of crc s' (take k log, k) \<and> n + length (lf_bytes (wm_file s')) = length img"
proof -
  from wal_reach_ok [OF assms(1)] obtain log where ok: "wal_ok crc log s" by blast
  from log_of_exists [OF ok] obtain d where d: "log_of crc s (log, d)" by blast
  from wal_open_total [OF ok assms(2), of faults] obtain n s' where r: "wal_open crc (empty_wal img faults []) = (Inr n, s')" by blast
  from open_log_of [OF d assms(2) _ r] d r show ?thesis by (auto intro!: exI [of _ log])
qed

lemma wal_open_after_crash_witness:
  "\<exists>n s'. wal_open (\<lambda>_. 0) (empty_wal (sealed_record (\<lambda>_. 0) begin_one_record []) None []) = (Inr n, s')"
proof -
  have "sealed_record (\<lambda>_. 0) begin_one_record [] \<in> crash_images (wm_file (begun_one (\<lambda>_. 0) []))"
    by (auto simp: begun_one_def crash_images_def intro!: exI [of _ 48])
  from wal_open_after_crash [OF begun_one_reach this, of None] show ?thesis by blast
qed

text \<open>
  C29. Two failures in a row break the log. After a write that fails in the middle, the
  truncation of the file is attempted, and its own failure is dropped: the next records are
  written behind the torn bytes. A commit of another transaction is then reported as
  durable, but the file cannot be opened again.
\<close>

theorem double_fault_breaks_log:
  "\<exists>os s1 s2 s3. wal_begin_transaction crc 1 (empty_wal [] None os) =
       (Inr \<lparr>lt_txn = 1, lt_begin_lsn = 1, lt_last_lsn = 1, lt_page_update_lsns = bm_empty\<rparr>, s1) \<and>
     append_locked crc (Some 2) None WpBegin s1 = (Inl E_58030, s2) \<and>
     wal_commit_transaction crc 1 s2 = (Inr 2, s3) \<and>
     lf_synced (wm_file s3) = length (lf_bytes (wm_file s3)) \<and>
     fst (wal_open crc (empty_wal (lf_bytes (wm_file s3)) None [])) = Inl E_XX001"
  using begin_one(1) [of crc "[IoFail 1, IoFail 0]"] append_torn [of crc] commit_torn [of crc] open_torn [of crc]
  by (intro exI [of _ "[IoOk, IoOk, IoFail 1, IoFail 0]"] exI [of _ "begun_one crc [IoFail 1, IoFail 0]"]
      exI [of _ "torn_one crc"] exI [of _ "snd (wal_commit_transaction crc 1 (torn_one crc))"])
    (simp add: prod_eq_iff)

end
