(* ===== verification/Disk.thy ===== *)
theory Disk
  imports Page Effect
begin

text \<open>
  The page files: \<open>DiskManager\<close> of crates/ordadb-storage/src/disk.rs, through which the buffer
  pool reads and writes pages, and \<open>RecoveryDataFile\<close> of recovery.rs in the same directory,
  through which crash recovery repairs them.

  A file is its bytes. Each call that reads, writes, resizes or synchronizes takes one
  outcome from the oracle of the operating system; a write that fails has written some of
  its bytes. Inspecting the length and seeking are part of the call that follows them: when
  they fail nothing has happened, as when that call fails before its first byte. Paths and
  the creation of directories are not modelled.
\<close>

section \<open>Files\<close>

record data_file =
  df_bytes :: "u8 list"
  df_io :: "io list"

definition df_next_io :: "('a data_file_scheme, io) eff" where
  "df_next_io s = (case next_io (df_io s) of (x, os) \<Rightarrow> (Inr x, s\<lparr>df_io := os\<rparr>))"

definition df_call :: "('a data_file_scheme \<Rightarrow> 'a data_file_scheme) \<Rightarrow> ('a data_file_scheme, unit) eff" where
  "df_call f = eff_bind df_next_io (\<lambda>x. if x = IoOk then eff_put f else eff_fail E_58030)"

definition df_set_len :: "nat \<Rightarrow> ('a data_file_scheme, unit) eff" where
  "df_set_len n = df_call (\<lambda>s. s\<lparr>df_bytes := take n (df_bytes s) @ replicate (n - length (df_bytes s)) 0\<rparr>)"

definition df_sync_all :: "('a data_file_scheme, unit) eff" where
  "df_sync_all = df_call (\<lambda>s. s)"

definition df_read :: "nat \<Rightarrow> nat \<Rightarrow> ('a data_file_scheme, u8 list) eff" where
  "df_read off n = eff_bind (df_call (\<lambda>s. s)) (\<lambda>_.
     eff_bind (eff_get df_bytes) (\<lambda>bs.
       if off + n \<le> length bs then eff_return (slice off n bs) else eff_fail E_58030))"

text \<open>\<open>write_all\<close> at an offset that is at most the length of the file.\<close>

definition df_write :: "nat \<Rightarrow> u8 list \<Rightarrow> ('a data_file_scheme, unit) eff" where
  "df_write off bs = eff_bind df_next_io (\<lambda>x.
     case x of
       IoOk \<Rightarrow> eff_put (\<lambda>s. s\<lparr>df_bytes := splice off bs (df_bytes s)\<rparr>)
     | IoFail n \<Rightarrow> eff_bind (eff_put (\<lambda>s. s\<lparr>df_bytes := splice off (take n bs) (df_bytes s)\<rparr>)) (\<lambda>_. eff_fail E_58030))"

text \<open>The complete pages of a file, and page \<open>i\<close> of it.\<close>

definition page_total :: "u8 list \<Rightarrow> nat" where
  "page_total bs = length bs div PAGE_SIZE"

definition page_at :: "u8 list \<Rightarrow> nat \<Rightarrow> u8 list" where
  "page_at bs i = slice (i * PAGE_SIZE) PAGE_SIZE bs"

definition page_offset :: "page_id \<Rightarrow> nat res" where
  "page_offset pid = ok_or E_XX001 (map_option unat (checked_mul_u64 pid (of_nat PAGE_SIZE)))"

section \<open>The disk manager\<close>

record disk_manager = data_file +
  dm_read_only :: bool

definition disk_page_count :: "('a data_file_scheme, nat) eff" where
  "disk_page_count = eff_bind (eff_get df_bytes) (\<lambda>bs.
     if length bs mod PAGE_SIZE \<noteq> 0 then eff_fail E_XX001 else eff_return (page_total bs))"

definition disk_open :: "u8 list \<Rightarrow> io list \<Rightarrow> disk_manager res" where
  "disk_open bs os =
     (let s = \<lparr>df_bytes = bs, df_io = os, dm_read_only = False\<rparr>
      in try_bind (fst (disk_page_count s)) (\<lambda>_. Inr s))"

definition disk_open_read_only :: "u8 list \<Rightarrow> io list \<Rightarrow> disk_manager res" where
  "disk_open_read_only bs os =
     (let s = \<lparr>df_bytes = bs, df_io = os, dm_read_only = True\<rparr>
      in try_bind (fst (disk_page_count s)) (\<lambda>_. Inr s))"

definition ensure_writable :: "(disk_manager, unit) eff" where
  "ensure_writable = eff_bind (eff_get dm_read_only) (\<lambda>ro. if ro then eff_fail E_25006 else eff_return ())"

definition disk_read_page :: "(u8 list \<Rightarrow> u32) \<Rightarrow> page_id \<Rightarrow> ('a data_file_scheme, slotted_page) eff" where
  "disk_read_page crc pid =
     eff_bind disk_page_count (\<lambda>page_count.
     eff_guard (page_count \<le> unat pid) E_XX001 (
     eff_bind (eff_res (page_offset pid)) (\<lambda>offset.
     eff_bind (df_read offset PAGE_SIZE) (\<lambda>bs.
       eff_res (page_from_bytes crc bs pid)))))"

definition disk_write_page :: "(u8 list \<Rightarrow> u32) \<Rightarrow> slotted_page \<Rightarrow> (disk_manager, unit) eff" where
  "disk_write_page crc page =
     eff_bind ensure_writable (\<lambda>_.
     eff_bind (eff_res (page_validate crc page)) (\<lambda>_.
     eff_bind disk_page_count (\<lambda>page_count.
     eff_guard (page_count < unat (page_id_of page)) E_XX001 (
     eff_bind (eff_res (page_offset (page_id_of page))) (\<lambda>offset.
       df_write offset (sealed_bytes page))))))"

definition disk_truncate_pages :: "u64 \<Rightarrow> (disk_manager, unit) eff" where
  "disk_truncate_pages page_count =
     eff_bind ensure_writable (\<lambda>_.
     eff_bind (eff_res (page_offset page_count)) df_set_len)"

definition disk_sync_all :: "(disk_manager, unit) eff" where
  "disk_sync_all = df_sync_all"

section \<open>The file under recovery\<close>

record recovery_file_state =
  fs_complete_page_count :: nat
  fs_has_partial_tail :: bool

definition file_state :: "nat \<Rightarrow> recovery_file_state" where
  "file_state n = \<lparr>fs_complete_page_count = n div PAGE_SIZE, fs_has_partial_tail = (n mod PAGE_SIZE \<noteq> 0)\<rparr>"

definition logical_page_count :: "recovery_file_state \<Rightarrow> nat" where
  "logical_page_count st = fs_complete_page_count st + (if fs_has_partial_tail st then 1 else 0)"

text \<open>The plan lies beside the file: the target page count and the pages to update.\<close>

record recovery_file = data_file +
  rf_target :: u64
  rf_updates :: "page_id btree_set"

definition inspect_file :: "('a data_file_scheme, recovery_file_state) eff" where
  "inspect_file = eff_get (\<lambda>s. file_state (length (df_bytes s)))"

text \<open>\<open>RecoveryDataFile::inspect\<close>; a missing file has no pages.\<close>

definition rf_inspect :: "u8 list option \<Rightarrow> recovery_file_state" where
  "rf_inspect file = file_state (case file of None \<Rightarrow> 0 | Some bs \<Rightarrow> length bs)"

definition rf_open :: "u64 \<Rightarrow> page_id btree_set \<Rightarrow> (recovery_file, unit) eff" where
  "rf_open target updates =
     eff_bind (df_call (\<lambda>s. s\<lparr>rf_target := target, rf_updates := updates\<rparr>)) (\<lambda>_.
     eff_bind inspect_file (\<lambda>st.
     eff_guard (fs_has_partial_tail st \<and> \<not> unat target \<le> fs_complete_page_count st \<and>
         \<not> bs_mem (of_nat (fs_complete_page_count st)) updates) E_XX001 (
     eff_bind (eff_res (page_offset target)) (\<lambda>_. eff_return ()))))"

definition rf_read_page :: "(u8 list \<Rightarrow> u32) \<Rightarrow> page_id \<Rightarrow> (recovery_file, slotted_page option) eff" where
  "rf_read_page crc pid =
     eff_bind inspect_file (\<lambda>st.
     eff_bind (eff_get rf_updates) (\<lambda>updates.
     if fs_complete_page_count st \<le> unat pid then
       (if unat pid = fs_complete_page_count st \<and> fs_has_partial_tail st \<and> bs_mem pid updates then eff_return None
        else if logical_page_count st \<le> unat pid \<and> bs_mem pid updates then eff_return None
        else eff_fail E_XX001)
     else
       eff_bind (eff_res (page_offset pid)) (\<lambda>offset.
       eff_bind (df_read offset PAGE_SIZE) (\<lambda>bs.
         case page_from_bytes crc bs pid of
           Inr page \<Rightarrow> eff_return (Some page)
         | Inl e \<Rightarrow> if bs_mem pid updates then eff_return None else eff_fail e))))"

definition rf_apply_page :: "(u8 list \<Rightarrow> u32) \<Rightarrow> slotted_page \<Rightarrow> (recovery_file, unit) eff" where
  "rf_apply_page crc page =
     eff_bind (eff_res (page_validate crc page)) (\<lambda>_.
     eff_bind (eff_get rf_updates) (\<lambda>updates.
     eff_guard (\<not> bs_mem (page_id_of page) updates) E_XX001 (
     eff_bind inspect_file (\<lambda>st.
     eff_guard (fs_complete_page_count st < unat (page_id_of page)) E_XX001 (
     eff_bind (eff_res (page_offset (page_id_of page))) (\<lambda>offset.
       df_write offset (sealed_bytes page)))))))"

definition rf_resize_pages :: "u64 \<Rightarrow> (recovery_file, unit) eff" where
  "rf_resize_pages page_count = eff_bind (eff_res (page_offset page_count)) df_set_len"

definition rf_sync_all :: "(recovery_file, unit) eff" where
  "rf_sync_all = df_sync_all"

definition validate_page_at :: "(u8 list \<Rightarrow> u32) \<Rightarrow> nat \<Rightarrow> (recovery_file, unit) eff" where
  "validate_page_at crc i =
     eff_bind (eff_res (page_offset (of_nat i))) (\<lambda>offset.
     eff_bind (df_read offset PAGE_SIZE) (\<lambda>bs.
     eff_bind (eff_res (page_from_bytes crc bs (of_nat i))) (\<lambda>_. eff_return ())))"

definition rf_finish :: "(u8 list \<Rightarrow> u32) \<Rightarrow> (recovery_file, unit) eff" where
  "rf_finish crc =
     eff_bind inspect_file (\<lambda>st.
     eff_bind (eff_get rf_target) (\<lambda>target.
     eff_guard (fs_has_partial_tail st \<or> fs_complete_page_count st \<noteq> unat target) E_XX001 (
     eff_bind (eff_each (validate_page_at crc) [0..<fs_complete_page_count st]) (\<lambda>_. rf_sync_all))))"

section \<open>Pages of a file\<close>

lemma page_offset_Ok: "page_offset pid = Inr n \<longleftrightarrow> n = unat pid * PAGE_SIZE \<and> unat pid * PAGE_SIZE < 2 ^ 64"
  by (auto simp: page_offset_def checked_mul_u64_def res_simps unat_word_ariths)

definition whole :: "u8 list \<Rightarrow> bool" where
  "whole bs \<longleftrightarrow> length bs mod PAGE_SIZE = 0"

lemma whole_length: "whole bs \<Longrightarrow> length bs = page_total bs * PAGE_SIZE"
  by (simp add: whole_def page_total_def minus_mod_eq_div_mult [symmetric])

lemma page_at_length: "i < page_total bs \<Longrightarrow> length (page_at bs i) = PAGE_SIZE"
  by (simp add: page_at_def page_total_def less_eq_div_iff_mult_less_eq Suc_le_eq [symmetric])

text \<open>Writing a page, complete or torn, changes that page only.\<close>

lemma write_page_at:
  assumes w: "whole f" and i: "i \<le> page_total f" and len: "length bs = PAGE_SIZE"
  shows "whole (splice (i * PAGE_SIZE) bs f)" and "page_total (splice (i * PAGE_SIZE) bs f) = max (page_total f) (Suc i)"
    and "page_at (splice (i * PAGE_SIZE) bs f) i = bs"
    and "j \<noteq> i \<Longrightarrow> j < page_total f \<Longrightarrow> page_at (splice (i * PAGE_SIZE) bs f) j = page_at f j"
proof -
  note l = whole_length [OF w]
  have "length (splice (i * PAGE_SIZE) bs f) = max (page_total f) (Suc i) * PAGE_SIZE"
    using i len l by (simp add: splice_def max_def)
  then show "whole (splice (i * PAGE_SIZE) bs f)" "page_total (splice (i * PAGE_SIZE) bs f) = max (page_total f) (Suc i)"
    by (simp_all add: whole_def page_total_def)
  show "page_at (splice (i * PAGE_SIZE) bs f) i = bs"
    using i len l by (simp add: page_at_def slice_def splice_def)
  assume j: "j \<noteq> i" "j < page_total f"
  show "page_at (splice (i * PAGE_SIZE) bs f) j = page_at f j"
  proof (cases "j < i")
    case True
    then have "j * PAGE_SIZE + PAGE_SIZE \<le> i * PAGE_SIZE" by simp
    with i l show ?thesis by (simp add: page_at_def slice_def splice_def take_drop min_def)
  next
    case False
    with j have "i * PAGE_SIZE + PAGE_SIZE \<le> j * PAGE_SIZE" by simp
    with i len l show ?thesis by (simp add: page_at_def slice_def splice_def)
  qed
qed

lemma torn_page_at:
  assumes w: "whole f" and i: "i \<le> page_total f" and len: "length bs \<le> PAGE_SIZE" and j: "j \<noteq> i" "j < page_total f"
  shows "page_at (splice (i * PAGE_SIZE) bs f) j = page_at f j"
proof (cases "j < i")
  case True
  then have "j * PAGE_SIZE + PAGE_SIZE \<le> i * PAGE_SIZE" by simp
  with i whole_length [OF w] show ?thesis by (simp add: page_at_def slice_def splice_def take_drop min_def)
next
  case False
  with j have "i * PAGE_SIZE + PAGE_SIZE \<le> j * PAGE_SIZE" by simp
  with i len whole_length [OF w] show ?thesis by (simp add: page_at_def slice_def splice_def add.commute)
qed

lemma resize_page_at:
  fixes n :: nat and f :: "u8 list"
  defines "g \<equiv> take (n * PAGE_SIZE) f @ replicate (n * PAGE_SIZE - length f) 0"
  shows "whole g" and "page_total g = n" and "i < n \<Longrightarrow> i < page_total f \<Longrightarrow> page_at g i = page_at f i"
    and "i < n \<Longrightarrow> page_total f < i \<Longrightarrow> page_at g i = replicate PAGE_SIZE 0"
    and "whole f \<Longrightarrow> i < n \<Longrightarrow> page_total f \<le> i \<Longrightarrow> page_at g i = replicate PAGE_SIZE 0"
proof -
  have "length g = n * PAGE_SIZE" by (simp add: g_def)
  then show "whole g" "page_total g = n" by (simp_all add: whole_def page_total_def)
  have r: "i * PAGE_SIZE + PAGE_SIZE \<le> n * PAGE_SIZE" if "i < n"
  proof -
    have "Suc i * PAGE_SIZE \<le> n * PAGE_SIZE" using that by (intro mult_le_mono1) simp
    then show ?thesis by simp
  qed
  have t: "length f < (page_total f + 1) * PAGE_SIZE" "page_total f * PAGE_SIZE \<le> length f"
    by (simp_all add: page_total_def dividend_less_div_times)
  show "page_at g i = page_at f i" if "i < n" "i < page_total f"
  proof -
    have "Suc i * PAGE_SIZE \<le> page_total f * PAGE_SIZE" using that by (intro mult_le_mono1) simp
    then have "i * PAGE_SIZE + PAGE_SIZE \<le> length f" using t(2) by simp
    with r [OF that(1)] show ?thesis by (simp add: g_def page_at_def slice_def take_drop min_def)
  qed
  have zero: "page_at g i = replicate PAGE_SIZE 0" if "i < n" "length f \<le> i * PAGE_SIZE"
    using r [OF that(1)] that(2) by (simp add: g_def page_at_def slice_def)
  show "page_at g i = replicate PAGE_SIZE 0" if "i < n" "page_total f < i"
  proof -
    have "(page_total f + 1) * PAGE_SIZE \<le> i * PAGE_SIZE" using that by (intro mult_le_mono1) simp
    with t(1) zero that show ?thesis by simp
  qed
  show "page_at g i = replicate PAGE_SIZE 0" if "whole f" "i < n" "page_total f \<le> i"
  proof -
    have "page_total f * PAGE_SIZE \<le> i * PAGE_SIZE" using that by (intro mult_le_mono1) simp
    with whole_length [OF that(1)] zero that show ?thesis by simp
  qed
qed

end
