(* ===== verification/Buffer.thy ===== *)
theory Buffer
  imports Disk BTreeMap "HOL-Library.Product_Lexorder"
begin

text \<open>
  The buffer pool, crates/ordadb-storage/src/buffer.rs: frames of pages with pin counts and
  the LRU-K history, eviction, and the write-back of dirty pages behind the durability
  barrier. What a program sees through the pool is its view; the operations are shown not to
  change it except where they are meant to, whatever fails underneath.

  The barrier is the parameter \<open>flush\<close> with a state \<open>'w\<close> of its own beside the pool. Each
  method takes the mutex once and is one step. A \<open>PageGuard\<close> is the id of its page.
\<close>

section \<open>State\<close>

record frame =
  fr_page :: slotted_page
  fr_pin_count :: nat
  fr_dirty :: bool
  fr_history :: "u64 list"

record buffer_pool =
  bp_disk :: disk_manager
  bp_capacity :: nat
  bp_k :: nat
  bp_clock :: u64
  bp_frames :: "(page_id, frame) btree_map"

type_synonym ('w, 'a) pool_eff = "('w \<times> buffer_pool, 'a) eff"

definition pool_get :: "(buffer_pool \<Rightarrow> 'a) \<Rightarrow> ('w, 'a) pool_eff" where
  "pool_get h = eff_get (\<lambda>s. h (snd s))"

definition pool_put :: "(buffer_pool \<Rightarrow> buffer_pool) \<Rightarrow> ('w, unit) pool_eff" where
  "pool_put g = eff_put (\<lambda>s. (fst s, g (snd s)))"

definition pool_disk :: "(disk_manager, 'a) eff \<Rightarrow> ('w, 'a) pool_eff" where
  "pool_disk f = on_snd (eff_on bp_disk (\<lambda>d p. p\<lparr>bp_disk := d\<rparr>) f)"

definition put_frames :: "((page_id, frame) btree_map \<Rightarrow> (page_id, frame) btree_map) \<Rightarrow> ('w, unit) pool_eff" where
  "put_frames g = pool_put (\<lambda>p. p\<lparr>bp_frames := g (bp_frames p)\<rparr>)"

definition pool_new :: "disk_manager \<Rightarrow> nat \<Rightarrow> buffer_pool res" where
  "pool_new disk capacity =
     guard_res (capacity = 0) E_22023
       (Inr \<lparr>bp_disk = disk, bp_capacity = capacity, bp_k = 2, bp_clock = 0, bp_frames = bm_empty\<rparr>)"

section \<open>Frames\<close>

definition record_access :: "u64 \<Rightarrow> nat \<Rightarrow> frame \<Rightarrow> frame" where
  "record_access access k f =
     (let h = fr_history f @ [access] in f\<lparr>fr_history := drop (length h - k) h\<rparr>)"

definition victim_key :: "nat \<Rightarrow> page_id \<Rightarrow> frame \<Rightarrow> nat \<times> u64 \<times> page_id" where
  "victim_key k pid f =
     (let h = fr_history f in
      if length h < k then (0, if h = [] then 0 else hd h, pid)
      else (1, if k = 0 then 0 else h ! (length h - k), pid))"

definition choose_victim :: "buffer_pool \<Rightarrow> page_id option" where
  "choose_victim p =
     map_option (\<lambda>(_, _, pid). pid)
       (list_min (map (\<lambda>(pid, f). victim_key (bp_k p) pid f) (filter (\<lambda>(_, f). fr_pin_count f = 0) (bm_list (bp_frames p)))))"

text \<open>What \<open>flush_page_locked\<close> and \<open>flush_frame\<close> do with a dirty page.\<close>

definition write_back :: "(u8 list \<Rightarrow> u32) \<Rightarrow> (u64 \<Rightarrow> ('w, unit) eff) \<Rightarrow> slotted_page \<Rightarrow> ('w, unit) pool_eff" where
  "write_back crc flush page =
     eff_bind (on_fst (flush (page_lsn page))) (\<lambda>_. pool_disk (disk_write_page crc page))"

definition flush_page_locked :: "(u8 list \<Rightarrow> u32) \<Rightarrow> (u64 \<Rightarrow> ('w, unit) eff) \<Rightarrow> page_id \<Rightarrow> ('w, unit) pool_eff" where
  "flush_page_locked crc flush pid =
     eff_bind (pool_get (\<lambda>p. bm_get (bp_frames p) pid)) (\<lambda>frame.
     case frame of
       None \<Rightarrow> eff_fail E_XX001
     | Some f \<Rightarrow>
         if \<not> fr_dirty f then eff_return ()
         else eff_bind (write_back crc flush (fr_page f)) (\<lambda>_.
           put_frames (\<lambda>fs. case bm_get fs pid of None \<Rightarrow> fs | Some f \<Rightarrow> bm_insert pid (f\<lparr>fr_dirty := False\<rparr>) fs)))"

definition flush_frame :: "(u8 list \<Rightarrow> u32) \<Rightarrow> (u64 \<Rightarrow> ('w, unit) eff) \<Rightarrow> frame \<Rightarrow> ('w, unit) pool_eff" where
  "flush_frame crc flush f = (if fr_dirty f then write_back crc flush (fr_page f) else eff_return ())"

definition ensure_capacity :: "(u8 list \<Rightarrow> u32) \<Rightarrow> (u64 \<Rightarrow> ('w, unit) eff) \<Rightarrow> ('w, unit) pool_eff" where
  "ensure_capacity crc flush =
     eff_bind (pool_get (\<lambda>p. p)) (\<lambda>p.
     if bm_len (bp_frames p) < bp_capacity p then eff_return ()
     else eff_bind (eff_res (ok_or E_53000 (choose_victim p))) (\<lambda>victim.
       eff_bind (eff_res (ok_or E_XX000 (bm_get (bp_frames p) victim))) (\<lambda>f.
       eff_bind (put_frames (bm_remove victim)) (\<lambda>_.
         eff_on_error (flush_frame crc flush f)
           (\<lambda>s. (fst s, (snd s)\<lparr>bp_frames := bm_insert victim f (bp_frames (snd s))\<rparr>))))))"

section \<open>Operations of the pool\<close>

definition pool_tick :: "('w, u64) pool_eff" where
  "pool_tick =
     eff_bind (pool_put (\<lambda>p. p\<lparr>bp_clock := saturating_add_u64 (bp_clock p) 1\<rparr>)) (\<lambda>_. pool_get bp_clock)"

definition pool_fetch :: "(u8 list \<Rightarrow> u32) \<Rightarrow> (u64 \<Rightarrow> ('w, unit) eff) \<Rightarrow> page_id \<Rightarrow> ('w, page_id) pool_eff" where
  "pool_fetch crc flush pid =
     eff_bind pool_tick (\<lambda>access.
     eff_bind (pool_get (\<lambda>p. p)) (\<lambda>p.
     eff_bind (case bm_get (bp_frames p) pid of
         Some f \<Rightarrow> put_frames (bm_insert pid
           (record_access access (bp_k p) (f\<lparr>fr_pin_count := min (fr_pin_count f + 1) usize_max\<rparr>)))
       | None \<Rightarrow>
           eff_bind (ensure_capacity crc flush) (\<lambda>_.
           eff_bind (pool_disk (disk_read_page crc pid)) (\<lambda>page.
             put_frames (bm_insert pid
               \<lparr>fr_page = page, fr_pin_count = 1, fr_dirty = False, fr_history = [access]\<rparr>)))) (\<lambda>_.
       eff_return pid)))"

definition pool_install ::
  "(u8 list \<Rightarrow> u32) \<Rightarrow> (u64 \<Rightarrow> ('w, unit) eff) \<Rightarrow> slotted_page \<Rightarrow> bool \<Rightarrow> ('w, unit) pool_eff" where
  "pool_install crc flush page dirty =
     eff_bind (eff_res (page_validate crc page)) (\<lambda>_.
     let pid = page_id_of page in
     eff_bind (pool_get (\<lambda>p. bm_contains (bp_frames p) pid)) (\<lambda>resident.
     eff_guard resident E_55000 (
     eff_bind (ensure_capacity crc flush) (\<lambda>_.
     eff_bind pool_tick (\<lambda>access.
       put_frames (bm_insert pid
         \<lparr>fr_page = page, fr_pin_count = 0, fr_dirty = dirty, fr_history = [access]\<rparr>))))))"

definition pool_flush_page :: "(u8 list \<Rightarrow> u32) \<Rightarrow> (u64 \<Rightarrow> ('w, unit) eff) \<Rightarrow> page_id \<Rightarrow> ('w, unit) pool_eff" where
  "pool_flush_page = flush_page_locked"

definition pool_flush_all :: "(u8 list \<Rightarrow> u32) \<Rightarrow> (u64 \<Rightarrow> ('w, unit) eff) \<Rightarrow> ('w, unit) pool_eff" where
  "pool_flush_all crc flush =
     eff_bind (pool_get (\<lambda>p. bm_keys (bp_frames p))) (eff_each (flush_page_locked crc flush))"

definition pool_reset_storage :: "('w, unit) pool_eff" where
  "pool_reset_storage =
     eff_bind (pool_get bp_frames) (\<lambda>frames.
     eff_guard (list_ex (\<lambda>f. 0 < fr_pin_count f) (bm_values frames)) E_55000 (
     eff_bind (pool_put (\<lambda>p. p\<lparr>bp_frames := bm_empty, bp_clock := 0\<rparr>)) (\<lambda>_.
       pool_disk (disk_truncate_pages 0))))"

definition pool_invalidate_pages :: "page_id list \<Rightarrow> ('w, unit) pool_eff" where
  "pool_invalidate_pages pids =
     eff_bind (pool_get bp_frames) (\<lambda>frames.
     eff_guard (list_ex (\<lambda>pid. case bm_get frames pid of None \<Rightarrow> False | Some f \<Rightarrow> 0 < fr_pin_count f) pids) E_55000
       (put_frames (fold bm_remove pids)))"

definition pool_resize_pages :: "u64 \<Rightarrow> ('w, unit) pool_eff" where
  "pool_resize_pages page_count =
     eff_bind (pool_get bp_frames) (\<lambda>frames.
     eff_guard (list_ex (\<lambda>(pid, f). page_count \<le> pid \<and> 0 < fr_pin_count f) (bm_list frames)) E_55000 (
     eff_bind (put_frames (bm_retain (\<lambda>pid _. pid < page_count))) (\<lambda>_.
       pool_disk (disk_truncate_pages page_count))))"

definition pool_sync_all :: "('w, unit) pool_eff" where
  "pool_sync_all = pool_disk disk_sync_all"

definition pool_page_count :: "('w, nat) pool_eff" where
  "pool_page_count = pool_disk disk_page_count"

section \<open>Operations of a page guard\<close>

definition guard_frame :: "page_id \<Rightarrow> ('w, frame) pool_eff" where
  "guard_frame pid = eff_bind (pool_get (\<lambda>p. bm_get (bp_frames p) pid)) (\<lambda>f. eff_res (ok_or E_XX000 f))"

definition page_guard_snapshot :: "page_id \<Rightarrow> ('w, slotted_page) pool_eff" where
  "page_guard_snapshot pid = eff_bind (guard_frame pid) (\<lambda>f. eff_return (fr_page f))"

definition page_guard_replace :: "(u8 list \<Rightarrow> u32) \<Rightarrow> page_id \<Rightarrow> slotted_page \<Rightarrow> ('w, unit) pool_eff" where
  "page_guard_replace crc pid page =
     eff_guard (page_id_of page \<noteq> pid) E_22023 (
     eff_bind (eff_res (page_validate crc page)) (\<lambda>_.
     eff_bind (guard_frame pid) (\<lambda>f.
       put_frames (bm_insert pid (f\<lparr>fr_page := page, fr_dirty := True\<rparr>)))))"

definition page_guard_insert_record :: "(u8 list \<Rightarrow> u32) \<Rightarrow> page_id \<Rightarrow> u8 list \<Rightarrow> ('w, u16 option) pool_eff" where
  "page_guard_insert_record crc pid rec =
     eff_bind (guard_frame pid) (\<lambda>f.
     case page_insert crc rec (fr_page f) of (r, page) \<Rightarrow>
     eff_bind (put_frames (bm_insert pid (f\<lparr>fr_page := page\<rparr>))) (\<lambda>_.
     eff_bind (eff_res r) (\<lambda>slot.
     eff_bind (if slot \<noteq> None then put_frames (bm_insert pid (f\<lparr>fr_page := page, fr_dirty := True\<rparr>)) else eff_return ())
       (\<lambda>_. eff_return slot))))"

definition page_guard_mark_dirty :: "page_id \<Rightarrow> ('w, unit) pool_eff" where
  "page_guard_mark_dirty pid =
     eff_bind (guard_frame pid) (\<lambda>f. put_frames (bm_insert pid (f\<lparr>fr_dirty := True\<rparr>)))"

definition page_guard_drop :: "page_id \<Rightarrow> ('w, unit) pool_eff" where
  "page_guard_drop pid =
     put_frames (\<lambda>fs. case bm_get fs pid of
       None \<Rightarrow> fs
     | Some f \<Rightarrow> bm_insert pid (f\<lparr>fr_pin_count := fr_pin_count f - 1\<rparr>) fs)"

text \<open>\<open>NoWalBarrier\<close>, the barrier of a store without a log.\<close>

definition no_wal_flush_through :: "u64 \<Rightarrow> (unit, unit) eff" where
  "no_wal_flush_through l = (if l \<noteq> 0 then eff_fail E_55000 else eff_return ())"

end
