(* ===== verification/BufferSafety.thy ===== *)
theory BufferSafety
  imports Buffer "HOL-Library.Multiset"
begin

text \<open>
  What the buffer pool promises: the view through the cache is that of a plain map of pages,
  pinned pages stay resident, and no page reaches the file before its log record. The callers
  keep to the contract \<open>op_legal\<close>.
\<close>

section \<open>Writing a page to the disk\<close>

definition disk_view :: "(u8 list \<Rightarrow> u32) \<Rightarrow> 'a data_file_scheme \<Rightarrow> page_id \<Rightarrow> slotted_page option" where
  "disk_view crc d pid =
     (if unat pid < page_total (df_bytes d) then
        (case page_from_bytes crc (page_at (df_bytes d) (unat pid)) pid of Inr pg \<Rightarrow> Some pg | Inl _ \<Rightarrow> None)
      else None)"

text \<open>\<open>page_sound\<close>: a page that passes \<open>validate\<close> under its own id.\<close>

definition page_sound :: "(u8 list \<Rightarrow> u32) \<Rightarrow> page_id \<Rightarrow> slotted_page \<Rightarrow> bool" where
  "page_sound crc pid pg \<longleftrightarrow> page_from_bytes crc (pg_bytes pg) pid = Inr pg"

lemma page_sound_iff: "page_sound crc pid pg \<longleftrightarrow> page_valid crc pid (pg_bytes pg)"
  using validate_page_iff [of "pg_bytes pg" crc pid] by (auto simp: page_sound_def page_from_bytes_def res_simps page_valid_length)

lemma page_soundD:
  assumes "page_sound crc pid pg"
  shows "page_id_of pg = pid" "length (pg_bytes pg) = PAGE_SIZE"
  using assms by (auto simp: page_sound_iff page_valid_def page_id_of_def)

lemma page_from_bytes_sound: "page_from_bytes crc bs pid = Inr pg \<Longrightarrow> page_sound crc pid pg \<and> pg_bytes pg = bs"
  by (auto simp: page_sound_def page_from_bytes_def res_simps)

lemma disk_view_io [simp]: "disk_view crc (d\<lparr>df_io := os\<rparr>) = disk_view crc d"
  by (simp add: disk_view_def fun_eq_iff)

lemma page_validate_sound:
  "page_validate crc page = Inr () \<Longrightarrow> length (pg_bytes page) = PAGE_SIZE \<Longrightarrow> page_sound crc (page_id_of page) page"
  by (simp add: page_sound_def page_from_bytes_def page_validate_def)

lemma disk_view_sound: "disk_view crc d pid = Some pg \<Longrightarrow> page_sound crc pid pg"
  by (auto simp: disk_view_def page_from_bytes_sound split: if_splits sum.splits)

lemma disk_write_cases:
  assumes "disk_write_page crc page d = (r, d')"
  obtains e where "r = Inl e" and "d' = d"
  | os where "r = Inr ()" and "d' = d\<lparr>df_io := os, df_bytes := splice (unat (page_id_of page) * PAGE_SIZE) (pg_bytes page) (df_bytes d)\<rparr>"
    and "next_io (df_io d) = (IoOk, os)" and "whole (df_bytes d)" and "unat (page_id_of page) \<le> page_total (df_bytes d)"
  | e os n where "r = Inl e" and "next_io (df_io d) = (IoFail n, os)"
    and "d' = d\<lparr>df_io := os, df_bytes := splice (unat (page_id_of page) * PAGE_SIZE) (take n (pg_bytes page)) (df_bytes d)\<rparr>"
    and "whole (df_bytes d)" and "unat (page_id_of page) \<le> page_total (df_bytes d)"
proof (cases "dm_read_only d \<or> page_validate crc page \<noteq> Inr () \<or> \<not> whole (df_bytes d) \<or>
    page_total (df_bytes d) < unat (page_id_of page) \<or> \<not> is_ok (page_offset (page_id_of page))")
  case True
  have "\<exists>e. (r, d') = (Inl e, d)"
    using assms [symmetric] True
    by (cases "page_validate crc page"; cases "page_offset (page_id_of page)")
      (auto simp: disk_write_page_def ensure_writable_def disk_page_count_def whole_def eff_bind_def eff_guard_def split: if_splits)
  then show ?thesis using that(1) by auto
next
  case False
  then obtain off where off: "page_offset (page_id_of page) = Inr off" by (auto simp: is_ok_iff)
  then have off': "off = unat (page_id_of page) * PAGE_SIZE" by (simp add: page_offset_Ok)
  obtain x os where io: "next_io (df_io d) = (x, os)" by (cases "next_io (df_io d)")
  have *: "disk_write_page crc page d = df_write off (sealed_bytes page) d"
    using False off by (simp add: disk_write_page_def ensure_writable_def disk_page_count_def whole_def eff_bind_def eff_guard_def)
  show ?thesis
  proof (cases x)
    case IoOk
    with assms io False that(2) [of os] show ?thesis
      by (simp add: * df_write_def df_next_io_def eff_bind_def off' sealed_bytes_def)
  next
    case (IoFail n)
    with assms io False that(3) [of E_58030 n os] show ?thesis
      by (simp add: * df_write_def df_next_io_def eff_bind_def off' sealed_bytes_def)
  qed
qed

lemma disk_write_view:
  assumes w: "disk_write_page crc page d = (r, d')" and s: "page_sound crc pid page"
  shows "pid' \<noteq> pid \<Longrightarrow> disk_view crc d' pid' = disk_view crc d pid'"
    and "r = Inr () \<Longrightarrow> disk_view crc d' pid = Some page"
proof -
  note P = page_soundD [OF s]
  have cong: "disk_view crc d' q = disk_view crc d q"
    if "unat q < page_total (df_bytes d') \<longleftrightarrow> unat q < page_total (df_bytes d)"
      "unat q < page_total (df_bytes d) \<Longrightarrow> page_at (df_bytes d') (unat q) = page_at (df_bytes d) (unat q)" for q
    using that by (simp add: disk_view_def)
  have ne: "unat pid' \<noteq> unat pid" if "pid' \<noteq> pid" using that by (simp add: unat_eq_iff)
  show "disk_view crc d' pid' = disk_view crc d pid'" if "pid' \<noteq> pid"
    using w
  proof (cases rule: disk_write_cases)
    case (1 e)
    then show ?thesis by (intro cong) simp_all
  next
    case (2 os)
    with write_page_at [OF 2(4) 2(5) P(2)] ne [OF that] P(1) show ?thesis by (intro cong) auto
  next
    case (3 e os n)
    have "length (splice (unat pid * PAGE_SIZE) (take n (pg_bytes page)) (df_bytes d)) =
        max (length (df_bytes d)) (unat pid * PAGE_SIZE + min n PAGE_SIZE)"
      using 3(5) P whole_length [OF 3(4)] by (auto simp: splice_def max_def min_def)
    then have "page_total (df_bytes d') \<le> max (page_total (df_bytes d)) (Suc (unat pid))"
      "page_total (df_bytes d) \<le> page_total (df_bytes d')"
      using 3(3) P(1) by (auto simp: page_total_def max_def min_def div_le_mono less_Suc_eq_le split: if_splits)
    then have "unat pid' < page_total (df_bytes d') \<longleftrightarrow> unat pid' < page_total (df_bytes d)"
      using ne [OF that] 3(5) P(1) by (auto simp: max_def split: if_splits)
    moreover have "page_at (df_bytes d') (unat pid') = page_at (df_bytes d) (unat pid')" if "unat pid' < page_total (df_bytes d)"
      using torn_page_at [OF 3(4,5), of "take n (pg_bytes page)" "unat pid'"] 3(3) ne [OF \<open>pid' \<noteq> pid\<close>] P that by simp
    ultimately show ?thesis by (rule cong)
  qed
  show "disk_view crc d' pid = Some page" if "r = Inr ()"
    using w
  proof (cases rule: disk_write_cases)
    case (2 os)
    from write_page_at(2,3) [OF 2(4) 2(5) P(2)] P(1) 2(2)
    have "unat pid < page_total (df_bytes d')" "page_at (df_bytes d') (unat pid) = pg_bytes page" by simp_all
    with s show ?thesis by (simp add: disk_view_def page_sound_def)
  qed (use that in simp_all)
qed

section \<open>The view through the cache\<close>

definition pool_view :: "(u8 list \<Rightarrow> u32) \<Rightarrow> buffer_pool \<Rightarrow> page_id \<Rightarrow> slotted_page option" where
  "pool_view crc p pid =
     (case bm_get (bp_frames p) pid of Some f \<Rightarrow> Some (fr_page f) | None \<Rightarrow> disk_view crc (bp_disk p) pid)"

definition pool_inv :: "(u8 list \<Rightarrow> u32) \<Rightarrow> buffer_pool \<Rightarrow> bool" where
  "pool_inv crc p \<longleftrightarrow> 0 < bp_capacity p \<and> bm_len (bp_frames p) \<le> bp_capacity p \<and>
     (\<forall>pid f. bm_get (bp_frames p) pid = Some f \<longrightarrow> page_sound crc pid (fr_page f) \<and>
        (\<not> fr_dirty f \<longrightarrow> disk_view crc (bp_disk p) pid = Some (fr_page f)))"

lemma pool_invD:
  assumes "pool_inv crc p"
  shows "0 < bp_capacity p" "bm_len (bp_frames p) \<le> bp_capacity p"
    "bm_get (bp_frames p) pid = Some f \<Longrightarrow> page_sound crc pid (fr_page f)"
    "bm_get (bp_frames p) pid = Some f \<Longrightarrow> \<not> fr_dirty f \<Longrightarrow> disk_view crc (bp_disk p) pid = Some (fr_page f)"
  using assms unfolding pool_inv_def by blast+

lemma pool_invI:
  assumes "0 < bp_capacity p" "bm_len (bp_frames p) \<le> bp_capacity p"
    "\<And>pid f. bm_get (bp_frames p) pid = Some f \<Longrightarrow> page_sound crc pid (fr_page f)"
    "\<And>pid f. bm_get (bp_frames p) pid = Some f \<Longrightarrow> \<not> fr_dirty f \<Longrightarrow> disk_view crc (bp_disk p) pid = Some (fr_page f)"
  shows "pool_inv crc p"
  using assms unfolding pool_inv_def by blast

lemmas pool_simps = pool_get_def pool_put_def pool_disk_def put_frames_def on_snd_def on_fst_def eff_on_def

lemma write_back_effect:
  assumes w: "write_back crc flush page (w, p) = (r, s')" and s: "page_sound crc pid page"
  obtains d where "snd s' = p\<lparr>bp_disk := d\<rparr>" and "\<And>pid'. pid' \<noteq> pid \<Longrightarrow> disk_view crc d pid' = disk_view crc (bp_disk p) pid'"
    and "r = Inr () \<Longrightarrow> disk_view crc d pid = Some page"
proof -
  obtain r1 w1 where f: "flush (page_lsn page) w = (r1, w1)" by (cases "flush (page_lsn page) w")
  show thesis
  proof (cases r1)
    case (Inl e)
    with w f have "r = Inl e" "s' = (w1, p)" by (simp_all add: write_back_def eff_bind_def pool_simps)
    then show thesis by (intro that [of "bp_disk p"]) simp_all
  next
    case (Inr x)
    obtain r2 d where d: "disk_write_page crc page (bp_disk p) = (r2, d)" by (cases "disk_write_page crc page (bp_disk p)")
    with w f Inr have "r = r2" "s' = (w1, p\<lparr>bp_disk := d\<rparr>)" by (simp_all add: write_back_def eff_bind_def pool_simps)
    with disk_write_view [OF d s] show thesis by (intro that [of d]) simp_all
  qed
qed


text \<open>What a step of the pool may do: keep the invariant, and change the view as \<open>h\<close> says.\<close>

definition pool_to :: "(u8 list \<Rightarrow> u32) \<Rightarrow> buffer_pool \<Rightarrow> ((page_id \<Rightarrow> slotted_page option) \<Rightarrow> page_id \<Rightarrow> slotted_page option) \<Rightarrow> buffer_pool \<Rightarrow> bool" where
  "pool_to crc p h p' \<longleftrightarrow> (pool_inv crc p \<longrightarrow> pool_inv crc p' \<and> pool_view crc p' = h (pool_view crc p))"

abbreviation pool_keeps :: "(u8 list \<Rightarrow> u32) \<Rightarrow> buffer_pool \<Rightarrow> buffer_pool \<Rightarrow> bool" where
  "pool_keeps crc p p' \<equiv> pool_to crc p (\<lambda>v. v) p'"

lemma pool_keeps_refl: "pool_keeps crc p p"
  by (simp add: pool_to_def)

lemma pool_to_trans: "pool_keeps crc p p' \<Longrightarrow> pool_to crc p' h p'' \<Longrightarrow> pool_to crc p h p''"
  by (simp add: pool_to_def)

text \<open>A new version of a resident frame.\<close>

lemma pool_update_frame:
  assumes "bm_get (bp_frames p) pid = Some f" and "page_sound crc pid (fr_page f')"
    and "pool_inv crc p \<Longrightarrow> \<not> fr_dirty f' \<Longrightarrow> disk_view crc (bp_disk p) pid = Some (fr_page f')"
  shows "pool_to crc p (\<lambda>v. v(pid := Some (fr_page f'))) (p\<lparr>bp_frames := bm_insert pid f' (bp_frames p)\<rparr>)"
proof -
  have "pool_inv crc (p\<lparr>bp_frames := bm_insert pid f' (bp_frames p)\<rparr>)" if inv: "pool_inv crc p"
    using assms pool_invD [OF inv] inv
    by (intro pool_invI) (auto simp: bm_len_insert bm_contains_def split: if_splits)
  then show ?thesis by (auto simp: pool_to_def pool_view_def fun_eq_iff split: option.split)
qed

lemma pool_same_page:
  assumes "bm_get (bp_frames p) pid = Some f" and "fr_page f' = fr_page f" and "fr_dirty f \<longrightarrow> fr_dirty f'"
  shows "pool_keeps crc p (p\<lparr>bp_frames := bm_insert pid f' (bp_frames p)\<rparr>)"
proof -
  have "pool_to crc p (\<lambda>v. v(pid := Some (fr_page f'))) (p\<lparr>bp_frames := bm_insert pid f' (bp_frames p)\<rparr>)" if "pool_inv crc p"
    using assms pool_invD(3,4) [OF that assms(1)] by (intro pool_update_frame [OF assms(1)]) auto
  moreover have "(pool_view crc p)(pid := Some (fr_page f')) = pool_view crc p"
    using assms by (auto simp: pool_view_def fun_eq_iff)
  ultimately show ?thesis by (auto simp: pool_to_def)
qed

text \<open>A frame for a page that is not resident.\<close>

lemma pool_new_frame:
  assumes "bm_get (bp_frames p) pid = None" and "bm_len (bp_frames p) < bp_capacity p" and "page_sound crc pid (fr_page f)"
    and "fr_dirty f \<or> disk_view crc (bp_disk p) pid = Some (fr_page f)"
  shows "pool_to crc p (\<lambda>v. v(pid := Some (fr_page f))) (p\<lparr>bp_frames := bm_insert pid f (bp_frames p)\<rparr>)"
proof -
  have "pool_inv crc (p\<lparr>bp_frames := bm_insert pid f (bp_frames p)\<rparr>)" if inv: "pool_inv crc p"
    using assms pool_invD [OF inv]
    by (intro pool_invI) (auto simp: bm_len_insert bm_contains_def split: if_splits)
  then show ?thesis by (auto simp: pool_to_def pool_view_def fun_eq_iff split: option.split)
qed

lemma flush_page_keeps: "pool_keeps crc (snd s) (snd (snd (flush_page_locked crc flush pid s)))"
proof (cases "bm_get (bp_frames (snd s)) pid")
  case None
  then show ?thesis by (simp add: flush_page_locked_def pool_simps eff_bind_def pool_keeps_refl)
next
  case (Some f)
  obtain w p where sp: "s = (w, p)" by (cases s)
  show ?thesis
  proof (cases "fr_dirty f")
    case False
    with Some show ?thesis by (simp add: flush_page_locked_def pool_simps eff_bind_def pool_keeps_refl)
  next
    case True
    obtain r s1 where w: "write_back crc flush (fr_page f) (w, p) = (r, s1)" by (cases "write_back crc flush (fr_page f) (w, p)")
    have "pool_inv crc (snd (snd (flush_page_locked crc flush pid s))) \<and>
        pool_view crc (snd (snd (flush_page_locked crc flush pid s))) = pool_view crc p" if inv: "pool_inv crc p"
    proof -
      note F = pool_invD(3) [OF inv Some [unfolded sp snd_conv]]
      from write_back_effect [OF w F] obtain d where d: "snd s1 = p\<lparr>bp_disk := d\<rparr>"
        "\<And>pid'. pid' \<noteq> pid \<Longrightarrow> disk_view crc d pid' = disk_view crc (bp_disk p) pid'"
        "r = Inr () \<Longrightarrow> disk_view crc d pid = Some (fr_page f)" by metis
      have keep: "pool_inv crc (p\<lparr>bp_disk := d\<rparr>)"
        using pool_invD [OF inv] d(2) Some True sp by (intro pool_invI) (auto, metis option.inject)
      have view: "pool_view crc (p\<lparr>bp_disk := d\<rparr>) = pool_view crc p"
      proof
        fix q
        show "pool_view crc (p\<lparr>bp_disk := d\<rparr>) q = pool_view crc p q"
          using d(2) [of q] Some sp by (cases "q = pid") (simp_all add: pool_view_def split: option.split)
      qed
      show ?thesis
      proof (cases r)
        case (Inl e)
        with w Some True sp d(1) have "snd (snd (flush_page_locked crc flush pid s)) = p\<lparr>bp_disk := d\<rparr>"
          by (simp add: flush_page_locked_def pool_get_def eff_bind_def)
        with keep view show ?thesis by simp
      next
        case (Inr u)
        let ?f = "f\<lparr>fr_dirty := False\<rparr>"
        have "snd (snd (flush_page_locked crc flush pid s)) =
            (p\<lparr>bp_disk := d\<rparr>)\<lparr>bp_frames := bm_insert pid ?f (bp_frames (p\<lparr>bp_disk := d\<rparr>))\<rparr>"
          using w Some True sp d(1) Inr by (simp add: flush_page_locked_def pool_get_def pool_put_def put_frames_def eff_bind_def)
        moreover have "pool_to crc (p\<lparr>bp_disk := d\<rparr>) (\<lambda>v. v(pid := Some (fr_page ?f)))
            ((p\<lparr>bp_disk := d\<rparr>)\<lparr>bp_frames := bm_insert pid ?f (bp_frames (p\<lparr>bp_disk := d\<rparr>))\<rparr>)"
          using Some sp d(3) Inr F by (intro pool_update_frame) simp_all
        moreover have "(pool_view crc p)(pid := Some (fr_page f)) = pool_view crc p"
          using Some sp by (auto simp: pool_view_def fun_eq_iff)
        ultimately show ?thesis using keep view by (simp add: pool_to_def)
      qed
    qed
    then show ?thesis by (simp add: pool_to_def sp)
  qed
qed

lemma choose_victim_Some:
  assumes "choose_victim p = Some v"
  shows "\<exists>f. bm_get (bp_frames p) v = Some f \<and> fr_pin_count f = 0"
proof -
  let ?xs = "filter (\<lambda>(_, f). fr_pin_count f = 0) (bm_list (bp_frames p))"
  from assms obtain m where m: "list_min (map (\<lambda>(pid, f). victim_key (bp_k p) pid f) ?xs) = Some m" and v: "v = snd (snd m)"
    by (auto simp: choose_victim_def)
  from list_min_mem [OF m] obtain q f where "(q, f) \<in> set ?xs" "m = victim_key (bp_k p) q f" by auto
  moreover have "snd (snd (victim_key (bp_k p) q f)) = q" by (simp add: victim_key_def Let_def)
  ultimately show ?thesis using v by (auto simp: set_bm_list)
qed

text \<open>Making room: the view stays, pinned frames stay, and on success there is room.\<close>

lemma ensure_capacity_effect:
  assumes e: "ensure_capacity crc flush s = (r, s')" and inv: "pool_inv crc (snd s)"
  shows "pool_keeps crc (snd s) (snd s')" and "r = Inr () \<Longrightarrow> bm_len (bp_frames (snd s')) < bp_capacity (snd s')"
    and "bm_get (bp_frames (snd s')) q = bm_get (bp_frames (snd s)) q \<or>
      (bm_get (bp_frames (snd s')) q = None \<and> (\<exists>f. bm_get (bp_frames (snd s)) q = Some f \<and> fr_pin_count f = 0))"
proof -
  obtain w p where sp: "s = (w, p)" by (cases s)
  let ?Q = "pool_keeps crc p (snd s') \<and> (r = Inr () \<longrightarrow> bm_len (bp_frames (snd s')) < bp_capacity (snd s')) \<and>
    (\<forall>q. bm_get (bp_frames (snd s')) q = bm_get (bp_frames p) q \<or>
      (bm_get (bp_frames (snd s')) q = None \<and> (\<exists>f. bm_get (bp_frames p) q = Some f \<and> fr_pin_count f = 0)))"
  have ?Q
  proof (cases "bm_len (bp_frames p) < bp_capacity p \<or> choose_victim p = None")
    case True
    with e sp show ?thesis by (auto simp: ensure_capacity_def pool_get_def eff_bind_def pool_keeps_refl split: if_splits)
  next
    case False
    then obtain v where v: "choose_victim p = Some v" by blast
    from choose_victim_Some [OF v] obtain f where f: "bm_get (bp_frames p) v = Some f" "fr_pin_count f = 0" by blast
    let ?p = "p\<lparr>bp_frames := bm_remove v (bp_frames p)\<rparr>"
    obtain r1 s1 where fl: "flush_frame crc flush f (w, ?p) = (r1, s1)" by (cases "flush_frame crc flush f (w, ?p)")
    have e': "(r, s') = (case r1 of Inl e \<Rightarrow> (Inl e, (fst s1, (snd s1)\<lparr>bp_frames := bm_insert v f (bp_frames (snd s1))\<rparr>)) | Inr u \<Rightarrow> (Inr u, s1))"
      using e sp False v f fl
      by (simp add: ensure_capacity_def pool_get_def put_frames_def pool_put_def eff_bind_def eff_on_error_def split: sum.splits)
    note I = pool_invD [OF inv [unfolded sp snd_conv]]
    note S = I(3) [OF f(1)]
    obtain d where d: "snd s1 = ?p\<lparr>bp_disk := d\<rparr>" "\<And>q. q \<noteq> v \<Longrightarrow> disk_view crc d q = disk_view crc (bp_disk p) q"
      "r1 = Inr () \<Longrightarrow> disk_view crc d v = Some (fr_page f)"
    proof (cases "fr_dirty f")
      case True
      with fl write_back_effect [of crc flush "fr_page f" w ?p r1 s1 v, OF _ S] that show thesis
        by (auto simp: flush_frame_def)
    next
      case False
      with fl I(4) [OF f(1) False] that [of "bp_disk p"] show thesis by (auto simp: flush_frame_def)
    qed
    have len: "bm_len (bm_remove v (bp_frames p)) < bp_capacity p"
      using bm_len_remove [of "bp_frames p" v] f I(2) by (simp add: bm_contains_def)
    show ?thesis
    proof (cases r1)
      case (Inl x)
      then have s': "snd s' = p\<lparr>bp_disk := d, bp_frames := bm_insert v f (bm_remove v (bp_frames p))\<rparr>" and r: "r = Inl x"
        using e' d(1) by simp_all
      have same: "bm_insert v f (bm_remove v (bp_frames p)) = bp_frames p" using f by (intro bm_eqI) simp
      have dirty: "fr_dirty f" using Inl fl by (auto simp: flush_frame_def split: if_splits)
      have "pool_inv crc (snd s')"
        unfolding s' same using I d(2) f dirty by (intro pool_invI) (auto, metis option.inject)
      moreover have "pool_view crc (snd s') = pool_view crc p"
      proof
        fix q
        show "pool_view crc (snd s') q = pool_view crc p q"
          using d(2) [of q] f unfolding s' same by (cases "q = v") (simp_all add: pool_view_def split: option.split)
      qed
      ultimately show ?thesis unfolding pool_to_def using r by (simp add: s' same)
    next
      case (Inr u)
      then have s': "snd s' = p\<lparr>bp_disk := d, bp_frames := bm_remove v (bp_frames p)\<rparr>" and r: "r = Inr ()"
        using e' d(1) by simp_all
      have "pool_inv crc (snd s')"
        unfolding s' using I d(2) len by (intro pool_invI) (auto split: if_splits)
      moreover have "pool_view crc (snd s') = pool_view crc p"
      proof
        fix q
        show "pool_view crc (snd s') q = pool_view crc p q"
          using d(2) [of q] d(3) Inr f unfolding s' by (cases "q = v") (simp_all add: pool_view_def split: option.split)
      qed
      ultimately show ?thesis unfolding pool_to_def using r f len by (simp add: s')
    qed
  qed
  with sp show "pool_keeps crc (snd s) (snd s')" "r = Inr () \<Longrightarrow> bm_len (bp_frames (snd s')) < bp_capacity (snd s')"
    "bm_get (bp_frames (snd s')) q = bm_get (bp_frames (snd s)) q \<or>
      (bm_get (bp_frames (snd s')) q = None \<and> (\<exists>f. bm_get (bp_frames (snd s)) q = Some f \<and> fr_pin_count f = 0))"
    by auto
qed

lemma disk_read_cases:
  assumes "disk_read_page crc pid d = (r, d')"
  shows "\<exists>os. d' = d\<lparr>df_io := os\<rparr>" and "r = Inr pg \<Longrightarrow> disk_view crc d pid = Some pg"
proof -
  have "(\<exists>os. d' = d\<lparr>df_io := os\<rparr>) \<and> (r = Inr pg \<longrightarrow> disk_view crc d pid = Some pg)"
  proof (cases "whole (df_bytes d) \<and> unat pid < page_total (df_bytes d) \<and> is_ok (page_offset pid)")
    case False
    then have "\<exists>e. disk_read_page crc pid d = (Inl e, d)"
      by (cases "page_offset pid") (auto simp: disk_read_page_def disk_page_count_def whole_def eff_bind_def eff_guard_def)
    with assms show ?thesis by (auto intro!: exI [of _ "df_io d"])
  next
    case True
    then obtain off where off: "page_offset pid = Inr off" by (auto simp: is_ok_iff)
    then have off': "off = unat pid * PAGE_SIZE" by (simp add: page_offset_Ok)
    obtain x os where io: "next_io (df_io d) = (x, os)" by (cases "next_io (df_io d)")
    have "Suc (unat pid) * PAGE_SIZE \<le> page_total (df_bytes d) * PAGE_SIZE" using True by (intro mult_le_mono1) simp
    then have le: "off + PAGE_SIZE \<le> length (df_bytes d)" using True whole_length off' by simp
    from assms True off io le show ?thesis
      by (cases x) (auto simp: disk_read_page_def disk_page_count_def whole_def eff_bind_def eff_guard_def df_read_def df_call_def
          df_next_io_def disk_view_def page_at_def off' intro!: exI [of _ os])
  qed
  then show "\<exists>os. d' = d\<lparr>df_io := os\<rparr>" "r = Inr pg \<Longrightarrow> disk_view crc d pid = Some pg" by blast+
qed

section \<open>The operations as one function\<close>

datatype pool_op =
    OpFetch page_id
  | OpInstall slotted_page bool
  | OpFlushPage page_id
  | OpFlushAll
  | OpSync
  | OpReplace page_id slotted_page
  | OpInsertRecord page_id "u8 list"
  | OpMarkDirty page_id
  | OpDrop page_id
  | OpInvalidate "page_id list"
  | OpResize u64
  | OpReset

definition eff_done :: "('s, 'a) eff \<Rightarrow> ('s, unit) eff" where
  "eff_done f = eff_bind f (\<lambda>_. eff_return ())"

fun pool_run :: "(u8 list \<Rightarrow> u32) \<Rightarrow> (u64 \<Rightarrow> ('w, unit) eff) \<Rightarrow> pool_op \<Rightarrow> ('w, unit) pool_eff" where
  "pool_run crc flush (OpFetch pid) = eff_done (pool_fetch crc flush pid)"
| "pool_run crc flush (OpInstall page dirty) = pool_install crc flush page dirty"
| "pool_run crc flush (OpFlushPage pid) = pool_flush_page crc flush pid"
| "pool_run crc flush OpFlushAll = pool_flush_all crc flush"
| "pool_run crc flush OpSync = pool_sync_all"
| "pool_run crc flush (OpReplace pid page) = page_guard_replace crc pid page"
| "pool_run crc flush (OpInsertRecord pid rec) = eff_done (page_guard_insert_record crc pid rec)"
| "pool_run crc flush (OpMarkDirty pid) = page_guard_mark_dirty pid"
| "pool_run crc flush (OpDrop pid) = page_guard_drop pid"
| "pool_run crc flush (OpInvalidate pids) = pool_invalidate_pages pids"
| "pool_run crc flush (OpResize n) = pool_resize_pages n"
| "pool_run crc flush OpReset = pool_reset_storage"

text \<open>
  The abstract operations on the view. The operations that drop pages from the pool are not among
  them: there the view falls back to the file, see \<open>drops_pages\<close> below.
\<close>

fun view_op :: "(u8 list \<Rightarrow> u32) \<Rightarrow> pool_op \<Rightarrow> bool \<Rightarrow> (page_id \<Rightarrow> slotted_page option) \<Rightarrow> page_id \<Rightarrow> slotted_page option" where
  "view_op crc (OpReplace pid page) ok v = (if ok then v(pid := Some page) else v)"
| "view_op crc (OpInstall page dirty) ok v = (if ok then v(page_id_of page := Some page) else v)"
| "view_op crc (OpInsertRecord pid rec) ok v =
     (if ok then v(pid := map_option (\<lambda>page. snd (page_insert crc rec page)) (v pid)) else v)"
| "view_op crc _ ok v = v"

fun cache_op :: "(u8 list \<Rightarrow> u32) \<Rightarrow> buffer_pool \<Rightarrow> pool_op \<Rightarrow> bool" where
  "cache_op crc p (OpInvalidate _) = False"
| "cache_op crc p (OpResize _) = False"
| "cache_op crc p OpReset = False"
| "cache_op crc p (OpInstall page dirty) = (dirty \<or> disk_view crc (bp_disk p) (page_id_of page) = Some page)"
| "cache_op crc p _ = True"

lemma pool_inv_clock [simp]:
  "pool_inv crc (p\<lparr>bp_clock := c\<rparr>) = pool_inv crc p" "pool_view crc (p\<lparr>bp_clock := c\<rparr>) = pool_view crc p"
  by (auto simp: pool_inv_def pool_view_def fun_eq_iff split: option.split)

lemma pool_inv_io [simp]:
  "pool_inv crc (p\<lparr>bp_disk := (bp_disk p)\<lparr>df_io := os\<rparr>\<rparr>) = pool_inv crc p"
  "pool_view crc (p\<lparr>bp_disk := (bp_disk p)\<lparr>df_io := os\<rparr>\<rparr>) = pool_view crc p"
  by (auto simp: pool_inv_def pool_view_def disk_view_def fun_eq_iff split: option.split)

lemma fetch_hit:
  assumes "bm_get (bp_frames (snd s)) pid = Some f"
  shows "pool_fetch crc flush pid s = (Inr pid, (fst s, (snd s)\<lparr>bp_clock := saturating_add_u64 (bp_clock (snd s)) 1,
     bp_frames := bm_insert pid (record_access (saturating_add_u64 (bp_clock (snd s)) 1) (bp_k (snd s))
       (f\<lparr>fr_pin_count := min (fr_pin_count f + 1) usize_max\<rparr>)) (bp_frames (snd s))\<rparr>))"
  using assms by (simp add: pool_fetch_def pool_tick_def pool_get_def pool_put_def put_frames_def eff_bind_def)

lemma fetch_miss:
  assumes "bm_get (bp_frames (snd s)) pid = None"
  shows "pool_fetch crc flush pid s =
    (let c = saturating_add_u64 (bp_clock (snd s)) 1 in
     case ensure_capacity crc flush (fst s, (snd s)\<lparr>bp_clock := c\<rparr>) of
       (Inl e, s1) \<Rightarrow> (Inl e, s1)
     | (Inr _, s1) \<Rightarrow>
        (case disk_read_page crc pid (bp_disk (snd s1)) of
           (Inl e, d) \<Rightarrow> (Inl e, (fst s1, (snd s1)\<lparr>bp_disk := d\<rparr>))
         | (Inr page, d) \<Rightarrow> (Inr pid, (fst s1, (snd s1)\<lparr>bp_disk := d, bp_frames := bm_insert pid
             \<lparr>fr_page = page, fr_pin_count = 1, fr_dirty = False, fr_history = [c]\<rparr> (bp_frames (snd s1))\<rparr>))))"
  using assms by (simp add: pool_fetch_def pool_tick_def pool_simps eff_bind_def Let_def split: prod.split sum.split)

lemma fetch_effect:
  assumes e: "pool_fetch crc flush pid s = (r, s')" and inv: "pool_inv crc (snd s)"
  shows "pool_keeps crc (snd s) (snd s')" and "r = Inr x \<Longrightarrow> \<exists>f. bm_get (bp_frames (snd s')) pid = Some f"
proof -
  let ?c = "saturating_add_u64 (bp_clock (snd s)) 1"
  have "pool_keeps crc (snd s) (snd s') \<and> (r = Inr x \<longrightarrow> (\<exists>f. bm_get (bp_frames (snd s')) pid = Some f))"
  proof (cases "bm_get (bp_frames (snd s)) pid")
    case (Some f)
    let ?p = "(snd s)\<lparr>bp_clock := ?c\<rparr>"
    let ?f = "record_access ?c (bp_k (snd s)) (f\<lparr>fr_pin_count := min (fr_pin_count f + 1) usize_max\<rparr>)"
    have "pool_keeps crc ?p (?p\<lparr>bp_frames := bm_insert pid ?f (bp_frames ?p)\<rparr>)"
      by (rule pool_same_page [of _ _ f]) (use Some in \<open>simp_all add: record_access_def Let_def\<close>)
    with e fetch_hit [OF Some, of crc flush] show ?thesis by (auto simp: pool_to_def)
  next
    case None
    obtain r1 s1 where ec: "ensure_capacity crc flush (fst s, (snd s)\<lparr>bp_clock := ?c\<rparr>) = (r1, s1)"
      by (cases "ensure_capacity crc flush (fst s, (snd s)\<lparr>bp_clock := ?c\<rparr>)")
    note E = ensure_capacity_effect [OF ec, simplified, OF inv]
    have keep1: "pool_keeps crc (snd s) (snd s1)" using E(1) by (simp add: pool_to_def)
    show ?thesis
    proof (cases r1)
      case (Inl e1)
      with e fetch_miss [OF None, of crc flush] ec keep1 show ?thesis by (auto simp: Let_def)
    next
      case (Inr u)
      obtain r2 d where rd: "disk_read_page crc pid (bp_disk (snd s1)) = (r2, d)"
        by (cases "disk_read_page crc pid (bp_disk (snd s1))")
      from disk_read_cases(1) [OF rd] obtain os where d: "d = (bp_disk (snd s1))\<lparr>df_io := os\<rparr>" by blast
      let ?p = "(snd s1)\<lparr>bp_disk := d\<rparr>"
      have keep2: "pool_keeps crc (snd s) ?p" using keep1 by (simp add: pool_to_def d)
      show ?thesis
      proof (cases r2)
        case (Inl e1)
        with e fetch_miss [OF None, of crc flush] ec Inr rd keep2 show ?thesis by (auto simp: Let_def)
      next
        case (Inr page)
        let ?f = "\<lparr>fr_page = page, fr_pin_count = 1, fr_dirty = False, fr_history = [?c]\<rparr>"
        have v: "disk_view crc (bp_disk (snd s1)) pid = Some page" using disk_read_cases(2) [OF rd] Inr by simp
        have none: "bm_get (bp_frames (snd s1)) pid = None" using E(3) [of pid] None by auto
        have "pool_to crc ?p (\<lambda>v. v(pid := Some (fr_page ?f))) (?p\<lparr>bp_frames := bm_insert pid ?f (bp_frames ?p)\<rparr>)"
          using none E(2) \<open>r1 = Inr u\<close> v disk_view_sound [OF v] by (intro pool_new_frame) (simp_all add: d)
        moreover have "(pool_view crc ?p)(pid := Some page) = pool_view crc ?p"
          using none v by (auto simp: pool_view_def fun_eq_iff d split: option.split)
        ultimately have "pool_keeps crc ?p (?p\<lparr>bp_frames := bm_insert pid ?f (bp_frames ?p)\<rparr>)" by (simp add: pool_to_def)
        from pool_to_trans [OF keep2 this] e fetch_miss [OF None, of crc flush] ec \<open>r1 = Inr u\<close> rd Inr
        show ?thesis by (auto simp: Let_def)
      qed
    qed
  qed
  then show "pool_keeps crc (snd s) (snd s')" "r = Inr x \<Longrightarrow> \<exists>f. bm_get (bp_frames (snd s')) pid = Some f" by blast+
qed

lemma install_effect:
  assumes e: "pool_install crc flush page dirty s = (r, s')" and inv: "pool_inv crc (snd s)"
    and len: "length (pg_bytes page) = PAGE_SIZE" and clean: "dirty \<or> disk_view crc (bp_disk (snd s)) (page_id_of page) = Some page"
  shows "pool_to crc (snd s) (\<lambda>v. if is_ok r then v(page_id_of page := Some page) else v) (snd s')"
proof (cases "page_validate crc page = Inr () \<and> \<not> bm_contains (bp_frames (snd s)) (page_id_of page)")
  case False
  then have "\<exists>x. pool_install crc flush page dirty s = (Inl x, s)"
    by (cases "page_validate crc page") (auto simp: pool_install_def Let_def pool_get_def eff_bind_def eff_guard_def)
  with e show ?thesis by (auto simp: pool_keeps_refl)
next
  case True
  then have none: "bm_get (bp_frames (snd s)) (page_id_of page) = None" by (simp add: bm_contains_def)
  obtain r1 s1 where ec: "ensure_capacity crc flush s = (r1, s1)" by (cases "ensure_capacity crc flush s")
  note E = ensure_capacity_effect [OF ec inv]
  show ?thesis
  proof (cases r1)
    case (Inl e1)
    with e True ec have "r = Inl e1" "s' = s1" by (auto simp: pool_install_def Let_def pool_get_def eff_bind_def eff_guard_def)
    with E(1) show ?thesis by simp
  next
    case (Inr u)
    let ?c = "saturating_add_u64 (bp_clock (snd s1)) 1"
    let ?p = "(snd s1)\<lparr>bp_clock := ?c\<rparr>"
    let ?f = "\<lparr>fr_page = page, fr_pin_count = 0, fr_dirty = dirty, fr_history = [?c]\<rparr>"
    from e True ec Inr have r: "r = Inr ()" "snd s' = ?p\<lparr>bp_frames := bm_insert (page_id_of page) ?f (bp_frames ?p)\<rparr>"
      by (auto simp: pool_install_def Let_def pool_get_def pool_put_def put_frames_def pool_tick_def eff_bind_def eff_guard_def)
    have keep: "pool_keeps crc (snd s) ?p" using E(1) by (simp add: pool_to_def)
    have none1: "bm_get (bp_frames (snd s1)) (page_id_of page) = None" using E(3) [of "page_id_of page"] none by auto
    have "pool_view crc (snd s1) (page_id_of page) = pool_view crc (snd s) (page_id_of page)" using E(1) inv by (simp add: pool_to_def)
    then have "dirty \<or> disk_view crc (bp_disk (snd s1)) (page_id_of page) = Some page"
      using clean none none1 by (simp add: pool_view_def)
    moreover have "page_sound crc (page_id_of page) page" using True len by (simp add: page_validate_sound)
    ultimately have "pool_to crc ?p (\<lambda>v. v(page_id_of page := Some (fr_page ?f))) (?p\<lparr>bp_frames := bm_insert (page_id_of page) ?f (bp_frames ?p)\<rparr>)"
      using none1 E(2) Inr by (intro pool_new_frame) simp_all
    from pool_to_trans [OF keep this] r show ?thesis by simp
  qed
qed

lemma page_insert_sound:
  assumes "page_sound crc pid pg"
  shows "page_sound crc pid (snd (page_insert crc rec pg))" and "is_ok (fst (page_insert crc rec pg))"
    and "fst (page_insert crc rec pg) = Inr None \<Longrightarrow> snd (page_insert crc rec pg) = pg"
proof -
  have "page_sound crc pid (snd (page_insert crc rec pg)) \<and> is_ok (fst (page_insert crc rec pg)) \<and>
      (fst (page_insert crc rec pg) = Inr None \<longrightarrow> snd (page_insert crc rec pg) = pg)"
  proof (cases "can_fit pg (length rec)")
    case False
    with assms show ?thesis by (simp add: page_insert_def)
  next
    case True
    from page_insert_correct_lemma(1,2) [OF assms [unfolded page_sound_iff] True]
    show ?thesis by (simp add: page_sound_iff page_valid_seal)
  qed
  then show "page_sound crc pid (snd (page_insert crc rec pg))" "is_ok (fst (page_insert crc rec pg))"
    "fst (page_insert crc rec pg) = Inr None \<Longrightarrow> snd (page_insert crc rec pg) = pg" by blast+
qed

lemma guard_frame_cases:
  "guard_frame pid s = (case bm_get (bp_frames (snd s)) pid of None \<Rightarrow> (Inl E_XX000, s) | Some f \<Rightarrow> (Inr f, s))"
  by (simp add: guard_frame_def pool_get_def eff_bind_def split: option.split)

lemma each_flush_keeps:
  assumes "eff_each (flush_page_locked crc flush) pids s = (r, s')"
  shows "pool_keeps crc (snd s) (snd s')"
  using assms
proof (induction pids arbitrary: s)
  case Nil
  then show ?case by (simp add: pool_keeps_refl)
next
  case (Cons pid pids)
  obtain r1 s1 where 1: "flush_page_locked crc flush pid s = (r1, s1)" by (cases "flush_page_locked crc flush pid s")
  have k: "pool_keeps crc (snd s) (snd s1)" using flush_page_keeps [of crc s flush pid] 1 by simp
  show ?case
  proof (cases r1)
    case (Inl e)
    with Cons.prems 1 k show ?thesis by (simp add: eff_bind_def)
  next
    case (Inr u)
    with Cons.prems 1 have "eff_each (flush_page_locked crc flush) pids s1 = (r, s')" by (simp add: eff_bind_def)
    from pool_to_trans [OF k Cons.IH [OF this]] show ?thesis .
  qed
qed

section \<open>The view under the operations\<close>

lemma view_op_fun [simp]:
  "view_op crc (OpFetch pid) ok = (\<lambda>v. v)" "view_op crc (OpFlushPage pid) ok = (\<lambda>v. v)" "view_op crc OpFlushAll ok = (\<lambda>v. v)"
  "view_op crc OpSync ok = (\<lambda>v. v)" "view_op crc (OpMarkDirty pid) ok = (\<lambda>v. v)" "view_op crc (OpDrop pid) ok = (\<lambda>v. v)"
  "view_op crc (OpReplace pid page) ok = (\<lambda>v. if ok then v(pid := Some page) else v)"
  "view_op crc (OpInstall page dirty) ok = (\<lambda>v. if ok then v(page_id_of page := Some page) else v)"
  "view_op crc (OpInsertRecord pid rec) ok =
     (\<lambda>v. if ok then v(pid := map_option (\<lambda>page. snd (page_insert crc rec page)) (v pid)) else v)"
  by (rule ext, simp)+

definition op_sized :: "pool_op \<Rightarrow> bool" where
  "op_sized op = (case op of OpInstall page _ \<Rightarrow> length (pg_bytes page) = PAGE_SIZE
     | OpReplace _ page \<Rightarrow> length (pg_bytes page) = PAGE_SIZE | _ \<Rightarrow> True)"

lemma pool_run_view:
  assumes e: "pool_run crc flush op s = (r, s')" and inv: "pool_inv crc (snd s)"
    and c: "cache_op crc (snd s) op" and sized: "op_sized op"
  shows "pool_to crc (snd s) (view_op crc op (is_ok r)) (snd s')"
proof (cases op)
  case (OpFetch pid)
  obtain r1 s1 where f: "pool_fetch crc flush pid s = (r1, s1)" by (cases "pool_fetch crc flush pid s")
  with e OpFetch have "s' = s1" by (cases r1) (simp_all add: eff_done_def eff_bind_def)
  with fetch_effect(1) [OF f inv] OpFetch show ?thesis by simp
next
  case (OpInstall page dirty)
  with install_effect [of crc flush page dirty s r s'] assms show ?thesis by (simp add: op_sized_def fun_upd_def if_distrib)
next
  case (OpFlushPage pid)
  with e flush_page_keeps [of crc s flush pid] show ?thesis by (simp add: pool_flush_page_def)
next
  case OpFlushAll
  with e each_flush_keeps [of crc flush "bm_keys (bp_frames (snd s))" s r s'] show ?thesis
    by (simp add: pool_flush_all_def pool_get_def eff_bind_def)
next
  case OpSync
  with e show ?thesis
    by (cases "next_io (df_io (bp_disk (snd s)))")
      (auto simp: pool_sync_all_def disk_sync_all_def df_sync_all_def df_call_def df_next_io_def pool_simps eff_bind_def pool_to_def
        split: if_splits)
next
  case (OpReplace pid page)
  show ?thesis
  proof (cases "page_id_of page = pid \<and> page_validate crc page = Inr () \<and> bm_get (bp_frames (snd s)) pid \<noteq> None")
    case False
    then have "\<exists>x. page_guard_replace crc pid page s = (Inl x, s)"
      by (cases "page_validate crc page") (auto simp: page_guard_replace_def eff_bind_def eff_guard_def guard_frame_cases)
    with e OpReplace show ?thesis by (auto simp: pool_keeps_refl)
  next
    case True
    then obtain f where f: "bm_get (bp_frames (snd s)) pid = Some f" by blast
    let ?f = "f\<lparr>fr_page := page, fr_dirty := True\<rparr>"
    from True f e OpReplace have r: "r = Inr ()" "snd s' = (snd s)\<lparr>bp_frames := bm_insert pid ?f (bp_frames (snd s))\<rparr>"
      by (auto simp: page_guard_replace_def eff_bind_def eff_guard_def guard_frame_cases put_frames_def pool_put_def)
    have "page_sound crc pid page" using True sized OpReplace page_validate_sound [of crc page] by (auto simp: op_sized_def)
    then have "pool_to crc (snd s) (\<lambda>v. v(pid := Some (fr_page ?f))) ((snd s)\<lparr>bp_frames := bm_insert pid ?f (bp_frames (snd s))\<rparr>)"
      by (intro pool_update_frame [OF f]) simp_all
    with r OpReplace show ?thesis by simp
  qed
next
  case (OpInsertRecord pid rec)
  show ?thesis
  proof (cases "bm_get (bp_frames (snd s)) pid")
    case None
    with e OpInsertRecord show ?thesis
      by (auto simp: eff_done_def page_guard_insert_record_def eff_bind_def guard_frame_cases pool_keeps_refl)
  next
    case (Some f)
    note S = pool_invD(3) [OF inv Some]
    note I = page_insert_sound [OF S, of rec]
    obtain slot page where pi: "page_insert crc rec (fr_page f) = (Inr slot, page)"
      using I(2) by (cases "page_insert crc rec (fr_page f)") (auto simp: is_ok_iff)
    let ?f = "if slot = None then f\<lparr>fr_page := page\<rparr> else f\<lparr>fr_page := page, fr_dirty := True\<rparr>"
    have same: "bm_insert pid a (bm_insert pid b m) = bm_insert pid a m" for a b :: frame and m
      by (intro bm_eqI) simp
    from e OpInsertRecord Some pi have r: "r = Inr ()" "snd s' = (snd s)\<lparr>bp_frames := bm_insert pid ?f (bp_frames (snd s))\<rparr>"
      by (auto simp: eff_done_def page_guard_insert_record_def eff_bind_def guard_frame_cases put_frames_def pool_put_def same split: if_splits)
    have "page_sound crc pid (fr_page ?f)" using I(1) pi by simp
    moreover have "\<not> fr_dirty ?f \<Longrightarrow> disk_view crc (bp_disk (snd s)) pid = Some (fr_page ?f)"
      using I(3) pi pool_invD(4) [OF inv Some] by (auto split: if_splits)
    ultimately have "pool_to crc (snd s) (\<lambda>v. v(pid := Some (fr_page ?f))) ((snd s)\<lparr>bp_frames := bm_insert pid ?f (bp_frames (snd s))\<rparr>)"
      by (rule pool_update_frame [OF Some])
    moreover have "pool_view crc (snd s) pid = Some (fr_page f)" using Some by (simp add: pool_view_def)
    ultimately show ?thesis using r OpInsertRecord pi by (simp add: pool_to_def)
  qed
next
  case (OpMarkDirty pid)
  show ?thesis
  proof (cases "bm_get (bp_frames (snd s)) pid")
    case None
    with e OpMarkDirty show ?thesis by (auto simp: page_guard_mark_dirty_def eff_bind_def guard_frame_cases pool_keeps_refl)
  next
    case (Some f)
    with e OpMarkDirty have "snd s' = (snd s)\<lparr>bp_frames := bm_insert pid (f\<lparr>fr_dirty := True\<rparr>) (bp_frames (snd s))\<rparr>"
      by (auto simp: page_guard_mark_dirty_def eff_bind_def guard_frame_cases put_frames_def pool_put_def)
    with pool_same_page [OF Some, of "f\<lparr>fr_dirty := True\<rparr>" crc] OpMarkDirty show ?thesis by simp
  qed
next
  case (OpDrop pid)
  show ?thesis
  proof (cases "bm_get (bp_frames (snd s)) pid")
    case None
    with e OpDrop show ?thesis by (auto simp: page_guard_drop_def put_frames_def pool_put_def pool_keeps_refl)
  next
    case (Some f)
    with e OpDrop have "snd s' = (snd s)\<lparr>bp_frames := bm_insert pid (f\<lparr>fr_pin_count := fr_pin_count f - 1\<rparr>) (bp_frames (snd s))\<rparr>"
      by (auto simp: page_guard_drop_def put_frames_def pool_put_def)
    with pool_same_page [OF Some, of "f\<lparr>fr_pin_count := fr_pin_count f - 1\<rparr>" crc] OpDrop show ?thesis by simp
  qed
qed (use c in simp_all)

section \<open>Pins\<close>

definition frame_pins :: "(page_id, frame) btree_map \<Rightarrow> page_id \<Rightarrow> nat" where
  "frame_pins fs pid = (case bm_get fs pid of None \<Rightarrow> 0 | Some f \<Rightarrow> fr_pin_count f)"

abbreviation pins :: "buffer_pool \<Rightarrow> page_id \<Rightarrow> nat" where
  "pins p \<equiv> frame_pins (bp_frames p)"

lemma pins_insert [simp]: "frame_pins (bm_insert pid f fs) = (frame_pins fs)(pid := fr_pin_count f)"
  by (simp add: frame_pins_def fun_eq_iff)

lemma pins_update: "bm_get fs pid = Some f \<Longrightarrow> (frame_pins fs)(pid := fr_pin_count f) = frame_pins fs"
  by (simp add: frame_pins_def fun_eq_iff)

abbreviation pins_are :: "(page_id \<Rightarrow> nat) \<Rightarrow> 'w \<times> buffer_pool \<Rightarrow> bool" where
  "pins_are c s \<equiv> pins (snd s) = c"

lemma pins_disk: "eff_keeps (pins_are c) (\<lambda>_. True) (pool_disk f)" "eff_keeps (pins_are c) (\<lambda>_. True) (on_fst g)"
  by (auto simp: eff_keeps_def pool_simps split: prod.split)

lemma flush_page_pins: "eff_keeps (pins_are c) (\<lambda>_. True) (flush_page_locked crc flush pid)"
proof (rule eff_keepsI)
  fix s r s'
  assume p: "pins_are c s" and e: "flush_page_locked crc flush pid s = (r, s')"
  show "pins_are c s' \<and> (\<forall>x. r = Inr x \<longrightarrow> True)"
  proof (cases "bm_get (bp_frames (snd s)) pid")
    case None
    with e p show ?thesis by (auto simp: flush_page_locked_def pool_get_def eff_bind_def)
  next
    case (Some f)
    have W: "pins (snd s1) = pins (snd s) \<and> bp_frames (snd s1) = bp_frames (snd s)" if "write_back crc flush (fr_page f) s = (r1, s1)" for r1 s1
      using that by (auto simp: write_back_def eff_bind_def pool_simps split: prod.splits sum.splits)
    obtain r1 s1 where w: "write_back crc flush (fr_page f) s = (r1, s1)" by (cases "write_back crc flush (fr_page f) s")
    show ?thesis
    proof (cases "fr_dirty f")
      case True
      from W [OF w] Some pins_update [OF Some] p e w True show ?thesis
        by (cases r1) (auto simp: flush_page_locked_def pool_get_def eff_bind_def put_frames_def pool_put_def)
    qed (use e p Some in \<open>auto simp: flush_page_locked_def pool_get_def eff_bind_def\<close>)
  qed
qed

lemma ensure_capacity_pins:
  assumes "ensure_capacity crc flush s = (r, s')" and "pool_inv crc (snd s)"
  shows "pins (snd s') = pins (snd s)"
proof
  fix q
  show "pins (snd s') q = pins (snd s) q"
    using ensure_capacity_effect(3) [OF assms, of q] by (auto simp: frame_pins_def)
qed

lemma pins_fold_remove:
  assumes "\<And>pid. pid \<in> set pids \<Longrightarrow> frame_pins fs pid = 0"
  shows "frame_pins (fold bm_remove pids fs) = frame_pins fs"
proof
  fix q
  show "frame_pins (fold bm_remove pids fs) q = frame_pins fs q"
    using assms [of q] by (auto simp: frame_pins_def fold_remove_get)
qed

text \<open>The pins after an operation.\<close>

fun pins_op :: "pool_op \<Rightarrow> bool \<Rightarrow> (page_id \<Rightarrow> nat) \<Rightarrow> page_id \<Rightarrow> nat" where
  "pins_op (OpFetch pid) ok c = (if ok then c(pid := min (c pid + 1) usize_max) else c)"
| "pins_op (OpDrop pid) ok c = c(pid := c pid - 1)"
| "pins_op _ ok c = c"

lemma truncate_bytes:
  assumes "disk_truncate_pages n d = (r, d')"
  shows "df_bytes d' = df_bytes d \<or>
    df_bytes d' = take (unat n * PAGE_SIZE) (df_bytes d) @ replicate (unat n * PAGE_SIZE - length (df_bytes d)) 0"
    and "set (df_io d') \<subseteq> set (df_io d)"
  using assms
  by (auto simp: disk_truncate_pages_def ensure_writable_def df_set_len_def df_call_def df_next_io_def eff_bind_def
      page_offset_Ok next_io_def split: if_splits sum.splits prod.splits list.splits)

lemma pool_drop_cases:
  assumes "pool_run crc flush op s = (r, s')" and "op = OpInvalidate pids \<or> op = OpResize n \<or> op = OpReset"
  shows "s' = s \<or>
    (op = OpInvalidate pids \<and> s' = (fst s, (snd s)\<lparr>bp_frames := fold bm_remove pids (bp_frames (snd s))\<rparr>) \<and> (\<forall>pid \<in> set pids. pins (snd s) pid = 0)) \<or>
    (op = OpResize n \<and> (\<exists>r1 d. disk_truncate_pages n (bp_disk (snd s)) = (r1, d) \<and>
        s' = (fst s, (snd s)\<lparr>bp_frames := bm_retain (\<lambda>pid _. pid < n) (bp_frames (snd s)), bp_disk := d\<rparr>)) \<and>
        (\<forall>pid. n \<le> pid \<longrightarrow> pins (snd s) pid = 0)) \<or>
    (op = OpReset \<and> (\<exists>r1 d. disk_truncate_pages 0 (bp_disk (snd s)) = (r1, d) \<and>
        s' = (fst s, (snd s)\<lparr>bp_frames := bm_empty, bp_clock := 0, bp_disk := d\<rparr>)) \<and> (\<forall>pid. pins (snd s) pid = 0))"
proof -
  have zero: "pins (snd s) pid = 0" if "\<not> list_ex (\<lambda>f. 0 < fr_pin_count f) (bm_values (bp_frames (snd s)))" for pid
    using that by (auto simp: frame_pins_def list_ex_iff set_bm_values split: option.split)
  have zero2: "pins (snd s) pid = 0" if "\<not> list_ex (\<lambda>(pid, f). n \<le> pid \<and> 0 < fr_pin_count f) (bm_list (bp_frames (snd s)))" "n \<le> pid" for pid
    using that by (auto simp: frame_pins_def list_ex_iff set_bm_list split: option.split)
  have zero3: "pins (snd s) pid = 0" if "\<not> list_ex (\<lambda>pid. case bm_get (bp_frames (snd s)) pid of None \<Rightarrow> False | Some f \<Rightarrow> 0 < fr_pin_count f) pids" "pid \<in> set pids" for pid
    using that by (auto simp: frame_pins_def list_ex_iff split: option.split)
  from assms(2) show ?thesis
  proof (elim disjE)
    assume op: "op = OpInvalidate pids"
    show ?thesis
      using assms(1) zero3
      by (auto simp: op pool_invalidate_pages_def pool_get_def eff_bind_def eff_guard_def put_frames_def pool_put_def split: if_splits)
  next
    assume op: "op = OpResize n"
    show ?thesis
      using assms(1) zero2
      by (cases "disk_truncate_pages n (bp_disk (snd s))")
        (auto simp: op pool_resize_pages_def eff_bind_def eff_guard_def pool_simps split: if_splits)
  next
    assume op: "op = OpReset"
    show ?thesis
      using assms(1) zero
      by (cases "disk_truncate_pages 0 (bp_disk (snd s))")
        (auto simp: op pool_reset_storage_def eff_bind_def eff_guard_def pool_simps split: if_splits)
  qed
qed

lemma pool_run_pins:
  assumes e: "pool_run crc flush op s = (r, s')" and inv: "pool_inv crc (snd s)"
  shows "pins (snd s') = pins_op op (is_ok r) (pins (snd s))"
proof (cases op)
  case (OpFetch pid)
  obtain r1 s1 where f: "pool_fetch crc flush pid s = (r1, s1)" by (cases "pool_fetch crc flush pid s")
  with e OpFetch have r: "is_ok r = is_ok r1" "s' = s1" by (cases r1; auto simp: eff_done_def eff_bind_def)+
  let ?c = "saturating_add_u64 (bp_clock (snd s)) 1"
  show ?thesis
  proof (cases "bm_get (bp_frames (snd s)) pid")
    case (Some g)
    then have "pins (snd s) pid = fr_pin_count g" by (simp add: frame_pins_def)
    with fetch_hit [OF Some, of crc flush] f r OpFetch show ?thesis by (auto simp: record_access_def Let_def)
  next
    case None
    obtain r2 s2 where ec: "ensure_capacity crc flush (fst s, (snd s)\<lparr>bp_clock := ?c\<rparr>) = (r2, s2)"
      by (cases "ensure_capacity crc flush (fst s, (snd s)\<lparr>bp_clock := ?c\<rparr>)")
    from ensure_capacity_pins [OF ec] inv have same: "pins (snd s2) = pins (snd s)" by simp
    have z: "pins (snd s) pid = 0" using None by (simp add: frame_pins_def)
    obtain r3 d where rd: "disk_read_page crc pid (bp_disk (snd s2)) = (r3, d)" by (cases "disk_read_page crc pid (bp_disk (snd s2))")
    show ?thesis
      using fetch_miss [OF None, of crc flush] f ec rd r same z OpFetch
      by (cases r2; cases r3) (auto simp: Let_def usize_max_def)
  qed
next
  case (OpInstall page dirty)
  let ?ok = "page_validate crc page = Inr () \<and> \<not> bm_contains (bp_frames (snd s)) (page_id_of page)"
  show ?thesis
  proof (cases ?ok)
    case False
    then have "\<exists>x. pool_install crc flush page dirty s = (Inl x, s)"
      by (cases "page_validate crc page") (auto simp: pool_install_def Let_def pool_get_def eff_bind_def eff_guard_def)
    with e OpInstall show ?thesis by auto
  next
    case True
    obtain r1 s1 where ec: "ensure_capacity crc flush s = (r1, s1)" by (cases "ensure_capacity crc flush s")
    have z: "pins (snd s1) (page_id_of page) = 0"
      unfolding ensure_capacity_pins [OF ec inv] using True by (simp add: frame_pins_def bm_contains_def)
    with e True ec ensure_capacity_pins [OF ec inv] OpInstall show ?thesis
      by (cases r1) (auto simp: pool_install_def Let_def pool_get_def pool_put_def put_frames_def pool_tick_def eff_bind_def eff_guard_def fun_eq_iff)
  qed
next
  case (OpFlushPage pid)
  with eff_keepsD [where I = "pins_are (pins (snd s))" and s = s, OF flush_page_pins refl] e show ?thesis by (simp add: pool_flush_page_def)
next
  case OpFlushAll
  have "eff_keeps (pins_are (pins (snd s))) (\<lambda>_. True) (eff_each (flush_page_locked crc flush) (bm_keys (bp_frames (snd s))))"
    by (rule eff_keeps_each) (rule flush_page_pins)
  from eff_keepsD [where s = s, OF this refl] e OpFlushAll show ?thesis by (simp add: pool_flush_all_def pool_get_def eff_bind_def)
next
  case OpSync
  with e show ?thesis by (auto simp: pool_sync_all_def pool_simps split: prod.splits)
next
  case (OpReplace pid page)
  with e pins_update [of "bp_frames (snd s)" pid] show ?thesis
    by (auto simp: page_guard_replace_def eff_bind_def eff_guard_def guard_frame_cases put_frames_def pool_put_def
        split: if_splits option.splits sum.splits)
next
  case (OpInsertRecord pid rec)
  with e pins_update [of "bp_frames (snd s)" pid] show ?thesis
    by (auto simp: eff_done_def page_guard_insert_record_def eff_bind_def guard_frame_cases put_frames_def pool_put_def
        split: if_splits option.splits sum.splits prod.splits)
next
  case (OpMarkDirty pid)
  with e pins_update [of "bp_frames (snd s)" pid] show ?thesis
    by (auto simp: page_guard_mark_dirty_def eff_bind_def guard_frame_cases put_frames_def pool_put_def split: option.splits)
next
  case (OpDrop pid)
  show ?thesis
  proof (cases "bm_get (bp_frames (snd s)) pid")
    case None
    then have "pins (snd s) pid = 0" by (simp add: frame_pins_def)
    with e OpDrop None show ?thesis by (auto simp: page_guard_drop_def put_frames_def pool_put_def fun_eq_iff)
  next
    case (Some f)
    then have "pins (snd s) pid = fr_pin_count f" by (simp add: frame_pins_def)
    with e OpDrop Some show ?thesis by (auto simp: page_guard_drop_def put_frames_def pool_put_def)
  qed
next
  case (OpInvalidate pids)
  with pool_drop_cases [OF e, of pids] pins_fold_remove [of pids "bp_frames (snd s)"] show ?thesis by auto
next
  case (OpResize n)
  have "frame_pins (bm_retain (\<lambda>pid _. pid < n) fs) = frame_pins fs" if "\<forall>pid. n \<le> pid \<longrightarrow> frame_pins fs pid = 0" for fs
  proof
    fix q
    show "frame_pins (bm_retain (\<lambda>pid _. pid < n) fs) q = frame_pins fs q"
      using that [rule_format, of q] by (auto simp: frame_pins_def not_less split: option.splits)
  qed
  with pool_drop_cases [OF e, of _ n] OpResize show ?thesis by auto
next
  case OpReset
  with pool_drop_cases [OF e] show ?thesis by (auto simp: frame_pins_def fun_eq_iff)
qed

section \<open>Threads with page guards\<close>

text \<open>
  The guards that threads hold form a multiset. An operation of a guard needs it; a page that
  is installed as clean must be the one in the file. Between the operations of the pool the
  barrier may take steps of its own.
\<close>

fun op_legal :: "(u8 list \<Rightarrow> u32) \<Rightarrow> buffer_pool \<Rightarrow> page_id multiset \<Rightarrow> pool_op \<Rightarrow> bool" where
  "op_legal crc p gs (OpFetch pid) = (size gs < usize_max)"
| "op_legal crc p gs (OpInstall page dirty) =
     (length (pg_bytes page) = PAGE_SIZE \<and> (dirty \<or> disk_view crc (bp_disk p) (page_id_of page) = Some page))"
| "op_legal crc p gs (OpReplace pid page) = (pid \<in># gs \<and> length (pg_bytes page) = PAGE_SIZE)"
| "op_legal crc p gs (OpInsertRecord pid rec) = (pid \<in># gs)"
| "op_legal crc p gs (OpMarkDirty pid) = (pid \<in># gs)"
| "op_legal crc p gs (OpDrop pid) = (pid \<in># gs)"
| "op_legal crc p gs _ = True"

fun guards_after :: "pool_op \<Rightarrow> bool \<Rightarrow> page_id multiset \<Rightarrow> page_id multiset" where
  "guards_after (OpFetch pid) ok gs = (if ok then add_mset pid gs else gs)"
| "guards_after (OpDrop pid) ok gs = gs - {#pid#}"
| "guards_after _ ok gs = gs"

inductive pool_step ::
  "(u8 list \<Rightarrow> u32) \<Rightarrow> (u64 \<Rightarrow> ('w, unit) eff) \<Rightarrow> ('w \<Rightarrow> 'w \<Rightarrow> bool) \<Rightarrow>
     ('w \<times> buffer_pool) \<times> page_id multiset \<Rightarrow> ('w \<times> buffer_pool) \<times> page_id multiset \<Rightarrow> bool" for crc flush wstep where
  step_run: "op_legal crc (snd s) gs op \<Longrightarrow> pool_run crc flush op s = (r, s') \<Longrightarrow>
     pool_step crc flush wstep (s, gs) (s', guards_after op (is_ok r) gs)"
| step_barrier: "wstep w w' \<Longrightarrow> pool_step crc flush wstep ((w, p), gs) ((w', p), gs)"

inductive_cases pool_stepE: "pool_step crc flush wstep (s, gs) t"

lemma op_legal_sized: "op_legal crc p gs op \<Longrightarrow> op_sized op"
  by (cases op) (simp_all add: op_sized_def)

lemma truncate_view:
  assumes t: "disk_truncate_pages n d = (r, d')"
  shows "q < n \<Longrightarrow> disk_view crc d q = Some pg \<Longrightarrow> disk_view crc d' q = Some pg"
    and "is_ok r \<Longrightarrow> n \<le> q \<Longrightarrow> disk_view crc d' q = None"
    and "\<not> is_ok r \<Longrightarrow> disk_view crc d' = disk_view crc d"
proof -
  show "disk_view crc d' q = Some pg" if "q < n" "disk_view crc d q = Some pg"
  proof -
    have lt: "unat q < page_total (df_bytes d)" using that(2) by (simp add: disk_view_def split: if_splits)
    have "unat q < unat n" using that(1) by (simp add: word_less_nat_alt)
    with truncate_bytes(1) [OF t] lt resize_page_at(2,3) [where n = "unat n" and f = "df_bytes d"] that(2)
    show ?thesis by (auto simp: disk_view_def)
  qed
  show "disk_view crc d' q = None" if "is_ok r" "n \<le> q"
  proof -
    have "df_bytes d' = take (unat n * PAGE_SIZE) (df_bytes d) @ replicate (unat n * PAGE_SIZE - length (df_bytes d)) 0"
      using t that(1)
      by (auto simp: disk_truncate_pages_def ensure_writable_def df_set_len_def df_call_def df_next_io_def eff_bind_def
          page_offset_Ok split: if_splits sum.splits prod.splits)
    with that(2) resize_page_at(2) [where n = "unat n" and f = "df_bytes d"] show ?thesis
      by (simp add: disk_view_def word_le_nat_alt)
  qed
  show "disk_view crc d' = disk_view crc d" if "\<not> is_ok r"
    using t that
    by (auto simp: disk_truncate_pages_def ensure_writable_def df_set_len_def df_call_def df_next_io_def eff_bind_def
        split: if_splits sum.splits prod.splits)
qed

lemma pool_run_inv:
  assumes e: "pool_run crc flush op s = (r, s')" and inv: "pool_inv crc (snd s)" and l: "op_legal crc (snd s) gs op"
  shows "pool_inv crc (snd s')"
proof (cases "cache_op crc (snd s) op")
  case True
  from pool_run_view [OF e inv True op_legal_sized [OF l]] inv show ?thesis by (simp add: pool_to_def)
next
  case False
  with l obtain pids n where op: "op = OpInvalidate pids \<or> op = OpResize n \<or> op = OpReset" by (cases op) auto
  note I = pool_invD [OF inv]
  have remove: "bm_len (fold bm_remove ks m) \<le> bm_len m" for ks and m :: "(page_id, frame) btree_map"
  proof -
    have "dom (bm_get (fold bm_remove ks m)) \<subseteq> dom (bm_get m)" by (auto simp: fold_remove_get split: if_splits)
    then show ?thesis unfolding bm_len_card by (intro card_mono) simp_all
  qed
  have get: "bm_get (fold bm_remove ks m) q = Some f \<Longrightarrow> bm_get m q = Some f" for ks m q and f :: frame
    by (simp add: fold_remove_get split: if_splits)
  have retain: "bm_len (bm_retain P m) \<le> bm_len m" for P and m :: "(page_id, frame) btree_map"
    unfolding bm_len_card by (intro card_mono) (auto split: option.splits if_splits)
  from pool_drop_cases [OF e op] show ?thesis
  proof (elim disjE conjE exE)
    assume "s' = s" with inv show ?thesis by simp
  next
    assume "s' = (fst s, (snd s)\<lparr>bp_frames := fold bm_remove pids (bp_frames (snd s))\<rparr>)"
    then show ?thesis using I remove [of pids "bp_frames (snd s)"] by (intro pool_invI) (auto dest!: get)
  next
    fix r1 d
    assume t: "disk_truncate_pages n (bp_disk (snd s)) = (r1, d)"
      and s': "s' = (fst s, (snd s)\<lparr>bp_frames := bm_retain (\<lambda>pid _. pid < n) (bp_frames (snd s)), bp_disk := d\<rparr>)"
    show ?thesis using I truncate_view(1) [OF t, where crc = crc] retain [of "\<lambda>pid _. pid < n" "bp_frames (snd s)"] unfolding s'
      by (intro pool_invI) (auto split: option.splits if_splits)
  next
    fix r1 d
    assume "s' = (fst s, (snd s)\<lparr>bp_frames := bm_empty, bp_clock := 0, bp_disk := d\<rparr>)"
    then show ?thesis using I(1) by (auto intro!: pool_invI simp: bm_len_def)
  qed
qed

text \<open>What holds in every state that threads with guards reach.\<close>

definition pool_sys :: "(u8 list \<Rightarrow> u32) \<Rightarrow> ('w \<times> buffer_pool) \<times> page_id multiset \<Rightarrow> bool" where
  "pool_sys crc t \<longleftrightarrow> (case t of (s, gs) \<Rightarrow> pool_inv crc (snd s) \<and> pins (snd s) = count gs \<and> size gs \<le> usize_max)"

lemma pool_sys_step:
  assumes "pool_step crc flush wstep t t'" and "pool_sys crc t"
  shows "pool_sys crc t'"
  using assms
proof cases
  case (step_run s gs op r s')
  with assms(2) have inv: "pool_inv crc (snd s)" and pin: "pins (snd s) = count gs" and size: "size gs \<le> usize_max"
    by (simp_all add: pool_sys_def)
  have "pins (snd s') = count (guards_after op (is_ok r) gs)"
  proof -
    have "Suc (count gs pid) \<le> usize_max" if "size gs < usize_max" for pid
      using count_le_size [of gs pid] that by simp
    then show ?thesis
      using pool_run_pins [OF step_run(4) inv] pin step_run(3) by (cases op) (auto simp: fun_eq_iff min_def)
  qed
  moreover have "size (guards_after op (is_ok r) gs) \<le> usize_max"
    using step_run(3) size by (cases op) (auto simp: size_Diff_submset intro: order_trans [OF size_mset_mono])
  ultimately show ?thesis
    using pool_run_inv [OF step_run(4) inv step_run(3)] by (simp add: step_run(2) pool_sys_def)
next
  case (step_barrier w w' p gs)
  with assms(2) show ?thesis by (simp add: pool_sys_def)
qed

lemma pool_sys_new:
  assumes "pool_new disk capacity = Inr p"
  shows "pool_sys crc ((w, p), {#})"
  using assms by (auto simp: pool_sys_def pool_new_def res_simps pool_inv_def frame_pins_def bm_len_def fun_eq_iff)

lemma pool_sys_reach:
  assumes "(pool_step crc flush wstep)\<^sup>*\<^sup>* t t'" and "pool_sys crc t"
  shows "pool_sys crc t'"
  using assms by (induction rule: rtranclp_induct) (auto intro: pool_sys_step)

section \<open>Writing behind the log\<close>

text \<open>
  A disk writes sectors of 512 bytes: what a failed write has written is a whole number of
  them. \<open>logged\<close>: the log record of every page in the file, and of the beginning of a page
  at its end, is durable.
\<close>

definition sector_io :: "io list \<Rightarrow> bool" where
  "sector_io os \<longleftrightarrow> (\<forall>n. IoFail n \<in> set os \<longrightarrow> 512 dvd n)"

definition logged :: "(u64 \<Rightarrow> bool) \<Rightarrow> u8 list \<Rightarrow> bool" where
  "logged durable bs \<longleftrightarrow> 512 dvd length bs \<and> (\<forall>i. i * PAGE_SIZE + 24 \<le> length bs \<longrightarrow>
     read_u64 bs (i * PAGE_SIZE + 16) = 0 \<or> durable (read_u64 bs (i * PAGE_SIZE + 16)))"

lemma logged_mono: "logged durable bs \<Longrightarrow> (\<And>l. durable l \<Longrightarrow> durable' l) \<Longrightarrow> logged durable' bs"
  unfolding logged_def by blast

lemma next_io_set: "next_io os = (x, os') \<Longrightarrow> set os' \<subseteq> set os \<and> (x = IoOk \<or> x \<in> set os)"
  by (cases os) auto

lemma sector_io_mono: "sector_io os \<Longrightarrow> set os' \<subseteq> set os \<Longrightarrow> sector_io os'"
  by (auto simp: sector_io_def)

lemma from_le_u64_zero: "from_le_u64 (replicate 8 0) = 0"
  by (simp add: from_le_u64_def numeral_eq_Suc)

lemma logged_splice:
  assumes l: "logged durable f" and w: "whole f" and i: "i \<le> page_total f" and len: "length bs = PAGE_SIZE"
    and n: "512 dvd n" and d: "read_u64 bs 16 = 0 \<or> durable (read_u64 bs 16)"
  shows "logged durable (splice (i * PAGE_SIZE) (take n bs) f)"
proof (cases "n = 0")
  case True
  have "splice (i * PAGE_SIZE) [] f = f" by (simp add: splice_def)
  with l True show ?thesis by simp
next
  case False
  with n have n512: "512 \<le> n" by (auto elim: dvdE)
  let ?g = "splice (i * PAGE_SIZE) (take n bs) f"
  have le: "i * PAGE_SIZE \<le> length f" using i whole_length [OF w] by simp
  have lg: "length ?g = max (length f) (i * PAGE_SIZE + min n PAGE_SIZE)" using le len by (auto simp: splice_def max_def min_def)
  have "512 dvd i * PAGE_SIZE + min n PAGE_SIZE" using n by (auto simp: min_def intro!: dvd_add)
  then have "512 dvd length ?g" using l by (auto simp: lg max_def logged_def)
  moreover have "read_u64 ?g (j * PAGE_SIZE + 16) = 0 \<or> durable (read_u64 ?g (j * PAGE_SIZE + 16))"
    if j: "j * PAGE_SIZE + 24 \<le> length ?g" for j
  proof (cases "j = i")
    case True
    have "slice (i * PAGE_SIZE + 16) 8 ?g = slice 16 8 bs"
      using le n512 len by (simp add: slice_def splice_def min_def take_drop)
    then have "read_u64 ?g (i * PAGE_SIZE + 16) = read_u64 bs 16" by (simp add: read_u64_def)
    with d True show ?thesis by simp
  next
    case False
    have jl: "j * PAGE_SIZE + 24 \<le> length f \<and> slice (j * PAGE_SIZE + 16) 8 ?g = slice (j * PAGE_SIZE + 16) 8 f"
    proof (cases "j < i")
      case True
      then have "Suc j * PAGE_SIZE \<le> i * PAGE_SIZE" by (intro mult_le_mono1) simp
      with le show ?thesis by (simp add: slice_def splice_def take_drop min_def)
    next
      case False
      with \<open>j \<noteq> i\<close> have "Suc i * PAGE_SIZE \<le> j * PAGE_SIZE" by (intro mult_le_mono1) simp
      then have "i * PAGE_SIZE + min n PAGE_SIZE \<le> j * PAGE_SIZE" by (simp add: min_def)
      with j lg le len show ?thesis by (auto simp: slice_def splice_def max_def add.commute split: if_splits)
    qed
    with l show ?thesis by (simp add: logged_def read_u64_def)
  qed
  ultimately show ?thesis by (simp add: logged_def)
qed

lemma logged_resize:
  assumes l: "logged durable f"
  shows "logged durable (take (n * PAGE_SIZE) f @ replicate (n * PAGE_SIZE - length f) 0)" (is "logged durable ?g")
proof -
  have lg: "length ?g = n * PAGE_SIZE" by simp
  have "read_u64 ?g (j * PAGE_SIZE + 16) = 0 \<or> durable (read_u64 ?g (j * PAGE_SIZE + 16))"
    if j: "j * PAGE_SIZE + 24 \<le> n * PAGE_SIZE" for j
  proof (cases "j * PAGE_SIZE + 24 \<le> length f")
    case True
    then have "slice (j * PAGE_SIZE + 16) 8 ?g = slice (j * PAGE_SIZE + 16) 8 f" using j by (simp add: slice_def take_drop min_def)
    with l True show ?thesis by (simp add: logged_def read_u64_def)
  next
    case False
    obtain q where q: "length f = 512 * q" using l by (auto simp: logged_def)
    have "length f \<le> j * PAGE_SIZE + 16"
    proof -
      have "512 * q < 512 * (16 * j) + 24" using False q by simp
      then have "q \<le> 16 * j" by linarith
      then show ?thesis using q by simp
    qed
    then have "slice (j * PAGE_SIZE + 16) 8 ?g = replicate 8 0" using j by (simp add: slice_def)
    then have "read_u64 ?g (j * PAGE_SIZE + 16) = 0" by (simp add: read_u64_def from_le_u64_zero)
    then show ?thesis by simp
  qed
  moreover have "512 dvd n * PAGE_SIZE" by (intro dvd_mult) simp
  ultimately show ?thesis unfolding logged_def lg by blast
qed

text \<open>
  What the pool asks of the barrier. \<open>durable w l\<close>: the record with sequence number \<open>l\<close> survives
  a crash; \<open>wstep\<close> are the steps that the owner of the barrier takes on its own.
\<close>

locale durability_barrier =
  fixes flush :: "u64 \<Rightarrow> ('w, unit) eff" and wstep :: "'w \<Rightarrow> 'w \<Rightarrow> bool"
    and winv :: "'w \<Rightarrow> bool" and durable :: "'w \<Rightarrow> u64 \<Rightarrow> bool"
  assumes flush_durable: "winv w \<Longrightarrow> flush l w = (Inr x, w') \<Longrightarrow> l = 0 \<or> durable w' l"
    and flush_inv: "winv w \<Longrightarrow> winv (snd (flush l w))"
    and flush_later: "winv w \<Longrightarrow> durable w m \<Longrightarrow> durable (snd (flush l w)) m"
    and step_inv: "winv w \<Longrightarrow> wstep w w' \<Longrightarrow> winv w'"
    and step_later: "winv w \<Longrightarrow> wstep w w' \<Longrightarrow> durable w m \<Longrightarrow> durable w' m"
begin

definition behind :: "(u8 list \<Rightarrow> u32) \<Rightarrow> 'w \<times> buffer_pool \<Rightarrow> bool" where
  "behind crc s \<longleftrightarrow> winv (fst s) \<and> logged (durable (fst s)) (df_bytes (bp_disk (snd s))) \<and>
     sector_io (df_io (bp_disk (snd s))) \<and>
     (\<forall>pid f. bm_get (bp_frames (snd s)) pid = Some f \<longrightarrow> page_sound crc pid (fr_page f))"

definition sound_frames :: "(u8 list \<Rightarrow> u32) \<Rightarrow> (page_id, frame) btree_map \<Rightarrow> bool" where
  "sound_frames crc fs \<longleftrightarrow> (\<forall>pid f. bm_get fs pid = Some f \<longrightarrow> page_sound crc pid (fr_page f))"

lemma behind_frames:
  "behind crc s \<Longrightarrow> sound_frames crc (bp_frames (snd s))"
  "behind crc s \<Longrightarrow> sound_frames crc fs \<Longrightarrow> behind crc (fst s, (snd s)\<lparr>bp_frames := fs\<rparr>)"
  "behind crc s \<Longrightarrow> behind crc (fst s, (snd s)\<lparr>bp_clock := c\<rparr>)"
  by (simp_all add: behind_def sound_frames_def)

lemma keeps_put_frames: "(\<And>fs. sound_frames crc fs \<Longrightarrow> sound_frames crc (g fs)) \<Longrightarrow> eff_keeps (behind crc) (\<lambda>_. True) (put_frames g)"
  unfolding put_frames_def pool_put_def by (rule eff_keeps_put) (auto intro: behind_frames)

lemma keeps_pool_get: "(\<And>p. sound_frames crc (bp_frames p) \<Longrightarrow> Q (h p)) \<Longrightarrow> eff_keeps (behind crc) Q (pool_get h)"
  unfolding pool_get_def by (rule eff_keeps_base(4)) (simp add: behind_frames(1))

lemma keeps_tick: "eff_keeps (behind crc) (\<lambda>_. True) pool_tick"
  unfolding pool_tick_def pool_put_def
  by (rule eff_keeps_seq, rule eff_keeps_put, rule behind_frames, assumption, rule keeps_pool_get) simp

text \<open>Operations on the disk that read, or that end in what \<open>logged\<close> allows.\<close>

lemma keeps_disk:
  assumes "\<And>w d r d'. f d = (r, d') \<Longrightarrow> winv w \<Longrightarrow> sector_io (df_io d) \<Longrightarrow> logged (durable w) (df_bytes d) \<Longrightarrow>
    logged (durable w) (df_bytes d') \<and> set (df_io d') \<subseteq> set (df_io d) \<and> (\<forall>x. r = Inr x \<longrightarrow> Q x)"
  shows "eff_keeps (behind crc) Q (pool_disk f)"
proof (rule eff_keepsI)
  fix s r s'
  assume b: "behind crc s" and e: "pool_disk f s = (r, s')"
  obtain d where d: "f (bp_disk (snd s)) = (r, d)" and s': "s' = (fst s, (snd s)\<lparr>bp_disk := d\<rparr>)"
    using e by (auto simp: pool_simps split: prod.splits)
  from assms [OF d, of "fst s"] b s' sector_io_mono [of "df_io (bp_disk (snd s))" "df_io d"]
  show "behind crc s' \<and> (\<forall>x. r = Inr x \<longrightarrow> Q x)" by (simp add: behind_def)
qed

lemma keeps_truncate: "eff_keeps (behind crc) (\<lambda>_. True) (pool_disk (disk_truncate_pages n))"
  by (rule keeps_disk) (use truncate_bytes logged_resize in \<open>metis (no_types, lifting)\<close>)

lemma keeps_sync: "eff_keeps (behind crc) (\<lambda>_. True) pool_sync_all"
  unfolding pool_sync_all_def
  by (rule keeps_disk)
    (auto simp: disk_sync_all_def df_sync_all_def df_call_def df_next_io_def eff_bind_def split: prod.splits if_splits dest!: next_io_set)

lemma keeps_read: "eff_keeps (behind crc) (page_sound crc pid) (pool_disk (disk_read_page crc pid))"
proof (rule keeps_disk)
  fix w d r and d' :: disk_manager
  assume e: "disk_read_page crc pid d = (r, d')" and l: "logged (durable w) (df_bytes d)"
  from disk_read_cases(1) [OF e] obtain os where "d' = d\<lparr>df_io := os\<rparr>" by blast
  moreover have "set (df_io d') \<subseteq> set (df_io d)"
    using e by (auto simp: disk_read_page_def disk_page_count_def df_read_def df_call_def df_next_io_def eff_bind_def eff_guard_def
        split: prod.splits if_splits sum.splits dest!: next_io_set)
  moreover have "page_sound crc pid x" if "r = Inr x" for x
    using disk_read_cases(2) [OF e that] disk_view_sound by blast
  ultimately show "logged (durable w) (df_bytes d') \<and> set (df_io d') \<subseteq> set (df_io d) \<and> (\<forall>x. r = Inr x \<longrightarrow> page_sound crc pid x)"
    using l by simp
qed

lemma keeps_write_back:
  assumes len: "length (pg_bytes page) = PAGE_SIZE"
  shows "eff_keeps (behind crc) (\<lambda>_. True) (write_back crc flush page)"
proof (rule eff_keepsI)
  fix s r s'
  assume b: "behind crc s" and e: "write_back crc flush page s = (r, s')"
  obtain r1 w where f: "flush (page_lsn page) (fst s) = (r1, w)" by (cases "flush (page_lsn page) (fst s)")
  have inv: "winv w" using flush_inv [of "fst s" "page_lsn page"] b f by (simp add: behind_def)
  have log: "logged (durable w) (df_bytes (bp_disk (snd s)))"
    by (rule logged_mono [of "durable (fst s)"]) (use b flush_later [of "fst s" _ "page_lsn page"] f in \<open>simp_all add: behind_def\<close>)
  show "behind crc s' \<and> (\<forall>x. r = Inr x \<longrightarrow> True)"
  proof (cases r1)
    case (Inl err)
    with e f have "s' = (w, snd s)" by (simp add: write_back_def eff_bind_def on_fst_def)
    with b inv log show ?thesis by (simp add: behind_def)
  next
    case (Inr u)
    obtain r2 d where wr: "disk_write_page crc page (bp_disk (snd s)) = (r2, d)" by (cases "disk_write_page crc page (bp_disk (snd s))")
    with e f Inr have s': "s' = (w, (snd s)\<lparr>bp_disk := d\<rparr>)" by (simp add: write_back_def eff_bind_def pool_simps)
    have dur: "read_u64 (pg_bytes page) 16 = 0 \<or> durable w (read_u64 (pg_bytes page) 16)"
      using flush_durable [of "fst s" "page_lsn page" u w] b f Inr by (simp add: behind_def page_lsn_def)
    from wr have "logged (durable w) (df_bytes d) \<and> set (df_io d) \<subseteq> set (df_io (bp_disk (snd s)))"
    proof (cases rule: disk_write_cases)
      case (1 err)
      with log show ?thesis by simp
    next
      case (2 os)
      have "512 dvd (PAGE_SIZE :: nat)" by simp
      from logged_splice [OF log 2(4,5) len this dur] 2(2) next_io_set [OF 2(3)] len show ?thesis by simp
    next
      case (3 err os n)
      have "512 dvd n" using next_io_set [OF 3(2)] b by (auto simp: behind_def sector_io_def)
      from logged_splice [OF log 3(4,5) len this dur] 3(3) next_io_set [OF 3(2)] show ?thesis by simp
    qed
    with b inv sector_io_mono show ?thesis by (auto simp: behind_def s')
  qed
qed

lemma sound_insert: "sound_frames crc fs \<Longrightarrow> page_sound crc pid (fr_page f) \<Longrightarrow> sound_frames crc (bm_insert pid f fs)"
  by (simp add: sound_frames_def)

lemma sound_get: "sound_frames crc fs \<Longrightarrow> bm_get fs pid = Some f \<Longrightarrow> page_sound crc pid (fr_page f)"
  by (simp add: sound_frames_def)

lemma keeps_flush_page: "eff_keeps (behind crc) (\<lambda>_. True) (flush_page_locked crc flush pid)"
proof -
  have 1: "eff_keeps (behind crc) (\<lambda>fr. \<forall>f. fr = Some f \<longrightarrow> page_sound crc pid (fr_page f)) (pool_get (\<lambda>p. bm_get (bp_frames p) pid))"
    by (rule keeps_pool_get) (simp add: sound_get)
  have 2: "eff_keeps (behind crc) (\<lambda>_. True) (put_frames (\<lambda>fs. case bm_get fs pid of None \<Rightarrow> fs | Some f \<Rightarrow> bm_insert pid (f\<lparr>fr_dirty := False\<rparr>) fs))"
    by (rule keeps_put_frames) (auto intro!: sound_insert dest: sound_get split: option.split)
  show ?thesis
    unfolding flush_page_locked_def
  proof (rule eff_keeps_bind [OF 1])
    fix fr :: "frame option"
    assume P: "\<forall>f. fr = Some f \<longrightarrow> page_sound crc pid (fr_page f)"
    show "eff_keeps (behind crc) (\<lambda>_. True) (case fr of None \<Rightarrow> eff_fail E_XX001 | Some f \<Rightarrow> if \<not> fr_dirty f then eff_return ()
         else eff_bind (write_back crc flush (fr_page f)) (\<lambda>_.
           put_frames (\<lambda>fs. case bm_get fs pid of None \<Rightarrow> fs | Some f \<Rightarrow> bm_insert pid (f\<lparr>fr_dirty := False\<rparr>) fs)))"
      by (cases fr) (use P in \<open>auto intro!: eff_keeps_base(1,2) eff_keeps_seq keeps_write_back 2 dest: page_soundD(2)\<close>)
  qed
qed

lemma keeps_ensure_capacity: "eff_keeps (behind crc) (\<lambda>_. True) (ensure_capacity crc flush)"
proof (rule eff_keepsI)
  fix s r s'
  assume b: "behind crc s" and e: "ensure_capacity crc flush s = (r, s')"
  show "behind crc s' \<and> (\<forall>x. r = Inr x \<longrightarrow> True)"
  proof (cases "bm_len (bp_frames (snd s)) < bp_capacity (snd s) \<or> choose_victim (snd s) = None")
    case True
    with e b show ?thesis by (auto simp: ensure_capacity_def pool_get_def eff_bind_def split: if_splits)
  next
    case False
    then obtain v where v: "choose_victim (snd s) = Some v" by blast
    from choose_victim_Some [OF v] obtain f where f: "bm_get (bp_frames (snd s)) v = Some f" by blast
    have sound: "page_sound crc v (fr_page f)" using sound_get [OF behind_frames(1) [OF b] f] .
    note len = page_soundD(2) [OF sound]
    have "eff_keeps (behind crc) (\<lambda>_. True) (eff_on_error (flush_frame crc flush f)
        (\<lambda>s. (fst s, (snd s)\<lparr>bp_frames := bm_insert v f (bp_frames (snd s))\<rparr>)))"
      unfolding flush_frame_def
      by (intro eff_keeps_on_error eff_keeps_if keeps_write_back len eff_keeps_base(1) TrueI behind_frames(2) sound_insert behind_frames(1) sound)
    then have "eff_keeps (behind crc) (\<lambda>_. True) (eff_bind (put_frames (bm_remove v)) (\<lambda>_. eff_on_error (flush_frame crc flush f)
        (\<lambda>s. (fst s, (snd s)\<lparr>bp_frames := bm_insert v f (bp_frames (snd s))\<rparr>))))"
      by (intro eff_keeps_seq keeps_put_frames) (simp_all add: sound_frames_def)
    from eff_keepsD [OF this b] e False v f show ?thesis
      by (simp add: ensure_capacity_def pool_get_def eff_bind_def [of "eff_get _"] eff_bind_def [of "eff_res _"])
  qed
qed

lemma keeps_fetch: "eff_keeps (behind crc) (\<lambda>_. True) (pool_fetch crc flush pid)"
  unfolding pool_fetch_def
proof (rule eff_keeps_seq [OF keeps_tick], rule eff_keeps_bind [OF keeps_pool_get [where Q = "\<lambda>p. sound_frames crc (bp_frames p)"]], assumption)
  fix access and p :: buffer_pool
  assume p: "sound_frames crc (bp_frames p)"
  have miss: "eff_keeps (behind crc) (\<lambda>_. True) (eff_bind (ensure_capacity crc flush) (\<lambda>_.
           eff_bind (pool_disk (disk_read_page crc pid)) (\<lambda>page.
             put_frames (bm_insert pid \<lparr>fr_page = page, fr_pin_count = 1, fr_dirty = False, fr_history = [access]\<rparr>))))"
    by (rule eff_keeps_seq [OF keeps_ensure_capacity], rule eff_keeps_bind [OF keeps_read], rule keeps_put_frames) (simp add: sound_insert)
  show "eff_keeps (behind crc) (\<lambda>_. True) (eff_bind (case bm_get (bp_frames p) pid of
         Some f \<Rightarrow> put_frames (bm_insert pid
           (record_access access (bp_k p) (f\<lparr>fr_pin_count := min (fr_pin_count f + 1) usize_max\<rparr>)))
       | None \<Rightarrow> eff_bind (ensure_capacity crc flush) (\<lambda>_.
           eff_bind (pool_disk (disk_read_page crc pid)) (\<lambda>page.
             put_frames (bm_insert pid \<lparr>fr_page = page, fr_pin_count = 1, fr_dirty = False, fr_history = [access]\<rparr>)))) (\<lambda>_.
       eff_return pid))"
  proof (rule eff_keeps_seq)
    show "eff_keeps (behind crc) (\<lambda>_. True) (case bm_get (bp_frames p) pid of
         Some f \<Rightarrow> put_frames (bm_insert pid
           (record_access access (bp_k p) (f\<lparr>fr_pin_count := min (fr_pin_count f + 1) usize_max\<rparr>)))
       | None \<Rightarrow> eff_bind (ensure_capacity crc flush) (\<lambda>_.
           eff_bind (pool_disk (disk_read_page crc pid)) (\<lambda>page.
             put_frames (bm_insert pid \<lparr>fr_page = page, fr_pin_count = 1, fr_dirty = False, fr_history = [access]\<rparr>))))"
      using miss sound_get [OF p, of pid]
      by (cases "bm_get (bp_frames p) pid") (auto intro!: keeps_put_frames sound_insert simp: record_access_def Let_def)
  qed (rule eff_keeps_base(1), rule TrueI)
qed

lemma keeps_install:
  assumes "length (pg_bytes page) = PAGE_SIZE"
  shows "eff_keeps (behind crc) (\<lambda>_. True) (pool_install crc flush page dirty)"
  unfolding pool_install_def Let_def
proof (rule eff_keeps_bind [OF eff_keeps_base(3) [where Q = "\<lambda>_. page_sound crc (page_id_of page) page"]])
  show "page_sound crc (page_id_of page) page" if "page_validate crc page = Inr x" for x
    using that assms page_validate_sound by simp
  assume s: "page_sound crc (page_id_of page) page"
  show "eff_keeps (behind crc) (\<lambda>_. True) (eff_bind (pool_get (\<lambda>p. bm_contains (bp_frames p) (page_id_of page))) (\<lambda>resident.
     eff_guard resident E_55000 (
     eff_bind (ensure_capacity crc flush) (\<lambda>_.
     eff_bind pool_tick (\<lambda>access.
       put_frames (bm_insert (page_id_of page)
         \<lparr>fr_page = page, fr_pin_count = 0, fr_dirty = dirty, fr_history = [access]\<rparr>))))))"
    by (intro eff_keeps_seq keeps_pool_get eff_keeps_guard keeps_ensure_capacity keeps_tick keeps_put_frames sound_insert TrueI)
      (use s in simp_all)
qed

lemma keeps_guard_frame: "eff_keeps (behind crc) (\<lambda>f. page_sound crc pid (fr_page f)) (guard_frame pid)"
  unfolding guard_frame_def
  by (rule eff_keeps_bind [OF keeps_pool_get [where Q = "\<lambda>fr. \<forall>f. fr = Some f \<longrightarrow> page_sound crc pid (fr_page f)"]])
    (auto simp: sound_get res_simps intro!: eff_keeps_base(3))

lemma keeps_replace:
  assumes "length (pg_bytes page) = PAGE_SIZE"
  shows "eff_keeps (behind crc) (\<lambda>_. True) (page_guard_replace crc pid page)"
  unfolding page_guard_replace_def
proof (rule eff_keeps_guard, rule eff_keeps_bind [OF eff_keeps_base(3) [where Q = "\<lambda>_. page_sound crc (page_id_of page) page"]])
  show "page_sound crc (page_id_of page) page" if "page_validate crc page = Inr x" for x
    using that assms page_validate_sound by simp
  assume "\<not> page_id_of page \<noteq> pid" and s: "page_sound crc (page_id_of page) page"
  then show "eff_keeps (behind crc) (\<lambda>_. True) (eff_bind (guard_frame pid) (\<lambda>f.
       put_frames (bm_insert pid (f\<lparr>fr_page := page, fr_dirty := True\<rparr>))))"
    by (intro eff_keeps_seq eff_keeps_weaken [OF keeps_guard_frame] keeps_put_frames sound_insert) simp_all
qed

lemma keeps_run:
  assumes "op_sized op"
  shows "eff_keeps (behind crc) (\<lambda>_. True) (pool_run crc flush op)"
proof (cases op)
  case (OpFetch pid)
  then show ?thesis by (simp only: pool_run.simps eff_done_def) (intro eff_keeps_seq keeps_fetch eff_keeps_base(1) TrueI)
next
  case (OpInstall page dirty)
  with assms keeps_install show ?thesis by (simp add: op_sized_def)
next
  case (OpFlushPage pid)
  then show ?thesis by (simp add: pool_flush_page_def keeps_flush_page)
next
  case OpFlushAll
  then show ?thesis
    by (simp only: pool_run.simps pool_flush_all_def) (intro eff_keeps_seq keeps_pool_get eff_keeps_each keeps_flush_page TrueI)
next
  case OpSync
  then show ?thesis by (simp add: keeps_sync)
next
  case (OpReplace pid page)
  with assms keeps_replace show ?thesis by (simp add: op_sized_def)
next
  case (OpInsertRecord pid rec)
  have "eff_keeps (behind crc) (\<lambda>_. True) (page_guard_insert_record crc pid rec)"
    unfolding page_guard_insert_record_def
  proof (rule eff_keeps_bind [OF keeps_guard_frame])
    fix f :: frame
    assume s: "page_sound crc pid (fr_page f)"
    obtain r page where pi: "page_insert crc rec (fr_page f) = (r, page)" by (cases "page_insert crc rec (fr_page f)")
    have "page_sound crc pid page" using page_insert_sound(1) [OF s, of rec] pi by simp
    then show "eff_keeps (behind crc) (\<lambda>_. True) (case page_insert crc rec (fr_page f) of (r, page) \<Rightarrow>
     eff_bind (put_frames (bm_insert pid (f\<lparr>fr_page := page\<rparr>))) (\<lambda>_.
     eff_bind (eff_res r) (\<lambda>slot.
     eff_bind (if slot \<noteq> None then put_frames (bm_insert pid (f\<lparr>fr_page := page, fr_dirty := True\<rparr>)) else eff_return ())
       (\<lambda>_. eff_return slot))))"
      unfolding pi prod.case
      by (intro eff_keeps_seq eff_keeps_base(1,3) eff_keeps_if TrueI keeps_put_frames sound_insert) simp_all
  qed
  with OpInsertRecord show ?thesis by (simp only: pool_run.simps eff_done_def) (intro eff_keeps_seq eff_keeps_base(1) TrueI)
next
  case (OpMarkDirty pid)
  have "eff_keeps (behind crc) (\<lambda>_. True) (page_guard_mark_dirty pid)"
    unfolding page_guard_mark_dirty_def
    by (rule eff_keeps_bind [OF keeps_guard_frame], rule keeps_put_frames) (simp add: sound_insert)
  with OpMarkDirty show ?thesis by simp
next
  case (OpDrop pid)
  have "eff_keeps (behind crc) (\<lambda>_. True) (page_guard_drop pid)"
    unfolding page_guard_drop_def
    by (rule keeps_put_frames) (auto intro!: sound_insert dest: sound_get split: option.split)
  with OpDrop show ?thesis by simp
next
  case (OpInvalidate pids)
  have "eff_keeps (behind crc) (\<lambda>_. True) (pool_invalidate_pages pids)"
    unfolding pool_invalidate_pages_def
    by (intro eff_keeps_seq keeps_pool_get eff_keeps_guard keeps_put_frames TrueI)
      (auto simp: sound_frames_def fold_remove_get split: if_splits)
  with OpInvalidate show ?thesis by simp
next
  case (OpResize n)
  have "eff_keeps (behind crc) (\<lambda>_. True) (pool_resize_pages n)"
    unfolding pool_resize_pages_def
    by (intro eff_keeps_seq keeps_pool_get eff_keeps_guard keeps_put_frames keeps_truncate TrueI)
      (auto simp: sound_frames_def split: option.splits if_splits)
  with OpResize show ?thesis by simp
next
  case OpReset
  have "eff_keeps (behind crc) (\<lambda>_. True) pool_reset_storage"
    unfolding pool_reset_storage_def pool_put_def
    by (intro eff_keeps_seq keeps_pool_get eff_keeps_guard eff_keeps_put keeps_truncate TrueI)
      (simp_all add: behind_def)
  with OpReset show ?thesis by simp
qed

lemma behind_steps:
  assumes "(pool_step crc flush wstep)\<^sup>*\<^sup>* t t'" and "behind crc (fst t)"
  shows "behind crc (fst t')"
  using assms
proof (induction rule: rtranclp_induct)
  case (step t1 t2)
  from step(2) step.IH [OF step.prems] show ?case
  proof cases
    case (step_run s gs op r s')
    with eff_keepsD [OF keeps_run [OF op_legal_sized [OF step_run(3)]] _ step_run(4)] step.IH [OF step.prems] show ?thesis by simp
  next
    case (step_barrier w w' p gs)
    with step.IH [OF step.prems] have b: "behind crc (w, p)" by simp
    then have "winv w'" "logged (durable w') (df_bytes (bp_disk p))"
      using step_inv step_later step_barrier(3) logged_mono [of "durable w" _ "durable w'"] by (auto simp: behind_def)
    with b show ?thesis by (simp add: step_barrier(2) behind_def)
  qed
qed

end

text \<open>The barrier of a store without a log lets no page with a sequence number through.\<close>

interpretation no_wal: durability_barrier no_wal_flush_through "\<lambda>_ _. False" "\<lambda>_. True" "\<lambda>_ _. False"
  by unfold_locales (auto simp: no_wal_flush_through_def split: if_splits)

section \<open>Flushing everything\<close>

lemma flush_page_clean:
  assumes "flush_page_locked crc flush pid s = (Inr x, s')" and "bm_get (bp_frames (snd s')) q = Some f'"
  shows "\<exists>f. bm_get (bp_frames (snd s)) q = Some f \<and> (fr_dirty f' \<longrightarrow> fr_dirty f \<and> q \<noteq> pid)"
proof (cases "bm_get (bp_frames (snd s)) pid")
  case None
  with assms(1) show ?thesis by (simp add: flush_page_locked_def pool_get_def eff_bind_def)
next
  case (Some f)
  have W: "bp_frames (snd s1) = bp_frames (snd s)" if "write_back crc flush (fr_page f) s = (r1, s1)" for r1 s1
    using that by (auto simp: write_back_def eff_bind_def pool_simps split: prod.splits sum.splits)
  obtain r1 s1 where w: "write_back crc flush (fr_page f) s = (r1, s1)" by (cases "write_back crc flush (fr_page f) s")
  show ?thesis
  proof (cases "fr_dirty f")
    case True
    with W [OF w] Some assms w show ?thesis
      by (cases r1) (auto simp: flush_page_locked_def pool_get_def eff_bind_def put_frames_def pool_put_def split: if_splits)
  qed (use assms Some in \<open>auto simp: flush_page_locked_def pool_get_def eff_bind_def\<close>)
qed

lemma each_flush_clean:
  assumes "eff_each (flush_page_locked crc flush) pids s = (Inr x, s')" and "bm_get (bp_frames (snd s')) q = Some f'"
  shows "\<exists>f. bm_get (bp_frames (snd s)) q = Some f \<and> (fr_dirty f' \<longrightarrow> fr_dirty f \<and> q \<notin> set pids)"
  using assms
proof (induction pids arbitrary: s)
  case Nil
  then show ?case by simp
next
  case (Cons pid pids)
  from Cons.prems(1) obtain y s1 where 1: "flush_page_locked crc flush pid s = (Inr y, s1)"
    and 2: "eff_each (flush_page_locked crc flush) pids s1 = (Inr x, s')" by (auto elim!: eff_bind_Ok)
  from Cons.IH [OF 2 Cons.prems(2)] obtain f1 where f1: "bm_get (bp_frames (snd s1)) q = Some f1"
    "fr_dirty f' \<longrightarrow> fr_dirty f1 \<and> q \<notin> set pids" by blast
  from flush_page_clean [OF 1 f1(1)] f1(2) show ?case by auto
qed

section \<open>Dropping pages\<close>

text \<open>
  The operations that drop pages from the pool without writing them. What a program sees of such
  a page then is what the file has.
\<close>

fun drops_pages :: "pool_op \<Rightarrow> bool" where
  "drops_pages (OpInvalidate _) = True"
| "drops_pages (OpResize _) = True"
| "drops_pages OpReset = True"
| "drops_pages _ = False"

lemma legal_cache_op: "op_legal crc p gs op \<Longrightarrow> \<not> drops_pages op \<Longrightarrow> cache_op crc p op"
  by (cases op) simp_all

lemma invalidate_view:
  assumes "pool_invalidate_pages pids s = (r, s')"
  shows "pool_view crc (snd s') =
    (\<lambda>pid. if is_ok r \<and> pid \<in> set pids then disk_view crc (bp_disk (snd s)) pid else pool_view crc (snd s) pid)"
  using assms
  by (auto simp: pool_invalidate_pages_def pool_get_def eff_bind_def eff_guard_def put_frames_def pool_put_def pool_view_def
      fold_remove_get fun_eq_iff split: if_splits option.split)

lemma truncated_view:
  assumes t: "disk_truncate_pages n (bp_disk p) = (r, d)"
    and "\<And>pid. bm_get fs pid = (if pid < n then bm_get (bp_frames p) pid else None)"
  shows "pid < n \<Longrightarrow> pool_view crc p pid = Some pg \<Longrightarrow> pool_view crc (p\<lparr>bp_frames := fs, bp_clock := c, bp_disk := d\<rparr>) pid = Some pg"
    and "n \<le> pid \<Longrightarrow> pool_view crc (p\<lparr>bp_frames := fs, bp_clock := c, bp_disk := d\<rparr>) pid =
      (if is_ok r then None else disk_view crc (bp_disk p) pid)"
  using assms(2) truncate_view [OF t, where crc = crc] by (auto simp: pool_view_def split: option.splits)

lemma resize_view:
  assumes "pool_run crc flush op s = (r, s')" and "op = OpResize n \<or> op = OpReset \<and> n = 0"
  shows "pid < n \<Longrightarrow> pool_view crc (snd s) pid = Some pg \<Longrightarrow> pool_view crc (snd s') pid = Some pg"
    and "n \<le> pid \<Longrightarrow> is_ok r \<Longrightarrow> pool_view crc (snd s') pid = None"
    and "n \<le> pid \<Longrightarrow> \<not> is_ok r \<Longrightarrow> pool_view crc (snd s') pid \<in> {pool_view crc (snd s) pid, disk_view crc (bp_disk (snd s)) pid}"
proof -
  obtain q d where t: "disk_truncate_pages n (bp_disk (snd s)) = (q, d)" by (cases "disk_truncate_pages n (bp_disk (snd s))")
  have "snd s' = snd s \<and> \<not> is_ok r \<or> is_ok q = is_ok r \<and> (\<exists>fs c. snd s' = (snd s)\<lparr>bp_frames := fs, bp_clock := c, bp_disk := d\<rparr> \<and>
      (\<forall>pid. bm_get fs pid = (if pid < n then bm_get (bp_frames (snd s)) pid else None)))"
    using assms(2)
  proof
    assume op: "op = OpResize n"
    let ?fs = "bm_retain (\<lambda>pid _. pid < n) (bp_frames (snd s))"
    have fs: "bm_get ?fs pid = (if pid < n then bm_get (bp_frames (snd s)) pid else None)" for pid
      by (simp split: option.split)
    have "snd s' = snd s \<and> \<not> is_ok r \<or> is_ok q = is_ok r \<and> snd s' = (snd s)\<lparr>bp_frames := ?fs, bp_disk := d\<rparr>"
      using assms(1) t by (auto simp: op pool_resize_pages_def eff_bind_def eff_guard_def pool_simps split: if_splits)
    moreover have "(snd s)\<lparr>bp_frames := ?fs, bp_disk := d\<rparr> = (snd s)\<lparr>bp_frames := ?fs, bp_clock := bp_clock (snd s), bp_disk := d\<rparr>"
      by (cases "snd s") simp
    ultimately show ?thesis using fs by metis
  next
    assume op: "op = OpReset \<and> n = 0"
    have "snd s' = snd s \<and> \<not> is_ok r \<or> is_ok q = is_ok r \<and> snd s' = (snd s)\<lparr>bp_frames := bm_empty, bp_clock := 0, bp_disk := d\<rparr>"
      using assms(1) t op by (auto simp: pool_reset_storage_def eff_bind_def eff_guard_def pool_simps split: if_splits)
    moreover have "bm_get bm_empty pid = (if pid < n then bm_get (bp_frames (snd s)) pid else None)" for pid
      using op by simp
    ultimately show ?thesis by metis
  qed
  with truncated_view [OF t, where crc = crc and pid = pid]
  show "pid < n \<Longrightarrow> pool_view crc (snd s) pid = Some pg \<Longrightarrow> pool_view crc (snd s') pid = Some pg"
    and "n \<le> pid \<Longrightarrow> is_ok r \<Longrightarrow> pool_view crc (snd s') pid = None"
    and "n \<le> pid \<Longrightarrow> \<not> is_ok r \<Longrightarrow> pool_view crc (snd s') pid \<in> {pool_view crc (snd s) pid, disk_view crc (bp_disk (snd s)) pid}"
    by auto
qed

section \<open>Properties\<close>

text \<open>
  C32. The buffer pool is transparent. Threads work on the pool in any order, with any capacity, any
  outcome of the file system and any barrier, under one contract, \<open>op_legal\<close>: a guard operation
  has its guard, and a page that is installed as clean is the one in the file (\<open>install\<close> does not
  check it; its only caller, \<open>database_store.rs\<close>, installs dirty pages). An operation that does not
  drop pages changes the visible pages exactly as on a map from page ids to pages: replacing and
  installing a page and inserting a record are updates; fetching, marking, releasing, flushing,
  synchronizing and every one of these operations that fails change nothing, so neither eviction nor
  a failed write-back loses a page version. Operations that drop pages fall back to the file: after
  invalidating, the dropped pages are those of the file and the others stay; resizing to \<open>n\<close> pages (a
  reset is one to 0) keeps the visible pages below \<open>n\<close>, and from \<open>n\<close> on leaves none when it succeeds,
  and the page as it was or that of the file when it fails.
\<close>

theorem buffer_refines_map:
  assumes "pool_new disk capacity = Inr p" and "(pool_step crc flush wstep)\<^sup>*\<^sup>* ((w, p), {#}) (s, gs)"
    and "op_legal crc (snd s) gs op" and "pool_run crc flush op s = (r, s')"
  shows "(\<not> drops_pages op \<longrightarrow> pool_view crc (snd s') = view_op crc op (is_ok r) (pool_view crc (snd s))) \<and>
    (\<forall>pids. op = OpInvalidate pids \<longrightarrow> pool_view crc (snd s') =
       (\<lambda>pid. if is_ok r \<and> pid \<in> set pids then disk_view crc (bp_disk (snd s)) pid else pool_view crc (snd s) pid)) \<and>
    (\<forall>n. op = OpResize n \<or> op = OpReset \<and> n = 0 \<longrightarrow>
       (\<forall>pid pg. pid < n \<and> pool_view crc (snd s) pid = Some pg \<longrightarrow> pool_view crc (snd s') pid = Some pg) \<and>
       (\<forall>pid. n \<le> pid \<longrightarrow> (if is_ok r then pool_view crc (snd s') pid = None
          else pool_view crc (snd s') pid \<in> {pool_view crc (snd s) pid, disk_view crc (bp_disk (snd s)) pid})))"
proof -
  have inv: "pool_inv crc (snd s)"
    using pool_sys_reach [OF assms(2) pool_sys_new [OF assms(1)]] by (simp add: pool_sys_def)
  have "pool_view crc (snd s') = view_op crc op (is_ok r) (pool_view crc (snd s))" if "\<not> drops_pages op"
    using pool_run_view [OF assms(4) inv legal_cache_op [OF assms(3) that] op_legal_sized [OF assms(3)]] inv by (simp add: pool_to_def)
  moreover have "pool_view crc (snd s') = (\<lambda>pid. if is_ok r \<and> pid \<in> set pids then disk_view crc (bp_disk (snd s)) pid else pool_view crc (snd s) pid)"
    if "op = OpInvalidate pids" for pids
    using invalidate_view [of pids s r s' crc] assms(4) that by simp
  ultimately show ?thesis using resize_view [OF assms(4)] by simp
qed

definition empty_disk :: disk_manager where
  "empty_disk = \<lparr>df_bytes = [], df_io = [], dm_read_only = False\<rparr>"

definition empty_pool :: buffer_pool where
  "empty_pool = \<lparr>bp_disk = empty_disk, bp_capacity = 1, bp_k = 2, bp_clock = 0, bp_frames = bm_empty\<rparr>"

lemma empty_pool_new: "pool_new empty_disk 1 = Inr empty_pool"
  by (simp add: pool_new_def empty_pool_def)

abbreviation (input) zero_crc :: "u8 list \<Rightarrow> u32" where
  "zero_crc \<equiv> (\<lambda>_. 0)"

text \<open>A page with a sequence number, and a pool with one frame that holds it as dirty.\<close>

definition lsn_page :: "u64 \<Rightarrow> slotted_page" where
  "lsn_page l = page_set_lsn zero_crc l (page_new zero_crc 0 Heap)"

definition one_page_pool :: "u64 \<Rightarrow> buffer_pool" where
  "one_page_pool l = empty_pool\<lparr>bp_clock := 1, bp_frames := bm_insert 0
     \<lparr>fr_page = lsn_page l, fr_pin_count = 0, fr_dirty = True, fr_history = [1]\<rparr> bm_empty\<rparr>"

lemma lsn_page_facts: "page_validate zero_crc (lsn_page l) = Inr ()" "page_id_of (lsn_page l) = 0" "page_lsn (lsn_page l) = l"
  "length (pg_bytes (lsn_page l)) = PAGE_SIZE"
proof -
  note v = page_set_lsn_valid [OF page_new_valid_lemma [of zero_crc 0 Heap], of l]
  with page_valid_length [of zero_crc 0 "pg_bytes (lsn_page l)"] validate_page_iff [of "pg_bytes (lsn_page l)" zero_crc 0]
  show "page_validate zero_crc (lsn_page l) = Inr ()" "page_id_of (lsn_page l) = 0" "length (pg_bytes (lsn_page l)) = PAGE_SIZE"
    by (simp_all add: page_validate_def page_valid_def page_id_of_def lsn_page_def)
  show "page_lsn (lsn_page l) = l" using v by (simp add: lsn_page_def)
qed

lemma install_lsn_page: "pool_run zero_crc flush (OpInstall (lsn_page l) True) (w, empty_pool) = (Inr (), (w, one_page_pool l))"
  by (simp add: pool_install_def Let_def lsn_page_facts eff_bind_def eff_guard_def pool_simps ensure_capacity_def pool_tick_def
      empty_pool_def one_page_pool_def bm_contains_def bm_len_def saturating_add_u64_def checked_add_u64_code)

lemma install_lsn_step:
  "(pool_step zero_crc flush wstep)\<^sup>*\<^sup>* ((w, empty_pool), {#}) ((w, one_page_pool l), {#})"
proof -
  have "pool_step zero_crc flush wstep ((w, empty_pool), {#})
      ((w, one_page_pool l), guards_after (OpInstall (lsn_page l) True) (is_ok (Inr () :: unit res)) {#})"
    by (rule step_run [OF _ install_lsn_page]) (simp add: lsn_page_facts)
  then show ?thesis by simp
qed

lemma write_lsn_page:
  "disk_write_page zero_crc (lsn_page l) empty_disk = (Inr (), empty_disk\<lparr>df_bytes := pg_bytes (lsn_page l)\<rparr>)"
  by (simp add: empty_disk_def eff_bind_def lsn_page_facts disk_write_page_def ensure_writable_def disk_page_count_def splice_def
      eff_guard_def page_offset_def checked_mul_u64_def df_write_def df_call_def df_next_io_def sealed_bytes_def res_simps)

lemma buffer_refines_map_witness:
  "pool_view zero_crc (one_page_pool 0) 0 = Some (lsn_page 0) \<and>
   pool_view zero_crc (snd (snd (pool_run zero_crc no_wal_flush_through (OpInvalidate [0]) ((), one_page_pool 0)))) 0 = None"
proof -
  have "pool_view zero_crc (one_page_pool 0) 0 = Some (lsn_page 0)"
    using buffer_refines_map [OF empty_pool_new rtranclp.rtrancl_refl _ install_lsn_page, of "\<lambda>_ _. False"]
    by (simp add: lsn_page_facts)
  moreover obtain r s' where r: "pool_run zero_crc no_wal_flush_through (OpInvalidate [0]) ((), one_page_pool 0) = (r, s')"
    by (cases "pool_run zero_crc no_wal_flush_through (OpInvalidate [0]) ((), one_page_pool 0)")
  moreover have "r = Inr ()"
    using r by (simp add: pool_invalidate_pages_def pool_simps eff_bind_def eff_guard_def one_page_pool_def split: if_splits)
  moreover have "disk_view zero_crc (bp_disk (one_page_pool 0)) 0 = None"
    by (simp add: one_page_pool_def empty_pool_def empty_disk_def disk_view_def page_total_def)
  ultimately show ?thesis
    using buffer_refines_map [OF empty_pool_new install_lsn_step _ r] by simp
qed

text \<open>
  C34. Pinned pages stay, under the contract \<open>op_legal\<close> of the operations. As long as a thread holds a page guard its page is resident, no
  eviction removes it, and reading through the guard returns the page that programs see; the
  pin count of every frame is the number of its guards, and there are never more frames than
  the capacity.
\<close>

theorem pinned_pages_resident:
  assumes "pool_new disk capacity = Inr p" and "(pool_step crc flush wstep)\<^sup>*\<^sup>* ((w, p), {#}) (s, gs)"
  shows "bm_len (bp_frames (snd s)) \<le> bp_capacity (snd s) \<and> pins (snd s) = count gs \<and>
    (\<forall>pid \<in># gs. \<exists>pg. fst (page_guard_snapshot pid s) = Inr pg \<and> pool_view crc (snd s) pid = Some pg)"
proof -
  have sys: "pool_inv crc (snd s)" "pins (snd s) = count gs"
    using pool_sys_reach [OF assms(2) pool_sys_new [OF assms(1)]] by (simp_all add: pool_sys_def)
  have "\<exists>pg. fst (page_guard_snapshot pid s) = Inr pg \<and> pool_view crc (snd s) pid = Some pg" if "pid \<in># gs" for pid
  proof -
    have "pins (snd s) pid \<noteq> 0" using sys(2) that by simp
    then obtain f where "bm_get (bp_frames (snd s)) pid = Some f" by (auto simp: frame_pins_def split: option.splits)
    then show ?thesis by (simp add: page_guard_snapshot_def guard_frame_cases eff_bind_def pool_view_def)
  qed
  with sys pool_invD(2) show ?thesis by blast
qed

lemma pinned_pages_resident_witness:
  "\<exists>s. pool_fetch zero_crc no_wal_flush_through 0 ((), one_page_pool 0) = (Inr 0, s) \<and> pins (snd s) 0 = 1 \<and>
     fst (page_guard_snapshot 0 s) = Inr (lsn_page 0)"
proof -
  obtain s where s: "pool_fetch zero_crc no_wal_flush_through 0 ((), one_page_pool 0) = (Inr 0, s)"
    and v: "pool_view zero_crc (snd s) 0 = Some (lsn_page 0)"
    by (simp add: fetch_hit one_page_pool_def record_access_def Let_def pool_view_def)
  have "pool_step zero_crc no_wal_flush_through (\<lambda>_ _. False) (((), one_page_pool 0), {#}) (s, guards_after (OpFetch 0) (is_ok (Inr () :: unit res)) {#})"
    by (rule step_run) (simp_all add: s eff_done_def eff_bind_def usize_max_def)
  then have "pool_step zero_crc no_wal_flush_through (\<lambda>_ _. False) (((), one_page_pool 0), {#}) (s, {#0#})" by simp
  note run = rtranclp.rtrancl_into_rtrancl [OF install_lsn_step this]
  from pinned_pages_resident [OF empty_pool_new run] s v show ?thesis by auto
qed

text \<open>
  C35. Threads work on the pool under the contract \<open>op_legal\<close> of its operations, in particular a page
  that is installed as clean is the one in the file (\<open>install\<close> does not check it; its only caller
  installs dirty pages). When \<open>flush_all\<close> then returns without an error, no frame is dirty, and every
  page that programs saw before is the one in the file.
\<close>

theorem flush_all_writes_everything:
  assumes "pool_new disk capacity = Inr p" and "(pool_step crc flush wstep)\<^sup>*\<^sup>* ((w, p), {#}) (s, gs)"
    and "pool_flush_all crc flush s = (Inr (), s')"
  shows "disk_view crc (bp_disk (snd s')) = pool_view crc (snd s) \<and>
    (\<forall>pid f. bm_get (bp_frames (snd s')) pid = Some f \<longrightarrow> \<not> fr_dirty f)"
proof -
  have inv: "pool_inv crc (snd s)"
    using pool_sys_reach [OF assms(2) pool_sys_new [OF assms(1)]] by (simp add: pool_sys_def)
  have each: "eff_each (flush_page_locked crc flush) (bm_keys (bp_frames (snd s))) s = (Inr (), s')"
    using assms(3) by (simp add: pool_flush_all_def pool_get_def eff_bind_def)
  have clean: "\<not> fr_dirty f" if "bm_get (bp_frames (snd s')) pid = Some f" for pid f
    using each_flush_clean [OF each that] by (auto simp: set_bm_keys)
  have k: "pool_inv crc (snd s')" "pool_view crc (snd s') = pool_view crc (snd s)"
    using each_flush_keeps [OF each] inv by (simp_all add: pool_to_def)
  have "disk_view crc (bp_disk (snd s')) = pool_view crc (snd s')"
    using pool_invD(4) [OF k(1)] clean by (fastforce simp: pool_view_def fun_eq_iff split: option.split)
  with clean k(2) show ?thesis by simp
qed

lemma flush_lsn_page: "fst (pool_flush_all zero_crc no_wal_flush_through ((), one_page_pool 0)) = Inr ()"
  by (simp add: pool_flush_all_def flush_page_locked_def write_back_def pool_simps eff_bind_def one_page_pool_def lsn_page_facts
      empty_pool_def no_wal_flush_through_def bm_keys_def write_lsn_page)

lemma flush_all_writes_everything_witness:
  "disk_view zero_crc (bp_disk (snd (snd (pool_flush_all zero_crc no_wal_flush_through ((), one_page_pool 0))))) 0 = Some (lsn_page 0)"
proof -
  let ?f = "pool_flush_all zero_crc no_wal_flush_through ((), one_page_pool 0)"
  have "?f = (Inr (), snd ?f)" using flush_lsn_page by (simp add: prod_eq_iff)
  from flush_all_writes_everything [OF empty_pool_new install_lsn_step this] show ?thesis
    by (simp add: one_page_pool_def pool_view_def)
qed

end
