(* ===== verification/WalRule.thy ===== *)
theory WalRule
  imports BufferSafety WalSafety
begin

text \<open>
  The buffer pool over the write-ahead log: the barrier of the pool is \<open>flush_through\<close> of the
  log manager, and no page with a sequence number is in the data file before its log record
  is on the disk, as long as no two calls on the log file in a row fail.
\<close>

definition wal_durable :: "(u8 list \<Rightarrow> u32) \<Rightarrow> wal_manager \<Rightarrow> u64 \<Rightarrow> bool" where
  "wal_durable crc w l \<longleftrightarrow> (\<exists>r. durable_at crc w (unat l - 1) r)"

lemma flush_through_later: "wal_later crc w (snd (flush_through l w))"
proof (cases "l = 0")
  case True
  then show ?thesis by (simp add: flush_through_def wal_later_refl)
next
  case False
  then have "flush_through l w = flush_lsn l w" by (simp add: flush_through_def eff_bind_def lsn_try_from_def lsn_new_def)
  with keeps_later [OF flush_keeps, of crc w l] show ?thesis by simp
qed

lemma flush_through_durable:
  assumes ok: "wal_ok crc log w" and f: "flush_through l w = (Inr x, w')" and nz: "l \<noteq> 0"
  shows "wal_durable crc w' l"
proof -
  from f nz have fl: "flush_lsn l w = (Inr x, w')" by (simp add: flush_through_def eff_bind_def lsn_try_from_def lsn_new_def)
  then obtain y w1 z w2 where 1: "check_fault BeforeWalFlush w = (Inr y, w1)" and 2: "sync_locked l w1 = (Inr z, w2)"
    unfolding flush_lsn_def by (auto elim!: eff_bind_Ok)
  have next1: "wm_next_lsn w1 = wm_next_lsn w" using 1 by (auto simp: check_fault_def split: prod.splits)
  have "l \<le> wm_next_lsn w1 - 1"
  proof (rule ccontr)
    assume "\<not> l \<le> wm_next_lsn w1 - 1"
    then have "\<exists>e. fst (sync_locked l w1) = Inl e"
      by (auto simp: sync_locked_def eff_bind_def lsn_new_def not_le)
    with 2 show False by simp
  qed
  moreover have "wm_next_lsn w \<noteq> 0" using wal_okD(4) [OF ok] by auto
  ultimately have "unat l \<le> length log"
    using unat_minus_one [of "wm_next_lsn w"] wal_okD(4) [OF ok] by (simp add: next1 word_le_nat_alt)
  moreover have "unat l \<noteq> 0" using nz by (simp add: unat_eq_0)
  ultimately have "appended_at crc w (unat l - 1) (log ! (unat l - 1))" using ok by (auto simp: appended_at_def)
  with flush_durable [OF fl this] \<open>unat l \<noteq> 0\<close> show ?thesis unfolding wal_durable_def by auto
qed

interpretation wal: durability_barrier flush_through "wal_step crc" "\<lambda>w. \<exists>log. wal_ok crc log w" "wal_durable crc" for crc
proof unfold_locales
  fix w w' :: wal_manager and l m and x :: unit and crc
  show "l = 0 \<or> wal_durable crc w' l" if "\<exists>log. wal_ok crc log w" "flush_through l w = (Inr x, w')"
    using that flush_through_durable by blast
  show "\<exists>log. wal_ok crc log (snd (flush_through l w))" if "\<exists>log. wal_ok crc log w"
    using that wal_laterD [OF flush_through_later] by blast
  show "wal_durable crc (snd (flush_through l w)) m" if "wal_durable crc w m"
    using that durable_later [OF flush_through_later] unfolding wal_durable_def by blast
  show "\<exists>log. wal_ok crc log w'" if "\<exists>log. wal_ok crc log w" "wal_step crc w w'"
    using that wal_laterD [OF wal_step_later] by blast
  show "wal_durable crc w' m" if "wal_step crc w w'" "wal_durable crc w m"
    using that durable_later [OF wal_step_later] unfolding wal_durable_def by blast
qed

section \<open>Properties\<close>

text \<open>
  C33. The write-ahead rule, when no two calls to the operating system on the log file in a row
  fail (\<open>no_double_fault\<close>, in the runs of the log before and after; without it an acknowledged record
  may be lost when the log is opened again, \<open>double_fault_breaks_log\<close>). Let threads work on the buffer
  pool, under the contract \<open>op_legal\<close>, and on the log in any order, with failing calls to the data
  file, torn page writes included, as long as the disk writes whole sectors (\<open>sector_io\<close>). If the rule
  holds of the data file at the start, then every page in it whose sequence number is not zero has
  its log record on the disk at any time: after any number of crashes of the machine the log that is
  opened again contains the record with that number.
\<close>

theorem wal_before_data:
  assumes "wal_reach no_double_fault crc w0" and "pool_new disk capacity = Inr p0"
    and "logged (wal_durable crc w0) (df_bytes disk)" and "sector_io (df_io disk)"
    and "(pool_step crc flush_through (wal_step crc))\<^sup>*\<^sup>* ((w0, p0), {#}) ((w, p), gs)"
    and "i * PAGE_SIZE + 24 \<le> length (df_bytes (bp_disk p))"
    and "l = read_u64 (df_bytes (bp_disk p)) (i * PAGE_SIZE + 16)" and "l \<noteq> 0"
    and "(wal_next no_double_fault crc)\<^sup>*\<^sup>* w w'"
  shows "\<exists>log end_off. scan_loop crc (lf_bytes (wm_file w')) 0 = Inr (log, end_off, True) \<and>
    unat l \<le> length log \<and> wr_lsn (log ! (unat l - 1)) = l"
proof -
  have "\<exists>log. wal_ok crc log w0" by (rule wal_reach_ok [OF assms(1)])
  moreover have "bp_disk p0 = disk" "bp_frames p0 = bm_empty" using assms(2) by (auto simp: pool_new_def res_simps)
  ultimately have "wal.behind crc crc (w0, p0)" using assms(3,4) by (simp add: wal.behind_def)
  from wal.behind_steps [OF assms(5)] this have "wal.behind crc crc (w, p)" by simp
  then have "wal_durable crc w l" using assms(6-8) by (auto simp: wal.behind_def logged_def)
  then obtain r where "durable_at crc w (unat l - 1) r" by (auto simp: wal_durable_def)
  from durable_appended [OF durable_next [OF assms(9) this]] obtain log where
    ok: "wal_ok crc log w'" and i: "unat l - 1 < length log" by (auto simp: appended_at_def)
  have "unat l \<noteq> 0" using assms(8) by (simp add: unat_eq_0)
  then have "wr_lsn (log ! (unat l - 1)) = l" using wal_okD(3) [OF ok i] by (simp del: of_nat_Suc)
  moreover have "scan_loop crc (lf_bytes (wm_file w')) 0 = Inr (log, length (log_bytes crc log), True)"
    using scan_loop_log [OF wal_okD(1) [OF ok], of "[]" 0] wal_okD(2) [OF ok] by simp
  ultimately show ?thesis using i by (intro exI [of _ log]) auto
qed

text \<open>
  A page with sequence number 1 is dirty in the pool and its record is appended, but not yet
  synchronized: flushing the page first synchronizes the log.
\<close>

lemma flush_page_one:
  "pool_run zero_crc flush_through (OpFlushPage 0) (appended_one zero_crc, one_page_pool 1) =
     (Inr (), (begun_one zero_crc [], (one_page_pool 1)\<lparr>bp_disk := empty_disk\<lparr>df_bytes := pg_bytes (lsn_page 1)\<rparr>,
        bp_frames := bm_insert 0 \<lparr>fr_page = lsn_page 1, fr_pin_count = 0, fr_dirty = False, fr_history = [1]\<rparr> bm_empty\<rparr>))"
proof -
  have f: "flush_lsn 1 (appended_one zero_crc) = (Inr (), begun_one zero_crc [])"
    using sync_appended_one [of zero_crc]
    by (simp add: flush_lsn_def check_fault_def inj_check_def eff_bind_def appended_one_def begun_one_def)
  have same: "bm_insert 0 a (bm_insert 0 b bm_empty) = bm_insert (0 :: u64) a bm_empty" for a b :: frame
    by (intro bm_eqI) simp
  show ?thesis
    using write_lsn_page [of 1]
    by (simp add: pool_flush_page_def flush_page_locked_def write_back_def pool_simps eff_bind_def one_page_pool_def lsn_page_facts
        empty_pool_def flush_through_def lsn_try_from_def lsn_new_def f same)
qed

lemma wal_before_data_witness:
  "\<exists>log end_off. scan_loop zero_crc (lf_bytes (wm_file (begun_one zero_crc []))) 0 = Inr (log, end_off, True) \<and>
    1 \<le> length log \<and> wr_lsn (log ! 0) = 1"
proof -
  let ?p = "(one_page_pool 1)\<lparr>bp_disk := empty_disk\<lparr>df_bytes := pg_bytes (lsn_page 1)\<rparr>,
        bp_frames := bm_insert 0 \<lparr>fr_page = lsn_page 1, fr_pin_count = 0, fr_dirty = False, fr_history = [1]\<rparr> bm_empty\<rparr>"
  have "pool_step zero_crc flush_through (wal_step zero_crc) ((appended_one zero_crc, one_page_pool 1), {#})
      ((begun_one zero_crc [], ?p), guards_after (OpFlushPage 0) (is_ok (Inr () :: unit res)) {#})"
    by (rule step_run [OF _ flush_page_one]) simp
  then have flush: "pool_step zero_crc flush_through (wal_step zero_crc) ((appended_one zero_crc, one_page_pool 1), {#})
      ((begun_one zero_crc [], ?p), {#})" by simp
  note run = rtranclp.rtrancl_into_rtrancl [OF install_lsn_step flush]
  have "logged (wal_durable zero_crc (appended_one zero_crc)) (df_bytes empty_disk)" "sector_io (df_io empty_disk)"
    by (simp_all add: logged_def sector_io_def empty_disk_def)
  from wal_before_data [OF appended_one_reach empty_pool_new this run, of 0 1 "begun_one zero_crc []"] lsn_page_facts [of 1]
  show ?thesis by (simp add: page_lsn_def)
qed

end
