(* ===== verification/Recovery.thy ===== *)
theory Recovery
  imports Wal Disk
begin

text \<open>
  Crash recovery, crates/ordadb-transaction/src/recovery_parts/recovery_pipeline.rs: the
  analysis of the log, the redo of its page images and resizes, the undo of the losers with
  compensation records, and the checkpoint at the end.

  The state is the log manager, the data file, and the two variables that the passes share
  (\<open>current_page_count\<close> and the report). The mutex that serializes recoveries is not
  modelled. The generation of the recovered database comes from the loader of the store,
  which is a parameter here: a function of the bytes of the data file.
\<close>

section \<open>State\<close>

record recovery_report =
  rr_scanned_records :: nat
  rr_truncated_tail_bytes :: nat
  rr_analysis_start_lsn :: "lsn option"
  rr_redo_start_lsn :: "lsn option"
  rr_checkpoint_begin_lsn :: "lsn option"
  rr_checkpoint_end_lsn :: "lsn option"
  rr_recovery_checkpoint_lsn :: "lsn option"
  rr_winners :: "transaction_id btree_set"
  rr_losers :: "transaction_id btree_set"
  rr_dirty_pages :: "(page_id, lsn) btree_map"
  rr_redone_page_records :: nat
  rr_redone_resize_records :: nat
  rr_undone_records :: nat
  rr_compensation_records :: nat
  rr_final_page_count :: u64

definition report_default :: recovery_report where
  "report_default =
     \<lparr>rr_scanned_records = 0, rr_truncated_tail_bytes = 0, rr_analysis_start_lsn = None, rr_redo_start_lsn = None,
      rr_checkpoint_begin_lsn = None, rr_checkpoint_end_lsn = None, rr_recovery_checkpoint_lsn = None,
      rr_winners = bm_empty, rr_losers = bm_empty, rr_dirty_pages = bm_empty, rr_redone_page_records = 0,
      rr_redone_resize_records = 0, rr_undone_records = 0, rr_compensation_records = 0, rr_final_page_count = 0\<rparr>"

datatype transaction_status = TsActive | TsCommitted | TsAborted

record transaction_analysis =
  ta_last_lsn :: lsn
  ta_status :: transaction_status

type_synonym transaction_analyses = "(transaction_id, transaction_analysis) btree_map"

record complete_checkpoint =
  cc_begin_lsn :: lsn
  cc_end_lsn :: lsn
  cc_begin :: checkpoint_begin

record analysis =
  an_records_by_lsn :: "(lsn, wal_record) btree_map"
  an_transactions :: transaction_analyses
  an_dirty_pages :: "(page_id, lsn) btree_map"
  an_checkpoint :: "complete_checkpoint option"
  an_redo_start_lsn :: "lsn option"

record recovery_state =
  rs_wal :: wal_manager
  rs_file :: recovery_file
  rs_page_count :: u64
  rs_report :: recovery_report

type_synonym 'a rec_eff = "(recovery_state, 'a) eff"

definition on_wal :: "'a wal_eff \<Rightarrow> 'a rec_eff" where
  "on_wal = eff_on rs_wal (\<lambda>w s. s\<lparr>rs_wal := w\<rparr>)"

definition on_file :: "(recovery_file, 'a) eff \<Rightarrow> 'a rec_eff" where
  "on_file = eff_on rs_file (\<lambda>f s. s\<lparr>rs_file := f\<rparr>)"

definition rec_fault :: "fault_point \<Rightarrow> unit rec_eff" where
  "rec_fault p = on_wal (check_fault p)"

definition put_count :: "(u64 \<Rightarrow> u64) \<Rightarrow> unit rec_eff" where
  "put_count f = eff_put (\<lambda>s. s\<lparr>rs_page_count := f (rs_page_count s)\<rparr>)"

definition put_report :: "(recovery_report \<Rightarrow> recovery_report) \<Rightarrow> unit rec_eff" where
  "put_report f = eff_put (\<lambda>s. s\<lparr>rs_report := f (rs_report s)\<rparr>)"

section \<open>Analysis\<close>

definition update_transaction ::
  "transaction_id \<Rightarrow> lsn \<Rightarrow> transaction_status \<Rightarrow> transaction_analyses \<Rightarrow> transaction_analyses res" where
  "update_transaction t l status ts =
     try_bind (ok_or E_XX001 (bm_get ts t)) (\<lambda>ta. Inr (bm_insert t (ta\<lparr>ta_last_lsn := l, ta_status := status\<rparr>) ts))"

fun find_checkpoint_step ::
  "wal_record \<Rightarrow> (lsn, checkpoint_begin) btree_map \<times> complete_checkpoint option \<Rightarrow>
     (lsn, checkpoint_begin) btree_map \<times> complete_checkpoint option" where
  "find_checkpoint_step r (begins, complete) =
     (case wr_payload r of
        WpCheckpointBegin cb \<Rightarrow> (bm_insert (wr_lsn r) cb begins, complete)
      | WpCheckpointEnd ce \<Rightarrow>
          (case bm_get begins (ce_begin_lsn ce) of
             Some cb \<Rightarrow> (begins, Some \<lparr>cc_begin_lsn = ce_begin_lsn ce, cc_end_lsn = wr_lsn r, cc_begin = cb\<rparr>)
           | None \<Rightarrow> (begins, complete))
      | _ \<Rightarrow> (begins, complete))"

definition find_last_complete_checkpoint :: "wal_record list \<Rightarrow> complete_checkpoint option" where
  "find_last_complete_checkpoint rs = snd (fold find_checkpoint_step rs (bm_empty, None))"

definition analyze_transaction :: "wal_record \<Rightarrow> transaction_analyses \<Rightarrow> transaction_analyses res" where
  "analyze_transaction r ts =
     (case wr_txn r of
        None \<Rightarrow> Inr ts
      | Some t \<Rightarrow>
          (case wr_kind r of
             RkBegin \<Rightarrow> Inr (bm_insert t \<lparr>ta_last_lsn = wr_lsn r, ta_status = TsActive\<rparr> ts)
           | RkCommit \<Rightarrow> update_transaction t (wr_lsn r) TsCommitted ts
           | RkAbort \<Rightarrow> update_transaction t (wr_lsn r) TsAborted ts
           | RkPageUpdate \<Rightarrow> update_transaction t (wr_lsn r) TsActive ts
           | RkResize \<Rightarrow> update_transaction t (wr_lsn r) TsActive ts
           | RkCompensation \<Rightarrow> update_transaction t (wr_lsn r) TsActive ts
           | _ \<Rightarrow> Inl E_XX001))"

primrec analyze_records ::
  "wal_record list \<Rightarrow> (lsn, wal_record) btree_map \<Rightarrow> transaction_analyses \<Rightarrow>
     ((lsn, wal_record) btree_map \<times> transaction_analyses) res" where
  "analyze_records [] by_lsn ts = Inr (by_lsn, ts)"
| "analyze_records (r # rs) by_lsn ts =
     guard_res (bm_contains by_lsn (wr_lsn r)) E_XX001
       (try_bind (analyze_transaction r ts) (analyze_records rs (bm_insert (wr_lsn r) r by_lsn)))"

definition page_record_id :: "wal_payload \<Rightarrow> page_id option" where
  "page_record_id p = (case p of WpPageUpdate pid _ _ \<Rightarrow> Some pid | WpCompensation pid _ _ _ \<Rightarrow> Some pid | _ \<Rightarrow> None)"

primrec validate_active_references ::
  "(lsn, wal_record) btree_map \<Rightarrow> (transaction_id \<times> lsn) list \<Rightarrow> unit res" where
  "validate_active_references by_lsn [] = Inr ()"
| "validate_active_references by_lsn (x # xs) =
     try_bind (ok_or E_XX001 (bm_get by_lsn (snd x))) (\<lambda>r.
     guard_res (wr_txn r \<noteq> Some (fst x)) E_XX001 (validate_active_references by_lsn xs))"

primrec validate_dirty_references ::
  "(lsn, wal_record) btree_map \<Rightarrow> (page_id \<times> lsn) list \<Rightarrow> unit res" where
  "validate_dirty_references by_lsn [] = Inr ()"
| "validate_dirty_references by_lsn (x # xs) =
     try_bind (ok_or E_XX001 (bm_get by_lsn (snd x))) (\<lambda>r.
     try_bind (ok_or E_XX001 (page_record_id (wr_payload r))) (\<lambda>pid.
     guard_res (pid \<noteq> fst x) E_XX001 (validate_dirty_references by_lsn xs)))"

definition validate_checkpoint_references ::
  "complete_checkpoint option \<Rightarrow> (lsn, wal_record) btree_map \<Rightarrow> unit res" where
  "validate_checkpoint_references checkpoint by_lsn =
     (case checkpoint of
        None \<Rightarrow> Inr ()
      | Some cc \<Rightarrow>
          try_bind (validate_active_references by_lsn (bm_list (cb_active_transactions (cc_begin cc)))) (\<lambda>_.
            validate_dirty_references by_lsn (bm_list (cb_dirty_pages (cc_begin cc)))))"

definition add_dirty_page :: "wal_record \<Rightarrow> (page_id, lsn) btree_map \<Rightarrow> (page_id, lsn) btree_map" where
  "add_dirty_page r dirty =
     (case page_record_id (wr_payload r) of None \<Rightarrow> dirty | Some pid \<Rightarrow> bm_entry pid (wr_lsn r) dirty)"

definition analyze :: "wal_record list \<Rightarrow> analysis res" where
  "analyze rs =
     (let checkpoint = find_last_complete_checkpoint rs in
      try_bind (analyze_records rs bm_empty bm_empty) (\<lambda>(by_lsn, ts).
      try_bind (validate_checkpoint_references checkpoint by_lsn) (\<lambda>_.
        let dirty = (case checkpoint of None \<Rightarrow> bm_empty | Some cc \<Rightarrow> cb_dirty_pages (cc_begin cc));
            after = filter (\<lambda>r. case checkpoint of None \<Rightarrow> True | Some cc \<Rightarrow> cc_begin_lsn cc < wr_lsn r) rs;
            dirty = fold add_dirty_page after dirty
        in Inr \<lparr>an_records_by_lsn = by_lsn, an_transactions = ts, an_dirty_pages = dirty, an_checkpoint = checkpoint,
                an_redo_start_lsn = list_min (bm_values dirty)\<rparr>)))"

definition transactions_with :: "transaction_status \<Rightarrow> transaction_analyses \<Rightarrow> transaction_id btree_set" where
  "transactions_with status ts = bs_of_list (map fst (filter (\<lambda>(_, ta). ta_status ta = status) (bm_list ts)))"

definition transaction_outcomes :: "transaction_analyses \<Rightarrow> transaction_id btree_set \<times> transaction_id btree_set" where
  "transaction_outcomes ts = (transactions_with TsCommitted ts, transactions_with TsActive ts)"

primrec final_page_count_from :: "wal_record list \<Rightarrow> transaction_analyses \<Rightarrow> u64 \<Rightarrow> u64 res" where
  "final_page_count_from [] ts n = guard_res (n = 0) E_XX001 (Inr n)"
| "final_page_count_from (r # rs) ts n =
     (case wr_payload r of
        WpResize before after \<Rightarrow>
          try_bind (ok_or E_XX001 (wr_txn r)) (\<lambda>t.
          try_bind (ok_or E_XX001 (bm_get ts t)) (\<lambda>ta.
            final_page_count_from rs ts (if ta_status ta = TsCommitted then after else before)))
      | _ \<Rightarrow> final_page_count_from rs ts n)"

definition final_page_count :: "u64 \<Rightarrow> wal_record list \<Rightarrow> transaction_analyses \<Rightarrow> u64 res" where
  "final_page_count inspected rs ts = final_page_count_from rs ts inspected"

definition recovery_page_ids :: "wal_record list \<Rightarrow> page_id btree_set" where
  "recovery_page_ids rs = bs_of_list (List.map_filter (\<lambda>r. page_record_id (wr_payload r)) rs)"

section \<open>Redo\<close>

definition next_page_count :: "page_id \<Rightarrow> u64 res" where
  "next_page_count pid = ok_or E_54000 (checked_add_u64 pid 1)"

definition page_needs_redo :: "(u8 list \<Rightarrow> u32) \<Rightarrow> page_id \<Rightarrow> lsn \<Rightarrow> bool rec_eff" where
  "page_needs_redo crc pid l =
     eff_bind (on_file (rf_read_page crc pid)) (\<lambda>page.
       eff_return (case page of None \<Rightarrow> True | Some pg \<Rightarrow> page_lsn pg < l))"

text \<open>Writing a page, and resizing the file, between their two fault points.\<close>

definition rec_apply_page :: "(u8 list \<Rightarrow> u32) \<Rightarrow> slotted_page \<Rightarrow> page_id \<Rightarrow> unit rec_eff" where
  "rec_apply_page crc page pid =
     eff_bind (rec_fault BeforeDataPageWrite) (\<lambda>_.
     eff_bind (on_file (rf_apply_page crc page)) (\<lambda>_.
     eff_bind (rec_fault AfterDataPageWrite) (\<lambda>_.
     eff_bind (eff_res (next_page_count pid)) (\<lambda>n. put_count (\<lambda>c. max c n)))))"

definition rec_resize :: "u64 \<Rightarrow> unit rec_eff" where
  "rec_resize n =
     eff_bind (rec_fault BeforeDataResize) (\<lambda>_.
     eff_bind (on_file (rf_resize_pages n)) (\<lambda>_.
     eff_bind (rec_fault AfterDataResize) (\<lambda>_. put_count (\<lambda>_. n))))"

definition apply_compensation ::
  "(u8 list \<Rightarrow> u32) \<Rightarrow> lsn \<Rightarrow> page_id \<Rightarrow> slotted_page option \<Rightarrow> u64 \<Rightarrow> unit rec_eff" where
  "apply_compensation crc l pid undo resulting =
     eff_bind (rec_fault BeforeCompensationApply) (\<lambda>_.
     eff_bind (eff_get rs_page_count) (\<lambda>c.
     eff_bind (if c < resulting then rec_resize resulting else eff_return ()) (\<lambda>_.
     eff_bind (case undo of
         None \<Rightarrow> eff_return ()
       | Some page \<Rightarrow> eff_bind (page_needs_redo crc pid l) (\<lambda>needed.
           if needed then rec_apply_page crc page pid else eff_return ())) (\<lambda>_.
     eff_bind (eff_get rs_page_count) (\<lambda>c.
       if resulting < c then rec_resize resulting else eff_return ())))))"

definition redo_record :: "(u8 list \<Rightarrow> u32) \<Rightarrow> wal_record \<Rightarrow> unit rec_eff" where
  "redo_record crc r =
     (case wr_payload r of
        WpPageUpdate pid _ after \<Rightarrow>
          (case after of
             None \<Rightarrow> eff_return ()
           | Some page \<Rightarrow>
               eff_bind (page_needs_redo crc pid (wr_lsn r)) (\<lambda>needed.
               if needed then
                 eff_bind (rec_apply_page crc page pid) (\<lambda>_.
                   put_report (\<lambda>rr. rr\<lparr>rr_redone_page_records := count_up (rr_redone_page_records rr)\<rparr>))
               else eff_return ()))
      | WpResize _ after \<Rightarrow>
          eff_bind (rec_resize after) (\<lambda>_.
            put_report (\<lambda>rr. rr\<lparr>rr_redone_resize_records := count_up (rr_redone_resize_records rr)\<rparr>))
      | WpCompensation pid undo resulting _ \<Rightarrow>
          eff_bind (apply_compensation crc (wr_lsn r) pid undo resulting) (\<lambda>_.
            put_report (\<lambda>rr. rr\<lparr>rr_redone_page_records := count_up (rr_redone_page_records rr)\<rparr>))
      | _ \<Rightarrow> eff_return ())"

section \<open>Undo\<close>

text \<open>
  The queue of \<open>undo_losers\<close>: a binary heap of LSNs with reversed transaction ids, whose
  maximum is the record with the largest LSN and, among equal ones, the smallest id.
\<close>

definition undo_first :: "lsn \<times> transaction_id \<Rightarrow> lsn \<times> transaction_id \<Rightarrow> bool" where
  "undo_first x y = (fst y < fst x \<or> (fst x = fst y \<and> snd x < snd y))"

fun pop_max :: "(lsn \<times> transaction_id) list \<Rightarrow> ((lsn \<times> transaction_id) \<times> (lsn \<times> transaction_id) list) option" where
  "pop_max [] = None"
| "pop_max (x # xs) =
     (case pop_max xs of
        None \<Rightarrow> Some (x, [])
      | Some (m, rest) \<Rightarrow> if undo_first x m then Some (x, xs) else Some (m, x # rest))"

definition undone :: "unit rec_eff" where
  "undone = put_report (\<lambda>rr. rr\<lparr>rr_undone_records := count_up (rr_undone_records rr),
     rr_compensation_records := count_up (rr_compensation_records rr)\<rparr>)"

definition undo_page_update ::
  "(u8 list \<Rightarrow> u32) \<Rightarrow> transaction_id \<Rightarrow> lsn option \<Rightarrow> page_id \<Rightarrow> slotted_page option \<Rightarrow> unit rec_eff" where
  "undo_page_update crc t undo_next pid before =
     eff_bind (eff_get rs_page_count) (\<lambda>c.
     eff_bind (on_wal (append_compensation crc t pid before c undo_next)) (\<lambda>(_, undo).
     eff_bind (rec_fault BeforeCompensationApply) (\<lambda>_.
     eff_bind (case undo of None \<Rightarrow> eff_return () | Some page \<Rightarrow> rec_apply_page crc page pid) (\<lambda>_. undone))))"

definition undo_resize :: "(u8 list \<Rightarrow> u32) \<Rightarrow> transaction_id \<Rightarrow> lsn option \<Rightarrow> u64 \<Rightarrow> unit rec_eff" where
  "undo_resize crc t undo_next before =
     eff_bind (on_wal (append_compensation crc t (if before = 0 then 0 else before - 1) None before undo_next)) (\<lambda>_.
     eff_bind (rec_fault BeforeCompensationApply) (\<lambda>_.
     eff_bind (rec_resize before) (\<lambda>_. undone)))"

definition undo_step :: "(u8 list \<Rightarrow> u32) \<Rightarrow> analysis \<Rightarrow> lsn \<Rightarrow> transaction_id \<Rightarrow> lsn option rec_eff" where
  "undo_step crc an l t =
     eff_bind (eff_res (ok_or E_XX001 (bm_get (an_records_by_lsn an) l))) (\<lambda>r.
     case wr_payload r of
       WpBegin \<Rightarrow> eff_bind (on_wal (wal_abort crc t)) (\<lambda>_. eff_return None)
     | WpPageUpdate pid before _ \<Rightarrow>
         eff_bind (undo_page_update crc t (wr_prev r) pid before) (\<lambda>_. eff_return (wr_prev r))
     | WpResize before _ \<Rightarrow>
         eff_bind (undo_resize crc t (wr_prev r) before) (\<lambda>_. eff_return (wr_prev r))
     | WpCompensation _ _ _ undo_next \<Rightarrow> eff_return undo_next
     | _ \<Rightarrow> eff_fail E_XX001)"

text \<open>The loop over the queue; not returning is the value \<open>None\<close>.\<close>

partial_function (option) undo_loop ::
  "(u8 list \<Rightarrow> u32) \<Rightarrow> analysis \<Rightarrow> (lsn \<times> transaction_id) list \<Rightarrow> recovery_state \<Rightarrow> (unit res \<times> recovery_state) option" where
  "undo_loop crc an queue s =
     (case pop_max queue of
        None \<Rightarrow> Some (Inr (), s)
      | Some ((l, t), rest) \<Rightarrow>
          (case undo_step crc an l t s of
             (Inl e, s') \<Rightarrow> Some (Inl e, s')
           | (Inr next, s') \<Rightarrow> undo_loop crc an (case next of None \<Rightarrow> rest | Some n \<Rightarrow> (n, t) # rest) s'))"

primrec undo_queue :: "transaction_analyses \<Rightarrow> transaction_id list \<Rightarrow> (lsn \<times> transaction_id) list res" where
  "undo_queue ts [] = Inr []"
| "undo_queue ts (t # tids) =
     try_bind (ok_or E_XX001 (bm_get ts t)) (\<lambda>ta.
     try_bind (undo_queue ts tids) (\<lambda>queue. Inr ((ta_last_lsn ta, t) # queue)))"

definition undo_losers ::
  "(u8 list \<Rightarrow> u32) \<Rightarrow> analysis \<Rightarrow> transaction_id btree_set \<Rightarrow> recovery_state \<Rightarrow> (unit res \<times> recovery_state) option" where
  "undo_losers crc an losers s =
     (case undo_queue (an_transactions an) (bm_keys losers) of
        Inl e \<Rightarrow> Some (Inl e, s)
      | Inr queue \<Rightarrow> undo_loop crc an queue s)"

section \<open>Recovery\<close>

text \<open>\<open>recover\<close> before the undo pass, and after it; the first part may return the report at once.\<close>

definition recover_redo ::
  "(u8 list \<Rightarrow> u32) \<Rightarrow> nat \<Rightarrow> (analysis \<times> u64) option rec_eff" where
  "recover_redo crc truncated =
     eff_bind (on_wal (scan_file crc False)) (\<lambda>scan.
     let records = sr_records scan in
     eff_bind (put_report (\<lambda>_. report_default\<lparr>rr_scanned_records := length records, rr_truncated_tail_bytes := truncated\<rparr>)) (\<lambda>_.
     if records = [] then eff_return None
     else
       eff_bind (eff_res (analyze records)) (\<lambda>an.
       let (winners, losers) = transaction_outcomes (an_transactions an) in
       eff_bind (put_report (\<lambda>rr. rr\<lparr>rr_winners := winners, rr_losers := losers, rr_dirty_pages := an_dirty_pages an,
         rr_redo_start_lsn := an_redo_start_lsn an,
         rr_analysis_start_lsn := (case an_checkpoint an of Some cc \<Rightarrow> Some (cc_begin_lsn cc) | None \<Rightarrow> Some (wr_lsn (hd records))),
         rr_checkpoint_begin_lsn := map_option cc_begin_lsn (an_checkpoint an),
         rr_checkpoint_end_lsn := map_option cc_end_lsn (an_checkpoint an)\<rparr>)) (\<lambda>_.
       eff_bind (eff_get (\<lambda>s. of_nat (logical_page_count (rf_inspect (Some (df_bytes (rs_file s))))))) (\<lambda>inspected.
       eff_bind (eff_res (final_page_count inspected records (an_transactions an))) (\<lambda>final.
       eff_bind (on_file (rf_open final (recovery_page_ids records))) (\<lambda>_.
       eff_bind (put_count (\<lambda>_. inspected)) (\<lambda>_.
       eff_bind (case an_redo_start_lsn an of
           None \<Rightarrow> eff_return ()
         | Some start \<Rightarrow> eff_each (redo_record crc) (filter (\<lambda>r. start \<le> wr_lsn r) records)) (\<lambda>_.
         eff_return (Some (an, final)))))))))))"

definition recover_finish ::
  "(u8 list \<Rightarrow> u32) \<Rightarrow> (u8 list \<Rightarrow> u64 res) \<Rightarrow> u64 \<Rightarrow> recovery_report rec_eff" where
  "recover_finish crc load_generation final =
     eff_bind (eff_get rs_page_count) (\<lambda>c.
     eff_bind (if c \<noteq> final then
         eff_bind (rec_fault BeforeDataResize) (\<lambda>_.
         eff_bind (on_file (rf_resize_pages final)) (\<lambda>_. rec_fault AfterDataResize))
       else eff_return ()) (\<lambda>_.
     eff_bind (rec_fault BeforeDataSync) (\<lambda>_.
     eff_bind (on_file rf_sync_all) (\<lambda>_.
     eff_bind (rec_fault AfterDataSync) (\<lambda>_.
     eff_bind (on_file (rf_finish crc)) (\<lambda>_.
     eff_bind (eff_get (\<lambda>s. load_generation (df_bytes (rs_file s)))) (\<lambda>loaded.
     eff_bind (eff_res loaded) (\<lambda>generation.
     eff_bind (eff_get (\<lambda>s. wm_durable_lsn (rs_wal s))) (\<lambda>durable.
     eff_bind (on_wal (wal_checkpoint crc \<lparr>cs_active_transactions = bm_empty, cs_dirty_pages = bm_empty,
         cs_visibility_horizon = None, cs_durable_data_generation = generation, cs_durable_wal_lsn = durable,
         cs_data_file_page_count = final\<rparr>)) (\<lambda>checkpoint_lsn.
     eff_bind (put_report (\<lambda>rr. rr\<lparr>rr_recovery_checkpoint_lsn := Some checkpoint_lsn, rr_final_page_count := final\<rparr>)) (\<lambda>_.
       eff_get rs_report)))))))))))"

definition recover ::
  "(u8 list \<Rightarrow> u32) \<Rightarrow> (u8 list \<Rightarrow> u64 res) \<Rightarrow> nat \<Rightarrow> recovery_state \<Rightarrow> (recovery_report res \<times> recovery_state) option" where
  "recover crc load_generation truncated s =
     (case recover_redo crc truncated s of
        (Inl e, s1) \<Rightarrow> Some (Inl e, s1)
      | (Inr None, s1) \<Rightarrow> Some (Inr (rs_report s1), s1)
      | (Inr (Some (an, final)), s1) \<Rightarrow>
          (case undo_losers crc an (snd (transaction_outcomes (an_transactions an))) s1 of
             None \<Rightarrow> None
           | Some (Inl e, s2) \<Rightarrow> Some (Inl e, s2)
           | Some (Inr _, s2) \<Rightarrow> Some (recover_finish crc load_generation final s2)))"

end
