(* ===== verification/Interval.thy ===== *)
theory Interval
  imports OrdaBase
begin

text \<open>
  Intervals and their text form, crates/ordadb-types/src/lib.rs: \<open>PgInterval\<close> with
  \<open>Display\<close> and \<open>FromStr\<close>. A string is a list of characters; \<open>i64\<close> and \<open>i128\<close> values that the
  code computes with checks are integers with the bounds written out. What the standard
  library does is modelled: \<open>str::parse\<close> of an integer takes an optional sign and at least one
  decimal digit, \<open>split_whitespace\<close> drops empty pieces, and \<open>split\<close> keeps them.
\<close>

section \<open>Integers in a range\<close>

definition in_signed :: "nat \<Rightarrow> int \<Rightarrow> bool" where
  "in_signed w i \<longleftrightarrow> - (2 ^ (w - 1)) \<le> i \<and> i < 2 ^ (w - 1)"

definition checked_signed :: "nat \<Rightarrow> int \<Rightarrow> int option" where
  "checked_signed w i = (if in_signed w i then Some i else None)"

lemma checked_signed_Some [simp]: "in_signed w i \<Longrightarrow> checked_signed w i = Some i"
  by (simp add: checked_signed_def)

lemma in_signed_64: "in_signed 64 i \<longleftrightarrow> - 9223372036854775808 \<le> i \<and> i < 9223372036854775808"
  by (simp add: in_signed_def)

lemma in_signed_128:
  "in_signed 128 i \<longleftrightarrow> - 170141183460469231731687303715884105728 \<le> i \<and> i < 170141183460469231731687303715884105728"
  by (simp add: in_signed_def)

lemma in_signed_32: "in_signed 32 i \<longleftrightarrow> - 2147483648 \<le> i \<and> i < 2147483648"
  by (simp add: in_signed_def)

section \<open>Decimal text\<close>

definition digit :: "nat \<Rightarrow> char" where
  "digit d = char_of (48 + d)"

definition is_digit :: "char \<Rightarrow> bool" where
  "is_digit c \<longleftrightarrow> 48 \<le> (of_char c :: nat) \<and> (of_char c :: nat) \<le> 57"

definition digit_value :: "char \<Rightarrow> nat" where
  "digit_value c = of_char c - 48"

fun show_nat :: "nat \<Rightarrow> string" where
  "show_nat n = (if n < 10 then [digit n] else show_nat (n div 10) @ [digit (n mod 10)])"

declare show_nat.simps [simp del]

definition show_int :: "int \<Rightarrow> string" where
  "show_int i = (if i < 0 then CHR ''-'' # show_nat (nat (- i)) else show_nat (nat i))"

text \<open>\<open>{:0w}\<close> of a value that is not negative.\<close>

definition show_padded :: "nat \<Rightarrow> nat \<Rightarrow> string" where
  "show_padded w n = replicate (w - length (show_nat n)) (CHR ''0'') @ show_nat n"

definition digits_value :: "string \<Rightarrow> nat" where
  "digits_value ds = foldl (\<lambda>acc c. acc * 10 + digit_value c) 0 ds"

text \<open>\<open>str::parse\<close> for the signed types and for the unsigned ones.\<close>

definition parse_digits :: "string \<Rightarrow> nat option" where
  "parse_digits s = (if s \<noteq> [] \<and> list_all is_digit s then Some (digits_value s) else None)"

definition parse_signed :: "nat \<Rightarrow> string \<Rightarrow> int option" where
  "parse_signed w s =
     (case s of
        [] \<Rightarrow> None
      | c # cs \<Rightarrow>
          if c = CHR ''-'' then Option.bind (parse_digits cs) (\<lambda>n. checked_signed w (- int n))
          else Option.bind (parse_digits (if c = CHR ''+'' then cs else s)) (\<lambda>n. checked_signed w (int n)))"

definition parse_u8 :: "string \<Rightarrow> nat option" where
  "parse_u8 s =
     Option.bind (parse_digits (case s of [] \<Rightarrow> [] | c # cs \<Rightarrow> if c = CHR ''+'' then cs else s))
       (\<lambda>n. if n < 256 then Some n else None)"

text \<open>\<open>split(c)\<close>, \<open>split_whitespace\<close> and \<open>to_ascii_lowercase\<close>.\<close>

fun split_on :: "char \<Rightarrow> string \<Rightarrow> string list" where
  "split_on c [] = [[]]"
| "split_on c (x # xs) =
     (if x = c then [] # split_on c xs
      else case split_on c xs of [] \<Rightarrow> [[x]] | p # ps \<Rightarrow> (x # p) # ps)"

definition is_space :: "char \<Rightarrow> bool" where
  "is_space c \<longleftrightarrow> (let n = of_char c :: nat in 9 \<le> n \<and> n \<le> 13 \<or> n = 32 \<or> n = 133 \<or> n = 160)"

fun words_from :: "string \<Rightarrow> string \<Rightarrow> string list" where
  "words_from acc [] = (if acc = [] then [] else [rev acc])"
| "words_from acc (x # xs) =
     (if is_space x then (if acc = [] then words_from [] xs else rev acc # words_from [] xs)
      else words_from (x # acc) xs)"

definition split_whitespace :: "string \<Rightarrow> string list" where
  "split_whitespace s = words_from [] s"

definition to_ascii_lowercase :: "string \<Rightarrow> string" where
  "to_ascii_lowercase s =
     map (\<lambda>c. let n = of_char c :: nat in if 65 \<le> n \<and> n \<le> 90 then char_of (n + 32) else c) s"

text \<open>\<open>strip_prefix(['-', '+'])\<close> with the whole string when there is no sign.\<close>

definition strip_sign :: "string \<Rightarrow> string" where
  "strip_sign s = (case s of [] \<Rightarrow> [] | c # cs \<Rightarrow> if c = CHR ''-'' \<or> c = CHR ''+'' then cs else s)"

section \<open>Intervals\<close>

record pg_interval =
  iv_months :: u32
  iv_days :: u32
  iv_microseconds :: u64

definition interval_display :: "pg_interval \<Rightarrow> string" where
  "interval_display i =
     (let us = sint (iv_microseconds i);
          micros = nat \<bar>us\<bar>;
          hours = micros div 3600000000;
          minutes = micros div 60000000 mod 60;
          seconds = micros div 1000000 mod 60;
          fraction = micros mod 1000000
      in show_int (sint (iv_months i)) @ '' mons '' @ show_int (sint (iv_days i)) @ '' days '' @
         (if us < 0 then ''-'' else '''') @ show_padded 2 hours @ '':'' @ show_padded 2 minutes @ '':'' @
         show_padded 2 seconds @ ''.'' @ show_padded 6 fraction)"

definition parse_interval_integer :: "string \<Rightarrow> int res" where
  "parse_interval_integer s = ok_or E_22007 (parse_signed 64 s)"

definition add_interval_unit :: "int \<Rightarrow> int \<Rightarrow> int \<Rightarrow> int res" where
  "add_interval_unit current v multiplier =
     try_bind (ok_or E_22015 (checked_signed 128 (v * multiplier))) (\<lambda>x.
       ok_or E_22015 (checked_signed 128 (current + x)))"

definition parse_interval_seconds :: "string \<Rightarrow> int res" where
  "parse_interval_seconds s =
     (let negative = (take 1 s = ''-'');
          parts = split_on (CHR ''.'') (strip_sign s)
      in try_bind (ok_or E_22007 (parse_signed 64 (hd parts))) (\<lambda>whole.
         let fraction = (if length parts < 2 then [] else parts ! 1) in
         guard_res (2 < length parts \<or> 6 < length fraction \<or> \<not> list_all is_digit fraction) E_22007 (
         let micros = (if fraction = [] then 0 else int (digits_value fraction) * 10 ^ (6 - length fraction)) + whole * 1000000
         in Inr (if negative then - micros else micros))))"

definition parse_interval_clock :: "string \<Rightarrow> int res" where
  "parse_interval_clock s =
     (let negative = (take 1 s = ''-'');
          fields = split_on (CHR '':'') (strip_sign s)
      in guard_res (length fields \<noteq> 3) E_22007 (
         try_bind (ok_or E_22007 (parse_signed 64 (fields ! 0))) (\<lambda>hours.
         try_bind (ok_or E_22007 (parse_u8 (fields ! 1))) (\<lambda>minutes.
         guard_res (60 \<le> minutes) E_22007 (
         try_bind (parse_interval_seconds (fields ! 2)) (\<lambda>seconds.
         guard_res (60000000 \<le> \<bar>seconds\<bar>) E_22007 (
         try_bind (ok_or E_22015 (checked_signed 128 (hours * 3600000000))) (\<lambda>x.
         try_bind (ok_or E_22015 (checked_signed 128 (x + int minutes * 60000000))) (\<lambda>x.
         try_bind (ok_or E_22015 (checked_signed 128 (x + seconds))) (\<lambda>total.
           Inr (if negative then - total else total)))))))))))"

text \<open>The loop of \<open>from_str\<close> over the tokens; the fields so far are months, days and microseconds.\<close>

definition interval_field :: "string \<Rightarrow> string \<Rightarrow> int \<times> int \<times> int \<Rightarrow> (int \<times> int \<times> int) res" where
  "interval_field token unit_name acc =
     (case acc of (months, days, us) \<Rightarrow>
      let u = to_ascii_lowercase unit_name in
      if u \<in> set [''year'', ''years''] then
        try_bind (parse_interval_integer token) (\<lambda>v.
        try_bind (ok_or E_22015 (checked_signed 64 (v * 12))) (\<lambda>x.
        try_bind (ok_or E_22015 (checked_signed 64 (months + x))) (\<lambda>m. Inr (m, days, us))))
      else if u \<in> set [''mon'', ''mons'', ''month'', ''months''] then
        try_bind (parse_interval_integer token) (\<lambda>v.
        try_bind (ok_or E_22015 (checked_signed 64 (months + v))) (\<lambda>m. Inr (m, days, us)))
      else if u \<in> set [''day'', ''days''] then
        try_bind (parse_interval_integer token) (\<lambda>v.
        try_bind (ok_or E_22015 (checked_signed 64 (days + v))) (\<lambda>d. Inr (months, d, us)))
      else if u \<in> set [''hour'', ''hours''] then
        try_bind (parse_interval_integer token) (\<lambda>v.
        try_bind (add_interval_unit us v 3600000000) (\<lambda>x. Inr (months, days, x)))
      else if u \<in> set [''minute'', ''minutes'', ''min'', ''mins''] then
        try_bind (parse_interval_integer token) (\<lambda>v.
        try_bind (add_interval_unit us v 60000000) (\<lambda>x. Inr (months, days, x)))
      else if u \<in> set [''second'', ''seconds'', ''sec'', ''secs''] then
        try_bind (parse_interval_seconds token) (\<lambda>v.
        try_bind (ok_or E_22015 (checked_signed 128 (us + v))) (\<lambda>x. Inr (months, days, x)))
      else if u \<in> set [''millisecond'', ''milliseconds'', ''msec'', ''msecs''] then
        try_bind (parse_interval_integer token) (\<lambda>v.
        try_bind (add_interval_unit us v 1000) (\<lambda>x. Inr (months, days, x)))
      else if u \<in> set [''microsecond'', ''microseconds'', ''usec'', ''usecs''] then
        try_bind (parse_interval_integer token) (\<lambda>v.
        try_bind (add_interval_unit us v 1) (\<lambda>x. Inr (months, days, x)))
      else Inl E_22007)"

fun interval_tokens :: "string list \<Rightarrow> int \<times> int \<times> int \<Rightarrow> (int \<times> int \<times> int) res" where
  "interval_tokens [] acc = Inr acc"
| "interval_tokens (token # rest) acc =
     (if CHR '':'' \<in> set token then
        try_bind (parse_interval_clock token) (\<lambda>t.
        try_bind (ok_or E_22015 (checked_signed 128 (snd (snd acc) + t))) (\<lambda>us.
          interval_tokens rest (fst acc, fst (snd acc), us)))
      else case rest of
        [] \<Rightarrow> Inl E_22007
      | unit_name # rest' \<Rightarrow> try_bind (interval_field token unit_name acc) (interval_tokens rest'))"

definition interval_from_str :: "string \<Rightarrow> pg_interval res" where
  "interval_from_str input =
     (let tokens = split_whitespace input in
      guard_res (tokens = []) E_22007 (
      try_bind (interval_tokens tokens (0, 0, 0)) (\<lambda>(months, days, us).
      try_bind (ok_or E_22015 (checked_signed 32 months)) (\<lambda>m.
      try_bind (ok_or E_22015 (checked_signed 32 days)) (\<lambda>d.
      try_bind (ok_or E_22015 (checked_signed 64 us)) (\<lambda>u.
        Inr \<lparr>iv_months = of_int m, iv_days = of_int d, iv_microseconds = of_int u\<rparr>))))))"

section \<open>Parsing what was printed\<close>

named_theorems text_simps "decimal text and its pieces"

lemma digit_facts [text_simps]:
  assumes "d < 10"
  shows "is_digit (digit d)" "digit_value (digit d) = d"
  using assms by (simp_all add: is_digit_def digit_def digit_value_def)

lemma is_digit_not [text_simps]:
  assumes "is_digit c"
  shows "c \<noteq> CHR ''-''" "c \<noteq> CHR ''+''" "c \<noteq> CHR '':''" "c \<noteq> CHR ''.''" "\<not> is_space c"
  using assms by (auto simp: is_digit_def is_space_def Let_def)

lemma digits_value_append: "digits_value (xs @ [c]) = digits_value xs * 10 + digit_value c"
  by (simp add: digits_value_def)

lemma show_nat_digits [text_simps]: "list_all is_digit (show_nat n)"
  by (induction n rule: show_nat.induct) (subst show_nat.simps, simp add: text_simps)

lemma show_nat_nonempty [text_simps]: "show_nat n \<noteq> []"
  by (subst show_nat.simps) simp

lemma digits_value_show [text_simps]: "digits_value (show_nat n) = n"
proof (induction n rule: show_nat.induct)
  case (1 n)
  then show ?case
    by (subst show_nat.simps) (auto simp: digits_value_append text_simps, simp add: digits_value_def text_simps)
qed

lemma length_show_nat: "n < 10 ^ w \<Longrightarrow> 0 < w \<Longrightarrow> length (show_nat n) \<le> w"
proof (induction n arbitrary: w rule: show_nat.induct)
  case (1 n)
  show ?case
  proof (cases "n < 10")
    case True
    then show ?thesis using 1(3) by (subst show_nat.simps) simp
  next
    case False
    obtain v where w: "w = Suc v" using 1(3) by (cases w) auto
    have v: "0 < v" using False 1(2) w by (cases v) auto
    have "n div 10 < 10 ^ v" using 1(2) w by (simp add: less_mult_imp_div_less mult.commute)
    from 1(1) [OF False this v] show ?thesis using False w by (subst show_nat.simps) simp
  qed
qed

lemma digits_value_zeros: "digits_value (replicate k (CHR ''0'') @ xs) = digits_value xs"
  by (induction k) (simp_all add: digits_value_def digit_value_def)

lemma show_padded_facts [text_simps]:
  "list_all is_digit (show_padded w n)" "show_padded w n \<noteq> []" "digits_value (show_padded w n) = n"
  by (auto simp: show_padded_def text_simps digits_value_zeros list_all_iff is_digit_def set_replicate_conv_if)
    (metis is_digit_def list_all_iff show_nat_digits)+

lemma length_show_padded: "n < 10 ^ w \<Longrightarrow> 0 < w \<Longrightarrow> length (show_padded w n) = w"
  using length_show_nat [of n w] by (simp add: show_padded_def)

lemma parse_digits_Some: "s \<noteq> [] \<Longrightarrow> list_all is_digit s \<Longrightarrow> parse_digits s = Some (digits_value s)"
  by (simp add: parse_digits_def)

lemma parse_signed_digits:
  assumes "s \<noteq> []" and "list_all is_digit s" and "in_signed w (int (digits_value s))"
  shows "parse_signed w s = Some (int (digits_value s))"
  using assms by (cases s) (auto simp: parse_signed_def parse_digits_Some text_simps)

lemma parse_signed_show:
  assumes "in_signed w i"
  shows "parse_signed w (show_int i) = Some i"
proof (cases "i < 0")
  case True
  with assms show ?thesis
    by (simp add: parse_signed_def show_int_def parse_digits_Some text_simps)
next
  case False
  with assms parse_signed_digits [of "show_nat (nat i)" w] show ?thesis by (simp add: show_int_def text_simps)
qed

lemma split_on_none: "c \<notin> set xs \<Longrightarrow> split_on c xs = [xs]"
  by (induction xs) auto

lemma split_on_some: "c \<notin> set xs \<Longrightarrow> split_on c (xs @ c # ys) = xs # split_on c ys"
  by (induction xs) auto

lemma words_from_word:
  assumes "\<forall>c \<in> set w. \<not> is_space c"
  shows "words_from acc (w @ rest) = words_from (rev w @ acc) rest"
  using assms by (induction w arbitrary: acc) auto

lemma split_whitespace_word:
  assumes "w \<noteq> []" and "\<forall>c \<in> set w. \<not> is_space c"
  shows "split_whitespace (w @ CHR '' '' # rest) = w # split_whitespace rest" "split_whitespace w = [w]"
  using assms words_from_word [OF assms(2), of "[]" "CHR '' '' # rest"] words_from_word [OF assms(2), of "[]" "[]"]
  by (simp_all add: split_whitespace_def is_space_def)

lemma digits_free:
  assumes "list_all is_digit s"
  shows "CHR '':'' \<notin> set s" "CHR ''.'' \<notin> set s" "\<forall>c \<in> set s. \<not> is_space c"
  using assms by (induction s) (auto dest: is_digit_not)

lemma strip_digits:
  assumes "list_all is_digit s" and "s \<noteq> []"
  shows "strip_sign (s @ t) = s @ t" "take 1 (s @ t) \<noteq> ''-''"
  using assms by (cases s; auto simp: strip_sign_def is_digit_not)+

lemma parse_seconds_text:
  assumes "s < 60" and "f < 10 ^ 6"
  shows "parse_interval_seconds (show_padded 2 s @ CHR ''.'' # show_padded 6 f) = Inr (int (s * 1000000 + f))"
proof -
  note d = show_padded_facts(1)
  have parts: "split_on (CHR ''.'') (strip_sign (show_padded 2 s @ CHR ''.'' # show_padded 6 f)) = [show_padded 2 s, show_padded 6 f]"
    using digits_free(2) [OF d, of 2 s] digits_free(2) [OF d, of 6 f]
    by (simp add: strip_digits text_simps split_on_some split_on_none)
  have whole: "parse_signed 64 (show_padded 2 s) = Some (int s)"
    using parse_signed_digits [of "show_padded 2 s" 64] assms(1) by (simp add: text_simps in_signed_64)
  have "length (show_padded 6 f) = 6" using length_show_padded [of f 6] assms(2) by simp
  moreover have "take 1 (show_padded 2 s @ CHR ''.'' # show_padded 6 f) \<noteq> ''-''"
    by (rule strip_digits) (simp_all add: text_simps)
  ultimately show ?thesis
    unfolding parse_interval_seconds_def parts by (simp add: Let_def whole text_simps)
qed

lemma parse_clock_text:
  assumes h: "h < 2 ^ 62" and m: "m < 60" and s: "s < 60" and f: "f < 10 ^ 6"
  shows "parse_interval_clock ((if neg then ''-'' else []) @ show_padded 2 h @ CHR '':'' # show_padded 2 m @ CHR '':'' #
      show_padded 2 s @ CHR ''.'' # show_padded 6 f) =
    Inr ((if neg then - 1 else 1) * int (h * 3600000000 + m * 60000000 + s * 1000000 + f))" (is "parse_interval_clock (?sign @ ?t) = _")
proof -
  note d = show_padded_facts(1)
  have strip: "strip_sign (?sign @ ?t) = ?t"
    using strip_digits(1) [OF d show_padded_facts(2), of 2 h] by (cases neg) (simp_all add: strip_sign_def)
  have neg: "take 1 (?sign @ ?t) = ''-'' \<longleftrightarrow> neg"
    using strip_digits(2) [OF d show_padded_facts(2), of 2 h] by (cases neg) simp_all
  have colon: "CHR '':'' \<notin> set (show_padded 2 s @ CHR ''.'' # show_padded 6 f)"
    using digits_free(1) [OF d] by simp
  have fields: "split_on (CHR '':'') ?t = [show_padded 2 h, show_padded 2 m, show_padded 2 s @ CHR ''.'' # show_padded 6 f]"
    using digits_free(1) [OF d] colon by (simp add: split_on_some split_on_none)
  have hours: "parse_signed 64 (show_padded 2 h) = Some (int h)"
    using parse_signed_digits [of "show_padded 2 h" 64] h by (simp add: text_simps in_signed_64)
  have minutes: "parse_u8 (show_padded 2 m) = Some m"
  proof -
    obtain c cs where c: "show_padded 2 m = c # cs" using show_padded_facts(2) [of 2 m] by (cases "show_padded 2 m") auto
    then have "is_digit c" using d [of 2 m] by simp
    then have "(case show_padded 2 m of [] \<Rightarrow> [] | c # cs \<Rightarrow> if c = CHR ''+'' then cs else show_padded 2 m) = show_padded 2 m"
      using c by (auto simp: is_digit_not)
    then show ?thesis using m by (simp add: parse_u8_def parse_digits_Some text_simps)
  qed
  have range: "in_signed 128 (int h * 3600000000)" "in_signed 128 (int h * 3600000000 + int m * 60000000)"
    "in_signed 128 (int h * 3600000000 + int m * 60000000 + int (s * 1000000 + f))" "int (s * 1000000 + f) < 60000000"
    using h m s f unfolding in_signed_128 by simp_all
  show ?thesis
    unfolding parse_interval_clock_def strip fields Let_def neg
    using m range by (simp add: hours minutes parse_seconds_text [OF s f])
qed

lemma interval_parts:
  "n div 3600000000 * 3600000000 + n div 60000000 mod 60 * 60000000 + n div 1000000 mod 60 * 1000000 + n mod 1000000 = (n::nat)"
proof -
  define a b where "a = n div 1000000" and "b = a div 60"
  have "n div 60000000 = b" "n div 3600000000 = b div 60"
    by (simp_all add: a_def b_def div_mult2_eq [symmetric])
  moreover have "b div 60 * 60 + b mod 60 = b" "b * 60 + a mod 60 = a" "a * 1000000 + n mod 1000000 = n"
    by (simp_all only: a_def b_def div_mult_mod_eq)
  moreover have "x * 60 + y = b \<Longrightarrow> b * 60 + z = a \<Longrightarrow> a * 1000000 + r = n \<Longrightarrow>
      x * 3600000000 + y * 60000000 + z * 1000000 + r = n" for x y z r
    by linarith
  ultimately show ?thesis by (simp only: a_def [symmetric])
qed

section \<open>Property\<close>

text \<open>
  C40. Intervals survive their text. Parsing what \<open>Display\<close> prints of an interval, negative
  fields and the smallest and largest values included, gives exactly that interval.
\<close>

theorem interval_roundtrip: "interval_from_str (interval_display i) = Inr i"
proof -
  define us where "us = sint (iv_microseconds i)"
  define n where "n = nat \<bar>us\<bar>"
  define clock where "clock = (if us < 0 then ''-'' else []) @ show_padded 2 (n div 3600000000) @ CHR '':'' #
    show_padded 2 (n div 60000000 mod 60) @ CHR '':'' # show_padded 2 (n div 1000000 mod 60) @ CHR ''.'' # show_padded 6 (n mod 1000000)"
  let ?m = "show_int (sint (iv_months i))" and ?d = "show_int (sint (iv_days i))"
  have us: "- (2 ^ 63) \<le> us" "us < 2 ^ 63" using sint_range_size [of "iv_microseconds i"] by (simp_all add: us_def word_size)
  have shown: "interval_display i = ?m @ CHR '' '' # ''mons'' @ CHR '' '' # ?d @ CHR '' '' # ''days'' @ CHR '' '' # clock"
    by (simp add: interval_display_def Let_def us_def n_def clock_def)
  have int_ok: "show_int k \<noteq> []" "\<forall>c \<in> set (show_int k). \<not> is_space c" "CHR '':'' \<notin> set (show_int k)" for k
    using digits_free(1,3) [OF show_nat_digits] by (auto simp: show_int_def show_nat_nonempty is_space_def)
  have clock_ok: "clock \<noteq> []" "\<forall>c \<in> set clock. \<not> is_space c" "CHR '':'' \<in> set clock"
    using digits_free(3) [OF show_padded_facts(1)] by (auto simp: clock_def is_space_def)
  have words: "split_whitespace (interval_display i) = [?m, ''mons'', ?d, ''days'', clock]"
    using split_whitespace_word(1) [of "''mons''"] split_whitespace_word(1) [of "''days''"]
    by (simp add: shown split_whitespace_word(1) [OF int_ok(1,2)] split_whitespace_word(2) [OF clock_ok(1,2)] is_space_def)
  have "n \<le> 2 ^ 63" using us by (simp add: n_def nat_le_iff abs_le_iff)
  then have "parse_interval_clock clock = Inr ((if us < 0 then - 1 else 1) * int n)"
    unfolding clock_def by (subst parse_clock_text) (simp_all only: interval_parts, simp_all)
  then have clock_value: "parse_interval_clock clock = Inr us" by (simp add: n_def split: if_splits)
  have s32: "in_signed 64 (sint w)" "in_signed 32 (sint w)" for w :: u32
    using sint_range_size [of w] by (simp_all add: in_signed_def word_size)
  have s64: "in_signed 128 us" "in_signed 64 us" using us by (simp_all add: in_signed_def)
  have "interval_field ?m ''mons'' (0, 0, 0) = Inr (sint (iv_months i), 0, 0)"
    by (simp add: interval_field_def to_ascii_lowercase_def parse_interval_integer_def parse_signed_show s32)
  moreover have "interval_field ?d ''days'' (sint (iv_months i), 0, 0) = Inr (sint (iv_months i), sint (iv_days i), 0)"
    by (simp add: interval_field_def to_ascii_lowercase_def parse_interval_integer_def parse_signed_show s32)
  ultimately have "interval_tokens [?m, ''mons'', ?d, ''days'', clock] (0, 0, 0) = Inr (sint (iv_months i), sint (iv_days i), us)"
    by (simp add: int_ok clock_ok clock_value s64)
  then show ?thesis
    by (simp add: interval_from_str_def words s32 s64 del: interval_tokens.simps) (simp add: us_def)
qed

end
