(* ===== verification/Values.thy ===== *)
theory Values
  imports Tuple Interval
begin

text \<open>
  Value types, crates/ordadb-types/src/lib.rs: the scalar types of columns, arrays with their
  dimensions, the type of a value, and which values a type accepts. Identifiers, error and
  notice structs and the serde attributes are not modelled.

  A value is \<open>pg_value\<close> of theory Tuple with the array type filled in. A decimal is its
  numeric value together with its scale (rust_decimal), so that equal numbers with different
  scales stay different values; dates, times and JSON are type parameters.
\<close>

section \<open>Types, arrays and values\<close>

datatype scalar_type =
    StBoolean
  | StInt16
  | StInt32
  | StInt64
  | StOid
  | StName
  | StInternalChar
  | StFloat32
  | StFloat64
  | StDecimal "u8 option" "u8 option"
  | StChar "u32 option"
  | StVarchar "u32 option"
  | StText
  | StEnum u64 "u8 list list"
  | StBinary
  | StDate
  | StTime
  | StTimestamp bool
  | StInterval
  | StArray scalar_type
  | StJson
  | StJsonb
  | StUuid
  | StVector "nat option"

record array_dimension =
  ad_length :: u32
  ad_lower_bound :: u32

datatype ('num, 'date, 'time, 'ts, 'json) pg_array =
  PgArray (array_element_type: scalar_type) (array_dimensions: "array_dimension list")
    (array_values: "('num \<times> u32, 'date, 'time, 'ts, ('num, 'date, 'time, 'ts, 'json) pg_array, 'json) pg_value list")

type_synonym ('num, 'date, 'time, 'ts, 'json) db_value =
  "('num \<times> u32, 'date, 'time, 'ts, ('num, 'date, 'time, 'ts, 'json) pg_array, 'json) pg_value"

abbreviation (input) MAX_ARRAY_DIMENSIONS :: nat where "MAX_ARRAY_DIMENSIONS \<equiv> 6"
abbreviation (input) MAX_ARRAY_ELEMENTS :: nat where "MAX_ARRAY_ELEMENTS \<equiv> 1000000"
abbreviation (input) MAX_POSTGRES_NAME_BYTES :: nat where "MAX_POSTGRES_NAME_BYTES \<equiv> 63"

fun scalar_type_of :: "('num, 'date, 'time, 'ts, 'json) db_value \<Rightarrow> scalar_type option" where
  "scalar_type_of VNull = None"
| "scalar_type_of (VBoolean _) = Some StBoolean"
| "scalar_type_of (VInt16 _) = Some StInt16"
| "scalar_type_of (VInt32 _) = Some StInt32"
| "scalar_type_of (VInt64 _) = Some StInt64"
| "scalar_type_of (VFloat32 _) = Some StFloat32"
| "scalar_type_of (VFloat64 _) = Some StFloat64"
| "scalar_type_of (VDecimal _) = Some (StDecimal None None)"
| "scalar_type_of (VText _) = Some StText"
| "scalar_type_of (VBinary _) = Some StBinary"
| "scalar_type_of (VDate _) = Some StDate"
| "scalar_type_of (VTime _) = Some StTime"
| "scalar_type_of (VTimestamp _) = Some (StTimestamp False)"
| "scalar_type_of (VInterval _ _ _) = Some StInterval"
| "scalar_type_of (VArray a) = Some (StArray (array_element_type a))"
| "scalar_type_of (VJson _) = Some StJson"
| "scalar_type_of (VJsonb _) = Some StJsonb"
| "scalar_type_of (VUuid _) = Some StUuid"
| "scalar_type_of (VVector xs) = Some (StVector (Some (length xs)))"

text \<open>\<open>accepts\<close>: the values that may be assigned to a column of the type.\<close>

fun accepts :: "scalar_type \<Rightarrow> ('num, 'date, 'time, 'ts, 'json) db_value \<Rightarrow> bool" where
  "accepts ty v =
     (v = VNull \<or> scalar_type_of v = Some ty \<or>
      (case v of
         VInt16 _ \<Rightarrow> ty \<in> {StInt32, StInt64, StFloat32, StFloat64} \<or> (case ty of StDecimal _ _ \<Rightarrow> True | _ \<Rightarrow> False)
       | VInt32 _ \<Rightarrow> ty \<in> {StInt64, StFloat64} \<or> (case ty of StDecimal _ _ \<Rightarrow> True | _ \<Rightarrow> False)
       | VInt64 i \<Rightarrow> ty = StFloat64 \<or> (case ty of StDecimal _ _ \<Rightarrow> True | _ \<Rightarrow> False) \<or>
           ty = StOid \<and> 0 \<le> sint i \<and> sint i < 2 ^ 32
       | VText t \<Rightarrow>
           (case ty of
              StChar _ \<Rightarrow> True
            | StVarchar _ \<Rightarrow> True
            | StName \<Rightarrow> length t \<le> MAX_POSTGRES_NAME_BYTES
            | StInternalChar \<Rightarrow> length t = 1
            | StEnum _ labels \<Rightarrow> t \<in> set labels
            | _ \<Rightarrow> False)
       | VArray a \<Rightarrow> (case ty of StArray element \<Rightarrow> list_all (accepts element) (array_values a) | _ \<Rightarrow> False)
       | _ \<Rightarrow> False))"

declare accepts.simps [simp del]

text \<open>\<open>PgArray::new\<close>: the number of elements that the dimensions declare, and the checks.\<close>

primrec declared_elements :: "array_dimension list \<Rightarrow> nat \<Rightarrow> nat res" where
  "declared_elements [] count = Inr count"
| "declared_elements (d # ds) count =
     try_bind (ok_or E_54000 (checked_mul_usize count (unat (ad_length d)))) (declared_elements ds)"

definition is_array :: "('num, 'date, 'time, 'ts, 'json) db_value \<Rightarrow> bool" where
  "is_array v = (case v of VArray _ \<Rightarrow> True | _ \<Rightarrow> False)"

definition array_new ::
  "scalar_type \<Rightarrow> array_dimension list \<Rightarrow> ('num, 'date, 'time, 'ts, 'json) db_value list \<Rightarrow>
     ('num, 'date, 'time, 'ts, 'json) pg_array res" where
  "array_new ty dims vs =
     guard_res (case ty of StArray _ \<Rightarrow> True | _ \<Rightarrow> False) E_22023 (
     guard_res (MAX_ARRAY_DIMENSIONS < length dims) E_54000 (
     try_bind (if dims = [] then Inr 0 else declared_elements dims 1) (\<lambda>expected.
     guard_res (MAX_ARRAY_ELEMENTS < expected) E_54000 (
     guard_res (expected \<noteq> length vs) E_2202E (
     guard_res (list_ex is_array vs) E_2202E (
     guard_res (\<not> list_all (accepts ty) vs) E_42804 (
       Inr (PgArray ty dims vs))))))))"

definition array_one_dimensional ::
  "scalar_type \<Rightarrow> ('num, 'date, 'time, 'ts, 'json) db_value list \<Rightarrow> ('num, 'date, 'time, 'ts, 'json) pg_array res" where
  "array_one_dimensional ty vs =
     guard_res (2 ^ 32 \<le> length vs) E_54000 (
       array_new ty (if vs = [] then [] else [\<lparr>ad_length = of_nat (length vs), ad_lower_bound = 1\<rparr>]) vs)"

section \<open>Well-formed arrays\<close>

definition dimension_product :: "array_dimension list \<Rightarrow> nat" where
  "dimension_product dims = prod_list (map (\<lambda>d. unat (ad_length d)) dims)"

definition array_ok :: "('num, 'date, 'time, 'ts, 'json) pg_array \<Rightarrow> bool" where
  "array_ok a \<longleftrightarrow>
     (\<nexists>element. array_element_type a = StArray element) \<and> length (array_dimensions a) \<le> MAX_ARRAY_DIMENSIONS \<and>
     length (array_values a) = (if array_dimensions a = [] then 0 else dimension_product (array_dimensions a)) \<and>
     length (array_values a) \<le> MAX_ARRAY_ELEMENTS \<and>
     (\<forall>v \<in> set (array_values a). accepts (array_element_type a) v \<and> \<not> is_array v)"

lemma declared_elements_Ok:
  "declared_elements ds count = Inr n \<longleftrightarrow>
     n = count * dimension_product ds \<and> (\<forall>i < length ds. count * dimension_product (take (Suc i) ds) \<le> usize_max)"
proof (induction ds arbitrary: count)
  case (Cons d ds)
  have "(\<forall>i < length (d # ds). count * dimension_product (take (Suc i) (d # ds)) \<le> usize_max) \<longleftrightarrow>
      count * unat (ad_length d) \<le> usize_max \<and>
      (\<forall>i < length ds. count * unat (ad_length d) * dimension_product (take (Suc i) ds) \<le> usize_max)"
    by (simp add: dimension_product_def less_Suc_eq_0_disj all_conj_distrib ex_disj_distrib mult.assoc) 
      (auto simp: mult.assoc)
  then show ?case using Cons.IH [of "count * unat (ad_length d)"]
    by (auto simp: checked_mul_usize_def dimension_product_def mult.assoc res_simps)
qed (auto simp: dimension_product_def)

text \<open>
  Construction of arrays. \<open>PgArray::new\<close> returns the array exactly when it is well formed
  (not an array of arrays, at most six dimensions and a million values, as many values as the
  dimensions declare, each of them assignable to the element type and none an array) and no
  product of a prefix of the dimensions exceeds a \<open>usize\<close>.
\<close>

lemma array_new_typed:
  "array_new ty dims vs = Inr a \<longleftrightarrow>
     a = PgArray ty dims vs \<and> array_ok a \<and> (\<forall>i < length dims. dimension_product (take (Suc i) dims) \<le> usize_max)"
proof -
  have nested: "(case ty of StArray _ \<Rightarrow> True | _ \<Rightarrow> False) \<longleftrightarrow> (\<exists>element. ty = StArray element)"
    by (cases ty) simp_all
  have "(if dims = [] then Inr 0 else declared_elements dims 1) = (Inr n :: nat res) \<longleftrightarrow>
      n = (if dims = [] then 0 else dimension_product dims) \<and>
      (\<forall>i < length dims. dimension_product (take (Suc i) dims) \<le> usize_max)" for n
    using declared_elements_Ok [of dims 1 n] by auto
  then show ?thesis
    unfolding array_new_def nested
    by (auto simp: guard_res_def array_ok_def res_simps list_all_iff list_ex_iff split: if_splits)
qed

theorem array_new_typed_witness:
  "array_new StInt64 [\<lparr>ad_length = 2, ad_lower_bound = 1\<rparr>] [VInt16 1, VNull :: (nat, nat, nat, nat, nat) db_value] =
     Inr (PgArray StInt64 [\<lparr>ad_length = 2, ad_lower_bound = 1\<rparr>] [VInt16 1, VNull])"
  unfolding array_new_typed
  by (simp add: array_ok_def dimension_product_def is_array_def accepts.simps usize_max_def)

end
