(* ===== verification/IndexKey.thy ===== *)
theory IndexKey
  imports Values "HOL-Library.List_Lexorder" "HOL-Library.Product_Lexorder"
begin

text \<open>
  The keys of secondary indexes, crates/ordadb-index/src/index/types.rs: the scalars of a key
  with their comparison, the conversion from values and back, keys and index entries.

  Text, binary strings and UUIDs compare byte by byte, integers as signed numbers, floats by
  \<open>total_cmp\<close>; decimals by their numeric value; dates and times by the order of chrono. In
  keys a null comes first, among the elements of an array it comes last.
\<close>

section \<open>Orderings\<close>

datatype ordering = Less | Equal | Greater

definition cmp_of :: "'a::linorder \<Rightarrow> 'a \<Rightarrow> ordering" where
  "cmp_of a b = (if a < b then Less else if a = b then Equal else Greater)"

definition then_with :: "ordering \<Rightarrow> ordering \<Rightarrow> ordering" where
  "then_with a b = (if a = Equal then b else a)"

fun reverse_ordering :: "ordering \<Rightarrow> ordering" where
  "reverse_ordering Less = Greater"
| "reverse_ordering Equal = Equal"
| "reverse_ordering Greater = Less"

section \<open>Scalars\<close>

datatype ('num, 'date, 'time, 'ts, 'json) index_scalar =
    IsNull
  | IsBoolean bool
  | IsInt16 u16
  | IsInt32 u32
  | IsInt64 u64
  | IsFloat32 u32
  | IsFloat64 u64
  | IsDecimal "'num \<times> u32"
  | IsText "u8 list"
  | IsEnum u64 u32 "u8 list"
  | IsBinary "u8 list"
  | IsDate 'date
  | IsTime 'time
  | IsTimestamp 'ts
  | IsInterval u32 u32 u64
  | IsArray "('num, 'date, 'time, 'ts, 'json) pg_array" "('num, 'date, 'time, 'ts, 'json) index_scalar list"
  | IsUuid "u8 list"

fun scalar_rank :: "('num, 'date, 'time, 'ts, 'json) index_scalar \<Rightarrow> nat" where
  "scalar_rank IsNull = 0"
| "scalar_rank (IsBoolean _) = 1"
| "scalar_rank (IsInt16 _) = 2"
| "scalar_rank (IsInt32 _) = 3"
| "scalar_rank (IsInt64 _) = 4"
| "scalar_rank (IsFloat32 _) = 5"
| "scalar_rank (IsFloat64 _) = 6"
| "scalar_rank (IsDecimal _) = 7"
| "scalar_rank (IsText _) = 8"
| "scalar_rank (IsEnum _ _ _) = 9"
| "scalar_rank (IsBinary _) = 10"
| "scalar_rank (IsDate _) = 11"
| "scalar_rank (IsTime _) = 12"
| "scalar_rank (IsTimestamp _) = 13"
| "scalar_rank (IsInterval _ _ _) = 14"
| "scalar_rank (IsArray _ _) = 15"
| "scalar_rank (IsUuid _) = 16"

text \<open>\<open>total_cmp\<close> of floats: the bits as a signed number, the lower ones flipped when negative.\<close>

definition float32_key :: "u32 \<Rightarrow> int" where
  "float32_key w = sint (if sint w < 0 then Bit_Operations.xor w 0x7FFFFFFF else w)"

definition float64_key :: "u64 \<Rightarrow> int" where
  "float64_key w = sint (if sint w < 0 then Bit_Operations.xor w 0x7FFFFFFFFFFFFFFF else w)"

definition interval_comparison_key :: "u32 \<Rightarrow> u32 \<Rightarrow> u64 \<Rightarrow> int" where
  "interval_comparison_key months days us = (sint months * 30 + sint days) * 86400000000 + sint us"

definition dimension_keys :: "('num, 'date, 'time, 'ts, 'json) pg_array \<Rightarrow> (u32 \<times> int) list" where
  "dimension_keys a = map (\<lambda>d. (ad_length d, sint (ad_lower_bound d))) (array_dimensions a)"

fun compare_array_elements ::
  "(('num, 'date, 'time, 'ts, 'json) index_scalar \<Rightarrow> ('num, 'date, 'time, 'ts, 'json) index_scalar \<Rightarrow> ordering) \<Rightarrow>
   ('num, 'date, 'time, 'ts, 'json) index_scalar list \<Rightarrow> ('num, 'date, 'time, 'ts, 'json) index_scalar list \<Rightarrow> ordering" where
  "compare_array_elements cmp (l # ls) (r # rs) =
     (let ord = (if l = IsNull then if r = IsNull then Equal else Greater
                 else if r = IsNull then Less else cmp l r)
      in if ord \<noteq> Equal then ord else compare_array_elements cmp ls rs)"
| "compare_array_elements cmp ls rs = cmp_of (length ls) (length rs)"

lemma compare_array_elements_cong [fundef_cong]:
  "ls = ls' \<Longrightarrow> rs = rs' \<Longrightarrow> (\<And>l r. l \<in> set ls' \<Longrightarrow> cmp l r = cmp' l r) \<Longrightarrow>
     compare_array_elements cmp ls rs = compare_array_elements cmp' ls' rs'"
  by (induction ls' rs' arbitrary: ls rs rule: list_induct2') (auto simp: Let_def)

fun scalar_cmp ::
  "('num::linorder, 'date::linorder, 'time::linorder, 'ts::linorder, 'json) index_scalar \<Rightarrow>
   ('num, 'date, 'time, 'ts, 'json) index_scalar \<Rightarrow> ordering" where
  "scalar_cmp x y =
     (if scalar_rank x \<noteq> scalar_rank y then cmp_of (scalar_rank x) (scalar_rank y)
      else case x of
        IsNull \<Rightarrow> Equal
      | IsBoolean l \<Rightarrow> (case y of IsBoolean r \<Rightarrow> cmp_of l r | _ \<Rightarrow> Equal)
      | IsInt16 l \<Rightarrow> (case y of IsInt16 r \<Rightarrow> cmp_of (sint l) (sint r) | _ \<Rightarrow> Equal)
      | IsInt32 l \<Rightarrow> (case y of IsInt32 r \<Rightarrow> cmp_of (sint l) (sint r) | _ \<Rightarrow> Equal)
      | IsInt64 l \<Rightarrow> (case y of IsInt64 r \<Rightarrow> cmp_of (sint l) (sint r) | _ \<Rightarrow> Equal)
      | IsFloat32 l \<Rightarrow> (case y of IsFloat32 r \<Rightarrow> cmp_of (float32_key l) (float32_key r) | _ \<Rightarrow> Equal)
      | IsFloat64 l \<Rightarrow> (case y of IsFloat64 r \<Rightarrow> cmp_of (float64_key l) (float64_key r) | _ \<Rightarrow> Equal)
      | IsDecimal l \<Rightarrow> (case y of IsDecimal r \<Rightarrow> cmp_of (fst l) (fst r) | _ \<Rightarrow> Equal)
      | IsText l \<Rightarrow> (case y of IsText r \<Rightarrow> cmp_of l r | _ \<Rightarrow> Equal)
      | IsEnum lt lo ll \<Rightarrow>
          (case y of
             IsEnum rt ro rl \<Rightarrow> then_with (cmp_of lt rt) (then_with (cmp_of lo ro) (cmp_of ll rl))
           | _ \<Rightarrow> Equal)
      | IsBinary l \<Rightarrow> (case y of IsBinary r \<Rightarrow> cmp_of l r | _ \<Rightarrow> Equal)
      | IsDate l \<Rightarrow> (case y of IsDate r \<Rightarrow> cmp_of l r | _ \<Rightarrow> Equal)
      | IsTime l \<Rightarrow> (case y of IsTime r \<Rightarrow> cmp_of l r | _ \<Rightarrow> Equal)
      | IsTimestamp l \<Rightarrow> (case y of IsTimestamp r \<Rightarrow> cmp_of l r | _ \<Rightarrow> Equal)
      | IsInterval lm ld lu \<Rightarrow>
          (case y of
             IsInterval rm rd ru \<Rightarrow> cmp_of (interval_comparison_key lm ld lu) (interval_comparison_key rm rd ru)
           | _ \<Rightarrow> Equal)
      | IsArray l ls \<Rightarrow>
          (case y of
             IsArray r rs \<Rightarrow> then_with (compare_array_elements scalar_cmp ls rs) (cmp_of (dimension_keys l) (dimension_keys r))
           | _ \<Rightarrow> Equal)
      | IsUuid l \<Rightarrow> (case y of IsUuid r \<Rightarrow> cmp_of l r | _ \<Rightarrow> Equal))"

declare scalar_cmp.simps [simp del]

section \<open>Scalars and values\<close>

text \<open>\<open>collect::<Result<Vec<_>>>\<close>: the results in order, or the first error.\<close>

fun collect_res :: "('a \<Rightarrow> 'b res) \<Rightarrow> 'a list \<Rightarrow> 'b list res" where
  "collect_res f [] = Inr []"
| "collect_res f (x # xs) = try_bind (f x) (\<lambda>y. try_bind (collect_res f xs) (\<lambda>ys. Inr (y # ys)))"

lemma collect_res_cong [fundef_cong]:
  "xs = ys \<Longrightarrow> (\<And>x. x \<in> set ys \<Longrightarrow> f x = g x) \<Longrightarrow> collect_res f xs = collect_res g ys"
  by (induction ys arbitrary: xs) auto

lemma collect_res_Ok: "collect_res f xs = Inr ys \<longleftrightarrow> list_all2 (\<lambda>x y. f x = Inr y) xs ys"
  by (induction xs arbitrary: ys) (auto simp: res_simps list_all2_Cons1)

fun position :: "('a \<Rightarrow> bool) \<Rightarrow> 'a list \<Rightarrow> nat option" where
  "position P [] = None"
| "position P (x # xs) = (if P x then Some 0 else map_option Suc (position P xs))"

lemma position_Some: "position P xs = Some i \<Longrightarrow> i < length xs \<and> P (xs ! i)"
  by (induction xs arbitrary: i) (auto split: if_splits)

text \<open>The size of the array in a value, for the recursion through arrays.\<close>

definition array_size :: "('num, 'date, 'time, 'ts, 'json) db_value \<Rightarrow> nat" where
  "array_size v = (case v of VArray a \<Rightarrow> size a | _ \<Rightarrow> 0)"

lemma array_size_element: "v \<in> set (array_values a) \<Longrightarrow> array_size v < size a"
proof (cases a)
  case (PgArray ty dims vs)
  assume "v \<in> set (array_values a)"
  with PgArray have "v \<in> set vs" by simp
  let ?size = "size_pg_value size (\<lambda>_. 0) (\<lambda>_. 0) (\<lambda>_. 0) size (\<lambda>_. 0)"
  from \<open>v \<in> set vs\<close> have "?size v \<le> size_list ?size vs" by (rule size_list_estimation') simp
  moreover have "array_size v \<le> ?size v" by (cases v) (simp_all add: array_size_def)
  ultimately show ?thesis using PgArray by simp
qed

lemma array_size_array [simp]: "array_size (VArray a) = size a"
  by (simp add: array_size_def)

lemma array_size_positive [simp]: "0 < size (a :: ('num, 'date, 'time, 'ts, 'json) pg_array)"
  by (cases a) simp

text \<open>\<open>from_value\<close>, \<open>from_typed_value\<close> and \<open>from_array\<close>.\<close>

function (sequential) index_from_value ::
    "('num, 'date, 'time, 'ts, 'json) db_value \<Rightarrow> ('num, 'date, 'time, 'ts, 'json) index_scalar res"
  and index_from_typed_value ::
    "('num, 'date, 'time, 'ts, 'json) db_value \<Rightarrow> scalar_type \<Rightarrow> ('num, 'date, 'time, 'ts, 'json) index_scalar res"
  and index_from_array ::
    "('num, 'date, 'time, 'ts, 'json) pg_array \<Rightarrow> scalar_type \<Rightarrow> ('num, 'date, 'time, 'ts, 'json) index_scalar res" where
  "index_from_value v =
     (case v of
        VNull \<Rightarrow> Inr IsNull
      | VBoolean b \<Rightarrow> Inr (IsBoolean b)
      | VInt16 i \<Rightarrow> Inr (IsInt16 i)
      | VInt32 i \<Rightarrow> Inr (IsInt32 i)
      | VInt64 i \<Rightarrow> Inr (IsInt64 i)
      | VFloat32 f \<Rightarrow> Inr (IsFloat32 f)
      | VFloat64 f \<Rightarrow> Inr (IsFloat64 f)
      | VDecimal d \<Rightarrow> Inr (IsDecimal d)
      | VText t \<Rightarrow> Inr (IsText t)
      | VBinary b \<Rightarrow> Inr (IsBinary b)
      | VDate d \<Rightarrow> Inr (IsDate d)
      | VTime t \<Rightarrow> Inr (IsTime t)
      | VTimestamp t \<Rightarrow> Inr (IsTimestamp t)
      | VInterval m d u \<Rightarrow> Inr (IsInterval m d u)
      | VUuid u \<Rightarrow> Inr (IsUuid u)
      | VArray a \<Rightarrow> index_from_array a (array_element_type a)
      | VJson _ \<Rightarrow> Inl E_42804
      | VJsonb _ \<Rightarrow> Inl E_42804
      | VVector _ \<Rightarrow> Inl E_42804)"
| "index_from_typed_value v ty =
     (if v = VNull then Inr IsNull
      else case ty of
        StEnum type_id labels \<Rightarrow>
          (case v of
             VText label \<Rightarrow>
               try_bind (ok_or E_22P02 (position (\<lambda>l. l = label) labels)) (\<lambda>ordinal.
               guard_res (2 ^ 32 \<le> ordinal) E_54000 (Inr (IsEnum type_id (of_nat ordinal) label)))
           | _ \<Rightarrow> Inl E_42804)
      | StArray element \<Rightarrow>
          (case v of
             VArray a \<Rightarrow> guard_res (array_element_type a \<noteq> element) E_42804 (index_from_array a element)
           | _ \<Rightarrow> Inl E_42804)
      | _ \<Rightarrow> index_from_value v)"
| "index_from_array a ty =
     try_bind (collect_res (\<lambda>v. index_from_typed_value v ty) (array_values a)) (\<lambda>elements. Inr (IsArray a elements))"
  by pat_completeness auto

termination
proof (relation "measure (\<lambda>x. case x of
      Inl v \<Rightarrow> 3 * array_size v + 1
    | Inr (Inl (v, _)) \<Rightarrow> 3 * array_size v + 2
    | Inr (Inr (a, _)) \<Rightarrow> 3 * size a)")
qed (auto dest!: array_size_element)

declare index_from_value.simps [simp del] index_from_typed_value.simps [simp del] index_from_array.simps [simp del]

fun index_to_value ::
  "('num, 'date, 'time, 'ts, 'json) index_scalar \<Rightarrow> ('num, 'date, 'time, 'ts, 'json) db_value" where
  "index_to_value IsNull = VNull"
| "index_to_value (IsBoolean b) = VBoolean b"
| "index_to_value (IsInt16 i) = VInt16 i"
| "index_to_value (IsInt32 i) = VInt32 i"
| "index_to_value (IsInt64 i) = VInt64 i"
| "index_to_value (IsFloat32 f) = VFloat32 f"
| "index_to_value (IsFloat64 f) = VFloat64 f"
| "index_to_value (IsDecimal d) = VDecimal d"
| "index_to_value (IsText t) = VText t"
| "index_to_value (IsEnum _ _ label) = VText label"
| "index_to_value (IsBinary b) = VBinary b"
| "index_to_value (IsDate d) = VDate d"
| "index_to_value (IsTime t) = VTime t"
| "index_to_value (IsTimestamp t) = VTimestamp t"
| "index_to_value (IsInterval m d u) = VInterval m d u"
| "index_to_value (IsArray a _) = VArray a"
| "index_to_value (IsUuid u) = VUuid u"

section \<open>Keys and entries\<close>

datatype ('num, 'date, 'time, 'ts, 'json) index_key =
  IndexKey (key_scalars: "('num, 'date, 'time, 'ts, 'json) index_scalar list")

definition key_from_values ::
  "('num, 'date, 'time, 'ts, 'json) db_value list \<Rightarrow> ('num, 'date, 'time, 'ts, 'json) index_key res" where
  "key_from_values vs = try_bind (collect_res index_from_value vs) (\<lambda>ss. Inr (IndexKey ss))"

definition key_from_typed_values ::
  "('num, 'date, 'time, 'ts, 'json) db_value list \<Rightarrow> scalar_type list \<Rightarrow> ('num, 'date, 'time, 'ts, 'json) index_key res" where
  "key_from_typed_values vs types =
     guard_res (length vs \<noteq> length types) E_22023 (
       try_bind (collect_res (\<lambda>(v, ty). index_from_typed_value v ty) (zip vs types)) (\<lambda>ss. Inr (IndexKey ss)))"

definition key_values :: "('num, 'date, 'time, 'ts, 'json) index_key \<Rightarrow> ('num, 'date, 'time, 'ts, 'json) db_value list" where
  "key_values k = map index_to_value (key_scalars k)"

definition key_contains_null :: "('num, 'date, 'time, 'ts, 'json) index_key \<Rightarrow> bool" where
  "key_contains_null k = list_ex (\<lambda>s. s = IsNull) (key_scalars k)"

definition key_len :: "('num, 'date, 'time, 'ts, 'json) index_key \<Rightarrow> nat" where
  "key_len k = length (key_scalars k)"

text \<open>The derived \<open>Ord\<close> of a vector: lexicographic by the comparison of the scalars.\<close>

fun scalars_cmp ::
  "('num::linorder, 'date::linorder, 'time::linorder, 'ts::linorder, 'json) index_scalar list \<Rightarrow>
   ('num, 'date, 'time, 'ts, 'json) index_scalar list \<Rightarrow> ordering" where
  "scalars_cmp (l # ls) (r # rs) = then_with (scalar_cmp l r) (scalars_cmp ls rs)"
| "scalars_cmp ls rs = cmp_of (length ls) (length rs)"

definition key_cmp ::
  "('num::linorder, 'date::linorder, 'time::linorder, 'ts::linorder, 'json) index_key \<Rightarrow>
   ('num, 'date, 'time, 'ts, 'json) index_key \<Rightarrow> ordering" where
  "key_cmp k l = scalars_cmp (key_scalars k) (key_scalars l)"

record ('num, 'date, 'time, 'ts, 'json) index_entry =
  ie_key :: "('num, 'date, 'time, 'ts, 'json) index_key"
  ie_row_id :: u64
  ie_included :: "('num, 'date, 'time, 'ts, 'json) db_value list"

definition entry_from_key ::
  "('num, 'date, 'time, 'ts, 'json) index_key \<Rightarrow> u64 \<Rightarrow> ('num, 'date, 'time, 'ts, 'json) db_value list \<Rightarrow>
     ('num, 'date, 'time, 'ts, 'json) index_entry res" where
  "entry_from_key k row included =
     guard_res (key_len k = 0) E_22023 (Inr \<lparr>ie_key = k, ie_row_id = row, ie_included = included\<rparr>)"

definition entry_new ::
  "('num, 'date, 'time, 'ts, 'json) db_value list \<Rightarrow> u64 \<Rightarrow> ('num, 'date, 'time, 'ts, 'json) db_value list \<Rightarrow>
     ('num, 'date, 'time, 'ts, 'json) index_entry res" where
  "entry_new vs row included =
     try_bind (key_from_values vs) (\<lambda>k.
     guard_res (key_len k = 0) E_22023 (Inr \<lparr>ie_key = k, ie_row_id = row, ie_included = included\<rparr>))"

definition entry_new_typed ::
  "('num, 'date, 'time, 'ts, 'json) db_value list \<Rightarrow> scalar_type list \<Rightarrow> u64 \<Rightarrow>
     ('num, 'date, 'time, 'ts, 'json) db_value list \<Rightarrow> ('num, 'date, 'time, 'ts, 'json) index_entry res" where
  "entry_new_typed vs types row included =
     try_bind (key_from_typed_values vs types) (\<lambda>k. entry_from_key k row included)"

section \<open>The comparison is a total preorder\<close>

text \<open>
  \<open>flips_at\<close> and \<open>trans_at\<close> are the two laws of a comparison at its first argument: swapping
  the arguments reverses the result, and results that are not \<open>Greater\<close> compose.
\<close>

definition flips_at :: "('a \<Rightarrow> 'a \<Rightarrow> ordering) \<Rightarrow> 'a \<Rightarrow> bool" where
  "flips_at cmp x \<longleftrightarrow> (\<forall>y. cmp y x = reverse_ordering (cmp x y))"

definition trans_at :: "('a \<Rightarrow> 'a \<Rightarrow> ordering) \<Rightarrow> 'a \<Rightarrow> bool" where
  "trans_at cmp x \<longleftrightarrow> (\<forall>y z. cmp x y \<noteq> Greater \<longrightarrow> cmp y z \<noteq> Greater \<longrightarrow>
     cmp x z = (if cmp x y = Equal then cmp y z else Less))"

lemma cmp_of_laws: "cmp_of y x = reverse_ordering (cmp_of x y)"
  "cmp_of x y \<noteq> Greater \<Longrightarrow> cmp_of y z \<noteq> Greater \<Longrightarrow> cmp_of x z = (if cmp_of x y = Equal then cmp_of y z else Less)"
  by (auto simp: cmp_of_def split: if_splits)

lemma cmp_of_eq [simp]: "cmp_of x y = Equal \<longleftrightarrow> x = y" "cmp_of x y = Less \<longleftrightarrow> x < y" "cmp_of x y = Greater \<longleftrightarrow> y < x" "cmp_of x x = Equal"
  by (auto simp: cmp_of_def)

lemma then_with_eq: "then_with a b = Equal \<longleftrightarrow> a = Equal \<and> b = Equal" "then_with a b \<noteq> Greater \<longleftrightarrow> a \<noteq> Greater \<and> (a = Equal \<longrightarrow> b \<noteq> Greater)"
  "then_with Equal b = b" "then_with Less b = Less" "then_with Greater b = Greater"
  by (auto simp: then_with_def)

lemma reverse_ordering_simps [simp]: "reverse_ordering a = Equal \<longleftrightarrow> a = Equal" "reverse_ordering a = Less \<longleftrightarrow> a = Greater"
  "reverse_ordering a = Greater \<longleftrightarrow> a = Less" "reverse_ordering (reverse_ordering a) = a"
  by (cases a; simp)+

lemma reverse_then_with: "reverse_ordering (then_with a b) = then_with (reverse_ordering a) (reverse_ordering b)"
  by (cases a) (simp_all add: then_with_def)

text \<open>Two comparisons one after the other.\<close>

lemma then_with_trans:
  assumes "then_with a1 b1 \<noteq> Greater" and "then_with a2 b2 \<noteq> Greater"
    and "a1 \<noteq> Greater \<Longrightarrow> a2 \<noteq> Greater \<Longrightarrow> a3 = (if a1 = Equal then a2 else Less)"
    and "b1 \<noteq> Greater \<Longrightarrow> b2 \<noteq> Greater \<Longrightarrow> b3 = (if b1 = Equal then b2 else Less)"
  shows "then_with a3 b3 = (if then_with a1 b1 = Equal then then_with a2 b2 else Less)"
  using assms by (cases a1; cases a2) (auto simp: then_with_def split: if_splits)

text \<open>The elements of an array, with nulls last, and the scalars of a key.\<close>

definition element_cmp ::
  "(('num, 'date, 'time, 'ts, 'json) index_scalar \<Rightarrow> ('num, 'date, 'time, 'ts, 'json) index_scalar \<Rightarrow> ordering) \<Rightarrow>
   ('num, 'date, 'time, 'ts, 'json) index_scalar \<Rightarrow> ('num, 'date, 'time, 'ts, 'json) index_scalar \<Rightarrow> ordering" where
  "element_cmp cmp l r = (if l = IsNull then if r = IsNull then Equal else Greater else if r = IsNull then Less else cmp l r)"

lemma compare_array_elements_Cons:
  "compare_array_elements cmp (l # ls) (r # rs) = then_with (element_cmp cmp l r) (compare_array_elements cmp ls rs)"
  by (simp add: element_cmp_def then_with_def Let_def)

lemma element_cmp_laws:
  "flips_at cmp x \<Longrightarrow> flips_at (element_cmp cmp) x" "trans_at cmp x \<Longrightarrow> trans_at (element_cmp cmp) x"
  by (auto simp: flips_at_def trans_at_def element_cmp_def)

lemma lists_flip:
  assumes "\<And>ls rs l r. f (l # ls) (r # rs) = then_with (g l r) (f ls rs)"
    and "\<And>ls rs. ls = [] \<or> rs = [] \<Longrightarrow> f ls rs = cmp_of (length ls) (length rs)"
    and "\<forall>x \<in> set xs. flips_at g x"
  shows "f ys xs = reverse_ordering (f xs ys)"
  using assms(3)
proof (induction xs arbitrary: ys)
  case Nil
  show ?case by (simp add: assms(2) cmp_of_laws(1) [of "length ys"])
next
  case (Cons x xs)
  show ?case
  proof (cases ys)
    case Nil
    then show ?thesis by (simp add: assms(2) cmp_of_laws(1) [of "0"])
  next
    case (Cons y zs)
    with Cons.IH [of zs] Cons.prems show ?thesis by (simp add: assms(1) reverse_then_with flips_at_def)
  qed
qed

lemma lists_trans:
  assumes step: "\<And>ls rs l r. f (l # ls) (r # rs) = then_with (g l r) (f ls rs)"
    and base: "\<And>ls rs. ls = [] \<or> rs = [] \<Longrightarrow> f ls rs = cmp_of (length ls) (length rs)"
    and "\<forall>x \<in> set xs. trans_at g x"
    and "f xs ys \<noteq> Greater" and "f ys zs \<noteq> Greater"
  shows "f xs zs = (if f xs ys = Equal then f ys zs else Less)"
  using assms(3-5)
proof (induction xs arbitrary: ys zs)
  case Nil
  then show ?case by (cases ys; cases zs) (auto simp: base step cmp_of_def split: if_splits)
next
  case (Cons x xs)
  then obtain y ys' where ys: "ys = y # ys'" by (cases ys) (auto simp: base cmp_of_def)
  with Cons.prems(3) obtain z zs' where zs: "zs = z # zs'" by (cases zs) (auto simp: base cmp_of_def)
  have "g x y \<noteq> Greater \<Longrightarrow> g y z \<noteq> Greater \<Longrightarrow> g x z = (if g x y = Equal then g y z else Less)"
    using Cons.prems(1) by (simp add: trans_at_def)
  moreover have "f xs ys' \<noteq> Greater \<Longrightarrow> f ys' zs' \<noteq> Greater \<Longrightarrow> f xs zs' = (if f xs ys' = Equal then f ys' zs' else Less)"
    using Cons.IH [of ys' zs'] Cons.prems(1) by simp
  ultimately show ?case
    using Cons.prems(2,3) unfolding ys zs step by (intro then_with_trans)
qed

lemma lists_nil: "compare_array_elements cmp ls rs = cmp_of (length ls) (length rs)" "scalars_cmp ls' rs' = cmp_of (length ls') (length rs')"
  if "ls = [] \<or> rs = []" "ls' = [] \<or> rs' = []"
  using that by (cases ls; cases rs; cases ls'; cases rs'; simp)+

text \<open>Scalars of different kinds compare by rank; the kind is determined by the rank.\<close>

lemma scalar_cmp_rank: "scalar_rank x \<noteq> scalar_rank y \<Longrightarrow> scalar_cmp x y = cmp_of (scalar_rank x) (scalar_rank y)"
  by (simp add: scalar_cmp.simps)

lemma rank_eq [simp]:
  "scalar_rank y = 0 \<longleftrightarrow> y = IsNull"
  "scalar_rank y = 1 \<longleftrightarrow> (\<exists>b. y = IsBoolean b)"
  "scalar_rank y = 2 \<longleftrightarrow> (\<exists>i. y = IsInt16 i)"
  "scalar_rank y = 3 \<longleftrightarrow> (\<exists>i. y = IsInt32 i)"
  "scalar_rank y = 4 \<longleftrightarrow> (\<exists>i. y = IsInt64 i)"
  "scalar_rank y = 5 \<longleftrightarrow> (\<exists>f. y = IsFloat32 f)"
  "scalar_rank y = 6 \<longleftrightarrow> (\<exists>f. y = IsFloat64 f)"
  "scalar_rank y = 7 \<longleftrightarrow> (\<exists>d. y = IsDecimal d)"
  "scalar_rank y = 8 \<longleftrightarrow> (\<exists>t. y = IsText t)"
  "scalar_rank y = 9 \<longleftrightarrow> (\<exists>t i l. y = IsEnum t i l)"
  "scalar_rank y = 10 \<longleftrightarrow> (\<exists>b. y = IsBinary b)"
  "scalar_rank y = 11 \<longleftrightarrow> (\<exists>d. y = IsDate d)"
  "scalar_rank y = 12 \<longleftrightarrow> (\<exists>t. y = IsTime t)"
  "scalar_rank y = 13 \<longleftrightarrow> (\<exists>t. y = IsTimestamp t)"
  "scalar_rank y = 14 \<longleftrightarrow> (\<exists>m d u. y = IsInterval m d u)"
  "scalar_rank y = 15 \<longleftrightarrow> (\<exists>a es. y = IsArray a es)"
  "scalar_rank y = 16 \<longleftrightarrow> (\<exists>u. y = IsUuid u)"
  by (cases y; simp)+

lemma rank_one [simp]: "scalar_rank y = Suc 0 \<longleftrightarrow> (\<exists>b. y = IsBoolean b)"
  using rank_eq(2) [of y] by simp

lemma flips_same_rank:
  assumes "\<And>y. scalar_rank y = scalar_rank x \<Longrightarrow> scalar_cmp y x = reverse_ordering (scalar_cmp x y)"
  shows "flips_at scalar_cmp x"
  unfolding flips_at_def
proof
  fix y
  show "scalar_cmp y x = reverse_ordering (scalar_cmp x y)"
    using assms [of y] by (cases "scalar_rank y = scalar_rank x") (simp_all add: scalar_cmp_rank cmp_of_laws(1) [of "scalar_rank y"])
qed

lemma trans_same_rank:
  assumes "\<And>y z. scalar_rank y = scalar_rank x \<Longrightarrow> scalar_rank z = scalar_rank x \<Longrightarrow> scalar_cmp x y \<noteq> Greater \<Longrightarrow>
     scalar_cmp y z \<noteq> Greater \<Longrightarrow> scalar_cmp x z = (if scalar_cmp x y = Equal then scalar_cmp y z else Less)"
  shows "trans_at scalar_cmp x"
  unfolding trans_at_def
proof (intro allI impI)
  fix y z
  assume le: "scalar_cmp x y \<noteq> Greater" "scalar_cmp y z \<noteq> Greater"
  show "scalar_cmp x z = (if scalar_cmp x y = Equal then scalar_cmp y z else Less)"
  proof (cases "scalar_rank y = scalar_rank x \<and> scalar_rank z = scalar_rank x")
    case True
    with assms le show ?thesis by simp
  next
    case False
    then show ?thesis
      using le scalar_cmp_rank [of x y] scalar_cmp_rank [of y z] scalar_cmp_rank [of x z]
      by (cases "scalar_rank x = scalar_rank y"; cases "scalar_rank y = scalar_rank z"; cases "scalar_rank x = scalar_rank z")
        (auto simp: cmp_of_def split: if_splits)
  qed
qed

lemma scalar_cmp_array: "scalar_cmp (IsArray l ls) (IsArray r rs) =
    then_with (compare_array_elements scalar_cmp ls rs) (cmp_of (dimension_keys l) (dimension_keys r))"
  by (simp add: scalar_cmp.simps)

lemma scalar_flips: "flips_at scalar_cmp x"
proof (induction x)
  case (IsArray l ls)
  show ?case
  proof (rule flips_same_rank)
    fix y :: "('a, 'b, 'c, 'd, 'e) index_scalar"
    assume "scalar_rank y = scalar_rank (IsArray l ls)"
    then obtain r rs where y: "y = IsArray r rs" by auto
    have "compare_array_elements scalar_cmp rs ls = reverse_ordering (compare_array_elements scalar_cmp ls rs)"
      by (rule lists_flip [OF compare_array_elements_Cons lists_nil(1)]) (use IsArray in \<open>auto intro: element_cmp_laws\<close>)
    then show "scalar_cmp y (IsArray l ls) = reverse_ordering (scalar_cmp (IsArray l ls) y)"
      unfolding y scalar_cmp_array by (simp add: reverse_then_with cmp_of_laws(1) [of "dimension_keys r"])
  qed
qed (rule flips_same_rank; fastforce simp: scalar_cmp.simps reverse_then_with intro: cmp_of_laws(1) arg_cong2 [of _ _ _ _ then_with])+

lemma trans_by_key:
  fixes C :: "'v \<Rightarrow> ('a::linorder, 'b::linorder, 'c::linorder, 'd::linorder, 'e) index_scalar"
  assumes "\<And>y. scalar_rank y = scalar_rank (C a) \<Longrightarrow> \<exists>v. y = C v"
    and "\<And>u v. scalar_cmp (C u) (C v) = cmp_of (k u) (k v)"
  shows "trans_at scalar_cmp (C a)"
proof (rule trans_same_rank)
  fix y z :: "('a, 'b, 'c, 'd, 'e) index_scalar"
  assume "scalar_rank y = scalar_rank (C a)" "scalar_rank z = scalar_rank (C a)"
  then obtain u v where y: "y = C u" and z: "z = C v" using assms(1) by blast
  assume "scalar_cmp (C a) y \<noteq> Greater" "scalar_cmp y z \<noteq> Greater"
  then show "scalar_cmp (C a) z = (if scalar_cmp (C a) y = Equal then scalar_cmp y z else Less)"
    unfolding y z assms(2) by (rule cmp_of_laws(2))
qed

lemma scalar_trans: "trans_at scalar_cmp x"
proof (induction x)
  case (IsArray l ls)
  show ?case
  proof (rule trans_same_rank)
    fix y z :: "('a, 'b, 'c, 'd, 'e) index_scalar"
    assume "scalar_rank y = scalar_rank (IsArray l ls)" "scalar_rank z = scalar_rank (IsArray l ls)"
      and le: "scalar_cmp (IsArray l ls) y \<noteq> Greater" "scalar_cmp y z \<noteq> Greater"
    then obtain r rs t ts where y: "y = IsArray r rs" and z: "z = IsArray t ts" by auto
    have "compare_array_elements scalar_cmp ls rs \<noteq> Greater \<Longrightarrow> compare_array_elements scalar_cmp rs ts \<noteq> Greater \<Longrightarrow>
        compare_array_elements scalar_cmp ls ts =
          (if compare_array_elements scalar_cmp ls rs = Equal then compare_array_elements scalar_cmp rs ts else Less)"
      by (rule lists_trans [OF compare_array_elements_Cons lists_nil(1)]) (use IsArray in \<open>auto intro: element_cmp_laws\<close>)
    then show "scalar_cmp (IsArray l ls) z = (if scalar_cmp (IsArray l ls) y = Equal then scalar_cmp y z else Less)"
      using le unfolding y z scalar_cmp_array by (intro then_with_trans [OF _ _ _ cmp_of_laws(2)])
  qed
next
  case (IsEnum ty i label)
  have enum: "scalar_cmp (IsEnum lt lo ll) (IsEnum rt ro rl) = then_with (cmp_of lt rt) (then_with (cmp_of lo ro) (cmp_of ll rl))"
    for lt lo ll rt ro rl
    by (simp add: scalar_cmp.simps)
  show ?case
  proof (rule trans_same_rank)
    fix y z :: "('a, 'b, 'c, 'd, 'e) index_scalar"
    assume "scalar_rank y = scalar_rank (IsEnum ty i label)" "scalar_rank z = scalar_rank (IsEnum ty i label)"
      and le: "scalar_cmp (IsEnum ty i label) y \<noteq> Greater" "scalar_cmp y z \<noteq> Greater"
    then obtain t1 i1 l1 t2 i2 l2 where y: "y = IsEnum t1 i1 l1" and z: "z = IsEnum t2 i2 l2" by auto
    show "scalar_cmp (IsEnum ty i label) z = (if scalar_cmp (IsEnum ty i label) y = Equal then scalar_cmp y z else Less)"
      using le unfolding y z enum by (intro then_with_trans [OF _ _ cmp_of_laws(2) then_with_trans [OF _ _ cmp_of_laws(2) cmp_of_laws(2)]])
  qed
next
  case IsNull
  show ?case by (rule trans_same_rank) (simp add: scalar_cmp.simps)
next
  case (IsBoolean b)
  show ?case by (rule trans_by_key [where C = IsBoolean and k = id]) (simp_all add: scalar_cmp.simps)
next
  case (IsInt16 b)
  show ?case by (rule trans_by_key [where C = IsInt16 and k = sint]) (simp_all add: scalar_cmp.simps)
next
  case (IsInt32 b)
  show ?case by (rule trans_by_key [where C = IsInt32 and k = sint]) (simp_all add: scalar_cmp.simps)
next
  case (IsInt64 b)
  show ?case by (rule trans_by_key [where C = IsInt64 and k = sint]) (simp_all add: scalar_cmp.simps)
next
  case (IsFloat32 b)
  show ?case by (rule trans_by_key [where C = IsFloat32 and k = float32_key]) (simp_all add: scalar_cmp.simps)
next
  case (IsFloat64 b)
  show ?case by (rule trans_by_key [where C = IsFloat64 and k = float64_key]) (simp_all add: scalar_cmp.simps)
next
  case (IsDecimal b)
  show ?case by (rule trans_by_key [where C = IsDecimal and k = fst]) (simp_all add: scalar_cmp.simps)
next
  case (IsText b)
  show ?case by (rule trans_by_key [where C = IsText and k = id]) (simp_all add: scalar_cmp.simps)
next
  case (IsBinary b)
  show ?case by (rule trans_by_key [where C = IsBinary and k = id]) (simp_all add: scalar_cmp.simps)
next
  case (IsDate b)
  show ?case by (rule trans_by_key [where C = IsDate and k = id]) (simp_all add: scalar_cmp.simps)
next
  case (IsTime b)
  show ?case by (rule trans_by_key [where C = IsTime and k = id]) (simp_all add: scalar_cmp.simps)
next
  case (IsTimestamp b)
  show ?case by (rule trans_by_key [where C = IsTimestamp and k = id]) (simp_all add: scalar_cmp.simps)
next
  case (IsUuid b)
  show ?case by (rule trans_by_key [where C = IsUuid and k = id]) (simp_all add: scalar_cmp.simps)
next
  case (IsInterval m d u)
  have "trans_at scalar_cmp (case (m, d, u) of (m, d, u) \<Rightarrow> IsInterval m d u)"
    by (rule trans_by_key [where k = "\<lambda>(m, d, u). interval_comparison_key m d u"]) (simp_all add: scalar_cmp.simps split_beta)
  then show ?case by simp
qed

lemma scalars_cmp_laws: "flips_at scalars_cmp xs" "trans_at scalars_cmp xs"
proof -
  show "flips_at scalars_cmp xs"
    unfolding flips_at_def by (intro allI lists_flip [OF scalars_cmp.simps(1) lists_nil(2)]) (auto intro: scalar_flips)
  show "trans_at scalars_cmp xs"
    unfolding trans_at_def by (intro allI impI lists_trans [OF scalars_cmp.simps(1) lists_nil(2)]) (auto intro: scalar_trans)
qed

text \<open>The order of keys as a total preorder, the contract that the tree relies on.\<close>

locale key_order =
  fixes cmp :: "'k \<Rightarrow> 'k \<Rightarrow> ordering"
  assumes flip: "cmp y x = reverse_ordering (cmp x y)"
    and compose: "cmp x y \<noteq> Greater \<Longrightarrow> cmp y z \<noteq> Greater \<Longrightarrow> cmp x z = (if cmp x y = Equal then cmp y z else Less)"
begin

lemma refl [simp]: "cmp x x = Equal"
  using flip [of x x] by (cases "cmp x x") simp_all

lemma greater: "cmp x y = Greater \<longleftrightarrow> cmp y x = Less"
  using flip [of x y] by simp

lemma le_trans: "cmp x y \<noteq> Greater \<Longrightarrow> cmp y z \<noteq> Greater \<Longrightarrow> cmp x z \<noteq> Greater"
  using compose [of x y z] by (simp split: if_splits)

lemma less_le_trans: "cmp x y = Less \<Longrightarrow> cmp y z \<noteq> Greater \<Longrightarrow> cmp x z = Less"
  using compose [of x y z] by simp

lemma le_less_trans: "cmp x y \<noteq> Greater \<Longrightarrow> cmp y z = Less \<Longrightarrow> cmp x z = Less"
  using compose [of x y z] by (simp split: if_splits)

lemma equal_sym: "cmp x y = Equal \<Longrightarrow> cmp y x = Equal"
  using flip [of y x] by simp

end

interpretation key: key_order key_cmp
proof
  fix x y z :: "('a::linorder, 'b::linorder, 'c::linorder, 'd::linorder, 'e) index_key"
  show "key_cmp y x = reverse_ordering (key_cmp x y)"
    using scalars_cmp_laws(1) [of "key_scalars x"] by (simp add: key_cmp_def flips_at_def)
  show "key_cmp x y \<noteq> Greater \<Longrightarrow> key_cmp y z \<noteq> Greater \<Longrightarrow>
      key_cmp x z = (if key_cmp x y = Equal then key_cmp y z else Less)"
    using scalars_cmp_laws(2) [of "key_scalars x"] unfolding key_cmp_def trans_at_def by blast
qed

end
