(* ===== verification/BPlusTree.thy ===== *)
theory BPlusTree
  imports IndexKey
begin

text \<open>
  The B+ tree of secondary indexes, crates/ordadb-index/src/index/operations.rs (the data
  types are in types.rs): an arena of nodes, insertion with splits, lookups, range scans along
  the links between the leaves, and validation.

  A lookup follows links that an arbitrary arena may contain in a cycle, so lookups, scans and
  insertions are partial functions: not returning is \<open>None\<close>. A path through inner nodes is
  bounded by the code, and the bound is the argument \<open>room\<close>. The two searches of the standard
  library are its binary search, and \<open>owned_iter\<close> and its variants are the same iterators over
  a shared tree.
\<close>

section \<open>Searching in a slice\<close>

fun bsearch_loop :: "('a \<Rightarrow> ordering) \<Rightarrow> 'a list \<Rightarrow> nat \<Rightarrow> nat \<Rightarrow> nat" where
  "bsearch_loop f xs base n =
     (if n \<le> 1 then base
      else let half = n div 2; mid = base + half
        in bsearch_loop f xs (if f (xs ! mid) = Greater then base else mid) (n - half))"

declare bsearch_loop.simps [simp del]

text \<open>\<open>binary_search_by(f).unwrap_or_else(|position| position)\<close>.\<close>

definition search_position :: "('a \<Rightarrow> ordering) \<Rightarrow> 'a list \<Rightarrow> nat" where
  "search_position f xs =
     (if xs = [] then 0
      else let base = bsearch_loop f xs 0 (length xs) in if f (xs ! base) = Less then base + 1 else base)"

definition partition_point :: "('a \<Rightarrow> bool) \<Rightarrow> 'a list \<Rightarrow> nat" where
  "partition_point p xs = search_position (\<lambda>x. if p x then Less else Greater) xs"

definition insert_at :: "nat \<Rightarrow> 'a \<Rightarrow> 'a list \<Rightarrow> 'a list" where
  "insert_at i x xs = take i xs @ x # drop i xs"

section \<open>The tree\<close>

datatype ('n, 'd, 't, 's, 'j) bp_node =
    BpLeaf "('n, 'd, 't, 's, 'j) index_entry list" "nat option"
  | BpInternal "('n, 'd, 't, 's, 'j) index_key list" "nat list"

record ('n, 'd, 't, 's, 'j) bplus_tree =
  bt_nodes :: "('n, 'd, 't, 's, 'j) bp_node list"
  bt_root :: nat
  bt_order :: nat
  bt_unique :: bool
  bt_key_width :: "nat option"
  bt_entry_count :: nat

datatype 'k bound = Included 'k | Excluded 'k | Unbounded

abbreviation (input) DEFAULT_ORDER :: nat where "DEFAULT_ORDER \<equiv> 32"
abbreviation (input) MAX_INDEX_DEPTH :: nat where "MAX_INDEX_DEPTH \<equiv> 128"
abbreviation (input) MAX_INDEX_NODES :: nat where "MAX_INDEX_NODES \<equiv> 1000000"

definition bt_with_order :: "bool \<Rightarrow> nat \<Rightarrow> ('n, 'd, 't, 's, 'j) bplus_tree" where
  "bt_with_order unique order =
     \<lparr>bt_nodes = [BpLeaf [] None], bt_root = 0, bt_order = max order 3, bt_unique = unique, bt_key_width = None,
      bt_entry_count = 0\<rparr>"

definition bt_new :: "bool \<Rightarrow> ('n, 'd, 't, 's, 'j) bplus_tree" where
  "bt_new unique = bt_with_order unique DEFAULT_ORDER"

definition bt_len :: "('n, 'd, 't, 's, 'j) bplus_tree \<Rightarrow> nat" where
  "bt_len t = bt_entry_count t"

definition bt_is_empty :: "('n, 'd, 't, 's, 'j) bplus_tree \<Rightarrow> bool" where
  "bt_is_empty t \<longleftrightarrow> bt_entry_count t = 0"

section \<open>Iterators\<close>

definition exceeds_upper_bound ::
  "('n::linorder, 'd::linorder, 't::linorder, 's::linorder, 'j) index_key \<Rightarrow> ('n, 'd, 't, 's, 'j) index_key bound \<Rightarrow> bool" where
  "exceeds_upper_bound k upper =
     (case upper of Included u \<Rightarrow> key_cmp k u = Greater | Excluded u \<Rightarrow> key_cmp k u \<noteq> Less | Unbounded \<Rightarrow> False)"

text \<open>\<open>next\<close> of the iterator with its leaf and offset; the entry comes with the new state.\<close>

partial_function (option) bt_next ::
  "('n::linorder, 'd::linorder, 't::linorder, 's::linorder, 'j) bplus_tree \<Rightarrow> ('n, 'd, 't, 's, 'j) index_key bound \<Rightarrow>
     nat option \<Rightarrow> nat \<Rightarrow> (('n, 'd, 't, 's, 'j) index_entry option \<times> nat option \<times> nat) option" where
  "bt_next t upper leaf offset =
     (case leaf of
        None \<Rightarrow> Some (None, None, offset)
      | Some i \<Rightarrow>
          if length (bt_nodes t) \<le> i then Some (None, leaf, offset)
          else case bt_nodes t ! i of
            BpInternal _ _ \<Rightarrow> Some (None, None, offset)
          | BpLeaf entries link \<Rightarrow>
              if offset < length entries then
                if exceeds_upper_bound (ie_key (entries ! offset)) upper then Some (None, None, offset)
                else Some (Some (entries ! offset), leaf, offset + 1)
              else bt_next t upper link 0)"

partial_function (option) bt_collect ::
  "('n::linorder, 'd::linorder, 't::linorder, 's::linorder, 'j) bplus_tree \<Rightarrow> ('n, 'd, 't, 's, 'j) index_key bound \<Rightarrow>
     nat option \<Rightarrow> nat \<Rightarrow> ('n, 'd, 't, 's, 'j) index_entry list option" where
  "bt_collect t upper leaf offset =
     Option.bind (bt_next t upper leaf offset) (\<lambda>(entry, leaf', offset').
       case entry of
         None \<Rightarrow> Some []
       | Some e \<Rightarrow> Option.bind (bt_collect t upper leaf' offset') (\<lambda>es. Some (e # es)))"

fun leftmost_from :: "('n, 'd, 't, 's, 'j) bp_node list \<Rightarrow> nat \<Rightarrow> nat \<Rightarrow> nat option" where
  "leftmost_from nodes room i =
     (if length nodes \<le> i then None
      else case nodes ! i of
        BpLeaf _ _ \<Rightarrow> Some i
      | BpInternal _ children \<Rightarrow>
          (case room of
             0 \<Rightarrow> None
           | Suc room' \<Rightarrow> (case children of [] \<Rightarrow> None | c # _ \<Rightarrow> leftmost_from nodes room' c)))"

declare leftmost_from.simps [simp del]

definition leftmost_leaf :: "('n, 'd, 't, 's, 'j) bplus_tree \<Rightarrow> nat option" where
  "leftmost_leaf t = leftmost_from (bt_nodes t) MAX_INDEX_DEPTH (bt_root t)"

definition below_lower_bound ::
  "('n::linorder, 'd::linorder, 't::linorder, 's::linorder, 'j) index_key bound \<Rightarrow> ('n, 'd, 't, 's, 'j) index_key \<Rightarrow> bool" where
  "below_lower_bound lower k =
     (case lower of Included l \<Rightarrow> key_cmp k l = Less | Excluded l \<Rightarrow> key_cmp k l \<noteq> Greater | Unbounded \<Rightarrow> False)"

text \<open>The walk along the leaves of \<open>seek_lower_bound\<close>, and the descent before it.\<close>

partial_function (option) seek_leaf ::
  "('n::linorder, 'd::linorder, 't::linorder, 's::linorder, 'j) bplus_tree \<Rightarrow> ('n, 'd, 't, 's, 'j) index_key bound \<Rightarrow>
     nat option \<Rightarrow> (nat option \<times> nat) option" where
  "seek_leaf t lower leaf =
     (case leaf of
        None \<Rightarrow> Some (None, 0)
      | Some i \<Rightarrow>
          if length (bt_nodes t) \<le> i then Some (None, 0)
          else case bt_nodes t ! i of
            BpInternal _ _ \<Rightarrow> Some (None, 0)
          | BpLeaf entries link \<Rightarrow>
              let offset = partition_point (\<lambda>e. below_lower_bound lower (ie_key e)) entries
              in if offset < length entries then Some (leaf, offset) else seek_leaf t lower link)"

fun seek_node ::
  "('n::linorder, 'd::linorder, 't::linorder, 's::linorder, 'j) bplus_tree \<Rightarrow> ('n, 'd, 't, 's, 'j) index_key bound \<Rightarrow>
     ('n, 'd, 't, 's, 'j) index_key \<Rightarrow> nat \<Rightarrow> nat \<Rightarrow> (nat option \<times> nat) option" where
  "seek_node t lower k room i =
     (if length (bt_nodes t) \<le> i then Some (None, 0)
      else case bt_nodes t ! i of
        BpLeaf _ _ \<Rightarrow> seek_leaf t lower (Some i)
      | BpInternal keys children \<Rightarrow>
          (case room of
             0 \<Rightarrow> Some (None, 0)
           | Suc room' \<Rightarrow>
               let child = partition_point (\<lambda>s. key_cmp s k = Less) keys
               in if child < length children then seek_node t lower k room' (children ! child) else Some (None, 0)))"

declare seek_node.simps [simp del]

definition seek_lower_bound ::
  "('n::linorder, 'd::linorder, 't::linorder, 's::linorder, 'j) bplus_tree \<Rightarrow> ('n, 'd, 't, 's, 'j) index_key bound \<Rightarrow>
     (nat option \<times> nat) option" where
  "seek_lower_bound t lower =
     (case lower of
        Included k \<Rightarrow> seek_node t lower k MAX_INDEX_DEPTH (bt_root t)
      | Excluded k \<Rightarrow> seek_node t lower k MAX_INDEX_DEPTH (bt_root t)
      | Unbounded \<Rightarrow> Some (leftmost_leaf t, 0))"

definition bt_range ::
  "('n::linorder, 'd::linorder, 't::linorder, 's::linorder, 'j) bplus_tree \<Rightarrow> ('n, 'd, 't, 's, 'j) index_key bound \<Rightarrow>
     ('n, 'd, 't, 's, 'j) index_key bound \<Rightarrow> ('n, 'd, 't, 's, 'j) index_entry list option" where
  "bt_range t lower upper = Option.bind (seek_lower_bound t lower) (\<lambda>(leaf, offset). bt_collect t upper leaf offset)"

definition bt_get ::
  "('n::linorder, 'd::linorder, 't::linorder, 's::linorder, 'j) bplus_tree \<Rightarrow> ('n, 'd, 't, 's, 'j) index_key \<Rightarrow>
     ('n, 'd, 't, 's, 'j) index_entry list option" where
  "bt_get t k = bt_range t (Included k) (Included k)"

definition bt_entries ::
  "('n::linorder, 'd::linorder, 't::linorder, 's::linorder, 'j) bplus_tree \<Rightarrow> ('n, 'd, 't, 's, 'j) index_entry list option" where
  "bt_entries t = bt_collect t Unbounded (leftmost_leaf t) 0"

definition contains_key_fast ::
  "('n::linorder, 'd::linorder, 't::linorder, 's::linorder, 'j) bplus_tree \<Rightarrow> ('n, 'd, 't, 's, 'j) index_key \<Rightarrow> bool option" where
  "contains_key_fast t k =
     Option.bind (seek_lower_bound t (Included k)) (\<lambda>(leaf, offset).
     Option.bind (bt_next t (Included k) leaf offset) (\<lambda>(entry, _, _). Some (entry \<noteq> None)))"

section \<open>Insertion\<close>

text \<open>The descent to a leaf; the path has the last inner node first.\<close>

fun insert_descend ::
  "('n::linorder, 'd::linorder, 't::linorder, 's::linorder, 'j) bp_node list \<Rightarrow> ('n, 'd, 't, 's, 'j) index_key \<Rightarrow>
     nat \<Rightarrow> nat \<Rightarrow> (nat \<times> nat) list \<Rightarrow> (nat \<times> (nat \<times> nat) list) res" where
  "insert_descend nodes k room i path =
     (if length nodes \<le> i then Inl E_XX000
      else case nodes ! i of
        BpLeaf _ _ \<Rightarrow> Inr (i, path)
      | BpInternal keys children \<Rightarrow>
          (case room of
             0 \<Rightarrow> Inl E_54001
           | Suc room' \<Rightarrow>
               let child = partition_point (\<lambda>s. key_cmp k s \<noteq> Less) keys
               in if child < length children then insert_descend nodes k room' (children ! child) ((i, child) # path)
                  else Inl E_XX000))"

declare insert_descend.simps [simp del]

definition entry_cmp ::
  "('n::linorder, 'd::linorder, 't::linorder, 's::linorder, 'j) index_entry \<Rightarrow> ('n, 'd, 't, 's, 'j) index_entry \<Rightarrow> ordering" where
  "entry_cmp x y = then_with (key_cmp (ie_key x) (ie_key y)) (cmp_of (ie_row_id x) (ie_row_id y))"

definition div_ceil_2 :: "nat \<Rightarrow> nat" where
  "div_ceil_2 n = (n + 1) div 2"

definition insert_leaf ::
  "nat \<Rightarrow> nat \<Rightarrow> ('n::linorder, 'd::linorder, 't::linorder, 's::linorder, 'j) index_entry \<Rightarrow> ('n, 'd, 't, 's, 'j) bp_node list \<Rightarrow>
     (('n, 'd, 't, 's, 'j) index_key \<times> nat) option res \<times> ('n, 'd, 't, 's, 'j) bp_node list" where
  "insert_leaf order i entry nodes =
     (case nodes ! i of
        BpInternal _ _ \<Rightarrow> (Inl E_XX000, nodes)
      | BpLeaf entries link \<Rightarrow>
          let right_id = length nodes;
              entries = insert_at (search_position (\<lambda>existing. entry_cmp existing entry) entries) entry entries
          in if length entries \<le> order then (Inr None, nodes[i := BpLeaf entries link])
             else let half = div_ceil_2 (length entries) in
               (case drop half entries of
                  [] \<Rightarrow> (Inl E_XX000, nodes[i := BpLeaf (take half entries) link])
                | first # _ \<Rightarrow>
                    (Inr (Some (ie_key first, right_id)),
                     nodes[i := BpLeaf (take half entries) (Some right_id)] @ [BpLeaf (drop half entries) link])))"

text \<open>The loop that hands a split up the path, and the new root when it reaches the top.\<close>

fun insert_up ::
  "nat \<Rightarrow> (nat \<times> nat) list \<Rightarrow> (('n, 'd, 't, 's, 'j) index_key \<times> nat) option \<Rightarrow> ('n, 'd, 't, 's, 'j) bp_node list \<Rightarrow>
     (('n, 'd, 't, 's, 'j) index_key \<times> nat) option res \<times> ('n, 'd, 't, 's, 'j) bp_node list" where
  "insert_up order path None nodes = (Inr None, nodes)"
| "insert_up order [] (Some split) nodes = (Inr (Some split), nodes)"
| "insert_up order ((i, child) # path) (Some (separator, right)) nodes =
     (case nodes ! i of
        BpLeaf _ _ \<Rightarrow> (Inl E_XX000, nodes)
      | BpInternal keys children \<Rightarrow>
          let keys = insert_at child separator keys;
              children = insert_at (child + 1) right children
          in if length children \<le> order then (Inr None, nodes[i := BpInternal keys children])
             else let midpoint = length keys div 2 in
               (case take (midpoint + 1) keys of
                  [] \<Rightarrow> (Inl E_XX000, nodes[i := BpInternal [] (take (midpoint + 1) children)])
                | left \<Rightarrow>
                    insert_up order path (Some (last left, length nodes))
                      (nodes[i := BpInternal (butlast left) (take (midpoint + 1) children)] @
                       [BpInternal (drop (midpoint + 1) keys) (drop (midpoint + 1) children)])))"

definition insert_root ::
  "(('n, 'd, 't, 's, 'j) index_key \<times> nat) option \<Rightarrow> ('n, 'd, 't, 's, 'j) bplus_tree \<Rightarrow> ('n, 'd, 't, 's, 'j) bplus_tree" where
  "insert_root split t =
     (case split of
        None \<Rightarrow> t
      | Some (separator, right) \<Rightarrow>
          t\<lparr>bt_nodes := bt_nodes t @ [BpInternal [separator] [bt_root t, right]], bt_root := length (bt_nodes t)\<rparr>)"

definition bt_insert_unchecked ::
  "('n::linorder, 'd::linorder, 't::linorder, 's::linorder, 'j) index_entry \<Rightarrow> ('n, 'd, 't, 's, 'j) bplus_tree \<Rightarrow>
     unit res \<times> ('n, 'd, 't, 's, 'j) bplus_tree" where
  "bt_insert_unchecked entry t =
     (if MAX_INDEX_NODES < length (bt_nodes t) then (Inl E_54001, t)
      else case ok_or E_54001 (checked_add_usize (bt_entry_count t) 1) of
        Inl e \<Rightarrow> (Inl e, t)
      | Inr count \<Rightarrow>
          (case insert_descend (bt_nodes t) (ie_key entry) MAX_INDEX_DEPTH (bt_root t) [] of
             Inl e \<Rightarrow> (Inl e, t)
           | Inr (i, path) \<Rightarrow>
               (case insert_leaf (bt_order t) i entry (bt_nodes t) of
                  (Inl e, nodes) \<Rightarrow> (Inl e, t\<lparr>bt_nodes := nodes\<rparr>)
                | (Inr split, nodes) \<Rightarrow>
                    (case insert_up (bt_order t) path split nodes of
                       (Inl e, nodes) \<Rightarrow> (Inl e, t\<lparr>bt_nodes := nodes\<rparr>)
                     | (Inr split, nodes) \<Rightarrow>
                         (Inr (), (insert_root split (t\<lparr>bt_nodes := nodes\<rparr>))
                            \<lparr>bt_key_width := (case bt_key_width t of None \<Rightarrow> Some (key_len (ie_key entry)) | w \<Rightarrow> w),
                             bt_entry_count := count\<rparr>)))))"

text \<open>\<open>insert\<close>: the checks of the width and of uniqueness first.\<close>

definition bt_insert ::
  "('n::linorder, 'd::linorder, 't::linorder, 's::linorder, 'j) index_entry \<Rightarrow> ('n, 'd, 't, 's, 'j) bplus_tree \<Rightarrow>
     (unit res \<times> ('n, 'd, 't, 's, 'j) bplus_tree) option" where
  "bt_insert entry t =
     (if bt_key_width t \<noteq> None \<and> bt_key_width t \<noteq> Some (key_len (ie_key entry)) then Some (Inl E_22023, t)
      else Option.bind (if bt_unique t \<and> \<not> key_contains_null (ie_key entry) then contains_key_fast t (ie_key entry) else Some False)
        (\<lambda>duplicate. Some (if duplicate then (Inl E_23505, t) else bt_insert_unchecked entry t)))"

section \<open>Validation\<close>

lemma fresh_card: "\<not> n \<le> i \<Longrightarrow> i \<notin> V \<Longrightarrow> card ({..<n} - V) - Suc 0 < card ({..<n::nat} - V)"
  by (rule diff_less) (auto simp: card_gt_0_iff subset_eq not_le)

text \<open>The walk over the arena with a stack; it returns the nodes visited and the number of leaves.\<close>

function validate_nodes ::
  "('n::linorder, 'd::linorder, 't::linorder, 's::linorder, 'j) bplus_tree \<Rightarrow> nat option \<Rightarrow> nat set \<Rightarrow> nat \<Rightarrow>
     (nat \<times> nat \<times> bool) list \<Rightarrow> (nat set \<times> nat) res" where
  "validate_nodes t leaf_depth visited leaves [] = Inr (visited, leaves)"
| "validate_nodes t leaf_depth visited leaves ((i, depth, root) # stack) =
     (if MAX_INDEX_DEPTH < depth then Inl E_54001
      else if length (bt_nodes t) \<le> i \<or> i \<in> visited then Inl E_XX001
      else case bt_nodes t ! i of
        BpLeaf entries _ \<Rightarrow>
          try_bind (ok_or E_54001 (checked_add_usize leaves 1)) (\<lambda>leaves.
            if \<not> root \<and> entries = [] then Inl E_XX001
            else if bt_order t < length entries then Inl E_XX001
            else if \<not> list_all (\<lambda>e. Some (key_len (ie_key e)) = bt_key_width t) entries then Inl E_XX001
            else if leaf_depth \<noteq> None \<and> leaf_depth \<noteq> Some depth then Inl E_XX001
            else validate_nodes t (Some depth) (insert i visited) leaves stack)
      | BpInternal keys children \<Rightarrow>
          if length children \<noteq> length keys + 1 \<or> bt_order t < length children then Inl E_XX001
          else if \<not> root \<and> length children < 2 then Inl E_XX001
          else if \<exists>j < length keys - 1. key_cmp (keys ! j) (keys ! (j + 1)) = Greater then Inl E_XX001
          else validate_nodes t leaf_depth (insert i visited) leaves (map (\<lambda>c. (c, depth + 1, False)) children @ stack))"
  by pat_completeness auto

termination
  by (relation "measures [\<lambda>(t, _, visited, _, _). card ({..<length (bt_nodes t)} - visited), \<lambda>(_, _, _, _, stack). length stack]")
    (auto intro!: fresh_card)

text \<open>The entries of one leaf of the chain: the last entry before them, and the number so far.\<close>

fun validate_entries ::
  "bool \<Rightarrow> ('n::linorder, 'd::linorder, 't::linorder, 's::linorder, 'j) index_entry list \<Rightarrow>
     ('n, 'd, 't, 's, 'j) index_entry option \<Rightarrow> nat \<Rightarrow> (('n, 'd, 't, 's, 'j) index_entry option \<times> nat) res" where
  "validate_entries unique [] previous counted = Inr (previous, counted)"
| "validate_entries unique (e # es) previous counted =
     (if (case previous of None \<Rightarrow> False | Some p \<Rightarrow> entry_cmp p e = Greater) then Inl E_XX001
      else if (case previous of None \<Rightarrow> False | Some p \<Rightarrow>
          unique \<and> \<not> key_contains_null (ie_key p) \<and> key_cmp (ie_key p) (ie_key e) = Equal) then Inl E_XX001
      else try_bind (ok_or E_54001 (checked_add_usize counted 1)) (validate_entries unique es (Some e)))"

function validate_chain ::
  "('n::linorder, 'd::linorder, 't::linorder, 's::linorder, 'j) bplus_tree \<Rightarrow> nat option \<Rightarrow> nat set \<Rightarrow> nat \<Rightarrow>
     ('n, 'd, 't, 's, 'j) index_entry option \<Rightarrow> nat \<Rightarrow> (nat \<times> nat) res" where
  "validate_chain t leaf seen leaves previous counted =
     (case leaf of
        None \<Rightarrow> Inr (leaves, counted)
      | Some i \<Rightarrow>
          if length (bt_nodes t) \<le> i \<or> i \<in> seen then Inl E_XX001
          else case bt_nodes t ! i of
            BpInternal _ _ \<Rightarrow> Inl E_XX001
          | BpLeaf entries link \<Rightarrow>
              try_bind (ok_or E_54001 (checked_add_usize leaves 1)) (\<lambda>leaves.
              try_bind (validate_entries (bt_unique t) entries previous counted) (\<lambda>(previous, counted).
                validate_chain t link (insert i seen) leaves previous counted)))"
  by pat_completeness auto

termination
  by (relation "measure (\<lambda>(t, _, seen, _, _, _). card ({..<length (bt_nodes t)} - seen))") (auto intro!: fresh_card)

declare validate_chain.simps [simp del]

definition bt_validate ::
  "('n::linorder, 'd::linorder, 't::linorder, 's::linorder, 'j) bplus_tree \<Rightarrow> unit res" where
  "bt_validate t =
     (if length (bt_nodes t) \<le> bt_root t then Inl E_XX001
      else if MAX_INDEX_NODES < length (bt_nodes t) then Inl E_54001
      else try_bind (validate_nodes t None {} 0 [(bt_root t, 0, True)]) (\<lambda>(visited, arena_leaves).
        if \<exists>i < length (bt_nodes t). i \<notin> visited then Inl E_XX001
        else try_bind (validate_chain t (leftmost_leaf t) {} 0 None 0) (\<lambda>(chain_leaves, counted).
          if chain_leaves \<noteq> arena_leaves then Inl E_XX001
          else if counted \<noteq> bt_entry_count t then Inl E_XX001
          else Inr ())))"

fun bt_insert_all ::
  "('n::linorder, 'd::linorder, 't::linorder, 's::linorder, 'j) index_entry list \<Rightarrow> ('n, 'd, 't, 's, 'j) bplus_tree \<Rightarrow>
     ('n, 'd, 't, 's, 'j) bplus_tree res option" where
  "bt_insert_all [] t = Some (Inr t)"
| "bt_insert_all (e # es) t =
     Option.bind (bt_insert e t) (\<lambda>(r, t'). case r of Inl err \<Rightarrow> Some (Inl err) | Inr _ \<Rightarrow> bt_insert_all es t')"

definition bt_from_entries ::
  "bool \<Rightarrow> ('n::linorder, 'd::linorder, 't::linorder, 's::linorder, 'j) index_entry list \<Rightarrow>
     ('n, 'd, 't, 's, 'j) bplus_tree res option" where
  "bt_from_entries unique es =
     Option.bind (bt_insert_all es (bt_new unique)) (\<lambda>r.
       Some (try_bind r (\<lambda>t. try_bind (bt_validate t) (\<lambda>_. Inr t))))"

end
