(* ===== verification/BPlusTreeSafety.thy ===== *)
theory BPlusTreeSafety
  imports BPlusTree "HOL-Library.Multiset" "HOL-Library.Sublist"
begin

text \<open>
  What the B+ tree promises. A valid arena represents a tree of leaves and inner nodes
  (\<open>bp_view\<close>); searches, scans and insertions are proved against the list of the entries of its
  leaves from left to right.
\<close>

section \<open>The searches of the standard library\<close>

text \<open>
  A slice is arranged for a comparison when the elements that compare less come first and
  those that compare greater come last.
\<close>

definition arranged :: "('a \<Rightarrow> ordering) \<Rightarrow> 'a list \<Rightarrow> bool" where
  "arranged f xs \<longleftrightarrow> sorted_wrt (\<lambda>x y. (f x = Greater \<longrightarrow> f y = Greater) \<and> (f y = Less \<longrightarrow> f x = Less)) xs"

lemma arranged_nth:
  assumes "arranged f xs" and "i \<le> j" and "j < length xs"
  shows "f (xs ! i) = Greater \<Longrightarrow> f (xs ! j) = Greater" "f (xs ! j) = Less \<Longrightarrow> f (xs ! i) = Less"
  using sorted_wrt_nth_less [OF assms(1) [unfolded arranged_def], of i j] assms(2,3) by (cases "i = j"; simp)+

lemma bsearch_loop_correct:
  assumes "arranged f xs" and "0 < n" and "base + n \<le> length xs" and "base = 0 \<or> f (xs ! base) \<noteq> Greater"
    and "base + n = length xs \<or> f (xs ! (base + n)) = Greater"
  shows "(let b = bsearch_loop f xs base n in b < length xs \<and> (b = 0 \<or> f (xs ! b) \<noteq> Greater) \<and>
     (Suc b = length xs \<or> f (xs ! Suc b) = Greater))"
  using assms
proof (induction f xs base n rule: bsearch_loop.induct)
  case (1 f xs base n)
  show ?case
  proof (cases "n \<le> 1")
    case True
    with 1(3-) have "n = 1" by simp
    with 1(3-) show ?thesis by (subst bsearch_loop.simps) auto
  next
    case False
    define half where "half = n div 2"
    have half: "0 < half" "half < n" using False by (auto simp: half_def)
    show ?thesis
    proof (cases "f (xs ! (base + half)) = Greater")
      case True
      have "f (xs ! (base + (n - half))) = Greater" if "base + (n - half) \<noteq> length xs"
        using arranged_nth(1) [OF 1(2), of "base + half" "base + (n - half)"] True half that 1(4)
        by (auto simp: half_def)
      then show ?thesis
        using 1(1) [OF False half_def refl 1(2)] 1(2-) half True False
        by (subst bsearch_loop.simps) (auto simp: half_def [symmetric] Let_def)
    next
      case nGreater: False
      have "base + half + (n - half) = base + n" using half by simp
      then show ?thesis
        using 1(1) [OF False half_def refl 1(2)] 1(2-) half nGreater False
        by (subst bsearch_loop.simps) (auto simp: half_def [symmetric] Let_def)
    qed
  qed
qed

lemma search_position_correct:
  assumes "arranged f xs"
  shows "search_position f xs \<le> length xs" "x \<in> set (take (search_position f xs) xs) \<Longrightarrow> f x \<noteq> Greater"
    "x \<in> set (drop (search_position f xs) xs) \<Longrightarrow> f x \<noteq> Less"
proof -
  have "search_position f xs \<le> length xs \<and> (\<forall>i < search_position f xs. f (xs ! i) \<noteq> Greater) \<and>
      (\<forall>i. search_position f xs \<le> i \<longrightarrow> i < length xs \<longrightarrow> f (xs ! i) \<noteq> Less)"
  proof (cases "xs = []")
    case True
    then show ?thesis by (simp add: search_position_def)
  next
    case False
    define b where "b = bsearch_loop f xs 0 (length xs)"
    have b: "b < length xs" "b = 0 \<or> f (xs ! b) \<noteq> Greater" "Suc b = length xs \<or> f (xs ! Suc b) = Greater"
      using bsearch_loop_correct [OF assms, of "length xs" 0] False by (auto simp: b_def Let_def)
    have pos: "search_position f xs = (if f (xs ! b) = Less then Suc b else b)"
      using False by (simp add: search_position_def b_def Let_def)
    have before: "f (xs ! i) \<noteq> Greater" if "i < b \<or> i = b \<and> f (xs ! b) = Less" for i
      using arranged_nth(1) [OF assms, of i b] b that by (cases "i = b") auto
    have after: "f (xs ! i) = Greater" if "Suc b \<le> i" "i < length xs" for i
      using arranged_nth(1) [OF assms, of "Suc b" i] b(3) that by auto
    show ?thesis
      unfolding pos using b(1) before after
      by (auto simp: less_Suc_eq) (metis le_eq_less_or_eq less_eq_Suc_le ordering.distinct(3))+
  qed
  then show "search_position f xs \<le> length xs" "x \<in> set (take (search_position f xs) xs) \<Longrightarrow> f x \<noteq> Greater"
    "x \<in> set (drop (search_position f xs) xs) \<Longrightarrow> f x \<noteq> Less"
    by (auto simp: in_set_conv_nth add.commute)
qed

lemma partition_point_correct:
  assumes "sorted_wrt (\<lambda>x y. p y \<longrightarrow> p x) xs"
  shows "partition_point p xs \<le> length xs" "x \<in> set (take (partition_point p xs) xs) \<Longrightarrow> p x"
    "x \<in> set (drop (partition_point p xs) xs) \<Longrightarrow> \<not> p x"
proof -
  have "arranged (\<lambda>x. if p x then Less else Greater) xs"
    unfolding arranged_def using assms by (rule sorted_wrt_mono_rel [rotated]) auto
  note c = search_position_correct [OF this, folded partition_point_def]
  show "partition_point p xs \<le> length xs" by (rule c)
  show "x \<in> set (take (partition_point p xs) xs) \<Longrightarrow> p x" using c(2) [of x] by (auto split: if_splits)
  show "x \<in> set (drop (partition_point p xs) xs) \<Longrightarrow> \<not> p x" using c(3) [of x] by (auto split: if_splits)
qed

section \<open>The tree that an arena represents\<close>

datatype ('n, 'd, 't, 's, 'j) bp_tree =
    BL nat "('n, 'd, 't, 's, 'j) index_entry list"
  | BN nat "('n, 'd, 't, 's, 'j) index_key list" "('n, 'd, 't, 's, 'j) bp_tree list"

fun tree_id :: "('n, 'd, 't, 's, 'j) bp_tree \<Rightarrow> nat" where
  "tree_id (BL i es) = i"
| "tree_id (BN i ks gs) = i"

fun tree_ids :: "('n, 'd, 't, 's, 'j) bp_tree \<Rightarrow> nat list" where
  "tree_ids (BL i es) = [i]"
| "tree_ids (BN i ks gs) = i # concat (map tree_ids gs)"

fun leaves :: "('n, 'd, 't, 's, 'j) bp_tree \<Rightarrow> (nat \<times> ('n, 'd, 't, 's, 'j) index_entry list) list" where
  "leaves (BL i es) = [(i, es)]"
| "leaves (BN i ks gs) = concat (map leaves gs)"

definition tree_entries :: "('n, 'd, 't, 's, 'j) bp_tree \<Rightarrow> ('n, 'd, 't, 's, 'j) index_entry list" where
  "tree_entries g = concat (map snd (leaves g))"

text \<open>The keys of the entries with the separators between the subtrees, from left to right.\<close>

fun inter :: "'a list list \<Rightarrow> 'a list \<Rightarrow> 'a list" where
  "inter (x # xs) (k # ks) = x @ k # inter xs ks"
| "inter xs [] = concat xs"
| "inter [] ks = ks"

fun seps :: "('n, 'd, 't, 's, 'j) bp_tree \<Rightarrow> ('n, 'd, 't, 's, 'j) index_key list" where
  "seps (BL i es) = map ie_key es"
| "seps (BN i ks gs) = inter (map seps gs) ks"

fun inner :: "('n, 'd, 't, 's, 'j) bp_node list \<Rightarrow> ('n, 'd, 't, 's, 'j) bp_tree \<Rightarrow> bool" where
  "inner nodes (BL i es) = True"
| "inner nodes (BN i ks gs) = (i < length nodes \<and> nodes ! i = BpInternal ks (map tree_id gs) \<and> list_all (inner nodes) gs)"

fun chain ::
  "('n, 'd, 't, 's, 'j) bp_node list \<Rightarrow> (nat \<times> ('n, 'd, 't, 's, 'j) index_entry list) list \<Rightarrow> nat option \<Rightarrow> bool" where
  "chain nodes [] link = True"
| "chain nodes [(i, es)] link = (i < length nodes \<and> nodes ! i = BpLeaf es link)"
| "chain nodes ((i, es) # x # xs) link =
     (i < length nodes \<and> nodes ! i = BpLeaf es (Some (fst x)) \<and> chain nodes (x # xs) link)"

definition bp_view :: "('n, 'd, 't, 's, 'j) bp_node list \<Rightarrow> ('n, 'd, 't, 's, 'j) bp_tree \<Rightarrow> bool" where
  "bp_view nodes g \<longleftrightarrow> inner nodes g \<and> chain nodes (leaves g) None \<and> distinct (tree_ids g) \<and>
     set (tree_ids g) = {..<length nodes}"

fun deep :: "nat \<Rightarrow> ('n, 'd, 't, 's, 'j) bp_tree \<Rightarrow> bool" where
  "deep d (BL i es) = (d = 0)"
| "deep d (BN i ks gs) = (0 < d \<and> list_all (deep (d - 1)) gs)"

definition key_le ::
  "('n::linorder, 'd::linorder, 't::linorder, 's::linorder, 'j) index_key \<Rightarrow> ('n, 'd, 't, 's, 'j) index_key \<Rightarrow> bool" where
  "key_le x y \<longleftrightarrow> key_cmp x y \<noteq> Greater"

definition entry_le ::
  "('n::linorder, 'd::linorder, 't::linorder, 's::linorder, 'j) index_entry \<Rightarrow> ('n, 'd, 't, 's, 'j) index_entry \<Rightarrow> bool" where
  "entry_le x y \<longleftrightarrow> entry_cmp x y \<noteq> Greater"

text \<open>Sizes of the nodes: a leaf that is not the root has an entry, inner nodes have two children.\<close>

fun shaped ::
  "nat \<Rightarrow> nat option \<Rightarrow> bool \<Rightarrow> ('n::linorder, 'd::linorder, 't::linorder, 's::linorder, 'j) bp_tree \<Rightarrow> bool" where
  "shaped order width root (BL i es) =
     (length es \<le> order \<and> (root \<or> es \<noteq> []) \<and> sorted_wrt entry_le es \<and>
      list_all (\<lambda>e. Some (key_len (ie_key e)) = width) es)"
| "shaped order width root (BN i ks gs) =
     (length gs = Suc (length ks) \<and> 2 \<le> length gs \<and> length gs \<le> order \<and> list_all (shaped order width False) gs)"

lemma key_le_refl [simp]: "key_le x x"
  by (simp add: key_le_def)

lemma key_le_trans: "key_le x y \<Longrightarrow> key_le y z \<Longrightarrow> key_le x z"
  unfolding key_le_def by (rule key.le_trans)

lemma key_not_le: "\<not> key_le x y \<longleftrightarrow> key_cmp y x = Less"
  by (simp add: key_le_def key.greater)

lemma key_le_total: "key_le x y \<or> key_le y x"
  using key.flip [of y x] by (auto simp: key_le_def)

section \<open>A place in a tree\<close>

text \<open>
  A frame is an inner node with one child missing, a context a list of frames from the
  missing child up to the root; a context is where the descent through the arena stands.
\<close>

datatype ('n, 'd, 't, 's, 'j) frame =
  Fr nat "('n, 'd, 't, 's, 'j) index_key list" "('n, 'd, 't, 's, 'j) bp_tree list" "('n, 'd, 't, 's, 'j) index_key list"
    "('n, 'd, 't, 's, 'j) bp_tree list"

fun plug :: "('n, 'd, 't, 's, 'j) frame \<Rightarrow> ('n, 'd, 't, 's, 'j) bp_tree \<Rightarrow> ('n, 'd, 't, 's, 'j) bp_tree" where
  "plug (Fr i kl gl kr gr) g = BN i (kl @ kr) (gl @ g # gr)"

fun plugs :: "('n, 'd, 't, 's, 'j) frame list \<Rightarrow> ('n, 'd, 't, 's, 'j) bp_tree \<Rightarrow> ('n, 'd, 't, 's, 'j) bp_tree" where
  "plugs [] g = g"
| "plugs (f # fs) g = plugs fs (plug f g)"

fun frame_ok :: "('n, 'd, 't, 's, 'j) frame \<Rightarrow> bool" where
  "frame_ok (Fr i kl gl kr gr) = (length kl = length gl \<and> length kr = length gr)"

fun frame_pos :: "('n, 'd, 't, 's, 'j) frame \<Rightarrow> nat \<times> nat" where
  "frame_pos (Fr i kl gl kr gr) = (i, length gl)"

text \<open>What lies to the left and to the right of the place: separators with keys, and leaves.\<close>

definition pre_seps :: "'k list \<Rightarrow> 'k list list \<Rightarrow> 'k list" where
  "pre_seps kl xs = concat (map2 (\<lambda>x k. x @ [k]) xs kl)"

definition post_seps :: "'k list \<Rightarrow> 'k list list \<Rightarrow> 'k list" where
  "post_seps kr xs = concat (map2 (\<lambda>k x. k # x) kr xs)"

fun seps_l :: "('n, 'd, 't, 's, 'j) frame list \<Rightarrow> ('n, 'd, 't, 's, 'j) index_key list" where
  "seps_l [] = []"
| "seps_l (Fr i kl gl kr gr # fs) = seps_l fs @ pre_seps kl (map seps gl)"

fun seps_r :: "('n, 'd, 't, 's, 'j) frame list \<Rightarrow> ('n, 'd, 't, 's, 'j) index_key list" where
  "seps_r [] = []"
| "seps_r (Fr i kl gl kr gr # fs) = post_seps kr (map seps gr) @ seps_r fs"

fun leaves_l :: "('n, 'd, 't, 's, 'j) frame list \<Rightarrow> (nat \<times> ('n, 'd, 't, 's, 'j) index_entry list) list" where
  "leaves_l [] = []"
| "leaves_l (Fr i kl gl kr gr # fs) = leaves_l fs @ concat (map leaves gl)"

fun leaves_r :: "('n, 'd, 't, 's, 'j) frame list \<Rightarrow> (nat \<times> ('n, 'd, 't, 's, 'j) index_entry list) list" where
  "leaves_r [] = []"
| "leaves_r (Fr i kl gl kr gr # fs) = concat (map leaves gr) @ leaves_r fs"

fun ctx_ids :: "('n, 'd, 't, 's, 'j) frame list \<Rightarrow> nat list" where
  "ctx_ids [] = []"
| "ctx_ids (Fr i kl gl kr gr # fs) = i # concat (map tree_ids gl) @ concat (map tree_ids gr) @ ctx_ids fs"

lemma inter_split:
  "length xs = length kl \<Longrightarrow> length ys = length kr \<Longrightarrow>
     inter (xs @ x # ys) (kl @ kr) = pre_seps kl xs @ x @ post_seps kr ys"
proof (induction xs kl rule: list_induct2')
  case 1
  show ?case using 1(2)
    by (induction ys kr arbitrary: x rule: list_induct2') (auto simp: pre_seps_def post_seps_def)
qed (auto simp: pre_seps_def)

lemma seps_plugs: "list_all frame_ok fs \<Longrightarrow> seps (plugs fs g) = seps_l fs @ seps g @ seps_r fs"
proof (induction fs arbitrary: g)
  case (Cons f fs)
  then show ?case by (cases f) (simp add: inter_split)
qed simp

lemma leaves_plugs: "leaves (plugs fs g) = leaves_l fs @ leaves g @ leaves_r fs"
proof (induction fs arbitrary: g)
  case (Cons f fs)
  then show ?case by (cases f) simp
qed simp

lemma ids_plugs: "mset (tree_ids (plugs fs g)) = mset (tree_ids g) + mset (ctx_ids fs)"
proof (induction fs arbitrary: g)
  case (Cons f fs)
  then show ?case by (cases f) simp
qed simp

lemma plugs_append [simp]: "plugs (fs @ fs') g = plugs fs' (plugs fs g)"
  by (induction fs arbitrary: g) auto

lemma seps_append [simp]: "seps_l (fs @ fs') = seps_l fs' @ seps_l fs" "seps_r (fs @ fs') = seps_r fs @ seps_r fs'"
proof -
  show "seps_l (fs @ fs') = seps_l fs' @ seps_l fs"
    by (induction fs) (auto elim: frame_ok.cases, metis append_assoc frame.exhaust seps_l.simps(2))
  show "seps_r (fs @ fs') = seps_r fs @ seps_r fs'"
    by (induction fs) (auto, metis append_assoc frame.exhaust seps_r.simps(2))
qed

lemma leaves_append [simp]: "leaves_l (fs @ fs') = leaves_l fs' @ leaves_l fs" "leaves_r (fs @ fs') = leaves_r fs @ leaves_r fs'"
proof -
  show "leaves_l (fs @ fs') = leaves_l fs' @ leaves_l fs"
    by (induction fs) (auto, metis append_assoc frame.exhaust leaves_l.simps(2))
  show "leaves_r (fs @ fs') = leaves_r fs @ leaves_r fs'"
    by (induction fs) (auto, metis append_assoc frame.exhaust leaves_r.simps(2))
qed

lemma last_pre_seps:
  assumes "length xs = length kl" and "kl \<noteq> []"
  shows "pre_seps kl xs \<noteq> [] \<and> last (pre_seps kl xs) = last kl"
  using assms by (induction xs kl rule: list_induct2) (auto simp: pre_seps_def)

lemma hd_post_seps:
  assumes "length xs = length kr" and "kr \<noteq> []"
  shows "post_seps kr xs \<noteq> [] \<and> hd (post_seps kr xs) = hd kr"
  using assms by (cases kr; cases xs) (auto simp: post_seps_def)

lemma set_inter: "set ks \<subseteq> set (inter xs ks)"
  by (induction xs ks rule: inter.induct) auto

lemma sorted_inter: "sorted_wrt P (inter xs ks) \<Longrightarrow> sorted_wrt P ks"
  by (induction xs ks rule: inter.induct) (auto simp: sorted_wrt_append dest: subsetD [OF set_inter])

lemma sorted_last: "sorted_wrt key_le xs \<Longrightarrow> x \<in> set xs \<Longrightarrow> key_le x (last xs)"
  by (induction xs) (auto split: if_splits)

lemma sorted_hd: "sorted_wrt key_le xs \<Longrightarrow> x \<in> set xs \<Longrightarrow> key_le (hd xs) x"
  by (cases xs) auto

text \<open>The child that a descent chooses when \<open>p\<close> holds for the keys up to a point.\<close>

lemma child_split:
  assumes sorted: "sorted_wrt key_le (seps (BN i ks gs))" and len: "length gs = Suc (length ks)"
    and p: "\<And>x y. key_le x y \<Longrightarrow> p y \<Longrightarrow> p x" and c: "c = partition_point p ks"
  defines "f \<equiv> Fr i (take c ks) (take c gs) (drop c ks) (drop (Suc c) gs)"
  shows "c < length gs" "frame_ok f" "plug f (gs ! c) = BN i ks gs" "frame_pos f = (i, c)"
    "x \<in> set (seps_l [f]) \<Longrightarrow> p x" "x \<in> set (seps_r [f]) \<Longrightarrow> \<not> p x"
proof -
  have ks: "sorted_wrt key_le ks" using sorted sorted_inter by auto
  then have "sorted_wrt (\<lambda>x y. p y \<longrightarrow> p x) ks" by (rule sorted_wrt_mono_rel [rotated]) (use p in blast)
  note part = partition_point_correct [OF this, folded c]
  show cl: "c < length gs" using part(1) len by simp
  show ok: "frame_ok f" using part(1) len by (simp add: f_def)
  show plug: "plug f (gs ! c) = BN i ks gs" using cl by (simp add: f_def id_take_nth_drop [symmetric])
  show "frame_pos f = (i, c)" using cl by (simp add: f_def)
  have whole: "seps (BN i ks gs) = seps_l [f] @ seps (gs ! c) @ seps_r [f]"
    using seps_plugs [of "[f]" "gs ! c"] ok plug by simp
  have pre: "sorted_wrt key_le (seps_l [f])" and post: "sorted_wrt key_le (seps_r [f])"
    using sorted unfolding whole by (simp_all add: sorted_wrt_append)
  show "p x" if x: "x \<in> set (seps_l [f])"
  proof -
    have ne: "take c ks \<noteq> []" using x by (rule contrapos_pn) (auto simp: f_def pre_seps_def)
    then have "last (seps_l [f]) = last (take c ks)"
      using last_pre_seps [of "map seps (take c gs)" "take c ks"] part(1) len by (simp add: f_def)
    with part(2) [of "last (take c ks)"] ne have "p (last (seps_l [f]))" by simp
    with p [OF sorted_last [OF pre x]] show ?thesis by simp
  qed
  show "\<not> p x" if x: "x \<in> set (seps_r [f])"
  proof -
    have ne: "drop c ks \<noteq> []" using x by (auto simp: f_def post_seps_def)
    then have "hd (seps_r [f]) = hd (drop c ks)"
      using hd_post_seps [of "map seps (drop (Suc c) gs)" "drop c ks"] len by (simp add: f_def)
    with part(3) [of "hd (drop c ks)"] ne have "\<not> p (hd (seps_r [f]))" by (metis hd_in_set)
    with p [OF sorted_hd [OF post x]] show ?thesis by blast
  qed
qed

text \<open>The leaves of a tree are leaves of the arena.\<close>

definition leafy :: "('n, 'd, 't, 's, 'j) bp_node list \<Rightarrow> ('n, 'd, 't, 's, 'j) bp_tree \<Rightarrow> bool" where
  "leafy nodes g \<longleftrightarrow> (\<forall>(i, es) \<in> set (leaves g). i < length nodes \<and> (\<exists>link. nodes ! i = BpLeaf es link))"

lemma chain_leaf: "chain nodes xs link \<Longrightarrow> (i, es) \<in> set xs \<Longrightarrow> i < length nodes \<and> (\<exists>link. nodes ! i = BpLeaf es link)"
  by (induction nodes xs link rule: chain.induct) auto

lemma bp_view_leafy: "bp_view nodes g \<Longrightarrow> leafy nodes g"
  by (auto simp: bp_view_def leafy_def dest: chain_leaf)

lemma sorted_child:
  assumes "plug f g = h" and "frame_ok f" and "sorted_wrt key_le (seps h)"
  shows "sorted_wrt key_le (seps g)"
  using assms seps_plugs [of "[f]" g] by (simp add: sorted_wrt_append)

text \<open>
  The descent that insertion and lookup share: at every inner node to the child behind the
  last separator for which \<open>p\<close> holds.
\<close>

fun descend ::
  "(('n, 'd, 't, 's, 'j) index_key \<Rightarrow> bool) \<Rightarrow> ('n, 'd, 't, 's, 'j) bp_node list \<Rightarrow> nat \<Rightarrow> nat \<Rightarrow> (nat \<times> nat) list \<Rightarrow>
     (nat \<times> (nat \<times> nat) list) option" where
  "descend p nodes room i path =
     (if length nodes \<le> i then None
      else case nodes ! i of
        BpLeaf _ _ \<Rightarrow> Some (i, path)
      | BpInternal keys children \<Rightarrow>
          (case room of
             0 \<Rightarrow> None
           | Suc room' \<Rightarrow>
               let child = partition_point p keys
               in if child < length children then descend p nodes room' (children ! child) ((i, child) # path) else None))"

declare descend.simps [simp del]

lemma insert_descend_path:
  "descend (\<lambda>s. key_cmp k s \<noteq> Less) nodes room i path = Some x \<Longrightarrow> insert_descend nodes k room i path = Inr x"
proof (induction nodes k room i path rule: insert_descend.induct)
  case (1 nodes k room i path)
  then show ?case
    by (subst insert_descend.simps, subst (asm) (3) descend.simps)
      (auto simp: Let_def split: bp_node.splits nat.splits if_splits)
qed

lemma seek_node_path:
  "descend (\<lambda>s. key_cmp s k = Less) (bt_nodes t) room i path = Some (j, q) \<Longrightarrow> seek_node t lower k room i = seek_leaf t lower (Some j)"
proof (induction t lower k room i arbitrary: path rule: seek_node.induct)
  case (1 t lower k room i)
  then show ?case
    by (subst seek_node.simps, subst (asm) (3) descend.simps)
      (auto simp: Let_def split: bp_node.splits nat.splits if_splits)
qed

lemma descend_finds:
  assumes "inner nodes g" and "leafy nodes g" and "deep d g" and "d \<le> room" and "shaped order width root g"
    and "sorted_wrt key_le (seps g)" and p: "\<And>x y. key_le x y \<Longrightarrow> p y \<Longrightarrow> p x"
  shows "\<exists>fs i es. g = plugs fs (BL i es) \<and> list_all frame_ok fs \<and> length fs = d \<and>
     descend p nodes room (tree_id g) path = Some (i, map frame_pos fs @ path) \<and>
     (\<forall>x \<in> set (seps_l fs). p x) \<and> (\<forall>x \<in> set (seps_r fs). \<not> p x)"
  using assms(1-6)
proof (induction d arbitrary: g room root path)
  case 0
  then obtain i es where g: "g = BL i es" by (cases g) auto
  with 0(2) obtain link where "i < length nodes" "nodes ! i = BpLeaf es link" by (auto simp: leafy_def)
  then show ?case using g by (intro exI [of _ "[]"] exI [of _ i] exI [of _ es]) (subst descend.simps, simp)
next
  case (Suc d)
  then obtain i ks gs where g: "g = BN i ks gs" by (cases g) auto
  from Suc(5) obtain room' where room: "room = Suc room'" "d \<le> room'" by (cases room) auto
  define c where "c = partition_point p ks"
  define f where "f = Fr i (take c ks) (take c gs) (drop c ks) (drop (Suc c) gs)"
  have len: "length gs = Suc (length ks)" using Suc(6) g by simp
  note split = child_split [OF Suc(7) [unfolded g] len p c_def, folded f_def]
  let ?h = "gs ! c"
  have h: "?h \<in> set gs" using split(1) by simp
  have "inner nodes ?h" "leafy nodes ?h" "deep d ?h" "shaped order width False ?h"
    using Suc(2-6) h g by (auto simp: list_all_iff leafy_def)
  moreover have "sorted_wrt key_le (seps ?h)"
    using sorted_child [OF split(3,2)] Suc(7) g by simp
  ultimately obtain fs j es where fs: "?h = plugs fs (BL j es)" "list_all frame_ok fs" "length fs = d"
    "descend p nodes room' (tree_id ?h) ((i, c) # path) = Some (j, map frame_pos fs @ (i, c) # path)"
    "\<forall>x \<in> set (seps_l fs). p x" "\<forall>x \<in> set (seps_r fs). \<not> p x"
    using Suc.IH [of ?h room' False "(i, c) # path"] room(2) by blast
  have "i < length nodes" "nodes ! i = BpInternal ks (map tree_id gs)" using Suc(2) g by auto
  then have "descend p nodes room (tree_id g) path = Some (j, map frame_pos (fs @ [f]) @ path)"
    using fs(4) split(1,4) g room(1) by (subst descend.simps) (simp add: c_def [symmetric] Let_def)
  moreover have "g = plugs (fs @ [f]) (BL j es)" using fs(1) split(3) g by simp
  moreover have "\<forall>x \<in> set (seps_l (fs @ [f])). p x" "\<forall>x \<in> set (seps_r (fs @ [f])). \<not> p x"
    using fs(5,6) split(5,6) by auto
  ultimately show ?case using fs(2,3) split(2)
    by (intro exI [of _ "fs @ [f]"] exI [of _ j] exI [of _ es]) simp
qed

section \<open>Scans along the leaves\<close>

lemma chain_Cons:
  "chain nodes ((i, es) # xs) link \<longleftrightarrow> i < length nodes \<and> nodes ! i = BpLeaf es (case xs of [] \<Rightarrow> link | x # _ \<Rightarrow> Some (fst x)) \<and>
     chain nodes xs link"
  by (cases xs) auto

lemma leaf_chain_append: "chain nodes (xs @ ys) link \<longleftrightarrow>
    chain nodes xs (case ys of [] \<Rightarrow> link | y # _ \<Rightarrow> Some (fst y)) \<and> chain nodes ys link"
proof (induction xs)
  case (Cons x xs)
  show ?case
  proof (cases x)
    case (Pair i es)
    with Cons show ?thesis by (cases xs; cases ys) (auto simp: chain_Cons)
  qed
qed simp

definition first_leaf :: "(nat \<times> 'e list) list \<Rightarrow> nat option" where
  "first_leaf xs = (case xs of [] \<Rightarrow> None | x # _ \<Rightarrow> Some (fst x))"

lemma first_leaf_simps [simp]: "first_leaf [] = None" "first_leaf ((i, es) # xs) = Some i"
  by (simp_all add: first_leaf_def)

lemma chain_None: "chain nodes ((i, es) # xs) None \<longleftrightarrow> i < length nodes \<and> nodes ! i = BpLeaf es (first_leaf xs) \<and> chain nodes xs None"
  by (cases xs) (auto simp: chain_Cons)

definition list_entries :: "(nat \<times> 'e list) list \<Rightarrow> 'e list" where
  "list_entries xs = concat (map snd xs)"

lemma list_entries_simps [simp]: "list_entries [] = []" "list_entries ((i, es) # xs) = es @ list_entries xs"
  "list_entries (xs @ ys) = list_entries xs @ list_entries ys"
  by (simp_all add: list_entries_def)

lemma bt_next_here:
  assumes "i < length (bt_nodes t)" and "bt_nodes t ! i = BpLeaf es link" and "off < length es"
  shows "bt_next t upper (Some i) off =
    (if exceeds_upper_bound (ie_key (es ! off)) upper then Some (None, None, off) else Some (Some (es ! off), Some i, Suc off))"
  using assms by (subst bt_next.simps) simp

text \<open>
  A scan from an offset in a leaf returns the entries from there on up to the first one that
  exceeds the bound.
\<close>

definition scan_step ::
  "('n::linorder, 'd::linorder, 't::linorder, 's::linorder, 'j) bplus_tree \<Rightarrow> ('n, 'd, 't, 's, 'j) index_key bound \<Rightarrow>
     ('n, 'd, 't, 's, 'j) index_entry list \<Rightarrow> (('n, 'd, 't, 's, 'j) index_entry option \<times> nat option \<times> nat) option \<Rightarrow> bool" where
  "scan_step t upper remaining result =
     (case remaining of
        [] \<Rightarrow> \<exists>leaf off'. result = Some (None, leaf, off')
      | e # rest \<Rightarrow>
          if exceeds_upper_bound (ie_key e) upper then \<exists>leaf off'. result = Some (None, leaf, off')
          else \<exists>j fs ys off'. result = Some (Some e, Some j, off') \<and> chain (bt_nodes t) ((j, fs) # ys) None \<and>
            off' \<le> length fs \<and> drop off' fs @ list_entries ys = rest)"

lemma scan_step_here:
  assumes "chain (bt_nodes t) ((i, es) # xs) None" and "off < length es"
  shows "scan_step t upper (drop off es @ list_entries xs) (bt_next t upper (Some i) off)"
proof -
  have "drop off es = es ! off # drop (Suc off) es" using assms(2) by (simp add: Cons_nth_drop_Suc)
  moreover have "\<exists>j fs ys off'. Some (Some (es ! off), Some i, Suc off) = Some (Some (es ! off), Some j, off') \<and>
      chain (bt_nodes t) ((j, fs) # ys) None \<and> off' \<le> length fs \<and>
      drop off' fs @ list_entries ys = drop (Suc off) es @ list_entries xs"
    by (rule exI [of _ i], rule exI [of _ es], rule exI [of _ xs], rule exI [of _ "Suc off"]) (use assms in simp)
  moreover have "bt_next t upper (Some i) off =
      (if exceeds_upper_bound (ie_key (es ! off)) upper then Some (None, None, off) else Some (Some (es ! off), Some i, Suc off))"
    using assms by (intro bt_next_here) (auto simp: chain_None)
  ultimately show ?thesis by (simp add: scan_step_def)
qed

lemma bt_next_scan:
  assumes "chain (bt_nodes t) ((i, es) # xs) None" and "off \<le> length es"
  shows "scan_step t upper (drop off es @ list_entries xs) (bt_next t upper (Some i) off)"
  using assms
proof (induction xs arbitrary: i es off)
  case Nil
  show ?case
  proof (cases "off < length es")
    case False
    then show ?thesis using Nil by (subst bt_next.simps) (simp, subst bt_next.simps, simp add: scan_step_def)
  qed (use scan_step_here Nil in blast)
next
  case (Cons x xs)
  obtain j fs where x: "x = (j, fs)" by (cases x)
  show ?case
  proof (cases "off < length es")
    case False
    then have "bt_next t upper (Some i) off = bt_next t upper (Some j) 0"
      using Cons(2) x by (subst bt_next.simps) (auto simp: chain_None)
    then show ?thesis using Cons.IH [of j fs 0] Cons(2,3) False x by (simp add: chain_None)
  qed (use scan_step_here Cons(2) in blast)
qed

lemma bt_collect_scan:
  assumes "chain (bt_nodes t) ((i, es) # xs) None" and "off \<le> length es"
  shows "bt_collect t upper (Some i) off = Some (takeWhile (\<lambda>e. \<not> exceeds_upper_bound (ie_key e) upper) (drop off es @ list_entries xs))"
proof -
  have "drop off es @ list_entries xs = rest \<Longrightarrow>
      bt_collect t upper (Some i) off = Some (takeWhile (\<lambda>e. \<not> exceeds_upper_bound (ie_key e) upper) rest)" for rest
    using assms
  proof (induction rest arbitrary: i es xs off)
    case Nil
    then show ?case using bt_next_scan [OF Nil(2,3), of upper] by (subst bt_collect.simps) (auto simp: scan_step_def)
  next
    case (Cons e rest)
    show ?case
    proof (cases "exceeds_upper_bound (ie_key e) upper")
      case True
      then show ?thesis using bt_next_scan [OF Cons(3,4), of upper] Cons(2) by (subst bt_collect.simps) (auto simp: scan_step_def)
    next
      case False
      then obtain j fs ys off' where "bt_next t upper (Some i) off = Some (Some e, Some j, off')"
        "chain (bt_nodes t) ((j, fs) # ys) None" "off' \<le> length fs" "drop off' fs @ list_entries ys = rest"
        using bt_next_scan [OF Cons(3,4), of upper] Cons(2) by (auto simp: scan_step_def)
      with Cons.IH [OF this(4) this(2,3)] False show ?thesis by (subst bt_collect.simps) simp
    qed
  qed
  then show ?thesis by simp
qed

section \<open>Seeking a lower bound\<close>

lemma below_mono: "key_le x y \<Longrightarrow> below_lower_bound lower y \<Longrightarrow> below_lower_bound lower x"
  by (auto simp: below_lower_bound_def key_le_def split: bound.splits dest: key.le_less_trans key.le_trans)

lemma partition_point_length:
  assumes "sorted_wrt (\<lambda>x y. p y \<longrightarrow> p x) xs"
  shows "drop (partition_point p xs) xs = dropWhile p xs"
proof -
  note c = partition_point_correct [OF assms]
  have "dropWhile p xs = dropWhile p (take (partition_point p xs) xs @ drop (partition_point p xs) xs)" by simp
  also have "\<dots> = dropWhile p (drop (partition_point p xs) xs)"
    using c(2) by (subst dropWhile_append2) auto
  also have "\<dots> = drop (partition_point p xs) xs"
    using c(3) [of "hd (drop (partition_point p xs) xs)"]
    by (cases "drop (partition_point p xs) xs") auto
  finally show ?thesis by simp
qed

lemma seek_leaf_finds:
  assumes "chain (bt_nodes t) xs None" and "sorted_wrt key_le (map ie_key (list_entries xs))"
  shows "\<exists>leaf off. seek_leaf t lower (first_leaf xs) = Some (leaf, off) \<and>
     bt_collect t upper leaf off = Some (takeWhile (\<lambda>e. \<not> exceeds_upper_bound (ie_key e) upper)
       (dropWhile (\<lambda>e. below_lower_bound lower (ie_key e)) (list_entries xs))) \<and>
     scan_step t upper (dropWhile (\<lambda>e. below_lower_bound lower (ie_key e)) (list_entries xs)) (bt_next t upper leaf off)"
  using assms
proof (induction xs)
  case Nil
  then show ?case
    by (subst seek_leaf.simps, simp, subst bt_collect.simps, simp) (subst (1 2) bt_next.simps, simp add: scan_step_def)
next
  case (Cons x xs)
  obtain i es where x: "x = (i, es)" by (cases x)
  let ?below = "\<lambda>e. below_lower_bound lower (ie_key e)"
  have node: "i < length (bt_nodes t)" "bt_nodes t ! i = BpLeaf es (first_leaf xs)" "chain (bt_nodes t) xs None"
    using Cons(2) x by (simp_all add: chain_None)
  have "sorted_wrt key_le (map ie_key es)" using Cons(3) x by (simp add: sorted_wrt_append)
  then have mono: "sorted_wrt (\<lambda>e f. ?below f \<longrightarrow> ?below e) es"
    unfolding sorted_wrt_map by (rule sorted_wrt_mono_rel [rotated]) (use below_mono in blast)
  note part = partition_point_length [OF mono]
  show ?case
  proof (cases "partition_point ?below es < length es")
    case True
    then have "seek_leaf t lower (first_leaf (x # xs)) = Some (Some i, partition_point ?below es)"
      using node x by (subst seek_leaf.simps) simp
    moreover have "dropWhile ?below (list_entries (x # xs)) = drop (partition_point ?below es) es @ list_entries xs"
    proof -
      have "dropWhile ?below es \<noteq> []" using True by (simp add: part [symmetric])
      then show ?thesis using x part by (simp add: dropWhile_append) (auto simp: dropWhile_eq_Nil_conv)
    qed
    ultimately show ?thesis
      using bt_collect_scan [of t i es xs "partition_point ?below es"] bt_next_scan [of t i es xs "partition_point ?below es"] Cons(2) x True
      by simp
  next
    case False
    then have "dropWhile ?below es = []" by (simp add: part [symmetric])
    then have "dropWhile ?below (list_entries (x # xs)) = dropWhile ?below (list_entries xs)"
      using x by (simp add: dropWhile_append)
    moreover have "seek_leaf t lower (first_leaf (x # xs)) = seek_leaf t lower (first_leaf xs)"
      using node x False by (subst seek_leaf.simps) simp
    moreover have "sorted_wrt key_le (map ie_key (list_entries xs))" using Cons(3) x by (simp add: sorted_wrt_append)
    ultimately show ?thesis using Cons.IH [OF node(3)] by simp
  qed
qed

section \<open>Valid trees\<close>

lemma sorted_wrt_subseq: "subseq xs ys \<Longrightarrow> sorted_wrt P ys \<Longrightarrow> sorted_wrt P xs"
proof (induction rule: list_emb.induct)
  case (list_emb_Cons2 x y xs ys)
  then show ?case using list_emb_set [OF list_emb_Cons2(2)] by fastforce
qed auto

lemma subseq_concat: "list_all2 subseq xs ys \<Longrightarrow> subseq (concat xs) (concat ys)"
  by (induction rule: list_all2_induct) (auto intro: list_emb_append_mono)

lemma subseq_inter: "subseq (concat xs) (inter xs ks)"
  by (induction xs ks rule: inter.induct) (auto intro: list_emb_append_mono list_emb_Cons)

lemma subseq_keys: "subseq (map ie_key (tree_entries g)) (seps g)"
proof (induction g)
  case (BN i ks gs)
  then have "list_all2 subseq (map (map ie_key \<circ> tree_entries) gs) (map seps gs)"
    by (auto simp: list_all2_conv_all_nth)
  from subseq_concat [OF this] subseq_inter [of "map seps gs" ks]
  have "subseq (concat (map (map ie_key \<circ> tree_entries) gs)) (seps (BN i ks gs))"
    using subseq_order.order_trans by simp
  moreover have "concat (map (map ie_key \<circ> tree_entries) gs) = map ie_key (tree_entries (BN i ks gs))"
    by (induction gs) (simp_all add: tree_entries_def map_concat comp_def)
  ultimately show ?case by simp
qed (simp add: tree_entries_def)

lemma sorted_entries: "sorted_wrt key_le (seps g) \<Longrightarrow> sorted_wrt key_le (map ie_key (tree_entries g))"
  using sorted_wrt_subseq [OF subseq_keys] .

lemma leaves_exponential: "deep d g \<Longrightarrow> shaped order width root g \<Longrightarrow> 2 ^ d \<le> length (leaves g)"
proof (induction d g arbitrary: root rule: deep.induct)
  case (2 d i ks gs)
  have each: "2 ^ (d - 1) \<le> length (leaves h)" if "h \<in> set gs" for h
    using 2(1) [of h False] 2(2,3) that by (auto simp: list_all_iff)
  obtain a b hs where gs: "gs = a # b # hs" using 2(3) by (cases gs rule: list.exhaust, simp) (metis One_nat_def
      Suc_1 Suc_le_length_iff length_Cons le_SucE list.exhaust list.size(3) not_less_eq_eq shaped.simps(2) zero_less_Suc)
  have "2 ^ d = 2 ^ (d - 1) + (2 :: nat) ^ (d - 1)" using 2(2) by (cases d) auto
  also have "\<dots> \<le> length (leaves a) + length (leaves b)" using each [of a] each [of b] gs by simp
  finally show ?case using gs by simp
qed simp

lemma subseq_leaves: "subseq (map fst (leaves g)) (tree_ids g)"
proof (induction g)
  case (BN i ks gs)
  then have "list_all2 subseq (map (map fst \<circ> leaves) gs) (map tree_ids gs)"
    by (auto simp: list_all2_conv_all_nth)
  from subseq_concat [OF this] have "subseq (map fst (concat (map leaves gs))) (concat (map tree_ids gs))"
    by (simp add: map_concat comp_def)
  then show ?case by (simp add: list_emb_Cons)
qed simp

lemma leaves_ids: "length (leaves g) \<le> length (tree_ids g)"
  using list_emb_length [OF subseq_leaves [of g]] by simp

lemma distinct_leaves: "distinct (tree_ids g) \<Longrightarrow> distinct (map fst (leaves g))"
proof -
  have distinct: "distinct xs \<longleftrightarrow> sorted_wrt (\<noteq>) xs" for xs :: "nat list" by (induction xs) auto
  show "distinct (tree_ids g) \<Longrightarrow> distinct (map fst (leaves g))"
    unfolding distinct by (rule sorted_wrt_subseq [OF subseq_leaves])
qed

definition unique_keys :: "('n::linorder, 'd::linorder, 't::linorder, 's::linorder, 'j) index_entry list \<Rightarrow> bool" where
  "unique_keys es \<longleftrightarrow>
     sorted_wrt (\<lambda>x y. key_contains_null (ie_key x) \<or> key_cmp (ie_key x) (ie_key y) \<noteq> Equal) es"

text \<open>
  The invariant of the tree. The number of nodes is bounded by the limit of the code and the
  nodes that one more insertion may add.
\<close>

definition tree_ok ::
  "('n::linorder, 'd::linorder, 't::linorder, 's::linorder, 'j) bplus_tree \<Rightarrow> ('n, 'd, 't, 's, 'j) bp_tree \<Rightarrow> bool" where
  "tree_ok t g \<longleftrightarrow> bp_view (bt_nodes t) g \<and> bt_root t = tree_id g \<and> 3 \<le> bt_order t \<and> (\<exists>d. deep d g) \<and>
     shaped (bt_order t) (bt_key_width t) True g \<and> sorted_wrt key_le (seps g) \<and>
     bt_entry_count t = length (tree_entries g) \<and> bt_entry_count t \<le> usize_max \<and> (bt_key_width t = None \<longleftrightarrow> tree_entries g = []) \<and>
     length (bt_nodes t) \<le> MAX_INDEX_NODES + 40 \<and> (bt_unique t \<longrightarrow> unique_keys (tree_entries g))"

definition bt_ok :: "('n::linorder, 'd::linorder, 't::linorder, 's::linorder, 'j) bplus_tree \<Rightarrow> bool" where
  "bt_ok t \<longleftrightarrow> (\<exists>g. tree_ok t g)"

text \<open>Every path stays far below the depth limit of the code.\<close>

lemma tree_ok_depth:
  assumes "tree_ok t g" and "deep d g"
  shows "d \<le> 20"
proof (rule ccontr)
  assume "\<not> d \<le> 20"
  then have "(2::nat) ^ 21 \<le> 2 ^ d" by (intro power_increasing) auto
  also have "\<dots> \<le> length (leaves g)" using assms leaves_exponential by (auto simp: tree_ok_def)
  also have "\<dots> \<le> length (tree_ids g)" by (rule leaves_ids)
  also have "\<dots> = card (set (tree_ids g))" using assms(1) distinct_card [of "tree_ids g"] by (simp add: tree_ok_def bp_view_def)
  also have "\<dots> = length (bt_nodes t)" using assms(1) by (simp add: tree_ok_def bp_view_def)
  finally show False using assms(1) by (simp add: tree_ok_def)
qed

lemma chain_suffix: "chain nodes (xs @ ys) None \<Longrightarrow> chain nodes ys None"
  by (simp add: leaf_chain_append)

lemma leftmost_from_finds:
  assumes "inner nodes g" and "leafy nodes g" and "deep d g" and "d \<le> room" and "shaped order width root g"
  shows "leftmost_from nodes room (tree_id g) = first_leaf (leaves g)"
  using assms
proof (induction d arbitrary: g room root)
  case 0
  then obtain i es where g: "g = BL i es" by (cases g) auto
  with 0(2) show ?case by (subst leftmost_from.simps) (auto simp: leafy_def)
next
  case (Suc d)
  then obtain i ks gs where g: "g = BN i ks gs" by (cases g) auto
  from Suc(5) obtain room' where room: "room = Suc room'" "d \<le> room'" by (cases room) auto
  obtain h hs where gs: "gs = h # hs" using Suc(6) g by (cases gs) auto
  have "inner nodes h" "leafy nodes h" "deep d h" "shaped order width False h"
    using Suc(2-6) g gs by (auto simp: leafy_def)
  from Suc.IH [OF this(1-3) room(2) this(4)] have "leftmost_from nodes room' (tree_id h) = first_leaf (leaves h)" .
  moreover have "leaves h \<noteq> []" using leaves_exponential [OF \<open>deep d h\<close> \<open>shaped order width False h\<close>] by auto
  ultimately show ?case using Suc(2) g gs room(1) by (subst leftmost_from.simps) (auto simp: first_leaf_def split: list.splits)
qed

lemma entries_in_seps: "ie_key ` set (tree_entries g) \<subseteq> set (seps g)"
  using list_emb_set [OF subseq_keys [of g]] by auto

lemma entries_in_seps_l:
  "e \<in> set (list_entries (leaves_l fs)) \<Longrightarrow> list_all frame_ok fs \<Longrightarrow> ie_key e \<in> set (seps_l fs)"
proof (induction fs)
  case (Cons f fs)
  obtain i kl gl kr gr where f: "f = Fr i kl gl kr gr" by (cases f)
  have "ie_key e \<in> set (pre_seps kl (map seps gl))" if "e \<in> set (list_entries (concat (map leaves gl)))"
  proof -
    have "length kl = length gl" using Cons(3) f by simp
    then show ?thesis using that
    proof (induction kl gl rule: list_induct2)
      case (Cons k kl h hs)
      then show ?case using entries_in_seps [of h] by (auto simp: pre_seps_def tree_entries_def list_entries_def)
    qed (simp add: pre_seps_def)
  qed
  with Cons f show ?case by auto
qed simp

lemma entries_in_seps_r:
  "e \<in> set (list_entries (leaves_r fs)) \<Longrightarrow> list_all frame_ok fs \<Longrightarrow> ie_key e \<in> set (seps_r fs)"
proof (induction fs)
  case (Cons f fs)
  obtain i kl gl kr gr where f: "f = Fr i kl gl kr gr" by (cases f)
  have "ie_key e \<in> set (post_seps kr (map seps gr))" if "e \<in> set (list_entries (concat (map leaves gr)))"
  proof -
    have "length kr = length gr" using Cons(3) f by simp
    then show ?thesis using that
    proof (induction kr gr rule: list_induct2)
      case (Cons k kl h hs)
      then show ?case using entries_in_seps [of h] by (auto simp: post_seps_def tree_entries_def list_entries_def)
    qed (simp add: post_seps_def)
  qed
  with Cons f show ?case by auto
qed simp

text \<open>Where a range scan starts, and what it returns from there.\<close>

lemma seek_finds:
  assumes "tree_ok t g"
  shows "\<exists>leaf off. seek_lower_bound t lower = Some (leaf, off) \<and>
     bt_collect t upper leaf off = Some (takeWhile (\<lambda>e. \<not> exceeds_upper_bound (ie_key e) upper)
       (dropWhile (\<lambda>e. below_lower_bound lower (ie_key e)) (tree_entries g))) \<and>
     scan_step t upper (dropWhile (\<lambda>e. below_lower_bound lower (ie_key e)) (tree_entries g)) (bt_next t upper leaf off)"
proof -
  let ?below = "\<lambda>e. below_lower_bound lower (ie_key e)"
  obtain d where d: "deep d g" using assms by (auto simp: tree_ok_def)
  have room: "d \<le> MAX_INDEX_DEPTH" using tree_ok_depth [OF assms d] by simp
  have view: "bp_view (bt_nodes t) g" and inner: "inner (bt_nodes t) g" and chain: "chain (bt_nodes t) (leaves g) None"
    and sorted: "sorted_wrt key_le (seps g)" and root: "bt_root t = tree_id g"
    and shaped: "shaped (bt_order t) (bt_key_width t) True g"
    using assms by (auto simp: tree_ok_def bp_view_def)
  note leafy = bp_view_leafy [OF view]
  have entries: "tree_entries g = list_entries (leaves g)" by (simp add: tree_entries_def list_entries_def)
  show ?thesis
  proof (cases "lower = Unbounded")
    case True
    have "leftmost_leaf t = first_leaf (leaves g)"
      unfolding leftmost_leaf_def root by (rule leftmost_from_finds [OF inner leafy d room shaped])
    moreover obtain i es xs where "leaves g = (i, es) # xs"
      using leaves_exponential [OF d shaped] by (cases "leaves g") auto
    ultimately show ?thesis
      using True chain bt_collect_scan [of t i es xs 0 upper] bt_next_scan [of t i es xs 0 upper]
      by (simp add: seek_lower_bound_def entries below_lower_bound_def dropWhile_eq_self_iff [THEN iffD2])
  next
    case False
    then obtain k where k: "seek_lower_bound t lower = seek_node t lower k MAX_INDEX_DEPTH (bt_root t)"
      "\<And>x. key_cmp x k = Less \<Longrightarrow> below_lower_bound lower x"
      by (cases lower) (auto simp: seek_lower_bound_def below_lower_bound_def)
    have mono: "key_le x y \<Longrightarrow> key_cmp y k = Less \<Longrightarrow> key_cmp x k = Less" for x y
      unfolding key_le_def by (rule key.le_less_trans)
    obtain fs i es where fs: "g = plugs fs (BL i es)" "list_all frame_ok fs"
      "descend (\<lambda>s. key_cmp s k = Less) (bt_nodes t) MAX_INDEX_DEPTH (tree_id g) [] = Some (i, map frame_pos fs)"
      "\<forall>x \<in> set (seps_l fs). key_cmp x k = Less"
      using descend_finds [OF inner leafy d room shaped sorted, where p = "\<lambda>s. key_cmp s k = Less" and path = "[]"] mono
      unfolding append_Nil2 by blast
    let ?xs = "(i, es) # leaves_r fs"
    have leaves: "leaves g = leaves_l fs @ ?xs" by (simp add: fs(1) leaves_plugs)
    have "seek_lower_bound t lower = seek_leaf t lower (first_leaf ?xs)"
      unfolding k root using seek_node_path [OF fs(3)] by simp
    moreover have "chain (bt_nodes t) ?xs None" using chain unfolding leaves by (rule chain_suffix)
    moreover have "sorted_wrt key_le (map ie_key (list_entries ?xs))"
      using sorted_entries [OF sorted] unfolding entries leaves by (simp add: sorted_wrt_append)
    moreover have "dropWhile ?below (tree_entries g) = dropWhile ?below (list_entries ?xs)"
    proof -
      have "ie_key e \<in> set (seps_l fs)" if "e \<in> set (list_entries (leaves_l fs))" for e
        using that fs(2) by (rule entries_in_seps_l)
      then show ?thesis unfolding entries leaves using fs(4) k(2) by (simp add: dropWhile_append2)
    qed
    ultimately show ?thesis using seek_leaf_finds [of t ?xs lower upper] by simp
  qed
qed

lemma takeWhile_filter: "sorted_wrt (\<lambda>x y. P y \<longrightarrow> P x) xs \<Longrightarrow> takeWhile P xs = filter P xs"
  by (induction xs) (auto simp: filter_empty_conv)

lemma dropWhile_filter: "sorted_wrt (\<lambda>x y. P y \<longrightarrow> P x) xs \<Longrightarrow> dropWhile P xs = filter (\<lambda>x. \<not> P x) xs"
  by (induction xs) (auto simp: filter_id_conv)

lemma exceeds_mono: "key_le x y \<Longrightarrow> exceeds_upper_bound x upper \<Longrightarrow> exceeds_upper_bound y upper"
proof (cases upper)
  case (Included u)
  assume "key_le x y" "exceeds_upper_bound x upper"
  then have "key_cmp u x = Less" "key_cmp x y \<noteq> Greater"
    using Included by (simp_all add: exceeds_upper_bound_def key_le_def key.greater)
  then show ?thesis using Included key.less_le_trans [of u x y] by (simp add: exceeds_upper_bound_def key.greater)
next
  case (Excluded u)
  assume "key_le x y" "exceeds_upper_bound x upper"
  then show ?thesis using Excluded key.le_less_trans [of x y u] by (auto simp: exceeds_upper_bound_def key_le_def)
qed (simp add: exceeds_upper_bound_def)

definition within :: "('n::linorder, 'd::linorder, 't::linorder, 's::linorder, 'j) index_key bound \<Rightarrow>
    ('n, 'd, 't, 's, 'j) index_key bound \<Rightarrow> ('n, 'd, 't, 's, 'j) index_entry \<Rightarrow> bool" where
  "within lower upper e \<longleftrightarrow>
     (case lower of Included l \<Rightarrow> key_le l (ie_key e) | Excluded l \<Rightarrow> key_cmp l (ie_key e) = Less | Unbounded \<Rightarrow> True) \<and>
     (case upper of Included u \<Rightarrow> key_le (ie_key e) u | Excluded u \<Rightarrow> key_cmp (ie_key e) u = Less | Unbounded \<Rightarrow> True)"

lemma within_bounds:
  "within lower upper e \<longleftrightarrow> \<not> below_lower_bound lower (ie_key e) \<and> \<not> exceeds_upper_bound (ie_key e) upper"
proof -
  have "key_le l k \<longleftrightarrow> key_cmp k l \<noteq> Less" "key_cmp l k = Less \<longleftrightarrow> key_cmp k l = Greater" for l k :: "('a, 'b, 'c, 'd, 'e) index_key"
    by (simp_all add: key_le_def key.greater)
  then show ?thesis
    by (cases lower; cases upper) (simp_all add: within_def below_lower_bound_def exceeds_upper_bound_def key_le_def)
qed

lemma scan_filter:
  assumes "sorted_wrt key_le (map ie_key es)"
  shows "takeWhile (\<lambda>e. \<not> exceeds_upper_bound (ie_key e) upper) (dropWhile (\<lambda>e. below_lower_bound lower (ie_key e)) es) =
    filter (within lower upper) es"
proof -
  have s: "sorted_wrt (\<lambda>x y. key_le (ie_key x) (ie_key y)) es" using assms by (simp add: sorted_wrt_map)
  have "sorted_wrt (\<lambda>x y. below_lower_bound lower (ie_key y) \<longrightarrow> below_lower_bound lower (ie_key x)) es"
    using s by (rule sorted_wrt_mono_rel [rotated]) (use below_mono in blast)
  then have d: "dropWhile (\<lambda>e. below_lower_bound lower (ie_key e)) es = filter (\<lambda>e. \<not> below_lower_bound lower (ie_key e)) es"
    by (rule dropWhile_filter)
  have "sorted_wrt (\<lambda>x y. \<not> exceeds_upper_bound (ie_key y) upper \<longrightarrow> \<not> exceeds_upper_bound (ie_key x) upper)
      (filter (\<lambda>e. \<not> below_lower_bound lower (ie_key e)) es)"
    by (rule sorted_wrt_mono_rel [OF _ sorted_wrt_filter [OF s]]) (use exceeds_mono in blast)
  then show ?thesis unfolding d within_bounds [abs_def] by (simp add: takeWhile_filter filter_filter)
qed

lemma bt_range_eq:
  assumes "tree_ok t g"
  shows "bt_range t lower upper = Some (filter (within lower upper) (tree_entries g))"
proof -
  have "sorted_wrt key_le (map ie_key (tree_entries g))" using assms by (auto simp: tree_ok_def intro: sorted_entries)
  from scan_filter [OF this] seek_finds [OF assms, of lower upper] show ?thesis by (auto simp: bt_range_def)
qed

lemma bt_entries_eq:
  assumes "tree_ok t g"
  shows "bt_entries t = Some (tree_entries g)"
  using bt_range_eq [OF assms, of Unbounded Unbounded]
  by (simp add: bt_range_def seek_lower_bound_def bt_entries_def within_bounds below_lower_bound_def exceeds_upper_bound_def)

lemma scan_step_first:
  "scan_step t upper rest r \<Longrightarrow> \<exists>e leaf off. r = Some (e, leaf, off) \<and>
     (e \<noteq> None \<longleftrightarrow> takeWhile (\<lambda>e. \<not> exceeds_upper_bound (ie_key e) upper) rest \<noteq> [])"
  by (cases rest) (auto simp: scan_step_def split: if_splits)

lemma contains_key_eq:
  assumes "tree_ok t g"
  shows "contains_key_fast t k = Some (\<exists>e \<in> set (tree_entries g). key_cmp (ie_key e) k = Equal)"
proof -
  have sorted: "sorted_wrt key_le (map ie_key (tree_entries g))" using assms by (auto simp: tree_ok_def intro: sorted_entries)
  let ?rest = "dropWhile (\<lambda>e. below_lower_bound (Included k) (ie_key e)) (tree_entries g)"
  obtain leaf off where l: "seek_lower_bound t (Included k) = Some (leaf, off)"
    "scan_step t (Included k) ?rest (bt_next t (Included k) leaf off)"
    using seek_finds [OF assms, of "Included k" "Included k"] by blast
  have "takeWhile (\<lambda>e. \<not> exceeds_upper_bound (ie_key e) (Included k)) ?rest = filter (\<lambda>e. key_cmp (ie_key e) k = Equal) (tree_entries g)"
    unfolding scan_filter [OF sorted] by (rule filter_cong [OF refl])
      (auto simp: within_bounds below_lower_bound_def exceeds_upper_bound_def, metis ordering.exhaust)
  moreover have "\<exists>e leaf' off'. bt_next t (Included k) leaf off = Some (e, leaf', off') \<and>
      (e \<noteq> None \<longleftrightarrow> takeWhile (\<lambda>e. \<not> exceeds_upper_bound (ie_key e) (Included k)) ?rest \<noteq> [])"
    using l(2) by (rule scan_step_first)
  ultimately have "\<exists>e leaf' off'. bt_next t (Included k) leaf off = Some (e, leaf', off') \<and>
      (e \<noteq> None \<longleftrightarrow> (\<exists>e \<in> set (tree_entries g). key_cmp (ie_key e) k = Equal))"
    by (simp add: filter_empty_conv)
  then show ?thesis using l(1) by (auto simp: contains_key_fast_def)
qed

section \<open>The arena around a place\<close>

fun ctx_inner :: "('n, 'd, 't, 's, 'j) bp_node list \<Rightarrow> nat \<Rightarrow> ('n, 'd, 't, 's, 'j) frame list \<Rightarrow> bool" where
  "ctx_inner nodes c [] = True"
| "ctx_inner nodes c (Fr i kl gl kr gr # fs) =
     (i < length nodes \<and> nodes ! i = BpInternal (kl @ kr) (map tree_id gl @ c # map tree_id gr) \<and>
      list_all (inner nodes) gl \<and> list_all (inner nodes) gr \<and> ctx_inner nodes i fs)"

fun ctx_deep :: "nat \<Rightarrow> ('n, 'd, 't, 's, 'j) frame list \<Rightarrow> bool" where
  "ctx_deep d [] = True"
| "ctx_deep d (Fr i kl gl kr gr # fs) = (list_all (deep d) gl \<and> list_all (deep d) gr \<and> ctx_deep (Suc d) fs)"

fun ctx_shaped :: "nat \<Rightarrow> nat option \<Rightarrow> ('n::linorder, 'd::linorder, 't::linorder, 's::linorder, 'j) frame list \<Rightarrow> bool" where
  "ctx_shaped order width [] = True"
| "ctx_shaped order width (Fr i kl gl kr gr # fs) =
     ((gl \<noteq> [] \<or> gr \<noteq> []) \<and> Suc (length gl + length gr) \<le> order \<and> length kl = length gl \<and> length kr = length gr \<and>
      list_all (shaped order width False) gl \<and> list_all (shaped order width False) gr \<and> ctx_shaped order width fs)"

text \<open>
  \<open>placed nodes fs c gs\<close>: the arena holds the context \<open>fs\<close>, whose missing child is node \<open>c\<close>,
  and the trees \<open>gs\<close>, whose leaves are linked in between; together they are all its nodes.
\<close>

definition placed ::
  "('n, 'd, 't, 's, 'j) bp_node list \<Rightarrow> ('n, 'd, 't, 's, 'j) frame list \<Rightarrow> nat \<Rightarrow> ('n, 'd, 't, 's, 'j) bp_tree list \<Rightarrow> bool" where
  "placed nodes fs c gs \<longleftrightarrow> list_all (inner nodes) gs \<and> ctx_inner nodes c fs \<and>
     chain nodes (leaves_l fs @ concat (map leaves gs) @ leaves_r fs) None \<and>
     distinct (concat (map tree_ids gs) @ ctx_ids fs) \<and> set (concat (map tree_ids gs) @ ctx_ids fs) = {..<length nodes}"

lemma inner_plugs: "inner nodes (plugs fs g) \<longleftrightarrow> inner nodes g \<and> ctx_inner nodes (tree_id g) fs"
proof (induction fs arbitrary: g)
  case (Cons f fs)
  then show ?case by (cases f) auto
qed simp

lemma deep_plugs: "deep (length fs + d) (plugs fs g) \<longleftrightarrow> deep d g \<and> ctx_deep d fs"
proof (induction fs arbitrary: g d)
  case (Cons f fs)
  then show ?case using Cons [of "Suc d" "plug f g"] by (cases f) auto
qed simp

lemma shaped_plugs:
  "list_all frame_ok fs \<Longrightarrow>
     shaped order width root (plugs fs g) \<longleftrightarrow> shaped order width (root \<and> fs = []) g \<and> ctx_shaped order width fs"
proof (induction fs arbitrary: g root)
  case (Cons f fs)
  then show ?case by (cases f) (auto simp: Suc_le_eq)
qed simp

lemma mset_distinct: "mset xs = mset ys \<Longrightarrow> distinct xs = distinct ys \<and> set xs = set ys"
  by (metis mset_eq_imp_distinct_iff mset_eq_setD)

lemma bp_view_placed: "bp_view nodes (plugs fs g) \<longleftrightarrow> placed nodes fs (tree_id g) [g]"
proof -
  have "mset (tree_ids (plugs fs g)) = mset (tree_ids g @ ctx_ids fs)" by (simp add: ids_plugs)
  from mset_distinct [OF this] show ?thesis
    unfolding bp_view_def placed_def by (auto simp: inner_plugs leaves_plugs)
qed

text \<open>Two arenas that agree on some nodes.\<close>

definition agree :: "'a list \<Rightarrow> 'a list \<Rightarrow> nat set \<Rightarrow> bool" where
  "agree nodes nodes' A \<longleftrightarrow> (\<forall>i \<in> A. i < length nodes \<longrightarrow> i < length nodes' \<and> nodes' ! i = nodes ! i)"

lemma agree_mono: "agree nodes nodes' A \<Longrightarrow> B \<subseteq> A \<Longrightarrow> agree nodes nodes' B"
  by (auto simp: agree_def)

lemma inner_agree: "agree nodes nodes' (set (tree_ids g)) \<Longrightarrow> inner nodes g \<Longrightarrow> inner nodes' g"
  by (induction g) (auto simp: agree_def list_all_iff)

lemma chain_agree: "agree nodes nodes' (fst ` set xs) \<Longrightarrow> chain nodes xs link \<Longrightarrow> chain nodes' xs link"
  by (induction nodes xs link rule: chain.induct) (auto simp: agree_def)

lemma leaf_ids: "fst ` set (leaves g) \<subseteq> set (tree_ids g)"
  by (induction g) auto

lemma ctx_leaf_ids: "fst ` set (leaves_l fs) \<subseteq> set (ctx_ids fs)" "fst ` set (leaves_r fs) \<subseteq> set (ctx_ids fs)"
proof -
  have "fst ` set (leaves_l fs) \<subseteq> set (ctx_ids fs) \<and> fst ` set (leaves_r fs) \<subseteq> set (ctx_ids fs)"
  proof (induction fs)
    case (Cons f fs)
    then show ?case using leaf_ids by (cases f) fastforce
  qed simp
  then show "fst ` set (leaves_l fs) \<subseteq> set (ctx_ids fs)" "fst ` set (leaves_r fs) \<subseteq> set (ctx_ids fs)" by auto
qed

lemma inners_agree:
  assumes "agree nodes nodes' (set (concat (map tree_ids gs)))" and "list_all (inner nodes) gs"
  shows "list_all (inner nodes') gs"
  unfolding list_all_iff
proof
  fix g
  assume g: "g \<in> set gs"
  have "agree nodes nodes' (set (tree_ids g))" using assms(1) by (rule agree_mono) (use g in auto)
  then show "inner nodes' g" using assms(2) g by (auto simp: list_all_iff intro: inner_agree)
qed

lemma ctx_agree: "agree nodes nodes' (set (ctx_ids fs)) \<Longrightarrow> ctx_inner nodes c fs \<Longrightarrow> ctx_inner nodes' c fs"
proof (induction fs arbitrary: c)
  case (Cons f fs)
  obtain i kl gl kr gr where f: "f = Fr i kl gl kr gr" by (cases f)
  have "agree nodes nodes' (set (ctx_ids fs))" "agree nodes nodes' (set (concat (map tree_ids gl)))"
    "agree nodes nodes' (set (concat (map tree_ids gr)))" "agree nodes nodes' {i}"
    using Cons(2) unfolding f by (auto elim!: agree_mono)
  then show ?case using Cons f by (auto simp: inners_agree agree_def)
qed simp

lemma agree_update: "i \<notin> A \<Longrightarrow> agree nodes (nodes[i := x]) A" "i \<notin> A \<Longrightarrow> agree nodes (nodes[i := x] @ ys) A"
  by (auto simp: agree_def nth_append) (metis nth_list_update_neq)+

lemma placed_leaf:
  assumes "placed nodes fs i [BL i es]"
  shows "i < length nodes" "nodes ! i = BpLeaf es (first_leaf (leaves_r fs))" "i \<notin> set (ctx_ids fs)"
    "chain nodes (leaves_l fs) (Some i)" "chain nodes (leaves_r fs) None"
  using assms by (auto simp: placed_def leaf_chain_append chain_None)

lemma placed_leaf_one:
  assumes "placed nodes fs i [BL i es]" and "nodes ! i = BpLeaf es link"
  shows "placed (nodes[i := BpLeaf es' link]) fs i [BL i es']"
proof -
  let ?n = "nodes[i := BpLeaf es' link]"
  note p = placed_leaf [OF assms(1)]
  have ctx: "agree nodes ?n (set (ctx_ids fs))" using p(3) by (rule agree_update)
  have "chain ?n (leaves_l fs) (Some i)" "chain ?n (leaves_r fs) None"
    using p(4,5) chain_agree agree_mono [OF ctx ctx_leaf_ids(1)] agree_mono [OF ctx ctx_leaf_ids(2)] by blast+
  moreover have "ctx_inner ?n i fs" using assms(1) ctx_agree [OF ctx] by (simp add: placed_def)
  ultimately show ?thesis
    using assms p by (simp add: placed_def leaf_chain_append chain_None)
qed

lemma placed_leaf_two:
  assumes "placed nodes fs i [BL i es]" and "nodes ! i = BpLeaf es link"
  shows "placed (nodes[i := BpLeaf a (Some (length nodes))] @ [BpLeaf b link]) fs i [BL i a, BL (length nodes) b]"
proof -
  let ?n = "nodes[i := BpLeaf a (Some (length nodes))] @ [BpLeaf b link]"
  note p = placed_leaf [OF assms(1)]
  have ctx: "agree nodes ?n (set (ctx_ids fs))" using p(3) by (rule agree_update)
  have "chain ?n (leaves_l fs) (Some i)" "chain ?n (leaves_r fs) None"
    using p(4,5) chain_agree agree_mono [OF ctx ctx_leaf_ids(1)] agree_mono [OF ctx ctx_leaf_ids(2)] by blast+
  moreover have "ctx_inner ?n i fs" using assms(1) ctx_agree [OF ctx] by (simp add: placed_def)
  moreover have "length nodes \<notin> set (ctx_ids fs)" using assms(1) by (auto simp: placed_def)
  moreover have "{..<length ?n} = insert (length nodes) {..<length nodes}" by auto
  ultimately show ?thesis
    using assms p by (auto simp: placed_def leaf_chain_append chain_None nth_append)
qed

lemma placed_node:
  assumes "placed nodes (Fr q kl gl kr gr # fs) c gs" and "G = gl @ gs @ gr"
  shows "q < length nodes" "nodes ! q = BpInternal (kl @ kr) (map tree_id gl @ c # map tree_id gr)"
    "list_all (inner nodes) G" "ctx_inner nodes q fs" "q \<notin> set (concat (map tree_ids G))" "q \<notin> set (ctx_ids fs)"
    "chain nodes (leaves_l fs @ concat (map leaves G) @ leaves_r fs) None"
    "distinct (concat (map tree_ids G) @ ctx_ids fs)"
    "insert q (set (concat (map tree_ids G) @ ctx_ids fs)) = {..<length nodes}"
  using assms by (auto simp: placed_def)

lemma placed_node_agree:
  assumes p: "placed nodes (Fr q kl gl kr gr # fs) c gs" and "G = gl @ gs @ gr"
    and "agree nodes n (set (concat (map tree_ids G)))" and "agree nodes n (set (ctx_ids fs))"
  shows "list_all (inner n) G" "ctx_inner n q fs" "chain n (leaves_l fs @ concat (map leaves G) @ leaves_r fs) None"
proof -
  note q = placed_node [OF p assms(2)]
  show "list_all (inner n) G" by (rule inners_agree [OF assms(3) q(3)])
  show "ctx_inner n q fs" by (rule ctx_agree [OF assms(4) q(4)])
  have "fst ` set (leaves_l fs @ concat (map leaves G) @ leaves_r fs) \<subseteq> set (concat (map tree_ids G)) \<union> set (ctx_ids fs)"
    using ctx_leaf_ids leaf_ids by fastforce
  then have "agree nodes n (fst ` set (leaves_l fs @ concat (map leaves G) @ leaves_r fs))"
    using assms(3,4) unfolding agree_def by blast
  then show "chain n (leaves_l fs @ concat (map leaves G) @ leaves_r fs) None" using q(7) by (rule chain_agree)
qed

lemma placed_node_one:
  assumes p: "placed nodes (Fr q kl gl kr gr # fs) c gs" and G: "G = gl @ gs @ gr"
  shows "placed (nodes[q := BpInternal K (map tree_id G)]) fs q [BN q K G]"
proof -
  note q = placed_node [OF p G]
  note a = placed_node_agree [OF p G agree_update(1) [OF q(5)] agree_update(1) [OF q(6)], of "BpInternal K (map tree_id G)"]
  then show ?thesis using q by (auto simp: placed_def)
qed

lemma placed_node_two:
  assumes p: "placed nodes (Fr q kl gl kr gr # fs) c gs" and G: "G1 @ G2 = gl @ gs @ gr"
  shows "placed (nodes[q := BpInternal K1 (map tree_id G1)] @ [BpInternal K2 (map tree_id G2)]) fs q
    [BN q K1 G1, BN (length nodes) K2 G2]"
proof -
  let ?n = "nodes[q := BpInternal K1 (map tree_id G1)] @ [BpInternal K2 (map tree_id G2)]"
  note q = placed_node [OF p G]
  note a = placed_node_agree [OF p G agree_update(2) [OF q(5)] agree_update(2) [OF q(6)],
      of "BpInternal K1 (map tree_id G1)" "[BpInternal K2 (map tree_id G2)]"]
  have "length nodes \<notin> set (concat (map tree_ids (G1 @ G2)) @ ctx_ids fs)" using q(9) by auto
  moreover have "{..<length ?n} = insert (length nodes) {..<length nodes}" by auto
  ultimately show ?thesis using q a unfolding placed_def by (auto simp: nth_append)
qed

section \<open>Handing a split up\<close>

text \<open>The trees \<open>gs\<close> with separators \<open>ss\<close> in between fit into the context: depths, sizes and order.\<close>

definition fits ::
  "nat \<Rightarrow> nat option \<Rightarrow> nat \<Rightarrow> ('n::linorder, 'd::linorder, 't::linorder, 's::linorder, 'j) frame list \<Rightarrow>
     ('n, 'd, 't, 's, 'j) bp_tree list \<Rightarrow> ('n, 'd, 't, 's, 'j) index_key list \<Rightarrow> bool" where
  "fits order width d fs gs ss \<longleftrightarrow> list_all (deep d) gs \<and> ctx_deep d fs \<and>
     list_all (shaped order width (fs = [] \<and> length gs = 1)) gs \<and> ctx_shaped order width fs \<and> list_all frame_ok fs \<and>
     length gs = Suc (length ss) \<and> sorted_wrt key_le (seps_l fs @ inter (map seps gs) ss @ seps_r fs)"

definition ctx_entries :: "('n, 'd, 't, 's, 'j) frame list \<Rightarrow> ('n, 'd, 't, 's, 'j) bp_tree list \<Rightarrow> ('n, 'd, 't, 's, 'j) index_entry list" where
  "ctx_entries fs gs = list_entries (leaves_l fs @ concat (map leaves gs) @ leaves_r fs)"

lemma inter_glue:
  assumes "length xs = length kl" and "length ys = length kr" and "length zs = Suc (length ss)"
  shows "inter (xs @ zs @ ys) (kl @ ss @ kr) = pre_seps kl xs @ inter zs ss @ post_seps kr ys"
  using assms(1)
proof (induction xs kl rule: list_induct2)
  case Nil
  have "inter (zs @ ys) (ss @ kr) = inter zs ss @ post_seps kr ys"
    using assms(3)
  proof (induction ss arbitrary: zs)
    case Nil
    then obtain z where "zs = [z]" by (cases zs) auto
    then show ?case using inter_split [of "[]" "[]" ys kr z] assms(2) by (simp add: pre_seps_def)
  next
    case (Cons s ss)
    then show ?case by (cases zs) auto
  qed
  then show ?case by (simp add: pre_seps_def)
qed (simp add: pre_seps_def)

lemma inter_cut:
  assumes "length zs = Suc (length ss)" and "m < length ss"
  shows "inter zs ss = inter (take (Suc m) zs) (take m ss) @ ss ! m # inter (drop (Suc m) zs) (drop (Suc m) ss)"
  using assms
proof (induction m arbitrary: zs ss)
  case 0
  then show ?case by (cases zs; cases ss) auto
next
  case (Suc m)
  then obtain z zs' s ss' where "zs = z # zs'" "ss = s # ss'" by (cases zs; cases ss) auto
  with Suc show ?case by simp
qed

lemma insert_at_middle: "insert_at (length xs) x (xs @ ys) = xs @ x # ys"
  by (simp add: insert_at_def)

lemma fits_step:
  assumes f: "fits order width d (Fr q kl gl kr gr # fs) [g1, g2] [s]"
  defines "K \<equiv> kl @ s # kr" and "G \<equiv> gl @ [g1, g2] @ gr"
  shows "length G = Suc (length K)" "list_all (deep d) G" "ctx_deep (Suc d) fs" "list_all (shaped order width False) G"
    "ctx_shaped order width fs" "list_all frame_ok fs" "2 \<le> length G"
    "sorted_wrt key_le (seps_l fs @ inter (map seps G) K @ seps_r fs)" "length G \<le> Suc order"
proof -
  show "length G = Suc (length K)" "list_all (deep d) G" "ctx_deep (Suc d) fs" "list_all (shaped order width False) G"
    "ctx_shaped order width fs" "list_all frame_ok fs" "2 \<le> length G" "length G \<le> Suc order"
    using f by (auto simp: fits_def K_def G_def)
  have "inter (map seps G) K = pre_seps kl (map seps gl) @ inter [seps g1, seps g2] [s] @ post_seps kr (map seps gr)"
    using f inter_glue [of "map seps gl" kl "map seps gr" kr "[seps g1, seps g2]" "[s]"] by (simp add: fits_def K_def G_def)
  then show "sorted_wrt key_le (seps_l fs @ inter (map seps G) K @ seps_r fs)"
    using f by (simp add: fits_def)
qed

text \<open>
  What the loop returns: either the split was absorbed and the arena holds a valid tree, or
  the root itself was split in two.
\<close>

definition up_result ::
  "nat \<Rightarrow> nat option \<Rightarrow> nat \<Rightarrow> nat \<Rightarrow> nat \<Rightarrow> ('n::linorder, 'd::linorder, 't::linorder, 's::linorder, 'j) index_entry list \<Rightarrow>
     (('n, 'd, 't, 's, 'j) index_key \<times> nat) option \<Rightarrow> ('n, 'd, 't, 's, 'j) bp_node list \<Rightarrow> bool" where
  "up_result order width d root len es split nodes \<longleftrightarrow> length nodes \<le> len \<and>
     (case split of
        None \<Rightarrow> \<exists>g. placed nodes [] root [g] \<and> tree_id g = root \<and> fits order width d [] [g] [] \<and> ctx_entries [] [g] = es
      | Some (s, right) \<Rightarrow> \<exists>g1 g2. placed nodes [] root [g1, g2] \<and> tree_id g1 = root \<and> tree_id g2 = right \<and>
          fits order width d [] [g1, g2] [s] \<and> ctx_entries [] [g1, g2] = es)"

lemma fits_plugs:
  assumes "fits order width d fs [g] []"
  shows "fits order width (length fs + d) [] [plugs fs g] []"
  using assms by (auto simp: fits_def deep_plugs shaped_plugs seps_plugs)

lemma ctx_entries_plugs: "ctx_entries [] [plugs fs g] = ctx_entries fs [g]"
  by (simp add: ctx_entries_def leaves_plugs)

lemma up_result_None:
  assumes "placed nodes fs (tree_id g) [g]" and "fits order width d fs [g] []" and "length nodes \<le> len"
  shows "up_result order width (length fs + d) (tree_id (plugs fs g)) len (ctx_entries fs [g]) None nodes"
  using assms fits_plugs [OF assms(2)] bp_view_placed [of nodes fs g] bp_view_placed [of nodes "[]" "plugs fs g"]
  by (auto simp: up_result_def ctx_entries_plugs intro!: exI [of _ "plugs fs g"])

lemma plug_id: "tree_id g = tree_id h \<Longrightarrow> tree_id (plugs fs g) = tree_id (plugs fs h)"
proof (induction fs arbitrary: g h)
  case (Cons f fs)
  show ?case by (cases f) (auto intro!: Cons(1))
qed simp

lemma insert_up_correct:
  assumes "placed nodes fs (tree_id g1) [g1, g2]" and "fits order width d fs [g1, g2] [s]" and "3 \<le> order"
  shows "\<exists>split nodes'. insert_up order (map frame_pos fs) (Some (s, tree_id g2)) nodes = (Inr split, nodes') \<and>
     up_result order width (length fs + d) (tree_id (plugs fs g1)) (length nodes + length fs) (ctx_entries fs [g1, g2]) split nodes'"
  using assms(1,2)
proof (induction fs arbitrary: g1 g2 s d nodes)
  case Nil
  then show ?case by (auto simp: up_result_def)
next
  case (Cons f fs)
  obtain q kl gl kr gr where f: "f = Fr q kl gl kr gr" by (cases f)
  define K where "K = kl @ s # kr"
  define G where "G = gl @ [g1, g2] @ gr"
  note step = fits_step [OF Cons(3) [unfolded f], folded K_def G_def]
  note node = placed_node(1,2) [OF Cons(2) [unfolded f] G_def]
  have kl: "length kl = length gl" using Cons(3) f by (simp add: fits_def)
  have keys: "insert_at (length gl) s (kl @ kr) = K" unfolding K_def kl [symmetric] by (rule insert_at_middle)
  have children: "insert_at (Suc (length gl)) (tree_id g2) (map tree_id gl @ tree_id g1 # map tree_id gr) = map tree_id G"
    using insert_at_middle [of "map tree_id gl @ [tree_id g1]" "tree_id g2" "map tree_id gr"] by (simp add: G_def)
  have entries: "ctx_entries (f # fs) [g1, g2] = list_entries (leaves_l fs @ concat (map leaves G) @ leaves_r fs)"
    by (simp add: f ctx_entries_def G_def)
  have root: "tree_id (plugs (f # fs) g1) = tree_id (plugs fs h)" if "tree_id h = q" for h
    using that plug_id [of "plug f g1" h fs] f by simp
  show ?case
  proof (cases "length G \<le> order")
    case True
    let ?n = "nodes[q := BpInternal K (map tree_id G)]"
    have "insert_up order (map frame_pos (f # fs)) (Some (s, tree_id g2)) nodes = (Inr None, ?n)"
      using node keys children True by (simp add: f Let_def)
    moreover have "placed ?n fs q [BN q K G]" by (rule placed_node_one [OF Cons(2) [unfolded f] G_def])
    moreover have "fits order width (Suc d) fs [BN q K G] []" using step True by (simp add: fits_def)
    moreover have "ctx_entries (f # fs) [g1, g2] = ctx_entries fs [BN q K G]" by (simp add: f ctx_entries_def G_def)
    ultimately show ?thesis
      using up_result_None [of ?n fs "BN q K G" order width "Suc d" "length nodes + length (f # fs)"] root [of "BN q K G"]
      by simp
  next
    case False
    define m where "m = length K div 2"
    have lens: "length G = Suc order" "length K = order" using step(1,9) False by simp_all
    have m: "m < length K" "1 \<le> m" "2 \<le> length K - m" using lens assms(3) by (auto simp: m_def)
    define h1 where "h1 = BN q (take m K) (take (Suc m) G)"
    define h2 where "h2 = BN (length nodes) (drop (Suc m) K) (drop (Suc m) G)"
    let ?n = "nodes[q := BpInternal (take m K) (map tree_id (take (Suc m) G))] @
      [BpInternal (drop (Suc m) K) (map tree_id (drop (Suc m) G))]"
    have cut: "take (Suc m) G @ drop (Suc m) G = gl @ [g1, g2] @ gr" unfolding append_take_drop_id by (rule G_def)
    have left: "take (Suc m) K = take m K @ [K ! m]" using m by (simp add: take_Suc_conv_app_nth)
    obtain x xs where x: "take m K @ [K ! m] = x # xs" by (cases "take m K @ [K ! m]") auto
    have "last (x # xs) = K ! m" "butlast (x # xs) = take m K" unfolding x [symmetric] by simp_all
    then have "insert_up order (map frame_pos (f # fs)) (Some (s, tree_id g2)) nodes =
        insert_up order (map frame_pos fs) (Some (K ! m, tree_id h2)) ?n"
      using node keys children False left x
      by (simp add: f Let_def m_def [symmetric] h2_def take_map drop_map del: last.simps butlast.simps)
    moreover have "placed ?n fs (tree_id h1) [h1, h2]"
      using placed_node_two [OF Cons(2) [unfolded f] cut] by (simp add: h1_def h2_def)
    moreover have "fits order width (Suc d) fs [h1, h2] [K ! m]"
    proof -
      have "inter (map seps G) K = seps h1 @ K ! m # seps h2"
        using inter_cut [of "map seps G" K m] step(1) m(1) by (simp add: h1_def h2_def take_map drop_map)
      moreover have "list_all (deep (Suc d)) [h1, h2]" "list_all (shaped order width False) [h1, h2]"
        using step(1,2,4) m lens assms(3) by (auto simp: h1_def h2_def list_all_iff dest: in_set_takeD in_set_dropD)
      ultimately show ?thesis using step by (simp add: fits_def)
    qed
    moreover have "ctx_entries fs [h1, h2] = ctx_entries (f # fs) [g1, g2]"
      unfolding entries by (simp add: ctx_entries_def h1_def h2_def flip: concat_append map_append)
    ultimately show ?thesis
      using Cons.IH [of ?n h1 h2 "Suc d" "K ! m"] root [of h1] by (simp add: h1_def)
  qed
qed

section \<open>Insertion into a leaf\<close>

lemma entry_cmp_laws: "entry_cmp y x = reverse_ordering (entry_cmp x y)"
  "entry_cmp x y \<noteq> Greater \<Longrightarrow> entry_cmp y z \<noteq> Greater \<Longrightarrow> entry_cmp x z = (if entry_cmp x y = Equal then entry_cmp y z else Less)"
proof -
  show "entry_cmp y x = reverse_ordering (entry_cmp x y)"
    unfolding entry_cmp_def reverse_then_with using key.flip [of "ie_key y" "ie_key x"] cmp_of_laws(1) [of "ie_row_id y"] by simp
  show "entry_cmp x y \<noteq> Greater \<Longrightarrow> entry_cmp y z \<noteq> Greater \<Longrightarrow> entry_cmp x z = (if entry_cmp x y = Equal then entry_cmp y z else Less)"
    unfolding entry_cmp_def by (rule then_with_trans [OF _ _ key.compose cmp_of_laws(2)])
qed

interpretation entry: key_order entry_cmp
  by unfold_locales (rule entry_cmp_laws, erule entry_cmp_laws)

lemma entry_le_key: "entry_le x y \<Longrightarrow> key_le (ie_key x) (ie_key y)"
  by (auto simp: entry_le_def key_le_def entry_cmp_def then_with_eq)

lemma insert_sorted:
  fixes es :: "('a::linorder, 'b::linorder, 'c::linorder, 'd::linorder, 'e) index_entry list"
  assumes "sorted_wrt entry_le es"
  shows "sorted_wrt entry_le (insert_at (search_position (\<lambda>x. entry_cmp x e) es) e es)"
proof -
  have "arranged (\<lambda>x. entry_cmp x e) es"
    unfolding arranged_def
  proof (rule sorted_wrt_mono_rel [OF _ assms])
    fix x y :: "('a, 'b, 'c, 'd, 'e) index_entry"
    assume "entry_le x y"
    then show "(entry_cmp x e = Greater \<longrightarrow> entry_cmp y e = Greater) \<and> (entry_cmp y e = Less \<longrightarrow> entry_cmp x e = Less)"
      using entry.less_le_trans [of e x y] entry.le_less_trans [of x y e] by (auto simp: entry_le_def entry.greater)
  qed
  note pos = search_position_correct [OF this]
  let ?p = "search_position (\<lambda>x. entry_cmp x e) es"
  have "sorted_wrt entry_le (take ?p es)" "sorted_wrt entry_le (drop ?p es)"
    using assms by (simp_all add: sorted_wrt_take sorted_wrt_drop)
  moreover have "entry_le x e" if "x \<in> set (take ?p es)" for x using pos(2) [OF that] by (simp add: entry_le_def)
  moreover have "entry_le e y" if "y \<in> set (drop ?p es)" for y
    using pos(3) [OF that] by (simp add: entry_le_def entry.greater)
  moreover have "entry_le x y" if "x \<in> set (take ?p es)" "y \<in> set (drop ?p es)" for x y
    using assms that by (metis append_take_drop_id sorted_wrt_append)
  ultimately show ?thesis by (auto simp: insert_at_def sorted_wrt_append)
qed

lemma insert_leaf_correct:
  assumes placed: "placed nodes fs i [BL i es]" and fits: "fits order width 0 fs [BL i es] []" and order: "3 \<le> order"
    and left: "\<forall>x \<in> set (seps_l fs). key_le x (ie_key e)" and above: "\<forall>x \<in> set (seps_r fs). \<not> key_le x (ie_key e)"
    and width: "width = Some (key_len (ie_key e))"
  shows "\<exists>split nodes' gs ss. insert_leaf order i e nodes = (Inr split, nodes') \<and> placed nodes' fs i gs \<and>
     fits order width 0 fs gs ss \<and> length nodes' \<le> Suc (length nodes) \<and> map tree_id gs = i # map snd (zip ss [length nodes]) \<and>
     split = (case ss of [] \<Rightarrow> None | s # _ \<Rightarrow> Some (s, length nodes)) \<and> length ss \<le> 1 \<and>
     (\<exists>xs ys. ctx_entries fs [BL i es] = xs @ ys \<and> ctx_entries fs gs = xs @ e # ys \<and> (\<forall>y \<in> set ys. entry_le e y))"
proof -
  have right: "\<forall>x \<in> set (seps_r fs). key_le (ie_key e) x" using above key_le_total by blast
  have frames: "list_all frame_ok fs" using fits by (simp add: fits_def)
  define es' where "es' = insert_at (search_position (\<lambda>x. entry_cmp x e) es) e es"
  define link where "link = first_leaf (leaves_r fs)"
  note node = placed_leaf(1,2) [OF placed, folded link_def]
  have es: "sorted_wrt entry_le es" "length es \<le> order" "list_all (\<lambda>e. Some (key_len (ie_key e)) = width) es"
    using fits by (auto simp: fits_def)
  have es': "sorted_wrt entry_le es'" unfolding es'_def by (rule insert_sorted [OF es(1)])
  obtain xs ys where xy: "es = xs @ ys" "es' = xs @ e # ys"
    using append_take_drop_id [of _ es] unfolding es'_def insert_at_def by metis
  have len: "length es' = Suc (length es)" by (simp add: xy)
  have entries: "ctx_entries fs [BL i es] = (list_entries (leaves_l fs) @ xs) @ (ys @ list_entries (leaves_r fs))"
    "ctx_entries fs [BL i es'] = (list_entries (leaves_l fs) @ xs) @ e # (ys @ list_entries (leaves_r fs))"
    by (simp_all add: ctx_entries_def xy)
  have "entry_le e y" if "y \<in> set (ys @ list_entries (leaves_r fs))" for y
  proof (cases "y \<in> set ys")
    case True
    then show ?thesis using es' by (simp add: xy sorted_wrt_append)
  next
    case False
    then have "key_cmp (ie_key e) (ie_key y) = Less"
      using that above entries_in_seps_r [OF _ frames] by (auto simp: key_not_le)
    then show ?thesis by (simp add: entry_le_def entry_cmp_def then_with_eq)
  qed
  then have mid: "\<exists>xs ys. ctx_entries fs [BL i es] = xs @ ys \<and> ctx_entries fs [BL i es'] = xs @ e # ys \<and> (\<forall>y \<in> set ys. entry_le e y)"
    unfolding entries by blast
  have keys: "sorted_wrt key_le (map ie_key es')"
    using es' entry_le_key unfolding sorted_wrt_map by (rule sorted_wrt_mono_rel [rotated])
  have bounds: "x \<in> set (seps_l fs) \<Longrightarrow> k \<in> set (map ie_key es') \<Longrightarrow> key_le x k"
    "y \<in> set (seps_r fs) \<Longrightarrow> k \<in> set (map ie_key es') \<Longrightarrow> key_le k y" for x y k
    using fits left right by (auto simp: fits_def sorted_wrt_append xy)
  have ctx: "sorted_wrt key_le (seps_l fs)" "sorted_wrt key_le (seps_r fs)" "\<forall>x \<in> set (seps_l fs). \<forall>y \<in> set (seps_r fs). key_le x y"
    using fits by (auto simp: fits_def sorted_wrt_append)
  have sorted: "sorted_wrt key_le (seps_l fs @ map ie_key es' @ seps_r fs)"
    using keys bounds ctx by (auto simp: sorted_wrt_append xy)
  have widths: "list_all (\<lambda>e. Some (key_len (ie_key e)) = width) es'" using es(3) width by (simp add: xy)
  show ?thesis
  proof (cases "length es' \<le> order")
    case True
    have "insert_leaf order i e nodes = (Inr None, nodes[i := BpLeaf es' link])"
      using node(2) True by (simp add: insert_leaf_def es'_def [symmetric] Let_def)
    moreover have "placed (nodes[i := BpLeaf es' link]) fs i [BL i es']" by (rule placed_leaf_one [OF placed node(2)])
    moreover have "fits order width 0 fs [BL i es'] []"
      using fits sorted widths es' True by (auto simp: fits_def xy)
    ultimately show ?thesis using mid
      by (intro exI [of _ None] exI [of _ "nodes[i := BpLeaf es' link]"] exI [of _ "[BL i es']"] exI [of _ "[]"]) auto
  next
    case False
    define half where "half = div_ceil_2 (length es')"
    have half: "0 < half" "half < length es'" "half \<le> order" "length es' - half \<le> order"
      using False len es(2) order by (auto simp: half_def div_ceil_2_def)
    define a where "a = take half es'"
    define b where "b = drop half es'"
    have ab: "es' = a @ b" "a \<noteq> []" "b \<noteq> []" using half by (auto simp: a_def b_def)
    obtain first rest where b: "b = first # rest" using ab(3) by (cases b) auto
    let ?n = "nodes[i := BpLeaf a (Some (length nodes))] @ [BpLeaf b link]"
    have "insert_leaf order i e nodes = (Inr (Some (ie_key first, length nodes)), ?n)"
      using node(2) False b by (simp add: insert_leaf_def es'_def [symmetric] Let_def half_def [symmetric] a_def [symmetric] b_def [symmetric])
    moreover have "placed ?n fs i [BL i a, BL (length nodes) b]" by (rule placed_leaf_two [OF placed node(2)])
    moreover have "fits order width 0 fs [BL i a, BL (length nodes) b] [ie_key first]"
    proof -
      have ab_sorted: "sorted_wrt entry_le a" "sorted_wrt entry_le b" using es' by (simp_all add: ab sorted_wrt_append)
      have "sorted_wrt key_le (seps_l fs @ (map ie_key a @ ie_key first # map ie_key b) @ seps_r fs)"
        using sorted b by (auto simp: ab(1) sorted_wrt_append)
      moreover have "length a \<le> order" "length b \<le> order" using half by (simp_all add: a_def b_def)
      ultimately show ?thesis using fits widths ab_sorted ab by (auto simp: fits_def)
    qed
    moreover have "ctx_entries fs [BL i a, BL (length nodes) b] = ctx_entries fs [BL i es']" by (simp add: ctx_entries_def ab(1))
    ultimately show ?thesis using mid
      by (intro exI [of _ "Some (ie_key first, length nodes)"] exI [of _ ?n] exI [of _ "[BL i a, BL (length nodes) b]"]
          exI [of _ "[ie_key first]"]) auto
  qed
qed

section \<open>Insertion\<close>

lemma insert_root_view:
  assumes "up_result order width d (bt_root t) len es split (bt_nodes t)" and "3 \<le> order"
  shows "\<exists>g. bp_view (bt_nodes (insert_root split t)) g \<and> bt_root (insert_root split t) = tree_id g \<and> (\<exists>d. deep d g) \<and>
    shaped order width True g \<and> sorted_wrt key_le (seps g) \<and> tree_entries g = es \<and>
    length (bt_nodes (insert_root split t)) \<le> Suc len"
proof (cases split)
  case None
  then obtain g where g: "placed (bt_nodes t) [] (bt_root t) [g]" "tree_id g = bt_root t" "fits order width d [] [g] []"
    "ctx_entries [] [g] = es"
    using assms(1) by (auto simp: up_result_def)
  then have "bp_view (bt_nodes t) g" using bp_view_placed [of "bt_nodes t" "[]" g] by simp
  then show ?thesis
    using g assms(1) None
    by (auto simp: insert_root_def fits_def ctx_entries_def tree_entries_def list_entries_def up_result_def intro!: exI [of _ g])
next
  case (Some x)
  obtain s right where x: "x = (s, right)" by (cases x)
  then obtain g1 g2 where g: "placed (bt_nodes t) [] (bt_root t) [g1, g2]" "tree_id g1 = bt_root t" "tree_id g2 = right"
    "fits order width d [] [g1, g2] [s]" "ctx_entries [] [g1, g2] = es"
    using assms(1) Some by (auto simp: up_result_def)
  let ?n = "bt_nodes t @ [BpInternal [s] [bt_root t, right]]"
  let ?g = "BN (length (bt_nodes t)) [s] [g1, g2]"
  have agree: "agree (bt_nodes t) ?n A" for A by (auto simp: agree_def nth_append)
  have "inner ?n g1" "inner ?n g2" "chain ?n (leaves g1 @ leaves g2) None"
    using g(1) inner_agree [OF agree] chain_agree [OF agree] by (auto simp: placed_def)
  moreover have "{..<length ?n} = insert (length (bt_nodes t)) {..<length (bt_nodes t)}" by auto
  ultimately have "bp_view ?n ?g" using g by (auto simp: bp_view_def placed_def nth_append)
  moreover have "deep (Suc d) ?g" "shaped order width True ?g" "sorted_wrt key_le (seps ?g)"
    using g(4) assms(2) by (auto simp: fits_def)
  ultimately show ?thesis
    using g x Some assms(1)
    by (auto simp: insert_root_def ctx_entries_def tree_entries_def list_entries_def up_result_def intro!: exI [of _ ?g] exI [of _ "Suc d"])
qed

lemma shaped_width: "shaped order width root g \<Longrightarrow> tree_entries g = [] \<Longrightarrow> shaped order w root g"
  by (induction g arbitrary: root) (auto simp: tree_entries_def list_all_iff)

lemma scalars_cmp_null: "scalars_cmp xs ys = Equal \<Longrightarrow> list_ex (\<lambda>s. s = IsNull) xs = list_ex (\<lambda>s. s = IsNull) ys"
proof (induction xs ys rule: scalars_cmp.induct)
  case (1 l ls r rs)
  have "scalar_rank l = scalar_rank r" if "scalar_cmp l r = Equal" using that scalar_cmp_rank [of l r] by (cases "scalar_rank l = scalar_rank r") auto
  then show ?case using 1 rank_eq(1) [of l] rank_eq(1) [of r] by (auto simp: then_with_eq simp del: rank_eq)
qed auto

lemma key_cmp_null: "key_cmp k l = Equal \<Longrightarrow> key_contains_null k = key_contains_null l"
  unfolding key_cmp_def key_contains_null_def by (rule scalars_cmp_null)

lemma shaped_widths: "shaped order width root g \<Longrightarrow> list_all (\<lambda>e. Some (key_len (ie_key e)) = width) (tree_entries g)"
  by (induction g arbitrary: root) (auto simp: tree_entries_def list_all_iff)

lemma unique_insert:
  assumes "unique_keys (xs @ ys)" and "key_contains_null (ie_key e) \<or> (\<forall>x \<in> set (xs @ ys). key_cmp (ie_key x) (ie_key e) \<noteq> Equal)"
  shows "unique_keys (xs @ e # ys)"
proof -
  have "key_contains_null (ie_key x) \<or> key_cmp (ie_key x) (ie_key e) \<noteq> Equal" if "x \<in> set (xs @ ys)" for x
    using assms(2) key_cmp_null [of "ie_key x" "ie_key e"] that by blast
  moreover have "key_contains_null (ie_key e) \<or> key_cmp (ie_key e) (ie_key x) \<noteq> Equal" if "x \<in> set (xs @ ys)" for x
    using assms(2) that key.equal_sym by blast
  ultimately show ?thesis using assms(1) by (auto simp: unique_keys_def sorted_wrt_append)
qed

lemma insert_unchecked_ok:
  assumes ok: "tree_ok t g" and nodes: "length (bt_nodes t) \<le> MAX_INDEX_NODES" and count: "bt_entry_count t < usize_max"
    and width: "bt_key_width t \<noteq> None \<longrightarrow> bt_key_width t = Some (key_len (ie_key e))"
    and unique: "bt_unique t \<Longrightarrow> key_contains_null (ie_key e) \<or> (\<forall>x \<in> set (tree_entries g). key_cmp (ie_key x) (ie_key e) \<noteq> Equal)"
  shows "\<exists>t' g'. bt_insert_unchecked e t = (Inr (), t') \<and> tree_ok t' g' \<and> bt_order t' = bt_order t \<and> bt_unique t' = bt_unique t \<and>
    bt_key_width t' = Some (key_len (ie_key e)) \<and>
    (\<exists>xs ys. tree_entries g = xs @ ys \<and> tree_entries g' = xs @ e # ys \<and> (\<forall>y \<in> set ys. entry_le e y))"
proof -
  define order where "order = bt_order t"
  define w where "w = Some (key_len (ie_key e))"
  define k where "k = ie_key e"
  obtain d where d: "deep d g" using ok by (auto simp: tree_ok_def)
  have view: "bp_view (bt_nodes t) g" and inner: "inner (bt_nodes t) g" and sorted: "sorted_wrt key_le (seps g)"
    and root: "bt_root t = tree_id g" and order: "3 \<le> order"
    using ok by (auto simp: tree_ok_def bp_view_def order_def)
  have shaped: "shaped order w True g"
  proof (cases "bt_key_width t")
    case None
    with ok show ?thesis using shaped_width [of order None True g w] by (auto simp: tree_ok_def order_def)
  next
    case (Some x)
    with ok width show ?thesis by (auto simp: tree_ok_def order_def w_def)
  qed
  have room: "d \<le> MAX_INDEX_DEPTH" using tree_ok_depth [OF ok d] by simp
  have p: "key_cmp k s \<noteq> Less \<longleftrightarrow> key_le s k" for s by (simp add: key_le_def key.greater)
  obtain fs i es where fs: "g = plugs fs (BL i es)" "list_all frame_ok fs" "length fs = d"
    "descend (\<lambda>s. key_cmp k s \<noteq> Less) (bt_nodes t) MAX_INDEX_DEPTH (tree_id g) [] = Some (i, map frame_pos fs)"
    "\<forall>x \<in> set (seps_l fs). key_le x k" "\<forall>x \<in> set (seps_r fs). \<not> key_le x k"
    using descend_finds [OF inner bp_view_leafy [OF view] d room shaped sorted, where p = "\<lambda>s. key_le s k" and path = "[]"]
      key_le_trans unfolding append_Nil2 p by blast
  have "insert_descend (bt_nodes t) k MAX_INDEX_DEPTH (bt_root t) [] = Inr (i, map frame_pos fs)"
    unfolding root by (rule insert_descend_path [OF fs(4)])
  moreover have placed: "placed (bt_nodes t) fs i [BL i es]" using view unfolding fs(1) bp_view_placed by simp
  have fits: "fits order w 0 fs [BL i es] []"
    using d shaped sorted fs(2,3) deep_plugs [of fs 0 "BL i es"] unfolding fs(1)
    by (auto simp: fits_def shaped_plugs seps_plugs)
  obtain split nodes1 gs ss where leaf: "insert_leaf order i e (bt_nodes t) = (Inr split, nodes1)" "placed nodes1 fs i gs"
    "fits order w 0 fs gs ss" "length nodes1 \<le> Suc (length (bt_nodes t))"
    "map tree_id gs = i # map snd (zip ss [length (bt_nodes t)])"
    "split = (case ss of [] \<Rightarrow> None | s # _ \<Rightarrow> Some (s, length (bt_nodes t)))" "length ss \<le> 1"
    and mid: "\<exists>xs ys. ctx_entries fs [BL i es] = xs @ ys \<and> ctx_entries fs gs = xs @ e # ys \<and> (\<forall>y \<in> set ys. entry_le e y)"
    using insert_leaf_correct [OF placed fits order fs(5) [unfolded k_def] fs(6) [unfolded k_def] w_def]
    by (elim exE conjE) (rule that, assumption+, blast)
  define len where "len = length (bt_nodes t) + Suc d"
  have up: "\<exists>split' nodes2. insert_up order (map frame_pos fs) split nodes1 = (Inr split', nodes2) \<and>
      up_result order w d (bt_root t) len (ctx_entries fs gs) split' nodes2"
  proof (cases ss)
    case Nil
    then obtain g1 where g1: "gs = [g1]" "tree_id g1 = i" using leaf(5) by auto
    have "tree_id (plugs fs g1) = bt_root t" using plug_id [of g1 "BL i es" fs] g1(2) by (simp add: root fs(1))
    with up_result_None [of nodes1 fs g1 order w 0 len] leaf Nil g1 fs(3) show ?thesis by (simp add: len_def)
  next
    case (Cons s ss')
    then obtain g1 g2 where g12: "gs = [g1, g2]" "ss = [s]" "tree_id g1 = i" "tree_id g2 = length (bt_nodes t)"
      using leaf(5,7) by auto
    have root': "tree_id (plugs fs g1) = bt_root t" using plug_id [of g1 "BL i es" fs] g12(3) by (simp add: root fs(1))
    obtain split' nodes2 where "insert_up order (map frame_pos fs) (Some (s, tree_id g2)) nodes1 = (Inr split', nodes2)"
      "up_result order w (length fs + 0) (tree_id (plugs fs g1)) (length nodes1 + length fs) (ctx_entries fs [g1, g2]) split' nodes2"
      using insert_up_correct [of nodes1 fs g1 g2 order w 0 s] leaf(2,3) g12 order by auto
    then show ?thesis
      using leaf(4,6) g12 root' fs(3) by (auto simp: up_result_def len_def)
  qed
  then obtain split' nodes2 where up: "insert_up order (map frame_pos fs) split nodes1 = (Inr split', nodes2)"
    "up_result order w d (bt_root t) len (ctx_entries fs gs) split' nodes2" by blast
  let ?r = "insert_root split' (t\<lparr>bt_nodes := nodes2\<rparr>)"
  obtain g' where g': "bp_view (bt_nodes ?r) g'" "bt_root ?r = tree_id g'" "\<exists>d. deep d g'" "shaped order w True g'"
    "sorted_wrt key_le (seps g')" "tree_entries g' = ctx_entries fs gs" "length (bt_nodes ?r) \<le> Suc len"
    using insert_root_view [of order w d "t\<lparr>bt_nodes := nodes2\<rparr>" len "ctx_entries fs gs" split'] up(2) order by auto
  let ?t = "?r\<lparr>bt_key_width := (case bt_key_width t of None \<Rightarrow> Some (key_len (ie_key e)) | w \<Rightarrow> w), bt_entry_count := bt_entry_count t + 1\<rparr>"
  have fields: "bt_order ?r = order" "bt_unique ?r = bt_unique t" by (simp_all add: insert_root_def order_def split: option.split)
  have result: "bt_insert_unchecked e t = (Inr (), ?t)"
    using nodes count \<open>insert_descend _ _ _ _ _ = _\<close> leaf(1) up(1)
    by (simp add: bt_insert_unchecked_def k_def order_def)
  obtain xs ys where xy: "tree_entries g = xs @ ys" "tree_entries g' = xs @ e # ys" "\<forall>y \<in> set ys. entry_le e y"
    using mid g'(6) by (auto simp: fs(1) ctx_entries_def tree_entries_def list_entries_def leaves_plugs)
  have w': "(case bt_key_width t of None \<Rightarrow> Some (key_len (ie_key e)) | w \<Rightarrow> w) = w"
    using width by (auto simp: w_def split: option.split)
  have "bt_entry_count t + 1 = length (tree_entries g')" using ok xy by (simp add: tree_ok_def)
  moreover have "bt_entry_count t + 1 \<le> usize_max" using count by simp
  moreover have "length (bt_nodes ?t) \<le> MAX_INDEX_NODES + 40"
    using g'(7) nodes tree_ok_depth [OF ok d] by (simp add: len_def)
  moreover have "unique_keys (tree_entries g')" if "bt_unique t"
    using unique_insert [of xs ys e] ok unique [OF that] that by (auto simp: tree_ok_def xy)
  ultimately have "tree_ok ?t g'" using g' fields order xy w' by (auto simp: tree_ok_def w_def)
  then show ?thesis using result fields xy w' by (intro exI [of _ ?t] exI [of _ g']) (auto simp: w_def order_def)
qed

section \<open>Validation\<close>

lemma sorted_adjacent: "sorted_wrt key_le ks \<Longrightarrow> \<not> (\<exists>j < length ks - 1. key_cmp (ks ! j) (ks ! (j + 1)) = Greater)"
  by (auto simp: sorted_wrt_iff_nth_less key_le_def)

lemma validate_nodes_tree:
  assumes "inner (bt_nodes t) g" and "leafy (bt_nodes t) g" and "deep d g" and "shaped (bt_order t) (bt_key_width t) root g"
    and "sorted_wrt key_le (seps g)" and "distinct (tree_ids g)" and "set (tree_ids g) \<inter> V = {}" and "depth + d \<le> MAX_INDEX_DEPTH"
    and "leaf_depth = None \<or> leaf_depth = Some (depth + d)" and "n + length (leaves g) \<le> usize_max"
  shows "validate_nodes t leaf_depth V n ((tree_id g, depth, root) # stack) =
    validate_nodes t (Some (depth + d)) (V \<union> set (tree_ids g)) (n + length (leaves g)) stack"
  using assms
proof (induction d arbitrary: g root V n depth leaf_depth stack)
  case 0
  then obtain i es where g: "g = BL i es" by (cases g) auto
  with 0 show ?case by (auto simp: leafy_def)
next
  case (Suc d)
  then obtain i ks gs where g: "g = BN i ks gs" by (cases g) auto
  let ?kids = "\<lambda>gs. map (\<lambda>c. (c, depth + 1, False)) (map tree_id gs)"
  have node: "i < length (bt_nodes t)" "bt_nodes t ! i = BpInternal ks (map tree_id gs)" "i \<notin> V" using Suc(2,8) g by auto
  have shape: "length gs = Suc (length ks)" "2 \<le> length gs" "length gs \<le> bt_order t" using Suc(5) g by auto
  have ks: "\<not> (\<exists>j < length ks - 1. key_cmp (ks ! j) (ks ! (j + 1)) = Greater)"
    using sorted_adjacent sorted_inter Suc(6) g by auto
  have kids: "validate_nodes t ld W m (?kids hs @ stack) =
      validate_nodes t (if hs = [] then ld else Some (depth + Suc d)) (W \<union> set (concat (map tree_ids hs))) (m + length (concat (map leaves hs))) stack"
    if "set hs \<subseteq> set gs" "distinct (concat (map tree_ids hs))" "set (concat (map tree_ids hs)) \<inter> W = {}"
      "ld = None \<or> ld = Some (depth + Suc d)" "m + length (concat (map leaves hs)) \<le> usize_max" for hs W m ld
    using that
  proof (induction hs arbitrary: W m ld)
    case (Cons h hs)
    have h: "h \<in> set gs" using Cons(2) by simp
    have "inner (bt_nodes t) h" "leafy (bt_nodes t) h" "deep d h" "shaped (bt_order t) (bt_key_width t) False h"
      using Suc(2-5) h g by (auto simp: list_all_iff leafy_def)
    moreover have "sorted_wrt key_le (seps h)"
    proof -
      obtain j where j: "j < length gs" "gs ! j = h" using h by (auto simp: in_set_conv_nth)
      let ?f = "Fr i (take j ks) (take j gs) (drop j ks) (drop (Suc j) gs)"
      have "plug ?f h = BN i ks gs" "frame_ok ?f" using j shape(1) by (auto simp: id_take_nth_drop [symmetric])
      with sorted_child Suc(6) g show ?thesis by blast
    qed
    moreover have "distinct (tree_ids h)" "set (tree_ids h) \<inter> W = {}" using Cons(3,4) by auto
    moreover have "depth + 1 + d \<le> MAX_INDEX_DEPTH" "ld = None \<or> ld = Some (depth + 1 + d)" "m + length (leaves h) \<le> usize_max"
      using Suc(9) Cons(5,6) by auto
    ultimately have "validate_nodes t ld W m ((tree_id h, depth + 1, False) # ?kids hs @ stack) =
        validate_nodes t (Some (depth + 1 + d)) (W \<union> set (tree_ids h)) (m + length (leaves h)) (?kids hs @ stack)"
      by (rule Suc.IH)
    moreover have "validate_nodes t (Some (depth + Suc d)) (W \<union> set (tree_ids h)) (m + length (leaves h)) (?kids hs @ stack) =
        validate_nodes t (Some (depth + Suc d)) (W \<union> set (tree_ids h) \<union> set (concat (map tree_ids hs)))
          (m + length (leaves h) + length (concat (map leaves hs))) stack"
      using Cons by (subst Cons.IH) auto
    ultimately show ?case by (simp add: Un_assoc add.assoc)
  qed simp
  have "validate_nodes t leaf_depth V n ((i, depth, root) # stack) = validate_nodes t leaf_depth (insert i V) n (?kids gs @ stack)"
    using node shape ks Suc(9) by auto
  also have "\<dots> = validate_nodes t (Some (depth + Suc d)) (insert i V \<union> set (concat (map tree_ids gs))) (n + length (concat (map leaves gs))) stack"
    using Suc(7,8,10,11) g shape(2) by (subst kids) auto
  finally show ?case using g by simp
qed

lemma validate_entries_append:
  "validate_entries u (xs @ ys) p c = try_bind (validate_entries u xs p c) (\<lambda>(p, c). validate_entries u ys p c)"
  by (induction xs arbitrary: p c) (auto simp: try_bind_def split: sum.split option.split)

lemma validate_chain_list:
  assumes "chain (bt_nodes t) xs None" and "distinct (map fst xs)" and "fst ` set xs \<inter> seen = {}" and "n + length xs \<le> usize_max"
  shows "validate_chain t (first_leaf xs) seen n p c =
    try_bind (validate_entries (bt_unique t) (list_entries xs) p c) (\<lambda>(_, c). Inr (n + length xs, c))"
  using assms
proof (induction xs arbitrary: seen n p c)
  case Nil
  then show ?case by (subst validate_chain.simps) simp
next
  case (Cons x xs)
  obtain i es where x: "x = (i, es)" by (cases x)
  have "validate_chain t (first_leaf xs) (insert i seen) (Suc n) q d =
      try_bind (validate_entries (bt_unique t) (list_entries xs) q d) (\<lambda>(_, c). Inr (Suc n + length xs, c))" for q d
    using Cons.prems x by (intro Cons.IH) (auto simp: chain_None)
  then show ?case
    using Cons.prems x
    by (subst validate_chain.simps) (auto simp: chain_None validate_entries_append try_bind_def split: sum.split)
qed

lemma entry_le_transp: "transp entry_le"
  by (auto simp: transp_def entry_le_def dest: entry.le_trans)

lemma validate_entries_sorted:
  assumes "u \<Longrightarrow> unique_keys (p # es)" and "c + length es \<le> usize_max"
  shows "validate_entries u es (Some p) c =
    (if sorted_wrt entry_le (p # es) then Inr (Some (last (p # es)), c + length es) else Inl E_XX001)"
  using assms
proof (induction es arbitrary: p c)
  case (Cons e es)
  have u: "u \<Longrightarrow> unique_keys (e # es)" and dup: "\<not> (u \<and> \<not> key_contains_null (ie_key p) \<and> key_cmp (ie_key p) (ie_key e) = Equal)"
    using Cons.prems(1) by (auto simp: unique_keys_def)
  have "validate_entries u es (Some e) (Suc c) = (if sorted_wrt entry_le (e # es) then Inr (Some (last (e # es)), Suc c + length es) else Inl E_XX001)"
    using Cons.IH [OF u] Cons.prems(2) by simp
  moreover have "sorted_wrt entry_le (p # e # es) \<longleftrightarrow> entry_cmp p e \<noteq> Greater \<and> sorted_wrt entry_le (e # es)"
    using sorted_wrt2 [OF entry_le_transp, of p e es] by (simp add: entry_le_def)
  ultimately show ?case using Cons.prems(2) dup by auto
qed simp

lemma validate_ok:
  assumes ok: "tree_ok t g" and nodes: "length (bt_nodes t) \<le> MAX_INDEX_NODES"
  shows "bt_validate t = (if sorted_wrt entry_le (tree_entries g) then Inr () else Inl E_XX001)"
proof -
  obtain d where d: "deep d g" using ok by (auto simp: tree_ok_def)
  have view: "bp_view (bt_nodes t) g" and inner: "inner (bt_nodes t) g" and sorted: "sorted_wrt key_le (seps g)"
    and chain: "chain (bt_nodes t) (leaves g) None" and ids: "distinct (tree_ids g)" "set (tree_ids g) = {..<length (bt_nodes t)}"
    and root: "bt_root t = tree_id g" and shaped: "shaped (bt_order t) (bt_key_width t) True g"
    using ok by (auto simp: tree_ok_def bp_view_def)
  have room: "d \<le> MAX_INDEX_DEPTH" using tree_ok_depth [OF ok d] by simp
  have "length (leaves g) \<le> length (bt_nodes t)"
    using leaves_ids [of g] distinct_card [OF ids(1)] ids(2) by simp
  then have few: "length (leaves g) \<le> usize_max" using nodes by (simp add: usize_max_def)
  have "validate_nodes t None {} 0 [(bt_root t, 0, True)] = Inr ({..<length (bt_nodes t)}, length (leaves g))"
    using validate_nodes_tree [OF inner bp_view_leafy [OF view] d shaped sorted ids(1), of "{}" 0 None 0 "[]"] room few
    by (simp add: root ids(2))
  moreover have "leftmost_leaf t = first_leaf (leaves g)"
    unfolding leftmost_leaf_def root by (rule leftmost_from_finds [OF inner bp_view_leafy [OF view] d room shaped])
  moreover have "distinct (map fst (leaves g))" by (rule distinct_leaves [OF ids(1)])
  moreover have "validate_entries (bt_unique t) (tree_entries g) None 0 =
      (if sorted_wrt entry_le (tree_entries g) then Inr (case tree_entries g of [] \<Rightarrow> None | es \<Rightarrow> Some (last es), bt_entry_count t)
       else Inl E_XX001)"
  proof (cases "tree_entries g")
    case (Cons e es)
    have "validate_entries (bt_unique t) es (Some e) 1 = (if sorted_wrt entry_le (e # es) then Inr (Some (last (e # es)), 1 + length es) else Inl E_XX001)"
      using ok Cons by (intro validate_entries_sorted) (auto simp: tree_ok_def)
    then show ?thesis using ok Cons by (simp add: tree_ok_def)
  qed (use ok in \<open>simp add: tree_ok_def\<close>)
  moreover have "tree_id g < length (bt_nodes t)" using ids(2) by (cases g) auto
  ultimately show ?thesis
    using validate_chain_list [OF chain, of "{}" 0 None 0] nodes few
    by (simp add: bt_validate_def root tree_entries_def list_entries_def [symmetric])
qed

section \<open>Trees that are built by insertions\<close>

inductive bt_built :: "('n::linorder, 'd::linorder, 't::linorder, 's::linorder, 'j) bplus_tree \<Rightarrow> bool" where
  built_new: "bt_built (bt_with_order unique order)"
| built_insert: "bt_built t \<Longrightarrow> bt_insert e t = Some (r, t') \<Longrightarrow> bt_built t'"

lemma tree_ok_new: "tree_ok (bt_with_order unique order) (BL 0 [])"
  by (auto simp: tree_ok_def bp_view_def bt_with_order_def tree_entries_def unique_keys_def)

text \<open>The answer of \<open>insert\<close>, as a function of the entries.\<close>

definition insert_answer ::
  "('n::linorder, 'd::linorder, 't::linorder, 's::linorder, 'j) bplus_tree \<Rightarrow> ('n, 'd, 't, 's, 'j) index_entry list \<Rightarrow>
     ('n, 'd, 't, 's, 'j) index_entry \<Rightarrow> unit res" where
  "insert_answer t es e =
     (if bt_key_width t \<noteq> None \<and> bt_key_width t \<noteq> Some (key_len (ie_key e)) then Inl E_22023
      else if bt_unique t \<and> \<not> key_contains_null (ie_key e) \<and> (\<exists>x \<in> set es. key_cmp (ie_key x) (ie_key e) = Equal) then Inl E_23505
      else if MAX_INDEX_NODES < length (bt_nodes t) \<or> bt_entry_count t = usize_max then Inl E_54001
      else Inr ())"

lemma bt_insert_ok:
  assumes ok: "tree_ok t g"
  shows "\<exists>t'. bt_insert e t = Some (insert_answer t (tree_entries g) e, t') \<and>
    (if insert_answer t (tree_entries g) e = Inr ()
     then \<exists>g' xs ys. tree_ok t' g' \<and> bt_order t' = bt_order t \<and> bt_unique t' = bt_unique t \<and>
       bt_key_width t' = Some (key_len (ie_key e)) \<and>
       tree_entries g = xs @ ys \<and> tree_entries g' = xs @ e # ys \<and> (\<forall>y \<in> set ys. entry_le e y)
     else t' = t)"
proof (cases "insert_answer t (tree_entries g) e = Inr ()")
  case True
  then have a: "bt_key_width t \<noteq> None \<longrightarrow> bt_key_width t = Some (key_len (ie_key e))"
    "bt_unique t \<Longrightarrow> key_contains_null (ie_key e) \<or> (\<forall>x \<in> set (tree_entries g). key_cmp (ie_key x) (ie_key e) \<noteq> Equal)"
    "length (bt_nodes t) \<le> MAX_INDEX_NODES" "bt_entry_count t < usize_max"
    using ok by (auto simp: insert_answer_def tree_ok_def split: if_splits)
  obtain t' g' where t': "bt_insert_unchecked e t = (Inr (), t')" "tree_ok t' g'" "bt_order t' = bt_order t"
    "bt_unique t' = bt_unique t" "bt_key_width t' = Some (key_len (ie_key e))"
    "\<exists>xs ys. tree_entries g = xs @ ys \<and> tree_entries g' = xs @ e # ys \<and> (\<forall>y \<in> set ys. entry_le e y)"
    using insert_unchecked_ok [OF ok a(3,4,1,2)] by blast
  then have "bt_insert e t = Some (Inr (), t')"
    using a by (auto simp: bt_insert_def contains_key_eq [OF ok])
  with True t' show ?thesis by auto
next
  case False
  have "bt_entry_count t \<le> usize_max" using ok by (simp add: tree_ok_def)
  then have "bt_insert e t = Some (insert_answer t (tree_entries g) e, t)"
    using False by (auto simp: bt_insert_def insert_answer_def contains_key_eq [OF ok] bt_insert_unchecked_def
        checked_add_usize_def split: if_splits)
  with False show ?thesis by simp
qed

lemma bt_built_ok: "bt_built t \<Longrightarrow> \<exists>g. tree_ok t g"
proof (induction rule: bt_built.induct)
  case (built_insert t e r t')
  then obtain g where "tree_ok t g" by blast
  from bt_insert_ok [OF this, of e] built_insert(2) show ?case
    using \<open>tree_ok t g\<close> by (auto split: if_splits)
qed (use tree_ok_new in blast)

section \<open>Building a tree from rows\<close>

text \<open>
  What the engine passes to \<open>from_entries\<close>: keys of one width, rows with equal keys in the order
  of their ids, no duplicates in a unique index.
\<close>

definition rows_ok :: "bool \<Rightarrow> nat \<Rightarrow> ('n::linorder, 'd::linorder, 't::linorder, 's::linorder, 'j) index_entry list \<Rightarrow> bool" where
  "rows_ok unique width es \<longleftrightarrow> (\<forall>e \<in> set es. key_len (ie_key e) = width) \<and>
     sorted_wrt (\<lambda>x y. key_cmp (ie_key x) (ie_key y) = Equal \<longrightarrow> ie_row_id x \<le> ie_row_id y) es \<and> (unique \<longrightarrow> unique_keys es)"

lemma ids_leaves: "shaped order width root g \<Longrightarrow> length (tree_ids g) < 2 * length (leaves g)"
proof (induction g arbitrary: root)
  case (BN i ks gs)
  have "Suc (length (tree_ids h)) \<le> 2 * length (leaves h)" if "h \<in> set gs" for h
    using BN(1) [OF that, of False] BN(2) that by (auto simp: list_all_iff)
  then have "sum_list (map (\<lambda>h. Suc (length (tree_ids h))) gs) \<le> sum_list (map (\<lambda>h. 2 * length (leaves h)) gs)"
    by (intro sum_list_mono) simp
  then have "length gs + sum_list (map (length \<circ> tree_ids) gs) \<le> 2 * sum_list (map (length \<circ> leaves) gs)"
    by (simp add: sum_list_Suc sum_list_const_mult comp_def)
  then show ?case using BN(2) by (simp add: length_concat comp_def)
qed simp

lemma leaves_entries: "shaped order width root g \<Longrightarrow> length (leaves g) \<le> (if root then max 1 (length (tree_entries g)) else length (tree_entries g))"
proof (induction g arbitrary: root)
  case (BL i es)
  then show ?case by (cases es) (auto simp: tree_entries_def)
next
  case (BN i ks gs)
  have "length (leaves h) \<le> length (tree_entries h)" if "h \<in> set gs" for h
    using BN(1) [OF that, of False] BN(2) that by (auto simp: list_all_iff)
  then have "sum_list (map (length \<circ> leaves) gs) \<le> sum_list (map (length \<circ> tree_entries) gs)"
    by (intro sum_list_mono) simp
  moreover have "length (tree_entries (BN i ks gs)) = sum_list (map (length \<circ> tree_entries) gs)"
    by (induction gs) (simp_all add: tree_entries_def)
  ultimately show ?case by (cases root) (auto simp: length_concat comp_def max_def)
qed

lemma tree_ok_nodes:
  assumes "tree_ok t g"
  shows "length (bt_nodes t) < 2 * max 1 (length (tree_entries g))"
proof -
  have "length (tree_ids g) = length (bt_nodes t)"
    using assms distinct_card [of "tree_ids g"] by (simp add: tree_ok_def bp_view_def)
  moreover have "shaped (bt_order t) (bt_key_width t) True g" using assms by (simp add: tree_ok_def)
  ultimately show ?thesis using ids_leaves [of _ _ True g] leaves_entries [of _ _ True g] by fastforce
qed

lemma insert_all_ok:
  assumes "tree_ok t g" and "sorted_wrt entry_le (tree_entries g)" and "mset (tree_entries g) = mset old"
    and "rows_ok (bt_unique t) width (old @ es)" and "length (old @ es) \<le> 500000"
  shows "\<exists>t' g'. bt_insert_all es t = Some (Inr t') \<and> tree_ok t' g' \<and> mset (tree_entries g') = mset (old @ es) \<and>
    sorted_wrt entry_le (tree_entries g')"
  using assms
proof (induction es arbitrary: t g old)
  case Nil
  then show ?case by auto
next
  case (Cons e es)
  have old: "set (tree_entries g) = set old" "length (tree_entries g) = length old"
    using Cons.prems(3) mset_eq_setD mset_eq_length by blast+
  have few: "length (bt_nodes t) \<le> MAX_INDEX_NODES"
    using tree_ok_nodes [OF Cons.prems(1)] Cons.prems(5) old(2) by auto
  have count: "bt_entry_count t \<noteq> usize_max"
    using Cons.prems(1,5) old(2) by (simp add: tree_ok_def usize_max_def)
  have dup: "key_cmp (ie_key x) (ie_key e) \<noteq> Equal" if "bt_unique t" "\<not> key_contains_null (ie_key e)" "x \<in> set (tree_entries g)" for x
    using Cons.prems(4) that old(1) key_cmp_null [of "ie_key x" "ie_key e"] by (auto simp: rows_ok_def unique_keys_def sorted_wrt_append)
  have width: "bt_key_width t = None \<or> bt_key_width t = Some (key_len (ie_key e))"
  proof (cases "tree_entries g")
    case Nil
    then show ?thesis using Cons.prems(1) by (simp add: tree_ok_def)
  next
    case (Cons x xs)
    moreover have "list_all (\<lambda>e. Some (key_len (ie_key e)) = bt_key_width t) (tree_entries g)"
      using shaped_widths Cons.prems(1) by (auto simp: tree_ok_def)
    moreover have "key_len (ie_key x) = key_len (ie_key e)"
      using Cons old(1) \<open>rows_ok (bt_unique t) width (old @ e # es)\<close> by (auto simp: rows_ok_def)
    ultimately show ?thesis by auto
  qed
  have "insert_answer t (tree_entries g) e = Inr ()"
    using few count dup width by (auto simp: insert_answer_def)
  with bt_insert_ok [OF Cons.prems(1), of e] obtain t' g' xs ys where t': "bt_insert e t = Some (Inr (), t')" "tree_ok t' g'"
    "bt_unique t' = bt_unique t" "tree_entries g = xs @ ys" "tree_entries g' = xs @ e # ys" "\<forall>y \<in> set ys. entry_le e y"
    by auto
  have "entry_le x e" if "x \<in> set xs" for x
  proof -
    have "key_le (ie_key x) (ie_key e)"
      using t'(2,5) that sorted_entries [of g'] by (auto simp: tree_ok_def sorted_wrt_append)
    moreover have "ie_row_id x \<le> ie_row_id e" if "key_cmp (ie_key x) (ie_key e) = Equal"
      using Cons.prems(4) that \<open>x \<in> set xs\<close> t'(4) old(1) by (auto simp: rows_ok_def sorted_wrt_append)
    ultimately show ?thesis by (auto simp: entry_le_def entry_cmp_def then_with_eq key_le_def)
  qed
  then have "sorted_wrt entry_le (tree_entries g')"
    using Cons.prems(2) t'(4-6) by (auto simp: sorted_wrt_append)
  moreover have "mset (tree_entries g') = mset (old @ [e])" using Cons.prems(3) t'(4,5) by simp
  ultimately show ?case using Cons.IH [OF t'(2), of "old @ [e]"] Cons.prems(4,5) t'(1,3) by simp
qed

section \<open>Concrete trees\<close>

text \<open>Concrete entries: one key, and different rows.\<close>

definition sample_entry :: "u64 \<Rightarrow> (nat, nat, nat, nat, unit) index_entry" where
  "sample_entry i = \<lparr>ie_key = IndexKey [IsInt64 5], ie_row_id = i, ie_included = []\<rparr>"

definition sample_tree :: "(nat, nat, nat, nat, unit) bp_node list \<Rightarrow> nat \<Rightarrow> nat \<Rightarrow> (nat, nat, nat, nat, unit) bplus_tree" where
  "sample_tree nodes root n =
     \<lparr>bt_nodes = nodes, bt_root = root, bt_order = 3, bt_unique = False, bt_key_width = Some 1, bt_entry_count = n\<rparr>"

lemma sample_cmp:
  "entry_cmp (sample_entry i) (sample_entry j) = cmp_of i j"
  "key_cmp (ie_key (sample_entry i)) (ie_key (sample_entry j)) = Equal"
  "key_len (ie_key (sample_entry i)) = 1"
  by (simp_all add: sample_entry_def entry_cmp_def then_with_def key_len_def key_cmp_def scalar_cmp.simps cmp_of_def scalar_cmp.simps)

lemma sample_steps:
  "bt_insert (sample_entry 10) (bt_with_order False 3) = Some (Inr (), sample_tree [BpLeaf [sample_entry 10] None] 0 1)"
  "bt_insert (sample_entry 11) (sample_tree [BpLeaf [sample_entry 10] None] 0 1) =
     Some (Inr (), sample_tree [BpLeaf [sample_entry 10, sample_entry 11] None] 0 2)"
  "bt_insert (sample_entry 12) (sample_tree [BpLeaf [sample_entry 10, sample_entry 11] None] 0 2) =
     Some (Inr (), sample_tree [BpLeaf [sample_entry 10, sample_entry 11, sample_entry 12] None] 0 3)"
  "bt_insert (sample_entry 13) (sample_tree [BpLeaf [sample_entry 10, sample_entry 11, sample_entry 12] None] 0 3) =
     Some (Inr (), sample_tree [BpLeaf [sample_entry 10, sample_entry 11] (Some 1), BpLeaf [sample_entry 12, sample_entry 13] None,
       BpInternal [ie_key (sample_entry 12)] [0, 1]] 2 4)"
  by (simp_all add: sample_tree_def bt_with_order_def bt_insert_def bt_insert_unchecked_def checked_add_usize_def usize_max_def
    insert_descend.simps insert_leaf_def search_position_def bsearch_loop.simps insert_at_def sample_cmp cmp_of_def
    Let_def div_ceil_2_def insert_root_def)

lemma sample_step_last:
  "bt_insert (sample_entry 1) (sample_tree [BpLeaf [sample_entry 10, sample_entry 11] (Some 1),
       BpLeaf [sample_entry 12, sample_entry 13] None, BpInternal [ie_key (sample_entry 12)] [0, 1]] 2 4) =
     Some (Inr (), sample_tree [BpLeaf [sample_entry 10, sample_entry 11] (Some 1),
       BpLeaf [sample_entry 1, sample_entry 12, sample_entry 13] None, BpInternal [ie_key (sample_entry 12)] [0, 1]] 2 5)"
proof -
  have "insert_descend [BpLeaf [sample_entry 10, sample_entry 11] (Some 1),
       BpLeaf [sample_entry 12, sample_entry 13] None, BpInternal [ie_key (sample_entry 12)] [0, 1]] (ie_key (sample_entry 1)) (Suc 127) 2 [] = Inr (1, [(2, 1)])"
    by (simp add: insert_descend.simps partition_point_def search_position_def bsearch_loop.simps sample_cmp)
  then show ?thesis
    by (simp add: sample_tree_def bt_with_order_def bt_insert_def bt_insert_unchecked_def checked_add_usize_def usize_max_def
     insert_leaf_def search_position_def bsearch_loop.simps insert_at_def sample_cmp cmp_of_def
    Let_def div_ceil_2_def insert_root_def)
qed


lemma sample_validate:
  "bt_validate (sample_tree [BpLeaf [sample_entry 10, sample_entry 11] (Some 1),
       BpLeaf [sample_entry 1, sample_entry 12, sample_entry 13] None, BpInternal [ie_key (sample_entry 12)] [0, 1]] 2 5) = Inl E_XX001"
proof -
  have "leftmost_from [BpLeaf [sample_entry 10, sample_entry 11] (Some 1),
       BpLeaf [sample_entry 1, sample_entry 12, sample_entry 13] None, BpInternal [ie_key (sample_entry 12)] [0, 1]] (Suc 127) 2 = Some 0"
    by (simp add: leftmost_from.simps)
   then show ?thesis
    by (simp add: sample_tree_def bt_validate_def leftmost_leaf_def validate_chain.simps sample_cmp cmp_of_def
      checked_add_usize_def usize_max_def Let_def)
qed

text \<open>
  Rows of one key whose ids do not arrive in order: the descent sends a key that equals the
  separator to the right, so a smaller id lands behind larger ones of the left leaf. Every
  insertion is accepted, and \<open>validate\<close> refuses the tree.
\<close>

theorem btree_insert_breaks_validation:
  "\<exists>t. bt_insert_all (map sample_entry [10, 11, 12, 13, 1]) (bt_with_order False 3) = Some (Inr t) \<and>
     bt_built t \<and> bt_validate t = Inl E_XX001"
proof -
  have built: "bt_insert_all es t = Some (Inr t') \<Longrightarrow> bt_built t \<Longrightarrow> bt_built t'"
    for es :: "(nat, nat, nat, nat, unit) index_entry list" and t t'
    by (induction es t rule: bt_insert_all.induct) (auto split: sum.splits bind_splits dest: built_insert)
  have all: "bt_insert_all (map sample_entry [10, 11, 12, 13, 1]) (bt_with_order False 3) =
      Some (Inr (sample_tree [BpLeaf [sample_entry 10, sample_entry 11] (Some 1),
        BpLeaf [sample_entry 1, sample_entry 12, sample_entry 13] None, BpInternal [ie_key (sample_entry 12)] [0, 1]] 2 5))"
    using sample_steps sample_step_last by (simp del: One_nat_def)
  from all built [OF all built_new] sample_validate show ?thesis by blast
qed

lemma sample_built: "bt_built (sample_tree [BpLeaf [sample_entry 10] None] 0 1)"
  using built_insert [OF built_new sample_steps(1)] .

lemma sample_leaf_entries: "bt_entries (sample_tree [BpLeaf [sample_entry 10] None] 0 1) = Some [sample_entry 10]"
  using bt_entries_eq [of "sample_tree [BpLeaf [sample_entry 10] None] 0 1" "BL 0 [sample_entry 10]"]
  by (simp add: tree_ok_def bp_view_def sample_tree_def tree_entries_def unique_keys_def sample_cmp usize_max_def lessThan_Suc)

section \<open>Properties\<close>

lemma entry_le_row:
  "key_le (ie_key x) (ie_key y) \<Longrightarrow> (key_cmp (ie_key x) (ie_key y) = Equal \<Longrightarrow> ie_row_id x \<le> ie_row_id y) \<Longrightarrow> entry_le x y"
  by (cases "key_cmp (ie_key x) (ie_key y)") (auto simp: entry_le_def entry_cmp_def key_le_def cmp_of_def then_with_def)

text \<open>
  C38. Insertion into a B+ tree. On every tree that was built by insertions, \<open>insert\<close> returns (no
  link is followed forever, the depth limit is never met), and its answer is determined by the
  entries: a key of another width is refused, then a key without nulls that a unique index
  already has, then a tree at its size limits; every refusal leaves the tree as it was. An
  accepted entry is added to the others, whose order does not change: every entry in front of it
  has a key that is not greater, and no entry behind it is smaller by key and row id. The keys
  are therefore in order afterwards. Where no row id of the same key is larger, no entry in front is
  larger by key and row id either; otherwise the entry can land behind larger
  ids of its key in an earlier leaf (as in \<open>btree_insert_breaks_validation\<close>), and nothing
  more is claimed of the row ids there. The tree counts the entry and stays unique or not.
\<close>

theorem btree_insert_correct:
  assumes "bt_built t"
  shows "\<exists>es t'. bt_entries t = Some es \<and> bt_insert e t = Some (insert_answer t es e, t') \<and>
    (case insert_answer t es e of
       Inl _ \<Rightarrow> t' = t
     | Inr _ \<Rightarrow> bt_len t' = Suc (bt_len t) \<and> bt_unique t' = bt_unique t \<and> bt_key_width t' = Some (key_len (ie_key e)) \<and>
         (\<exists>xs ys. es = xs @ ys \<and> bt_entries t' = Some (xs @ e # ys) \<and>
           (\<forall>x \<in> set xs. key_le (ie_key x) (ie_key e)) \<and> (\<forall>y \<in> set ys. entry_le e y) \<and>
           ((\<forall>x \<in> set es. key_cmp (ie_key x) (ie_key e) = Equal \<longrightarrow> ie_row_id x \<le> ie_row_id e) \<longrightarrow>
             (\<forall>x \<in> set xs. entry_le x e))))"
proof -
  obtain g where g: "tree_ok t g" using bt_built_ok [OF assms] by blast
  let ?es = "tree_entries g"
  obtain t' where t': "bt_insert e t = Some (insert_answer t ?es e, t')"
    "if insert_answer t ?es e = Inr ()
     then \<exists>g' xs ys. tree_ok t' g' \<and> bt_order t' = bt_order t \<and> bt_unique t' = bt_unique t \<and>
       bt_key_width t' = Some (key_len (ie_key e)) \<and>
       ?es = xs @ ys \<and> tree_entries g' = xs @ e # ys \<and> (\<forall>y \<in> set ys. entry_le e y)
     else t' = t"
    using bt_insert_ok [OF g, of e] by blast
  show ?thesis
  proof (cases "insert_answer t ?es e")
    case (Inl err)
    with t' bt_entries_eq [OF g] show ?thesis by simp
  next
    case (Inr u)
    with t'(2) obtain g' xs ys where g': "tree_ok t' g'" "bt_unique t' = bt_unique t" "bt_key_width t' = Some (key_len (ie_key e))"
      and xy: "?es = xs @ ys" "tree_entries g' = xs @ e # ys" "\<forall>y \<in> set ys. entry_le e y" by auto
    have "sorted_wrt key_le (map ie_key (xs @ e # ys))" using g'(1) sorted_entries [of g'] xy(2) by (simp add: tree_ok_def)
    then have front: "\<forall>x \<in> set xs. key_le (ie_key x) (ie_key e)" by (simp add: sorted_wrt_append)
    moreover have "bt_len t' = Suc (bt_len t)" using g g'(1) xy by (simp add: tree_ok_def bt_len_def)
    moreover have "\<forall>x \<in> set xs. entry_le x e"
      if "\<forall>x \<in> set ?es. key_cmp (ie_key x) (ie_key e) = Equal \<longrightarrow> ie_row_id x \<le> ie_row_id e"
      using that front entry_le_row xy(1) by auto
    ultimately show ?thesis
      using t'(1) Inr g' xy bt_entries_eq [OF g] bt_entries_eq [OF g'(1)] by (intro exI [of _ ?es] exI [of _ t']) auto
  qed
qed

theorem btree_insert_correct_witness:
  "\<exists>t'. bt_insert (sample_entry 12) (sample_tree [BpLeaf [sample_entry 10] None] 0 1) = Some (Inr (), t') \<and>
     bt_entries t' = Some [sample_entry 10, sample_entry 12] \<and> bt_len t' = 2"
proof -
  let ?t = "sample_tree [BpLeaf [sample_entry 10] None] 0 1"
  have answer: "insert_answer ?t [sample_entry 10] (sample_entry 12) = Inr ()"
    by (simp add: insert_answer_def sample_tree_def bt_with_order_def usize_max_def sample_entry_def key_len_def)
  have order: "\<not> entry_le (sample_entry 12) (sample_entry 10)" by (simp add: entry_le_def sample_cmp cmp_of_def)
  have count: "bt_len ?t = 1" by (simp add: sample_tree_def bt_len_def)
  let ?e = "sample_entry 12"
  from btree_insert_correct [OF sample_built, of ?e] obtain es t' where t': "bt_entries ?t = Some es"
      "bt_insert ?e ?t = Some (insert_answer ?t es ?e, t')" and res: "case insert_answer ?t es ?e of
       Inl _ \<Rightarrow> t' = ?t
     | Inr _ \<Rightarrow> bt_len t' = Suc (bt_len ?t) \<and> bt_unique t' = bt_unique ?t \<and> bt_key_width t' = Some (key_len (ie_key ?e)) \<and>
         (\<exists>xs ys. es = xs @ ys \<and> bt_entries t' = Some (xs @ ?e # ys) \<and>
           (\<forall>x \<in> set xs. key_le (ie_key x) (ie_key ?e)) \<and> (\<forall>y \<in> set ys. entry_le ?e y) \<and>
           ((\<forall>x \<in> set es. key_cmp (ie_key x) (ie_key ?e) = Equal \<longrightarrow> ie_row_id x \<le> ie_row_id ?e) \<longrightarrow>
             (\<forall>x \<in> set xs. entry_le x ?e)))"
    by blast
  have es: "es = [sample_entry 10]" using t'(1) sample_leaf_entries by simp
  obtain xs ys where "[sample_entry 10] = xs @ ys" "bt_entries t' = Some (xs @ sample_entry 12 # ys)"
    "\<forall>y \<in> set ys. entry_le (sample_entry 12) y" "bt_len t' = Suc (bt_len ?t)"
    using res unfolding es answer sum.case by blast
  moreover have "bt_insert (sample_entry 12) ?t = Some (Inr (), t')" using t'(2) unfolding es answer .
  ultimately show ?thesis using order count by (cases xs) auto
qed

text \<open>
  C37. Range scans of a B+ tree. On every tree that was built by insertions, the scan between two
  bounds of any kind returns exactly the entries whose keys lie between them, in ascending
  order of the keys and with duplicates, across the splits of the leaves; the stored count is
  the number of entries, and a unique tree has no key without nulls twice.
\<close>

theorem btree_range_exact:
  assumes "bt_built t"
  shows "\<exists>es. bt_entries t = Some es \<and> sorted_wrt key_le (map ie_key es) \<and> length es = bt_len t \<and>
    (bt_unique t \<longrightarrow> unique_keys es) \<and> (\<forall>lower upper. bt_range t lower upper = Some (filter (within lower upper) es))"
proof -
  obtain g where g: "tree_ok t g" using bt_built_ok [OF assms] by blast
  then show ?thesis
    using bt_entries_eq [OF g] bt_range_eq [OF g] sorted_entries [of g] by (auto simp: tree_ok_def bt_len_def)
qed

theorem btree_range_exact_witness:
  "bt_range (sample_tree [BpLeaf [sample_entry 10] None] 0 1) (Included (ie_key (sample_entry 1))) Unbounded = Some [sample_entry 10] \<and>
   bt_range (sample_tree [BpLeaf [sample_entry 10] None] 0 1) (Excluded (ie_key (sample_entry 1))) Unbounded = Some []"
  using btree_range_exact [OF sample_built] sample_leaf_entries
  by (simp add: within_bounds below_lower_bound_def exceeds_upper_bound_def sample_cmp)

text \<open>
  Validation of a B+ tree. On every tree that was built by insertions and is within its size
  limit, \<open>validate\<close> accepts exactly when the entries are ordered by key and row id.
\<close>

lemma btree_validate_exact:
  assumes "bt_built t" and "length (bt_nodes t) \<le> MAX_INDEX_NODES"
  shows "\<exists>es. bt_entries t = Some es \<and> bt_validate t = (if sorted_wrt entry_le es then Inr () else Inl E_XX001)"
proof -
  obtain g where g: "tree_ok t g" using bt_built_ok [OF assms(1)] by blast
  from bt_entries_eq [OF g] validate_ok [OF g assms(2)] show ?thesis by blast
qed

theorem btree_validate_exact_witness: "bt_validate (sample_tree [BpLeaf [sample_entry 10] None] 0 1) = Inr ()"
  using btree_validate_exact [OF sample_built] sample_leaf_entries by (simp add: sample_tree_def)

text \<open>
  C39. Building an index. For up to 500000 entries with keys of one width, with rows of equal keys
  in the order of their ids and no duplicates where the index is unique, \<open>from_entries\<close> returns
  a tree that passes validation and holds exactly these entries, ordered by key and row id.
\<close>

theorem btree_from_entries:
  assumes "rows_ok unique width es" and "length es \<le> 500000"
  shows "\<exists>t sorted. bt_from_entries unique es = Some (Inr t) \<and> bt_entries t = Some sorted \<and> mset sorted = mset es \<and>
    sorted_wrt entry_le sorted"
proof -
  let ?new = "bt_new unique :: ('a, 'b, 'c, 'd, 'e) bplus_tree"
  have new: "tree_ok ?new (BL 0 [])" using tree_ok_new [of unique DEFAULT_ORDER] by (simp add: bt_new_def)
  have unique: "bt_unique ?new = unique" by (simp add: bt_new_def bt_with_order_def)
  from insert_all_ok [OF new, of "[]" width es] assms unique obtain t g where
    t: "bt_insert_all es ?new = Some (Inr t)" "tree_ok t g" "mset (tree_entries g) = mset es" "sorted_wrt entry_le (tree_entries g)"
    by (auto simp: tree_entries_def)
  have "length (tree_entries g) = length es" using t(3) mset_eq_length by blast
  then have "length (bt_nodes t) \<le> MAX_INDEX_NODES" using tree_ok_nodes [OF t(2)] assms(2) by auto
  from validate_ok [OF t(2) this] t have "bt_from_entries unique es = Some (Inr t)" by (simp add: bt_from_entries_def)
  with t(3,4) bt_entries_eq [OF t(2)] show ?thesis by blast
qed

theorem btree_from_entries_witness:
  "\<exists>t. bt_from_entries False [sample_entry 1, sample_entry 2] = Some (Inr t) \<and>
     bt_entries t = Some [sample_entry 1, sample_entry 2]"
proof -
  have "rows_ok False 1 [sample_entry 1, sample_entry 2]" by (simp add: rows_ok_def sample_cmp) (simp add: sample_entry_def)
  from btree_from_entries [OF this] obtain t sorted where t: "bt_from_entries False [sample_entry 1, sample_entry 2] = Some (Inr t)"
    "bt_entries t = Some sorted" "mset sorted = {#sample_entry 1, sample_entry 2#}" "sorted_wrt entry_le sorted"
    by auto
  moreover have "\<not> entry_le (sample_entry 2) (sample_entry 1)" by (simp add: entry_le_def sample_cmp cmp_of_def)
  ultimately have "sorted = [sample_entry 1, sample_entry 2]"
    by (cases sorted rule: remdups_adj.cases) (auto simp: add_eq_conv_ex)
  with t show ?thesis by blast
qed

end
