(* ===== verification/Status.thy ===== *)
theory Status
  imports Wal Tuple
begin

text \<open>
  The transaction status store, crates/ordadb-transaction/src/status.rs: the durable table of
  transaction outcomes, a JSON document in one file that every change replaces.

  \<^item> The document is a record and its file an optional list of bytes. serde\_json and sha2 are the
    fields of \<open>status_codec\<close>; \<open>codec_ok\<close> is the documented law that parsing inverts printing.
  \<^item> A change is written to a temporary file of a fresh name, synchronized and moved over the
    old file. Only the calls that can fail are modelled, each with one outcome of the oracle of
    the operating system; the temporary file is not, and \<open>windows\<close> selects which of the two
    definitions of \<open>atomic_replace\<close> the program has been built with.
  \<^item> A crash is a failing call after which nobody uses the store: the file stays as it is.
  The mutex makes one method one step; its poisoning is not modelled.
\<close>

section \<open>Documents\<close>

record status_document =
  sd_schema_version :: u16
  sd_managed_floor :: u64
  sd_retained_floor :: u64
  sd_next :: u64
  sd_statuses :: "(u64, outcome) btree_map"

record status_envelope =
  se_version :: u16
  se_sha256 :: "u8 list"
  se_document :: status_document

record status_codec =
  document_to_vec :: "status_document \<Rightarrow> u8 list option"
  envelope_to_vec :: "status_envelope \<Rightarrow> u8 list option"
  envelope_from_slice :: "u8 list \<Rightarrow> status_envelope option"
  sha256_hex :: "u8 list \<Rightarrow> u8 list"

definition codec_ok :: "status_codec \<Rightarrow> bool" where
  "codec_ok c \<longleftrightarrow> (\<forall>e bs. envelope_to_vec c e = Some bs \<longrightarrow> envelope_from_slice c bs = Some e)"

abbreviation (input) TRANSACTION_STATUS_SCHEMA_VERSION :: u16 where "TRANSACTION_STATUS_SCHEMA_VERSION \<equiv> 1"
abbreviation (input) TRANSACTION_STATUS_ENVELOPE_VERSION :: u16 where "TRANSACTION_STATUS_ENVELOPE_VERSION \<equiv> 1"
abbreviation (input) MAXIMUM_STATUS_FILE_BYTES :: nat where "MAXIMUM_STATUS_FILE_BYTES \<equiv> 64 * 1024 * 1024"

primrec validate_statuses :: "u64 \<Rightarrow> (u64 \<times> outcome) list \<Rightarrow> unit res" where
  "validate_statuses next [] = Inr ()"
| "validate_statuses next (x # xs) =
     guard_res (fst x = 0 \<or> next \<le> fst x) E_XX001 (
     guard_res (fst x = FROZEN_TRANSACTION_ID \<and> snd x \<noteq> Committed) E_XX001 (
       validate_statuses next xs))"

definition validate_document :: "status_document \<Rightarrow> unit res" where
  "validate_document d =
     guard_res (sd_schema_version d \<noteq> TRANSACTION_STATUS_SCHEMA_VERSION) E_0A000 (
     guard_res (sd_next d \<le> FROZEN_TRANSACTION_ID) E_XX001 (
     guard_res (sd_managed_floor d \<le> FROZEN_TRANSACTION_ID \<or> sd_next d < sd_managed_floor d \<or>
         sd_retained_floor d < sd_managed_floor d \<or> sd_next d < sd_retained_floor d) E_XX001 (
       validate_statuses (sd_next d) (bm_list (sd_statuses d)))))"

definition allocate_transaction :: "status_document \<Rightarrow> (transaction_id \<times> status_document) res" where
  "allocate_transaction d =
     try_bind (ok_or E_XX001 (txn_new (sd_next d))) (\<lambda>t.
     try_bind (ok_or E_54000 (checked_add_u64 (sd_next d) 1)) (\<lambda>next.
     guard_res (bm_contains (sd_statuses d) t) E_XX001
       (Inr (t, d\<lparr>sd_next := next, sd_statuses := bm_insert t InProgress (sd_statuses d)\<rparr>))))"

section \<open>The file\<close>

record status_store =
  ss_document :: status_document
  ss_file :: "u8 list option"
  ss_io :: "io list"

type_synonym 'a status_eff = "(status_store, 'a) eff"

text \<open>One call of the operating system with its effect when it succeeds.\<close>

definition st_call :: "(status_store \<Rightarrow> status_store) \<Rightarrow> unit status_eff" where
  "st_call f s = (case next_io (ss_io s) of (x, os) \<Rightarrow>
     if x = IoOk then (Inr (), f (s\<lparr>ss_io := os\<rparr>)) else (Inl E_58030, s\<lparr>ss_io := os\<rparr>))"

definition atomic_replace :: "bool \<Rightarrow> u8 list \<Rightarrow> unit status_eff" where
  "atomic_replace windows bs =
     (if windows then st_call (\<lambda>s. s\<lparr>ss_file := Some bs\<rparr>)
      else eff_bind (eff_get ss_file) (\<lambda>file.
        eff_bind (if file = None then eff_return () else st_call (\<lambda>s. s\<lparr>ss_file := None\<rparr>)) (\<lambda>_.
          st_call (\<lambda>s. s\<lparr>ss_file := Some bs\<rparr>))))"

definition document_sha256 :: "status_codec \<Rightarrow> status_document \<Rightarrow> u8 list res" where
  "document_sha256 c d = try_bind (ok_or E_XX000 (document_to_vec c d)) (\<lambda>bs. Inr (sha256_hex c bs))"

text \<open>The bytes that \<open>write_document_atomic\<close> puts into the file; then its calls: create, write, synchronize, replace.\<close>

definition document_bytes :: "status_codec \<Rightarrow> status_document \<Rightarrow> u8 list res" where
  "document_bytes c d =
     try_bind (document_sha256 c d) (\<lambda>sha.
     try_bind (ok_or E_XX000 (envelope_to_vec c
       \<lparr>se_version = TRANSACTION_STATUS_ENVELOPE_VERSION, se_sha256 = sha, se_document = d\<rparr>)) (\<lambda>bs.
     guard_res (bs = [] \<or> MAXIMUM_STATUS_FILE_BYTES < length bs) E_54000 (Inr bs)))"

definition write_document_atomic :: "status_codec \<Rightarrow> bool \<Rightarrow> status_document \<Rightarrow> unit status_eff" where
  "write_document_atomic c windows d =
     eff_bind (eff_res (document_bytes c d)) (\<lambda>bs.
     eff_bind (st_call id) (\<lambda>_.
     eff_bind (st_call id) (\<lambda>_.
     eff_bind (st_call id) (\<lambda>_.
       atomic_replace windows bs))))"

text \<open>\<open>read_document\<close> of a file with the given bytes: it is inspected, then read.\<close>

definition check_file_size :: "u8 list \<Rightarrow> unit res" where
  "check_file_size bs = guard_res (bs = [] \<or> MAXIMUM_STATUS_FILE_BYTES < length bs) E_XX001 (Inr ())"

definition decode_document :: "status_codec \<Rightarrow> u8 list \<Rightarrow> status_document res" where
  "decode_document c bs =
     try_bind (ok_or E_XX001 (envelope_from_slice c bs)) (\<lambda>e.
     guard_res (se_version e \<noteq> TRANSACTION_STATUS_ENVELOPE_VERSION) E_0A000 (
     try_bind (document_sha256 c (se_document e)) (\<lambda>expected.
     guard_res (se_sha256 e \<noteq> expected) E_XX001 (
     try_bind (validate_document (se_document e)) (\<lambda>_.
       Inr (se_document e))))))"

definition read_document :: "status_codec \<Rightarrow> u8 list \<Rightarrow> status_document status_eff" where
  "read_document c bs =
     eff_bind (st_call id) (\<lambda>_.
     eff_bind (eff_res (check_file_size bs)) (\<lambda>_.
     eff_bind (st_call id) (\<lambda>_. eff_res (decode_document c bs))))"

section \<open>The store\<close>

definition fresh_document :: "u64 \<Rightarrow> status_document" where
  "fresh_document minimum_next =
     \<lparr>sd_schema_version = TRANSACTION_STATUS_SCHEMA_VERSION, sd_managed_floor = minimum_next,
      sd_retained_floor = minimum_next, sd_next = minimum_next, sd_statuses = bm_empty\<rparr>"

definition status_open :: "status_codec \<Rightarrow> bool \<Rightarrow> u64 \<Rightarrow> unit status_eff" where
  "status_open c windows next_floor =
     eff_bind (st_call id) (\<lambda>_.
     let minimum_next = max next_floor (FROZEN_TRANSACTION_ID + 1) in
     eff_bind (eff_get ss_file) (\<lambda>file.
     eff_bind (case file of Some bs \<Rightarrow> read_document c bs | None \<Rightarrow> eff_return (fresh_document minimum_next)) (\<lambda>d.
     eff_bind (eff_res (validate_document d)) (\<lambda>_.
     let d = d\<lparr>sd_next := max (sd_next d) minimum_next,
               sd_statuses := bm_insert FROZEN_TRANSACTION_ID Committed (sd_statuses d)\<rparr> in
     eff_bind (write_document_atomic c windows d) (\<lambda>_.
       eff_put (\<lambda>s. s\<lparr>ss_document := d\<rparr>))))))"

text \<open>\<open>update\<close>: the change is made on a copy, which is validated and written before it is used.\<close>

definition status_update ::
  "status_codec \<Rightarrow> bool \<Rightarrow> (status_document \<Rightarrow> ('a \<times> status_document) res) \<Rightarrow> 'a status_eff" where
  "status_update c windows f =
     eff_bind (eff_get ss_document) (\<lambda>d.
     eff_bind (eff_res (f d)) (\<lambda>(x, d').
     eff_bind (eff_res (validate_document d')) (\<lambda>_.
     eff_bind (write_document_atomic c windows d') (\<lambda>_.
     eff_bind (eff_put (\<lambda>s. s\<lparr>ss_document := d'\<rparr>)) (\<lambda>_.
       eff_return x)))))"

definition status_begin :: "status_codec \<Rightarrow> bool \<Rightarrow> transaction_id status_eff" where
  "status_begin c windows = status_update c windows allocate_transaction"

text \<open>
  The end of \<open>begin_durable\<close>: the copy is written, it replaces the document in any case, and a
  failure of the write is reported afterwards.
\<close>

definition publish_begin :: "status_codec \<Rightarrow> bool \<Rightarrow> status_document \<Rightarrow> unit status_eff" where
  "publish_begin c windows candidate s =
     (case write_document_atomic c windows candidate s of (published, s') \<Rightarrow> (published, s'\<lparr>ss_document := candidate\<rparr>))"

definition begin_durable ::
  "status_codec \<Rightarrow> bool \<Rightarrow> (u8 list \<Rightarrow> u32) \<Rightarrow> (status_store \<times> wal_manager, transaction_id) eff" where
  "begin_durable c windows crc =
     eff_bind (eff_get (\<lambda>s. ss_document (fst s))) (\<lambda>d.
     eff_bind (eff_res (allocate_transaction d)) (\<lambda>(t, candidate).
     eff_bind (on_snd (wal_begin_transaction crc t)) (\<lambda>_.
     eff_bind (on_fst (publish_begin c windows candidate)) (\<lambda>_.
       eff_return t))))"

definition finish_document :: "transaction_id \<Rightarrow> outcome \<Rightarrow> status_document \<Rightarrow> (unit \<times> status_document) res" where
  "finish_document t out d =
     (case bm_get (sd_statuses d) t of
        Some InProgress \<Rightarrow> Inr ((), d\<lparr>sd_statuses := bm_insert t out (sd_statuses d)\<rparr>)
      | Some existing \<Rightarrow> if existing = out then Inr ((), d) else Inl E_25000
      | None \<Rightarrow> Inl E_25P01)"

definition status_finish :: "status_codec \<Rightarrow> bool \<Rightarrow> transaction_id \<Rightarrow> outcome \<Rightarrow> unit status_eff" where
  "status_finish c windows t out =
     (if out = InProgress then eff_fail E_22023 else status_update c windows (finish_document t out))"

definition status_commit :: "status_codec \<Rightarrow> bool \<Rightarrow> transaction_id \<Rightarrow> unit status_eff" where
  "status_commit c windows t = status_finish c windows t Committed"

definition status_abort :: "status_codec \<Rightarrow> bool \<Rightarrow> transaction_id \<Rightarrow> unit status_eff" where
  "status_abort c windows t = status_finish c windows t Aborted"

definition compact_document :: "transaction_id \<Rightarrow> status_document \<Rightarrow> (nat \<times> status_document) res" where
  "compact_document horizon d =
     (let statuses = bm_retain (\<lambda>t out. t = FROZEN_TRANSACTION_ID \<or> horizon \<le> t \<or> out = InProgress) (sd_statuses d)
      in Inr (bm_len (sd_statuses d) - bm_len statuses,
              d\<lparr>sd_statuses := statuses, sd_retained_floor := max (sd_retained_floor d) horizon\<rparr>))"

definition status_compact_before :: "status_codec \<Rightarrow> bool \<Rightarrow> transaction_id \<Rightarrow> nat status_eff" where
  "status_compact_before c windows horizon = status_update c windows (compact_document horizon)"

definition status_outcome :: "status_store \<Rightarrow> transaction_id \<Rightarrow> outcome res" where
  "status_outcome s t = ok_or E_XX001 (bm_get (sd_statuses (ss_document s)) t)"

record status_snapshot =
  sp_managed_floor :: u64
  sp_retained_floor :: u64
  sp_next :: u64
  sp_statuses :: "(transaction_id, outcome) btree_map"

definition store_snapshot :: "status_store \<Rightarrow> status_snapshot res" where
  "store_snapshot s =
     (let d = ss_document s in
      guard_res (list_ex (\<lambda>t. t = 0) (bm_keys (sd_statuses d))) E_XX001
        (Inr \<lparr>sp_managed_floor = sd_managed_floor d, sp_retained_floor = sd_retained_floor d, sp_next = sd_next d,
              sp_statuses = sd_statuses d\<rparr>))"

section \<open>Reconciliation with the log\<close>

text \<open>The two loops of \<open>reconcile_with_wal\<close>, on the document and the number of corrections.\<close>

definition reconcile_status ::
  "(transaction_id, outcome) btree_map \<Rightarrow> u64 \<Rightarrow> status_document \<times> nat \<Rightarrow> (status_document \<times> nat) res" where
  "reconcile_status wal i dn =
     (case dn of (d, n) \<Rightarrow>
        try_bind (ok_or E_XX001 (txn_new i)) (\<lambda>t.
        try_bind (ok_or E_XX001 (bm_get (sd_statuses d) t)) (\<lambda>status.
          case (status, bm_get wal t) of
            (Committed, Some Committed) \<Rightarrow> Inr (d, n)
          | (Aborted, None) \<Rightarrow> Inr (d, n)
          | (Aborted, Some InProgress) \<Rightarrow> Inr (d, n)
          | (Aborted, Some Aborted) \<Rightarrow> Inr (d, n)
          | (InProgress, Some Committed) \<Rightarrow> Inl E_XX001
          | (Aborted, Some Committed) \<Rightarrow> Inl E_XX001
          | _ \<Rightarrow> Inr (d\<lparr>sd_statuses := bm_insert t Aborted (sd_statuses d)\<rparr>, count_up n))))"

definition reconcile_wal :: "transaction_id \<times> outcome \<Rightarrow> status_document \<times> nat \<Rightarrow> (status_document \<times> nat) res" where
  "reconcile_wal x dn =
     (case (x, dn) of ((t, wal_status), (d, n)) \<Rightarrow>
        if t < sd_managed_floor d \<or> t < sd_retained_floor d \<or> bm_contains (sd_statuses d) t then Inr (d, n)
        else if wal_status = Committed then Inl E_XX001
        else Inr (d\<lparr>sd_statuses := bm_insert t Aborted (sd_statuses d)\<rparr>, count_up n))"

definition raise_next :: "(transaction_id, outcome) btree_map \<Rightarrow> status_document \<Rightarrow> status_document res" where
  "raise_next wal d =
     (if bm_keys wal = [] then Inr d
      else try_bind (ok_or E_54000 (checked_add_u64 (last (bm_keys wal)) 1)) (\<lambda>next.
        Inr (d\<lparr>sd_next := max (sd_next d) next\<rparr>)))"

definition reconcile_document ::
  "(transaction_id, outcome) btree_map \<Rightarrow> status_document \<Rightarrow> (nat \<times> status_document) res" where
  "reconcile_document wal d =
     try_bind (raise_next wal d) (\<lambda>d.
     let status_ids = filter (\<lambda>t. t \<noteq> FROZEN_TRANSACTION_ID \<and> sd_retained_floor d \<le> t) (bm_keys (sd_statuses d)) in
     try_bind (fold_res (reconcile_status wal) status_ids (d, 0)) (\<lambda>dn.
     try_bind (fold_res reconcile_wal (bm_list wal) dn) (\<lambda>(d, corrected).
       Inr (corrected, d))))"

definition reconcile_with_wal ::
  "status_codec \<Rightarrow> bool \<Rightarrow> (transaction_id, outcome) btree_map \<Rightarrow> nat status_eff" where
  "reconcile_with_wal c windows wal = status_update c windows (reconcile_document wal)"

end
