(* ===== verification/StatusSafety.thy ===== *)
theory StatusSafety
  imports Status
begin

text \<open>
  What the transaction status store promises: the result of reconciliation with the log, its
  role as a status provider, and the contents of its file.
\<close>

section \<open>Reconciliation\<close>

text \<open>The outcome of a transaction after the reconciliation, and the cases that it refuses.\<close>

definition reconciled_status ::
  "(transaction_id, outcome) btree_map \<Rightarrow> status_document \<Rightarrow> transaction_id \<Rightarrow> outcome option" where
  "reconciled_status wal d t =
     (case bm_get (sd_statuses d) t of
        None \<Rightarrow> if bm_contains wal t \<and> sd_managed_floor d \<le> t \<and> sd_retained_floor d \<le> t then Some Aborted else None
      | Some out \<Rightarrow>
          if t = FROZEN_TRANSACTION_ID \<or> t < sd_retained_floor d \<or> out = Committed \<and> bm_get wal t = Some Committed
          then Some out else Some Aborted)"

definition commit_conflict :: "(transaction_id, outcome) btree_map \<Rightarrow> status_document \<Rightarrow> transaction_id \<Rightarrow> bool" where
  "commit_conflict wal d t \<longleftrightarrow>
     bm_get wal t = Some Committed \<and> t \<noteq> FROZEN_TRANSACTION_ID \<and> sd_managed_floor d \<le> t \<and> sd_retained_floor d \<le> t \<and>
     bm_get (sd_statuses d) t \<noteq> Some Committed"

abbreviation (input) abort_all :: "u64 list \<Rightarrow> (u64, outcome) btree_map \<Rightarrow> (u64, outcome) btree_map" where
  "abort_all ts m \<equiv> fold (\<lambda>t. bm_insert t Aborted) ts m"

lemma abort_all_get: "bm_get (abort_all ts m) t = (if t \<in> set ts then Some Aborted else bm_get m t)"
  by (induction ts arbitrary: m) auto

lemma count_up_more: "(count_up ^^ k) (min n usize_max) = min (n + k) usize_max"
  by (induction k) (auto simp: count_up_def)

definition stale_status :: "(transaction_id, outcome) btree_map \<Rightarrow> status_document \<Rightarrow> u64 \<Rightarrow> bool" where
  "stale_status wal d t \<longleftrightarrow> \<not> (bm_get (sd_statuses d) t = Some Committed \<and> bm_get wal t = Some Committed) \<and>
     bm_get (sd_statuses d) t \<noteq> Some Aborted"

lemma reconcile_status_eq:
  assumes "t \<noteq> 0" and "bm_get (sd_statuses d) t = Some out"
  shows "reconcile_status wal t (d, n) =
    (if bm_get wal t = Some Committed \<and> out \<noteq> Committed then Inl E_XX001
     else if stale_status wal d t then Inr (d\<lparr>sd_statuses := bm_insert t Aborted (sd_statuses d)\<rparr>, count_up n)
     else Inr (d, n))"
proof -
  have "txn_new t = Some t" using assms(1) by (simp add: txn_new_Some_iff)
  then show ?thesis
    using assms(2) by (auto simp: reconcile_status_def stale_status_def split: option.splits outcome.splits)
qed

lemma fold_reconcile_status:
  assumes "distinct ts" and "\<forall>t \<in> set ts. t \<noteq> 0 \<and> bm_get (sd_statuses d) t \<noteq> None"
  shows "fold_res (reconcile_status wal) ts (d, n) =
    (if \<exists>t \<in> set ts. bm_get wal t = Some Committed \<and> bm_get (sd_statuses d) t \<noteq> Some Committed then Inl E_XX001
     else let stale = filter (stale_status wal d) ts
       in Inr (d\<lparr>sd_statuses := abort_all stale (sd_statuses d)\<rparr>, (count_up ^^ length stale) n))"
  using assms
proof (induction ts arbitrary: d n)
  case (Cons t ts)
  let ?d = "if stale_status wal d t then d\<lparr>sd_statuses := bm_insert t Aborted (sd_statuses d)\<rparr> else d"
  let ?n = "if stale_status wal d t then count_up n else n"
  obtain out where out: "bm_get (sd_statuses d) t = Some out" "t \<noteq> 0" using Cons.prems by auto
  have same: "bm_get (sd_statuses ?d) u = bm_get (sd_statuses d) u" if "u \<in> set ts" for u
    using Cons.prems(1) that by auto
  then have f: "filter (stale_status wal ?d) ts = filter (stale_status wal d) ts"
    by (intro filter_cong) (simp_all add: stale_status_def)
  have e: "(\<exists>u \<in> set ts. bm_get wal u = Some Committed \<and> bm_get (sd_statuses ?d) u \<noteq> Some Committed) \<longleftrightarrow>
      (\<exists>u \<in> set ts. bm_get wal u = Some Committed \<and> bm_get (sd_statuses d) u \<noteq> Some Committed)"
    by (rule bex_cong) (simp_all only: same)
  have "\<forall>u \<in> set ts. u \<noteq> 0 \<and> bm_get (sd_statuses ?d) u \<noteq> None" using Cons.prems(2) same by simp
  then have IH: "fold_res (reconcile_status wal) ts (?d, ?n) =
    (if \<exists>u \<in> set ts. bm_get wal u = Some Committed \<and> bm_get (sd_statuses d) u \<noteq> Some Committed then Inl E_XX001
     else let stale = filter (stale_status wal d) ts
       in Inr (?d\<lparr>sd_statuses := abort_all stale (sd_statuses ?d)\<rparr>, (count_up ^^ length stale) ?n))"
    unfolding f [symmetric] e [symmetric] by (intro Cons.IH) (use Cons.prems(1) in simp)
  show ?case
    using IH reconcile_status_eq [OF out(2,1), of wal n] out
    by (auto simp: Let_def funpow_swap1 split: if_splits)
qed simp

definition missing_status :: "status_document \<Rightarrow> u64 \<Rightarrow> bool" where
  "missing_status d t \<longleftrightarrow> sd_managed_floor d \<le> t \<and> sd_retained_floor d \<le> t \<and> bm_get (sd_statuses d) t = None"

lemma fold_reconcile_wal:
  assumes "distinct (map fst xs)"
  shows "fold_res reconcile_wal xs (d, n) =
    (if \<exists>t. (t, Committed) \<in> set xs \<and> missing_status d t then Inl E_XX001
     else let missing = filter (missing_status d) (map fst xs)
       in Inr (d\<lparr>sd_statuses := abort_all missing (sd_statuses d)\<rparr>, (count_up ^^ length missing) n))"
  using assms
proof (induction xs arbitrary: d n)
  case (Cons x xs)
  obtain t out where x: "x = (t, out)" by (cases x)
  let ?d = "if missing_status d t then d\<lparr>sd_statuses := bm_insert t Aborted (sd_statuses d)\<rparr> else d"
  let ?n = "if missing_status d t then count_up n else n"
  have same: "missing_status ?d u = missing_status d u" if "u \<in> set (map fst xs)" for u
    using Cons.prems x that by (auto simp: missing_status_def)
  have step: "reconcile_wal x (d, n) = (if missing_status d t \<and> out = Committed then Inl E_XX001 else Inr (?d, ?n))"
    by (auto simp: reconcile_wal_def x missing_status_def bm_contains_def not_less)
  have "filter (missing_status ?d) (map fst xs) = filter (missing_status d) (map fst xs)"
    by (intro filter_cong) (simp_all only: same)
  moreover have "(\<exists>u. (u, Committed) \<in> set xs \<and> missing_status ?d u) \<longleftrightarrow> (\<exists>u. (u, Committed) \<in> set xs \<and> missing_status d u)"
    using same by (metis fst_conv image_eqI set_map)
  ultimately have IH: "fold_res reconcile_wal xs (?d, ?n) =
    (if \<exists>u. (u, Committed) \<in> set xs \<and> missing_status d u then Inl E_XX001
     else let missing = filter (missing_status d) (map fst xs)
       in Inr (?d\<lparr>sd_statuses := abort_all missing (sd_statuses ?d)\<rparr>, (count_up ^^ length missing) ?n))"
    using Cons.IH [of ?d ?n] Cons.prems by simp
  have stop: "(\<exists>u. (u, Committed) \<in> set (x # xs) \<and> missing_status d u) \<longleftrightarrow>
      missing_status d t \<and> out = Committed \<or> (\<exists>u. (u, Committed) \<in> set xs \<and> missing_status d u)"
    using x by auto
  show ?case
    unfolding fold_res.simps step stop using IH x by (auto simp: Let_def funpow_swap1 split: if_splits)
qed simp

section \<open>Valid documents\<close>

lemma validate_statuses_Ok:
  "validate_statuses next xs = Inr () \<longleftrightarrow>
     (\<forall>(t, out) \<in> set xs. t \<noteq> 0 \<and> t < next \<and> (t = FROZEN_TRANSACTION_ID \<longrightarrow> out = Committed))"
  by (induction xs) (auto simp: res_simps not_le)

lemma validate_document_Ok:
  "validate_document d = Inr () \<longleftrightarrow>
     sd_schema_version d = TRANSACTION_STATUS_SCHEMA_VERSION \<and> FROZEN_TRANSACTION_ID < sd_managed_floor d \<and>
     sd_managed_floor d \<le> sd_retained_floor d \<and> sd_retained_floor d \<le> sd_next d \<and>
     (\<forall>t out. bm_get (sd_statuses d) t = Some out \<longrightarrow>
        t \<noteq> 0 \<and> t < sd_next d \<and> (t = FROZEN_TRANSACTION_ID \<longrightarrow> out = Committed))"
proof -
  have "(\<forall>(t, out) \<in> set (bm_list (sd_statuses d)). P t out) \<longleftrightarrow> (\<forall>t out. bm_get (sd_statuses d) t = Some out \<longrightarrow> P t out)" for P
    by (auto simp: set_bm_list [symmetric])
  then show ?thesis
    by (auto simp: validate_document_def res_simps validate_statuses_Ok not_le not_less)
qed

lemma le_last_key: "bm_contains wal t \<Longrightarrow> t \<le> last (bm_keys wal)"
  using sorted_bm_keys [of wal] unfolding bm_contains_iff
  by (cases "bm_keys wal" rule: rev_cases) (auto simp: sorted_wrt_append)

lemma unat_less_max: "unat w + 1 < 2 ^ 64 \<longleftrightarrow> w \<noteq> - 1" for w :: u64
  using unat_bound [of w] word_unat_eq_iff [of w "- 1"] by (simp add: unsigned_minus_1_eq_mask mask_eq_exp_minus_1) linarith

lemma raise_next_eq:
  "raise_next wal d =
     (if bm_contains wal (- 1) then Inl E_54000
      else Inr (d\<lparr>sd_next := (if bm_keys wal = [] then sd_next d else max (sd_next d) (last (bm_keys wal) + 1))\<rparr>))"
proof (cases "bm_keys wal = []")
  case True
  then show ?thesis by (simp add: raise_next_def bm_contains_iff)
next
  case False
  have "last (bm_keys wal) \<in> set (bm_keys wal)" using False by simp
  with le_last_key [where wal = wal] have "bm_contains wal (- 1) \<longleftrightarrow> last (bm_keys wal) = - 1"
    unfolding bm_contains_iff by (metis bm_contains_iff order_antisym word_n1_ge)
  then show ?thesis using False unat_less_max by (simp add: raise_next_def checked_add_u64_def)
qed

lemma reconcile_exact_lemma:
  assumes valid: "validate_document d = Inr ()"
  shows "if bm_contains wal (- 1) then reconcile_document wal d = Inl E_54000
    else if \<exists>t. commit_conflict wal d t then reconcile_document wal d = Inl E_XX001
    else \<exists>d'. reconcile_document wal d =
        Inr (min (card {t. reconciled_status wal d t \<noteq> bm_get (sd_statuses d) t}) usize_max, d') \<and>
      (\<forall>t. bm_get (sd_statuses d') t = reconciled_status wal d t) \<and> validate_document d' = Inr () \<and>
      sd_managed_floor d' = sd_managed_floor d \<and> sd_retained_floor d' = sd_retained_floor d \<and>
      sd_next d' = (if bm_keys wal = [] then sd_next d else max (sd_next d) (last (bm_keys wal) + 1))"
proof (cases "bm_contains wal (- 1)")
  case True
  then show ?thesis by (simp add: reconcile_document_def raise_next_eq)
next
  case False
  note v = valid [unfolded validate_document_Ok]
  let ?next = "if bm_keys wal = [] then sd_next d else max (sd_next d) (last (bm_keys wal) + 1)"
  let ?d = "d\<lparr>sd_next := ?next\<rparr>"
  let ?ids = "filter (\<lambda>t. t \<noteq> FROZEN_TRANSACTION_ID \<and> sd_retained_floor d \<le> t) (bm_keys (sd_statuses d))"
  let ?stale = "filter (stale_status wal d) ?ids" and ?missing = "filter (missing_status d) (bm_keys wal)"
  have ids: "t \<in> set ?ids \<longleftrightarrow> t \<noteq> FROZEN_TRANSACTION_ID \<and> sd_retained_floor d \<le> t \<and> bm_get (sd_statuses d) t \<noteq> None" for t
    by (auto simp: set_bm_keys)
  have stale [simp]: "stale_status wal ?d = stale_status wal d" by (simp add: stale_status_def fun_eq_iff)
  let ?d1 = "?d\<lparr>sd_statuses := abort_all ?stale (sd_statuses d)\<rparr>"
  have missing: "missing_status ?d1 = missing_status d"
    by (auto simp: fun_eq_iff missing_status_def abort_all_get set_bm_keys)
  have first: "fold_res (reconcile_status wal) ?ids (?d, 0) =
    (if \<exists>t \<in> set ?ids. bm_get wal t = Some Committed \<and> bm_get (sd_statuses d) t \<noteq> Some Committed then Inl E_XX001
     else Inr (?d1, (count_up ^^ length ?stale) 0))"
    using v by (subst fold_reconcile_status) (auto simp: Let_def set_bm_keys)
  have second: "fold_res reconcile_wal (bm_list wal) (?d1, n) =
    (if \<exists>t. bm_get wal t = Some Committed \<and> missing_status d t then Inl E_XX001
     else Inr (?d1\<lparr>sd_statuses := abort_all ?missing (sd_statuses ?d1)\<rparr>, (count_up ^^ length ?missing) n))" for n
    using fold_reconcile_wal [OF distinct_bm_keys [of wal, unfolded bm_keys_def], of ?d1 n]
    unfolding missing set_bm_list by (simp add: Let_def bm_keys_def)
  have "commit_conflict wal d t \<longleftrightarrow>
      t \<in> set ?ids \<and> bm_get wal t = Some Committed \<and> bm_get (sd_statuses d) t \<noteq> Some Committed \<or>
      bm_get wal t = Some Committed \<and> missing_status d t" for t
    unfolding commit_conflict_def missing_status_def ids using v by (cases "bm_get (sd_statuses d) t") auto
  then have conflict: "(\<exists>t. commit_conflict wal d t) \<longleftrightarrow>
      (\<exists>t \<in> set ?ids. bm_get wal t = Some Committed \<and> bm_get (sd_statuses d) t \<noteq> Some Committed) \<or>
      (\<exists>t. bm_get wal t = Some Committed \<and> missing_status d t)"
    by (simp only: ex_disj_distrib Bex_def)
  show ?thesis
  proof (cases "\<exists>t. commit_conflict wal d t")
    case True
    then have "reconcile_document wal d = Inl E_XX001"
      unfolding reconcile_document_def raise_next_eq using False first second conflict by (auto simp: Let_def)
    with False True show ?thesis by simp
  next
    case noconflict: False
    let ?d2 = "?d1\<lparr>sd_statuses := abort_all ?missing (sd_statuses ?d1)\<rparr>"
    have r: "reconcile_document wal d = Inr ((count_up ^^ length ?missing) ((count_up ^^ length ?stale) 0), ?d2)"
      unfolding reconcile_document_def raise_next_eq using False first second noconflict conflict by (auto simp: Let_def)
    have get: "bm_get (sd_statuses ?d2) t = reconciled_status wal d t" for t
      using v unfolding reconciled_status_def
      by (auto simp: abort_all_get missing_status_def stale_status_def set_bm_keys bm_contains_def split: option.splits)
    have "{t. reconciled_status wal d t \<noteq> bm_get (sd_statuses d) t} = set ?stale \<union> set ?missing"
      unfolding get [symmetric]
      by (auto simp: abort_all_get missing_status_def stale_status_def set_bm_keys)
    moreover have "set ?stale \<inter> set ?missing = {}" by (auto simp: missing_status_def set_bm_keys)
    ultimately have "card {t. reconciled_status wal d t \<noteq> bm_get (sd_statuses d) t} = length ?stale + length ?missing"
      using distinct_card [of ?stale] distinct_card [of ?missing] by (simp only: card_Un_disjoint finite_set distinct_filter distinct_bm_keys)
    then have n: "(count_up ^^ length ?missing) ((count_up ^^ length ?stale) 0) =
        min (card {t. reconciled_status wal d t \<noteq> bm_get (sd_statuses d) t}) usize_max"
      using count_up_more [of "length ?stale" 0] count_up_more [of "length ?missing" "length ?stale"] by simp
    have below: "t < ?next" if "bm_contains wal t" for t
    proof -
      have "last (bm_keys wal) \<noteq> - 1" "bm_keys wal \<noteq> []"
        using that False unfolding bm_contains_iff by (metis empty_iff empty_set last_in_set)+
      then have "last (bm_keys wal) < last (bm_keys wal) + 1"
        using unat_less_max [of "last (bm_keys wal)"] by (simp add: word_less_nat_alt unat_word_ariths)
      with le_last_key [OF that] \<open>bm_keys wal \<noteq> []\<close> show ?thesis by (auto simp: max_def not_le)
    qed
    have "t \<noteq> 0 \<and> t < ?next \<and> (t = FROZEN_TRANSACTION_ID \<longrightarrow> out = Committed)"
      if "reconciled_status wal d t = Some out" for t out
    proof (cases "bm_get (sd_statuses d) t")
      case None
      with that have "bm_contains wal t" "FROZEN_TRANSACTION_ID < t"
        using v by (auto simp: reconciled_status_def split: if_splits)
      with below show ?thesis by (auto simp: word_less_nat_alt)
    next
      case (Some prior)
      then have "t \<noteq> 0" "t < sd_next d" "t = FROZEN_TRANSACTION_ID \<longrightarrow> prior = Committed" using v by blast+
      moreover from this(2) have "t < ?next" by (auto simp: max_def)
      ultimately show ?thesis using that Some by (auto simp: reconciled_status_def split: if_splits)
    qed
    then have "validate_document ?d2 = Inr ()"
      unfolding validate_document_Ok get using v by (auto intro: order_trans)
    moreover have "sd_managed_floor ?d2 = sd_managed_floor d" "sd_retained_floor ?d2 = sd_retained_floor d" "sd_next ?d2 = ?next"
      by simp_all
    ultimately show ?thesis unfolding if_not_P [OF False] if_not_P [OF noconflict] using r [unfolded n] get by blast
  qed
qed

section \<open>The file\<close>

text \<open>The document that \<open>read_document\<close> would find.\<close>

definition stored_document :: "status_codec \<Rightarrow> u8 list option \<Rightarrow> status_document \<Rightarrow> bool" where
  "stored_document c file d \<longleftrightarrow> (\<exists>bs. file = Some bs \<and> check_file_size bs = Inr () \<and> decode_document c bs = Inr d)"

lemma stored_valid: "stored_document c file d \<Longrightarrow> validate_document d = Inr ()"
  by (auto simp: stored_document_def decode_document_def res_simps)

lemma stored_unique: "stored_document c file d \<Longrightarrow> stored_document c file d' \<Longrightarrow> d = d'"
  by (auto simp: stored_document_def)

lemma document_bytes_stored:
  assumes "codec_ok c" and "document_bytes c d = Inr bs" and "validate_document d = Inr ()"
  shows "stored_document c (Some bs) d"
  using assms by (auto simp: codec_ok_def document_bytes_def stored_document_def check_file_size_def decode_document_def res_simps)

lemma st_call_cases:
  assumes "st_call f s = (r, s')"
  obtains os where "r = Inr ()" and "s' = f (s\<lparr>ss_io := os\<rparr>)"
  | os where "r = Inl E_58030" and "s' = s\<lparr>ss_io := os\<rparr>"
  using assms by (auto simp: st_call_def split: prod.splits if_splits)

definition file_kept :: "bool \<Rightarrow> status_store \<Rightarrow> status_store \<Rightarrow> bool" where
  "file_kept windows s s' \<longleftrightarrow> ss_document s' = ss_document s \<and> (ss_file s' = ss_file s \<or> \<not> windows \<and> ss_file s' = None)"

lemma file_kept_simps [simp]:
  "file_kept windows s s" "file_kept windows s (s'\<lparr>ss_io := os\<rparr>) \<longleftrightarrow> file_kept windows s s'"
  by (simp_all add: file_kept_def)

lemma atomic_replace_cases:
  assumes "atomic_replace windows bs s = (r, s')"
  shows "ss_document s' = ss_document s \<and>
    (r = Inr () \<and> ss_file s' = Some bs \<or> (\<exists>e. r = Inl e) \<and> file_kept windows s s')"
  using assms unfolding atomic_replace_def
  by (auto elim!: eff_bind_cases st_call_cases simp: file_kept_def split: if_splits)

lemma write_document_cases:
  assumes "write_document_atomic c windows d s = (r, s')"
  shows "ss_document s' = ss_document s \<and>
    (r = Inr () \<and> (\<exists>bs. document_bytes c d = Inr bs \<and> ss_file s' = Some bs) \<or> (\<exists>e. r = Inl e) \<and> file_kept windows s s')"
  using assms unfolding write_document_atomic_def
  by (auto elim!: eff_bind_cases st_call_cases dest!: atomic_replace_cases simp: file_kept_def)

lemma status_update_cases:
  assumes "status_update c windows f s = (r, s')"
  obtains (ok) x d bs where "r = Inr x" and "f (ss_document s) = Inr (x, d)" and "validate_document d = Inr ()"
      and "ss_document s' = d" and "document_bytes c d = Inr bs" and "ss_file s' = Some bs"
  | (failed) e where "r = Inl e" and "file_kept windows s s'"
  using assms unfolding status_update_def
  by (auto elim!: eff_bind_cases dest!: write_document_cases)

lemma status_update_stored:
  assumes "codec_ok c" and "status_update c windows f s = (Inr x, s')"
  shows "stored_document c (ss_file s') (ss_document s')"
  using assms(2) by (cases rule: status_update_cases) (auto intro: document_bytes_stored [OF assms(1)])

section \<open>The store as a status provider\<close>

lemma finish_document_cases:
  assumes "finish_document t out d = Inr (u, d')"
  shows "bm_get (sd_statuses d) t = Some InProgress \<and> d' = d\<lparr>sd_statuses := bm_insert t out (sd_statuses d)\<rparr> \<or>
    bm_get (sd_statuses d) t = Some out \<and> d' = d"
  using assms by (auto simp: finish_document_def split: option.splits outcome.splits if_splits)

lemma status_finish_cases:
  assumes "status_finish c windows t out s = (r, s')" and "out \<noteq> InProgress"
  obtains (ok) "r = Inr ()" and "bm_get (sd_statuses (ss_document s)) t \<in> {Some InProgress, Some out}"
      and "bm_get (sd_statuses (ss_document s')) = (bm_get (sd_statuses (ss_document s)))(t \<mapsto> out)"
  | (failed) e where "r = Inl e" and "ss_document s' = ss_document s"
  using assms unfolding status_finish_def
  by (auto elim!: status_update_cases dest!: finish_document_cases simp: file_kept_def fun_eq_iff split: if_splits)

interpretation status_store: status_provider status_outcome "status_finish c windows" "\<lambda>_. True"
  by unfold_locales (auto elim!: status_finish_cases simp: status_outcome_def fun_eq_iff res_simps)

section \<open>Properties\<close>

text \<open>
  C31. The reconciliation of the status store with the log, exactly. For a valid document it
  fails with 54000 if the log knows the largest transaction id, with XX001 if the log has a
  Commit of a transaction above the floors that the document does not have as committed, and
  otherwise never: then every transaction above the retention floor that is not committed in
  both is aborted, transactions that only the log knows are entered as aborted, everything
  else stays, the next id is above every id of the log, the document is valid again, and the
  reported count is the number of changed entries (saturated at the width of usize).
\<close>

theorem reconcile_exact:
  assumes "validate_document d = Inr ()"
  shows "if bm_contains wal (- 1) then reconcile_document wal d = Inl E_54000
    else if \<exists>t. commit_conflict wal d t then reconcile_document wal d = Inl E_XX001
    else \<exists>d'. reconcile_document wal d =
        Inr (min (card {t. reconciled_status wal d t \<noteq> bm_get (sd_statuses d) t}) usize_max, d') \<and>
      (\<forall>t. bm_get (sd_statuses d') t = reconciled_status wal d t) \<and> validate_document d' = Inr () \<and>
      sd_managed_floor d' = sd_managed_floor d \<and> sd_retained_floor d' = sd_retained_floor d \<and>
      sd_next d' = (if bm_keys wal = [] then sd_next d else max (sd_next d) (last (bm_keys wal) + 1))"
  by (rule reconcile_exact_lemma [OF assms])

lemma reconcile_exact_witness:
  "\<exists>n d'. reconcile_document bm_empty ((fresh_document 3)\<lparr>sd_next := 4, sd_statuses := bm_insert 3 InProgress bm_empty\<rparr>) = Inr (n, d') \<and>
     bm_get (sd_statuses d') 3 = Some Aborted"
proof -
  let ?d = "(fresh_document 3)\<lparr>sd_next := 4, sd_statuses := bm_insert 3 InProgress bm_empty\<rparr>"
  have "validate_document ?d = Inr ()" unfolding validate_document_Ok by (simp add: fresh_document_def)
  from reconcile_exact [OF this, of bm_empty] obtain n d' where
    d': "reconcile_document bm_empty ?d = Inr (n, d')" "\<forall>t. bm_get (sd_statuses d') t = reconciled_status bm_empty ?d t"
    by (auto simp: bm_contains_def commit_conflict_def split: if_splits)
  then have "bm_get (sd_statuses d') 3 = Some Aborted" by (simp add: reconciled_status_def fresh_document_def)
  with d'(1) show ?thesis by blast
qed

end
