(* ===== verification/Writer.thy ===== *)
theory Writer
  imports Ids
begin

text \<open>
  The writer coordinator, crates/ordadb-transaction/src/writer.rs: it hands out transaction ids
  and one lease of the database writer at a time. The counter is atomic and the owner is behind
  a mutex, so each method is one step; poisoning is not modelled. A lease is held as long as it
  still has its coordinator; \<open>Drop\<close> releases it.
\<close>

section \<open>Operations\<close>

record writer_coordinator =
  wc_next :: u64
  wc_owner :: "transaction_id option"

record writer_lease =
  wl_held :: bool
  wl_txn :: transaction_id

definition writer_new :: writer_coordinator where
  "writer_new = \<lparr>wc_next = 1, wc_owner = None\<rparr>"

definition writer_from_next :: "u64 \<Rightarrow> writer_coordinator res" where
  "writer_from_next next = guard_res (txn_new next = None) E_22023 (Inr \<lparr>wc_next = next, wc_owner = None\<rparr>)"

definition writer_from_last :: "transaction_id option \<Rightarrow> writer_coordinator res" where
  "writer_from_last last_id =
     try_bind (case last_id of Some t \<Rightarrow> ok_or E_54000 (checked_add_u64 t 1) | None \<Rightarrow> Inr 1) writer_from_next"

definition writer_next_id :: "writer_coordinator \<Rightarrow> transaction_id res \<times> writer_coordinator" where
  "writer_next_id w =
     (case checked_add_u64 (wc_next w) 1 of
        None \<Rightarrow> (Inl E_54000, w)
      | Some next \<Rightarrow> (ok_or E_XX000 (txn_new (wc_next w)), w\<lparr>wc_next := next\<rparr>))"

definition writer_try_acquire :: "transaction_id \<Rightarrow> writer_coordinator \<Rightarrow> writer_lease res \<times> writer_coordinator" where
  "writer_try_acquire t w =
     (case wc_owner w of
        Some active \<Rightarrow> (Inl E_55P03, w)
      | None \<Rightarrow> (Inr \<lparr>wl_held = True, wl_txn = t\<rparr>, w\<lparr>wc_owner := Some t\<rparr>))"

definition writer_release :: "transaction_id \<Rightarrow> writer_coordinator \<Rightarrow> writer_coordinator" where
  "writer_release t w = (if wc_owner w = Some t then w\<lparr>wc_owner := None\<rparr> else w)"

definition lease_release :: "writer_lease \<times> writer_coordinator \<Rightarrow> writer_lease \<times> writer_coordinator" where
  "lease_release s =
     (case s of (l, w) \<Rightarrow> if wl_held l then (l\<lparr>wl_held := False\<rparr>, writer_release (wl_txn l) w) else (l, w))"

definition lease_drop :: "writer_lease \<times> writer_coordinator \<Rightarrow> writer_coordinator" where
  "lease_drop s = snd (lease_release s)"

section \<open>The system\<close>

text \<open>
  The coordinator, the leases that exist, and the ids that have been handed out. A lease may be
  acquired for any transaction, released any number of times, and dropped.
\<close>

inductive writer_reach :: "writer_coordinator \<Rightarrow> writer_lease list \<Rightarrow> transaction_id list \<Rightarrow> bool" where
  writer_start: "writer_from_next next = Inr w \<Longrightarrow> writer_reach w [] []"
| writer_id: "writer_reach w ls ids \<Longrightarrow> writer_next_id w = (Inr t, w') \<Longrightarrow> writer_reach w' ls (ids @ [t])"
| writer_acquire: "writer_reach w ls ids \<Longrightarrow> writer_try_acquire t w = (Inr l, w') \<Longrightarrow> writer_reach w' (ls @ [l]) ids"
| writer_give_up: "writer_reach w ls ids \<Longrightarrow> i < length ls \<Longrightarrow> lease_release (ls ! i, w) = (l, w') \<Longrightarrow>
    writer_reach w' (ls[i := l]) ids"
| writer_dropped: "writer_reach w (ls @ l # ls') ids \<Longrightarrow> writer_reach (lease_drop (l, w)) (ls @ ls') ids"

text \<open>The held leases, in order; the invariant has at most one of them, of the owner.\<close>

definition held :: "writer_lease list \<Rightarrow> transaction_id list" where
  "held ls = map wl_txn (filter wl_held ls)"

lemma held_simps [simp]:
  "held [] = []" "held (xs @ ys) = held xs @ held ys" "held (l # ls) = (if wl_held l then wl_txn l # held ls else held ls)"
  by (simp_all add: held_def)

definition owned :: "writer_coordinator \<Rightarrow> transaction_id list" where
  "owned w = (case wc_owner w of None \<Rightarrow> [] | Some t \<Rightarrow> [t])"

lemma owned_eq: "owned w = xs @ t # ys \<longleftrightarrow> xs = [] \<and> ys = [] \<and> wc_owner w = Some t"
  by (cases "wc_owner w"; cases xs) (auto simp: owned_def)

lemma owned_release:
  assumes "held (ls @ l # ls') = owned w" and "lease_release (l, w) = (l', w')"
  shows "held (ls @ ls') = owned w'" "\<not> wl_held l'" "wc_next w' = wc_next w"
  using assms owned_eq [of w "held ls" "wl_txn l" "held ls'"]
  by (auto simp: lease_release_def writer_release_def owned_def split: if_splits)

lemma writer_reach_inv:
  "writer_reach w ls ids \<Longrightarrow> held ls = owned w \<and> wc_next w \<noteq> 0 \<and> sorted_wrt (<) ids \<and> (\<forall>t \<in> set ids. 0 < t \<and> t < wc_next w)"
proof (induction rule: writer_reach.induct)
  case (writer_start "next" w)
  then show ?case by (auto simp: writer_from_next_def res_simps owned_def txn_new_def split: if_splits)
next
  case (writer_id w ls ids t w')
  then have w': "checked_add_u64 (wc_next w) 1 = Some (wc_next w')" "t = wc_next w" "wc_owner w' = wc_owner w"
    by (auto simp: writer_next_id_def res_simps txn_new_Some_iff split: option.splits)
  then have "wc_next w < wc_next w'" using checked_add_one_less by simp
  moreover have "0 < wc_next w" using writer_id.IH by (simp add: word_neq_0_conv)
  ultimately show ?case
    using writer_id.IH w' by (auto simp: owned_def sorted_wrt_append intro: order.strict_trans)
next
  case (writer_acquire w ls ids t l w')
  then show ?case by (auto simp: writer_try_acquire_def owned_def split: option.splits)
next
  case (writer_give_up w ls ids i l w')
  have ls: "ls = take i ls @ ls ! i # drop (Suc i) ls" using writer_give_up.hyps(2) by (rule id_take_nth_drop)
  have h: "held (take i ls @ ls ! i # drop (Suc i) ls) = owned w" using writer_give_up.IH ls by simp
  have "ls[i := l] = take i ls @ l # drop (Suc i) ls" using writer_give_up.hyps(2) by (rule upd_conv_take_nth_drop)
  with owned_release [OF h writer_give_up.hyps(3)] writer_give_up.IH show ?case by simp
next
  case (writer_dropped w ls l ls' ids)
  obtain l' w' where r: "lease_release (l, w) = (l', w')" by (cases "lease_release (l, w)")
  from owned_release [OF _ r, of ls ls'] writer_dropped.IH r show ?case by (simp add: lease_drop_def)
qed

section \<open>Properties\<close>

text \<open>
  C36. One writer. However leases are acquired, released (also repeatedly) and dropped, at most
  one of them is held, the coordinator names its transaction as the owner, a further
  \<open>try_acquire\<close> succeeds exactly when none is held and fails with 55P03 otherwise, and the ids
  handed out are distinct, ascending and below the counter.
\<close>

theorem writer_exclusive:
  assumes "writer_reach w ls ids"
  shows "length (filter wl_held ls) \<le> 1 \<and>
    (wc_owner w = Some t \<longleftrightarrow> (\<exists>l \<in> set ls. wl_held l \<and> wl_txn l = t)) \<and>
    fst (writer_try_acquire u w) = (if \<exists>l \<in> set ls. wl_held l then Inl E_55P03 else Inr \<lparr>wl_held = True, wl_txn = u\<rparr>) \<and>
    sorted_wrt (<) ids \<and> (\<forall>i \<in> set ids. 0 < i \<and> i < wc_next w)"
proof -
  from writer_reach_inv [OF assms] have inv: "map wl_txn (filter wl_held ls) = owned w"
    and ids: "sorted_wrt (<) ids" "\<forall>i \<in> set ids. 0 < i \<and> i < wc_next w"
    by (simp_all add: held_def)
  have one: "length (filter wl_held ls) \<le> 1" using arg_cong [OF inv, of length] by (simp add: owned_def split: option.splits)
  have s: "wl_txn ` {l \<in> set ls. wl_held l} = set (owned w)" using arg_cong [OF inv, of set] by simp
  have "wc_owner w = Some t \<longleftrightarrow> t \<in> set (owned w)" by (auto simp: owned_def split: option.split)
  then have "wc_owner w = Some t \<longleftrightarrow> (\<exists>l \<in> set ls. wl_held l \<and> wl_txn l = t)"
    unfolding s [symmetric] by (auto simp: image_iff)
  moreover have "(\<exists>l \<in> set ls. wl_held l) \<longleftrightarrow> wc_owner w \<noteq> None"
    using s by (cases "wc_owner w") (auto simp: owned_def)
  then have "fst (writer_try_acquire u w) = (if \<exists>l \<in> set ls. wl_held l then Inl E_55P03 else Inr \<lparr>wl_held = True, wl_txn = u\<rparr>)"
    by (cases "wc_owner w") (simp_all add: writer_try_acquire_def)
  ultimately show ?thesis using one ids by blast
qed

lemma writer_exclusive_witness:
  "fst (writer_try_acquire 6 (snd (writer_try_acquire 5 \<lparr>wc_next = 1, wc_owner = None\<rparr>))) = Inl E_55P03"
proof -
  have "writer_reach \<lparr>wc_next = 1, wc_owner = None\<rparr> [] []"
    by (rule writer_start [of 1]) (simp add: writer_from_next_def txn_new_def res_simps)
  then have "writer_reach \<lparr>wc_next = 1, wc_owner = Some 5\<rparr> ([] @ [\<lparr>wl_held = True, wl_txn = 5\<rparr>]) []"
    by (rule writer_acquire [where t = 5]) (simp add: writer_try_acquire_def)
  from writer_exclusive [OF this, of 5 6] show ?thesis by (simp add: writer_try_acquire_def)
qed

end
