(* ===== verification/Durable.thy ===== *)
theory Durable
  imports Status Mvcc
begin

text \<open>
  Durable transactions: \<open>DurableTransaction\<close> of
  crates/ordadb-transaction/src/mvcc_parts/state_and_lifecycle.rs, which joins the transaction
  manager, the status store and the write-ahead log.

  The three shared objects are one record, \<open>durable_world\<close>; a transaction is a record with its
  phase. A method that borrows the transaction is a function on the pair of both; a consuming
  method ends with \<open>dt_drop\<close>, the destructor. A wait for a safe snapshot is a turn, as in theory
  Mvcc.
\<close>

section \<open>State\<close>

record durable_world =
  dw_manager :: txn_manager
  dw_status :: status_store
  dw_wal :: wal_manager

datatype durable_phase = PhActive | PhStatusCommitted | PhFinished

record durable_transaction =
  dt_managed :: "managed_transaction option"
  dt_id :: transaction_id
  dt_phase :: durable_phase

definition on_manager :: "(txn_manager, 'a) eff \<Rightarrow> (durable_world, 'a) eff" where
  "on_manager = eff_on dw_manager (\<lambda>m s. s\<lparr>dw_manager := m\<rparr>)"

definition on_status :: "(status_store, 'a) eff \<Rightarrow> (durable_world, 'a) eff" where
  "on_status = eff_on dw_status (\<lambda>m s. s\<lparr>dw_status := m\<rparr>)"

definition on_log :: "(wal_manager, 'a) eff \<Rightarrow> (durable_world, 'a) eff" where
  "on_log = eff_on dw_wal (\<lambda>m s. s\<lparr>dw_wal := m\<rparr>)"

definition on_status_log :: "(status_store \<times> wal_manager, 'a) eff \<Rightarrow> (durable_world, 'a) eff" where
  "on_status_log = eff_on (\<lambda>s. (dw_status s, dw_wal s)) (\<lambda>(m, w) s. s\<lparr>dw_status := m, dw_wal := w\<rparr>)"

type_synonym 'a durable_eff = "(durable_world \<times> durable_transaction, 'a) eff"

section \<open>Beginning\<close>

definition dt_begin ::
  "status_codec \<Rightarrow> bool \<Rightarrow> (u8 list \<Rightarrow> u32) \<Rightarrow> nat \<Rightarrow> characteristics \<Rightarrow> (durable_world, durable_transaction) eff" where
  "dt_begin c windows crc now chars =
     eff_bind (on_status_log (begin_durable c windows crc)) (\<lambda>t s.
       case on_manager (tm_register now t chars) s of
         (Inr managed, s') \<Rightarrow> (Inr \<lparr>dt_managed = Some managed, dt_id = t, dt_phase = PhActive\<rparr>, s')
       | (Inl e, s') \<Rightarrow>
           eff_bind (eff_ignore (on_log (wal_abort crc t))) (\<lambda>_.
           eff_bind (eff_ignore (on_status (status_abort c windows t))) (\<lambda>_. eff_fail e)) s')"

section \<open>Statements\<close>

definition with_managed ::
  "(managed_transaction \<Rightarrow> txn_manager \<Rightarrow> 'a res \<times> managed_transaction \<times> txn_manager) \<Rightarrow> 'a durable_eff" where
  "with_managed f s =
     (case dt_managed (snd s) of
        None \<Rightarrow> (Inl E_25P01, s)
      | Some managed \<Rightarrow>
          (case f managed (dw_manager (fst s)) of
             (r, managed', m) \<Rightarrow> (r, (fst s)\<lparr>dw_manager := m\<rparr>, (snd s)\<lparr>dt_managed := Some managed'\<rparr>)))"

definition dt_begin_statement :: "bool \<Rightarrow> nat \<Rightarrow> txn_snapshot option durable_eff" where
  "dt_begin_statement cancelled now = with_managed (mt_begin_statement cancelled now)"

definition dt_finish_statement :: "unit durable_eff" where
  "dt_finish_statement = with_managed (\<lambda>managed m. case mt_finish_statement managed of (r, managed') \<Rightarrow> (r, managed', m))"

section \<open>Committing and aborting\<close>

definition mark_status_committed :: "status_codec \<Rightarrow> bool \<Rightarrow> unit durable_eff" where
  "mark_status_committed c windows =
     eff_bind (eff_get snd) (\<lambda>dt.
     eff_guard (dt_phase dt \<noteq> PhActive) E_25000 (
     eff_bind (on_fst (on_status (status_commit c windows (dt_id dt)))) (\<lambda>_.
       on_snd (eff_put (\<lambda>dt. dt\<lparr>dt_phase := PhStatusCommitted\<rparr>)))))"

definition finish_commit :: "unit durable_eff" where
  "finish_commit =
     eff_bind (eff_get snd) (\<lambda>dt.
     eff_guard (dt_phase dt \<noteq> PhStatusCommitted) E_25000 (
     eff_bind (on_snd (eff_put (\<lambda>dt. dt\<lparr>dt_managed := None\<rparr>))) (\<lambda>_.
     eff_bind (eff_res (ok_or E_25P01 (dt_managed dt))) (\<lambda>managed.
     eff_bind (on_fst (on_manager (mt_commit managed))) (\<lambda>_.
       on_snd (eff_put (\<lambda>dt. dt\<lparr>dt_phase := PhFinished\<rparr>)))))))"

definition abort_active :: "status_codec \<Rightarrow> bool \<Rightarrow> (u8 list \<Rightarrow> u32) \<Rightarrow> unit durable_eff" where
  "abort_active c windows crc =
     eff_bind (eff_get snd) (\<lambda>dt.
     if dt_phase dt = PhFinished then eff_return ()
     else if dt_phase dt = PhStatusCommitted then eff_fail E_25000
     else
       eff_bind (on_fst (on_log (wal_abort crc (dt_id dt)))) (\<lambda>_.
       eff_bind (on_fst (on_status (status_abort c windows (dt_id dt)))) (\<lambda>_.
       eff_bind (on_snd (eff_put (\<lambda>dt. dt\<lparr>dt_managed := None\<rparr>))) (\<lambda>_.
       eff_bind (case dt_managed dt of None \<Rightarrow> eff_return () | Some managed \<Rightarrow> on_fst (on_manager (mt_abort managed))) (\<lambda>_.
         on_snd (eff_put (\<lambda>dt. dt\<lparr>dt_phase := PhFinished\<rparr>)))))))"

text \<open>The destructor; it drops the managed transaction in the end.\<close>

definition drop_managed :: "durable_world \<times> durable_transaction \<Rightarrow> durable_world" where
  "drop_managed s =
     (case dt_managed (snd s) of
        None \<Rightarrow> fst s
      | Some managed \<Rightarrow> (fst s)\<lparr>dw_manager := mt_drop managed (dw_manager (fst s))\<rparr>)"

definition dt_drop :: "status_codec \<Rightarrow> bool \<Rightarrow> (u8 list \<Rightarrow> u32) \<Rightarrow> durable_world \<times> durable_transaction \<Rightarrow> durable_world" where
  "dt_drop c windows crc s =
     (if dt_phase (snd s) = PhActive then drop_managed (snd (abort_active c windows crc s)) else drop_managed s)"

definition consuming ::
  "status_codec \<Rightarrow> bool \<Rightarrow> (u8 list \<Rightarrow> u32) \<Rightarrow> 'a durable_eff \<Rightarrow> durable_transaction \<Rightarrow> (durable_world, 'a) eff" where
  "consuming c windows crc f dt s = (case f (s, dt) of (r, s') \<Rightarrow> (r, dt_drop c windows crc s'))"

definition commit_empty_body :: "status_codec \<Rightarrow> bool \<Rightarrow> (u8 list \<Rightarrow> u32) \<Rightarrow> unit durable_eff" where
  "commit_empty_body c windows crc =
     eff_bind (mark_status_committed c windows) (\<lambda>_.
     eff_bind (eff_get snd) (\<lambda>dt.
     eff_bind (on_fst (on_log (wal_commit_transaction crc (dt_id dt)))) (\<lambda>_. finish_commit)))"

definition dt_commit_empty ::
  "status_codec \<Rightarrow> bool \<Rightarrow> (u8 list \<Rightarrow> u32) \<Rightarrow> durable_transaction \<Rightarrow> (durable_world, unit) eff" where
  "dt_commit_empty c windows crc = consuming c windows crc (commit_empty_body c windows crc)"

definition dt_abort ::
  "status_codec \<Rightarrow> bool \<Rightarrow> (u8 list \<Rightarrow> u32) \<Rightarrow> durable_transaction \<Rightarrow> (durable_world, unit) eff" where
  "dt_abort c windows crc = consuming c windows crc (abort_active c windows crc)"

end
