(* ===== verification/DurableSafety.thy ===== *)
theory DurableSafety
  imports Durable StatusSafety WalSafety
begin

text \<open>
  The commit protocol of durable transactions: the status store says Committed before the log
  does. \<open>sys_step\<close> lets any number of threads take the critical sections of the log and of the
  store in any order, with failing calls and crashes in between; \<open>sys_inv\<close> is the invariant from
  which the reconciliation at the next start always succeeds and agrees with the log, when the
  status file is replaced in one move (Windows) and no two calls on the log file in a row fail.
\<close>

section \<open>Outcomes in the log\<close>

abbreviation (input) wal_committed :: "'a wal_tables_scheme \<Rightarrow> transaction_id \<Rightarrow> bool" where
  "wal_committed w t \<equiv> bm_get (wt_outcomes w) t = Some Committed"

lemma outcomes_clear_dirty [simp]: "wt_outcomes (clear_dirty t s) = wt_outcomes s"
  using core_clear_dirty [of t s] by (simp add: core_def)

lemma apply_committed:
  "wal_committed (apply_record_state r clear s) t \<Longrightarrow> wal_committed s t \<or> wr_txn r = Some t \<and> wr_payload r = WpCommit"
  by (auto simp: apply_record_state_def Let_def track_begin_def track_dirty_def track_terminal_def
      split: option.splits wal_payload.splits if_splits)

lemma append_committed:
  assumes "append_locked crc t prev p w = (r, w')" and "wal_committed w' u"
  shows "wal_committed w u \<or> t = Some u \<and> p = WpCommit"
  using assms by (cases rule: append_locked_cases) (auto dest!: apply_committed)

lemma tables_committed:
  "wal_committed (tables_of log) t \<Longrightarrow> \<exists>i < length log. wr_txn (log ! i) = Some t \<and> wr_payload (log ! i) = WpCommit"
proof (induction log rule: rev_induct)
  case Nil
  then show ?case by (simp add: tables_of_def empty_tables_def)
next
  case (snoc r log)
  from apply_committed [OF snoc.prems [unfolded tables_of_snoc]] show ?case
  proof
    assume "wal_committed (tables_of log) t"
    from snoc.IH [OF this] obtain i where "i < length log" "wr_txn (log ! i) = Some t" "wr_payload (log ! i) = WpCommit" by blast
    then show ?thesis by (intro exI [of _ i]) (simp add: nth_append)
  qed (intro exI [of _ "length log"], simp)
qed

lemma restart_committed:
  assumes "wal_reach no_double_fault crc w" and "wal_restart no_double_fault crc w w'" and "wal_committed w' t"
  shows "wal_committed w t"
proof -
  from wal_reach_ok [OF assms(1)] obtain log where log: "wal_ok crc log w" by blast
  from assms(2) obtain k where k: "k \<le> length log" "wal_ok crc (take k log) w'"
    by cases (use wal_open_recovers [OF log] in blast)
  have "wal_committed (tables_of (take k log)) t" using assms(3) wal_okD(5) [OF k(2)] by (simp add: core_def)
  from tables_committed [OF this] obtain i where "i < k" "i < length log" "wr_txn (take k log ! i) = Some t"
    "wr_payload (take k log ! i) = WpCommit" by auto
  then have i: "i < length log" "wr_txn (log ! i) = Some t" "wr_payload (log ! i) = WpCommit" by simp_all
  from terminal_decides [OF wal_okD(6) [OF log] i(1,2)] i(3) have "wal_committed (tables_of log) t" by simp
  then show ?thesis using wal_okD(5) [OF log] by (simp add: core_def)
qed

text \<open>Sections that append no Commit leave the set of committed transactions as it is.\<close>

abbreviation (input) commits_in :: "transaction_id set \<Rightarrow> wal_manager \<Rightarrow> bool" where
  "commits_in C w \<equiv> \<forall>t. wal_committed w t \<longrightarrow> t \<in> C"

lemma append_commits_in:
  "p \<noteq> WpCommit \<Longrightarrow> eff_keeps (commits_in C) (\<lambda>_. True) (append_locked crc t prev p)"
  by (rule eff_keepsI) (auto dest: append_committed)

lemma sync_commits_in: "eff_keeps (commits_in C) (\<lambda>_. True) (sync_locked l)"
  by (rule eff_keepsI) (auto elim!: sync_locked_cases)

lemma fault_commits_in: "eff_keeps (commits_in C) (\<lambda>_. True) (check_fault p)"
  by (rule eff_keepsI) (auto simp: check_fault_def split: prod.splits)

lemma clean_commits_in: "eff_keeps (commits_in C) (\<lambda>_. True) (mark_transaction_clean t)"
  by (rule eff_keepsI) (auto simp: mark_transaction_clean_def)

lemmas commits_in_intros = append_commits_in sync_commits_in fault_commits_in clean_commits_in

lemma checkpoint_commits_in: "eff_keeps (commits_in C) (\<lambda>_. True) (checkpoint_begin_locked crc cs)"
  unfolding checkpoint_begin_locked_def by (intro eff_keeps_seq eff_keeps_base commits_in_intros) simp_all

lemma compensation_commits_in:
  "eff_keeps (commits_in C) (\<lambda>_. True) (append_compensation crc t pid undo count undo_next)"
  unfolding append_compensation_def Let_def by (intro eff_keeps_seq eff_keeps_base commits_in_intros) simp_all

section \<open>Settled transactions\<close>

text \<open>The document agrees with a Commit of \<open>t\<close> in the log: it says Committed, or has forgotten \<open>t\<close>.\<close>

definition settled :: "status_document \<Rightarrow> transaction_id \<Rightarrow> bool" where
  "settled d t \<longleftrightarrow> bm_get (sd_statuses d) t = Some Committed \<or> t < sd_retained_floor d"

lemma settled_allocate: "allocate_transaction d = Inr (t, d') \<Longrightarrow> settled d u \<Longrightarrow> settled d' u"
  by (auto simp: allocate_transaction_def res_simps settled_def bm_contains_def)

lemma settled_finish: "finish_document t out d = Inr (x, d') \<Longrightarrow> settled d u \<Longrightarrow> settled d' u"
  by (auto dest!: finish_document_cases simp: settled_def)

lemma settled_compact: "compact_document h d = Inr (x, d') \<Longrightarrow> settled d u \<Longrightarrow> settled d' u"
  by (auto simp: compact_document_def Let_def settled_def less_max_iff_disj)

lemma settled_reconcile:
  assumes "reconcile_document wal d = Inr (n, d')" and "validate_document d = Inr ()"
    and "settled d u" and "bm_get wal u = Some Committed"
  shows "settled d' u"
proof -
  from reconcile_exact_lemma [OF assms(2), of wal] assms(1) have
    "bm_get (sd_statuses d') u = reconciled_status wal d u" "sd_retained_floor d' = sd_retained_floor d"
    by (auto split: if_splits)
  with assms(3,4) show ?thesis by (auto simp: settled_def reconciled_status_def)
qed

lemma allocate_valid:
  assumes "allocate_transaction d = Inr (t, d')" and "validate_document d = Inr ()"
  shows "validate_document d' = Inr ()"
proof -
  from assms(1) have t: "t = sd_next d" "t \<noteq> 0" and n: "checked_add_u64 (sd_next d) 1 = Some (sd_next d')"
    and d': "d' = d\<lparr>sd_next := sd_next d', sd_statuses := bm_insert t InProgress (sd_statuses d)\<rparr>"
    by (auto simp: allocate_transaction_def res_simps txn_new_Some_iff)
  have up: "sd_next d < sd_next d'" using n by (rule checked_add_one_less)
  have "bm_get (sd_statuses d') u = (if u = t then Some InProgress else bm_get (sd_statuses d) u)" for u
    by (subst d') simp
  moreover have "sd_schema_version d' = sd_schema_version d" "sd_managed_floor d' = sd_managed_floor d"
    "sd_retained_floor d' = sd_retained_floor d"
    by (subst d', simp)+
  moreover have "u < sd_next d'" if "bm_get (sd_statuses d) u = Some out" for u out
    using assms(2) [unfolded validate_document_Ok] that up by (meson less_trans)
  ultimately show ?thesis
    using assms(2) up t unfolding validate_document_Ok
    by (auto split: if_splits intro: order_trans order.strict_implies_order)
qed

section \<open>The system\<close>

text \<open>
  The log, the store with its file, whether the store has been opened since the last crash, and
  the transactions whose handle is in the phase \<open>StatusCommitted\<close>; only these append a Commit.
\<close>

record commit_system =
  sy_status :: status_store
  sy_wal :: wal_manager
  sy_ready :: bool
  sy_marked :: "transaction_id set"

inductive sys_step :: "(io list \<Rightarrow> bool) \<Rightarrow> bool \<Rightarrow> status_codec \<Rightarrow> (u8 list \<Rightarrow> u32) \<Rightarrow> commit_system \<Rightarrow> commit_system \<Rightarrow> bool" for faults_ok windows c crc where
  sys_append: "t \<noteq> Some 0 \<Longrightarrow> payload_wf p \<Longrightarrow> p \<noteq> WpCommit \<Longrightarrow>
    append_locked crc t prev p (sy_wal s) = (r, w) \<Longrightarrow> sys_step faults_ok windows c crc s (s\<lparr>sy_wal := w\<rparr>)"
| sys_commit: "t \<noteq> 0 \<Longrightarrow> t \<in> sy_marked s \<Longrightarrow>
    append_locked crc (Some t) prev WpCommit (sy_wal s) = (r, w) \<Longrightarrow> sys_step faults_ok windows c crc s (s\<lparr>sy_wal := w\<rparr>)"
| sys_sync: "sync_locked l (sy_wal s) = (r, w) \<Longrightarrow> sys_step faults_ok windows c crc s (s\<lparr>sy_wal := w\<rparr>)"
| sys_fault: "check_fault fp (sy_wal s) = (r, w) \<Longrightarrow> sys_step faults_ok windows c crc s (s\<lparr>sy_wal := w\<rparr>)"
| sys_clean: "mark_transaction_clean t (sy_wal s) = (r, w) \<Longrightarrow> sys_step faults_ok windows c crc s (s\<lparr>sy_wal := w\<rparr>)"
| sys_checkpoint: "checkpoint_wf cs \<Longrightarrow>
    checkpoint_begin_locked crc cs (sy_wal s) = (r, w) \<Longrightarrow> sys_step faults_ok windows c crc s (s\<lparr>sy_wal := w\<rparr>)"
| sys_compensation: "t \<noteq> 0 \<Longrightarrow> page_sized undo \<Longrightarrow> undo_next \<noteq> Some 0 \<Longrightarrow>
    append_compensation crc t pid undo count undo_next (sy_wal s) = (r, w) \<Longrightarrow> sys_step faults_ok windows c crc s (s\<lparr>sy_wal := w\<rparr>)"
| sys_mark: "sy_ready s \<Longrightarrow> status_commit c windows t (sy_status s) = (r, st) \<Longrightarrow>
    sys_step faults_ok windows c crc s (s\<lparr>sy_status := st, sy_marked := (if r = Inr () then insert t (sy_marked s) else sy_marked s)\<rparr>)"
| sys_begin: "sy_ready s \<Longrightarrow> status_begin c windows (sy_status s) = (r, st) \<Longrightarrow> sys_step faults_ok windows c crc s (s\<lparr>sy_status := st\<rparr>)"
| sys_publish: "sy_ready s \<Longrightarrow> allocate_transaction (ss_document (sy_status s)) = Inr (t, d) \<Longrightarrow>
    publish_begin c windows d (sy_status s) = (r, st) \<Longrightarrow> sys_step faults_ok windows c crc s (s\<lparr>sy_status := st\<rparr>)"
| sys_abort: "sy_ready s \<Longrightarrow> status_abort c windows t (sy_status s) = (r, st) \<Longrightarrow> sys_step faults_ok windows c crc s (s\<lparr>sy_status := st\<rparr>)"
| sys_compact: "sy_ready s \<Longrightarrow> status_compact_before c windows h (sy_status s) = (r, st) \<Longrightarrow>
    sys_step faults_ok windows c crc s (s\<lparr>sy_status := st\<rparr>)"
| sys_reconcile: "sy_ready s \<Longrightarrow> sy_marked s = {} \<Longrightarrow>
    reconcile_with_wal c windows (wt_outcomes (sy_wal s)) (sy_status s) = (r, st) \<Longrightarrow> sys_step faults_ok windows c crc s (s\<lparr>sy_status := st\<rparr>)"
| sys_crash: "wal_restart faults_ok crc (sy_wal s) w \<Longrightarrow>
    sys_step faults_ok windows c crc s (s\<lparr>sy_wal := w, sy_ready := False, sy_marked := {}\<rparr>)"
| sys_open: "\<not> sy_ready s \<Longrightarrow>
    status_open c windows next_floor \<lparr>ss_document = d, ss_file = ss_file (sy_status s), ss_io = os\<rparr> = (r, st) \<Longrightarrow>
    sys_step faults_ok windows c crc s (s\<lparr>sy_status := st, sy_ready := (r = Inr ())\<rparr>)"

text \<open>A new database: an empty log and no status file.\<close>

inductive sys_reach :: "(io list \<Rightarrow> bool) \<Rightarrow> bool \<Rightarrow> status_codec \<Rightarrow> (u8 list \<Rightarrow> u32) \<Rightarrow> commit_system \<Rightarrow> bool" for faults_ok windows c crc where
  sys_init: "faults_ok os \<Longrightarrow> wal_open crc (empty_wal [] faults os) = (Inr n, w) \<Longrightarrow>
    sys_reach faults_ok windows c crc \<lparr>sy_status = \<lparr>ss_document = d, ss_file = None, ss_io = []\<rparr>, sy_wal = w, sy_ready = False, sy_marked = {}\<rparr>"
| sys_next: "sys_reach faults_ok windows c crc s \<Longrightarrow> sys_step faults_ok windows c crc s s' \<Longrightarrow> sys_reach faults_ok windows c crc s'"

definition store_inv :: "status_codec \<Rightarrow> bool \<Rightarrow> transaction_id set \<Rightarrow> status_store \<Rightarrow> bool" where
  "store_inv c ready T st \<longleftrightarrow>
     (\<forall>t \<in> T. \<exists>d. stored_document c (ss_file st) d \<and> settled d t) \<and>
     (ready \<longrightarrow> validate_document (ss_document st) = Inr () \<and> (\<forall>t \<in> T. settled (ss_document st) t))"

definition sys_inv :: "status_codec \<Rightarrow> (u8 list \<Rightarrow> u32) \<Rightarrow> commit_system \<Rightarrow> bool" where
  "sys_inv c crc s \<longleftrightarrow> wal_reach no_double_fault crc (sy_wal s) \<and> (sy_marked s \<noteq> {} \<longrightarrow> sy_ready s) \<and>
     store_inv c (sy_ready s) ({t. wal_committed (sy_wal s) t} \<union> sy_marked s) (sy_status s)"

lemma update_store_inv:
  assumes "codec_ok c" and "store_inv c True T st" and "status_update c True f st = (r, st')"
    and "\<And>x d t. f (ss_document st) = Inr (x, d) \<Longrightarrow> t \<in> T \<Longrightarrow> settled d t"
  shows "store_inv c True T st'"
  using assms(3)
proof (cases rule: status_update_cases)
  case (ok x d bs)
  have "stored_document c (ss_file st') d" using ok document_bytes_stored [OF assms(1)] by simp
  with ok assms(4) show ?thesis unfolding store_inv_def by blast
next
  case (failed e)
  with assms(2) show ?thesis by (simp add: store_inv_def file_kept_def)
qed

lemma publish_store_inv:
  assumes "codec_ok c" and inv: "store_inv c True T st" and "allocate_transaction (ss_document st) = Inr (t, d)"
    and p: "publish_begin c True d st = (r, st')"
  shows "store_inv c True T st'"
proof -
  have valid: "validate_document d = Inr ()" and settled: "\<forall>u \<in> T. settled d u"
    using inv allocate_valid [OF assms(3)] settled_allocate [OF assms(3)] by (auto simp: store_inv_def)
  from p obtain st1 where w: "write_document_atomic c True d st = (r, st1)" "st' = st1\<lparr>ss_document := d\<rparr>"
    by (auto simp: publish_begin_def split: prod.splits)
  have "\<forall>u \<in> T. \<exists>d. stored_document c (ss_file st1) d \<and> settled d u"
    using write_document_cases [OF w(1)] inv settled document_bytes_stored [OF assms(1) _ valid]
    by (auto simp: store_inv_def file_kept_def)
  with valid settled w(2) show ?thesis by (simp add: store_inv_def)
qed

lemma read_document_cases:
  assumes "read_document c bs s = (r, s')"
  shows "(\<exists>os. s' = s\<lparr>ss_io := os\<rparr>) \<and> (\<forall>d. r = Inr d \<longrightarrow> stored_document c (Some bs) d)"
  using assms unfolding read_document_def
  by (auto elim!: eff_bind_cases st_call_cases simp: stored_document_def)

lemma st_call_file:
  assumes "eff_bind (st_call id) (\<lambda>_. eff_bind (eff_get ss_file) k) s = (r, s')"
  shows "(\<exists>e. r = Inl e) \<and> ss_file s' = ss_file s \<or> (\<exists>os. k (ss_file s) (s\<lparr>ss_io := os\<rparr>) = (r, s'))"
  using assms by (auto elim!: eff_bind_cases st_call_cases)

lemma status_open_cases:
  assumes "status_open c windows next_floor s = (r, s')"
  obtains (ok) d bs where "case ss_file s of Some _ \<Rightarrow> stored_document c (ss_file s) d | None \<Rightarrow> d = fresh_document (max next_floor (FROZEN_TRANSACTION_ID + 1))"
    and "validate_document d = Inr ()" and "r = Inr ()"
    and "ss_document s' = d\<lparr>sd_next := max (sd_next d) (max next_floor (FROZEN_TRANSACTION_ID + 1)),
      sd_statuses := bm_insert FROZEN_TRANSACTION_ID Committed (sd_statuses d)\<rparr>"
    and "document_bytes c (ss_document s') = Inr bs" and "ss_file s' = Some bs"
  | (failed) e where "r = Inl e" and "ss_file s' = ss_file s \<or> \<not> windows \<and> ss_file s' = None"
proof -
  let ?up = "\<lambda>d. d\<lparr>sd_next := max (sd_next d) (max next_floor (FROZEN_TRANSACTION_ID + 1)), sd_statuses := bm_insert FROZEN_TRANSACTION_ID Committed (sd_statuses d)\<rparr>"
  let ?load = "\<lambda>file. case file of Some bs \<Rightarrow> read_document c bs | None \<Rightarrow> eff_return (fresh_document (max next_floor (FROZEN_TRANSACTION_ID + 1)))"
  let ?put = "\<lambda>d. eff_bind (write_document_atomic c windows (?up d)) (\<lambda>_. eff_put (\<lambda>s. s\<lparr>ss_document := ?up d\<rparr>))"
  from assms have o: "eff_bind (st_call id) (\<lambda>_. eff_bind (eff_get ss_file) (\<lambda>file. eff_bind (?load file) (\<lambda>d.
      eff_bind (eff_res (validate_document d)) (\<lambda>_. ?put d)))) s = (r, s')"
    unfolding status_open_def Let_def .
  show ?thesis
  proof (cases "\<exists>e. r = Inl e \<and> (ss_file s' = ss_file s \<or> \<not> windows \<and> ss_file s' = None)")
    case True
    then show ?thesis using failed by blast
  next
    case no: False
    from st_call_file [OF o] no obtain os where
      o1: "eff_bind (?load (ss_file s)) (\<lambda>d. eff_bind (eff_res (validate_document d)) (\<lambda>_. ?put d)) (s\<lparr>ss_io := os\<rparr>) = (r, s')"
      by blast
    let ?s1 = "s\<lparr>ss_io := os\<rparr>"
    have s1: "ss_file ?s1 = ss_file s" by simp
    from o1 show ?thesis
    proof (cases rule: eff_bind_cases)
      case (1 e)
      then have "ss_file s' = ss_file s" using s1 by (cases "ss_file s") (auto dest!: read_document_cases)
      with 1(2) no show ?thesis by blast
    next
      case (2 d s2)
      have d: "case ss_file s of Some _ \<Rightarrow> stored_document c (ss_file s) d | None \<Rightarrow> d = fresh_document (max next_floor (FROZEN_TRANSACTION_ID + 1))"
        and s2: "ss_file s2 = ss_file s"
        using 2(1) s1 by (cases "ss_file s"; auto dest!: read_document_cases)+
      have valid: "validate_document d = Inr ()" and w: "?put d s2 = (r, s')"
        using 2(2) no s2 by (cases "validate_document d"; auto simp: eff_bind_def [of "eff_res x" for x])+
      from w show ?thesis
      proof (cases rule: eff_bind_cases)
        case (1 e)
        with write_document_cases [OF 1(1)] no s2 show ?thesis by (auto simp: file_kept_def)
      next
        case (2 u s3)
        with write_document_cases [OF 2(1)] ok [OF d valid] show ?thesis by auto
      qed
    qed
  qed
qed

lemma open_store_inv:
  assumes "codec_ok c" and inv: "store_inv c False T \<lparr>ss_document = d0, ss_file = file, ss_io = os0\<rparr>"
    and o: "status_open c True next_floor \<lparr>ss_document = d, ss_file = file, ss_io = os\<rparr> = (r, st')"
  shows "store_inv c (r = Inr ()) T st'"
  using o
proof (cases rule: status_open_cases)
  case (ok d bs)
  have valid: "validate_document (ss_document st') = Inr ()"
    using ok(2,4) unfolding validate_document_Ok by (auto simp: less_max_iff_disj le_max_iff_disj)
  have "settled (ss_document st') t" if "t \<in> T" for t
  proof -
    have "\<exists>d1. stored_document c file d1 \<and> settled d1 t" using inv that by (simp add: store_inv_def)
    then obtain d1 where d1: "stored_document c file d1" "settled d1 t" by blast
    then have "d = d1" using ok(1) stored_unique by (auto simp: stored_document_def split: option.splits)
    with d1(2) ok(4) show ?thesis by (auto simp: settled_def)
  qed
  moreover have "stored_document c (ss_file st') (ss_document st')"
    using document_bytes_stored [OF assms(1) ok(5) valid] ok(6) by simp
  ultimately show ?thesis using valid ok(3) by (auto simp: store_inv_def)
next
  case (failed e)
  with inv show ?thesis by (auto simp: store_inv_def)
qed

lemma store_inv_mono: "store_inv c ready T st \<Longrightarrow> T' \<subseteq> T \<Longrightarrow> store_inv c ready T' st"
  by (auto simp: store_inv_def)

lemma store_inv_down: "store_inv c ready T st \<Longrightarrow> store_inv c False T st"
  by (auto simp: store_inv_def)

lemma sys_inv_wal:
  assumes inv: "sys_inv c crc s" and step: "wal_step crc (sy_wal s) w"
    and keeps: "\<And>t. wal_committed w t \<Longrightarrow> wal_committed (sy_wal s) t \<or> t \<in> sy_marked s"
  shows "sys_inv c crc (s\<lparr>sy_wal := w\<rparr>)"
proof -
  have "wal_reach no_double_fault crc w" using inv step reach_next by (auto simp: sys_inv_def wal_next_def)
  moreover have "store_inv c (sy_ready s) ({t. wal_committed w t} \<union> sy_marked s) (sy_status s)"
    by (rule store_inv_mono [where T = "{t. wal_committed (sy_wal s) t} \<union> sy_marked s"])
      (use inv keeps in \<open>auto simp: sys_inv_def\<close>)
  ultimately show ?thesis using inv by (simp add: sys_inv_def)
qed

lemma sys_inv_quiet:
  assumes inv: "sys_inv c crc s" and step: "wal_step crc (sy_wal s) w"
    and f: "f (sy_wal s) = (r, w)" "\<And>C. eff_keeps (commits_in C) (\<lambda>_. True) f"
  shows "sys_inv c crc (s\<lparr>sy_wal := w\<rparr>)"
proof (rule sys_inv_wal [OF inv step])
  fix t
  assume "wal_committed w t"
  moreover have "commits_in {t. wal_committed (sy_wal s) t} w" by (rule eff_keepsD [OF f(2) _ f(1)]) simp
  ultimately show "wal_committed (sy_wal s) t \<or> t \<in> sy_marked s" by simp
qed

lemma sys_inv_status:
  assumes inv: "sys_inv c crc s" and "sy_ready s" and T: "T = {t. wal_committed (sy_wal s) t} \<union> sy_marked s"
    and st: "store_inv c True T (sy_status s) \<Longrightarrow> store_inv c True T st"
  shows "sys_inv c crc (s\<lparr>sy_status := st\<rparr>)"
  using assms by (auto simp: sys_inv_def)

lemma sys_inv_step:
  assumes codec: "codec_ok c" and "sys_step no_double_fault True c crc s s'" and inv: "sys_inv c crc s"
  shows "sys_inv c crc s'"
  using assms(2)
proof cases
  case (sys_append t p prev r w)
  show ?thesis unfolding sys_append(1)
    by (rule sys_inv_quiet [OF inv step_append [OF sys_append(2,3,5)] sys_append(5) append_commits_in [OF sys_append(4)]])
next
  case (sys_commit t prev r w)
  show ?thesis unfolding sys_commit(1)
    by (rule sys_inv_wal [OF inv step_append [OF _ _ sys_commit(4)]]) (use sys_commit append_committed [OF sys_commit(4)] in auto)
next
  case (sys_sync l r w)
  show ?thesis unfolding sys_sync(1) by (rule sys_inv_quiet [OF inv step_sync [OF sys_sync(2)] sys_sync(2) sync_commits_in])
next
  case (sys_fault fp r w)
  show ?thesis unfolding sys_fault(1) by (rule sys_inv_quiet [OF inv step_fault [OF sys_fault(2)] sys_fault(2) fault_commits_in])
next
  case (sys_clean t r w)
  show ?thesis unfolding sys_clean(1) by (rule sys_inv_quiet [OF inv step_clean [OF sys_clean(2)] sys_clean(2) clean_commits_in])
next
  case (sys_checkpoint cs r w)
  show ?thesis unfolding sys_checkpoint(1)
    by (rule sys_inv_quiet [OF inv step_checkpoint [OF sys_checkpoint(2,3)] sys_checkpoint(3) checkpoint_commits_in])
next
  case (sys_compensation t undo undo_next pid count r w)
  show ?thesis unfolding sys_compensation(1)
    by (rule sys_inv_quiet [OF inv step_compensation [OF sys_compensation(2-5)] sys_compensation(5) compensation_commits_in])
next
  case (sys_mark t r st)
  let ?T = "{t. wal_committed (sy_wal s) t} \<union> sy_marked s"
  have u: "status_update c True (finish_document t Committed) (sy_status s) = (r, st)"
    using sys_mark(3) by (simp add: status_commit_def status_finish_def)
  have old: "store_inv c True ?T st"
    by (rule update_store_inv [OF codec _ u]) (use inv sys_mark(2) settled_finish in \<open>auto simp: sys_inv_def store_inv_def\<close>)
  show ?thesis
  proof (cases "r = Inr ()")
    case True
    from u True obtain d bs where d: "finish_document t Committed (ss_document (sy_status s)) = Inr ((), d)"
      "ss_document st = d" "document_bytes c d = Inr bs" "validate_document d = Inr ()" "ss_file st = Some bs"
      by (auto elim: status_update_cases)
    have "settled d t" using finish_document_cases [OF d(1)] by (auto simp: settled_def)
    moreover have "stored_document c (ss_file st) d" using document_bytes_stored [OF codec d(3,4)] d(5) by simp
    ultimately have "store_inv c True (insert t ?T) st" using old d(2) by (auto simp: store_inv_def)
    with inv sys_mark(1,2) True show ?thesis by (simp add: sys_inv_def)
  next
    case False
    with inv old sys_mark(1,2) show ?thesis by (simp add: sys_inv_def)
  qed
next
  case (sys_begin r st)
  show ?thesis unfolding sys_begin(1)
    by (rule sys_inv_status [OF inv sys_begin(2) refl], rule update_store_inv [OF codec _ sys_begin(3) [unfolded status_begin_def]])
      (use settled_allocate in \<open>auto simp: store_inv_def\<close>)
next
  case (sys_publish t d r st)
  show ?thesis unfolding sys_publish(1)
    by (rule sys_inv_status [OF inv sys_publish(2) refl]) (rule publish_store_inv [OF codec _ sys_publish(3,4)])
next
  case (sys_abort t r st)
  then have u: "status_update c True (finish_document t Aborted) (sy_status s) = (r, st)"
    by (simp add: status_abort_def status_finish_def)
  show ?thesis unfolding sys_abort(1)
    by (rule sys_inv_status [OF inv sys_abort(2) refl], rule update_store_inv [OF codec _ u])
      (use settled_finish in \<open>auto simp: store_inv_def\<close>)
next
  case (sys_compact h r st)
  show ?thesis unfolding sys_compact(1)
    by (rule sys_inv_status [OF inv sys_compact(2) refl], rule update_store_inv [OF codec _ sys_compact(3) [unfolded status_compact_before_def]])
      (use settled_compact in \<open>auto simp: store_inv_def\<close>)
next
  case (sys_reconcile r st)
  show ?thesis unfolding sys_reconcile(1)
    by (rule sys_inv_status [OF inv sys_reconcile(2) refl], rule update_store_inv [OF codec _ sys_reconcile(4) [unfolded reconcile_with_wal_def]])
      (use settled_reconcile sys_reconcile(3) in \<open>auto simp: store_inv_def\<close>)
next
  case (sys_crash w)
  have "wal_reach no_double_fault crc w" using inv sys_crash(2) reach_next by (auto simp: sys_inv_def wal_next_def)
  have "{t. wal_committed w t} \<subseteq> {t. wal_committed (sy_wal s) t} \<union> sy_marked s"
    using restart_committed [OF _ sys_crash(2)] inv by (auto simp: sys_inv_def)
  moreover have "store_inv c False ({t. wal_committed (sy_wal s) t} \<union> sy_marked s) (sy_status s)"
    using inv by (auto simp: sys_inv_def intro: store_inv_down)
  ultimately have "store_inv c False {t. wal_committed w t} (sy_status s)" by (rule store_inv_mono [rotated])
  with \<open>wal_reach no_double_fault crc w\<close> sys_crash(1) show ?thesis by (simp add: sys_inv_def)
next
  case (sys_open next_floor d os r st)
  let ?T = "{t. wal_committed (sy_wal s) t}"
  have "store_inv c False ?T \<lparr>ss_document = ss_document (sy_status s), ss_file = ss_file (sy_status s), ss_io = ss_io (sy_status s)\<rparr>"
    using inv sys_open(2) by (auto simp: sys_inv_def store_inv_def)
  from open_store_inv [OF codec this sys_open(3)] show ?thesis
    using inv sys_open(1,2) by (auto simp: sys_inv_def)
qed

lemma sys_reach_inv:
  assumes "sys_reach no_double_fault True c crc s" and "codec_ok c"
  shows "sys_inv c crc s"
  using assms(1)
proof induction
  case (sys_init os faults n w d)
  have "w = empty_wal [] faults os" using sys_init(2) by (simp add: wal_open_empty)
  then have "wt_outcomes w = bm_empty" by (simp add: empty_wal_def)
  with reach_open [where faults_ok = no_double_fault, OF sys_init] show ?case by (simp add: sys_inv_def store_inv_def)
next
  case (sys_next s s')
  then show ?case using sys_inv_step [OF assms(2)] by blast
qed

lemma write_document_error:
  assumes "write_document_atomic c windows d s = (Inl e, s')"
  shows "e \<noteq> E_XX001"
  using assms unfolding write_document_atomic_def atomic_replace_def
  by (auto elim!: eff_bind_cases st_call_cases simp: document_bytes_def document_sha256_def res_simps split: if_splits)

lemma sys_no_conflict:
  assumes "sys_inv c crc s" and "sy_ready s"
  shows "\<not> commit_conflict (wt_outcomes (sy_wal s)) (ss_document (sy_status s)) t"
  using assms by (auto simp: sys_inv_def store_inv_def commit_conflict_def settled_def)

section \<open>Properties\<close>

text \<open>
  C5. The commit protocol across crashes, on the Windows build (the status file is replaced by one
  atomic move, \<open>windows = True\<close>) and when no two calls to the operating system on the log file in a
  row fail (\<open>no_double_fault\<close>; theorem \<open>double_fault_breaks_log\<close> and lemma \<open>replace_loses_outcomes\<close> show
  what goes wrong otherwise). Under these two conditions threads run the operations of durable
  transactions in any interleaving of their critical sections, single calls on the log and any calls
  on the status file fail, and the machine crashes any number of times, what is in the files then
  being on the disk. Whenever the store has been opened again, its reconciliation with the log
  never meets a contradiction (a Commit in the log whose transaction the store does not have as
  committed), and when it succeeds, every transaction above the floors of the store is committed
  there exactly when the log has its Commit, and none is left in progress.
\<close>

theorem commit_protocol_reconciles:
  assumes "codec_ok c" and "sys_reach no_double_fault True c crc s" and "sy_ready s"
  shows "fst (reconcile_with_wal c True (wt_outcomes (sy_wal s)) (sy_status s)) \<noteq> Inl E_XX001 \<and>
    (\<forall>n st'. reconcile_with_wal c True (wt_outcomes (sy_wal s)) (sy_status s) = (Inr n, st') \<longrightarrow>
       (\<forall>t. t \<noteq> FROZEN_TRANSACTION_ID \<longrightarrow> sd_retained_floor (ss_document st') \<le> t \<longrightarrow>
          (status_outcome st' t = Inr Committed \<longleftrightarrow> bm_get (wt_outcomes (sy_wal s)) t = Some Committed) \<and>
          status_outcome st' t \<noteq> Inr InProgress))"
proof -
  let ?wal = "wt_outcomes (sy_wal s)" and ?d = "ss_document (sy_status s)"
  note inv = sys_reach_inv [OF assms(2,1)]
  have valid: "validate_document ?d = Inr ()" using inv assms(3) by (simp add: sys_inv_def store_inv_def)
  note exact = reconcile_exact_lemma [OF valid, of ?wal]
  have none: "\<not> (\<exists>t. commit_conflict ?wal ?d t)" using sys_no_conflict [OF inv assms(3)] by blast
  obtain r st where r: "reconcile_with_wal c True ?wal (sy_status s) = (r, st)"
    by (cases "reconcile_with_wal c True ?wal (sy_status s)")
  have "r \<noteq> Inl E_XX001"
    using r exact none unfolding reconcile_with_wal_def status_update_def
    by (auto elim!: eff_bind_cases dest: write_document_error split: if_splits)
  moreover have "(status_outcome st t = Inr Committed \<longleftrightarrow> bm_get ?wal t = Some Committed) \<and> status_outcome st t \<noteq> Inr InProgress"
    if "r = Inr n" "t \<noteq> FROZEN_TRANSACTION_ID" "sd_retained_floor (ss_document st) \<le> t" for n t
  proof -
    from r that(1) have "reconcile_document ?wal ?d = Inr (n, ss_document st)"
      unfolding reconcile_with_wal_def by (auto elim!: status_update_cases)
    with exact none have get: "bm_get (sd_statuses (ss_document st)) t = reconciled_status ?wal ?d t"
      and floor: "sd_retained_floor (ss_document st) = sd_retained_floor ?d"
      by (auto split: if_splits)
    have "bm_get ?wal t = Some Committed \<Longrightarrow> settled ?d t"
      using inv assms(3) by (auto simp: sys_inv_def store_inv_def)
    then show ?thesis
      using that(2,3) floor by (auto simp: status_outcome_def get reconciled_status_def settled_def res_simps split: option.splits)
  qed
  ultimately show ?thesis using r by simp
qed

end
