(* ===== verification/DurableRuns.thy ===== *)
theory DurableRuns
  imports DurableSafety
begin

text \<open>
  The operations of durable transactions as runs of \<open>sys_step\<close>: every method of
  \<open>DurableTransaction\<close> takes only steps of the system of theory DurableSafety, whatever fails in
  between, and an acknowledged commit survives every later run of the system, under the conditions
  of that theory.
\<close>

section \<open>Operations as runs\<close>

definition eff_runs :: "('s \<Rightarrow> 's \<Rightarrow> bool) \<Rightarrow> ('s, 'a) eff \<Rightarrow> bool" where
  "eff_runs R f \<longleftrightarrow> (\<forall>s. R s (snd (f s)))"

lemma eff_runsD: "eff_runs R f \<Longrightarrow> f s = (r, s') \<Longrightarrow> R s s'"
  unfolding eff_runs_def by (metis snd_conv)

lemma eff_runsI: "(\<And>s r s'. f s = (r, s') \<Longrightarrow> R s s') \<Longrightarrow> eff_runs R f"
  unfolding eff_runs_def by (metis prod.collapse)

lemma eff_runs_bind:
  assumes "transp R" and f: "eff_runs R f" and g: "\<And>x. eff_runs R (g x)"
  shows "eff_runs R (eff_bind f g)"
proof (rule eff_runsI)
  fix s r s'
  assume "eff_bind f g s = (r, s')"
  then show "R s s'"
    by (cases rule: eff_bind_cases) (use eff_runsD [OF f] eff_runsD [OF g] transpD [OF assms(1)] in blast)+
qed

lemma runs_bind_at:
  assumes "eff_bind f g s = (r, s')" and "transp R" and "\<And>q z. f s = (q, z) \<Longrightarrow> R s z" and "\<And>x. eff_runs R (g x)"
  shows "R s s'"
  using assms(1) by (cases rule: eff_bind_cases) (use assms(3) eff_runsD [OF assms(4)] transpD [OF assms(2)] in blast)+

lemma eff_runs_base:
  assumes "reflp R"
  shows "eff_runs R (eff_return x)" "eff_runs R (eff_fail e)" "eff_runs R (eff_res r)" "eff_runs R (eff_get g)"
  using assms by (simp_all add: eff_runs_def reflpD)

text \<open>A change of the log alone, with \<open>M\<close> the transactions that may commit.\<close>

definition wal_run :: "status_codec \<Rightarrow> (u8 list \<Rightarrow> u32) \<Rightarrow> transaction_id set \<Rightarrow> wal_manager \<Rightarrow> wal_manager \<Rightarrow> bool" where
  "wal_run c crc M w w' \<longleftrightarrow> (\<forall>st ready. (sys_step no_double_fault True c crc)\<^sup>*\<^sup>*
     \<lparr>sy_status = st, sy_wal = w, sy_ready = ready, sy_marked = M\<rparr>
     \<lparr>sy_status = st, sy_wal = w', sy_ready = ready, sy_marked = M\<rparr>)"

lemma wal_run_refl: "reflp (wal_run c crc M)"
  by (simp add: reflp_def wal_run_def)

lemma wal_run_trans: "transp (wal_run c crc M)"
  unfolding transp_def wal_run_def by (meson rtranclp_trans)

lemma wal_run_step:
  assumes "\<And>st ready. sys_step no_double_fault True c crc \<lparr>sy_status = st, sy_wal = w, sy_ready = ready, sy_marked = M\<rparr>
      (\<lparr>sy_status = st, sy_wal = w, sy_ready = ready, sy_marked = M\<rparr>\<lparr>sy_wal := w'\<rparr>)"
  shows "wal_run c crc M w w'"
  using assms unfolding wal_run_def by auto

lemma run_append: "t \<noteq> Some 0 \<Longrightarrow> payload_wf p \<Longrightarrow> p \<noteq> WpCommit \<Longrightarrow> eff_runs (wal_run c crc M) (append_locked crc t prev p)"
  by (rule eff_runsI, rule wal_run_step, rule sys_append) simp_all

lemma run_commit: "t \<noteq> 0 \<Longrightarrow> t \<in> M \<Longrightarrow> eff_runs (wal_run c crc M) (append_locked crc (Some t) prev WpCommit)"
  by (rule eff_runsI, rule wal_run_step, rule sys_commit) simp_all

lemma run_sync: "eff_runs (wal_run c crc M) (sync_locked l)"
  by (rule eff_runsI, rule wal_run_step, rule sys_sync) simp_all

lemma run_fault: "eff_runs (wal_run c crc M) (check_fault p)"
  by (rule eff_runsI, rule wal_run_step, rule sys_fault) simp_all

lemma run_clean: "eff_runs (wal_run c crc M) (mark_transaction_clean t)"
  by (rule eff_runsI, rule wal_run_step, rule sys_clean) simp_all

lemmas wal_bind = eff_runs_bind [OF wal_run_trans] and wal_base = eff_runs_base [OF wal_run_refl]

lemma run_flush: "eff_runs (wal_run c crc M) (flush_lsn l)"
  unfolding flush_lsn_def by (intro wal_bind run_fault run_sync)

lemma run_begin: "t \<noteq> 0 \<Longrightarrow> eff_runs (wal_run c crc M) (wal_begin_transaction crc t)"
  unfolding wal_begin_transaction_def wal_append_def by (intro wal_bind run_append run_flush wal_base) simp_all

lemma run_abort: "t \<noteq> 0 \<Longrightarrow> eff_runs (wal_run c crc M) (wal_abort crc t)"
  unfolding wal_abort_def wal_append_def wal_last_lsn_def
  by (intro wal_bind run_append run_flush run_clean wal_base) (auto intro!: wal_base run_append split: option.split)

lemma run_commit_transaction: "t \<noteq> 0 \<Longrightarrow> t \<in> M \<Longrightarrow> eff_runs (wal_run c crc M) (wal_commit_transaction crc t)"
proof -
  assume t: "t \<noteq> 0" "t \<in> M"
  have "eff_runs (wal_run c crc M) (commit_transaction_at crc t l)" for l
    unfolding commit_transaction_at_def wal_append_def wal_last_lsn_def
    by (auto intro!: wal_bind run_commit t run_flush run_fault run_clean wal_base)
  then show ?thesis
    unfolding wal_commit_transaction_def transaction_chain_def
    by (auto intro!: wal_bind wal_base split: option.split prod.split)
qed

section \<open>The methods of durable transactions\<close>

text \<open>
  The system that a world belongs to, and the runs of an operation on the world and one handle:
  other handles may be marked already (\<open>M\<close>), and the operation may mark its own.
\<close>

definition sys_of :: "durable_world \<Rightarrow> transaction_id set \<Rightarrow> commit_system" where
  "sys_of dw M = \<lparr>sy_status = dw_status dw, sy_wal = dw_wal dw, sy_ready = True, sy_marked = M\<rparr>"

definition handle_ok :: "transaction_id set \<Rightarrow> durable_transaction \<Rightarrow> bool" where
  "handle_ok M dt \<longleftrightarrow> dt_id dt \<noteq> 0 \<and> (dt_phase dt = PhStatusCommitted \<longrightarrow> dt_id dt \<in> M)"

definition durable_run ::
  "status_codec \<Rightarrow> (u8 list \<Rightarrow> u32) \<Rightarrow> durable_world \<times> durable_transaction \<Rightarrow> durable_world \<times> durable_transaction \<Rightarrow> bool" where
  "durable_run c crc x y \<longleftrightarrow> dt_id (snd y) = dt_id (snd x) \<and>
     (\<forall>M. handle_ok M (snd x) \<longrightarrow>
       (\<exists>M'. M \<subseteq> M' \<and> handle_ok M' (snd y) \<and> (sys_step no_double_fault True c crc)\<^sup>*\<^sup>* (sys_of (fst x) M) (sys_of (fst y) M')))"

lemma durable_run_refl: "reflp (durable_run c crc)"
  by (auto simp: reflp_def durable_run_def)

lemma durable_run_trans: "transp (durable_run c crc)"
  unfolding transp_def durable_run_def by (metis (no_types, opaque_lifting) order_trans rtranclp_trans)

lemmas durable_bind = eff_runs_bind [OF durable_run_trans] and durable_base = eff_runs_base [OF durable_run_refl]

text \<open>Operations that leave the log and the store alone.\<close>

lemma durable_run_same:
  assumes "dw_status (fst y) = dw_status (fst x)" and "dw_wal (fst y) = dw_wal (fst x)" and "dt_id (snd y) = dt_id (snd x)"
    and "dt_phase (snd y) = PhStatusCommitted \<Longrightarrow> dt_phase (snd x) = PhStatusCommitted"
  shows "durable_run c crc x y"
  using assms by (auto simp: durable_run_def handle_ok_def sys_of_def)

lemma run_manager: "eff_runs (durable_run c crc) (on_fst (on_manager f))"
  by (rule eff_runsI, rule durable_run_same) (auto simp: on_fst_def on_manager_def eff_on_def split: prod.splits)

lemma run_handle:
  "(\<And>dt. dt_id (g dt) = dt_id dt \<and> dt_phase (g dt) \<in> {dt_phase dt, PhFinished}) \<Longrightarrow>
     eff_runs (durable_run c crc) (on_snd (eff_put g))"
  by (rule eff_runsI, rule durable_run_same) (auto simp: on_snd_def split: prod.splits, metis durable_phase.distinct(5))

lemma run_on_log:
  assumes "\<And>M. handle_ok M dt \<Longrightarrow> eff_runs (wal_run c crc M) f" and "on_fst (on_log f) (dw, dt) = (r, y)"
  shows "durable_run c crc (dw, dt) y"
proof -
  obtain w' where f: "f (dw_wal dw) = (r, w')" and y: "y = (dw\<lparr>dw_wal := w'\<rparr>, dt)"
    using assms(2) by (cases "f (dw_wal dw)") (auto simp: on_fst_def on_log_def eff_on_def)
  have "(sys_step no_double_fault True c crc)\<^sup>*\<^sup>* (sys_of dw M) (sys_of (dw\<lparr>dw_wal := w'\<rparr>) M)" if "handle_ok M dt" for M
    using eff_runsD [OF assms(1) [OF that] f] by (simp add: wal_run_def sys_of_def)
  then show ?thesis by (auto simp: durable_run_def y)
qed

lemma run_on_status:
  assumes "\<And>w M st r st'. f st = (r, st') \<Longrightarrow>
      sys_step no_double_fault True c crc \<lparr>sy_status = st, sy_wal = w, sy_ready = True, sy_marked = M\<rparr>
        (\<lparr>sy_status = st, sy_wal = w, sy_ready = True, sy_marked = M\<rparr>\<lparr>sy_status := st'\<rparr>)"
  shows "eff_runs (durable_run c crc) (on_fst (on_status f))"
proof (rule eff_runsI)
  fix x :: "durable_world \<times> durable_transaction" and r y
  assume "on_fst (on_status f) x = (r, y)"
  moreover obtain dw dt where "x = (dw, dt)" by (cases x)
  ultimately obtain st' where f: "f (dw_status dw) = (r, st')" and x: "x = (dw, dt)" and y: "y = (dw\<lparr>dw_status := st'\<rparr>, dt)"
    by (cases "f (dw_status dw)") (auto simp: on_fst_def on_status_def eff_on_def)
  have "(sys_step no_double_fault True c crc)\<^sup>*\<^sup>* (sys_of dw M) (sys_of (dw\<lparr>dw_status := st'\<rparr>) M)" for M
    using assms [OF f, of "dw_wal dw" M] by (simp add: sys_of_def r_into_rtranclp)
  then show "durable_run c crc x y" by (auto simp: durable_run_def x y)
qed

lemma run_status_abort: "eff_runs (durable_run c crc) (on_fst (on_status (status_abort c True t)))"
  by (rule run_on_status, rule sys_abort) simp_all

lemma run_mark: "eff_runs (durable_run c crc) (mark_status_committed c True)"
proof (rule eff_runsI)
  fix x r y
  assume m: "mark_status_committed c True x = (r, y)"
  obtain dw dt where x: "x = (dw, dt)" by (cases x)
  show "durable_run c crc x y"
  proof (cases "dt_phase dt = PhActive")
    case True
    obtain r1 st where c: "status_commit c True (dt_id dt) (dw_status dw) = (r1, st)"
      by (cases "status_commit c True (dt_id dt) (dw_status dw)")
    let ?dw = "dw\<lparr>dw_status := st\<rparr>"
    have y: "y = (?dw, if r1 = Inr () then dt\<lparr>dt_phase := PhStatusCommitted\<rparr> else dt)"
      using m c True x
      by (cases r1) (auto simp: mark_status_committed_def eff_bind_def on_fst_def on_snd_def on_status_def eff_on_def)
    have "sys_step no_double_fault True c crc (sys_of dw M) (sys_of ?dw (if r1 = Inr () then insert (dt_id dt) M else M))" for M
      using sys_mark [where s = "sys_of dw M", of c True "dt_id dt" r1 st no_double_fault crc] c by (auto simp: sys_of_def)
    then show ?thesis
      unfolding durable_run_def x y handle_ok_def
      by (cases "r1 = Inr ()") (auto intro: r_into_rtranclp)
  next
    case False
    then have "y = x" using m x by (auto simp: mark_status_committed_def eff_bind_def)
    then show ?thesis using durable_run_refl by (simp add: reflpD)
  qed
qed

lemma run_finish_commit: "eff_runs (durable_run c crc) finish_commit"
  unfolding finish_commit_def
  by (auto intro!: durable_bind durable_base run_manager run_handle simp: eff_guard_def)

lemma run_abort_active: "eff_runs (durable_run c crc) (abort_active c True crc)"
proof (rule eff_runsI)
  fix x r y
  assume a: "abort_active c True crc x = (r, y)"
  obtain dw dt where x: "x = (dw, dt)" by (cases x)
  show "durable_run c crc x y"
  proof (cases "dt_phase dt = PhActive")
    case True
    let ?rest = "eff_bind (on_fst (on_status (status_abort c True (dt_id dt)))) (\<lambda>_.
       eff_bind (on_snd (eff_put (\<lambda>dt. dt\<lparr>dt_managed := None\<rparr>))) (\<lambda>_.
       eff_bind (case dt_managed dt of None \<Rightarrow> eff_return () | Some managed \<Rightarrow> on_fst (on_manager (mt_abort managed))) (\<lambda>_.
         on_snd (eff_put (\<lambda>dt. dt\<lparr>dt_phase := PhFinished\<rparr>)))))"
    have rest: "eff_runs (durable_run c crc) ?rest"
      by (auto intro!: durable_bind durable_base run_manager run_handle run_status_abort split: option.split)
    have log: "durable_run c crc (dw, dt) z" if "on_fst (on_log (wal_abort crc (dt_id dt))) (dw, dt) = (q, z)" for q z
      by (rule run_on_log [OF _ that]) (simp add: handle_ok_def run_abort)
    have "eff_bind (on_fst (on_log (wal_abort crc (dt_id dt)))) (\<lambda>_. ?rest) (dw, dt) = (r, y)"
      using a True x by (simp add: abort_active_def eff_bind_def)
    then show ?thesis unfolding x by (rule runs_bind_at [OF _ durable_run_trans log rest])
  next
    case False
    then have "y = x" using a x by (cases "dt_phase dt") (auto simp: abort_active_def eff_bind_def)
    then show ?thesis using durable_run_refl by (simp add: reflpD)
  qed
qed

lemma marked_phase:
  assumes "mark_status_committed c windows x = (Inr u, y)"
  shows "dt_phase (snd y) = PhStatusCommitted" "dt_id (snd y) = dt_id (snd x)"
  using assms
  by (auto simp: mark_status_committed_def eff_guard_def on_fst_def on_snd_def eff_bind_def split: if_splits prod.splits sum.splits)

lemma run_commit_empty_body: "eff_runs (durable_run c crc) (commit_empty_body c True crc)"
proof (rule eff_runsI)
  fix x r y
  assume "commit_empty_body c True crc x = (r, y)"
  then show "durable_run c crc x y"
    unfolding commit_empty_body_def
  proof (cases rule: eff_bind_cases)
    case (1 e)
    then show ?thesis using eff_runsD [OF run_mark] by blast
  next
    case (2 u z)
    obtain dw dt where z: "z = (dw, dt)" by (cases z)
    have "dt_phase dt = PhStatusCommitted" using marked_phase(1) [OF 2(1)] z by simp
    then have log: "durable_run c crc (dw, dt) z'" if "on_fst (on_log (wal_commit_transaction crc (dt_id dt))) (dw, dt) = (q, z')" for q z'
      by (intro run_on_log [OF _ that]) (simp add: handle_ok_def run_commit_transaction)
    have "eff_bind (on_fst (on_log (wal_commit_transaction crc (dt_id dt)))) (\<lambda>_. finish_commit) (dw, dt) = (r, y)"
      using 2(2) z by (simp add: eff_bind_def)
    then have "durable_run c crc z y"
      unfolding z by (rule runs_bind_at [OF _ durable_run_trans log run_finish_commit])
    with eff_runsD [OF run_mark 2(1)] show ?thesis using transpD [OF durable_run_trans] by blast
  qed
qed

text \<open>The system after a consuming method or the destructor, which have no handle left.\<close>

definition world_run :: "status_codec \<Rightarrow> (u8 list \<Rightarrow> u32) \<Rightarrow> transaction_id set \<Rightarrow> durable_world \<Rightarrow> durable_world \<Rightarrow> bool" where
  "world_run c crc M dw dw' \<longleftrightarrow> (\<exists>M'. M \<subseteq> M' \<and> (sys_step no_double_fault True c crc)\<^sup>*\<^sup>* (sys_of dw M) (sys_of dw' M'))"

lemma drop_managed_run:
  assumes "durable_run c crc x y" and "handle_ok M (snd x)"
  shows "world_run c crc M (fst x) (drop_managed y)"
proof -
  have "sys_of (drop_managed y) M' = sys_of (fst y) M'" for M'
    by (simp add: drop_managed_def sys_of_def split: option.split)
  with assms show ?thesis unfolding durable_run_def world_run_def by metis
qed

lemma consuming_run:
  assumes "eff_runs (durable_run c crc) f" and "handle_ok M dt"
  shows "world_run c crc M dw (snd (consuming c True crc f dt dw))"
proof -
  obtain r y where f: "f (dw, dt) = (r, y)" by (cases "f (dw, dt)")
  note run = eff_runsD [OF assms(1) f]
  obtain q z where a: "abort_active c True crc y = (q, z)" by (cases "abort_active c True crc y")
  have "durable_run c crc (dw, dt) z" using run eff_runsD [OF run_abort_active a] transpD [OF durable_run_trans] by blast
  from drop_managed_run [OF this, of M] drop_managed_run [OF run, of M] assms(2)
  show ?thesis by (simp add: consuming_def f dt_drop_def a)
qed

lemma dt_drop_run:
  assumes "handle_ok M dt"
  shows "world_run c crc M dw (dt_drop c True crc (dw, dt))"
proof -
  obtain q z where a: "abort_active c True crc (dw, dt) = (q, z)" by (cases "abort_active c True crc (dw, dt)")
  have "durable_run c crc (dw, dt) (dw, dt)" using durable_run_refl by (simp add: reflpD)
  with drop_managed_run [OF eff_runsD [OF run_abort_active a], of M] drop_managed_run [of c crc "(dw, dt)" "(dw, dt)" M] assms
  show ?thesis by (simp add: dt_drop_def a)
qed

lemma begin_durable_run:
  assumes "begin_durable c True crc (st, w) = (r, (st', w'))"
  shows "(sys_step no_double_fault True c crc)\<^sup>*\<^sup>* \<lparr>sy_status = st, sy_wal = w, sy_ready = True, sy_marked = M\<rparr>
    \<lparr>sy_status = st', sy_wal = w', sy_ready = True, sy_marked = M\<rparr>"
proof (cases "allocate_transaction (ss_document st)")
  case (Inl e)
  with assms show ?thesis by (simp add: begin_durable_def eff_bind_def)
next
  case (Inr td)
  obtain t d where td: "td = (t, d)" by (cases td)
  with Inr have alloc: "allocate_transaction (ss_document st) = Inr (t, d)" by simp
  then have "t \<noteq> 0" by (auto simp: allocate_transaction_def res_simps txn_new_Some_iff)
  obtain q w1 where w1: "wal_begin_transaction crc t w = (q, w1)" by (cases "wal_begin_transaction crc t w")
  have log: "(sys_step no_double_fault True c crc)\<^sup>*\<^sup>* \<lparr>sy_status = st, sy_wal = w, sy_ready = True, sy_marked = M\<rparr>
      \<lparr>sy_status = st, sy_wal = w1, sy_ready = True, sy_marked = M\<rparr>"
    using eff_runsD [OF run_begin [OF \<open>t \<noteq> 0\<close>] w1, of c M] by (simp add: wal_run_def)
  obtain p st1 where p: "publish_begin c True d st = (p, st1)" by (cases "publish_begin c True d st")
  from sys_publish [where s = "\<lparr>sy_status = st, sy_wal = w1, sy_ready = True, sy_marked = M\<rparr>", of t d c True p st1 no_double_fault crc] alloc p
  have "sys_step no_double_fault True c crc \<lparr>sy_status = st, sy_wal = w1, sy_ready = True, sy_marked = M\<rparr>
      \<lparr>sy_status = st1, sy_wal = w1, sy_ready = True, sy_marked = M\<rparr>" by simp
  with log show ?thesis
    using assms alloc w1 p
    by (cases q; cases p) (auto simp: begin_durable_def eff_bind_def on_fst_def on_snd_def intro: rtranclp.rtrancl_into_rtrancl)
qed

lemma dt_begin_run:
  assumes "dt_begin c True crc now chars dw = (r, dw')"
  shows "world_run c crc M dw dw'"
proof -
  obtain r1 st1 w1 where b: "begin_durable c True crc (dw_status dw, dw_wal dw) = (r1, (st1, w1))"
    by (metis prod.collapse)
  let ?dw1 = "dw\<lparr>dw_status := st1, dw_wal := w1\<rparr>"
  have 1: "(sys_step no_double_fault True c crc)\<^sup>*\<^sup>* (sys_of dw M) (sys_of ?dw1 M)" using begin_durable_run [OF b] by (simp add: sys_of_def)
  have ob: "on_status_log (begin_durable c True crc) dw = (r1, ?dw1)" using b by (simp add: on_status_log_def eff_on_def)
  show ?thesis
  proof (cases r1)
    case (Inl e)
    then show ?thesis using assms ob 1 by (auto simp: dt_begin_def eff_bind_def world_run_def)
  next
    case (Inr t)
    have "t \<noteq> 0"
      using b Inr by (auto simp: begin_durable_def allocate_transaction_def res_simps txn_new_Some_iff elim!: eff_bind_cases)
    obtain r2 m where m: "tm_register now t chars (dw_manager dw) = (r2, m)" by (cases "tm_register now t chars (dw_manager dw)")
    let ?dw2 = "?dw1\<lparr>dw_manager := m\<rparr>"
    have om: "on_manager (tm_register now t chars) ?dw1 = (r2, ?dw2)" using m by (simp add: on_manager_def eff_on_def)
    have same: "sys_of ?dw2 M = sys_of ?dw1 M" by (simp add: sys_of_def)
    show ?thesis
    proof (cases r2)
      case (Inr managed)
      then have "dw' = ?dw2" using assms ob \<open>r1 = Inr t\<close> om by (simp add: dt_begin_def eff_bind_def)
      then show ?thesis using 1 same by (auto simp: world_run_def)
    next
      case (Inl e)
      obtain q w2 where w2: "wal_abort crc t w1 = (q, w2)" by (cases "wal_abort crc t w1")
      obtain p st2 where st2: "status_abort c True t st1 = (p, st2)" by (cases "status_abort c True t st1")
      have dw': "dw' = ?dw2\<lparr>dw_wal := w2, dw_status := st2\<rparr>"
        using assms ob \<open>r1 = Inr t\<close> om Inl w2 st2
        by (simp add: dt_begin_def eff_bind_def eff_ignore_def on_log_def on_status_def eff_on_def)
      have "(sys_step no_double_fault True c crc)\<^sup>*\<^sup>* (sys_of ?dw2 M) (sys_of (?dw2\<lparr>dw_wal := w2\<rparr>) M)"
        using eff_runsD [OF run_abort [OF \<open>t \<noteq> 0\<close>] w2, of c M] by (simp add: wal_run_def sys_of_def)
      moreover have "sys_step no_double_fault True c crc (sys_of (?dw2\<lparr>dw_wal := w2\<rparr>) M) (sys_of dw' M)"
        using sys_abort [where s = "sys_of (?dw2\<lparr>dw_wal := w2\<rparr>) M", of c True t p st2 no_double_fault crc] st2 by (simp add: dw' sys_of_def)
      ultimately show ?thesis
        using 1 same unfolding world_run_def
        by (metis (no_types, lifting) order_refl rtranclp.rtrancl_into_rtrancl rtranclp_trans)
    qed
  qed
qed

section \<open>Acknowledged commits\<close>

lemma sys_step_wal: "sys_step no_double_fault True c crc s s' \<Longrightarrow> sy_wal s' = sy_wal s \<or> wal_next no_double_fault crc (sy_wal s) (sy_wal s')"
  by (cases rule: sys_step.cases, assumption)
    (auto simp: wal_next_def intro: step_append step_append [where p = WpCommit, simplified] step_sync step_fault
      step_clean step_checkpoint step_compensation)

lemma sys_steps_wal: "(sys_step no_double_fault True c crc)\<^sup>*\<^sup>* s s' \<Longrightarrow> (wal_next no_double_fault crc)\<^sup>*\<^sup>* (sy_wal s) (sy_wal s')"
proof (induction rule: rtranclp_induct)
  case (step y z)
  from sys_step_wal [OF step.hyps(2)] show ?case
    using step.IH by (auto intro: rtranclp.rtrancl_into_rtrancl)
qed simp

lemma sys_steps_reach: "(sys_step no_double_fault True c crc)\<^sup>*\<^sup>* s s' \<Longrightarrow> sys_reach no_double_fault True c crc s \<Longrightarrow> sys_reach no_double_fault True c crc s'"
  by (induction rule: rtranclp_induct) (auto intro: sys_next)

lemma consuming_wal: "dw_wal (snd (consuming c windows crc f dt dw)) = dw_wal (fst (snd (f (dw, dt))))"
  if "fst (f (dw, dt)) = Inr ()" and "dt_phase (snd (snd (f (dw, dt)))) = PhFinished"
  using that by (auto simp: consuming_def dt_drop_def drop_managed_def split: prod.splits option.split)

lemma finish_commit_done:
  assumes "finish_commit x = (Inr (), y)"
  shows "dt_phase (snd y) = PhFinished" "dw_wal (fst y) = dw_wal (fst x)"
  using assms
  by (auto simp: finish_commit_def eff_guard_def on_fst_def on_snd_def on_manager_def eff_on_def
      elim!: eff_bind_Ok split: if_splits prod.splits)

text \<open>The log when \<open>commit_empty\<close> has returned without an error.\<close>

lemma commit_empty_log:
  assumes "dt_commit_empty c True crc dt dw = (Inr (), dw')"
  obtains l where "wal_commit_transaction crc (dt_id dt) (dw_wal dw) = (Inr l, dw_wal dw')"
proof -
  obtain y where y: "commit_empty_body c True crc (dw, dt) = (Inr (), y)"
    using assms by (cases "commit_empty_body c True crc (dw, dt)") (simp add: dt_commit_empty_def consuming_def)
  from y obtain u x where m: "mark_status_committed c True (dw, dt) = (Inr u, x)" and
    b: "eff_bind (on_fst (on_log (wal_commit_transaction crc (dt_id (snd x))))) (\<lambda>_. finish_commit) x = (Inr (), y)"
    unfolding commit_empty_body_def by (auto elim!: eff_bind_Ok)
  from b obtain l z where l: "on_fst (on_log (wal_commit_transaction crc (dt_id (snd x)))) x = (Inr l, z)" and
    f: "finish_commit z = (Inr (), y)" by (rule eff_bind_Ok)
  have id: "dt_id (snd x) = dt_id dt" using marked_phase(2) [OF m] by simp
  have w: "dw_wal (fst x) = dw_wal dw"
    using m by (auto simp: mark_status_committed_def eff_guard_def on_fst_def on_snd_def on_status_def eff_on_def
        elim!: eff_bind_Ok split: if_splits prod.splits)
  have c: "wal_commit_transaction crc (dt_id dt) (dw_wal dw) = (Inr l, dw_wal (fst z))"
    using l w id by (auto simp: on_fst_def on_log_def eff_on_def split: prod.splits)
  have "dw_wal dw' = dw_wal (fst z)"
    using consuming_wal [of "commit_empty_body c True crc" dw dt c True crc] y finish_commit_done [OF f] assms
    by (simp add: dt_commit_empty_def)
  with c show ?thesis using that by simp
qed

text \<open>What the log and the store know after a method that has returned without an error.\<close>

lemma flush_outcomes: "wt_outcomes (snd (flush_lsn l w)) = wt_outcomes w"
  by (auto simp: flush_lsn_def check_fault_def sync_locked_def wal_sync_all_def wal_next_io_def eff_bind_def lsn_new_def Let_def
      split: prod.splits sum.splits option.splits io.splits)

lemma record_outcome:
  assumes "wr_txn rec = Some t"
  shows "terminal_outcome (wr_payload rec) = Some out \<Longrightarrow> bm_get (wt_outcomes (apply_record_state rec False w)) t = Some out"
    and "wr_payload rec = WpBegin \<Longrightarrow> bm_get (wt_outcomes (apply_record_state rec False w)) t = Some InProgress"
  using assms by (cases "wr_payload rec"; simp add: apply_record_state_def Let_def track_begin_def track_terminal_def wr_kind_def)+

lemma append_outcome:
  assumes "append_locked crc (Some t) prev p w = (Inr l, w')"
  shows "terminal_outcome p = Some out \<Longrightarrow> bm_get (wt_outcomes w') t = Some out"
    and "p = WpBegin \<Longrightarrow> bm_get (wt_outcomes w') t = Some InProgress"
proof -
  from assms obtain rec w1 where rec: "record_new crc (wm_next_lsn w) (Some t) prev p = Inr rec"
    and w': "w' = apply_record_state rec False w1"
    unfolding append_locked_def by (auto elim!: eff_bind_Ok)
  from rec have "wr_txn rec = Some t" "wr_payload rec = p" by (auto simp: record_new_def Let_def try_bind_eq_Ok)
  then show "terminal_outcome p = Some out \<Longrightarrow> bm_get (wt_outcomes w') t = Some out"
    and "p = WpBegin \<Longrightarrow> bm_get (wt_outcomes w') t = Some InProgress"
    unfolding w' by (metis record_outcome)+
qed

lemma clear_outcomes: "wt_outcomes (clear_dirty t w) = wt_outcomes w"
  by (simp add: clear_dirty_def split: option.split)

lemma begin_outcome:
  assumes "wal_begin_transaction crc t w = (Inr x, w')"
  shows "bm_get (wt_outcomes w') t = Some InProgress"
proof -
  from assms obtain l w1 where 1: "append_locked crc (Some t) None WpBegin w = (Inr l, w1)" and 2: "w' = snd (flush_lsn l w1)"
    unfolding wal_begin_transaction_def wal_append_def by (auto elim!: eff_bind_Ok)
  show ?thesis using append_outcome(2) [OF 1] by (simp add: 2 flush_outcomes)
qed

lemma abort_outcome:
  assumes "wal_abort crc t w = (Inr x, w')"
  shows "bm_get (wt_outcomes w') t = Some Aborted"
proof -
  from assms obtain p w1 l w2 where 1: "append_locked crc (Some t) (Some p) WpAbort w1 = (Inr l, w2)"
    and 2: "w' = clear_dirty t (snd (flush_lsn l w2))"
    unfolding wal_abort_def wal_append_def mark_transaction_clean_def by (auto elim!: eff_bind_Ok)
  show ?thesis using append_outcome(1) [OF 1, of Aborted] by (simp add: 2 flush_outcomes clear_outcomes)
qed

lemma commit_outcome:
  assumes "wal_commit_transaction crc t w = (Inr x, w')"
  shows "bm_get (wt_outcomes w') t = Some Committed"
proof -
  from assms obtain e w1 l w2 w3 w4 w5 where 1: "append_locked crc (Some t) (Some e) WpCommit w1 = (Inr l, w2)"
    and 2: "w3 = snd (check_fault BeforeCommitFlush w2)" "w4 = snd (flush_lsn l w3)" "w5 = snd (check_fault AfterCommitFlush w4)"
      "w' = clear_dirty t w5"
    unfolding wal_commit_transaction_def commit_transaction_at_def transaction_chain_def wal_append_def mark_transaction_clean_def
    by (auto elim!: eff_bind_Ok split: if_splits option.splits)
  have f: "wt_outcomes (snd (check_fault fp v)) = wt_outcomes v" for fp v
    by (auto simp: check_fault_def split: prod.splits)
  show ?thesis using append_outcome(1) [OF 1, of Committed] by (simp add: 2 f flush_outcomes clear_outcomes)
qed

lemma finish_outcome:
  assumes "status_finish c windows t out st = (Inr (), st')"
  shows "status_outcome st' t = Inr out"
  using assms
  by (auto simp: status_finish_def status_outcome_def res_simps elim!: status_update_cases dest!: finish_document_cases split: if_splits)

lemma commit_empty_status:
  assumes "dt_commit_empty c True crc dt dw = (Inr (), dw')"
  shows "dt_phase dt = PhActive" and "status_outcome (dw_status dw') (dt_id dt) = Inr Committed"
proof -
  obtain y where y: "commit_empty_body c True crc (dw, dt) = (Inr (), y)" and dw': "dw' = dt_drop c True crc y"
    using assms by (cases "commit_empty_body c True crc (dw, dt)") (simp add: dt_commit_empty_def consuming_def)
  from y obtain u x where m: "mark_status_committed c True (dw, dt) = (Inr u, x)" and
    b: "eff_bind (on_fst (on_log (wal_commit_transaction crc (dt_id (snd x))))) (\<lambda>_. finish_commit) x = (Inr (), y)"
    unfolding commit_empty_body_def by (auto elim!: eff_bind_Ok)
  from b obtain l z where l: "on_fst (on_log (wal_commit_transaction crc (dt_id (snd x)))) x = (Inr l, z)" and
    f: "finish_commit z = (Inr (), y)" by (rule eff_bind_Ok)
  from m have ph: "dt_phase dt = PhActive" and st: "status_outcome (dw_status (fst x)) (dt_id dt) = Inr Committed"
    by (auto simp: mark_status_committed_def eff_guard_def on_fst_def on_snd_def on_status_def eff_on_def status_commit_def
        elim!: eff_bind_Ok split: if_splits prod.splits dest!: finish_outcome)
  from ph show "dt_phase dt = PhActive" .
  have "dw_status (fst z) = dw_status (fst x)" using l by (auto simp: on_fst_def on_log_def eff_on_def split: prod.splits)
  moreover have "dw_status (fst y) = dw_status (fst z)"
    using f by (auto simp: finish_commit_def eff_guard_def on_fst_def on_snd_def on_manager_def eff_on_def
        elim!: eff_bind_Ok split: if_splits prod.splits)
  moreover have "dw_status dw' = dw_status (fst y)"
    using finish_commit_done(1) [OF f] by (simp add: dw' dt_drop_def drop_managed_def split: option.split)
  ultimately show "status_outcome (dw_status dw') (dt_id dt) = Inr Committed" using st by simp
qed

lemma abort_active_done:
  assumes "abort_active c windows crc (dw, dt) = (Inr (), y)" and "dt_phase dt \<noteq> PhFinished"
  shows "dt_phase dt = PhActive" and "dt_phase (snd y) = PhFinished"
    and "status_outcome (dw_status (fst y)) (dt_id dt) = Inr Aborted" and "bm_get (wt_outcomes (dw_wal (fst y))) (dt_id dt) = Some Aborted"
  using assms
  by (auto simp: abort_active_def on_fst_def on_snd_def on_status_def on_log_def on_manager_def eff_on_def status_abort_def
      elim!: eff_bind_Ok split: if_splits prod.splits option.splits
      dest!: finish_outcome abort_outcome intro: durable_phase.exhaust)

lemma dt_abort_done:
  assumes "dt_abort c windows crc dt dw = (Inr (), dw')" and "dt_phase dt \<noteq> PhFinished"
  shows "dt_phase dt = PhActive" and "status_outcome (dw_status dw') (dt_id dt) = Inr Aborted"
    and "bm_get (wt_outcomes (dw_wal dw')) (dt_id dt) = Some Aborted"
proof -
  obtain y where y: "abort_active c windows crc (dw, dt) = (Inr (), y)" and dw': "dw' = dt_drop c windows crc y"
    using assms(1) by (cases "abort_active c windows crc (dw, dt)") (simp add: dt_abort_def consuming_def)
  note fin = abort_active_done [OF y assms(2)]
  then have "dw_status dw' = dw_status (fst y)" "dw_wal dw' = dw_wal (fst y)"
    by (simp_all add: dw' dt_drop_def drop_managed_def split: option.split)
  with fin show "dt_phase dt = PhActive" "status_outcome (dw_status dw') (dt_id dt) = Inr Aborted"
    "bm_get (wt_outcomes (dw_wal dw')) (dt_id dt) = Some Aborted" by simp_all
qed

lemma dt_drop_inactive:
  assumes "dt_phase dt \<noteq> PhActive"
  shows "dw_status (dt_drop c windows crc (dw, dt)) = dw_status dw" and "dw_wal (dt_drop c windows crc (dw, dt)) = dw_wal dw"
  using assms by (simp_all add: dt_drop_def drop_managed_def split: option.split)

lemma dt_begin_done:
  assumes "dt_begin c windows crc now chars dw = (Inr new, dw')"
  shows "dt_id new \<noteq> 0" and "dt_phase new = PhActive" and "status_outcome (dw_status dw') (dt_id new) = Inr InProgress"
    and "bm_get (wt_outcomes (dw_wal dw')) (dt_id new) = Some InProgress"
proof -
  from assms obtain t dw1 where b: "on_status_log (begin_durable c windows crc) dw = (Inr t, dw1)"
    and new: "dt_id new = t" "dt_phase new = PhActive" "dw_status dw' = dw_status dw1" "dw_wal dw' = dw_wal dw1"
    unfolding dt_begin_def by (auto simp: on_manager_def eff_on_def elim!: eff_bind_Ok split: prod.splits sum.splits)
  obtain st w where s: "begin_durable c windows crc (dw_status dw, dw_wal dw) = (Inr t, (st, w))"
    "dw_status dw1 = st" "dw_wal dw1 = w"
    using b by (auto simp: on_status_log_def eff_on_def split: prod.splits)
  from s(1) obtain x where "allocate_transaction (ss_document (dw_status dw)) = Inr (t, ss_document st)"
    and "wal_begin_transaction crc t (dw_wal dw) = (Inr x, w)"
    by (auto simp: begin_durable_def on_fst_def on_snd_def eff_on_def publish_begin_def elim!: eff_bind_Ok split: prod.splits)
  moreover have "bm_get (sd_statuses d) t = Some InProgress \<and> t \<noteq> 0" if "allocate_transaction d0 = Inr (t, d)" for d0 d
    using that by (auto simp: allocate_transaction_def res_simps txn_new_Some_iff)
  ultimately show "dt_id new \<noteq> 0" "dt_phase new = PhActive" "status_outcome (dw_status dw') (dt_id new) = Inr InProgress"
    "bm_get (wt_outcomes (dw_wal dw')) (dt_id new) = Some InProgress"
    using s new begin_outcome by (fastforce simp: status_outcome_def)+
qed

section \<open>A run\<close>

text \<open>
  A codec that knows three documents: the one of a new database, the one in which transaction 3
  is in progress, and the one in which it is committed; and the log after the begin of 3.
\<close>

definition open_document :: status_document where
  "open_document = (fresh_document 3)\<lparr>sd_statuses := bm_insert FROZEN_TRANSACTION_ID Committed bm_empty\<rparr>"

definition begun_document :: status_document where
  "begun_document = open_document\<lparr>sd_next := 4, sd_statuses := bm_insert 3 InProgress (sd_statuses open_document)\<rparr>"

definition committed_document :: status_document where
  "committed_document = begun_document\<lparr>sd_statuses := bm_insert 3 Committed (sd_statuses begun_document)\<rparr>"

definition demo_envelope :: "status_document \<Rightarrow> status_envelope" where
  "demo_envelope d = \<lparr>se_version = 1, se_sha256 = [], se_document = d\<rparr>"

definition demo_codec :: status_codec where
  "demo_codec = \<lparr>document_to_vec = (\<lambda>_. Some []),
     envelope_to_vec = (\<lambda>e. if e = demo_envelope open_document then Some [1] else if e = demo_envelope begun_document then Some [2]
       else if e = demo_envelope committed_document then Some [3] else None),
     envelope_from_slice = (\<lambda>bs. if bs = [1] then Some (demo_envelope open_document) else if bs = [2] then Some (demo_envelope begun_document)
       else if bs = [3] then Some (demo_envelope committed_document) else None),
     sha256_hex = (\<lambda>_. [])\<rparr>"

lemma demo_codec_ok: "codec_ok demo_codec"
  by (simp add: codec_ok_def demo_codec_def)

lemma demo_distinct:
  "begun_document \<noteq> open_document" "committed_document \<noteq> open_document" "committed_document \<noteq> begun_document"
proof -
  have "bm_get (sd_statuses begun_document) 3 = Some InProgress" "bm_get (sd_statuses committed_document) 3 = Some Committed"
    "bm_get (sd_statuses open_document) 3 = None"
    by (simp_all add: begun_document_def committed_document_def open_document_def)
  then show "begun_document \<noteq> open_document" "committed_document \<noteq> open_document" "committed_document \<noteq> begun_document" by auto
qed

lemma demo_bytes:
  "document_bytes demo_codec open_document = Inr [1]" "document_bytes demo_codec begun_document = Inr [2]"
  "document_bytes demo_codec committed_document = Inr [3]"
  using demo_distinct by (simp_all add: document_bytes_def document_sha256_def demo_codec_def demo_envelope_def res_simps)

lemma demo_write:
  "document_bytes demo_codec d = Inr bs \<Longrightarrow>
     write_document_atomic demo_codec True d \<lparr>ss_document = d0, ss_file = file, ss_io = []\<rparr> =
       (Inr (), \<lparr>ss_document = d0, ss_file = Some bs, ss_io = []\<rparr>)"
  by (simp add: write_document_atomic_def atomic_replace_def st_call_def eff_bind_def)

lemma demo_valid: "validate_document open_document = Inr ()" "validate_document begun_document = Inr ()"
  "validate_document committed_document = Inr ()"
  unfolding validate_document_Ok by (simp_all add: open_document_def begun_document_def committed_document_def fresh_document_def)

abbreviation (input) demo_store :: "status_document \<Rightarrow> u8 \<Rightarrow> status_store" where
  "demo_store d b \<equiv> \<lparr>ss_document = d, ss_file = Some [b], ss_io = []\<rparr>"

lemma demo_open:
  "status_open demo_codec True 0 \<lparr>ss_document = d, ss_file = None, ss_io = []\<rparr> = (Inr (), demo_store open_document 1)"
proof -
  have d: "(fresh_document 3)\<lparr>sd_next := 3, sd_statuses := bm_insert FROZEN_TRANSACTION_ID Committed (sd_statuses (fresh_document 3))\<rparr> = open_document"
    by (simp add: open_document_def fresh_document_def)
  have v: "validate_document (fresh_document 3) = Inr ()" unfolding validate_document_Ok by (simp add: fresh_document_def)
  show ?thesis
    using v d demo_write [OF demo_bytes(1)]
    by (simp add: status_open_def st_call_def eff_bind_def Let_def) (simp add: fresh_document_def)
qed

lemma demo_allocate: "allocate_transaction open_document = Inr (3, begun_document)"
  by (simp add: allocate_transaction_def txn_new_def checked_add_u64_def begun_document_def open_document_def fresh_document_def res_simps
      bm_contains_def)

lemma demo_publish: "publish_begin demo_codec True begun_document (demo_store open_document 1) = (Inr (), demo_store begun_document 2)"
  by (simp add: publish_begin_def demo_write [OF demo_bytes(2)])

lemma demo_commit: "status_commit demo_codec True 3 (demo_store begun_document 2) = (Inr (), demo_store committed_document 3)"
proof -
  have "finish_document 3 Committed begun_document = Inr ((), committed_document)"
    by (simp add: finish_document_def begun_document_def committed_document_def)
  then show ?thesis
    by (simp add: status_commit_def status_finish_def status_update_def eff_bind_def demo_valid(3) demo_write [OF demo_bytes(3)])
qed

definition begun_three :: "wal_manager" where
  "begun_three = snd (wal_begin_transaction (\<lambda>_. 0) 3 (empty_wal [] None []))"

lemma commit_three: "fst (wal_commit_transaction (\<lambda>_. 0) 3 begun_three) = Inr 2"
  by (simp add: append_plain begun_three_def empty_wal_def wal_eval word_le_nat_alt word_less_nat_alt checked_add_u64_code)

text \<open>The run: a new store, the begin of 3, and the handle in its two phases.\<close>

definition demo_handle :: durable_transaction where
  "demo_handle = \<lparr>dt_managed = Some \<lparr>mt_live = True, mt_id = 3, mt_chars = characteristics_default,
     mt_snapshot = \<lparr>sn_xmin = 3, sn_xmax = 4, sn_in_progress = bm_empty, sn_command = 0\<rparr>, mt_command = 0, mt_safe = True\<rparr>,
     dt_id = 3, dt_phase = PhActive\<rparr>"

definition demo_world :: durable_world where
  "demo_world = \<lparr>dw_manager = tm_demo, dw_status = demo_store begun_document 2, dw_wal = begun_three\<rparr>"

lemma demo_complete: "fst (tm_complete 3 Committed tm_demo) = Inr ()"
  by code_simp

lemma demo_reach: "sys_reach no_double_fault True demo_codec (\<lambda>_. 0) (sys_of demo_world {})"
proof -
  let ?sys = "\<lambda>st w ready. \<lparr>sy_status = st, sy_wal = w, sy_ready = ready, sy_marked = {}\<rparr>"
  let ?empty = "empty_wal [] None []"
  have 0: "sys_reach no_double_fault True demo_codec (\<lambda>_. 0) (?sys \<lparr>ss_document = open_document, ss_file = None, ss_io = []\<rparr> ?empty False)"
    by (rule sys_init [OF _ wal_open_empty]) simp
  have 1: "sys_reach no_double_fault True demo_codec (\<lambda>_. 0) (?sys (demo_store open_document 1) ?empty True)"
    using sys_next [OF 0 sys_open [of _ demo_codec True 0 open_document "[]" "Inr ()" "demo_store open_document 1"]] demo_open [of open_document] by simp
  have "eff_runs (wal_run demo_codec (\<lambda>_. 0) {}) (wal_begin_transaction (\<lambda>_. 0) 3)" by (rule run_begin) simp
  then have "wal_run demo_codec (\<lambda>_. 0) {} ?empty begun_three" by (simp add: eff_runs_def begun_three_def)
  then have 2: "sys_reach no_double_fault True demo_codec (\<lambda>_. 0) (?sys (demo_store open_document 1) begun_three True)"
    unfolding wal_run_def using sys_steps_reach [OF _ 1] by blast
  show ?thesis
    using sys_next [OF 2 sys_publish [of _ 3 begun_document demo_codec True "Inr ()" "demo_store begun_document 2"]] demo_allocate demo_publish
    by (simp add: sys_of_def demo_world_def)
qed

lemma demo_commit_empty: "fst (dt_commit_empty demo_codec True (\<lambda>_. 0) demo_handle demo_world) = Inr ()"
proof -
  obtain w where w: "wal_commit_transaction (\<lambda>_. 0) 3 begun_three = (Inr 2, w)" using commit_three by (metis prod.collapse)
  obtain m where m: "tm_complete 3 Committed tm_demo = (Inr (), m)" using demo_complete by (metis prod.collapse)
  show ?thesis
    by (simp add: dt_commit_empty_def consuming_def commit_empty_body_def mark_status_committed_def finish_commit_def
        demo_handle_def demo_world_def eff_bind_def eff_guard_def on_fst_def on_snd_def on_status_def on_log_def on_manager_def eff_on_def
        demo_commit w m mt_commit_def mt_finish_def mt_drop_def ok_or_def)
qed

section \<open>Properties\<close>

lemma commit_protocol_reconciles_witness:
  "fst (reconcile_with_wal demo_codec True (wt_outcomes begun_three) (demo_store begun_document 2)) \<noteq> Inl E_XX001"
  using commit_protocol_reconciles [OF demo_codec_ok demo_reach] by (simp add: sys_of_def demo_world_def)

text \<open>
  C30. The methods of durable transactions keep to the commit protocol. Beginning a transaction,
  committing it empty, aborting it and dropping it are runs of the steps of \<open>sys_step\<close>, the
  protocol in which a Commit is only logged for a transaction that the status store has
  committed, and the abort of a transaction may be logged and stored; this holds whatever fails
  inside them. The status file is replaced by the atomic move of the Windows build
  (\<open>windows = True\<close>; \<open>replace_loses_outcomes\<close> shows the other build). When they return without an
  error, their work is done: a new handle has an id other than zero and the phase \<open>Active\<close>, and the
  store and the log have the id in progress; \<open>commit_empty\<close> takes an active transaction, which the
  store and the log then have committed; \<open>abort\<close> of a transaction that is not finished takes an
  active one, which both then have aborted. Dropping a handle that is not active leaves the store and
  the log alone.
\<close>

theorem durable_operations_run:
  assumes "handle_ok M dt"
  shows "(\<exists>M'. M \<subseteq> M' \<and> (sys_step no_double_fault True c crc)\<^sup>*\<^sup>* (sys_of dw M) (sys_of (snd (dt_begin c True crc now chars dw)) M')) \<and>
    (\<exists>M'. M \<subseteq> M' \<and> (sys_step no_double_fault True c crc)\<^sup>*\<^sup>* (sys_of dw M) (sys_of (snd (dt_commit_empty c True crc dt dw)) M')) \<and>
    (\<exists>M'. M \<subseteq> M' \<and> (sys_step no_double_fault True c crc)\<^sup>*\<^sup>* (sys_of dw M) (sys_of (snd (dt_abort c True crc dt dw)) M')) \<and>
    (\<exists>M'. M \<subseteq> M' \<and> (sys_step no_double_fault True c crc)\<^sup>*\<^sup>* (sys_of dw M) (sys_of (dt_drop c True crc (dw, dt)) M')) \<and>
    (\<forall>new dw'. dt_begin c True crc now chars dw = (Inr new, dw') \<longrightarrow> dt_id new \<noteq> 0 \<and> dt_phase new = PhActive \<and>
       status_outcome (dw_status dw') (dt_id new) = Inr InProgress \<and> bm_get (wt_outcomes (dw_wal dw')) (dt_id new) = Some InProgress) \<and>
    (\<forall>dw'. dt_commit_empty c True crc dt dw = (Inr (), dw') \<longrightarrow> dt_phase dt = PhActive \<and>
       status_outcome (dw_status dw') (dt_id dt) = Inr Committed \<and> bm_get (wt_outcomes (dw_wal dw')) (dt_id dt) = Some Committed) \<and>
    (\<forall>dw'. dt_abort c True crc dt dw = (Inr (), dw') \<and> dt_phase dt \<noteq> PhFinished \<longrightarrow> dt_phase dt = PhActive \<and>
       status_outcome (dw_status dw') (dt_id dt) = Inr Aborted \<and> bm_get (wt_outcomes (dw_wal dw')) (dt_id dt) = Some Aborted) \<and>
    (dt_phase dt \<noteq> PhActive \<longrightarrow> dw_status (dt_drop c True crc (dw, dt)) = dw_status dw \<and> dw_wal (dt_drop c True crc (dw, dt)) = dw_wal dw)"
proof (intro conjI)
  have "world_run c crc M dw (snd (dt_begin c True crc now chars dw))" by (rule dt_begin_run [OF surjective_pairing])
  then show "\<exists>M'. M \<subseteq> M' \<and> (sys_step no_double_fault True c crc)\<^sup>*\<^sup>* (sys_of dw M) (sys_of (snd (dt_begin c True crc now chars dw)) M')"
    by (simp add: world_run_def)
  have "world_run c crc M dw (snd (dt_commit_empty c True crc dt dw))"
    unfolding dt_commit_empty_def by (rule consuming_run [OF run_commit_empty_body assms])
  then show "\<exists>M'. M \<subseteq> M' \<and> (sys_step no_double_fault True c crc)\<^sup>*\<^sup>* (sys_of dw M) (sys_of (snd (dt_commit_empty c True crc dt dw)) M')"
    by (simp add: world_run_def)
  have "world_run c crc M dw (snd (dt_abort c True crc dt dw))"
    unfolding dt_abort_def by (rule consuming_run [OF run_abort_active assms])
  then show "\<exists>M'. M \<subseteq> M' \<and> (sys_step no_double_fault True c crc)\<^sup>*\<^sup>* (sys_of dw M) (sys_of (snd (dt_abort c True crc dt dw)) M')"
    by (simp add: world_run_def)
  show "\<exists>M'. M \<subseteq> M' \<and> (sys_step no_double_fault True c crc)\<^sup>*\<^sup>* (sys_of dw M) (sys_of (dt_drop c True crc (dw, dt)) M')"
    using dt_drop_run [OF assms, of c crc dw] by (simp add: world_run_def)
qed (use dt_begin_done [of c True crc now chars dw] commit_empty_status [of c crc dt dw] dt_abort_done [of c True crc dt dw]
    dt_drop_inactive [of dt c True crc dw] in \<open>blast elim: commit_empty_log intro: commit_outcome\<close>)+

lemma durable_operations_run_witness:
  "status_outcome (dw_status (snd (dt_commit_empty demo_codec True (\<lambda>_. 0) demo_handle demo_world))) 3 = Inr Committed \<and>
   bm_get (wt_outcomes (dw_wal (snd (dt_commit_empty demo_codec True (\<lambda>_. 0) demo_handle demo_world)))) 3 = Some Committed"
proof -
  have "handle_ok {} demo_handle" "dt_id demo_handle = 3" by (simp_all add: handle_ok_def demo_handle_def)
  with durable_operations_run [of "{}" demo_handle demo_codec "\<lambda>_. 0" demo_world] demo_commit_empty
  show ?thesis by (metis prod.collapse)
qed

text \<open>
  C4. An acknowledged commit survives, on the Windows build (the status file is replaced by one
  atomic move; \<open>replace_loses_outcomes\<close> is the loss on the others) and when no two calls to the
  operating system on the log file in a row fail (\<open>no_double_fault\<close>; \<open>double_fault_breaks_log\<close> is the
  loss without it). Both are arguments of the runs. When \<open>commit_empty\<close> has then returned without an
  error, the log knows the transaction as committed after any further steps of any threads, other
  failing calls, crashes of the machine and restarts, and whenever the status store is open it says
  so as well, unless the retention floor has passed the transaction. What the files hold after a
  crash is on the disk when they are opened: a process that dies alone, with the power failing
  later, is not covered.
\<close>

theorem acknowledged_commit_survives:
  assumes "codec_ok c" and "sys_reach no_double_fault True c crc (sys_of dw M)" and "handle_ok M dt"
    and "dt_commit_empty c True crc dt dw = (Inr (), dw')"
  shows "\<exists>M'. sys_reach no_double_fault True c crc (sys_of dw' M') \<and>
    (\<forall>s. (sys_step no_double_fault True c crc)\<^sup>*\<^sup>* (sys_of dw' M') s \<longrightarrow>
       bm_get (wt_outcomes (sy_wal s)) (dt_id dt) = Some Committed \<and>
       (sy_ready s \<longrightarrow> status_outcome (sy_status s) (dt_id dt) = Inr Committed \<or> dt_id dt < sd_retained_floor (ss_document (sy_status s))))"
proof -
  have "world_run c crc M dw dw'"
    using consuming_run [OF run_commit_empty_body assms(3), of c crc dw] assms(4) by (simp add: dt_commit_empty_def)
  then obtain M' where reach: "sys_reach no_double_fault True c crc (sys_of dw' M')"
    using sys_steps_reach [OF _ assms(2)] unfolding world_run_def by blast
  from sys_reach_inv [OF assms(2,1)] have "wal_reach no_double_fault crc (dw_wal dw)" by (simp add: sys_inv_def sys_of_def)
  then obtain log where ok: "wal_ok crc log (dw_wal dw)" using wal_reach_ok by blast
  have t: "dt_id dt \<noteq> 0" using assms(3) by (simp add: handle_ok_def)
  from assms(4) obtain l where "wal_commit_transaction crc (dt_id dt) (dw_wal dw) = (Inr l, dw_wal dw')" by (rule commit_empty_log)
  then obtain i r where r: "durable_at crc (dw_wal dw') i r" "wr_txn r = Some (dt_id dt)" "wr_payload r = WpCommit"
    using commit_transaction_durable [OF ok t] by blast
  show ?thesis
  proof (intro exI conjI allI impI)
    show "sys_reach no_double_fault True c crc (sys_of dw' M')" by (rule reach)
    fix s
    assume s: "(sys_step no_double_fault True c crc)\<^sup>*\<^sup>* (sys_of dw' M') s"
    have "durable_at crc (sy_wal s) i r" using durable_next [OF sys_steps_wal [OF s]] r(1) by (simp add: sys_of_def)
    from appended_outcome [OF durable_appended [OF this]] r
    show log: "bm_get (wt_outcomes (sy_wal s)) (dt_id dt) = Some Committed" by auto
    assume "sy_ready s"
    with sys_reach_inv [OF sys_steps_reach [OF s reach] assms(1)] log
    have "settled (ss_document (sy_status s)) (dt_id dt)" by (auto simp: sys_inv_def store_inv_def)
    then show "status_outcome (sy_status s) (dt_id dt) = Inr Committed \<or> dt_id dt < sd_retained_floor (ss_document (sy_status s))"
      by (auto simp: settled_def status_outcome_def res_simps)
  qed
qed

lemma acknowledged_commit_survives_witness:
  "bm_get (wt_outcomes (dw_wal (snd (dt_commit_empty demo_codec True (\<lambda>_. 0) demo_handle demo_world)))) 3 = Some Committed"
proof -
  let ?dw = "snd (dt_commit_empty demo_codec True (\<lambda>_. 0) demo_handle demo_world)"
  have h: "handle_ok {} demo_handle" by (simp add: handle_ok_def demo_handle_def)
  have "dt_commit_empty demo_codec True (\<lambda>_. 0) demo_handle demo_world = (Inr (), ?dw)"
    using demo_commit_empty by (metis prod.collapse)
  from acknowledged_commit_survives [OF demo_codec_ok demo_reach h this] obtain M' where
    "\<forall>s. (sys_step no_double_fault True demo_codec (\<lambda>_. 0))\<^sup>*\<^sup>* (sys_of ?dw M') s \<longrightarrow> bm_get (wt_outcomes (sy_wal s)) 3 = Some Committed"
    by (auto simp: demo_handle_def)
  from this [THEN spec, of "sys_of ?dw M'"] show ?thesis by (simp add: sys_of_def)
qed

section \<open>Two failures\<close>

text \<open>
  A begin whose record reaches the log but whose flush fails leaves the next id of the store
  where it was: the log refuses a second begin of the same id, so every later \<open>begin_durable\<close>
  fails with XX001 until the process starts again.
\<close>

definition stuck_log :: wal_manager where
  "stuck_log =
     \<lparr>wt_begin = bm_insert 3 1 bm_empty, wt_last = bm_insert 3 1 bm_empty, wt_terminal = bm_empty,
      wt_outcomes = bm_insert 3 InProgress bm_empty, wt_max_txn = Some 3, wt_dirty = bm_empty,
      wt_txn_dirty = bm_empty,
      wm_file = \<lparr>lf_bytes = sealed_record (\<lambda>_. 0) \<lparr>wr_lsn = 1, wr_txn = Some 3, wr_prev = None, wr_payload = WpBegin\<rparr> [],
        lf_synced = 0\<rparr>,
      wm_next_lsn = 2, wm_durable_lsn = None, wm_injector = None, wm_io = []\<rparr>"

lemma stuck_begin: "wal_begin_transaction (\<lambda>_. 0) 3 (empty_wal [] None [IoOk, IoFail 0]) = (Inl E_58030, stuck_log)"
  by (simp add: append_plain stuck_log_def empty_wal_def wal_eval word_le_nat_alt word_less_nat_alt checked_add_u64_code)

lemma stuck_again: "wal_begin_transaction (\<lambda>_. 0) 3 stuck_log = (Inl E_XX001, stuck_log)"
  by (simp add: append_locked_def stuck_log_def wal_eval)

lemma begin_durable_stuck:
  "begin_durable demo_codec True (\<lambda>_. 0) (demo_store open_document 1, empty_wal [] None [IoOk, IoFail 0]) =
     (Inl E_58030, (demo_store open_document 1, stuck_log))"
  "begin_durable demo_codec True (\<lambda>_. 0) (demo_store open_document 1, stuck_log) =
     (Inl E_XX001, (demo_store open_document 1, stuck_log))"
  by (simp_all add: begin_durable_def eff_bind_def on_snd_def demo_allocate stuck_begin stuck_again)

text \<open>
  Without the replacing move of Windows the old file is removed before the new one is renamed:
  a failure in between loses the whole table, and the next start begins with a fresh one.
\<close>

lemma replace_loses_outcomes:
  "\<exists>s. status_commit demo_codec False 3 \<lparr>ss_document = begun_document, ss_file = Some [2], ss_io = [IoOk, IoOk, IoOk, IoOk, IoFail 0]\<rparr> =
     (Inl E_58030, s) \<and> ss_file s = None"
proof -
  have f: "finish_document 3 Committed begun_document = Inr ((), committed_document)"
    by (simp add: finish_document_def begun_document_def committed_document_def)
  show ?thesis
    by (simp add: status_commit_def status_finish_def status_update_def eff_bind_def f demo_valid(3) demo_bytes(3)
        write_document_atomic_def atomic_replace_def st_call_def)
qed

end
