(* ===== verification/PlText.thy ===== *)
theory PlText
  imports Interval
begin

text \<open>
  Text as the PL/pgSQL compiler handles it (crates/ordadb-plpgsql/src/language): the methods of
  \<open>str\<close> that it uses, and its own scanners. A string is a list of characters up to U+00FF, as in
  theory Interval; \<open>byte_len\<close> is its length in UTF-8. The scanners only look for ASCII
  characters, so a byte offset at one of them and its position in the list cut a string in the
  same way.
\<close>

section \<open>Methods of str\<close>

definition byte_len :: "string \<Rightarrow> nat" where
  "byte_len s = sum_list (map (\<lambda>c. if (of_char c :: nat) < 128 then 1 else 2) s)"

definition trim_start :: "string \<Rightarrow> string" where
  "trim_start s = dropWhile is_space s"

definition trim_end :: "string \<Rightarrow> string" where
  "trim_end s = rev (dropWhile is_space (rev s))"

definition trim_text :: "string \<Rightarrow> string" where
  "trim_text s = trim_end (trim_start s)"

definition to_ascii_uppercase :: "string \<Rightarrow> string" where
  "to_ascii_uppercase s =
     map (\<lambda>c. let n = of_char c :: nat in if 97 \<le> n \<and> n \<le> 122 then char_of (n - 32) else c) s"

definition eq_ignore_case :: "string \<Rightarrow> string \<Rightarrow> bool" where
  "eq_ignore_case a b \<longleftrightarrow> to_ascii_lowercase a = to_ascii_lowercase b"

definition starts_with :: "string \<Rightarrow> string \<Rightarrow> bool" where
  "starts_with p s \<longleftrightarrow> take (length p) s = p"

definition ends_with :: "string \<Rightarrow> string \<Rightarrow> bool" where
  "ends_with p s \<longleftrightarrow> starts_with (rev p) (rev s)"

definition strip_prefix :: "string \<Rightarrow> string \<Rightarrow> string option" where
  "strip_prefix p s = (if starts_with p s then Some (drop (length p) s) else None)"

definition strip_suffix :: "string \<Rightarrow> string \<Rightarrow> string option" where
  "strip_suffix p s = (if ends_with p s then Some (take (length s - length p) s) else None)"

text \<open>\<open>value.get(..n).is_some_and(|prefix| prefix.eq_ignore_ascii_case(keyword))\<close>.\<close>

definition starts_ignore_case :: "string \<Rightarrow> string \<Rightarrow> bool" where
  "starts_ignore_case keyword s \<longleftrightarrow> eq_ignore_case (take (length keyword) s) keyword"

text \<open>The slice \<open>&s[a..b]\<close>, which panics when the bounds are not in order.\<close>

definition slice_str :: "nat \<Rightarrow> nat \<Rightarrow> string \<Rightarrow> string res" where
  "slice_str a b s = (if a \<le> b \<and> b \<le> length s then Inr (take (b - a) (drop a s)) else Inl E_PANIC)"

definition is_alphabetic :: "char \<Rightarrow> bool" where
  "is_alphabetic c \<longleftrightarrow> (let n = of_char c :: nat in 65 \<le> n \<and> n \<le> 90 \<or> 97 \<le> n \<and> n \<le> 122)"

definition is_alphanumeric :: "char \<Rightarrow> bool" where
  "is_alphanumeric c \<longleftrightarrow> is_alphabetic c \<or> is_digit c"

definition is_ident :: "char \<Rightarrow> bool" where
  "is_ident c \<longleftrightarrow> is_alphanumeric c \<or> c = CHR ''_''"

definition is_quote :: "char \<Rightarrow> bool" where
  "is_quote c \<longleftrightarrow> c = CHR 0x27 \<or> c = CHR 0x22"

text \<open>\<open>split_once\<close> at the first character of a kind, and at the first occurrence of a text.\<close>

fun split_once_char :: "(char \<Rightarrow> bool) \<Rightarrow> string \<Rightarrow> (string \<times> string) option" where
  "split_once_char P [] = None"
| "split_once_char P (c # cs) =
     (if P c then Some ([], cs) else map_option (\<lambda>(a, b). (c # a, b)) (split_once_char P cs))"

fun split_once_str :: "string \<Rightarrow> string \<Rightarrow> (string \<times> string) option" where
  "split_once_str p [] = (if p = [] then Some ([], []) else None)"
| "split_once_str p (c # cs) =
     (if starts_with p (c # cs) then Some ([], drop (length p) (c # cs))
      else map_option (\<lambda>(a, b). (c # a, b)) (split_once_str p cs))"

definition contains_str :: "string \<Rightarrow> string \<Rightarrow> bool" where
  "contains_str p s \<longleftrightarrow> split_once_str p s \<noteq> None"

definition parse_usize :: "string \<Rightarrow> nat option" where
  "parse_usize s =
     Option.bind (parse_digits (case s of [] \<Rightarrow> [] | c # cs \<Rightarrow> if c = CHR ''+'' then cs else s))
       (\<lambda>n. if n \<le> usize_max then Some n else None)"

text \<open>\<open>checked_sub(1)\<close>.\<close>

definition pred_usize :: "nat \<Rightarrow> nat option" where
  "pred_usize n = (if n = 0 then None else Some (n - 1))"

section \<open>Logical lines\<close>

definition strip_leading_keyword :: "string \<Rightarrow> string \<Rightarrow> string option" where
  "strip_leading_keyword s keyword =
     (if starts_ignore_case keyword s
      then case drop (length keyword) s of
             [] \<Rightarrow> None
           | c # cs \<Rightarrow> if is_space c then Some (trim_start (c # cs)) else None
      else None)"

definition push_logical_segment :: "string list \<Rightarrow> string \<Rightarrow> string list" where
  "push_logical_segment lines segment =
     (let t = trim_text segment in
      if t = [] then lines
      else case strip_leading_keyword t ''DECLARE'' of
             Some rest \<Rightarrow> lines @ [''DECLARE''] @ (if rest = [] then [] else [rest])
           | None \<Rightarrow>
               (case strip_leading_keyword t ''BEGIN'' of
                  Some rest \<Rightarrow> lines @ [''BEGIN''] @ (if rest = [] then [] else [rest])
                | None \<Rightarrow> lines @ [t]))"

text \<open>The loop of \<open>logical_lines\<close>: the lines so far, the current one, the open quote and the depth of parentheses.\<close>

fun scan_lines :: "string list \<Rightarrow> string \<Rightarrow> char option \<Rightarrow> nat \<Rightarrow> string \<Rightarrow> string list res" where
  "scan_lines lines current (Some q) depth [] = Inl E_42601"
| "scan_lines lines current None depth [] =
     guard_res (depth \<noteq> 0) E_42601 (Inr (push_logical_segment lines current))"
| "scan_lines lines current (Some q) depth (c # cs) =
     (if c = q
      then case cs of
             d # ds \<Rightarrow> if d = q then scan_lines lines (current @ [c, d]) (Some q) depth ds
                      else scan_lines lines (current @ [c]) None depth cs
           | [] \<Rightarrow> scan_lines lines (current @ [c]) None depth []
      else scan_lines lines (current @ [c]) (Some q) depth cs)"
| "scan_lines lines current None depth (c # cs) =
     (if is_quote c then scan_lines lines (current @ [c]) (Some c) depth cs
      else if c = CHR ''('' then scan_lines lines (current @ [c]) None (count_up depth) cs
      else if c = CHR '')''
      then (if depth = 0 then Inl E_42601 else scan_lines lines (current @ [c]) None (depth - 1) cs)
      else if (c = CHR '';'' \<or> c = CHR 0x0A \<or> c = CHR 0x0D) \<and> depth = 0
      then scan_lines (push_logical_segment lines current) [] None depth cs
      else if c = CHR 0x0A \<or> c = CHR 0x0D then scan_lines lines (current @ '' '') None depth cs
      else scan_lines lines (current @ [c]) None depth cs)"

definition logical_lines :: "string \<Rightarrow> string list res" where
  "logical_lines source = scan_lines [] [] None 0 source"

section \<open>Names and separators inside a statement\<close>

type_synonym name_table = "string \<Rightarrow> nat option"

text \<open>\<open>rewrite_locals\<close>: an identifier of a local becomes a positional parameter, outside quotes.\<close>

definition flush_identifier :: "name_table \<Rightarrow> string \<Rightarrow> string" where
  "flush_identifier names ident =
     (if ident = [] then []
      else case names (to_ascii_lowercase ident) of
             Some slot \<Rightarrow> CHR ''$'' # show_nat (slot + 1)
           | None \<Rightarrow> ident)"

fun rewrite_from :: "name_table \<Rightarrow> string \<Rightarrow> char option \<Rightarrow> string \<Rightarrow> string" where
  "rewrite_from names ident quote [] = flush_identifier names ident"
| "rewrite_from names ident (Some q) (c # cs) = c # rewrite_from names ident (if c = q then None else Some q) cs"
| "rewrite_from names ident None (c # cs) =
     (if is_quote c then flush_identifier names ident @ c # rewrite_from names [] (Some c) cs
      else if is_ident c then rewrite_from names (ident @ [c]) None cs
      else flush_identifier names ident @ c # rewrite_from names [] None cs)"

definition rewrite_locals :: "string \<Rightarrow> name_table \<Rightarrow> string" where
  "rewrite_locals expression names = rewrite_from names [] None expression"

text \<open>\<open>split_keyword\<close>: the text pre and after the first keyword outside quotes and parentheses.\<close>

definition is_ascii_whitespace :: "char \<Rightarrow> bool" where
  "is_ascii_whitespace c \<longleftrightarrow> (let n = of_char c :: nat in n = 9 \<or> n = 10 \<or> n = 12 \<or> n = 13 \<or> n = 32)"

definition keyword_at :: "string \<Rightarrow> string \<Rightarrow> string \<Rightarrow> bool" where
  "keyword_at keyword pre rest \<longleftrightarrow>
     pre \<noteq> [] \<and> is_ascii_whitespace (last pre) \<and>
     (case drop (length keyword) rest of [] \<Rightarrow> False | d # _ \<Rightarrow> is_ascii_whitespace d) \<and>
     starts_ignore_case keyword rest"

fun find_keyword :: "string \<Rightarrow> string \<Rightarrow> char option \<Rightarrow> nat \<Rightarrow> string \<Rightarrow> (string \<times> string) option" where
  "find_keyword keyword pre quote depth [] = None"
| "find_keyword keyword pre (Some q) depth (c # cs) =
     (if c = q
      then case cs of
             d # ds \<Rightarrow> if d = q then find_keyword keyword (pre @ [c, d]) (Some q) depth ds
                      else find_keyword keyword (pre @ [c]) None depth cs
           | [] \<Rightarrow> None
      else find_keyword keyword (pre @ [c]) (Some q) depth cs)"
| "find_keyword keyword pre None depth (c # cs) =
     (let quote = (if is_quote c then Some c else None);
          depth = (if c = CHR ''('' then count_up depth else if c = CHR '')'' then depth - 1 else depth)
      in if depth = 0 \<and> keyword_at keyword pre (c # cs)
         then Some (pre, drop (length keyword) (c # cs))
         else find_keyword keyword (pre @ [c]) quote depth cs)"

definition split_keyword :: "string \<Rightarrow> string \<Rightarrow> string \<times> string option" where
  "split_keyword s keyword =
     (case find_keyword keyword [] None 0 s of
        Some (pre, after) \<Rightarrow> (trim_end pre, Some (trim_start after))
      | None \<Rightarrow> (s, None))"

text \<open>\<open>split_top_level_comma\<close> and \<open>split_top_level_expressions\<close>, with the piece pre the position.\<close>

fun find_comma :: "string \<Rightarrow> char option \<Rightarrow> nat \<Rightarrow> string \<Rightarrow> (string \<times> string) option res" where
  "find_comma pre quote depth [] = guard_res (quote \<noteq> None \<or> depth \<noteq> 0) E_42601 (Inr None)"
| "find_comma pre (Some q) depth (c # cs) = find_comma (pre @ [c]) (if c = q then None else Some q) depth cs"
| "find_comma pre None depth (c # cs) =
     (if is_quote c then find_comma (pre @ [c]) (Some c) depth cs
      else if c = CHR ''('' then find_comma (pre @ [c]) None (count_up depth) cs
      else if c = CHR '')'' then (if depth = 0 then Inl E_42601 else find_comma (pre @ [c]) None (depth - 1) cs)
      else if c = CHR '','' \<and> depth = 0 then Inr (Some (pre, cs))
      else find_comma (pre @ [c]) None depth cs)"

definition split_top_level_comma :: "string \<Rightarrow> (string \<times> string option) res" where
  "split_top_level_comma s =
     try_bind (find_comma [] None 0 s) (\<lambda>r. Inr (case r of None \<Rightarrow> (s, None) | Some (a, b) \<Rightarrow> (a, Some b)))"

fun split_expressions :: "string list \<Rightarrow> string \<Rightarrow> char option \<Rightarrow> nat \<Rightarrow> string \<Rightarrow> string list res" where
  "split_expressions acc piece quote depth [] =
     guard_res (quote \<noteq> None \<or> depth \<noteq> 0) E_42601 (
     guard_res (trim_text piece = []) E_42601 (Inr (acc @ [trim_text piece])))"
| "split_expressions acc piece (Some q) depth (c # cs) =
     split_expressions acc (piece @ [c]) (if c = q then None else Some q) depth cs"
| "split_expressions acc piece None depth (c # cs) =
     (if is_quote c then split_expressions acc (piece @ [c]) (Some c) depth cs
      else if c = CHR ''('' then split_expressions acc (piece @ [c]) None (count_up depth) cs
      else if c = CHR '')''
      then (if depth = 0 then Inl E_42601 else split_expressions acc (piece @ [c]) None (depth - 1) cs)
      else if c = CHR '','' \<and> depth = 0
      then guard_res (trim_text piece = []) E_42601 (split_expressions (acc @ [trim_text piece]) [] None depth cs)
      else split_expressions acc (piece @ [c]) None depth cs)"

definition split_top_level_expressions :: "string \<Rightarrow> string list res" where
  "split_top_level_expressions s = split_expressions [] [] None 0 s"

section \<open>Labels\<close>

definition normalize_label :: "string \<Rightarrow> string res" where
  "normalize_label text =
     (let label = trim_text text in
      guard_res (label = [] \<or> 63 < byte_len label \<or> \<not> (is_alphabetic (hd label) \<or> hd label = CHR ''_'') \<or>
          \<not> list_all is_ident (tl label)) E_42601 (Inr (to_ascii_lowercase label)))"

definition parse_label :: "string \<Rightarrow> string option res" where
  "parse_label s =
     (if \<not> starts_with ''<<'' s \<and> \<not> ends_with ''>>'' s then Inr None
      else try_bind (ok_or E_42601 (Option.bind (strip_prefix ''<<'' s) (strip_suffix ''>>''))) (\<lambda>label.
        try_bind (normalize_label label) (\<lambda>l. Inr (Some l))))"

text \<open>\<open>Some None\<close> is a plain END, \<open>Some (Some l)\<close> one with a label.\<close>

definition parse_block_end_label :: "string \<Rightarrow> string option option res" where
  "parse_block_end_label text =
     (let s = trim_text text in
      if eq_ignore_case s ''END'' then Inr (Some None)
      else if \<not> starts_ignore_case ''END'' s then Inr None
      else let tail = trim_text (drop 3 s) in
        if tail = [] then Inr None
        else if (case split_whitespace tail of
                   [] \<Rightarrow> False
                 | w # _ \<Rightarrow> list_ex (eq_ignore_case w) [''IF'', ''CASE'', ''LOOP''])
        then Inr None
        else try_bind (normalize_label tail) (\<lambda>l. Inr (Some (Some l))))"

text \<open>The label and the condition of EXIT or CONTINUE.\<close>

definition parse_loop_control :: "string \<Rightarrow> string \<Rightarrow> (string option \<times> string option) res" where
  "parse_loop_control statement keyword =
     (let rest = trim_text (drop (length keyword) statement) in
      if rest = [] then Inr (None, None)
      else
        let (first, tail) = (case split_once_char is_space rest of None \<Rightarrow> (rest, []) | Some (a, b) \<Rightarrow> (a, trim_text b)) in
        if eq_ignore_case first ''WHEN'' then Inr (None, Some tail)
        else try_bind (normalize_label first) (\<lambda>label.
          if tail = [] then Inr (Some label, None)
          else if starts_ignore_case ''WHEN'' tail then Inr (Some label, Some (trim_text (drop 4 tail)))
          else Inl E_42601))"

section \<open>Conditions\<close>

definition validate_sql_state :: "string \<Rightarrow> unit res" where
  "validate_sql_state state =
     guard_res (byte_len state \<noteq> 5 \<or> \<not> list_all is_alphanumeric state) E_42601 (
     guard_res (starts_with ''00'' state) E_42601 (Inr ()))"

definition strip_quotes :: "string \<Rightarrow> string option" where
  "strip_quotes s = Option.bind (strip_prefix [CHR 0x27] s) (strip_suffix [CHR 0x27])"

end
