(* ===== verification/PlSyntax.thy ===== *)
theory PlSyntax
  imports PlText
begin

text \<open>
  PL/pgSQL programs and the parser of single statements: the data types of
  crates/ordadb-plpgsql/src/language/contracts.rs, and compile\_statement with its helpers in
  statements.rs and runtime.rs. An instruction refers to locals, cursors and other
  instructions by index; expressions and SQL stay text in which the locals are positional
  parameters.
\<close>

section \<open>Programs\<close>

datatype local_kind = LkScalar | LkRecord | LkRowType string

record local_slot =
  ls_name :: string
  ls_constant :: bool
  ls_kind :: local_kind

record cursor_declaration =
  cd_name :: string
  cd_bound_query :: "string option"

datatype cursor_query = CqBound | CqStatic string | CqDynamic string "string list"

datatype cursor_direction =
    CdNext
  | CdPrior
  | CdFirst
  | CdLast
  | CdAbsolute string
  | CdRelative string
  | CdForward "string option"
  | CdForwardAll
  | CdBackward "string option"
  | CdBackwardAll

datatype raise_level = RlInfo | RlNotice | RlWarning | RlException

datatype instruction =
    InAssign nat string
  | InAssignField nat string string
  | InJumpIfFalse string nat
  | InJump nat
  | InExecuteSql string "nat option"
  | InDynamicExecute string "string list" "nat option" bool
  | InOpenCursor nat cursor_query
  | InFetchCursor nat cursor_direction nat
  | InMoveCursor nat cursor_direction
  | InCloseCursor nat
  | InRaise raise_level "string option" "string option"
  | InAssert string "string option"
  | InQueryForStart nat string nat
  | InQueryForNext nat nat
  | InIntegerForStart nat string string string bool nat
  | InIntegerForNext nat nat
  | InForeachStart nat string nat
  | InForeachNext nat nat
  | InReturn "string option" bool
  | InCheckpoint

datatype exception_matcher = EmSqlState string | EmOthers

record exception_handler =
  eh_protected_start :: nat
  eh_protected_end :: nat
  eh_matcher :: exception_matcher
  eh_target :: nat

record program =
  pg_version :: u16
  pg_instructions :: "instruction list"
  pg_locals :: "local_slot list"
  pg_cursors :: "cursor_declaration list"
  pg_handlers :: "exception_handler list"
  pg_sqlstate_slot :: "nat option"
  pg_sqlerrm_slot :: "nat option"

abbreviation (input) BYTECODE_VERSION :: u16 where "BYTECODE_VERSION \<equiv> 3"

record resource_limits =
  max_source_bytes :: nat
  max_tokens :: nat
  max_nesting :: nat
  max_instructions :: nat
  max_steps :: nat
  max_returned_rows :: nat
  max_dynamic_sql_bytes :: nat
  max_open_cursors :: nat
  max_cursor_rows :: nat
  max_cursor_bytes :: nat

definition limits_default :: resource_limits where
  "limits_default =
     \<lparr>max_source_bytes = 256 * 1024, max_tokens = 65536, max_nesting = 128, max_instructions = 65536,
      max_steps = 1000000, max_returned_rows = 100000, max_dynamic_sql_bytes = 1024 * 1024,
      max_open_cursors = 64, max_cursor_rows = 100000, max_cursor_bytes = 16 * 1024 * 1024\<rparr>"

section \<open>Cursors\<close>

text \<open>The local or the cursor of a name; names are compared without case.\<close>

definition lookup_name :: "db_error \<Rightarrow> name_table \<Rightarrow> string \<Rightarrow> nat res" where
  "lookup_name e names name = ok_or e (names (to_ascii_lowercase name))"

definition lookup_cursor :: "string \<Rightarrow> name_table \<Rightarrow> nat res" where
  "lookup_cursor name cursors = lookup_name E_34000 cursors name"

definition parse_open_cursor :: "string \<Rightarrow> name_table \<Rightarrow> name_table \<Rightarrow> cursor_declaration list \<Rightarrow> instruction res" where
  "parse_open_cursor statement names cursors declarations =
     (let rest = trim_text (drop 4 statement);
          (name, tail) = (case split_once_char is_space rest of Some (a, b) \<Rightarrow> (a, trim_start b) | None \<Rightarrow> (rest, []))
      in try_bind (lookup_cursor name cursors) (\<lambda>cursor.
         try_bind (ok_or E_XX000 (if cursor < length declarations then Some (declarations ! cursor) else None)) (\<lambda>declaration.
         try_bind
           (if tail = [] then guard_res (cd_bound_query declaration = None) E_42601 (Inr CqBound)
            else
              try_bind (ok_or E_42601 (strip_leading_keyword tail ''FOR'')) (\<lambda>body.
              guard_res (cd_bound_query declaration \<noteq> None) E_42601 (
              case strip_leading_keyword body ''EXECUTE'' of
                Some dynamic \<Rightarrow>
                  (let (query, arguments) = split_keyword dynamic ''USING'' in
                   guard_res (trim_text query = []) E_42601 (
                   try_bind (case arguments of
                       None \<Rightarrow> Inr []
                     | Some values \<Rightarrow> try_bind (split_top_level_expressions values)
                         (\<lambda>es. Inr (map (\<lambda>e. rewrite_locals (trim_text e) names) es))) (\<lambda>arguments.
                     Inr (CqDynamic (rewrite_locals (trim_text query) names) arguments))))
              | None \<Rightarrow>
                  guard_res (trim_text body = []) E_42601 (Inr (CqStatic (rewrite_locals (trim_text body) names))))))
           (\<lambda>query. Inr (InOpenCursor cursor query)))))"

definition parse_cursor_direction :: "string \<Rightarrow> name_table \<Rightarrow> cursor_direction res" where
  "parse_cursor_direction text names =
     (let s = trim_text text;
          (kind, amount) = (case split_once_char is_space s of Some (a, b) \<Rightarrow> (a, trim_text b) | None \<Rightarrow> (s, []));
          position = guard_res (amount = []) E_42601 (Inr (rewrite_locals amount names));
          count = (if amount = [] then None else Some (rewrite_locals amount names))
      in if s = [] \<or> eq_ignore_case s ''NEXT'' then Inr CdNext
         else if eq_ignore_case s ''PRIOR'' then Inr CdPrior
         else if eq_ignore_case s ''FIRST'' then Inr CdFirst
         else if eq_ignore_case s ''LAST'' then Inr CdLast
         else if eq_ignore_case kind ''ABSOLUTE'' then try_bind position (\<lambda>e. Inr (CdAbsolute e))
         else if eq_ignore_case kind ''RELATIVE'' then try_bind position (\<lambda>e. Inr (CdRelative e))
         else if eq_ignore_case kind ''FORWARD''
         then Inr (if eq_ignore_case amount ''ALL'' then CdForwardAll else CdForward count)
         else if eq_ignore_case kind ''BACKWARD''
         then Inr (if eq_ignore_case amount ''ALL'' then CdBackwardAll else CdBackward count)
         else Inl E_42601)"

definition parse_cursor_reference :: "string \<Rightarrow> name_table \<Rightarrow> name_table \<Rightarrow> (nat \<times> cursor_direction) res" where
  "parse_cursor_reference text names cursors =
     (let (direction, cursor_name) =
        (case split_keyword text ''FROM'' of
           (direction, Some cursor_name) \<Rightarrow> (direction, cursor_name)
         | (_, None) \<Rightarrow>
             (case split_keyword text ''IN'' of
                (direction, Some cursor_name) \<Rightarrow> (direction, cursor_name)
              | (direction, None) \<Rightarrow> ([], direction)))
      in guard_res (length (split_whitespace cursor_name) \<noteq> 1) E_42601 (
         try_bind (lookup_cursor cursor_name cursors) (\<lambda>cursor.
         try_bind (parse_cursor_direction direction names) (\<lambda>d. Inr (cursor, d)))))"

definition parse_fetch_cursor :: "string \<Rightarrow> name_table \<Rightarrow> name_table \<Rightarrow> instruction res" where
  "parse_fetch_cursor statement names cursors =
     (let (clause, into) = split_keyword (trim_text (drop 5 statement)) ''INTO'' in
      try_bind (ok_or E_42601 into) (\<lambda>into.
      guard_res (length (split_whitespace into) \<noteq> 1) E_0A000 (
      try_bind (lookup_name E_42703 names into) (\<lambda>target.
      try_bind (parse_cursor_reference clause names cursors) (\<lambda>(cursor, direction).
        Inr (InFetchCursor cursor direction target))))))"

definition parse_move_cursor :: "string \<Rightarrow> name_table \<Rightarrow> name_table \<Rightarrow> instruction res" where
  "parse_move_cursor statement names cursors =
     try_bind (parse_cursor_reference (trim_text (drop 4 statement)) names cursors)
       (\<lambda>(cursor, direction). Inr (InMoveCursor cursor direction))"

definition parse_close_cursor :: "string \<Rightarrow> name_table \<Rightarrow> instruction res" where
  "parse_close_cursor statement cursors =
     (let name = trim_text (drop 5 statement) in
      guard_res (length (split_whitespace name) \<noteq> 1) E_42601 (
      try_bind (lookup_cursor name cursors) (\<lambda>cursor. Inr (InCloseCursor cursor))))"

section \<open>RAISE\<close>

definition parse_raise_option :: "string \<Rightarrow> string option \<Rightarrow> string option res" where
  "parse_raise_option option sql_state =
     try_bind (ok_or E_42601 (split_once_char (\<lambda>c. c = CHR ''='') option)) (\<lambda>(name, text).
     guard_res (\<not> eq_ignore_case (trim_text name) ''ERRCODE'') E_0A000 (
     guard_res (sql_state \<noteq> None) E_42601 (
     try_bind (ok_or E_42601 (strip_quotes (trim_text text))) (\<lambda>state.
     try_bind (validate_sql_state state) (\<lambda>_. Inr (Some (to_ascii_uppercase state)))))))"

definition parse_raise_options :: "string \<Rightarrow> string option res" where
  "parse_raise_options options = fold_res parse_raise_option (split_on (CHR '','') options) None"

definition parse_raise_instruction :: "string \<Rightarrow> name_table \<Rightarrow> instruction res" where
  "parse_raise_instruction statement names =
     (let rest = trim_text (drop 5 statement) in
      if rest = [] then Inr (InRaise RlException None None)
      else
        let (first, tail) = (case split_once_char is_space rest of Some (a, b) \<Rightarrow> (a, trim_start b) | None \<Rightarrow> (rest, []));
            (level, body) =
              (if eq_ignore_case first ''INFO'' then (RlInfo, tail)
               else if eq_ignore_case first ''NOTICE'' then (RlNotice, tail)
               else if eq_ignore_case first ''WARNING'' then (RlWarning, tail)
               else if eq_ignore_case first ''EXCEPTION'' then (RlException, tail)
               else (RlException, rest));
            (message, options) = split_keyword body ''USING''
        in guard_res (trim_text message = []) E_0A000 (
           try_bind (case options of None \<Rightarrow> Inr None | Some options \<Rightarrow> parse_raise_options options) (\<lambda>sql_state.
             Inr (InRaise level (Some (rewrite_locals (trim_text message) names)) sql_state))))"

section \<open>Statements\<close>

definition parse_dynamic_into :: "string option \<Rightarrow> name_table \<Rightarrow> (nat option \<times> bool) res" where
  "parse_dynamic_into into names =
     (case into of
        None \<Rightarrow> Inr (None, False)
      | Some into \<Rightarrow>
          guard_res (list_ex (\<lambda>c. c = CHR '','') into) E_0A000 (
          case split_whitespace into of
            [] \<Rightarrow> Inl E_42601
          | first # parts \<Rightarrow>
              try_bind (if eq_ignore_case first ''STRICT''
                        then (case parts of [] \<Rightarrow> Inl E_42601 | target # parts \<Rightarrow> Inr (True, target, parts))
                        else Inr (False, first, parts)) (\<lambda>(strict, target, parts).
              guard_res (parts \<noteq> []) E_42601 (
              try_bind (lookup_name E_42703 names target) (\<lambda>slot. Inr (Some slot, strict))))))"

definition extract_select_into :: "string \<Rightarrow> name_table \<Rightarrow> (string \<times> nat option) res" where
  "extract_select_into statement names =
     (if \<not> starts_ignore_case ''SELECT '' statement then Inr (statement, None)
      else case split_once_str '' INTO '' (to_ascii_uppercase statement) of
        None \<Rightarrow> Inr (statement, None)
      | Some (head, _) \<Rightarrow>
          (let tail = drop (length head + 6) statement;
               variable = takeWhile (\<lambda>c. \<not> is_space c) tail
           in try_bind (lookup_name E_42703 names (trim_text variable)) (\<lambda>slot.
              let pre = trim_end (take (length head) statement);
                  after = trim_start (drop (length variable) tail)
              in Inr (if after = [] then pre else pre @ '' '' @ after, Some slot))))"

definition compile_assignment :: "string \<Rightarrow> string \<Rightarrow> name_table \<Rightarrow> instruction res" where
  "compile_assignment name expression names =
     (let target = trim_text name in
      case split_once_char (\<lambda>c. c = CHR ''.'') target of
        Some (rec, field) \<Rightarrow>
          guard_res (field = [] \<or> list_ex (\<lambda>c. c = CHR ''.'') field) E_42601 (
          try_bind (lookup_name E_42703 names (trim_text rec)) (\<lambda>slot.
            Inr (InAssignField slot (trim_text field) (rewrite_locals (trim_text expression) names))))
      | None \<Rightarrow>
          try_bind (lookup_name E_42703 names target) (\<lambda>slot.
            Inr (InAssign slot (rewrite_locals (trim_text expression) names))))"

definition compile_execute :: "string \<Rightarrow> name_table \<Rightarrow> instruction res" where
  "compile_execute statement names =
     (let (head, arguments) = split_keyword (trim_text (drop 8 statement)) ''USING'';
          (query, into) = split_keyword head ''INTO''
      in guard_res (trim_text query = []) E_42601 (
         try_bind (parse_dynamic_into into names) (\<lambda>(into, strict).
         try_bind (case arguments of
             None \<Rightarrow> Inr []
           | Some values \<Rightarrow> try_bind (split_top_level_expressions values)
               (\<lambda>es. Inr (map (\<lambda>e. rewrite_locals (trim_text e) names) es))) (\<lambda>arguments.
           Inr (InDynamicExecute (rewrite_locals (trim_text query) names) arguments into strict)))))"

definition compile_statement ::
  "string \<Rightarrow> name_table \<Rightarrow> name_table \<Rightarrow> cursor_declaration list \<Rightarrow> instruction res" where
  "compile_statement statement names cursors declarations =
     (let upper = to_ascii_uppercase statement in
      if starts_with ''OPEN '' upper then parse_open_cursor statement names cursors declarations
      else if starts_with ''FETCH '' upper then parse_fetch_cursor statement names cursors
      else if starts_with ''MOVE '' upper then parse_move_cursor statement names cursors
      else if starts_with ''CLOSE '' upper then parse_close_cursor statement cursors
      else if upper = ''RAISE'' \<or> starts_with ''RAISE '' upper then parse_raise_instruction statement names
      else if starts_with ''ASSERT '' upper then
        try_bind (split_top_level_comma (trim_text (drop 7 statement))) (\<lambda>(condition, message).
        guard_res (trim_text condition = []) E_42601 (
          Inr (InAssert (rewrite_locals (trim_text condition) names)
            (map_option (\<lambda>m. rewrite_locals (trim_text m) names) message))))
      else if starts_with ''RETURN NEXT '' upper then
        Inr (InReturn (Some (rewrite_locals (trim_text (drop 12 statement)) names)) True)
      else if upper = ''RETURN'' then Inr (InReturn None False)
      else if starts_with ''RETURN '' upper then
        Inr (InReturn (Some (rewrite_locals (trim_text (drop 7 statement)) names)) False)
      else if starts_with ''PERFORM '' upper then
        Inr (InExecuteSql (''SELECT '' @ rewrite_locals (trim_text (drop 8 statement)) names) None)
      else if starts_with ''EXECUTE '' upper then compile_execute statement names
      else case split_once_str '':='' statement of
        Some (name, expression) \<Rightarrow> compile_assignment name expression names
      | None \<Rightarrow>
          try_bind (extract_select_into statement names) (\<lambda>(sql, into).
            Inr (InExecuteSql (rewrite_locals sql names) into)))"

definition parse_exception_matcher :: "string \<Rightarrow> exception_matcher res" where
  "parse_exception_matcher s =
     (if eq_ignore_case s ''OTHERS'' then Inr EmOthers
      else case (if starts_ignore_case ''SQLSTATE'' s then strip_quotes (trim_text (drop 8 s)) else None) of
        Some state \<Rightarrow> try_bind (validate_sql_state state) (\<lambda>_. Inr (EmSqlState (to_ascii_uppercase state)))
      | None \<Rightarrow>
          try_bind (ok_or E_42704 (map_of
            [(''unique_violation'', ''23505''), (''division_by_zero'', ''22012''), (''null_value_not_allowed'', ''22004''),
             (''no_data_found'', ''P0002''), (''too_many_rows'', ''P0003''), (''assert_failure'', ''P0004''),
             (''raise_exception'', ''P0001'')] (to_ascii_lowercase (trim_text s)))) (\<lambda>state.
            Inr (EmSqlState state)))"

end
