(* ===== verification/PlCompiler.thy ===== *)
theory PlCompiler
  imports PlSyntax
begin

text \<open>
  The compiler of PL/pgSQL, crates/ordadb-plpgsql/src/language/compiler.rs: one pass over the
  logical lines that emits instructions and patches the targets of jumps when a control
  structure or a block is closed. The variables of the pass are the record \<open>compile_state\<close>; its
  stacks have the innermost frame first, while the vectors of the code have it last. A jump that
  waits for its target has the target \<open>usize_max\<close>.
\<close>

section \<open>State\<close>

record loop_frame =
  lp_label :: "string option"
  lp_start :: nat
  lp_false_jump :: "nat option"
  lp_exits :: "nat list"
  lp_continues :: "nat list"
  lp_query_start :: "nat option"
  lp_integer_start :: "nat option"
  lp_foreach_start :: "nat option"

datatype control_frame =
    CfIf "nat option" "nat list"
  | CfCase "string option" "nat option" "nat list" bool
  | CfLoop loop_frame

record block_frame =
  bf_label :: "string option"
  bf_protected_start :: nat
  bf_control_depth :: nat
  bf_outer_names :: name_table
  bf_outer_cursor_names :: name_table
  bf_protected_end :: "nat option"
  bf_skip_handlers :: "nat option"
  bf_end_jumps :: "nat list"
  bf_handler_indexes :: "nat list"
  bf_exits :: "nat list"
  bf_in_handlers :: bool

record compile_state =
  cs_locals :: "local_slot list"
  cs_names :: name_table
  cs_cursors :: "cursor_declaration list"
  cs_cursor_names :: name_table
  cs_code :: "instruction list"
  cs_controls :: "control_frame list"
  cs_declaring :: bool
  cs_handlers :: "exception_handler list"
  cs_blocks :: "block_frame list"
  cs_sqlstate :: "nat option"
  cs_sqlerrm :: "nat option"
  cs_label :: "string option"
  cs_block_label :: "string option"
  cs_pending_scope :: "(name_table \<times> name_table) option"
  cs_declared :: "string list"
  cs_shadowing :: bool

type_synonym pass = "compile_state \<Rightarrow> compile_state res"

section \<open>Emitting and patching\<close>

definition emit :: "instruction \<Rightarrow> compile_state \<Rightarrow> compile_state" where
  "emit i cs = cs\<lparr>cs_code := cs_code cs @ [i]\<rparr>"

definition patch_jump :: "nat \<Rightarrow> nat \<Rightarrow> instruction list \<Rightarrow> instruction list res" where
  "patch_jump target i code =
     (if i < length code
      then case code ! i of
             InJumpIfFalse e _ \<Rightarrow> Inr (code[i := InJumpIfFalse e target])
           | InJump _ \<Rightarrow> Inr (code[i := InJump target])
           | _ \<Rightarrow> Inl E_XX000
      else Inl E_XX000)"

definition patch_query_for_end :: "nat \<Rightarrow> nat \<Rightarrow> instruction list \<Rightarrow> instruction list res" where
  "patch_query_for_end target i code =
     (if i < length code
      then case code ! i of InQueryForStart slot sql _ \<Rightarrow> Inr (code[i := InQueryForStart slot sql target]) | _ \<Rightarrow> Inl E_XX000
      else Inl E_XX000)"

definition patch_integer_for_end :: "nat \<Rightarrow> nat \<Rightarrow> instruction list \<Rightarrow> instruction list res" where
  "patch_integer_for_end target i code =
     (if i < length code
      then case code ! i of
             InIntegerForStart slot l u s r _ \<Rightarrow> Inr (code[i := InIntegerForStart slot l u s r target]) | _ \<Rightarrow> Inl E_XX000
      else Inl E_XX000)"

definition patch_foreach_end :: "nat \<Rightarrow> nat \<Rightarrow> instruction list \<Rightarrow> instruction list res" where
  "patch_foreach_end target i code =
     (if i < length code
      then case code ! i of InForeachStart slot a _ \<Rightarrow> Inr (code[i := InForeachStart slot a target]) | _ \<Rightarrow> Inl E_XX000
      else Inl E_XX000)"

text \<open>The end of a loop over an iterator, by the kind of its frame.\<close>

definition patch_loop_end :: "loop_frame \<Rightarrow> nat \<Rightarrow> instruction list \<Rightarrow> instruction list res" where
  "patch_loop_end l target code =
     try_bind (if lp_query_start l \<noteq> None then patch_query_for_end target (lp_start l) code else Inr code) (\<lambda>code.
     try_bind (if lp_integer_start l \<noteq> None then patch_integer_for_end target (lp_start l) code else Inr code) (\<lambda>code.
     if lp_foreach_start l \<noteq> None then patch_foreach_end target (lp_start l) code else Inr code))"

text \<open>Several jumps get the same target, in the given order.\<close>

definition patch_all :: "nat \<Rightarrow> nat list \<Rightarrow> pass" where
  "patch_all target jumps cs = try_bind (fold_res (patch_jump target) jumps (cs_code cs)) (\<lambda>code. Inr (cs\<lparr>cs_code := code\<rparr>))"

abbreviation (input) opt_list :: "'a option \<Rightarrow> 'a list" where
  "opt_list x \<equiv> (case x of None \<Rightarrow> [] | Some y \<Rightarrow> [y])"

definition ensure_nesting :: "'a list \<Rightarrow> resource_limits \<Rightarrow> unit res" where
  "ensure_nesting frames limits = guard_res (max_nesting limits \<le> length frames) E_54001 (Inr ())"

definition ensure_instruction_limit :: "resource_limits \<Rightarrow> pass" where
  "ensure_instruction_limit limits cs = guard_res (max_instructions limits < length (cs_code cs)) E_54001 (Inr cs)"

section \<open>Declarations\<close>

definition declare_name :: "string \<Rightarrow> compile_state \<Rightarrow> unit res" where
  "declare_name key cs =
     guard_res (key \<in> set (cs_declared cs) \<or>
       \<not> cs_shadowing cs \<and> (cs_names cs key \<noteq> None \<or> cs_cursor_names cs key \<noteq> None)) E_42710 (Inr ())"

definition add_local :: "string \<Rightarrow> local_slot \<Rightarrow> compile_state \<Rightarrow> compile_state" where
  "add_local key l cs =
     cs\<lparr>cs_names := (cs_names cs)(key \<mapsto> length (cs_locals cs)), cs_locals := cs_locals cs @ [l]\<rparr>"

text \<open>\<open>None\<close> when the declaration is not one of a cursor.\<close>

definition compile_cursor_declaration :: "string \<Rightarrow> compile_state \<Rightarrow> compile_state option res" where
  "compile_cursor_declaration declaration cs =
     (let (head, bound_query) = split_keyword declaration ''CURSOR FOR'';
          is_refcursor = list_ex (\<lambda>w. eq_ignore_case w ''REFCURSOR'') (split_whitespace declaration)
      in if bound_query = None \<and> \<not> is_refcursor then Inr None
         else
           guard_res (contains_str '':='' declaration) E_0A000 (
           case split_whitespace head of
             [] \<Rightarrow> Inl E_42601
           | name # modifiers \<Rightarrow>
               guard_res (list_ex (\<lambda>c. c = CHR ''('' \<or> c = CHR '')'') name) E_0A000 (
               try_bind (case bound_query of
                   Some query \<Rightarrow>
                     guard_res (\<not> (modifiers = [] \<or>
                         length modifiers = 1 \<and> eq_ignore_case (modifiers ! 0) ''SCROLL'' \<or>
                         length modifiers = 2 \<and> eq_ignore_case (modifiers ! 0) ''NO'' \<and> eq_ignore_case (modifiers ! 1) ''SCROLL'')) E_42601 (
                     guard_res (trim_text query = []) E_42601 (Inr ()))
                 | None \<Rightarrow>
                     guard_res (length modifiers \<noteq> 1 \<or> \<not> eq_ignore_case (modifiers ! 0) ''REFCURSOR'') E_42601 (Inr ())) (\<lambda>_.
               let key = to_ascii_lowercase name in
               try_bind (declare_name key cs) (\<lambda>_.
               let cs = add_local key \<lparr>ls_name = name, ls_constant = False, ls_kind = LkScalar\<rparr> (cs\<lparr>cs_declared := key # cs_declared cs\<rparr>)
               in Inr (Some (cs\<lparr>cs_cursor_names := (cs_cursor_names cs)(key \<mapsto> length (cs_cursors cs)),
                    cs_cursors := cs_cursors cs @
                      [\<lparr>cd_name = name, cd_bound_query = map_option (\<lambda>q. rewrite_locals (trim_text q) (cs_names cs)) bound_query\<rparr>]\<rparr>)))))))"

definition declared_kind :: "string list \<Rightarrow> local_kind" where
  "declared_kind parts =
     (case List.map_filter (\<lambda>part.
        if eq_ignore_case part ''RECORD'' then Some LkRecord
        else map_option (\<lambda>_. LkRowType (take (length part - 8) part)) (strip_suffix ''%ROWTYPE'' (to_ascii_uppercase part))) parts of
        [] \<Rightarrow> LkScalar
      | k # _ \<Rightarrow> k)"

definition compile_variable :: "string \<Rightarrow> pass" where
  "compile_variable declaration cs =
     (let (head, initializer) =
        (case split_once_str '':='' declaration of
           Some (head, e) \<Rightarrow> (head, Some (trim_text e))
         | None \<Rightarrow> (declaration, None))
      in case split_whitespace head of
           [] \<Rightarrow> Inl E_42601
         | name # parts \<Rightarrow>
             (let key = to_ascii_lowercase name;
                  slot = length (cs_locals cs)
              in try_bind (declare_name key cs) (\<lambda>_.
                 let cs = add_local key
                       \<lparr>ls_name = name, ls_constant = list_ex (\<lambda>w. eq_ignore_case w ''CONSTANT'') parts, ls_kind = declared_kind parts\<rparr>
                       (cs\<lparr>cs_declared := key # cs_declared cs\<rparr>)
                 in Inr (case initializer of
                           None \<Rightarrow> cs
                         | Some e \<Rightarrow> emit (InAssign slot (rewrite_locals e (cs_names cs))) cs))))"

definition compile_declaration :: "string \<Rightarrow> pass" where
  "compile_declaration declaration cs =
     try_bind (compile_cursor_declaration declaration cs) (\<lambda>r.
       case r of Some cs' \<Rightarrow> Inr cs' | None \<Rightarrow> compile_variable declaration cs)"

section \<open>Blocks\<close>

definition line_label :: "string \<Rightarrow> pass" where
  "line_label label cs =
     guard_res (cs_declaring cs \<or> cs_block_label cs \<noteq> None \<or> cs_label cs \<noteq> None) E_42601 (Inr (cs\<lparr>cs_label := Some label\<rparr>))"

definition line_declare :: pass where
  "line_declare cs =
     guard_res (case cs_blocks cs of [] \<Rightarrow> False | b # _ \<Rightarrow> bf_in_handlers b) E_42601 (
     guard_res (cs_declaring cs \<or> cs_pending_scope cs \<noteq> None) E_42601 (
     guard_res (case cs_blocks cs of [] \<Rightarrow> False | b # _ \<Rightarrow> length (cs_controls cs) \<noteq> bf_control_depth b) E_42601 (
       Inr (cs\<lparr>cs_pending_scope := Some (cs_names cs, cs_cursor_names cs), cs_block_label := cs_label cs, cs_label := None,
               cs_declared := [], cs_shadowing := (cs_blocks cs \<noteq> []), cs_declaring := True\<rparr>))))"

definition line_begin :: "resource_limits \<Rightarrow> pass" where
  "line_begin limits cs =
     try_bind (ensure_nesting (cs_blocks cs) limits) (\<lambda>_.
     let (outer_names, outer_cursor_names) = (case cs_pending_scope cs of Some s \<Rightarrow> s | None \<Rightarrow> (cs_names cs, cs_cursor_names cs));
         label = (if cs_block_label cs \<noteq> None then cs_block_label cs else cs_label cs)
     in Inr (cs\<lparr>cs_pending_scope := None, cs_declaring := False, cs_declared := [],
          cs_label := (if cs_block_label cs \<noteq> None then cs_label cs else None), cs_block_label := None,
          cs_blocks := \<lparr>bf_label = label, bf_protected_start = length (cs_code cs), bf_control_depth = length (cs_controls cs),
            bf_outer_names = outer_names, bf_outer_cursor_names = outer_cursor_names, bf_protected_end = None,
            bf_skip_handlers = None, bf_end_jumps = [], bf_handler_indexes = [], bf_exits = [], bf_in_handlers = False\<rparr> # cs_blocks cs\<rparr>))"

definition ensure_diagnostic_local :: "string \<Rightarrow> compile_state \<Rightarrow> nat \<times> compile_state" where
  "ensure_diagnostic_local name cs =
     (case cs_names cs name of
        Some slot \<Rightarrow> (slot, cs)
      | None \<Rightarrow> (length (cs_locals cs), add_local name \<lparr>ls_name = name, ls_constant = False, ls_kind = LkScalar\<rparr> cs))"

definition line_exception :: pass where
  "line_exception cs =
     (case cs_blocks cs of
        [] \<Rightarrow> Inl E_42601
      | b # bs \<Rightarrow>
          guard_res (bf_in_handlers b) E_42601 (
          guard_res (length (cs_controls cs) \<noteq> bf_control_depth b) E_42601 (
          let (sqlstate, cs) = ensure_diagnostic_local ''sqlstate'' cs;
              (sqlerrm, cs) = ensure_diagnostic_local ''sqlerrm'' cs
          in Inr (emit (InJump usize_max) (cs\<lparr>cs_declaring := False, cs_sqlstate := Some sqlstate, cs_sqlerrm := Some sqlerrm,
               cs_blocks := b\<lparr>bf_in_handlers := True, bf_protected_end := Some (length (cs_code cs)),
                 bf_skip_handlers := Some (length (cs_code cs))\<rparr> # bs\<rparr>)))))"

definition line_handler :: "resource_limits \<Rightarrow> string \<Rightarrow> block_frame \<Rightarrow> block_frame list \<Rightarrow> pass" where
  "line_handler limits t b bs cs =
     try_bind (ok_or E_XX000 (bf_protected_end b)) (\<lambda>protected_end.
     let jump = length (cs_code cs);
         cs = (if bf_handler_indexes b \<noteq> [] then emit (InJump usize_max) cs else cs);
         end_jumps = (if bf_handler_indexes b \<noteq> [] then bf_end_jumps b @ [jump] else bf_end_jumps b)
     in try_bind (slice_str 5 (length t - 5) t) (\<lambda>text.
        try_bind (parse_exception_matcher (trim_text text)) (\<lambda>m.
        guard_res (list_ex (\<lambda>i. eh_matcher (cs_handlers cs ! i) = EmOthers) (bf_handler_indexes b)) E_42601 (
          ensure_instruction_limit limits (cs\<lparr>
            cs_handlers := cs_handlers cs @ [\<lparr>eh_protected_start = bf_protected_start b, eh_protected_end = protected_end,
              eh_matcher = m, eh_target = length (cs_code cs)\<rparr>],
            cs_blocks := b\<lparr>bf_end_jumps := end_jumps,
              bf_handler_indexes := bf_handler_indexes b @ [length (cs_handlers cs)]\<rparr> # bs\<rparr>)))))"

definition line_end :: "string option \<Rightarrow> pass" where
  "line_end closing_label cs =
     (case cs_blocks cs of
        [] \<Rightarrow> Inl E_42601
      | b # bs \<Rightarrow>
          guard_res (length (cs_controls cs) \<noteq> bf_control_depth b) E_42601 (
          guard_res (closing_label \<noteq> None \<and> closing_label \<noteq> bf_label b) E_42601 (
          guard_res (bf_in_handlers b \<and> bf_handler_indexes b = []) E_42601 (
          try_bind (patch_all (length (cs_code cs))
              ((if bf_in_handlers b then opt_list (bf_skip_handlers b) @ bf_end_jumps b else []) @ bf_exits b) cs) (\<lambda>cs.
            Inr (cs\<lparr>cs_blocks := bs, cs_names := bf_outer_names b, cs_cursor_names := bf_outer_cursor_names b\<rparr>))))))"

section \<open>Conditionals\<close>

text \<open>The condition between the keyword of a line and its THEN or LOOP.\<close>

definition condition_text :: "nat \<Rightarrow> string \<Rightarrow> string res" where
  "condition_text k t = try_bind (slice_str k (length t - 5) t) (\<lambda>s. Inr (trim_text s))"

definition line_if :: "resource_limits \<Rightarrow> string \<Rightarrow> pass" where
  "line_if limits t cs =
     try_bind (ensure_nesting (cs_controls cs) limits) (\<lambda>_.
     try_bind (condition_text 3 t) (\<lambda>expression.
       Inr (emit (InJumpIfFalse (rewrite_locals expression (cs_names cs)) usize_max)
         (cs\<lparr>cs_controls := CfIf (Some (length (cs_code cs))) [] # cs_controls cs\<rparr>))))"

definition line_elsif :: "string \<Rightarrow> pass" where
  "line_elsif t cs =
     (case cs_controls cs of
        CfIf pending_false end_jumps # controls \<Rightarrow>
          (let jump = length (cs_code cs); cs = emit (InJump usize_max) cs in
           try_bind (patch_all (length (cs_code cs)) (opt_list pending_false) cs) (\<lambda>cs.
           try_bind (condition_text 6 t) (\<lambda>expression.
             Inr (emit (InJumpIfFalse (rewrite_locals expression (cs_names cs)) usize_max)
               (cs\<lparr>cs_controls := CfIf (Some (length (cs_code cs))) (end_jumps @ [jump]) # controls\<rparr>)))))
      | _ \<Rightarrow> Inl E_42601)"

definition line_else :: pass where
  "line_else cs =
     (let jump = length (cs_code cs); cs' = emit (InJump usize_max) cs in
      case cs_controls cs of
        CfIf pending_false end_jumps # controls \<Rightarrow>
          patch_all (length (cs_code cs')) (opt_list pending_false) (cs'\<lparr>cs_controls := CfIf None (end_jumps @ [jump]) # controls\<rparr>)
      | CfCase operand pending_false end_jumps branch_started # controls \<Rightarrow>
          guard_res (\<not> branch_started) E_42601 (
            patch_all (length (cs_code cs')) (opt_list pending_false)
              (cs'\<lparr>cs_controls := CfCase operand None (end_jumps @ [jump]) branch_started # controls\<rparr>))
      | _ \<Rightarrow> Inl E_42601)"

definition line_end_if :: pass where
  "line_end_if cs =
     (case cs_controls cs of
        CfIf pending_false end_jumps # controls \<Rightarrow>
          patch_all (length (cs_code cs)) (opt_list pending_false @ end_jumps) (cs\<lparr>cs_controls := controls\<rparr>)
      | _ \<Rightarrow> Inl E_42601)"

definition line_case :: "resource_limits \<Rightarrow> string \<Rightarrow> pass" where
  "line_case limits t cs =
     try_bind (ensure_nesting (cs_controls cs) limits) (\<lambda>_.
     let operand = (if to_ascii_uppercase t = ''CASE'' then None else Some (rewrite_locals (trim_text (drop 5 t)) (cs_names cs)))
     in Inr (cs\<lparr>cs_controls := CfCase operand None [] False # cs_controls cs\<rparr>))"

definition line_when :: "string \<Rightarrow> pass" where
  "line_when t cs =
     (case cs_controls cs of
        CfCase operand pending_false end_jumps branch_started # controls \<Rightarrow>
          (let jump = length (cs_code cs);
               cs' = emit (InJump usize_max) cs
           in try_bind (if branch_started then patch_all (length (cs_code cs')) (opt_list pending_false) cs' else Inr cs) (\<lambda>cs.
              try_bind (condition_text 5 t) (\<lambda>text.
              let branch = rewrite_locals text (cs_names cs);
                  expression = (case operand of None \<Rightarrow> branch | Some o' \<Rightarrow> ''('' @ o' @ '') = ('' @ branch @ '')'')
              in Inr (emit (InJumpIfFalse expression usize_max)
                (cs\<lparr>cs_controls := CfCase operand (Some (length (cs_code cs)))
                  (if branch_started then end_jumps @ [jump] else end_jumps) True # controls\<rparr>)))))
      | _ \<Rightarrow> Inl E_42601)"

definition line_end_case :: pass where
  "line_end_case cs =
     (case cs_controls cs of
        CfCase operand pending_false end_jumps branch_started # controls \<Rightarrow>
          guard_res (\<not> branch_started) E_42601 (
            patch_all (length (cs_code cs)) (opt_list pending_false @ end_jumps) (cs\<lparr>cs_controls := controls\<rparr>))
      | _ \<Rightarrow> Inl E_42601)"

section \<open>Loops\<close>

definition new_loop :: "compile_state \<Rightarrow> loop_frame" where
  "new_loop cs =
     \<lparr>lp_label = cs_label cs, lp_start = length (cs_code cs), lp_false_jump = None, lp_exits = [], lp_continues = [],
      lp_query_start = None, lp_integer_start = None, lp_foreach_start = None\<rparr>"

definition open_loop :: "loop_frame \<Rightarrow> compile_state \<Rightarrow> compile_state" where
  "open_loop l cs = cs\<lparr>cs_controls := CfLoop l # cs_controls cs, cs_label := None\<rparr>"

definition line_while :: "resource_limits \<Rightarrow> string \<Rightarrow> pass" where
  "line_while limits t cs =
     try_bind (ensure_nesting (cs_controls cs) limits) (\<lambda>_.
     try_bind (condition_text 6 t) (\<lambda>expression.
       Inr (emit (InJumpIfFalse (rewrite_locals expression (cs_names cs)) usize_max)
         (open_loop ((new_loop cs)\<lparr>lp_false_jump := Some (length (cs_code cs))\<rparr>) cs))))"

definition line_foreach :: "resource_limits \<Rightarrow> string \<Rightarrow> pass" where
  "line_foreach limits t cs =
     try_bind (ensure_nesting (cs_controls cs) limits) (\<lambda>_.
     try_bind (condition_text 8 t) (\<lambda>rest.
     let (target, array) = split_keyword rest ''IN ARRAY'' in
     try_bind (ok_or E_42601 array) (\<lambda>array.
     guard_res (list_ex (\<lambda>w. eq_ignore_case w ''SLICE'') (split_whitespace target)) E_0A000 (
     guard_res (length (split_whitespace target) \<noteq> 1 \<or> trim_text array = []) E_42601 (
     try_bind (lookup_name E_42703 (cs_names cs) target) (\<lambda>slot.
       Inr (emit (InForeachStart slot (rewrite_locals (trim_text array) (cs_names cs)) usize_max)
         (open_loop ((new_loop cs)\<lparr>lp_foreach_start := Some (length (cs_code cs))\<rparr>) cs))))))))"

definition line_for :: "resource_limits \<Rightarrow> string \<Rightarrow> pass" where
  "line_for limits t cs =
     try_bind (ensure_nesting (cs_controls cs) limits) (\<lambda>_.
     try_bind (condition_text 4 t) (\<lambda>rest.
     let (target, source) = split_keyword rest ''IN'' in
     try_bind (ok_or E_42601 source) (\<lambda>source.
     try_bind (lookup_name E_42703 (cs_names cs) (trim_text target)) (\<lambda>slot.
     let (reverse, source) =
       (case strip_leading_keyword (trim_text source) ''REVERSE'' of Some s \<Rightarrow> (True, s) | None \<Rightarrow> (False, trim_text source))
     in if starts_ignore_case ''SELECT'' source
        then guard_res reverse E_42601 (
          Inr (emit (InQueryForStart slot (rewrite_locals source (cs_names cs)) usize_max)
            (open_loop ((new_loop cs)\<lparr>lp_query_start := Some (length (cs_code cs))\<rparr>) cs)))
        else
          (let (range, step) = split_keyword source ''BY'' in
           try_bind (ok_or E_0A000 (split_once_str ''..'' range)) (\<lambda>(lower, upper).
           guard_res (trim_text lower = [] \<or> trim_text upper = [] \<or> contains_str ''..'' upper) E_42601 (
             let rewrite = (\<lambda>e. rewrite_locals (trim_text e) (cs_names cs)) in
             Inr (emit (InIntegerForStart slot (rewrite lower) (rewrite upper)
                 (rewrite (case step of None \<Rightarrow> ''1'' | Some s \<Rightarrow> s)) reverse usize_max)
               (open_loop ((new_loop cs)\<lparr>lp_integer_start := Some (length (cs_code cs))\<rparr>) cs)))))))))"

definition line_loop :: "resource_limits \<Rightarrow> pass" where
  "line_loop limits cs =
     try_bind (ensure_nesting (cs_controls cs) limits) (\<lambda>_. Inr (open_loop (new_loop cs) cs))"

text \<open>The innermost loop, or the innermost one with the label; \<open>None\<close> when there is none.\<close>

fun update_loop :: "string option \<Rightarrow> (loop_frame \<Rightarrow> loop_frame) \<Rightarrow> control_frame list \<Rightarrow> (loop_frame \<times> control_frame list) option" where
  "update_loop label f [] = None"
| "update_loop label f (CfLoop l # fs) =
     (if label = None \<or> lp_label l = label then Some (l, CfLoop (f l) # fs)
      else map_option (\<lambda>(l', fs'). (l', CfLoop l # fs')) (update_loop label f fs))"
| "update_loop label f (x # fs) = map_option (\<lambda>(l', fs'). (l', x # fs')) (update_loop label f fs)"

fun update_block :: "string option \<Rightarrow> (block_frame \<Rightarrow> block_frame) \<Rightarrow> block_frame list \<Rightarrow> block_frame list option" where
  "update_block label f [] = None"
| "update_block label f (b # bs) =
     (if bf_label b = label then Some (f b # bs) else map_option ((#) b) (update_block label f bs))"

definition loop_deferred :: "loop_frame \<Rightarrow> bool" where
  "loop_deferred l \<longleftrightarrow> lp_query_start l \<noteq> None \<or> lp_integer_start l \<noteq> None \<or> lp_foreach_start l \<noteq> None"

definition line_exit_continue :: "bool \<Rightarrow> string \<Rightarrow> pass" where
  "line_exit_continue is_exit t cs =
     try_bind (parse_loop_control t (if is_exit then ''EXIT'' else ''CONTINUE'')) (\<lambda>(label, condition).
     try_bind (case condition of
         None \<Rightarrow> Inr cs
       | Some condition \<Rightarrow>
           guard_res (trim_text condition = []) E_42601 (
             Inr (emit (InJumpIfFalse (rewrite_locals (trim_text condition) (cs_names cs)) (length (cs_code cs) + 2)) cs))) (\<lambda>cs.
     let jump = length (cs_code cs) in
     if is_exit \<and> label \<noteq> None \<and> update_loop label id (cs_controls cs) = None
     then
       try_bind (ok_or E_42601 (update_block label (\<lambda>b. b\<lparr>bf_exits := bf_exits b @ [jump]\<rparr>) (cs_blocks cs))) (\<lambda>blocks.
         Inr (emit (InJump usize_max) (cs\<lparr>cs_blocks := blocks\<rparr>)))
     else
       try_bind (ok_or E_42601 (update_loop label (\<lambda>l.
           if is_exit then l\<lparr>lp_exits := lp_exits l @ [jump]\<rparr>
           else if loop_deferred l then l\<lparr>lp_continues := lp_continues l @ [jump]\<rparr> else l) (cs_controls cs))) (\<lambda>(l, controls).
         Inr (emit (InJump (if is_exit \<or> loop_deferred l then usize_max else lp_start l)) (cs\<lparr>cs_controls := controls\<rparr>)))))"

definition loop_advance :: "loop_frame \<Rightarrow> instruction res" where
  "loop_advance l =
     (case (lp_query_start l, lp_integer_start l, lp_foreach_start l) of
        (Some s, None, None) \<Rightarrow> Inr (InQueryForNext s (s + 1))
      | (None, Some s, None) \<Rightarrow> Inr (InIntegerForNext s (s + 1))
      | (None, None, Some s) \<Rightarrow> Inr (InForeachNext s (s + 1))
      | (None, None, None) \<Rightarrow> Inr (InJump (lp_start l))
      | _ \<Rightarrow> Inl E_XX000)"

definition line_end_loop :: "string \<Rightarrow> pass" where
  "line_end_loop t cs =
     (let label_text = trim_text (drop 8 t) in
      try_bind (if label_text = [] then Inr None else try_bind (normalize_label label_text) (\<lambda>l. Inr (Some l))) (\<lambda>closing_label.
      case cs_controls cs of
        CfLoop l # controls \<Rightarrow>
          guard_res (closing_label \<noteq> None \<and> closing_label \<noteq> lp_label l) E_42601 (
          let continue_target = length (cs_code cs) in
          try_bind (loop_advance l) (\<lambda>advance.
          let cs = emit advance (cs\<lparr>cs_controls := controls\<rparr>); exit = length (cs_code cs) in
          try_bind (patch_all exit (opt_list (lp_false_jump l)) cs) (\<lambda>cs.
          try_bind (patch_loop_end l exit (cs_code cs)) (\<lambda>code.
          try_bind (patch_all exit (lp_exits l) (cs\<lparr>cs_code := code\<rparr>))
            (patch_all continue_target (lp_continues l))))))
      | _ \<Rightarrow> Inl E_42601))"

section \<open>Lines\<close>

definition line_statement :: "string \<Rightarrow> pass" where
  "line_statement t cs =
     guard_res (case cs_blocks cs of [] \<Rightarrow> False | b # _ \<Rightarrow> bf_in_handlers b \<and> bf_handler_indexes b = []) E_42601 (
     try_bind (compile_statement t (cs_names cs) (cs_cursor_names cs) (cs_cursors cs)) (\<lambda>i. Inr (emit i cs)))"

definition compile_control :: "resource_limits \<Rightarrow> string \<Rightarrow> string \<Rightarrow> pass" where
  "compile_control limits t upper =
     (if starts_with ''IF '' upper \<and> ends_with '' THEN'' upper then line_if limits t
      else if starts_with ''ELSIF '' upper \<and> ends_with '' THEN'' upper then line_elsif t
      else if upper = ''ELSE'' then line_else
      else if upper = ''END IF'' then line_end_if
      else if upper = ''CASE'' \<or> starts_with ''CASE '' upper then line_case limits t
      else if starts_with ''WHEN '' upper \<and> ends_with '' THEN'' upper then line_when t
      else if upper = ''END CASE'' then line_end_case
      else if starts_with ''WHILE '' upper \<and> ends_with '' LOOP'' upper then line_while limits t
      else if starts_with ''FOREACH '' upper \<and> ends_with '' LOOP'' upper then line_foreach limits t
      else if starts_with ''FOR '' upper \<and> ends_with '' LOOP'' upper then line_for limits t
      else if upper = ''LOOP'' then line_loop limits
      else if upper = ''EXIT'' \<or> starts_with ''EXIT '' upper then line_exit_continue True t
      else if upper = ''CONTINUE'' \<or> starts_with ''CONTINUE '' upper then line_exit_continue False t
      else if upper = ''END LOOP'' \<or> starts_with ''END LOOP '' upper then line_end_loop t
      else line_statement t)"

definition handler_line :: "string \<Rightarrow> compile_state \<Rightarrow> bool" where
  "handler_line upper cs \<longleftrightarrow>
     (case cs_blocks cs of [] \<Rightarrow> False | b # _ \<Rightarrow> bf_in_handlers b \<and> length (cs_controls cs) = bf_control_depth b) \<and>
     starts_with ''WHEN '' upper \<and> ends_with '' THEN'' upper"

definition compile_line :: "resource_limits \<Rightarrow> string \<Rightarrow> pass" where
  "compile_line limits line cs =
     (let t = trim_text line; upper = to_ascii_uppercase t in
      if t = [] then Inr cs
      else try_bind (parse_label t) (\<lambda>label.
        case label of
          Some l \<Rightarrow> line_label l cs
        | None \<Rightarrow>
            (let starts_loop = ((starts_with ''WHILE '' upper \<or> starts_with ''FOREACH '' upper \<or> starts_with ''FOR '' upper) \<and>
                   ends_with '' LOOP'' upper) \<or> upper = ''LOOP''
             in guard_res (cs_label cs \<noteq> None \<and> \<not> starts_loop \<and> upper \<noteq> ''DECLARE'' \<and> upper \<noteq> ''BEGIN'') E_42601 (
                if upper = ''DECLARE'' then line_declare cs
                else if upper = ''BEGIN'' then line_begin limits cs
                else if upper = ''EXCEPTION'' then line_exception cs
                else if handler_line upper cs then line_handler limits t (hd (cs_blocks cs)) (tl (cs_blocks cs)) cs
                else try_bind (parse_block_end_label t) (\<lambda>closing.
                  case closing of
                    Some closing_label \<Rightarrow> line_end closing_label cs
                  | None \<Rightarrow>
                      try_bind (if cs_declaring cs then compile_declaration t cs else compile_control limits t upper cs)
                        (ensure_instruction_limit limits))))))"

section \<open>Programs\<close>

definition initial_state :: compile_state where
  "initial_state =
     \<lparr>cs_locals = [], cs_names = (\<lambda>_. None), cs_cursors = [], cs_cursor_names = (\<lambda>_. None), cs_code = [], cs_controls = [],
      cs_declaring = False, cs_handlers = [], cs_blocks = [], cs_sqlstate = None, cs_sqlerrm = None, cs_label = None,
      cs_block_label = None, cs_pending_scope = None, cs_declared = [], cs_shadowing = False\<rparr>"

definition compile_argument :: "string \<Rightarrow> pass" where
  "compile_argument name cs =
     guard_res (cs_names cs (to_ascii_lowercase name) \<noteq> None) E_42710 (
       Inr (add_local (to_ascii_lowercase name) \<lparr>ls_name = name, ls_constant = False, ls_kind = LkScalar\<rparr> cs))"

definition finish_program :: "resource_limits \<Rightarrow> compile_state \<Rightarrow> program res" where
  "finish_program limits cs =
     guard_res (cs_controls cs \<noteq> []) E_42601 (
     guard_res (cs_label cs \<noteq> None \<or> cs_block_label cs \<noteq> None) E_42601 (
     guard_res (cs_declaring cs \<or> cs_pending_scope cs \<noteq> None) E_42601 (
     guard_res (cs_blocks cs \<noteq> []) E_42601 (
     try_bind (ensure_instruction_limit limits (emit InCheckpoint cs)) (\<lambda>cs.
       Inr \<lparr>pg_version = BYTECODE_VERSION, pg_instructions = cs_code cs, pg_locals = cs_locals cs, pg_cursors = cs_cursors cs,
            pg_handlers = cs_handlers cs, pg_sqlstate_slot = cs_sqlstate cs, pg_sqlerrm_slot = cs_sqlerrm cs\<rparr>)))))"

definition compile_with_arguments_and_limits :: "string \<Rightarrow> string list \<Rightarrow> resource_limits \<Rightarrow> program res" where
  "compile_with_arguments_and_limits source arguments limits =
     guard_res (max_source_bytes limits < byte_len source) E_54001 (
     try_bind (logical_lines source) (\<lambda>lines.
     guard_res (max_tokens limits < sum_list (map (\<lambda>l. length (split_whitespace l)) lines)) E_54001 (
     try_bind (fold_res compile_argument arguments initial_state) (\<lambda>cs.
     try_bind (fold_res (compile_line limits) lines cs) (finish_program limits)))))"

definition compile_with_limits :: "string \<Rightarrow> resource_limits \<Rightarrow> program res" where
  "compile_with_limits source limits = compile_with_arguments_and_limits source [] limits"

definition compile_with_arguments :: "string \<Rightarrow> string list \<Rightarrow> program res" where
  "compile_with_arguments source arguments = compile_with_arguments_and_limits source arguments limits_default"

definition compile :: "string \<Rightarrow> program res" where
  "compile source = compile_with_limits source limits_default"

end
