(* ===== verification/PlCompilerSafety.thy ===== *)
theory PlCompilerSafety
  imports PlCompiler "HOL-Library.Code_Target_Nat"
begin

text \<open>
  What the PL/pgSQL compiler promises: \<open>program_ok\<close> of everything that it returns. Every jump has
  been patched and lies in the program, the two instructions of a loop refer to each other,
  every local and cursor index is declared, and handlers lie behind the code they protect. The
  invariant \<open>cs_ok\<close> of the pass says the same of the code so far, with the jumps and loops that
  the open frames are going to patch.
\<close>

section \<open>Well-formed code\<close>

fun is_jump :: "instruction \<Rightarrow> bool" where
  "is_jump (InJumpIfFalse _ _) = True"
| "is_jump (InJump _) = True"
| "is_jump _ = False"

fun instr_targets :: "instruction \<Rightarrow> nat list" where
  "instr_targets (InJumpIfFalse _ t) = [t]"
| "instr_targets (InJump t) = [t]"
| "instr_targets (InQueryForStart _ _ e) = [e]"
| "instr_targets (InIntegerForStart _ _ _ _ _ e) = [e]"
| "instr_targets (InForeachStart _ _ e) = [e]"
| "instr_targets (InQueryForNext _ b) = [b]"
| "instr_targets (InIntegerForNext _ b) = [b]"
| "instr_targets (InForeachNext _ b) = [b]"
| "instr_targets _ = []"

fun instr_slots :: "instruction \<Rightarrow> nat list" where
  "instr_slots (InAssign s _) = [s]"
| "instr_slots (InAssignField s _ _) = [s]"
| "instr_slots (InExecuteSql _ into) = opt_list into"
| "instr_slots (InDynamicExecute _ _ into _) = opt_list into"
| "instr_slots (InFetchCursor _ _ s) = [s]"
| "instr_slots (InQueryForStart s _ _) = [s]"
| "instr_slots (InIntegerForStart s _ _ _ _ _) = [s]"
| "instr_slots (InForeachStart s _ _) = [s]"
| "instr_slots _ = []"

fun instr_cursors :: "instruction \<Rightarrow> nat list" where
  "instr_cursors (InOpenCursor c _) = [c]"
| "instr_cursors (InFetchCursor c _ _) = [c]"
| "instr_cursors (InMoveCursor c _) = [c]"
| "instr_cursors (InCloseCursor c) = [c]"
| "instr_cursors _ = []"

text \<open>The two instructions of a loop over an iterator, and when they fit together.\<close>

datatype loop_kind = QueryLoop | IntegerLoop | ForeachLoop

fun start_info :: "instruction \<Rightarrow> (loop_kind \<times> nat) option" where
  "start_info (InQueryForStart _ _ e) = Some (QueryLoop, e)"
| "start_info (InIntegerForStart _ _ _ _ _ e) = Some (IntegerLoop, e)"
| "start_info (InForeachStart _ _ e) = Some (ForeachLoop, e)"
| "start_info _ = None"

fun next_info :: "instruction \<Rightarrow> (loop_kind \<times> nat \<times> nat) option" where
  "next_info (InQueryForNext s b) = Some (QueryLoop, s, b)"
| "next_info (InIntegerForNext s b) = Some (IntegerLoop, s, b)"
| "next_info (InForeachNext s b) = Some (ForeachLoop, s, b)"
| "next_info _ = None"

definition next_start :: "instruction \<Rightarrow> nat option" where
  "next_start i = map_option (\<lambda>(k, s, b). s) (next_info i)"

definition loop_match :: "instruction \<Rightarrow> instruction \<Rightarrow> nat \<Rightarrow> bool" where
  "loop_match a b i \<longleftrightarrow> (\<exists>k s. start_info a = Some (k, i + 1) \<and> next_info b = Some (k, s, s + 1))"

definition paired :: "instruction list \<Rightarrow> nat \<Rightarrow> bool" where
  "paired code i \<longleftrightarrow> (\<forall>s. next_start (code ! i) = Some s \<longrightarrow> s < i \<and> loop_match (code ! s) (code ! i) i)"

definition instr_ok :: "nat \<Rightarrow> nat \<Rightarrow> instruction \<Rightarrow> bool" where
  "instr_ok nl nc i \<longleftrightarrow> (\<forall>s \<in> set (instr_slots i). s < nl) \<and> (\<forall>c \<in> set (instr_cursors i). c < nc)"

definition handler_ok :: "nat \<Rightarrow> exception_handler \<Rightarrow> bool" where
  "handler_ok n h \<longleftrightarrow> eh_protected_start h \<le> eh_protected_end h \<and> eh_protected_end h < eh_target h \<and> eh_target h \<le> n"

definition slot_ok :: "nat \<Rightarrow> nat option \<Rightarrow> bool" where
  "slot_ok nl s \<longleftrightarrow> (\<forall>i. s = Some i \<longrightarrow> i < nl)"

definition program_ok :: "program \<Rightarrow> bool" where
  "program_ok p \<longleftrightarrow>
     (let code = pg_instructions p; n = length code in
      pg_version p = BYTECODE_VERSION \<and>
      (\<forall>i < n. (\<forall>t \<in> set (instr_targets (code ! i)). t < n) \<and> paired code i \<and>
        instr_ok (length (pg_locals p)) (length (pg_cursors p)) (code ! i)) \<and>
      (\<forall>h \<in> set (pg_handlers p). handler_ok (n - 1) h) \<and> 0 < n \<and>
      slot_ok (length (pg_locals p)) (pg_sqlstate_slot p) \<and> slot_ok (length (pg_locals p)) (pg_sqlerrm_slot p))"

section \<open>The code of the pass\<close>

definition code_ok :: "instruction list \<Rightarrow> nat set \<Rightarrow> nat \<Rightarrow> nat \<Rightarrow> bool" where
  "code_ok code pend nl nc \<longleftrightarrow>
     (\<forall>i < length code. (i \<in> pend \<or> (\<forall>t \<in> set (instr_targets (code ! i)). t \<le> length code)) \<and> paired code i \<and>
        instr_ok nl nc (code ! i))"

definition jumps_ok :: "instruction list \<Rightarrow> nat list \<Rightarrow> bool" where
  "jumps_ok code js \<longleftrightarrow> (\<forall>j \<in> set js. j < length code \<and> is_jump (code ! j))"

text \<open>A change of the code that touches jumps only.\<close>

definition same_shape :: "instruction list \<Rightarrow> instruction list \<Rightarrow> bool" where
  "same_shape code code' \<longleftrightarrow> length code' = length code \<and>
     (\<forall>i < length code. is_jump (code' ! i) = is_jump (code ! i) \<and> (\<not> is_jump (code ! i) \<longrightarrow> code' ! i = code ! i))"

lemma same_shape_refl [simp]: "same_shape code code"
  by (simp add: same_shape_def)

lemma same_shape_trans: "same_shape a b \<Longrightarrow> same_shape b c \<Longrightarrow> same_shape a c"
  by (auto simp: same_shape_def)

lemma same_shape_length: "same_shape code code' \<Longrightarrow> length code' = length code"
  by (simp add: same_shape_def)

lemma jump_facts: "is_jump i \<Longrightarrow> next_start i = None \<and> \<not> loop_match i j e \<and> instr_slots i = [] \<and> instr_cursors i = []"
  by (cases i) (simp_all add: next_start_def loop_match_def)

lemma loop_match_next: "loop_match a b e \<Longrightarrow> \<not> is_jump a \<and> \<not> is_jump b"
  unfolding loop_match_def by (metis is_jump.elims(2) next_info.simps start_info.simps option.distinct(1))

lemma paired_shape: "same_shape code code' \<Longrightarrow> i < length code \<Longrightarrow> paired code i \<Longrightarrow> paired code' i"
  unfolding paired_def same_shape_def
  by (metis jump_facts loop_match_next option.distinct(1) order.strict_trans)

lemma instr_ok_shape: "same_shape code code' \<Longrightarrow> i < length code \<Longrightarrow> instr_ok nl nc (code ! i) \<Longrightarrow> instr_ok nl nc (code' ! i)"
  unfolding same_shape_def instr_ok_def using jump_facts by (metis empty_iff list.set(1))

lemma jumps_ok_shape: "same_shape code code' \<Longrightarrow> jumps_ok code js \<Longrightarrow> jumps_ok code' js"
  by (auto simp: same_shape_def jumps_ok_def)

lemma patch_jump_ok:
  assumes "j < length code" and "is_jump (code ! j)"
  shows "\<exists>code'. patch_jump target j code = Inr code' \<and> same_shape code code' \<and> instr_targets (code' ! j) = [target] \<and>
    (\<forall>i. i \<noteq> j \<longrightarrow> code' ! i = code ! i)"
  using assms by (cases "code ! j") (auto simp: patch_jump_def same_shape_def nth_list_update)

lemma patch_jump_code_ok:
  assumes "code_ok code pend nl nc" and "jumps_ok code [j]" and "target \<le> length code"
  obtains code' where "patch_jump target j code = Inr code'" and "same_shape code code'" and "code_ok code' (pend - {j}) nl nc"
proof -
  have j: "j < length code" "is_jump (code ! j)" using assms(2) by (simp_all add: jumps_ok_def)
  from patch_jump_ok [OF j, of target] obtain code' where p: "patch_jump target j code = Inr code'"
    and s: "same_shape code code'" and t: "instr_targets (code' ! j) = [target]" and o': "\<forall>i. i \<noteq> j \<longrightarrow> code' ! i = code ! i"
    by blast
  have "code_ok code' (pend - {j}) nl nc"
    unfolding code_ok_def
  proof (intro allI impI conjI)
    fix i
    assume "i < length code'"
    then have i: "i < length code" using s by (simp add: same_shape_def)
    with assms(1) have "paired code i" "instr_ok nl nc (code ! i)" and
      ts: "i \<in> pend \<or> (\<forall>t \<in> set (instr_targets (code ! i)). t \<le> length code)" by (auto simp: code_ok_def)
    then show "paired code' i" "instr_ok nl nc (code' ! i)" using paired_shape [OF s i] instr_ok_shape [OF s i] by blast+
    show "i \<in> pend - {j} \<or> (\<forall>t \<in> set (instr_targets (code' ! i)). t \<le> length code')"
      using ts t o' assms(3) same_shape_length [OF s] by (cases "i = j") simp_all
  qed
  with p s show ?thesis by (rule that)
qed

lemma patch_jumps_code_ok:
  assumes "code_ok code pend nl nc" and "jumps_ok code js" and "target \<le> length code"
  shows "\<exists>code'. fold_res (patch_jump target) js code = Inr code' \<and> same_shape code code' \<and> code_ok code' (pend - set js) nl nc"
  using assms
proof (induction js arbitrary: code pend)
  case (Cons j js)
  have "jumps_ok code [j]" using Cons.prems(2) by (simp add: jumps_ok_def)
  from Cons.prems(1) this Cons.prems(3) obtain code1 where
    1: "patch_jump target j code = Inr code1" "same_shape code code1" "code_ok code1 (pend - {j}) nl nc" by (rule patch_jump_code_ok)
  have "jumps_ok code1 js" using Cons.prems(2) jumps_ok_shape [OF 1(2), of js] by (simp add: jumps_ok_def)
  moreover have "target \<le> length code1" using Cons.prems(3) same_shape_length [OF 1(2)] by simp
  ultimately obtain code2 where
    2: "fold_res (patch_jump target) js code1 = Inr code2" "same_shape code1 code2" "code_ok code2 (pend - {j} - set js) nl nc"
    using Cons.IH [OF 1(3)] by blast
  have "pend - {j} - set js = pend - set (j # js)" by auto
  with 2(3) have "code_ok code2 (pend - set (j # js)) nl nc" by simp
  moreover have "fold_res (patch_jump target) (j # js) code = Inr code2" using 1(1) 2(1) by simp
  ultimately show ?case using same_shape_trans [OF 1(2) 2(2)] by blast
qed simp

lemma code_ok_append:
  assumes "code_ok code pend nl nc" and "instr_ok nl nc i" and "pend \<subseteq> pend'"
    and "length code \<in> pend' \<or> (\<forall>t \<in> set (instr_targets i). t \<le> length code + 1)"
    and "\<And>s. next_start i = Some s \<Longrightarrow> s < length code \<and> loop_match (code ! s) i (length code)"
  shows "code_ok (code @ [i]) pend' nl nc"
  unfolding code_ok_def
proof (intro allI impI)
  fix k
  assume k: "k < length (code @ [i])"
  show "(k \<in> pend' \<or> (\<forall>t \<in> set (instr_targets ((code @ [i]) ! k)). t \<le> length (code @ [i]))) \<and> paired (code @ [i]) k \<and>
      instr_ok nl nc ((code @ [i]) ! k)"
  proof (cases "k < length code")
    case True
    with assms(1) have old: "k \<in> pend \<or> (\<forall>t \<in> set (instr_targets (code ! k)). t \<le> length code)" "paired code k" "instr_ok nl nc (code ! k)"
      by (auto simp: code_ok_def)
    from old(1) assms(3) have "k \<in> pend' \<or> (\<forall>t \<in> set (instr_targets (code ! k)). t \<le> length code + 1)" by fastforce
    moreover from old(2) True have "paired (code @ [i]) k" by (auto simp: paired_def nth_append)
    ultimately show ?thesis using True old(3) by (simp add: nth_append)
  next
    case False
    with k have "k = length code" by simp
    with assms(2,4,5) show ?thesis by (auto simp: paired_def nth_append)
  qed
qed

lemma code_ok_mono:
  assumes "code_ok code pend nl nc" and "nl \<le> nl'" and "nc \<le> nc'" and "pend \<subseteq> pend'"
  shows "code_ok code pend' nl' nc'"
  using assms unfolding code_ok_def instr_ok_def by (meson order_less_le_trans subsetD)

lemma jumps_ok_append: "jumps_ok code js \<Longrightarrow> jumps_ok (code @ xs) js"
  by (auto simp: jumps_ok_def nth_append)

section \<open>Results that are no internal error\<close>

definition safe :: "('a \<Rightarrow> bool) \<Rightarrow> 'a res \<Rightarrow> bool" where
  "safe Q r \<longleftrightarrow> r \<noteq> Inl E_XX000 \<and> (\<forall>x. r = Inr x \<longrightarrow> Q x)"

named_theorems safe_intros "results without an internal error"

lemma safe_Inr [safe_intros]: "Q x \<Longrightarrow> safe Q (Inr x)"
  by (simp add: safe_def)

lemma safe_Inl [safe_intros]: "e \<noteq> E_XX000 \<Longrightarrow> safe Q (Inl e)"
  by (simp add: safe_def)

lemma safe_bind: "safe P r \<Longrightarrow> (\<And>x. P x \<Longrightarrow> r = Inr x \<Longrightarrow> safe Q (f x)) \<Longrightarrow> safe Q (try_bind r f)"
  by (cases r) (auto simp: safe_def)

lemma safe_guard [safe_intros]: "e \<noteq> E_XX000 \<Longrightarrow> (\<not> bad \<Longrightarrow> safe Q k) \<Longrightarrow> safe Q (guard_res bad e k)"
  by (simp add: guard_res_def safe_def)

lemma safe_ok_or [safe_intros]: "e \<noteq> E_XX000 \<Longrightarrow> (\<And>x. r = Some x \<Longrightarrow> Q x) \<Longrightarrow> safe Q (ok_or e r)"
  by (cases r) (auto simp: safe_def)

lemma safe_ok_bind: "e \<noteq> E_XX000 \<Longrightarrow> (\<And>x. r = Some x \<Longrightarrow> safe Q (f x)) \<Longrightarrow> safe Q (try_bind (ok_or e r) f)"
  by (cases r) (auto simp: safe_def)

lemma try_bind_id [simp]: "try_bind r Inr = r"
  by (cases r) simp_all

lemma safe_mono: "safe P r \<Longrightarrow> (\<And>x. P x \<Longrightarrow> Q x) \<Longrightarrow> safe Q r"
  by (auto simp: safe_def)

abbreviation (input) sound :: "'a res \<Rightarrow> bool" where
  "sound \<equiv> safe (\<lambda>_. True)"

lemma safe_then [safe_intros]: "sound r \<Longrightarrow> (\<And>x. r = Inr x \<Longrightarrow> safe Q (f x)) \<Longrightarrow> safe Q (try_bind r f)"
  by (rule safe_bind)

lemma safe_if [safe_intros]: "(b \<Longrightarrow> safe Q x) \<Longrightarrow> (\<not> b \<Longrightarrow> safe Q y) \<Longrightarrow> safe Q (if b then x else y)"
  by simp

lemma safe_option [safe_intros]:
  "(r = None \<Longrightarrow> safe Q a) \<Longrightarrow> (\<And>x. r = Some x \<Longrightarrow> safe Q (f x)) \<Longrightarrow> safe Q (case r of None \<Rightarrow> a | Some x \<Rightarrow> f x)"
  by (cases r) auto

lemma safe_list [safe_intros]:
  "(xs = [] \<Longrightarrow> safe Q a) \<Longrightarrow> (\<And>y ys. xs = y # ys \<Longrightarrow> safe Q (f y ys)) \<Longrightarrow> safe Q (case xs of [] \<Rightarrow> a | y # ys \<Rightarrow> f y ys)"
  by (cases xs) auto

lemma safe_prod [safe_intros]: "(\<And>a b. p = (a, b) \<Longrightarrow> safe Q (f a b)) \<Longrightarrow> safe Q (case p of (a, b) \<Rightarrow> f a b)"
  by (cases p) auto

lemma safe_let [safe_intros]: "safe Q (f x) \<Longrightarrow> safe Q (let y = x in f y)"
  by simp

lemma sound_fold [safe_intros]: "(\<And>x s. sound (f x s)) \<Longrightarrow> sound (fold_res f xs s)"
  by (induction xs arbitrary: s) (auto intro!: safe_intros)

section \<open>Statements\<close>

lemma slice_sound [safe_intros]: "sound (slice_str a b s)"
  by (simp add: slice_str_def safe_def)

lemma find_comma_sound: "sound (find_comma pre quote depth s)"
  by (induction pre quote depth s rule: find_comma.induct; simp only: find_comma.simps; intro safe_intros TrueI; simp)

lemma split_expressions_sound: "sound (split_expressions acc piece quote depth s)"
  by (induction acc piece quote depth s rule: split_expressions.induct; simp only: split_expressions.simps; intro safe_intros TrueI; simp)

lemma scan_lines_sound: "sound (scan_lines lines current quote depth s)"
  by (induction lines current quote depth s rule: scan_lines.induct; simp only: scan_lines.simps; intro safe_intros TrueI; simp)

lemma text_sound [safe_intros]:
  "sound (split_top_level_comma s)" "sound (split_top_level_expressions s)" "sound (logical_lines s)"
  "sound (normalize_label s)" "sound (parse_label s)" "sound (parse_block_end_label s)" "sound (parse_loop_control s k)"
  "sound (validate_sql_state s)" "sound (condition_text n s)"
proof -
  show n: "sound (normalize_label s)" for s unfolding normalize_label_def by (intro safe_intros TrueI) simp_all
  show "sound (split_top_level_comma s)" "sound (split_top_level_expressions s)" "sound (logical_lines s)"
    unfolding split_top_level_comma_def split_top_level_expressions_def logical_lines_def
    by (intro safe_intros find_comma_sound split_expressions_sound scan_lines_sound TrueI)+
  show "sound (parse_label s)" "sound (parse_block_end_label s)" "sound (parse_loop_control s k)"
    unfolding parse_label_def parse_block_end_label_def parse_loop_control_def
    by (intro safe_intros n TrueI; simp)+
  show "sound (validate_sql_state s)" "sound (condition_text n s)"
    unfolding validate_sql_state_def condition_text_def by (intro safe_intros TrueI; simp)+
qed

lemma parse_exception_matcher_sound [safe_intros]: "sound (parse_exception_matcher s)"
  unfolding parse_exception_matcher_def by (intro safe_intros TrueI; simp)

definition names_below :: "nat \<Rightarrow> name_table \<Rightarrow> bool" where
  "names_below n names \<longleftrightarrow> (\<forall>k s. names k = Some s \<longrightarrow> s < n)"

lemma lookup_name_safe: "names_below n names \<Longrightarrow> e \<noteq> E_XX000 \<Longrightarrow> safe (\<lambda>s. s < n) (lookup_name e names name)"
  by (cases "names (to_ascii_lowercase name)") (auto simp: lookup_name_def names_below_def safe_def)

lemma lookup_cursor_safe: "names_below n names \<Longrightarrow> safe (\<lambda>s. s < n) (lookup_cursor name names)"
  unfolding lookup_cursor_def by (rule lookup_name_safe) simp_all

text \<open>Instructions that a single statement compiles to.\<close>

definition plain :: "nat \<Rightarrow> nat \<Rightarrow> instruction \<Rightarrow> bool" where
  "plain nl nc i \<longleftrightarrow> instr_ok nl nc i \<and> instr_targets i = [] \<and> next_info i = None \<and> \<not> is_jump i"

lemma cursor_reference_safe: "names_below nc cursors \<Longrightarrow> safe (\<lambda>(c, d). c < nc) (parse_cursor_reference s names cursors)"
  unfolding parse_cursor_reference_def parse_cursor_direction_def
  by (intro safe_intros safe_bind [OF lookup_cursor_safe]; simp)

lemma open_cursor_safe:
  "names_below (length ds) cursors \<Longrightarrow> safe (plain nl (length ds)) (parse_open_cursor s names cursors ds)"
  unfolding parse_open_cursor_def Let_def
  by (rule safe_prod, rule safe_bind [OF lookup_cursor_safe], assumption,
      simp only: if_True ok_or_simps try_bind_simps, intro safe_intros TrueI; simp add: plain_def instr_ok_def)

lemma fetch_cursor_safe:
  assumes "names_below nl names" and "names_below nc cursors"
  shows "safe (plain nl nc) (parse_fetch_cursor s names cursors)"
  unfolding parse_fetch_cursor_def
  using assms
  by (intro safe_intros safe_bind [OF lookup_name_safe] safe_bind [OF cursor_reference_safe] TrueI;
      auto simp: plain_def instr_ok_def split: prod.splits)

lemma move_cursor_safe: "names_below nc cursors \<Longrightarrow> safe (plain nl nc) (parse_move_cursor s names cursors)"
  unfolding parse_move_cursor_def
  by (rule safe_bind [OF cursor_reference_safe [of nc]]) (auto simp: plain_def instr_ok_def safe_def)

lemma close_cursor_safe: "names_below nc cursors \<Longrightarrow> safe (plain nl nc) (parse_close_cursor s cursors)"
  unfolding parse_close_cursor_def
  by (intro safe_let safe_guard safe_bind [OF lookup_cursor_safe [of nc]]) (auto simp: plain_def instr_ok_def safe_def)

lemma raise_safe: "safe (plain nl nc) (parse_raise_instruction s names)"
  unfolding parse_raise_instruction_def parse_raise_options_def parse_raise_option_def
  by (intro safe_intros TrueI; simp add: plain_def instr_ok_def)

lemma dynamic_into_safe:
  "names_below nl names \<Longrightarrow> safe (\<lambda>(into, strict). slot_ok nl into) (parse_dynamic_into into names)"
  unfolding parse_dynamic_into_def
  by (intro safe_intros safe_bind [OF lookup_name_safe] TrueI; simp add: slot_ok_def)

lemma select_into_safe:
  "names_below nl names \<Longrightarrow> safe (\<lambda>(sql, into). slot_ok nl into) (extract_select_into s names)"
  unfolding extract_select_into_def
  by (intro safe_intros safe_bind [OF lookup_name_safe] TrueI; simp add: slot_ok_def)

lemma assignment_safe: "names_below nl names \<Longrightarrow> safe (plain nl nc) (compile_assignment name e names)"
  unfolding compile_assignment_def
  by (intro safe_intros safe_bind [OF lookup_name_safe] TrueI; simp add: plain_def instr_ok_def)

lemma execute_safe: "names_below nl names \<Longrightarrow> safe (plain nl nc) (compile_execute s names)"
  unfolding compile_execute_def
  by (intro safe_intros safe_bind [OF dynamic_into_safe] TrueI;
      auto simp: plain_def instr_ok_def slot_ok_def split: option.splits)

lemma plain_simps [simp]:
  "plain nl nc (InAssert e m)" "plain nl nc (InReturn v b)" "plain nl nc (InExecuteSql q into) \<longleftrightarrow> slot_ok nl into"
  by (auto simp: plain_def instr_ok_def slot_ok_def split: option.splits)

lemma slot_ok_None [simp]: "slot_ok nl None"
  by (simp add: slot_ok_def)

lemma compile_statement_safe:
  assumes "names_below nl names" and "names_below (length ds) cursors"
  shows "safe (plain nl (length ds)) (compile_statement s names cursors ds)"
proof -
  have 1: "safe (plain nl (length ds)) (try_bind (extract_select_into s names) (\<lambda>(sql, into).
            Inr (InExecuteSql (rewrite_locals sql names) into)))"
    by (rule safe_bind [OF select_into_safe [OF assms(1)]]) (auto simp: safe_def)
  have 2: "safe (plain nl (length ds)) (try_bind (split_top_level_comma t) (\<lambda>(condition, message).
      guard_res (trim_text condition = []) E_42601 (Inr (InAssert (rewrite_locals (trim_text condition) names)
            (map_option (\<lambda>m. rewrite_locals (trim_text m) names) message)))))" for t
    by (intro safe_then text_sound safe_prod safe_guard safe_Inr) simp_all
  show ?thesis
    unfolding compile_statement_def
    by (intro safe_let safe_if safe_option safe_prod open_cursor_safe fetch_cursor_safe move_cursor_safe close_cursor_safe raise_safe
        execute_safe assignment_safe assms 1 2 safe_Inr plain_simps) simp
qed

section \<open>Frames\<close>

fun frame_jumps :: "control_frame \<Rightarrow> nat list" where
  "frame_jumps (CfIf pending_false end_jumps) = opt_list pending_false @ end_jumps"
| "frame_jumps (CfCase _ pending_false end_jumps started) = (if started then opt_list pending_false else []) @ end_jumps"
| "frame_jumps (CfLoop l) = opt_list (lp_false_jump l) @ lp_exits l @ lp_continues l"

fun frame_starts :: "control_frame \<Rightarrow> nat list" where
  "frame_starts (CfLoop l) = (if loop_deferred l then [lp_start l] else [])"
| "frame_starts _ = []"

definition block_jumps :: "block_frame \<Rightarrow> nat list" where
  "block_jumps b = opt_list (bf_skip_handlers b) @ bf_end_jumps b @ bf_exits b"

definition loop_ok :: "instruction list \<Rightarrow> loop_frame \<Rightarrow> bool" where
  "loop_ok code l \<longleftrightarrow> lp_start l \<le> length code \<and>
     (loop_deferred l \<longrightarrow> lp_false_jump l = None \<and> (\<exists>k e. lp_start l < length code \<and> start_info (code ! lp_start l) = Some (k, e) \<and>
        lp_query_start l = (if k = QueryLoop then Some (lp_start l) else None) \<and>
        lp_integer_start l = (if k = IntegerLoop then Some (lp_start l) else None) \<and>
        lp_foreach_start l = (if k = ForeachLoop then Some (lp_start l) else None)))"

definition starts_ok :: "instruction list \<Rightarrow> nat list \<Rightarrow> bool" where
  "starts_ok code ss \<longleftrightarrow> distinct ss \<and> (\<forall>s \<in> set ss. s < length code \<and> start_info (code ! s) \<noteq> None) \<and>
     (\<forall>i < length code. \<forall>s. next_start (code ! i) = Some s \<longrightarrow> s \<notin> set ss)"

definition frames_ok :: "instruction list \<Rightarrow> nat list \<Rightarrow> nat list \<Rightarrow> loop_frame set \<Rightarrow> nat \<Rightarrow> nat \<Rightarrow> bool" where
  "frames_ok code js ss ls nl nc \<longleftrightarrow>
     code_ok code (set js \<union> set ss) nl nc \<and> jumps_ok code js \<and> starts_ok code ss \<and> (\<forall>l \<in> ls. loop_ok code l)"

lemma start_info_facts: "start_info i = Some (k, e) \<Longrightarrow> \<not> is_jump i \<and> next_info i = None \<and> next_start i = None"
  by (cases i) (simp_all add: next_start_def)

lemma start_info_jump: "is_jump i \<Longrightarrow> start_info i = None"
  by (cases i) simp_all

lemma start_info_shape: "same_shape code code' \<Longrightarrow> i < length code \<Longrightarrow> start_info (code' ! i) = start_info (code ! i)"
  unfolding same_shape_def by (metis start_info_jump)

lemma starts_ok_shape: "same_shape code code' \<Longrightarrow> starts_ok code ss \<Longrightarrow> starts_ok code' ss"
  unfolding starts_ok_def same_shape_def
  by (metis jump_facts option.distinct(1) start_info_jump)

lemma loop_ok_shape: "same_shape code code' \<Longrightarrow> loop_ok code l \<Longrightarrow> loop_ok code' l"
  using start_info_shape [of code code' "lp_start l"] by (auto simp: loop_ok_def same_shape_length)

lemma loop_ok_append: "loop_ok code l \<Longrightarrow> loop_ok (code @ xs) l"
  by (auto simp: loop_ok_def nth_append)

lemma frames_emit:
  assumes "frames_ok code js ss ls nl nc" and "instr_ok nl nc i" and "next_start i = None"
    and "\<forall>t \<in> set (instr_targets i). t \<le> length code + 1"
  shows "frames_ok (code @ [i]) js ss ls nl nc"
proof -
  have "starts_ok (code @ [i]) ss"
    using assms(1,3) unfolding frames_ok_def starts_ok_def by (auto simp: nth_append split: if_splits)
  with assms show ?thesis
    unfolding frames_ok_def
    by (auto intro!: code_ok_append jumps_ok_append loop_ok_append)
qed

lemma frames_emit_jump:
  assumes "frames_ok code js ss ls nl nc" and "is_jump i"
  shows "frames_ok (code @ [i]) (length code # js) ss ls nl nc"
proof -
  have i: "next_start i = None" "instr_ok nl nc i" using jump_facts [OF assms(2)] by (auto simp: instr_ok_def)
  have "starts_ok (code @ [i]) ss"
    using assms(1) i(1) unfolding frames_ok_def starts_ok_def by (auto simp: nth_append split: if_splits)
  moreover have "jumps_ok (code @ [i]) (length code # js)"
    using assms jumps_ok_append [of code js "[i]"] by (auto simp: frames_ok_def jumps_ok_def)
  moreover have "code_ok (code @ [i]) (set (length code # js) \<union> set ss) nl nc"
    using assms(1) i by (intro code_ok_append [of _ "set js \<union> set ss"]) (auto simp: frames_ok_def)
  ultimately show ?thesis using assms(1) by (auto simp: frames_ok_def intro: loop_ok_append)
qed

lemma frames_emit_start:
  assumes "frames_ok code js ss ls nl nc" and "start_info i = Some (k, e)" and "instr_ok nl nc i"
  shows "frames_ok (code @ [i]) js (length code # ss) ls nl nc"
proof -
  have i: "next_start i = None" using start_info_facts [OF assms(2)] by simp
  have below: "s < length code" if "next_start (code ! j) = Some s" "j < length code" for s j
    using assms(1) that by (fastforce simp: frames_ok_def code_ok_def paired_def)
  have st: "distinct ss" "\<forall>s \<in> set ss. s < length code \<and> start_info (code ! s) \<noteq> None"
    "\<forall>j < length code. \<forall>s. next_start (code ! j) = Some s \<longrightarrow> s \<notin> set ss"
    using assms(1) by (simp_all add: frames_ok_def starts_ok_def)
  have "starts_ok (code @ [i]) (length code # ss)"
    unfolding starts_ok_def
  proof (intro conjI allI impI)
    show "distinct (length code # ss)" using st(1,2) by auto
    show "\<forall>s \<in> set (length code # ss). s < length (code @ [i]) \<and> start_info ((code @ [i]) ! s) \<noteq> None"
      using st(2) assms(2) by (auto simp: nth_append)
    fix j s
    assume "j < length (code @ [i])" and n: "next_start ((code @ [i]) ! j) = Some s"
    then have "j < length code" "next_start (code ! j) = Some s" using i by (auto simp: nth_append split: if_splits)
    with below st(3) show "s \<notin> set (length code # ss)" by auto
  qed
  moreover have "code_ok (code @ [i]) (set js \<union> set (length code # ss)) nl nc"
    using assms(1,3) i by (intro code_ok_append [of _ "set js \<union> set ss"]) (auto simp: frames_ok_def)
  ultimately show ?thesis using assms(1) by (auto simp: frames_ok_def intro: loop_ok_append jumps_ok_append)
qed

lemma frames_patch:
  assumes "frames_ok code js ss ls nl nc" and "set js1 \<subseteq> set js" and "set js' \<subseteq> set js" and "set js \<subseteq> set js1 \<union> set js'"
    and "target \<le> length code"
  shows "\<exists>code'. fold_res (patch_jump target) js1 code = Inr code' \<and> same_shape code code' \<and> frames_ok code' js' ss ls nl nc"
proof -
  have "code_ok code (set js \<union> set ss) nl nc" "jumps_ok code js1" using assms(1,2) by (auto simp: frames_ok_def jumps_ok_def)
  from patch_jumps_code_ok [OF this assms(5)] obtain code' where
    c: "fold_res (patch_jump target) js1 code = Inr code'" "same_shape code code'" "code_ok code' (set js \<union> set ss - set js1) nl nc"
    by blast
  have "set js \<union> set ss - set js1 \<subseteq> set js' \<union> set ss" using assms(4) by blast
  then have "code_ok code' (set js' \<union> set ss) nl nc" by (rule code_ok_mono [OF c(3) order_refl order_refl])
  moreover have "jumps_ok code js'" using assms(1,3) by (auto simp: frames_ok_def jumps_ok_def)
  ultimately have "frames_ok code' js' ss ls nl nc"
    using assms(1) c(2) by (auto simp: frames_ok_def intro: jumps_ok_shape starts_ok_shape loop_ok_shape)
  with c(1,2) show ?thesis by blast
qed

lemma frames_cong: "frames_ok code js ss ls nl nc \<Longrightarrow> set js' = set js \<Longrightarrow> (\<And>l. l \<in> ls' \<Longrightarrow> l \<in> ls \<or> loop_ok code l) \<Longrightarrow> frames_ok code js' ss ls' nl nc"
  by (auto simp: frames_ok_def jumps_ok_def)

text \<open>Closing a loop over an iterator: the advance is emitted and the start gets its end.\<close>

fun patch_kind :: "loop_kind \<Rightarrow> nat \<Rightarrow> nat \<Rightarrow> instruction list \<Rightarrow> instruction list res" where
  "patch_kind QueryLoop = patch_query_for_end"
| "patch_kind IntegerLoop = patch_integer_for_end"
| "patch_kind ForeachLoop = patch_foreach_end"

lemma patch_loop_end_kind:
  assumes "loop_ok code l" and "loop_deferred l" and "start_info (code ! lp_start l) = Some (k, e)"
  shows "patch_loop_end l target c = patch_kind k target (lp_start l) c"
  using assms by (cases k) (auto simp: loop_ok_def patch_loop_end_def split: if_splits)

lemma patch_loop_end_none: "\<not> loop_deferred l \<Longrightarrow> patch_loop_end l target c = Inr c"
  by (simp add: loop_deferred_def patch_loop_end_def)

lemma frames_close:
  assumes f: "frames_ok code js (s # ss) ls nl nc" and k: "start_info (code ! s) = Some (k, e)"
    and a: "next_info a = Some (k, s, s + 1)" "instr_ok nl nc a" and ls: "\<And>l. l \<in> ls \<Longrightarrow> loop_deferred l \<Longrightarrow> lp_start l \<in> set ss"
  obtains code' where "patch_kind k (length code + 1) s (code @ [a]) = Inr code'" and "length code' = length code + 1"
    and "frames_ok code' js ss ls nl nc"
proof -
  let ?n = "length code"
  have c: "code_ok code (set js \<union> set (s # ss)) nl nc" and j: "jumps_ok code js" and st: "starts_ok code (s # ss)"
    and lo: "\<forall>l \<in> ls. loop_ok code l"
    using f by (simp_all add: frames_ok_def)
  have s: "s < ?n" using st by (simp add: starts_ok_def)
  have na: "next_start a = Some s" "\<not> is_jump a" "instr_targets a = [s + 1]" "start_info a = None"
    using a(1) by (cases a; simp add: next_start_def)+
  obtain x where p: "patch_kind k (?n + 1) s (code @ [a]) = Inr ((code @ [a])[s := x])" and
    x: "start_info x = Some (k, ?n + 1)" "instr_targets x = [?n + 1]" "instr_slots x = instr_slots (code ! s)" "instr_cursors x = instr_cursors (code ! s)"
    using k s by (cases "code ! s") (auto simp: patch_query_for_end_def patch_integer_for_end_def patch_foreach_end_def nth_append)
  let ?c = "(code @ [a])[s := x]"
  have nth: "?c ! i = (if i = s then x else if i < ?n then code ! i else a)" if "i < ?n + 1" for i
    using that s by (auto simp: nth_list_update nth_append less_Suc_eq)
  have nx: "next_start x = None" using start_info_facts [OF x(1)] by simp
  let ?P = "\<lambda>i. (i \<in> set js \<union> set ss \<or> (\<forall>t \<in> set (instr_targets (?c ! i)). t \<le> length ?c)) \<and> paired ?c i \<and> instr_ok nl nc (?c ! i)"
  have "code_ok ?c (set js \<union> set ss) nl nc"
    unfolding code_ok_def
  proof (intro allI impI)
    fix i
    assume "i < length ?c"
    then have i: "i < ?n + 1" by simp
    consider (start) "i = s" | (old) "i \<noteq> s" "i < ?n" | (new) "i = ?n" using i by linarith
    then show "?P i"
    proof cases
      case start
      then have ci: "?c ! i = x" using nth [OF i] by simp
      have "instr_ok nl nc (code ! s)" using c s by (simp add: code_ok_def)
      with x nx show ?thesis by (simp add: ci paired_def instr_ok_def)
    next
      case old
      with c have o': "i \<in> set js \<union> set ss \<or> (\<forall>t \<in> set (instr_targets (code ! i)). t \<le> ?n)" "paired code i" "instr_ok nl nc (code ! i)"
        by (auto simp: code_ok_def)
      have ci: "?c ! i = code ! i" using old nth [OF i] by simp
      have "paired ?c i" unfolding paired_def ci
      proof (intro allI impI)
        fix u
        assume u: "next_start (code ! i) = Some u"
        then have "u \<noteq> s" using st old by (auto simp: starts_ok_def)
        with o'(2) u old(2) nth [of u] show "u < i \<and> loop_match (?c ! u) (code ! i) i" by (simp add: paired_def)
      qed
      with o'(1,3) show ?thesis by (auto simp: ci)
    next
      case new
      then have ci: "?c ! i = a" "?c ! s = x" using s nth [OF i] nth [of s] by simp_all
      show ?thesis unfolding paired_def ci using new s na x(1) a by (simp add: loop_match_def)
    qed
  qed
  moreover have "jumps_ok ?c js"
    unfolding jumps_ok_def
  proof
    fix u
    assume "u \<in> set js"
    with j have "u < ?n" "is_jump (code ! u)" by (auto simp: jumps_ok_def)
    moreover from this k have "u \<noteq> s" using start_info_jump by fastforce
    ultimately show "u < length ?c \<and> is_jump (?c ! u)" using nth [of u] by simp
  qed
  moreover have "starts_ok ?c ss"
    unfolding starts_ok_def
  proof (intro conjI allI impI ballI)
    show "distinct ss" using st by (simp add: starts_ok_def)
  next
    fix u
    assume "u \<in> set ss"
    then have "u < ?n" "start_info (code ! u) \<noteq> None" "u \<noteq> s" using st by (auto simp: starts_ok_def)
    then show "u < length ?c" "start_info (?c ! u) \<noteq> None" using nth [of u] by simp_all
  next
    fix i u
    assume i: "i < length ?c" and u: "next_start (?c ! i) = Some u"
    then consider "i = s" | "i \<noteq> s" "i < ?n" | "i = ?n" "i \<noteq> s" using s by force
    then show "u \<notin> set ss"
    proof cases
      case 1
      with u nth [of i] s nx show ?thesis by simp
    next
      case 2
      with u nth [of i] st show ?thesis by (auto simp: starts_ok_def)
    next
      case 3
      with u nth [of i] na(1) st show ?thesis by (auto simp: starts_ok_def)
    qed
  qed
  moreover have "loop_ok ?c l" if "l \<in> ls" for l
  proof (cases "loop_deferred l")
    case True
    then have "lp_start l \<noteq> s" using ls [OF that True] st by (auto simp: starts_ok_def)
    moreover have "lp_start l < ?n" using lo that True by (auto simp: loop_ok_def)
    ultimately have "?c ! lp_start l = code ! lp_start l" using nth [of "lp_start l"] by simp
    with lo that show ?thesis by (auto simp: loop_ok_def)
  next
    case False
    with lo that show ?thesis by (auto simp: loop_ok_def)
  qed
  ultimately have "frames_ok ?c js ss ls nl nc" by (simp add: frames_ok_def)
  with p show ?thesis by (intro that [of ?c]) simp_all
qed

section \<open>The invariant of the pass\<close>

definition pend_jumps :: "control_frame list \<Rightarrow> block_frame list \<Rightarrow> nat list" where
  "pend_jumps controls blocks = concat (map frame_jumps controls) @ concat (map block_jumps blocks)"

definition open_starts :: "control_frame list \<Rightarrow> nat list" where
  "open_starts controls = concat (map frame_starts controls)"

definition open_loops :: "control_frame list \<Rightarrow> loop_frame set" where
  "open_loops controls = {l. CfLoop l \<in> set controls}"

definition code_part :: "compile_state \<Rightarrow> bool" where
  "code_part cs \<longleftrightarrow>
     frames_ok (cs_code cs) (pend_jumps (cs_controls cs) (cs_blocks cs)) (open_starts (cs_controls cs)) (open_loops (cs_controls cs))
       (length (cs_locals cs)) (length (cs_cursors cs))"

definition scope_ok :: "nat \<Rightarrow> nat \<Rightarrow> name_table \<times> name_table \<Rightarrow> bool" where
  "scope_ok nl nc s \<longleftrightarrow> names_below nl (fst s) \<and> names_below nc (snd s)"

definition block_ok :: "nat \<Rightarrow> nat \<Rightarrow> block_frame \<Rightarrow> bool" where
  "block_ok n nh b \<longleftrightarrow> bf_protected_start b \<le> n \<and>
     (if bf_in_handlers b then \<exists>pe. bf_protected_end b = Some pe \<and> bf_protected_start b \<le> pe \<and> pe < n
      else bf_skip_handlers b = None \<and> bf_end_jumps b = [] \<and> bf_handler_indexes b = []) \<and>
     (\<forall>i \<in> set (bf_handler_indexes b). i < nh)"

definition scopes :: "compile_state \<Rightarrow> (name_table \<times> name_table) set" where
  "scopes cs = {(cs_names cs, cs_cursor_names cs)} \<union> set_option (cs_pending_scope cs) \<union>
     (\<lambda>b. (bf_outer_names b, bf_outer_cursor_names b)) ` set (cs_blocks cs)"

definition rest_part :: "compile_state \<Rightarrow> bool" where
  "rest_part cs \<longleftrightarrow>
     (\<forall>s \<in> scopes cs. scope_ok (length (cs_locals cs)) (length (cs_cursors cs)) s) \<and>
     slot_ok (length (cs_locals cs)) (cs_sqlstate cs) \<and> slot_ok (length (cs_locals cs)) (cs_sqlerrm cs) \<and>
     (\<forall>b \<in> set (cs_blocks cs). block_ok (length (cs_code cs)) (length (cs_handlers cs)) b) \<and>
     (\<forall>h \<in> set (cs_handlers cs). handler_ok (length (cs_code cs)) h)"

definition cs_ok :: "compile_state \<Rightarrow> bool" where
  "cs_ok cs \<longleftrightarrow> code_part cs \<and> rest_part cs"

lemma names_below_mono: "names_below n names \<Longrightarrow> n \<le> m \<Longrightarrow> names_below m names"
  unfolding names_below_def by (meson order_less_le_trans)

lemma scope_ok_mono: "scope_ok nl nc s \<Longrightarrow> nl \<le> nl' \<Longrightarrow> nc \<le> nc' \<Longrightarrow> scope_ok nl' nc' s"
  unfolding scope_ok_def by (blast intro: names_below_mono)

lemma slot_ok_mono: "slot_ok n s \<Longrightarrow> n \<le> m \<Longrightarrow> slot_ok m s"
  by (cases s) (auto simp: slot_ok_def)

lemma block_ok_mono: "block_ok n nh b \<Longrightarrow> n \<le> m \<Longrightarrow> nh \<le> mh \<Longrightarrow> block_ok m mh b"
  unfolding block_ok_def by (auto split: if_splits)

lemma handler_ok_mono: "handler_ok n h \<Longrightarrow> n \<le> m \<Longrightarrow> handler_ok m h"
  by (simp add: handler_ok_def)

lemma rest_part_grow:
  assumes "rest_part cs" and "length (cs_locals cs) \<le> length (cs_locals cs')" and "length (cs_cursors cs) \<le> length (cs_cursors cs')"
    and "length (cs_code cs) \<le> length (cs_code cs')" and "length (cs_handlers cs) \<le> length (cs_handlers cs')"
    and "\<And>s. s \<in> scopes cs' \<Longrightarrow> s \<in> scopes cs \<or> scope_ok (length (cs_locals cs')) (length (cs_cursors cs')) s"
    and "\<And>i. cs_sqlstate cs' = Some i \<Longrightarrow> cs_sqlstate cs = Some i \<or> i < length (cs_locals cs')"
    and "\<And>i. cs_sqlerrm cs' = Some i \<Longrightarrow> cs_sqlerrm cs = Some i \<or> i < length (cs_locals cs')"
    and "\<And>b. b \<in> set (cs_blocks cs') \<Longrightarrow> b \<in> set (cs_blocks cs) \<or> block_ok (length (cs_code cs')) (length (cs_handlers cs')) b"
    and "\<And>h. h \<in> set (cs_handlers cs') \<Longrightarrow> h \<in> set (cs_handlers cs) \<or> handler_ok (length (cs_code cs')) h"
  shows "rest_part cs'"
  unfolding rest_part_def
proof (intro conjI ballI)
  fix s assume "s \<in> scopes cs'"
  then show "scope_ok (length (cs_locals cs')) (length (cs_cursors cs')) s"
    using assms(1-3) assms(6) [of s] unfolding rest_part_def by (blast intro: scope_ok_mono)
next
  show "slot_ok (length (cs_locals cs')) (cs_sqlstate cs')" "slot_ok (length (cs_locals cs')) (cs_sqlerrm cs')"
    using assms(1,2,7,8) unfolding rest_part_def slot_ok_def by (meson order_less_le_trans)+
next
  fix b assume "b \<in> set (cs_blocks cs')"
  then show "block_ok (length (cs_code cs')) (length (cs_handlers cs')) b"
    using assms(1,4,5) assms(9) [of b] block_ok_mono by (auto simp: rest_part_def)
next
  fix h assume "h \<in> set (cs_handlers cs')"
  then show "handler_ok (length (cs_code cs')) h"
    using assms(1,4) assms(10) [of h] handler_ok_mono by (auto simp: rest_part_def)
qed

lemma rest_part_same:
  assumes "rest_part cs" and "cs_locals cs' = cs_locals cs" and "cs_cursors cs' = cs_cursors cs"
    and "length (cs_code cs) \<le> length (cs_code cs')" and "cs_handlers cs' = cs_handlers cs" and "scopes cs' \<subseteq> scopes cs"
    and "cs_sqlstate cs' = cs_sqlstate cs" and "cs_sqlerrm cs' = cs_sqlerrm cs" and "set (cs_blocks cs') \<subseteq> set (cs_blocks cs)"
  shows "rest_part cs'"
  by (rule rest_part_grow [OF assms(1)]) (use assms in auto)

lemma code_partI:
  assumes "frames_ok (cs_code cs) js (open_starts (cs_controls cs)) ls (length (cs_locals cs)) (length (cs_cursors cs))"
    and "set (pend_jumps (cs_controls cs) (cs_blocks cs)) = set js"
    and "\<And>l. l \<in> open_loops (cs_controls cs) \<Longrightarrow> l \<in> ls \<or> loop_ok (cs_code cs) l"
  shows "code_part cs"
  unfolding code_part_def by (rule frames_cong [OF assms])

lemma frames_mono:
  "frames_ok code js ss ls nl nc \<Longrightarrow> nl \<le> nl' \<Longrightarrow> nc \<le> nc' \<Longrightarrow> frames_ok code js ss ls nl' nc'"
  unfolding frames_ok_def by (blast intro: code_ok_mono)

lemma emit_simps [simp]:
  "cs_code (emit i cs) = cs_code cs @ [i]" "cs_locals (emit i cs) = cs_locals cs" "cs_cursors (emit i cs) = cs_cursors cs"
  "cs_controls (emit i cs) = cs_controls cs" "cs_blocks (emit i cs) = cs_blocks cs" "cs_handlers (emit i cs) = cs_handlers cs"
  "cs_names (emit i cs) = cs_names cs" "cs_cursor_names (emit i cs) = cs_cursor_names cs"
  "cs_pending_scope (emit i cs) = cs_pending_scope cs" "cs_sqlstate (emit i cs) = cs_sqlstate cs" "cs_sqlerrm (emit i cs) = cs_sqlerrm cs"
  "scopes (emit i cs) = scopes cs"
  by (simp_all add: emit_def scopes_def)

lemma frames_simps [simp]:
  "open_starts [] = []" "open_starts (c # controls) = frame_starts c @ open_starts controls"
  "open_loops [] = {}" "open_loops (CfIf a b # controls) = open_loops controls"
  "open_loops (CfCase x a b y # controls) = open_loops controls" "open_loops (CfLoop l # controls) = insert l (open_loops controls)"
  by (auto simp: open_starts_def open_loops_def)

lemma pend_simps [simp]:
  "set (pend_jumps [] []) = {}" "set (pend_jumps (c # controls) blocks) = set (frame_jumps c) \<union> set (pend_jumps controls blocks)"
  "set (pend_jumps controls (b # blocks)) = set (block_jumps b) \<union> set (pend_jumps controls blocks)"
  by (auto simp: pend_jumps_def)

lemma emit_plain: "cs_ok cs \<Longrightarrow> plain (length (cs_locals cs)) (length (cs_cursors cs)) i \<Longrightarrow> cs_ok (emit i cs)"
  unfolding cs_ok_def code_part_def
  by (auto simp: plain_def next_start_def intro!: frames_emit elim!: rest_part_same)

lemma limit_safe [safe_intros]: "Q cs \<Longrightarrow> safe Q (ensure_instruction_limit limits cs)"
  unfolding ensure_instruction_limit_def by (intro safe_intros) simp_all

lemma nesting_sound [safe_intros]: "sound (ensure_nesting xs limits)"
  unfolding ensure_nesting_def by (intro safe_intros TrueI) simp

lemma patch_safe:
  assumes "frames_ok (cs_code cs) js ss ls nl nc" and "target \<le> length (cs_code cs)"
    and "set js1 \<subseteq> set js" and "set js' \<subseteq> set js" and "set js \<subseteq> set js1 \<union> set js'"
    and "\<And>code. length code = length (cs_code cs) \<Longrightarrow> frames_ok code js' ss ls nl nc \<Longrightarrow> safe Q (f (cs\<lparr>cs_code := code\<rparr>))"
  shows "safe Q (try_bind (patch_all target js1 cs) f)"
proof -
  from frames_patch [OF assms(1,3,4,5,2)] obtain code where
    "fold_res (patch_jump target) js1 (cs_code cs) = Inr code" "same_shape (cs_code cs) code" "frames_ok code js' ss ls nl nc" by blast
  with assms(6) [of code] same_shape_length show ?thesis by (simp add: patch_all_def)
qed

lemmas patch_end_safe = patch_safe [where f = Inr, simplified]

section \<open>Every line keeps it\<close>

lemma cs_ok_labels:
  assumes "cs_ok cs" and "cs_locals cs' = cs_locals cs" and "cs_cursors cs' = cs_cursors cs" and "cs_code cs' = cs_code cs"
    and "cs_controls cs' = cs_controls cs" and "cs_blocks cs' = cs_blocks cs" and "cs_handlers cs' = cs_handlers cs"
    and "scopes cs' \<subseteq> scopes cs" and "cs_sqlstate cs' = cs_sqlstate cs" and "cs_sqlerrm cs' = cs_sqlerrm cs"
  shows "cs_ok cs'"
proof -
  have "rest_part cs'" by (rule rest_part_same [of cs]) (use assms in \<open>auto simp: cs_ok_def\<close>)
  with assms show ?thesis by (simp add: cs_ok_def code_part_def)
qed

lemma label_safe: "cs_ok cs \<Longrightarrow> safe cs_ok (line_label l cs)"
  unfolding line_label_def by (intro safe_intros) (auto elim!: cs_ok_labels simp: scopes_def)

lemma declare_safe: "cs_ok cs \<Longrightarrow> safe cs_ok (line_declare cs)"
  unfolding line_declare_def by (intro safe_intros) (auto elim!: cs_ok_labels simp: scopes_def)

lemma cs_ok_names:
  assumes "cs_ok cs"
  shows "names_below (length (cs_locals cs)) (cs_names cs)" "names_below (length (cs_cursors cs)) (cs_cursor_names cs)"
  using assms by (simp_all add: cs_ok_def rest_part_def scopes_def scope_ok_def)

lemma names_below_upd: "names_below n names \<Longrightarrow> names_below (Suc n) (names(key \<mapsto> n))"
  unfolding names_below_def by (metis fun_upd_apply less_Suc_eq option.inject)

lemma begin_safe:
  assumes "cs_ok cs"
  shows "safe cs_ok (line_begin limits cs)"
  unfolding line_begin_def
proof (intro safe_then nesting_sound safe_let safe_prod safe_Inr, goal_cases)
  case (1 _ outer_names outer_cursor_names)
  let ?cs = "cs\<lparr>cs_pending_scope := None, cs_declaring := False, cs_declared := [],
          cs_label := (if cs_block_label cs \<noteq> None then cs_label cs else None), cs_block_label := None,
          cs_blocks := \<lparr>bf_label = if cs_block_label cs \<noteq> None then cs_block_label cs else cs_label cs,
            bf_protected_start = length (cs_code cs), bf_control_depth = length (cs_controls cs),
            bf_outer_names = outer_names, bf_outer_cursor_names = outer_cursor_names, bf_protected_end = None,
            bf_skip_handlers = None, bf_end_jumps = [], bf_handler_indexes = [], bf_exits = [], bf_in_handlers = False\<rparr> # cs_blocks cs\<rparr>"
  have "rest_part ?cs"
    by (rule rest_part_grow [of cs])
      (use assms 1(2) in \<open>auto simp: cs_ok_def scopes_def block_ok_def split: option.splits\<close>)
  moreover have "code_part ?cs" using assms by (auto simp: cs_ok_def code_part_def block_jumps_def intro: frames_cong)
  ultimately show ?case by (simp add: cs_ok_def)
qed

lemma add_local_ok:
  assumes "cs_ok cs"
  shows "cs_ok (add_local key l cs)"
proof -
  have "rest_part (add_local key l cs)"
    by (rule rest_part_grow [of cs])
      (use assms cs_ok_names [OF assms] in \<open>auto simp: cs_ok_def add_local_def scopes_def scope_ok_def intro: names_below_upd\<close>)
  moreover have "code_part (add_local key l cs)"
    using assms unfolding cs_ok_def code_part_def by (auto simp: add_local_def intro: frames_mono)
  ultimately show ?thesis by (simp add: cs_ok_def)
qed

lemma declare_name_sound [safe_intros]: "sound (declare_name key cs)"
  unfolding declare_name_def by (intro safe_intros TrueI) simp

lemma declared_ok [simp]: "cs_ok (cs\<lparr>cs_declared := d\<rparr>) = cs_ok cs"
  by (auto elim!: cs_ok_labels simp: scopes_def)

lemma add_local_simps [simp]:
  "cs_locals (add_local key l cs) = cs_locals cs @ [l]"
  by (simp_all add: add_local_def)

lemma variable_safe: "cs_ok cs \<Longrightarrow> safe cs_ok (compile_variable d cs)"
  unfolding compile_variable_def
  by (intro safe_intros) (auto simp: plain_def instr_ok_def split: option.splits intro!: emit_plain add_local_ok)

lemma add_cursor_ok:
  assumes "cs_ok cs"
  shows "cs_ok (cs\<lparr>cs_cursor_names := (cs_cursor_names cs)(key \<mapsto> length (cs_cursors cs)), cs_cursors := cs_cursors cs @ [d]\<rparr>)" (is "cs_ok ?cs")
proof -
  have "rest_part ?cs"
    by (rule rest_part_grow [of cs])
      (use assms cs_ok_names [OF assms] in \<open>auto simp: cs_ok_def scopes_def scope_ok_def intro: names_below_upd\<close>)
  moreover have "code_part ?cs"
    using assms unfolding cs_ok_def code_part_def by (auto intro: frames_mono)
  ultimately show ?thesis by (simp add: cs_ok_def)
qed

lemma declaration_safe: "cs_ok cs \<Longrightarrow> safe cs_ok (compile_declaration d cs)"
proof -
  assume ok: "cs_ok cs"
  have "safe (\<lambda>r. \<forall>cs'. r = Some cs' \<longrightarrow> cs_ok cs') (compile_cursor_declaration d cs)"
    unfolding compile_cursor_declaration_def
    by (intro safe_intros TrueI) (use ok in \<open>auto intro!: add_cursor_ok add_local_ok\<close>)
  then show ?thesis
    unfolding compile_declaration_def by (rule safe_bind) (auto intro!: safe_intros variable_safe ok)
qed

lemma diagnostic_ok:
  assumes "cs_ok cs" and "ensure_diagnostic_local name cs = (slot, cs')"
  shows "cs_ok cs' \<and> slot < length (cs_locals cs') \<and> length (cs_locals cs) \<le> length (cs_locals cs') \<and>
    cs_code cs' = cs_code cs \<and> cs_controls cs' = cs_controls cs \<and> cs_blocks cs' = cs_blocks cs"
  using assms cs_ok_names(1) [OF assms(1)] add_local_ok [OF assms(1)]
  by (auto simp: ensure_diagnostic_local_def names_below_def add_local_def split: option.splits)

lemma exception_safe:
  assumes "cs_ok cs"
  shows "safe cs_ok (line_exception cs)"
  unfolding line_exception_def
proof (intro safe_list safe_Inl safe_guard safe_let safe_prod safe_Inr, goal_cases)
  case (4 b bs s1 cs1 s2 cs2)
  from diagnostic_ok [OF assms 4(4)] diagnostic_ok [OF _ 4(5)]
  have d: "cs_ok cs2" "s1 < length (cs_locals cs2)" "s2 < length (cs_locals cs2)" "cs_blocks cs2 = b # bs" using 4(1) by auto
  let ?n = "length (cs_code cs2)"
  let ?b = "b\<lparr>bf_in_handlers := True, bf_protected_end := Some ?n, bf_skip_handlers := Some ?n\<rparr>"
  let ?cs = "emit (InJump usize_max) (cs2\<lparr>cs_declaring := False, cs_sqlstate := Some s1, cs_sqlerrm := Some s2, cs_blocks := ?b # bs\<rparr>)"
  have b: "block_ok ?n (length (cs_handlers cs2)) b" using d(1,4) by (auto simp: cs_ok_def rest_part_def)
  then have b': "block_ok (?n + 1) (length (cs_handlers cs2)) ?b" by (auto simp: block_ok_def)
  have "rest_part cs2" using d(1) by (simp add: cs_ok_def)
  then have "rest_part ?cs"
    by (rule rest_part_grow) (use b' d(2,3,4) in \<open>simp_all add: scopes_def\<close>, auto)
  moreover have "frames_ok (cs_code cs2 @ [InJump usize_max]) (?n # pend_jumps (cs_controls cs2) (cs_blocks cs2))
    (open_starts (cs_controls cs2)) (open_loops (cs_controls cs2)) (length (cs_locals cs2)) (length (cs_cursors cs2))"
    using d(1) by (intro frames_emit_jump) (simp_all add: cs_ok_def code_part_def)
  then have "code_part ?cs" 
    by (intro code_partI) (use b 4(2) d(4) in \<open>auto simp: block_jumps_def block_ok_def\<close>)
  ultimately show ?case by (simp add: cs_ok_def)
qed simp_all

lemma blocks_frames:
  assumes "cs_ok cs" and "cs_blocks cs = b # bs"
  shows "frames_ok (cs_code cs) (pend_jumps (cs_controls cs) (b # bs)) (open_starts (cs_controls cs)) (open_loops (cs_controls cs))
      (length (cs_locals cs)) (length (cs_cursors cs))" "block_ok (length (cs_code cs)) (length (cs_handlers cs)) b"
  using assms by (auto simp: cs_ok_def code_part_def rest_part_def)

lemma end_safe:
  assumes ok: "cs_ok cs"
  shows "safe cs_ok (line_end closing cs)"
  unfolding line_end_def
proof (intro safe_list safe_Inl safe_guard, goal_cases)
  case (5 b bs)
  let ?js1 = "(if bf_in_handlers b then opt_list (bf_skip_handlers b) @ bf_end_jumps b else []) @ bf_exits b"
  note f = blocks_frames [OF ok 5(1)]
  from f(2) have js: "set ?js1 = set (block_jumps b)" by (cases "bf_in_handlers b") (auto simp: block_jumps_def block_ok_def)
  show ?case
  proof (rule patch_safe [OF f(1), where js' = "pend_jumps (cs_controls cs) bs"], goal_cases)
    case (5 code)
    let ?cs = "cs\<lparr>cs_code := code, cs_blocks := bs, cs_names := bf_outer_names b, cs_cursor_names := bf_outer_cursor_names b\<rparr>"
    have "rest_part cs" using ok by (simp add: cs_ok_def)
    then have "rest_part ?cs"
      by (rule rest_part_same) (use 5(1) \<open>cs_blocks cs = b # bs\<close> in \<open>simp_all add: scopes_def\<close>, auto)
    moreover have "code_part ?cs" using 5(2) by (simp add: code_part_def)
    ultimately show ?case by (intro safe_Inr) (simp add: cs_ok_def)
  qed (simp_all only: js pend_simps order_refl, blast+)
qed simp_all

text \<open>Lines that change nothing but the code, the open frames and the label.\<close>

definition same_rest :: "compile_state \<Rightarrow> compile_state \<Rightarrow> bool" where
  "same_rest cs cs' \<longleftrightarrow> cs_locals cs' = cs_locals cs \<and> cs_cursors cs' = cs_cursors cs \<and> cs_blocks cs' = cs_blocks cs \<and>
     cs_handlers cs' = cs_handlers cs \<and> cs_names cs' = cs_names cs \<and> cs_cursor_names cs' = cs_cursor_names cs \<and>
     cs_pending_scope cs' = cs_pending_scope cs \<and> cs_sqlstate cs' = cs_sqlstate cs \<and> cs_sqlerrm cs' = cs_sqlerrm cs \<and>
     length (cs_code cs) \<le> length (cs_code cs')"

lemma cs_ok_code:
  assumes "cs_ok cs" and "same_rest cs cs'"
    and "frames_ok (cs_code cs') js (open_starts (cs_controls cs')) ls (length (cs_locals cs)) (length (cs_cursors cs))"
    and "set (pend_jumps (cs_controls cs') (cs_blocks cs)) = set js"
    and "\<And>l. l \<in> open_loops (cs_controls cs') \<Longrightarrow> l \<in> ls \<or> loop_ok (cs_code cs') l"
  shows "cs_ok cs'"
proof -
  have "rest_part cs'"
    by (rule rest_part_same [of cs]) (use assms(1,2) in \<open>simp_all add: cs_ok_def same_rest_def scopes_def\<close>)
  moreover have "code_part cs'" by (rule code_partI [of cs' js ls]) (use assms(2-) in \<open>simp_all add: same_rest_def\<close>)
  ultimately show ?thesis by (simp add: cs_ok_def)
qed

lemma controls_frames:
  assumes "cs_ok cs"
  shows "frames_ok (cs_code cs) (pend_jumps (cs_controls cs) (cs_blocks cs)) (open_starts (cs_controls cs)) (open_loops (cs_controls cs))
    (length (cs_locals cs)) (length (cs_cursors cs))"
  using assms by (simp add: cs_ok_def code_part_def)

lemma emit_jump_ok:
  assumes "cs_ok cs" and "is_jump i" and "same_rest cs cs'" and "cs_code cs' = cs_code cs @ [i]"
    and "open_starts (cs_controls cs') = open_starts (cs_controls cs)"
    and "set (pend_jumps (cs_controls cs') (cs_blocks cs)) = insert (length (cs_code cs)) (set (pend_jumps (cs_controls cs) (cs_blocks cs)))"
    and "\<And>l. l \<in> open_loops (cs_controls cs') \<Longrightarrow> l \<in> open_loops (cs_controls cs) \<or> loop_ok (cs_code cs') l"
  shows "cs_ok cs'"
  by (rule cs_ok_code [OF assms(1,3)], use assms frames_emit_jump [OF controls_frames [OF assms(1)] assms(2)] in simp)
    (use assms in auto)

lemma if_safe: "cs_ok cs \<Longrightarrow> safe cs_ok (line_if limits t cs)"
  unfolding line_if_def by (intro safe_intros TrueI; rule emit_jump_ok; (simp add: same_rest_def; fail)?) simp_all

lemma case_frame_ok:
  assumes "cs_ok cs"
  shows "cs_ok (cs\<lparr>cs_controls := CfCase operand None [] False # cs_controls cs\<rparr>)"
  using controls_frames [OF assms] by (intro cs_ok_code [OF assms]) (auto simp: same_rest_def)

lemma case_safe: "cs_ok cs \<Longrightarrow> safe cs_ok (line_case limits t cs)"
  unfolding line_case_def by (intro safe_intros TrueI case_frame_ok)

lemma safe_controls:
  assumes "\<And>pending_false end_jumps controls. cs = CfIf pending_false end_jumps # controls \<Longrightarrow> safe Q (f pending_false end_jumps controls)"
    and "\<And>operand pending_false end_jumps started controls. cs = CfCase operand pending_false end_jumps started # controls \<Longrightarrow>
      safe Q (g operand pending_false end_jumps started controls)"
    and "\<And>l controls. cs = CfLoop l # controls \<Longrightarrow> safe Q (h l controls)" and "cs = [] \<Longrightarrow> safe Q e"
  shows "safe Q (case cs of [] \<Rightarrow> e | CfIf pending_false end_jumps # controls \<Rightarrow> f pending_false end_jumps controls
    | CfCase operand pending_false end_jumps started # controls \<Rightarrow> g operand pending_false end_jumps started controls
    | CfLoop l # controls \<Rightarrow> h l controls)"
  using assms by (auto split: list.splits control_frame.splits)

lemma open_frame:
  assumes "cs_ok cs" and "cs_controls cs = c # controls"
  shows "frames_ok (cs_code cs) (pend_jumps (c # controls) (cs_blocks cs)) (frame_starts c @ open_starts controls)
      (open_loops (c # controls)) (length (cs_locals cs)) (length (cs_cursors cs))"
    "frames_ok (cs_code (emit (InJump t) cs)) (length (cs_code cs) # pend_jumps (c # controls) (cs_blocks cs))
      (frame_starts c @ open_starts controls) (open_loops (c # controls)) (length (cs_locals cs)) (length (cs_cursors cs))"
  using controls_frames [OF assms(1)] frames_emit_jump [of _ _ _ _ _ _ "InJump t"] by (simp_all add: assms(2))

lemma patch_last:
  assumes "cs_ok cs" and "frames_ok (cs_code cs') js ss ls (length (cs_locals cs)) (length (cs_cursors cs))" and "same_rest cs cs'"
    and "target \<le> length (cs_code cs')" and "set js = set js1 \<union> set (pend_jumps (cs_controls cs') (cs_blocks cs))"
    and "open_starts (cs_controls cs') = ss" and "open_loops (cs_controls cs') \<subseteq> ls"
  shows "safe cs_ok (patch_all target js1 cs')"
proof (rule patch_end_safe [OF assms(2,4)])
  fix code
  assume l: "length code = length (cs_code cs')"
    and f: "frames_ok code (pend_jumps (cs_controls cs') (cs_blocks cs)) ss ls (length (cs_locals cs)) (length (cs_cursors cs))"
  show "safe cs_ok (Inr (cs'\<lparr>cs_code := code\<rparr>))"
    by (intro safe_Inr cs_ok_code [OF assms(1), where js = "pend_jumps (cs_controls cs') (cs_blocks cs)" and ls = ls])
      (use l f assms(3,6,7) in \<open>auto simp: same_rest_def\<close>)
qed (use assms(5) in auto)

lemma elsif_safe:
  assumes ok: "cs_ok cs"
  shows "safe cs_ok (line_elsif t cs)"
  unfolding line_elsif_def
proof (intro safe_controls safe_Inl safe_let, goal_cases)
  case (1 pending_false end_jumps controls)
  show ?case
  proof (rule patch_safe [OF open_frame(2) [OF ok 1, of usize_max],
        where js' = "length (cs_code cs) # end_jumps @ pend_jumps controls (cs_blocks cs)"], goal_cases)
    case (5 code)
    note f = frames_emit_jump [OF 5(2), of "InJumpIfFalse e usize_max" for e]
    show ?case
      by (intro safe_intros TrueI; rule cs_ok_code [OF ok _], simp add: same_rest_def 5(1), use f 5(1) in simp) (auto simp: 5(1))
  qed auto
qed simp_all

lemma else_safe:
  assumes ok: "cs_ok cs"
  shows "safe cs_ok (line_else cs)"
  unfolding line_else_def
  by (intro safe_let safe_controls safe_guard safe_Inl; (rule patch_last [OF ok])?)
    (use open_frame(2) [OF ok, of _ _ usize_max] in \<open>auto simp: same_rest_def\<close>)

lemma end_if_safe:
  assumes ok: "cs_ok cs"
  shows "safe cs_ok (line_end_if cs)"
  unfolding line_end_if_def
  by (intro safe_let safe_controls safe_guard safe_Inl; (rule patch_last [OF ok])?)
    (use open_frame(1) [OF ok] in \<open>auto simp: same_rest_def\<close>)

lemma end_case_safe:
  assumes ok: "cs_ok cs"
  shows "safe cs_ok (line_end_case cs)"
  unfolding line_end_case_def
  by (intro safe_let safe_controls safe_guard safe_Inl; (rule patch_last [OF ok])?)
    (use open_frame(1) [OF ok] in \<open>auto simp: same_rest_def\<close>)

lemma when_branch:
  assumes "cs_ok cs" and "same_rest cs cs2" and "length (cs_code cs) \<le> length (cs_code cs2)"
    and "frames_ok (cs_code cs2) (end_jumps @ pend_jumps controls (cs_blocks cs)) (open_starts controls) (open_loops controls)
      (length (cs_locals cs)) (length (cs_cursors cs))"
  shows "cs_ok (emit (InJumpIfFalse e usize_max) (cs2\<lparr>cs_controls := CfCase operand (Some (length (cs_code cs2))) end_jumps True # controls\<rparr>))"
  using frames_emit_jump [OF assms(4), of "InJumpIfFalse e usize_max"]
  by (intro cs_ok_code [OF assms(1)]) (use assms(2,3) in \<open>auto simp: same_rest_def\<close>)

lemma when_safe:
  assumes ok: "cs_ok cs"
  shows "safe cs_ok (line_when t cs)"
  unfolding line_when_def
proof (intro safe_controls safe_Inl safe_let, goal_cases)
  case (2 operand pending_false end_jumps started controls)
  show ?case
  proof (cases started)
    case False
    with open_frame(1) [OF ok 2] show ?thesis
      by (simp, intro safe_intros TrueI when_branch [OF ok]) (simp_all add: same_rest_def pend_jumps_def)
  next
    case True
    then show ?thesis unfolding if_True
    proof (simp only: if_True, intro patch_safe [OF open_frame(2) [OF ok 2, of usize_max],
            where js' = "(end_jumps @ [length (cs_code cs)]) @ pend_jumps controls (cs_blocks cs)"], goal_cases)
      case (5 code)
      then show ?case by (intro safe_intros TrueI when_branch [OF ok]) (simp_all add: same_rest_def)
    qed auto
  qed
qed simp_all

text \<open>Opening a loop.\<close>

lemma new_loop_ok [simp]: "\<not> loop_deferred (new_loop cs)" "lp_start (new_loop cs) = length (cs_code cs)"
  "lp_exits (new_loop cs) = []" "lp_continues (new_loop cs) = []" "lp_false_jump (new_loop cs) = None"
  "lp_query_start (new_loop cs) = None" "lp_integer_start (new_loop cs) = None" "lp_foreach_start (new_loop cs) = None"
  by (simp_all add: new_loop_def loop_deferred_def)

lemma loop_deferred_simps [simp]:
  "loop_deferred (l\<lparr>lp_false_jump := x\<rparr>) = loop_deferred l" "loop_deferred (l\<lparr>lp_exits := e\<rparr>) = loop_deferred l"
  "loop_deferred (l\<lparr>lp_continues := e\<rparr>) = loop_deferred l"
  "loop_deferred (l\<lparr>lp_query_start := Some s\<rparr>)" "loop_deferred (l\<lparr>lp_integer_start := Some s\<rparr>)" "loop_deferred (l\<lparr>lp_foreach_start := Some s\<rparr>)"
  by (simp_all add: loop_deferred_def)

lemma loop_safe: "cs_ok cs \<Longrightarrow> safe cs_ok (line_loop limits cs)"
  unfolding line_loop_def
proof (intro safe_intros TrueI)
  assume ok: "cs_ok cs"
  show "cs_ok (open_loop (new_loop cs) cs)"
    using controls_frames [OF ok] by (intro cs_ok_code [OF ok]) (auto simp: same_rest_def open_loop_def loop_ok_def)
qed

lemma while_safe: "cs_ok cs \<Longrightarrow> safe cs_ok (line_while limits t cs)"
  unfolding line_while_def
  by (intro safe_intros TrueI; rule emit_jump_ok; (simp add: same_rest_def open_loop_def; fail)?)
    (auto simp: open_loop_def loop_ok_def)

lemma emit_start_ok:
  assumes ok: "cs_ok cs" and i: "start_info i = Some (k, e)" "instr_ok (length (cs_locals cs)) (length (cs_cursors cs)) i"
    and l: "loop_deferred l" "lp_start l = length (cs_code cs)" "lp_exits l = []" "lp_continues l = []" "lp_false_jump l = None"
      "lp_query_start l = (if k = QueryLoop then Some (lp_start l) else None)"
      "lp_integer_start l = (if k = IntegerLoop then Some (lp_start l) else None)"
      "lp_foreach_start l = (if k = ForeachLoop then Some (lp_start l) else None)"
  shows "cs_ok (emit i (open_loop l cs))"
  using frames_emit_start [OF controls_frames [OF ok] i]
  by (intro cs_ok_code [OF ok]) (use i l in \<open>auto simp: same_rest_def open_loop_def loop_ok_def\<close>)

lemma foreach_safe:
  assumes ok: "cs_ok cs"
  shows "safe cs_ok (line_foreach limits t cs)"
  unfolding line_foreach_def
  by (intro safe_intros safe_bind [OF lookup_name_safe [OF cs_ok_names(1) [OF ok]]] emit_start_ok [OF ok, where k = ForeachLoop] TrueI)
    (simp_all add: instr_ok_def)

lemma for_safe:
  assumes ok: "cs_ok cs"
  shows "safe cs_ok (line_for limits t cs)"
  unfolding line_for_def
  by (intro safe_intros safe_bind [OF lookup_name_safe [OF cs_ok_names(1) [OF ok]]] TrueI;
      (rule emit_start_ok [OF ok, where k = QueryLoop] emit_start_ok [OF ok, where k = IntegerLoop])?)
    (simp_all add: instr_ok_def)

text \<open>Leaving a loop or a block, and closing a loop.\<close>

definition one_changed :: "'a list \<Rightarrow> 'a \<Rightarrow> 'a \<Rightarrow> 'a list \<Rightarrow> bool" where
  "one_changed fs a b fs' \<longleftrightarrow> (\<exists>xs ys. fs = xs @ a # ys \<and> fs' = xs @ b # ys)"

lemma one_changed_here: "one_changed (a # fs) a b (b # fs)"
  unfolding one_changed_def by (intro exI [of _ "[]"] exI [of _ fs]) simp

lemma one_changed_later: "one_changed fs a b fs' \<Longrightarrow> one_changed (x # fs) a b (x # fs')"
  unfolding one_changed_def by (metis append_Cons)

lemma update_loop_split: "update_loop label f fs = Some (l, fs') \<Longrightarrow> one_changed fs (CfLoop l) (CfLoop (f l)) fs'"
proof (induction fs arbitrary: fs')
  case (Cons x fs)
  then show ?case by (cases x) (auto split: if_splits intro: one_changed_here one_changed_later)
qed simp

lemma update_block_split: "update_block label f bs = Some bs' \<Longrightarrow> \<exists>b. one_changed bs b (f b) bs'"
proof (induction bs arbitrary: bs')
  case (Cons x bs)
  then show ?case by (auto split: if_splits intro: one_changed_here one_changed_later)
qed simp

lemma append_simps [simp]:
  "set (pend_jumps (xs @ ys) blocks) = set (pend_jumps xs []) \<union> set (pend_jumps ys blocks)"
  "open_starts (xs @ ys) = open_starts xs @ open_starts ys" "open_loops (xs @ ys) = open_loops xs \<union> open_loops ys"
  by (auto simp: pend_jumps_def open_starts_def open_loops_def)

lemma loop_ok_more [simp]:
  "loop_ok code (l\<lparr>lp_exits := e\<rparr>) = loop_ok code l" "loop_ok code (l\<lparr>lp_continues := e\<rparr>) = loop_ok code l"
  by (simp_all add: loop_ok_def)

lemma update_frames:
  assumes ok: "cs_ok cs" and u: "update_loop label f (cs_controls cs) = Some (l, controls)"
    and f: "f l = l \<or> f l = l\<lparr>lp_exits := lp_exits l @ [j]\<rparr> \<or> f l = l\<lparr>lp_continues := lp_continues l @ [j]\<rparr>"
  shows "open_starts controls = open_starts (cs_controls cs)"
    "set (pend_jumps controls bs) = set (pend_jumps (cs_controls cs) bs) \<union> (if f l = l then {} else {j})"
    "\<And>l. l \<in> open_loops controls \<Longrightarrow> l \<in> open_loops (cs_controls cs) \<or> loop_ok (cs_code cs) l"
    "l \<in> open_loops (cs_controls cs)" "lp_start l \<le> length (cs_code cs)"
proof -
  from update_loop_split [OF u, unfolded one_changed_def] obtain xs ys where c: "cs_controls cs = xs @ CfLoop l # ys" "controls = xs @ CfLoop (f l) # ys" by blast
  show "open_starts controls = open_starts (cs_controls cs)"
    "set (pend_jumps controls bs) = set (pend_jumps (cs_controls cs) bs) \<union> (if f l = l then {} else {j})"
    using f by (auto simp: c)
  show 1: "l \<in> open_loops (cs_controls cs)" by (simp add: c)
  then have "loop_ok (cs_code cs) l" using controls_frames [OF ok] by (simp add: frames_ok_def)
  then show "lp_start l \<le> length (cs_code cs)"
    "\<And>l. l \<in> open_loops controls \<Longrightarrow> l \<in> open_loops (cs_controls cs) \<or> loop_ok (cs_code cs) l"
    using f by (auto simp: c loop_ok_def)
qed

lemma frames_drop:
  assumes "frames_ok code js ss ls nl nc" and "set js' \<subseteq> set js"
    and "\<And>j. j \<in> set js \<Longrightarrow> j \<in> set js' \<or> (\<forall>t \<in> set (instr_targets (code ! j)). t \<le> length code)"
  shows "frames_ok code js' ss ls nl nc"
  using assms unfolding frames_ok_def code_ok_def jumps_ok_def by blast

text \<open>A conditional EXIT or CONTINUE skips its jump when the condition is false.\<close>

definition skips :: "nat \<Rightarrow> instruction list \<Rightarrow> bool" where
  "skips n pre \<longleftrightarrow> pre = [] \<or> (\<exists>e. pre = [InJumpIfFalse e (n + 2)])"

lemma frames_leave:
  assumes f: "frames_ok code js ss ls nl nc" and i: "is_jump i" and p: "skips (length code) pre"
  shows "frames_ok (code @ pre @ [i]) ((length code + length pre) # js) ss ls nl nc"
proof (cases "pre = []")
  case True
  with frames_emit_jump [OF f i] show ?thesis by simp
next
  case False
  with p obtain e where e: "pre = [InJumpIfFalse e (length code + 2)]" by (auto simp: skips_def)
  from frames_emit_jump [OF frames_emit_jump [OF f, of "InJumpIfFalse e (length code + 2)"] i]
  have "frames_ok (code @ pre @ [i]) ((length code + 1) # length code # js) ss ls nl nc" by (simp add: e)
  then show ?thesis by (rule frames_drop) (auto simp: e nth_append)
qed

lemma leave_safe:
  assumes ok: "cs_ok cs" and r: "same_rest cs cs'" "cs_controls cs' = cs_controls cs" "cs_code cs' = cs_code cs @ pre"
    and p: "skips (length (cs_code cs)) pre" and j: "jump = length (cs_code cs) + length pre"
  shows "safe cs_ok
     (if block
      then try_bind (ok_or E_42601 (update_block label (\<lambda>b. b\<lparr>bf_exits := bf_exits b @ [jump]\<rparr>) (cs_blocks cs'))) (\<lambda>blocks.
             Inr (emit (InJump usize_max) (cs'\<lparr>cs_blocks := blocks\<rparr>)))
      else try_bind (ok_or E_42601 (update_loop label (\<lambda>l.
               if is_exit then l\<lparr>lp_exits := lp_exits l @ [jump]\<rparr>
               else if loop_deferred l then l\<lparr>lp_continues := lp_continues l @ [jump]\<rparr> else l) (cs_controls cs'))) (\<lambda>(l, controls).
             Inr (emit (InJump (if is_exit \<or> loop_deferred l then usize_max else lp_start l)) (cs'\<lparr>cs_controls := controls\<rparr>))))"
proof -
  have f: "frames_ok (cs_code cs @ pre @ [InJump t]) (jump # pend_jumps (cs_controls cs) (cs_blocks cs)) (open_starts (cs_controls cs))
      (open_loops (cs_controls cs)) (length (cs_locals cs)) (length (cs_cursors cs))" for t
    using frames_leave [OF controls_frames [OF ok] _ p, of "InJump t"] by (simp add: j)
  have lo: "loop_ok (cs_code cs @ xs) l" if "loop_ok (cs_code cs) l" for l xs using that by (rule loop_ok_append)
  have rc: "rest_part cs" using ok by (simp add: cs_ok_def)
  have "cs_ok (emit (InJump usize_max) (cs'\<lparr>cs_blocks := blocks\<rparr>))"
    if u: "update_block label (\<lambda>b. b\<lparr>bf_exits := bf_exits b @ [jump]\<rparr>) (cs_blocks cs') = Some blocks" for blocks
  proof -
    from update_block_split [OF u] obtain xs b ys where b: "cs_blocks cs = xs @ b # ys" "blocks = xs @ b\<lparr>bf_exits := bf_exits b @ [jump]\<rparr> # ys"
      using r(1) by (auto simp: one_changed_def same_rest_def)
    have "block_ok (length (cs_code cs)) (length (cs_handlers cs)) b" using rc b(1) by (auto simp: rest_part_def)
    then have "block_ok (length (cs_code cs) + length pre + 1) (length (cs_handlers cs)) (b\<lparr>bf_exits := bf_exits b @ [jump]\<rparr>)"
      by (auto simp: block_ok_def)
    with r b have "rest_part (emit (InJump usize_max) (cs'\<lparr>cs_blocks := blocks\<rparr>))"
      by (intro rest_part_grow [OF rc]) (simp_all add: same_rest_def scopes_def, auto)
    moreover have "set (pend_jumps (cs_controls cs) blocks) = set (jump # pend_jumps (cs_controls cs) (cs_blocks cs))"
      by (auto simp: b pend_jumps_def block_jumps_def)
    then have "code_part (emit (InJump usize_max) (cs'\<lparr>cs_blocks := blocks\<rparr>))"
      using f r by (intro code_partI) (auto simp: same_rest_def)
    ultimately show ?thesis by (simp add: cs_ok_def)
  qed
  moreover have "cs_ok (emit (InJump (if is_exit \<or> loop_deferred l then usize_max else lp_start l)) (cs'\<lparr>cs_controls := controls\<rparr>))"
    if u: "update_loop label (\<lambda>l. if is_exit then l\<lparr>lp_exits := lp_exits l @ [jump]\<rparr>
         else if loop_deferred l then l\<lparr>lp_continues := lp_continues l @ [jump]\<rparr> else l) (cs_controls cs') = Some (l, controls)" for l controls
  proof -
    let ?f = "\<lambda>l. if is_exit then l\<lparr>lp_exits := lp_exits l @ [jump]\<rparr>
         else if loop_deferred l then l\<lparr>lp_continues := lp_continues l @ [jump]\<rparr> else l"
    have fl: "?f l = l \<or> ?f l = l\<lparr>lp_exits := lp_exits l @ [jump]\<rparr> \<or> ?f l = l\<lparr>lp_continues := lp_continues l @ [jump]\<rparr>" by simp
    note uf = update_frames [OF ok u [unfolded r(2)] fl]
    have eq: "?f l = l \<longleftrightarrow> \<not> (is_exit \<or> loop_deferred l)" by (cases l) auto
    let ?i = "InJump (if is_exit \<or> loop_deferred l then usize_max else lp_start l)"
    let ?js = "pend_jumps controls (cs_blocks cs)"
    have "frames_ok (cs_code cs @ pre @ [?i]) ?js (open_starts controls) (open_loops (cs_controls cs)) (length (cs_locals cs)) (length (cs_cursors cs))"
      unfolding uf(1) by (rule frames_drop [OF f]) (use uf(2) [of "cs_blocks cs"] uf(5) j in \<open>auto simp: eq nth_append split: if_splits\<close>)
    with r uf(3) lo show ?thesis by (intro cs_ok_code [OF ok]) (auto simp: same_rest_def)
  qed
  ultimately show ?thesis by (intro safe_if safe_ok_bind safe_prod safe_Inr) (simp_all only: db_error.simps, simp_all)
qed

lemma exit_continue_safe:
  assumes ok: "cs_ok cs"
  shows "safe cs_ok (line_exit_continue is_exit t cs)"
  unfolding line_exit_continue_def Let_def
proof (intro safe_then text_sound safe_prod, goal_cases)
  case (1 x label condition)
  show ?case by (intro safe_intros TrueI) simp
next
  case (2 x label condition cs')
  let ?pre = "case condition of None \<Rightarrow> [] | Some c \<Rightarrow> [InJumpIfFalse (rewrite_locals (trim_text c) (cs_names cs)) (length (cs_code cs) + 2)]"
  have "cs' = cs\<lparr>cs_code := cs_code cs @ ?pre\<rparr>"
    using 2(3) by (auto simp: guard_res_def emit_def split: option.splits if_splits)
  moreover have "skips (length (cs_code cs)) ?pre" by (auto simp: skips_def split: option.splits)
  ultimately show ?case by (intro leave_safe [OF ok, where pre = ?pre]) (simp_all add: same_rest_def)
qed

lemma close_loop_safe:
  assumes ok: "cs_ok cs" and c: "cs_controls cs = CfLoop l # controls" and r: "same_rest cs cs'" "cs_controls cs' = controls"
    and f: "frames_ok (cs_code cs') (lp_exits l @ lp_continues l @ pend_jumps controls (cs_blocks cs)) (open_starts controls)
      (open_loops controls) (length (cs_locals cs)) (length (cs_cursors cs))"
    and t: "exit \<le> length (cs_code cs')" "continue_target \<le> length (cs_code cs')"
  shows "safe cs_ok (try_bind (patch_all exit (lp_exits l) cs') (patch_all continue_target (lp_continues l)))"
proof (rule patch_safe [OF f t(1), where js' = "lp_continues l @ pend_jumps controls (cs_blocks cs)"])
  fix code
  assume "length code = length (cs_code cs')" and "frames_ok code (lp_continues l @ pend_jumps controls (cs_blocks cs)) (open_starts controls)
      (open_loops controls) (length (cs_locals cs)) (length (cs_cursors cs))"
  then show "safe cs_ok (patch_all continue_target (lp_continues l) (cs'\<lparr>cs_code := code\<rparr>))"
    using r t by (intro patch_last [OF ok]) (auto simp: same_rest_def)
qed auto

lemma loop_advance_deferred:
  assumes "loop_ok code l" and "loop_deferred l"
  shows "\<exists>k e a. loop_advance l = Inr a \<and> start_info (code ! lp_start l) = Some (k, e) \<and> next_info a = Some (k, lp_start l, lp_start l + 1) \<and>
    instr_ok nl nc a"
  using assms by (auto simp: loop_ok_def loop_advance_def instr_ok_def split: if_splits loop_kind.splits) (metis loop_kind.exhaust option.simps)+

lemma end_loop_body_safe:
  assumes ok: "cs_ok cs" and c: "cs_controls cs = CfLoop l # controls" and n: "length (cs_code cs0) \<le> length (cs_code cs)"
  shows "safe cs_ok (try_bind (loop_advance l) (\<lambda>advance.
     let cs = emit advance (cs\<lparr>cs_controls := controls\<rparr>); exit = length (cs_code cs) in
     try_bind (patch_all exit (opt_list (lp_false_jump l)) cs) (\<lambda>cs.
     try_bind (patch_loop_end l exit (cs_code cs)) (\<lambda>code.
     try_bind (patch_all exit (lp_exits l) (cs\<lparr>cs_code := code\<rparr>)) (patch_all (length (cs_code cs0)) (lp_continues l))))))"
proof (cases "loop_deferred l")
  case True
  note f = open_frame(1) [OF ok c]
  then have lo: "loop_ok (cs_code cs) l" by (simp add: frames_ok_def)
  from loop_advance_deferred [OF lo True, of "length (cs_locals cs)" "length (cs_cursors cs)"] obtain k e a where
    a: "loop_advance l = Inr a" "start_info (cs_code cs ! lp_start l) = Some (k, e)" "next_info a = Some (k, lp_start l, lp_start l + 1)"
      "instr_ok (length (cs_locals cs)) (length (cs_cursors cs)) a" by blast
  have fj: "lp_false_jump l = None" using lo True by (simp add: loop_ok_def)
  have f': "frames_ok (cs_code cs) (lp_exits l @ lp_continues l @ pend_jumps controls (cs_blocks cs)) (lp_start l # open_starts controls)
      (open_loops controls) (length (cs_locals cs)) (length (cs_cursors cs))"
    using f True by (auto intro: frames_cong simp: fj)
  have ls: "lp_start l' \<in> set (open_starts controls)" if "l' \<in> open_loops controls" "loop_deferred l'" for l'
    using that by (force simp: open_loops_def open_starts_def)
  from frames_close [OF f' a(2,3,4) ls] obtain code where
    p: "patch_kind k (length (cs_code cs) + 1) (lp_start l) (cs_code cs @ [a]) = Inr code" "length code = length (cs_code cs) + 1"
      "frames_ok code (lp_exits l @ lp_continues l @ pend_jumps controls (cs_blocks cs)) (open_starts controls)
        (open_loops controls) (length (cs_locals cs)) (length (cs_cursors cs))" by blast
  have "safe cs_ok (try_bind (patch_all (length (cs_code cs) + 1) (lp_exits l) (emit a (cs\<lparr>cs_controls := controls\<rparr>)\<lparr>cs_code := code\<rparr>))
      (patch_all (length (cs_code cs0)) (lp_continues l)))"
    by (rule close_loop_safe [OF ok c]) (use p n in \<open>simp_all add: same_rest_def\<close>)
  with p(1) show ?thesis by (simp add: a(1) fj patch_all_def patch_loop_end_kind [OF lo True a(2)])
next
  case False
  note f = open_frame(1) [OF ok c]
  then have lo: "lp_start l \<le> length (cs_code cs)" by (simp add: frames_ok_def loop_ok_def)
  have a: "loop_advance l = Inr (InJump (lp_start l))" using False by (simp add: loop_deferred_def loop_advance_def)
  let ?cs = "emit (InJump (lp_start l)) (cs\<lparr>cs_controls := controls\<rparr>)"
  have f': "frames_ok (cs_code ?cs) (pend_jumps (CfLoop l # controls) (cs_blocks cs)) (open_starts controls)
      (open_loops (CfLoop l # controls)) (length (cs_locals cs)) (length (cs_cursors cs))"
    using frames_emit [OF f, of "InJump (lp_start l)"] lo False by (simp add: instr_ok_def next_start_def)
  show ?thesis unfolding a try_bind_simps Let_def
  proof (rule patch_safe [OF f', where js' = "lp_exits l @ lp_continues l @ pend_jumps controls (cs_blocks cs)"], goal_cases)
    case (5 code)
    then have "frames_ok code (lp_exits l @ lp_continues l @ pend_jumps controls (cs_blocks cs)) (open_starts controls)
        (open_loops controls) (length (cs_locals cs)) (length (cs_cursors cs))" by (auto intro: frames_cong)
    moreover have "?cs\<lparr>cs_code := code\<rparr>\<lparr>cs_code := cs_code (?cs\<lparr>cs_code := code\<rparr>)\<rparr> = ?cs\<lparr>cs_code := code\<rparr>" by simp
    ultimately show ?case using 5(1) n
      by (simp add: patch_loop_end_none [OF False] del: emit_simps) (rule close_loop_safe [OF ok c]; simp add: same_rest_def)
  qed auto
qed

lemma end_loop_safe:
  assumes ok: "cs_ok cs"
  shows "safe cs_ok (line_end_loop t cs)"
  unfolding line_end_loop_def Let_def [of "trim_text _"]
proof (rule safe_then)
  show "sound (if trim_text (drop 8 t) = [] then Inr None else try_bind (normalize_label (trim_text (drop 8 t))) (\<lambda>l. Inr (Some l)))"
    by (intro safe_if safe_Inr safe_then text_sound TrueI)
  show "safe cs_ok (case cs_controls cs of
        CfLoop l # controls \<Rightarrow>
          guard_res (closing_label \<noteq> None \<and> closing_label \<noteq> lp_label l) E_42601 (
          let continue_target = length (cs_code cs) in
          try_bind (loop_advance l) (\<lambda>advance.
          let cs = emit advance (cs\<lparr>cs_controls := controls\<rparr>); exit = length (cs_code cs) in
          try_bind (patch_all exit (opt_list (lp_false_jump l)) cs) (\<lambda>cs.
          try_bind (patch_loop_end l exit (cs_code cs)) (\<lambda>code.
          try_bind (patch_all exit (lp_exits l) (cs\<lparr>cs_code := code\<rparr>))
            (patch_all continue_target (lp_continues l))))))
      | _ \<Rightarrow> Inl E_42601)" for closing_label
    unfolding Let_def [of "length (cs_code cs)"]
    by (intro safe_controls safe_guard safe_Inl end_loop_body_safe [OF ok]) simp_all
qed

lemma handler_safe:
  assumes ok: "cs_ok cs" and b: "cs_blocks cs = b # bs" "bf_in_handlers b"
  shows "safe cs_ok (line_handler limits t b bs cs)"
proof -
  note f = blocks_frames [OF ok b(1)]
  obtain pe where pe: "bf_protected_end b = Some pe" "bf_protected_start b \<le> pe" "pe < length (cs_code cs)"
    using f(2) b(2) by (auto simp: block_ok_def)
  have idx: "\<forall>i \<in> set (bf_handler_indexes b). i < length (cs_handlers cs)" "bf_protected_start b \<le> length (cs_code cs)"
    using f(2) by (simp_all add: block_ok_def)
  let ?jump = "length (cs_code cs)"
  let ?cs = "if bf_handler_indexes b \<noteq> [] then emit (InJump usize_max) cs else cs"
  let ?end_jumps = "if bf_handler_indexes b \<noteq> [] then bf_end_jumps b @ [?jump] else bf_end_jumps b"
  let ?b = "b\<lparr>bf_end_jumps := ?end_jumps, bf_handler_indexes := bf_handler_indexes b @ [length (cs_handlers ?cs)]\<rparr>"
  have rc: "rest_part cs" using ok by (simp add: cs_ok_def)
  have "cs_ok (?cs\<lparr>cs_handlers := cs_handlers ?cs @ [\<lparr>eh_protected_start = bf_protected_start b, eh_protected_end = pe,
      eh_matcher = m, eh_target = length (cs_code ?cs)\<rparr>], cs_blocks := ?b # bs\<rparr>)" (is "cs_ok ?new") for m
  proof -
    have "handler_ok (length (cs_code ?cs)) \<lparr>eh_protected_start = bf_protected_start b, eh_protected_end = pe,
      eh_matcher = m, eh_target = length (cs_code ?cs)\<rparr>" using pe by (simp add: handler_ok_def)
    moreover have "block_ok (length (cs_code ?cs)) (length (cs_handlers cs) + 1) ?b"
      using pe b(2) idx by (auto simp: block_ok_def less_Suc_eq)
    ultimately have "rest_part ?new"
      by (intro rest_part_grow [OF rc]) (simp_all add: scopes_def b(1), auto)
    moreover have "frames_ok (cs_code ?cs) ((if bf_handler_indexes b \<noteq> [] then [?jump] else []) @ pend_jumps (cs_controls cs) (b # bs))
        (open_starts (cs_controls cs)) (open_loops (cs_controls cs)) (length (cs_locals cs)) (length (cs_cursors cs))"
      using f(1) frames_emit_jump [OF f(1), of "InJump usize_max"] by simp
    then have "code_part ?new"
      by (intro code_partI [where js = "(if bf_handler_indexes b \<noteq> [] then [?jump] else []) @ pend_jumps (cs_controls cs) (b # bs)"])
        (auto simp: block_jumps_def)
    ultimately show ?thesis by (simp add: cs_ok_def)
  qed
  then show ?thesis
    unfolding line_handler_def pe(1) ok_or_simps try_bind_simps Let_def
    by (intro safe_then slice_sound parse_exception_matcher_sound safe_guard limit_safe) simp_all
qed

lemma statement_safe: "cs_ok cs \<Longrightarrow> safe cs_ok (line_statement t cs)"
  unfolding line_statement_def
  by (intro safe_guard safe_bind [OF compile_statement_safe [OF cs_ok_names]] safe_Inr emit_plain) simp_all

lemma control_safe: "cs_ok cs \<Longrightarrow> safe cs_ok (compile_control limits t upper cs)"
  unfolding compile_control_def
  by (simp add: if_safe elsif_safe else_safe end_if_safe case_safe when_safe end_case_safe while_safe foreach_safe for_safe loop_safe
      exit_continue_safe end_loop_safe statement_safe)

lemma line_safe: "cs_ok cs \<Longrightarrow> safe cs_ok (compile_line limits line cs)"
  unfolding compile_line_def
  by (intro safe_let safe_if safe_Inr safe_then text_sound safe_option safe_guard label_safe declare_safe begin_safe exception_safe
      handler_safe end_safe safe_bind [of cs_ok] declaration_safe control_safe limit_safe)
    (auto simp: handler_line_def split: list.splits)

lemma initial_ok: "cs_ok initial_state"
  by (simp add: cs_ok_def code_part_def rest_part_def initial_state_def scopes_def scope_ok_def names_below_def slot_ok_def
      frames_ok_def code_ok_def jumps_ok_def starts_ok_def pend_jumps_def)

lemma argument_safe: "cs_ok cs \<Longrightarrow> safe cs_ok (compile_argument name cs)"
  unfolding compile_argument_def by (intro safe_intros add_local_ok) simp_all

lemma safe_fold: "P s \<Longrightarrow> (\<And>x s. P s \<Longrightarrow> safe P (f x s)) \<Longrightarrow> safe P (fold_res f xs s)"
  by (induction xs arbitrary: s) (auto intro!: safe_Inr safe_bind)

lemma finish_safe:
  assumes ok: "cs_ok cs"
  shows "safe program_ok (finish_program limits cs)"
  unfolding finish_program_def
proof (intro safe_guard, goal_cases)
  case 5
  let ?n = "length (cs_code cs)"
  have e: "cs_controls cs = []" "cs_blocks cs = []" using 5 by simp_all
  have f: "frames_ok (cs_code cs @ [InCheckpoint]) [] [] {} (length (cs_locals cs)) (length (cs_cursors cs))"
    using frames_emit [OF controls_frames [OF ok], of InCheckpoint] by (simp add: e instr_ok_def next_start_def pend_jumps_def)
  have old: "t \<le> ?n" if "i < ?n" "t \<in> set (instr_targets (cs_code cs ! i))" for i t
    using controls_frames [OF ok] that by (simp add: e pend_jumps_def frames_ok_def code_ok_def)
  have "t < ?n + 1" if "i < ?n + 1" "t \<in> set (instr_targets ((cs_code cs @ [InCheckpoint]) ! i))" for i t
    using old [of i t] that by (auto simp: nth_append less_Suc_eq split: if_splits)
  with f have "program_ok \<lparr>pg_version = BYTECODE_VERSION, pg_instructions = cs_code cs @ [InCheckpoint], pg_locals = cs_locals cs,
      pg_cursors = cs_cursors cs, pg_handlers = cs_handlers cs, pg_sqlstate_slot = cs_sqlstate cs, pg_sqlerrm_slot = cs_sqlerrm cs\<rparr>"
    using ok by (simp add: program_ok_def Let_def frames_ok_def code_ok_def cs_ok_def rest_part_def)
  then show ?case by (simp add: ensure_instruction_limit_def guard_res_def safe_def)
qed simp_all

lemma compile_safe:
  "safe (\<lambda>p. program_ok p \<and> length (pg_instructions p) \<le> max_instructions limits) (compile_with_arguments_and_limits source arguments limits)"
proof -
  have 1: "safe program_ok (compile_with_arguments_and_limits source arguments limits)"
    unfolding compile_with_arguments_and_limits_def
    by (intro safe_guard safe_then text_sound safe_bind [OF safe_fold [OF initial_ok argument_safe]]
        safe_bind [OF safe_fold [OF _ line_safe]] finish_safe) simp_all
  have 2: "length (pg_instructions p) \<le> max_instructions limits" if "finish_program limits cs = Inr p" for p cs
    using that by (auto simp: finish_program_def guard_res_def ensure_instruction_limit_def split: if_splits)
  have "length (pg_instructions p) \<le> max_instructions limits"
    if "compile_with_arguments_and_limits source arguments limits = Inr p" for p
    using that unfolding compile_with_arguments_and_limits_def
    by (auto simp: guard_res_def try_bind_eq_Ok intro: 2 split: if_splits)
  with 1 show ?thesis by (simp add: safe_def)
qed

text \<open>
  C6. The compiler never fails with an internal error, whatever the source, the arguments and
  the limits are. A program that it returns has at most as many instructions as the limit
  allows and is well formed: every jump and every end of a loop has been patched and lies in the
  program, the two instructions of a loop over an iterator point at each other, every local and
  every cursor index is declared, the diagnostics have a slot, and each handler protects a
  region that ends in front of it.
\<close>

theorem compile_well_formed:
  "compile_with_arguments_and_limits source arguments limits \<noteq> Inl E_XX000 \<and>
   (\<forall>p. compile_with_arguments_and_limits source arguments limits = Inr p \<longrightarrow>
      program_ok p \<and> length (pg_instructions p) \<le> max_instructions limits)"
  using compile_safe [of limits source arguments] by (simp add: safe_def)

definition sample_source :: string where
  "sample_source = ''DECLARE i int; n int := 0
BEGIN
<<outer>>
FOR i IN 1 .. k LOOP
CONTINUE WHEN i = 2;
EXIT outer WHEN n > 9;
n := n + i;
END LOOP outer;
RETURN n;
EXCEPTION
WHEN division_by_zero THEN
RETURN sqlstate;
END''"

lemma compile_well_formed_witness:
  "\<exists>p. compile_with_arguments_and_limits sample_source [''k''] limits_default = Inr p \<and> program_ok p \<and> length (pg_instructions p) = 12"
proof -
  have "map_sum id (\<lambda>p. length (pg_instructions p)) (compile_with_arguments_and_limits sample_source [''k''] limits_default) = Inr 12"
    by code_simp
  then show ?thesis
    using compile_well_formed [of sample_source "[''k'']" limits_default]
    by (cases "compile_with_arguments_and_limits sample_source [''k''] limits_default") auto
qed

section \<open>Sources that the compiler mishandles\<close>

text \<open>
  The condition is cut out of a line by its length, so that a line whose keyword and THEN or
  LOOP share their blank makes the slice panic. A statement that begins with the letters of END
  is taken as the end of a block with a label.
\<close>

lemma condition_text_panics: "0 < k \<Longrightarrow> condition_text k t = Inl E_PANIC \<longleftrightarrow> length t < k + 5"
  by (auto simp: condition_text_def slice_str_def)

lemma compile_panics:
  "compile ''BEGIN
IF THEN
END IF;
END'' = Inl E_PANIC" "compile ''BEGIN
WHILE LOOP
END LOOP;
END'' = Inl E_PANIC"
  by code_simp+

lemma compile_refuses_end_names:
  "compile ''DECLARE end_time int
BEGIN
end_time := 1;
END'' = Inl E_42601"
  by code_simp

end
