(* ===== verification/PlData.thy ===== *)
theory PlData
  imports PlSyntax Effect BTreeMap
begin

text \<open>
  What the virtual machine of PL/pgSQL works with (crates/ordadb-plpgsql/src/language): errors
  with their SQLSTATE and message, values, rows and the events of a query. Of a value only the
  variants that the machine looks into are told apart; the others are \<open>PvOther\<close> of a type
  parameter. The iterator of a query is the list of the events that it is going to return.
\<close>

record pl_error =
  pe_sql_state :: string
  pe_message :: string

type_synonym 'a pl_res = "pl_error + 'a"

definition pl_err :: "string \<Rightarrow> string \<Rightarrow> pl_error" where
  "pl_err state message = \<lparr>pe_sql_state = state, pe_message = message\<rparr>"

definition internal_err :: "string \<Rightarrow> pl_error" where
  "internal_err message = pl_err ''XX000'' message"

definition limit_err :: "string \<Rightarrow> pl_error" where
  "limit_err message = pl_err ''54001'' message"

text \<open>A run of the machine can also panic, which no handler catches.\<close>

datatype vm_fail = VmErr pl_error | VmPanic

definition vm_lift :: "'a pl_res \<Rightarrow> vm_fail + 'a" where
  "vm_lift r = map_sum VmErr id r"

lemma vm_lift_simps [simp]: "vm_lift (Inl e) = Inl (VmErr e)" "vm_lift (Inr x) = Inr x"
  by (simp_all add: vm_lift_def)

datatype 'o pl_value =
    PvNull
  | PvBoolean bool
  | PvInt16 u16
  | PvInt32 u32
  | PvInt64 u64
  | PvText string
  | PvArray "'o pl_value list"
  | PvOther 'o

definition is_null :: "'o pl_value \<Rightarrow> bool" where
  "is_null v \<longleftrightarrow> (case v of PvNull \<Rightarrow> True | _ \<Rightarrow> False)"

text \<open>An integer value of any width.\<close>

definition int_of_value :: "'o pl_value \<Rightarrow> int option" where
  "int_of_value v =
     (case v of PvInt16 w \<Rightarrow> Some (sint w) | PvInt32 w \<Rightarrow> Some (sint w) | PvInt64 w \<Rightarrow> Some (sint w) | _ \<Rightarrow> None)"

type_synonym 'o pl_row = "'o pl_value list"

datatype 'o query_event =
    QeSchema "string list"
  | QeBatch "string list" "'o pl_row list"
  | QeProgress
  | QeNotice
  | QeComplete

type_synonym 'o query_stream = "'o query_event pl_res list"

record 'o runtime_query_row =
  rq_fields :: "string list"
  rq_row :: "'o pl_row"

record 'o vm_sql_request =
  rq_sql :: string
  rq_parameters :: "'o pl_value list"

datatype notice_severity = NsInfo | NsNotice | NsWarning

record pl_notice =
  pn_severity :: notice_severity
  pn_sql_state :: string
  pn_message :: string

section \<open>64-bit signed integers\<close>

text \<open>Values of \<open>i64\<close> are integers in its range; its checked and saturating operations:\<close>

definition in_i64 :: "int \<Rightarrow> bool" where
  "in_i64 i \<longleftrightarrow> - (2 ^ 63) \<le> i \<and> i < 2 ^ 63"

definition checked_i64 :: "int \<Rightarrow> int option" where
  "checked_i64 i = (if in_i64 i then Some i else None)"

definition sat_i64 :: "int \<Rightarrow> int" where
  "sat_i64 i = max (- (2 ^ 63)) (min (2 ^ 63 - 1) i)"

lemma in_i64_sat [simp]: "in_i64 (sat_i64 i)"
  by (simp add: in_i64_def sat_i64_def)

lemma sat_i64_id [simp]: "in_i64 i \<Longrightarrow> sat_i64 i = i"
  by (simp add: in_i64_def sat_i64_def)

lemma in_i64_sint: "in_i64 (sint w)" if "LENGTH('a) \<le> 64" for w :: "'a::len word"
proof -
  have le: "LENGTH('a) - 1 \<le> 63" using that by simp
  have "(2::int) ^ (LENGTH('a) - 1) \<le> 2 ^ 63" by (rule power_increasing [OF le]) simp
  then show ?thesis using sint_range_size [of w] by (simp add: in_i64_def word_size)
qed

lemma int_of_value_range: "int_of_value v = Some i \<Longrightarrow> in_i64 i"
  by (cases v) (auto simp: int_of_value_def intro: in_i64_sint)

end
