(* ===== verification/PlMemory.thy ===== *)
theory PlMemory
  imports PlData "HOL-Library.Multiset"
begin

text \<open>
  The retained-memory budget of PL/pgSQL, crates/ordadb-plpgsql/src/language/contracts.rs: a
  grant that all frames of a routine chain share, and the reservations made from it. The counter
  is changed by a compare-exchange and the peak by a separate \<open>fetch_max\<close>, so that the step
  relation \<open>memory_step\<close> of any number of threads interleaves the two.
\<close>

record memory_grant =
  mg_hard_limit :: nat
  mg_current :: nat
  mg_peak :: nat

record memory_reservation =
  mr_bytes :: nat

definition grant_new :: "nat \<Rightarrow> memory_grant pl_res" where
  "grant_new hard_limit =
     guard_res (hard_limit = 0) (pl_err ''22023'' ''PL/pgSQL retained-memory limit must be positive'') (Inr \<lparr>mg_hard_limit = hard_limit, mg_current = 0, mg_peak = 0\<rparr>)"

text \<open>The successful compare-exchange of \<open>acquire\<close>, or its error; its value is what goes into the peak.\<close>

definition grant_take :: "nat \<Rightarrow> (memory_grant, pl_error, nat) effect" where
  "grant_take bytes =
     eff_bind (eff_get (\<lambda>g. (mg_current g + bytes, mg_hard_limit g))) (\<lambda>(next_bytes, limit).
     eff_guard (usize_max < next_bytes) (pl_err ''53200'' ''PL/pgSQL retained-memory accounting overflowed'') (
     eff_guard (limit < next_bytes) (pl_err ''53200'' ''PL/pgSQL retained-memory limit exceeded'') (
     eff_bind (eff_put (\<lambda>g. g\<lparr>mg_current := next_bytes\<rparr>)) (\<lambda>_. eff_return next_bytes))))"

definition grant_raise_peak :: "nat \<Rightarrow> memory_grant \<Rightarrow> memory_grant" where
  "grant_raise_peak n g = g\<lparr>mg_peak := max (mg_peak g) n\<rparr>"

definition grant_acquire :: "nat \<Rightarrow> (memory_grant, pl_error, unit) effect" where
  "grant_acquire bytes =
     (if bytes = 0 then eff_return ()
      else eff_bind (grant_take bytes) (\<lambda>next_bytes. eff_put (grant_raise_peak next_bytes)))"

definition grant_release :: "nat \<Rightarrow> memory_grant \<Rightarrow> memory_grant" where
  "grant_release bytes g = (if bytes = 0 then g else g\<lparr>mg_current := mg_current g - bytes\<rparr>)"

definition grant_try_reserve :: "nat \<Rightarrow> (memory_grant, pl_error, memory_reservation) effect" where
  "grant_try_reserve bytes = eff_bind (grant_acquire bytes) (\<lambda>_. eff_return \<lparr>mr_bytes = bytes\<rparr>)"

text \<open>\<open>resize\<close> on the grant and the reservation.\<close>

definition reservation_resize :: "nat \<Rightarrow> (memory_grant \<times> memory_reservation, pl_error, unit) effect" where
  "reservation_resize bytes =
     eff_bind (eff_get (\<lambda>(g, r). mr_bytes r)) (\<lambda>held.
     if held < bytes
     then eff_bind (on_fst (grant_acquire (bytes - held))) (\<lambda>_. eff_put (\<lambda>(g, r). (g, r\<lparr>mr_bytes := bytes\<rparr>)))
     else if bytes < held
     then eff_put (\<lambda>(g, r). (grant_release (held - bytes) g, r\<lparr>mr_bytes := bytes\<rparr>))
     else eff_return ())"

definition reservation_drop :: "memory_grant \<times> memory_reservation \<Rightarrow> memory_grant \<times> memory_reservation" where
  "reservation_drop = (\<lambda>(g, r). (grant_release (mr_bytes r) g, r\<lparr>mr_bytes := 0\<rparr>))"

section \<open>Threads\<close>

text \<open>
  The grant, the reservations that exist and the values that threads have acquired and not yet
  entered into the peak.
\<close>

record memory_system =
  ms_grant :: memory_grant
  ms_live :: "nat multiset"
  ms_unpublished :: "nat multiset"

definition memory_init :: "nat \<Rightarrow> memory_system" where
  "memory_init limit =
     \<lparr>ms_grant = \<lparr>mg_hard_limit = limit, mg_current = 0, mg_peak = 0\<rparr>, ms_live = {#}, ms_unpublished = {#}\<rparr>"

inductive memory_step :: "memory_system \<Rightarrow> memory_system \<Rightarrow> bool" where
  reserve: "grant_take bytes (ms_grant s) = (Inr n, g) \<Longrightarrow>
    memory_step s (s\<lparr>ms_grant := g, ms_live := add_mset bytes (ms_live s), ms_unpublished := add_mset n (ms_unpublished s)\<rparr>)"
| reserve_nothing: "memory_step s (s\<lparr>ms_live := add_mset 0 (ms_live s)\<rparr>)"
| grow: "held \<in># ms_live s \<Longrightarrow> held < bytes \<Longrightarrow> grant_take (bytes - held) (ms_grant s) = (Inr n, g) \<Longrightarrow>
    memory_step s (s\<lparr>ms_grant := g, ms_live := add_mset bytes (ms_live s - {#held#}), ms_unpublished := add_mset n (ms_unpublished s)\<rparr>)"
| shrink: "held \<in># ms_live s \<Longrightarrow> bytes < held \<Longrightarrow>
    memory_step s (s\<lparr>ms_grant := grant_release (held - bytes) (ms_grant s), ms_live := add_mset bytes (ms_live s - {#held#})\<rparr>)"
| publish: "n \<in># ms_unpublished s \<Longrightarrow>
    memory_step s (s\<lparr>ms_grant := grant_raise_peak n (ms_grant s), ms_unpublished := ms_unpublished s - {#n#}\<rparr>)"
| release: "held \<in># ms_live s \<Longrightarrow>
    memory_step s (s\<lparr>ms_grant := grant_release held (ms_grant s), ms_live := ms_live s - {#held#}\<rparr>)"

definition memory_ok :: "memory_system \<Rightarrow> bool" where
  "memory_ok s \<longleftrightarrow>
     (let g = ms_grant s in
      mg_current g = \<Sum>\<^sub># (ms_live s) \<and> mg_current g \<le> mg_hard_limit g \<and> mg_peak g \<le> mg_hard_limit g \<and>
      (\<forall>n \<in># ms_unpublished s. n \<le> mg_hard_limit g) \<and>
      (mg_current g \<le> mg_peak g \<or> (\<exists>n \<in># ms_unpublished s. mg_current g \<le> n)))"

lemma grant_take_Ok:
  "grant_take bytes g = (Inr n, g') \<longleftrightarrow>
     n = mg_current g + bytes \<and> n \<le> usize_max \<and> n \<le> mg_hard_limit g \<and> g' = g\<lparr>mg_current := n\<rparr>"
  by (auto simp: grant_take_def eff_bind_def eff_guard_def)

lemma sum_replace: "held \<in># M \<Longrightarrow> \<Sum>\<^sub># M = held + \<Sum>\<^sub># (M - {#held#})" for M :: "nat multiset"
  by (metis insert_DiffM sum_mset.add_mset)

lemma memory_ok_lower:
  assumes "memory_ok s" and "c \<le> mg_current (ms_grant s)" and "c = \<Sum>\<^sub># live"
  shows "memory_ok (s\<lparr>ms_grant := (ms_grant s)\<lparr>mg_current := c\<rparr>, ms_live := live\<rparr>)"
proof -
  have "c \<le> mg_peak (ms_grant s) \<or> (\<exists>n \<in># ms_unpublished s. c \<le> n)"
    using assms(1,2) unfolding memory_ok_def Let_def by (meson order.trans)
  with assms show ?thesis by (simp add: memory_ok_def Let_def)
qed

lemma grant_release_eq: "grant_release bytes g = g\<lparr>mg_current := mg_current g - bytes\<rparr>"
  by (simp add: grant_release_def)

lemma memory_ok_step: "memory_step s s' \<Longrightarrow> memory_ok s \<Longrightarrow> memory_ok s'"
proof (induction rule: memory_step.induct)
  case (reserve bytes s n g)
  then show ?case by (auto simp: memory_ok_def grant_take_Ok Let_def)
next
  case (reserve_nothing s)
  then show ?case by (auto simp: memory_ok_def Let_def)
next
  case (grow held s bytes n g)
  then show ?case using sum_replace [OF grow(1)] by (auto simp: memory_ok_def grant_take_Ok Let_def)
next
  case (shrink held s bytes)
  have "mg_current (ms_grant s) - (held - bytes) = \<Sum>\<^sub># (add_mset bytes (ms_live s - {#held#}))"
    using shrink sum_replace [OF shrink(1)] by (simp add: memory_ok_def Let_def)
  with shrink(3) show ?case unfolding grant_release_eq by (intro memory_ok_lower) simp_all
next
  case (publish n s)
  let ?c = "mg_current (ms_grant s)"
  have "?c \<le> mg_peak (ms_grant s) \<or> (\<exists>m \<in># ms_unpublished s. ?c \<le> m)" using publish(2) unfolding memory_ok_def Let_def by blast
  then have "?c \<le> max (mg_peak (ms_grant s)) n \<or> (\<exists>m \<in># ms_unpublished s - {#n#}. ?c \<le> m)"
    using publish(1) by (metis insert_DiffM insert_noteq_member max.coboundedI1 max.coboundedI2)
  with publish show ?case by (simp add: memory_ok_def grant_raise_peak_def Let_def) (meson in_diffD)
next
  case (release held s)
  have "mg_current (ms_grant s) - held = \<Sum>\<^sub># (ms_live s - {#held#})"
    using release(2) sum_replace [OF release(1)] by (simp add: memory_ok_def Let_def)
  with release(2) show ?case unfolding grant_release_eq by (intro memory_ok_lower) simp_all
qed

lemma hard_limit_step: "memory_step s s' \<Longrightarrow> mg_hard_limit (ms_grant s') = mg_hard_limit (ms_grant s)"
  by (induction rule: memory_step.induct) (auto simp: grant_take_Ok grant_release_def grant_raise_peak_def)

lemma memory_ok_reachable:
  assumes "memory_step\<^sup>*\<^sup>* (memory_init limit) s"
  shows "memory_ok s \<and> mg_hard_limit (ms_grant s) = limit"
  using assms
proof (induction rule: rtranclp_induct)
  case base
  show ?case by (simp add: memory_ok_def memory_init_def)
next
  case (step s s')
  then show ?case using memory_ok_step hard_limit_step by metis
qed

text \<open>The methods are runs of the steps of one thread.\<close>

lemma reservation_resize_steps:
  assumes "reservation_resize bytes (ms_grant s, \<lparr>mr_bytes = held\<rparr>) = (Inr (), (g, r))" and "held \<in># ms_live s"
  shows "\<exists>s'. memory_step\<^sup>*\<^sup>* s s' \<and> ms_grant s' = g \<and> ms_live s' = add_mset (mr_bytes r) (ms_live s - {#held#}) \<and>
    ms_unpublished s' = ms_unpublished s \<and> mr_bytes r = bytes"
proof -
  consider (grow) "held < bytes" | (shrink) "bytes < held" | (same) "bytes = held" by linarith
  then show ?thesis
  proof cases
    case grow
    then obtain n g1 where t: "grant_take (bytes - held) (ms_grant s) = (Inr n, g1)" and g: "g = grant_raise_peak n g1" "r = \<lparr>mr_bytes = bytes\<rparr>"
      using assms(1) by (auto simp: reservation_resize_def grant_acquire_def on_fst_def eff_bind_def split: prod.splits sum.splits)
    let ?s = "s\<lparr>ms_grant := g1, ms_live := add_mset bytes (ms_live s - {#held#}), ms_unpublished := add_mset n (ms_unpublished s)\<rparr>"
    have "memory_step s ?s" by (rule memory_step.grow [OF assms(2) grow t])
    moreover have "memory_step ?s (s\<lparr>ms_live := add_mset bytes (ms_live s - {#held#}), ms_grant := g\<rparr>)"
      using memory_step.publish [of n ?s] g(1) by simp
    ultimately have "memory_step\<^sup>*\<^sup>* s (s\<lparr>ms_live := add_mset bytes (ms_live s - {#held#}), ms_grant := g\<rparr>)"
      by (meson r_into_rtranclp rtranclp.rtrancl_into_rtrancl)
    with g show ?thesis by (intro exI [of _ "s\<lparr>ms_live := add_mset bytes (ms_live s - {#held#}), ms_grant := g\<rparr>"]) simp
  next
    case shrink
    with assms(1) have "g = grant_release (held - bytes) (ms_grant s)" "r = \<lparr>mr_bytes = bytes\<rparr>"
      by (auto simp: reservation_resize_def eff_bind_def)
    with memory_step.shrink [OF assms(2) shrink] show ?thesis
      by (intro exI [of _ "s\<lparr>ms_grant := g, ms_live := add_mset bytes (ms_live s - {#held#})\<rparr>"]) auto
  next
    case same
    with assms have "g = ms_grant s" "r = \<lparr>mr_bytes = bytes\<rparr>" by (auto simp: reservation_resize_def eff_bind_def)
    with same assms(2) show ?thesis by (intro exI [of _ s]) simp
  qed
qed

text \<open>
  C13. Whatever any number of threads do with one memory grant, in any interleaving of their
  compare-exchanges and updates of the peak, the counter is exactly the sum of the live
  reservations, it never exceeds the hard limit, and neither does the peak; the counter is covered
  by the peak as soon as every thread has published what it acquired.
\<close>

theorem memory_never_exceeds_limit:
  assumes "memory_step\<^sup>*\<^sup>* (memory_init limit) s"
  shows "mg_current (ms_grant s) = \<Sum>\<^sub># (ms_live s) \<and> mg_current (ms_grant s) \<le> limit \<and> mg_peak (ms_grant s) \<le> limit \<and>
    (ms_unpublished s = {#} \<longrightarrow> mg_current (ms_grant s) \<le> mg_peak (ms_grant s))"
  using memory_ok_reachable [OF assms] by (auto simp: memory_ok_def Let_def)

lemma memory_never_exceeds_limit_witness:
  "\<exists>s. memory_step\<^sup>*\<^sup>* (memory_init 8) s \<and> ms_live s = {#5#} \<and> mg_current (ms_grant s) = 5 \<and> mg_peak (ms_grant s) \<le> 8"
proof -
  let ?s = "\<lparr>ms_grant = \<lparr>mg_hard_limit = 8, mg_current = 5, mg_peak = 0\<rparr>, ms_live = {#5#}, ms_unpublished = {#5#}\<rparr>"
  have "grant_take 5 \<lparr>mg_hard_limit = 8, mg_current = 0, mg_peak = 0\<rparr> = (Inr 5, \<lparr>mg_hard_limit = 8, mg_current = 5, mg_peak = 0\<rparr>)"
    by (simp add: grant_take_Ok usize_max_def)
  then have "memory_step\<^sup>*\<^sup>* (memory_init 8) ?s"
    using memory_step.reserve [of 5 "memory_init 8"] by (auto simp: memory_init_def)
  with memory_never_exceeds_limit [OF this] show ?thesis by (intro exI [of _ ?s]) simp
qed

end
