(* ===== verification/PlRecord.thy ===== *)
theory PlRecord
  imports PlData PlMemory
begin

text \<open>
  Record variables of PL/pgSQL and the evaluation of expressions against a host
  (crates/ordadb-plpgsql/src/language/contracts.rs). The host is the engine that runs the
  routine: a record of functions over a world that also holds the shared memory grant and the
  outcomes of file operations. How many bytes a value occupies depends on the allocator; the
  estimates are functions that the definitions take as an argument.
\<close>

record 'w pl_world =
  pw_host :: 'w
  pw_grant :: memory_grant
  pw_io :: "io list"

record ('w, 'o) pl_host =
  ho_execute_sql :: "string \<Rightarrow> 'o pl_value list \<Rightarrow> ('w pl_world, pl_error, 'o query_stream) effect"
  ho_evaluate_expression :: "string \<Rightarrow> 'o pl_value list \<Rightarrow> ('w pl_world, pl_error, 'o pl_value) effect"
  ho_assign_composite_field :: "nat \<Rightarrow> string \<Rightarrow> 'o pl_value \<Rightarrow> ('w pl_world, pl_error, unit) effect"
  ho_begin_exception_block :: "('w pl_world, pl_error, unit) effect"
  ho_commit_exception_block :: "('w pl_world, pl_error, unit) effect"
  ho_rollback_exception_block :: "('w pl_world, pl_error, unit) effect"
  ho_emit_notice :: "pl_notice \<Rightarrow> ('w pl_world, pl_error, unit) effect"
  ho_resolve_row_type :: "string \<Rightarrow> ('w pl_world, pl_error, string list) effect"
  ho_check_cancelled :: "('w pl_world, pl_error, unit) effect"

section \<open>Record variables\<close>

record 'o runtime_record =
  rr_declared_fields :: "string list option"
  rr_values :: "(string \<times> 'o pl_value) list option"

type_synonym 'o record_map = "(nat, 'o runtime_record) btree_map"

definition record_unassigned :: "'o runtime_record" where
  "record_unassigned = \<lparr>rr_declared_fields = None, rr_values = None\<rparr>"

fun validate_fields :: "string list \<Rightarrow> string list \<Rightarrow> unit pl_res" where
  "validate_fields seen [] = Inr ()"
| "validate_fields seen (field # names) =
     guard_res (field = [] \<or> 63 < byte_len field \<or> CHR 0x00 \<in> set field)
       (pl_err ''22023'' ''record field name is empty or exceeds its bound'') (
     guard_res (to_ascii_lowercase field \<in> set seen)
       (pl_err ''42701'' (''record field '' @ field @ '' appears more than once'')) (
       validate_fields (to_ascii_lowercase field # seen) names))"

definition validate_record_fields :: "string list \<Rightarrow> unit pl_res" where
  "validate_record_fields names = validate_fields [] names"

definition record_row_type :: "string list \<Rightarrow> 'o runtime_record pl_res" where
  "record_row_type names =
     try_bind (validate_record_fields names) (\<lambda>_.
       Inr \<lparr>rr_declared_fields = Some names, rr_values = Some (map (\<lambda>field. (field, PvNull)) names)\<rparr>)"

definition record_assign_row :: "string list \<Rightarrow> 'o pl_row \<Rightarrow> 'o runtime_record \<Rightarrow> 'o runtime_record pl_res" where
  "record_assign_row names row r =
     try_bind (validate_record_fields names) (\<lambda>_.
     guard_res (length names \<noteq> length row) (internal_err ''PL/pgSQL record row width does not match its schema'') (
     guard_res (case rr_declared_fields r of
         None \<Rightarrow> False
       | Some declared \<Rightarrow> length declared \<noteq> length names \<or> list_ex (\<lambda>(l, f). \<not> eq_ignore_case l f) (zip declared names))
       (pl_err ''42804'' ''query row is not assignable to the declared %ROWTYPE variable'') (
       Inr (r\<lparr>rr_values := Some (zip names row)\<rparr>))))"

definition record_clear_after_no_row :: "'o runtime_record \<Rightarrow> 'o runtime_record" where
  "record_clear_after_no_row r = r\<lparr>rr_values := map_option (map (\<lambda>field. (field, PvNull))) (rr_declared_fields r)\<rparr>"

definition record_is_assigned :: "'o runtime_record \<Rightarrow> bool" where
  "record_is_assigned r \<longleftrightarrow> rr_values r \<noteq> None"

definition record_value :: "string \<Rightarrow> 'o runtime_record \<Rightarrow> 'o pl_value pl_res" where
  "record_value field r =
     try_bind (ok_or (pl_err ''55000'' ''record is not assigned yet'') (rr_values r)) (\<lambda>values.
     try_bind (ok_or (pl_err ''42703'' (''record has no field '' @ field)) (List.find (\<lambda>(n, _). eq_ignore_case n field) values)) (\<lambda>(_, v).
       Inr v))"

fun set_field :: "string \<Rightarrow> 'o pl_value \<Rightarrow> (string \<times> 'o pl_value) list \<Rightarrow> (string \<times> 'o pl_value) list option" where
  "set_field field v [] = None"
| "set_field field v ((n, x) # values) =
     (if eq_ignore_case n field then Some ((n, v) # values)
      else map_option (\<lambda>vs. (n, x) # vs) (set_field field v values))"

definition record_assign_field :: "string \<Rightarrow> 'o pl_value \<Rightarrow> 'o runtime_record \<Rightarrow> 'o runtime_record pl_res" where
  "record_assign_field field v r =
     try_bind (ok_or (pl_err ''55000'' ''record is not assigned yet'') (rr_values r)) (\<lambda>values.
     try_bind (ok_or (pl_err ''42703'' (''record has no field '' @ field)) (set_field field v values)) (\<lambda>values.
       Inr (r\<lparr>rr_values := Some values\<rparr>)))"

text \<open>The bytes of all records, one of them replaced by the candidate, against the limit.\<close>

definition ensure_runtime_record_limit ::
  "('o runtime_record \<Rightarrow> nat) \<Rightarrow> 'o record_map \<Rightarrow> (nat \<times> 'o runtime_record) option \<Rightarrow> nat \<Rightarrow> unit pl_res" where
  "ensure_runtime_record_limit estimated_bytes records candidate limit =
     try_bind (fold_res (\<lambda>(slot, r) retained.
         let r = (case candidate of Some (s, c) \<Rightarrow> if s = slot then c else r | None \<Rightarrow> r) in
         try_bind (ok_or (pl_err ''53200'' ''PL/pgSQL record memory accounting overflowed'') (checked_add_usize retained (estimated_bytes r))) (\<lambda>retained.
         guard_res (limit < retained) (pl_err ''53200'' ''PL/pgSQL record retained-memory limit exceeded'') (Inr retained)))
       (bm_list records) 0) (\<lambda>_. Inr ())"

text \<open>One record for each local that is declared as a record or a row type, from a slot on.\<close>

fun initialize_records ::
  "('w, 'o) pl_host \<Rightarrow> nat \<Rightarrow> local_slot list \<Rightarrow> 'o record_map \<Rightarrow> ('w pl_world, pl_error, 'o record_map) effect" where
  "initialize_records host slot [] records = eff_return records"
| "initialize_records host slot (l # locals) records =
     (case ls_kind l of
        LkScalar \<Rightarrow> initialize_records host (slot + 1) locals records
      | LkRecord \<Rightarrow> initialize_records host (slot + 1) locals (bm_insert slot record_unassigned records)
      | LkRowType relation \<Rightarrow>
          eff_bind (ho_resolve_row_type host relation) (\<lambda>names.
          eff_bind (eff_res (record_row_type names)) (\<lambda>r.
            initialize_records host (slot + 1) locals (bm_insert slot r records))))"

definition initialize_runtime_records ::
  "('o runtime_record \<Rightarrow> nat) \<Rightarrow> ('w, 'o) pl_host \<Rightarrow> program \<Rightarrow> nat \<Rightarrow> ('w pl_world, pl_error, 'o record_map) effect" where
  "initialize_runtime_records estimated_bytes host program limit =
     eff_bind (initialize_records host 0 (pg_locals program) bm_empty) (\<lambda>records.
     eff_bind (eff_res (ensure_runtime_record_limit estimated_bytes records None limit)) (\<lambda>_. eff_return records))"

text \<open>A row goes into a record, or its first value into the local.\<close>

definition assign_runtime_row ::
  "('o runtime_record \<Rightarrow> nat) \<Rightarrow> nat \<Rightarrow> 'o runtime_query_row option \<Rightarrow> nat \<Rightarrow> 'o pl_value list \<times> 'o record_map \<Rightarrow>
     vm_fail + 'o pl_value list \<times> 'o record_map" where
  "assign_runtime_row estimated_bytes slot v limit = (\<lambda>(locals, records).
     case bm_get records slot of
       Some r \<Rightarrow>
         vm_lift (try_bind (case v of
             Some q \<Rightarrow> record_assign_row (rq_fields q) (rq_row q) r
           | None \<Rightarrow> Inr (record_clear_after_no_row r)) (\<lambda>candidate.
         try_bind (ensure_runtime_record_limit estimated_bytes records (Some (slot, candidate)) limit) (\<lambda>_.
           Inr (locals, bm_insert slot candidate records))))
     | None \<Rightarrow>
         (if slot < length locals
          then Inr (locals[slot := (case v of Some q \<Rightarrow> (case rq_row q of x # _ \<Rightarrow> x | [] \<Rightarrow> PvNull) | None \<Rightarrow> PvNull)], records)
          else Inl VmPanic))"

section \<open>Expressions\<close>

definition positional_parameter_index :: "string \<Rightarrow> nat option" where
  "positional_parameter_index expression =
     Option.bind (strip_prefix ''$'' (trim_text expression)) (\<lambda>s. Option.bind (parse_usize s) pred_usize)"

definition record_field_reference :: "string \<Rightarrow> (nat \<times> string) option" where
  "record_field_reference expression =
     Option.bind (strip_prefix ''$'' (trim_text expression)) (\<lambda>s.
     Option.bind (split_once_char (\<lambda>c. c = CHR ''.'') s) (\<lambda>(parameter, field).
     if field = [] \<or> \<not> list_all is_ident field then None
     else Option.bind (Option.bind (parse_usize parameter) pred_usize) (\<lambda>slot. Some (slot, field))))"

lemma dropWhile_length: "length (dropWhile P xs) \<le> length xs"
  by (induction xs) auto

lemma dropWhile_tl_length: "length (dropWhile P (tl (dropWhile Q xs))) \<le> length xs"
proof -
  have "length (dropWhile P (tl (dropWhile Q xs))) \<le> length (tl (dropWhile Q xs))" by (rule dropWhile_length)
  also have "\<dots> \<le> length (dropWhile Q xs)" by simp
  also have "\<dots> \<le> length xs" by (rule dropWhile_length)
  finally show ?thesis .
qed

text \<open>
  The loop of \<open>expand_runtime_record_fields\<close>: the output, the parameters so far and the rest of
  the text. A reference to a field of a record becomes one more parameter.
\<close>

function expand_from ::
  "'o record_map \<Rightarrow> string \<Rightarrow> 'o pl_value list \<Rightarrow> char option \<Rightarrow> string \<Rightarrow> (string \<times> 'o pl_value list) pl_res" where
  "expand_from records out expanded quote [] = Inr (out, expanded)"
| "expand_from records out expanded (Some q) (c # cs) =
     (if c = q
      then case cs of
             d # ds \<Rightarrow> if d = q then expand_from records (out @ [c, q]) expanded (Some q) ds
                      else expand_from records (out @ [c]) expanded None cs
           | [] \<Rightarrow> expand_from records (out @ [c]) expanded None []
      else expand_from records (out @ [c]) expanded (Some q) cs)"
| "expand_from records out expanded None (c # cs) =
     (let digits = takeWhile is_digit cs; after = dropWhile is_digit cs in
      if is_quote c then expand_from records (out @ [c]) expanded (Some c) cs
      else if c \<noteq> CHR ''$'' \<or> digits = [] \<or> after = [] \<or> hd after \<noteq> CHR ''.''
      then expand_from records (out @ [c]) expanded None cs
      else
        let field = takeWhile is_ident (tl after); rest = dropWhile is_ident (tl after) in
        try_bind (ok_or (pl_err ''42P02'' ''invalid record parameter'') (parse_usize digits)) (\<lambda>n.
        try_bind (ok_or (pl_err ''42P02'' ''record parameters are one-based'') (pred_usize n)) (\<lambda>slot.
        case bm_get records slot of
          None \<Rightarrow> expand_from records (out @ c # digits @ ''.'' @ field) expanded None rest
        | Some r \<Rightarrow>
            guard_res (field = []) (pl_err ''42601'' ''record access requires an unquoted field name'') (
            try_bind (record_value field r) (\<lambda>v.
              expand_from records (out @ ''$'' @ show_nat (length expanded + 1)) (expanded @ [v]) None rest)))))"
  by pat_completeness auto

termination
  by (relation "measure (\<lambda>(_, _, _, _, s). length s)") (auto simp: less_Suc_eq_le dropWhile_tl_length)

definition expand_runtime_record_fields ::
  "string \<Rightarrow> 'o pl_value list \<Rightarrow> 'o record_map \<Rightarrow> (string \<times> 'o pl_value list) pl_res" where
  "expand_runtime_record_fields sql parameters records =
     (if bm_list records = [] then Inr (sql, parameters) else expand_from records [] parameters None sql)"

definition evaluate_runtime_expression ::
  "('w, 'o) pl_host \<Rightarrow> string \<Rightarrow> 'o pl_value list \<Rightarrow> 'o record_map \<Rightarrow> ('w pl_world, pl_error, 'o pl_value) effect" where
  "evaluate_runtime_expression host expression locals records =
     (case Option.bind (record_field_reference expression) (\<lambda>(slot, field). map_option (\<lambda>r. (r, field)) (bm_get records slot)) of
        Some (r, field) \<Rightarrow> eff_res (record_value field r)
      | None \<Rightarrow>
          eff_guard (case positional_parameter_index expression of Some slot \<Rightarrow> bm_contains records slot | None \<Rightarrow> False)
            (pl_err ''42804'' ''a record value cannot be used as an ordinary scalar expression'') (
          eff_bind (eff_res (expand_runtime_record_fields expression locals records)) (\<lambda>(expression, parameters).
            ho_evaluate_expression host expression parameters)))"

end
