(* ===== verification/PlCursor.thy ===== *)
theory PlCursor
  imports PlRecord
begin

text \<open>
  Cursors of PL/pgSQL, crates/ordadb-plpgsql/src/language/runtime_memory.rs: the rows that a
  cursor has fetched are kept in memory up to half of the limit and then moved to a temporary
  file, each with its length in front. The encoding of a row (serde\_json) and the estimate of its
  bytes are parameters; the temporary file is a list of bytes, and the outcomes of the calls on it
  are the oracle of theory Effect.
\<close>

record 'o row_codec =
  rc_encode :: "'o pl_row \<Rightarrow> u8 list option"
  rc_decode :: "u8 list \<Rightarrow> 'o pl_row option"
  rc_row_bytes :: "'o pl_row \<Rightarrow> nat"

record spill_store =
  sp_file :: "u8 list"
  sp_offsets :: "nat list"

datatype 'o cursor_page_store = CpMemory "'o pl_row list" nat | CpSpilled spill_store

record 'o cursor_state =
  cu_events :: "'o query_stream"
  cu_current_rows :: "'o pl_row list"
  cu_store :: "'o cursor_page_store"
  cu_fields :: "string list option"
  cu_position :: int
  cu_exhausted :: bool

datatype evaluated_cursor_direction =
    EdNext
  | EdPrior
  | EdFirst
  | EdLast
  | EdAbsolute int
  | EdRelative int
  | EdForward int
  | EdForwardAll
  | EdBackward int
  | EdBackwardAll

definition cursor_state_new :: "'o query_stream \<Rightarrow> 'o cursor_state" where
  "cursor_state_new events =
     \<lparr>cu_events = events, cu_current_rows = [], cu_store = CpMemory [] 0, cu_fields = None, cu_position = 0, cu_exhausted = False\<rparr>"

definition cursor_memory_limit :: pl_error where
  "cursor_memory_limit = pl_err ''53200'' ''PL/pgSQL cursor retained-memory limit exceeded''"

definition cursor_io_error :: "string \<Rightarrow> pl_error" where
  "cursor_io_error context = pl_err ''58030'' context"

section \<open>The spill file\<close>

text \<open>A call that only succeeds or fails, and a write, which may stop in the middle.\<close>

definition spill_call :: "string \<Rightarrow> ('s \<times> io list, pl_error, unit) effect" where
  "spill_call context =
     eff_bind (eff_get (\<lambda>(s, os). fst (next_io os))) (\<lambda>r.
     eff_bind (eff_put (\<lambda>(s, os). (s, snd (next_io os)))) (\<lambda>_.
     eff_guard (r \<noteq> IoOk) (cursor_io_error context) (eff_return ())))"

definition spill_write :: "string \<Rightarrow> u8 list \<Rightarrow> (spill_store \<times> io list, pl_error, unit) effect" where
  "spill_write context bytes = (\<lambda>(s, os).
     case next_io os of
       (IoOk, os) \<Rightarrow> (Inr (), (s\<lparr>sp_file := sp_file s @ bytes\<rparr>, os))
     | (IoFail n, os) \<Rightarrow> (Inl (cursor_io_error context), (s\<lparr>sp_file := sp_file s @ take n bytes\<rparr>, os)))"

definition spill_push :: "'o row_codec \<Rightarrow> resource_limits \<Rightarrow> 'o pl_row \<Rightarrow> (spill_store \<times> io list, pl_error, unit) effect" where
  "spill_push codec limits row =
     eff_bind (eff_res (ok_or (pl_err ''XX000'' ''failed to encode PL/pgSQL cursor spill row'') (rc_encode codec row))) (\<lambda>payload.
     eff_guard (max_cursor_bytes limits < length payload) cursor_memory_limit (
     eff_guard (2 ^ 32 \<le> length payload) (pl_err ''54000'' ''cursor spill row is too large'') (
     eff_bind (eff_get (\<lambda>(s, os). length (sp_offsets s))) (\<lambda>count.
     eff_bind (eff_res (ok_or (pl_err ''53200'' ''PL/pgSQL cursor memory accounting overflowed'')
         (Option.bind (checked_add_usize count 1) (\<lambda>n. checked_mul_usize n 8)))) (\<lambda>retained_offsets.
     eff_guard (max_cursor_bytes limits < min (retained_offsets + length payload) usize_max) cursor_memory_limit (
     eff_bind (spill_call ''failed to seek PL/pgSQL cursor spill file'') (\<lambda>_.
     eff_bind (eff_get (\<lambda>(s, os). length (sp_file s))) (\<lambda>offset.
     eff_bind (spill_write ''failed to write PL/pgSQL cursor spill length'' (to_le_u32 (of_nat (length payload)))) (\<lambda>_.
     eff_bind (spill_write ''failed to write PL/pgSQL cursor spill row'' payload) (\<lambda>_.
       eff_put (\<lambda>(s, os). (s\<lparr>sp_offsets := sp_offsets s @ [offset]\<rparr>, os))))))))))))"

definition spill_from_values :: "'o row_codec \<Rightarrow> resource_limits \<Rightarrow> 'o pl_row list \<Rightarrow> (io list, pl_error, spill_store) effect" where
  "spill_from_values codec limits rows os =
     (case eff_bind (spill_call ''failed to create PL/pgSQL cursor spill file'') (\<lambda>_. eff_each (spill_push codec limits) rows)
         (\<lparr>sp_file = [], sp_offsets = []\<rparr>, os) of
        (Inl e, (_, os)) \<Rightarrow> (Inl e, os)
      | (Inr _, (s, os)) \<Rightarrow> (Inr s, os))"

text \<open>\<open>read_exact\<close> of some bytes at an offset.\<close>

definition spill_read :: "string \<Rightarrow> nat \<Rightarrow> nat \<Rightarrow> (spill_store \<times> io list, pl_error, u8 list) effect" where
  "spill_read context offset n =
     eff_bind (spill_call context) (\<lambda>_.
     eff_bind (eff_get (\<lambda>(s, os). take n (drop offset (sp_file s)))) (\<lambda>bytes.
     eff_guard (length bytes < n) (cursor_io_error context) (eff_return bytes)))"

definition spill_get :: "'o row_codec \<Rightarrow> resource_limits \<Rightarrow> nat \<Rightarrow> (spill_store \<times> io list, pl_error, 'o pl_row option) effect" where
  "spill_get codec limits index =
     eff_bind (eff_get (\<lambda>(s, os). if index < length (sp_offsets s) then Some (sp_offsets s ! index) else None)) (\<lambda>offset.
     case offset of
       None \<Rightarrow> eff_return None
     | Some offset \<Rightarrow>
         eff_bind (spill_call ''failed to seek PL/pgSQL cursor spill row'') (\<lambda>_.
         eff_bind (spill_read ''failed to read PL/pgSQL cursor spill length'' offset 4) (\<lambda>encoded.
         let n = unat (from_le_u32 encoded) in
         eff_guard (max_cursor_bytes limits < n) (pl_err ''XX001'' ''PL/pgSQL cursor spill row exceeds its declared bound'') (
         eff_bind (spill_read ''failed to read PL/pgSQL cursor spill row'' (offset + 4) n) (\<lambda>payload.
         eff_bind (eff_res (ok_or (pl_err ''XX001'' ''PL/pgSQL cursor spill row is corrupt'') (rc_decode codec payload))) (\<lambda>row.
           eff_return (Some row)))))))"

section \<open>The rows that have been fetched\<close>

definition store_len :: "'o cursor_page_store \<Rightarrow> nat" where
  "store_len st = (case st of CpMemory rows _ \<Rightarrow> length rows | CpSpilled s \<Rightarrow> length (sp_offsets s))"

definition store_push :: "'o row_codec \<Rightarrow> resource_limits \<Rightarrow> 'o pl_row \<Rightarrow> ('o cursor_page_store \<times> io list, pl_error, unit) effect" where
  "store_push codec limits row = (\<lambda>(st, os).
     case st of
       CpMemory rows bytes \<Rightarrow>
         if max_cursor_bytes limits < rc_row_bytes codec row then (Inl cursor_memory_limit, (st, os))
         else (case checked_add_usize bytes (rc_row_bytes codec row) of
             None \<Rightarrow> (Inl (pl_err ''53200'' ''PL/pgSQL cursor memory accounting overflowed''), (st, os))
           | Some next_bytes \<Rightarrow>
               if next_bytes \<le> max_cursor_bytes limits div 2 then (Inr (), (CpMemory (rows @ [row]) next_bytes, os))
               else (case spill_from_values codec limits (rows @ [row]) os of
                   (Inl e, os) \<Rightarrow> (Inl e, (st, os))
                 | (Inr s, os) \<Rightarrow> (Inr (), (CpSpilled s, os))))
     | CpSpilled s \<Rightarrow> (case spill_push codec limits row (s, os) of (r, (s, os)) \<Rightarrow> (r, (CpSpilled s, os))))"

definition store_get :: "'o row_codec \<Rightarrow> resource_limits \<Rightarrow> nat \<Rightarrow> ('o cursor_page_store \<times> io list, pl_error, 'o pl_row option) effect" where
  "store_get codec limits index = (\<lambda>(st, os).
     case st of
       CpMemory rows _ \<Rightarrow> (Inr (if index < length rows then Some (rows ! index) else None), (st, os))
     | CpSpilled s \<Rightarrow> (case spill_get codec limits index (s, os) of (r, (s, os)) \<Rightarrow> (r, (CpSpilled s, os))))"

section \<open>Fetching\<close>

text \<open>
  The loop over the events of a query until there is a row, with the rows of the batch in hand;
  \<open>QueryLoopState::next_row\<close> and \<open>CursorState::pull_one\<close> have it in common. Its result are the
  row, if any, and the remaining events, the names of the fields and the remaining rows.
\<close>

fun next_row_event ::
  "'o query_stream \<Rightarrow> string list option \<Rightarrow> 'o pl_row list \<Rightarrow>
     'o pl_row option pl_res \<times> 'o query_stream \<times> string list option \<times> 'o pl_row list" where
  "next_row_event events names (row # rows) = (Inr (Some row), events, names, rows)"
| "next_row_event [] names [] = (Inr None, [], names, [])"
| "next_row_event (Inl e # events) names [] = (Inl e, events, names, [])"
| "next_row_event (Inr ev # events) names [] =
     (case ev of
        QeSchema schema \<Rightarrow> next_row_event events (Some schema) []
      | QeBatch schema rows \<Rightarrow> next_row_event events (if names = None then Some schema else names) rows
      | _ \<Rightarrow> next_row_event events names [])"

definition cursor_pull_one :: "'o row_codec \<Rightarrow> resource_limits \<Rightarrow> ('o cursor_state \<times> io list, pl_error, unit) effect" where
  "cursor_pull_one codec limits = (\<lambda>(cu, os).
     case next_row_event (cu_events cu) (cu_fields cu) (cu_current_rows cu) of
       (r, events, names, rows) \<Rightarrow>
         let cu = cu\<lparr>cu_events := events, cu_fields := names, cu_current_rows := rows\<rparr> in
         case r of
           Inl e \<Rightarrow> (Inl e, (cu, os))
         | Inr None \<Rightarrow> (Inr (), (cu\<lparr>cu_exhausted := True\<rparr>, os))
         | Inr (Some row) \<Rightarrow>
             if max_cursor_rows limits \<le> store_len (cu_store cu)
             then (Inl (pl_err ''54000'' ''PL/pgSQL cursor row limit exceeded''), (cu, os))
             else (case store_push codec limits row (cu_store cu, os) of
                 (r, (st, os)) \<Rightarrow> (r, (cu\<lparr>cu_store := st\<rparr>, os))))"

fun stream_weight :: "'o query_stream \<Rightarrow> nat" where
  "stream_weight [] = 0"
| "stream_weight (Inr (QeBatch _ rows) # events) = 1 + length rows + stream_weight events"
| "stream_weight (_ # events) = 1 + stream_weight events"

definition cursor_weight :: "'o cursor_state \<Rightarrow> nat" where
  "cursor_weight cu = (if cu_exhausted cu then 0 else 1 + length (cu_current_rows cu) + stream_weight (cu_events cu))"

lemma next_row_event_weight:
  "next_row_event events names rows = (Inr (Some row), events', names', rows') \<Longrightarrow>
     length rows' + stream_weight events' < length rows + stream_weight events"
proof (induction events names rows rule: next_row_event.induct)
  case (4 ev events names)
  then show ?case by (cases ev) (fastforce split: if_splits)+
qed auto

lemma cursor_pull_one_weight:
  assumes "cursor_pull_one codec limits (cu, os) = (Inr (), (cu', os'))" and "\<not> cu_exhausted cu"
  shows "cursor_weight cu' < cursor_weight cu"
  using assms
  by (auto simp: cursor_pull_one_def cursor_weight_def Let_def dest!: next_row_event_weight
      split: prod.splits sum.splits option.splits if_splits)

function cursor_load_through :: "'o row_codec \<Rightarrow> resource_limits \<Rightarrow> nat \<Rightarrow> ('o cursor_state \<times> io list, pl_error, bool) effect" where
  "cursor_load_through codec limits target (cu, os) =
     (if store_len (cu_store cu) < target \<and> \<not> cu_exhausted cu
      then case cursor_pull_one codec limits (cu, os) of
             (Inl e, st) \<Rightarrow> (Inl e, st)
           | (Inr _, st) \<Rightarrow> cursor_load_through codec limits target st
      else (Inr (target \<le> store_len (cu_store cu)), (cu, os)))"
  by pat_completeness auto

termination
  by (relation "measure (\<lambda>(_, _, _, cu, _). cursor_weight cu)")
    (auto dest!: cursor_pull_one_weight sym [of "(Inr _, _)"])

function cursor_load_all :: "'o row_codec \<Rightarrow> resource_limits \<Rightarrow> ('o cursor_state \<times> io list, pl_error, unit) effect" where
  "cursor_load_all codec limits (cu, os) =
     (if \<not> cu_exhausted cu
      then case cursor_pull_one codec limits (cu, os) of
             (Inl e, st) \<Rightarrow> (Inl e, st)
           | (Inr _, st) \<Rightarrow> cursor_load_all codec limits st
      else (Inr (), (cu, os)))"
  by pat_completeness auto

termination
  by (relation "measure (\<lambda>(_, _, cu, _). cursor_weight cu)")
    (auto dest!: cursor_pull_one_weight sym [of "(Inr _, _)"])

definition cached_len_i64 :: "('o cursor_state \<times> io list, pl_error, int) effect" where
  "cached_len_i64 =
     eff_bind (eff_get (\<lambda>(cu, os). store_len (cu_store cu))) (\<lambda>n.
     eff_guard (2 ^ 63 \<le> n) (pl_err ''54000'' ''cursor row count is not addressable'') (eff_return (int n)))"

text \<open>The position that a direction asks for; \<open>None\<close> when it only moves behind the last or in front of the first row.\<close>

definition cursor_target :: "'o row_codec \<Rightarrow> resource_limits \<Rightarrow> evaluated_cursor_direction \<Rightarrow> ('o cursor_state \<times> io list, pl_error, int option) effect" where
  "cursor_target codec limits direction =
     eff_bind (eff_get (\<lambda>(cu, os). cu_position cu)) (\<lambda>position.
     let set_position = (\<lambda>i. eff_put (\<lambda>(cu, os). (cu\<lparr>cu_position := i\<rparr>, os))) in
     case direction of
       EdNext \<Rightarrow> eff_return (Some (sat_i64 (position + 1)))
     | EdPrior \<Rightarrow> eff_return (Some (sat_i64 (position - 1)))
     | EdFirst \<Rightarrow> eff_return (Some 1)
     | EdLast \<Rightarrow> eff_bind (cursor_load_all codec limits) (\<lambda>_. eff_bind cached_len_i64 (\<lambda>n. eff_return (Some n)))
     | EdAbsolute i \<Rightarrow>
         if i < 0
         then eff_bind (cursor_load_all codec limits) (\<lambda>_. eff_bind cached_len_i64 (\<lambda>n. eff_return (Some (sat_i64 (sat_i64 (n + 1) + i)))))
         else eff_return (Some i)
     | EdRelative i \<Rightarrow> eff_return (Some (sat_i64 (position + i)))
     | EdForward i \<Rightarrow> eff_return (Some (sat_i64 (position + i)))
     | EdForwardAll \<Rightarrow>
         eff_bind (cursor_load_all codec limits) (\<lambda>_.
         eff_bind cached_len_i64 (\<lambda>n. eff_bind (set_position (sat_i64 (n + 1))) (\<lambda>_. eff_return None)))
     | EdBackward i \<Rightarrow> eff_return (Some (sat_i64 (position - i)))
     | EdBackwardAll \<Rightarrow> eff_bind (set_position 0) (\<lambda>_. eff_return None))"

definition cursor_seek ::
  "'o row_codec \<Rightarrow> resource_limits \<Rightarrow> evaluated_cursor_direction \<Rightarrow> ('o cursor_state \<times> io list, pl_error, 'o runtime_query_row option) effect" where
  "cursor_seek codec limits direction =
     eff_bind (cursor_target codec limits direction) (\<lambda>target.
     let set_position = (\<lambda>i. eff_put (\<lambda>(cu, os). (cu\<lparr>cu_position := i\<rparr>, os))) in
     case target of
       None \<Rightarrow> eff_return None
     | Some target \<Rightarrow>
         if target \<le> 0 then eff_bind (set_position 0) (\<lambda>_. eff_return None)
         else
           eff_bind (cursor_load_through codec limits (nat target)) (\<lambda>found.
           if found
           then
             eff_bind (set_position target) (\<lambda>_.
             eff_bind (eff_on (\<lambda>(cu, os). (cu_store cu, os)) (\<lambda>(st, os') (cu, os). (cu\<lparr>cu_store := st\<rparr>, os'))
               (store_get codec limits (nat target - 1))) (\<lambda>row.
             eff_bind (eff_get (\<lambda>(cu, os). case cu_fields cu of Some names \<Rightarrow> names | None \<Rightarrow> [])) (\<lambda>names.
               eff_return (map_option (\<lambda>row. \<lparr>rq_fields = names, rq_row = row\<rparr>) row))))
           else
             eff_bind cached_len_i64 (\<lambda>n. eff_bind (set_position (sat_i64 (n + 1))) (\<lambda>_. eff_return None))))"

end
