(* ===== verification/PlVm.thy ===== *)
theory PlVm
  imports PlCursor
begin

text \<open>
  The virtual machine of PL/pgSQL (crates/ordadb-plpgsql/src/language: vm\_dispatch.rs, runtime.rs,
  statements.rs). A run is a function on the state of the machine and the world, with the error
  of a \<open>DbError\<close> or a panic; what a failing instruction has changed stays changed. The active
  exception regions have the innermost one first.
\<close>

section \<open>State\<close>

record 'o query_loop_state =
  ql_slot :: nat
  ql_end :: nat
  ql_events :: "'o query_stream"
  ql_current_rows :: "'o pl_row list"
  ql_fields :: "string list option"
  ql_rows_seen :: nat

record integer_loop_state =
  il_slot :: nat
  il_current :: int
  il_bound :: int
  il_step :: int
  il_reverse :: bool
  il_end :: nat

record 'o foreach_loop_state =
  fl_slot :: nat
  fl_values :: "'o pl_value list"
  fl_end :: nat

datatype pending_sql =
    PsExecute "nat option"
  | PsDynamic "nat option" bool
  | PsOpenCursor nat
  | PsQueryForStart nat nat nat

record 'o vm_state =
  vs_program :: program
  vs_limits :: resource_limits
  vs_locals :: "'o pl_value list"
  vs_records :: "'o record_map"
  vs_ip :: nat
  vs_steps :: nat
  vs_returned_rows :: "'o pl_value list"
  vs_query_loops :: "(nat, 'o query_loop_state) btree_map"
  vs_integer_loops :: "(nat, integer_loop_state) btree_map"
  vs_foreach_loops :: "(nat, 'o foreach_loop_state) btree_map"
  vs_cursors :: "(nat, 'o cursor_state) btree_map"
  vs_active_exception :: "pl_error option"
  vs_regions :: "(nat \<times> nat) list"
  vs_active_regions :: "(nat \<times> nat) list"
  vs_reservation :: memory_reservation

record 'o vm_output =
  vo_return_value :: "'o pl_value option"
  vo_returned_rows :: "'o pl_value list"
  vo_return_parameter :: "nat option"
  vo_final_locals :: "'o pl_value list"
  vo_output_parameters :: "'o pl_value list"
  vo_retained_memory :: "memory_reservation option"

datatype 'o vm_run_state = RsSql "'o vm_sql_request" | RsComplete "'o vm_output"

record 'o vm_machine =
  vm_running :: "'o vm_state option"
  vm_pending :: "pending_sql option"

text \<open>The host, the encoding of rows in spill files and the estimates of bytes.\<close>

record ('w, 'o) pl_env =
  en_host :: "('w, 'o) pl_host"
  en_codec :: "'o row_codec"
  en_record_bytes :: "'o runtime_record \<Rightarrow> nat"
  en_runtime_bytes :: "'o vm_state \<Rightarrow> 'o vm_sql_request option \<Rightarrow> nat"
  en_output_bytes :: "'o vm_output \<Rightarrow> nat"

type_synonym ('w, 'o, 'a) vm = "('o vm_state \<times> 'w pl_world, vm_fail, 'a) effect"

definition vm_get :: "('o vm_state \<Rightarrow> 'a) \<Rightarrow> ('w, 'o, 'a) vm" where
  "vm_get f = eff_get (\<lambda>(vs, w). f vs)"

definition vm_put :: "('o vm_state \<Rightarrow> 'o vm_state) \<Rightarrow> ('w, 'o, unit) vm" where
  "vm_put f = eff_put (\<lambda>(vs, w). (f vs, w))"

definition vm_throw :: "pl_error \<Rightarrow> ('w, 'o, 'a) vm" where
  "vm_throw e = eff_fail (VmErr e)"

definition vm_res :: "'a pl_res \<Rightarrow> ('w, 'o, 'a) vm" where
  "vm_res r = eff_res (vm_lift r)"

definition vm_guard :: "bool \<Rightarrow> pl_error \<Rightarrow> ('w, 'o, 'a) vm \<Rightarrow> ('w, 'o, 'a) vm" where
  "vm_guard bad e k = eff_guard bad (VmErr e) k"

text \<open>A call of the host.\<close>

definition vm_host :: "('w pl_world, pl_error, 'a) effect \<Rightarrow> ('w, 'o, 'a) vm" where
  "vm_host f = (\<lambda>(vs, w). case f w of (r, w) \<Rightarrow> (vm_lift r, (vs, w)))"

definition vm_eval :: "('w, 'o) pl_env \<Rightarrow> string \<Rightarrow> ('w, 'o, 'o pl_value) vm" where
  "vm_eval env expression =
     eff_bind (vm_get (\<lambda>vs. (vs_locals vs, vs_records vs))) (\<lambda>(locals, records).
       vm_host (evaluate_runtime_expression (en_host env) expression locals records))"

primrec vm_eval_all :: "('w, 'o) pl_env \<Rightarrow> string list \<Rightarrow> ('w, 'o, 'o pl_value list) vm" where
  "vm_eval_all env [] = eff_return []"
| "vm_eval_all env (e # es) = eff_bind (vm_eval env e) (\<lambda>v. eff_bind (vm_eval_all env es) (\<lambda>vs. eff_return (v # vs)))"

definition vm_expand :: "string \<Rightarrow> ('w, 'o, string \<times> 'o pl_value list) vm" where
  "vm_expand sql =
     eff_bind (vm_get (\<lambda>vs. expand_runtime_record_fields sql (vs_locals vs) (vs_records vs))) vm_res"

definition vm_next :: "('w, 'o, unit) vm" where
  "vm_next = vm_put (\<lambda>vs. vs\<lparr>vs_ip := vs_ip vs + 1\<rparr>)"

definition checked_target :: "nat \<Rightarrow> nat \<Rightarrow> nat pl_res" where
  "checked_target target n =
     guard_res (n < target) (internal_err ''PL/pgSQL bytecode jump target is outside the program'') (Inr target)"

definition vm_target :: "nat \<Rightarrow> ('w, 'o, nat) vm" where
  "vm_target target = eff_bind (vm_get (\<lambda>vs. checked_target target (length (pg_instructions (vs_program vs))))) vm_res"

definition vm_goto :: "nat \<Rightarrow> ('w, 'o, unit) vm" where
  "vm_goto target = eff_bind (vm_target target) (\<lambda>t. vm_put (\<lambda>vs. vs\<lparr>vs_ip := t\<rparr>))"

text \<open>\<open>locals[slot] = v\<close>, which panics when there is no such local.\<close>

definition vm_set_local :: "nat \<Rightarrow> 'o pl_value \<Rightarrow> ('w, 'o, unit) vm" where
  "vm_set_local slot v =
     eff_bind (vm_get (\<lambda>vs. length (vs_locals vs))) (\<lambda>n.
     eff_guard (n \<le> slot) VmPanic (vm_put (\<lambda>vs. vs\<lparr>vs_locals := (vs_locals vs)[slot := v]\<rparr>)))"

definition vm_assign_row :: "('w, 'o) pl_env \<Rightarrow> nat \<Rightarrow> 'o runtime_query_row option \<Rightarrow> ('w, 'o, unit) vm" where
  "vm_assign_row env slot row =
     eff_bind (vm_get (\<lambda>vs. assign_runtime_row (en_record_bytes env) slot row (max_cursor_bytes (vs_limits vs)) (vs_locals vs, vs_records vs))) (\<lambda>r.
     eff_bind (eff_res r) (\<lambda>(locals, records). vm_put (\<lambda>vs. vs\<lparr>vs_locals := locals, vs_records := records\<rparr>)))"

definition vm_put_record :: "('w, 'o) pl_env \<Rightarrow> nat \<Rightarrow> 'o runtime_record \<Rightarrow> ('w, 'o, unit) vm" where
  "vm_put_record env slot candidate =
     eff_bind (vm_get (\<lambda>vs. ensure_runtime_record_limit (en_record_bytes env) (vs_records vs) (Some (slot, candidate)) (max_cursor_bytes (vs_limits vs)))) (\<lambda>r.
     eff_bind (vm_res r) (\<lambda>_. vm_put (\<lambda>vs. vs\<lparr>vs_records := bm_insert slot candidate (vs_records vs)\<rparr>)))"

section \<open>Memory\<close>

definition vm_resize :: "nat \<Rightarrow> ('w, 'o, unit) vm" where
  "vm_resize bytes = (\<lambda>(vs, w).
     case reservation_resize bytes (pw_grant w, vs_reservation vs) of
       (r, (g, mr)) \<Rightarrow> (vm_lift r, (vs\<lparr>vs_reservation := mr\<rparr>, w\<lparr>pw_grant := g\<rparr>)))"

definition estimated_vm_runtime_bytes :: "('w, 'o) pl_env \<Rightarrow> 'o vm_state \<Rightarrow> 'o vm_sql_request option \<Rightarrow> nat pl_res" where
  "estimated_vm_runtime_bytes env vs request =
     guard_res (usize_max \<le> en_runtime_bytes env vs request)
       (pl_err ''53200'' ''PL/pgSQL retained-memory accounting overflowed'') (Inr (en_runtime_bytes env vs request))"

definition estimated_vm_output_bytes :: "('w, 'o) pl_env \<Rightarrow> 'o vm_output \<Rightarrow> nat pl_res" where
  "estimated_vm_output_bytes env out =
     guard_res (usize_max \<le> en_output_bytes env out)
       (pl_err ''53200'' ''PL/pgSQL output memory accounting overflowed'') (Inr (en_output_bytes env out))"

definition refresh_memory :: "('w, 'o) pl_env \<Rightarrow> 'o vm_sql_request option \<Rightarrow> ('w, 'o, unit) vm" where
  "refresh_memory env request =
     eff_bind (vm_get (\<lambda>vs. estimated_vm_runtime_bytes env vs request)) (\<lambda>r. eff_bind (vm_res r) vm_resize)"

section \<open>Loops and directions\<close>

definition query_loop_next_row :: "nat \<Rightarrow> 'o query_loop_state \<Rightarrow> 'o runtime_query_row option pl_res \<times> 'o query_loop_state" where
  "query_loop_next_row max_rows q =
     (case next_row_event (ql_events q) (ql_fields q) (ql_current_rows q) of
        (r, events, names, rows) \<Rightarrow>
          let q = q\<lparr>ql_events := events, ql_fields := names, ql_current_rows := rows\<rparr> in
          case r of
            Inl e \<Rightarrow> (Inl e, q)
          | Inr None \<Rightarrow> (Inr None, q)
          | Inr (Some row) \<Rightarrow>
              if ql_rows_seen q = usize_max then (Inl (limit_err ''PL/pgSQL query FOR row count overflowed''), q)
              else
                let q = q\<lparr>ql_rows_seen := ql_rows_seen q + 1\<rparr> in
                if max_rows < ql_rows_seen q then (Inl (limit_err ''PL/pgSQL query FOR row limit exceeded''), q)
                else (Inr (Some \<lparr>rq_fields = (case names of Some f \<Rightarrow> f | None \<Rightarrow> []), rq_row = row\<rparr>), q))"

definition integer_loop_advance :: "integer_loop_state \<Rightarrow> ('o pl_value option \<times> integer_loop_state) pl_res" where
  "integer_loop_advance l =
     try_bind (ok_or (pl_err ''22003'' ''PL/pgSQL integer FOR value is out of range'')
         (checked_i64 (if il_reverse l then il_current l - il_step l else il_current l + il_step l))) (\<lambda>next_value.
       if (if il_reverse l then il_bound l \<le> next_value else next_value \<le> il_bound l)
       then Inr (Some (PvInt64 (word_of_int next_value)), l\<lparr>il_current := next_value\<rparr>)
       else Inr (None, l))"

definition vm_eval_integer :: "('w, 'o) pl_env \<Rightarrow> string \<Rightarrow> pl_error \<Rightarrow> ('w, 'o, int) vm" where
  "vm_eval_integer env expression e =
     eff_bind (vm_eval env expression) (\<lambda>v. vm_res (ok_or e (int_of_value v)))"

definition evaluate_integer_expression :: "('w, 'o) pl_env \<Rightarrow> string \<Rightarrow> string \<Rightarrow> ('w, 'o, int) vm" where
  "evaluate_integer_expression env expression context =
     vm_eval_integer env expression (pl_err ''42804'' (''PL/pgSQL integer FOR '' @ context @ '' must evaluate to an integer''))"

definition evaluate_cursor_integer_expression :: "('w, 'o) pl_env \<Rightarrow> string \<Rightarrow> ('w, 'o, int) vm" where
  "evaluate_cursor_integer_expression env expression =
     vm_eval_integer env expression (pl_err ''42804'' ''cursor direction value must evaluate to an integer'')"

definition evaluate_cursor_count :: "('w, 'o) pl_env \<Rightarrow> string option \<Rightarrow> string \<Rightarrow> ('w, 'o, int) vm" where
  "evaluate_cursor_count env expression direction =
     eff_bind (case expression of None \<Rightarrow> eff_return 1 | Some e \<Rightarrow> evaluate_cursor_integer_expression env e) (\<lambda>count.
     vm_guard (count < 0) (pl_err ''22023'' (''cursor '' @ direction @ '' count must not be negative'')) (eff_return count))"

definition evaluate_cursor_direction :: "('w, 'o) pl_env \<Rightarrow> cursor_direction \<Rightarrow> ('w, 'o, evaluated_cursor_direction) vm" where
  "evaluate_cursor_direction env direction =
     (case direction of
        CdNext \<Rightarrow> eff_return EdNext
      | CdPrior \<Rightarrow> eff_return EdPrior
      | CdFirst \<Rightarrow> eff_return EdFirst
      | CdLast \<Rightarrow> eff_return EdLast
      | CdAbsolute e \<Rightarrow> eff_bind (evaluate_cursor_integer_expression env e) (\<lambda>i. eff_return (EdAbsolute i))
      | CdRelative e \<Rightarrow> eff_bind (evaluate_cursor_integer_expression env e) (\<lambda>i. eff_return (EdRelative i))
      | CdForward e \<Rightarrow> eff_bind (evaluate_cursor_count env e ''FORWARD'') (\<lambda>i. eff_return (EdForward i))
      | CdForwardAll \<Rightarrow> eff_return EdForwardAll
      | CdBackward e \<Rightarrow> eff_bind (evaluate_cursor_count env e ''BACKWARD'') (\<lambda>i. eff_return (EdBackward i))
      | CdBackwardAll \<Rightarrow> eff_return EdBackwardAll)"

definition evaluate_message :: "('w, 'o) pl_env \<Rightarrow> string \<Rightarrow> string \<Rightarrow> ('w, 'o, string) vm" where
  "evaluate_message env expression statement =
     eff_bind (vm_eval env expression) (\<lambda>v.
     case v of
       PvText message \<Rightarrow> eff_return message
     | PvNull \<Rightarrow> eff_return []
     | _ \<Rightarrow> vm_throw (pl_err ''42804'' (statement @ '' message must evaluate to text'')))"

definition collect_step :: "bool \<Rightarrow> 'o query_event pl_res \<Rightarrow> string list option \<times> 'o runtime_query_row option \<times> nat \<Rightarrow>
    (string list option \<times> 'o runtime_query_row option \<times> nat) pl_res" where
  "collect_step strict event = (\<lambda>(names, first, row_count).
     try_bind event (\<lambda>event.
     case event of
       QeSchema schema \<Rightarrow> Inr (Some schema, first, row_count)
     | QeBatch schema rows \<Rightarrow>
         let row_names = (case names of Some f \<Rightarrow> f | None \<Rightarrow> schema) in
         try_bind (fold_res (\<lambda>row (first, row_count).
             let row_count = count_up row_count in
             guard_res (strict \<and> 1 < row_count) (pl_err ''P0003'' ''dynamic EXECUTE INTO STRICT returned more than one row'') (
               Inr (if first = None then Some \<lparr>rq_fields = row_names, rq_row = row\<rparr> else first, row_count)))
           rows (first, row_count)) (\<lambda>(first, row_count). Inr (Some row_names, first, row_count))
     | _ \<Rightarrow> Inr (names, first, row_count)))"

definition collect_sql_result :: "'o query_stream \<Rightarrow> bool \<Rightarrow> ('o runtime_query_row option \<times> nat) pl_res" where
  "collect_sql_result events strict = try_bind (fold_res (collect_step strict) events (None, None, 0)) (\<lambda>(_, r). Inr r)"

end
