(* ===== verification/PlDispatch.thy ===== *)
theory PlDispatch
  imports PlVm
begin

text \<open>
  The dispatch loop of the virtual machine: one definition for each instruction, the handling of
  errors by exception blocks, \<open>resume\<close> and \<open>execute\<close>. The loops are partial functions, so that a
  run that does not end is \<open>None\<close>.
\<close>

section \<open>Instructions\<close>

datatype 'o step_outcome = SoContinue | SoYield pending_sql "'o vm_sql_request" | SoOutput "'o vm_output"

definition vm_continue :: "('w, 'o, 'o step_outcome) vm" where
  "vm_continue = eff_bind vm_next (\<lambda>_. eff_return SoContinue)"

definition vm_yield :: "pending_sql \<Rightarrow> string \<Rightarrow> 'o pl_value list \<Rightarrow> ('w, 'o, 'o step_outcome) vm" where
  "vm_yield pending sql parameters = eff_return (SoYield pending \<lparr>rq_sql = sql, rq_parameters = parameters\<rparr>)"

definition step_assign :: "('w, 'o) pl_env \<Rightarrow> nat \<Rightarrow> string \<Rightarrow> ('w, 'o, 'o step_outcome) vm" where
  "step_assign env slot expression =
     eff_bind (vm_get vs_locals) (\<lambda>locals.
     eff_bind (vm_get vs_records) (\<lambda>records.
     eff_bind (vm_get vs_program) (\<lambda>program.
     eff_guard (bm_get records slot = None \<and> length locals \<le> slot) VmPanic (
     let already_assigned = (case bm_get records slot of Some r \<Rightarrow> record_is_assigned r | None \<Rightarrow> \<not> is_null (locals ! slot)) in
     vm_guard (slot < length (pg_locals program) \<and> ls_constant (pg_locals program ! slot) \<and> already_assigned)
       (pl_err ''22005'' (''constant '' @ ls_name (pg_locals program ! slot) @ '' cannot be reassigned'')) (
     if bm_contains records slot
     then
       eff_bind (vm_res (ok_or (pl_err ''42804'' ''a record variable can only be assigned another record row'')
           (Option.bind (positional_parameter_index expression) (bm_get records)))) (\<lambda>source.
       eff_bind (vm_put_record env slot source) (\<lambda>_. vm_continue))
     else
       eff_bind (vm_eval env expression) (\<lambda>v. eff_bind (vm_set_local slot v) (\<lambda>_. vm_continue)))))))"

definition step_assign_field :: "('w, 'o) pl_env \<Rightarrow> nat \<Rightarrow> string \<Rightarrow> string \<Rightarrow> ('w, 'o, 'o step_outcome) vm" where
  "step_assign_field env slot field expression =
     eff_bind (vm_eval env expression) (\<lambda>v.
     eff_bind (vm_get vs_records) (\<lambda>records.
     eff_bind (case bm_get records slot of
         Some r \<Rightarrow> eff_bind (vm_res (record_assign_field field v r)) (vm_put_record env slot)
       | None \<Rightarrow> vm_host (ho_assign_composite_field (en_host env) slot field v)) (\<lambda>_. vm_continue)))"

definition step_jump_if_false :: "('w, 'o) pl_env \<Rightarrow> string \<Rightarrow> nat \<Rightarrow> ('w, 'o, 'o step_outcome) vm" where
  "step_jump_if_false env expression target =
     eff_bind (vm_eval env expression) (\<lambda>v.
     if v = PvBoolean True then vm_continue else eff_bind (vm_goto target) (\<lambda>_. eff_return SoContinue))"

definition step_execute_sql :: "string \<Rightarrow> nat option \<Rightarrow> ('w, 'o, 'o step_outcome) vm" where
  "step_execute_sql sql into = eff_bind (vm_expand sql) (\<lambda>(sql, parameters). vm_yield (PsExecute into) sql parameters)"

text \<open>The text of a dynamic query, and its parameters.\<close>

definition dynamic_query :: "('w, 'o) pl_env \<Rightarrow> string \<Rightarrow> string list \<Rightarrow> pl_error \<Rightarrow> pl_error \<Rightarrow> ('w, 'o, string \<times> 'o pl_value list) vm" where
  "dynamic_query env query arguments no_text too_long =
     eff_bind (vm_eval env query) (\<lambda>v.
     case v of
       PvText query \<Rightarrow>
         eff_bind (vm_get (\<lambda>vs. max_dynamic_sql_bytes (vs_limits vs))) (\<lambda>limit.
         vm_guard (limit < byte_len query) too_long (
         eff_bind (vm_eval_all env arguments) (\<lambda>parameters. eff_return (query, parameters))))
     | _ \<Rightarrow> vm_throw no_text)"

definition step_dynamic_execute :: "('w, 'o) pl_env \<Rightarrow> string \<Rightarrow> string list \<Rightarrow> nat option \<Rightarrow> bool \<Rightarrow> ('w, 'o, 'o step_outcome) vm" where
  "step_dynamic_execute env query arguments into strict =
     eff_bind (dynamic_query env query arguments (pl_err ''42804'' ''dynamic EXECUTE query must evaluate to text'')
         (limit_err ''dynamic SQL exceeds the configured byte limit'')) (\<lambda>(query, parameters).
       vm_yield (PsDynamic into strict) query parameters)"

definition cursor_name :: "program \<Rightarrow> nat \<Rightarrow> string" where
  "cursor_name program cursor =
     (if cursor < length (pg_cursors program) then cd_name (pg_cursors program ! cursor) else ''<unknown>'')"

definition cursor_not_open :: "program \<Rightarrow> nat \<Rightarrow> pl_error" where
  "cursor_not_open program cursor = pl_err ''34000'' (''cursor '' @ cursor_name program cursor @ '' is not open'')"

definition step_open_cursor :: "('w, 'o) pl_env \<Rightarrow> nat \<Rightarrow> cursor_query \<Rightarrow> ('w, 'o, 'o step_outcome) vm" where
  "step_open_cursor env cursor query =
     eff_bind (vm_get vs_program) (\<lambda>program.
     eff_bind (vm_get vs_cursors) (\<lambda>cursors.
     vm_guard (bm_contains cursors cursor) (pl_err ''42P03'' (''cursor '' @ cursor_name program cursor @ '' is already open'')) (
     eff_bind (vm_get (\<lambda>vs. max_open_cursors (vs_limits vs))) (\<lambda>limit.
     vm_guard (limit \<le> bm_len cursors) (pl_err ''54000'' ''PL/pgSQL open-cursor limit exceeded'') (
     eff_bind (case query of
         CqBound \<Rightarrow>
           eff_bind (vm_res (ok_or (internal_err ''bound cursor query is missing from bytecode'')
               (if cursor < length (pg_cursors program) then cd_bound_query (pg_cursors program ! cursor) else None))) vm_expand
       | CqStatic query \<Rightarrow> vm_expand query
       | CqDynamic query arguments \<Rightarrow>
           dynamic_query env query arguments (pl_err ''42804'' ''OPEN FOR EXECUTE query must evaluate to text'')
             (limit_err ''OPEN FOR EXECUTE query exceeds the configured byte limit'')) (\<lambda>(sql, parameters).
       vm_yield (PsOpenCursor cursor) sql parameters))))))"

text \<open>\<open>cursors.get_mut(cursor)\<close> and \<open>seek\<close>, whose changes stay when it fails.\<close>

definition vm_seek :: "('w, 'o) pl_env \<Rightarrow> nat \<Rightarrow> evaluated_cursor_direction \<Rightarrow> ('w, 'o, 'o runtime_query_row option) vm" where
  "vm_seek env cursor direction = (\<lambda>(vs, w).
     case bm_get (vs_cursors vs) cursor of
       None \<Rightarrow> (Inl (VmErr (cursor_not_open (vs_program vs) cursor)), (vs, w))
     | Some cu \<Rightarrow>
         (case cursor_seek (en_codec env) (vs_limits vs) direction (cu, pw_io w) of
            (r, (cu, os)) \<Rightarrow> (vm_lift r, (vs\<lparr>vs_cursors := bm_insert cursor cu (vs_cursors vs)\<rparr>, w\<lparr>pw_io := os\<rparr>))))"

definition step_fetch_cursor :: "('w, 'o) pl_env \<Rightarrow> nat \<Rightarrow> cursor_direction \<Rightarrow> nat \<Rightarrow> ('w, 'o, 'o step_outcome) vm" where
  "step_fetch_cursor env cursor direction into =
     eff_bind (evaluate_cursor_direction env direction) (\<lambda>d.
     eff_bind (vm_seek env cursor d) (\<lambda>row.
     eff_bind (vm_assign_row env into row) (\<lambda>_. vm_continue)))"

definition step_move_cursor :: "('w, 'o) pl_env \<Rightarrow> nat \<Rightarrow> cursor_direction \<Rightarrow> ('w, 'o, 'o step_outcome) vm" where
  "step_move_cursor env cursor direction =
     eff_bind (evaluate_cursor_direction env direction) (\<lambda>d.
     eff_bind (vm_seek env cursor d) (\<lambda>_. vm_continue))"

definition step_close_cursor :: "nat \<Rightarrow> ('w, 'o, 'o step_outcome) vm" where
  "step_close_cursor cursor =
     eff_bind (vm_get vs_program) (\<lambda>program.
     eff_bind (vm_get vs_cursors) (\<lambda>cursors.
     vm_guard (\<not> bm_contains cursors cursor) (cursor_not_open program cursor) (
     eff_bind (vm_put (\<lambda>vs. vs\<lparr>vs_cursors := bm_remove cursor (vs_cursors vs)\<rparr>)) (\<lambda>_. vm_continue))))"

definition step_raise :: "('w, 'o) pl_env \<Rightarrow> raise_level \<Rightarrow> string option \<Rightarrow> string option \<Rightarrow> ('w, 'o, 'o step_outcome) vm" where
  "step_raise env level message sql_state =
     (case message of
        None \<Rightarrow>
          eff_bind (vm_get vs_active_exception) (\<lambda>active.
          vm_throw (case active of
              Some e \<Rightarrow> e
            | None \<Rightarrow> pl_err ''0Z002'' ''RAISE without parameters is outside an exception handler''))
      | Some message \<Rightarrow>
          eff_bind (evaluate_message env message ''RAISE'') (\<lambda>message.
          let state = (case sql_state of
                Some s \<Rightarrow> s
              | None \<Rightarrow> (case level of RlInfo \<Rightarrow> ''00000'' | RlNotice \<Rightarrow> ''00000'' | RlWarning \<Rightarrow> ''01000'' | RlException \<Rightarrow> ''P0001'')) in
          case (case level of RlInfo \<Rightarrow> Some NsInfo | RlNotice \<Rightarrow> Some NsNotice | RlWarning \<Rightarrow> Some NsWarning | RlException \<Rightarrow> None) of
            None \<Rightarrow> vm_throw (pl_err state message)
          | Some severity \<Rightarrow>
              eff_bind (vm_host (ho_emit_notice (en_host env) \<lparr>pn_severity = severity, pn_sql_state = state, pn_message = message\<rparr>)) (\<lambda>_.
                vm_continue)))"

definition step_assert :: "('w, 'o) pl_env \<Rightarrow> string \<Rightarrow> string option \<Rightarrow> ('w, 'o, 'o step_outcome) vm" where
  "step_assert env condition message =
     eff_bind (vm_eval env condition) (\<lambda>v.
     if v = PvBoolean True then vm_continue
     else if v = PvBoolean False \<or> is_null v
     then eff_bind (case message of Some m \<Rightarrow> evaluate_message env m ''ASSERT'' | None \<Rightarrow> eff_return ''assertion failed'') (\<lambda>message.
       vm_throw (pl_err ''P0004'' message))
     else vm_throw (pl_err ''42804'' ''ASSERT condition must evaluate to boolean''))"

definition step_query_for_start :: "nat \<Rightarrow> string \<Rightarrow> nat \<Rightarrow> ('w, 'o, 'o step_outcome) vm" where
  "step_query_for_start slot sql exit =
     eff_bind (vm_expand sql) (\<lambda>(sql, parameters).
     eff_bind (vm_get vs_ip) (\<lambda>ip.
     eff_bind (vm_target exit) (\<lambda>exit. vm_yield (PsQueryForStart ip slot exit) sql parameters)))"

definition step_query_for_next :: "('w, 'o) pl_env \<Rightarrow> nat \<Rightarrow> nat \<Rightarrow> ('w, 'o, 'o step_outcome) vm" where
  "step_query_for_next env start body =
     eff_bind (vm_get (\<lambda>vs. bm_get (vs_query_loops vs) start)) (\<lambda>l.
     case l of
       None \<Rightarrow> vm_throw (internal_err ''PL/pgSQL query FOR iterator state is missing'')
     | Some q \<Rightarrow>
         eff_bind (vm_get (\<lambda>vs. query_loop_next_row (max_returned_rows (vs_limits vs)) q)) (\<lambda>(r, q).
         eff_bind (vm_put (\<lambda>vs. vs\<lparr>vs_query_loops := bm_insert start q (vs_query_loops vs)\<rparr>)) (\<lambda>_.
         eff_bind (vm_res r) (\<lambda>row.
         case row of
           Some row \<Rightarrow> eff_bind (vm_assign_row env (ql_slot q) (Some row)) (\<lambda>_. eff_bind (vm_goto body) (\<lambda>_. eff_return SoContinue))
         | None \<Rightarrow> eff_bind (vm_put (\<lambda>vs. vs\<lparr>vs_query_loops := bm_remove start (vs_query_loops vs)\<rparr>)) (\<lambda>_. vm_continue)))))"

definition step_integer_for_start ::
  "('w, 'o) pl_env \<Rightarrow> nat \<Rightarrow> string \<Rightarrow> string \<Rightarrow> string \<Rightarrow> bool \<Rightarrow> nat \<Rightarrow> ('w, 'o, 'o step_outcome) vm" where
  "step_integer_for_start env slot lower upper step reverse exit =
     eff_bind (evaluate_integer_expression env lower ''lower bound'') (\<lambda>lower.
     eff_bind (evaluate_integer_expression env upper ''upper bound'') (\<lambda>upper.
     eff_bind (evaluate_integer_expression env step ''BY value'') (\<lambda>step.
     vm_guard (step \<le> 0) (pl_err ''22023'' ''BY value of PL/pgSQL integer FOR loop must be greater than zero'') (
     if (if reverse then upper \<le> lower else lower \<le> upper)
     then
       eff_bind (vm_set_local slot (PvInt64 (word_of_int lower))) (\<lambda>_.
       eff_bind (vm_target exit) (\<lambda>exit.
       eff_bind (vm_put (\<lambda>vs. vs\<lparr>vs_integer_loops := bm_insert (vs_ip vs)
           \<lparr>il_slot = slot, il_current = lower, il_bound = upper, il_step = step, il_reverse = reverse, il_end = exit\<rparr>
           (vs_integer_loops vs)\<rparr>)) (\<lambda>_. vm_continue)))
     else eff_bind (vm_goto exit) (\<lambda>_. eff_return SoContinue)))))"

definition step_integer_for_next :: "nat \<Rightarrow> nat \<Rightarrow> ('w, 'o, 'o step_outcome) vm" where
  "step_integer_for_next start body =
     eff_bind (vm_get (\<lambda>vs. bm_get (vs_integer_loops vs) start)) (\<lambda>l.
     case l of
       None \<Rightarrow> vm_throw (internal_err ''PL/pgSQL integer FOR iterator state is missing'')
     | Some l \<Rightarrow>
         eff_bind (vm_res (integer_loop_advance l)) (\<lambda>(v, l).
         eff_bind (vm_put (\<lambda>vs. vs\<lparr>vs_integer_loops := bm_insert start l (vs_integer_loops vs)\<rparr>)) (\<lambda>_.
         case v of
           Some v \<Rightarrow> eff_bind (vm_set_local (il_slot l) v) (\<lambda>_. eff_bind (vm_goto body) (\<lambda>_. eff_return SoContinue))
         | None \<Rightarrow> eff_bind (vm_put (\<lambda>vs. vs\<lparr>vs_integer_loops := bm_remove start (vs_integer_loops vs)\<rparr>)) (\<lambda>_. vm_continue))))"

definition step_foreach_start :: "('w, 'o) pl_env \<Rightarrow> nat \<Rightarrow> string \<Rightarrow> nat \<Rightarrow> ('w, 'o, 'o step_outcome) vm" where
  "step_foreach_start env slot array exit =
     eff_bind (vm_eval env array) (\<lambda>v.
     case v of
       PvArray values \<Rightarrow>
         (case values of
            [] \<Rightarrow> eff_bind (vm_goto exit) (\<lambda>_. eff_return SoContinue)
          | x # values \<Rightarrow>
              eff_bind (vm_set_local slot x) (\<lambda>_.
              eff_bind (vm_target exit) (\<lambda>exit.
              eff_bind (vm_put (\<lambda>vs. vs\<lparr>vs_foreach_loops := bm_insert (vs_ip vs)
                  \<lparr>fl_slot = slot, fl_values = values, fl_end = exit\<rparr> (vs_foreach_loops vs)\<rparr>)) (\<lambda>_. vm_continue))))
     | PvNull \<Rightarrow> vm_throw (pl_err ''22004'' ''FOREACH expression must not be NULL'')
     | _ \<Rightarrow> vm_throw (pl_err ''42804'' ''FOREACH expression must evaluate to an array''))"

definition step_foreach_next :: "nat \<Rightarrow> nat \<Rightarrow> ('w, 'o, 'o step_outcome) vm" where
  "step_foreach_next start body =
     eff_bind (vm_get (\<lambda>vs. bm_get (vs_foreach_loops vs) start)) (\<lambda>l.
     case l of
       None \<Rightarrow> vm_throw (internal_err ''PL/pgSQL FOREACH iterator state is missing'')
     | Some l \<Rightarrow>
         (case fl_values l of
            x # values \<Rightarrow>
              eff_bind (vm_put (\<lambda>vs. vs\<lparr>vs_foreach_loops := bm_insert start (l\<lparr>fl_values := values\<rparr>) (vs_foreach_loops vs)\<rparr>)) (\<lambda>_.
              eff_bind (vm_set_local (fl_slot l) x) (\<lambda>_. eff_bind (vm_goto body) (\<lambda>_. eff_return SoContinue)))
          | [] \<Rightarrow> eff_bind (vm_put (\<lambda>vs. vs\<lparr>vs_foreach_loops := bm_remove start (vs_foreach_loops vs)\<rparr>)) (\<lambda>_. vm_continue)))"

definition step_return :: "('w, 'o) pl_env \<Rightarrow> string option \<Rightarrow> bool \<Rightarrow> ('w, 'o, 'o step_outcome) vm" where
  "step_return env expression is_next =
     eff_bind (case expression of Some e \<Rightarrow> vm_eval env e | None \<Rightarrow> eff_return PvNull) (\<lambda>v.
     if is_next
     then
       eff_bind (vm_put (\<lambda>vs. vs\<lparr>vs_returned_rows := vs_returned_rows vs @ [v]\<rparr>)) (\<lambda>_.
       eff_bind (vm_get (\<lambda>vs. max_returned_rows (vs_limits vs) < length (vs_returned_rows vs))) (\<lambda>bad.
       vm_guard bad (limit_err ''PL/pgSQL returned-row limit exceeded'') vm_continue))
     else
       eff_bind (vm_get (\<lambda>vs. \<lparr>vo_return_value = Some v, vo_returned_rows = vs_returned_rows vs,
           vo_return_parameter = Option.bind expression positional_parameter_index, vo_final_locals = vs_locals vs,
           vo_output_parameters = [], vo_retained_memory = None\<rparr>)) (\<lambda>out.
       eff_bind (vm_put (\<lambda>vs. vs\<lparr>vs_returned_rows := []\<rparr>)) (\<lambda>_. eff_return (SoOutput out))))"

definition exec_instruction :: "('w, 'o) pl_env \<Rightarrow> instruction \<Rightarrow> ('w, 'o, 'o step_outcome) vm" where
  "exec_instruction env i =
     (case i of
        InAssign slot e \<Rightarrow> step_assign env slot e
      | InAssignField slot field e \<Rightarrow> step_assign_field env slot field e
      | InJumpIfFalse e target \<Rightarrow> step_jump_if_false env e target
      | InJump target \<Rightarrow> eff_bind (vm_goto target) (\<lambda>_. eff_return SoContinue)
      | InExecuteSql sql into \<Rightarrow> step_execute_sql sql into
      | InDynamicExecute query arguments into strict \<Rightarrow> step_dynamic_execute env query arguments into strict
      | InOpenCursor cursor query \<Rightarrow> step_open_cursor env cursor query
      | InFetchCursor cursor direction into \<Rightarrow> step_fetch_cursor env cursor direction into
      | InMoveCursor cursor direction \<Rightarrow> step_move_cursor env cursor direction
      | InCloseCursor cursor \<Rightarrow> step_close_cursor cursor
      | InRaise level message state \<Rightarrow> step_raise env level message state
      | InAssert condition message \<Rightarrow> step_assert env condition message
      | InQueryForStart slot sql exit \<Rightarrow> step_query_for_start slot sql exit
      | InQueryForNext start body \<Rightarrow> step_query_for_next env start body
      | InIntegerForStart slot lower upper step reverse exit \<Rightarrow> step_integer_for_start env slot lower upper step reverse exit
      | InIntegerForNext start body \<Rightarrow> step_integer_for_next start body
      | InForeachStart slot array exit \<Rightarrow> step_foreach_start env slot array exit
      | InForeachNext start body \<Rightarrow> step_foreach_next start body
      | InReturn e is_next \<Rightarrow> step_return env e is_next
      | InCheckpoint \<Rightarrow> vm_continue)"

section \<open>Errors and exception blocks\<close>

definition handler_matches :: "nat \<Rightarrow> pl_error \<Rightarrow> exception_handler \<Rightarrow> bool" where
  "handler_matches ip e h \<longleftrightarrow> eh_protected_start h \<le> ip \<and> ip < eh_protected_end h \<and>
     (case eh_matcher h of
        EmSqlState state \<Rightarrow> eq_ignore_case state (pe_sql_state e)
      | EmOthers \<Rightarrow> pe_sql_state e \<noteq> ''57014'' \<and> pe_sql_state e \<noteq> ''P0004'')"

text \<open>The innermost region first, then the first handler of the region.\<close>

definition handler_key_le :: "nat \<times> exception_handler \<Rightarrow> nat \<times> exception_handler \<Rightarrow> bool" where
  "handler_key_le = (\<lambda>(i, g) (j, h).
     eh_protected_start g < eh_protected_start h \<or>
     eh_protected_start g = eh_protected_start h \<and>
       (usize_max - eh_protected_end g < usize_max - eh_protected_end h \<or>
        usize_max - eh_protected_end g = usize_max - eh_protected_end h \<and> usize_max - i \<le> usize_max - j))"

definition select_handler :: "program \<Rightarrow> nat \<Rightarrow> pl_error \<Rightarrow> exception_handler option" where
  "select_handler program ip e =
     map_option snd (fold (\<lambda>c best. case best of None \<Rightarrow> Some c | Some b \<Rightarrow> if handler_key_le b c then Some c else best)
       (filter (\<lambda>(_, h). handler_matches ip e h) (List.enumerate 0 (pg_handlers program))) None)"

text \<open>Active regions are rolled back until the given one has been, or all of them.\<close>

primrec rollback_regions :: "('w, 'o) pl_env \<Rightarrow> (nat \<times> nat) option \<Rightarrow> (nat \<times> nat) list \<Rightarrow> ('w, 'o, bool) vm" where
  "rollback_regions env stop [] = eff_return False"
| "rollback_regions env stop (r # rs) =
     eff_bind (vm_put (\<lambda>vs. vs\<lparr>vs_active_regions := rs\<rparr>)) (\<lambda>_.
     eff_bind (vm_host (ho_rollback_exception_block (en_host env))) (\<lambda>_.
     if stop = Some r then eff_return True else rollback_regions env stop rs))"

definition set_diagnostic :: "nat option \<Rightarrow> string \<Rightarrow> ('w, 'o, unit) vm" where
  "set_diagnostic slot text = (case slot of None \<Rightarrow> eff_return () | Some slot \<Rightarrow> vm_set_local slot (PvText text))"

definition handle_error :: "('w, 'o) pl_env \<Rightarrow> pl_error \<Rightarrow> ('w, 'o, unit) vm" where
  "handle_error env e =
     eff_bind (vm_get (\<lambda>vs. (vs_program vs, vs_ip vs, vs_active_regions vs))) (\<lambda>(program, ip, regions).
     case select_handler program ip e of
       None \<Rightarrow> eff_bind (rollback_regions env None regions) (\<lambda>_. vm_throw e)
     | Some h \<Rightarrow>
         eff_bind (rollback_regions env (Some (eh_protected_start h, eh_protected_end h)) regions) (\<lambda>found.
         vm_guard (\<not> found) (internal_err ''PL/pgSQL exception handler region was not active'') (
         eff_bind (vm_put (\<lambda>vs. vs\<lparr>vs_query_loops := bm_empty, vs_integer_loops := bm_empty, vs_foreach_loops := bm_empty,
             vs_cursors := bm_empty\<rparr>)) (\<lambda>_.
         eff_bind (set_diagnostic (pg_sqlstate_slot program) (pe_sql_state e)) (\<lambda>_.
         eff_bind (set_diagnostic (pg_sqlerrm_slot program) (pe_message e)) (\<lambda>_.
         eff_bind (vm_put (\<lambda>vs. vs\<lparr>vs_active_exception := Some e\<rparr>)) (\<lambda>_. vm_goto (eh_target h))))))))"

definition handle_runtime_step_error :: "('w, 'o) pl_env \<Rightarrow> pl_error \<Rightarrow> ('w, 'o, unit) vm" where
  "handle_runtime_step_error env e = eff_bind (handle_error env e) (\<lambda>_. refresh_memory env None)"

text \<open>\<open>if let Err(error) = f() { handler(error) }\<close>; a panic is not an error.\<close>

definition vm_catch :: "('w, 'o, 'a) vm \<Rightarrow> (pl_error \<Rightarrow> ('w, 'o, 'a) vm) \<Rightarrow> ('w, 'o, 'a) vm" where
  "vm_catch f h st = (case f st of (Inl (VmErr e), st) \<Rightarrow> h e st | r \<Rightarrow> r)"

section \<open>The response to a query\<close>

definition apply_sql_response :: "('w, 'o) pl_env \<Rightarrow> pending_sql \<Rightarrow> 'o query_stream pl_res \<Rightarrow> ('w, 'o, unit) vm" where
  "apply_sql_response env pending response =
     eff_bind (vm_res response) (\<lambda>events.
     case pending of
       PsExecute into \<Rightarrow>
         eff_bind (vm_res (collect_sql_result events False)) (\<lambda>(first, _).
         eff_bind (case into of Some slot \<Rightarrow> vm_assign_row env slot first | None \<Rightarrow> eff_return ()) (\<lambda>_. vm_next))
     | PsDynamic into strict \<Rightarrow>
         eff_bind (vm_res (collect_sql_result events strict)) (\<lambda>(first, row_count).
         eff_bind (case into of
             Some slot \<Rightarrow>
               vm_guard (strict \<and> row_count = 0) (pl_err ''P0002'' ''dynamic EXECUTE INTO STRICT returned no rows'') (
                 vm_assign_row env slot first)
           | None \<Rightarrow> eff_return ()) (\<lambda>_. vm_next))
     | PsOpenCursor cursor \<Rightarrow>
         eff_bind (vm_put (\<lambda>vs. vs\<lparr>vs_cursors := bm_insert cursor (cursor_state_new events) (vs_cursors vs)\<rparr>)) (\<lambda>_. vm_next)
     | PsQueryForStart start slot exit \<Rightarrow>
         eff_bind (vm_get (\<lambda>vs. query_loop_next_row (max_returned_rows (vs_limits vs))
             \<lparr>ql_slot = slot, ql_end = exit, ql_events = events, ql_current_rows = [], ql_fields = None, ql_rows_seen = 0\<rparr>)) (\<lambda>(r, q).
         eff_bind (vm_res r) (\<lambda>row.
         case row of
           Some row \<Rightarrow>
             eff_bind (vm_assign_row env slot (Some row)) (\<lambda>_.
             eff_bind (vm_put (\<lambda>vs. vs\<lparr>vs_query_loops := bm_insert start q (vs_query_loops vs)\<rparr>)) (\<lambda>_. vm_next))
         | None \<Rightarrow> vm_put (\<lambda>vs. vs\<lparr>vs_ip := exit\<rparr>))))"

section \<open>One turn of the loop\<close>

text \<open>Loops that the instruction pointer has left are forgotten.\<close>

definition retain_loops :: "'o vm_state \<Rightarrow> 'o vm_state" where
  "retain_loops vs =
     vs\<lparr>vs_query_loops := bm_retain (\<lambda>_ l. vs_ip vs < ql_end l) (vs_query_loops vs),
        vs_integer_loops := bm_retain (\<lambda>_ l. vs_ip vs < il_end l) (vs_integer_loops vs),
        vs_foreach_loops := bm_retain (\<lambda>_ l. vs_ip vs < fl_end l) (vs_foreach_loops vs)\<rparr>"

primrec commit_left_regions :: "('w, 'o) pl_env \<Rightarrow> nat \<Rightarrow> (nat \<times> nat) list \<Rightarrow> ('w, 'o, unit) vm" where
  "commit_left_regions env ip [] = eff_return ()"
| "commit_left_regions env ip (r # rs) =
     (if snd r \<le> ip
      then
        eff_bind (vm_host (ho_commit_exception_block (en_host env))) (\<lambda>_.
        eff_bind (vm_put (\<lambda>vs. vs\<lparr>vs_active_regions := rs\<rparr>)) (\<lambda>_. commit_left_regions env ip rs))
      else eff_return ())"

definition begin_region :: "('w, 'o) pl_env \<Rightarrow> nat \<times> nat \<Rightarrow> ('w, 'o, unit) vm" where
  "begin_region env r =
     eff_bind (vm_get vs_active_regions) (\<lambda>active.
     if r \<in> set active then eff_return ()
     else
       eff_bind (vm_host (ho_begin_exception_block (en_host env))) (\<lambda>_.
         vm_put (\<lambda>vs. vs\<lparr>vs_active_regions := r # vs_active_regions vs\<rparr>)))"

definition vm_prelude :: "('w, 'o) pl_env \<Rightarrow> ('w, 'o, unit) vm" where
  "vm_prelude env =
     eff_bind (vm_put retain_loops) (\<lambda>_.
     eff_bind (vm_get (\<lambda>vs. (vs_ip vs, vs_active_regions vs))) (\<lambda>(ip, active).
     eff_bind (commit_left_regions env ip active) (\<lambda>_.
     eff_bind (vm_get vs_regions) (\<lambda>regions.
     eff_bind (eff_each (begin_region env) (filter (\<lambda>r. fst r = ip) regions)) (\<lambda>_.
     eff_bind (vm_put (\<lambda>vs. vs\<lparr>vs_steps := count_up (vs_steps vs)\<rparr>)) (\<lambda>_.
     eff_bind (vm_get (\<lambda>vs. max_steps (vs_limits vs) < vs_steps vs)) (\<lambda>bad.
     vm_guard bad (limit_err ''PL/pgSQL execution step limit exceeded'') (
       vm_host (ho_check_cancelled (en_host env))))))))))"

definition vm_step :: "('w, 'o) pl_env \<Rightarrow> instruction \<Rightarrow> ('w, 'o, 'o step_outcome) vm" where
  "vm_step env i =
     eff_bind (exec_instruction env i) (\<lambda>out.
     eff_bind (case out of
         SoOutput v \<Rightarrow> eff_bind (vm_res (estimated_vm_output_bytes env v)) vm_resize
       | SoYield _ request \<Rightarrow> refresh_memory env (Some request)
       | SoContinue \<Rightarrow> refresh_memory env None) (\<lambda>_. eff_return out))"

definition vm_cycle :: "('w, 'o) pl_env \<Rightarrow> ('w, 'o, 'o step_outcome) vm" where
  "vm_cycle env =
     eff_bind (vm_prelude env) (\<lambda>_.
     eff_bind (vm_get (\<lambda>vs. pg_instructions (vs_program vs) ! vs_ip vs)) (\<lambda>i.
     vm_catch (vm_step env i) (\<lambda>e. eff_bind (handle_runtime_step_error env e) (\<lambda>_. eff_return SoContinue))))"

primrec commit_regions :: "('w, 'o) pl_env \<Rightarrow> (nat \<times> nat) list \<Rightarrow> ('w, 'o, unit) vm" where
  "commit_regions env [] = eff_return ()"
| "commit_regions env (r # rs) =
     eff_bind (vm_put (\<lambda>vs. vs\<lparr>vs_active_regions := rs\<rparr>)) (\<lambda>_.
     eff_bind (vm_host (ho_commit_exception_block (en_host env))) (\<lambda>_. commit_regions env rs))"

definition attach_output_memory :: "'o vm_output \<Rightarrow> ('w, 'o, 'o vm_run_state \<times> pending_sql option) vm" where
  "attach_output_memory out =
     eff_bind (vm_get vs_reservation) (\<lambda>r. eff_return (RsComplete (out\<lparr>vo_retained_memory := Some r\<rparr>), None))"

definition vm_return :: "('w, 'o) pl_env \<Rightarrow> 'o vm_output \<Rightarrow> ('w, 'o, 'o vm_run_state \<times> pending_sql option) vm" where
  "vm_return env out =
     eff_bind (vm_get vs_active_regions) (\<lambda>active.
     eff_bind (commit_regions env active) (\<lambda>_. attach_output_memory out))"

text \<open>The instruction pointer is behind the last instruction.\<close>

definition vm_finish :: "('w, 'o) pl_env \<Rightarrow> ('w, 'o, 'o vm_run_state \<times> pending_sql option) vm" where
  "vm_finish env =
     eff_bind (vm_get vs_active_regions) (\<lambda>active.
     eff_bind (commit_regions env active) (\<lambda>_.
     eff_bind (vm_get (\<lambda>vs. \<lparr>vo_return_value = None, vo_returned_rows = vs_returned_rows vs, vo_return_parameter = None,
         vo_final_locals = vs_locals vs, vo_output_parameters = [], vo_retained_memory = None\<rparr>)) (\<lambda>out.
     eff_bind (vm_res (estimated_vm_output_bytes env out)) (\<lambda>bytes.
     eff_bind (vm_resize bytes) (\<lambda>_. attach_output_memory out)))))"

section \<open>Running\<close>

type_synonym ('w, 'o) vm_stop = "(vm_fail + 'o vm_run_state \<times> pending_sql option) \<times> 'o vm_state \<times> 'w pl_world"

partial_function (option) vm_loop :: "('w, 'o) pl_env \<Rightarrow> 'o vm_state \<times> 'w pl_world \<Rightarrow> ('w, 'o) vm_stop option" where
  "vm_loop env st =
     (if vs_ip (fst st) < length (pg_instructions (vs_program (fst st)))
      then case vm_cycle env st of
             (Inl e, st) \<Rightarrow> Some (Inl e, st)
           | (Inr SoContinue, st) \<Rightarrow> vm_loop env st
           | (Inr (SoYield pending request), st) \<Rightarrow> Some (Inr (RsSql request, Some pending), st)
           | (Inr (SoOutput out), st) \<Rightarrow> Some (vm_return env out st)
      else Some (vm_finish env st))"

text \<open>What \<open>resume\<close> does before the loop.\<close>

definition resume_start :: "('w, 'o) pl_env \<Rightarrow> pending_sql option \<Rightarrow> 'o query_stream pl_res option \<Rightarrow> ('w, 'o, unit) vm" where
  "resume_start env pending response =
     eff_bind (case (pending, response) of
         (Some pending, Some response) \<Rightarrow> vm_catch (apply_sql_response env pending response) (handle_error env)
       | (Some _, None) \<Rightarrow> vm_throw (internal_err ''PL/pgSQL VM resumed without its pending SQL response'')
       | (None, Some _) \<Rightarrow> vm_throw (internal_err ''PL/pgSQL VM received an unexpected SQL response'')
       | (None, None) \<Rightarrow> eff_return ()) (\<lambda>_.
     vm_catch (refresh_memory env None) (\<lambda>e. eff_bind (handle_error env e) (\<lambda>_. refresh_memory env None)))"

text \<open>A state that is dropped gives its memory back.\<close>

definition drop_state :: "'o vm_state \<Rightarrow> 'w pl_world \<Rightarrow> 'w pl_world" where
  "drop_state vs w = w\<lparr>pw_grant := fst (reservation_drop (pw_grant w, vs_reservation vs))\<rparr>"

definition resume ::
  "('w, 'o) pl_env \<Rightarrow> 'o query_stream pl_res option \<Rightarrow> 'o vm_machine \<times> 'w pl_world \<Rightarrow>
     ((vm_fail + 'o vm_run_state) \<times> 'o vm_machine \<times> 'w pl_world) option" where
  "resume env response = (\<lambda>(m, w).
     case vm_running m of
       None \<Rightarrow> Some (Inl (VmErr (pl_err ''55000'' ''PL/pgSQL VM is already complete'')), m, w)
     | Some vs \<Rightarrow>
         let gone = \<lparr>vm_running = None, vm_pending = None\<rparr> in
         (case resume_start env (vm_pending m) response (vs, w) of
            (Inl e, (vs, w)) \<Rightarrow> Some (Inl e, gone, drop_state vs w)
          | (Inr _, st) \<Rightarrow>
              map_option (\<lambda>(r, vs, w).
                case r of
                  Inl e \<Rightarrow> (Inl e, gone, drop_state vs w)
                | Inr (run, Some pending) \<Rightarrow> (Inr run, \<lparr>vm_running = Some vs, vm_pending = Some pending\<rparr>, w)
                | Inr (run, None) \<Rightarrow> (Inr run, gone, w))
              (vm_loop env st)))"

definition ensure_transaction_boundary_ready :: "'o vm_machine \<Rightarrow> unit pl_res" where
  "ensure_transaction_boundary_ready m =
     try_bind (ok_or (pl_err ''55000'' ''PL/pgSQL VM is already complete'') (vm_running m)) (\<lambda>vs.
     guard_res (vs_active_regions vs \<noteq> [] \<or> bm_list (vs_query_loops vs) \<noteq> [] \<or> bm_list (vs_cursors vs) \<noteq> [])
       (pl_err ''2D000'' ''cannot end a transaction while a PL/pgSQL subtransaction or cursor is active'') (Inr ()))"

text \<open>The protected regions by their start, outer ones first.\<close>

definition exception_regions :: "program \<Rightarrow> (nat \<times> nat) list" where
  "exception_regions program =
     sort_key (\<lambda>(s, e). (int s, - int e)) (remdups (map (\<lambda>h. (eh_protected_start h, eh_protected_end h)) (pg_handlers program)))"

definition bind_arguments :: "nat \<Rightarrow> 'o pl_value list \<Rightarrow> 'o pl_value list" where
  "bind_arguments n arguments = take n arguments @ replicate (n - length arguments) PvNull"

definition vm_initial_state :: "program \<Rightarrow> resource_limits \<Rightarrow> 'o pl_value list \<Rightarrow> 'o record_map \<Rightarrow> memory_reservation \<Rightarrow> 'o vm_state" where
  "vm_initial_state program limits arguments records reservation =
     \<lparr>vs_program = program, vs_limits = limits, vs_locals = bind_arguments (length (pg_locals program)) arguments,
      vs_records = records, vs_ip = 0, vs_steps = 0, vs_returned_rows = [], vs_query_loops = bm_empty,
      vs_integer_loops = bm_empty, vs_foreach_loops = bm_empty, vs_cursors = bm_empty, vs_active_exception = None,
      vs_regions = exception_regions program, vs_active_regions = [], vs_reservation = reservation\<rparr>"

definition new_with_memory_grant ::
  "('w, 'o) pl_env \<Rightarrow> program \<Rightarrow> 'o pl_value list \<Rightarrow> resource_limits \<Rightarrow> 'w pl_world \<Rightarrow> (vm_fail + 'o vm_machine) \<times> 'w pl_world" where
  "new_with_memory_grant env program arguments limits w =
     (if pg_version program \<noteq> BYTECODE_VERSION
      then (Inl (VmErr (pl_err ''0A000'' (''unsupported PL/pgSQL bytecode version '' @ show_nat (unat (pg_version program))))), w)
      else case initialize_runtime_records (en_record_bytes env) (en_host env) program (max_cursor_bytes limits) w of
        (Inl e, w) \<Rightarrow> (Inl (VmErr e), w)
      | (Inr records, w) \<Rightarrow>
          (case grant_try_reserve 0 (pw_grant w) of
             (Inl e, g) \<Rightarrow> (Inl (VmErr e), w\<lparr>pw_grant := g\<rparr>)
           | (Inr reservation, g) \<Rightarrow>
               (case refresh_memory env None (vm_initial_state program limits arguments records reservation, w\<lparr>pw_grant := g\<rparr>) of
                  (Inl e, (vs, w)) \<Rightarrow> (Inl e, drop_state vs w)
                | (Inr _, (vs, w)) \<Rightarrow> (Inr \<lparr>vm_running = Some vs, vm_pending = None\<rparr>, w))))"

text \<open>\<open>resume\<close> until it completes, with the host answering every query.\<close>

partial_function (option) run_machine ::
  "('w, 'o) pl_env \<Rightarrow> 'o query_stream pl_res option \<Rightarrow> 'o vm_machine \<times> 'w pl_world \<Rightarrow> ((vm_fail + 'o vm_output) \<times> 'w pl_world) option" where
  "run_machine env response st =
     (case resume env response st of
        None \<Rightarrow> None
      | Some (Inl e, m, w) \<Rightarrow> Some (Inl e, w)
      | Some (Inr (RsComplete out), m, w) \<Rightarrow> Some (Inr out, w)
      | Some (Inr (RsSql request), m, w) \<Rightarrow>
          (case ho_execute_sql (en_host env) (rq_sql request) (rq_parameters request) w of
             (r, w) \<Rightarrow> run_machine env (Some r) (m, w)))"

declare vm_loop.simps [code] run_machine.simps [code]

definition execute_with_memory_grant ::
  "('w, 'o) pl_env \<Rightarrow> program \<Rightarrow> 'o pl_value list \<Rightarrow> resource_limits \<Rightarrow> 'w pl_world \<Rightarrow> ((vm_fail + 'o vm_output) \<times> 'w pl_world) option" where
  "execute_with_memory_grant env program arguments limits w =
     (case new_with_memory_grant env program arguments limits w of
        (Inl e, w) \<Rightarrow> Some (Inl e, w)
      | (Inr m, w) \<Rightarrow> run_machine env None (m, w))"

definition execute_with_limits ::
  "('w, 'o) pl_env \<Rightarrow> program \<Rightarrow> 'o pl_value list \<Rightarrow> resource_limits \<Rightarrow> 'w pl_world \<Rightarrow> ((vm_fail + 'o vm_output) \<times> 'w pl_world) option" where
  "execute_with_limits env program arguments limits w =
     (case grant_new (max_cursor_bytes limits) of
        Inl e \<Rightarrow> Some (Inl (VmErr e), w)
      | Inr g \<Rightarrow> execute_with_memory_grant env program arguments limits (w\<lparr>pw_grant := g\<rparr>))"

definition execute ::
  "('w, 'o) pl_env \<Rightarrow> program \<Rightarrow> 'o pl_value list \<Rightarrow> 'w pl_world \<Rightarrow> ((vm_fail + 'o vm_output) \<times> 'w pl_world) option" where
  "execute env program arguments w = execute_with_limits env program arguments limits_default w"

end
