(* ===== verification/PlVmSafety.thy ===== *)
theory PlVmSafety
  imports PlDispatch PlCompilerSafety
begin

text \<open>
  What the virtual machine promises for compiled programs: a run never panics, it ends within the
  step limit, and a routine that completes has left every exception block that it began. The
  invariant \<open>vm_inv\<close> is kept by every instruction, whether it succeeds or not. How the host
  counts its open blocks is a predicate \<open>J\<close> of the locale \<open>block_host\<close>.
\<close>

section \<open>Runs that keep an invariant\<close>

definition vm_keeps :: "('o vm_state \<times> 'w pl_world \<Rightarrow> bool) \<Rightarrow> ('a \<Rightarrow> bool) \<Rightarrow> ('w, 'o, 'a) vm \<Rightarrow> bool" where
  "vm_keeps I R f \<longleftrightarrow> (\<forall>st r st'. I st \<longrightarrow> f st = (r, st') \<longrightarrow> I st' \<and> r \<noteq> Inl VmPanic \<and> (\<forall>x. r = Inr x \<longrightarrow> R x))"

text \<open>The invariant after a success only.\<close>

definition vm_leads :: "('o vm_state \<times> 'w pl_world \<Rightarrow> bool) \<Rightarrow> ('a \<Rightarrow> 'o vm_state \<times> 'w pl_world \<Rightarrow> bool) \<Rightarrow> ('w, 'o, 'a) vm \<Rightarrow> bool" where
  "vm_leads I Q f \<longleftrightarrow> (\<forall>st r st'. I st \<longrightarrow> f st = (r, st') \<longrightarrow> r \<noteq> Inl VmPanic \<and> (\<forall>x. r = Inr x \<longrightarrow> Q x st'))"

named_theorems keeps_intros "runs that keep the invariant"

lemma vm_lift_facts [simp]: "vm_lift r \<noteq> Inl VmPanic" "vm_lift r = Inr x \<longleftrightarrow> r = Inr x"
  by (cases r; simp)+

lemma vm_keepsD:
  assumes "vm_keeps I R f" and "I st" and "f st = (r, st')"
  shows "I st'" and "r \<noteq> Inl VmPanic" and "\<And>x. r = Inr x \<Longrightarrow> R x"
  using assms unfolding vm_keeps_def by blast+

lemma vm_keepsI:
  "(\<And>st r st'. I st \<Longrightarrow> f st = (r, st') \<Longrightarrow> I st' \<and> r \<noteq> Inl VmPanic \<and> (\<forall>x. r = Inr x \<longrightarrow> R x)) \<Longrightarrow> vm_keeps I R f"
  by (simp add: vm_keeps_def)

lemma vm_keeps_bind:
  assumes f: "vm_keeps I P f" and g: "\<And>x. P x \<Longrightarrow> vm_keeps I R (g x)"
  shows "vm_keeps I R (eff_bind f g)"
proof (rule vm_keepsI)
  fix st r st'
  assume I: "I st" and e: "eff_bind f g st = (r, st')"
  from e show "I st' \<and> r \<noteq> Inl VmPanic \<and> (\<forall>x. r = Inr x \<longrightarrow> R x)"
  proof (cases rule: eff_bind_cases)
    case (1 e)
    with vm_keepsD [OF f I 1(1)] show ?thesis by simp
  next
    case (2 x st1)
    note G = vm_keepsD [OF g [OF vm_keepsD(3) [OF f I 2(1) refl]] vm_keepsD(1) [OF f I 2(1)] 2(2)]
    then show ?thesis by blast
  qed
qed

lemma vm_keeps_seq [keeps_intros]: "vm_keeps I (\<lambda>_. True) f \<Longrightarrow> (\<And>x. vm_keeps I R (g x)) \<Longrightarrow> vm_keeps I R (eff_bind f g)"
  by (rule vm_keeps_bind)

lemma vm_keeps_weaken: "vm_keeps I P f \<Longrightarrow> (\<And>x. P x \<Longrightarrow> R x) \<Longrightarrow> vm_keeps I R f"
  unfolding vm_keeps_def by blast

lemma vm_keeps_return [keeps_intros]: "R x \<Longrightarrow> vm_keeps I R (eff_return x)"
  by (simp add: vm_keeps_def)

lemma vm_keeps_throw [keeps_intros]: "vm_keeps I R (vm_throw e)"
  by (simp add: vm_keeps_def vm_throw_def)

lemma vm_keeps_res: "(\<And>x. r = Inr x \<Longrightarrow> R x) \<Longrightarrow> vm_keeps I R (vm_res r)"
  by (cases r) (auto simp: vm_keeps_def vm_res_def)

lemma vm_keeps_bind_res [keeps_intros]: "(\<And>x. r = Inr x \<Longrightarrow> vm_keeps I R (g x)) \<Longrightarrow> vm_keeps I R (eff_bind (vm_res r) g)"
  by (rule vm_keeps_bind [of _ "\<lambda>x. r = Inr x"]) (auto intro: vm_keeps_res)

lemma vm_keeps_bind_get [keeps_intros]:
  "(\<And>vs w. I (vs, w) \<Longrightarrow> vm_keeps I R (g (h vs))) \<Longrightarrow> vm_keeps I R (eff_bind (vm_get h) g)"
  by (rule vm_keepsI) (auto simp: vm_get_def eff_bind_def dest: vm_keepsD)

lemma vm_keeps_put: "(\<And>vs w. I (vs, w) \<Longrightarrow> I (u vs, w)) \<Longrightarrow> vm_keeps I (\<lambda>_. True) (vm_put u)"
  by (auto simp: vm_keeps_def vm_put_def)

lemma vm_keeps_guard [keeps_intros]: "(\<not> bad \<Longrightarrow> vm_keeps I R k) \<Longrightarrow> vm_keeps I R (vm_guard bad e k)"
  by (cases bad) (simp_all add: vm_keeps_def vm_guard_def)

lemma vm_keeps_if [keeps_intros]: "(b \<Longrightarrow> vm_keeps I R f) \<Longrightarrow> (\<not> b \<Longrightarrow> vm_keeps I R g) \<Longrightarrow> vm_keeps I R (if b then f else g)"
  by simp

lemma vm_keeps_option [keeps_intros]:
  "(x = None \<Longrightarrow> vm_keeps I R f) \<Longrightarrow> (\<And>y. x = Some y \<Longrightarrow> vm_keeps I R (g y)) \<Longrightarrow> vm_keeps I R (case x of None \<Rightarrow> f | Some y \<Rightarrow> g y)"
  by (cases x) simp_all

lemma vm_keeps_prod [keeps_intros]: "(\<And>a b. x = (a, b) \<Longrightarrow> vm_keeps I R (f a b)) \<Longrightarrow> vm_keeps I R (case x of (a, b) \<Rightarrow> f a b)"
  by (cases x) simp

lemma vm_keeps_list [keeps_intros]:
  "(xs = [] \<Longrightarrow> vm_keeps I R f) \<Longrightarrow> (\<And>y ys. xs = y # ys \<Longrightarrow> vm_keeps I R (g y ys)) \<Longrightarrow> vm_keeps I R (case xs of [] \<Rightarrow> f | y # ys \<Rightarrow> g y ys)"
  by (cases xs) simp_all

lemma vm_keeps_let [keeps_intros]: "vm_keeps I R (f x) \<Longrightarrow> vm_keeps I R (let y = x in f y)"
  by simp

lemma vm_leadsD:
  assumes "vm_leads I Q f" and "I st" and "f st = (r, st')"
  shows "r \<noteq> Inl VmPanic" and "\<And>x. r = Inr x \<Longrightarrow> Q x st'"
  using assms unfolding vm_leads_def by blast+

lemma vm_leadsI:
  "(\<And>st r st'. I st \<Longrightarrow> f st = (r, st') \<Longrightarrow> r \<noteq> Inl VmPanic \<and> (\<forall>x. r = Inr x \<longrightarrow> Q x st')) \<Longrightarrow> vm_leads I Q f"
  by (simp add: vm_leads_def)

lemma vm_leads_bind:
  assumes f: "vm_leads I P f" and g: "\<And>x. vm_leads (P x) Q (g x)"
  shows "vm_leads I Q (eff_bind f g)"
proof (rule vm_leadsI)
  fix st r st'
  assume I: "I st" and e: "eff_bind f g st = (r, st')"
  from e show "r \<noteq> Inl VmPanic \<and> (\<forall>x. r = Inr x \<longrightarrow> Q x st')"
  proof (cases rule: eff_bind_cases)
    case (1 e)
    with vm_leadsD [OF f I 1(1)] show ?thesis by simp
  next
    case (2 x st1)
    with vm_leadsD [OF g vm_leadsD(2) [OF f I 2(1) refl] 2(2)] show ?thesis by blast
  qed
qed

lemma vm_leads_keeps: "vm_keeps I R f \<Longrightarrow> (\<And>x st. R x \<Longrightarrow> I st \<Longrightarrow> Q x st) \<Longrightarrow> vm_leads I Q f"
  unfolding vm_leads_def vm_keeps_def by blast

lemma vm_leads_get: "(\<And>vs w. I (vs, w) \<Longrightarrow> vm_leads (\<lambda>st. st = (vs, w)) Q (g (h vs))) \<Longrightarrow> vm_leads I Q (eff_bind (vm_get h) g)"
  by (rule vm_leadsI) (auto simp: vm_get_def eff_bind_def dest: vm_leadsD)

section \<open>The state of a running program\<close>

definition slots_ok :: "nat \<Rightarrow> ('l \<Rightarrow> nat) \<Rightarrow> (nat, 'l) btree_map \<Rightarrow> bool" where
  "slots_ok nl slot m \<longleftrightarrow> (\<forall>i l. bm_get m i = Some l \<longrightarrow> slot l < nl)"

definition vm_inv :: "(nat \<Rightarrow> 'w pl_world \<Rightarrow> bool) \<Rightarrow> program \<Rightarrow> resource_limits \<Rightarrow> nat \<Rightarrow> 'o vm_state \<times> 'w pl_world \<Rightarrow> bool" where
  "vm_inv J p lim k = (\<lambda>(vs, w).
     vs_program vs = p \<and> vs_limits vs = lim \<and> vs_steps vs = k \<and> length (vs_locals vs) = length (pg_locals p) \<and>
     slots_ok (length (pg_locals p)) ql_slot (vs_query_loops vs) \<and>
     slots_ok (length (pg_locals p)) il_slot (vs_integer_loops vs) \<and>
     slots_ok (length (pg_locals p)) fl_slot (vs_foreach_loops vs) \<and>
     J (length (vs_active_regions vs)) w)"

definition pending_ok :: "nat \<Rightarrow> pending_sql \<Rightarrow> bool" where
  "pending_ok nl q \<longleftrightarrow>
     (case q of PsExecute into \<Rightarrow> slot_ok nl into | PsDynamic into _ \<Rightarrow> slot_ok nl into | PsOpenCursor _ \<Rightarrow> True
      | PsQueryForStart _ slot _ \<Rightarrow> slot < nl)"

definition outcome_ok :: "nat \<Rightarrow> 'o step_outcome \<Rightarrow> bool" where
  "outcome_ok nl out \<longleftrightarrow> (case out of SoYield q _ \<Rightarrow> pending_ok nl q | _ \<Rightarrow> True)"

lemma outcome_ok_simps [simp]:
  "outcome_ok nl SoContinue" "outcome_ok nl (SoOutput out)" "outcome_ok nl (SoYield q r) = pending_ok nl q"
  by (simp_all add: outcome_ok_def)

lemma slots_ok_simps [simp]: "slots_ok nl slot bm_empty"
  by (simp add: slots_ok_def)

lemma slots_ok_insert: "slots_ok nl slot m \<Longrightarrow> slot l < nl \<Longrightarrow> slots_ok nl slot (bm_insert i l m)"
  by (simp add: slots_ok_def)

lemma slots_ok_remove: "slots_ok nl slot m \<Longrightarrow> slots_ok nl slot (bm_remove i m)"
  by (simp add: slots_ok_def)

lemma slots_ok_get: "slots_ok nl slot m \<Longrightarrow> bm_get m i = Some l \<Longrightarrow> slot l < nl"
  by (simp add: slots_ok_def)

text \<open>
  \<open>J n w\<close> says that the host has \<open>n\<close> more open blocks in the world \<open>w\<close> than at the start. The
  other functions of the host leave their number alone.
\<close>

locale block_host =
  fixes env :: "('w, 'o) pl_env" and J :: "nat \<Rightarrow> 'w pl_world \<Rightarrow> bool"
  assumes J_evaluate: "J n w \<Longrightarrow> J n (snd (ho_evaluate_expression (en_host env) e ps w))"
    and J_execute_sql: "J n w \<Longrightarrow> J n (snd (ho_execute_sql (en_host env) e ps w))"
    and J_assign: "J n w \<Longrightarrow> J n (snd (ho_assign_composite_field (en_host env) slot field v w))"
    and J_notice: "J n w \<Longrightarrow> J n (snd (ho_emit_notice (en_host env) notice w))"
    and J_row_type: "J n w \<Longrightarrow> J n (snd (ho_resolve_row_type (en_host env) relation w))"
    and J_cancelled: "J n w \<Longrightarrow> J n (snd (ho_check_cancelled (en_host env) w))"
    and J_begin: "J n w \<Longrightarrow> ho_begin_exception_block (en_host env) w = (Inr (), w') \<Longrightarrow> J (n + 1) w'"
    and J_commit: "J (n + 1) w \<Longrightarrow> ho_commit_exception_block (en_host env) w = (Inr (), w') \<Longrightarrow> J n w'"
    and J_rollback: "J (n + 1) w \<Longrightarrow> ho_rollback_exception_block (en_host env) w = (Inr (), w') \<Longrightarrow> J n w'"
    and J_memory: "J n w \<Longrightarrow> J n (w\<lparr>pw_grant := g\<rparr>)" and J_io: "J n w \<Longrightarrow> J n (w\<lparr>pw_io := os\<rparr>)"
begin

lemma keeps_host: "(\<And>n w. J n w \<Longrightarrow> J n (snd (f w))) \<Longrightarrow> vm_keeps (vm_inv J p lim k) (\<lambda>_. True) (vm_host f)"
  by (rule vm_keepsI) (auto simp: vm_host_def vm_inv_def split: prod.splits dest: sym, metis snd_conv)

lemma keeps_eval [keeps_intros]: "vm_keeps (vm_inv J p lim k) (\<lambda>_. True) (vm_eval env e)"
  unfolding vm_eval_def evaluate_runtime_expression_def
  by (intro keeps_intros keeps_host) (auto simp: eff_guard_def eff_bind_def intro: J_evaluate split: option.splits sum.splits prod.splits)

lemma keeps_eval_all [keeps_intros]: "vm_keeps (vm_inv J p lim k) (\<lambda>_. True) (vm_eval_all env es)"
  by (induction es; simp only: vm_eval_all.simps; intro keeps_intros TrueI; assumption)

lemma keeps_expand [keeps_intros]: "vm_keeps (vm_inv J p lim k) (\<lambda>_. True) (vm_expand sql)"
  unfolding vm_expand_def by (intro keeps_intros vm_keeps_res TrueI)

lemma keeps_next [keeps_intros]: "vm_keeps (vm_inv J p lim k) (\<lambda>_. True) vm_next"
  unfolding vm_next_def by (rule vm_keeps_put) (simp add: vm_inv_def)

lemma keeps_continue [keeps_intros]: "vm_keeps (vm_inv J p lim k) (outcome_ok nl) vm_continue"
  unfolding vm_continue_def by (intro keeps_intros) simp

lemma keeps_target [keeps_intros]: "vm_keeps (vm_inv J p lim k) (\<lambda>_. True) (vm_target t)"
  unfolding vm_target_def by (intro keeps_intros vm_keeps_res TrueI)

lemma keeps_goto [keeps_intros]: "vm_keeps (vm_inv J p lim k) (\<lambda>_. True) (vm_goto t)"
  unfolding vm_goto_def by (intro keeps_intros vm_keeps_put) (simp add: vm_inv_def)

lemma keeps_set_local [keeps_intros]: "slot < length (pg_locals p) \<Longrightarrow> vm_keeps (vm_inv J p lim k) (\<lambda>_. True) (vm_set_local slot v)"
  unfolding vm_set_local_def
  by (intro keeps_intros) (auto simp: vm_inv_def eff_guard_def intro!: vm_keeps_put)

lemma assign_runtime_row_ok:
  assumes "slot < length locals"
  shows "assign_runtime_row bytes slot row limit (locals, records) \<noteq> Inl VmPanic"
    and "assign_runtime_row bytes slot row limit (locals, records) = Inr (locals', records') \<Longrightarrow> length locals' = length locals"
  using assms by (auto simp: assign_runtime_row_def vm_lift_def map_sum_def res_simps split: option.splits sum.splits)

lemma keeps_assign_row [keeps_intros]:
  "slot < length (pg_locals p) \<Longrightarrow> vm_keeps (vm_inv J p lim k) (\<lambda>_. True) (vm_assign_row env slot row)"
  unfolding vm_assign_row_def vm_keeps_def
  by (auto simp: vm_inv_def vm_get_def vm_put_def eff_bind_def assign_runtime_row_ok split: sum.splits prod.splits
      dest: assign_runtime_row_ok(2) [rotated])

lemma keeps_put_record [keeps_intros]: "vm_keeps (vm_inv J p lim k) (\<lambda>_. True) (vm_put_record env slot r)"
  unfolding vm_put_record_def by (intro keeps_intros vm_keeps_put) (simp add: vm_inv_def)

lemma keeps_resize [keeps_intros]: "vm_keeps (vm_inv J p lim k) (\<lambda>_. True) (vm_resize bytes)"
  unfolding vm_keeps_def vm_resize_def by (auto simp: vm_inv_def J_memory split: prod.splits)

lemma keeps_refresh [keeps_intros]: "vm_keeps (vm_inv J p lim k) (\<lambda>_. True) (refresh_memory env request)"
  unfolding refresh_memory_def by (intro keeps_intros)

text \<open>Every instruction.\<close>

lemma keeps_seek [keeps_intros]: "vm_keeps (vm_inv J p lim k) (\<lambda>_. True) (vm_seek env cursor d)"
  by (rule vm_keepsI) (auto simp: vm_seek_def vm_inv_def intro: J_io split: option.splits prod.splits)

lemma keeps_direction [keeps_intros]: "vm_keeps (vm_inv J p lim k) (\<lambda>_. True) (evaluate_cursor_direction env d)"
  unfolding evaluate_cursor_direction_def evaluate_cursor_count_def evaluate_cursor_integer_expression_def vm_eval_integer_def
  by (cases d; simp only: cursor_direction.simps; intro keeps_intros vm_keeps_res TrueI)

lemma keeps_integer [keeps_intros]: "vm_keeps (vm_inv J p lim k) (\<lambda>_. True) (evaluate_integer_expression env e c)"
  unfolding evaluate_integer_expression_def vm_eval_integer_def by (intro keeps_intros vm_keeps_res TrueI)

lemma keeps_message [keeps_intros]: "vm_keeps (vm_inv J p lim k) (\<lambda>_. True) (evaluate_message env e st)"
  unfolding evaluate_message_def
  by (intro keeps_intros) (simp split: pl_value.split, intro conjI allI impI keeps_intros TrueI)

lemma keeps_dynamic_query [keeps_intros]: "vm_keeps (vm_inv J p lim k) (\<lambda>_. True) (dynamic_query env q args e1 e2)"
  unfolding dynamic_query_def
  by (intro keeps_intros) (simp split: pl_value.split, intro conjI allI impI keeps_intros TrueI)

lemma keeps_yield [keeps_intros]: "pending_ok nl q \<Longrightarrow> vm_keeps (vm_inv J p lim k) (outcome_ok nl) (vm_yield q sql ps)"
  unfolding vm_yield_def by (intro keeps_intros) simp

lemma keeps_assign:
  assumes "slot < length (pg_locals p)"
  shows "vm_keeps (vm_inv J p lim k) (outcome_ok nl) (step_assign env slot e)"
  unfolding step_assign_def
proof (intro vm_keeps_bind_get, goal_cases)
  case (1 vs w vs1 w1 vs2 w2)
  then have "\<not> length (vs_locals vs) \<le> slot" using assms by (simp add: vm_inv_def)
  then show ?case by (simp only: simp_thms eff_guard_simps) (intro keeps_intros assms)
qed

lemma keeps_composite [keeps_intros]: "vm_keeps (vm_inv J p lim k) (\<lambda>_. True) (vm_host (ho_assign_composite_field (en_host env) slot f v))"
  by (rule keeps_host) (rule J_assign)

lemma keeps_notice [keeps_intros]: "vm_keeps (vm_inv J p lim k) (\<lambda>_. True) (vm_host (ho_emit_notice (en_host env) notice))"
  by (rule keeps_host) (rule J_notice)

lemma keeps_go [keeps_intros]: "vm_keeps (vm_inv J p lim k) (outcome_ok nl) (eff_bind (vm_goto t) (\<lambda>_. eff_return SoContinue))"
  by (intro keeps_intros) simp

lemma keeps_execute_sql: "slot_ok nl into \<Longrightarrow> vm_keeps (vm_inv J p lim k) (outcome_ok nl) (step_execute_sql sql into)"
  unfolding step_execute_sql_def by (intro keeps_intros) (simp add: pending_ok_def)

lemma keeps_dynamic_execute:
  "slot_ok nl into \<Longrightarrow> vm_keeps (vm_inv J p lim k) (outcome_ok nl) (step_dynamic_execute env q args into strict)"
  unfolding step_dynamic_execute_def by (intro keeps_intros) (simp add: pending_ok_def)

lemma keeps_open_cursor: "vm_keeps (vm_inv J p lim k) (outcome_ok nl) (step_open_cursor env cursor query)"
  unfolding step_open_cursor_def
  by (cases query; simp only: cursor_query.case; intro keeps_intros; simp add: pending_ok_def)

lemma keeps_query_for_start: "slot < nl \<Longrightarrow> vm_keeps (vm_inv J p lim k) (outcome_ok nl) (step_query_for_start slot sql t)"
  unfolding step_query_for_start_def by (intro keeps_intros) (simp add: pending_ok_def)

lemma keeps_cursor_steps:
  "into < length (pg_locals p) \<Longrightarrow> vm_keeps (vm_inv J p lim k) (outcome_ok nl) (step_fetch_cursor env cursor d into)"
  "vm_keeps (vm_inv J p lim k) (outcome_ok nl) (step_move_cursor env cursor d)"
  unfolding step_fetch_cursor_def step_move_cursor_def by (intro keeps_intros; assumption)+

lemma keeps_close_cursor: "vm_keeps (vm_inv J p lim k) (outcome_ok nl) (step_close_cursor cursor)"
  unfolding step_close_cursor_def by (intro keeps_intros vm_keeps_put) (simp add: vm_inv_def)

lemma keeps_raise: "vm_keeps (vm_inv J p lim k) (outcome_ok nl) (step_raise env level message state)"
  unfolding step_raise_def by (intro keeps_intros)

lemma keeps_assert: "vm_keeps (vm_inv J p lim k) (outcome_ok nl) (step_assert env c message)"
  unfolding step_assert_def by (intro keeps_intros TrueI)

lemma keeps_assign_field: "vm_keeps (vm_inv J p lim k) (outcome_ok nl) (step_assign_field env slot field e)"
  unfolding step_assign_field_def by (intro keeps_intros)

lemma keeps_jump_if_false: "vm_keeps (vm_inv J p lim k) (outcome_ok nl) (step_jump_if_false env e t)"
  unfolding step_jump_if_false_def by (intro keeps_intros) simp

lemma query_loop_slot: "query_loop_next_row n q = (r, q') \<Longrightarrow> ql_slot q' = ql_slot q"
  by (auto simp: query_loop_next_row_def Let_def split: prod.splits sum.splits option.splits if_splits)

lemma keeps_query_for_next: "vm_keeps (vm_inv J p lim k) (outcome_ok nl) (step_query_for_next env start body)"
  unfolding step_query_for_next_def
proof (intro vm_keeps_bind_get vm_keeps_option vm_keeps_throw vm_keeps_prod, goal_cases)
  case (1 vs w q vs1 w1 r q1)
  then have "ql_slot q < length (pg_locals p)" by (auto simp: vm_inv_def intro: slots_ok_get)
  moreover from 1 have "ql_slot q1 = ql_slot q" by (auto intro: query_loop_slot)
  ultimately have slot: "ql_slot q1 < length (pg_locals p)" by simp
  have "vm_keeps (vm_inv J p lim k) (\<lambda>_. True) (vm_put (\<lambda>vs. vs\<lparr>vs_query_loops := bm_insert start q1 (vs_query_loops vs)\<rparr>))"
    by (rule vm_keeps_put) (use slot in \<open>auto simp: vm_inv_def slots_ok_insert\<close>)
  moreover have "vm_keeps (vm_inv J p lim k) (\<lambda>_. True) (vm_put (\<lambda>vs. vs\<lparr>vs_query_loops := bm_remove start (vs_query_loops vs)\<rparr>))"
    by (rule vm_keeps_put) (auto simp: vm_inv_def slots_ok_remove)
  ultimately show ?case by (intro keeps_intros slot) simp
qed

lemma keeps_integer_for_start:
  assumes slot: "slot < length (pg_locals p)"
  shows "vm_keeps (vm_inv J p lim k) (outcome_ok nl) (step_integer_for_start env slot l u s r t)"
proof -
  have "vm_keeps (vm_inv J p lim k) (\<lambda>_. True) (vm_put (\<lambda>vs. vs\<lparr>vs_integer_loops := bm_insert (vs_ip vs)
           \<lparr>il_slot = slot, il_current = l, il_bound = u, il_step = s, il_reverse = r, il_end = t\<rparr> (vs_integer_loops vs)\<rparr>))" for l u s r t
    by (rule vm_keeps_put) (use slot in \<open>auto simp: vm_inv_def slots_ok_insert\<close>)
  then show ?thesis unfolding step_integer_for_start_def by (intro keeps_intros slot) simp
qed

lemma integer_loop_slot: "integer_loop_advance l = Inr (v, l') \<Longrightarrow> il_slot l' = il_slot l"
  by (auto simp: integer_loop_advance_def res_simps split: if_splits)

lemma keeps_integer_for_next: "vm_keeps (vm_inv J p lim k) (outcome_ok nl) (step_integer_for_next start body)"
  unfolding step_integer_for_next_def
proof (intro vm_keeps_bind_get vm_keeps_option vm_keeps_throw vm_keeps_bind_res vm_keeps_prod, goal_cases)
  case (1 vs w l x v l1)
  then have "il_slot l < length (pg_locals p)" by (auto simp: vm_inv_def intro: slots_ok_get)
  moreover from 1 have "il_slot l1 = il_slot l" by (auto intro: integer_loop_slot)
  ultimately have slot: "il_slot l1 < length (pg_locals p)" by simp
  have "vm_keeps (vm_inv J p lim k) (\<lambda>_. True) (vm_put (\<lambda>vs. vs\<lparr>vs_integer_loops := bm_insert start l1 (vs_integer_loops vs)\<rparr>))"
    by (rule vm_keeps_put) (use slot in \<open>auto simp: vm_inv_def slots_ok_insert\<close>)
  moreover have "vm_keeps (vm_inv J p lim k) (\<lambda>_. True) (vm_put (\<lambda>vs. vs\<lparr>vs_integer_loops := bm_remove start (vs_integer_loops vs)\<rparr>))"
    by (rule vm_keeps_put) (auto simp: vm_inv_def slots_ok_remove)
  ultimately show ?case by (intro keeps_intros slot) simp
qed

lemma keeps_foreach_start:
  assumes slot: "slot < length (pg_locals p)"
  shows "vm_keeps (vm_inv J p lim k) (outcome_ok nl) (step_foreach_start env slot array t)"
proof -
  have "vm_keeps (vm_inv J p lim k) (\<lambda>_. True) (vm_put (\<lambda>vs. vs\<lparr>vs_foreach_loops := bm_insert (vs_ip vs)
           \<lparr>fl_slot = slot, fl_values = vals, fl_end = t\<rparr> (vs_foreach_loops vs)\<rparr>))" for vals t
    by (rule vm_keeps_put) (use slot in \<open>auto simp: vm_inv_def slots_ok_insert\<close>)
  then show ?thesis
    unfolding step_foreach_start_def
    by (intro keeps_intros) (simp split: pl_value.split, intro conjI allI impI keeps_intros slot; simp)
qed

lemma keeps_foreach_next: "vm_keeps (vm_inv J p lim k) (outcome_ok nl) (step_foreach_next start body)"
  unfolding step_foreach_next_def
proof (intro vm_keeps_bind_get vm_keeps_option vm_keeps_throw, goal_cases)
  case (1 vs w l)
  then have slot: "fl_slot l < length (pg_locals p)" by (auto simp: vm_inv_def dest: slots_ok_get)
  have "vm_keeps (vm_inv J p lim k) (\<lambda>_. True) (vm_put (\<lambda>vs. vs\<lparr>vs_foreach_loops := bm_insert start (l\<lparr>fl_values := vals\<rparr>) (vs_foreach_loops vs)\<rparr>))" for vals
    by (rule vm_keeps_put) (use slot in \<open>auto simp: vm_inv_def slots_ok_insert\<close>)
  moreover have "vm_keeps (vm_inv J p lim k) (\<lambda>_. True) (vm_put (\<lambda>vs. vs\<lparr>vs_foreach_loops := bm_remove start (vs_foreach_loops vs)\<rparr>))"
    by (rule vm_keeps_put) (auto simp: vm_inv_def slots_ok_remove)
  ultimately show ?case by (intro keeps_intros slot) simp
qed

lemma keeps_return_step: "vm_keeps (vm_inv J p lim k) (outcome_ok nl) (step_return env e b)"
  unfolding step_return_def
  by (intro keeps_intros vm_keeps_put TrueI) (auto simp: vm_inv_def)

lemma keeps_instruction:
  assumes "instr_ok (length (pg_locals p)) nc i"
  shows "vm_keeps (vm_inv J p lim k) (outcome_ok (length (pg_locals p))) (exec_instruction env i)"
  using assms unfolding exec_instruction_def
  by (cases i) (auto simp: instr_ok_def slot_ok_def intro!: keeps_assign keeps_assign_field keeps_jump_if_false keeps_go keeps_execute_sql
      keeps_dynamic_execute keeps_open_cursor keeps_cursor_steps keeps_close_cursor keeps_raise keeps_assert keeps_query_for_start
      keeps_query_for_next keeps_integer_for_start keeps_integer_for_next keeps_foreach_start keeps_foreach_next keeps_return_step
      keeps_continue split: option.splits)

end

end
