(* ===== verification/PlVmRuns.thy ===== *)
theory PlVmRuns
  imports PlVmSafety
begin

text \<open>
  Whole runs of the virtual machine: a turn of the dispatch loop keeps the invariant of the
  machine, whether its instruction succeeds or a handler takes its error, and counts one step; a
  program that the compiler has made never panics, ends within its limit of steps, and has left
  every exception block when it completes.
\<close>

section \<open>A turn of the loop\<close>

definition turn_inv :: "(nat \<Rightarrow> 'w pl_world \<Rightarrow> bool) \<Rightarrow> program \<Rightarrow> resource_limits \<Rightarrow> nat \<Rightarrow> nat \<Rightarrow> 'o vm_state \<times> 'w pl_world \<Rightarrow> bool" where
  "turn_inv J p lim k ip st \<longleftrightarrow> vm_inv J p lim k st \<and> vs_ip (fst st) = ip"

definition turn_done ::
  "(nat \<Rightarrow> 'w pl_world \<Rightarrow> bool) \<Rightarrow> program \<Rightarrow> resource_limits \<Rightarrow> nat \<Rightarrow> 'o step_outcome \<Rightarrow> 'o vm_state \<times> 'w pl_world \<Rightarrow> bool" where
  "turn_done J p lim k out st \<longleftrightarrow> outcome_ok (length (pg_locals p)) out \<and> vm_inv J p lim k st \<and> k \<le> max_steps lim"

definition completed :: "(nat \<Rightarrow> 'w pl_world \<Rightarrow> bool) \<Rightarrow> 'o vm_run_state \<times> pending_sql option \<Rightarrow> 'o vm_state \<times> 'w pl_world \<Rightarrow> bool" where
  "completed J x st \<longleftrightarrow> (\<exists>out. fst x = RsComplete out) \<and> snd x = None \<and> J 0 (snd st)"

definition suspended ::
  "(nat \<Rightarrow> 'w pl_world \<Rightarrow> bool) \<Rightarrow> program \<Rightarrow> resource_limits \<Rightarrow> nat \<Rightarrow> 'o vm_run_state \<times> pending_sql option \<Rightarrow> 'o vm_state \<times> 'w pl_world \<Rightarrow> bool" where
  "suspended J p lim k x st \<longleftrightarrow> (\<exists>request q k'. x = (RsSql request, Some q) \<and> pending_ok (length (pg_locals p)) q \<and>
     vm_inv J p lim k' st \<and> count_up k \<le> k' \<and> k' \<le> max_steps lim)"

definition machine_ok :: "(nat \<Rightarrow> 'w pl_world \<Rightarrow> bool) \<Rightarrow> program \<Rightarrow> resource_limits \<Rightarrow> nat \<Rightarrow> 'o vm_machine \<times> 'w pl_world \<Rightarrow> bool" where
  "machine_ok J p lim k = (\<lambda>(m, w). \<exists>vs. vm_running m = Some vs \<and> vm_inv J p lim k (vs, w) \<and>
     (\<forall>q. vm_pending m = Some q \<longrightarrow> pending_ok (length (pg_locals p)) q))"

lemma count_up_mono: "count_up n \<le> count_up (count_up n)"
  by (simp add: count_up_def)

definition stopped :: "(nat \<Rightarrow> 'w pl_world \<Rightarrow> bool) \<Rightarrow> program \<Rightarrow> resource_limits \<Rightarrow> nat \<Rightarrow> ('w, 'o) vm_stop \<Rightarrow> bool" where
  "stopped J p lim k y \<longleftrightarrow> fst y \<noteq> Inl VmPanic \<and>
     (\<forall>x. fst y = Inr x \<longrightarrow> suspended J p lim k x (snd y) \<or> completed J x (snd y))"

definition resumed ::
  "(nat \<Rightarrow> 'w pl_world \<Rightarrow> bool) \<Rightarrow> program \<Rightarrow> resource_limits \<Rightarrow> nat \<Rightarrow> (vm_fail + 'o vm_run_state) \<times> 'o vm_machine \<times> 'w pl_world \<Rightarrow> bool" where
  "resumed J p lim k y \<longleftrightarrow> fst y \<noteq> Inl VmPanic \<and> (\<forall>out. fst y = Inr (RsComplete out) \<longrightarrow> J 0 (snd (snd y))) \<and>
     (\<forall>request. fst y = Inr (RsSql request) \<longrightarrow> (\<exists>k'. machine_ok J p lim k' (snd y) \<and> count_up k \<le> k' \<and> k' \<le> max_steps lim))"

lemma stopped_mono: "stopped J p lim n y \<Longrightarrow> count_up k \<le> count_up n \<Longrightarrow> stopped J p lim k y"
  unfolding stopped_def suspended_def by (meson order_trans)

lemma program_okD:
  assumes "program_ok p"
  shows "i < length (pg_instructions p) \<Longrightarrow> instr_ok (length (pg_locals p)) (length (pg_cursors p)) (pg_instructions p ! i)"
    and "slot_ok (length (pg_locals p)) (pg_sqlstate_slot p)" and "slot_ok (length (pg_locals p)) (pg_sqlerrm_slot p)"
    and "pg_version p = BYTECODE_VERSION"
  using assms by (auto simp: program_ok_def Let_def)

lemma slots_ok_retain: "slots_ok nl slot m \<Longrightarrow> slots_ok nl slot (bm_retain f m)"
  by (auto simp: slots_ok_def split: option.splits if_splits)

lemma vm_leads_if: "(b \<Longrightarrow> vm_leads I Q f) \<Longrightarrow> (\<not> b \<Longrightarrow> vm_leads I Q g) \<Longrightarrow> vm_leads I Q (if b then f else g)"
  by simp

lemma vm_leads_option:
  "(x = None \<Longrightarrow> vm_leads I Q f) \<Longrightarrow> (\<And>y. x = Some y \<Longrightarrow> vm_leads I Q (g y)) \<Longrightarrow> vm_leads I Q (case x of None \<Rightarrow> f | Some y \<Rightarrow> g y)"
  by (cases x) simp_all

lemma vm_leads_return: "(\<And>st. I st \<Longrightarrow> Q x st) \<Longrightarrow> vm_leads I Q (eff_return x)"
  by (simp add: vm_leads_def)

lemma vm_leads_catch:
  assumes f: "vm_keeps I R f" and Q: "\<And>x st. R x \<Longrightarrow> I st \<Longrightarrow> Q x st" and h: "\<And>e. vm_leads I Q (h e)"
  shows "vm_leads I Q (vm_catch f h)"
proof (rule vm_leadsI)
  fix st r st'
  assume I: "I st" and c: "vm_catch f h st = (r, st')"
  obtain r1 st1 where e: "f st = (r1, st1)" by (cases "f st")
  note F = vm_keepsD [OF f I e]
  show "r \<noteq> Inl VmPanic \<and> (\<forall>x. r = Inr x \<longrightarrow> Q x st')"
  proof (cases r1)
    case (Inl a)
    then obtain e' where "a = VmErr e'" using F(2) by (cases a) auto
    with Inl c e have "h e' st1 = (r, st')" by (simp add: vm_catch_def)
    with vm_leadsD [OF h F(1)] show ?thesis by blast
  next
    case (Inr x)
    with c e F Q show ?thesis by (auto simp: vm_catch_def)
  qed
qed

lemma vm_leads_guard: "(\<not> bad \<Longrightarrow> vm_leads I Q f) \<Longrightarrow> vm_leads I Q (vm_guard bad e f)"
  by (cases bad) (simp_all add: vm_leads_def vm_guard_def)

lemma vm_leads_throw: "vm_leads I Q (vm_throw e)"
  by (simp add: vm_leads_def vm_throw_def)

lemma vm_leads_pre: "vm_leads I Q f \<Longrightarrow> (\<And>st. I' st \<Longrightarrow> I st) \<Longrightarrow> vm_leads I' Q f"
  unfolding vm_leads_def by blast

lemma vm_leads_post: "vm_leads I Q f \<Longrightarrow> (\<And>x st. Q x st \<Longrightarrow> Q' x st) \<Longrightarrow> vm_leads I Q' f"
  unfolding vm_leads_def by blast

context block_host
begin

lemma keeps_response:
  assumes "pending_ok (length (pg_locals p)) pending"
  shows "vm_keeps (vm_inv J p lim k) (\<lambda>_. True) (apply_sql_response env pending response)"
proof (cases pending)
  case (PsExecute into)
  with assms have into: "slot_ok (length (pg_locals p)) into" by (simp add: pending_ok_def)
  show ?thesis unfolding apply_sql_response_def PsExecute pending_sql.case
    by (intro keeps_intros TrueI) (use into in \<open>auto simp: slot_ok_def\<close>)
next
  case (PsDynamic into strict)
  with assms have into: "slot_ok (length (pg_locals p)) into" by (simp add: pending_ok_def)
  show ?thesis unfolding apply_sql_response_def PsDynamic pending_sql.case
    by (intro keeps_intros TrueI) (use into in \<open>auto simp: slot_ok_def\<close>)
next
  case (PsOpenCursor cursor)
  show ?thesis unfolding apply_sql_response_def PsOpenCursor pending_sql.case
    by (intro keeps_intros vm_keeps_put) (simp add: vm_inv_def)
next
  case (PsQueryForStart start slot exit)
  with assms have slot: "slot < length (pg_locals p)" by (simp add: pending_ok_def)
  have put: "vm_keeps (vm_inv J p lim k) (\<lambda>_. True) (vm_put (\<lambda>vs. vs\<lparr>vs_query_loops := bm_insert start q (vs_query_loops vs)\<rparr>))"
    if "ql_slot q = slot" for q
    by (rule vm_keeps_put) (use slot that in \<open>auto simp: vm_inv_def slots_ok_insert\<close>)
  have leave: "vm_keeps (vm_inv J p lim k) (\<lambda>_. True) (vm_put (\<lambda>vs. vs\<lparr>vs_ip := exit\<rparr>))"
    by (rule vm_keeps_put) (simp add: vm_inv_def)
  show ?thesis unfolding apply_sql_response_def PsQueryForStart pending_sql.case
    by (intro keeps_intros leave put slot) (auto dest: query_loop_slot)
qed

lemma leads_rollback:
  "vm_leads (\<lambda>st. vm_inv J p lim k st \<and> vs_active_regions (fst st) = rs) (\<lambda>_. vm_inv J p lim k) (rollback_regions env stop rs)"
proof (induction rs)
  case Nil
  show ?case by (auto simp: vm_leads_def)
next
  case (Cons r rs)
  have put: "vm_leads (\<lambda>st. vm_inv J p lim k st \<and> vs_active_regions (fst st) = r # rs)
      (\<lambda>_ st. vm_inv J p lim k (fst st\<lparr>vs_active_regions := r # rs\<rparr>, snd st) \<and> vs_active_regions (fst st) = rs)
      (vm_put (\<lambda>vs. vs\<lparr>vs_active_regions := rs\<rparr>))"
    by (auto simp: vm_leads_def vm_put_def vm_inv_def)
  have host: "vm_leads (\<lambda>st. vm_inv J p lim k (fst st\<lparr>vs_active_regions := r # rs\<rparr>, snd st) \<and> vs_active_regions (fst st) = rs)
      (\<lambda>_ st. vm_inv J p lim k st \<and> vs_active_regions (fst st) = rs) (vm_host (ho_rollback_exception_block (en_host env)))"
    by (auto simp: vm_leads_def vm_host_def vm_inv_def intro: J_rollback split: prod.splits)
  show ?case unfolding rollback_regions.simps
    by (intro vm_leads_bind [OF put] vm_leads_bind [OF host] vm_leads_if Cons.IH vm_leads_return) auto
qed

lemma keeps_diagnostic [keeps_intros]:
  "slot_ok (length (pg_locals p)) slot \<Longrightarrow> vm_keeps (vm_inv J p lim k) (\<lambda>_. True) (set_diagnostic slot t)"
  unfolding set_diagnostic_def by (intro keeps_intros TrueI) (auto simp: slot_ok_def)

lemma leads_handle_error:
  assumes "program_ok p"
  shows "vm_leads (vm_inv J p lim k) (\<lambda>_. vm_inv J p lim k) (handle_error env e)"
proof -
  have roll: "vm_leads (\<lambda>st. st = (vs, w)) (\<lambda>_. vm_inv J p lim k) (rollback_regions env stop (vs_active_regions vs))"
    if "vm_inv J p lim k (vs, w)" for vs :: "'o vm_state" and w stop
    using that by (auto intro: vm_leads_pre [OF leads_rollback])
  have loops: "vm_keeps (vm_inv J p lim k) (\<lambda>_. True)
      (vm_put (\<lambda>vs. vs\<lparr>vs_query_loops := bm_empty, vs_integer_loops := bm_empty, vs_foreach_loops := bm_empty, vs_cursors := bm_empty\<rparr>))"
    by (rule vm_keeps_put) (simp add: vm_inv_def)
  have active: "vm_keeps (vm_inv J p lim k) (\<lambda>_. True) (vm_put (\<lambda>vs. vs\<lparr>vs_active_exception := Some e\<rparr>))"
    by (rule vm_keeps_put) (simp add: vm_inv_def)
  show ?thesis unfolding handle_error_def
  proof (rule vm_leads_get, simp only: prod.case, intro vm_leads_option, goal_cases)
    case (1 vs w)
    then show ?case by (intro vm_leads_bind [OF roll] vm_leads_throw)
  next
    case (2 vs w h)
    then have "vs_program vs = p" by (simp add: vm_inv_def)
    with 2 show ?case
      by (intro vm_leads_bind [OF roll] vm_leads_keeps [where R = "\<lambda>_. True"] keeps_intros loops active)
        (simp_all add: program_okD [OF assms])
  qed
qed

lemma leads_runtime_error:
  "program_ok p \<Longrightarrow> vm_leads (vm_inv J p lim k) (\<lambda>_. vm_inv J p lim k) (handle_runtime_step_error env e)"
  unfolding handle_runtime_step_error_def
  by (intro vm_leads_bind [OF leads_handle_error] vm_leads_keeps [OF keeps_refresh])

text \<open>What comes before an instruction.\<close>

lemma leads_commit_left:
  "vm_leads (\<lambda>st. turn_inv J p lim k ip st \<and> vs_active_regions (fst st) = rs) (\<lambda>_. turn_inv J p lim k ip) (commit_left_regions env i rs)"
proof (induction rs)
  case Nil
  show ?case by (auto simp: vm_leads_def)
next
  case (Cons r rs)
  let ?left = "\<lambda>st. turn_inv J p lim k ip (fst st\<lparr>vs_active_regions := rs\<rparr>, snd st)"
  have host: "vm_leads (\<lambda>st. turn_inv J p lim k ip st \<and> vs_active_regions (fst st) = r # rs) (\<lambda>_. ?left)
      (vm_host (ho_commit_exception_block (en_host env)))"
    by (auto simp: vm_leads_def vm_host_def turn_inv_def vm_inv_def intro: J_commit split: prod.splits)
  have put: "vm_leads ?left (\<lambda>_ st. turn_inv J p lim k ip st \<and> vs_active_regions (fst st) = rs) (vm_put (\<lambda>vs. vs\<lparr>vs_active_regions := rs\<rparr>))"
    by (auto simp: vm_leads_def vm_put_def)
  show ?case unfolding commit_left_regions.simps
    by (intro vm_leads_if vm_leads_bind [OF host] vm_leads_bind [OF put] Cons.IH vm_leads_return) auto
qed

lemma leads_begin_region: "vm_leads (turn_inv J p lim k ip) (\<lambda>_. turn_inv J p lim k ip) (begin_region env r)"
  unfolding begin_region_def
proof (rule vm_leads_get, intro vm_leads_if vm_leads_return)
  fix vs :: "'o vm_state" and w :: "'w pl_world"
  assume inv: "turn_inv J p lim k ip (vs, w)"
  have "vm_leads (\<lambda>st. st = (vs, w)) (\<lambda>_ st. turn_inv J p lim k ip (fst st\<lparr>vs_active_regions := r # vs_active_regions (fst st)\<rparr>, snd st))
      (vm_host (ho_begin_exception_block (en_host env)))"
    using inv by (auto simp: vm_leads_def vm_host_def turn_inv_def vm_inv_def dest: J_begin split: prod.splits)
  then show "vm_leads (\<lambda>st. st = (vs, w)) (\<lambda>_. turn_inv J p lim k ip)
      (eff_bind (vm_host (ho_begin_exception_block (en_host env))) (\<lambda>_. vm_put (\<lambda>vs. vs\<lparr>vs_active_regions := r # vs_active_regions vs\<rparr>)))"
    by (rule vm_leads_bind) (simp add: vm_leads_def vm_put_def)
qed simp_all

lemma leads_prelude:
  "vm_leads (turn_inv J p lim k ip) (\<lambda>_ st. turn_inv J p lim (count_up k) ip st \<and> count_up k \<le> max_steps lim) (vm_prelude env)"
proof -
  have retain: "vm_leads (turn_inv J p lim k ip) (\<lambda>_. turn_inv J p lim k ip) (vm_put retain_loops)"
    by (auto simp: vm_leads_def vm_put_def turn_inv_def vm_inv_def retain_loops_def slots_ok_retain)
  have commit: "vm_leads (\<lambda>st. st = (vs, w)) (\<lambda>_. turn_inv J p lim k ip) (commit_left_regions env i (vs_active_regions vs))"
    if "turn_inv J p lim k ip (vs, w)" for vs :: "'o vm_state" and w i
    using that by (auto intro: vm_leads_pre [OF leads_commit_left])
  have each: "vm_leads (turn_inv J p lim k ip) (\<lambda>_. turn_inv J p lim k ip) (eff_each (begin_region env) rs)" for rs
    by (induction rs; simp only: eff_each.simps; intro vm_leads_return vm_leads_bind [OF leads_begin_region]; assumption)
  have up: "vm_leads (turn_inv J p lim k ip) (\<lambda>_. turn_inv J p lim (count_up k) ip) (vm_put (\<lambda>vs. vs\<lparr>vs_steps := count_up (vs_steps vs)\<rparr>))"
    by (auto simp: vm_leads_def vm_put_def turn_inv_def vm_inv_def)
  have check: "vm_leads (\<lambda>st. st = (vs, w)) (\<lambda>_ st. turn_inv J p lim n ip st \<and> n \<le> max_steps lim)
      (vm_guard (max_steps (vs_limits vs) < vs_steps vs) e (vm_host (ho_check_cancelled (en_host env))))"
    if "turn_inv J p lim n ip (vs, w)" for vs :: "'o vm_state" and w n e
  proof (rule vm_leads_guard)
    assume "\<not> max_steps (vs_limits vs) < vs_steps vs"
    moreover have "J (length (vs_active_regions vs)) (snd (ho_check_cancelled (en_host env) w))"
      using that by (intro J_cancelled) (simp add: turn_inv_def vm_inv_def)
    ultimately show "vm_leads (\<lambda>st. st = (vs, w)) (\<lambda>_ st. turn_inv J p lim n ip st \<and> n \<le> max_steps lim) (vm_host (ho_check_cancelled (en_host env)))"
      using that by (auto simp: vm_leads_def vm_host_def turn_inv_def vm_inv_def split: prod.splits)
  qed
  show ?thesis unfolding vm_prelude_def
  proof (intro vm_leads_bind [OF retain] vm_leads_get, simp only: prod.case, goal_cases)
    case (1 x vs w)
    show ?case
    proof (intro vm_leads_bind [OF commit [OF 1]] vm_leads_get, goal_cases)
      case (1 x vs w)
      then have regions: "vm_leads (\<lambda>st. st = (vs, w)) (\<lambda>_. turn_inv J p lim k ip) (eff_each (begin_region env) rs)" for rs
        by (auto intro: vm_leads_pre [OF each])
      show ?case by (intro vm_leads_bind [OF regions] vm_leads_bind [OF up] vm_leads_get check)
    qed
  qed
qed

lemma keeps_step:
  assumes "instr_ok (length (pg_locals p)) nc i"
  shows "vm_keeps (vm_inv J p lim k) (outcome_ok (length (pg_locals p))) (vm_step env i)"
  unfolding vm_step_def
proof (rule vm_keeps_bind [OF keeps_instruction [OF assms]])
  fix out :: "'o step_outcome"
  assume "outcome_ok (length (pg_locals p)) out"
  moreover have "vm_keeps (vm_inv J p lim k) (\<lambda>_. True) (case out of SoOutput v \<Rightarrow> eff_bind (vm_res (estimated_vm_output_bytes env v)) vm_resize
      | SoYield _ request \<Rightarrow> refresh_memory env (Some request) | SoContinue \<Rightarrow> refresh_memory env None)"
    by (cases out; simp only: step_outcome.case; intro keeps_intros)
  ultimately show "vm_keeps (vm_inv J p lim k) (outcome_ok (length (pg_locals p))) (eff_bind (case out of SoOutput v \<Rightarrow> eff_bind (vm_res (estimated_vm_output_bytes env v)) vm_resize
      | SoYield _ request \<Rightarrow> refresh_memory env (Some request) | SoContinue \<Rightarrow> refresh_memory env None) (\<lambda>_. eff_return out))"
    by (intro vm_keeps_seq vm_keeps_return)
qed

lemma leads_cycle:
  assumes p: "program_ok p" and ip: "ip < length (pg_instructions p)"
  shows "vm_leads (turn_inv J p lim k ip) (turn_done J p lim (count_up k)) (vm_cycle env)"
  unfolding vm_cycle_def
proof (intro vm_leads_bind [OF leads_prelude] vm_leads_get)
  fix vs :: "'o vm_state" and w
  assume t: "turn_inv J p lim (count_up k) ip (vs, w) \<and> count_up k \<le> max_steps lim"
  then have "pg_instructions (vs_program vs) ! vs_ip vs = pg_instructions p ! ip" by (simp add: turn_inv_def vm_inv_def)
  moreover have "vm_leads (vm_inv J p lim (count_up k)) (turn_done J p lim (count_up k))
      (vm_catch (vm_step env (pg_instructions p ! ip)) (\<lambda>e. eff_bind (handle_runtime_step_error env e) (\<lambda>_. eff_return SoContinue)))"
    using t by (intro vm_leads_catch [OF keeps_step [OF program_okD(1) [OF p ip]]] vm_leads_bind [OF leads_runtime_error [OF p]] vm_leads_return)
      (simp_all add: turn_done_def)
  ultimately show "vm_leads (\<lambda>st. st = (vs, w)) (turn_done J p lim (count_up k)) (vm_catch (vm_step env (pg_instructions (vs_program vs) ! vs_ip vs))
      (\<lambda>e. eff_bind (handle_runtime_step_error env e) (\<lambda>_. eff_return SoContinue)))"
    using t by (auto simp: turn_inv_def intro: vm_leads_pre)
qed

text \<open>A run that completes has left its blocks.\<close>

lemma leads_commit_regions:
  "vm_leads (\<lambda>st. vm_inv J p lim k st \<and> vs_active_regions (fst st) = rs) (\<lambda>_ st. J 0 (snd st)) (commit_regions env rs)"
proof (induction rs)
  case Nil
  show ?case by (auto simp: vm_leads_def vm_inv_def)
next
  case (Cons r rs)
  have put: "vm_leads (\<lambda>st. vm_inv J p lim k st \<and> vs_active_regions (fst st) = r # rs)
      (\<lambda>_ st. vm_inv J p lim k (fst st\<lparr>vs_active_regions := r # rs\<rparr>, snd st) \<and> vs_active_regions (fst st) = rs)
      (vm_put (\<lambda>vs. vs\<lparr>vs_active_regions := rs\<rparr>))"
    by (auto simp: vm_leads_def vm_put_def vm_inv_def)
  have host: "vm_leads (\<lambda>st. vm_inv J p lim k (fst st\<lparr>vs_active_regions := r # rs\<rparr>, snd st) \<and> vs_active_regions (fst st) = rs)
      (\<lambda>_ st. vm_inv J p lim k st \<and> vs_active_regions (fst st) = rs) (vm_host (ho_commit_exception_block (en_host env)))"
    by (auto simp: vm_leads_def vm_host_def vm_inv_def intro: J_commit split: prod.splits)
  show ?case unfolding commit_regions.simps
    by (rule vm_leads_bind [OF put], rule vm_leads_bind [OF host], rule Cons.IH)
qed

lemma leads_completed:
  "vm_leads (vm_inv J p lim k) (completed J) (vm_return env out)"
  "vm_leads (vm_inv J p lim k) (completed J) (vm_finish env)"
proof -
  let ?J = "\<lambda>st :: 'o vm_state \<times> 'w pl_world. J 0 (snd st)"
  have commit: "vm_leads (\<lambda>st. st = (vs, w)) (\<lambda>_. ?J) (commit_regions env (vs_active_regions vs))"
    if "vm_inv J p lim k (vs, w)" for vs :: "'o vm_state" and w
    using that by (auto intro: vm_leads_pre [OF leads_commit_regions])
  have attach: "vm_leads ?J (completed J) (attach_output_memory out)" for out :: "'o vm_output"
    by (auto simp: vm_leads_def attach_output_memory_def vm_get_def eff_bind_def completed_def)
  have bytes: "vm_leads ?J (\<lambda>_. ?J) (vm_res r)" for r :: "nat pl_res"
    by (cases r) (auto simp: vm_leads_def vm_res_def)
  have resize: "vm_leads ?J (\<lambda>_. ?J) (vm_resize b)" for b
    by (auto simp: vm_leads_def vm_resize_def J_memory split: prod.splits)
  show "vm_leads (vm_inv J p lim k) (completed J) (vm_return env out)"
    unfolding vm_return_def by (intro vm_leads_get vm_leads_bind [OF commit] attach)
  show "vm_leads (vm_inv J p lim k) (completed J) (vm_finish env)"
    unfolding vm_finish_def
  proof (intro vm_leads_get, goal_cases)
    case (1 vs w)
    show ?case
    proof (intro vm_leads_bind [OF commit [OF 1]] vm_leads_get, goal_cases)
      case (1 x vs1 w1)
      then have J: "st = (vs1, w1) \<Longrightarrow> J 0 (snd st)" for st by simp
      show ?case
        by (rule vm_leads_pre [where I = ?J, OF vm_leads_bind [OF bytes vm_leads_bind [OF resize attach]]]) (erule J)
    qed
  qed
qed

section \<open>Running\<close>

lemma loop_stops:
  assumes p: "program_ok p" and ret: "vm_loop env st = Some y" and inv: "vm_inv J p lim k st"
  shows "stopped J p lim k y"
proof -
  have "\<forall>k. e = env \<longrightarrow> vm_inv J p lim k st \<longrightarrow> stopped J p lim k y" if "vm_loop e st = Some y" for e st y
  proof (rule vm_loop.raw_induct [where P = "\<lambda>e st y. \<forall>k. e = env \<longrightarrow> vm_inv J p lim k st \<longrightarrow> stopped J p lim k y", OF _ that],
      intro allI impI)
    fix loop :: "('w, 'o) pl_env \<Rightarrow> 'o vm_state \<times> 'w pl_world \<Rightarrow> ('w, 'o) vm_stop option" and e st y k
    assume IH: "\<And>e st y. loop e st = Some y \<Longrightarrow> \<forall>k. e = env \<longrightarrow> vm_inv J p lim k st \<longrightarrow> stopped J p lim k y"
      and body: "(if vs_ip (fst st) < length (pg_instructions (vs_program (fst st)))
        then case vm_cycle e st of
               (Inl f, st) \<Rightarrow> Some (Inl f, st)
             | (Inr SoContinue, st) \<Rightarrow> loop e st
             | (Inr (SoYield pending request), st) \<Rightarrow> Some (Inr (RsSql request, Some pending), st)
             | (Inr (SoOutput out), st) \<Rightarrow> Some (vm_return e out st)
        else Some (vm_finish e st)) = Some y"
      and e: "e = env" and I: "vm_inv J p lim k st"
    obtain out st1 where c: "vm_cycle env st = (out, st1)" by (cases "vm_cycle env st")
    show "stopped J p lim k y"
    proof (cases "vs_ip (fst st) < length (pg_instructions (vs_program (fst st)))")
      case True
      with I have turn: "turn_inv J p lim k (vs_ip (fst st)) st" and "vs_ip (fst st) < length (pg_instructions p)"
        by (auto simp: turn_inv_def vm_inv_def split: prod.splits)
      note L = vm_leadsD [OF leads_cycle [OF p this(2)] turn c]
      consider f where "out = Inl f" | "out = Inr SoContinue" | q request where "out = Inr (SoYield q request)"
        | v where "out = Inr (SoOutput v)"
        by (metis sumE step_outcome.exhaust)
      then show ?thesis
      proof cases
        case 1
        with body True c e L(1) show ?thesis by (auto simp: stopped_def)
      next
        case 2
        with body True c e have "loop env st1 = Some y" by simp
        with IH L(2) [OF 2] have "stopped J p lim (count_up k) y" unfolding turn_done_def by blast
        then show ?thesis by (rule stopped_mono) (rule count_up_mono)
      next
        case 3
        with body True c e have "y = (Inr (RsSql request, Some q), st1)" by simp
        then show ?thesis using L(2) [OF 3] by (auto simp: turn_done_def suspended_def stopped_def)
      next
        case 4
        with body True c e have y: "vm_return env v st1 = y" by simp
        from L(2) [OF 4] have "vm_inv J p lim (count_up k) st1" by (simp add: turn_done_def)
        from y have "vm_return env v st1 = (fst y, snd y)" by simp
        from vm_leadsD [OF leads_completed(1) \<open>vm_inv J p lim (count_up k) st1\<close> this] show ?thesis
          unfolding stopped_def by blast
      qed
    next
      case False
      with body e have y: "vm_finish env st = y" by simp
      then have "vm_finish env st = (fst y, snd y)" by simp
      from vm_leadsD [OF leads_completed(2) I this] show ?thesis unfolding stopped_def by blast
    qed
  qed
  with ret inv show ?thesis by blast
qed

lemma loop_returns:
  assumes p: "program_ok p" and lim: "max_steps lim < usize_max" and inv: "vm_inv J p lim k st"
  shows "vm_loop env st \<noteq> None"
  using inv
proof (induction "max_steps lim - k" arbitrary: k st rule: less_induct)
  case less
  obtain out st1 where c: "vm_cycle env st = (out, st1)" by (cases "vm_cycle env st")
  show ?case
  proof (cases "vs_ip (fst st) < length (pg_instructions (vs_program (fst st))) \<and> out = Inr SoContinue")
    case True
    then have turn: "turn_inv J p lim k (vs_ip (fst st)) st" and "vs_ip (fst st) < length (pg_instructions p)"
      using less(2) by (auto simp: turn_inv_def vm_inv_def split: prod.splits)
    from vm_leadsD(2) [OF leads_cycle [OF p this(2)] turn c] True
    have "vm_inv J p lim (count_up k) st1" and "count_up k \<le> max_steps lim" by (auto simp: turn_done_def)
    moreover from this(2) lim have "max_steps lim - count_up k < max_steps lim - k" by (auto simp: count_up_def)
    ultimately have "vm_loop env st1 \<noteq> None" using less(1) by blast
    with True c show ?thesis by (subst vm_loop.simps) simp
  next
    case False
    with c show ?thesis by (subst vm_loop.simps) (auto simp del: not_None_eq split: sum.splits step_outcome.splits)
  qed
qed

lemma leads_resume_start:
  assumes "program_ok p" and "\<And>q. pending = Some q \<Longrightarrow> pending_ok (length (pg_locals p)) q"
  shows "vm_leads (vm_inv J p lim k) (\<lambda>_. vm_inv J p lim k) (resume_start env pending response)"
proof -
  have refresh: "vm_leads (vm_inv J p lim k) (\<lambda>_. vm_inv J p lim k) (refresh_memory env None)"
    by (rule vm_leads_keeps [OF keeps_refresh])
  have "vm_leads (vm_inv J p lim k) (\<lambda>_. vm_inv J p lim k)
      (vm_catch (refresh_memory env None) (\<lambda>e. eff_bind (handle_error env e) (\<lambda>_. refresh_memory env None)))"
    by (intro vm_leads_catch [OF keeps_refresh] vm_leads_bind [OF leads_handle_error [OF assms(1)]] refresh)
  moreover have "vm_leads (vm_inv J p lim k) (\<lambda>_. vm_inv J p lim k) (vm_catch (apply_sql_response env q r) (handle_error env))"
    if "pending = Some q" for q r
    by (intro vm_leads_catch [OF keeps_response [OF assms(2) [OF that]]] leads_handle_error [OF assms(1)])
  ultimately show ?thesis unfolding resume_start_def
    by (cases pending; cases response) (auto intro: vm_leads_bind vm_leads_throw vm_leads_return)
qed

lemma J_drop: "J 0 w \<Longrightarrow> J 0 (drop_state vs w)"
  by (simp add: drop_state_def J_memory)

lemma resume_stops:
  assumes p: "program_ok p" and ok: "machine_ok J p lim k (m, w)" and ret: "resume env response (m, w) = Some y"
  shows "resumed J p lim k y"
proof -
  from ok obtain vs where m: "vm_running m = Some vs" and inv: "vm_inv J p lim k (vs, w)"
    and pend: "\<And>q. vm_pending m = Some q \<Longrightarrow> pending_ok (length (pg_locals p)) q" by (auto simp: machine_ok_def)
  obtain r st where st: "resume_start env (vm_pending m) response (vs, w) = (r, st)"
    by (cases "resume_start env (vm_pending m) response (vs, w)")
  note S = vm_leadsD [OF leads_resume_start [OF p pend] inv st]
  show ?thesis
  proof (cases r)
    case (Inl e)
    with ret m st S(1) show ?thesis by (cases st) (auto simp: resume_def resumed_def)
  next
    case (Inr u)
    with S(2) have I: "vm_inv J p lim k st" by blast
    from ret m st Inr obtain z where z: "vm_loop env st = Some z"
      and y: "y = (case z of (r, vs, w) \<Rightarrow>
          case r of
            Inl e \<Rightarrow> (Inl e, \<lparr>vm_running = None, vm_pending = None\<rparr>, drop_state vs w)
          | Inr (run, Some pending) \<Rightarrow> (Inr run, \<lparr>vm_running = Some vs, vm_pending = Some pending\<rparr>, w)
          | Inr (run, None) \<Rightarrow> (Inr run, \<lparr>vm_running = None, vm_pending = None\<rparr>, w))"
      by (cases st) (auto simp: resume_def Let_def)
    from loop_stops [OF p z I] y show ?thesis
      by (cases z) (auto simp: stopped_def suspended_def completed_def resumed_def machine_ok_def split: sum.splits option.splits)
  qed
qed

lemma resume_returns:
  assumes p: "program_ok p" and lim: "max_steps lim < usize_max" and ok: "machine_ok J p lim k (m, w)"
  shows "resume env response (m, w) \<noteq> None"
proof -
  from ok obtain vs where m: "vm_running m = Some vs" and inv: "vm_inv J p lim k (vs, w)"
    and pend: "\<And>q. vm_pending m = Some q \<Longrightarrow> pending_ok (length (pg_locals p)) q" by (auto simp: machine_ok_def)
  obtain r st where st: "resume_start env (vm_pending m) response (vs, w) = (r, st)"
    by (cases "resume_start env (vm_pending m) response (vs, w)")
  note S = vm_leadsD(2) [OF leads_resume_start [OF p pend] inv st]
  show ?thesis
  proof (cases r)
    case (Inl e)
    with m st show ?thesis by (cases st) (simp add: resume_def)
  next
    case (Inr u)
    with S have "vm_inv J p lim k st" by blast
    from loop_returns [OF p lim this] m st Inr show ?thesis
      by (cases st) (simp add: resume_def Let_def del: not_None_eq)
  qed
qed

lemma machine_ok_sql:
  "machine_ok J p lim k (m, w) \<Longrightarrow> machine_ok J p lim k (m, snd (ho_execute_sql (en_host env) sql ps w))"
  by (auto simp: machine_ok_def vm_inv_def J_execute_sql)

lemma run_stops:
  assumes p: "program_ok p" and ret: "run_machine env response st = Some y" and ok: "machine_ok J p lim k st"
  shows "fst y \<noteq> Inl VmPanic \<and> (\<forall>out. fst y = Inr out \<longrightarrow> J 0 (snd y))"
proof -
  let ?P = "\<lambda>e response st y. \<forall>k. e = env \<longrightarrow> machine_ok J p lim k st \<longrightarrow> fst y \<noteq> Inl VmPanic \<and> (\<forall>out. fst y = Inr out \<longrightarrow> J 0 (snd y))"
  have "?P e response st y" if "run_machine e response st = Some y" for e response st y
  proof (rule run_machine.raw_induct [where P = ?P, OF _ that], intro allI impI)
    fix run e response st y k
    assume IH: "\<And>e response st y. run e response st = Some y \<Longrightarrow> ?P e response st y"
      and body: "(case resume e response st of None \<Rightarrow> None | Some (Inl f, m, w) \<Rightarrow> Some (Inl f, w)
          | Some (Inr (RsComplete out), m, w) \<Rightarrow> Some (Inr out, w)
          | Some (Inr (RsSql request), m, w) \<Rightarrow>
              (case ho_execute_sql (en_host e) (rq_sql request) (rq_parameters request) w of (r, w) \<Rightarrow> run e (Some r) (m, w))) = Some y"
      and e: "e = env" and I: "machine_ok J p lim k st"
    from body obtain z where z: "resume env response st = Some z" using e by (auto split: option.splits)
    with resume_stops [OF p, of lim k "fst st" "snd st" response z] I have R: "resumed J p lim k z" by simp
    obtain r m w where rz: "z = (r, m, w)" by (cases z)
    consider f where "r = Inl f" | out where "r = Inr (RsComplete out)" | request where "r = Inr (RsSql request)"
      by (metis sumE vm_run_state.exhaust)
    then show "fst y \<noteq> Inl VmPanic \<and> (\<forall>out. fst y = Inr out \<longrightarrow> J 0 (snd y))"
    proof cases
      case 3
      with R rz obtain k' where "machine_ok J p lim k' (m, w)" by (auto simp: resumed_def)
      then have "machine_ok J p lim k' (m, snd (ho_execute_sql (en_host env) (rq_sql request) (rq_parameters request) w))"
        by (rule machine_ok_sql)
      moreover from body z rz 3 e have "run e (Some (fst (ho_execute_sql (en_host env) (rq_sql request) (rq_parameters request) w)))
          (m, snd (ho_execute_sql (en_host env) (rq_sql request) (rq_parameters request) w)) = Some y"
        by (simp split: prod.splits)
      ultimately show ?thesis using IH e by blast
    qed (use body z rz e R in \<open>auto simp: resumed_def\<close>)
  qed
  with ret ok show ?thesis by blast
qed

lemma run_returns:
  assumes p: "program_ok p" and lim: "max_steps lim < usize_max" and ok: "machine_ok J p lim k st"
  shows "run_machine env response st \<noteq> None"
  using ok
proof (induction "max_steps lim - k" arbitrary: k st response rule: less_induct)
  case less
  from resume_returns [OF p lim, of k "fst st" "snd st" response] less(2)
  obtain z where z: "resume env response st = Some z" by auto
  with resume_stops [OF p, of lim k "fst st" "snd st" response z] less(2) have R: "resumed J p lim k z" by simp
  obtain r m w where rz: "z = (r, m, w)" by (cases z)
  consider f where "r = Inl f" | out where "r = Inr (RsComplete out)" | request where "r = Inr (RsSql request)"
    by (metis sumE vm_run_state.exhaust)
  then show ?case
  proof cases
    case 3
    with R rz obtain k' where k: "machine_ok J p lim k' (m, w)" "count_up k \<le> k'" "k' \<le> max_steps lim" by (auto simp: resumed_def)
    with lim have "max_steps lim - k' < max_steps lim - k" by (auto simp: count_up_def)
    then have "run_machine env r (m, snd (ho_execute_sql (en_host env) (rq_sql request) (rq_parameters request) w)) \<noteq> None" for r
      by (rule less(1)) (rule machine_ok_sql [OF k(1)])
    with z rz 3 show ?thesis
      by (cases "ho_execute_sql (en_host env) (rq_sql request) (rq_parameters request) w") (subst run_machine.simps, simp del: not_None_eq)
  qed (use z rz in \<open>subst run_machine.simps; simp\<close>)+
qed

lemma initial_machine_ok:
  assumes p: "program_ok p" and J: "J 0 w" and n: "new_with_memory_grant env p arguments lim w = (r, w')"
  shows "r \<noteq> Inl VmPanic \<and> (\<forall>m. r = Inr m \<longrightarrow> machine_ok J p lim 0 (m, w'))"
proof -
  have rec: "J n w \<Longrightarrow> J n (snd (initialize_records (en_host env) slot locals records w))" for n slot locals records w
    by (induction locals arbitrary: slot records w)
      (auto simp: eff_bind_def intro: J_row_type split: local_kind.split prod.split sum.split, (metis J_row_type snd_conv)+)
  have recs: "J 0 (snd (initialize_runtime_records (en_record_bytes env) (en_host env) p limit w))" for limit
    using rec [OF J, of 0 "pg_locals p" bm_empty]
    by (cases "initialize_records (en_host env) 0 (pg_locals p) bm_empty w") (auto simp: initialize_runtime_records_def eff_bind_def split: sum.split)
  have init: "vm_inv J p lim 0 (vm_initial_state p lim arguments records reservation, w)" if "J 0 w" for records reservation w
    using that by (auto simp: vm_inv_def vm_initial_state_def bind_arguments_def)
  obtain r1 w1 where 1: "initialize_runtime_records (en_record_bytes env) (en_host env) p (max_cursor_bytes lim) w = (r1, w1)"
    by (cases "initialize_runtime_records (en_record_bytes env) (en_host env) p (max_cursor_bytes lim) w")
  obtain r2 g where 2: "grant_try_reserve 0 (pw_grant w1) = (r2, g)" by (cases "grant_try_reserve 0 (pw_grant w1)")
  from recs [of "max_cursor_bytes lim"] 1 have "J 0 (w1\<lparr>pw_grant := g\<rparr>)" by (simp add: J_memory)
  note I = init [OF this]
  show ?thesis
  proof (cases "\<exists>records reservation. r1 = Inr records \<and> r2 = Inr reservation")
    case False
    with n 1 2 program_okD(4) [OF p] show ?thesis by (cases r1; cases r2) (auto simp: new_with_memory_grant_def)
  next
    case True
    then obtain records reservation where r: "r1 = Inr records" "r2 = Inr reservation" by blast
    obtain r3 vs w3 where 3: "refresh_memory env None (vm_initial_state p lim arguments records reservation, w1\<lparr>pw_grant := g\<rparr>) = (r3, vs, w3)"
      by (cases "refresh_memory env None (vm_initial_state p lim arguments records reservation, w1\<lparr>pw_grant := g\<rparr>)")
    from vm_keepsD(1,2) [OF keeps_refresh I 3] n 1 2 3 r program_okD(4) [OF p] show ?thesis
      by (cases r3) (auto simp: new_with_memory_grant_def machine_ok_def)
  qed
qed

lemma execute_stops:
  assumes "program_ok p" and "J 0 w" and "execute_with_memory_grant env p arguments lim w = Some y"
  shows "fst y \<noteq> Inl VmPanic \<and> (\<forall>out. fst y = Inr out \<longrightarrow> J 0 (snd y))"
proof -
  obtain r w1 where n: "new_with_memory_grant env p arguments lim w = (r, w1)" by (cases "new_with_memory_grant env p arguments lim w")
  note I = initial_machine_ok [OF assms(1,2) n]
  show ?thesis
  proof (cases r)
    case (Inl e)
    with I n assms(3) show ?thesis by (auto simp: execute_with_memory_grant_def)
  next
    case (Inr m)
    with I run_stops [OF assms(1)] n assms(3) show ?thesis by (auto simp: execute_with_memory_grant_def)
  qed
qed

lemma execute_returns:
  assumes "program_ok p" and "J 0 w" and "max_steps lim < usize_max"
  shows "execute_with_memory_grant env p arguments lim w \<noteq> None"
proof -
  obtain r w1 where n: "new_with_memory_grant env p arguments lim w = (r, w1)" by (cases "new_with_memory_grant env p arguments lim w")
  from initial_machine_ok [OF assms(1,2) n] n run_returns [OF assms(1,3)] show ?thesis
    by (cases r) (auto simp: execute_with_memory_grant_def simp del: not_None_eq)
qed

end

end
