(* ===== verification/PlLoops.thy ===== *)
theory PlLoops
  imports PlDispatch
begin

text \<open>
  The two instructions of the integer FOR loop against the arithmetic progression that the loop
  is to visit, for bodies that leave its iterator alone, and the choice of the handler that takes
  an error.
\<close>

section \<open>Integer FOR loops\<close>

definition for_range_err :: pl_error where
  "for_range_err = pl_err ''22003'' ''PL/pgSQL integer FOR value is out of range''"

definition by_value_err :: pl_error where
  "by_value_err = pl_err ''22023'' ''BY value of PL/pgSQL integer FOR loop must be greater than zero''"

text \<open>
  What the body of a loop, with the end of the turn before it and everything it calls, leaves
  alone: the iterator of the loop, which is found under the address of its start instruction. A body
  that catches an error does not: \<open>caught_error_ends_loops\<close>.
\<close>

definition keeps_loop :: "nat \<Rightarrow> 'o vm_state \<times> 'w pl_world \<Rightarrow> 'o vm_state \<times> 'w pl_world \<Rightarrow> bool" where
  "keeps_loop start st st' \<longleftrightarrow>
     bm_get (vs_integer_loops (fst st')) start = bm_get (vs_integer_loops (fst st)) start \<and>
     length (vs_locals (fst st')) = length (vs_locals (fst st)) \<and> vs_program (fst st') = vs_program (fst st)"

text \<open>
  Turns of a loop after its start, with the values that the variable is given: a turn is any body
  that keeps the iterator and then the instruction \<open>IntegerForNext\<close>, which goes on with the body.
\<close>

inductive for_turns ::
  "nat \<Rightarrow> nat \<Rightarrow> nat \<Rightarrow> 'o pl_value list \<Rightarrow> 'o vm_state \<times> 'w pl_world \<Rightarrow> 'o vm_state \<times> 'w pl_world \<Rightarrow> bool" for start body slot where
  turns_none: "for_turns start body slot [] st st"
| turns_next: "for_turns start body slot vals st st1 \<Longrightarrow> keeps_loop start st1 st2 \<Longrightarrow>
    step_integer_for_next start body st2 = (Inr SoContinue, st3) \<Longrightarrow> bm_get (vs_integer_loops (fst st3)) start \<noteq> None \<Longrightarrow>
    for_turns start body slot (vals @ [vs_locals (fst st3) ! slot]) st st3"

text \<open>The iterator after \<open>k\<close> turns, in a program with room for the variable and the body.\<close>

definition for_state :: "nat \<Rightarrow> nat \<Rightarrow> integer_loop_state \<Rightarrow> nat \<Rightarrow> 'o vm_state \<times> 'w pl_world \<Rightarrow> bool" where
  "for_state start body l k st \<longleftrightarrow>
     bm_get (vs_integer_loops (fst st)) start =
       Some (l\<lparr>il_current := il_current l + int k * (if il_reverse l then - il_step l else il_step l)\<rparr>) \<and>
     il_slot l < length (vs_locals (fst st)) \<and> body \<le> length (pg_instructions (vs_program (fst st)))"

lemma for_state_keeps: "for_state start body l k st \<Longrightarrow> keeps_loop start st st' \<Longrightarrow> for_state start body l k st'"
  by (simp add: for_state_def keeps_loop_def)

lemma div_bounds: "0 < (s::int) \<Longrightarrow> m div s * s \<le> m \<and> m < (m div s + 1) * s"
  using div_mult_mod_eq [of m s] pos_mod_bound [of s m] pos_mod_sign [of s m] distrib_right [of "m div s" 1 s] by linarith

text \<open>A value is within the bound exactly for the first \<open>n\<close> steps, and those are 64-bit integers.\<close>

lemma within_bound:
  fixes l :: integer_loop_state
  assumes "0 < il_step l" and "in_i64 (il_current l)" and "in_i64 (il_bound l)"
    and range: "if il_reverse l then il_bound l \<le> il_current l else il_current l \<le> il_bound l"
    and d: "d = (if il_reverse l then - il_step l else il_step l)"
    and n: "n = nat (\<bar>il_bound l - il_current l\<bar> div il_step l)"
  shows "(if il_reverse l then il_bound l \<le> il_current l + int k * d else il_current l + int k * d \<le> il_bound l) \<longleftrightarrow> k \<le> n"
    and "k \<le> n \<Longrightarrow> in_i64 (il_current l + int k * d)"
proof -
  let ?m = "if il_reverse l then il_current l - il_bound l else il_bound l - il_current l"
  have m: "?m = \<bar>il_bound l - il_current l\<bar>" "0 \<le> ?m" using range by (auto split: if_splits)
  then have "int n = ?m div il_step l" using assms(1) n by (simp add: pos_imp_zdiv_nonneg_iff)
  then have le: "int n * il_step l \<le> ?m" "?m < (int n + 1) * il_step l" using div_bounds [OF assms(1), of ?m] by simp_all
  have iff: "int k * il_step l \<le> ?m \<longleftrightarrow> k \<le> n"
  proof
    assume "int k * il_step l \<le> ?m"
    with le(2) have "int k * il_step l < (int n + 1) * il_step l" by linarith
    with assms(1) show "k \<le> n" by (simp add: mult_less_cancel_right)
  next
    assume "k \<le> n"
    then have "int k * il_step l \<le> int n * il_step l" using assms(1) by (simp add: mult_right_mono)
    with le(1) show "int k * il_step l \<le> ?m" by linarith
  qed
  then show w: "(if il_reverse l then il_bound l \<le> il_current l + int k * d else il_current l + int k * d \<le> il_bound l) \<longleftrightarrow> k \<le> n"
    by (auto simp: d)
  have "0 \<le> int k * il_step l" using assms(1) by simp
  with w assms(2,3) show "in_i64 (il_current l + int k * d)" if "k \<le> n" using that by (auto simp: in_i64_def d split: if_splits)
qed

text \<open>One \<open>IntegerForNext\<close>.\<close>

lemma next_turn:
  fixes l :: integer_loop_state
  assumes pos: "0 < il_step l" and "in_i64 (il_current l)" and "in_i64 (il_bound l)"
    and range: "if il_reverse l then il_bound l \<le> il_current l else il_current l \<le> il_bound l"
    and d: "d = (if il_reverse l then - il_step l else il_step l)"
    and n: "n = nat (\<bar>il_bound l - il_current l\<bar> div il_step l)"
    and st: "for_state start body l k (vs, w)" and k: "k \<le> n"
  shows "k < n \<Longrightarrow> \<exists>vs'. step_integer_for_next start body (vs, w) = (Inr SoContinue, (vs', w)) \<and> for_state start body l (Suc k) (vs', w) \<and>
      vs_locals vs' = (vs_locals vs)[il_slot l := PvInt64 (word_of_int (il_current l + int (Suc k) * d))] \<and> vs_ip vs' = body"
    and "k = n \<Longrightarrow> in_i64 (il_current l + int (Suc k) * d) \<Longrightarrow> \<exists>vs'. step_integer_for_next start body (vs, w) = (Inr SoContinue, (vs', w)) \<and>
      bm_get (vs_integer_loops vs') start = None \<and> vs_locals vs' = vs_locals vs \<and> vs_ip vs' = vs_ip vs + 1"
    and "k = n \<Longrightarrow> \<not> in_i64 (il_current l + int (Suc k) * d) \<Longrightarrow> step_integer_for_next start body (vs, w) = (Inl (VmErr for_range_err), (vs, w))"
proof -
  let ?l = "l\<lparr>il_current := il_current l + int k * d\<rparr>"
  define v where "v = il_current l + int (Suc k) * d"
  have fs: "for_state start body l j st' \<longleftrightarrow> bm_get (vs_integer_loops (fst st')) start = Some (l\<lparr>il_current := il_current l + int j * d\<rparr>) \<and>
      il_slot l < length (vs_locals (fst st')) \<and> body \<le> length (pg_instructions (vs_program (fst st')))"
    for j and st' :: "'a vm_state \<times> 'b pl_world"
    by (simp add: for_state_def d)
  have get: "bm_get (vs_integer_loops vs) start = Some ?l" and slot: "il_slot l < length (vs_locals vs)"
    and body: "body \<le> length (pg_instructions (vs_program vs))"
    using st by (simp_all add: fs)
  have next_v: "(if il_reverse ?l then il_current ?l - il_step ?l else il_current ?l + il_step ?l) = v"
    by (simp add: d v_def algebra_simps)
  note W = within_bound [OF assms(1-6), of "Suc k", folded v_def]
  have adv: "(integer_loop_advance ?l :: ('a pl_value option \<times> integer_loop_state) pl_res) =
      (if in_i64 v then if Suc k \<le> n then Inr (Some (PvInt64 (word_of_int v)), l\<lparr>il_current := v\<rparr>) else Inr (None, ?l) else Inl for_range_err)"
    using W(1) unfolding integer_loop_advance_def next_v by (auto simp: checked_i64_def ok_or_def for_range_err_def)
  note eval = step_integer_for_next_def eff_bind_def vm_get_def vm_put_def vm_res_def get adv
  show "\<exists>vs'. step_integer_for_next start body (vs, w) = (Inr SoContinue, (vs', w)) \<and> for_state start body l (Suc k) (vs', w) \<and>
      vs_locals vs' = (vs_locals vs)[il_slot l := PvInt64 (word_of_int (il_current l + int (Suc k) * d))] \<and> vs_ip vs' = body" if "k < n"
    unfolding fs v_def [symmetric] using that W(2) slot body
    by (simp add: eval vm_set_local_def eff_guard_def vm_goto_def vm_target_def checked_target_def guard_res_def)
  show "\<exists>vs'. step_integer_for_next start body (vs, w) = (Inr SoContinue, (vs', w)) \<and>
      bm_get (vs_integer_loops vs') start = None \<and> vs_locals vs' = vs_locals vs \<and> vs_ip vs' = vs_ip vs + 1"
    if "k = n" "in_i64 (il_current l + int (Suc k) * d)"
    using that(1) [symmetric] that(2) unfolding v_def [symmetric] by (simp add: eval vm_continue_def vm_next_def)
  show "step_integer_for_next start body (vs, w) = (Inl (VmErr for_range_err), (vs, w))"
    if "k = n" "\<not> in_i64 (il_current l + int (Suc k) * d)"
    using that(1) [symmetric] that(2) unfolding v_def [symmetric] by (simp add: eval)
qed

text \<open>The turns up to a state.\<close>

lemma turns_values:
  fixes l :: integer_loop_state
  assumes "for_turns start body (il_slot l) vals st0 st" and "for_state start body l 0 st0"
    and l: "0 < il_step l" "in_i64 (il_current l)" "in_i64 (il_bound l)"
      "if il_reverse l then il_bound l \<le> il_current l else il_current l \<le> il_bound l"
    and d: "d = (if il_reverse l then - il_step l else il_step l)"
    and n: "n = nat (\<bar>il_bound l - il_current l\<bar> div il_step l)"
  shows "length vals \<le> n \<and> for_state start body l (length vals) st \<and>
    vals = map (\<lambda>k. PvInt64 (word_of_int (il_current l + int k * d))) [1..<Suc (length vals)]"
  using assms(1,2)
proof induction
  case (turns_next vals st0 st1 st2 st3)
  then have IH: "length vals \<le> n" "for_state start body l (length vals) st1"
    "vals = map (\<lambda>k. PvInt64 (word_of_int (il_current l + int k * d))) [1..<Suc (length vals)]" by simp_all
  obtain vs w where st2: "st2 = (vs, w)" by (cases st2)
  from for_state_keeps [OF IH(2) turns_next.hyps(2)] have s2: "for_state start body l (length vals) (vs, w)" by (simp add: st2)
  note N = next_turn [OF l d n s2 IH(1)]
  show ?case
  proof (cases "length vals < n")
    case True
    from N(1) [OF True] turns_next.hyps(3) obtain vs' where vs': "st3 = (vs', w)" "for_state start body l (Suc (length vals)) (vs', w)"
      "vs_locals vs' = (vs_locals vs)[il_slot l := PvInt64 (word_of_int (il_current l + int (Suc (length vals)) * d))]"
      by (auto simp: st2)
    have "il_slot l < length (vs_locals vs)" using s2 by (simp add: for_state_def)
    then have "vs_locals (fst st3) ! il_slot l = PvInt64 (word_of_int (il_current l + int (Suc (length vals)) * d))" by (simp add: vs')
    moreover have "map f [1..<Suc (length (vals @ [x]))] = map f [1..<Suc (length vals)] @ [f (Suc (length vals))]" for f :: "nat \<Rightarrow> 'a pl_value" and x
      by simp
    ultimately show ?thesis using True vs'(1,2) by (simp only: IH(3) [symmetric]) simp
  next
    case False
    with IH(1) have "length vals = n" by simp
    with N(2,3) turns_next.hyps(3,4) have False
      by (cases "in_i64 (il_current l + int (Suc (length vals)) * d)") (auto simp: st2)
    then show ?thesis ..
  qed
qed simp

lemma start_loop:
  assumes "evaluate_integer_expression env lower ''lower bound'' st = (Inr a, st1)"
    and "evaluate_integer_expression env upper ''upper bound'' st1 = (Inr b, st2)"
    and "evaluate_integer_expression env step ''BY value'' st2 = (Inr s, (vs, w))"
    and "slot < length (vs_locals vs)" and "exit \<le> length (pg_instructions (vs_program vs))"
  shows "step_integer_for_start env slot lower upper step reverse exit st =
    (if s \<le> 0 then (Inl (VmErr by_value_err), (vs, w))
     else if reverse \<and> b \<le> a \<or> \<not> reverse \<and> a \<le> b
     then (Inr SoContinue, (vs\<lparr>vs_locals := (vs_locals vs)[slot := PvInt64 (word_of_int a)],
       vs_integer_loops := bm_insert (vs_ip vs)
         \<lparr>il_slot = slot, il_current = a, il_bound = b, il_step = s, il_reverse = reverse, il_end = exit\<rparr> (vs_integer_loops vs),
       vs_ip := vs_ip vs + 1\<rparr>, w))
     else (Inr SoContinue, (vs\<lparr>vs_ip := exit\<rparr>, w)))"
  using assms
  by (simp add: step_integer_for_start_def eff_bind_def [of "evaluate_integer_expression env e c" for e c] vm_guard_def eff_guard_def
      by_value_err_def)
    (simp add: eff_bind_def vm_set_local_def vm_get_def vm_put_def vm_res_def vm_target_def vm_goto_def checked_target_def
      guard_res_def eff_guard_def vm_continue_def vm_next_def)

lemma evaluated_range:
  assumes "evaluate_integer_expression env e context st = (Inr i, st')"
  shows "in_i64 i"
  using assms
  by (auto simp: evaluate_integer_expression_def vm_eval_integer_def vm_res_def res_simps vm_lift_def map_sum_def
      elim!: eff_bind_Ok split: sum.splits dest: int_of_value_range)

text \<open>
  What \<open>IntegerForNext\<close> does in the state \<open>st\<close> after \<open>k\<close> turns of a loop over \<open>a\<close>, \<open>a + d\<close>, \<open>...\<close>,
  \<open>a + n d\<close>: it assigns the next member and goes to the body, or it forgets the iterator and goes on
  behind the loop, or it fails because the value behind the last one is no 64-bit integer.
\<close>

definition next_of_progression :: "nat \<Rightarrow> nat \<Rightarrow> nat \<Rightarrow> int \<Rightarrow> int \<Rightarrow> nat \<Rightarrow> nat \<Rightarrow> 'o vm_state \<times> 'w pl_world \<Rightarrow> bool" where
  "next_of_progression start body slot a d n k st \<longleftrightarrow>
     (if k < n
      then \<exists>vs'. step_integer_for_next start body st = (Inr SoContinue, (vs', snd st)) \<and> vs_ip vs' = body \<and>
        vs_locals vs' = (vs_locals (fst st))[slot := PvInt64 (word_of_int (a + int (Suc k) * d))] \<and>
        bm_get (vs_integer_loops vs') start \<noteq> None
      else if in_i64 (a + int (Suc n) * d)
      then \<exists>vs'. step_integer_for_next start body st = (Inr SoContinue, (vs', snd st)) \<and> vs_ip vs' = vs_ip (fst st) + 1 \<and>
        vs_locals vs' = vs_locals (fst st) \<and> bm_get (vs_integer_loops vs') start = None
      else step_integer_for_next start body st = (Inl (VmErr for_range_err), st))"

lemma progression_turns:
  fixes l :: integer_loop_state
  assumes l: "0 < il_step l" "in_i64 (il_current l)" "in_i64 (il_bound l)"
      "if il_reverse l then il_bound l \<le> il_current l else il_current l \<le> il_bound l"
    and d: "d = (if il_reverse l then - il_step l else il_step l)"
    and n: "n = nat (\<bar>il_bound l - il_current l\<bar> div il_step l)"
    and "for_state start body l 0 st0" and "for_turns start body (il_slot l) vals st0 st"
  shows "length vals \<le> n \<and> vals = map (\<lambda>k. PvInt64 (word_of_int (il_current l + int k * d))) [1..<Suc (length vals)] \<and>
    (\<forall>k \<le> length vals. in_i64 (il_current l + int k * d)) \<and>
    (\<forall>st'. keeps_loop start st st' \<longrightarrow> next_of_progression start body (il_slot l) (il_current l) d n (length vals) st')"
proof -
  note T = turns_values [OF assms(8,7) l d n]
  have "next_of_progression start body (il_slot l) (il_current l) d n (length vals) st'" if "keeps_loop start st st'" for st'
  proof -
    obtain vs w where st': "st' = (vs, w)" by (cases st')
    have fs: "for_state start body l (length vals) (vs, w)" using for_state_keeps T that st' by blast
    note N = next_turn [OF l d n fs]
    consider "length vals < n" | "length vals = n" using T by linarith
    then show ?thesis
    proof cases
      case 1
      with N(1) show ?thesis by (auto simp: next_of_progression_def st' for_state_def simp del: of_nat_Suc)
    next
      case 2
      with N(2,3) show ?thesis by (auto simp: next_of_progression_def st' simp del: of_nat_Suc)
    qed
  qed
  with T within_bound(2) [OF l d n] show ?thesis by simp
qed

text \<open>
  C12. The instructions of an integer FOR loop, from the evaluation of its three expressions on. A
  BY value that is not positive is the error 22023, and an empty range jumps behind the loop with
  the variable untouched. Otherwise \<open>IntegerForStart\<close> assigns the first bound to the variable, and for
  every body that leaves the iterator of the loop alone (\<open>keeps_loop\<close>), the turns that follow assign the
  next members of the arithmetic progression towards the other bound, each once and in order, none
  wrapped around: there are at most \<open>n\<close> turns, after fewer than \<open>n\<close> of them \<open>IntegerForNext\<close> takes one
  more and goes to the body, and after \<open>n\<close> it removes the iterator and goes on behind the loop, except
  that it fails with 22003 when the value behind the last one is no 64-bit integer. A body that
  catches an error clears the iterators and is not covered (\<open>caught_error_ends_loops\<close>).
\<close>

theorem integer_for_visits_progression:
  assumes "evaluate_integer_expression env lower ''lower bound'' st = (Inr a, st1)"
    and "evaluate_integer_expression env upper ''upper bound'' st1 = (Inr b, st2)"
    and "evaluate_integer_expression env step ''BY value'' st2 = (Inr s, (vs, w))"
    and "slot < length (vs_locals vs)" and "exit \<le> length (pg_instructions (vs_program vs))"
    and "body \<le> length (pg_instructions (vs_program vs))"
    and "d = (if reverse then - s else s)" and "n = nat (\<bar>b - a\<bar> div s)"
  shows "if s \<le> 0 then step_integer_for_start env slot lower upper step reverse exit st = (Inl (VmErr by_value_err), (vs, w))
    else if \<not> (if reverse then b \<le> a else a \<le> b)
    then step_integer_for_start env slot lower upper step reverse exit st = (Inr SoContinue, (vs\<lparr>vs_ip := exit\<rparr>, w))
    else \<exists>vs1. step_integer_for_start env slot lower upper step reverse exit st = (Inr SoContinue, (vs1, w)) \<and>
      vs_locals vs1 = (vs_locals vs)[slot := PvInt64 (word_of_int a)] \<and> vs_ip vs1 = vs_ip vs + 1 \<and>
      (\<forall>vals st3. for_turns (vs_ip vs) body slot vals (vs1, w) st3 \<longrightarrow>
        length vals \<le> n \<and> vals = map (\<lambda>k. PvInt64 (word_of_int (a + int k * d))) [1..<Suc (length vals)] \<and>
        (\<forall>k \<le> length vals. in_i64 (a + int k * d)) \<and>
        (\<forall>st4. keeps_loop (vs_ip vs) st3 st4 \<longrightarrow> next_of_progression (vs_ip vs) body slot a d n (length vals) st4))"
proof (cases "0 < s \<and> (if reverse then b \<le> a else a \<le> b)")
  case False
  with start_loop [OF assms(1-5), of reverse] show ?thesis by auto
next
  case True
  let ?l = "\<lparr>il_slot = slot, il_current = a, il_bound = b, il_step = s, il_reverse = reverse, il_end = exit\<rparr>"
  let ?vs1 = "vs\<lparr>vs_locals := (vs_locals vs)[slot := PvInt64 (word_of_int a)],
       vs_integer_loops := bm_insert (vs_ip vs) ?l (vs_integer_loops vs), vs_ip := vs_ip vs + 1\<rparr>"
  have "step_integer_for_start env slot lower upper step reverse exit st = (Inr SoContinue, (?vs1, w))"
    using start_loop [OF assms(1-5), of reverse] True by (auto split: if_splits)
  moreover have "for_state (vs_ip vs) body ?l 0 (?vs1, w)" using assms(4,6) by (simp add: for_state_def)
  note progression_turns [where l = ?l, simplified integer_loop_state.simps, OF _ evaluated_range [OF assms(1)]
    evaluated_range [OF assms(2)] _ assms(7,8) this]
  ultimately show ?thesis using True by (auto intro!: exI [of _ ?vs1])
qed

section \<open>The choice of a handler\<close>

lemma fold_max:
  assumes trans: "\<And>x y z. le x y \<Longrightarrow> le y z \<Longrightarrow> le x z" and total: "\<And>x y. le x y \<or> le y x"
  shows "\<exists>m. fold (\<lambda>c best. case best of None \<Rightarrow> Some c | Some b \<Rightarrow> if le b c then Some c else best) xs (Some b) = Some m \<and>
    m \<in> set (b # xs) \<and> (\<forall>x \<in> set (b # xs). le x m)"
proof (induction xs arbitrary: b)
  case Nil
  show ?case using total [of b b] by simp
next
  case (Cons c xs)
  let ?b = "if le b c then c else b"
  from Cons.IH [of ?b] obtain m where m: "fold (\<lambda>c best. case best of None \<Rightarrow> Some c | Some b \<Rightarrow> if le b c then Some c else best) xs (Some ?b) = Some m"
    and in_m: "m \<in> set (?b # xs)" and max: "\<forall>x \<in> set (?b # xs). le x m" by blast
  have "le b ?b" "le c ?b" using total [of b b] total [of c c] total [of b c] by auto
  with max trans have "\<forall>x \<in> set (b # c # xs). le x m" by (metis list.set_intros(1,2) set_ConsD)
  moreover have "m \<in> set (b # c # xs)" using in_m by (auto split: if_splits)
  ultimately show ?case using m by (intro exI [of _ m]) (simp split: if_splits)
qed

lemma handler_key_total: "handler_key_le x y \<or> handler_key_le y x"
  by (cases x; cases y) (auto simp: handler_key_le_def)

lemma handler_key_trans: "handler_key_le x y \<Longrightarrow> handler_key_le y z \<Longrightarrow> handler_key_le x z"
  by (cases x; cases y; cases z) (auto simp: handler_key_le_def)

lemma select_handler_in:
  assumes "select_handler p ip e = Some h"
  shows "h \<in> set (pg_handlers p)"
proof -
  have fold_in: "fold (\<lambda>c best. case best of None \<Rightarrow> Some c | Some b \<Rightarrow> if handler_key_le b c then Some c else best) xs best = Some m \<Longrightarrow>
      m \<in> set xs \<or> best = Some m" for xs m best
    by (induction xs arbitrary: best) (fastforce split: option.splits if_splits)+
  from assms obtain i where "(i, h) \<in> set (List.enumerate 0 (pg_handlers p))"
    using fold_in [where best = None] by (fastforce simp: select_handler_def)
  then show ?thesis by (auto simp: in_set_enumerate_eq)
qed

text \<open>
  C11. The handler that takes an error is one whose block protects the instruction and whose
  condition matches; among those it belongs to the innermost block, and in the block it is the
  first one written. There is no handler for an error only when none matches.
\<close>

theorem innermost_handler_selected:
  assumes "\<forall>h \<in> set (pg_handlers p). eh_protected_end h \<le> usize_max" and "length (pg_handlers p) \<le> usize_max"
  shows "case select_handler p ip e of
      None \<Rightarrow> \<forall>h \<in> set (pg_handlers p). \<not> handler_matches ip e h
    | Some h \<Rightarrow> \<exists>i < length (pg_handlers p). pg_handlers p ! i = h \<and> handler_matches ip e h \<and>
        (\<forall>j < length (pg_handlers p). handler_matches ip e (pg_handlers p ! j) \<longrightarrow>
           eh_protected_start (pg_handlers p ! j) < eh_protected_start h \<or>
           eh_protected_start (pg_handlers p ! j) = eh_protected_start h \<and>
             (eh_protected_end h < eh_protected_end (pg_handlers p ! j) \<or> eh_protected_end h = eh_protected_end (pg_handlers p ! j) \<and> i \<le> j))"
proof (cases "filter (\<lambda>(_, h). handler_matches ip e h) (List.enumerate 0 (pg_handlers p))")
  case Nil
  then have "\<forall>x \<in> set (List.enumerate 0 (pg_handlers p)). \<not> handler_matches ip e (snd x)" by (auto simp: filter_empty_conv)
  then have "\<forall>h \<in> snd ` set (List.enumerate 0 (pg_handlers p)). \<not> handler_matches ip e h" by blast
  then have "\<forall>h \<in> set (pg_handlers p). \<not> handler_matches ip e h" unfolding set_map [symmetric] by simp
  with Nil show ?thesis by (simp add: select_handler_def)
next
  case (Cons b xs)
  have "\<exists>m. fold (\<lambda>c best. case best of None \<Rightarrow> Some c | Some b \<Rightarrow> if handler_key_le b c then Some c else best) xs (Some b) = Some m \<and>
      m \<in> set (b # xs) \<and> (\<forall>x \<in> set (b # xs). handler_key_le x m)"
    by (rule fold_max) (fact handler_key_trans, fact handler_key_total)
  then obtain i h where m: "select_handler p ip e = Some h" and sel: "(i, h) \<in> set (b # xs)" and max: "\<forall>x \<in> set (b # xs). handler_key_le x (i, h)"
    using Cons by (auto simp: select_handler_def)
  have mem: "(j, g) \<in> set (b # xs) \<longleftrightarrow> j < length (pg_handlers p) \<and> g = pg_handlers p ! j \<and> handler_matches ip e g" for j g
    unfolding Cons [symmetric] by (auto simp: in_set_enumerate_eq)
  have "eh_protected_start (pg_handlers p ! j) < eh_protected_start h \<or>
      eh_protected_start (pg_handlers p ! j) = eh_protected_start h \<and>
        (eh_protected_end h < eh_protected_end (pg_handlers p ! j) \<or> eh_protected_end h = eh_protected_end (pg_handlers p ! j) \<and> i \<le> j)"
    if j: "j < length (pg_handlers p)" and "handler_matches ip e (pg_handlers p ! j)" for j
  proof -
    from that max mem have "handler_key_le (j, pg_handlers p ! j) (i, h)" by blast
    moreover from sel mem have "i < length (pg_handlers p)" "h = pg_handlers p ! i" by blast+
    moreover from assms(1) j this have "eh_protected_end (pg_handlers p ! j) \<le> usize_max" "eh_protected_end h \<le> usize_max" by auto
    ultimately show ?thesis using assms(2) j by (auto simp: handler_key_le_def)
  qed
  with m sel mem show ?thesis by auto
qed

definition nested_handlers :: program where
  "nested_handlers = \<lparr>pg_version = 3, pg_instructions = [], pg_locals = [], pg_cursors = [],
     pg_handlers = [\<lparr>eh_protected_start = 0, eh_protected_end = 6, eh_matcher = EmOthers, eh_target = 7\<rparr>,
       \<lparr>eh_protected_start = 2, eh_protected_end = 4, eh_matcher = EmOthers, eh_target = 9\<rparr>],
     pg_sqlstate_slot = None, pg_sqlerrm_slot = None\<rparr>"

lemma innermost_handler_selected_witness:
  "\<exists>h. select_handler nested_handlers 3 (pl_err ''22012'' []) = Some h \<and> eh_target h = 9 \<and> handler_matches 3 (pl_err ''22012'' []) h \<and>
     (\<exists>i < 2. pg_handlers nested_handlers ! i = h)"
proof -
  obtain h where h: "select_handler nested_handlers 3 (pl_err ''22012'' []) = Some h" and t: "eh_target h = 9"
    by (simp add: select_handler_def nested_handlers_def handler_matches_def handler_key_le_def pl_err_def)
  have "\<forall>h \<in> set (pg_handlers nested_handlers). eh_protected_end h \<le> usize_max" "length (pg_handlers nested_handlers) = 2"
    by (simp_all add: nested_handlers_def usize_max_def)
  with innermost_handler_selected [of nested_handlers 3 "pl_err ''22012'' []"] h t show ?thesis by (auto simp: usize_max_def)
qed

end
