(* ===== verification/PlRoutine.thy ===== *)
theory PlRoutine
  imports PlVmRuns PlLoops
begin

text \<open>
  Routines from their source to their result: what the compiler and the virtual machine promise
  together, for every host, and for a host whose exception blocks nest.
\<close>

section \<open>Hosts\<close>

text \<open>
  The savepoints of a host nest: beginning a block opens one more, committing or rolling back an
  open one closes it, and nothing else opens or closes any.
\<close>

definition counts_blocks :: "('w, 'o) pl_host \<Rightarrow> ('w \<Rightarrow> nat) \<Rightarrow> bool" where
  "counts_blocks host depth \<longleftrightarrow>
     (\<forall>w e ps slot field v notice relation.
        depth (pw_host (snd (ho_evaluate_expression host e ps w))) = depth (pw_host w) \<and>
        depth (pw_host (snd (ho_execute_sql host e ps w))) = depth (pw_host w) \<and>
        depth (pw_host (snd (ho_assign_composite_field host slot field v w))) = depth (pw_host w) \<and>
        depth (pw_host (snd (ho_emit_notice host notice w))) = depth (pw_host w) \<and>
        depth (pw_host (snd (ho_resolve_row_type host relation w))) = depth (pw_host w) \<and>
        depth (pw_host (snd (ho_check_cancelled host w))) = depth (pw_host w)) \<and>
     (\<forall>w w'. (ho_begin_exception_block host w = (Inr (), w') \<longrightarrow> depth (pw_host w') = depth (pw_host w) + 1) \<and>
        (0 < depth (pw_host w) \<longrightarrow>
          (ho_commit_exception_block host w = (Inr (), w') \<longrightarrow> depth (pw_host w') = depth (pw_host w) - 1) \<and>
          (ho_rollback_exception_block host w = (Inr (), w') \<longrightarrow> depth (pw_host w') = depth (pw_host w) - 1)))"

lemma counts_rollback:
  assumes "counts_blocks host depth" and "ho_rollback_exception_block host w = (Inr u, w')" and "depth (pw_host w) = n + 1"
  shows "depth (pw_host w') = n"
proof -
  have "0 < depth (pw_host w) \<longrightarrow> ho_rollback_exception_block host w = (Inr (), w') \<longrightarrow> depth (pw_host w') = depth (pw_host w) - 1"
    using assms(1) unfolding counts_blocks_def by blast
  with assms(2,3) show ?thesis by simp
qed

lemma block_host_counts:
  assumes "counts_blocks (en_host env) depth"
  shows "block_host env (\<lambda>n w. depth (pw_host w) = d + n)"
proof -
  note laws = assms [unfolded counts_blocks_def]
  have same: "depth (pw_host (snd (ho_evaluate_expression (en_host env) e ps w))) = depth (pw_host w)"
    "depth (pw_host (snd (ho_execute_sql (en_host env) e ps w))) = depth (pw_host w)"
    "depth (pw_host (snd (ho_assign_composite_field (en_host env) slot field v w))) = depth (pw_host w)"
    "depth (pw_host (snd (ho_emit_notice (en_host env) notice w))) = depth (pw_host w)"
    "depth (pw_host (snd (ho_resolve_row_type (en_host env) relation w))) = depth (pw_host w)"
    "depth (pw_host (snd (ho_check_cancelled (en_host env) w))) = depth (pw_host w)" for e ps slot field v notice relation w
    using laws by blast+
  have blocks: "ho_begin_exception_block (en_host env) w = (Inr (), w') \<Longrightarrow> depth (pw_host w') = depth (pw_host w) + 1"
    "0 < depth (pw_host w) \<Longrightarrow> ho_commit_exception_block (en_host env) w = (Inr (), w') \<Longrightarrow> depth (pw_host w') = depth (pw_host w) - 1"
    "0 < depth (pw_host w) \<Longrightarrow> ho_rollback_exception_block (en_host env) w = (Inr (), w') \<Longrightarrow> depth (pw_host w') = depth (pw_host w) - 1" for w w'
    using laws by blast+
  show ?thesis
  proof (unfold_locales, goal_cases)
    case (7 n w w')
    then show ?case using blocks(1) [of w w'] by simp
  next
    case (8 n w w')
    then show ?case using blocks(2) [of w w'] by simp
  next
    case (9 n w w')
    then show ?case using blocks(3) [of w w'] by simp
  qed (simp_all add: same)
qed

interpretation any_host: block_host env "\<lambda>_ _. True" for env :: "('w, 'o) pl_env"
  by unfold_locales

text \<open>A host that only counts its blocks, with numbers, texts and \<open>true\<close> as its expressions.\<close>

definition counting_host :: "(nat, unit) pl_host" where
  "counting_host = \<lparr>ho_execute_sql = (\<lambda>sql ps. eff_return []),
     ho_evaluate_expression = (\<lambda>e ps. eff_return (case parse_usize e of Some n \<Rightarrow> PvInt64 (of_nat n)
       | None \<Rightarrow> if e = ''true'' then PvBoolean True else PvText e)),
     ho_assign_composite_field = (\<lambda>_ _ _. eff_return ()),
     ho_begin_exception_block = eff_put (\<lambda>w. w\<lparr>pw_host := pw_host w + 1\<rparr>),
     ho_commit_exception_block = eff_put (\<lambda>w. w\<lparr>pw_host := pw_host w - 1\<rparr>),
     ho_rollback_exception_block = eff_put (\<lambda>w. w\<lparr>pw_host := pw_host w - 1\<rparr>),
     ho_emit_notice = (\<lambda>_. eff_return ()), ho_resolve_row_type = (\<lambda>_. eff_return []), ho_check_cancelled = eff_return ()\<rparr>"

definition counting_env :: "(nat, unit) pl_env" where
  "counting_env = \<lparr>en_host = counting_host, en_codec = \<lparr>rc_encode = (\<lambda>_. None), rc_decode = (\<lambda>_. None), rc_row_bytes = (\<lambda>_. 1)\<rparr>,
    en_record_bytes = (\<lambda>_. 1), en_runtime_bytes = (\<lambda>_ _. 1), en_output_bytes = (\<lambda>_. 1)\<rparr>"

definition counting_world :: "nat pl_world" where
  "counting_world = \<lparr>pw_host = 0, pw_grant = \<lparr>mg_hard_limit = 1024, mg_current = 0, mg_peak = 0\<rparr>, pw_io = []\<rparr>"

lemma counting_host_counts: "counts_blocks (en_host counting_env) id"
  by (auto simp: counts_blocks_def counting_env_def counting_host_def)

interpretation counting: block_host counting_env "\<lambda>n w. pw_host w = 0 + n"
  using block_host_counts [OF counting_host_counts, of 0] by simp

section \<open>Compiled routines\<close>

lemma compiled_program_ok:
  assumes "compile_with_arguments_and_limits source names limits = Inr p"
  shows "program_ok p"
  using compile_safe [of limits source names] assms by (simp add: safe_def)

text \<open>
  C7. No routine that the compiler accepts makes the virtual machine panic, on any host and with
  any arguments and limits: every local, loop and handler that its instructions name exists.
\<close>

theorem compiled_routine_never_panics:
  assumes "compile_with_arguments_and_limits source names limits = Inr p"
    and "execute_with_memory_grant env p arguments run_limits w = Some (r, w')"
  shows "r \<noteq> Inl VmPanic"
  using any_host.execute_stops [OF compiled_program_ok [OF assms(1)] TrueI assms(2)] by simp

text \<open>
  C10. A routine that the compiler accepts ends on every host, with a result or an error: the limit
  of steps bounds its loops, also those that suspend the machine for a query. The limit has to be
  below the greatest \<open>usize\<close>, at which the counter of steps stays.
\<close>

theorem compiled_routine_terminates:
  assumes "compile_with_arguments_and_limits source names limits = Inr p" and "max_steps run_limits < usize_max"
  shows "\<exists>r w'. execute_with_memory_grant env p arguments run_limits w = Some (r, w')"
  using any_host.execute_returns [OF compiled_program_ok [OF assms(1)] TrueI assms(2)] by auto

text \<open>
  C8. When a compiled routine completes, it has committed or rolled back every exception block that
  it began: the host has as many open savepoints as before the call, wherever the routine has jumped
  or returned from and whatever errors its handlers have caught.
\<close>

theorem completed_routine_closes_blocks:
  assumes "compile_with_arguments_and_limits source names limits = Inr p" and "counts_blocks (en_host env) depth"
    and "execute_with_memory_grant env p arguments run_limits w = Some (Inr out, w')"
  shows "depth (pw_host w') = depth (pw_host w)"
  using block_host.execute_stops [OF block_host_counts [OF assms(2)] compiled_program_ok [OF assms(1)] _ assms(3), of "depth (pw_host w)"]
  by simp

section \<open>Errors\<close>

lemma rollback_regions_result:
  assumes c: "counts_blocks (en_host env) depth"
    and "rollback_regions env stop rs (vs, w) = (r, (vs', w'))" and "vs_active_regions vs = rs"
    and "depth (pw_host w) = d + length rs"
  shows "(r = Inr True \<longrightarrow> (\<exists>x inner outer. stop = Some x \<and> rs = inner @ x # outer \<and> x \<notin> set inner \<and>
      vs' = vs\<lparr>vs_active_regions := outer\<rparr> \<and> depth (pw_host w') = d + length outer)) \<and>
    (r = Inr False \<longrightarrow> vs' = vs\<lparr>vs_active_regions := []\<rparr> \<and> depth (pw_host w') = d \<and> (\<forall>x. stop = Some x \<longrightarrow> x \<notin> set rs)) \<and>
    (r = Inl f \<longrightarrow> (\<exists>e w1 w2. ho_rollback_exception_block (en_host env) w1 = (Inl e, w2)))"
  using assms(2-)
proof (induction rs arbitrary: vs w)
  case Nil
  then show ?case by auto
next
  case (Cons x rs)
  obtain r1 w1 where h: "ho_rollback_exception_block (en_host env) w = (r1, w1)"
    by (cases "ho_rollback_exception_block (en_host env) w")
  show ?case
  proof (cases r1)
    case (Inl e)
    with Cons.prems(1) h have "isl r" by (auto simp: vm_put_def vm_host_def eff_bind_def)
    with h Inl show ?thesis by (cases r) auto
  next
    case (Inr u)
    have d: "depth (pw_host w1) = d + length rs" using counts_rollback [OF c] h Inr Cons.prems(3) by simp
    show ?thesis
    proof (cases "stop = Some x")
      case True
      with Cons.prems(1) h Inr have r: "r = Inr True" "vs' = vs\<lparr>vs_active_regions := rs\<rparr>" "w' = w1"
        by (simp_all add: vm_put_def vm_host_def eff_bind_def)
      have "\<exists>y inner outer. stop = Some y \<and> x # rs = inner @ y # outer \<and> y \<notin> set inner \<and>
          vs' = vs\<lparr>vs_active_regions := outer\<rparr> \<and> depth (pw_host w') = d + length outer"
        by (rule exI [of _ x], rule exI [of _ "[]"], rule exI [of _ rs]) (simp add: True r d)
      with r(1) show ?thesis by simp
    next
      case False
      with Cons.prems h Inr have "rollback_regions env stop rs (vs\<lparr>vs_active_regions := rs\<rparr>, w1) = (r, (vs', w'))"
        by (simp add: vm_put_def vm_host_def eff_bind_def)
      note IH = Cons.IH [OF this _ d]
      have "\<exists>y inner outer. stop = Some y \<and> x # rs = inner @ y # outer \<and> y \<notin> set inner \<and>
          vs' = vs\<lparr>vs_active_regions := outer\<rparr> \<and> depth (pw_host w') = d + length outer" if "r = Inr True"
      proof -
        from IH that obtain y inner outer where "stop = Some y" "rs = inner @ y # outer" "y \<notin> set inner"
          "vs' = vs\<lparr>vs_active_regions := outer\<rparr>" "depth (pw_host w') = d + length outer" by auto
        with False show ?thesis by (intro exI [of _ y] exI [of _ "x # inner"] exI [of _ outer]) auto
      qed
      with IH False show ?thesis by auto
    qed
  qed
qed

text \<open>The local that a diagnostic variable has.\<close>

definition write_slot :: "nat option \<Rightarrow> 'a \<Rightarrow> 'a list \<Rightarrow> 'a list" where
  "write_slot slot v xs = (case slot of None \<Rightarrow> xs | Some i \<Rightarrow> xs[i := v])"

text \<open>
  C9. How the machine handles an error of an instruction or of the response to a query
  (\<open>handle_error\<close>), for a program that is well-formed as every compiled one is, on a host that
  counts its blocks and whose rollbacks of savepoints do not fail. When no handler takes the error, all
  active blocks are rolled back and the error is returned as it is. When a handler takes it and its
  block is active, the active blocks inside are rolled back, the block itself too, and the ones around
  it stay; the machine goes on at the handler, with the error as the active one and in the two
  diagnostic variables, and with no loop or cursor. When the block of the handler is not active, all
  are rolled back and the result is an internal error. The errors that the loop of the machine raises
  itself before an instruction (the limit of steps, a cancellation, the begin or commit of a block)
  do not come here: they end the routine and leave its blocks open (\<open>step_limit_leaves_block_open\<close>).
\<close>

theorem error_unwinds_blocks:
  assumes c: "counts_blocks (en_host env) depth" and rollbacks: "\<forall>w. is_ok (fst (ho_rollback_exception_block (en_host env) w))"
    and p: "program_ok (vs_program vs)" and len: "length (vs_locals vs) = length (pg_locals (vs_program vs))"
    and d: "depth (pw_host w) = d + length (vs_active_regions vs)"
    and e: "handle_error env e (vs, w) = (r, (vs', w'))"
  shows "case select_handler (vs_program vs) (vs_ip vs) e of
      None \<Rightarrow> r = Inl (VmErr e) \<and> vs' = vs\<lparr>vs_active_regions := []\<rparr> \<and> depth (pw_host w') = d
    | Some h \<Rightarrow>
        if (eh_protected_start h, eh_protected_end h) \<in> set (vs_active_regions vs)
        then r = Inr () \<and> (\<exists>inner outer. vs_active_regions vs = inner @ (eh_protected_start h, eh_protected_end h) # outer \<and>
          (eh_protected_start h, eh_protected_end h) \<notin> set inner \<and>
          vs_active_regions vs' = outer \<and> depth (pw_host w') = d + length outer) \<and>
          vs_ip vs' = eh_target h \<and> vs_active_exception vs' = Some e \<and>
          vs_locals vs' = write_slot (pg_sqlerrm_slot (vs_program vs)) (PvText (pe_message e))
            (write_slot (pg_sqlstate_slot (vs_program vs)) (PvText (pe_sql_state e)) (vs_locals vs)) \<and>
          vs_query_loops vs' = bm_empty \<and> vs_integer_loops vs' = bm_empty \<and> vs_foreach_loops vs' = bm_empty \<and> vs_cursors vs' = bm_empty
        else r = Inl (VmErr (internal_err ''PL/pgSQL exception handler region was not active'')) \<and>
          vs' = vs\<lparr>vs_active_regions := []\<rparr> \<and> depth (pw_host w') = d"
proof -
  have never: "ho_rollback_exception_block (en_host env) w1 \<noteq> (Inl f, w2)" for w1 f w2
  proof
    assume "ho_rollback_exception_block (en_host env) w1 = (Inl f, w2)"
    moreover have "is_ok (fst (ho_rollback_exception_block (en_host env) w1))" using rollbacks by blast
    ultimately show False by simp
  qed
  show ?thesis
  proof (cases "select_handler (vs_program vs) (vs_ip vs) e")
    case None
    obtain r1 vs1 w1 where roll: "rollback_regions env None (vs_active_regions vs) (vs, w) = (r1, (vs1, w1))"
      by (cases "rollback_regions env None (vs_active_regions vs) (vs, w)")
    note R = rollback_regions_result [OF c roll refl d]
    have "r1 = Inr False" using R never by (cases r1) auto
    with None e roll R show ?thesis by (auto simp: handle_error_def vm_get_def vm_throw_def eff_bind_def)
  next
    case (Some h)
    let ?x = "(eh_protected_start h, eh_protected_end h)" and ?n = "length (pg_locals (vs_program vs))"
    obtain r1 vs1 w1 where roll: "rollback_regions env (Some ?x) (vs_active_regions vs) (vs, w) = (r1, (vs1, w1))"
      by (cases "rollback_regions env (Some ?x) (vs_active_regions vs) (vs, w)")
    note R = rollback_regions_result [OF c roll refl d]
    then obtain found where r1: "r1 = Inr found" using never by (cases r1) auto
    show ?thesis
    proof (cases found)
      case False
      with R r1 have "?x \<notin> set (vs_active_regions vs)" "vs1 = vs\<lparr>vs_active_regions := []\<rparr>" "depth (pw_host w1) = d" by simp_all
      with e Some roll r1 False show ?thesis by (simp add: handle_error_def vm_get_def vm_guard_def eff_guard_def eff_bind_def)
    next
      case True
      with R r1 obtain inner outer where rs: "vs_active_regions vs = inner @ ?x # outer" "?x \<notin> set inner"
        and vs1: "vs1 = vs\<lparr>vs_active_regions := outer\<rparr>" and w1: "depth (pw_host w1) = d + length outer" by auto
      have "handler_ok (length (pg_instructions (vs_program vs)) - 1) h"
        and slots: "slot_ok ?n (pg_sqlstate_slot (vs_program vs))" "slot_ok ?n (pg_sqlerrm_slot (vs_program vs))"
        using p select_handler_in [OF Some] by (simp_all add: program_ok_def Let_def)
      then have target: "\<not> length (pg_instructions (vs_program vs)) < eh_target h"
        unfolding handler_ok_def by linarith
      have "eff_bind (set_diagnostic (pg_sqlstate_slot (vs_program vs)) (pe_sql_state e)) (\<lambda>_.
          eff_bind (set_diagnostic (pg_sqlerrm_slot (vs_program vs)) (pe_message e)) (\<lambda>_.
          eff_bind (vm_put (\<lambda>vs. vs\<lparr>vs_active_exception := Some e\<rparr>)) (\<lambda>_. vm_goto (eh_target h))))
          (vs1\<lparr>vs_query_loops := bm_empty, vs_integer_loops := bm_empty, vs_foreach_loops := bm_empty, vs_cursors := bm_empty\<rparr>, w1) = (r, (vs', w'))"
        using e Some roll r1 True by (simp add: handle_error_def vm_get_def vm_guard_def vm_put_def eff_guard_def eff_bind_def)
      with rs vs1 w1 slots len target Some show ?thesis
        by (auto simp: set_diagnostic_def vm_set_local_def vm_get_def vm_put_def vm_goto_def vm_target_def vm_res_def checked_target_def
            guard_res_def eff_guard_def eff_bind_def slot_ok_def write_slot_def split: option.splits if_splits)
    qed
  qed
qed

section \<open>Runs\<close>

text \<open>
  Runs on the counting host, for the witnesses and for sources that the machine mishandles. The
  simplifier runs the machine one operation after the other: the continuation of \<open>eff_bind\<close> is not
  touched before the result of the operation is there.
\<close>

lemma eff_bind_weak_cong: "f = f' \<Longrightarrow> eff_bind f g = eff_bind f' g"
  by simp

lemma bm_list_empty [simp]: "bm_list bm_empty = []"
  by (simp add: bm_empty.rep_eq)

lemma host_expressions:
  "parse_usize ''1'' = Some 1" "parse_usize ''3'' = Some 3" "parse_usize ''7'' = Some 7" "parse_usize ''8'' = Some 8"
  "parse_usize ''msg'' = None" "parse_usize ''9223372036854775807'' = Some 9223372036854775807"
  "positional_parameter_index ''1'' = None" "positional_parameter_index ''3'' = None" "positional_parameter_index ''7'' = None"
  "positional_parameter_index ''8'' = None" "positional_parameter_index ''msg'' = None"
  "positional_parameter_index ''9223372036854775807'' = None"
  "record_field_reference ''1'' = None" "record_field_reference ''3'' = None" "record_field_reference ''7'' = None"
  "record_field_reference ''8'' = None" "record_field_reference ''msg'' = None"
  "record_field_reference ''9223372036854775807'' = None"
  by code_simp+

lemmas run_simps = vm_continue_def vm_yield_def step_assign_def step_assign_field_def step_jump_if_false_def step_raise_def
  step_integer_for_start_def step_integer_for_next_def step_return_def exec_instruction_def handler_matches_def
  handler_key_le_def select_handler_def set_diagnostic_def handle_error_def handle_runtime_step_error_def vm_catch_def
  retain_loops_def begin_region_def vm_prelude_def vm_step_def vm_cycle_def attach_output_memory_def vm_return_def
  vm_finish_def resume_start_def drop_state_def resume_def exception_regions_def bind_arguments_def vm_initial_state_def
  new_with_memory_grant_def execute_with_memory_grant_def run_machine.simps
  vm_get_def vm_put_def vm_throw_def vm_res_def vm_guard_def vm_host_def vm_eval_def vm_next_def checked_target_def
  vm_target_def vm_goto_def vm_set_local_def vm_resize_def estimated_vm_runtime_bytes_def estimated_vm_output_bytes_def
  refresh_memory_def integer_loop_advance_def vm_eval_integer_def evaluate_integer_expression_def evaluate_message_def
  reservation_resize_def grant_try_reserve_def grant_acquire_def grant_take_def grant_raise_peak_def grant_release_def
  reservation_drop_def initialize_runtime_records_def ensure_runtime_record_limit_def evaluate_runtime_expression_def expand_runtime_record_fields_def
  counting_env_def counting_host_def counting_world_def eff_guard_def guard_res_def Let_def eff_bind_def on_fst_def eff_each.simps
  vm_loop.simps limits_default_def host_expressions pl_err_def limit_err_def internal_err_def checked_i64_def in_i64_def
  int_of_value_def count_up_def usize_max_def bm_contains_def is_null_def

text \<open>A routine that leaves a block and returns.\<close>

definition block_source :: string where
  "block_source = ''BEGIN
BEGIN
RETURN NEXT 7;
EXCEPTION
WHEN OTHERS THEN
RETURN NEXT 8;
END;
RETURN 1;
END''"

definition diagnostics :: "local_slot list" where
  "diagnostics = [\<lparr>ls_name = ''sqlstate'', ls_constant = False, ls_kind = LkScalar\<rparr>, \<lparr>ls_name = ''sqlerrm'', ls_constant = False, ls_kind = LkScalar\<rparr>]"

definition block_program :: program where
  "block_program = \<lparr>pg_version = 3,
     pg_instructions = [InReturn (Some ''7'') True, InJump 3, InReturn (Some ''8'') True, InReturn (Some ''1'') False, InCheckpoint],
     pg_locals = diagnostics, pg_cursors = [],
     pg_handlers = [\<lparr>eh_protected_start = 0, eh_protected_end = 1, eh_matcher = EmOthers, eh_target = 2\<rparr>],
     pg_sqlstate_slot = Some 0, pg_sqlerrm_slot = Some 1\<rparr>"

lemma block_source_compiles: "compile_with_arguments_and_limits block_source [] limits_default = Inr block_program"
  by code_simp

lemma block_program_runs:
  "\<exists>out w. execute_with_memory_grant counting_env block_program [] limits_default counting_world = Some (Inr out, w) \<and>
     vo_return_value out = Some (PvInt64 1) \<and> vo_returned_rows out = [PvInt64 7]"
  by (simp add: run_simps block_program_def diagnostics_def cong: eff_bind_weak_cong)

lemma compiled_routine_never_panics_witness:
  "\<exists>r w. execute_with_memory_grant counting_env block_program [] limits_default counting_world = Some (r, w) \<and> r \<noteq> Inl VmPanic"
  using block_program_runs compiled_routine_never_panics [OF block_source_compiles] by blast

lemma compiled_routine_terminates_witness:
  "\<exists>r w. execute_with_memory_grant counting_env block_program [] limits_default counting_world = Some (r, w)"
  by (rule compiled_routine_terminates [OF block_source_compiles]) (simp add: limits_default_def usize_max_def)

lemma completed_routine_closes_blocks_witness:
  "\<exists>out w. execute_with_memory_grant counting_env block_program [] limits_default counting_world = Some (Inr out, w) \<and> pw_host w = 0"
  using block_program_runs completed_routine_closes_blocks [OF block_source_compiles counting_host_counts]
  by (fastforce simp: counting_world_def)

lemma error_unwinds_blocks_witness:
  "\<exists>vs w. handle_error counting_env (pl_err ''P0001'' ''msg'')
      (vm_initial_state block_program limits_default [PvNull, PvNull] bm_empty \<lparr>mr_bytes = 0\<rparr>\<lparr>vs_active_regions := [(0, 1)]\<rparr>, counting_world\<lparr>pw_host := 1\<rparr>) =
      (Inr (), (vs, w)) \<and> vs_ip vs = 2 \<and> vs_active_regions vs = [] \<and> pw_host w = 0 \<and> vs_locals vs = [PvText ''P0001'', PvText ''msg'']"
proof -
  let ?e = "pl_err ''P0001'' ''msg''" and ?h = "\<lparr>eh_protected_start = 0, eh_protected_end = 1, eh_matcher = EmOthers, eh_target = 2\<rparr>"
  let ?vs = "(vm_initial_state block_program limits_default [PvNull, PvNull] bm_empty \<lparr>mr_bytes = 0\<rparr> :: unit vm_state)\<lparr>vs_active_regions := [(0, 1)]\<rparr>"
  let ?w = "counting_world\<lparr>pw_host := 1\<rparr>"
  obtain r vs w where h: "handle_error counting_env ?e (?vs, ?w) = (r, (vs, w))" by (metis prod.collapse)
  have s: "select_handler (vs_program ?vs) (vs_ip ?vs) ?e = Some ?h"
    by (simp add: vm_initial_state_def block_program_def select_handler_def handler_matches_def pl_err_def)
  have "program_ok (vs_program ?vs)" using compiled_program_ok [OF block_source_compiles] by (simp add: vm_initial_state_def)
  moreover have "length (vs_locals ?vs) = length (pg_locals (vs_program ?vs))"
    by (simp add: vm_initial_state_def block_program_def diagnostics_def bind_arguments_def)
  moreover have "\<forall>w. is_ok (fst (ho_rollback_exception_block (en_host counting_env) w))" by (simp add: counting_env_def counting_host_def)
  moreover have "id (pw_host ?w) = 0 + length (vs_active_regions ?vs)" by simp
  ultimately have "r = Inr () \<and> vs_ip vs = 2 \<and> vs_active_regions vs = [] \<and> pw_host w = 0 \<and> vs_locals vs = [PvText ''P0001'', PvText ''msg'']"
    using error_unwinds_blocks [OF counting_host_counts _ _ _ _ h, unfolded s]
    by (auto simp: Cons_eq_append_conv vm_initial_state_def block_program_def diagnostics_def bind_arguments_def write_slot_def pl_err_def)
  with h show ?thesis by blast
qed

text \<open>\<open>FOR i IN REVERSE 8 .. 1 BY 3\<close> assigns 8, 5 and 2.\<close>

definition loop_locals :: "unit vm_state" where
  "loop_locals = vm_initial_state (block_program\<lparr>pg_locals := \<lparr>ls_name = ''i'', ls_constant = False, ls_kind = LkScalar\<rparr> # diagnostics\<rparr>)
     limits_default [] bm_empty \<lparr>mr_bytes = 0\<rparr>"

lemma loop_expressions:
  "evaluate_integer_expression counting_env ''8'' context (loop_locals, counting_world) = (Inr 8, (loop_locals, counting_world))"
  "evaluate_integer_expression counting_env ''1'' context (loop_locals, counting_world) = (Inr 1, (loop_locals, counting_world))"
  "evaluate_integer_expression counting_env ''3'' context (loop_locals, counting_world) = (Inr 3, (loop_locals, counting_world))"
  by (simp_all add: run_simps loop_locals_def vm_initial_state_def cong: eff_bind_weak_cong)

lemma integer_for_visits_progression_witness:
  "\<exists>vs1 st3 vs4. step_integer_for_start counting_env 0 ''8'' ''1'' ''3'' True 4 (loop_locals, counting_world) = (Inr SoContinue, (vs1, counting_world)) \<and>
     vs_locals vs1 ! 0 = PvInt64 8 \<and> for_turns 0 1 0 [PvInt64 5, PvInt64 2] (vs1, counting_world) st3 \<and>
     step_integer_for_next 0 1 st3 = (Inr SoContinue, (vs4, snd st3)) \<and> bm_get (vs_integer_loops vs4) 0 = None"
proof -
  have start: "vs_ip loop_locals = 0" "length (vs_locals loop_locals) = 3" "length (pg_instructions (vs_program loop_locals)) = 5"
    by (simp_all add: loop_locals_def vm_initial_state_def block_program_def bind_arguments_def diagnostics_def)
  obtain vs1 where vs1: "step_integer_for_start counting_env 0 ''8'' ''1'' ''3'' True 4 (loop_locals, counting_world) = (Inr SoContinue, (vs1, counting_world))"
    and v0: "vs_locals vs1 = (vs_locals loop_locals)[0 := PvInt64 (word_of_int 8)]"
    and turns: "\<And>vals st3 st4. for_turns 0 1 0 vals (vs1, counting_world) st3 \<Longrightarrow> keeps_loop 0 st3 st4 \<Longrightarrow> next_of_progression 0 1 0 8 (- 3) 2 (length vals) st4"
    using integer_for_visits_progression [OF loop_expressions, where slot = 0 and reverse = True and exit = 4 and body = 1 and d = "- 3" and n = 2]
    by (auto simp: start)
  have keep: "keeps_loop 0 st st" for st :: "unit vm_state \<times> nat pl_world" by (simp add: keeps_loop_def)
  have 0: "for_turns 0 1 0 [] (vs1, counting_world) (vs1, counting_world)" by (rule turns_none)
  from turns [OF 0 keep] obtain vs2 where 1: "step_integer_for_next 0 1 (vs1, counting_world) = (Inr SoContinue, (vs2, counting_world))"
    "vs_locals vs2 = (vs_locals vs1)[0 := PvInt64 5]" "bm_get (vs_integer_loops vs2) 0 \<noteq> None"
    by (auto simp: next_of_progression_def)
  from turns_next [OF 0 keep 1(1)] 1(2,3) v0 start have t1: "for_turns 0 1 0 [PvInt64 5] (vs1, counting_world) (vs2, counting_world)" by simp
  from turns [OF this keep] obtain vs3 where 2: "step_integer_for_next 0 1 (vs2, counting_world) = (Inr SoContinue, (vs3, counting_world))"
    "vs_locals vs3 = (vs_locals vs2)[0 := PvInt64 2]" "bm_get (vs_integer_loops vs3) 0 \<noteq> None"
    by (auto simp: next_of_progression_def)
  from turns_next [OF t1 keep 2(1)] 2(2,3) 1(2) v0 start have t2: "for_turns 0 1 0 [PvInt64 5, PvInt64 2] (vs1, counting_world) (vs3, counting_world)" by simp
  from turns [OF this keep] obtain vs4 where "step_integer_for_next 0 1 (vs3, counting_world) = (Inr SoContinue, (vs4, counting_world))"
    "bm_get (vs_integer_loops vs4) 0 = None"
    by (auto simp: next_of_progression_def in_i64_def)
  with vs1 v0 t2 start show ?thesis by fastforce
qed

section \<open>Sources that the machine mishandles\<close>

text \<open>
  A handler that takes an error clears the iterators of all loops, also those of the loops around
  its block, which then fail with an internal error in their next turn.
\<close>

definition loop_source :: string where
  "loop_source = ''DECLARE i int
BEGIN
FOR i IN 1 .. 3 LOOP
BEGIN
RAISE msg;
EXCEPTION
WHEN OTHERS THEN
RETURN NEXT 8;
END;
END LOOP;
END''"

definition loop_program :: program where
  "loop_program = \<lparr>pg_version = 3, pg_instructions = [InIntegerForStart 0 ''1'' ''3'' ''1'' False 5, InRaise RlException (Some ''msg'') None,
     InJump 4, InReturn (Some ''8'') True, InIntegerForNext 0 1, InCheckpoint],
     pg_locals = \<lparr>ls_name = ''i'', ls_constant = False, ls_kind = LkScalar\<rparr> # diagnostics, pg_cursors = [],
     pg_handlers = [\<lparr>eh_protected_start = 1, eh_protected_end = 2, eh_matcher = EmOthers, eh_target = 3\<rparr>],
     pg_sqlstate_slot = Some 1, pg_sqlerrm_slot = Some 2\<rparr>"

lemma caught_error_ends_loops:
  "compile loop_source = Inr loop_program"
  "map_option fst (execute_with_memory_grant counting_env loop_program [] limits_default counting_world) =
     Some (Inl (VmErr (internal_err ''PL/pgSQL integer FOR iterator state is missing'')))"
  by code_simp (simp add: run_simps loop_program_def diagnostics_def cong: eff_bind_weak_cong)

text \<open>An error of the loop itself, such as the limit of steps, leaves the blocks open on the host.\<close>

definition endless_source :: string where
  "endless_source = ''BEGIN
BEGIN
LOOP
RETURN NEXT 7;
END LOOP;
EXCEPTION
WHEN OTHERS THEN
RETURN NEXT 8;
END;
END''"

definition endless_program :: program where
  "endless_program = \<lparr>pg_version = 3,
     pg_instructions = [InReturn (Some ''7'') True, InJump 0, InJump 4, InReturn (Some ''8'') True, InCheckpoint],
     pg_locals = diagnostics, pg_cursors = [],
     pg_handlers = [\<lparr>eh_protected_start = 0, eh_protected_end = 2, eh_matcher = EmOthers, eh_target = 3\<rparr>],
     pg_sqlstate_slot = Some 0, pg_sqlerrm_slot = Some 1\<rparr>"

lemma step_limit_leaves_block_open:
  "compile endless_source = Inr endless_program"
  "map_option (map_prod id pw_host) (execute_with_memory_grant counting_env endless_program [] (limits_default\<lparr>max_steps := 2\<rparr>) counting_world) =
     Some (Inl (VmErr (limit_err ''PL/pgSQL execution step limit exceeded'')), 1)"
  by code_simp (simp add: run_simps endless_program_def diagnostics_def cong: eff_bind_weak_cong)

text \<open>A loop up to the greatest 64-bit integer fails after its last turn.\<close>

definition last_source :: string where
  "last_source = ''DECLARE i int
BEGIN
FOR i IN 9223372036854775807 .. 9223372036854775807 LOOP
RETURN NEXT 1;
END LOOP;
END''"

definition last_program :: program where
  "last_program = \<lparr>pg_version = 3, pg_instructions = [InIntegerForStart 0 ''9223372036854775807'' ''9223372036854775807'' ''1'' False 3,
     InReturn (Some ''1'') True, InIntegerForNext 0 1, InCheckpoint],
     pg_locals = [\<lparr>ls_name = ''i'', ls_constant = False, ls_kind = LkScalar\<rparr>], pg_cursors = [], pg_handlers = [],
     pg_sqlstate_slot = None, pg_sqlerrm_slot = None\<rparr>"

lemma loop_to_greatest_integer_fails:
  "compile last_source = Inr last_program"
  "map_option fst (execute_with_memory_grant counting_env last_program [] limits_default counting_world) = Some (Inl (VmErr for_range_err))"
  by code_simp (simp add: run_simps last_program_def for_range_err_def cong: eff_bind_weak_cong)

end
