(* ===== verification/Spec2Isabelle.thy ===== *)
theory Spec2Isabelle
  imports OrdaBase BTreeMap Ids Locks LockManager Snapshot Ssi Page Reader Tuple Mvcc Effect WalRecord Wal WalLog WalSafety
    Disk Buffer BufferSafety WalRule Recovery Interval Values IndexKey BPlusTree BPlusTreeSafety
    Status StatusSafety Writer Durable DurableSafety DurableRuns
    PlText PlSyntax PlCompiler PlCompilerSafety
    PlData PlMemory PlRecord PlCursor PlVm PlDispatch PlVmSafety PlVmRuns PlLoops PlRoutine
begin

text \<open>
  A verification library for the transactional storage core of OrdaDB: the crates
  ordadb-transaction, ordadb-storage and ordadb-index under src/crates, the value types of
  ordadb-types, and the compiler and virtual machine of ordadb-plpgsql.

  \<^bold>\<open>The program.\<close> A transaction gets its id and its snapshots from the transaction manager
  (mvcc\_parts), takes locks in the lock manager (locks.rs), and in serializable mode records
  its reads and writes as predicates (ssi.rs). A row is encoded as a tuple (tuple.rs), lies in
  a slotted page (page.rs), which the buffer pool (buffer.rs) keeps in memory and the disk
  manager (disk.rs) in a file. Every change of a page is first a record of the write-ahead
  log (record.rs, wal\_parts); the pool flushes the log before it writes a page. After a crash
  the log is scanned, the changes of the committed transactions are redone and those of the
  others undone with compensation records (recovery\_pipeline.rs, recovery.rs). Secondary
  indexes are B+ trees over typed keys (ordadb-index); values, arrays, intervals and the types
  of columns are those of ordadb-types. Routines in PL/pgSQL are compiled to bytecode
  (ordadb-plpgsql), in which expressions and SQL stay text for the engine; a virtual machine runs
  the bytecode and calls the engine, its host, for expressions, queries and savepoints.

  \<^bold>\<open>How it is modelled.\<close> Structs are records and enums are datatypes with the names of the
  source; a field \<open>f\<close> of a struct gets a short prefix (\<open>wm_next_lsn\<close> of \<open>WalManager\<close>). Integers
  that wrap or are checked are words; \<open>usize\<close> counts of things in memory are natural numbers
  with the checks of the code against \<open>usize_max\<close>. An error is the SQLSTATE of the
  \<open>DbError\<close>, a fallible pure function returns \<open>db_error + 'a\<close> (\<open>res\<close>), and a fallible method
  is a function from the state to the result and the new state (\<open>eff\<close>), so that a change made
  before an error stays. Failing calls of the file system are an oracle in the state: a list of
  outcomes, success or the number of bytes that still got written. A mutex makes one method
  one step, and threads are sequences of such steps in any order. A crash stops the machine: of a
  file the part that has been synchronized stays, and any prefix of what was written behind it.

  \<^bold>\<open>Theories.\<close>
  \<^item> OrdaBase (errors, results, words, little-endian bytes), BTreeMap (\<open>BTreeMap\<close> and
    \<open>BTreeSet\<close> as strictly ascending association lists), Effect (state and error, the file
    system, rules that compose invariants), Reader (byte readers with a cursor).
  \<^item> Ids: ids.rs and fault.rs.
  \<^item> Locks: the data and the pure part of locks.rs, compatibility, the wait-for graph and
    the search for cycles, equal to a specification by transitive closure. LockManager: the
    operations, and \<open>lock_step\<close>, in which any number of threads call them.
  \<^item> Snapshot: characteristics, outcomes and snapshots; Mvcc: the transaction manager, the
    visibility rule and savepoints of state\_and\_lifecycle.rs. In \<open>tm_step\<close> a transaction begins in
    one step, so that ids are registered in their order (snapshots are exact then); in \<open>tm_race\<close> the
    two critical sections of \<open>begin\<close> interleave with those of other threads. The locale
    \<open>status_provider\<close> is the trait through which the manager asks for outcomes.
  \<^item> Status: status.rs, the durable table of outcomes; StatusSafety: the exact result of its
    reconciliation with the log, its file, and the interpretation of \<open>status_provider\<close>.
  \<^item> Durable: \<open>DurableTransaction\<close> of state\_and\_lifecycle.rs. DurableSafety: the commit
    protocol (\<open>sys_step\<close>: the store says Committed before the log does) under failures, threads
    and crashes. DurableRuns: the methods as runs of that protocol, and the survival of
    acknowledged commits. The argument \<open>windows\<close> chooses the definition of \<open>atomic_replace\<close>: C4, C5 and
    C30 take the write-through move of Windows, and the other definition can lose the table
    (\<open>replace_loses_outcomes\<close>).
  \<^item> Writer: writer.rs, the lease of the one writer.
  \<^item> Ssi: all of ssi.rs.
  \<^item> Page: all of page.rs over bytes; Tuple: all of tuple.rs.
  \<^item> WalRecord: record.rs; Wal: manager\_and\_codec.rs; WalLog: the invariant \<open>wal_ok\<close>
    between the manager and the records in its file, for every operation; WalSafety: runs with
    crashes (\<open>wal_next\<close>), the refinement of an abstract log and the durability of outcomes. The
    argument \<open>faults_ok\<close> of the runs says which outcomes of the calls on the log file are considered:
    what is promised of the log (C4, C5, C25 to C28, C30, C33) holds for \<open>no_double_fault\<close>, any failures
    but two consecutive ones. The code does not survive two: the truncation that is to repair a
    torn append fails unnoticed (C29). Opening the log takes all bytes that it finds as synchronized,
    as the code does (\<open>open_trusts_unsynced_bytes\<close>); in the runs a crash is one of the machine, so
    that what is found at opening is on the disk.
  \<^item> Disk: disk.rs and recovery.rs; Buffer: buffer.rs; BufferSafety: the pool as a map from
    page ids to pages, its pins, and the rule that the log goes first, in a locale over any
    durability barrier. Its callers keep to the contract \<open>op_legal\<close>: a guard operation has its guard,
    and a page that is installed as clean is the page of the file (the only caller of \<open>install\<close>,
    the database store, installs dirty pages); WalRule: the interpretation of the barrier by the write-ahead log.
  \<^item> Recovery: recovery\_pipeline.rs.
  \<^item> Interval: intervals with their parser and printer; Values: scalar types, assignability and
    arrays (both lib.rs of ordadb-types). The printer and the parser are inverse, and an array
    is built exactly when it is well formed.
  \<^item> IndexKey: index/types.rs, keys and their order, with the locale \<open>key_order\<close> for the facts
    that the tree needs of it. BPlusTree: index/operations.rs over an arena of nodes;
    BPlusTreeSafety: an arena that insertions have built represents a tree (\<open>tree_ok\<close>), from which
    follow termination, the exact result of insertions and range scans, and when validation
    accepts.

  \<^item> PlText, PlSyntax and PlCompiler: language/runtime.rs (scanners), contracts.rs,
    statements.rs and compiler.rs. A string is a list of characters up to U+00FF, and a slice out
    of bounds is the value \<open>E_PANIC\<close>. PlCompilerSafety: the invariant of the one pass, over
    its open frames and the jumps that wait for a target, and what it gives for programs.
  \<^item> PlData (values, events of queries, errors with their message), PlMemory (the grant of
    contracts.rs that all frames share, under any interleaving of threads), PlRecord (records and
    the evaluation of expressions, contracts.rs), PlCursor (runtime\_memory.rs), PlVm (the state of
    the machine) and PlDispatch (vm\_dispatch.rs, and the handling of errors of runtime.rs): an
    operation is a function on the machine and the world, which fails with an error or a panic.
    The two copies of the handling of errors in runtime.rs are one definition. PlVmSafety: every
    instruction keeps the invariant \<open>vm_inv\<close> of compiled programs, in the locale \<open>block_host\<close> over
    how the host counts its savepoints; PlVmRuns: the dispatch loop and whole runs; PlLoops: the
    two instructions of the integer FOR loop, for bodies that leave the iterator of the loop alone
    (\<open>keeps_loop\<close>; a body that catches an error does not), and the choice of a handler; PlRoutine: what compiler and machine promise
    together, and runs of sources that the machine mishandles.

  \<^bold>\<open>Bounds.\<close> No fuel is used except for the loops below. The scan of the log and the searches
  in the wait-for graph are recursive functions with a measure; the undo loop of recovery, and
  the loops of the B+ tree that follow the links between leaves, are partial functions, so that
  a run that does not end is the value \<open>None\<close>; so are the two loops of the PL/pgSQL machine, which
  end by its limit of steps. The descent in a B+ tree has the limit of the
  code (\<open>MAX_INDEX_DEPTH\<close>, the argument \<open>room\<close>); trees that insertions built never meet it.

  \<^bold>\<open>Parameters.\<close> Code that is not in the repository is an argument: the checksum of the crc32c
  crate (any function from bytes to \<open>u32\<close>), the codecs of rust\_decimal, chrono and serde\_json in
  the tuple codec (nothing is assumed of them; a row is read back if each of its values is,
    \<open>reads_back\<close>), the array codec that goes through serde\_json, and clocks and
  cancellation flags (inputs of the calls that read them). Parameters of the PL/pgSQL machine are
  its host, a record of functions with the methods of the trait \<open>PlpgsqlHost\<close>, the JSON of spilled
  rows, and the estimates of bytes, which depend on the capacities of collections.

  \<^bold>\<open>Not modelled.\<close> Poisoned mutexes, paths and permissions of files, allocation failures. The
  other crates: the SQL front end, planner and executor, the wire protocol, search, the cluster,
  the server and its tools, and the connectors; the manifest lists each of them. Of the PL/pgSQL
  machine the estimates of bytes, memory holds on an output, and details and hints of errors.
\<close>

end
